(* ===== verification/TacoPrelude.thy ===== *)
theory TacoPrelude
  imports Main "HOL-Library.Sublist" "HOL-Library.Code_Target_Nat"
begin

text \<open>
  The prelude of the development: the pieces of the JavaScript language and of its
  standard library that the modelled TypeScript uses, with the generic lemmas about them.

  A JavaScript string is modelled as a \<^typ>\<open>string\<close>, one \<^typ>\<open>char\<close> per UTF-16 code
  unit, so the model's alphabet is the code units below 256. Operations that depend on the
  alphabet (\<open>toLowerCase\<close>, the white space of \<open>trim\<close> and of the class \<open>\s\<close>) are exact on
  that alphabet. \<open>undefined\<close> is \<^const>\<open>None\<close>; an index is a \<^typ>\<open>nat\<close>.

  A JavaScript \<open>Map\<close> (and an object used as a dictionary) iterates in insertion order and
  keeps the position of a key that is set again; it is an association list with distinct
  keys, and the locale \<open>keyed_store\<close> states the laws its clients rely on.
\<close>

named_theorems js_string \<open>unfolding rules of the string functions\<close>
named_theorems js_map_simps \<open>lookup laws of insertion-ordered maps\<close>

section \<open>Characters\<close>

definition code_unit :: "char \<Rightarrow> nat" where
  "code_unit c = of_char c"

definition is_upper_ascii :: "char \<Rightarrow> bool" where
  "is_upper_ascii c \<longleftrightarrow> 65 \<le> code_unit c \<and> code_unit c \<le> 90"

definition is_lower_ascii :: "char \<Rightarrow> bool" where
  "is_lower_ascii c \<longleftrightarrow> 97 \<le> code_unit c \<and> code_unit c \<le> 122"

definition is_digit_ascii :: "char \<Rightarrow> bool" where
  "is_digit_ascii c \<longleftrightarrow> 48 \<le> code_unit c \<and> code_unit c \<le> 57"

definition is_alpha_ascii :: "char \<Rightarrow> bool" where
  "is_alpha_ascii c \<longleftrightarrow> is_upper_ascii c \<or> is_lower_ascii c"

definition is_alnum_ascii :: "char \<Rightarrow> bool" where
  "is_alnum_ascii c \<longleftrightarrow> is_alpha_ascii c \<or> is_digit_ascii c"

text \<open>White space of \<open>String.prototype.trim\<close> and of the regular-expression class \<open>\s\<close>: tab,
  line feed, vertical tab, form feed, carriage return, space, no-break space.\<close>

definition is_space :: "char \<Rightarrow> bool" where
  "is_space c \<longleftrightarrow>
     (9 \<le> code_unit c \<and> code_unit c \<le> 13) \<or> code_unit c = 32 \<or> code_unit c = 160"

text \<open>\<open>toLowerCase\<close> on the code units below 256: the ASCII letters and the Latin-1 capitals
  (192 to 222 without the multiplication sign 215).\<close>

definition char_lower :: "char \<Rightarrow> char" where
  "char_lower c =
     (if is_upper_ascii c \<or> (192 \<le> code_unit c \<and> code_unit c \<le> 222 \<and> code_unit c \<noteq> 215)
      then char_of (code_unit c + 32) else c)"

definition toLowerCase :: "string \<Rightarrow> string" where
  "toLowerCase s = map char_lower s"

section \<open>String functions\<close>

definition startsWith :: "string \<Rightarrow> string \<Rightarrow> bool" where
  "startsWith s p \<longleftrightarrow> take (length p) s = p"

definition endsWith :: "string \<Rightarrow> string \<Rightarrow> bool" where
  "endsWith s p \<longleftrightarrow> startsWith (rev s) (rev p)"

fun includes_str :: "string \<Rightarrow> string \<Rightarrow> bool" where
  "includes_str [] p = (p = [])"
| "includes_str (c # cs) p = (startsWith (c # cs) p \<or> includes_str cs p)"

definition trim :: "string \<Rightarrow> string" where
  "trim s = rev (dropWhile is_space (rev (dropWhile is_space s)))"

text \<open>\<open>indexOf\<close> of one character (\<open>-1\<close> is \<^const>\<open>None\<close>) and \<open>lastIndexOf\<close>.\<close>

fun indexOf :: "char \<Rightarrow> string \<Rightarrow> nat option" where
  "indexOf c [] = None"
| "indexOf c (x # xs) = (if x = c then Some 0 else map_option Suc (indexOf c xs))"

fun lastIndexOf :: "char \<Rightarrow> string \<Rightarrow> nat option" where
  "lastIndexOf c [] = None"
| "lastIndexOf c (x # xs) =
     (case lastIndexOf c xs of
        Some n \<Rightarrow> Some (Suc n)
      | None \<Rightarrow> if x = c then Some 0 else None)"

text \<open>\<open>slice(a, b)\<close> for \<open>0 \<le> a\<close> and \<open>0 \<le> b\<close>.\<close>

definition slice :: "nat \<Rightarrow> nat \<Rightarrow> 'a list \<Rightarrow> 'a list" where
  "slice a b xs = drop a (take b xs)"

text \<open>\<open>slice(-n)\<close>: the last \<open>n\<close> elements; JavaScript's \<open>slice(-0)\<close> is the whole array.\<close>

definition slice_last :: "nat \<Rightarrow> 'a list \<Rightarrow> 'a list" where
  "slice_last n xs = (if n = 0 then xs else drop (length xs - n) xs)"

text \<open>\<open>join(sep)\<close>.\<close>

fun join :: "string \<Rightarrow> string list \<Rightarrow> string" where
  "join sep [] = []"
| "join sep [x] = x"
| "join sep (x # y # ys) = x @ sep @ join sep (y # ys)"

text \<open>\<open>split\<close> at every character that satisfies \<open>p\<close>: always at least one piece.\<close>

fun split_by :: "(char \<Rightarrow> bool) \<Rightarrow> string \<Rightarrow> string list" where
  "split_by p [] = [[]]"
| "split_by p (c # cs) =
     (if p c then [] # split_by p cs
      else (case split_by p cs of
              [] \<Rightarrow> [[c]]
            | w # ws \<Rightarrow> (c # w) # ws))"

abbreviation split_char :: "char \<Rightarrow> string \<Rightarrow> string list" where
  "split_char d \<equiv> split_by (\<lambda>c. c = d)"

text \<open>\<open>split(/\s+/)\<close>: a run of white space is one separator; a leading or trailing run leaves
  an empty first or last piece.\<close>

fun squeeze_space :: "string \<Rightarrow> string" where
  "squeeze_space [] = []"
| "squeeze_space [c] = (if is_space c then [CHR '' ''] else [c])"
| "squeeze_space (c # d # cs) =
     (if is_space c then
        (if is_space d then squeeze_space (d # cs) else CHR '' '' # squeeze_space (d # cs))
      else c # squeeze_space (d # cs))"

definition split_space :: "string \<Rightarrow> string list" where
  "split_space s = split_char (CHR '' '') (squeeze_space s)"

section \<open>Lists and options\<close>

definition some_list :: "('a \<Rightarrow> bool) \<Rightarrow> 'a list \<Rightarrow> bool" where
  "some_list p xs \<longleftrightarrow> list_ex p xs"

fun find_index :: "('a \<Rightarrow> bool) \<Rightarrow> 'a list \<Rightarrow> nat option" where
  "find_index p [] = None"
| "find_index p (x # xs) = (if p x then Some 0 else map_option Suc (find_index p xs))"

text \<open>\<open>xs[i]\<close>: \<open>undefined\<close> out of range.\<close>

definition at :: "'a list \<Rightarrow> nat \<Rightarrow> 'a option" where
  "at xs i = (if i < length xs then Some (xs ! i) else None)"

text \<open>\<open>a ?? b\<close>, with the right operand an optional value and with a plain default.\<close>

definition coalesce :: "'a option \<Rightarrow> 'a option \<Rightarrow> 'a option" where
  "coalesce a b = (case a of Some x \<Rightarrow> Some x | None \<Rightarrow> b)"

definition or_else :: "'a option \<Rightarrow> 'a \<Rightarrow> 'a" where
  "or_else a d = (case a of Some x \<Rightarrow> x | None \<Rightarrow> d)"

text \<open>\<open>[...new Set(xs)]\<close>: first occurrences, in order.\<close>

fun uniq :: "'a list \<Rightarrow> 'a list" where
  "uniq [] = []"
| "uniq (x # xs) = x # filter (\<lambda>y. y \<noteq> x) (uniq xs)"

section \<open>Insertion-ordered maps\<close>

type_synonym ('k, 'v) js_map = "('k \<times> 'v) list"

definition jm_get :: "('k, 'v) js_map \<Rightarrow> 'k \<Rightarrow> 'v option" where
  "jm_get m k = map_of m k"

fun jm_set :: "('k, 'v) js_map \<Rightarrow> 'k \<Rightarrow> 'v \<Rightarrow> ('k, 'v) js_map" where
  "jm_set [] k v = [(k, v)]"
| "jm_set ((k', v') # m) k v = (if k' = k then (k, v) # m else (k', v') # jm_set m k v)"

definition jm_delete :: "('k, 'v) js_map \<Rightarrow> 'k \<Rightarrow> ('k, 'v) js_map" where
  "jm_delete m k = filter (\<lambda>e. fst e \<noteq> k) m"

definition jm_wf :: "('k, 'v) js_map \<Rightarrow> bool" where
  "jm_wf m \<longleftrightarrow> distinct (map fst m)"

section \<open>Lemmas\<close>

lemma lastIndexOf_None: "c \<notin> set xs \<Longrightarrow> lastIndexOf c xs = None"
  by (induction xs) auto

lemma lastIndexOf_append: "c \<notin> set ys \<Longrightarrow> lastIndexOf c (xs @ c # ys) = Some (length xs)"
  by (induction xs) (auto simp: lastIndexOf_None)

lemma or_else_simps [simp]: "or_else None d = d" "or_else (Some x) d = x"
  by (simp_all add: or_else_def)

lemma coalesce_simps [simp]: "coalesce None b = b" "coalesce (Some x) b = Some x"
  by (simp_all add: coalesce_def)

lemma coalesce_eq_None [simp]: "coalesce a b = None \<longleftrightarrow> a = None \<and> b = None"
  by (cases a) simp_all

lemma trim_ends:
  "s = [] \<or> (\<not> is_space (hd s) \<and> \<not> is_space (last s)) \<Longrightarrow> trim s = s"
  by (cases "s = []") (auto simp: trim_def hd_rev dropWhile_eq_self_iff [THEN iffD2])

lemma trim_trim [simp]: "trim (trim s) = trim s"
proof (cases "trim s = []")
  case False
  let ?d = "dropWhile is_space s"
  have t: "trim s = rev (dropWhile is_space (rev ?d))" by (simp add: trim_def)
  then have ne: "dropWhile is_space (rev ?d) \<noteq> []" using False by auto
  then have l: "\<not> is_space (last (trim s))"
    by (simp add: t last_rev hd_dropWhile)
  have "prefix (trim s) ?d" unfolding t
    by (metis rev_rev_ident suffix_dropWhile suffix_to_prefix)
  then have "hd (trim s) = hd ?d" using False by (metis hd_append2 prefix_def)
  moreover have "?d \<noteq> []" using False t by force
  ultimately have "\<not> is_space (hd (trim s))" by (simp add: hd_dropWhile)
  with l show ?thesis by (intro trim_ends) simp
next
  case True
  moreover have "trim [] = []" by (rule trim_ends) simp
  ultimately show ?thesis by simp
qed

lemma mem_map_filter: "y \<in> set (List.map_filter f xs) \<longleftrightarrow> (\<exists>x \<in> set xs. f x = Some y)"
  by (force simp: map_filter_def)

lemma startsWith_prefix: "startsWith s p \<longleftrightarrow> prefix p s"
  by (metis append_eq_conv_conj prefix_def startsWith_def)

lemma startsWith_Nil [simp]: "startsWith s []"
  by (simp add: startsWith_def)

lemma endsWith_suffix: "endsWith s p \<longleftrightarrow> suffix p s"
  by (simp add: endsWith_def startsWith_prefix suffix_to_prefix)

lemma set_uniq [simp]: "set (uniq xs) = set xs"
  by (induction xs) auto

lemma distinct_uniq [simp]: "distinct (uniq xs)"
  by (induction xs) (auto intro: distinct_filter)

lemma uniq_distinct: "distinct xs \<Longrightarrow> uniq xs = xs"
  by (induction xs) (auto intro: filter_True)

lemma slice_last_suffix: "\<exists>ys. xs = ys @ slice_last n xs"
  by (metis append.left_neutral append_take_drop_id slice_last_def)

lemma length_slice_last: "0 < n \<Longrightarrow> length (slice_last n xs) = min n (length xs)"
  by (simp add: slice_last_def)

lemma slice_last_all: "length xs \<le> n \<Longrightarrow> slice_last n xs = xs"
  by (simp add: slice_last_def)

subsection \<open>Splitting and joining\<close>

lemma split_by_not_Nil [simp]: "split_by p s \<noteq> []"
  by (cases s) (auto split: list.splits)

lemma split_by_no_sep: "\<forall>w \<in> set (split_by p s). \<forall>c \<in> set w. \<not> p c"
  by (induction s) (auto split: list.splits)

lemma split_by_append_sep:
  "p d \<Longrightarrow> split_by p (a @ d # b) = split_by p a @ split_by p b"
  by (induction a) (auto split: list.splits)

lemma split_by_simple: "\<forall>c \<in> set w. \<not> p c \<Longrightarrow> split_by p w = [w]"
  by (induction w) auto

lemma split_join:
  "ws \<noteq> [] \<Longrightarrow> \<forall>w \<in> set ws. d \<notin> set w \<Longrightarrow> split_char d (join [d] ws) = ws"
proof (induction "[d]" ws rule: join.induct)
  case (3 x y ys)
  then show ?case
    by (auto simp: split_by_append_sep intro!: split_by_simple)
qed (auto intro!: split_by_simple)

lemma join_split: "join [d] (split_char d s) = s"
proof (induction s)
  case (Cons c cs)
  then show ?case
    by (cases "split_char d cs" rule: list.exhaust; cases "tl (split_char d cs)")
      (auto split: list.splits)
qed simp

subsection \<open>The laws of a keyed store\<close>

locale keyed_store =
  fixes look :: "'m \<Rightarrow> 'k \<Rightarrow> 'v option"
    and put :: "'m \<Rightarrow> 'k \<Rightarrow> 'v \<Rightarrow> 'm"
    and del :: "'m \<Rightarrow> 'k \<Rightarrow> 'm"
    and wf :: "'m \<Rightarrow> bool"
  assumes look_put: "look (put m k v) k' = (if k' = k then Some v else look m k')"
    and look_del: "look (del m k) k' = (if k' = k then None else look m k')"
    and wf_put: "wf m \<Longrightarrow> wf (put m k v)"
    and wf_del: "wf m \<Longrightarrow> wf (del m k)"
begin

lemma put_del_same: "look (del (put m k v) k) k' = look (del m k) k'"
  by (simp add: look_put look_del)

lemma put_shadow: "look (put (put m k v) k w) k' = look (put m k w) k'"
  by (simp add: look_put)

lemma look_fold_del:
  "look (foldl del m ks) k = (if k \<in> set ks then None else look m k)"
  by (induction ks arbitrary: m) (auto simp: look_del)

lemma wf_fold_del: "wf m \<Longrightarrow> wf (foldl del m ks)"
  by (induction ks arbitrary: m) (auto simp: wf_del)

end

lemma fst_set_jm_set: "fst ` set (jm_set m k v) = insert k (fst ` set m)"
  by (induction m k v rule: jm_set.induct) auto

interpretation jmap: keyed_store jm_get jm_set jm_delete jm_wf
proof
  show "jm_get (jm_set m k v) k' = (if k' = k then Some v else jm_get m k')"
    for m :: "('a, 'b) js_map" and k v k'
    by (induction m k v rule: jm_set.induct) (auto simp: jm_get_def)
  show "jm_get (jm_delete m k) k' = (if k' = k then None else jm_get m k')"
    for m :: "('a, 'b) js_map" and k k'
    by (induction m) (auto simp: jm_get_def jm_delete_def)
  show "jm_wf m \<Longrightarrow> jm_wf (jm_set m k v)" for m :: "('a, 'b) js_map" and k v
    by (induction m k v rule: jm_set.induct) (auto simp: jm_wf_def fst_set_jm_set)
  show "jm_wf m \<Longrightarrow> jm_wf (jm_delete m k)" for m :: "('a, 'b) js_map" and k
    by (simp add: jm_wf_def jm_delete_def distinct_map_filter)
qed

lemmas jm_simps [simp] = jmap.look_put jmap.look_del
lemmas jm_wf_intros [intro] = jmap.wf_put jmap.wf_del

lemma jm_get_Nil [simp]: "jm_get [] k = None"
  by (simp add: jm_get_def)

lemma jm_wf_Nil [simp]: "jm_wf []"
  by (simp add: jm_wf_def)

lemma jm_get_iff: "jm_wf m \<Longrightarrow> jm_get m k = Some v \<longleftrightarrow> (k, v) \<in> set m"
  by (simp add: jm_get_def jm_wf_def)

subsection \<open>Invariants of a transition system\<close>

text \<open>A state machine with one initial state: what holds initially and is kept by every step
  holds in every reachable state.\<close>

locale transition_invariant =
  fixes step :: "'s \<Rightarrow> 's \<Rightarrow> bool" and init :: 's and I :: "'s \<Rightarrow> bool"
  assumes I_init: "I init"
    and I_step: "step s t \<Longrightarrow> I s \<Longrightarrow> I t"
begin

lemma I_steps: "step\<^sup>*\<^sup>* s t \<Longrightarrow> I s \<Longrightarrow> I t"
  by (induction rule: rtranclp_induct) (auto intro: I_step)

lemma I_reachable: "step\<^sup>*\<^sup>* init t \<Longrightarrow> I t"
  using I_steps I_init by blast

end

section \<open>Numbers as text\<close>

fun nat_text :: "nat \<Rightarrow> string" where
  "nat_text n =
     (if n < 10 then [char_of (48 + n)] else nat_text (n div 10) @ [char_of (48 + n mod 10)])"

declare nat_text.simps [simp del]

definition int_text :: "int \<Rightarrow> string" where
  "int_text n = (if n < 0 then CHR ''-'' # nat_text (nat (- n)) else nat_text (nat n))"

end
