(* ===== verification/JsRegex.thy ===== *)
theory JsRegex
  imports TacoPrelude
begin

text \<open>
  The fragment of JavaScript regular expressions that the modelled code tests strings with.
  Only \<open>RegExp.prototype.test\<close> is needed, so the meaning of an expression is the set of
  spans it matches; greediness and capture groups do not influence it.

  \<open>rx_ends r s i\<close> computes the positions at which a match that starts at \<open>i\<close> can end;
  \<open>rx_span\<close> is the textbook relation; \<open>rx_ends_span\<close> shows that the two agree.
\<close>

datatype rx =
    Eps                       \<comment> \<open>the empty expression\<close>
  | Cls "char \<Rightarrow> bool"        \<comment> \<open>one character of a class\<close>
  | Seq rx rx
  | Alt rx rx
  | Star rx
  | Bol                       \<comment> \<open>\<open>^\<close>\<close>
  | Eol                       \<comment> \<open>\<open>$\<close>, no \<open>m\<close> flag\<close>
  | WordB                     \<comment> \<open>\<open>\b\<close>\<close>

definition is_word :: "char \<Rightarrow> bool" where
  "is_word c \<longleftrightarrow> is_alnum_ascii c \<or> c = CHR ''_''"

definition word_at :: "string \<Rightarrow> nat \<Rightarrow> bool" where
  "word_at s i \<longleftrightarrow> i < length s \<and> is_word (s ! i)"

definition word_boundary :: "string \<Rightarrow> nat \<Rightarrow> bool" where
  "word_boundary s i \<longleftrightarrow> (0 < i \<and> word_at s (i - 1)) \<noteq> word_at s i"

text \<open>Iterating a step function; an iteration that consumes nothing is dropped, as JavaScript
  does, so \<open>length s - i\<close> iterations are enough.\<close>

fun star_ends :: "(nat \<Rightarrow> nat list) \<Rightarrow> nat \<Rightarrow> nat \<Rightarrow> nat list" where
  "star_ends f 0 i = [i]"
| "star_ends f (Suc n) i = i # concat (map (star_ends f n) (filter (\<lambda>j. i < j) (f i)))"

fun rx_ends :: "rx \<Rightarrow> string \<Rightarrow> nat \<Rightarrow> nat list" where
  "rx_ends Eps s i = [i]"
| "rx_ends (Cls p) s i = (if i < length s \<and> p (s ! i) then [Suc i] else [])"
| "rx_ends (Seq a b) s i = concat (map (rx_ends b s) (rx_ends a s i))"
| "rx_ends (Alt a b) s i = rx_ends a s i @ rx_ends b s i"
| "rx_ends (Star a) s i = star_ends (rx_ends a s) (length s - i) i"
| "rx_ends Bol s i = (if i = 0 then [i] else [])"
| "rx_ends Eol s i = (if i = length s then [i] else [])"
| "rx_ends WordB s i = (if word_boundary s i then [i] else [])"

text \<open>\<open>re.test(s)\<close>: a match that starts anywhere.\<close>

definition rx_test :: "rx \<Rightarrow> string \<Rightarrow> bool" where
  "rx_test r s \<longleftrightarrow> (\<exists>i \<in> set [0..<Suc (length s)]. rx_ends r s i \<noteq> [])"

text \<open>Derived forms: a literal, \<open>a?\<close>, \<open>a+\<close>, an alternative of several, the classes.\<close>

fun seqs :: "rx list \<Rightarrow> rx" where
  "seqs [] = Eps"
| "seqs (r # rs) = Seq r (seqs rs)"

fun alts :: "rx list \<Rightarrow> rx" where
  "alts [] = Cls (\<lambda>_. False)"
| "alts (r # rs) = Alt r (alts rs)"

definition chr :: "char \<Rightarrow> rx" where
  "chr c = Cls (\<lambda>x. x = c)"

definition lit :: "string \<Rightarrow> rx" where
  "lit s = seqs (map chr s)"

definition opt :: "rx \<Rightarrow> rx" where
  "opt r = Alt r Eps"

definition plus1 :: "rx \<Rightarrow> rx" where
  "plus1 r = Seq r (Star r)"

definition sp :: rx where
  "sp = Cls is_space"

definition nsp :: rx where
  "nsp = Cls (\<lambda>c. \<not> is_space c)"

definition sp1 :: rx where
  "sp1 = plus1 sp"

text \<open>\<open>.\<close> without and with the \<open>s\<close> flag.\<close>

definition dot :: rx where
  "dot = Cls (\<lambda>c. c \<noteq> CHR 0x0A \<and> c \<noteq> CHR 0x0D)"

definition any :: rx where
  "any = Cls (\<lambda>_. True)"

text \<open>The \<open>i\<close> flag: a class accepts a character if it accepts it in either case (the classes
  of the modelled expressions name ASCII letters only).\<close>

definition swap_case :: "char \<Rightarrow> char" where
  "swap_case c =
     (if is_upper_ascii c then char_of (code_unit c + 32)
      else if is_lower_ascii c then char_of (code_unit c - 32) else c)"

fun ci :: "rx \<Rightarrow> rx" where
  "ci (Cls p) = Cls (\<lambda>c. p c \<or> p (swap_case c))"
| "ci (Seq a b) = Seq (ci a) (ci b)"
| "ci (Alt a b) = Alt (ci a) (ci b)"
| "ci (Star a) = Star (ci a)"
| "ci r = r"

section \<open>The relational meaning\<close>

inductive rx_span :: "string \<Rightarrow> rx \<Rightarrow> nat \<Rightarrow> nat \<Rightarrow> bool" for s where
  eps: "rx_span s Eps i i"
| cls: "i < length s \<Longrightarrow> p (s ! i) \<Longrightarrow> rx_span s (Cls p) i (Suc i)"
| seq: "rx_span s a i k \<Longrightarrow> rx_span s b k j \<Longrightarrow> rx_span s (Seq a b) i j"
| alt1: "rx_span s a i j \<Longrightarrow> rx_span s (Alt a b) i j"
| alt2: "rx_span s b i j \<Longrightarrow> rx_span s (Alt a b) i j"
| star0: "rx_span s (Star a) i i"
| star1: "rx_span s a i k \<Longrightarrow> rx_span s (Star a) k j \<Longrightarrow> rx_span s (Star a) i j"
| bol: "i = 0 \<Longrightarrow> rx_span s Bol i i"
| eol: "i = length s \<Longrightarrow> rx_span s Eol i i"
| wordb: "word_boundary s i \<Longrightarrow> rx_span s WordB i i"

inductive_cases rx_span_EpsE [elim!]: "rx_span s Eps i j"
inductive_cases rx_span_ClsE [elim!]: "rx_span s (Cls p) i j"
inductive_cases rx_span_SeqE [elim!]: "rx_span s (Seq a b) i j"
inductive_cases rx_span_AltE [elim!]: "rx_span s (Alt a b) i j"
inductive_cases rx_span_BolE [elim!]: "rx_span s Bol i j"
inductive_cases rx_span_EolE [elim!]: "rx_span s Eol i j"
inductive_cases rx_span_WordBE [elim!]: "rx_span s WordB i j"

lemma rx_span_le: "rx_span s r i j \<Longrightarrow> i \<le> j"
  by (induction rule: rx_span.induct) auto

lemma rx_span_bound: "rx_span s r i j \<Longrightarrow> i \<le> length s \<Longrightarrow> j \<le> length s"
  by (induction rule: rx_span.induct) auto

lemma star_ends_sound:
  assumes "\<And>i j. j \<in> set (f i) \<Longrightarrow> rx_span s a i j"
  shows "j \<in> set (star_ends f n i) \<Longrightarrow> rx_span s (Star a) i j"
proof (induction n arbitrary: i)
  case (Suc n)
  then show ?case by (auto intro: rx_span.star0 rx_span.star1 assms)
qed (simp add: rx_span.star0)

lemma rx_ends_sound: "j \<in> set (rx_ends r s i) \<Longrightarrow> rx_span s r i j"
proof (induction r arbitrary: i j)
  case (Star a)
  then show ?case by (auto intro: star_ends_sound)
next
  case (Seq a b)
  then obtain k where "k \<in> set (rx_ends a s i)" "j \<in> set (rx_ends b s k)" by auto
  with Seq.IH show ?case by (blast intro: rx_span.seq)
qed (auto intro: rx_span.intros split: if_splits)

lemma star_ends_refl: "i \<in> set (star_ends f n i)"
  by (cases n) auto

lemma star_ends_step:
  "k \<in> set (f i) \<Longrightarrow> i < k \<Longrightarrow> j \<in> set (star_ends f n k) \<Longrightarrow> j \<in> set (star_ends f (Suc n) i)"
  by auto

text \<open>A larger budget computes the same ends once every step advances within the string.\<close>

lemma star_ends_budget:
  assumes "rx_span s (Star a) i j"
    and "\<And>i j. rx_span s a i j \<Longrightarrow> i \<le> length s \<Longrightarrow> j \<in> set (f i)"
    and "i \<le> length s" and "length s - i \<le> n"
  shows "j \<in> set (star_ends f n i)"
  using assms
proof (induction "Star a" i j arbitrary: n rule: rx_span.induct)
  case (star0 i)
  then show ?case by (simp add: star_ends_refl)
next
  case (star1 i k j)
  have ik: "i \<le> k" and k: "k \<le> length s"
    using star1.hyps(1) star1.prems(2) rx_span_le rx_span_bound by blast+
  show ?case
  proof (cases "i = k")
    case True
    then show ?thesis using star1 by simp
  next
    case False
    with ik k have "i < k" and "length s - k < length s - i" by auto
    with star1.prems(3) obtain m where n: "n = Suc m" and m: "length s - k \<le> m"
      by (cases n) auto
    have "k \<in> set (f i)" using star1.hyps(1) star1.prems(1,2) by blast
    moreover have "j \<in> set (star_ends f m k)"
      using star1.hyps(4) star1.prems(1) k m by blast
    ultimately show ?thesis using \<open>i < k\<close> n by (blast intro: star_ends_step)
  qed
qed

lemma rx_ends_complete: "rx_span s r i j \<Longrightarrow> i \<le> length s \<Longrightarrow> j \<in> set (rx_ends r s i)"
proof (induction r arbitrary: i j)
  case (Seq a b)
  then show ?case by (force dest: rx_span_bound)
next
  case (Star a)
  then show ?case using star_ends_budget[of s a i j "rx_ends a s" "length s - i"] by simp
qed auto

theorem rx_ends_span:
  "i \<le> length s \<Longrightarrow> j \<in> set (rx_ends r s i) \<longleftrightarrow> rx_span s r i j"
  using rx_ends_sound rx_ends_complete by blast

lemma rx_test_span: "rx_test r s \<longleftrightarrow> (\<exists>i j. i \<le> length s \<and> rx_span s r i j)"
proof -
  have "rx_test r s \<longleftrightarrow> (\<exists>i j. i \<le> length s \<and> j \<in> set (rx_ends r s i))"
    unfolding rx_test_def by (simp only: set_upt atLeastLessThan_iff bex_simps less_Suc_eq_le
        set_empty [symmetric] ex_in_conv [symmetric] Bex_def) simp
  then show ?thesis using rx_ends_span by blast
qed

end
