(* ===== verification/ShellRules.thy ===== *)
theory ShellRules
  imports JsRegex
begin

text \<open>
  Permission rules for shell commands: \<open>packages/sidecar/src/permissions/shellRuleMatching.ts\<close>.
  A rule is a string; an unescaped \<open>*\<close> makes it a wildcard pattern. The source turns a pattern
  into the text of a regular expression through two sentinels that stand for an escaped star
  and an escaped backslash; the model keeps the sentinels and replaces them on the list of
  pattern tokens, one token per literal character or star of the expression.

  The lemmas give the meaning of a pattern without regular expressions (\<open>glob\<close>) and the rule
  for a pattern that ends in a lone star.
\<close>

section \<open>Definitions\<close>

type_synonym permission_rule = string

abbreviation bslash :: char where
  "bslash \<equiv> CHR 0x5C"

definition ESCAPED_STAR :: string where
  "ESCAPED_STAR = [CHR 0x00] @ ''ESC_STAR'' @ [CHR 0x00]"

definition ESCAPED_BACKSLASH :: string where
  "ESCAPED_BACKSLASH = [CHR 0x00] @ ''ESC_BSLASH'' @ [CHR 0x00]"

definition SHELL_WRAPPERS :: "string list" where
  "SHELL_WRAPPERS =
     [''bash'', ''sh'', ''zsh'', ''fish'', ''env'', ''sudo'', ''doas'', ''powershell'', ''cmd'']"

definition isShellWrapperCommand :: "string \<Rightarrow> bool" where
  "isShellWrapperCommand firstToken \<longleftrightarrow> toLowerCase firstToken \<in> set SHELL_WRAPPERS"

datatype parsed_rule = Exact string | Wildcard string

text \<open>The backslashes directly before position \<open>i\<close> (the inner loop of \<open>hasWildcards\<close>).\<close>

fun backslashes_before :: "string \<Rightarrow> nat \<Rightarrow> nat" where
  "backslashes_before p 0 = 0"
| "backslashes_before p (Suc j) = (if p ! j = bslash then Suc (backslashes_before p j) else 0)"

definition hasWildcards :: "string \<Rightarrow> bool" where
  "hasWildcards p \<longleftrightarrow>
     list_ex (\<lambda>i. p ! i = CHR ''*'' \<and> backslashes_before p i mod 2 = 0) [0..<length p]"

definition parsePermissionRule :: "permission_rule \<Rightarrow> parsed_rule" where
  "parsePermissionRule rule = (if hasWildcards rule then Wildcard rule else Exact rule)"

text \<open>The first loop of \<open>matchWildcardPattern\<close>: escapes become sentinels.\<close>

fun process_escapes :: "string \<Rightarrow> string" where
  "process_escapes [] = []"
| "process_escapes [c] = [c]"
| "process_escapes (c # d # cs) =
     (if c = bslash \<and> d = CHR ''*'' then ESCAPED_STAR @ process_escapes cs
      else if c = bslash \<and> d = bslash then ESCAPED_BACKSLASH @ process_escapes cs
      else c # process_escapes (d # cs))"

text \<open>What the rest of the function builds: every other character is a literal of the
  expression (a special one is escaped), a star becomes \<open>.*\<close>, and the two sentinels are then
  turned back, in this order, into a literal star and a literal backslash.\<close>

datatype ptok = PLit char | PStar

definition pattern_tokens :: "string \<Rightarrow> ptok list" where
  "pattern_tokens s = map (\<lambda>c. if c = CHR ''*'' then PStar else PLit c) s"

function restore :: "string \<Rightarrow> char \<Rightarrow> ptok list \<Rightarrow> ptok list" where
  "restore sentinel c [] = []"
| "restore sentinel c (t # ts) =
     (if sentinel \<noteq> [] \<and> take (length sentinel) (t # ts) = map PLit sentinel
      then PLit c # restore sentinel c (drop (length sentinel) (t # ts))
      else t # restore sentinel c ts)"
  by pat_completeness auto
termination
  by (relation "measure (\<lambda>(_, _, ts). length ts)") (auto simp: length_greater_0_conv [symmetric] simp del: length_greater_0_conv)

definition tok_rx :: "ptok \<Rightarrow> rx" where
  "tok_rx t = (case t of PLit c \<Rightarrow> chr c | PStar \<Rightarrow> Star any)"

definition pattern_rx :: "string \<Rightarrow> rx" where
  "pattern_rx processed =
     (let toks = restore ESCAPED_BACKSLASH bslash
                   (restore ESCAPED_STAR (CHR ''*'') (pattern_tokens processed));
          unescapedStarCount = length (filter (\<lambda>c. c = CHR ''*'') processed);
          n = length toks
      in if 2 \<le> n \<and> drop (n - 2) toks = [PLit (CHR '' ''), PStar] \<and> unescapedStarCount = 1
         then seqs ([Bol] @ map tok_rx (take (n - 2) toks)
                      @ [opt (Seq (chr (CHR '' '')) (Star any)), Eol])
         else seqs ([Bol] @ map tok_rx toks @ [Eol]))"

definition matchWildcardPattern :: "string \<Rightarrow> string \<Rightarrow> bool" where
  "matchWildcardPattern pattern command =
     rx_test (pattern_rx (process_escapes (trim pattern))) command"

datatype rule_error = RuleEmpty | RuleShellWrapper string

definition validatePermissionRule :: "string \<Rightarrow> bool \<Rightarrow> rule_error + permission_rule" where
  "validatePermissionRule rule allowShellWrapper =
     (let trimmed = trim rule in
      if length trimmed = 0 then Inl RuleEmpty
      else let first = toLowerCase (hd (split_space trimmed)) in
        if \<not> allowShellWrapper \<and> isShellWrapperCommand first then Inl (RuleShellWrapper first)
        else Inr trimmed)"

section \<open>The meaning of a pattern\<close>

text \<open>Matching a token list at the front of a string, without regular expressions; \<open>K\<close> says
  what the rest of the string must be.\<close>

fun glob :: "(string \<Rightarrow> bool) \<Rightarrow> ptok list \<Rightarrow> string \<Rightarrow> bool" where
  "glob K [] s = K s"
| "glob K (PLit c # ts) s = (case s of [] \<Rightarrow> False | x # xs \<Rightarrow> x = c \<and> glob K ts xs)"
| "glob K (PStar # ts) s = (\<exists>n \<in> set [0..<Suc (length s)]. glob K ts (drop n s))"

text \<open>Spans of the expressions a pattern is built from.\<close>

lemma span_chr: "rx_span s (chr c) i j \<longleftrightarrow> i < length s \<and> s ! i = c \<and> j = Suc i"
  by (auto simp: chr_def intro: rx_span.cls)

lemma span_star_any: "i \<le> length s \<Longrightarrow> rx_span s (Star any) i j \<longleftrightarrow> i \<le> j \<and> j \<le> length s"
proof (induction "length s - i" arbitrary: i)
  case 0
  then show ?case
    using rx_span_le rx_span_bound rx_span.star0 by (metis diff_is_0_eq le_antisym)
next
  case (Suc n)
  then have i: "i < length s" and n: "n = length s - Suc i" by auto
  have "rx_span s (Star any) (Suc i) j" if "Suc i \<le> j" "j \<le> length s"
    using Suc.hyps(1)[OF n] i that by simp
  moreover have "rx_span s any i (Suc i)" using i by (simp add: any_def rx_span.cls)
  ultimately have "i \<le> j \<Longrightarrow> j \<le> length s \<Longrightarrow> rx_span s (Star any) i j"
    by (metis le_antisym not_less_eq_eq rx_span.star0 rx_span.star1)
  then show ?case using rx_span_le rx_span_bound Suc.prems by blast
qed

lemma span_seq: "rx_span s (Seq a b) i j \<longleftrightarrow> (\<exists>k. rx_span s a i k \<and> rx_span s b k j)"
  by (auto intro: rx_span.seq)

lemma span_eps [simp]: "rx_span s Eps i j \<longleftrightarrow> j = i"
  by (auto intro: rx_span.eps)

lemma span_eol [simp]: "rx_span s Eol i j \<longleftrightarrow> i = length s \<and> j = i"
  by (auto intro: rx_span.eol)

lemma span_bol [simp]: "rx_span s Bol i j \<longleftrightarrow> i = 0 \<and> j = i"
  by (auto intro: rx_span.bol)

lemma span_opt: "rx_span s (opt a) i j \<longleftrightarrow> j = i \<or> rx_span s a i j"
  by (auto simp: opt_def intro: rx_span.intros)

text \<open>A token list followed by an expression.\<close>

lemma span_tokens:
  assumes "\<And>k. k \<le> length s \<Longrightarrow> (\<exists>j. rx_span s (seqs rest) k j) \<longleftrightarrow> K (drop k s)"
  shows "i \<le> length s \<Longrightarrow>
     (\<exists>j. rx_span s (seqs (map tok_rx ts @ rest)) i j) \<longleftrightarrow> glob K ts (drop i s)"
proof (induction ts arbitrary: i)
  case Nil
  then show ?case using assms by simp
next
  case (Cons t ts)
  let ?m = "\<lambda>i. \<exists>j. rx_span s (seqs (map tok_rx ts @ rest)) i j"
  show ?case
  proof (cases t)
    case (PLit c)
    have "(\<exists>j. rx_span s (seqs (map tok_rx (t # ts) @ rest)) i j) \<longleftrightarrow>
        i < length s \<and> s ! i = c \<and> ?m (Suc i)"
      by (auto simp: PLit tok_rx_def span_seq span_chr)
    also have "\<dots> \<longleftrightarrow> i < length s \<and> s ! i = c \<and> glob K ts (drop (Suc i) s)"
      using Cons.IH[of "Suc i"] by auto
    also have "\<dots> \<longleftrightarrow> glob K (t # ts) (drop i s)"
      by (cases "i < length s") (simp_all add: PLit Cons_nth_drop_Suc [symmetric])
    finally show ?thesis .
  next
    case PStar
    have "(\<exists>j. rx_span s (seqs (map tok_rx (t # ts) @ rest)) i j) \<longleftrightarrow>
        (\<exists>k. i \<le> k \<and> k \<le> length s \<and> ?m k)"
      using Cons.prems by (auto simp: PStar tok_rx_def span_seq span_star_any)
    also have "\<dots> \<longleftrightarrow> (\<exists>k. i \<le> k \<and> k \<le> length s \<and> glob K ts (drop k s))"
      using Cons.IH by blast
    also have "\<dots> \<longleftrightarrow> (\<exists>n. n \<le> length s - i \<and> glob K ts (drop (i + n) s))"
      using Cons.prems by (metis add.commute add_le_cancel_left le_add1 le_add_diff_inverse2 le_iff_add)
    also have "\<dots> \<longleftrightarrow> glob K (t # ts) (drop i s)"
      by (simp only: PStar glob.simps set_upt atLeastLessThan_iff less_Suc_eq_le drop_drop
          length_drop Bex_def add.commute [of i]) simp
    finally show ?thesis .
  qed
qed

lemma test_anchored:
  assumes "\<And>k. k \<le> length s \<Longrightarrow> (\<exists>j. rx_span s (seqs rest) k j) \<longleftrightarrow> K (drop k s)"
  shows "rx_test (seqs ([Bol] @ map tok_rx ts @ rest)) s \<longleftrightarrow> glob K ts s"
proof -
  have "rx_test (seqs ([Bol] @ map tok_rx ts @ rest)) s \<longleftrightarrow>
      (\<exists>j. rx_span s (seqs (map tok_rx ts @ rest)) 0 j)"
    by (auto simp: rx_test_span span_seq)
  then show ?thesis using span_tokens[where i = 0, OF assms] by simp
qed

abbreviation trailing_args :: "string \<Rightarrow> bool" where
  "trailing_args r \<equiv> r = [] \<or> startsWith r '' ''"

lemma span_end: "k \<le> length s \<Longrightarrow> (\<exists>j. rx_span s (seqs [Eol]) k j) \<longleftrightarrow> drop k s = []"
  by (auto simp: span_seq)

lemma span_trailing:
  "k \<le> length s \<Longrightarrow>
     (\<exists>j. rx_span s (seqs [opt (Seq (chr (CHR '' '')) (Star any)), Eol]) k j) \<longleftrightarrow>
     trailing_args (drop k s)"
proof (cases "k < length s")
  case True
  then have d: "drop k s = s ! k # drop (Suc k) s" by (simp add: Cons_nth_drop_Suc)
  have "(\<exists>j. rx_span s (seqs [opt (Seq (chr (CHR '' '')) (Star any)), Eol]) k j) \<longleftrightarrow>
      s ! k = CHR '' ''"
    using True by (auto simp: span_seq span_opt span_chr span_star_any)
  then show ?thesis by (simp add: d startsWith_def)
qed (auto simp: span_seq span_opt span_chr)

definition rule_tokens :: "string \<Rightarrow> ptok list" where
  "rule_tokens pattern = restore ESCAPED_BACKSLASH bslash (restore ESCAPED_STAR (CHR ''*'')
     (pattern_tokens (process_escapes (trim pattern))))"

definition lone_trailing_star :: "string \<Rightarrow> bool" where
  "lone_trailing_star pattern \<longleftrightarrow>
     (let ts = rule_tokens pattern in
      suffix [PLit (CHR '' ''), PStar] ts \<and>
      length (filter (\<lambda>c. c = CHR ''*'') (process_escapes (trim pattern))) = 1)"

lemma suffix_drop2: "suffix [a, b] xs \<longleftrightarrow> 2 \<le> length xs \<and> drop (length xs - 2) xs = [a, b]"
proof
  assume "suffix [a, b] xs"
  then show "2 \<le> length xs \<and> drop (length xs - 2) xs = [a, b]" by (auto simp: suffix_def)
next
  assume "2 \<le> length xs \<and> drop (length xs - 2) xs = [a, b]"
  then show "suffix [a, b] xs" by (metis suffix_drop)
qed

lemma matchWildcardPattern_glob:
  "matchWildcardPattern pattern command \<longleftrightarrow>
     (if lone_trailing_star pattern
      then glob trailing_args (take (length (rule_tokens pattern) - 2) (rule_tokens pattern)) command
      else glob (\<lambda>r. r = []) (rule_tokens pattern) command)"
  unfolding matchWildcardPattern_def pattern_rx_def lone_trailing_star_def Let_def
    rule_tokens_def [symmetric] suffix_drop2 conj_assoc
  using test_anchored[where rest = "[Eol]", OF span_end]
    test_anchored[where rest = "[opt (Seq (chr (CHR '' '')) (Star any)), Eol]", OF span_trailing]
  by simp

section \<open>Plain patterns\<close>

text \<open>Words without a star, a backslash or a NUL are their own tokens.\<close>

definition plain_word :: "string \<Rightarrow> bool" where
  "plain_word w \<longleftrightarrow> CHR ''*'' \<notin> set w \<and> bslash \<notin> set w \<and> CHR 0x00 \<notin> set w"

lemma process_escapes_no_bslash: "bslash \<notin> set s \<Longrightarrow> process_escapes s = s"
  by (induction s rule: process_escapes.induct) auto

lemma restore_id:
  "PLit (hd sentinel) \<notin> set ts \<Longrightarrow> restore sentinel c ts = ts"
proof (induction sentinel c ts rule: restore.induct)
  case (2 sentinel c t ts)
  then have "\<not> (sentinel \<noteq> [] \<and> take (length sentinel) (t # ts) = map PLit sentinel)"
    by (cases sentinel) auto
  then show ?case using 2 by auto
qed simp

lemma restore_no_nul:
  "PLit (CHR 0x00) \<notin> set ts \<Longrightarrow>
     restore ESCAPED_BACKSLASH bslash (restore ESCAPED_STAR (CHR ''*'') ts) = ts"
  using restore_id[of ESCAPED_STAR ts] restore_id[of ESCAPED_BACKSLASH ts]
  by (simp add: ESCAPED_STAR_def ESCAPED_BACKSLASH_def)

lemma glob_lits: "glob K (map PLit w) s \<longleftrightarrow> (\<exists>r. s = w @ r \<and> K r)"
  by (induction w arbitrary: s) (auto split: list.splits)

lemma pattern_tokens_plain: "CHR ''*'' \<notin> set w \<Longrightarrow> pattern_tokens w = map PLit w"
  by (auto simp: pattern_tokens_def)

text \<open>A rule of the form \<open>w *\<close>, with \<open>w\<close> a plain text, matches the command \<open>w\<close> itself and
  the commands that continue \<open>w\<close> with a space and anything at all, and nothing else. In
  particular \<open>git *\<close> does not match \<open>gitx\<close>.\<close>

theorem trailing_star_rule:
  assumes "plain_word w" and "w \<noteq> []" and "\<not> is_space (hd w)"
  shows "matchWildcardPattern (w @ '' *'') command \<longleftrightarrow>
    command = w \<or> startsWith command (w @ '' '')"
proof -
  have tr: "trim (w @ '' *'') = w @ '' *''"
    using assms(2,3) by (intro trim_ends) (auto simp: is_space_def code_unit_def)
  have pe: "process_escapes (w @ '' *'') = w @ '' *''"
    using assms(1) by (intro process_escapes_no_bslash) (auto simp: plain_word_def)
  have tk: "pattern_tokens (w @ '' *'') = map PLit w @ [PLit (CHR '' ''), PStar]"
    using assms(1) by (auto simp: pattern_tokens_def plain_word_def)
  have toks: "rule_tokens (w @ '' *'') = map PLit w @ [PLit (CHR '' ''), PStar]"
    unfolding rule_tokens_def tr pe tk
    using assms(1) by (intro restore_no_nul) (auto simp: plain_word_def)
  have "filter (\<lambda>c. c = CHR ''*'') w = []"
    using assms(1) by (auto simp: plain_word_def filter_empty_conv)
  then have "lone_trailing_star (w @ '' *'')"
    by (simp add: lone_trailing_star_def toks tr pe suffix_def)
  then show ?thesis
    unfolding matchWildcardPattern_glob toks
    by (auto simp: glob_lits startsWith_prefix prefix_def)
qed

theorem trailing_star_rule_witness:
  "matchWildcardPattern ''git *'' ''git add'' \<and> \<not> matchWildcardPattern ''git *'' ''gitx''"
  using trailing_star_rule[of "''git''" "''git add''"] trailing_star_rule[of "''git''" "''gitx''"]
  by (simp add: plain_word_def is_space_def code_unit_def startsWith_def)

text \<open>\<open>validatePermissionRule\<close> returns the trimmed rule or an error, and validating what it
  returned gives it back.\<close>

lemma validatePermissionRule_ok:
  "validatePermissionRule rule w = Inr canonical \<Longrightarrow>
     canonical = trim rule \<and> canonical \<noteq> [] \<and> validatePermissionRule canonical w = Inr canonical"
  by (auto simp: validatePermissionRule_def Let_def split: if_splits)

end
