(* ===== verification/CommandExec.thy ===== *)
theory CommandExec
  imports ShellRules
begin

text \<open>
  Commands whose arguments run in another shell or environment:
  \<open>packages/sidecar/src/permissions/commandExecution.ts\<close>. \<open>nestedExecution\<close> reports whether
  the arguments are opaque to the policy, the inner command text where it can be read off the
  arguments, and whether the options could be analysed at all (\<open>complete\<close>). The source's loops
  over an index into \<open>argv\<close> are recursions over the arguments that are left.
\<close>

abbreviation squote :: char where "squote \<equiv> CHR 0x27"
abbreviation dquote :: char where "dquote \<equiv> CHR 0x22"
abbreviation newline :: char where "newline \<equiv> CHR 0x0A"

definition executableName :: "string \<Rightarrow> string" where
  "executableName value =
     (let base = toLowerCase (last (split_by (\<lambda>c. c = bslash \<or> c = CHR ''/'') value)) in
      if endsWith base ''.exe'' then take (length base - 4) base else base)"

definition is_plain_arg_char :: "char \<Rightarrow> bool" where
  "is_plain_arg_char c \<longleftrightarrow> is_alnum_ascii c \<or> c \<in> set ''_./=:@%+,{}-''"

fun replaceAll_squote :: "string \<Rightarrow> string" where
  "replaceAll_squote [] = []"
| "replaceAll_squote (c # cs) =
     (if c = squote then [squote, bslash, squote, squote] else [c]) @ replaceAll_squote cs"

definition quoteArg :: "string \<Rightarrow> string" where
  "quoteArg arg =
     (if arg \<noteq> [] \<and> list_all is_plain_arg_char arg then arg
      else [squote] @ replaceAll_squote arg @ [squote])"

record nested_exec =
  ne_opaque :: bool
  ne_command :: "string option"
  ne_complete :: "bool option"

definition nested :: "bool \<Rightarrow> string option \<Rightarrow> nested_exec" where
  "nested opaque command = \<lparr>ne_opaque = opaque, ne_command = command, ne_complete = None\<rparr>"

definition nested_incomplete :: nested_exec where
  "nested_incomplete = \<lparr>ne_opaque = True, ne_command = None, ne_complete = Some False\<rparr>"

text \<open>\<open>s || undefined\<close>.\<close>

definition nonempty :: "string \<Rightarrow> string option" where
  "nonempty s = (if s = [] then None else Some s)"

subsection \<open>git\<close>

definition GIT_VALUE_GLOBALS :: "string list" where
  "GIT_VALUE_GLOBALS = [''-C'', ''--git-dir'', ''--work-tree'', ''--namespace'', ''--super-prefix'']"

definition not_eq_sign :: rx where
  "not_eq_sign = Cls (\<lambda>c. c \<noteq> CHR ''='')"

definition GIT_SAFE_CONFIG :: rx where
  "GIT_SAFE_CONFIG = ci (seqs [Bol,
     alts [Seq (lit ''color.'') (plus1 not_eq_sign), Seq (lit ''advice.'') (plus1 not_eq_sign),
           Seq (lit ''user.'') (alts [lit ''name'', lit ''email'']), lit ''protocol.version'',
           lit ''init.defaultbranch'', lit ''core.quotepath''],
     chr (CHR ''='')])"

definition GIT_ALIAS_CONFIG :: rx where
  "GIT_ALIAS_CONFIG = ci (seqs [Bol, lit ''alias.''])"

text \<open>\<open>config.slice(config.indexOf("=") + 1)\<close>: the whole text when there is no \<open>=\<close>.\<close>

definition after_eq :: "string \<Rightarrow> string" where
  "after_eq s = (case indexOf (CHR ''='') s of None \<Rightarrow> s | Some n \<Rightarrow> drop (Suc n) s)"

text \<open>What one \<open>-c\<close> setting adds: whether it is opaque, and the shell command of an alias.\<close>

definition git_config :: "string option \<Rightarrow> bool \<times> string list" where
  "git_config config =
     (case config of
        None \<Rightarrow> (False, [])
      | Some c \<Rightarrow>
          if rx_test GIT_SAFE_CONFIG c then (False, [])
          else (True, if rx_test GIT_ALIAS_CONFIG c \<and> startsWith (after_eq c) ''!''
                      then [drop 1 (after_eq c)] else []))"

text \<open>One global option: the \<open>-c\<close> setting it carries, whether it is opaque by itself, and the
  arguments after it.\<close>

definition git_global :: "string \<Rightarrow> string list \<Rightarrow> string option \<times> bool \<times> string list" where
  "git_global arg rest =
     (if arg = ''-c'' then (at rest 0, False, drop 1 rest)
      else if startsWith arg ''-c'' then (Some (drop 2 arg), False, rest)
      else if arg = ''--config-env'' \<or> arg = ''--exec-path'' then (None, True, drop 1 rest)
      else (None, startsWith arg ''--config-env='' \<or> startsWith arg ''--exec-path='', rest))"

lemma git_global_length: "git_global arg rest = (c, opq, rest') \<Longrightarrow> length rest' \<le> length rest"
  by (auto simp: git_global_def split: if_splits)

function git_scan :: "string list \<Rightarrow> bool \<times> string list" where
  "git_scan [] = (False, [])"
| "git_scan (arg # rest) =
     (if \<not> startsWith arg ''-'' then (False, [])
      else if arg \<in> set GIT_VALUE_GLOBALS then git_scan (drop 1 rest)
      else case git_global arg rest of (config, opaque, rest') \<Rightarrow>
        (opaque \<or> fst (git_config config) \<or> fst (git_scan rest'),
         snd (git_config config) @ snd (git_scan rest')))"
  by pat_completeness auto
termination
  by (relation "measure length") (auto dest: git_global_length [OF sym] git_global_length)

subsection \<open>find\<close>

definition FIND_EXEC_FLAGS :: "string list" where
  "FIND_EXEC_FLAGS = [''-exec'', ''-execdir'', ''-ok'', ''-okdir'']"

function find_scan :: "string list \<Rightarrow> string list" where
  "find_scan [] = []"
| "find_scan (a # rest) =
     (if a \<in> set FIND_EXEC_FLAGS then
        let inner = takeWhile (\<lambda>x. x \<noteq> '';'' \<and> x \<noteq> ''+'') rest in
        (if inner \<noteq> [] then [join '' '' (map quoteArg inner)] else [])
          @ find_scan (drop (Suc (length inner)) rest)
      else find_scan rest)"
  by pat_completeness auto
termination
  by (relation "measure length") auto

subsection \<open>ssh\<close>

definition SSH_WITH_VALUE :: string where
  "SSH_WITH_VALUE = ''BbcDEeFIiJLlmOoPpQRSWw''"

definition SSH_FLAGS :: string where
  "SSH_FLAGS = ''1246AaCfGgKkMNnqsTtVvXxYy''"

definition SSH_COMMAND_OPTION :: rx where
  "SSH_COMMAND_OPTION = ci (seqs [Bol,
     alts [lit ''ProxyCommand'', lit ''LocalCommand'', lit ''RemoteCommand'',
           lit ''KnownHostsCommand'', lit ''Include''],
     alts [sp, chr (CHR ''=''), Eol]])"

text \<open>The inner loop over one cluster of short options; \<^const>\<open>None\<close> is \<open>complete: false\<close>.\<close>

fun ssh_flags :: "string \<Rightarrow> string list \<Rightarrow> string list option" where
  "ssh_flags [] rest = Some rest"
| "ssh_flags (flag # others) rest =
     (if flag \<in> set SSH_WITH_VALUE then
        let value = (if others \<noteq> [] then others else or_else (at rest 0) []) in
        if flag = CHR ''o'' \<and> rx_test SSH_COMMAND_OPTION (trim value) then None
        else Some (if others = [] then drop 1 rest else rest)
      else if flag \<notin> set SSH_FLAGS then None
      else ssh_flags others rest)"

lemma ssh_flags_length: "ssh_flags fs rest = Some rest' \<Longrightarrow> length rest' \<le> length rest"
  by (induction fs rest rule: ssh_flags.induct) (auto simp: Let_def split: if_splits)

function ssh_scan :: "string list \<Rightarrow> string list option" where
  "ssh_scan [] = Some []"
| "ssh_scan (arg # rest) =
     (if \<not> startsWith arg ''-'' then Some (arg # rest)
      else if arg = ''--'' then Some rest
      else if arg = ''-'' \<or> startsWith arg ''--'' then None
      else (case ssh_flags (drop 1 arg) rest of
              None \<Rightarrow> None
            | Some rest' \<Rightarrow> ssh_scan rest'))"
  by pat_completeness auto
termination
  by (relation "measure length") (auto dest: ssh_flags_length)

subsection \<open>docker, podman, kubectl\<close>

definition DOCKER_WITH_VALUE :: "string list" where
  "DOCKER_WITH_VALUE =
     [''-u'', ''--user'', ''-w'', ''--workdir'', ''-e'', ''--env'', ''--env-file'',
      ''--detach-keys'', ''--name'', ''--entrypoint'', ''-v'', ''--volume'', ''--mount'',
      ''--network'', ''-p'', ''--publish'']"

definition DOCKER_FLAGS :: "string list" where
  "DOCKER_FLAGS =
     [''-d'', ''--detach'', ''-i'', ''--interactive'', ''-t'', ''--tty'', ''--rm'',
      ''--privileged'', ''--init'', ''--read-only'']"

definition DOCKER_SHORT_FLAGS :: string where
  "DOCKER_SHORT_FLAGS = ''dit''"

definition DOCKER_SHORT_WITH_VALUE :: string where
  "DOCKER_SHORT_WITH_VALUE = ''uwevp''"

text \<open>A cluster of short options (\<open>-it\<close>, \<open>-itu root\<close>).\<close>

fun docker_cluster :: "string \<Rightarrow> string list \<Rightarrow> string list option" where
  "docker_cluster [] rest = Some rest"
| "docker_cluster (flag # others) rest =
     (if flag \<in> set DOCKER_SHORT_WITH_VALUE then Some (if others = [] then drop 1 rest else rest)
      else if flag \<notin> set DOCKER_SHORT_FLAGS then None
      else docker_cluster others rest)"

lemma docker_cluster_length: "docker_cluster fs rest = Some rest' \<Longrightarrow> length rest' \<le> length rest"
  by (induction fs rest rule: docker_cluster.induct) (auto split: if_splits)

text \<open>The option loop: the entry point seen last and the arguments left.\<close>

function docker_scan :: "string option \<Rightarrow> string list \<Rightarrow> (string option \<times> string list) option" where
  "docker_scan entrypoint [] = Some (entrypoint, [])"
| "docker_scan entrypoint (arg # rest) =
     (if \<not> startsWith arg ''-'' then Some (entrypoint, arg # rest)
      else if arg = ''--'' then Some (entrypoint, rest)
      else if startsWith arg ''--entrypoint='' then docker_scan (Some (drop 13 arg)) rest
      else if arg \<in> set DOCKER_WITH_VALUE then
        docker_scan (if arg = ''--entrypoint'' then at rest 0 else entrypoint) (drop 1 rest)
      else if 2 \<le> length arg \<and> arg ! 1 \<noteq> CHR ''-'' \<and> arg \<notin> set DOCKER_FLAGS then
        (case docker_cluster (drop 1 arg) rest of
           None \<Rightarrow> None
         | Some rest' \<Rightarrow> docker_scan entrypoint rest')
      else if arg \<notin> set DOCKER_FLAGS \<and> CHR ''='' \<notin> set arg then None
      else docker_scan entrypoint rest)"
  by pat_completeness auto
termination
  by (relation "measure (\<lambda>(_, args). length args)") (auto dest: docker_cluster_length)

definition container_execution :: "string \<Rightarrow> string list \<Rightarrow> nested_exec" where
  "container_execution first argv =
     (case find_index (\<lambda>arg. arg = ''exec'' \<or> (first \<noteq> ''kubectl'' \<and> arg = ''run'')) argv of
        None \<Rightarrow> nested False None
      | Some sub \<Rightarrow>
          let args = drop (Suc sub) argv in
          if first = ''kubectl'' then
            (case find_index (\<lambda>arg. arg = ''--'') args of
               None \<Rightarrow> nested True None
             | Some d \<Rightarrow> nested True (Some (join '' '' (drop (Suc d) args))))
          else
            (case docker_scan None args of
               None \<Rightarrow> nested_incomplete
             | Some (entrypoint, left) \<Rightarrow>
                 nested True (nonempty (join '' ''
                   ((case entrypoint of
                       Some e \<Rightarrow> if e = [] then [] else [e]
                     | None \<Rightarrow> []) @ drop 1 left)))))"

subsection \<open>The dispatcher\<close>

definition nestedExecution :: "string list \<Rightarrow> nested_exec" where
  "nestedExecution argv =
     (let first = executableName (or_else (at argv 0) []) in
      if first = ''git'' then
        let (opaque, commands) = git_scan (drop 1 argv) in
        nested opaque (if commands \<noteq> [] then Some (join [newline] commands) else None)
      else if first = ''find'' then
        let commands = find_scan (drop 1 argv) in
        (if commands \<noteq> [] then nested True (Some (join [newline] commands)) else nested False None)
      else if first = ''ssh'' then
        (case ssh_scan (drop 1 argv) of
           None \<Rightarrow> nested_incomplete
         | Some left \<Rightarrow> nested True (nonempty (join '' '' (drop 1 left))))
      else if first \<in> {''docker'', ''podman'', ''kubectl''} then container_execution first argv
      else nested False None)"

declare git_scan.simps [simp del] find_scan.simps [simp del] ssh_scan.simps [simp del]
  docker_scan.simps [simp del]

section \<open>Lemmas\<close>

text \<open>An inner command is only ever reported for an opaque execution, and an execution whose
  options could not be analysed reports no inner command.\<close>

lemma container_execution_opaque:
  "ne_command (container_execution first argv) \<noteq> None \<Longrightarrow> ne_opaque (container_execution first argv)"
  "ne_complete (container_execution first argv) = Some False \<Longrightarrow>
     ne_opaque (container_execution first argv)"
  by (auto simp: container_execution_def nested_def nested_incomplete_def Let_def
      split: option.splits prod.splits if_splits)

lemma git_config_commands: "snd (git_config c) \<noteq> [] \<Longrightarrow> fst (git_config c)"
  by (auto simp: git_config_def split: option.splits if_splits)

lemma git_scan_commands: "snd (git_scan args) \<noteq> [] \<Longrightarrow> fst (git_scan args)"
proof (induction args rule: git_scan.induct)
  case (2 arg rest)
  show ?case
    using 2 git_config_commands
    by (cases "git_global arg rest") (auto simp: git_scan.simps split: if_splits)
qed (simp add: git_scan.simps)

lemma nestedExecution_command_opaque:
  "ne_command (nestedExecution argv) \<noteq> None \<Longrightarrow> ne_opaque (nestedExecution argv)"
proof (cases "executableName (or_else (at argv 0) []) = ''git''")
  case True
  then show "ne_command (nestedExecution argv) \<noteq> None \<Longrightarrow> ne_opaque (nestedExecution argv)"
    using git_scan_commands[of "drop 1 argv"]
    by (auto simp: nestedExecution_def nested_def Let_def split: prod.splits if_splits)
next
  case False
  then show "ne_command (nestedExecution argv) \<noteq> None \<Longrightarrow> ne_opaque (nestedExecution argv)"
    using container_execution_opaque(1)
    by (auto simp: nestedExecution_def nested_def nested_incomplete_def Let_def
        split: option.splits if_splits)
qed

end
