(* ===== verification/ShellParse.thy ===== *)
theory ShellParse
  imports CommandExec
begin

text \<open>
  The shell analyser: \<open>packages/sidecar/src/permissions/shellParser.ts\<close>. The grammar itself is
  tree-sitter's, a third-party library: a parser is a function from the command text to a
  syntax tree, a time-out or an exception, and the theorems hold for every such function.
  Everything the file does with the tree is modelled: the decoding of one word, the walk that
  collects the commands under its limits on nodes and depth, and the operators between them.
\<close>

section \<open>Definitions\<close>

datatype shell_language = Bash | Powershell | UnknownLanguage

text \<open>A syntax node of tree-sitter, with its children in order; a child carries the field name
  it has in its parent.\<close>

datatype tsnode = TsNode
  (ts_id: nat) (ts_type: string) (ts_text: string) (ts_start: nat) (ts_end: nat)
  (ts_named: bool) (ts_field: "string option") (ts_children: "tsnode list")

datatype ts_outcome = TsTimeout | TsThrow string | TsTree tsnode bool

datatype shell_node_kind = KCommand | KCd | KUnknown

record parsed_node =
  pn_text :: string
  pn_kind :: shell_node_kind
  pn_argv :: "string list"
  pn_args :: "string list"
  pn_start :: nat
  pn_end :: nat
  pn_operator :: "string option"
  pn_cwd :: "string option"
  pn_dynamic :: bool
  pn_redirects :: bool

record parsed_command =
  pc_language :: shell_language
  pc_nodes :: "parsed_node list"
  pc_operators :: "string list"
  pc_complete :: bool
  pc_reason :: "string option"

definition MAX_LENGTH :: nat where "MAX_LENGTH = 131072"
definition MAX_NODES :: nat where "MAX_NODES = 2048"
definition MAX_DEPTH :: nat where "MAX_DEPTH = 128"

definition containers :: "shell_language \<Rightarrow> string list" where
  "containers lang =
     (case lang of
        Bash \<Rightarrow> [''program'', ''list'', ''pipeline'', ''redirected_statement'']
      | Powershell \<Rightarrow> [''program'', ''statement_list'', ''pipeline'', ''pipeline_chain'',
                      ''pipeline_chain_tail'', ''empty_statement'']
      | UnknownLanguage \<Rightarrow> [])"

definition bashLiteralTypes :: "string list" where
  "bashLiteralTypes = [''command_name'', ''word'', ''raw_string'', ''string'', ''string_content'',
     ''concatenation'', ''number'']"

definition powershellLiteralTypes :: "string list" where
  "powershellLiteralTypes = [''command_name'', ''generic_token'', ''command_parameter'',
     ''array_literal_expression'', ''unary_expression'', ''string_literal'',
     ''expandable_string_literal'', ''verbatim_string_characters'', ''integer_literal'',
     ''decimal_integer_literal'']"

subsection \<open>Decoding one word\<close>

text \<open>\<open>check\<close>: whether some part of the word is not a literal.\<close>

fun has_dynamic_part :: "string list \<Rightarrow> tsnode \<Rightarrow> nat \<Rightarrow> bool" where
  "has_dynamic_part types (TsNode nid ty txt st en named fld children) depth =
     (MAX_DEPTH < depth \<or> ty \<notin> set types \<or>
      list_ex (\<lambda>child. ts_named child \<and> has_dynamic_part types child (Suc depth)) children)"

definition ps_special :: "char \<Rightarrow> char" where
  "ps_special c =
     (if c = CHR ''n'' then CHR 0x0A else if c = CHR ''r'' then CHR 0x0D
      else if c = CHR ''t'' then CHR 0x09 else if c = CHR ''0'' then CHR 0x00
      else if c = CHR ''a'' then CHR 0x07 else if c = CHR ''b'' then CHR 0x08
      else if c = CHR ''f'' then CHR 0x0C else if c = CHR ''v'' then CHR 0x0B
      else if c = CHR ''e'' then CHR 0x1B else c)"

definition escape_char :: "shell_language \<Rightarrow> char" where
  "escape_char lang = (if lang = Bash then bslash else CHR 0x60)"

definition expands :: "shell_language \<Rightarrow> char option \<Rightarrow> char \<Rightarrow> bool" where
  "expands lang quote ch \<longleftrightarrow>
     ch = CHR ''$'' \<or> (lang = Bash \<and> ch = CHR 0x60) \<or>
     (quote = None \<and>
      ((lang = Bash \<and> ch \<in> set ''*?[]{}'') \<or> (lang = Powershell \<and> ch \<in> set ''(){}@,'')))"

definition bash_escapable :: "char \<Rightarrow> bool" where
  "bash_escapable c \<longleftrightarrow> c \<in> {CHR ''$'', CHR 0x60, dquote, bslash, newline}"

text \<open>The loop over the text: the value, whether it is dynamic, and the quote left open.\<close>

type_synonym decoded = "string \<times> bool \<times> char option"

definition emit :: "char \<Rightarrow> decoded \<Rightarrow> decoded" where
  "emit c r = (case r of (v, d, q) \<Rightarrow> (c # v, d, q))"

definition mark :: "bool \<Rightarrow> decoded \<Rightarrow> decoded" where
  "mark b r = (case r of (v, d, q) \<Rightarrow> (v, b \<or> d, q))"

function decode :: "shell_language \<Rightarrow> char option \<Rightarrow> string \<Rightarrow> decoded" where
  "decode lang quote [] = ([], False, quote)"
| "decode lang quote (ch # rest) =
     (if quote = Some squote then
        if ch = squote then
          if lang = Powershell \<and> at rest 0 = Some squote
          then emit squote (decode lang quote (drop 1 rest))
          else decode lang None rest
        else emit ch (decode lang quote rest)
      else if ch = squote \<and> quote = None then decode lang (Some squote) rest
      else if ch = dquote then decode lang (if quote = None then Some dquote else None) rest
      else if ch = escape_char lang then
        (case at rest 0 of
           None \<Rightarrow> ([], True, quote)
         | Some nxt \<Rightarrow>
             if lang = Bash \<and> quote \<noteq> None \<and> \<not> bash_escapable nxt
             then emit ch (decode lang quote rest)
             else if nxt = newline then decode lang quote (drop 1 rest)
             else emit (if lang = Powershell then ps_special nxt else nxt)
                    (decode lang quote (drop 1 rest)))
      else mark (expands lang quote ch) (emit ch (decode lang quote rest)))"
  by pat_completeness auto
termination
  by (relation "measure (\<lambda>(_, _, s). length s)") auto

definition literal_value :: "tsnode \<Rightarrow> shell_language \<Rightarrow> string \<times> bool" where
  "literal_value node lang =
     (let types = (if lang = Bash then bashLiteralTypes else powershellLiteralTypes);
          (v, d, q) = decode lang None (ts_text node)
      in (v, has_dynamic_part types node 0 \<or> d \<or> q \<noteq> None))"

subsection \<open>One command node\<close>

definition childForFieldName :: "string \<Rightarrow> tsnode \<Rightarrow> tsnode option" where
  "childForFieldName f node = find (\<lambda>c. ts_field c = Some f) (ts_children node)"

definition namedChildren :: "tsnode \<Rightarrow> tsnode list" where
  "namedChildren node = filter ts_named (ts_children node)"

text \<open>What one child adds: its words (each with its dynamic flag), a redirection seen inside
  it, and whether the child itself makes the command dynamic.\<close>

definition child_words ::
  "shell_language \<Rightarrow> tsnode \<Rightarrow> (string \<times> bool) list \<times> bool \<times> bool" where
  "child_words lang child =
     (if lang = Powershell \<and> ts_type child = ''command_elements'' then
        let elems = namedChildren child in
        (map (\<lambda>e. literal_value e lang)
           (filter (\<lambda>e. ts_type e \<notin> {''command_argument_sep'', ''redirection''}) elems),
         list_ex (\<lambda>e. ts_type e = ''redirection'') elems, False)
      else if lang = Bash \<and> ts_type child \<noteq> ''variable_assignment'' then
        ([literal_value child lang], False, False)
      else ([], False, True))"

definition cd_target :: "shell_language \<Rightarrow> string list \<Rightarrow> string option" where
  "cd_target lang args0 =
     (let args1 = (if lang = Powershell \<and>
                      toLowerCase (or_else (at args0 0) []) \<in> {''-literalpath'', ''-path''}
                   then drop 1 args0 else args0);
          args2 = (if lang = Bash \<and> at args1 0 = Some ''--'' then drop 1 args1 else args1)
      in (case args2 of
            [a] \<Rightarrow> if a \<noteq> ''-'' \<and> \<not> startsWith a ''-'' then Some a else None
          | _ \<Rightarrow> None))"

definition is_cd :: "shell_language \<Rightarrow> string list \<Rightarrow> bool" where
  "is_cd lang argv \<longleftrightarrow>
     (case at argv 0 of
        None \<Rightarrow> False
      | Some w \<Rightarrow> toLowerCase w = ''cd'' \<or> (lang = Powershell \<and> toLowerCase w = ''set-location''))"

definition command_node :: "shell_language \<Rightarrow> tsnode \<Rightarrow> bool \<Rightarrow> parsed_node" where
  "command_node lang node redirected =
     (let name = coalesce (childForFieldName ''name'' node) (childForFieldName ''command_name'' node);
          parts = map (child_words lang)
            (filter (\<lambda>c. \<not> (name \<noteq> None \<and> map_option ts_id name = Some (ts_id c)))
               (namedChildren node));
          words = (case name of Some n \<Rightarrow> [literal_value n lang] | None \<Rightarrow> [])
                    @ concat (map fst parts);
          argv = map fst words;
          dynamic0 = (name = None \<or> list_ex snd words \<or> list_ex (\<lambda>p. snd (snd p)) parts);
          redirects = (redirected \<or> list_ex (\<lambda>p. fst (snd p)) parts);
          cd = is_cd lang argv;
          cwd = (if cd then cd_target lang (drop 1 argv) else None);
          dynamic = (dynamic0 \<or> (cd \<and> cwd = None))
      in \<lparr>pn_text = ts_text node,
          pn_kind = (if cd then KCd else if dynamic then KUnknown else KCommand),
          pn_argv = argv, pn_args = drop 1 argv, pn_start = ts_start node, pn_end = ts_end node,
          pn_operator = None, pn_cwd = cwd, pn_dynamic = dynamic, pn_redirects = redirects\<rparr>)"

subsection \<open>The walk over the tree\<close>

record walk =
  w_visits :: nat
  w_nodes :: "parsed_node list"
  w_complete :: bool
  w_reason :: "string option"

definition incomplete :: "string \<Rightarrow> walk \<Rightarrow> walk" where
  "incomplete reason w = w\<lparr>w_complete := False, w_reason := coalesce (w_reason w) (Some reason)\<rparr>"

definition tick :: "walk \<Rightarrow> walk" where
  "tick w = w\<lparr>w_visits := Suc (w_visits w)\<rparr>"

definition push_node :: "parsed_node \<Rightarrow> walk \<Rightarrow> walk" where
  "push_node n w = w\<lparr>w_nodes := w_nodes w @ [n]\<rparr>"

definition separator_tokens :: "string list" where
  "separator_tokens = [''&&'', ''||'', '';'', ''|'', [newline], [CHR 0x0D, newline]]"

definition over_limits :: "nat \<Rightarrow> walk \<Rightarrow> bool" where
  "over_limits depth w \<longleftrightarrow> MAX_NODES < w_visits w \<or> MAX_DEPTH < depth"

definition limit_reached :: "walk \<Rightarrow> walk" where
  "limit_reached w = incomplete ''Shell AST exceeds analysis limits'' w"

text \<open>The cases \<open>visit\<close> distinguishes by the node's type.\<close>

datatype visit_case = VComment | VCommand | VFileRedirect | VHeredoc | VOther

definition visit_case_of :: "string \<Rightarrow> visit_case" where
  "visit_case_of ty =
     (if ty = ''comment'' then VComment else if ty = ''command'' then VCommand
      else if ty = ''file_redirect'' then VFileRedirect
      else if ty = ''heredoc_redirect'' then VHeredoc else VOther)"

text \<open>A command node is recorded, and a dynamic one makes the result incomplete.\<close>

definition record_command :: "shell_language \<Rightarrow> tsnode \<Rightarrow> bool \<Rightarrow> walk \<Rightarrow> walk" where
  "record_command lang node redirected w =
     (let n = command_node lang node redirected; w1 = push_node n w in
      if pn_dynamic n
      then incomplete ''Shell command contains dynamic or unsupported execution'' w1 else w1)"

definition check_container :: "shell_language \<Rightarrow> string \<Rightarrow> walk \<Rightarrow> walk" where
  "check_container lang ty w =
     (if ty \<notin> set (containers lang) then incomplete (''Unsupported shell construct: '' @ ty) w
      else w)"

definition check_operator :: "string \<Rightarrow> walk \<Rightarrow> walk" where
  "check_operator txt w =
     (if txt \<notin> set separator_tokens then incomplete (''Unsupported shell operator: '' @ txt) w
      else w)"

definition here_document :: "walk \<Rightarrow> walk" where
  "here_document w = incomplete ''Here documents require approval'' w"

definition is_redirected_statement :: "string \<Rightarrow> bool" where
  "is_redirected_statement ty \<longleftrightarrow> ty = ''redirected_statement''"

text \<open>\<open>visit\<close> and \<open>nestedCommands\<close>; the loops over the children are the functions on lists.\<close>

function (sequential) visit :: "shell_language \<Rightarrow> tsnode \<Rightarrow> nat \<Rightarrow> bool \<Rightarrow> walk \<Rightarrow> walk"
and visit_children :: "shell_language \<Rightarrow> tsnode list \<Rightarrow> nat \<Rightarrow> bool \<Rightarrow> walk \<Rightarrow> walk"
and nestedCommands :: "shell_language \<Rightarrow> tsnode list \<Rightarrow> nat \<Rightarrow> walk \<Rightarrow> walk" where
  "visit lang node depth redirected w0 =
     (if over_limits depth (tick w0) then limit_reached (tick w0)
      else case visit_case_of (ts_type node) of
        VComment \<Rightarrow> tick w0
      | VCommand \<Rightarrow>
          nestedCommands lang (ts_children node) depth (record_command lang node redirected (tick w0))
      | VFileRedirect \<Rightarrow> nestedCommands lang (ts_children node) depth (tick w0)
      | VHeredoc \<Rightarrow> nestedCommands lang (ts_children node) depth (here_document (tick w0))
      | VOther \<Rightarrow>
          visit_children lang (ts_children node) (Suc depth)
            (redirected \<or> is_redirected_statement (ts_type node))
            (check_container lang (ts_type node) (tick w0)))"
| "visit_children lang [] depth redirected w = w"
| "visit_children lang (c # cs) depth redirected w =
     visit_children lang cs depth redirected
       (if ts_named c then visit lang c depth redirected w else check_operator (ts_text c) w)"
| "nestedCommands lang [] depth w = w"
| "nestedCommands lang (c # cs) depth w =
     nestedCommands lang cs depth
       (if \<not> ts_named c then w
        else if visit_case_of (ts_type c) = VCommand then visit lang c (Suc depth) False w
        else if depth < MAX_DEPTH then
          (if w_visits (tick w) \<le> MAX_NODES
           then nestedCommands lang (ts_children c) (Suc depth) (tick w)
           else limit_reached (tick w))
        else limit_reached w)"
  by pat_completeness auto
termination
proof (relation "measure (\<lambda>x. case x of
    Inl (_, node, _) \<Rightarrow> 2 * size node
  | Inr (Inl (_, cs, _)) \<Rightarrow> Suc (2 * size_list size cs)
  | Inr (Inr (_, cs, _)) \<Rightarrow> Suc (2 * size_list size cs))", goal_cases)
  case 1
  show ?case by simp
next
  case (2 lang node depth redirected w0)
  then show ?case by (cases node) simp
next
  case (3 lang node depth redirected w0)
  then show ?case by (cases node) simp
next
  case (4 lang node depth redirected w0)
  then show ?case by (cases node) simp
next
  case (5 lang node depth redirected w0)
  then show ?case by (cases node) simp
next
  case (9 lang c cs depth w)
  then show ?case by (cases c) simp
qed simp_all

declare visit.simps [simp del] visit_children.simps [simp del] nestedCommands.simps [simp del]

subsection \<open>Operators between commands\<close>

text \<open>\<open>replace(/#[^\r\n]*/g, "")\<close> and the first match of \<open>/&&|\|\||;|\||\n/\<close>.\<close>

fun strip_comments :: "bool \<Rightarrow> string \<Rightarrow> string" where
  "strip_comments skipping [] = []"
| "strip_comments skipping (c # cs) =
     (if c = newline \<or> c = CHR 0x0D then c # strip_comments False cs
      else if skipping then strip_comments True cs
      else if c = CHR ''#'' then strip_comments True cs
      else c # strip_comments False cs)"

fun first_operator :: "string \<Rightarrow> string option" where
  "first_operator [] = None"
| "first_operator (c # cs) =
     (if c = CHR ''&'' \<and> at cs 0 = Some (CHR ''&'') then Some ''&&''
      else if c = CHR ''|'' \<and> at cs 0 = Some (CHR ''|'') then Some ''||''
      else if c = CHR '';'' then Some '';''
      else if c = CHR ''|'' then Some ''|''
      else if c = newline then Some [newline]
      else first_operator cs)"

definition operator_between :: "string \<Rightarrow> parsed_node \<Rightarrow> parsed_node \<Rightarrow> string option" where
  "operator_between command previous node =
     (if pn_end previous \<le> pn_start node
      then first_operator (strip_comments False (slice (pn_end previous) (pn_start node) command))
      else None)"

fun assign_operators :: "string \<Rightarrow> parsed_node option \<Rightarrow> parsed_node list \<Rightarrow> parsed_node list" where
  "assign_operators command previous [] = []"
| "assign_operators command previous (n # ns) =
     (case previous of
        None \<Rightarrow> n
      | Some p \<Rightarrow> n\<lparr>pn_operator := operator_between command p n\<rparr>)
     # assign_operators command (Some n) ns"

subsection \<open>The entry point\<close>

record shell_host =
  sh_win32 :: bool
  sh_parsers :: "shell_language \<Rightarrow> (string \<Rightarrow> ts_outcome) option"
  sh_init_error :: "string option"

definition empty_walk :: walk where
  "empty_walk = \<lparr>w_visits = 0, w_nodes = [], w_complete = True, w_reason = None\<rparr>"

definition finish_walk :: "shell_language \<Rightarrow> parsed_node list \<Rightarrow> walk \<Rightarrow> parsed_command" where
  "finish_walk lang nodes w =
     \<lparr>pc_language = lang, pc_nodes = nodes,
      pc_operators = List.map_filter pn_operator nodes,
      pc_complete = w_complete w, pc_reason = w_reason w\<rparr>"

definition walk_tree :: "shell_language \<Rightarrow> tsnode \<Rightarrow> bool \<Rightarrow> walk" where
  "walk_tree lang root hasError =
     visit lang root 0 False
       (if hasError then incomplete ''Shell syntax is incomplete or invalid'' empty_walk
        else empty_walk)"

definition parseShellCommand ::
  "shell_host \<Rightarrow> string \<Rightarrow> shell_language option \<Rightarrow> parsed_command" where
  "parseShellCommand H command language =
     (let lang = or_else language (if sh_win32 H then Powershell else Bash) in
      if MAX_LENGTH < length command then
        finish_walk lang [] (incomplete ''Shell command exceeds parser length limit'' empty_walk)
      else
        (case (if lang = UnknownLanguage then None else sh_parsers H lang) of
           None \<Rightarrow> finish_walk lang []
             (incomplete (or_else (sh_init_error H) ''Unsupported shell language'') empty_walk)
         | Some parser \<Rightarrow>
             (case parser command of
                TsTimeout \<Rightarrow> finish_walk lang []
                  (incomplete ''Shell parsing exceeded its time limit'' empty_walk)
              | TsThrow msg \<Rightarrow> finish_walk lang []
                  (incomplete (''Shell parser failed: '' @ msg) empty_walk)
              | TsTree root hasError \<Rightarrow>
                  let w = walk_tree lang root hasError;
                      nodes = assign_operators command None (w_nodes w)
                  in finish_walk lang nodes
                       (if nodes = [] \<and> trim command \<noteq> []
                        then incomplete ''No statically analyzable shell command'' w else w))))"

declare decode.simps [simp del]

section \<open>Invariants of the walk\<close>

text \<open>A property of the walk's state that survives a visit being counted, a reason being
  recorded and a command being recorded within the limits holds after the whole walk.\<close>

locale walk_invariant =
  fixes lang :: shell_language and I :: "walk \<Rightarrow> bool"
  assumes I_tick: "I w \<Longrightarrow> I (tick w)"
    and I_incomplete: "I w \<Longrightarrow> I (incomplete r w)"
    and I_record: "I w \<Longrightarrow> \<not> over_limits d (tick w) \<Longrightarrow> I (record_command lang n b (tick w))"
begin

lemma I_checks:
  "I w \<Longrightarrow> I (check_container lang ty w)" "I w \<Longrightarrow> I (check_operator txt w)"
  "I w \<Longrightarrow> I (here_document w)" "I w \<Longrightarrow> I (limit_reached w)"
  by (simp_all add: check_container_def check_operator_def here_document_def limit_reached_def
      I_incomplete)

lemmas I_intros = I_tick I_incomplete I_record I_checks

lemma I_walk:
  "l = lang \<Longrightarrow> I w \<Longrightarrow> I (visit l node depth redirected w)"
  "l = lang \<Longrightarrow> I w \<Longrightarrow> I (visit_children l cs depth redirected w)"
  "l = lang \<Longrightarrow> I w \<Longrightarrow> I (nestedCommands l cs depth w)"
proof (induction l node depth redirected w and l cs depth redirected w and l cs depth w
    rule: visit_visit_children_nestedCommands.induct)
  case (1 l node depth redirected w0)
  show ?case
    using 1 by (subst visit.simps) (auto intro: I_intros split: visit_case.splits)
next
  case (3 l c cs depth redirected w)
  then show ?case by (subst visit_children.simps) (simp add: I_intros)
next
  case (5 l c cs depth w)
  then show ?case by (subst nestedCommands.simps) (simp add: I_intros split: if_splits)
qed (simp_all add: visit_children.simps nestedCommands.simps)

end

definition statically_known :: "parsed_node \<Rightarrow> bool" where
  "statically_known n \<longleftrightarrow>
     \<not> pn_dynamic n \<and> pn_kind n \<noteq> KUnknown \<and> (pn_kind n = KCd \<longrightarrow> pn_cwd n \<noteq> None)"

definition static_walk :: "walk \<Rightarrow> bool" where
  "static_walk w \<longleftrightarrow> (w_complete w \<longrightarrow> (\<forall>n \<in> set (w_nodes w). statically_known n))"

definition bounded_walk :: "walk \<Rightarrow> bool" where
  "bounded_walk w \<longleftrightarrow> length (w_nodes w) \<le> w_visits w \<and> length (w_nodes w) \<le> MAX_NODES"

lemmas walk_defs = tick_def incomplete_def push_node_def record_command_def Let_def

lemma command_node_static: "\<not> pn_dynamic (command_node lang n b) \<Longrightarrow> statically_known (command_node lang n b)"
  by (auto simp: command_node_def statically_known_def Let_def)

interpretation static: walk_invariant lang static_walk
  by unfold_locales
    (auto simp: static_walk_def walk_defs dest: command_node_static split: if_splits)

interpretation bounded: walk_invariant lang bounded_walk
  by unfold_locales (auto simp: bounded_walk_def walk_defs over_limits_def)

lemma static_walk_tree: "static_walk (walk_tree lang root e)"
  unfolding walk_tree_def
  by (rule static.I_walk(1)) (auto simp: static_walk_def empty_walk_def incomplete_def)

lemma bounded_walk_tree: "bounded_walk (walk_tree lang root e)"
  unfolding walk_tree_def
  by (rule bounded.I_walk(1)) (auto simp: bounded_walk_def empty_walk_def incomplete_def)

lemma length_assign_operators [simp]: "length (assign_operators c p ns) = length ns"
  by (induction c p ns rule: assign_operators.induct) auto

lemma assign_operators_Nil [simp]: "assign_operators c p ns = [] \<longleftrightarrow> ns = []"
  by (cases ns) auto

lemma assign_operators_static:
  "n \<in> set (assign_operators c p ns) \<Longrightarrow> \<forall>m \<in> set ns. statically_known m \<Longrightarrow> statically_known n"
  by (induction c p ns rule: assign_operators.induct)
    (auto simp: statically_known_def split: option.splits)

lemma parse_nodes_static:
  "pc_complete (parseShellCommand H command language) \<Longrightarrow>
   n \<in> set (pc_nodes (parseShellCommand H command language)) \<Longrightarrow> statically_known n"
  using static_walk_tree
  by (auto simp: parseShellCommand_def finish_walk_def incomplete_def static_walk_def Let_def
      split: option.splits ts_outcome.splits if_splits dest: assign_operators_static)

lemma parse_nodes_nonempty:
  "pc_complete (parseShellCommand H command language) \<Longrightarrow> trim command \<noteq> [] \<Longrightarrow>
   pc_nodes (parseShellCommand H command language) \<noteq> []"
  by (auto simp: parseShellCommand_def finish_walk_def incomplete_def Let_def
      split: option.splits ts_outcome.splits if_splits)

text \<open>A small concrete parser for the examples: it splits the text at spaces and reads it as one
  simple command. The theorems themselves hold for every parser.\<close>

definition simple_tree :: "string \<Rightarrow> tsnode" where
  "simple_tree cmd =
     (let ws = split_char (CHR '' '') cmd in
      TsNode 1 ''program'' cmd 0 (length cmd) True None
        [TsNode 2 ''command'' cmd 0 (length cmd) True None
          (TsNode 3 ''command_name'' (hd ws) 0 (length (hd ws)) True (Some ''name'')
             [TsNode 4 ''word'' (hd ws) 0 (length (hd ws)) True None []]
           # map (\<lambda>w. TsNode 5 ''word'' w 0 (length w) True None []) (tl ws))])"

definition simple_host :: shell_host where
  "simple_host = \<lparr>sh_win32 = False, sh_parsers = (\<lambda>lang. Some (\<lambda>cmd. TsTree (simple_tree cmd) False)),
     sh_init_error = None\<rparr>"

lemma simple_host_parses:
  "parseShellCommand simple_host ''ls'' None =
     \<lparr>pc_language = Bash,
      pc_nodes = [\<lparr>pn_text = ''ls'', pn_kind = KCommand, pn_argv = [''ls''], pn_args = [],
        pn_start = 0, pn_end = 2, pn_operator = None, pn_cwd = None, pn_dynamic = False,
        pn_redirects = False\<rparr>],
      pc_operators = [], pc_complete = True, pc_reason = None\<rparr>"
  by code_simp

text \<open>When the analyser reports a command as complete, every node it lists is static: no
  dynamic part, no unknown construct, and a directory change names its target. A text that is
  not blank then has at least one node.\<close>

theorem parse_complete_static:
  assumes "pc_complete (parseShellCommand H command language)"
  shows "(\<forall>n \<in> set (pc_nodes (parseShellCommand H command language)). statically_known n) \<and>
    (trim command \<noteq> [] \<longrightarrow> pc_nodes (parseShellCommand H command language) \<noteq> [])"
  using assms parse_nodes_static parse_nodes_nonempty by blast

theorem parse_complete_static_witness:
  "list_all statically_known (pc_nodes (parseShellCommand simple_host ''ls'' None)) \<and>
   pc_nodes (parseShellCommand simple_host ''ls'' None) \<noteq> []"
  using parse_complete_static[of simple_host "''ls''" None]
  by (simp add: simple_host_parses list_all_iff)

text \<open>The analyser never lists more than \<open>MAX_NODES\<close> commands, and a command text beyond
  \<open>MAX_LENGTH\<close> yields no node at all and is reported incomplete.\<close>

theorem parse_bounds:
  "length (pc_nodes (parseShellCommand H command language)) \<le> MAX_NODES \<and>
   (MAX_LENGTH < length command \<longrightarrow>
     pc_nodes (parseShellCommand H command language) = [] \<and>
     \<not> pc_complete (parseShellCommand H command language))"
  using bounded_walk_tree
  by (auto simp: parseShellCommand_def finish_walk_def incomplete_def bounded_walk_def Let_def
      split: option.splits ts_outcome.splits if_splits)

theorem parse_bounds_witness:
  "\<not> pc_complete (parseShellCommand simple_host (replicate 131073 (CHR ''a'')) None)"
  using parse_bounds[of simple_host "replicate 131073 (CHR ''a'')" None] by (simp add: MAX_LENGTH_def)

section \<open>Quoting\<close>

lemma decode_replaceAll:
  "decode Bash (Some squote) (replaceAll_squote a @ [squote]) = (a, False, None)"
proof (induction a)
  case (Cons c cs)
  then show ?case
    by (auto simp: decode.simps emit_def at_def escape_char_def)
qed (simp add: decode.simps)

lemma decode_plain:
  "list_all is_plain_arg_char a \<Longrightarrow> \<exists>d. decode Bash None a = (a, d, None)"
proof (induction a)
  case (Cons c cs)
  then obtain d where d: "decode Bash None cs = (cs, d, None)" by auto
  have "c \<noteq> squote" "c \<noteq> dquote" "c \<noteq> bslash"
    using Cons.prems by (auto simp: is_plain_arg_char_def is_alnum_ascii_def is_alpha_ascii_def
        is_upper_ascii_def is_lower_ascii_def is_digit_ascii_def code_unit_def)
  then have "decode Bash None (c # cs) = (c # cs, expands Bash None c \<or> d, None)"
    by (simp add: decode.simps d emit_def mark_def escape_char_def)
  then show ?case by blast
next
  case Nil
  show ?case by (intro exI[of _ False]) (simp add: decode.simps)
qed

text \<open>The quoting of an argument of an inner command round-trips: decoding the quoted text as
  a bash word gives the argument back with every quote closed, and a quoted argument is never
  taken for a dynamic word.\<close>

theorem quoteArg_decodes:
  "\<exists>d. decode Bash None (quoteArg arg) = (arg, d, None) \<and>
       (quoteArg arg \<noteq> arg \<longrightarrow> \<not> d)"
  using decode_replaceAll[of arg] decode_plain[of arg]
  by (auto simp: quoteArg_def decode.simps(2)[of Bash None squote])

theorem quoteArg_decodes_witness:
  "\<exists>d. decode Bash None (quoteArg ''rm *'') = (''rm *'', d, None) \<and> \<not> d"
proof -
  have "quoteArg ''rm *'' \<noteq> ''rm *''" by code_simp
  then show ?thesis using quoteArg_decodes[of "''rm *''"] by simp
qed

end
