(* ===== verification/HostPath.thy ===== *)
theory HostPath
  imports ShellParse
begin

text \<open>
  The host the sidecar runs on: the parts of \<open>node:path\<close> (POSIX) the permission code calls,
  and the file system as it is consulted through \<open>realpath\<close> and \<open>stat\<close>. The file system is a
  parameter: \<open>h_realpath\<close> returns the canonical path or fails, \<open>h_isdir\<close> says whether a path is
  a directory or fails. Paths are strings; \<open>path_segs\<close> is the normalised list of segments of an
  absolute path, and the lemmas reduce \<open>resolve\<close>, \<open>relative\<close> and the containment tests to it.
\<close>

section \<open>Definitions\<close>

abbreviation slash :: char where "slash \<equiv> CHR ''/''"

record host =
  h_shell :: shell_host
  h_cwd :: string                                  \<comment> \<open>\<open>process.cwd()\<close>\<close>
  h_realpath :: "string \<Rightarrow> string option"          \<comment> \<open>\<open>realpath\<close>; \<^const>\<open>None\<close> when it throws\<close>
  h_isdir :: "string \<Rightarrow> bool option"               \<comment> \<open>\<open>stat().isDirectory()\<close>; \<^const>\<open>None\<close> when it throws\<close>
  h_homedir :: string
  h_envTacoHome :: "string option"                 \<comment> \<open>\<open>process.env.TACO_HOME\<close>\<close>
  h_fileURLToPath :: "string \<Rightarrow> string option"     \<comment> \<open>\<^const>\<open>None\<close> when it throws\<close>

definition isAbsolute :: "string \<Rightarrow> bool" where
  "isAbsolute p \<longleftrightarrow> startsWith p ''/''"

text \<open>\<open>normalizeString\<close> of \<open>node:path\<close> on the segments of an absolute path: empty and \<open>.\<close>
  segments vanish, \<open>..\<close> removes the segment before it and is dropped at the root.\<close>

fun norm_segs :: "string list \<Rightarrow> string list \<Rightarrow> string list" where
  "norm_segs acc [] = rev acc"
| "norm_segs acc (s # ss) =
     (if s = [] \<or> s = ''.'' then norm_segs acc ss
      else if s = ''..'' then norm_segs (drop 1 acc) ss
      else norm_segs (s # acc) ss)"

definition path_segs :: "string \<Rightarrow> string list" where
  "path_segs p = norm_segs [] (split_char slash p)"

definition abs_path :: "string list \<Rightarrow> string" where
  "abs_path segs = slash # join ''/'' segs"

text \<open>\<open>resolve(base, target)\<close> and \<open>resolve(target)\<close>, with the process directory \<open>cwd\<close>.\<close>

definition resolve :: "string \<Rightarrow> string \<Rightarrow> string \<Rightarrow> string" where
  "resolve cwd base target =
     abs_path (path_segs
       (if isAbsolute target then target
        else if isAbsolute base then base @ ''/'' @ target
        else cwd @ ''/'' @ base @ ''/'' @ target))"

definition resolve1 :: "string \<Rightarrow> string \<Rightarrow> string" where
  "resolve1 cwd target = resolve cwd [] target"

fun common_prefix :: "'a list \<Rightarrow> 'a list \<Rightarrow> nat" where
  "common_prefix (x # xs) (y # ys) = (if x = y then Suc (common_prefix xs ys) else 0)"
| "common_prefix _ _ = 0"

definition relative :: "string \<Rightarrow> string \<Rightarrow> string \<Rightarrow> string" where
  "relative cwd from to =
     (let f = path_segs (resolve1 cwd from); t = path_segs (resolve1 cwd to);
          k = common_prefix f t
      in join ''/'' (replicate (length f - k) ''..'' @ drop k t))"

definition dirname :: "string \<Rightarrow> string" where
  "dirname p =
     (if p = [] then ''.''
      else
        let hasRoot = (hd p = slash);
            upto = dropWhile (\<lambda>c. c \<noteq> slash) (dropWhile (\<lambda>c. c = slash) (rev (tl p)))
        in if upto = [] then (if hasRoot then ''/'' else ''.'')
           else if hasRoot \<and> length upto = 1 then ''//''
           else take (length upto) p)"

text \<open>\<open>normalize\<close> and \<open>join\<close>: a relative path keeps the \<open>..\<close> segments that lead above its start,
  and a trailing slash survives.\<close>

fun rel_segs :: "string list \<Rightarrow> string list \<Rightarrow> string list" where
  "rel_segs acc [] = rev acc"
| "rel_segs acc (s # ss) =
     (if s = [] \<or> s = ''.'' then rel_segs acc ss
      else if s = ''..'' \<and> acc \<noteq> [] \<and> hd acc \<noteq> ''..'' then rel_segs (tl acc) ss
      else rel_segs (s # acc) ss)"

definition normalize_path :: "string \<Rightarrow> string" where
  "normalize_path p =
     (if p = [] then ''.''
      else
        let absolute = isAbsolute p;
            trailing = endsWith p ''/'';
            body = join ''/'' (if absolute then path_segs p else rel_segs [] (split_char slash p))
        in if body = [] then (if absolute then ''/'' else if trailing then ''./'' else ''.'')
           else (if absolute then ''/'' else []) @ body @ (if trailing then ''/'' else []))"

definition path_join :: "string list \<Rightarrow> string" where
  "path_join parts =
     (let ps = filter (\<lambda>x. x \<noteq> []) parts in
      if ps = [] then ''.'' else normalize_path (join ''/'' ps))"

text \<open>\<open>tacoHome()\<close> of \<open>config/tacoHome.ts\<close>.\<close>

definition tacoHome :: "host \<Rightarrow> string" where
  "tacoHome H =
     (case map_option trim (h_envTacoHome H) of
        Some raw \<Rightarrow> if raw \<noteq> [] then resolve1 (h_cwd H) raw
                     else resolve (h_cwd H) (h_homedir H) ''.taco''
      | None \<Rightarrow> resolve (h_cwd H) (h_homedir H) ''.taco'')"

section \<open>Normalised segments\<close>

definition good_seg :: "string \<Rightarrow> bool" where
  "good_seg s \<longleftrightarrow> s \<noteq> [] \<and> s \<noteq> ''.'' \<and> s \<noteq> ''..'' \<and> slash \<notin> set s"

lemma norm_segs_good:
  "list_all good_seg acc \<Longrightarrow> list_all (\<lambda>s. slash \<notin> set s) ss \<Longrightarrow> list_all good_seg (norm_segs acc ss)"
proof (induction ss arbitrary: acc)
  case (Cons s ss)
  have "list_all good_seg (drop 1 acc)"
    using Cons.prems(1) by (cases acc) auto
  moreover have "s \<noteq> [] \<Longrightarrow> s \<noteq> ''.'' \<Longrightarrow> s \<noteq> ''..'' \<Longrightarrow> good_seg s"
    using Cons.prems(2) unfolding good_seg_def by simp
  moreover have "list_all (\<lambda>s. slash \<notin> set s) ss"
    using Cons.prems(2) by simp
  ultimately show ?case
    using Cons.IH[of acc] Cons.IH[of "drop 1 acc"] Cons.IH[of "s # acc"] Cons.prems(1)
    unfolding norm_segs.simps by (cases "s = [] \<or> s = ''.''"; cases "s = ''..''") simp_all
qed (simp add: list_all_iff)

lemma path_segs_good: "list_all good_seg (path_segs p)"
  unfolding path_segs_def using split_by_no_sep[of "\<lambda>c. c = slash" p]
  by (intro norm_segs_good) (auto simp: list_all_iff)

lemma norm_segs_id: "list_all good_seg ss \<Longrightarrow> norm_segs acc ss = rev acc @ ss"
  by (induction acc ss rule: norm_segs.induct) (auto simp: good_seg_def)

lemma path_segs_abs_path: "list_all good_seg segs \<Longrightarrow> path_segs (abs_path segs) = segs"
proof (cases "segs = []")
  case False
  assume good: "list_all good_seg segs"
  then have "split_char slash (join ''/'' segs) = segs"
    using False by (intro split_join) (auto simp: list_all_iff good_seg_def)
  with good show ?thesis
    by (simp add: path_segs_def abs_path_def norm_segs_id)
qed (simp add: path_segs_def abs_path_def)

lemma path_segs_resolve [simp]:
  "path_segs (resolve cwd base target) =
     path_segs (if isAbsolute target then target
        else if isAbsolute base then base @ ''/'' @ target
        else cwd @ ''/'' @ base @ ''/'' @ target)"
  by (simp add: resolve_def path_segs_abs_path path_segs_good)

lemma isAbsolute_abs_path [simp]: "isAbsolute (abs_path segs)"
  by (simp add: isAbsolute_def abs_path_def startsWith_def)

lemma isAbsolute_resolve [simp]: "isAbsolute (resolve cwd base target)"
  by (simp add: resolve_def)

lemma resolve1_absolute: "isAbsolute p \<Longrightarrow> path_segs (resolve1 cwd p) = path_segs p"
  by (simp add: resolve1_def)

section \<open>Relative paths and containment\<close>

lemma common_prefix_prefix: "common_prefix f t = length f \<longleftrightarrow> prefix f t"
  by (induction f t rule: common_prefix.induct) auto

lemma common_prefix_le: "common_prefix f t \<le> length f"
  by (induction f t rule: common_prefix.induct) auto

lemma startsWith_dotdot_join:
  assumes "good_seg s"
  shows "startsWith (join ''/'' (s # ss)) ''..'' \<longleftrightarrow> startsWith s ''..''"
proof -
  obtain c r where s: "s = c # r" using assms by (cases s) (auto simp: good_seg_def)
  show ?thesis
  proof (cases r)
    case Nil
    then have "c \<noteq> CHR ''.''" using assms s by (auto simp: good_seg_def)
    then show ?thesis using s Nil by (cases ss) (auto simp: startsWith_def)
  next
    case (Cons d r')
    then show ?thesis using s by (cases ss) (auto simp: startsWith_def)
  qed
qed

lemma join_good_not_absolute: "list_all good_seg (s # ss) \<Longrightarrow> \<not> isAbsolute (join ''/'' (s # ss))"
  by (cases s; cases ss) (auto simp: isAbsolute_def startsWith_def good_seg_def)

lemma join_good_not_Nil: "list_all good_seg (s # ss) \<Longrightarrow> join ''/'' (s # ss) \<noteq> []"
  by (cases ss) (auto simp: good_seg_def)

lemma startsWith_ups:
  "startsWith (join ''/'' (replicate (Suc n) ''..'' @ ss)) ''..''"
  by (cases "replicate n ''..'' @ ss") (auto simp: startsWith_def)

text \<open>The relative path decides containment on segments. The first form is the test of
  \<open>isContained\<close> and \<open>isSameOrInside\<close>, the second the one of \<open>authorizedDirectory\<close>.\<close>

definition lax_inside :: "string \<Rightarrow> bool" where
  "lax_inside rel \<longleftrightarrow> rel = [] \<or> (\<not> startsWith rel ''..'' \<and> \<not> isAbsolute rel)"

definition strict_inside :: "string \<Rightarrow> bool" where
  "strict_inside rel \<longleftrightarrow>
     rel = [] \<or> (rel \<noteq> ''..'' \<and> \<not> startsWith rel ''../'' \<and> \<not> isAbsolute rel)"

abbreviation segs_at :: "string \<Rightarrow> string \<Rightarrow> string list" where
  "segs_at cwd p \<equiv> path_segs (resolve1 cwd p)"

lemma relative_inside:
  assumes "prefix (segs_at cwd from) (segs_at cwd to)"
  shows "relative cwd from to = join ''/'' (drop (length (segs_at cwd from)) (segs_at cwd to))"
  using assms by (simp add: relative_def Let_def common_prefix_prefix [THEN iffD2])

lemma relative_outside:
  assumes "\<not> prefix (segs_at cwd from) (segs_at cwd to)"
  shows "\<exists>n ss. list_all good_seg ss \<and> relative cwd from to = join ''/'' (replicate (Suc n) ''..'' @ ss)"
proof -
  let ?f = "segs_at cwd from" and ?t = "segs_at cwd to"
  have "common_prefix ?f ?t < length ?f"
    using assms common_prefix_le common_prefix_prefix by (metis le_neq_implies_less)
  then obtain n where "length ?f - common_prefix ?f ?t = Suc n"
    by (metis Suc_diff_Suc)
  moreover have "list_all good_seg (drop (common_prefix ?f ?t) ?t)"
    using path_segs_good by (auto simp: list_all_iff dest: in_set_dropD)
  ultimately show ?thesis by (metis relative_def)
qed

lemma lax_inside_iff:
  "lax_inside (relative cwd from to) \<longleftrightarrow>
     prefix (segs_at cwd from) (segs_at cwd to) \<and>
     (case drop (length (segs_at cwd from)) (segs_at cwd to) of
        [] \<Rightarrow> True | s # _ \<Rightarrow> \<not> startsWith s ''..'')"
proof (cases "prefix (segs_at cwd from) (segs_at cwd to)")
  case True
  have good: "list_all good_seg (drop (length (segs_at cwd from)) (segs_at cwd to))"
    using path_segs_good by (auto simp: list_all_iff dest: in_set_dropD)
  show ?thesis
  proof (cases "drop (length (segs_at cwd from)) (segs_at cwd to)")
    case Nil
    then show ?thesis using True by (simp add: relative_inside lax_inside_def)
  next
    case (Cons s ss)
    then have "list_all good_seg (s # ss)" using good by simp
    then show ?thesis
      using True Cons startsWith_dotdot_join join_good_not_absolute join_good_not_Nil
      by (auto simp: relative_inside lax_inside_def)
  qed
next
  case False
  then obtain n ss where "relative cwd from to = join ''/'' (replicate (Suc n) ''..'' @ ss)"
    using relative_outside by blast
  moreover have "join ''/'' (replicate (Suc n) ''..'' @ ss) \<noteq> []"
    by (cases "replicate n ''..'' @ ss") auto
  ultimately show ?thesis using False startsWith_ups[of n ss] by (simp add: lax_inside_def)
qed

lemma strict_inside_iff:
  "strict_inside (relative cwd from to) \<longleftrightarrow> prefix (segs_at cwd from) (segs_at cwd to)"
proof (cases "prefix (segs_at cwd from) (segs_at cwd to)")
  case True
  have good: "list_all good_seg (drop (length (segs_at cwd from)) (segs_at cwd to))"
    using path_segs_good by (auto simp: list_all_iff dest: in_set_dropD)
  show ?thesis
  proof (cases "drop (length (segs_at cwd from)) (segs_at cwd to)")
    case Nil
    then show ?thesis using True by (simp add: relative_inside strict_inside_def)
  next
    case (Cons s ss)
    then have g: "list_all good_seg (s # ss)" using good by simp
    then have "s \<noteq> ''..''" "slash \<notin> set s" by (auto simp: good_seg_def)
    then have "\<not> startsWith (join ''/'' (s # ss)) ''../'' \<and> join ''/'' (s # ss) \<noteq> ''..''"
      by (cases ss; cases s; cases "tl s"; cases "tl (tl s)") (auto simp: startsWith_def)
    then show ?thesis
      using True Cons join_good_not_absolute[OF g] by (simp add: relative_inside strict_inside_def)
  qed
next
  case False
  then obtain n ss where rel: "relative cwd from to = join ''/'' (replicate (Suc n) ''..'' @ ss)"
    using relative_outside by blast
  have "join ''/'' (replicate (Suc n) ''..'' @ ss) = ''..'' \<or>
      startsWith (join ''/'' (replicate (Suc n) ''..'' @ ss)) ''../''"
    by (cases "replicate n ''..'' @ ss") (auto simp: startsWith_def)
  moreover have "join ''/'' (replicate (Suc n) ''..'' @ ss) \<noteq> []"
    by (cases "replicate n ''..'' @ ss") auto
  ultimately show ?thesis using False unfolding rel strict_inside_def by blast
qed

section \<open>The ancestor walk\<close>

text \<open>\<open>dirname\<close> shrinks every path it changes, which is why the loops that walk up to an
  existing ancestor stop.\<close>

definition path_weight :: "string \<Rightarrow> nat" where
  "path_weight p = (if p = ''.'' \<or> p = ''/'' then 0 else Suc (length p))"

lemma dirname_weight: "dirname p \<noteq> p \<Longrightarrow> path_weight (dirname p) < path_weight p"
proof -
  assume ne: "dirname p \<noteq> p"
  have "dirname ''.'' = ''.''" "dirname ''/'' = ''/''" by (simp_all add: dirname_def)
  then have p: "p \<noteq> ''.''" "p \<noteq> ''/''" using ne by metis+
  let ?u = "dropWhile (\<lambda>c. c \<noteq> slash) (dropWhile (\<lambda>c. c = slash) (rev (tl p)))"
  have less: "length ?u < length p" if "p \<noteq> []"
  proof -
    have "length ?u \<le> length (rev (tl p))"
      using length_dropWhile_le by (metis le_trans)
    then show ?thesis using that by (cases p) auto
  qed
  have two: "length ?u = 1 \<Longrightarrow> 2 < length p" if "p \<noteq> []"
  proof -
    assume u: "length ?u = 1"
    obtain c r where cr: "dropWhile (\<lambda>c. c = slash) (rev (tl p)) = c # r"
      using u by (cases "dropWhile (\<lambda>c. c = slash) (rev (tl p))") auto
    then have "c \<noteq> slash"
      using hd_dropWhile[of "\<lambda>c. c = slash" "rev (tl p)"] by simp
    then have "length ?u < length (dropWhile (\<lambda>c. c = slash) (rev (tl p)))"
      using length_dropWhile_le[of "\<lambda>c. c \<noteq> slash" r] unfolding cr by simp
    then show ?thesis
      using u length_dropWhile_le[of "\<lambda>c. c = slash" "rev (tl p)"] that by (cases p) auto
  qed
  have w: "path_weight p = Suc (length p)" using p by (simp add: path_weight_def)
  consider "p = []" | "p \<noteq> []" "?u = []" | "p \<noteq> []" "?u \<noteq> []" "hd p = slash" "length ?u = 1"
    | "p \<noteq> []" "?u \<noteq> []" "\<not> (hd p = slash \<and> length ?u = 1)" by blast
  then show ?thesis
  proof cases
    case 1
    then show ?thesis unfolding w by (simp add: dirname_def path_weight_def)
  next
    case 2
    then have "dirname p = (if hd p = slash then ''/'' else ''.'')"
      unfolding dirname_def Let_def by (simp only: if_True if_False simp_thms)
    then have "path_weight (dirname p) = 0" by (simp add: path_weight_def)
    then show ?thesis unfolding w by simp
  next
    case 3
    then have "dirname p = ''//''"
      unfolding dirname_def Let_def by (simp only: if_True if_False simp_thms)
    then show ?thesis unfolding w using two 3 by (simp add: path_weight_def)
  next
    case 4
    then have "dirname p = take (length ?u) p"
      unfolding dirname_def Let_def by (simp only: if_False if_True)
    then have "length (dirname p) = length ?u" using less[OF 4(1)] by simp
    moreover have "path_weight (dirname p) \<le> Suc (length (dirname p))"
      by (simp add: path_weight_def)
    ultimately show ?thesis unfolding w using less[OF 4(1)] by simp
  qed
qed

function ancestor_walk ::
  "(string \<Rightarrow> string option) \<Rightarrow> (string \<Rightarrow> string \<Rightarrow> 'a) \<Rightarrow> 'a \<Rightarrow> string \<Rightarrow> 'a" where
  "ancestor_walk realpath found missing current =
     (case realpath current of
        Some real \<Rightarrow> found current real
      | None \<Rightarrow>
          let parent = dirname current in
          if parent = current then missing else ancestor_walk realpath found missing parent)"
  by pat_completeness auto
termination
  by (relation "measure (\<lambda>(_, _, _, p). path_weight p)") (auto intro: dirname_weight)

declare ancestor_walk.simps [simp del]

end
