(* ===== verification/CommandRisk.thy ===== *)
theory CommandRisk
  imports HostPath
begin

text \<open>
  The risk classification of \<open>packages/sidecar/src/permissions/commandPolicy.ts\<close>: the tables of
  read-only commands, mutating flags and dangerous patterns, the strict read-only test, and the
  risk of one command node with the commands nested in its arguments. The types of
  \<open>packages/protocol/src/config.ts\<close> are here as well.
\<close>

section \<open>Definitions\<close>

datatype command_risk = ReadOnly | WorkspaceWrite | ExternalSideEffect | Destructive | PrivilegeEscape

fun RISK_ORDER :: "command_risk \<Rightarrow> nat" where
  "RISK_ORDER ReadOnly = 0"
| "RISK_ORDER WorkspaceWrite = 1"
| "RISK_ORDER ExternalSideEffect = 2"
| "RISK_ORDER Destructive = 3"
| "RISK_ORDER PrivilegeEscape = 4"

instantiation command_risk :: linorder
begin

definition less_eq_command_risk :: "command_risk \<Rightarrow> command_risk \<Rightarrow> bool" where
  "less_eq_command_risk a b \<longleftrightarrow> RISK_ORDER a \<le> RISK_ORDER b"

definition less_command_risk :: "command_risk \<Rightarrow> command_risk \<Rightarrow> bool" where
  "less_command_risk a b \<longleftrightarrow> RISK_ORDER a < RISK_ORDER b"

instance
proof
  fix a b :: command_risk
  show "a \<le> b \<Longrightarrow> b \<le> a \<Longrightarrow> a = b"
    by (cases a; cases b) (simp_all add: less_eq_command_risk_def)
qed (auto simp: less_eq_command_risk_def less_command_risk_def)

end

text \<open>\<open>Pick<CommandEvaluation, "risk" | "reason">\<close>.\<close>

record risk_value =
  rv_risk :: command_risk
  rv_reason :: string

abbreviation risk_of :: "command_risk \<Rightarrow> string \<Rightarrow> risk_value" where
  "risk_of k r \<equiv> \<lparr>rv_risk = k, rv_reason = r\<rparr>"

subsection \<open>Tables\<close>

definition BUILTIN_READ_ONLY_COMMANDS :: "string list" where
  "BUILTIN_READ_ONLY_COMMANDS =
     [''pwd'', ''ls'', ''which'', ''find'', ''cat'', ''head'', ''tail'', ''wc'', ''file'',
      ''stat'', ''du'', ''df'', ''echo'', ''grep'', ''diff'', ''sort'', ''uniq'', ''cut'', ''tr'',
      ''basename'', ''dirname'', ''realpath'', ''readlink'', ''date'', ''hostname'', ''uname'',
      ''whoami'', ''id'', ''md5sum'', ''sha256sum'', ''xxd'', ''od'',
      ''git status'', ''git diff'', ''git log'', ''git show'', ''git branch'', ''git remote'',
      ''git remote -v'', ''git remote get-url'', ''git blame'', ''git rev-parse'',
      ''git ls-files'', ''git ls-tree'', ''git describe'', ''git merge-base'', ''git rev-list'',
      ''git shortlog'', ''git cat-file'', ''git show-ref'', ''git for-each-ref'',
      ''git name-rev'', ''git check-ignore'', ''git version'', ''git --version'', ''git help'',
      ''git reflog'', ''git stash list'', ''git stash show'', ''git config --get'',
      ''git config --get-all'', ''git config --get-regexp'', ''git config --list'',
      ''git config -l'', ''git worktree list'', ''git submodule status'', ''git tag --list'',
      ''git tag -l'']"

definition READ_ONLY :: "string list" where
  "READ_ONLY = BUILTIN_READ_ONLY_COMMANDS"

definition READ_ONLY_FORBIDDEN_FLAGS :: "string list" where
  "READ_ONLY_FORBIDDEN_FLAGS =
     [''-delete'', ''-exec'', ''-execdir'', ''-ok'', ''-okdir'', ''-fprint'', ''-fprint0'',
      ''-fls'', ''-fprintf'', ''--textconv'', ''--filters'', ''--batch-command'', ''--output'',
      ''--ext-diff'', ''--exec-path'', ''-o'', ''--set'']"

definition GIT_DUAL_USE_MUTATING_TOKENS :: "string list" where
  "GIT_DUAL_USE_MUTATING_TOKENS =
     [''-D'', ''-d'', ''-m'', ''-M'', ''-f'', ''-c'', ''-C'', ''--force'', ''--delete'',
      ''--edit'', ''--unset'', ''--unset-all'', ''--replace-all'', ''--add'', ''--remove'',
      ''--track'', ''--copy'', ''--move'', ''--set-upstream'', ''--set-upstream-to'',
      ''--unset-upstream'', ''--edit-description'', ''-w'', ''--web'', ''expire'', ''delete'',
      ''apply'', ''drop'', ''pop'', ''push'', ''add'', ''remove'', ''update'', ''prune'',
      ''move'', ''rename'', ''edit'', ''create'', ''set-url'', ''set-head'']"

definition alpha_star :: rx where
  "alpha_star = Star (Cls is_alpha_ascii)"

text \<open>The class \<open>[^\n;&|]\<close>.\<close>

definition same_command :: rx where
  "same_command = Star (Cls (\<lambda>c. c \<noteq> newline \<and> c \<notin> set '';&|''))"

definition DESTRUCTIVE :: "(rx \<times> string) list" where
  "DESTRUCTIVE =
     [(seqs [WordB, lit ''git'', sp1, lit ''reset'', sp1, lit ''--hard'', WordB],
       ''may discard uncommitted changes''),
      (seqs [WordB, lit ''git'', sp1, lit ''clean'', WordB, same_command, lit ''-'', alpha_star,
         lit ''f''], ''may permanently delete untracked files''),
      (seqs [WordB, lit ''git'', sp1, lit ''push'', WordB, same_command,
         alts [lit ''--force'', lit ''--force-with-lease'', lit ''-f''], WordB],
       ''may overwrite remote history''),
      (ci (alts
        [seqs [WordB, lit ''rm'', sp1, lit ''-'', alpha_star, lit ''r'', alpha_star, lit ''f''],
         seqs [WordB, lit ''rm'', sp1, lit ''-'', alpha_star, lit ''f'', alpha_star, lit ''r'']]),
       ''may recursively force-remove files''),
      (ci (seqs [WordB, alts [lit ''drop'', lit ''truncate''], sp1,
         alts [lit ''table'', lit ''database'', lit ''schema''], WordB]),
       ''may drop database objects''),
      (seqs [WordB, lit ''terraform'', sp1, lit ''destroy'', WordB], ''may destroy infrastructure''),
      (seqs [WordB, lit ''kubectl'', sp1, lit ''delete'', WordB],
       ''may delete Kubernetes resources'')]"

text \<open>The pattern \<open>/^(?:sudo|doas)\b/i\<close> also occurs in \<open>argvRisk\<close>.\<close>

definition sudo_rx :: rx where
  "sudo_rx = ci (seqs [Bol, alts [lit ''sudo'', lit ''doas''], WordB])"

definition PRIVILEGE_ESCAPE :: "(rx \<times> string) list" where
  "PRIVILEGE_ESCAPE =
     [(sudo_rx, ''requires elevated system privileges''),
      (ci (seqs [Bol, alts [lit ''mkfs'', seqs [lit ''diskutil'', sp1, lit ''eraseDisk'']], WordB]),
       ''may erase a disk''),
      (ci (seqs [Bol, lit ''chmod'', sp1, opt (seqs [lit ''-R'', sp1]), lit ''777'', WordB]),
       ''may make files world-writable'')]"

definition EXTERNAL :: rx where
  "EXTERNAL = ci (Seq WordB (alts
     [seqs [lit ''git'', sp1, lit ''push''],
      seqs [lit ''npm'', sp1, lit ''publish''],
      seqs [lit ''pnpm'', sp1, lit ''publish''],
      seqs [lit ''yarn'', sp1, lit ''publish''],
      seqs [lit ''curl'', sp1, Star dot, lit ''-X'', Star sp,
        alts [lit ''POST'', lit ''PUT'', lit ''PATCH'', lit ''DELETE'']],
      seqs [lit ''curl'', sp1, opt (Seq (Star dot) sp),
        alts [Seq (lit ''-d'') (Star nsp), Seq (lit ''--data'') (Star nsp),
              Seq (lit ''-F'') (Star nsp), Seq (lit ''--form'') (Star nsp),
              Seq (lit ''-T'') (Star nsp), lit ''--upload-file'', lit ''--json''],
        alts [sp, lit ''='', Eol]],
      seqs [lit ''wget'', sp1]]))"

subsection \<open>Text of a command\<close>

definition normalize_cmd :: "string \<Rightarrow> string" where
  "normalize_cmd command = squeeze_space (trim command)"

definition stripSafeGitGlobals :: "string \<Rightarrow> string" where
  "stripSafeGitGlobals command =
     (if startsWith command ''git --no-pager '' then ''git '' @ drop 15 command else command)"

definition flagStem :: "string \<Rightarrow> string" where
  "flagStem token = (case indexOf (CHR ''='') token of None \<Rightarrow> token | Some n \<Rightarrow> take n token)"

definition is_metacharacter :: "char \<Rightarrow> bool" where
  "is_metacharacter c \<longleftrightarrow> c \<in> set ''<>|;&$(){}[]*?'' \<or> c = CHR 0x60 \<or> c = newline"

definition containsShellSyntax :: "string \<Rightarrow> bool" where
  "containsShellSyntax command \<longleftrightarrow> list_ex is_metacharacter command"

definition flag_char :: "char \<Rightarrow> bool" where
  "flag_char c \<longleftrightarrow> is_alnum_ascii c \<or> c \<in> set ''_+/,=:@^~%-''"

definition literal_char :: "char \<Rightarrow> bool" where
  "literal_char c \<longleftrightarrow> is_alnum_ascii c \<or> c \<in> set ''_./,+=:@^~%-''"

definition SAFE_LITERAL :: rx where
  "SAFE_LITERAL = alts
     [seqs [Bol, lit ''-'', opt (lit ''-''), plus1 (Cls flag_char), Eol],
      seqs [Bol, plus1 (Cls literal_char), Eol]]"

definition first_match :: "(rx \<times> string) list \<Rightarrow> string \<Rightarrow> string option" where
  "first_match table command = map_option snd (find (\<lambda>e. rx_test (fst e) command) table)"

definition longest_read_only :: "string list \<Rightarrow> nat" where
  "longest_read_only parts =
     foldl (\<lambda>m i. if join '' '' (take i parts) \<in> set READ_ONLY then i else m) 0
       [1..<Suc (length parts)]"

definition evaluatePart :: "string \<Rightarrow> risk_value" where
  "evaluatePart command0 =
     (let command = stripSafeGitGlobals (normalize_cmd command0) in
      case first_match PRIVILEGE_ESCAPE command of
        Some reason \<Rightarrow> risk_of PrivilegeEscape reason
      | None \<Rightarrow>
        (case first_match DESTRUCTIVE command of
          Some reason \<Rightarrow> risk_of Destructive reason
        | None \<Rightarrow>
          if rx_test EXTERNAL command
          then risk_of ExternalSideEffect ''may change remote state or send network data''
          else if includes_str command ''$('' \<or> CHR 0x60 \<in> set command
          then risk_of WorkspaceWrite ''command substitution may execute arbitrary code''
          else if containsShellSyntax command
          then risk_of WorkspaceWrite
            (''shell metacharacters change the base command'' @ [squote] @ ''s behavior'')
          else if longest_read_only (split_space command) \<noteq> 0
          then risk_of ReadOnly ''recognized read-only command''
          else risk_of WorkspaceWrite ''command may change the workspace''))"

subsection \<open>Strict read-only commands\<close>

definition READ_ONLY_BASES :: "string list" where
  "READ_ONLY_BASES = [''git checkout'']"

definition GIT_DUAL_USE_BASES :: "string list" where
  "GIT_DUAL_USE_BASES =
     [''git help'', ''git branch'', ''git tag'', ''git config'', ''git stash'', ''git worktree'',
      ''git submodule'', ''git remote'', ''git reflog'']"

definition isGitDualUseBase :: "string \<Rightarrow> bool" where
  "isGitDualUseBase base \<longleftrightarrow> list_ex (startsWith base) GIT_DUAL_USE_BASES"

definition extraGitArgsAreSafe :: "string \<Rightarrow> string list \<Rightarrow> bool" where
  "extraGitArgsAreSafe base remaining \<longleftrightarrow>
     (if \<not> isGitDualUseBase base then True
      else if list_ex (\<lambda>part. flagStem part \<in> set GIT_DUAL_USE_MUTATING_TOKENS) remaining then False
      else if base = ''git branch'' \<or> base = ''git remote''
      then list_all (\<lambda>part. startsWith part ''-'') remaining
      else True)"

definition special_mutating :: "string list \<Rightarrow> bool" where
  "special_mutating parts \<longleftrightarrow>
     (at parts 0 = Some ''date'' \<and> 1 < length parts) \<or>
     (at parts 0 = Some ''xxd'' \<and> ''-r'' \<in> set parts) \<or>
     (at parts 0 = Some ''uniq'' \<and> 2 < length (filter (\<lambda>part. \<not> startsWith part ''-'') parts))"

definition safe_argument :: "string \<Rightarrow> bool" where
  "safe_argument part \<longleftrightarrow>
     \<not> containsShellSyntax part \<and> flagStem part \<notin> set READ_ONLY_FORBIDDEN_FLAGS \<and>
     rx_test SAFE_LITERAL part"

definition isStrictReadOnly :: "string \<Rightarrow> bool" where
  "isStrictReadOnly command \<longleftrightarrow>
     (let normalized = stripSafeGitGlobals (normalize_cmd command);
          parts = split_space normalized;
          matchedTokens = longest_read_only parts;
          base = join '' '' (take matchedTokens parts);
          remaining = drop matchedTokens parts
      in if containsShellSyntax normalized then False
         else if special_mutating parts then False
         else if parts = [] then False
         else if isShellWrapperCommand (or_else (at parts 0) []) then False
         else if matchedTokens = 0 then False
         else if base \<in> set READ_ONLY_BASES then False
         else if \<not> extraGitArgsAreSafe base remaining then False
         else list_all safe_argument remaining)"

definition MANUAL_SAFE :: rx where
  "MANUAL_SAFE = seqs [Bol, lit ''git'', sp1,
     alts ([lit ''status'', lit ''diff'', lit ''log'', lit ''show'', lit ''branch'', lit ''remote'',
        lit ''blame'', lit ''rev-parse'', lit ''ls-files'', lit ''ls-tree'', lit ''describe'',
        lit ''merge-base'', lit ''rev-list'', lit ''shortlog'', lit ''cat-file'',
        lit ''show-ref'', lit ''for-each-ref'', lit ''name-rev'', lit ''check-ignore'',
        lit ''version'', lit ''help'', lit ''reflog'',
        seqs [lit ''stash'', sp1, alts [lit ''list'', lit ''show'']],
        seqs [lit ''config'', sp1, lit ''--'',
          alts [lit ''get'', lit ''get-all'', lit ''get-regexp'', lit ''list'']],
        seqs [lit ''config'', sp1, lit ''-l''],
        seqs [lit ''worktree'', sp1, lit ''list''],
        seqs [lit ''submodule'', sp1, lit ''status''],
        seqs [lit ''tag'', sp1, alts [lit ''--list'', lit ''-l'']]]),
     alts [sp, Eol]]"

subsection \<open>Runners, git globals and curl\<close>

definition COMMAND_RUNNERS :: "string list" where
  "COMMAND_RUNNERS =
     [''eval'', ''exec'', ''source'', ''.'', ''xargs'', ''nohup'', ''time'', ''nice'',
      ''timeout'', ''watch'', ''command'', ''builtin'', ''parallel'', ''stdbuf'', ''setsid'',
      ''caffeinate'', ''script'', ''flock'', ''chroot'', ''unshare'', ''nsenter'', ''ionice'',
      ''taskset'', ''chrt'', ''sg'', ''systemd-run'', ''invoke-expression'', ''iex'',
      ''invoke-command'', ''icm'', ''start-process'', ''saps'', ''start'', ''start-job'']"

definition isCommandRunner :: "string list \<Rightarrow> bool" where
  "isCommandRunner argv \<longleftrightarrow>
     (let first = toLowerCase (or_else (at argv 0) []) in
      if first = ''command'' \<and> or_else (at argv 1) [] \<in> {''-v'', ''-V''} then False
      else first \<in> set COMMAND_RUNNERS)"

definition GIT_GLOBALS_WITH_VALUE :: "string list" where
  "GIT_GLOBALS_WITH_VALUE =
     [''-C'', ''-c'', ''--git-dir'', ''--work-tree'', ''--namespace'', ''--exec-path'',
      ''--super-prefix'', ''--config-env'']"

fun skip_git_globals :: "nat \<Rightarrow> string list \<Rightarrow> string list" where
  "skip_git_globals _ [] = []"
| "skip_git_globals (Suc k) (arg # rest) = skip_git_globals k rest"
| "skip_git_globals 0 (arg # rest) =
     (if startsWith arg ''-''
      then skip_git_globals (if arg \<in> set GIT_GLOBALS_WITH_VALUE then 1 else 0) rest
      else arg # rest)"

definition withoutGitGlobals :: "string list \<Rightarrow> string list" where
  "withoutGitGlobals argv =
     (if map_option toLowerCase (at argv 0) \<noteq> Some ''git'' then argv
      else ''git'' # skip_git_globals 0 (drop 1 argv))"

definition PRIVILEGE_COMMANDS :: "string list" where
  "PRIVILEGE_COMMANDS = [''sudo'', ''doas'', ''su'', ''pkexec'', ''runuser'']"

definition CURL_SHORT_WITH_VALUE :: string where
  "CURL_SHORT_WITH_VALUE = ''AbcDeEHKmoPQrtuUwxYyzC''"

definition CURL_DATA_FLAG :: rx where
  "CURL_DATA_FLAG = seqs [Bol, lit ''--'',
     alts [Seq (lit ''data'') (Star dot), Seq (lit ''form'') (Star dot), lit ''upload-file'',
       lit ''json'', lit ''post301'', lit ''post302'', lit ''post303''], Eol]"

definition safe_method :: "string option \<Rightarrow> bool" where
  "safe_method m \<longleftrightarrow> toLowerCase (or_else m []) \<in> {''get'', ''head'', ''options''}"

definition curl_data_short :: "char \<Rightarrow> bool" where
  "curl_data_short c \<longleftrightarrow> c \<in> set ''dFT''"

text \<open>One cluster of short options: \<^const>\<open>None\<close> when it sends data, otherwise the arguments that
  are left after it.\<close>

fun curl_cluster :: "string \<Rightarrow> string list \<Rightarrow> string list option" where
  "curl_cluster [] rest = Some rest"
| "curl_cluster (flag # fs) rest =
     (if curl_data_short flag then None
      else if flag = CHR ''X'' then
        (if fs \<noteq> [] then (if safe_method (Some fs) then Some rest else None)
         else (if safe_method (at rest 0) then Some (drop 1 rest) else None))
      else if flag \<in> set CURL_SHORT_WITH_VALUE then Some (if fs = [] then drop 1 rest else rest)
      else curl_cluster fs rest)"

lemma curl_cluster_length: "curl_cluster fs rest = Some rest' \<Longrightarrow> length rest' \<le> length rest"
  by (induction fs rest rule: curl_cluster.induct) (auto split: if_splits)

definition dashdash :: string where "dashdash = ''--''"
definition is_request :: "string \<Rightarrow> bool" where "is_request stem \<longleftrightarrow> stem = ''--request''"

function curlSendsData :: "string list \<Rightarrow> bool" where
  "curlSendsData [] = False"
| "curlSendsData (arg # rest) =
     (if arg = dashdash then False
      else if startsWith arg dashdash then
        (if rx_test CURL_DATA_FLAG (flagStem arg) then True
         else if is_request (flagStem arg) then
           (if CHR ''='' \<in> set arg
            then (if safe_method (Some (after_eq arg)) then curlSendsData rest else True)
            else (if safe_method (at rest 0) then curlSendsData (drop 1 rest) else True))
         else curlSendsData rest)
      else if \<not> (2 \<le> length arg \<and> hd arg = CHR ''-'') then curlSendsData rest
      else (case curl_cluster (drop 1 arg) rest of
              None \<Rightarrow> True
            | Some rest' \<Rightarrow> curlSendsData rest'))"
  by pat_completeness auto
termination
  by (relation "measure length") (auto dest: curl_cluster_length)

declare curlSendsData.simps [simp del]

subsection \<open>The risk of one command\<close>

definition POWERSHELL_REMOVE :: "string list" where
  "POWERSHELL_REMOVE = [''remove-item'', ''ri'', ''rm'', ''rmdir'', ''rd'', ''del'', ''erase'']"

definition POWERSHELL_WEB :: "string list" where
  "POWERSHELL_WEB = [''invoke-webrequest'', ''iwr'', ''invoke-restmethod'', ''irm'']"

fun web_sends :: "string list \<Rightarrow> bool" where
  "web_sends [] = False"
| "web_sends (p # ps) =
     (p = ''-body'' \<or> p = ''-infile'' \<or> (p = ''-method'' \<and> \<not> safe_method (at ps 0)) \<or> web_sends ps)"

definition powershell_risk :: "string \<Rightarrow> string list \<Rightarrow> risk_value option" where
  "powershell_risk first args =
     (let params = map toLowerCase args in
      if first = ''format-volume'' \<or> first = ''clear-disk''
      then Some (risk_of PrivilegeEscape ''may erase a disk'')
      else if first \<in> set POWERSHELL_REMOVE \<and>
          list_ex (\<lambda>p. 1 < length p \<and> startsWith ''-recurse'' p) params
      then Some (risk_of Destructive ''may recursively remove files'')
      else if first \<in> set POWERSHELL_WEB \<and> web_sends params
      then Some (risk_of ExternalSideEffect ''may change remote state or send network data'')
      else None)"

definition rm_risk :: "string list \<Rightarrow> bool" where
  "rm_risk args =
     (let flags = filter (\<lambda>arg. startsWith arg ''-'') (takeWhile (\<lambda>a. a \<noteq> ''--'') args);
          short = concat (filter (\<lambda>flag. \<not> startsWith flag ''--'') flags);
          recursive = (CHR ''r'' \<in> set short \<or> CHR ''R'' \<in> set short \<or> ''--recursive'' \<in> set flags);
          force = (CHR ''f'' \<in> set short \<or> ''--force'' \<in> set flags)
      in recursive \<and> force)"

definition argvRisk :: "string list \<Rightarrow> shell_language \<Rightarrow> risk_value option" where
  "argvRisk argv language =
     (let first = toLowerCase (or_else (at argv 0) []); args = drop 1 argv in
      if first \<in> set PRIVILEGE_COMMANDS
      then Some (risk_of PrivilegeEscape ''requires elevated system privileges'')
      else if (isShellWrapperCommand first \<or> isCommandRunner argv) \<and>
          list_ex (\<lambda>arg. rx_test sudo_rx arg \<or> executableName arg \<in> set PRIVILEGE_COMMANDS) args
      then Some (risk_of PrivilegeEscape ''requires elevated system privileges'')
      else if first = ''curl'' \<and> curlSendsData args
      then Some (risk_of ExternalSideEffect ''may change remote state or send network data'')
      else if language = Powershell then powershell_risk first args
      else if first = ''find'' \<and> ''-delete'' \<in> set args
      then Some (risk_of Destructive ''may delete every matched file'')
      else if first = ''rm'' \<and> rm_risk args
      then Some (risk_of Destructive ''may recursively force-remove files'')
      else None)"

definition RISK_FLOOR :: "command_risk \<Rightarrow> bool" where
  "RISK_FLOOR r \<longleftrightarrow> r = Destructive \<or> r = ExternalSideEffect"

definition canonical :: "parsed_node \<Rightarrow> string" where
  "canonical node = join '' '' (pn_argv node)"

text \<open>\<open>[executableName(node.argv[0] ?? ""), ...node.argv.slice(1)]\<close>.\<close>

definition base_argv :: "parsed_node \<Rightarrow> string list" where
  "base_argv node = executableName (or_else (at (pn_argv node) 0) []) # drop 1 (pn_argv node)"

definition higherRisk :: "risk_value \<Rightarrow> risk_value option \<Rightarrow> risk_value" where
  "higherRisk a b =
     (case b of
        None \<Rightarrow> a
      | Some v \<Rightarrow> if RISK_ORDER (rv_risk a) < RISK_ORDER (rv_risk v) then v else a)"

text \<open>A string that JavaScript treats as true.\<close>

definition truthy :: "string option \<Rightarrow> string option" where
  "truthy s = (case s of Some t \<Rightarrow> nonempty t | None \<Rightarrow> None)"

text \<open>\<open>nodeRisk\<close> at a given depth, with \<open>inner\<close> the risks of the nodes nested in it.\<close>

definition node_risk :: "shell_language \<Rightarrow> risk_value list \<Rightarrow> parsed_node \<Rightarrow> risk_value" where
  "node_risk language inner node =
     (let stripped = withoutGitGlobals (base_argv node);
          v1 = evaluatePart (canonical node);
          v2 = higherRisk v1 (Some (evaluatePart (join '' '' (base_argv node))));
          v3 = foldl (\<lambda>v r. higherRisk v (Some r)) v2 inner;
          v4 = (if length stripped \<noteq> length (pn_argv node)
                then higherRisk v3 (Some (evaluatePart (join '' '' stripped))) else v3);
          v5 = higherRisk v4 (argvRisk stripped language)
      in if rv_risk v5 \<in> {PrivilegeEscape, Destructive, ExternalSideEffect} then v5
         else if pn_redirects node \<or> pn_dynamic node
         then risk_of WorkspaceWrite ''shell syntax can change state'' else v5)"

text \<open>The recursion \<open>depth < 8\<close>, counted down: \<open>nodeRisk H lang (8 - depth)\<close>.\<close>

primrec nodeRisk :: "shell_host \<Rightarrow> shell_language \<Rightarrow> nat \<Rightarrow> parsed_node \<Rightarrow> risk_value" where
  "nodeRisk H language 0 node = node_risk language [] node"
| "nodeRisk H language (Suc n) node =
     node_risk language
       (case truthy (ne_command (nestedExecution (pn_argv node))) of
          None \<Rightarrow> []
        | Some cmd \<Rightarrow> map (nodeRisk H language n) (pc_nodes (parseShellCommand H cmd (Some language))))
       node"

definition MAX_NESTING :: nat where "MAX_NESTING = 8"

section \<open>Lemmas\<close>

lemma RISK_ORDER_inj: "RISK_ORDER a = RISK_ORDER b \<longleftrightarrow> a = b"
  by (cases a; cases b) simp_all

lemma rv_higherRisk [simp]:
  "rv_risk (higherRisk a (Some b)) = max (rv_risk a) (rv_risk b)" "higherRisk a None = a"
  by (auto simp: higherRisk_def max_def less_eq_command_risk_def
      simp flip: RISK_ORDER_inj)

lemma higherRisk_ge: "rv_risk a \<le> rv_risk (higherRisk a b)"
  by (cases b) auto

lemma foldl_higherRisk:
  "rv_risk v \<le> rv_risk (foldl (\<lambda>v r. higherRisk v (Some r)) v rs)"
  "r \<in> set rs \<Longrightarrow> rv_risk r \<le> rv_risk (foldl (\<lambda>v r. higherRisk v (Some r)) v rs)"
proof (induction rs arbitrary: v)
  case (Cons x xs)
  { case 1
    show ?case using Cons.IH(1)[of "higherRisk v (Some x)"] higherRisk_ge[of v "Some x"] by simp
  next
    case 2
    then show ?case
      using Cons.IH(1)[of "higherRisk v (Some x)"] Cons.IH(2)[of "higherRisk v (Some x)"] by auto }
qed auto

lemma risk_top: "x \<noteq> PrivilegeEscape \<Longrightarrow> x \<noteq> Destructive \<Longrightarrow> x \<noteq> ExternalSideEffect \<Longrightarrow>
    x < ExternalSideEffect"
  by (cases x) (simp_all add: less_command_risk_def)

text \<open>A risk above \<^const>\<open>WorkspaceWrite\<close> found in any of the views of a command is not lost.\<close>

lemma node_risk_ge:
  assumes high: "ExternalSideEffect \<le> rv_risk v"
    and v: "v = evaluatePart (canonical node) \<or> v = evaluatePart (join '' '' (base_argv node)) \<or>
      argvRisk (withoutGitGlobals (base_argv node)) language = Some v \<or> v \<in> set inner"
  shows "rv_risk v \<le> rv_risk (node_risk language inner node)"
proof -
  let ?v2 = "higherRisk (evaluatePart (canonical node)) (Some (evaluatePart (join '' '' (base_argv node))))"
  define v3 where "v3 = foldl (\<lambda>v r. higherRisk v (Some r)) ?v2 inner"
  define st where "st = withoutGitGlobals (base_argv node)"
  define v4 where "v4 = (if length st \<noteq> length (pn_argv node)
    then higherRisk v3 (Some (evaluatePart (join '' '' st))) else v3)"
  define v5 where "v5 = higherRisk v4 (argvRisk st language)"
  have "rv_risk ?v2 \<le> rv_risk v3" unfolding v3_def by (rule foldl_higherRisk)
  moreover have "rv_risk v3 \<le> rv_risk v4" unfolding v4_def by simp
  moreover have "rv_risk v4 \<le> rv_risk v5" unfolding v5_def by (rule higherRisk_ge)
  moreover have "v \<in> set inner \<Longrightarrow> rv_risk v \<le> rv_risk v3"
    unfolding v3_def by (rule foldl_higherRisk)
  moreover have "argvRisk st language = Some v \<Longrightarrow> rv_risk v \<le> rv_risk v5"
    unfolding v5_def by simp
  ultimately have le: "rv_risk v \<le> rv_risk v5"
    using v unfolding st_def[symmetric] by (auto simp: max_def split: if_splits)
  then have "\<not> rv_risk v5 < ExternalSideEffect" using high by simp
  then have "node_risk language inner node = v5"
    using risk_top[of "rv_risk v5"]
    unfolding node_risk_def Let_def v5_def v4_def v3_def st_def by auto
  with le show ?thesis by simp
qed

end
