(* ===== verification/CommandPolicy.thy ===== *)
theory CommandPolicy
  imports CommandRisk
begin

text \<open>
  The command policy of \<open>packages/sidecar/src/permissions/commandPolicy.ts\<close>: one command text
  is parsed, every node of it is evaluated to one or more verdicts, and the verdicts are
  aggregated to the strongest one. \<open>evaluateParsed\<close> is the shared evaluation behind
  \<open>evaluateCommand\<close> (rules and mode), \<open>evaluateReadOnlyCommand\<close> (plan mode and read-only
  agents) and \<open>evaluateCommandForImWorkspace\<close> (chat channels).

  The recursion into inner commands is bounded by \<open>depth < 8\<close> in the source; the model counts
  the depth down, so \<open>evaluateParsed \<dots> n\<close> is the call at depth \<open>8 - n\<close>. \<open>aggregate\<close> reduces a
  list without an initial value, which throws on the empty list: that is \<^const>\<open>None\<close>, and
  \<open>evaluateParsed_total\<close> shows that it never happens.
\<close>

section \<open>Definitions\<close>

datatype behavior = Allow | Ask | Deny

datatype eval_source = SrcMode | SrcRule | SrcChannel

datatype rule_list = AllowList | DenyList

datatype permission_mode = ModeAsk | ModeAuto

record eval =
  ev_behavior :: behavior
  ev_risk :: command_risk
  ev_reason :: string
  ev_source :: "eval_source option"
  ev_matchedList :: "rule_list option"
  ev_matchedRule :: "permission_rule option"
  ev_trigger :: "string option"
  ev_persistent :: "bool option"

record permission_config =
  cf_mode :: permission_mode
  cf_allow :: "permission_rule list option"
  cf_deny :: "permission_rule list option"
  cf_rules :: "permission_rule list option"
  cf_allowedDirectories :: "string list option"

record eval_context =
  cx_cwd :: "string option"
  cx_allowedRoots :: "string list option"
  cx_language :: "shell_language option"

fun behaviorRank :: "behavior \<Rightarrow> nat" where
  "behaviorRank Allow = 0"
| "behaviorRank Ask = 1"
| "behaviorRank Deny = 2"

instantiation behavior :: linorder
begin

definition less_eq_behavior :: "behavior \<Rightarrow> behavior \<Rightarrow> bool" where
  "less_eq_behavior a b \<longleftrightarrow> behaviorRank a \<le> behaviorRank b"

definition less_behavior :: "behavior \<Rightarrow> behavior \<Rightarrow> bool" where
  "less_behavior a b \<longleftrightarrow> behaviorRank a < behaviorRank b"

instance
proof
  fix a b :: behavior
  show "a \<le> b \<Longrightarrow> b \<le> a \<Longrightarrow> a = b"
    by (cases a; cases b) (simp_all add: less_eq_behavior_def)
qed (auto simp: less_eq_behavior_def less_behavior_def)

end

subsection \<open>Rules\<close>

definition exactCommandRule :: "string \<Rightarrow> permission_rule list \<Rightarrow> permission_rule option" where
  "exactCommandRule command rules = find (\<lambda>rule. trim rule = trim command) rules"

definition rule_matches :: "string \<Rightarrow> permission_rule \<Rightarrow> bool" where
  "rule_matches normalized rule =
     (case parsePermissionRule rule of
        Exact c \<Rightarrow> normalized = normalize_cmd c
      | Wildcard p \<Rightarrow> matchWildcardPattern p normalized)"

definition matchingRule ::
  "string \<Rightarrow> permission_rule list \<Rightarrow> bool \<Rightarrow> permission_rule option" where
  "matchingRule command rules allowWrapper =
     (let normalized = normalize_cmd command in
      if \<not> allowWrapper \<and> isShellWrapperCommand (hd (split_char (CHR '' '') normalized)) then None
      else find (rule_matches normalized) rules)"

subsection \<open>Directory changes\<close>

text \<open>The loop over the roots: \<open>realpathSync\<close> of a root may throw.\<close>

fun some_root :: "host \<Rightarrow> string \<Rightarrow> string list \<Rightarrow> bool option" where
  "some_root H absolute [] = Some False"
| "some_root H absolute (root # roots) =
     (case h_realpath H root of
        None \<Rightarrow> None
      | Some r \<Rightarrow> if strict_inside (relative (h_cwd H) r absolute) then Some True
                  else some_root H absolute roots)"

definition authorizedDirectory :: "host \<Rightarrow> string \<Rightarrow> string \<Rightarrow> string list \<Rightarrow> string option" where
  "authorizedDirectory H target cwd roots =
     (case h_realpath H (resolve (h_cwd H) cwd target) of
        None \<Rightarrow> None
      | Some absolute \<Rightarrow>
          if h_isdir H absolute \<noteq> Some True then None
          else if some_root H absolute roots = Some True then Some absolute else None)"

subsection \<open>Aggregation\<close>

definition stronger :: "eval \<Rightarrow> eval \<Rightarrow> eval" where
  "stronger a b =
     (if behaviorRank (ev_behavior a) < behaviorRank (ev_behavior b) \<or>
         (behaviorRank (ev_behavior b) = behaviorRank (ev_behavior a) \<and>
          ev_matchedList b = Some DenyList)
      then b else a)"

definition max_risk :: "command_risk \<Rightarrow> eval \<Rightarrow> command_risk" where
  "max_risk a b = (if RISK_ORDER a < RISK_ORDER (ev_risk b) then ev_risk b else a)"

definition aggregate :: "eval list \<Rightarrow> eval option" where
  "aggregate values =
     (case values of
        [] \<Rightarrow> None
      | v # vs \<Rightarrow>
          let highest = foldl stronger v vs;
              risk = foldl max_risk (ev_risk highest) values;
              r = highest\<lparr>ev_risk := risk\<rparr>
          in Some (if list_ex (\<lambda>x. ev_persistent x = Some False) values
                   then r\<lparr>ev_persistent := Some False\<rparr> else r))"

subsection \<open>One node\<close>

text \<open>What the evaluation of the nodes of one command shares. \<open>en_inner\<close> is the evaluation of an
  inner command, absent at the depth limit; \<^const>\<open>None\<close> inside it is a thrown error.\<close>

record env =
  en_host :: host
  en_config :: permission_config
  en_readOnly :: bool
  en_language :: shell_language
  en_roots :: "string list"
  en_allowRules :: "permission_rule list"
  en_denyRules :: "permission_rule list"
  en_wholeDeny :: "permission_rule option"
  en_wholeAllow :: "permission_rule option"
  en_inner :: "(string \<Rightarrow> eval option) option"

text \<open>The working directories the next command may run in.\<close>

record cwd_state =
  cs_cwds :: "string list"
  cs_cd :: "string list option"     \<comment> \<open>\<open>successfulCd\<close>\<close>

text \<open>The helper \<open>result\<close>.\<close>

definition result :: "parsed_node \<Rightarrow> risk_value \<Rightarrow> behavior \<Rightarrow> string \<Rightarrow> eval" where
  "result node risk b reason =
     \<lparr>ev_behavior = b, ev_risk = rv_risk risk, ev_reason = reason, ev_source = None,
      ev_matchedList = None, ev_matchedRule = None, ev_trigger = Some (pn_text node),
      ev_persistent = None\<rparr>"

definition refuse :: "env \<Rightarrow> behavior" where
  "refuse E = (if en_readOnly E then Deny else Ask)"

definition allow_by_rule :: "parsed_node \<Rightarrow> risk_value \<Rightarrow> permission_rule \<Rightarrow> eval" where
  "allow_by_rule node risk rule =
     (result node risk Allow ''command matched allow list'')
       \<lparr>ev_source := Some SrcRule, ev_matchedList := Some AllowList, ev_matchedRule := Some rule\<rparr>"

definition once_only :: "env \<Rightarrow> parsed_node \<Rightarrow> risk_value \<Rightarrow> string \<Rightarrow> eval" where
  "once_only E node risk reason =
     (result node risk (refuse E) reason)\<lparr>ev_persistent := Some False\<rparr>"

text \<open>The first deny rule that matches the whole command, the node, the node with its bare
  executable name, or the node without git's global options. The source tests the rule itself
  for truth, so the empty rule counts as no rule.\<close>

definition denied_rule :: "env \<Rightarrow> parsed_node \<Rightarrow> permission_rule option" where
  "denied_rule E node =
     truthy (coalesce (en_wholeDeny E)
       (coalesce (matchingRule (canonical node) (en_denyRules E) True)
         (coalesce (matchingRule (join '' '' (base_argv node)) (en_denyRules E) True)
           (matchingRule (join '' '' (withoutGitGlobals (base_argv node))) (en_denyRules E) True))))"

definition deny_values :: "env \<Rightarrow> parsed_node \<Rightarrow> risk_value \<Rightarrow> eval list" where
  "deny_values E node risk =
     (case denied_rule E node of
        Some rule \<Rightarrow>
          if en_readOnly E then []
          else [(result node risk Ask ''command matched deny list'')
                  \<lparr>ev_source := Some SrcRule, ev_matchedList := Some DenyList,
                   ev_matchedRule := Some rule\<rparr>]
      | None \<Rightarrow> [])"

definition wrapper_node :: "parsed_node \<Rightarrow> bool" where
  "wrapper_node node \<longleftrightarrow> isShellWrapperCommand (executableName (or_else (at (pn_argv node) 0) []))"

definition runner_node :: "parsed_node \<Rightarrow> risk_value \<Rightarrow> bool" where
  "runner_node node risk \<longleftrightarrow>
     pn_kind node = KCommand \<and> \<not> pn_dynamic node \<and> \<not> wrapper_node node \<and>
     (isCommandRunner (pn_argv node) \<or> ne_opaque (nestedExecution (pn_argv node)) \<or>
      list_ex (\<lambda>c. c = bslash \<or> c = CHR ''/'') (or_else (at (pn_argv node) 0) [])) \<and>
     \<not> RISK_FLOOR (rv_risk risk)"

text \<open>The verdict of an inner command replaces the outer one if it refuses, if it matched a deny
  list or if it cannot be stored.\<close>

definition inner_decides :: "eval \<Rightarrow> bool" where
  "inner_decides v \<longleftrightarrow>
     ev_behavior v = Deny \<or> ev_matchedList v = Some DenyList \<or> ev_persistent v = Some False"

definition runner_exact :: "env \<Rightarrow> parsed_node \<Rightarrow> risk_value \<Rightarrow> eval" where
  "runner_exact E node risk =
     (case truthy (coalesce (exactCommandRule (pn_text node) (en_allowRules E)) (en_wholeAllow E)) of
        Some rule \<Rightarrow> allow_by_rule node risk rule
      | None \<Rightarrow> result node risk (refuse E) ''command runs another command'')"

definition runner_value :: "env \<Rightarrow> parsed_node \<Rightarrow> risk_value \<Rightarrow> eval option" where
  "runner_value E node risk =
     (let execution = nestedExecution (pn_argv node) in
      if ne_complete execution = Some False
      then Some (once_only E node risk ''execution options cannot be analyzed'')
      else case en_inner E of
        None \<Rightarrow> Some (once_only E node risk ''nested execution exceeds analysis limit'')
      | Some inner_eval \<Rightarrow>
          (case truthy (ne_command execution) of
             None \<Rightarrow> Some (runner_exact E node risk)
           | Some inner \<Rightarrow>
               (case inner_eval inner of
                  None \<Rightarrow> None
                | Some v \<Rightarrow>
                    Some (if inner_decides v then v\<lparr>ev_trigger := Some (pn_text node)\<rparr>
                          else runner_exact E node risk))))"

definition unsupported :: "env \<Rightarrow> parsed_node \<Rightarrow> risk_value \<Rightarrow> eval" where
  "unsupported E node risk = once_only E node risk ''unsupported or dynamic shell command''"

definition enter_node :: "parsed_node \<Rightarrow> cwd_state \<Rightarrow> cwd_state" where
  "enter_node node st =
     \<lparr>cs_cwds = (case cs_cd st of
        Some dirs \<Rightarrow> if pn_operator node = Some ''&&'' then dirs else cs_cwds st
      | None \<Rightarrow> cs_cwds st),
      cs_cd = None\<rparr>"

definition cd_destinations :: "env \<Rightarrow> parsed_node \<Rightarrow> cwd_state \<Rightarrow> string option list" where
  "cd_destinations E node st =
     (case truthy (pn_cwd node) of
        None \<Rightarrow> []
      | Some target \<Rightarrow> map (\<lambda>cwd. authorizedDirectory (en_host E) target cwd (en_roots E)) (cs_cwds st))"

definition cd_value ::
  "env \<Rightarrow> parsed_node \<Rightarrow> parsed_node option \<Rightarrow> risk_value \<Rightarrow> cwd_state \<Rightarrow> eval \<times> cwd_state" where
  "cd_value E node nxt risk st =
     (let piped = (pn_operator node = Some ''|'' \<or>
                   (case nxt of Some n \<Rightarrow> pn_operator n = Some ''|'' | None \<Rightarrow> False));
          destinations = cd_destinations E node st;
          safe = (\<not> piped \<and> destinations \<noteq> [] \<and> list_all (\<lambda>p. p \<noteq> None) destinations)
      in if \<not> safe then
           (once_only E node risk ''directory change cannot be proven inside authorized directories'',
            st)
         else
           let dirs = map the destinations in
           ((result node risk Allow ''authorized directory change'')
              \<lparr>ev_risk := ReadOnly, ev_source := Some SrcMode\<rparr>,
            st\<lparr>cs_cwds := uniq dirs, cs_cd := Some dirs\<rparr>))"

definition strict_node :: "parsed_node \<Rightarrow> bool" where
  "strict_node node \<longleftrightarrow> \<not> pn_redirects node \<and> isStrictReadOnly (canonical node)"

definition plain_values :: "env \<Rightarrow> parsed_node \<Rightarrow> risk_value \<Rightarrow> eval list" where
  "plain_values E node risk =
     (let strict = strict_node node in
      if en_readOnly E then
        [(result node risk (if strict then Allow else Deny)
            (if strict then ''recognized read-only command''
             else ''read-only execution refuses mutating commands''))
           \<lparr>ev_risk := (if strict then ReadOnly else rv_risk risk)\<rparr>]
      else if denied_rule E node \<noteq> None then []
      else if RISK_FLOOR (rv_risk risk) then
        [(result node risk Ask (rv_reason risk))
           \<lparr>ev_source := Some SrcMode, ev_matchedList := Some DenyList\<rparr>]
      else
        (case truthy (coalesce (matchingRule (canonical node) (en_allowRules E) False)
            (en_wholeAllow E)) of
           Some rule \<Rightarrow> [allow_by_rule node risk rule]
         | None \<Rightarrow>
             if strict \<and> (cf_mode (en_config E) = ModeAuto \<or> rx_test MANUAL_SAFE (canonical node)) then
               [(result node risk Allow ''recognized read-only command'')
                  \<lparr>ev_source := Some SrcMode, ev_risk := ReadOnly\<rparr>]
             else if cf_mode (en_config E) \<noteq> ModeAuto \<and>
                 (pn_redirects node \<or> (rv_risk risk = ReadOnly \<and> \<not> strict)) then
               [(result node risk Ask ''read-only command has unsafe arguments'')
                  \<lparr>ev_source := Some SrcMode\<rparr>]
             else
               [(result node risk (if cf_mode (en_config E) = ModeAuto then Allow else Ask)
                   (rv_reason risk))\<lparr>ev_source := Some SrcMode\<rparr>]))"

text \<open>The body of the loop over the nodes: the verdicts it pushes and the new directories.\<close>

definition node_values ::
  "env \<Rightarrow> parsed_node \<Rightarrow> parsed_node option \<Rightarrow> cwd_state \<Rightarrow> (eval list \<times> cwd_state) option" where
  "node_values E node nxt st =
     (let risk = nodeRisk (h_shell (en_host E)) (en_language E) MAX_NESTING node in
      if rv_risk risk = PrivilegeEscape then Some ([result node risk Deny (rv_reason risk)], st)
      else
        let pre = deny_values E node risk in
        if runner_node node risk then
          map_option (\<lambda>v. (pre @ [v], st)) (runner_value E node risk)
        else if pn_kind node = KUnknown \<or> pn_dynamic node \<or> wrapper_node node then
          Some (pre @ [unsupported E node risk], st)
        else
          let st1 = enter_node node st in
          if pn_kind node = KCd then
            let (v, st2) = cd_value E node nxt risk st1 in Some (pre @ [v], st2)
          else Some (pre @ plain_values E node risk, st1))"

fun nodes_values :: "env \<Rightarrow> parsed_node list \<Rightarrow> cwd_state \<Rightarrow> eval list option" where
  "nodes_values E [] st = Some []"
| "nodes_values E (n # ns) st =
     (case node_values E n (at ns 0) st of
        None \<Rightarrow> None
      | Some (vs, st') \<Rightarrow> map_option (\<lambda>rest. vs @ rest) (nodes_values E ns st'))"

subsection \<open>One command\<close>

definition unparsed_value :: "bool \<Rightarrow> parsed_command \<Rightarrow> eval list" where
  "unparsed_value readOnly parsed =
     (if \<not> pc_complete parsed \<or> pc_nodes parsed = [] then
        [\<lparr>ev_behavior = (if readOnly then Deny else Ask), ev_risk = WorkspaceWrite,
          ev_reason = or_else (pc_reason parsed) ''command could not be parsed'',
          ev_source = None, ev_matchedList = None, ev_matchedRule = None, ev_trigger = None,
          ev_persistent = Some False\<rparr>]
      else [])"

definition make_env ::
  "host \<Rightarrow> permission_config \<Rightarrow> eval_context \<Rightarrow> bool \<Rightarrow> (string \<Rightarrow> eval option) option \<Rightarrow>
   string \<Rightarrow> shell_language \<Rightarrow> env" where
  "make_env H config cx readOnly inner command lang =
     (let allowRules = or_else (coalesce (cf_allow config) (cf_rules config)) [];
          denyRules = or_else (cf_deny config) []
      in \<lparr>en_host = H, en_config = config, en_readOnly = readOnly, en_language = lang,
          en_roots = (case truthy (cx_cwd cx) of Some d \<Rightarrow> [d] | None \<Rightarrow> [])
            @ or_else (cx_allowedRoots cx) []
            @ (if readOnly then [] else or_else (cf_allowedDirectories config) []),
          en_allowRules = allowRules, en_denyRules = denyRules,
          en_wholeDeny = matchingRule command denyRules True,
          en_wholeAllow = exactCommandRule command allowRules,
          en_inner = inner\<rparr>)"

definition evaluate_with ::
  "host \<Rightarrow> permission_config \<Rightarrow> eval_context \<Rightarrow> bool \<Rightarrow> (string \<Rightarrow> eval option) option \<Rightarrow>
   string \<Rightarrow> eval option" where
  "evaluate_with H config cx readOnly inner command =
     (let parsed = parseShellCommand (h_shell H) command (cx_language cx);
          E = make_env H config cx readOnly inner command (pc_language parsed);
          st = \<lparr>cs_cwds = [or_else (cx_cwd cx) (h_cwd H)], cs_cd = None\<rparr>
      in case nodes_values E (pc_nodes parsed) st of
           None \<Rightarrow> None
         | Some values \<Rightarrow> aggregate (values @ unparsed_value readOnly parsed))"

primrec evaluateParsed ::
  "host \<Rightarrow> permission_config \<Rightarrow> eval_context \<Rightarrow> bool \<Rightarrow> nat \<Rightarrow> string \<Rightarrow> eval option" where
  "evaluateParsed H config cx readOnly 0 = evaluate_with H config cx readOnly None"
| "evaluateParsed H config cx readOnly (Suc n) =
     evaluate_with H config cx readOnly (Some (evaluateParsed H config cx readOnly n))"

definition evaluateCommand ::
  "host \<Rightarrow> string \<Rightarrow> permission_config \<Rightarrow> eval_context \<Rightarrow> eval option" where
  "evaluateCommand H command config cx =
     (case first_match PRIVILEGE_ESCAPE command of
        Some reason \<Rightarrow>
          Some \<lparr>ev_behavior = Deny, ev_risk = PrivilegeEscape, ev_reason = reason,
            ev_source = None, ev_matchedList = None, ev_matchedRule = None,
            ev_trigger = Some command, ev_persistent = None\<rparr>
      | None \<Rightarrow> evaluateParsed H config cx False MAX_NESTING command)"

definition READ_ONLY_CONFIG :: permission_config where
  "READ_ONLY_CONFIG =
     \<lparr>cf_mode = ModeAsk, cf_allow = Some [], cf_deny = Some [], cf_rules = None,
      cf_allowedDirectories = None\<rparr>"

definition evaluateReadOnlyCommand :: "host \<Rightarrow> string \<Rightarrow> eval_context \<Rightarrow> eval option" where
  "evaluateReadOnlyCommand H command cx =
     evaluateParsed H READ_ONLY_CONFIG cx True MAX_NESTING command"

record im_command_policy =
  icp_mode :: permission_mode
  icp_allow :: "permission_rule list option"
  icp_deny :: "permission_rule list option"

definition im_config :: "permission_config \<Rightarrow> im_command_policy \<Rightarrow> permission_config" where
  "im_config config policy =
     config\<lparr>cf_mode := icp_mode policy,
       cf_allow := Some (or_else (coalesce (cf_allow config) (cf_rules config)) []
         @ or_else (icp_allow policy) []),
       cf_deny := Some (or_else (cf_deny config) [] @ or_else (icp_deny policy) []),
       cf_rules := None\<rparr>"

definition evaluateCommandForImWorkspace ::
  "host \<Rightarrow> string \<Rightarrow> permission_config \<Rightarrow> im_command_policy \<Rightarrow> eval_context \<Rightarrow> eval option" where
  "evaluateCommandForImWorkspace H command config policy cx =
     evaluateCommand H command (im_config config policy) cx"

section \<open>Aggregation takes the strongest verdict\<close>

lemma behaviorRank_inj: "behaviorRank a = behaviorRank b \<longleftrightarrow> a = b"
  by (cases a; cases b) simp_all

lemma behavior_bounds [simp]: "Allow \<le> b" "b \<le> Deny" "b \<le> Allow \<longleftrightarrow> b = Allow" "Deny \<le> b \<longleftrightarrow> b = Deny"
  by (cases b; simp add: less_eq_behavior_def)+

lemma Ask_le: "Ask \<le> b \<longleftrightarrow> b \<noteq> Allow"
  by (cases b) (simp_all add: less_eq_behavior_def)

lemma risk_bounds [simp]: "ReadOnly \<le> r" "r \<le> ReadOnly \<longleftrightarrow> r = ReadOnly"
  by (cases r; simp add: less_eq_command_risk_def)+

lemma stronger_behavior: "ev_behavior (stronger a b) = max (ev_behavior a) (ev_behavior b)"
  by (auto simp: stronger_def max_def less_eq_behavior_def simp flip: behaviorRank_inj)

lemma stronger_cases: "stronger a b = a \<or> stronger a b = b"
  by (simp add: stronger_def)

text \<open>Among the verdicts of the strongest behaviour, one that comes from a deny list wins.\<close>

lemma stronger_deny:
  "ev_matchedList a = Some DenyList \<Longrightarrow> ev_behavior b \<le> ev_behavior a \<Longrightarrow>
     ev_matchedList (stronger a b) = Some DenyList"
  "ev_matchedList b = Some DenyList \<Longrightarrow> ev_behavior a \<le> ev_behavior b \<Longrightarrow>
     ev_matchedList (stronger a b) = Some DenyList"
  by (auto simp: stronger_def less_eq_behavior_def)

lemma foldl_stronger_in: "foldl stronger v vs \<in> set (v # vs)"
proof (induction vs arbitrary: v)
  case (Cons y ys)
  show ?case using Cons.IH[of "stronger v y"] stronger_cases[of v y] by auto
qed simp

lemma foldl_stronger_ge: "x \<in> set (v # vs) \<Longrightarrow> ev_behavior x \<le> ev_behavior (foldl stronger v vs)"
proof (induction vs arbitrary: v x)
  case (Cons y ys)
  have "ev_behavior (stronger v y) \<le> ev_behavior (foldl stronger (stronger v y) ys)"
    using Cons.IH by simp
  then show ?case
    using Cons.prems Cons.IH[of x "stronger v y"] by (auto simp: stronger_behavior)
qed simp

lemma foldl_stronger_deny:
  "x \<in> set (v # vs) \<Longrightarrow> ev_matchedList x = Some DenyList \<Longrightarrow>
   ev_behavior x = ev_behavior (foldl stronger v vs) \<Longrightarrow>
   ev_matchedList (foldl stronger v vs) = Some DenyList"
proof (induction vs arbitrary: v x)
  case (Cons y ys)
  have le: "ev_behavior v \<le> ev_behavior (foldl stronger v (y # ys))"
    "ev_behavior y \<le> ev_behavior (foldl stronger v (y # ys))"
    using foldl_stronger_ge[of _ v "y # ys"] by simp_all
  have top: "ev_behavior (stronger v y) \<le> ev_behavior (foldl stronger v (y # ys))"
    using foldl_stronger_ge[of "stronger v y" "stronger v y" ys] by simp
  consider "x = v" | "x = y" | "x \<in> set ys" using Cons.prems(1) by auto
  then show ?case
  proof cases
    case 3
    then show ?thesis using Cons.IH[of x "stronger v y"] Cons.prems by simp
  next
    case 1
    then have "ev_behavior y \<le> ev_behavior v" using le Cons.prems(3) by simp
    then have "ev_matchedList (stronger v y) = Some DenyList" "ev_behavior (stronger v y) = ev_behavior v"
      using stronger_deny(1)[of v y] 1 Cons.prems(2) by (simp_all add: stronger_behavior)
    then show ?thesis using Cons.IH[of "stronger v y" "stronger v y"] Cons.prems(3) 1 by simp
  next
    case 2
    then have "ev_behavior v \<le> ev_behavior y" using le Cons.prems(3) by simp
    then have "ev_matchedList (stronger v y) = Some DenyList" "ev_behavior (stronger v y) = ev_behavior y"
      using stronger_deny(2)[of y v] 2 Cons.prems(2) by (simp_all add: stronger_behavior)
    then show ?thesis using Cons.IH[of "stronger v y" "stronger v y"] Cons.prems(3) 2 by simp
  qed
qed simp

lemma max_risk_max: "max_risk a b = max a (ev_risk b)"
  by (auto simp: max_risk_def max_def less_eq_command_risk_def simp flip: RISK_ORDER_inj)

lemma foldl_max_risk: "foldl max_risk r vs = Max (insert r (ev_risk ` set vs))"
proof (induction vs arbitrary: r)
  case (Cons v vs)
  have "foldl max_risk r (v # vs) = Max (insert (max r (ev_risk v)) (ev_risk ` set vs))"
    using Cons.IH[of "max_risk r v"] max_risk_max[of r v] by simp
  also have "\<dots> = Max (insert r (insert (ev_risk v) (ev_risk ` set vs)))"
    by (cases "vs = []") (simp_all add: max.assoc)
  finally show ?case by simp
qed simp

lemma aggregate_spec:
  assumes "aggregate vs = Some r"
  shows "ev_behavior r = Max (ev_behavior ` set vs)" and "ev_risk r = Max (ev_risk ` set vs)"
    and "(ev_persistent r = Some False) = (\<exists>v \<in> set vs. ev_persistent v = Some False)"
    and "\<exists>v \<in> set vs. ev_behavior v = ev_behavior r \<and> ev_matchedList v = ev_matchedList r \<and>
           ev_matchedRule v = ev_matchedRule r \<and> ev_source v = ev_source r \<and>
           ev_reason v = ev_reason r \<and> ev_trigger v = ev_trigger r"
    and "v \<in> set vs \<Longrightarrow> ev_matchedList v = Some DenyList \<Longrightarrow> ev_behavior v = ev_behavior r \<Longrightarrow>
           ev_matchedList r = Some DenyList"
proof -
  obtain w ws where vs: "vs = w # ws" using assms by (cases vs) (auto simp: aggregate_def)
  let ?h = "foldl stronger w ws"
  have h: "?h \<in> set vs" using foldl_stronger_in vs by simp
  have r: "r = (?h\<lparr>ev_risk := foldl max_risk (ev_risk ?h) vs\<rparr>)
      \<lparr>ev_persistent := if list_ex (\<lambda>x. ev_persistent x = Some False) vs then Some False
         else ev_persistent ?h\<rparr>"
    using assms vs by (auto simp: aggregate_def Let_def)
  show "ev_behavior r = Max (ev_behavior ` set vs)"
    using foldl_stronger_ge[of _ w ws] h vs by (intro Max_eqI [symmetric]) (auto simp: r)
  have "insert (ev_risk ?h) (ev_risk ` set vs) = ev_risk ` set vs" using h by auto
  then show "ev_risk r = Max (ev_risk ` set vs)" by (simp add: r foldl_max_risk)
  show "(ev_persistent r = Some False) = (\<exists>v \<in> set vs. ev_persistent v = Some False)"
    using h by (auto simp: r list_ex_iff)
  show "\<exists>v \<in> set vs. ev_behavior v = ev_behavior r \<and> ev_matchedList v = ev_matchedList r \<and>
      ev_matchedRule v = ev_matchedRule r \<and> ev_source v = ev_source r \<and>
      ev_reason v = ev_reason r \<and> ev_trigger v = ev_trigger r"
    using h by (intro bexI[of _ ?h]) (simp_all add: r)
  show "v \<in> set vs \<Longrightarrow> ev_matchedList v = Some DenyList \<Longrightarrow> ev_behavior v = ev_behavior r \<Longrightarrow>
      ev_matchedList r = Some DenyList"
    using foldl_stronger_deny[of v w ws] vs by (simp add: r)
qed

lemma aggregate_ge:
  assumes "aggregate vs = Some r" and "v \<in> set vs"
  shows "ev_behavior v \<le> ev_behavior r" and "ev_risk v \<le> ev_risk r"
  using assms by (simp_all add: aggregate_spec(1,2))

lemma aggregate_total: "vs \<noteq> [] \<Longrightarrow> \<exists>r. aggregate vs = Some r"
  by (cases vs) (auto simp: aggregate_def Let_def)

section \<open>The verdicts of a node\<close>

abbreviation env_risk :: "env \<Rightarrow> parsed_node \<Rightarrow> risk_value" where
  "env_risk E n \<equiv> nodeRisk (h_shell (en_host E)) (en_language E) MAX_NESTING n"

abbreviation opaque_shell :: "parsed_node \<Rightarrow> bool" where
  "opaque_shell n \<equiv> pn_kind n = KUnknown \<or> pn_dynamic n \<or> wrapper_node n"

text \<open>The verdicts after the deny rules, branch by branch.\<close>

definition main_verdicts ::
  "env \<Rightarrow> parsed_node \<Rightarrow> parsed_node option \<Rightarrow> cwd_state \<Rightarrow> eval list \<Rightarrow> bool" where
  "main_verdicts E n nxt st ms \<longleftrightarrow>
     (let risk = env_risk E n in
      if runner_node n risk then \<exists>v. runner_value E n risk = Some v \<and> ms = [v]
      else if opaque_shell n then ms = [unsupported E n risk]
      else if pn_kind n = KCd then ms = [fst (cd_value E n nxt risk (enter_node n st))]
      else ms = plain_values E n risk)"

lemma node_values_parts:
  assumes "node_values E n nxt st = Some (vs, st')"
  shows "if rv_risk (env_risk E n) = PrivilegeEscape
    then vs = [result n (env_risk E n) Deny (rv_reason (env_risk E n))]
    else \<exists>ms. vs = deny_values E n (env_risk E n) @ ms \<and> main_verdicts E n nxt st ms"
proof (cases "rv_risk (env_risk E n) = PrivilegeEscape")
  case True
  then show ?thesis using assms unfolding node_values_def Let_def by simp
next
  case False
  have "\<exists>ms. vs = deny_values E n (env_risk E n) @ ms \<and> main_verdicts E n nxt st ms"
  proof (cases "runner_node n (env_risk E n)")
    case True
    then show ?thesis
      using assms False unfolding node_values_def main_verdicts_def Let_def by auto
  next
    case nr: False
    then show ?thesis
      using assms False unfolding node_values_def main_verdicts_def Let_def
      by (cases "opaque_shell n"; cases "pn_kind n = KCd")
        (simp_all split: prod.splits)
  qed
  then show ?thesis using False by simp
qed

lemma runner_value_total:
  assumes "\<forall>f c. en_inner E = Some f \<longrightarrow> f c \<noteq> None"
  shows "\<exists>v. runner_value E n risk = Some v"
proof (cases "\<exists>f c. en_inner E = Some f \<and> truthy (ne_command (nestedExecution (pn_argv n))) = Some c")
  case True
  then obtain f c where f: "en_inner E = Some f"
    "truthy (ne_command (nestedExecution (pn_argv n))) = Some c" by blast
  then obtain w where "f c = Some w" using assms by blast
  with f show ?thesis unfolding runner_value_def Let_def by simp
next
  case False
  then show ?thesis unfolding runner_value_def Let_def by (auto split: option.splits)
qed

lemma node_values_total:
  assumes "\<forall>f c. en_inner E = Some f \<longrightarrow> f c \<noteq> None"
  shows "\<exists>vs st'. node_values E n nxt st = Some (vs, st')"
  using runner_value_total[OF assms, of n "env_risk E n"]
  unfolding node_values_def Let_def by (auto split: prod.splits)

lemma plain_values_not_Nil: "deny_values E n risk = [] \<Longrightarrow> plain_values E n risk \<noteq> []"
  unfolding plain_values_def deny_values_def Let_def by (auto split: option.splits if_splits)

lemma node_values_not_Nil: "node_values E n nxt st = Some (vs, st') \<Longrightarrow> vs \<noteq> []"
  using node_values_parts[of E n nxt st vs st'] plain_values_not_Nil[of E n "env_risk E n"]
  unfolding main_verdicts_def Let_def by (auto split: if_splits)

lemma nodes_values_node:
  "nodes_values E ns st = Some vs \<Longrightarrow> n \<in> set ns \<Longrightarrow>
   \<exists>nxt st1 vs1 st2. node_values E n nxt st1 = Some (vs1, st2) \<and> set vs1 \<subseteq> set vs"
proof (induction E ns st arbitrary: vs rule: nodes_values.induct)
  case (2 E m ns st)
  from "2.prems"(1) obtain vs1 st1 rest where m: "node_values E m (at ns 0) st = Some (vs1, st1)"
    and rest: "nodes_values E ns st1 = Some rest" and vs: "vs = vs1 @ rest"
    by (auto split: option.splits prod.splits)
  show ?case
  proof (cases "n = m")
    case True
    then show ?thesis using m vs by auto
  next
    case False
    then show ?thesis using "2.IH"[OF m _ rest] "2.prems"(2) vs by fastforce
  qed
qed simp

lemma nodes_values_elem:
  "nodes_values E ns st = Some vs \<Longrightarrow> v \<in> set vs \<Longrightarrow>
   \<exists>n \<in> set ns. \<exists>nxt st1 vs1 st2. node_values E n nxt st1 = Some (vs1, st2) \<and> v \<in> set vs1"
proof (induction E ns st arbitrary: vs rule: nodes_values.induct)
  case (2 E m ns st)
  from "2.prems"(1) obtain vs1 st1 rest where m: "node_values E m (at ns 0) st = Some (vs1, st1)"
    and rest: "nodes_values E ns st1 = Some rest" and vs: "vs = vs1 @ rest"
    by (auto split: option.splits prod.splits)
  show ?case
  proof (cases "v \<in> set vs1")
    case True
    then show ?thesis using m by auto
  next
    case False
    then show ?thesis using "2.IH"[OF m _ rest] "2.prems"(2) vs by fastforce
  qed
qed simp

lemma nodes_values_total:
  "(\<forall>f c. en_inner E = Some f \<longrightarrow> f c \<noteq> None) \<Longrightarrow>
   \<exists>vs. nodes_values E ns st = Some vs \<and> (ns \<noteq> [] \<longrightarrow> vs \<noteq> [])"
proof (induction ns arbitrary: st)
  case (Cons n ns)
  obtain vs1 st1 where n: "node_values E n (at ns 0) st = Some (vs1, st1)"
    using node_values_total[OF Cons.prems] by blast
  moreover obtain rest where "nodes_values E ns st1 = Some rest"
    using Cons.IH[OF Cons.prems] by blast
  ultimately show ?case using node_values_not_Nil[OF n] by simp
qed simp

section \<open>The verdict of a command\<close>

abbreviation parse_of :: "host \<Rightarrow> eval_context \<Rightarrow> string \<Rightarrow> parsed_command" where
  "parse_of H cx command \<equiv> parseShellCommand (h_shell H) command (cx_language cx)"

definition inner_of ::
  "host \<Rightarrow> permission_config \<Rightarrow> eval_context \<Rightarrow> bool \<Rightarrow> nat \<Rightarrow> (string \<Rightarrow> eval option) option" where
  "inner_of H config cx ro n =
     (case n of 0 \<Rightarrow> None | Suc m \<Rightarrow> Some (evaluateParsed H config cx ro m))"

abbreviation env_of ::
  "host \<Rightarrow> permission_config \<Rightarrow> eval_context \<Rightarrow> bool \<Rightarrow> nat \<Rightarrow> string \<Rightarrow> env" where
  "env_of H config cx ro n command \<equiv>
     make_env H config cx ro (inner_of H config cx ro n) command
       (pc_language (parse_of H cx command))"

lemma evaluateParsed_eq:
  "evaluateParsed H config cx ro n = evaluate_with H config cx ro (inner_of H config cx ro n)"
  by (cases n) (simp_all add: inner_of_def)

lemma make_env_simps [simp]:
  "en_host (make_env H config cx ro inner c l) = H"
  "en_config (make_env H config cx ro inner c l) = config"
  "en_readOnly (make_env H config cx ro inner c l) = ro"
  "en_language (make_env H config cx ro inner c l) = l"
  "en_inner (make_env H config cx ro inner c l) = inner"
  "en_allowRules (make_env H config cx ro inner c l) = or_else (coalesce (cf_allow config) (cf_rules config)) []"
  "en_denyRules (make_env H config cx ro inner c l) = or_else (cf_deny config) []"
  "en_wholeDeny (make_env H config cx ro inner c l) = matchingRule c (or_else (cf_deny config) []) True"
  "en_wholeAllow (make_env H config cx ro inner c l) =
     exactCommandRule c (or_else (coalesce (cf_allow config) (cf_rules config)) [])"
  by (simp_all add: make_env_def Let_def)

lemma evaluateParsed_values:
  assumes "evaluateParsed H config cx ro n command = Some r"
  shows "\<exists>vs st. nodes_values (env_of H config cx ro n command) (pc_nodes (parse_of H cx command)) st = Some vs \<and>
     aggregate (vs @ unparsed_value ro (parse_of H cx command)) = Some r"
  using assms unfolding evaluateParsed_eq evaluate_with_def Let_def by (auto split: option.splits)

lemma evaluateParsed_node:
  assumes "evaluateParsed H config cx ro n command = Some r"
    and "nd \<in> set (pc_nodes (parse_of H cx command))"
  obtains nxt st vs st' where
    "node_values (env_of H config cx ro n command) nd nxt st = Some (vs, st')"
    and "\<And>v. v \<in> set vs \<Longrightarrow> ev_behavior v \<le> ev_behavior r \<and> ev_risk v \<le> ev_risk r"
    and "\<And>v. v \<in> set vs \<Longrightarrow> ev_matchedList v = Some DenyList \<Longrightarrow> ev_behavior v = ev_behavior r \<Longrightarrow>
           ev_matchedList r = Some DenyList"
proof -
  obtain vs st where vs: "nodes_values (env_of H config cx ro n command)
      (pc_nodes (parse_of H cx command)) st = Some vs"
    and agg: "aggregate (vs @ unparsed_value ro (parse_of H cx command)) = Some r"
    using evaluateParsed_values[OF assms(1)] by blast
  obtain nxt st1 vs1 st2 where "node_values (env_of H config cx ro n command) nd nxt st1 = Some (vs1, st2)"
    and sub: "set vs1 \<subseteq> set vs"
    using nodes_values_node[OF vs assms(2)] by blast
  moreover have "v \<in> set vs1 \<Longrightarrow> v \<in> set (vs @ unparsed_value ro (parse_of H cx command))" for v
    using sub by auto
  ultimately show thesis
    using that[of nxt st1 vs1 st2] aggregate_ge[OF agg] aggregate_spec(5)[OF agg] by blast
qed

lemma evaluateParsed_incomplete:
  assumes "evaluateParsed H config cx ro n command = Some r"
    and "\<not> pc_complete (parse_of H cx command) \<or> pc_nodes (parse_of H cx command) = []"
  shows "ev_behavior r \<noteq> Allow" and "ev_persistent r = Some False"
    and "ro \<Longrightarrow> ev_behavior r = Deny"
proof -
  obtain vs where agg: "aggregate (vs @ unparsed_value ro (parse_of H cx command)) = Some r"
    using evaluateParsed_values[OF assms(1)] by blast
  have "unparsed_value ro (parse_of H cx command) \<noteq> []"
    unfolding unparsed_value_def if_P[OF assms(2)] by simp
  then obtain u us where us: "unparsed_value ro (parse_of H cx command) = u # us"
    by (cases "unparsed_value ro (parse_of H cx command)") auto
  then have u: "u \<in> set (vs @ unparsed_value ro (parse_of H cx command))"
    "ev_behavior u = (if ro then Deny else Ask)" "ev_persistent u = Some False"
    unfolding unparsed_value_def if_P[OF assms(2)] by auto
  show "ev_behavior r \<noteq> Allow"
    using aggregate_ge(1)[OF agg u(1)] u(2) by (auto split: if_splits)
  show "ro \<Longrightarrow> ev_behavior r = Deny" using aggregate_ge(1)[OF agg u(1)] u(2) by simp
  show "ev_persistent r = Some False" using aggregate_spec(3)[OF agg] u(1,3) by blast
qed

lemma evaluate_with_total:
  assumes "\<forall>f c. inner = Some f \<longrightarrow> f c \<noteq> None"
  shows "\<exists>r. evaluate_with H config cx ro inner command = Some r"
proof -
  let ?E = "make_env H config cx ro inner command (pc_language (parse_of H cx command))"
  obtain vs where vs: "nodes_values ?E (pc_nodes (parse_of H cx command))
      \<lparr>cs_cwds = [or_else (cx_cwd cx) (h_cwd H)], cs_cd = None\<rparr> = Some vs"
    and ne: "pc_nodes (parse_of H cx command) \<noteq> [] \<longrightarrow> vs \<noteq> []"
    using nodes_values_total[of ?E "pc_nodes (parse_of H cx command)"
        "\<lparr>cs_cwds = [or_else (cx_cwd cx) (h_cwd H)], cs_cd = None\<rparr>"] assms
    unfolding make_env_simps by blast
  have "vs @ unparsed_value ro (parse_of H cx command) \<noteq> []"
    using ne unfolding unparsed_value_def by simp
  then show ?thesis
    unfolding evaluate_with_def Let_def vs option.case by (rule aggregate_total)
qed

lemma evaluateParsed_total: "\<exists>r. evaluateParsed H config cx ro n command = Some r"
  by (induction n arbitrary: command)
    (simp_all only: evaluateParsed.simps, (rule evaluate_with_total, blast dest: spec)+)

section \<open>Invariants of a verdict\<close>

text \<open>A property of verdicts that the verdicts of one node have (given that the inner ones have
  it), that the verdict on an unparsed command has and that aggregation keeps is a property of
  every evaluation at every depth.\<close>

locale eval_invariant =
  fixes H :: host and config :: permission_config and cx :: eval_context and ro :: bool
    and I :: "eval \<Rightarrow> bool"
  assumes I_node: "node_values (make_env H config cx ro inner cmd lang) n nxt st = Some (vs, st') \<Longrightarrow>
      (\<And>f c w. inner = Some f \<Longrightarrow> f c = Some w \<Longrightarrow> I w) \<Longrightarrow> v \<in> set vs \<Longrightarrow> I v"
    and I_unparsed: "u \<in> set (unparsed_value ro p) \<Longrightarrow> I u"
    and I_aggregate: "(\<And>v. v \<in> set vs \<Longrightarrow> I v) \<Longrightarrow> aggregate vs = Some r \<Longrightarrow> I r"
begin

lemma I_evaluate:
  assumes "evaluate_with H config cx ro inner cmd = Some r"
    and inner: "\<And>f c w. inner = Some f \<Longrightarrow> f c = Some w \<Longrightarrow> I w"
  shows "I r"
proof -
  let ?P = "parse_of H cx cmd"
  obtain vs st where vs: "nodes_values (make_env H config cx ro inner cmd (pc_language ?P)) (pc_nodes ?P) st = Some vs"
    and agg: "aggregate (vs @ unparsed_value ro ?P) = Some r"
    using assms(1) unfolding evaluate_with_def Let_def by (auto split: option.splits)
  have "I v" if "v \<in> set vs" for v
    using nodes_values_elem[OF vs that] I_node inner by metis
  then show ?thesis using I_unparsed by (intro I_aggregate[OF _ agg]) auto
qed

lemma I_evaluateParsed: "evaluateParsed H config cx ro n cmd = Some r \<Longrightarrow> I r"
proof (induction n arbitrary: cmd r)
  case 0
  then show ?case by (auto intro: I_evaluate)
next
  case (Suc n)
  show ?case
    by (rule I_evaluate[OF Suc.prems[unfolded evaluateParsed.simps]]) (use Suc.IH in auto)
qed

end

text \<open>A verdict that came from a deny list or that must not be stored never allows.\<close>

definition guarded :: "eval \<Rightarrow> bool" where
  "guarded v \<longleftrightarrow>
     (ev_behavior v = Allow \<longrightarrow> ev_matchedList v \<noteq> Some DenyList \<and> ev_persistent v \<noteq> Some False)"

lemmas verdict_defs = result_def once_only_def unsupported_def allow_by_rule_def refuse_def

lemma runner_value_cases:
  assumes "runner_value E n risk = Some v"
  obtains (once) r where "v = once_only E n risk r"
  | (exact) "v = runner_exact E n risk"
  | (inner) f c w where "en_inner E = Some f" "f c = Some w" "inner_decides w"
      "v = w\<lparr>ev_trigger := Some (pn_text n)\<rparr>"
  using assms unfolding runner_value_def Let_def by (auto split: if_splits option.splits)

lemma guarded_runner_exact: "guarded (runner_exact E n risk)"
  unfolding runner_exact_def guarded_def by (auto simp: verdict_defs split: option.splits)

lemma guarded_once_only: "guarded (once_only E n risk r)"
  by (simp add: guarded_def verdict_defs)

lemma guarded_cd: "guarded (fst (cd_value E n nxt risk st))"
  unfolding cd_value_def Let_def
  by (auto simp: guarded_once_only split: if_splits) (simp add: guarded_def verdict_defs)

lemma guarded_plain: "v \<in> set (plain_values E n risk) \<Longrightarrow> guarded v"
  unfolding plain_values_def Let_def guarded_def
  by (auto simp: verdict_defs split: if_splits option.splits)

lemma guarded_deny: "v \<in> set (deny_values E n risk) \<Longrightarrow> guarded v"
  unfolding deny_values_def guarded_def
  by (auto simp: verdict_defs split: if_splits option.splits)

lemma guarded_node:
  assumes "node_values E n nxt st = Some (vs, st')" and "v \<in> set vs"
    and "\<And>f c w. en_inner E = Some f \<Longrightarrow> f c = Some w \<Longrightarrow> guarded w"
  shows "guarded v"
proof -
  have runner: "guarded w" if "runner_value E n (env_risk E n) = Some w" for w
    using that
  proof (cases rule: runner_value_cases)
    case (inner f c w')
    then show ?thesis using assms(3)[of f c w'] by (simp add: guarded_def)
  qed (auto simp: guarded_once_only guarded_runner_exact)
  show ?thesis
    using node_values_parts[OF assms(1)] assms(2) runner
    unfolding main_verdicts_def Let_def
    by (auto simp: unsupported_def guarded_once_only guarded_cd
        dest: guarded_plain guarded_deny split: if_splits)
      (simp add: guarded_def result_def)
qed

lemma guarded_aggregate:
  assumes "\<And>v. v \<in> set vs \<Longrightarrow> guarded v" and agg: "aggregate vs = Some r"
  shows "guarded r"
  unfolding guarded_def
proof
  assume al: "ev_behavior r = Allow"
  then have all: "ev_behavior v = Allow" if "v \<in> set vs" for v
    using aggregate_ge(1)[OF agg that] by simp
  show "ev_matchedList r \<noteq> Some DenyList \<and> ev_persistent r \<noteq> Some False"
    using aggregate_spec(3,4)[OF agg] assms(1) all unfolding guarded_def by metis
qed

interpretation guard: eval_invariant H config cx ro guarded
proof
  show "guarded v"
    if "node_values (make_env H config cx ro inner cmd lang) n nxt st = Some (vs, st')"
      "\<And>f c w. inner = Some f \<Longrightarrow> f c = Some w \<Longrightarrow> guarded w" "v \<in> set vs"
    for inner cmd lang n nxt st vs st' v
    using guarded_node[OF that(1,3)] that(2) by simp
  show "guarded u" if "u \<in> set (unparsed_value ro p)" for u p
    using that by (auto simp: unparsed_value_def guarded_def split: if_splits)
qed (rule guarded_aggregate)

text \<open>Read-only evaluation never asks, and what it allows it also classifies as read-only.\<close>

definition read_only_verdict :: "eval \<Rightarrow> bool" where
  "read_only_verdict v \<longleftrightarrow> ev_behavior v \<noteq> Ask \<and> (ev_behavior v = Allow \<longrightarrow> ev_risk v = ReadOnly)"

lemma no_rules [simp]: "exactCommandRule c [] = None" "matchingRule c [] w = None" "truthy None = None"
  by (simp_all add: exactCommandRule_def matchingRule_def Let_def truthy_def)

lemma read_only_node:
  assumes nv: "node_values E n nxt st = Some (vs, st')" and v: "v \<in> set vs"
    and E: "en_readOnly E" "en_allowRules E = []" "en_wholeAllow E = None"
    and inner: "\<And>f c w. en_inner E = Some f \<Longrightarrow> f c = Some w \<Longrightarrow> read_only_verdict w"
  shows "read_only_verdict v"
proof -
  have once: "read_only_verdict (once_only E n risk r)" for risk r
    using E by (simp add: read_only_verdict_def verdict_defs)
  have exact: "read_only_verdict (runner_exact E n risk)" for risk
    using E by (simp add: read_only_verdict_def verdict_defs runner_exact_def)
  have runner: "read_only_verdict w" if "runner_value E n (env_risk E n) = Some w" for w
    using that
  proof (cases rule: runner_value_cases)
    case (inner f c w')
    then show ?thesis using assms(6)[of f c w'] by (simp add: read_only_verdict_def)
  qed (auto simp: once exact)
  have cd: "read_only_verdict (fst (cd_value E n nxt risk st))" for risk st
    unfolding cd_value_def Let_def using once
    by (auto simp: read_only_verdict_def result_def)
  have plain: "read_only_verdict w" if "w \<in> set (plain_values E n risk)" for w risk
    using that E unfolding plain_values_def Let_def by (auto simp: read_only_verdict_def result_def)
  have deny: "deny_values E n risk = []" for risk
    using E by (simp add: deny_values_def split: option.splits)
  show ?thesis
    using node_values_parts[OF nv] v runner cd plain once
    unfolding main_verdicts_def Let_def deny
    by (auto simp: unsupported_def split: if_splits) (simp add: read_only_verdict_def result_def)
qed

interpretation readonly: eval_invariant H READ_ONLY_CONFIG cx True read_only_verdict
proof
  show "read_only_verdict v"
    if "node_values (make_env H READ_ONLY_CONFIG cx True inner cmd lang) n nxt st = Some (vs, st')"
      "\<And>f c w. inner = Some f \<Longrightarrow> f c = Some w \<Longrightarrow> read_only_verdict w" "v \<in> set vs"
    for inner cmd lang n nxt st vs st' v
    using read_only_node[OF that(1,3)] that(2) by (simp add: READ_ONLY_CONFIG_def)
  show "read_only_verdict u" if "u \<in> set (unparsed_value True p)" for u p
    using that by (auto simp: unparsed_value_def read_only_verdict_def split: if_splits)
  show "read_only_verdict r" if "\<And>v. v \<in> set vs \<Longrightarrow> read_only_verdict v" "aggregate vs = Some r" for vs r
  proof -
    have "ev_risk v = ReadOnly" if "ev_behavior r = Allow" "v \<in> set vs" for v
      using that aggregate_ge(1)[OF \<open>aggregate vs = Some r\<close> that(2)] \<open>\<And>v. v \<in> set vs \<Longrightarrow> read_only_verdict v\<close>[OF that(2)]
      by (simp add: read_only_verdict_def)
    moreover have "Max (ev_risk ` set vs) \<in> ev_risk ` set vs"
      using aggregate_spec(4)[OF that(2)] by (intro Max_in) auto
    ultimately have "ev_behavior r = Allow \<longrightarrow> ev_risk r = ReadOnly"
      using aggregate_spec(2)[OF that(2)] by auto
    then show ?thesis
      using aggregate_spec(4)[OF that(2)] that(1) unfolding read_only_verdict_def by metis
  qed
qed

section \<open>What an allowed command satisfies\<close>

text \<open>The conditions under which a node does not stop the command from being allowed.\<close>

definition exact_approval :: "env \<Rightarrow> parsed_node \<Rightarrow> bool" where
  "exact_approval E n \<longleftrightarrow>
     truthy (coalesce (exactCommandRule (pn_text n) (en_allowRules E)) (en_wholeAllow E)) \<noteq> None"

definition rule_approval :: "env \<Rightarrow> parsed_node \<Rightarrow> bool" where
  "rule_approval E n \<longleftrightarrow>
     truthy (coalesce (matchingRule (canonical n) (en_allowRules E) False) (en_wholeAllow E)) \<noteq> None"

definition authorized_cd :: "host \<Rightarrow> string list \<Rightarrow> parsed_node \<Rightarrow> bool" where
  "authorized_cd H roots n \<longleftrightarrow>
     (\<exists>target cwd dir. pn_cwd n = Some target \<and> authorizedDirectory H target cwd roots = Some dir)"

definition allowed_node :: "env \<Rightarrow> parsed_node \<Rightarrow> bool" where
  "allowed_node E n \<longleftrightarrow>
     rv_risk (env_risk E n) \<noteq> PrivilegeEscape \<and> \<not> opaque_shell n \<and>
     (en_readOnly E \<or> denied_rule E n = None) \<and>
     (if runner_node n (env_risk E n) then exact_approval E n
      else if pn_kind n = KCd then authorized_cd (en_host E) (en_roots E) n
      else if en_readOnly E then strict_node n
      else \<not> RISK_FLOOR (rv_risk (env_risk E n)) \<and>
        (rule_approval E n \<or> cf_mode (en_config E) = ModeAuto \<or>
         (strict_node n \<and> rx_test MANUAL_SAFE (canonical n))))"

lemma truthy_Some: "truthy s = Some t \<Longrightarrow> s = Some t"
  by (auto simp: truthy_def nonempty_def split: option.splits if_splits)

lemma cd_allowed:
  assumes "ev_behavior (fst (cd_value E n nxt risk st)) = Allow"
  shows "authorized_cd (en_host E) (en_roots E) n"
proof -
  have dest: "cd_destinations E n st \<noteq> []" "list_all (\<lambda>p. p \<noteq> None) (cd_destinations E n st)"
    using assms unfolding cd_value_def Let_def by (auto simp: verdict_defs split: if_splits)
  then obtain target where t: "truthy (pn_cwd n) = Some target"
    by (cases "truthy (pn_cwd n)") (auto simp: cd_destinations_def)
  moreover obtain cwd where "cwd \<in> set (cs_cwds st)"
    using dest(1) t by (cases "cs_cwds st") (auto simp: cd_destinations_def)
  ultimately obtain dir where "authorizedDirectory (en_host E) target cwd (en_roots E) = Some dir"
    using dest(2) by (auto simp: cd_destinations_def list_all_iff)
  with t show ?thesis unfolding authorized_cd_def by (auto dest: truthy_Some)
qed

lemma plain_allowed:
  assumes "\<forall>v \<in> set (plain_values E n risk). ev_behavior v = Allow"
    and "en_readOnly E \<or> denied_rule E n = None"
  shows "if en_readOnly E then strict_node n
      else \<not> RISK_FLOOR (rv_risk risk) \<and>
        (rule_approval E n \<or> cf_mode (en_config E) = ModeAuto \<or>
         (strict_node n \<and> rx_test MANUAL_SAFE (canonical n)))"
  using assms unfolding plain_values_def Let_def rule_approval_def
  by (auto simp: result_def split: if_splits option.splits)

lemma runner_allowed:
  assumes "runner_value E n risk = Some v" and "ev_behavior v = Allow"
    and "\<And>f c w. en_inner E = Some f \<Longrightarrow> f c = Some w \<Longrightarrow> guarded w"
  shows "exact_approval E n"
  using assms(1)
proof (cases rule: runner_value_cases)
  case (once r)
  then show ?thesis using assms(2) by (simp add: verdict_defs split: if_splits)
next
  case exact
  then show ?thesis
    using assms(2) unfolding runner_exact_def exact_approval_def
    by (auto simp: verdict_defs split: option.splits if_splits)
next
  case (inner f c w)
  then show ?thesis using assms(2) assms(3)[of f c w] by (auto simp: guarded_def inner_decides_def)
qed

lemma node_allowed:
  assumes nv: "node_values E n nxt st = Some (vs, st')"
    and al: "\<forall>v \<in> set vs. ev_behavior v = Allow"
    and inner: "\<And>f c w. en_inner E = Some f \<Longrightarrow> f c = Some w \<Longrightarrow> guarded w"
  shows "allowed_node E n"
proof -
  have np: "rv_risk (env_risk E n) \<noteq> PrivilegeEscape"
    using node_values_parts[OF nv] al by (auto simp: result_def split: if_splits)
  then obtain ms where vs: "vs = deny_values E n (env_risk E n) @ ms" and ms: "main_verdicts E n nxt st ms"
    using node_values_parts[OF nv] by auto
  have deny: "en_readOnly E \<or> denied_rule E n = None"
    using al vs unfolding deny_values_def by (auto simp: result_def split: option.splits if_splits)
  have alm: "\<forall>v \<in> set ms. ev_behavior v = Allow" using al vs by simp
  show ?thesis
  proof (cases "runner_node n (env_risk E n)")
    case True
    moreover have "\<not> opaque_shell n" using True by (simp add: runner_node_def)
    moreover obtain v where "runner_value E n (env_risk E n) = Some v" "ms = [v]"
      using ms True by (auto simp: main_verdicts_def Let_def)
    ultimately show ?thesis
      using np deny alm runner_allowed inner by (auto simp: allowed_node_def)
  next
    case nr: False
    have no: "\<not> opaque_shell n"
      using ms nr alm by (auto simp: main_verdicts_def Let_def verdict_defs split: if_splits)
    show ?thesis
    proof (cases "pn_kind n = KCd")
      case True
      then have "ms = [fst (cd_value E n nxt (env_risk E n) (enter_node n st))]"
        using ms nr no by (simp add: main_verdicts_def Let_def)
      then show ?thesis
        using np deny nr no True alm cd_allowed by (auto simp: allowed_node_def)
    next
      case False
      then have "ms = plain_values E n (env_risk E n)"
        using ms nr no by (simp add: main_verdicts_def Let_def)
      then show ?thesis
        using np deny nr no False alm plain_allowed[OF _ deny] by (simp add: allowed_node_def)
    qed
  qed
qed

lemma inner_guarded:
  "inner_of H config cx ro n = Some f \<Longrightarrow> f c = Some w \<Longrightarrow> guarded w"
  by (cases n) (auto simp: inner_of_def dest: guard.I_evaluateParsed)

lemma evaluateParsed_allowed:
  assumes ev: "evaluateParsed H config cx ro n command = Some r" and al: "ev_behavior r = Allow"
  shows "pc_complete (parse_of H cx command)" and "pc_nodes (parse_of H cx command) \<noteq> []"
    and "nd \<in> set (pc_nodes (parse_of H cx command)) \<Longrightarrow>
      allowed_node (env_of H config cx ro n command) nd"
proof -
  show "pc_complete (parse_of H cx command)" "pc_nodes (parse_of H cx command) \<noteq> []"
    using evaluateParsed_incomplete(1)[OF ev] al by blast+
  assume "nd \<in> set (pc_nodes (parse_of H cx command))"
  then show "allowed_node (env_of H config cx ro n command) nd"
    using evaluateParsed_node[OF ev] node_allowed inner_guarded al behavior_bounds(3)
    by (metis make_env_simps(5))
qed

end
