(* ===== verification/CommandProps.thy ===== *)
theory CommandProps
  imports CommandPolicy
begin

text \<open>
  The properties of the command policy, for every host, every parser, every configuration and
  every command text: evaluation always returns a verdict; privilege escalation is denied
  whatever the rules say; what is allowed was completely understood; a deny rule cannot be
  overridden; the built-in risk floor is not subject to allow rules; read-only evaluation
  allows strict read-only commands and authorised directory changes only; and a command nested
  in another one is judged with it.
\<close>

section \<open>Shared lemmas\<close>

lemma matchingRule_in: "matchingRule c rules w = Some r \<Longrightarrow> r \<in> set rules"
  by (auto simp: matchingRule_def Let_def find_Some_iff split: if_splits)

lemma matchingRule_append:
  "matchingRule c (xs @ ys) w = None \<longleftrightarrow> matchingRule c xs w = None \<and> matchingRule c ys w = None"
  unfolding matchingRule_def Let_def by (auto simp: find_None_iff)

lemma denied_rule_found:
  assumes "[] \<notin> set (en_denyRules E)"
    and "en_wholeDeny E = matchingRule command (en_denyRules E) True"
    and "matchingRule command (en_denyRules E) True \<noteq> None \<or>
      matchingRule (canonical nd) (en_denyRules E) True \<noteq> None"
  shows "denied_rule E nd \<noteq> None"
proof -
  let ?c = "coalesce (en_wholeDeny E)
       (coalesce (matchingRule (canonical nd) (en_denyRules E) True)
         (coalesce (matchingRule (join '' '' (base_argv nd)) (en_denyRules E) True)
           (matchingRule (join '' '' (withoutGitGlobals (base_argv nd))) (en_denyRules E) True)))"
  have "?c \<noteq> None" using assms(2,3) by auto
  then obtain r where r: "?c = Some r" by blast
  have "r \<in> set (en_denyRules E)"
    using r assms(2) matchingRule_in[of _ "en_denyRules E" True r]
    by (auto simp: coalesce_def split: option.splits)
  then have "r \<noteq> []" using assms(1) by blast
  then show ?thesis unfolding denied_rule_def r truthy_def nonempty_def by simp
qed

lemma evaluateParsed_denied:
  assumes ev: "evaluateParsed H config cx False n command = Some r"
    and nd: "nd \<in> set (pc_nodes (parse_of H cx command))"
    and dr: "denied_rule (env_of H config cx False n command) nd \<noteq> None"
  shows "ev_behavior r = Deny \<or> (ev_behavior r = Ask \<and> ev_matchedList r = Some DenyList)"
proof -
  let ?E = "env_of H config cx False n command"
  from ev nd obtain nxt st vs st' where nv: "node_values ?E nd nxt st = Some (vs, st')"
    and le: "\<And>v. v \<in> set vs \<Longrightarrow> ev_behavior v \<le> ev_behavior r \<and> ev_risk v \<le> ev_risk r"
    and dl: "\<And>v. v \<in> set vs \<Longrightarrow> ev_matchedList v = Some DenyList \<Longrightarrow>
      ev_behavior v = ev_behavior r \<Longrightarrow> ev_matchedList r = Some DenyList"
    by (rule evaluateParsed_node) blast
  show ?thesis
  proof (cases "rv_risk (env_risk ?E nd) = PrivilegeEscape")
    case True
    then show ?thesis using node_values_parts[OF nv] le by (auto simp: result_def)
  next
    case False
    obtain rule where "denied_rule ?E nd = Some rule" using dr by blast
    then obtain v where "v \<in> set (deny_values ?E nd (env_risk ?E nd))" "ev_behavior v = Ask"
      "ev_matchedList v = Some DenyList"
      by (auto simp: deny_values_def result_def)
    moreover have "set (deny_values ?E nd (env_risk ?E nd)) \<subseteq> set vs"
      using node_values_parts[OF nv] False by auto
    ultimately show ?thesis using le[of v] dl[of v] by (cases "ev_behavior r") (auto simp: Ask_le)
  qed
qed

lemma authorizedDirectory_inside:
  assumes "authorizedDirectory H target cwd roots = Some dir"
  shows "h_realpath H (resolve (h_cwd H) cwd target) = Some dir" and "h_isdir H dir = Some True"
    and "\<exists>root \<in> set roots. \<exists>r. h_realpath H root = Some r \<and>
      prefix (segs_at (h_cwd H) r) (segs_at (h_cwd H) dir)"
proof -
  have "\<exists>root \<in> set roots. \<exists>r. h_realpath H root = Some r \<and> strict_inside (relative (h_cwd H) r dir)"
    if "some_root H dir roots = Some True"
    using that by (induction roots) (auto split: option.splits if_splits)
  then show "\<exists>root \<in> set roots. \<exists>r. h_realpath H root = Some r \<and>
      prefix (segs_at (h_cwd H) r) (segs_at (h_cwd H) dir)"
    using assms by (auto simp: authorizedDirectory_def strict_inside_iff split: option.splits if_splits)
  show "h_realpath H (resolve (h_cwd H) cwd target) = Some dir" "h_isdir H dir = Some True"
    using assms by (auto simp: authorizedDirectory_def split: option.splits if_splits)
qed

lemma evaluateCommand_parsed:
  "evaluateCommand H command config cx = Some r \<Longrightarrow> ev_behavior r \<noteq> Deny \<Longrightarrow>
     evaluateParsed H config cx False MAX_NESTING command = Some r"
  by (auto simp: evaluateCommand_def split: option.splits)

lemma evaluateCommand_total: "\<exists>r. evaluateCommand H command config cx = Some r"
  using evaluateParsed_total by (auto simp: evaluateCommand_def split: option.splits)

text \<open>The machine of the examples: the simple parser, and a file system in which every path is an
  existing directory and its own canonical path.\<close>

definition simple_machine :: host where
  "simple_machine = \<lparr>h_shell = simple_host, h_cwd = ''/w'', h_realpath = Some,
     h_isdir = (\<lambda>_. Some True), h_homedir = ''/home/u'', h_envTacoHome = None,
     h_fileURLToPath = (\<lambda>_. None)\<rparr>"

definition plain_context :: eval_context where
  "plain_context = \<lparr>cx_cwd = Some ''/w'', cx_allowedRoots = None, cx_language = None\<rparr>"

definition rules_config :: "permission_mode \<Rightarrow> string list \<Rightarrow> string list \<Rightarrow> permission_config" where
  "rules_config m allow deny = \<lparr>cf_mode = m, cf_allow = Some allow, cf_deny = Some deny,
     cf_rules = None, cf_allowedDirectories = None\<rparr>"

section \<open>Properties\<close>

text \<open>C40: evaluation always returns a verdict. The source's \<open>aggregate\<close> throws on an empty list
  of verdicts and the recursion into inner commands is bounded by a depth; neither is ever
  reached in a way that leaves a command without a verdict.\<close>

theorem command_evaluation_total:
  "(\<exists>r. evaluateCommand H command config cx = Some r) \<and>
   (\<exists>r. evaluateReadOnlyCommand H command cx = Some r) \<and>
   (\<exists>r. evaluateCommandForImWorkspace H command config policy cx = Some r)"
  unfolding evaluateCommandForImWorkspace_def evaluateReadOnlyCommand_def
  using evaluateCommand_total evaluateParsed_total by blast

text \<open>C1: a command one of whose parts escalates privileges is denied, whatever the rules, the
  mode and the rest of the command are.\<close>

theorem privilege_escape_denied:
  assumes "nd \<in> set (pc_nodes (parseShellCommand (h_shell H) command (cx_language cx)))"
    and "rv_risk (nodeRisk (h_shell H)
      (pc_language (parseShellCommand (h_shell H) command (cx_language cx))) MAX_NESTING nd) = PrivilegeEscape"
  shows "\<exists>r. evaluateCommand H command config cx = Some r \<and> ev_behavior r = Deny"
proof -
  obtain r where r: "evaluateCommand H command config cx = Some r" using evaluateCommand_total by blast
  have "ev_behavior r = Deny"
  proof (rule ccontr)
    assume "ev_behavior r \<noteq> Deny"
    then have ev: "evaluateParsed H config cx False MAX_NESTING command = Some r"
      using r evaluateCommand_parsed by blast
    obtain nxt st vs st' where
      "node_values (env_of H config cx False MAX_NESTING command) nd nxt st = Some (vs, st')"
      "\<And>v. v \<in> set vs \<Longrightarrow> ev_behavior v \<le> ev_behavior r \<and> ev_risk v \<le> ev_risk r"
      by (rule evaluateParsed_node[OF ev assms(1)]) blast
    then have "ev_behavior r = Deny"
      using assms(2) by (auto dest!: node_values_parts simp: result_def)
    with \<open>ev_behavior r \<noteq> Deny\<close> show False by simp
  qed
  with r show ?thesis by blast
qed

theorem privilege_escape_denied_witness:
  "\<exists>r. evaluateCommand simple_machine ''pkexec ls'' (rules_config ModeAuto [''*''] []) plain_context = Some r \<and>
     ev_behavior r = Deny"
proof -
  let ?p = "parseShellCommand (h_shell simple_machine) ''pkexec ls'' (cx_language plain_context)"
  have "pc_nodes ?p \<noteq> [] \<and> rv_risk (nodeRisk (h_shell simple_machine) (pc_language ?p) MAX_NESTING
      (hd (pc_nodes ?p))) = PrivilegeEscape" by code_simp
  then show ?thesis
    using privilege_escape_denied[of "hd (pc_nodes ?p)" simple_machine "''pkexec ls''" plain_context]
    by (metis hd_in_set)
qed

text \<open>C2: what \<open>evaluateCommand\<close> allows was understood completely: the parse is complete and not
  empty, every part of it is static and is not a shell wrapper, none escalates privileges, and
  no command of it is destructive or sends data out. This holds in every mode and under every
  list of allow rules.\<close>

theorem allowed_command_understood:
  assumes "evaluateCommand H command config cx = Some r" and "ev_behavior r = Allow"
    and "parsed = parseShellCommand (h_shell H) command (cx_language cx)"
  shows "pc_complete parsed \<and> pc_nodes parsed \<noteq> [] \<and>
    (\<forall>nd \<in> set (pc_nodes parsed).
       statically_known nd \<and> \<not> wrapper_node nd \<and>
       rv_risk (nodeRisk (h_shell H) (pc_language parsed) MAX_NESTING nd) \<noteq> PrivilegeEscape \<and>
       (pn_kind nd = KCommand \<longrightarrow>
          \<not> RISK_FLOOR (rv_risk (nodeRisk (h_shell H) (pc_language parsed) MAX_NESTING nd))))"
proof -
  have ev: "evaluateParsed H config cx False MAX_NESTING command = Some r"
    using assms(1,2) by (intro evaluateCommand_parsed) auto
  note al = evaluateParsed_allowed[OF ev assms(2)]
  show ?thesis
    unfolding assms(3)
  proof (intro conjI ballI)
    fix nd assume nd: "nd \<in> set (pc_nodes (parse_of H cx command))"
    show "statically_known nd" using parse_nodes_static[OF al(1) nd] .
    show "pn_kind nd = KCommand \<longrightarrow> \<not> RISK_FLOOR (rv_risk (nodeRisk (h_shell H)
        (pc_language (parse_of H cx command)) MAX_NESTING nd))"
      using al(3)[OF nd] by (auto simp: allowed_node_def runner_node_def split: if_splits)
  qed (use al in \<open>auto simp: allowed_node_def\<close>)
qed

theorem allowed_command_understood_witness:
  "pc_complete (parseShellCommand (h_shell simple_machine) ''git status'' (cx_language plain_context))"
proof -
  have "map_option ev_behavior (evaluateCommand simple_machine ''git status''
      (rules_config ModeAsk [] []) plain_context) = Some Allow" by code_simp
  then obtain r where r: "evaluateCommand simple_machine ''git status'' (rules_config ModeAsk [] []) plain_context = Some r"
    "ev_behavior r = Allow" by (auto simp: map_option_eq_Some)
  show ?thesis using allowed_command_understood[OF r refl] by blast
qed

text \<open>Without allow rules, manual mode lets through only authorised directory changes and
  strict read-only git inspection without redirection.\<close>

theorem manual_mode_allows_inspection_only:
  assumes "evaluateCommand H command config cx = Some r" and "ev_behavior r = Allow"
    and "cf_mode config = ModeAsk" and "or_else (coalesce (cf_allow config) (cf_rules config)) [] = []"
    and "nd \<in> set (pc_nodes (parseShellCommand (h_shell H) command (cx_language cx)))"
  shows "pn_kind nd = KCd \<or>
    (\<not> pn_redirects nd \<and> isStrictReadOnly (canonical nd) \<and> rx_test MANUAL_SAFE (canonical nd))"
proof -
  have ev: "evaluateParsed H config cx False MAX_NESTING command = Some r"
    using assms(1,2) by (intro evaluateCommand_parsed) auto
  show ?thesis
    using evaluateParsed_allowed(3)[OF ev assms(2,5)] assms(3,4)
    by (auto simp: allowed_node_def exact_approval_def rule_approval_def strict_node_def
        split: if_splits)
qed

theorem manual_mode_allows_inspection_only_witness:
  "isStrictReadOnly ''git status'' \<and> rx_test MANUAL_SAFE ''git status''"
proof -
  let ?p = "parseShellCommand (h_shell simple_machine) ''git status'' (cx_language plain_context)"
  have al: "map_option ev_behavior (evaluateCommand simple_machine ''git status''
      (rules_config ModeAsk [] []) plain_context) = Some Allow" by code_simp
  have nd: "pc_nodes ?p \<noteq> [] \<and> pn_kind (hd (pc_nodes ?p)) = KCommand \<and>
      canonical (hd (pc_nodes ?p)) = ''git status''" by code_simp
  have cf: "cf_mode (rules_config ModeAsk [] []) = ModeAsk"
    "or_else (coalesce (cf_allow (rules_config ModeAsk [] [])) (cf_rules (rules_config ModeAsk [] []))) [] = []"
    by (simp_all add: rules_config_def)
  obtain r where "evaluateCommand simple_machine ''git status'' (rules_config ModeAsk [] []) plain_context = Some r"
    "ev_behavior r = Allow" using al by (auto simp: map_option_eq_Some)
  from manual_mode_allows_inspection_only[OF this cf, of "hd (pc_nodes ?p)"] nd
  show ?thesis by auto
qed

text \<open>C7: read-only evaluation (plan mode, read-only agents) never asks. What it allows it
  classifies as read-only; the command was parsed completely, and each part of it is a strict
  read-only command without redirection or a directory change into one of the roots.\<close>

theorem read_only_evaluation_sound:
  assumes "evaluateReadOnlyCommand H command cx = Some r"
    and "parsed = parseShellCommand (h_shell H) command (cx_language cx)"
    and "roots = (case truthy (cx_cwd cx) of Some d \<Rightarrow> [d] | None \<Rightarrow> []) @ or_else (cx_allowedRoots cx) []"
  shows "ev_behavior r \<noteq> Ask \<and>
    (ev_behavior r = Allow \<longrightarrow>
       ev_risk r = ReadOnly \<and> pc_complete parsed \<and> pc_nodes parsed \<noteq> [] \<and>
       (\<forall>nd \<in> set (pc_nodes parsed).
          statically_known nd \<and>
          (if pn_kind nd = KCd then authorized_cd H roots nd
           else \<not> pn_redirects nd \<and> isStrictReadOnly (canonical nd))))"
proof -
  have ev: "evaluateParsed H READ_ONLY_CONFIG cx True MAX_NESTING command = Some r"
    using assms(1) by (simp add: evaluateReadOnlyCommand_def)
  have rv: "read_only_verdict r" using readonly.I_evaluateParsed[OF ev] .
  have node: "if pn_kind nd = KCd then authorized_cd H roots nd
           else \<not> pn_redirects nd \<and> isStrictReadOnly (canonical nd)"
    if "ev_behavior r = Allow" "nd \<in> set (pc_nodes (parse_of H cx command))" for nd
    using evaluateParsed_allowed(3)[OF ev that] assms(3)
    by (auto simp: allowed_node_def runner_node_def exact_approval_def strict_node_def
        READ_ONLY_CONFIG_def make_env_def split: if_splits)
  show ?thesis
    using rv node evaluateParsed_allowed(1,2)[OF ev] parse_nodes_static
    unfolding read_only_verdict_def assms(2) by blast
qed

theorem read_only_evaluation_sound_witness:
  "\<exists>r. evaluateReadOnlyCommand simple_machine ''wc -l a.txt'' plain_context = Some r \<and>
     ev_behavior r = Allow \<and> ev_risk r = ReadOnly"
proof -
  have "map_option ev_behavior (evaluateReadOnlyCommand simple_machine ''wc -l a.txt'' plain_context) = Some Allow"
    by code_simp
  then obtain r where r: "evaluateReadOnlyCommand simple_machine ''wc -l a.txt'' plain_context = Some r"
    "ev_behavior r = Allow" by (auto simp: map_option_eq_Some)
  then show ?thesis using read_only_evaluation_sound[OF r(1) refl refl] by blast
qed

text \<open>C5: a deny rule that matches the whole command, or one command of it, is decisive: the
  verdict is a refusal or a question attributed to the deny list, whatever the allow rules and
  the mode are. (The rule lists are assumed not to hold the empty rule, which validation
  refuses.)\<close>

theorem deny_rule_decides:
  assumes "[] \<notin> set (or_else (cf_deny config) [])"
    and "nd \<in> set (pc_nodes (parseShellCommand (h_shell H) command (cx_language cx)))"
    and "matchingRule command (or_else (cf_deny config) []) True \<noteq> None \<or>
      matchingRule (canonical nd) (or_else (cf_deny config) []) True \<noteq> None"
  shows "\<exists>r. evaluateCommand H command config cx = Some r \<and>
    (ev_behavior r = Deny \<or> (ev_behavior r = Ask \<and> ev_matchedList r = Some DenyList))"
proof -
  obtain r where r: "evaluateCommand H command config cx = Some r" using evaluateCommand_total by blast
  show ?thesis
  proof (cases "ev_behavior r = Deny")
    case False
    then have ev: "evaluateParsed H config cx False MAX_NESTING command = Some r"
      using r evaluateCommand_parsed by blast
    have "denied_rule (env_of H config cx False MAX_NESTING command) nd \<noteq> None"
      by (rule denied_rule_found[where command = command]) (use assms in simp_all)
    then show ?thesis using r evaluateParsed_denied[OF ev assms(2)] by blast
  qed (use r in blast)
qed

theorem deny_rule_decides_witness:
  "\<exists>r. evaluateCommand simple_machine ''git status'' (rules_config ModeAuto [''git *''] [''git st*'']) plain_context = Some r \<and>
    (ev_behavior r = Deny \<or> (ev_behavior r = Ask \<and> ev_matchedList r = Some DenyList))"
proof (rule deny_rule_decides)
  let ?p = "parseShellCommand (h_shell simple_machine) ''git status'' (cx_language plain_context)"
  have "pc_nodes ?p \<noteq> []" by code_simp
  then show "hd (pc_nodes ?p) \<in> set (pc_nodes ?p)" by simp
  have "matchingRule ''git status'' [''git st*''] True \<noteq> None" by code_simp
  then show "matchingRule ''git status'' (or_else (cf_deny (rules_config ModeAuto [''git *''] [''git st*''])) []) True \<noteq> None \<or>
    matchingRule (canonical (hd (pc_nodes ?p))) (or_else (cf_deny (rules_config ModeAuto [''git *''] [''git st*''])) []) True \<noteq> None"
    by (simp add: rules_config_def)
qed (simp add: rules_config_def)

text \<open>A chat channel can only tighten the deny rules: a rule of the global list or of the
  channel's list that matches decides the verdict, although the channel's mode replaces the
  global one.\<close>

theorem im_channel_deny_decides:
  assumes "[] \<notin> set (or_else (cf_deny config) [] @ or_else (icp_deny policy) [])"
    and "nd \<in> set (pc_nodes (parseShellCommand (h_shell H) command (cx_language cx)))"
    and "rules = or_else (cf_deny config) [] \<or> rules = or_else (icp_deny policy) []"
    and "matchingRule command rules True \<noteq> None \<or> matchingRule (canonical nd) rules True \<noteq> None"
  shows "\<exists>r. evaluateCommandForImWorkspace H command config policy cx = Some r \<and>
    (ev_behavior r = Deny \<or> (ev_behavior r = Ask \<and> ev_matchedList r = Some DenyList))"
proof -
  let ?c = "im_config config policy"
  have d: "or_else (cf_deny ?c) [] = or_else (cf_deny config) [] @ or_else (icp_deny policy) []"
    by (simp add: im_config_def)
  obtain r where r: "evaluateCommand H command ?c cx = Some r" using evaluateCommand_total by blast
  show ?thesis
  proof (cases "ev_behavior r = Deny")
    case False
    then have ev: "evaluateParsed H ?c cx False MAX_NESTING command = Some r"
      using r evaluateCommand_parsed by blast
    have "denied_rule (env_of H ?c cx False MAX_NESTING command) nd \<noteq> None"
      by (rule denied_rule_found[where command = command])
        (use assms matchingRule_append in \<open>auto simp: d\<close>)
    then show ?thesis
      using r evaluateParsed_denied[OF ev assms(2)] by (auto simp: evaluateCommandForImWorkspace_def)
  qed (use r in \<open>auto simp: evaluateCommandForImWorkspace_def\<close>)
qed

theorem im_channel_deny_decides_witness:
  "\<exists>r. evaluateCommandForImWorkspace simple_machine ''git status'' (rules_config ModeAsk [] [''git st*''])
      \<lparr>icp_mode = ModeAuto, icp_allow = Some [''git *''], icp_deny = None\<rparr> plain_context = Some r \<and>
    (ev_behavior r = Deny \<or> (ev_behavior r = Ask \<and> ev_matchedList r = Some DenyList))"
proof (rule im_channel_deny_decides)
  let ?p = "parseShellCommand (h_shell simple_machine) ''git status'' (cx_language plain_context)"
  have "pc_nodes ?p \<noteq> []" by code_simp
  then show "hd (pc_nodes ?p) \<in> set (pc_nodes ?p)" by simp
  have "matchingRule ''git status'' [''git st*''] True \<noteq> None" by code_simp
  then show "matchingRule ''git status'' [''git st*''] True \<noteq> None \<or>
    matchingRule (canonical (hd (pc_nodes ?p))) [''git st*''] True \<noteq> None" by blast
qed (simp_all add: rules_config_def)

text \<open>Wrapping a command does not soften the verdict on it: when the verdict on the inner
  command of an \<open>ssh\<close>, \<open>docker exec\<close>, \<open>find -exec\<close> or git alias refuses, comes from a deny list or
  cannot be stored, the verdict on the whole command is at least as strong.\<close>

theorem nested_command_decides:
  assumes "nd \<in> set (pc_nodes (parseShellCommand (h_shell H) command (cx_language cx)))"
    and "runner_node nd (nodeRisk (h_shell H)
      (pc_language (parseShellCommand (h_shell H) command (cx_language cx))) MAX_NESTING nd)"
    and "ne_complete (nestedExecution (pn_argv nd)) \<noteq> Some False"
    and "truthy (ne_command (nestedExecution (pn_argv nd))) = Some inner"
    and "evaluateParsed H config cx ro n inner = Some w" and "inner_decides w"
  shows "\<exists>r. evaluateParsed H config cx ro (Suc n) command = Some r \<and> ev_behavior w \<le> ev_behavior r"
proof -
  let ?E = "env_of H config cx ro (Suc n) command"
  obtain r where ev: "evaluateParsed H config cx ro (Suc n) command = Some r"
    using evaluateParsed_total by blast
  obtain nxt st vs st' where nv: "node_values ?E nd nxt st = Some (vs, st')"
    and le: "\<And>v. v \<in> set vs \<Longrightarrow> ev_behavior v \<le> ev_behavior r \<and> ev_risk v \<le> ev_risk r"
    by (rule evaluateParsed_node[OF ev assms(1)]) blast
  have inner: "en_inner ?E = Some (evaluateParsed H config cx ro n)" by (simp add: inner_of_def)
  have rv: "runner_value ?E nd risk = Some (w\<lparr>ev_trigger := Some (pn_text nd)\<rparr>)" for risk
    unfolding runner_value_def Let_def inner using assms(3-6) by simp
  have "ev_behavior w \<le> ev_behavior r"
  proof (cases "rv_risk (env_risk ?E nd) = PrivilegeEscape")
    case True
    then have "ev_behavior r = Deny" using node_values_parts[OF nv] le by (auto simp: result_def)
    then show ?thesis by simp
  next
    case False
    then obtain ms where ms: "vs = deny_values ?E nd (env_risk ?E nd) @ ms" "main_verdicts ?E nd nxt st ms"
      using node_values_parts[OF nv] unfolding if_not_P[OF False] by blast
    moreover have "runner_node nd (env_risk ?E nd)" using assms(2) by simp
    ultimately have "w\<lparr>ev_trigger := Some (pn_text nd)\<rparr> \<in> set vs"
      using rv[of "env_risk ?E nd"] by (simp add: main_verdicts_def Let_def)
    then show ?thesis using le by fastforce
  qed
  with ev show ?thesis by blast
qed

theorem nested_command_decides_witness:
  "\<exists>r. evaluateParsed simple_machine (rules_config ModeAuto [''ssh *''] []) plain_context False (Suc 1)
      ''ssh box bash'' = Some r \<and> Ask \<le> ev_behavior r"
proof -
  let ?p = "parseShellCommand (h_shell simple_machine) ''ssh box bash'' (cx_language plain_context)"
  let ?nd = "hd (pc_nodes ?p)" and ?c = "rules_config ModeAuto [''ssh *''] []"
  have "pc_nodes ?p \<noteq> []" by code_simp
  then have nd: "?nd \<in> set (pc_nodes ?p)" by simp
  have run: "runner_node ?nd (nodeRisk (h_shell simple_machine) (pc_language ?p) MAX_NESTING ?nd)"
    by code_simp
  have com: "ne_complete (nestedExecution (pn_argv ?nd)) \<noteq> Some False" by code_simp
  have inn: "truthy (ne_command (nestedExecution (pn_argv ?nd))) = Some ''bash''" by code_simp
  have "map_option (\<lambda>w. (ev_behavior w, inner_decides w))
      (evaluateParsed simple_machine ?c plain_context False 1 ''bash'') = Some (Ask, True)" by code_simp
  then obtain w where w: "evaluateParsed simple_machine ?c plain_context False 1 ''bash'' = Some w"
    "inner_decides w" "ev_behavior w = Ask" by (auto simp: map_option_eq_Some)
  show ?thesis using nested_command_decides[OF nd run com inn w(1,2)] w(3) by simp
qed

text \<open>The risk of a command is at least the risk of every command nested in its arguments,
  once that is above a change to the workspace.\<close>

theorem nested_risk_not_hidden:
  assumes "truthy (ne_command (nestedExecution (pn_argv nd))) = Some inner"
    and "child \<in> set (pc_nodes (parseShellCommand H inner (Some language)))"
    and "WorkspaceWrite < rv_risk (nodeRisk H language n child)"
  shows "rv_risk (nodeRisk H language n child) \<le> rv_risk (nodeRisk H language (Suc n) nd)"
proof -
  have "ExternalSideEffect \<le> rv_risk (nodeRisk H language n child)"
    using assms(3) by (cases "rv_risk (nodeRisk H language n child)")
      (auto simp: less_command_risk_def less_eq_command_risk_def)
  then show ?thesis
    unfolding nodeRisk.simps using assms(1,2) by (intro node_risk_ge) auto
qed

theorem nested_risk_not_hidden_witness:
  "PrivilegeEscape \<le> rv_risk (nodeRisk simple_host Bash (Suc 7)
      (hd (pc_nodes (parseShellCommand simple_host ''ssh box su'' None))))"
proof -
  let ?nd = "hd (pc_nodes (parseShellCommand simple_host ''ssh box su'' None))"
  let ?i = "parseShellCommand simple_host ''su'' (Some Bash)"
  have inn: "truthy (ne_command (nestedExecution (pn_argv ?nd))) = Some ''su''" by code_simp
  have ch: "pc_nodes ?i \<noteq> [] \<and> rv_risk (nodeRisk simple_host Bash 7 (hd (pc_nodes ?i))) = PrivilegeEscape"
    by code_simp
  then have "hd (pc_nodes ?i) \<in> set (pc_nodes ?i)" by simp
  from nested_risk_not_hidden[OF inn this, of 7] ch show ?thesis
    by (simp add: less_command_risk_def)
qed

text \<open>Aggregation returns the strongest behaviour and the highest risk of the verdicts, marks
  the result as not storable exactly when one of them is, and takes its explanation from one of
  the verdicts with the strongest behaviour, preferring a deny list.\<close>

theorem aggregate_strongest:
  assumes "vs \<noteq> []"
  shows "\<exists>r. aggregate vs = Some r \<and>
    ev_behavior r = Max (ev_behavior ` set vs) \<and> ev_risk r = Max (ev_risk ` set vs) \<and>
    (ev_persistent r = Some False) = (\<exists>v \<in> set vs. ev_persistent v = Some False) \<and>
    (\<exists>v \<in> set vs. ev_behavior v = ev_behavior r \<and> ev_matchedList v = ev_matchedList r \<and>
       ev_matchedRule v = ev_matchedRule r \<and> ev_reason v = ev_reason r \<and> ev_trigger v = ev_trigger r) \<and>
    (\<forall>v \<in> set vs. ev_behavior v = ev_behavior r \<and> ev_matchedList v = Some DenyList \<longrightarrow>
       ev_matchedList r = Some DenyList)"
proof -
  obtain r where r: "aggregate vs = Some r" using aggregate_total[OF assms] by blast
  show ?thesis using aggregate_spec[OF r] r by metis
qed

theorem aggregate_strongest_witness:
  "\<exists>r. aggregate (unparsed_value False (parseShellCommand simple_host [] (Some UnknownLanguage))) = Some r \<and>
     ev_behavior r = Ask"
proof -
  let ?vs = "unparsed_value False (parseShellCommand simple_host [] (Some UnknownLanguage))"
  have "?vs \<noteq> []" "map ev_behavior ?vs = [Ask]" by code_simp+
  then show ?thesis using aggregate_strongest[of ?vs] by (auto simp: map_eq_Cons_conv)
qed

text \<open>A directory change is authorised only into an existing directory whose canonical path
  lies, segment by segment, inside the canonical path of one of the roots.\<close>

theorem authorized_directory_contained:
  assumes "authorizedDirectory H target cwd roots = Some dir"
  shows "h_realpath H (resolve (h_cwd H) cwd target) = Some dir \<and> h_isdir H dir = Some True \<and>
    (\<exists>root \<in> set roots. \<exists>r. h_realpath H root = Some r \<and>
       prefix (path_segs (resolve1 (h_cwd H) r)) (path_segs (resolve1 (h_cwd H) dir)))"
  using authorizedDirectory_inside[OF assms] by blast

theorem authorized_directory_contained_witness:
  "prefix (path_segs (resolve1 ''/w'' ''/w/a'')) (path_segs (resolve1 ''/w'' ''/w/a/b''))"
proof -
  have "authorizedDirectory simple_machine ''./x/../b'' ''/w/a'' [''/w/a''] = Some ''/w/a/b''" by code_simp
  from authorized_directory_contained[OF this] show ?thesis by (simp add: simple_machine_def)
qed

end
