(* ===== verification/Boundary.thy ===== *)
theory Boundary
  imports CommandPolicy
begin

text \<open>
  Containment of paths: \<open>packages/sidecar/src/permissions/workspaceBoundary.ts\<close> and
  \<open>grantRootSafety.ts\<close>. A path argument is normalised the way the tools normalise it, resolved
  against a root, followed through symbolic links as far as it exists, and then compared with
  the canonical roots. The file system is the host's \<open>h_realpath\<close>; one call is evaluated
  against one state of it.
\<close>

section \<open>Definitions\<close>

subsection \<open>Normalising a path argument\<close>

text \<open>\<open>replace(UNICODE_SPACES, " ")\<close>: of that class only the no-break space is below 256.\<close>

definition fold_space :: "char \<Rightarrow> char" where
  "fold_space c = (if code_unit c = 160 then CHR '' '' else c)"

definition expandHomeAndFileUrl :: "host \<Rightarrow> string \<Rightarrow> string" where
  "expandHomeAndFileUrl H path =
     (if path = ''~'' then h_homedir H
      else if startsWith path ''~/'' \<or> (sh_win32 (h_shell H) \<and> startsWith path [CHR ''~'', bslash])
      then path_join [h_homedir H, drop 2 path]
      else if startsWith path ''file://'' then or_else (h_fileURLToPath H path) path
      else path)"

definition normalizeBuiltinToolPath :: "host \<Rightarrow> string \<Rightarrow> string" where
  "normalizeBuiltinToolPath H path =
     (let spaced = map fold_space path in
      expandHomeAndFileUrl H (if startsWith spaced ''@'' then drop 1 spaced else spaced))"

subsection \<open>Containment\<close>

datatype boundary_result = BoundaryOk string | BoundaryDenied string

definition realpathThroughExistingAncestor :: "host \<Rightarrow> string \<Rightarrow> string" where
  "realpathThroughExistingAncestor H target =
     ancestor_walk (h_realpath H)
       (\<lambda>current real. if current = target then real
          else resolve (h_cwd H) real (relative (h_cwd H) current target))
       target target"

definition isContained :: "host \<Rightarrow> string \<Rightarrow> string \<Rightarrow> bool" where
  "isContained H root target \<longleftrightarrow>
     (let rel = relative (h_cwd H) root target in
      rel = [] \<or> (\<not> startsWith rel ''..'' \<and> \<not> isAbsolute rel))"

definition empty_path_reason :: string where
  "empty_path_reason = ''path must not be empty''"

definition outside_reason :: "string \<Rightarrow> string \<Rightarrow> bool \<Rightarrow> string" where
  "outside_reason root raw with_associated =
     ''path resolves outside the workspace root ('' @ root @ '')''
       @ (if with_associated then '' and its associated directories'' else []) @ '': '' @ raw"

definition resolveWithinRoot :: "host \<Rightarrow> string \<Rightarrow> string \<Rightarrow> boundary_result" where
  "resolveWithinRoot H root rawPath =
     (if trim rawPath = [] then BoundaryDenied empty_path_reason
      else
        let absolutePath = resolve (h_cwd H) root rawPath;
            realRoot = realpathThroughExistingAncestor H root;
            realTarget = realpathThroughExistingAncestor H absolutePath
        in if \<not> isContained H realRoot realTarget
           then BoundaryDenied (outside_reason root rawPath False)
           else BoundaryOk absolutePath)"

definition resolveWithinRootSet :: "host \<Rightarrow> string \<Rightarrow> string list \<Rightarrow> string \<Rightarrow> boundary_result" where
  "resolveWithinRootSet H primary associated rawPath =
     (if trim rawPath = [] then BoundaryDenied empty_path_reason
      else
        let absolutePath = resolve (h_cwd H) primary rawPath;
            realTarget = realpathThroughExistingAncestor H absolutePath
        in if isContained H (realpathThroughExistingAncestor H primary) realTarget
           then BoundaryOk absolutePath
           else if list_ex (\<lambda>root. isContained H (realpathThroughExistingAncestor H root) realTarget) associated
           then BoundaryOk absolutePath
           else BoundaryDenied (outside_reason primary rawPath (associated \<noteq> [])))"

subsection \<open>Roots that may never be granted\<close>

datatype grant_verdict = GrantOk | GrantDenied string

definition realpathBestEffort :: "host \<Rightarrow> string \<Rightarrow> string" where
  "realpathBestEffort H target =
     ancestor_walk (h_realpath H) (\<lambda>current real. real) (resolve1 (h_cwd H) target)
       (resolve1 (h_cwd H) target)"

definition isSameOrInside :: "host \<Rightarrow> string \<Rightarrow> string \<Rightarrow> bool" where
  "isSameOrInside H candidate ancestor \<longleftrightarrow>
     (let rel = relative (h_cwd H) ancestor candidate in
      rel = [] \<or> (\<not> startsWith rel ''..'' \<and> \<not> isAbsolute rel))"

definition IM_CWD_PREFIX :: string where
  "IM_CWD_PREFIX = ''im://''"

definition fs_root :: "string \<Rightarrow> string" where
  "fs_root p = (if isAbsolute p then ''/'' else [])"

definition checkGrantRootSafety :: "host \<Rightarrow> string \<Rightarrow> grant_verdict" where
  "checkGrantRootSafety H root =
     (if \<not> isAbsolute root then GrantDenied (''must be an absolute path: '' @ root)
      else if startsWith root IM_CWD_PREFIX
      then GrantDenied (''must be a filesystem path, not an IM workspace: '' @ root)
      else
        let real = realpathBestEffort H root; home = realpathBestEffort H (tacoHome H) in
        if isSameOrInside H real home \<or> isSameOrInside H home real
        then GrantDenied (''must not be inside or contain the Taco home directory: '' @ root)
        else if real = fs_root real
        then GrantDenied (''must not be the filesystem root: '' @ root)
        else if real = realpathBestEffort H (h_homedir H)
        then GrantDenied (''must not be the home directory: '' @ root)
        else GrantOk)"

section \<open>The ancestor walk\<close>

lemma isContained_lax: "isContained H root target = lax_inside (relative (h_cwd H) root target)"
  by (simp add: isContained_def lax_inside_def Let_def)

lemma isSameOrInside_lax: "isSameOrInside H c a = lax_inside (relative (h_cwd H) a c)"
  by (simp add: isSameOrInside_def lax_inside_def Let_def)

text \<open>Containment on segments: the root's segments are a prefix of the target's, and the first
  segment below the root does not start with two dots.\<close>

definition below :: "string list \<Rightarrow> string list \<Rightarrow> bool" where
  "below root target \<longleftrightarrow>
     prefix root target \<and>
     (case drop (length root) target of [] \<Rightarrow> True | s # _ \<Rightarrow> \<not> startsWith s ''..'')"

lemma isContained_below:
  "isContained H root target = below (segs_at (h_cwd H) root) (segs_at (h_cwd H) target)"
  by (simp add: isContained_lax lax_inside_iff below_def)

lemma isSameOrInside_below:
  "isSameOrInside H c a = below (segs_at (h_cwd H) a) (segs_at (h_cwd H) c)"
  by (simp add: isSameOrInside_lax lax_inside_iff below_def)

lemma norm_segs_append: "norm_segs acc (xs @ ys) = norm_segs (rev (norm_segs acc xs)) ys"
  by (induction acc xs rule: norm_segs.induct) auto

lemma path_segs_append_good:
  assumes "list_all good_seg ss"
  shows "path_segs (p @ ''/'' @ join ''/'' ss) = path_segs p @ ss"
proof (cases "ss = []")
  case True
  have "split_char slash (p @ ''/'') = split_char slash p @ [[]]"
    using split_by_append_sep[of "\<lambda>c. c = slash" slash p "[]"] by simp
  then show ?thesis using True by (simp add: path_segs_def norm_segs_append)
next
  case False
  have "split_char slash (join ''/'' ss) = ss"
    using assms False by (intro split_join) (auto simp: list_all_iff good_seg_def)
  then have "split_char slash (p @ ''/'' @ join ''/'' ss) = split_char slash p @ ss"
    using split_by_append_sep[of "\<lambda>c. c = slash" slash p "join ''/'' ss"] by simp
  then show ?thesis
    using assms by (simp add: path_segs_def norm_segs_append norm_segs_id)
qed

lemma join_snoc: "ss \<noteq> [] \<Longrightarrow> join sep (ss @ [s]) = join sep ss @ sep @ s"
  by (induction sep ss rule: join.induct) auto

text \<open>\<open>dirname\<close> drops the last segment of a normalised path.\<close>

lemma dirname_abs_path:
  assumes "list_all good_seg (ss @ [s])"
  shows "dirname (abs_path (ss @ [s])) = abs_path ss"
proof -
  have s: "s \<noteq> []" "slash \<notin> set s" using assms by (auto simp: good_seg_def)
  obtain c r where cr: "rev s = c # r" using s by (cases "rev s") auto
  have cs: "c \<noteq> slash" "slash \<notin> set r" using s cr
    by (metis list.set_intros(1) set_rev, metis list.set_intros(2) set_rev)
  show ?thesis
  proof (cases "ss = []")
    case True
    have u: "dropWhile (\<lambda>c. c \<noteq> slash) (dropWhile (\<lambda>c. c = slash) (rev s)) = []"
      using cs unfolding cr by auto
    have "dirname (slash # s) = ''/''"
      unfolding dirname_def Let_def list.sel u by (simp only: list.distinct if_False if_True simp_thms)
    then show ?thesis using True by (simp add: abs_path_def)
  next
    case False
    have p: "abs_path (ss @ [s]) = slash # join ''/'' ss @ slash # s"
      using False by (simp add: abs_path_def join_snoc)
    have "dropWhile (\<lambda>c. c = slash) (rev (join ''/'' ss @ slash # s)) = rev (join ''/'' ss @ slash # s)"
      using cs by (simp add: cr)
    moreover have "dropWhile (\<lambda>c. c \<noteq> slash) (rev (join ''/'' ss @ slash # s)) = slash # rev (join ''/'' ss)"
      using s by (simp add: dropWhile_append)
    ultimately have u: "dropWhile (\<lambda>c. c \<noteq> slash)
        (dropWhile (\<lambda>c. c = slash) (rev (tl (abs_path (ss @ [s]))))) = slash # rev (join ''/'' ss)"
      unfolding p by simp
    obtain x xs where x: "ss = x # xs" using False by (cases ss) auto
    have "join ''/'' ss \<noteq> []"
      using assms join_good_not_Nil[of x xs] unfolding x by simp
    then show ?thesis
      unfolding dirname_def Let_def u by (simp add: p) (simp add: abs_path_def)
  qed
qed

lemma abs_path_inj: "list_all good_seg a \<Longrightarrow> list_all good_seg b \<Longrightarrow> abs_path a = abs_path b \<Longrightarrow> a = b"
  by (metis path_segs_abs_path)

lemma dirname_root: "dirname (abs_path []) = abs_path []"
  by (simp add: abs_path_def dirname_def)

text \<open>The walk from a normalised path stops at the longest ancestor that exists.\<close>

definition longest_existing :: "(string \<Rightarrow> string option) \<Rightarrow> string list \<Rightarrow> nat \<Rightarrow> string \<Rightarrow> bool" where
  "longest_existing realpath segs k real \<longleftrightarrow>
     k \<le> length segs \<and> realpath (abs_path (take k segs)) = Some real \<and>
     (\<forall>j. k < j \<longrightarrow> j \<le> length segs \<longrightarrow> realpath (abs_path (take j segs)) = None)"

lemma longest_existing_snoc:
  "realpath (abs_path (ss @ [s])) = None \<Longrightarrow>
     longest_existing realpath (ss @ [s]) k real \<longleftrightarrow> longest_existing realpath ss k real"
  unfolding longest_existing_def by (auto simp: le_Suc_eq)

lemma longest_existing_full:
  assumes "realpath (abs_path segs) = Some r" and "longest_existing realpath segs k real"
  shows "k = length segs" and "real = r"
proof -
  show k: "k = length segs"
  proof (rule ccontr)
    assume "k \<noteq> length segs"
    then have "realpath (abs_path (take (length segs) segs)) = None"
      using assms(2) unfolding longest_existing_def by (metis le_neq_implies_less order_refl)
    with assms(1) show False by simp
  qed
  then show "real = r" using assms by (simp add: longest_existing_def)
qed

lemma ancestor_walk_segs:
  assumes "list_all good_seg segs"
  shows "longest_existing realpath segs k real \<Longrightarrow>
      ancestor_walk realpath found missing (abs_path segs) = found (abs_path (take k segs)) real"
    and "\<forall>j \<le> length segs. realpath (abs_path (take j segs)) = None \<Longrightarrow>
      ancestor_walk realpath found missing (abs_path segs) = missing"
  using assms
proof (induction segs rule: rev_induct)
  case Nil
  { case 1
    then show ?case by (subst ancestor_walk.simps) (simp add: longest_existing_def)
  next
    case 2
    then show ?case by (subst ancestor_walk.simps) (simp add: dirname_root) }
next
  case (snoc s ss)
  have step: "ancestor_walk realpath found missing (abs_path (ss @ [s])) =
      (case realpath (abs_path (ss @ [s])) of
         Some real \<Rightarrow> found (abs_path (ss @ [s])) real
       | None \<Rightarrow> ancestor_walk realpath found missing (abs_path ss))"
    if g: "list_all good_seg (ss @ [s])"
  proof -
    have "list_all good_seg ss" using g by simp
    then show ?thesis
      using dirname_abs_path[OF g] abs_path_inj[OF _ g, of ss]
      by (subst ancestor_walk.simps) (auto simp: Let_def split: option.splits)
  qed
  { case 1
    have good: "list_all good_seg ss" using 1(2) by simp
    show ?case
    proof (cases "realpath (abs_path (ss @ [s]))")
      case (Some r)
      then show ?thesis
        using longest_existing_full[of realpath "ss @ [s]" r k real] 1(1) step[OF 1(2)] by simp
    next
      case None
      then have le: "longest_existing realpath ss k real" using 1(1) longest_existing_snoc by blast
      then have "take k (ss @ [s]) = take k ss" by (simp add: longest_existing_def)
      then show ?thesis using snoc.IH(1)[OF le good] step[OF 1(2)] None by simp
    qed
  next
    case 2
    have good: "list_all good_seg ss" using 2(2) by simp
    have "realpath (abs_path (ss @ [s])) = None"
      using 2(1) by (metis order_refl take_all_iff)
    moreover have "\<forall>j \<le> length ss. realpath (abs_path (take j ss)) = None"
      using 2(1) by (auto dest: spec)
        (metis append_take_drop_id le_SucI length_append_singleton take_append diff_is_0_eq' append_Nil2 take_0)
    ultimately show ?case using snoc.IH(2)[OF _ good] step[OF 2(2)] by simp }
qed

lemma resolve_abs_path: "resolve cwd base raw = abs_path (path_segs (resolve cwd base raw))"
  by (simp add: resolve_def path_segs_abs_path path_segs_good)

lemma segs_at_abs_path [simp]: "list_all good_seg ss \<Longrightarrow> segs_at cwd (abs_path ss) = ss"
  by (simp add: resolve1_absolute path_segs_abs_path)

lemma good_take_drop:
  "list_all good_seg ss \<Longrightarrow> list_all good_seg (take k ss)"
  "list_all good_seg ss \<Longrightarrow> list_all good_seg (drop k ss)"
  by (auto simp: list_all_iff dest: in_set_takeD in_set_dropD)

lemma reattach_tail:
  assumes "list_all good_seg segs" and "isAbsolute real" and "k < length segs"
  shows "path_segs (resolve cwd real (relative cwd (abs_path (take k segs)) (abs_path segs))) =
    path_segs real @ drop k segs"
proof -
  have "relative cwd (abs_path (take k segs)) (abs_path segs) = join ''/'' (drop k segs)"
    using assms(1,3) good_take_drop
    by (subst relative_inside) (simp_all add: take_is_prefix min_def)
  moreover have "\<not> isAbsolute (join ''/'' (drop k segs))"
    using assms(1,3) good_take_drop(2)[of segs k] join_good_not_absolute
    by (cases "drop k segs") auto
  ultimately show ?thesis
    using assms(2) path_segs_append_good[OF good_take_drop(2)[OF assms(1)], of real k] by simp
qed

lemma real_target_segs:
  assumes abs: "\<And>p r. h_realpath H p = Some r \<Longrightarrow> isAbsolute r"
    and good: "list_all good_seg segs" and k: "longest_existing (h_realpath H) segs k real"
  shows "path_segs (realpathThroughExistingAncestor H (abs_path segs)) = path_segs real @ drop k segs"
proof -
  let ?found = "\<lambda>current real. if current = abs_path segs then real
    else resolve (h_cwd H) real (relative (h_cwd H) current (abs_path segs))"
  have le: "k \<le> length segs" and r: "h_realpath H (abs_path (take k segs)) = Some real"
    using k by (simp_all add: longest_existing_def)
  have "path_segs (?found (abs_path (take k segs)) real) = path_segs real @ drop k segs"
  proof (cases "k = length segs")
    case False
    then have "take k segs \<noteq> segs" using le by (metis length_take min.absorb2)
    then have "abs_path (take k segs) \<noteq> abs_path segs"
      using abs_path_inj[OF good_take_drop(1)[OF good] good] by blast
    then show ?thesis using reattach_tail[OF good abs[OF r]] le False by simp
  qed simp
  then show ?thesis
    unfolding realpathThroughExistingAncestor_def ancestor_walk_segs(1)[OF good k] .
qed

lemma below_prefix: "below a b \<Longrightarrow> prefix a b"
  by (simp add: below_def)

lemma resolveWithinRoot_ok:
  "resolveWithinRoot H root raw = BoundaryOk p \<longleftrightarrow>
     trim raw \<noteq> [] \<and> p = resolve (h_cwd H) root raw \<and>
     below (segs_at (h_cwd H) (realpathThroughExistingAncestor H root))
       (segs_at (h_cwd H) (realpathThroughExistingAncestor H p))"
  by (auto simp: resolveWithinRoot_def Let_def isContained_below)

lemma resolveWithinRootSet_ok:
  "resolveWithinRootSet H primary associated raw = BoundaryOk p \<longleftrightarrow>
     trim raw \<noteq> [] \<and> p = resolve (h_cwd H) primary raw \<and>
     list_ex (\<lambda>root. below (segs_at (h_cwd H) (realpathThroughExistingAncestor H root))
       (segs_at (h_cwd H) (realpathThroughExistingAncestor H p))) (primary # associated)"
  by (auto simp: resolveWithinRootSet_def Let_def isContained_below)

section \<open>Properties\<close>

definition plain_segs :: "string list \<Rightarrow> bool" where
  "plain_segs ss \<longleftrightarrow> list_all (\<lambda>s. \<not> startsWith s ''..'') ss"

lemma below_plain: "plain_segs b \<Longrightarrow> below a b \<longleftrightarrow> prefix a b"
  unfolding below_def plain_segs_def
  by (cases "drop (length a) b")
    (auto simp: list_all_iff, metis in_set_dropD list.set_intros(1))

text \<open>The containment test accepts a path exactly when it is not blank and its canonical form,
  taken after resolving it against the primary root, lies segment by segment inside the
  canonical form of the primary root or of one of the associated ones. What it returns is the
  path resolved against the primary root, whichever root matched.\<close>

theorem root_set_accepts_contained:
  "resolveWithinRootSet H primary associated raw = BoundaryOk p \<longleftrightarrow>
     trim raw \<noteq> [] \<and> p = resolve (h_cwd H) primary raw \<and>
     list_ex (\<lambda>root. below (path_segs (resolve1 (h_cwd H) (realpathThroughExistingAncestor H root)))
       (path_segs (resolve1 (h_cwd H) (realpathThroughExistingAncestor H p)))) (primary # associated)"
  by (rule resolveWithinRootSet_ok)

text \<open>The canonical form of a path that need not exist: its longest existing ancestor is
  replaced by that ancestor's canonical path and the rest of the segments is kept. So a symbolic
  link anywhere in the existing part is followed, and the part to be created adds no \<open>..\<close>. The
  hypothesis is the documented behaviour of \<open>realpath\<close>: what it returns is absolute.\<close>

theorem canonical_form_follows_links:
  assumes "\<And>p r. h_realpath H p = Some r \<Longrightarrow> isAbsolute r"
    and "target = resolve (h_cwd H) base raw"
    and "longest_existing (h_realpath H) (path_segs target) k real"
  shows "path_segs (realpathThroughExistingAncestor H target) = path_segs real @ drop k (path_segs target)"
proof -
  have "abs_path (path_segs target) = target"
    unfolding assms(2) by (rule resolve_abs_path[symmetric])
  then show ?thesis using real_target_segs[OF _ path_segs_good assms(3)] assms(1) by metis
qed

text \<open>A file system with one symbolic link: \<open>/w/link\<close> leads to \<open>/etc\<close>.\<close>

definition linked_realpath :: "string \<Rightarrow> string option" where
  "linked_realpath p =
     (if p = ''/'' \<or> p = ''/w'' \<or> p = ''/etc'' \<or> p = ''/t'' then Some p
      else if p = ''/w/link'' then Some ''/etc'' else None)"

definition linked_machine :: host where
  "linked_machine = \<lparr>h_shell = simple_host, h_cwd = ''/w'', h_realpath = linked_realpath,
     h_isdir = (\<lambda>_. Some True), h_homedir = ''/home/u'', h_envTacoHome = Some ''/t'',
     h_fileURLToPath = (\<lambda>_. None)\<rparr>"

lemma linked_absolute: "h_realpath linked_machine p = Some r \<Longrightarrow> isAbsolute r"
  by (auto simp: linked_machine_def linked_realpath_def isAbsolute_def startsWith_def split: if_splits)

theorem canonical_form_follows_links_witness:
  "path_segs (realpathThroughExistingAncestor linked_machine ''/w/link/x'') = [''etc'', ''x'']"
proof -
  have t: "''/w/link/x'' = resolve (h_cwd linked_machine) ''/w'' ''link/x''" by code_simp
  have s: "path_segs ''/w/link/x'' = [''w'', ''link'', ''x'']" by code_simp
  have "h_realpath linked_machine (abs_path [''w'', ''link'']) = Some ''/etc''"
    "h_realpath linked_machine (abs_path [''w'', ''link'', ''x'']) = None" by code_simp+
  then have k: "longest_existing (h_realpath linked_machine) (path_segs ''/w/link/x'') 2 ''/etc''"
    unfolding s longest_existing_def by (auto simp: le_Suc_eq numeral_2_eq_2)
  have e: "path_segs ''/etc'' = [''etc'']" by code_simp
  show ?thesis using canonical_form_follows_links[OF linked_absolute t k] unfolding s e by simp
qed

text \<open>A directory that passes the grant check has no file in common with the Taco home
  directory: no path lies below the canonical forms of both. (Segments that start with two dots
  are excluded on both sides; \<open>granted_inside_taco_home\<close> below shows that the test misses them.)\<close>

theorem granted_root_disjoint_from_taco_home:
  assumes "checkGrantRootSafety H root = GrantOk"
    and "real = path_segs (resolve1 (h_cwd H) (realpathBestEffort H root))"
    and "home = path_segs (resolve1 (h_cwd H) (realpathBestEffort H (tacoHome H)))"
    and "plain_segs real" and "plain_segs home"
  shows "isAbsolute root \<and> real \<noteq> [] \<and> \<not> (prefix real file \<and> prefix home file)"
proof -
  have abs: "isAbsolute root" and not: "\<not> below home real" "\<not> below real home"
    using assms(1) by (auto simp: checkGrantRootSafety_def Let_def isSameOrInside_below assms(2,3)
        split: if_splits)
  then have "\<not> prefix home real" "\<not> prefix real home"
    using assms(4,5) by (simp_all add: below_plain)
  then show ?thesis using abs prefix_same_cases by (metis Nil_prefix)
qed

theorem granted_root_disjoint_from_taco_home_witness:
  "\<not> (prefix [''w''] [''t'', ''taco.json''] \<and> prefix [''t''] [''t'', ''taco.json''])"
proof -
  have g: "checkGrantRootSafety linked_machine ''/w'' = GrantOk" by code_simp
  have r: "[''w''] = path_segs (resolve1 (h_cwd linked_machine) (realpathBestEffort linked_machine ''/w''))"
    by code_simp
  have h: "[''t''] = path_segs (resolve1 (h_cwd linked_machine)
      (realpathBestEffort linked_machine (tacoHome linked_machine)))" by code_simp
  have p: "plain_segs [''w'']" "plain_segs [''t'']" by code_simp+
  show ?thesis using granted_root_disjoint_from_taco_home[OF g r h p] by blast
qed

text \<open>The test on the relative path's first two characters also rejects a child whose name merely
  starts with two dots: such a child of the root counts as outside, and such a child of the
  Taco home directory passes the grant check.\<close>

lemma dotdot_child_outside: "\<not> isContained linked_machine ''/w'' ''/w/..cache''"
  by code_simp

lemma granted_inside_taco_home:
  "checkGrantRootSafety (linked_machine\<lparr>h_realpath := Some\<rparr>) ''/t/..x'' = GrantOk"
  by code_simp

end
