(* ===== verification/JsValue.thy ===== *)
theory JsValue
  imports TacoPrelude
begin

text \<open>
  Values that reach the program as parsed JSON: the arguments of a tool call and the policy
  documents on disk. A number is kept by its decimal text, which is all the modelled code ever
  looks at; an absent property is \<^const>\<open>None\<close>, not a value.
\<close>

datatype js =
    JNull
  | JBool bool
  | JNum string
  | JStr string
  | JArr "js list"
  | JObj "(string, js) js_map"

fun as_string :: "js \<Rightarrow> string option" where
  "as_string (JStr s) = Some s"
| "as_string _ = None"

fun as_array :: "js \<Rightarrow> js list option" where
  "as_array (JArr xs) = Some xs"
| "as_array _ = None"

fun as_object :: "js \<Rightarrow> (string, js) js_map option" where
  "as_object (JObj m) = Some m"
| "as_object _ = None"

text \<open>\<open>String(value)\<close>; an array prints its elements, with \<open>null\<close> as nothing, joined by commas.\<close>

fun js_text :: "js \<Rightarrow> string" where
  "js_text JNull = ''null''"
| "js_text (JBool b) = (if b then ''true'' else ''false'')"
| "js_text (JNum n) = n"
| "js_text (JStr s) = s"
| "js_text (JArr xs) = join '','' (map (\<lambda>x. case x of JNull \<Rightarrow> [] | _ \<Rightarrow> js_text x) xs)"
| "js_text (JObj m) = ''[object Object]''"

text \<open>The properties of a value: the entries of an object, and of an array or a string by index.
  \<open>Object.entries\<close>, the spread \<open>{...v}\<close> and the access \<open>v[k]\<close> read the same table.\<close>

fun js_entries :: "js \<Rightarrow> (string, js) js_map" where
  "js_entries (JObj m) = m"
| "js_entries (JArr xs) = zip (map nat_text [0..<length xs]) xs"
| "js_entries (JStr s) = zip (map nat_text [0..<length s]) (map (\<lambda>c. JStr [c]) s)"
| "js_entries _ = []"

definition js_prop :: "js \<Rightarrow> string \<Rightarrow> js option" where
  "js_prop v k = jm_get (js_entries v) k"

text \<open>\<open>v?.[k]\<close> on a value that may be absent.\<close>

definition opt_prop :: "js option \<Rightarrow> string \<Rightarrow> js option" where
  "opt_prop v k = (case v of None \<Rightarrow> None | Some x \<Rightarrow> js_prop x k)"

text \<open>What a condition does with a value.\<close>

fun js_truthy :: "js \<Rightarrow> bool" where
  "js_truthy JNull = False"
| "js_truthy (JBool b) = b"
| "js_truthy (JNum n) = (n \<noteq> ''0'')"
| "js_truthy (JStr s) = (s \<noteq> [])"
| "js_truthy _ = True"

fun is_object :: "js \<Rightarrow> bool" where
  "is_object (JObj m) = True"
| "is_object (JArr xs) = True"
| "is_object _ = False"

definition opt_truthy :: "js option \<Rightarrow> bool" where
  "opt_truthy v \<longleftrightarrow> (case v of None \<Rightarrow> False | Some x \<Rightarrow> js_truthy x)"

text \<open>\<open>v ?? d\<close> where \<open>d\<close> is a value.\<close>

definition opt_nullish :: "js option \<Rightarrow> js \<Rightarrow> js" where
  "opt_nullish v d = (case v of None \<Rightarrow> d | Some JNull \<Rightarrow> d | Some x \<Rightarrow> x)"

definition opt_text :: "js option \<Rightarrow> string option" where
  "opt_text v = (case v of None \<Rightarrow> None | Some x \<Rightarrow> as_string x)"

definition opt_list :: "js option \<Rightarrow> js list" where
  "opt_list v = (case v of Some (JArr xs) \<Rightarrow> xs | _ \<Rightarrow> [])"

text \<open>\<open>JSON.stringify\<close>.\<close>

definition hex_digit :: "nat \<Rightarrow> char" where
  "hex_digit n = (if n < 10 then char_of (48 + n) else char_of (87 + n))"

definition json_char :: "char \<Rightarrow> string" where
  "json_char c =
     (let n = code_unit c; back = CHR 0x5C in
      if n = 34 then [back, c] else if n = 92 then [back, c]
      else if n = 8 then [back, CHR ''b''] else if n = 12 then [back, CHR ''f'']
      else if n = 10 then [back, CHR ''n''] else if n = 13 then [back, CHR ''r'']
      else if n = 9 then [back, CHR ''t'']
      else if n < 32 then [back, CHR ''u'', CHR ''0'', CHR ''0'', hex_digit (n div 16), hex_digit (n mod 16)]
      else [c])"

definition json_string :: "string \<Rightarrow> string" where
  "json_string s = [CHR 0x22] @ concat (map json_char s) @ [CHR 0x22]"

fun json_text :: "js \<Rightarrow> string" where
  "json_text JNull = ''null''"
| "json_text (JBool b) = (if b then ''true'' else ''false'')"
| "json_text (JNum n) = n"
| "json_text (JStr s) = json_string s"
| "json_text (JArr xs) = ''['' @ join '','' (map json_text xs) @ '']''"
| "json_text (JObj m) = ''{'' @ join '','' (map (\<lambda>(k, v). json_string k @ '':'' @ json_text v) m) @ ''}''"

end
