(* ===== verification/MutGate.thy ===== *)
theory MutGate
  imports Boundary JsValue
begin

text \<open>
  The dispatch gate for tool calls: \<open>packages/sidecar/src/permissions/mutationGate.ts\<close>, with the
  table of file tools \<open>tools/fileAccess.ts\<close> and the plan mode of \<open>plan/planModeState.ts\<close> and
  \<open>plan/planPersistence.ts\<close>. The hook is one function from the options and the event to the
  result and the effects it has: the snapshots it took and the snapshot failures it reported.
  The snapshot itself and the test for known read-only tools are the caller's, parameters here.
\<close>

section \<open>Definitions\<close>

subsection \<open>Plan mode\<close>

record plan_state =
  ps_active :: bool
  ps_slug :: "string option"

definition createPlanModeState :: plan_state where
  "createPlanModeState = \<lparr>ps_active = False, ps_slug = None\<rparr>"

definition enterPlanMode :: "plan_state \<Rightarrow> string \<Rightarrow> plan_state" where
  "enterPlanMode state slug = state\<lparr>ps_active := True, ps_slug := Some slug\<rparr>"

definition exitPlanMode :: "plan_state \<Rightarrow> plan_state" where
  "exitPlanMode state = state\<lparr>ps_active := False, ps_slug := None\<rparr>"

definition isPlanModeActive :: "plan_state \<Rightarrow> bool" where
  "isPlanModeActive state = ps_active state"

definition getPlansDir :: "string \<Rightarrow> string" where
  "getPlansDir cwd = path_join [cwd, ''.taco'', ''plans'']"

definition getPlanPath :: "string \<Rightarrow> string \<Rightarrow> string" where
  "getPlanPath plansDir slug = path_join [plansDir, slug @ ''.md'']"

subsection \<open>File tools\<close>

record path_arg =
  pa_key :: string
  pa_many :: bool

record file_access =
  fa_reads :: "path_arg list option"
  fa_write :: "string option"

definition one_path :: "string \<Rightarrow> path_arg" where
  "one_path k = \<lparr>pa_key = k, pa_many = False\<rparr>"

definition BUILTIN_FILE_ACCESS :: "(string, file_access) js_map" where
  "BUILTIN_FILE_ACCESS =
     [(''read'', \<lparr>fa_reads = Some [one_path ''path''], fa_write = None\<rparr>),
      (''grep'', \<lparr>fa_reads = Some [one_path ''path''], fa_write = None\<rparr>),
      (''glob'', \<lparr>fa_reads = Some [one_path ''path''], fa_write = None\<rparr>),
      (''write'', \<lparr>fa_reads = None, fa_write = Some ''path''\<rparr>),
      (''edit'', \<lparr>fa_reads = None, fa_write = Some ''path''\<rparr>),
      (''pdfMerge'', \<lparr>fa_reads = Some [\<lparr>pa_key = ''inputs'', pa_many = True\<rparr>],
         fa_write = Some ''output''\<rparr>),
      (''pdfSplit'', \<lparr>fa_reads = Some [one_path ''input''], fa_write = Some ''outputDir''\<rparr>),
      (''pdfFill'', \<lparr>fa_reads = Some [one_path ''input''], fa_write = Some ''output''\<rparr>),
      (''pdfFields'', \<lparr>fa_reads = Some [one_path ''input''], fa_write = None\<rparr>)]"

definition FILE_ACCESS_TOOL_NAMES :: "string list" where
  "FILE_ACCESS_TOOL_NAMES = map fst BUILTIN_FILE_ACCESS"

definition fileAccessOf :: "string \<Rightarrow> file_access option" where
  "fileAccessOf toolName = jm_get BUILTIN_FILE_ACCESS toolName"

definition isFsToolDenied :: "string \<Rightarrow> bool option \<Rightarrow> bool" where
  "isFsToolDenied toolName fsToolsDenied \<longleftrightarrow>
     fsToolsDenied = Some True \<and> fileAccessOf toolName \<noteq> None"

definition write_key :: "string \<Rightarrow> string option" where
  "write_key toolName = (case fileAccessOf toolName of Some fa \<Rightarrow> fa_write fa | None \<Rightarrow> None)"

type_synonym tool_input = "(string, js) js_map"

definition named_path :: "js option \<Rightarrow> string list" where
  "named_path value =
     (case value of
        Some (JStr s) \<Rightarrow> if trim s \<noteq> [] then [s] else []
      | _ \<Rightarrow> [])"

definition arg_paths :: "tool_input \<Rightarrow> path_arg \<Rightarrow> string list" where
  "arg_paths input arg =
     (let raw = jm_get input (pa_key arg);
          values = (if pa_many arg
                    then (case raw of Some (JArr xs) \<Rightarrow> map Some xs | _ \<Rightarrow> [])
                    else [raw])
      in concat (map named_path values))"

definition readPathsOf :: "string \<Rightarrow> tool_input \<Rightarrow> string list option" where
  "readPathsOf toolName input =
     (case fileAccessOf toolName of
        None \<Rightarrow> None
      | Some fa \<Rightarrow> map_option (\<lambda>reads. concat (map (arg_paths input) reads)) (fa_reads fa))"

subsection \<open>The gate\<close>

record gate_event =
  ge_tool :: string
  ge_input :: tool_input

datatype gate_result = Pass | Block string | Raise

record read_roots =
  rr_primary :: string
  rr_associated :: "string list option"
  rr_extra :: "string list option"

record gate_options =
  go_root :: string
  go_associated :: "string list option"
  go_plan :: plan_state
  go_extraWriteRoots :: "string list option"
  go_isKnownReadOnly :: "(string \<Rightarrow> bool) option"
  go_readRoots :: "read_roots option"
  go_capture :: "(string \<Rightarrow> bool \<times> string option) option"

datatype gate_effect = Captured string | SnapshotFailed string string

definition SHELL_TOOL :: string where
  "SHELL_TOOL = ''shell''"

definition PATH_LIKE_KEYS :: "string list" where
  "PATH_LIKE_KEYS = [''path'', ''file_path'', ''filepath'', ''filename'', ''file'', ''target'']"

text \<open>The messages; the advice the source appends after a dash is left out.\<close>

definition read_refusal :: "string \<Rightarrow> string \<Rightarrow> string" where
  "read_refusal tool raw =
     tool @ '' cannot read '' @ raw
       @ '': this session has no access outside its own directory.''"

text \<open>The first path of a list that the check refuses.\<close>

fun first_refused :: "(string \<Rightarrow> boundary_result) \<Rightarrow> string list \<Rightarrow> string option" where
  "first_refused check [] = None"
| "first_refused check (raw # rest) =
     (case check raw of
        BoundaryOk _ \<Rightarrow> first_refused check rest
      | BoundaryDenied _ \<Rightarrow> Some raw)"

definition read_check :: "host \<Rightarrow> read_roots \<Rightarrow> string \<Rightarrow> boundary_result" where
  "read_check H roots raw =
     resolveWithinRootSet H (rr_primary roots)
       (or_else (rr_associated roots) [] @ or_else (rr_extra roots) [])
       (normalizeBuiltinToolPath H raw)"

definition fenceReadPath :: "host \<Rightarrow> gate_event \<Rightarrow> read_roots \<Rightarrow> gate_result" where
  "fenceReadPath H event roots =
     (case readPathsOf (ge_tool event) (ge_input event) of
        None \<Rightarrow> Pass
      | Some paths \<Rightarrow>
          (case first_refused (read_check H roots) paths of
             None \<Rightarrow> Pass
           | Some raw \<Rightarrow> Block (read_refusal (ge_tool event) raw)))"

text \<open>The loop over the extra write roots: the first that contains the target.\<close>

fun first_extra :: "host \<Rightarrow> string \<Rightarrow> string list \<Rightarrow> boundary_result \<Rightarrow> boundary_result" where
  "first_extra H absoluteTarget [] resolved = resolved"
| "first_extra H absoluteTarget (extra # rest) resolved =
     (case resolveWithinRoot H extra absoluteTarget of
        BoundaryOk p \<Rightarrow> BoundaryOk p
      | BoundaryDenied _ \<Rightarrow> first_extra H absoluteTarget rest resolved)"

definition plan_refusal :: "string \<Rightarrow> string \<Rightarrow> string \<Rightarrow> string" where
  "plan_refusal tool raw plansDir =
     ''plan mode is read-only: refused '' @ tool @ '' on '' @ raw
       @ ''. Only the plan document under '' @ plansDir
       @ '' may be written; call planExit to get approval first.''"

definition containWrite ::
  "host \<Rightarrow> gate_options \<Rightarrow> string \<Rightarrow> bool \<Rightarrow> string \<Rightarrow> string \<Rightarrow> boundary_result" where
  "containWrite H opts plansDir planActive tool raw =
     (let target = normalizeBuiltinToolPath H raw;
          resolved0 = resolveWithinRootSet H (go_root opts) (or_else (go_associated opts) []) target;
          resolved = (case resolved0 of
              BoundaryDenied _ \<Rightarrow>
                if \<not> planActive
                then first_extra H (resolve (h_cwd H) (go_root opts) target)
                  (or_else (go_extraWriteRoots opts) []) resolved0
                else resolved0
            | BoundaryOk _ \<Rightarrow> resolved0)
      in case resolved of
           BoundaryDenied reason \<Rightarrow> BoundaryDenied reason
         | BoundaryOk p \<Rightarrow>
             if planActive then
               (case resolveWithinRoot H plansDir p of
                  BoundaryDenied _ \<Rightarrow> BoundaryDenied (plan_refusal tool raw plansDir)
                | BoundaryOk _ \<Rightarrow> BoundaryOk p)
             else BoundaryOk p)"

definition plan_shell :: "host \<Rightarrow> gate_options \<Rightarrow> gate_event \<Rightarrow> gate_result" where
  "plan_shell H opts event =
     (let command = or_else (case jm_get (ge_input event) ''command'' of
              Some v \<Rightarrow> as_string v | None \<Rightarrow> None) [];
          cx = \<lparr>cx_cwd = Some (go_root opts),
                cx_allowedRoots = Some (go_root opts # or_else (go_associated opts) []),
                cx_language = None\<rparr>
      in case evaluateReadOnlyCommand H command cx of
           None \<Rightarrow> Raise
         | Some v \<Rightarrow>
             if ev_behavior v = Allow then Pass
             else Block (''plan mode is read-only: shell command refused ('' @ ev_reason v
               @ ''). Call planExit and get approval before running it.''))"

definition fence_reads :: "host \<Rightarrow> gate_options \<Rightarrow> gate_event \<Rightarrow> gate_result" where
  "fence_reads H opts event =
     (case go_readRoots opts of None \<Rightarrow> Pass | Some roots \<Rightarrow> fenceReadPath H event roots)"

definition snapshot :: "gate_options \<Rightarrow> string \<Rightarrow> gate_effect list" where
  "snapshot opts p =
     (case go_capture opts of
        None \<Rightarrow> []
      | Some capture \<Rightarrow>
          (case capture p of
             (True, _) \<Rightarrow> [Captured p]
           | (False, reason) \<Rightarrow> [Captured p, SnapshotFailed p (or_else reason ''unknown'')]))"

definition write_gate ::
  "host \<Rightarrow> gate_options \<Rightarrow> string \<Rightarrow> gate_event \<Rightarrow> gate_result \<times> gate_effect list" where
  "write_gate H opts writeKey event =
     (case jm_get (ge_input event) writeKey of
        Some (JStr raw) \<Rightarrow>
          (case containWrite H opts (getPlansDir (go_root opts)) (ps_active (go_plan opts))
               (ge_tool event) raw of
             BoundaryDenied reason \<Rightarrow> (Block reason, [])
           | BoundaryOk p \<Rightarrow>
               (case fence_reads H opts event of
                  Pass \<Rightarrow> (Pass, snapshot opts p)
                | refusal \<Rightarrow> (refusal, [])))
      | _ \<Rightarrow>
          (Block (ge_tool event @ '' requires a string '' @ [dquote] @ writeKey @ [dquote] @ '' argument''),
           []))"

definition unknown_refusal :: "gate_event \<Rightarrow> string \<Rightarrow> string \<Rightarrow> string \<Rightarrow> string" where
  "unknown_refusal event key root value =
     ge_tool event @ '' argument '' @ [dquote] @ key @ [dquote]
       @ '' is an absolute path outside the workspace root ('' @ root @ ''): '' @ value"

fun unknown_fence :: "host \<Rightarrow> gate_options \<Rightarrow> gate_event \<Rightarrow> string list \<Rightarrow> gate_result" where
  "unknown_fence H opts event [] = Pass"
| "unknown_fence H opts event (key # keys) =
     (case jm_get (ge_input event) key of
        Some (JStr value) \<Rightarrow>
          (if \<not> isAbsolute (expandHomeAndFileUrl H value) then unknown_fence H opts event keys
           else case resolveWithinRoot H (go_root opts) (expandHomeAndFileUrl H value) of
             BoundaryDenied _ \<Rightarrow> Block (unknown_refusal event key (go_root opts) value)
           | BoundaryOk _ \<Rightarrow> unknown_fence H opts event keys)
      | _ \<Rightarrow> unknown_fence H opts event keys)"

definition mutationGate :: "host \<Rightarrow> gate_options \<Rightarrow> gate_event \<Rightarrow> gate_result \<times> gate_effect list" where
  "mutationGate H opts event =
     (if ge_tool event = SHELL_TOOL then
        (if \<not> ps_active (go_plan opts) then (Pass, []) else (plan_shell H opts event, []))
      else case truthy (write_key (ge_tool event)) of
        Some writeKey \<Rightarrow> write_gate H opts writeKey event
      | None \<Rightarrow>
          (case fence_reads H opts event of
             Pass \<Rightarrow>
               if (case go_isKnownReadOnly opts of Some f \<Rightarrow> f (ge_tool event) | None \<Rightarrow> False)
               then (Pass, [])
               else (unknown_fence H opts event PATH_LIKE_KEYS, [])
           | refusal \<Rightarrow> (refusal, [])))"

section \<open>Fences\<close>

text \<open>What the gate relies on from a containment check: an accepted argument names a path that
  is inside, and a blank argument is never accepted.\<close>

locale path_fence =
  fixes check :: "string \<Rightarrow> boundary_result" and inside :: "string \<Rightarrow> string \<Rightarrow> bool"
  assumes check_inside: "check raw = BoundaryOk p \<Longrightarrow> inside raw p"
begin

lemma all_inside:
  "first_refused check paths = None \<Longrightarrow> raw \<in> set paths \<Longrightarrow> \<exists>p. check raw = BoundaryOk p \<and> inside raw p"
  by (induction paths) (auto split: boundary_result.splits intro: check_inside)

lemma some_refused:
  "first_refused check paths = Some raw \<Longrightarrow> raw \<in> set paths \<and> (\<forall>p. check raw \<noteq> BoundaryOk p)"
  by (induction paths) (auto split: boundary_result.splits)

end

text \<open>The canonical form of \<open>p\<close> lies inside the canonical form of one of the roots.\<close>

definition inside_some :: "host \<Rightarrow> string list \<Rightarrow> string \<Rightarrow> bool" where
  "inside_some H roots p \<longleftrightarrow>
     (\<exists>root \<in> set roots. below (segs_at (h_cwd H) (realpathThroughExistingAncestor H root))
       (segs_at (h_cwd H) (realpathThroughExistingAncestor H p)))"

definition fence_roots :: "read_roots \<Rightarrow> string list" where
  "fence_roots roots = rr_primary roots # or_else (rr_associated roots) [] @ or_else (rr_extra roots) []"

interpretation reads: path_fence "read_check H roots"
  "\<lambda>raw p. p = resolve (h_cwd H) (rr_primary roots) (normalizeBuiltinToolPath H raw) \<and>
     inside_some H (fence_roots roots) p"
  by unfold_locales
    (auto simp: read_check_def resolveWithinRootSet_ok inside_some_def fence_roots_def list_ex_iff)

interpretation root: path_fence "resolveWithinRoot H rt"
  "\<lambda>raw p. p = resolve (h_cwd H) rt raw \<and> inside_some H [rt] p"
  by unfold_locales (auto simp: resolveWithinRoot_ok inside_some_def)

lemma resolve_resolve: "resolve cwd extra (resolve cwd base raw) = resolve cwd base raw"
  unfolding resolve_def[of cwd extra "resolve cwd base raw"] if_P[OF isAbsolute_resolve]
  by (rule resolve_abs_path[symmetric])

lemma first_extra_ok:
  "first_extra H a extras r = BoundaryOk p \<Longrightarrow> r = BoundaryOk p \<or>
   (\<exists>extra \<in> set extras. resolveWithinRoot H extra a = BoundaryOk p)"
  by (induction extras) (auto split: boundary_result.splits)

lemma containWrite_ok:
  assumes "containWrite H opts plansDir planActive tool raw = BoundaryOk p"
  shows "p = resolve (h_cwd H) (go_root opts) (normalizeBuiltinToolPath H raw)"
    and "planActive \<Longrightarrow> inside_some H (go_root opts # or_else (go_associated opts) []) p \<and>
      inside_some H [plansDir] p"
    and "\<not> planActive \<Longrightarrow> inside_some H (go_root opts # or_else (go_associated opts) []
      @ or_else (go_extraWriteRoots opts) []) p"
proof -
  let ?t = "normalizeBuiltinToolPath H raw" and ?as = "or_else (go_associated opts) []"
  let ?a = "resolve (h_cwd H) (go_root opts) ?t"
  consider (base) "resolveWithinRootSet H (go_root opts) ?as ?t = BoundaryOk p"
      "planActive \<Longrightarrow> \<exists>q. resolveWithinRoot H plansDir p = BoundaryOk q"
    | (extra) extra where "\<not> planActive" "extra \<in> set (or_else (go_extraWriteRoots opts) [])"
      "resolveWithinRoot H extra ?a = BoundaryOk p"
    using assms unfolding containWrite_def Let_def
    by (auto split: boundary_result.splits if_splits dest!: first_extra_ok)
  note cases = this
  have base_inside: "inside_some H (go_root opts # ?as) p \<and> p = ?a"
    if "resolveWithinRootSet H (go_root opts) ?as ?t = BoundaryOk p"
    using that by (auto simp: resolveWithinRootSet_ok inside_some_def list_ex_iff)
  have extra_inside: "inside_some H [extra] p \<and> p = ?a"
    if "resolveWithinRoot H extra ?a = BoundaryOk p" for extra
    using root.check_inside[OF that] unfolding resolve_resolve by blast
  show "p = ?a" using cases base_inside extra_inside by cases auto
  show "planActive \<Longrightarrow> inside_some H (go_root opts # ?as) p \<and> inside_some H [plansDir] p"
  proof -
    assume pl: "planActive"
    from cases show ?thesis
    proof cases
      case base
      then obtain q where q: "resolveWithinRoot H plansDir p = BoundaryOk q" using pl by blast
      have "q = p" using root.check_inside[OF q] base_inside[OF base(1)] resolve_resolve by metis
      then show ?thesis using root.check_inside[OF q] base_inside[OF base(1)] by blast
    qed (use pl in simp)
  qed
  show "\<not> planActive \<Longrightarrow> inside_some H (go_root opts # ?as @ or_else (go_extraWriteRoots opts) []) p"
    using cases base_inside extra_inside by cases (auto simp: inside_some_def)
qed

lemma write_gate_pass:
  assumes "write_gate H opts key event = (Pass, eff)"
  obtains raw p where "jm_get (ge_input event) key = Some (JStr raw)"
    and "containWrite H opts (getPlansDir (go_root opts)) (ps_active (go_plan opts)) (ge_tool event) raw = BoundaryOk p"
    and "fence_reads H opts event = Pass" and "eff = snapshot opts p"
  using assms unfolding write_gate_def
  by (auto split: option.splits js.splits boundary_result.splits gate_result.splits)

lemma mutationGate_write:
  "ge_tool event \<noteq> SHELL_TOOL \<Longrightarrow> truthy (write_key (ge_tool event)) = Some key \<Longrightarrow>
   mutationGate H opts event = write_gate H opts key event"
  by (simp add: mutationGate_def)

lemma fence_reads_pass:
  assumes "fence_reads H opts event = Pass" and "go_readRoots opts = Some roots"
    and "readPathsOf (ge_tool event) (ge_input event) = Some paths" and "raw \<in> set paths"
  shows "inside_some H (fence_roots roots)
    (resolve (h_cwd H) (rr_primary roots) (normalizeBuiltinToolPath H raw))"
  using assms reads.all_inside[of H roots paths raw]
  by (auto simp: fence_reads_def fenceReadPath_def split: option.splits)

lemma unknown_fence_pass:
  "unknown_fence H opts event keys = Pass \<Longrightarrow> key \<in> set keys \<Longrightarrow>
   jm_get (ge_input event) key = Some (JStr value) \<Longrightarrow> isAbsolute (expandHomeAndFileUrl H value) \<Longrightarrow>
   inside_some H [go_root opts] (resolve (h_cwd H) (go_root opts) (expandHomeAndFileUrl H value))"
  by (induction keys)
    (auto split: boundary_result.splits option.splits js.splits if_splits dest!: root.check_inside)

lemma plan_shell_result: "plan_shell H opts event \<noteq> Raise"
  using evaluateParsed_total[of H READ_ONLY_CONFIG _ True MAX_NESTING]
  unfolding plan_shell_def Let_def evaluateReadOnlyCommand_def
  by (auto split: option.splits if_splits)

lemma unknown_fence_result: "unknown_fence H opts event keys \<noteq> Raise"
  by (induction H opts event keys rule: unknown_fence.induct)
    (auto split: boundary_result.splits option.splits js.splits)

lemma fence_reads_result: "fence_reads H opts event \<noteq> Raise"
  by (auto simp: fence_reads_def fenceReadPath_def split: option.splits)

section \<open>Properties\<close>

lemma mutationGate_cases:
  assumes "mutationGate H opts event = (res, eff)"
  shows "(ge_tool event = SHELL_TOOL \<and> eff = []) \<or>
    (\<exists>key. ge_tool event \<noteq> SHELL_TOOL \<and> truthy (write_key (ge_tool event)) = Some key \<and>
       write_gate H opts key event = (res, eff)) \<or>
    (ge_tool event \<noteq> SHELL_TOOL \<and> eff = [])"
  using assms unfolding mutationGate_def by (auto split: option.splits gate_result.splits if_splits)

lemma write_gate_not_pass:
  "write_gate H opts key event = (res, eff) \<Longrightarrow> res \<noteq> Pass \<Longrightarrow> eff = [] \<and> res \<noteq> Raise"
  using fence_reads_result[of H opts event] unfolding write_gate_def
  by (auto split: option.splits js.splits boundary_result.splits gate_result.splits)

text \<open>C3: a write that the gate lets through outside plan mode goes to a file whose canonical
  path is inside the workspace root, an associated directory or an extra write root; the only
  snapshot taken is of that file.\<close>

theorem passed_write_contained:
  assumes "mutationGate H opts event = (Pass, eff)" and "ge_tool event \<noteq> SHELL_TOOL"
    and "truthy (write_key (ge_tool event)) = Some key" and "\<not> ps_active (go_plan opts)"
  shows "\<exists>raw p. jm_get (ge_input event) key = Some (JStr raw) \<and>
    p = resolve (h_cwd H) (go_root opts) (normalizeBuiltinToolPath H raw) \<and>
    inside_some H (go_root opts # or_else (go_associated opts) [] @ or_else (go_extraWriteRoots opts) []) p \<and>
    eff = snapshot opts p"
proof -
  have "write_gate H opts key event = (Pass, eff)"
    using assms(1) mutationGate_write[OF assms(2,3)] by simp
  then obtain raw p where r: "jm_get (ge_input event) key = Some (JStr raw)"
    "containWrite H opts (getPlansDir (go_root opts)) (ps_active (go_plan opts)) (ge_tool event) raw = BoundaryOk p"
    "eff = snapshot opts p" by (rule write_gate_pass)
  show ?thesis
    using r(1,3) containWrite_ok(1)[OF r(2)] containWrite_ok(3)[OF r(2) assms(4)] by blast
qed

definition write_event :: "string \<Rightarrow> gate_event" where
  "write_event p = \<lparr>ge_tool = ''write'', ge_input = [(''path'', JStr p)]\<rparr>"

definition demo_options :: "bool \<Rightarrow> gate_options" where
  "demo_options plan = \<lparr>go_root = ''/w'', go_associated = None,
     go_plan = (if plan then enterPlanMode createPlanModeState ''p'' else createPlanModeState),
     go_extraWriteRoots = None, go_isKnownReadOnly = None,
     go_readRoots = Some \<lparr>rr_primary = ''/w'', rr_associated = None, rr_extra = None\<rparr>,
     go_capture = Some (\<lambda>_. (True, None))\<rparr>"

theorem passed_write_contained_witness:
  "\<exists>p. inside_some linked_machine [''/w''] p \<and> [Captured ''/w/a.txt''] = snapshot (demo_options False) p"
proof -
  have g: "mutationGate linked_machine (demo_options False) (write_event ''a.txt'') = (Pass, [Captured ''/w/a.txt''])"
    by code_simp
  have k: "ge_tool (write_event ''a.txt'') \<noteq> SHELL_TOOL"
    "truthy (write_key (ge_tool (write_event ''a.txt''))) = Some ''path''"
    "\<not> ps_active (go_plan (demo_options False))" by code_simp+
  have o: "go_root (demo_options False) # or_else (go_associated (demo_options False)) []
      @ or_else (go_extraWriteRoots (demo_options False)) [] = [''/w'']" by (simp add: demo_options_def)
  show ?thesis using passed_write_contained[OF g k] unfolding o by blast
qed

text \<open>C6: in plan mode a built-in write is let through only into the plans directory of the
  workspace, by its canonical path, and inside the workspace or an associated directory; the
  extra write roots do not count.\<close>

theorem plan_mode_writes_plans_only:
  assumes "mutationGate H opts event = (Pass, eff)" and "ge_tool event \<noteq> SHELL_TOOL"
    and "truthy (write_key (ge_tool event)) = Some key" and "ps_active (go_plan opts)"
  shows "\<exists>raw p. jm_get (ge_input event) key = Some (JStr raw) \<and>
    p = resolve (h_cwd H) (go_root opts) (normalizeBuiltinToolPath H raw) \<and>
    inside_some H [getPlansDir (go_root opts)] p \<and>
    inside_some H (go_root opts # or_else (go_associated opts) []) p"
proof -
  have "write_gate H opts key event = (Pass, eff)"
    using assms(1) mutationGate_write[OF assms(2,3)] by simp
  then obtain raw p where r: "jm_get (ge_input event) key = Some (JStr raw)"
    "containWrite H opts (getPlansDir (go_root opts)) (ps_active (go_plan opts)) (ge_tool event) raw = BoundaryOk p"
    by (rule write_gate_pass)
  show ?thesis
    using r(1) containWrite_ok(1)[OF r(2)] containWrite_ok(2)[OF r(2) assms(4)] by blast
qed

theorem plan_mode_writes_plans_only_witness:
  "\<exists>p. inside_some linked_machine [getPlansDir ''/w''] p"
proof -
  have g: "mutationGate linked_machine (demo_options True) (write_event ''.taco/plans/p.md'') =
      (Pass, [Captured ''/w/.taco/plans/p.md''])" by code_simp
  have k: "ge_tool (write_event ''.taco/plans/p.md'') \<noteq> SHELL_TOOL"
    "truthy (write_key (ge_tool (write_event ''.taco/plans/p.md''))) = Some ''path''"
    "ps_active (go_plan (demo_options True))" by code_simp+
  have o: "go_root (demo_options True) = ''/w''" by (simp add: demo_options_def)
  show ?thesis using plan_mode_writes_plans_only[OF g k] unfolding o by blast
qed

text \<open>C8: when reads are fenced, a call that passes names only paths inside the session's own
  directory, its associated directories and the extra readable ones; this covers the inputs of
  tools that also write.\<close>

theorem fenced_reads_contained:
  assumes "mutationGate H opts event = (Pass, eff)" and "ge_tool event \<noteq> SHELL_TOOL"
    and "go_readRoots opts = Some roots"
    and "readPathsOf (ge_tool event) (ge_input event) = Some paths" and "raw \<in> set paths"
  shows "inside_some H (rr_primary roots # or_else (rr_associated roots) [] @ or_else (rr_extra roots) [])
    (resolve (h_cwd H) (rr_primary roots) (normalizeBuiltinToolPath H raw))"
proof -
  have "fence_reads H opts event = Pass"
  proof (cases "truthy (write_key (ge_tool event))")
    case None
    then show ?thesis
      using assms(1,2) unfolding mutationGate_def by (auto split: gate_result.splits)
  next
    case (Some key)
    then have "write_gate H opts key event = (Pass, eff)"
      using assms(1) mutationGate_write[OF assms(2) Some] by simp
    then show ?thesis by (rule write_gate_pass)
  qed
  then show ?thesis using fence_reads_pass[OF _ assms(3,4,5)] by (simp add: fence_roots_def)
qed

theorem fenced_reads_contained_witness:
  "inside_some linked_machine [''/w''] (resolve ''/w'' ''/w'' (normalizeBuiltinToolPath linked_machine ''@b''))"
proof -
  let ?e = "\<lparr>ge_tool = ''read'', ge_input = [(''path'', JStr ''@b'')]\<rparr>"
  have g: "mutationGate linked_machine (demo_options False) ?e = (Pass, [])" by code_simp
  have k: "ge_tool ?e \<noteq> SHELL_TOOL" "readPathsOf (ge_tool ?e) (ge_input ?e) = Some [''@b'']" by code_simp+
  have r: "go_readRoots (demo_options False) = Some \<lparr>rr_primary = ''/w'', rr_associated = None, rr_extra = None\<rparr>"
    by (simp add: demo_options_def)
  show ?thesis using fenced_reads_contained[OF g k(1) r k(2), of "''@b''"] by (simp add: linked_machine_def)
qed

text \<open>A call the gate refuses leaves no snapshot behind and never fails with an error.\<close>

theorem refused_call_has_no_effect:
  assumes "mutationGate H opts event = (res, eff)" and "res \<noteq> Pass"
  shows "eff = [] \<and> (\<exists>reason. res = Block reason)"
proof -
  have "res \<noteq> Raise"
    using assms write_gate_not_pass plan_shell_result unknown_fence_result fence_reads_result[of H opts event]
    unfolding mutationGate_def by (auto split: option.splits gate_result.splits if_splits)
  moreover have "eff = []" using mutationGate_cases[OF assms(1)] write_gate_not_pass assms(2) by blast
  ultimately show ?thesis using assms(2) by (cases res) auto
qed

theorem refused_call_has_no_effect_witness:
  "\<exists>reason. mutationGate linked_machine (demo_options False) (write_event ''link/x'') = (Block reason, [])"
proof -
  have "fst (mutationGate linked_machine (demo_options False) (write_event ''link/x'')) \<noteq> Pass" by code_simp
  then show ?thesis
    using refused_call_has_no_effect[of linked_machine "demo_options False" "write_event ''link/x''"]
    by (metis prod.collapse)
qed

text \<open>An unknown tool (an MCP server's or an extension's) gets no absolute path outside the
  workspace root through the path-like arguments, also not spelled \<open>~\<close> or \<open>file://\<close>.\<close>

theorem unknown_tool_paths_contained:
  assumes "mutationGate H opts event = (Pass, eff)" and "ge_tool event \<noteq> SHELL_TOOL"
    and "fileAccessOf (ge_tool event) = None"
    and "\<not> (case go_isKnownReadOnly opts of Some f \<Rightarrow> f (ge_tool event) | None \<Rightarrow> False)"
    and "key \<in> set PATH_LIKE_KEYS" and "jm_get (ge_input event) key = Some (JStr value)"
    and "isAbsolute (expandHomeAndFileUrl H value)"
  shows "inside_some H [go_root opts] (resolve (h_cwd H) (go_root opts) (expandHomeAndFileUrl H value))"
proof -
  have "truthy (write_key (ge_tool event)) = None" using assms(3) by (simp add: write_key_def)
  then have "unknown_fence H opts event PATH_LIKE_KEYS = Pass"
    using assms(1,2,4) unfolding mutationGate_def by (auto split: gate_result.splits)
  then show ?thesis using unknown_fence_pass assms(5-7) by blast
qed

theorem unknown_tool_paths_contained_witness:
  "inside_some linked_machine [''/w''] (resolve ''/w'' ''/w'' (expandHomeAndFileUrl linked_machine ''/w/q''))"
proof -
  let ?e = "\<lparr>ge_tool = ''mcp_save'', ge_input = [(''file'', JStr ''/w/q'')]\<rparr>"
  have g: "mutationGate linked_machine (demo_options False) ?e = (Pass, [])" by code_simp
  have k: "ge_tool ?e \<noteq> SHELL_TOOL" "fileAccessOf (ge_tool ?e) = None"
    "\<not> (case go_isKnownReadOnly (demo_options False) of Some f \<Rightarrow> f (ge_tool ?e) | None \<Rightarrow> False)"
    "''file'' \<in> set PATH_LIKE_KEYS" "jm_get (ge_input ?e) ''file'' = Some (JStr ''/w/q'')"
    "isAbsolute (expandHomeAndFileUrl linked_machine ''/w/q'')"
    by (code_simp, code_simp, simp add: demo_options_def, code_simp, code_simp, code_simp)
  show ?thesis using unknown_tool_paths_contained[OF g k] by (simp add: linked_machine_def demo_options_def)
qed

text \<open>In plan mode a shell command passes only when the read-only evaluation allows it, with
  the workspace and its associated directories as the roots for directory changes; outside plan
  mode the gate leaves shell commands to the permission broker.\<close>

theorem plan_mode_shell_read_only:
  assumes "mutationGate H opts event = (Pass, eff)" and "ge_tool event = SHELL_TOOL"
    and "ps_active (go_plan opts)"
  shows "\<exists>command v. command = or_else (case jm_get (ge_input event) ''command'' of
        Some x \<Rightarrow> as_string x | None \<Rightarrow> None) [] \<and>
    evaluateReadOnlyCommand H command \<lparr>cx_cwd = Some (go_root opts),
        cx_allowedRoots = Some (go_root opts # or_else (go_associated opts) []), cx_language = None\<rparr> = Some v \<and>
    ev_behavior v = Allow \<and> ev_risk v = ReadOnly \<and> eff = []"
proof -
  let ?cx = "\<lparr>cx_cwd = Some (go_root opts),
        cx_allowedRoots = Some (go_root opts # or_else (go_associated opts) []), cx_language = None\<rparr>"
  let ?c = "or_else (case jm_get (ge_input event) ''command'' of Some x \<Rightarrow> as_string x | None \<Rightarrow> None) []"
  have ps: "plan_shell H opts event = Pass" and "eff = []"
    using assms by (simp_all add: mutationGate_def)
  then obtain v where v: "evaluateReadOnlyCommand H ?c ?cx = Some v" "ev_behavior v = Allow"
    unfolding plan_shell_def Let_def by (auto split: option.splits if_splits)
  then have "ev_risk v = ReadOnly"
    using readonly.I_evaluateParsed by (auto simp: evaluateReadOnlyCommand_def read_only_verdict_def)
  with v \<open>eff = []\<close> show ?thesis by blast
qed

theorem plan_mode_shell_read_only_witness:
  "\<exists>v. evaluateReadOnlyCommand linked_machine ''wc a'' \<lparr>cx_cwd = Some ''/w'',
        cx_allowedRoots = Some [''/w''], cx_language = None\<rparr> = Some v \<and> ev_risk v = ReadOnly"
proof -
  let ?e = "\<lparr>ge_tool = ''shell'', ge_input = [(''command'', JStr ''wc a'')]\<rparr>"
  have g: "mutationGate linked_machine (demo_options True) ?e = (Pass, [])" by code_simp
  have k: "ge_tool ?e = SHELL_TOOL" "ps_active (go_plan (demo_options True))" by code_simp+
  have c: "or_else (case jm_get (ge_input ?e) ''command'' of Some x \<Rightarrow> as_string x | None \<Rightarrow> None) [] = ''wc a''"
    by code_simp
  have o: "go_root (demo_options True) = ''/w''" "or_else (go_associated (demo_options True)) [] = []"
    by (simp_all add: demo_options_def)
  show ?thesis using plan_mode_shell_read_only[OF g k] unfolding c o by blast
qed

end
