(* ===== verification/SessionApproval.thy ===== *)
theory SessionApproval
  imports CommandPolicy
begin

text \<open>
  Why storing an approval works. The broker stores the command text as an allow rule when the
  user approves it for the session, unless the verdict came from a deny list or was marked as
  not storable (\<open>permissionBroker.ts\<close>, \<open>resolve\<close>). Exactly those marks, and a refusal, do not
  depend on the allow rules, so a command without them is allowed once its text is a rule.
\<close>

section \<open>Marks that allow rules cannot remove\<close>

lemma aggregate_decides:
  assumes agg: "aggregate vs = Some r" and g: "\<And>v. v \<in> set vs \<Longrightarrow> guarded v"
  shows "inner_decides r \<longleftrightarrow> list_ex inner_decides vs"
proof
  assume "inner_decides r"
  then show "list_ex inner_decides vs"
    using aggregate_spec(3,4)[OF agg] unfolding inner_decides_def list_ex_iff by metis
next
  assume "list_ex inner_decides vs"
  then obtain v where v: "v \<in> set vs" "inner_decides v" by (auto simp: list_ex_iff)
  have le: "ev_behavior v \<le> ev_behavior r" using aggregate_ge(1)[OF agg v(1)] .
  consider "ev_behavior v = Deny" | "ev_matchedList v = Some DenyList" | "ev_persistent v = Some False"
    using v(2) by (auto simp: inner_decides_def)
  then show "inner_decides r"
  proof cases
    case 1
    then show ?thesis using le by (simp add: inner_decides_def)
  next
    case 2
    then have "ev_behavior v \<noteq> Allow" using g[OF v(1)] by (auto simp: guarded_def)
    then have "ev_behavior r = ev_behavior v \<or> ev_behavior r = Deny"
      using le by (cases "ev_behavior v"; cases "ev_behavior r") (auto simp: less_eq_behavior_def)
    then show ?thesis
      using aggregate_spec(5)[OF agg v(1) 2] by (auto simp: inner_decides_def)
  next
    case 3
    then show ?thesis using aggregate_spec(3)[OF agg] v(1) by (auto simp: inner_decides_def)
  qed
qed

text \<open>Two environments that differ at most in the allow rules, the mode and the evaluation of
  inner commands, where the latter put the same marks.\<close>

definition same_but_allow :: "env \<Rightarrow> env \<Rightarrow> bool" where
  "same_but_allow E F \<longleftrightarrow>
     en_host F = en_host E \<and> \<not> en_readOnly E \<and> \<not> en_readOnly F \<and> en_language F = en_language E \<and>
     en_roots F = en_roots E \<and> en_denyRules F = en_denyRules E \<and> en_wholeDeny F = en_wholeDeny E \<and>
     (case en_inner E of
        None \<Rightarrow> en_inner F = None
      | Some f \<Rightarrow> (\<exists>g. en_inner F = Some g \<and>
          (\<forall>c v w. f c = Some v \<longrightarrow> g c = Some w \<longrightarrow> inner_decides w = inner_decides v)))"

lemma refuse_Ask: "\<not> en_readOnly E \<Longrightarrow> refuse E = Ask"
  by (simp add: refuse_def)

lemma once_only_decides [simp]: "inner_decides (once_only E n risk r)"
  by (simp add: inner_decides_def once_only_def)

lemma runner_exact_decides: "\<not> en_readOnly E \<Longrightarrow> \<not> inner_decides (runner_exact E n risk)"
  unfolding runner_exact_def by (auto simp: inner_decides_def verdict_defs split: option.splits)

lemma runner_value_decides:
  assumes "same_but_allow E F" and "runner_value E n risk = Some v" and "runner_value F n risk = Some w"
  shows "inner_decides w = inner_decides v"
proof -
  let ?x = "nestedExecution (pn_argv n)"
  have ro: "\<not> en_readOnly E" "\<not> en_readOnly F" using assms(1) by (simp_all add: same_but_allow_def)
  note re = runner_exact_decides[OF ro(1)] runner_exact_decides[OF ro(2)]
  show ?thesis
  proof (cases "ne_complete ?x = Some False")
    case True
    then show ?thesis using assms(2,3) by (auto simp: runner_value_def Let_def)
  next
    case nc: False
    show ?thesis
    proof (cases "en_inner E")
      case None
      then have "en_inner F = None" using assms(1) by (simp add: same_but_allow_def)
      then show ?thesis using None nc assms(2,3) by (auto simp: runner_value_def Let_def)
    next
      case (Some f)
      then obtain g where g: "en_inner F = Some g"
        "\<forall>c v w. f c = Some v \<longrightarrow> g c = Some w \<longrightarrow> inner_decides w = inner_decides v"
        using assms(1) by (auto simp: same_but_allow_def)
      show ?thesis
      proof (cases "truthy (ne_command ?x)")
        case None
        then show ?thesis using Some g(1) nc assms(2,3) re by (auto simp: runner_value_def Let_def)
      next
        case (Some c)
        then obtain v0 w0 where vw: "f c = Some v0" "g c = Some w0"
          using \<open>en_inner E = Some f\<close> g(1) nc assms(2,3)
          by (auto simp: runner_value_def Let_def split: option.splits)
        have upd: "inner_decides (x\<lparr>ev_trigger := t\<rparr>) = inner_decides x" for x t
          by (simp add: inner_decides_def)
        have "v = (if inner_decides v0 then v0\<lparr>ev_trigger := Some (pn_text n)\<rparr> else runner_exact E n risk)"
          "w = (if inner_decides w0 then w0\<lparr>ev_trigger := Some (pn_text n)\<rparr> else runner_exact F n risk)"
          using vw Some \<open>en_inner E = Some f\<close> g(1) nc assms(2,3)
          by (simp_all add: runner_value_def Let_def)
        then show ?thesis using vw g(2) re upd by auto
      qed
    qed
  qed
qed

lemma plain_decides:
  "\<not> en_readOnly E \<Longrightarrow>
   list_ex inner_decides (plain_values E n risk) \<longleftrightarrow> denied_rule E n = None \<and> RISK_FLOOR (rv_risk risk)"
  unfolding plain_values_def Let_def
  by (auto simp: inner_decides_def verdict_defs split: option.splits)

lemma same_fields:
  assumes "same_but_allow E F"
  shows "en_host F = en_host E" "en_readOnly F = en_readOnly E" "en_roots F = en_roots E"
    "en_denyRules F = en_denyRules E" "en_wholeDeny F = en_wholeDeny E"
  using assms by (simp_all add: same_but_allow_def)

lemma same_deny:
  assumes "same_but_allow E F"
  shows "denied_rule F n = denied_rule E n" and "deny_values F n risk = deny_values E n risk"
  unfolding denied_rule_def deny_values_def same_fields[OF assms] by (rule refl)+

lemma same_cd:
  assumes "same_but_allow E F"
  shows "cd_value F n nxt risk st = cd_value E n nxt risk st"
  unfolding cd_value_def cd_destinations_def once_only_def refuse_def same_fields[OF assms] by (rule refl)

lemma node_values_decides:
  assumes "same_but_allow E F"
    and "node_values E n nxt st = Some (vs, st1)" and "node_values F n nxt st = Some (ws, st2)"
  shows "st2 = st1 \<and> list_ex inner_decides ws = list_ex inner_decides vs"
proof -
  have ro: "\<not> en_readOnly E" "\<not> en_readOnly F" and
    risk: "env_risk F n = env_risk E n"
    using assms(1) by (simp_all add: same_but_allow_def)
  note same = same_deny[OF assms(1)] same_cd[OF assms(1)]
  show ?thesis
  proof (cases "rv_risk (env_risk E n) = PrivilegeEscape")
    case True
    then show ?thesis using assms(2,3) risk unfolding node_values_def Let_def by (auto simp: inner_decides_def)
  next
    case np: False
    show ?thesis
    proof (cases "runner_node n (env_risk E n)")
      case True
      then obtain v w where "runner_value E n (env_risk E n) = Some v" "runner_value F n (env_risk E n) = Some w"
        "vs = deny_values E n (env_risk E n) @ [v]" "ws = deny_values E n (env_risk E n) @ [w]"
        "st1 = st" "st2 = st"
        using assms(2,3) np risk same unfolding node_values_def Let_def by auto
      then show ?thesis using runner_value_decides[OF assms(1)] by simp
    next
      case nr: False
      show ?thesis
        using assms(2,3) np nr risk same plain_decides[OF ro(1)] plain_decides[OF ro(2)]
        unfolding node_values_def Let_def
        by (cases "opaque_shell n"; cases "pn_kind n = KCd")
          (auto simp: unsupported_def split: prod.splits)
    qed
  qed
qed

lemma nodes_values_decides:
  "same_but_allow E F \<Longrightarrow> nodes_values E ns st = Some vs \<Longrightarrow> nodes_values F ns st = Some ws \<Longrightarrow>
   list_ex inner_decides ws = list_ex inner_decides vs"
proof (induction ns arbitrary: st vs ws)
  case (Cons n ns)
  obtain v1 s1 v2 where v: "node_values E n (at ns 0) st = Some (v1, s1)"
    "nodes_values E ns s1 = Some v2" "vs = v1 @ v2"
    using Cons.prems(2) by (auto split: option.splits prod.splits)
  obtain w1 s2 w2 where w: "node_values F n (at ns 0) st = Some (w1, s2)"
    "nodes_values F ns s2 = Some w2" "ws = w1 @ w2"
    using Cons.prems(3) by (auto split: option.splits prod.splits)
  show ?case
    using node_values_decides[OF Cons.prems(1) v(1) w(1)] Cons.IH[OF Cons.prems(1) v(2)] w v(3) by auto
qed simp

lemma nodes_values_elem_sub:
  "nodes_values E ns st = Some vs \<Longrightarrow> v \<in> set vs \<Longrightarrow>
   \<exists>n nxt st1 vs1 st2. n \<in> set ns \<and> node_values E n nxt st1 = Some (vs1, st2) \<and> v \<in> set vs1 \<and> set vs1 \<subseteq> set vs"
proof (induction ns arbitrary: st vs)
  case (Cons m ns)
  obtain v1 s1 v2 where v: "node_values E m (at ns 0) st = Some (v1, s1)"
    "nodes_values E ns s1 = Some v2" "vs = v1 @ v2"
    using Cons.prems(1) by (auto split: option.splits prod.splits)
  show ?case
  proof (cases "v \<in> set v1")
    case True
    then show ?thesis using v by (intro exI[of _ m] exI[of _ "at ns 0"] exI[of _ st] exI[of _ v1] exI[of _ s1]) auto
  next
    case False
    then have "v \<in> set v2" using Cons.prems(2) v(3) by simp
    from Cons.IH[OF v(2) this] show ?thesis using v(3) by fastforce
  qed
qed simp

lemma evaluate_with_guarded_values:
  assumes "nodes_values (env_of H config cx ro n command) ns st = Some vs"
    and "v \<in> set (vs @ unparsed_value ro p)"
  shows "guarded v"
proof (cases "v \<in> set vs")
  case True
  then obtain nd nxt st1 vs1 st2 where
    "node_values (env_of H config cx ro n command) nd nxt st1 = Some (vs1, st2)" "v \<in> set vs1"
    using nodes_values_elem[OF assms(1)] by blast
  then show ?thesis using guarded_node inner_guarded by (metis make_env_simps(5))
qed (use assms(2) guard.I_unparsed in auto)

lemma evaluateParsed_decides:
  assumes "cf_deny config' = cf_deny config" and "cf_allowedDirectories config' = cf_allowedDirectories config"
  shows "evaluateParsed H config cx False n command = Some r \<Longrightarrow>
    evaluateParsed H config' cx False n command = Some r' \<Longrightarrow> inner_decides r' = inner_decides r"
proof (induction n arbitrary: command r r' rule: less_induct)
  case (less n)
  let ?E = "env_of H config cx False n command" and ?F = "env_of H config' cx False n command"
  let ?P = "parse_of H cx command"
  define st :: cwd_state where "st = \<lparr>cs_cwds = [or_else (cx_cwd cx) (h_cwd H)], cs_cd = None\<rparr>"
  obtain vs where vs: "nodes_values ?E (pc_nodes ?P) st = Some vs"
    and ra: "aggregate (vs @ unparsed_value False ?P) = Some r"
    using less.prems(1) unfolding evaluateParsed_eq evaluate_with_def Let_def st_def
    by (auto split: option.splits)
  obtain ws where ws: "nodes_values ?F (pc_nodes ?P) st = Some ws"
    and ra': "aggregate (ws @ unparsed_value False ?P) = Some r'"
    using less.prems(2) unfolding evaluateParsed_eq evaluate_with_def Let_def st_def
    by (auto split: option.splits)
  have "same_but_allow ?E ?F"
  proof (cases n)
    case 0
    then show ?thesis using assms by (simp add: same_but_allow_def inner_of_def make_env_def Let_def)
  next
    case (Suc m)
    then have "\<forall>c v w. evaluateParsed H config cx False m c = Some v \<longrightarrow>
        evaluateParsed H config' cx False m c = Some w \<longrightarrow> inner_decides w = inner_decides v"
      using less.IH[of m] by blast
    then show ?thesis
      using Suc assms by (simp add: same_but_allow_def inner_of_def make_env_def Let_def)
  qed
  then have "list_ex inner_decides ws = list_ex inner_decides vs"
    using nodes_values_decides vs ws by blast
  then show ?case
    using aggregate_decides[OF ra evaluate_with_guarded_values[OF vs]]
      aggregate_decides[OF ra' evaluate_with_guarded_values[OF ws]] by simp
qed

section \<open>A stored approval is honoured\<close>

lemma exactCommandRule_found:
  assumes "command \<in> set rules" and "[] \<notin> set rules"
  shows "truthy (coalesce (exactCommandRule c rules) (exactCommandRule command rules)) \<noteq> None"
proof -
  have in_rules: "exactCommandRule c rules = Some r \<Longrightarrow> r \<in> set rules" for c r
    by (auto simp: exactCommandRule_def find_Some_iff)
  have "exactCommandRule command rules \<noteq> None"
    using assms(1) unfolding exactCommandRule_def find_None_iff by blast
  then obtain r where r: "coalesce (exactCommandRule c rules) (exactCommandRule command rules) = Some r"
    by (cases "exactCommandRule c rules") auto
  then have "r \<in> set rules"
    by (cases "exactCommandRule c rules") (auto dest: in_rules)
  then have "r \<noteq> []" using assms(2) by blast
  then show ?thesis unfolding r truthy_def nonempty_def by simp
qed

lemma matchingRule_found:
  assumes "command \<in> set rules" and "[] \<notin> set rules"
  shows "truthy (coalesce (matchingRule c rules w) (exactCommandRule command rules)) \<noteq> None"
proof -
  have "exactCommandRule command rules \<noteq> None"
    using assms(1) unfolding exactCommandRule_def find_None_iff by blast
  then obtain r where r: "coalesce (matchingRule c rules w) (exactCommandRule command rules) = Some r"
    by (cases "matchingRule c rules w") auto
  then have "r \<in> set rules"
    by (cases "matchingRule c rules w")
      (auto simp: exactCommandRule_def matchingRule_def Let_def find_Some_iff split: if_splits)
  then have "r \<noteq> []" using assms(2) by blast
  then show ?thesis unfolding r truthy_def nonempty_def by simp
qed

lemma node_values_approved:
  assumes nv: "node_values E n nxt st = Some (vs, st')" and ro: "\<not> en_readOnly E"
    and rule: "truthy (coalesce (exactCommandRule (pn_text n) (en_allowRules E)) (en_wholeAllow E)) \<noteq> None"
      "truthy (coalesce (matchingRule (canonical n) (en_allowRules E) False) (en_wholeAllow E)) \<noteq> None"
    and nd: "\<not> list_ex inner_decides vs" and v: "v \<in> set vs"
  shows "ev_behavior v = Allow"
proof -
  have np: "rv_risk (env_risk E n) \<noteq> PrivilegeEscape"
    using node_values_parts[OF nv] nd by (auto simp: inner_decides_def result_def split: if_splits)
  then obtain ms where vs: "vs = deny_values E n (env_risk E n) @ ms" and ms: "main_verdicts E n nxt st ms"
    using node_values_parts[OF nv] by auto
  have "\<not> list_ex inner_decides (deny_values E n (env_risk E n))" using nd vs by simp
  then have dr: "denied_rule E n = None" and dv: "deny_values E n (env_risk E n) = []"
    using ro unfolding deny_values_def by (auto simp: inner_decides_def split: option.splits)
  have exact: "ev_behavior (runner_exact E n risk) = Allow" for risk
    using rule(1) by (auto simp: runner_exact_def verdict_defs split: option.splits)
  have cd: "ev_behavior (fst (cd_value E n nxt risk s)) = Allow"
    if "\<not> inner_decides (fst (cd_value E n nxt risk s))" for risk s
    using that unfolding cd_value_def Let_def by (auto simp: result_def split: if_splits)
  have plain: "ev_behavior w = Allow" if "\<not> RISK_FLOOR (rv_risk risk)" "w \<in> set (plain_values E n risk)" for risk w
    using that ro dr rule(2) unfolding plain_values_def Let_def
    by (auto simp: verdict_defs split: option.splits)
  have runner: "ev_behavior w = Allow"
    if "runner_value E n (env_risk E n) = Some w" "\<not> inner_decides w" for w
    using that(1)
  proof (cases rule: runner_value_cases)
    case (once r)
    then show ?thesis using that(2) by simp
  next
    case (inner f c w0)
    then show ?thesis using that(2) by (simp add: inner_decides_def)
  qed (simp add: exact)
  have ndm: "\<not> list_ex inner_decides ms" and vm: "v \<in> set ms" using nd v vs dv by auto
  show ?thesis
    using ms ndm vm runner cd plain plain_decides[OF ro, of n "env_risk E n"] dr
    unfolding main_verdicts_def Let_def
    by (auto simp: unsupported_def split: if_splits)
qed

lemma stored_approval_honoured_lemma:
  assumes "evaluateCommand H command config cx = Some r" and "ev_behavior r = Ask"
    and "ev_matchedList r \<noteq> Some DenyList" and "ev_persistent r \<noteq> Some False"
    and "command \<in> set rules" and "[] \<notin> set rules"
  shows "\<exists>r'. evaluateCommand H command (config\<lparr>cf_allow := Some rules\<rparr>) cx = Some r' \<and>
    ev_behavior r' = Allow"
proof -
  let ?c = "config\<lparr>cf_allow := Some rules\<rparr>" and ?P = "parse_of H cx command"
  have fm: "first_match PRIVILEGE_ESCAPE command = None"
    using assms(1,2) by (auto simp: evaluateCommand_def split: option.splits)
  then have ev: "evaluateParsed H config cx False MAX_NESTING command = Some r"
    using assms(1) by (simp add: evaluateCommand_def)
  obtain r' where ev': "evaluateParsed H ?c cx False MAX_NESTING command = Some r'"
    using evaluateParsed_total by blast
  have nd: "\<not> inner_decides r'"
    using evaluateParsed_decides[OF _ _ ev ev'] assms(2-4) by (simp add: inner_decides_def)
  obtain vs st where vs: "nodes_values (env_of H ?c cx False MAX_NESTING command) (pc_nodes ?P) st = Some vs"
    and agg: "aggregate (vs @ unparsed_value False ?P) = Some r'"
    using evaluateParsed_values[OF ev'] by blast
  have nl: "\<not> list_ex inner_decides (vs @ unparsed_value False ?P)"
    using nd aggregate_decides[OF agg] evaluate_with_guarded_values[OF vs] by blast
  have "ev_behavior v = Allow" if "v \<in> set (vs @ unparsed_value False ?P)" for v
  proof -
    have "v \<in> set vs" using that nl by (auto simp: unparsed_value_def inner_decides_def split: if_splits)
    then obtain n nxt st1 vs1 st2 where n: "n \<in> set (pc_nodes ?P)"
      "node_values (env_of H ?c cx False MAX_NESTING command) n nxt st1 = Some (vs1, st2)" "v \<in> set vs1"
      and sub: "set vs1 \<subseteq> set vs"
      using nodes_values_elem_sub[OF vs] by blast
    have "\<not> list_ex inner_decides vs1" using nl sub by (auto simp: list_ex_iff)
    then show ?thesis
      using node_values_approved[OF n(2) _ _ _ _ n(3)] exactCommandRule_found[OF assms(5,6)]
        matchingRule_found[OF assms(5,6)] by simp
  qed
  then have "ev_behavior r' = Allow" using aggregate_spec(4)[OF agg] by metis
  then show ?thesis using ev' fm by (simp add: evaluateCommand_def)
qed

text \<open>The machine of the example: the simple parser, and a file system in which every path is an
  existing directory.\<close>

definition flat_machine :: host where
  "flat_machine = \<lparr>h_shell = simple_host, h_cwd = ''/w'', h_realpath = Some,
     h_isdir = (\<lambda>_. Some True), h_homedir = ''/home/u'', h_envTacoHome = None,
     h_fileURLToPath = (\<lambda>_. None)\<rparr>"

definition manual_config :: permission_config where
  "manual_config = \<lparr>cf_mode = ModeAsk, cf_allow = None, cf_deny = None, cf_rules = None,
     cf_allowedDirectories = None\<rparr>"

definition bare_context :: eval_context where
  "bare_context = \<lparr>cx_cwd = None, cx_allowedRoots = None, cx_language = None\<rparr>"

text \<open>Approving a command for the session is effective. If a command is asked about and the
  verdict neither comes from a deny list nor is marked as not storable, which is when the broker
  stores its text as a rule, then with that rule the same command in the same context is
  allowed.\<close>

theorem stored_approval_honoured:
  assumes "evaluateCommand H command config cx = Some r" and "ev_behavior r = Ask"
    and "ev_matchedList r \<noteq> Some DenyList" and "ev_persistent r \<noteq> Some False"
    and "command \<in> set rules" and "[] \<notin> set rules"
  shows "\<exists>r'. evaluateCommand H command (config\<lparr>cf_allow := Some rules\<rparr>) cx = Some r' \<and>
    ev_behavior r' = Allow"
  using stored_approval_honoured_lemma[OF assms] .

theorem stored_approval_honoured_witness:
  "\<exists>r'. evaluateCommand flat_machine ''npm test'' (manual_config\<lparr>cf_allow := Some [''npm test'']\<rparr>) bare_context = Some r' \<and>
     ev_behavior r' = Allow"
proof -
  have "map_option (\<lambda>r. (ev_behavior r, ev_matchedList r, ev_persistent r))
      (evaluateCommand flat_machine ''npm test'' manual_config bare_context) = Some (Ask, None, None)"
    by code_simp
  then obtain r where r: "evaluateCommand flat_machine ''npm test'' manual_config bare_context = Some r"
    "ev_behavior r = Ask" "ev_matchedList r \<noteq> Some DenyList" "ev_persistent r \<noteq> Some False"
    by (auto simp: map_option_eq_Some)
  show ?thesis by (rule stored_approval_honoured[OF r]) simp_all
qed

end
