(* ===== verification/Broker.thy ===== *)
theory Broker
  imports SessionApproval
begin

text \<open>
  The permission broker: \<open>packages/sidecar/src/permissions/permissionBroker.ts\<close>. It evaluates a
  command, answers at once when the verdict is not a question or when nobody can answer it, and
  otherwise parks the request until the user, the time-out or an abort settles it. Its state is
  the session rules, the pending requests, the armed timers and abort listeners of the parked
  requests, and the events it emitted.

  The two asynchronous operations run to their first suspension in one step: the display
  context that the resolver returns is an argument, and so are the values of the option thunks
  and the identifier \<open>randomUUID\<close> draws. Settling a request is a later step. Every parked request arms a
  timer, and a listener when its caller gave an abort signal. A timer that goes off and a signal
  that aborts settle the request their closure holds and look at nothing else: that they come
  too late for a settled request rests on \<open>finish\<close>, which clears the timer and removes the
  listener. \<open>broker_step\<close> is the relation of all these steps, with the assumption that a drawn
  identifier is new.
\<close>

section \<open>Definitions\<close>

datatype scope = Once | Session | Global

datatype denial = UserDenied | Timeout | Aborted | NoApprover | ImChannel

datatype request_kind = CommandRequest | ConfigRequest

record perm_request =
  rq_id :: string
  rq_session :: string
  rq_toolCall :: string
  rq_command :: string
  rq_evaluation :: eval
  rq_kind :: request_kind
  rq_fields :: "string list"
  rq_displaySession :: string
  rq_displayToolCall :: "string option"

record decision =
  dc_approved :: bool
  dc_scope :: scope
  dc_evaluation :: eval
  dc_denial :: "denial option"

record broker_options =
  bo_readOnly :: bool
  bo_refuseApprovals :: bool
  bo_hasApprover :: bool
  bo_imPolicy :: "im_command_policy option"
  bo_context :: "(string option \<times> string list option) option"

record request_args =
  ra_session :: string
  ra_toolCall :: string
  ra_command :: string
  ra_cwd :: "string option"
  ra_language :: "shell_language option"
  ra_signal :: bool

text \<open>What the resolver of display contexts returned, if there is one and it did not fail.\<close>

type_synonym display = "(string \<times> string option) option"

datatype broker_event = Requested perm_request | Resolved perm_request decision

record broker =
  b_rules :: "(string, permission_rule list) js_map"
  b_pending :: "(string, perm_request) js_map"
  b_timers :: "perm_request list"
  b_listeners :: "perm_request list"
  b_events :: "broker_event list"

definition new_broker :: broker where
  "new_broker = \<lparr>b_rules = [], b_pending = [], b_timers = [], b_listeners = [], b_events = []\<rparr>"

datatype outcome = Decided decision | Parked | Threw

definition unanswerableReason :: "broker_options \<Rightarrow> denial option" where
  "unanswerableReason opts =
     (if bo_refuseApprovals opts then Some ImChannel
      else if \<not> bo_hasApprover opts then Some NoApprover else None)"

definition display_session :: "display \<Rightarrow> string \<Rightarrow> string" where
  "display_session display session = (case display of Some (s, _) \<Rightarrow> s | None \<Rightarrow> session)"

definition display_tool_call :: "display \<Rightarrow> string option" where
  "display_tool_call display = (case display of Some (_, t) \<Rightarrow> t | None \<Rightarrow> None)"

text \<open>The closures of the armed timers and of the abort listeners are the requests they settle;
  \<open>signalled\<close>: the caller gave an abort signal.\<close>

definition awaitDecision :: "bool \<Rightarrow> perm_request \<Rightarrow> broker \<Rightarrow> broker" where
  "awaitDecision signalled request st =
     st\<lparr>b_pending := jm_set (b_pending st) (rq_id request) request,
        b_timers := b_timers st @ [request],
        b_listeners := b_listeners st @ (if signalled then [request] else []),
        b_events := b_events st @ [Requested request]\<rparr>"

definition once :: "bool \<Rightarrow> eval \<Rightarrow> denial option \<Rightarrow> decision" where
  "once approved evaluation reason =
     \<lparr>dc_approved = approved, dc_scope = Once, dc_evaluation = evaluation, dc_denial = reason\<rparr>"

definition inherited_rules :: "broker \<Rightarrow> string \<Rightarrow> string \<Rightarrow> permission_rule list" where
  "inherited_rules st session displaySession =
     or_else (jm_get (b_rules st) session) []
       @ (if displaySession \<noteq> session then or_else (jm_get (b_rules st) displaySession) [] else [])"

definition base_config ::
  "broker_options \<Rightarrow> permission_config \<Rightarrow> permission_rule list \<Rightarrow> permission_config" where
  "base_config opts config rules =
     config\<lparr>cf_allow := Some (if bo_readOnly opts then []
       else or_else (coalesce (cf_allow config) (cf_rules config)) [] @ rules)\<rparr>"

definition request_context :: "broker_options \<Rightarrow> request_args \<Rightarrow> eval_context" where
  "request_context opts args =
     \<lparr>cx_cwd = coalesce (truthy (ra_cwd args)) (case bo_context opts of Some (c, _) \<Rightarrow> c | None \<Rightarrow> None),
      cx_allowedRoots = (case bo_context opts of Some (_, r) \<Rightarrow> r | None \<Rightarrow> None),
      cx_language = ra_language args\<rparr>"

definition broker_evaluate ::
  "host \<Rightarrow> broker_options \<Rightarrow> permission_config \<Rightarrow> request_args \<Rightarrow> permission_rule list \<Rightarrow> eval option" where
  "broker_evaluate H opts config args rules =
     (let cx = request_context opts args; base = base_config opts config rules in
      if bo_readOnly opts then evaluateReadOnlyCommand H (ra_command args) cx
      else case bo_imPolicy opts of
        Some policy \<Rightarrow> evaluateCommandForImWorkspace H (ra_command args) base policy cx
      | None \<Rightarrow> evaluateCommand H (ra_command args) base cx)"

definition evaluateAndRequest ::
  "host \<Rightarrow> broker_options \<Rightarrow> permission_config \<Rightarrow> display \<Rightarrow> string \<Rightarrow> request_args \<Rightarrow> broker \<Rightarrow>
   outcome \<times> broker" where
  "evaluateAndRequest H opts config display uuid args st =
     (let ds = display_session display (ra_session args) in
      case broker_evaluate H opts config args (inherited_rules st (ra_session args) ds) of
        None \<Rightarrow> (Threw, st)
      | Some evaluation \<Rightarrow>
          if bo_readOnly opts then (Decided (once (ev_behavior evaluation = Allow) evaluation None), st)
          else if ev_behavior evaluation \<noteq> Ask
          then (Decided (once (ev_behavior evaluation = Allow) evaluation None), st)
          else case unanswerableReason opts of
            Some reason \<Rightarrow> (Decided (once False evaluation (Some reason)), st)
          | None \<Rightarrow>
              (Parked, awaitDecision (ra_signal args)
                \<lparr>rq_id = uuid, rq_session = ra_session args, rq_toolCall = ra_toolCall args,
                 rq_command = ra_command args, rq_evaluation = evaluation,
                 rq_kind = CommandRequest, rq_fields = [], rq_displaySession = ds,
                 rq_displayToolCall = display_tool_call display\<rparr> st))"

definition config_evaluation :: eval where
  "config_evaluation =
     \<lparr>ev_behavior = Ask, ev_risk = WorkspaceWrite,
      ev_reason = ''changes the global taco configuration'', ev_source = None,
      ev_matchedList = None, ev_matchedRule = None, ev_trigger = None, ev_persistent = Some False\<rparr>"

definition requestConfigApproval ::
  "broker_options \<Rightarrow> display \<Rightarrow> string \<Rightarrow> string \<Rightarrow> string \<Rightarrow> string list \<Rightarrow> bool \<Rightarrow> broker \<Rightarrow> outcome \<times> broker" where
  "requestConfigApproval opts display uuid session toolCall flds signalled st =
     (case unanswerableReason opts of
        Some reason \<Rightarrow> (Decided (once False config_evaluation (Some reason)), st)
      | None \<Rightarrow>
          (Parked, awaitDecision signalled
            \<lparr>rq_id = uuid, rq_session = session, rq_toolCall = toolCall,
             rq_command = ''config: '' @ join '', '' flds, rq_evaluation = config_evaluation,
             rq_kind = ConfigRequest, rq_fields = flds,
             rq_displaySession = display_session display session,
             rq_displayToolCall = display_tool_call display\<rparr> st))"

text \<open>\<open>finish\<close>: the one way a request is settled. It clears the request's timer, takes the request
  from the map and removes its listener.\<close>

definition disarm :: "perm_request \<Rightarrow> perm_request list \<Rightarrow> perm_request list" where
  "disarm request rs = filter (\<lambda>r. rq_id r \<noteq> rq_id request) rs"

definition finish :: "perm_request \<Rightarrow> decision \<Rightarrow> broker \<Rightarrow> broker" where
  "finish request decision st =
     st\<lparr>b_timers := disarm request (b_timers st),
        b_pending := jm_delete (b_pending st) (rq_id request),
        b_listeners := disarm request (b_listeners st),
        b_events := b_events st @ [Resolved request decision]\<rparr>"

definition settled_scope :: "perm_request \<Rightarrow> bool \<Rightarrow> scope \<Rightarrow> scope" where
  "settled_scope request approved scope =
     (if approved \<and> (ev_matchedList (rq_evaluation request) = Some DenyList \<or>
                     ev_persistent (rq_evaluation request) = Some False)
      then Once else scope)"

definition store_rule :: "perm_request \<Rightarrow> broker \<Rightarrow> broker" where
  "store_rule request st =
     st\<lparr>b_rules := jm_set (b_rules st) (rq_displaySession request)
       (or_else (jm_get (b_rules st) (rq_displaySession request)) [] @ [rq_command request])\<rparr>"

definition broker_resolve :: "string \<Rightarrow> bool \<Rightarrow> scope \<Rightarrow> broker \<Rightarrow> decision option \<times> broker" where
  "broker_resolve requestId approved scope0 st =
     (case jm_get (b_pending st) requestId of
        None \<Rightarrow> (None, st)
      | Some request \<Rightarrow>
          let scope = settled_scope request approved scope0;
              decision = \<lparr>dc_approved = approved, dc_scope = scope,
                dc_evaluation = rq_evaluation request,
                dc_denial = (if approved then None else Some UserDenied)\<rparr>;
              st1 = (if approved \<and> scope = Session \<and> ev_matchedList (rq_evaluation request) \<noteq> Some DenyList
                     then store_rule request st else st)
          in (Some decision, finish request decision st1))"

text \<open>The timer of a request goes off, or its abort signal fires: the closure settles the request
  it holds, whatever the map of pending requests says. A timer goes off once, and the listener
  is registered for one call.\<close>

definition armed :: "string \<Rightarrow> perm_request list \<Rightarrow> perm_request option" where
  "armed requestId rs = List.find (\<lambda>r. rq_id r = requestId) rs"

definition request_timer_fires :: "string \<Rightarrow> broker \<Rightarrow> broker" where
  "request_timer_fires requestId st =
     (case armed requestId (b_timers st) of
        None \<Rightarrow> st
      | Some request \<Rightarrow> finish request (once False (rq_evaluation request) (Some Timeout))
          (st\<lparr>b_timers := disarm request (b_timers st)\<rparr>))"

definition signal_aborts :: "string \<Rightarrow> broker \<Rightarrow> broker" where
  "signal_aborts requestId st =
     (case armed requestId (b_listeners st) of
        None \<Rightarrow> st
      | Some request \<Rightarrow> finish request (once False (rq_evaluation request) (Some Aborted))
          (st\<lparr>b_listeners := disarm request (b_listeners st)\<rparr>))"

definition rejectAsAborted :: "string \<Rightarrow> broker \<Rightarrow> broker" where
  "rejectAsAborted requestId st =
     (case jm_get (b_pending st) requestId of
        None \<Rightarrow> st
      | Some request \<Rightarrow> finish request (once False (rq_evaluation request) (Some Aborted)) st)"

definition getRequest :: "string \<Rightarrow> broker \<Rightarrow> perm_request option" where
  "getRequest requestId st = jm_get (b_pending st) requestId"

definition reject_session :: "string \<Rightarrow> string \<Rightarrow> broker \<Rightarrow> broker" where
  "reject_session sessionId requestId st =
     (if map_option rq_session (jm_get (b_pending st) requestId) = Some sessionId
      then rejectAsAborted requestId st else st)"

definition cleanupSession :: "string \<Rightarrow> broker \<Rightarrow> broker" where
  "cleanupSession sessionId st =
     foldl (\<lambda>s requestId. reject_session sessionId requestId s)
       (st\<lparr>b_rules := jm_delete (b_rules st) sessionId\<rparr>) (map fst (b_pending st))"

definition cleanupAll :: "broker \<Rightarrow> broker" where
  "cleanupAll st = foldl (\<lambda>s requestId. rejectAsAborted requestId s) st (map fst (b_pending st))"

text \<open>The identifiers drawn so far.\<close>

definition used_ids :: "broker \<Rightarrow> string set" where
  "used_ids st = {rq_id rq | rq. Requested rq \<in> set (b_events st)}"

inductive broker_step :: "host \<Rightarrow> broker_options \<Rightarrow> broker \<Rightarrow> broker \<Rightarrow> bool"
  for H :: host and opts :: broker_options where
  ask: "uuid \<notin> used_ids st \<Longrightarrow>
    broker_step H opts st (snd (evaluateAndRequest H (opts\<lparr>bo_hasApprover := ha\<rparr>) config display uuid args st))"
| config: "uuid \<notin> used_ids st \<Longrightarrow>
    broker_step H opts st (snd (requestConfigApproval (opts\<lparr>bo_hasApprover := ha\<rparr>) display uuid session toolCall flds signalled st))"
| answer: "broker_step H opts st (snd (broker_resolve requestId approved scope st))"
| timeout: "broker_step H opts st (request_timer_fires requestId st)"
| abort: "broker_step H opts st (signal_aborts requestId st)"
| cleanup_session: "broker_step H opts st (cleanupSession sessionId st)"
| cleanup_all: "broker_step H opts st (cleanupAll st)"

inductive_cases broker_stepE: "broker_step H opts st st'"

section \<open>The invariant\<close>

fun resolved_ids :: "broker_event list \<Rightarrow> string list" where
  "resolved_ids [] = []"
| "resolved_ids (Requested _ # es) = resolved_ids es"
| "resolved_ids (Resolved rq _ # es) = rq_id rq # resolved_ids es"

lemma resolved_ids_append [simp]: "resolved_ids (xs @ ys) = resolved_ids xs @ resolved_ids ys"
  by (induction xs rule: resolved_ids.induct) auto

lemma set_resolved_ids: "set (resolved_ids es) = {rq_id rq | rq d. Resolved rq d \<in> set es}"
  by (induction es rule: resolved_ids.induct) auto

text \<open>A verdict that the broker may store as a rule.\<close>

definition storable :: "eval \<Rightarrow> bool" where
  "storable v \<longleftrightarrow> ev_behavior v = Ask \<and> ev_matchedList v \<noteq> Some DenyList \<and> ev_persistent v \<noteq> Some False"

definition requests_inv :: "broker \<Rightarrow> bool" where
  "requests_inv st \<longleftrightarrow>
     jm_wf (b_pending st) \<and>
     (\<forall>rid rq. jm_get (b_pending st) rid = Some rq \<longrightarrow>
        rq_id rq = rid \<and> Requested rq \<in> set (b_events st) \<and> rid \<notin> set (resolved_ids (b_events st))) \<and>
     distinct (resolved_ids (b_events st)) \<and>
     (\<forall>rq d. Resolved rq d \<in> set (b_events st) \<longrightarrow> Requested rq \<in> set (b_events st)) \<and>
     (\<forall>rq. Requested rq \<in> set (b_events st) \<longrightarrow>
        ev_behavior (rq_evaluation rq) = Ask \<and>
        (rq_kind rq = ConfigRequest \<longrightarrow> ev_persistent (rq_evaluation rq) = Some False))"

definition approved_rule :: "broker \<Rightarrow> string \<Rightarrow> permission_rule \<Rightarrow> bool" where
  "approved_rule st s r \<longleftrightarrow>
     (\<exists>rq d. Resolved rq d \<in> set (b_events st) \<and> dc_approved d \<and> dc_scope d = Session \<and>
        rq_command rq = r \<and> rq_displaySession rq = s \<and> storable (rq_evaluation rq) \<and>
        rq_kind rq = CommandRequest)"

definition rules_inv :: "broker \<Rightarrow> bool" where
  "rules_inv st \<longleftrightarrow>
     (\<forall>s rules r. jm_get (b_rules st) s = Some rules \<longrightarrow> r \<in> set rules \<longrightarrow> approved_rule st s r)"

text \<open>An armed timer or listener belongs to a pending request, and every pending request has its
  timer.\<close>

definition armed_inv :: "broker \<Rightarrow> bool" where
  "armed_inv st \<longleftrightarrow>
     (\<forall>rq. rq \<in> set (b_timers st) \<or> rq \<in> set (b_listeners st) \<longrightarrow>
        jm_get (b_pending st) (rq_id rq) = Some rq) \<and>
     (\<forall>rid rq. jm_get (b_pending st) rid = Some rq \<longrightarrow> rq \<in> set (b_timers st))"

definition broker_inv :: "broker \<Rightarrow> bool" where
  "broker_inv st \<longleftrightarrow> requests_inv st \<and> rules_inv st \<and> armed_inv st"

lemma approved_rule_mono:
  "approved_rule st s r \<Longrightarrow> set (b_events st) \<subseteq> set (b_events st') \<Longrightarrow> approved_rule st' s r"
  unfolding approved_rule_def by blast

lemma rules_inv_mono:
  "rules_inv st \<Longrightarrow> b_rules st' = b_rules st \<Longrightarrow> set (b_events st) \<subseteq> set (b_events st') \<Longrightarrow> rules_inv st'"
  unfolding rules_inv_def by (auto intro: approved_rule_mono)

lemma requests_inv_pending:
  "requests_inv st \<Longrightarrow> jm_get (b_pending st) rid = Some rq \<Longrightarrow>
     rq_id rq = rid \<and> Requested rq \<in> set (b_events st) \<and> rid \<notin> set (resolved_ids (b_events st))"
  unfolding requests_inv_def by blast

lemma requests_inv_events:
  "requests_inv st \<Longrightarrow> Resolved rq d \<in> set (b_events st) \<Longrightarrow> Requested rq \<in> set (b_events st)"
  "requests_inv st \<Longrightarrow> Requested rq \<in> set (b_events st) \<Longrightarrow> ev_behavior (rq_evaluation rq) = Ask \<and>
        (rq_kind rq = ConfigRequest \<longrightarrow> ev_persistent (rq_evaluation rq) = Some False)"
  unfolding requests_inv_def by blast+

lemma requests_inv_wf:
  "requests_inv st \<Longrightarrow> jm_wf (b_pending st)" "requests_inv st \<Longrightarrow> distinct (resolved_ids (b_events st))"
  unfolding requests_inv_def by blast+

lemma awaitDecision_inv:
  assumes "broker_inv st" and "rq_id rq \<notin> used_ids st" and "ev_behavior (rq_evaluation rq) = Ask"
    and "rq_kind rq = ConfigRequest \<longrightarrow> ev_persistent (rq_evaluation rq) = Some False"
  shows "broker_inv (awaitDecision signalled rq st)"
proof -
  have ri: "requests_inv st" and ru: "rules_inv st" and ar: "armed_inv st"
    using assms(1) by (simp_all add: broker_inv_def)
  have "rq_id rq \<notin> set (resolved_ids (b_events st))"
    using ri assms(2) unfolding requests_inv_def used_ids_def set_resolved_ids by blast
  then have "requests_inv (awaitDecision signalled rq st)"
    using ri assms(3,4) by (auto simp: requests_inv_def awaitDecision_def)
  moreover have "rules_inv (awaitDecision signalled rq st)"
    by (rule rules_inv_mono[OF ru]) (auto simp: awaitDecision_def)
  moreover have "jm_get (b_pending st) (rq_id rq) = None"
    using assms(2) requests_inv_pending[OF ri] by (cases "jm_get (b_pending st) (rq_id rq)") (fastforce simp: used_ids_def)+
  then have "armed_inv (awaitDecision signalled rq st)"
    using ar by (auto simp: armed_inv_def awaitDecision_def)
  ultimately show ?thesis by (simp add: broker_inv_def)
qed

lemma finish_requests:
  assumes "requests_inv st" and "jm_get (b_pending st) (rq_id rq) = Some rq"
  shows "requests_inv (finish rq d st)"
proof -
  let ?t = "finish rq d st"
  have ev: "b_events ?t = b_events st @ [Resolved rq d]"
    and pe: "b_pending ?t = jm_delete (b_pending st) (rq_id rq)" by (simp_all add: finish_def)
  have new: "rq_id rq \<notin> set (resolved_ids (b_events st))" "Requested rq \<in> set (b_events st)"
    using requests_inv_pending[OF assms] by simp_all
  have wf: "jm_wf (b_pending ?t)" using requests_inv_wf(1)[OF assms(1)] pe by auto
  have pend: "rq_id q = rid \<and> Requested q \<in> set (b_events ?t) \<and> rid \<notin> set (resolved_ids (b_events ?t))"
    if "jm_get (b_pending ?t) rid = Some q" for rid q
  proof -
    have "rid \<noteq> rq_id rq" "jm_get (b_pending st) rid = Some q" using that pe by (auto split: if_splits)
    then show ?thesis using requests_inv_pending[OF assms(1)] ev by simp
  qed
  have dist: "distinct (resolved_ids (b_events ?t))" using requests_inv_wf(2)[OF assms(1)] new(1) ev by simp
  have res: "Requested q \<in> set (b_events ?t)" if "Resolved q e \<in> set (b_events ?t)" for q e
    using that requests_inv_events(1)[OF assms(1)] new(2) ev by auto
  have req: "ev_behavior (rq_evaluation q) = Ask \<and>
      (rq_kind q = ConfigRequest \<longrightarrow> ev_persistent (rq_evaluation q) = Some False)"
    if "Requested q \<in> set (b_events ?t)" for q
    using that requests_inv_events(2)[OF assms(1)] ev by simp
  show ?thesis
    unfolding requests_inv_def using wf pend dist res req by blast
qed

lemma set_disarm [simp]: "set (disarm rq rs) = {r \<in> set rs. rq_id r \<noteq> rq_id rq}"
  by (simp add: disarm_def)

lemma disarm_disarm [simp]: "disarm rq (disarm rq rs) = disarm rq rs"
  by (simp add: disarm_def)

lemma armed_SomeD: "armed rid rs = Some rq \<Longrightarrow> rq \<in> set rs \<and> rq_id rq = rid"
  by (auto simp: armed_def find_Some_iff)

lemma finish_armed: "requests_inv st \<Longrightarrow> armed_inv st \<Longrightarrow> armed_inv (finish rq d st)"
  by (auto simp: armed_inv_def finish_def dest: requests_inv_pending)

lemma broker_finish_inv:
  assumes "broker_inv st" and "jm_get (b_pending st) (rq_id rq) = Some rq"
  shows "broker_inv (finish rq d st)"
proof -
  have ru: "rules_inv st" using assms(1) by (simp add: broker_inv_def)
  have "rules_inv (finish rq d st)"
    by (rule rules_inv_mono[OF ru]) (auto simp: finish_def)
  then show ?thesis using assms finish_requests finish_armed by (simp add: broker_inv_def)
qed

text \<open>A timer or a signal that goes off does so for a pending request, since only those are
  armed.\<close>

lemma timer_fires_cases:
  assumes "armed_inv st"
  obtains "request_timer_fires rid st = st"
  | rq d where "jm_get (b_pending st) (rq_id rq) = Some rq" and "request_timer_fires rid st = finish rq d st"
proof (cases "armed rid (b_timers st)")
  case None
  then show thesis using that(1) by (simp add: request_timer_fires_def)
next
  case (Some rq)
  then have "jm_get (b_pending st) (rq_id rq) = Some rq" using assms armed_SomeD by (auto simp: armed_inv_def)
  moreover have "request_timer_fires rid st = finish rq (once False (rq_evaluation rq) (Some Timeout)) st"
    using Some by (simp add: request_timer_fires_def finish_def)
  ultimately show thesis by (rule that(2))
qed

lemma signal_aborts_cases:
  assumes "armed_inv st"
  obtains "signal_aborts rid st = st"
  | rq d where "jm_get (b_pending st) (rq_id rq) = Some rq" and "signal_aborts rid st = finish rq d st"
proof (cases "armed rid (b_listeners st)")
  case None
  then show thesis using that(1) by (simp add: signal_aborts_def)
next
  case (Some rq)
  then have "jm_get (b_pending st) (rq_id rq) = Some rq" using assms armed_SomeD by (auto simp: armed_inv_def)
  moreover have "signal_aborts rid st = finish rq (once False (rq_evaluation rq) (Some Aborted)) st"
    using Some by (simp add: signal_aborts_def finish_def)
  ultimately show thesis by (rule that(2))
qed

lemma broker_inv_armed: "broker_inv st \<Longrightarrow> armed_inv st"
  by (simp add: broker_inv_def)

lemma timer_fires_inv: "broker_inv st \<Longrightarrow> broker_inv (request_timer_fires rid st)"
  by (rule timer_fires_cases[OF broker_inv_armed, of st rid]) (simp_all add: broker_finish_inv)

lemma signal_aborts_inv: "broker_inv st \<Longrightarrow> broker_inv (signal_aborts rid st)"
  by (rule signal_aborts_cases[OF broker_inv_armed, of st rid]) (simp_all add: broker_finish_inv)

lemma rejectAsAborted_inv: "broker_inv st \<Longrightarrow> broker_inv (rejectAsAborted rid st)"
  using requests_inv_pending broker_finish_inv
  by (fastforce simp: rejectAsAborted_def broker_inv_def split: option.splits)

lemma broker_resolve_inv:
  assumes "broker_inv st" shows "broker_inv (snd (broker_resolve rid approved sc st))"
proof (cases "jm_get (b_pending st) rid")
  case None
  then show ?thesis using assms by (simp add: broker_resolve_def)
next
  case (Some rq)
  have ri: "requests_inv st" and ru: "rules_inv st" and ar: "armed_inv st"
    using assms by (simp_all add: broker_inv_def)
  have rid: "rq_id rq = rid" and ask: "ev_behavior (rq_evaluation rq) = Ask" and
    cfg: "rq_kind rq = ConfigRequest \<longrightarrow> ev_persistent (rq_evaluation rq) = Some False"
    using requests_inv_pending[OF ri Some] requests_inv_events(2)[OF ri] by blast+
  let ?sc = "settled_scope rq approved sc"
  let ?d = "\<lparr>dc_approved = approved, dc_scope = ?sc, dc_evaluation = rq_evaluation rq,
    dc_denial = (if approved then None else Some UserDenied)\<rparr>"
  show ?thesis
  proof (cases "approved \<and> ?sc = Session \<and> ev_matchedList (rq_evaluation rq) \<noteq> Some DenyList")
    case False
    have "snd (broker_resolve rid approved sc st) = finish rq ?d st"
      using Some unfolding broker_resolve_def Let_def by (simp only: option.case if_not_P[OF False] if_False snd_conv)
    then show ?thesis using broker_finish_inv[OF assms] Some rid by simp
  next
    case True
    then have st: "storable (rq_evaluation rq)"
      using ask by (auto simp: storable_def settled_scope_def split: if_splits)
    then have kind: "rq_kind rq = CommandRequest"
      using cfg by (cases "rq_kind rq") (auto simp: storable_def)
    have eq: "snd (broker_resolve rid approved sc st) = finish rq ?d (store_rule rq st)"
      using Some unfolding broker_resolve_def Let_def by (simp only: option.case if_P[OF True] if_True snd_conv)
    have "requests_inv (store_rule rq st)" using ri by (simp add: requests_inv_def store_rule_def)
    then have "requests_inv (finish rq ?d (store_rule rq st))"
      using Some rid by (intro finish_requests) (simp_all add: store_rule_def)
    moreover have "armed_inv (store_rule rq st)" using ar by (simp add: armed_inv_def store_rule_def)
    then have "armed_inv (finish rq ?d (store_rule rq st))"
      using \<open>requests_inv (store_rule rq st)\<close> by (rule finish_armed[rotated])
    moreover have "approved_rule (finish rq ?d (store_rule rq st)) s r"
      if "approved_rule st s r" for s r
      using that by (rule approved_rule_mono) (auto simp: finish_def store_rule_def)
    moreover have "approved_rule (finish rq ?d (store_rule rq st)) (rq_displaySession rq) (rq_command rq)"
      unfolding approved_rule_def using True st kind
      by (intro exI[of _ rq] exI[of _ ?d]) (auto simp: finish_def)
    ultimately show ?thesis
      unfolding eq broker_inv_def rules_inv_def using ru[unfolded rules_inv_def]
      by (auto simp: finish_def store_rule_def or_else_def split: if_splits option.splits)
  qed
qed

lemma foldl_inv: "(\<And>s x. I s \<Longrightarrow> I (f s x)) \<Longrightarrow> I s \<Longrightarrow> I (foldl f s xs)"
  by (induction xs arbitrary: s) auto

lemma cleanup_inv:
  assumes "broker_inv st"
  shows "broker_inv (cleanupSession s st)" and "broker_inv (cleanupAll st)"
proof -
  have "broker_inv (st\<lparr>b_rules := jm_delete (b_rules st) s\<rparr>)"
    using assms unfolding broker_inv_def requests_inv_def rules_inv_def approved_rule_def armed_inv_def by simp
  then show "broker_inv (cleanupSession s st)"
    unfolding cleanupSession_def reject_session_def
    by (intro foldl_inv[where I = broker_inv]) (auto intro: rejectAsAborted_inv)
  show "broker_inv (cleanupAll st)"
    unfolding cleanupAll_def
    using assms by (intro foldl_inv[where I = broker_inv]) (auto intro: rejectAsAborted_inv)
qed

lemma ask_inv:
  assumes "broker_inv st" and "uuid \<notin> used_ids st"
  shows "broker_inv (snd (evaluateAndRequest H opts config display uuid args st))"
  using assms unfolding evaluateAndRequest_def Let_def
  by (auto split: option.splits intro!: awaitDecision_inv)

lemma config_inv:
  assumes "broker_inv st" and "uuid \<notin> used_ids st"
  shows "broker_inv (snd (requestConfigApproval opts display uuid session toolCall flds signalled st))"
  using assms unfolding requestConfigApproval_def
  by (auto simp: config_evaluation_def split: option.splits intro!: awaitDecision_inv)

interpretation broker: transition_invariant "broker_step H opts" new_broker broker_inv
proof
  show "broker_inv new_broker"
    by (simp add: broker_inv_def requests_inv_def rules_inv_def armed_inv_def new_broker_def)
  show "broker_inv t" if "broker_step H opts s t" "broker_inv s" for s t
    using that
    by (cases rule: broker_step.cases)
      (auto intro: ask_inv config_inv broker_resolve_inv timer_fires_inv signal_aborts_inv cleanup_inv)
qed

section \<open>Properties\<close>

lemma finish_pending [simp]: "b_pending (finish rq d st) = jm_delete (b_pending st) (rq_id rq)"
  by (simp add: finish_def)

lemma reject_get:
  "requests_inv st \<Longrightarrow>
   jm_get (b_pending (rejectAsAborted rid st)) x = (if x = rid then None else jm_get (b_pending st) x)"
  by (auto simp: rejectAsAborted_def dest: requests_inv_pending split: option.splits)

lemma reject_requests: "requests_inv st \<Longrightarrow> requests_inv (rejectAsAborted rid st)"
  using finish_requests requests_inv_pending
  by (fastforce simp: rejectAsAborted_def split: option.splits)

lemma cleanupAll_get:
  assumes "requests_inv st"
  shows "jm_get (b_pending (foldl (\<lambda>s r. rejectAsAborted r s) st ids)) x =
    (if x \<in> set ids then None else jm_get (b_pending st) x)"
  using assms
proof (induction ids arbitrary: st)
  case (Cons i ids)
  have "requests_inv (rejectAsAborted i st)" using Cons.prems by (rule reject_requests)
  then show ?case using Cons.IH Cons.prems by (simp add: reject_get)
qed simp

lemma jm_get_None_Nil:
  assumes "\<And>x. jm_get m x = None" shows "m = []"
proof (cases m)
  case (Cons e m')
  then show ?thesis using assms[of "fst e"] by (cases e) (simp add: jm_get_def)
qed

lemma jm_get_not_key: "x \<notin> fst ` set m \<Longrightarrow> jm_get m x = None"
  by (simp add: jm_get_def map_of_eq_None_iff)

lemma reject_session_get:
  assumes "requests_inv st"
  shows "jm_get (b_pending (reject_session s i st)) x =
    (if x = i \<and> map_option rq_session (jm_get (b_pending st) i) = Some s then None else jm_get (b_pending st) x)"
  using reject_get[OF assms] by (auto simp: reject_session_def)

lemma cleanupSession_get:
  assumes "requests_inv st"
  shows "jm_get (b_pending (foldl (\<lambda>st i. reject_session s i st) st ids)) x =
    (if x \<in> set ids \<and> map_option rq_session (jm_get (b_pending st) x) = Some s then None
     else jm_get (b_pending st) x)"
  using assms
proof (induction ids arbitrary: st)
  case (Cons i ids)
  have "requests_inv (reject_session s i st)"
    using Cons.prems by (simp add: reject_session_def reject_requests)
  then show ?case using Cons.IH Cons.prems by (auto simp: reject_session_get)
qed simp

text \<open>A short history for the examples: a command is asked about, and the user approves it for
  the session.\<close>

definition desktop_options :: broker_options where
  "desktop_options = \<lparr>bo_readOnly = False, bo_refuseApprovals = False, bo_hasApprover = True,
     bo_imPolicy = None, bo_context = None\<rparr>"

definition npm_args :: request_args where
  "npm_args = \<lparr>ra_session = ''s1'', ra_toolCall = ''t1'', ra_command = ''npm test'', ra_cwd = None,
     ra_language = None, ra_signal = True\<rparr>"

definition asked_state :: broker where
  "asked_state = snd (evaluateAndRequest flat_machine desktop_options manual_config None ''u1'' npm_args new_broker)"

definition answered_state :: broker where
  "answered_state = snd (broker_resolve ''u1'' True Session asked_state)"

lemma asked_reachable: "(broker_step flat_machine desktop_options)\<^sup>*\<^sup>* new_broker asked_state"
proof -
  have "''u1'' \<notin> used_ids new_broker" by (simp add: used_ids_def new_broker_def)
  from broker_step.ask[OF this, of flat_machine desktop_options True manual_config None npm_args]
  have "broker_step flat_machine desktop_options new_broker asked_state"
    by (simp add: asked_state_def desktop_options_def)
  then show ?thesis by blast
qed

lemma answered_reachable: "(broker_step flat_machine desktop_options)\<^sup>*\<^sup>* new_broker answered_state"
  using asked_reachable broker_step.answer unfolding answered_state_def
  by (metis rtranclp.rtrancl_into_rtrancl)

text \<open>C4: every rule the broker holds for a session was approved there: the user answered a request
  for exactly that command with the session scope, the verdict asked, did not come from a deny
  list and was not marked as not storable. Configuration changes never become rules.\<close>

theorem session_rule_was_approved:
  assumes "(broker_step H opts)\<^sup>*\<^sup>* new_broker st"
    and "jm_get (b_rules st) s = Some rules" and "r \<in> set rules"
  shows "\<exists>rq d. Resolved rq d \<in> set (b_events st) \<and> dc_approved d \<and> dc_scope d = Session \<and>
    rq_command rq = r \<and> rq_displaySession rq = s \<and> storable (rq_evaluation rq) \<and> rq_kind rq = CommandRequest"
  using broker.I_reachable[OF assms(1)] assms(2,3)
  unfolding broker_inv_def rules_inv_def approved_rule_def by blast

theorem session_rule_was_approved_witness:
  "\<exists>rq d. Resolved rq d \<in> set (b_events answered_state) \<and> dc_approved d \<and> rq_command rq = ''npm test''"
proof -
  have "jm_get (b_rules answered_state) ''s1'' = Some [''npm test'']" by code_simp
  from session_rule_was_approved[OF answered_reachable this, of "''npm test''"] show ?thesis by auto
qed

text \<open>C10: a request is settled at most once, by whoever comes first among the user, the time-out,
  the abort signal and the clean-up; a pending request has not been settled, and only what was
  requested is settled. The timer and the listener of a settled request are gone: whatever is
  still armed belongs to a request that is pending, and a pending request always has its timer,
  so none waits for ever.\<close>

theorem request_settled_once:
  assumes "(broker_step H opts)\<^sup>*\<^sup>* new_broker st"
  shows "distinct (resolved_ids (b_events st)) \<and>
    (\<forall>rid rq. jm_get (b_pending st) rid = Some rq \<longrightarrow>
       rq_id rq = rid \<and> Requested rq \<in> set (b_events st) \<and> rid \<notin> set (resolved_ids (b_events st)) \<and>
       rq \<in> set (b_timers st)) \<and>
    (\<forall>rq. rq \<in> set (b_timers st) \<union> set (b_listeners st) \<longrightarrow> jm_get (b_pending st) (rq_id rq) = Some rq) \<and>
    (\<forall>rq d. Resolved rq d \<in> set (b_events st) \<longrightarrow> Requested rq \<in> set (b_events st))"
  using broker.I_reachable[OF assms] unfolding broker_inv_def requests_inv_def armed_inv_def by blast

theorem request_settled_once_witness:
  "distinct (resolved_ids (b_events answered_state)) \<and> request_timer_fires ''u1'' answered_state = answered_state"
proof -
  have "armed ''u1'' (b_timers answered_state) = None" by code_simp
  then show ?thesis using request_settled_once[OF answered_reachable] by (simp add: request_timer_fires_def)
qed

text \<open>A broker that cannot ask never parks a command and keeps its state: a read-only one
  decides by the read-only verdict, one of a chat channel and one without an approver refuse
  what would have to be asked. Whatever the options, a command is approved without asking only
  when its verdict is to allow it.\<close>

theorem no_prompt_without_approver:
  assumes "evaluateAndRequest H opts config display uuid args st = (out, st')"
    and "bo_readOnly opts \<or> bo_refuseApprovals opts \<or> bo_hasApprover opts = False"
  shows "\<exists>d. out = Decided d \<and> st' = st \<and> (dc_approved d \<longleftrightarrow> ev_behavior (dc_evaluation d) = Allow) \<and>
    (ev_behavior (dc_evaluation d) = Ask \<longrightarrow>
       dc_denial d = Some (if bo_refuseApprovals opts then ImChannel else NoApprover))"
proof -
  let ?r = "inherited_rules st (ra_session args) (display_session display (ra_session args))"
  obtain v where v: "broker_evaluate H opts config args ?r = Some v"
    and ro: "bo_readOnly opts \<Longrightarrow> ev_behavior v \<noteq> Ask"
    using evaluateParsed_total readonly.I_evaluateParsed
    unfolding broker_evaluate_def Let_def evaluateReadOnlyCommand_def evaluateCommandForImWorkspace_def
      evaluateCommand_def read_only_verdict_def
    by (cases "bo_readOnly opts"; cases "bo_imPolicy opts") (fastforce split: option.splits)+
  show ?thesis
    using assms v ro unfolding evaluateAndRequest_def Let_def unanswerableReason_def
    by (auto simp: once_def split: if_splits)
qed

theorem no_prompt_without_approver_witness:
  "\<exists>d. fst (evaluateAndRequest flat_machine (desktop_options\<lparr>bo_refuseApprovals := True\<rparr>) manual_config
      None ''u1'' npm_args new_broker) = Decided d \<and> dc_denial d = Some ImChannel"
proof -
  let ?o = "desktop_options\<lparr>bo_refuseApprovals := True\<rparr>"
  let ?e = "evaluateAndRequest flat_machine ?o manual_config None ''u1'' npm_args new_broker"
  have ask: "(case fst ?e of Decided d \<Rightarrow> ev_behavior (dc_evaluation d) | _ \<Rightarrow> Deny) = Ask" by code_simp
  have "bo_readOnly ?o \<or> bo_refuseApprovals ?o \<or> bo_hasApprover ?o = False" by simp
  from no_prompt_without_approver[OF prod.collapse[symmetric, of ?e] this] ask show ?thesis by auto
qed

text \<open>Cleaning up a session settles all its requests as aborted and forgets its rules, and
  touches no request of another session; cleaning up everything leaves no request pending.\<close>

theorem cleanup_settles_requests:
  assumes "(broker_step H opts)\<^sup>*\<^sup>* new_broker st"
  shows "b_pending (cleanupAll st) = [] \<and>
    jm_get (b_rules (cleanupSession s st)) s = None \<and>
    (\<forall>rid. jm_get (b_pending (cleanupSession s st)) rid =
       (if map_option rq_session (jm_get (b_pending st) rid) = Some s then None
        else jm_get (b_pending st) rid))"
proof -
  have ri: "requests_inv st" using broker.I_reachable[OF assms] by (simp add: broker_inv_def)
  have all: "b_pending (cleanupAll st) = []"
  proof (rule jm_get_None_Nil)
    fix x
    show "jm_get (b_pending (cleanupAll st)) x = None"
      unfolding cleanupAll_def cleanupAll_get[OF ri] using jm_get_not_key[of x "b_pending st"] by simp
  qed
  have ri': "requests_inv (st\<lparr>b_rules := jm_delete (b_rules st) s\<rparr>)" using ri by (simp add: requests_inv_def)
  have get: "jm_get (b_pending (cleanupSession s st)) rid =
       (if map_option rq_session (jm_get (b_pending st) rid) = Some s then None else jm_get (b_pending st) rid)" for rid
    unfolding cleanupSession_def cleanupSession_get[OF ri'] using jm_get_not_key[of rid "b_pending st"] by auto
  have rules: "b_rules (foldl (\<lambda>st i. reject_session s i st) t ids) = b_rules t" for t ids
    by (induction ids arbitrary: t)
      (auto simp: reject_session_def rejectAsAborted_def finish_def split: option.splits)
  have "jm_get (b_rules (cleanupSession s st)) s = None"
    unfolding cleanupSession_def rules by simp
  with all get show ?thesis by blast
qed

theorem cleanup_settles_requests_witness:
  "b_pending (cleanupAll asked_state) = [] \<and> jm_get (b_pending (cleanupSession ''s1'' asked_state)) ''u1'' = None"
proof -
  have "map_option rq_session (jm_get (b_pending asked_state) ''u1'') = Some ''s1''" by code_simp
  then show ?thesis using cleanup_settles_requests[OF asked_reachable, of "''s1''"] by simp
qed

lemma parked_request:
  assumes "evaluateAndRequest H opts config display uuid args st = (Parked, st1)"
  obtains v rq where "broker_evaluate H opts config args
      (inherited_rules st (ra_session args) (display_session display (ra_session args))) = Some v"
    and "ev_behavior v = Ask" and "\<not> bo_readOnly opts"
    and "st1 = awaitDecision (ra_signal args) rq st" and "rq_id rq = uuid" and "rq_evaluation rq = v"
    and "rq_command rq = ra_command args" and "rq_displaySession rq = display_session display (ra_session args)"
  using assms unfolding evaluateAndRequest_def Let_def
  by (auto split: option.splits if_splits)

lemma base_config_update: "(base_config opts config r)\<lparr>cf_allow := Some rules\<rparr> = config\<lparr>cf_allow := Some rules\<rparr>"
  by (simp add: base_config_def)

text \<open>A command the user approved for the session is not asked about again. After the approval
  of a parked request was stored, the same call of the same session, with the same
  configuration, is approved at once and leaves the broker as it is.\<close>

theorem approved_command_not_asked_again:
  assumes "evaluateAndRequest H opts config display uuid args st = (Parked, st1)"
    and "bo_imPolicy opts = None"
    and "broker_resolve uuid True Session st1 = (Some d, st2)" and "dc_scope d = Session"
    and "[] \<notin> set (or_else (coalesce (cf_allow config) (cf_rules config)) [] @
      inherited_rules st2 (ra_session args) (display_session display (ra_session args)))"
  shows "\<exists>d'. evaluateAndRequest H opts config display uuid' args st2 = (Decided d', st2) \<and> dc_approved d'"
proof -
  let ?ds = "display_session display (ra_session args)"
  let ?r1 = "inherited_rules st (ra_session args) ?ds" and ?r2 = "inherited_rules st2 (ra_session args) ?ds"
  let ?cx = "request_context opts args"
  let ?allow = "or_else (coalesce (cf_allow config) (cf_rules config)) []"
  obtain v rq where v: "broker_evaluate H opts config args ?r1 = Some v" "ev_behavior v = Ask"
    "\<not> bo_readOnly opts" and rq: "st1 = awaitDecision (ra_signal args) rq st" "rq_id rq = uuid" "rq_evaluation rq = v"
    "rq_command rq = ra_command args" "rq_displaySession rq = ?ds"
    using assms(1) by (rule parked_request)
  have get: "jm_get (b_pending st1) uuid = Some rq" using rq by (simp add: awaitDecision_def)
  then have sc: "settled_scope rq True Session = Session" using assms(3,4)
    by (auto simp: broker_resolve_def Let_def)
  then have mark: "ev_matchedList v \<noteq> Some DenyList" "ev_persistent v \<noteq> Some False"
    using rq(3) by (auto simp: settled_scope_def split: if_splits)
  have st2: "b_rules st2 = b_rules (store_rule rq st1)"
    using assms(3) get sc mark rq(3) by (auto simp: broker_resolve_def Let_def finish_def)
  have "ra_command args \<in> set ?r2"
    using rq(4,5) by (simp add: inherited_rules_def st2 store_rule_def)
  then have inr: "ra_command args \<in> set (?allow @ ?r2)" by simp
  have ev: "evaluateCommand H (ra_command args) (base_config opts config ?r1) ?cx = Some v"
    using v(1,3) assms(2) by (simp add: broker_evaluate_def Let_def)
  obtain r' where r': "evaluateCommand H (ra_command args)
      ((base_config opts config ?r1)\<lparr>cf_allow := Some (?allow @ ?r2)\<rparr>) ?cx = Some r'" "ev_behavior r' = Allow"
    using stored_approval_honoured_lemma[OF ev v(2) mark inr assms(5)] by blast
  then have "broker_evaluate H opts config args ?r2 = Some r'"
    using v(3) assms(2) unfolding base_config_update
    by (simp add: broker_evaluate_def Let_def base_config_def)
  then show ?thesis using v(3) r'(2) by (simp add: evaluateAndRequest_def Let_def once_def)
qed

theorem approved_command_not_asked_again_witness:
  "\<exists>d'. evaluateAndRequest flat_machine desktop_options manual_config None ''u2'' npm_args answered_state =
      (Decided d', answered_state) \<and> dc_approved d'"
proof (rule approved_command_not_asked_again)
  have p: "fst (evaluateAndRequest flat_machine desktop_options manual_config None ''u1'' npm_args new_broker) = Parked"
    by code_simp
  then show "evaluateAndRequest flat_machine desktop_options manual_config None ''u1'' npm_args new_broker = (Parked, asked_state)"
    unfolding asked_state_def by (metis prod.collapse)
  have d: "map_option dc_scope (fst (broker_resolve ''u1'' True Session asked_state)) = Some Session" by code_simp
  then obtain d where "fst (broker_resolve ''u1'' True Session asked_state) = Some d" "dc_scope d = Session" by auto
  then show "broker_resolve ''u1'' True Session asked_state =
      (Some (the (fst (broker_resolve ''u1'' True Session asked_state))), answered_state)"
    "dc_scope (the (fst (broker_resolve ''u1'' True Session asked_state))) = Session"
    unfolding answered_state_def by (metis option.sel prod.collapse, simp)
  show "[] \<notin> set (or_else (coalesce (cf_allow manual_config) (cf_rules manual_config)) [] @
      inherited_rules answered_state (ra_session npm_args) (display_session None (ra_session npm_args)))" by code_simp
qed (simp add: desktop_options_def)

end
