(* ===== verification/ImRoute.thy ===== *)
theory ImRoute
  imports Boundary
begin

text \<open>
  The identity of a chat: \<open>makeImCwd\<close> and \<open>parseImCwd\<close> of \<open>packages/protocol/src/channels.ts\<close> and
  \<open>chatPolicyKey\<close> of \<open>packages/sidecar/src/channels/imWorkspacePolicy.ts\<close>. The identifiers of a
  route are percent-encoded between two slashes, which is what makes the key parse back to the
  route it was made from. \<open>encodeURIComponent\<close> is the language's own, on the Latin-1 alphabet of
  this library: a character above 127 takes the two bytes of its UTF-8 form, and an escape that
  stands for a character outside the alphabet counts as malformed. The digest of the policy key
  is a parameter.
\<close>

section \<open>Definitions\<close>

subsection \<open>Percent encoding\<close>

definition uri_unreserved :: "char \<Rightarrow> bool" where
  "uri_unreserved c \<longleftrightarrow> is_alnum_ascii c \<or> c \<in> set ''-_.!~*()'' \<or> c = CHR 0x27"

definition hex_char :: "nat \<Rightarrow> char" where
  "hex_char n = ''0123456789ABCDEF'' ! n"

definition percent_byte :: "nat \<Rightarrow> string" where
  "percent_byte b = [CHR ''%'', hex_char (b div 16), hex_char (b mod 16)]"

text \<open>The UTF-8 bytes of one character.\<close>

definition utf8_bytes :: "nat \<Rightarrow> nat list" where
  "utf8_bytes n = (if n < 128 then [n] else [192 + n div 64, 128 + n mod 64])"

definition encode_char :: "char \<Rightarrow> string" where
  "encode_char c =
     (if uri_unreserved c then [c] else concat (map percent_byte (utf8_bytes (code_unit c))))"

definition encodeURIComponent :: "string \<Rightarrow> string" where
  "encodeURIComponent s = concat (map encode_char s)"

definition hex_value :: "char \<Rightarrow> nat option" where
  "hex_value c =
     (let n = code_unit c in
      if is_digit_ascii c then Some (n - 48)
      else if 65 \<le> n \<and> n \<le> 70 then Some (n - 55)
      else if 97 \<le> n \<and> n \<le> 102 then Some (n - 87)
      else None)"

definition hex_pair :: "char \<Rightarrow> char \<Rightarrow> nat option" where
  "hex_pair a b =
     (case (hex_value a, hex_value b) of (Some x, Some y) \<Rightarrow> Some (16 * x + y) | _ \<Rightarrow> None)"

text \<open>The bytes of a percent-encoded text, an unescaped character as itself; \<^const>\<open>None\<close> is a
  malformed escape.\<close>

datatype uri_unit = Raw char | Byte nat

fun uri_units :: "string \<Rightarrow> uri_unit list option" where
  "uri_units [] = Some []"
| "uri_units (c # cs) =
     (if c \<noteq> CHR ''%'' then map_option ((#) (Raw c)) (uri_units cs)
      else (case cs of
              a # b # rest \<Rightarrow>
                (case hex_pair a b of
                   Some n \<Rightarrow> map_option ((#) (Byte n)) (uri_units rest)
                 | None \<Rightarrow> None)
            | _ \<Rightarrow> None))"

fun utf8_decode :: "uri_unit list \<Rightarrow> string option" where
  "utf8_decode [] = Some []"
| "utf8_decode (Raw c # us) = map_option ((#) c) (utf8_decode us)"
| "utf8_decode (Byte n # us) =
     (if n < 128 then map_option ((#) (char_of n)) (utf8_decode us)
      else if n = 194 \<or> n = 195 then
        (case us of
           Byte m # us' \<Rightarrow>
             if 128 \<le> m \<and> m < 192
             then map_option ((#) (char_of ((n - 192) * 64 + (m - 128)))) (utf8_decode us')
             else None
         | _ \<Rightarrow> None)
      else None)"

definition decodeURIComponent :: "string \<Rightarrow> string option" where
  "decodeURIComponent s = Option.bind (uri_units s) utf8_decode"

subsection \<open>Routes\<close>

record im_route =
  rt_channelId :: string
  rt_peerId :: string
  rt_chatId :: string

text \<open>\<^const>\<open>None\<close> where the code throws.\<close>

definition makeImCwd :: "string \<Rightarrow> string \<Rightarrow> string \<Rightarrow> string option" where
  "makeImCwd channelId peerId chatId =
     (if peerId = [] then None
      else if chatId = [] then None
      else Some (IM_CWD_PREFIX @ channelId @ ''/'' @ encodeURIComponent peerId @ ''/''
             @ encodeURIComponent chatId))"

definition parseImCwd :: "string \<Rightarrow> im_route option" where
  "parseImCwd cwd =
     (if \<not> startsWith cwd IM_CWD_PREFIX then None
      else
        let rest = drop (length IM_CWD_PREFIX) cwd in
        (case (indexOf slash rest, lastIndexOf slash rest) of
           (Some firstSlash, Some lastSlash) \<Rightarrow>
             if firstSlash = 0 \<or> firstSlash = lastSlash then None
             else
               let channelId = slice 0 firstSlash rest;
                   peerIdRaw = slice (firstSlash + 1) lastSlash rest;
                   chatIdRaw = drop (lastSlash + 1) rest
               in if channelId = [] \<or> peerIdRaw = [] \<or> chatIdRaw = [] then None
                  else (case (decodeURIComponent peerIdRaw, decodeURIComponent chatIdRaw) of
                          (Some peer, Some chat) \<Rightarrow>
                            Some \<lparr>rt_channelId = channelId, rt_peerId = peer, rt_chatId = chat\<rparr>
                        | _ \<Rightarrow> None)
         | _ \<Rightarrow> None))"

definition chatPolicyKey :: "(string \<Rightarrow> string) \<Rightarrow> im_route \<Rightarrow> string option" where
  "chatPolicyKey sha256 route =
     map_option sha256 (makeImCwd (rt_channelId route) (rt_peerId route) (rt_chatId route))"

section \<open>Decoding undoes encoding\<close>

lemma code_unit_less: "code_unit c < 256"
  by (simp add: code_unit_def)

lemma hex_value_hex_char: "n < 16 \<Longrightarrow> hex_value (hex_char n) = Some n"
proof -
  assume "n < 16"
  then have "n \<in> set [0..<16]" by simp
  moreover have "list_all (\<lambda>n. hex_value (hex_char n) = Some n) [0..<16]" by code_simp
  ultimately show ?thesis by (simp only: list_all_iff)
qed

lemma hex_pair_percent: "b < 256 \<Longrightarrow> hex_pair (hex_char (b div 16)) (hex_char (b mod 16)) = Some b"
  by (simp add: hex_pair_def hex_value_hex_char less_mult_imp_div_less)

lemma uri_units_byte:
  "b < 256 \<Longrightarrow> uri_units (percent_byte b @ s) = map_option ((#) (Byte b)) (uri_units s)"
  by (simp add: percent_byte_def hex_pair_percent)

text \<open>The units of one encoded character.\<close>

definition char_units :: "char \<Rightarrow> uri_unit list" where
  "char_units c = (if uri_unreserved c then [Raw c] else map Byte (utf8_bytes (code_unit c)))"

lemma unreserved_not_percent: "uri_unreserved c \<Longrightarrow> c \<noteq> CHR ''%''"
proof -
  have "\<not> uri_unreserved (CHR ''%'')" by code_simp
  then show "uri_unreserved c \<Longrightarrow> c \<noteq> CHR ''%''" by blast
qed

lemma utf8_bytes_bounds: "n < 256 \<Longrightarrow> b \<in> set (utf8_bytes n) \<Longrightarrow> b < 256"
  by (auto simp: utf8_bytes_def split: if_splits)

lemma uri_units_bytes:
  "\<forall>b \<in> set bs. b < 256 \<Longrightarrow>
    uri_units (concat (map percent_byte bs) @ s) = map_option (\<lambda>x. map Byte bs @ x) (uri_units s)"
  by (induction bs; cases "uri_units s") (simp_all add: uri_units_byte)

lemma uri_units_encode_char:
  "uri_units (encode_char c @ s) = map_option (\<lambda>x. char_units c @ x) (uri_units s)"
proof (cases "uri_unreserved c")
  case True
  then show ?thesis using unreserved_not_percent by (simp add: encode_char_def char_units_def)
next
  case False
  then show ?thesis
    using uri_units_bytes utf8_bytes_bounds[OF code_unit_less]
    by (simp add: encode_char_def char_units_def)
qed

lemma utf8_decode_char: "utf8_decode (char_units c @ us) = map_option ((#) c) (utf8_decode us)"
proof (cases "uri_unreserved c \<or> code_unit c < 128")
  case True
  then show ?thesis by (auto simp: char_units_def utf8_bytes_def code_unit_def)
next
  case False
  then have n: "128 \<le> code_unit c" "code_unit c < 256" using code_unit_less by auto
  then have d: "code_unit c div 64 = 2 \<or> code_unit c div 64 = 3" by arith
  have "char_of (code_unit c div 64 * 64 + code_unit c mod 64) = c"
    by (simp only: div_mult_mod_eq code_unit_def char_of_char)
  then show ?thesis using False n d by (auto simp: char_units_def utf8_bytes_def)
qed

lemma uri_units_encode: "uri_units (encodeURIComponent s) = Some (concat (map char_units s))"
proof (induction s)
  case (Cons c s)
  then show ?case
    using uri_units_encode_char[of c "encodeURIComponent s"] by (simp add: encodeURIComponent_def)
qed (simp add: encodeURIComponent_def)

lemma utf8_decode_units: "utf8_decode (concat (map char_units s)) = Some s"
  by (induction s) (simp_all add: utf8_decode_char)

lemma decode_encode [simp]: "decodeURIComponent (encodeURIComponent s) = Some s"
  by (simp add: decodeURIComponent_def uri_units_encode utf8_decode_units)

section \<open>The shape of an encoded text\<close>

lemma hex_char_not_slash: "n < 16 \<Longrightarrow> hex_char n \<noteq> slash"
proof -
  assume "n < 16"
  then have "n \<in> set [0..<16]" by simp
  moreover have "list_all (\<lambda>n. hex_char n \<noteq> slash) [0..<16]" by code_simp
  ultimately show ?thesis unfolding list_all_iff by blast
qed

lemma percent_byte_no_slash: "b < 256 \<Longrightarrow> slash \<notin> set (percent_byte b)"
  using hex_char_not_slash[of "b div 16"] hex_char_not_slash[of "b mod 16"]
  by (auto simp: percent_byte_def less_mult_imp_div_less)

lemma encode_char_no_slash: "slash \<notin> set (encode_char c)"
proof (cases "uri_unreserved c")
  case True
  moreover have "\<not> uri_unreserved slash" by code_simp
  ultimately show ?thesis by (auto simp: encode_char_def)
next
  case False
  then show ?thesis
    using percent_byte_no_slash utf8_bytes_bounds[OF code_unit_less] by (auto simp: encode_char_def)
qed

lemma encode_no_slash [simp]: "slash \<notin> set (encodeURIComponent s)"
  using encode_char_no_slash by (auto simp: encodeURIComponent_def)

lemma encode_Nil_iff [simp]: "encodeURIComponent s = [] \<longleftrightarrow> s = []"
  by (metis decode_encode encodeURIComponent_def concat.simps(1) list.simps(8) option.inject)

lemma indexOf_append: "c \<notin> set xs \<Longrightarrow> indexOf c (xs @ c # ys) = Some (length xs)"
  by (induction xs) auto

text \<open>The parser reads back three segments joined by slashes.\<close>

lemma parse_segments:
  assumes "channel \<noteq> []" "slash \<notin> set channel" "peer \<noteq> []" "chat \<noteq> []" "slash \<notin> set chat"
  shows "parseImCwd (IM_CWD_PREFIX @ channel @ slash # peer @ slash # chat) =
    (case (decodeURIComponent peer, decodeURIComponent chat) of
       (Some p, Some c) \<Rightarrow> Some \<lparr>rt_channelId = channel, rt_peerId = p, rt_chatId = c\<rparr>
     | _ \<Rightarrow> None)"
proof -
  let ?rest = "channel @ slash # peer @ slash # chat"
  have f: "indexOf slash ?rest = Some (length channel)" using assms(2) by (rule indexOf_append)
  have l: "lastIndexOf slash ?rest = Some (length channel + 1 + length peer)"
    using lastIndexOf_append[OF assms(5), of "channel @ slash # peer"] by simp
  have s: "slice 0 (length channel) ?rest = channel"
    "slice (Suc (length channel)) (Suc (length channel + length peer)) ?rest = peer"
    "drop (length channel + 1 + length peer + 1) ?rest = chat"
    by (simp_all add: slice_def)
  show ?thesis
    unfolding parseImCwd_def startsWith_def append_eq_conv_conj[symmetric]
    using assms by (simp add: f l s Let_def)
qed

lemma parse_make:
  assumes "channel \<noteq> []" "slash \<notin> set channel" "makeImCwd channel peer chat = Some cwd"
  shows "parseImCwd cwd = Some \<lparr>rt_channelId = channel, rt_peerId = peer, rt_chatId = chat\<rparr>"
  using assms parse_segments[OF assms(1,2), of "encodeURIComponent peer" "encodeURIComponent chat"]
  by (auto simp: makeImCwd_def split: if_splits)

text \<open>C27: the key of a chat parses back to the route it was made from, whatever characters of Latin-1
  the peer and the chat identifiers hold, slashes, percent signs and controls included; the channel
  identifier is not empty and has no slash. Characters outside Latin-1 are outside the model.\<close>

theorem im_route_roundtrip:
  assumes "rt_channelId route \<noteq> []" "slash \<notin> set (rt_channelId route)"
    and "makeImCwd (rt_channelId route) (rt_peerId route) (rt_chatId route) = Some cwd"
  shows "parseImCwd cwd = Some route"
  using parse_make[OF assms] by simp

theorem im_route_roundtrip_witness:
  "\<exists>cwd. makeImCwd ''wechat'' ''a/b'' ''50% caf'' = Some cwd \<and>
     parseImCwd cwd = Some \<lparr>rt_channelId = ''wechat'', rt_peerId = ''a/b'', rt_chatId = ''50% caf''\<rparr>"
proof -
  let ?r = "\<lparr>rt_channelId = ''wechat'', rt_peerId = ''a/b'', rt_chatId = ''50% caf''\<rparr>"
  have m: "makeImCwd (rt_channelId ?r) (rt_peerId ?r) (rt_chatId ?r)
      = Some ''im://wechat/a%2Fb/50%25%20caf''" by code_simp
  have c: "rt_channelId ?r \<noteq> []" "slash \<notin> set (rt_channelId ?r)" by code_simp+
  show ?thesis using im_route_roundtrip[OF c m] m by (auto simp only: im_route.select_convs)
qed

text \<open>Two chats with different keys: the digest tells them apart as long as it does not collide.\<close>

lemma chatPolicyKey_inj:
  assumes "\<And>s s'. makeImCwd (rt_channelId r) (rt_peerId r) (rt_chatId r) = Some s \<Longrightarrow>
      makeImCwd (rt_channelId r') (rt_peerId r') (rt_chatId r') = Some s' \<Longrightarrow> sha256 s = sha256 s' \<Longrightarrow> s = s'"
    and "rt_channelId r \<noteq> []" "slash \<notin> set (rt_channelId r)"
    and "rt_channelId r' \<noteq> []" "slash \<notin> set (rt_channelId r')"
    and "chatPolicyKey sha256 r = Some k" "chatPolicyKey sha256 r' = Some k"
  shows "r = r'"
proof -
  obtain c c' where c: "makeImCwd (rt_channelId r) (rt_peerId r) (rt_chatId r) = Some c"
    "makeImCwd (rt_channelId r') (rt_peerId r') (rt_chatId r') = Some c'" "sha256 c = sha256 c'"
    using assms(6,7) by (auto simp: chatPolicyKey_def)
  then have "makeImCwd (rt_channelId r') (rt_peerId r') (rt_chatId r') = Some c" using assms(1) by blast
  then show ?thesis using c(1) parse_make assms(2-5) by (metis im_route.surjective option.inject unit.exhaust)
qed

end
