(* ===== verification/ImPolicy.thy ===== *)
theory ImPolicy
  imports MutGate ImRoute
begin

text \<open>
  The policy of chat channels: \<open>packages/sidecar/src/channels/imWorkspacePolicy.ts\<close>, with
  \<open>server/imExecutionCwd.ts\<close> and the tool filter of \<open>runtime/toolAssembly.ts\<close>. A policy
  document is JSON as it comes from disk; a layer of it is validated into a patch, and the
  patches are merged over the built-in defaults, channel default first, chat override second.

  A patch has its optional sub-objects flattened: every reader of \<open>tools\<close> and \<open>commands\<close> uses
  optional access, so an absent sub-object and an empty one are the same. A field is
  \<^const>\<open>None\<close> when it is absent and holds an inner \<^const>\<open>None\<close> when it is \<open>null\<close>.
  A tool verdict stays a JSON value, because the validation accepts whatever prints as one of
  the two words. The digest of \<open>chatPolicyKey\<close> is a parameter.
\<close>

section \<open>Definitions\<close>

datatype exec_dir = DirShared | DirPerChat | DirCustom string

record im_policy =
  ip_fsTools :: js
  ip_shell :: js
  ip_commands :: im_command_policy
  ip_executionDir :: exec_dir

record policy_patch =
  pp_fsTools :: "js option option"
  pp_shell :: "js option option"
  pp_mode :: "permission_mode option option"
  pp_allow :: "permission_rule list option option"
  pp_deny :: "permission_rule list option option"
  pp_executionDir :: "exec_dir option option"
  pp_binding :: "string option option"
  pp_perChatScratch :: "bool option option"

definition empty_patch :: policy_patch where
  "empty_patch = \<lparr>pp_fsTools = None, pp_shell = None, pp_mode = None, pp_allow = None,
     pp_deny = None, pp_executionDir = None, pp_binding = None, pp_perChatScratch = None\<rparr>"

definition DEFAULT_IM_WORKSPACE_POLICY :: im_policy where
  "DEFAULT_IM_WORKSPACE_POLICY =
     \<lparr>ip_fsTools = JStr ''deny'', ip_shell = JStr ''deny'',
      ip_commands = \<lparr>icp_mode = ModeAsk, icp_allow = None, icp_deny = None\<rparr>,
      ip_executionDir = DirShared\<rparr>"

subsection \<open>Validation\<close>

definition TOOL_VERDICTS :: "string list" where
  "TOOL_VERDICTS = [''deny'', ''allow'']"

text \<open>The error is the field the message names.\<close>

type_synonym 'a checked = "string + 'a"

definition validate_verdict :: "string \<Rightarrow> js option \<Rightarrow> js option option checked" where
  "validate_verdict fld value =
     (case value of
        None \<Rightarrow> Inr None
      | Some JNull \<Rightarrow> Inr (Some None)
      | Some v \<Rightarrow> if js_text v \<in> set TOOL_VERDICTS then Inr (Some (Some v)) else Inl (''tools.'' @ fld))"

definition validate_mode :: "js option \<Rightarrow> permission_mode option option checked" where
  "validate_mode value =
     (case value of
        None \<Rightarrow> Inr None
      | Some JNull \<Rightarrow> Inr (Some None)
      | Some (JStr s) \<Rightarrow>
          if s = ''ask'' then Inr (Some (Some ModeAsk))
          else if s = ''auto'' then Inr (Some (Some ModeAuto)) else Inl ''commands.mode''
      | Some _ \<Rightarrow> Inl ''commands.mode'')"

fun validate_rules :: "bool \<Rightarrow> js list \<Rightarrow> permission_rule list option" where
  "validate_rules wrapper [] = Some []"
| "validate_rules wrapper (JStr s # xs) =
     (case validatePermissionRule s wrapper of
        Inl _ \<Rightarrow> None
      | Inr rule \<Rightarrow> map_option (\<lambda>rest. rule # rest) (validate_rules wrapper xs))"
| "validate_rules wrapper (_ # xs) = None"

definition validateCommandRules :: "bool \<Rightarrow> string \<Rightarrow> js option \<Rightarrow> permission_rule list option option checked" where
  "validateCommandRules wrapper fld raw =
     (case raw of
        None \<Rightarrow> Inr None
      | Some JNull \<Rightarrow> Inr (Some None)
      | Some (JArr xs) \<Rightarrow>
          (case validate_rules wrapper xs of
             None \<Rightarrow> Inl (''commands.'' @ fld)
           | Some rules \<Rightarrow> Inr (Some (Some rules)))
      | Some _ \<Rightarrow> Inl (''commands.'' @ fld))"

definition validate_exec_dir :: "js option \<Rightarrow> exec_dir option option checked" where
  "validate_exec_dir raw =
     (case raw of
        None \<Rightarrow> Inr None
      | Some JNull \<Rightarrow> Inr (Some None)
      | Some (JObj m) \<Rightarrow>
          (case jm_get m ''mode'' of
             Some (JStr s) \<Rightarrow>
               if s = ''shared'' then Inr (Some (Some DirShared))
               else if s = ''per-chat'' then Inr (Some (Some DirPerChat))
               else if s = ''custom'' then
                 (case jm_get m ''path'' of
                    Some (JStr p) \<Rightarrow> if isAbsolute p then Inr (Some (Some (DirCustom p)))
                                      else Inl ''executionDir.path''
                  | _ \<Rightarrow> Inl ''executionDir.path'')
               else Inl ''executionDir.mode''
           | _ \<Rightarrow> Inl ''executionDir.mode'')
      | Some _ \<Rightarrow> Inl ''executionDir'')"

definition validate_binding :: "js option \<Rightarrow> string option option checked" where
  "validate_binding raw =
     (case raw of
        None \<Rightarrow> Inr None
      | Some JNull \<Rightarrow> Inr (Some None)
      | Some (JObj m) \<Rightarrow>
          (case jm_get m ''executionCwd'' of
             Some (JStr p) \<Rightarrow> if isAbsolute p then Inr (Some (Some p)) else Inl ''binding.executionCwd''
           | _ \<Rightarrow> Inl ''binding.executionCwd'')
      | Some _ \<Rightarrow> Inl ''binding'')"

definition validate_scratch :: "js option \<Rightarrow> bool option option checked" where
  "validate_scratch raw =
     (case raw of
        None \<Rightarrow> Inr None
      | Some JNull \<Rightarrow> Inr (Some None)
      | Some (JBool b) \<Rightarrow> Inr (Some (Some b))
      | Some _ \<Rightarrow> Inl ''perChatScratch'')"

text \<open>An optional sub-object of the layer: absent is the empty one.\<close>

definition sub_object :: "string \<Rightarrow> js option \<Rightarrow> (string, js) js_map checked" where
  "sub_object fld raw =
     (case raw of None \<Rightarrow> Inr [] | Some (JObj m) \<Rightarrow> Inr m | Some _ \<Rightarrow> Inl fld)"

definition chk :: "'a checked \<Rightarrow> ('a \<Rightarrow> 'b checked) \<Rightarrow> 'b checked" where
  "chk x f = (case x of Inl e \<Rightarrow> Inl e | Inr a \<Rightarrow> f a)"

definition validatePartial :: "js option \<Rightarrow> policy_patch checked" where
  "validatePartial raw =
     (case raw of
        None \<Rightarrow> Inr empty_patch
      | Some (JObj m) \<Rightarrow>
          chk (sub_object ''tools'' (jm_get m ''tools'')) (\<lambda>t.
          chk (validate_verdict ''fsTools'' (jm_get t ''fsTools'')) (\<lambda>fs.
          chk (validate_verdict ''shell'' (jm_get t ''shell'')) (\<lambda>sh.
          chk (sub_object ''commands'' (jm_get m ''commands'')) (\<lambda>c.
          chk (validate_mode (jm_get c ''mode'')) (\<lambda>mode.
          chk (validateCommandRules False ''allow'' (jm_get c ''allow'')) (\<lambda>allow.
          chk (validateCommandRules True ''deny'' (jm_get c ''deny'')) (\<lambda>deny.
          chk (validate_exec_dir (jm_get m ''executionDir'')) (\<lambda>dir.
          chk (validate_binding (jm_get m ''binding'')) (\<lambda>binding.
          chk (validate_scratch (jm_get m ''perChatScratch'')) (\<lambda>scratch.
            Inr \<lparr>pp_fsTools = fs, pp_shell = sh, pp_mode = mode, pp_allow = allow,
              pp_deny = deny, pp_executionDir = dir, pp_binding = binding,
              pp_perChatScratch = scratch\<rparr>))))))))))
      | Some _ \<Rightarrow> Inl ''root'')"

subsection \<open>Merging\<close>

text \<open>One field of a setter: absent keeps, \<open>null\<close> deletes, a value replaces.\<close>

definition set_field :: "js option \<Rightarrow> string \<Rightarrow> (string, js) js_map \<Rightarrow> (string, js) js_map" where
  "set_field value fld obj =
     (case value of
        None \<Rightarrow> obj
      | Some JNull \<Rightarrow> jm_delete obj fld
      | Some v \<Rightarrow> jm_set obj fld v)"

definition js_present :: "js option \<Rightarrow> js option" where
  "js_present v = (case v of Some JNull \<Rightarrow> None | _ \<Rightarrow> v)"

definition entry :: "string \<Rightarrow> js option \<Rightarrow> (string, js) js_map" where
  "entry k v = (case v of None \<Rightarrow> [] | Some x \<Rightarrow> [(k, x)])"

definition obj_entry :: "string \<Rightarrow> (string, js) js_map \<Rightarrow> (string, js) js_map" where
  "obj_entry k m = (if m = [] then [] else [(k, JObj m)])"

definition merge_tools :: "js \<Rightarrow> js \<Rightarrow> (string, js) js_map" where
  "merge_tools base patch =
     foldl (\<lambda>tools fld. set_field (opt_prop (js_prop patch ''tools'') fld) fld tools)
       (case js_prop base ''tools'' of None \<Rightarrow> [] | Some t \<Rightarrow> js_entries t)
       [''fsTools'', ''shell'']"

definition merge_commands :: "js \<Rightarrow> js \<Rightarrow> (string, js) js_map" where
  "merge_commands base patch =
     foldl (\<lambda>commands fld. set_field (opt_prop (js_prop patch ''commands'') fld) fld commands)
       (case js_prop base ''commands'' of None \<Rightarrow> [] | Some c \<Rightarrow> js_entries c)
       [''mode'', ''allow'', ''deny'']"

definition merge_dir :: "js \<Rightarrow> js \<Rightarrow> js option" where
  "merge_dir base patch =
     (case js_prop patch ''executionDir'' of
        Some d \<Rightarrow> js_present (Some d)
      | None \<Rightarrow> js_prop base ''executionDir'')"

definition merge_legacy :: "js \<Rightarrow> js \<Rightarrow> string \<Rightarrow> js option" where
  "merge_legacy base patch fld =
     (if js_prop patch ''executionDir'' \<noteq> None then None
      else (case js_prop patch fld of
              Some v \<Rightarrow> js_present (Some v)
            | None \<Rightarrow> js_prop base fld))"

definition mergeImWorkspacePolicyPatch :: "js \<Rightarrow> js \<Rightarrow> js" where
  "mergeImWorkspacePolicyPatch base patch =
     JObj (obj_entry ''tools'' (merge_tools base patch)
       @ obj_entry ''commands'' (merge_commands base patch)
       @ entry ''executionDir'' (merge_dir base patch)
       @ entry ''binding'' (merge_legacy base patch ''binding'')
       @ entry ''perChatScratch'' (merge_legacy base patch ''perChatScratch''))"

text \<open>The value of a field, if the layer has one that is not \<open>null\<close>.\<close>

definition present :: "'a option option \<Rightarrow> 'a option" where
  "present f = (case f of Some v \<Rightarrow> v | None \<Rightarrow> None)"

definition rules_or_absent :: "permission_rule list \<Rightarrow> permission_rule list option" where
  "rules_or_absent rules = (if rules = [] then None else Some rules)"

definition dedupeRules :: "permission_rule list \<Rightarrow> permission_rule list" where
  "dedupeRules rules = uniq rules"

definition mergeImWorkspacePolicy :: "im_policy \<Rightarrow> policy_patch \<Rightarrow> im_policy" where
  "mergeImWorkspacePolicy base patch =
     (let allow = dedupeRules (or_else (icp_allow (ip_commands base)) [] @ or_else (present (pp_allow patch)) []);
          deny = dedupeRules (or_else (icp_deny (ip_commands base)) [] @ or_else (present (pp_deny patch)) [])
      in \<lparr>ip_fsTools = or_else (present (pp_fsTools patch)) (ip_fsTools base),
          ip_shell = or_else (present (pp_shell patch)) (ip_shell base),
          ip_commands =
            \<lparr>icp_mode = or_else (present (pp_mode patch)) (icp_mode (ip_commands base)),
             icp_allow = rules_or_absent allow, icp_deny = rules_or_absent deny\<rparr>,
          ip_executionDir = or_else (present (pp_executionDir patch)) (ip_executionDir base)\<rparr>)"

definition validateImWorkspacePolicy :: "js option \<Rightarrow> im_policy checked" where
  "validateImWorkspacePolicy raw =
     chk (validatePartial raw) (\<lambda>patch. Inr (mergeImWorkspacePolicy DEFAULT_IM_WORKSPACE_POLICY patch))"

subsection \<open>The working directory of a layer\<close>

datatype policy_source = FromDefault | FromGlobal | FromChannel | FromChat

type_synonym dir_source = "exec_dir \<times> policy_source"

definition deriveLayerExecutionDir :: "policy_patch \<Rightarrow> (exec_dir \<times> bool) option" where
  "deriveLayerExecutionDir patch =
     (case present (pp_executionDir patch) of
        Some d \<Rightarrow> Some (d, True)
      | None \<Rightarrow>
          if (\<exists>cwd \<in> set_option (present (pp_binding patch)). isAbsolute cwd)
          then Some (DirCustom (or_else (present (pp_binding patch)) []), False)
          else if present (pp_perChatScratch patch) = Some True then Some (DirPerChat, False)
          else if present (pp_perChatScratch patch) = Some False then Some (DirShared, False)
          else None)"

fun is_custom :: "exec_dir \<Rightarrow> bool" where
  "is_custom (DirCustom _) = True"
| "is_custom _ = False"

definition resolveLayerExecutionDir ::
  "policy_patch \<Rightarrow> dir_source \<Rightarrow> policy_source \<Rightarrow> dir_source" where
  "resolveLayerExecutionDir patch parent source =
     (case deriveLayerExecutionDir patch of
        None \<Rightarrow> parent
      | Some (d, explicit) \<Rightarrow>
          if \<not> explicit \<and> is_custom (fst parent) \<and> \<not> is_custom d then parent
          else (d, source))"

definition default_dir :: dir_source where
  "default_dir = (ip_executionDir DEFAULT_IM_WORKSPACE_POLICY, FromDefault)"

subsection \<open>Resolving a document\<close>

text \<open>A layer of a document that is present: its patch, or \<^const>\<open>None\<close> when it is corrupt (which
  is logged). An absent layer has no patch.\<close>

definition layer_patch :: "js option \<Rightarrow> policy_patch option" where
  "layer_patch raw =
     (case raw of
        None \<Rightarrow> None
      | Some r \<Rightarrow> (case validatePartial (Some r) of Inl _ \<Rightarrow> None | Inr p \<Rightarrow> Some p))"

definition merge_layer :: "im_policy \<times> dir_source \<Rightarrow> policy_source \<Rightarrow> js option \<Rightarrow> im_policy \<times> dir_source" where
  "merge_layer acc source raw =
     (case layer_patch raw of
        None \<Rightarrow> acc
      | Some patch \<Rightarrow>
          let dir = resolveLayerExecutionDir patch (snd acc) source in
          (mergeImWorkspacePolicy (fst acc) (patch\<lparr>pp_executionDir := Some (Some (fst dir))\<rparr>), dir))"

definition default_layer :: "js \<Rightarrow> js option" where
  "default_layer doc = js_prop doc ''default''"

definition chat_layer :: "js \<Rightarrow> string \<Rightarrow> js option" where
  "chat_layer doc key = opt_prop (js_prop doc ''chats'') key"

text \<open>The layers of a document over the built-in default; no key skips the chat layer.\<close>

definition document_policy :: "js \<Rightarrow> string option \<Rightarrow> im_policy" where
  "document_policy doc key =
     (let acc = merge_layer (DEFAULT_IM_WORKSPACE_POLICY, default_dir) FromChannel (default_layer doc)
      in fst (case key of None \<Rightarrow> acc | Some k \<Rightarrow> merge_layer acc FromChat (chat_layer doc k)))"

text \<open>The key of the scope: none for the channel; \<^const>\<open>None\<close> outside where \<open>chatPolicyKey\<close> throws.\<close>

definition scope_key :: "(string \<Rightarrow> string) \<Rightarrow> im_route option \<Rightarrow> string option option" where
  "scope_key sha256 route =
     (case route of None \<Rightarrow> Some None | Some r \<Rightarrow> map_option Some (chatPolicyKey sha256 r))"

definition mergeDocumentLayers ::
  "(string \<Rightarrow> string) \<Rightarrow> js option \<Rightarrow> im_route option \<Rightarrow> im_policy option" where
  "mergeDocumentLayers sha256 raw route =
     (case raw of
        Some (JObj m) \<Rightarrow> map_option (document_policy (JObj m)) (scope_key sha256 route)
      | _ \<Rightarrow> Some DEFAULT_IM_WORKSPACE_POLICY)"

definition resolveImWorkspacePolicyFromDocument ::
  "(string \<Rightarrow> string) \<Rightarrow> js option \<Rightarrow> im_route \<Rightarrow> im_policy option" where
  "resolveImWorkspacePolicyFromDocument sha256 raw route = mergeDocumentLayers sha256 raw (Some route)"

definition resolveChannelDefaultFromDocument ::
  "(string \<Rightarrow> string) \<Rightarrow> js option \<Rightarrow> im_policy option" where
  "resolveChannelDefaultFromDocument sha256 raw = mergeDocumentLayers sha256 raw None"

subsection \<open>Describing a document\<close>

text \<open>The views an editor shows. They take the document and the key of the scope they describe: none for
  the channel, the chat's \<open>chatPolicyKey\<close> otherwise.\<close>

definition readPolicyLayers :: "js option \<Rightarrow> string option \<Rightarrow> policy_patch \<times> policy_patch option" where
  "readPolicyLayers raw key =
     (case raw of
        Some (JObj m) \<Rightarrow>
          (or_else (layer_patch (default_layer (JObj m))) empty_patch,
           map_option (\<lambda>k. or_else (layer_patch (chat_layer (JObj m) k)) empty_patch) key)
      | _ \<Rightarrow> (empty_patch, map_option (\<lambda>_. empty_patch) key))"

record 'a policy_field =
  pf_value :: 'a
  pf_source :: policy_source
  pf_inherited :: "'a \<times> policy_source"

definition pick :: "bool \<Rightarrow> 'a option \<Rightarrow> 'a option \<Rightarrow> 'a \<Rightarrow> 'a policy_field" where
  "pick channelScope chatValue channelValue fallback =
     (let fromDefault = (fallback, FromDefault);
          fromChannel = (case channelValue of Some v \<Rightarrow> (v, FromChannel) | None \<Rightarrow> fromDefault);
          inherited = (if channelScope then fromDefault else fromChannel)
      in case chatValue of
           Some v \<Rightarrow> \<lparr>pf_value = v, pf_source = FromChat, pf_inherited = inherited\<rparr>
         | None \<Rightarrow> \<lparr>pf_value = fst fromChannel, pf_source = snd fromChannel, pf_inherited = inherited\<rparr>)"

definition resolveExecutionDirChain :: "policy_patch \<Rightarrow> policy_patch option \<Rightarrow> dir_source" where
  "resolveExecutionDirChain channel chat =
     (let dir = resolveLayerExecutionDir channel default_dir FromChannel in
      case chat of None \<Rightarrow> dir | Some c \<Rightarrow> resolveLayerExecutionDir c dir FromChat)"

record policy_sources =
  so_fsTools :: "js policy_field"
  so_shell :: "js policy_field"
  so_commandMode :: "permission_mode policy_field"
  so_executionDir :: "exec_dir policy_field"

definition layer_value :: "(policy_patch \<Rightarrow> 'a option option) \<Rightarrow> policy_patch option \<Rightarrow> 'a option" where
  "layer_value fld layer = (case layer of None \<Rightarrow> None | Some p \<Rightarrow> present (fld p))"

definition describeImPolicySources :: "js option \<Rightarrow> string option \<Rightarrow> policy_sources" where
  "describeImPolicySources raw key =
     (let (channel, chat) = readPolicyLayers raw key;
          channelScope = (key = None);
          channelDir = resolveLayerExecutionDir channel default_dir FromChannel;
          dir = resolveExecutionDirChain channel chat
      in \<lparr>so_fsTools = pick channelScope (layer_value pp_fsTools chat) (present (pp_fsTools channel)) (JStr ''deny''),
          so_shell = pick channelScope (layer_value pp_shell chat) (present (pp_shell channel)) (JStr ''deny''),
          so_commandMode = pick channelScope (layer_value pp_mode chat) (present (pp_mode channel)) ModeAsk,
          so_executionDir = \<lparr>pf_value = fst dir, pf_source = snd dir,
            pf_inherited = (if channelScope then default_dir else channelDir)\<rparr>\<rparr>)"

record rule_group =
  rg_source :: policy_source
  rg_rules :: "permission_rule list"
  rg_editable :: bool

definition rule_groups ::
  "permission_rule list option \<Rightarrow> bool \<Rightarrow> permission_rule list \<Rightarrow> permission_rule list \<Rightarrow> rule_group list" where
  "rule_groups globalRules channelScope channelList chatList =
     (let globalList = or_else globalRules [] in
      (if globalList = [] then []
       else [\<lparr>rg_source = FromGlobal, rg_rules = globalList, rg_editable = False\<rparr>])
      @ (if channelScope
         then [\<lparr>rg_source = FromChannel, rg_rules = channelList, rg_editable = True\<rparr>]
         else if channelList \<noteq> []
         then [\<lparr>rg_source = FromChannel, rg_rules = channelList, rg_editable = False\<rparr>] else [])
      @ (if \<not> channelScope
         then [\<lparr>rg_source = FromChat, rg_rules = chatList, rg_editable = True\<rparr>] else []))"

text \<open>The allow and the deny groups.\<close>

definition describeImPolicyRules ::
  "js option \<Rightarrow> string option \<Rightarrow> permission_rule list option \<Rightarrow> permission_rule list option
     \<Rightarrow> rule_group list \<times> rule_group list" where
  "describeImPolicyRules raw key globalAllow globalDeny =
     (let (channel, chat) = readPolicyLayers raw key in
      (rule_groups globalAllow (key = None) (or_else (present (pp_allow channel)) [])
         (or_else (layer_value pp_allow chat) []),
       rule_groups globalDeny (key = None) (or_else (present (pp_deny channel)) [])
         (or_else (layer_value pp_deny chat) [])))"

record override_entry =
  oe_key :: string
  oe_route :: "im_route option"
  oe_patch :: js

text \<open>\<^const>\<open>None\<close> where \<open>chatPolicyKey\<close> throws on a conversation without peer or chat.\<close>

fun routes_by_key ::
  "(string \<Rightarrow> string) \<Rightarrow> string \<Rightarrow> im_route list \<Rightarrow> (string, im_route) js_map \<Rightarrow> (string, im_route) js_map option" where
  "routes_by_key sha256 channelId [] byKey = Some byKey"
| "routes_by_key sha256 channelId (c # cs) byKey =
     (if rt_channelId c \<noteq> channelId then routes_by_key sha256 channelId cs byKey
      else (case chatPolicyKey sha256 c of
              None \<Rightarrow> None
            | Some k \<Rightarrow> routes_by_key sha256 channelId cs (jm_set byKey k c)))"

definition describeImChatOverrides ::
  "(string \<Rightarrow> string) \<Rightarrow> js option \<Rightarrow> string \<Rightarrow> im_route list \<Rightarrow> override_entry list option" where
  "describeImChatOverrides sha256 raw channelId conversations =
     (case raw of
        Some (JObj m) \<Rightarrow>
          map_option (\<lambda>byKey.
            map (\<lambda>e. \<lparr>oe_key = fst e, oe_route = jm_get byKey (fst e), oe_patch = snd e\<rparr>)
              (case jm_get m ''chats'' of None \<Rightarrow> [] | Some c \<Rightarrow> js_entries c))
            (routes_by_key sha256 channelId conversations [])
      | _ \<Rightarrow> Some [])"

subsection \<open>Normal form and migration\<close>

text \<open>A patch as it is written back to disk.\<close>

definition field_json :: "string \<Rightarrow> ('a \<Rightarrow> js) \<Rightarrow> 'a option option \<Rightarrow> (string, js) js_map" where
  "field_json k enc f = entry k (map_option (\<lambda>v. case v of None \<Rightarrow> JNull | Some x \<Rightarrow> enc x) f)"

fun mode_json :: "permission_mode \<Rightarrow> js" where
  "mode_json ModeAsk = JStr ''ask''"
| "mode_json ModeAuto = JStr ''auto''"

definition rules_json :: "permission_rule list \<Rightarrow> js" where
  "rules_json rules = JArr (map JStr rules)"

fun dir_json :: "exec_dir \<Rightarrow> js" where
  "dir_json DirShared = JObj [(''mode'', JStr ''shared'')]"
| "dir_json DirPerChat = JObj [(''mode'', JStr ''per-chat'')]"
| "dir_json (DirCustom p) = JObj [(''mode'', JStr ''custom''), (''path'', JStr p)]"

definition patch_json :: "policy_patch \<Rightarrow> js" where
  "patch_json p =
     JObj (obj_entry ''tools'' (field_json ''fsTools'' id (pp_fsTools p) @ field_json ''shell'' id (pp_shell p))
       @ obj_entry ''commands'' (field_json ''mode'' mode_json (pp_mode p)
           @ field_json ''allow'' rules_json (pp_allow p) @ field_json ''deny'' rules_json (pp_deny p))
       @ field_json ''executionDir'' dir_json (pp_executionDir p)
       @ field_json ''binding'' (\<lambda>cwd. JObj [(''executionCwd'', JStr cwd)]) (pp_binding p)
       @ field_json ''perChatScratch'' JBool (pp_perChatScratch p))"

definition safeValidatePartial :: "js option \<Rightarrow> policy_patch option" where
  "safeValidatePartial raw = (case validatePartial raw of Inl _ \<Rightarrow> None | Inr p \<Rightarrow> Some p)"

definition normal_dir :: "exec_dir option \<Rightarrow> policy_patch \<Rightarrow> exec_dir option option" where
  "normal_dir ancestorDir patch =
     (case pp_executionDir patch of
        None \<Rightarrow>
          (case deriveLayerExecutionDir patch of
             None \<Rightarrow> None
           | Some (d, explicit) \<Rightarrow>
               if \<not> explicit \<and> (\<exists>a \<in> set_option ancestorDir. is_custom a) \<and> \<not> is_custom d
               then None else Some (Some d))
      | Some None \<Rightarrow> None
      | Some (Some d) \<Rightarrow> Some (Some d))"

definition normalizeLayerPatch :: "js option \<Rightarrow> exec_dir option \<Rightarrow> policy_patch option" where
  "normalizeLayerPatch raw ancestorDir =
     (case raw of
        Some (JObj m) \<Rightarrow>
          map_option (\<lambda>patch. patch\<lparr>pp_executionDir := normal_dir ancestorDir patch,
              pp_binding := None, pp_perChatScratch := None\<rparr>)
            (safeValidatePartial (Some (JObj m)))
      | _ \<Rightarrow> None)"

text \<open>\<open>chats[key] = normalized\<close> for every entry whose layer is valid.\<close>

fun normal_chats :: "exec_dir \<Rightarrow> (string, js) js_map \<Rightarrow> (string, js) js_map \<Rightarrow> (string, js) js_map" where
  "normal_chats channelDir [] chats = chats"
| "normal_chats channelDir ((key, rawPatch) # es) chats =
     normal_chats channelDir es
       (case normalizeLayerPatch (Some rawPatch) (Some channelDir) of
          None \<Rightarrow> chats
        | Some normalized \<Rightarrow> jm_set chats key (patch_json normalized))"

definition channel_dir :: "js \<Rightarrow> dir_source" where
  "channel_dir doc =
     (case layer_patch (default_layer doc) of
        None \<Rightarrow> default_dir
      | Some patch \<Rightarrow> resolveLayerExecutionDir patch default_dir FromChannel)"

definition chat_entries :: "js \<Rightarrow> (string, js) js_map" where
  "chat_entries doc = (case js_prop doc ''chats'' of None \<Rightarrow> [] | Some c \<Rightarrow> js_entries c)"

definition normalizePolicyDocument :: "js \<Rightarrow> js" where
  "normalizePolicyDocument raw =
     (case raw of
        JObj m \<Rightarrow>
          JObj (entry ''default'' (map_option patch_json (normalizeLayerPatch (default_layer raw) None))
            @ obj_entry ''chats'' (normal_chats (fst (channel_dir raw)) (chat_entries raw) []))
      | _ \<Rightarrow> JObj [])"

definition migrate_layer :: "js \<Rightarrow> js" where
  "migrate_layer layer =
     (case layer of
        JObj m \<Rightarrow>
          (case jm_get m ''commands'' of
             Some (JObj c) \<Rightarrow>
               if jm_get c ''mode'' = Some (JStr ''auto'')
               then JObj (jm_set m ''commands'' (JObj (jm_set c ''mode'' (JStr ''ask''))))
               else layer
           | _ \<Rightarrow> layer)
      | _ \<Rightarrow> layer)"

text \<open>\<open>out[k] = f(v)\<close> where the document has a truthy value there.\<close>

definition rewrite_field :: "string \<Rightarrow> (js \<Rightarrow> js) \<Rightarrow> (string, js) js_map \<Rightarrow> (string, js) js_map" where
  "rewrite_field k f m =
     (case jm_get m k of Some v \<Rightarrow> if js_truthy v then jm_set m k (f v) else m | None \<Rightarrow> m)"

definition migrateLegacyImPolicyDocument :: "(string, js) js_map \<Rightarrow> (string, js) js_map" where
  "migrateLegacyImPolicyDocument doc =
     (if jm_get doc ''version'' \<noteq> None then doc
      else rewrite_field ''chats'' (\<lambda>c. JObj (map (\<lambda>e. (fst e, migrate_layer (snd e))) (js_entries c)))
             (rewrite_field ''default'' migrate_layer doc))"

subsection \<open>What the policy removes and where it runs\<close>

record 'b tool =
  to_name :: string
  to_body :: 'b

text \<open>The overrides that remain: the last one registered under each name, at the place of the
  first.\<close>

fun last_by_name :: "'b tool list \<Rightarrow> (string, 'b tool) js_map \<Rightarrow> (string, 'b tool) js_map" where
  "last_by_name [] m = m"
| "last_by_name (t # ts) m = last_by_name ts (jm_set m (to_name t) t)"

definition dedupOverride :: "'b tool list \<Rightarrow> 'b tool list \<Rightarrow> 'b tool list" where
  "dedupOverride base overrides =
     (let lastByName = last_by_name overrides [] in
      filter (\<lambda>t. to_name t \<notin> set (map fst lastByName)) base @ map snd lastByName)"

definition filterToolsForImPolicy :: "'b tool list \<Rightarrow> im_policy \<Rightarrow> 'b tool list" where
  "filterToolsForImPolicy tools policy =
     (let drop_names =
            (if ip_fsTools policy = JStr ''deny'' then FILE_ACCESS_TOOL_NAMES else [])
            @ (if ip_shell policy = JStr ''deny'' then [SHELL_TOOL] else [])
      in if drop_names = [] then tools else filter (\<lambda>t. to_name t \<notin> set drop_names) tools)"

record exec_cwd =
  ec_executionCwd :: string
  ec_shared :: bool
  ec_warning :: "string option"

text \<open>\<open>accessSync(real, W_OK)\<close> is a parameter.\<close>

definition isValidWritableDir :: "host \<Rightarrow> (string \<Rightarrow> bool) \<Rightarrow> string \<Rightarrow> bool" where
  "isValidWritableDir H writable dir =
     (case h_realpath H dir of
        None \<Rightarrow> False
      | Some real \<Rightarrow> h_isdir H real = Some True \<and> writable real)"

definition resolveImExecutionCwd ::
  "host \<Rightarrow> (string \<Rightarrow> bool) \<Rightarrow> (string \<Rightarrow> string) \<Rightarrow> string \<Rightarrow> im_route \<Rightarrow> im_policy \<Rightarrow> exec_cwd option" where
  "resolveImExecutionCwd H writable sha256 sessionsRoot route policy =
     (let defaultScratch = path_join [sessionsRoot, ''scratch''];
          shared = \<lparr>ec_executionCwd = defaultScratch, ec_shared = True, ec_warning = None\<rparr>
      in case ip_executionDir policy of
           DirCustom p \<Rightarrow>
             if p = [] then Some shared
             else (case checkGrantRootSafety H p of
                     GrantDenied reason \<Rightarrow>
                       Some (shared\<lparr>ec_warning := Some (''executionDir '' @ p @ '' rejected: '' @ reason
                         @ ''; falling back to '' @ defaultScratch)\<rparr>)
                   | GrantOk \<Rightarrow>
                       if isValidWritableDir H writable p
                       then Some \<lparr>ec_executionCwd = p, ec_shared = False, ec_warning = None\<rparr>
                       else Some (shared\<lparr>ec_warning := Some (''executionDir '' @ p
                         @ '' is not a writable directory, falling back to '' @ defaultScratch)\<rparr>))
         | DirPerChat \<Rightarrow>
             map_option (\<lambda>k. \<lparr>ec_executionCwd = path_join [sessionsRoot, ''chats'', k, ''scratch''],
                 ec_shared = False, ec_warning = None\<rparr>) (chatPolicyKey sha256 route)
         | DirShared \<Rightarrow> Some shared)"

end
