(* ===== verification/ImPolicyLaws.thy ===== *)
theory ImPolicyLaws
  imports ImPolicy
begin

text \<open>
  The laws of the chat policy. Every field of a layer is validated, merged and written back in
  the same way, so the field's laws are stated once, as the locale \<open>field_codec\<close>, and
  interpreted on the six validators of \<^const>\<open>validatePartial\<close>. The properties follow: a patch
  survives being written and read, a setter changes the fields it names and no others, the
  normal form and the migration of old documents keep what a chat may do, the views show what
  is enforced, and nothing is allowed that a valid layer does not say.
\<close>

section \<open>One field of a layer\<close>

text \<open>What a setter does to a field, on JSON and on validated values.\<close>

definition override :: "js option \<Rightarrow> js option \<Rightarrow> js option" where
  "override old new = (case new of None \<Rightarrow> old | Some v \<Rightarrow> js_present (Some v))"

definition patch_field :: "'a option option \<Rightarrow> 'a option option \<Rightarrow> 'a option option" where
  "patch_field old new = (case new of None \<Rightarrow> old | Some None \<Rightarrow> None | Some (Some v) \<Rightarrow> Some (Some v))"

definition field_ok :: "('a \<Rightarrow> bool) \<Rightarrow> 'a option option \<Rightarrow> bool" where
  "field_ok ok f \<longleftrightarrow> (case f of Some (Some x) \<Rightarrow> ok x | _ \<Rightarrow> True)"

lemma field_ok_True: "field_ok (\<lambda>_. True) f"
  by (simp add: field_ok_def split: option.splits)

locale field_validator =
  fixes validate :: "js option \<Rightarrow> 'a option option checked"
  assumes absent: "validate None = Inr None"
    and null: "validate (Some JNull) = Inr (Some None)"
    and valued: "v \<noteq> JNull \<Longrightarrow> validate (Some v) = Inr f \<Longrightarrow> \<exists>x. f = Some (Some x)"
begin

lemma validate_override:
  assumes "validate old = Inr f" "validate new = Inr g"
  shows "validate (override old new) = Inr (patch_field f g)"
proof (cases new)
  case None
  then show ?thesis using assms absent by (simp add: override_def patch_field_def)
next
  case (Some v)
  show ?thesis
  proof (cases "v = JNull")
    case True
    then show ?thesis
      using assms Some null absent
      by (auto simp: override_def patch_field_def js_present_def)
  next
    case False
    then obtain x where "g = Some (Some x)" using valued assms(2) Some by blast
    then show ?thesis
      using assms(2) Some False
      by (cases v) (simp_all add: override_def patch_field_def js_present_def)
  qed
qed

lemma present_valued: "validate v = Inr f \<Longrightarrow> present f = Some x \<Longrightarrow> \<exists>u. v = Some u \<and> u \<noteq> JNull"
  using absent null by (cases v; cases "v = Some JNull") (auto simp: present_def)

end

locale field_codec = field_validator validate
  for validate :: "js option \<Rightarrow> 'a option option checked" +
  fixes enc :: "'a \<Rightarrow> js" and ok :: "'a \<Rightarrow> bool"
  assumes validate_enc: "ok x \<Longrightarrow> validate (Some (enc x)) = Inr (Some (Some x))"
    and validate_ok: "validate v = Inr (Some (Some x)) \<Longrightarrow> ok x"
begin

lemma validate_field_ok: "validate v = Inr f \<Longrightarrow> field_ok ok f"
  using validate_ok by (auto simp: field_ok_def split: option.splits)

lemma validate_json:
  "field_ok ok f \<Longrightarrow>
    validate (map_option (\<lambda>v. case v of None \<Rightarrow> JNull | Some x \<Rightarrow> enc x) f) = Inr f"
  using validate_enc absent null by (auto simp: field_ok_def split: option.splits)

end

subsection \<open>The six validators\<close>

fun verdict_ok :: "js \<Rightarrow> bool" where
  "verdict_ok v = (v \<noteq> JNull \<and> js_text v \<in> set TOOL_VERDICTS)"

lemma verdict_cases:
  "v \<noteq> JNull \<Longrightarrow> validate_verdict fld (Some v) =
     (if js_text v \<in> set TOOL_VERDICTS then Inr (Some (Some v)) else Inl (''tools.'' @ fld))"
  by (cases v) (simp_all only: validate_verdict_def option.case js.case js.distinct simp_thms)

interpretation verdict: field_codec "validate_verdict fld" id verdict_ok
proof
  show "validate_verdict fld None = Inr None" "validate_verdict fld (Some JNull) = Inr (Some None)"
    by (simp_all only: validate_verdict_def option.case js.case)
  show "\<exists>x. f = Some (Some x)" if "v \<noteq> JNull" "validate_verdict fld (Some v) = Inr f" for v f
    using that verdict_cases[OF that(1)] by (auto split: if_splits)
  show "validate_verdict fld (Some (id x)) = Inr (Some (Some x))" if "verdict_ok x" for x
    using that verdict_cases[of x] by simp
  show "verdict_ok x" if "validate_verdict fld v = Inr (Some (Some x))" for v x
  proof (cases v)
    case None then show ?thesis using that by (simp add: validate_verdict_def)
  next
    case (Some w)
    then show ?thesis
      using that verdict_cases[of w] by (cases "w = JNull") (auto simp: validate_verdict_def split: if_splits)
  qed
qed

lemma mode_values:
  "validate_mode (Some v) = Inr f \<Longrightarrow>
     (v = JNull \<and> f = Some None) \<or> (\<exists>m. v = mode_json m \<and> f = Some (Some m))"
  unfolding validate_mode_def option.case
  by (cases v) (auto simp only: js.case sum.inject split: if_splits intro: mode_json.simps[symmetric])

interpretation mode: field_codec validate_mode mode_json "\<lambda>_. True"
proof
  show "validate_mode None = Inr None" "validate_mode (Some JNull) = Inr (Some None)"
    by (simp_all only: validate_mode_def option.case js.case)
  show "\<exists>x. f = Some (Some x)" if "v \<noteq> JNull" "validate_mode (Some v) = Inr f" for v f
    using that mode_values by blast
  show "validate_mode (Some (mode_json x)) = Inr (Some (Some x))" if True for x
    by (cases x) (simp_all add: validate_mode_def)
  show True if "validate_mode v = Inr (Some (Some x))" for v x ..
qed

definition rules_ok :: "bool \<Rightarrow> permission_rule list \<Rightarrow> bool" where
  "rules_ok wrapper rules \<longleftrightarrow> list_all (\<lambda>r. validatePermissionRule r wrapper = Inr r) rules"

lemma validate_rules_ok: "validate_rules wrapper xs = Some rules \<Longrightarrow> rules_ok wrapper rules"
  by (induction wrapper xs arbitrary: rules rule: validate_rules.induct)
    (auto simp: rules_ok_def split: sum.splits dest: validatePermissionRule_ok)

lemma validate_rules_json: "rules_ok wrapper rules \<Longrightarrow> validate_rules wrapper (map JStr rules) = Some rules"
  by (induction rules) (auto simp: rules_ok_def)

interpretation rules: field_codec "validateCommandRules wrapper fld" rules_json "rules_ok wrapper"
proof
  show "validateCommandRules wrapper fld None = Inr None"
    "validateCommandRules wrapper fld (Some JNull) = Inr (Some None)"
    by (simp_all add: validateCommandRules_def)
  show "\<exists>x. f = Some (Some x)" if "v \<noteq> JNull" "validateCommandRules wrapper fld (Some v) = Inr f" for v f
    using that by (cases v) (auto simp: validateCommandRules_def split: option.splits)
  show "validateCommandRules wrapper fld (Some (rules_json x)) = Inr (Some (Some x))"
    if "rules_ok wrapper x" for x
    using validate_rules_json[OF that] by (simp add: validateCommandRules_def rules_json_def)
  show "rules_ok wrapper x" if "validateCommandRules wrapper fld v = Inr (Some (Some x))" for v x
    using that validate_rules_ok
    by (auto simp: validateCommandRules_def split: option.splits js.splits)
qed

fun dir_ok :: "exec_dir \<Rightarrow> bool" where
  "dir_ok (DirCustom p) = isAbsolute p"
| "dir_ok _ = True"

interpretation dir: field_codec validate_exec_dir dir_json dir_ok
proof
  show "validate_exec_dir None = Inr None" "validate_exec_dir (Some JNull) = Inr (Some None)"
    by (simp_all only: validate_exec_dir_def option.case js.case)
  show "\<exists>x. f = Some (Some x)" if "v \<noteq> JNull" "validate_exec_dir (Some v) = Inr f" for v f
    using that unfolding validate_exec_dir_def option.case
    by (cases v) (auto simp only: js.case sum.inject split: if_splits option.splits js.splits)
  show "validate_exec_dir (Some (dir_json x)) = Inr (Some (Some x))" if "dir_ok x" for x
    using that by (cases x) (simp_all add: validate_exec_dir_def jm_get_def)
  show "dir_ok x" if "validate_exec_dir v = Inr (Some (Some x))" for v x
    using that unfolding validate_exec_dir_def
    by (auto simp only: js.case sum.inject option.inject option.distinct sum.distinct dir_ok.simps
        split: if_splits option.splits js.splits)
qed

interpretation binding: field_codec validate_binding
  "\<lambda>cwd. JObj [(''executionCwd'', JStr cwd)]" isAbsolute
proof
  show "validate_binding None = Inr None" "validate_binding (Some JNull) = Inr (Some None)"
    by (simp_all only: validate_binding_def option.case js.case)
  show "\<exists>x. f = Some (Some x)" if "v \<noteq> JNull" "validate_binding (Some v) = Inr f" for v f
    using that unfolding validate_binding_def option.case
    by (cases v) (auto simp only: js.case sum.inject split: if_splits option.splits js.splits)
  show "validate_binding (Some (JObj [(''executionCwd'', JStr x)])) = Inr (Some (Some x))"
    if "isAbsolute x" for x
    using that by (simp add: validate_binding_def jm_get_def)
  show "isAbsolute x" if "validate_binding v = Inr (Some (Some x))" for v x
    using that unfolding validate_binding_def
    by (auto simp only: js.case sum.inject option.inject option.distinct sum.distinct
        split: if_splits option.splits js.splits)
qed

interpretation scratch: field_codec validate_scratch JBool "\<lambda>_. True"
  by unfold_locales (auto simp: validate_scratch_def split: js.splits option.splits)

section \<open>Layers\<close>

lemma chk_Inr: "chk x f = Inr r \<longleftrightarrow> (\<exists>a. x = Inr a \<and> f a = Inr r)"
  by (cases x) (simp_all add: chk_def)

text \<open>A layer is valid when its parts are; the patch is made of their values.\<close>

definition fields_valid ::
  "(string, js) js_map \<Rightarrow> (string, js) js_map \<Rightarrow> (string, js) js_map \<Rightarrow> policy_patch \<Rightarrow> bool" where
  "fields_valid m t c p \<longleftrightarrow>
     validate_verdict ''fsTools'' (jm_get t ''fsTools'') = Inr (pp_fsTools p) \<and>
     validate_verdict ''shell'' (jm_get t ''shell'') = Inr (pp_shell p) \<and>
     validate_mode (jm_get c ''mode'') = Inr (pp_mode p) \<and>
     validateCommandRules False ''allow'' (jm_get c ''allow'') = Inr (pp_allow p) \<and>
     validateCommandRules True ''deny'' (jm_get c ''deny'') = Inr (pp_deny p) \<and>
     validate_exec_dir (jm_get m ''executionDir'') = Inr (pp_executionDir p) \<and>
     validate_binding (jm_get m ''binding'') = Inr (pp_binding p) \<and>
     validate_scratch (jm_get m ''perChatScratch'') = Inr (pp_perChatScratch p)"

lemma validatePartial_Inr:
  "validatePartial (Some (JObj m)) = Inr p \<longleftrightarrow>
     (\<exists>t c. sub_object ''tools'' (jm_get m ''tools'') = Inr t \<and>
        sub_object ''commands'' (jm_get m ''commands'') = Inr c \<and> fields_valid m t c p)"
  unfolding validatePartial_def option.case js.case chk_Inr fields_valid_def
  by (cases p) (auto simp only: policy_patch.select_convs sum.inject policy_patch.iffs simp_thms)

lemma validatePartial_object: "validatePartial (Some v) = Inr p \<Longrightarrow> \<exists>m. v = JObj m"
  by (cases v) (simp_all add: validatePartial_def)

text \<open>The patches that validation returns.\<close>

definition patch_ok :: "policy_patch \<Rightarrow> bool" where
  "patch_ok p \<longleftrightarrow>
     field_ok verdict_ok (pp_fsTools p) \<and> field_ok verdict_ok (pp_shell p) \<and>
     field_ok (rules_ok False) (pp_allow p) \<and> field_ok (rules_ok True) (pp_deny p) \<and>
     field_ok dir_ok (pp_executionDir p) \<and> field_ok isAbsolute (pp_binding p)"

lemma fields_valid_ok: "fields_valid m t c p \<Longrightarrow> patch_ok p"
  unfolding fields_valid_def patch_ok_def
  using verdict.validate_field_ok rules.validate_field_ok dir.validate_field_ok
    binding.validate_field_ok by blast

lemma empty_patch_ok: "patch_ok empty_patch"
  by (simp add: patch_ok_def empty_patch_def field_ok_def)

lemma validatePartial_ok: "validatePartial raw = Inr p \<Longrightarrow> patch_ok p"
proof (cases raw)
  case None
  then show "validatePartial raw = Inr p \<Longrightarrow> patch_ok p"
    using empty_patch_ok by (simp add: validatePartial_def)
next
  case (Some v)
  then show "validatePartial raw = Inr p \<Longrightarrow> patch_ok p"
    using validatePartial_object validatePartial_Inr fields_valid_ok by blast
qed

subsection \<open>Looking up what was written\<close>

lemma jm_get_append: "jm_get (a @ b) k = (case jm_get a k of None \<Rightarrow> jm_get b k | Some v \<Rightarrow> Some v)"
  by (cases "map_of a k") (simp_all add: jm_get_def map_add_def)

lemma jm_get_entry: "jm_get (entry k v) k' = (if k' = k then v else None)"
  by (simp add: entry_def jm_get_def split: option.splits)

lemma jm_get_obj_entry: "jm_get (obj_entry k m) k' = (if k' = k \<and> m \<noteq> [] then Some (JObj m) else None)"
  by (simp add: obj_entry_def jm_get_def)

lemma jm_get_field_json:
  "jm_get (field_json k enc f) k' =
     (if k' = k then map_option (\<lambda>v. case v of None \<Rightarrow> JNull | Some x \<Rightarrow> enc x) f else None)"
  by (simp add: field_json_def jm_get_entry)

lemmas layer_lookup = jm_get_append jm_get_entry jm_get_obj_entry jm_get_field_json

lemma sub_object_obj_entry:
  "sub_object fld (if m \<noteq> [] then Some (JObj m) else None) = Inr m"
  by (simp add: sub_object_def)

text \<open>The fields of a layer written from five parts.\<close>

definition layer_obj ::
  "(string, js) js_map \<Rightarrow> (string, js) js_map \<Rightarrow> js option \<Rightarrow> js option \<Rightarrow> js option \<Rightarrow> (string, js) js_map" where
  "layer_obj t c d b s =
     obj_entry ''tools'' t @ obj_entry ''commands'' c @ entry ''executionDir'' d
       @ entry ''binding'' b @ entry ''perChatScratch'' s"

lemma layer_obj_lookup:
  "jm_get (layer_obj t c d b s) ''tools'' = (if t \<noteq> [] then Some (JObj t) else None)"
  "jm_get (layer_obj t c d b s) ''commands'' = (if c \<noteq> [] then Some (JObj c) else None)"
  "jm_get (layer_obj t c d b s) ''executionDir'' = d"
  "jm_get (layer_obj t c d b s) ''binding'' = b"
  "jm_get (layer_obj t c d b s) ''perChatScratch'' = s"
  by (simp_all add: layer_obj_def layer_lookup split: option.splits)

lemma validate_layer_obj:
  "validatePartial (Some (JObj (layer_obj t c d b s))) = Inr p \<longleftrightarrow>
     fields_valid (layer_obj t c d b s) t c p"
  unfolding validatePartial_Inr layer_obj_lookup sub_object_obj_entry
  by (auto simp only: sum.inject)

text \<open>A patch that was validated and written back to disk is read as the same patch.\<close>

lemma patch_roundtrip: "patch_ok p \<Longrightarrow> validatePartial (Some (patch_json p)) = Inr p"
proof -
  assume "patch_ok p"
  let ?t = "field_json ''fsTools'' id (pp_fsTools p) @ field_json ''shell'' id (pp_shell p)"
  let ?c = "field_json ''mode'' mode_json (pp_mode p) @ field_json ''allow'' rules_json (pp_allow p)
    @ field_json ''deny'' rules_json (pp_deny p)"
  let ?d = "map_option (\<lambda>v. case v of None \<Rightarrow> JNull | Some x \<Rightarrow> dir_json x) (pp_executionDir p)"
  let ?b = "map_option (\<lambda>v. case v of None \<Rightarrow> JNull | Some x \<Rightarrow> JObj [(''executionCwd'', JStr x)]) (pp_binding p)"
  let ?s = "map_option (\<lambda>v. case v of None \<Rightarrow> JNull | Some x \<Rightarrow> JBool x) (pp_perChatScratch p)"
  have t: "jm_get ?t ''fsTools'' = map_option (\<lambda>v. case v of None \<Rightarrow> JNull | Some x \<Rightarrow> id x) (pp_fsTools p)"
    "jm_get ?t ''shell'' = map_option (\<lambda>v. case v of None \<Rightarrow> JNull | Some x \<Rightarrow> id x) (pp_shell p)"
    by (simp_all add: layer_lookup split: option.splits)
  have c: "jm_get ?c ''mode'' = map_option (\<lambda>v. case v of None \<Rightarrow> JNull | Some x \<Rightarrow> mode_json x) (pp_mode p)"
    "jm_get ?c ''allow'' = map_option (\<lambda>v. case v of None \<Rightarrow> JNull | Some x \<Rightarrow> rules_json x) (pp_allow p)"
    "jm_get ?c ''deny'' = map_option (\<lambda>v. case v of None \<Rightarrow> JNull | Some x \<Rightarrow> rules_json x) (pp_deny p)"
    by (simp_all add: layer_lookup split: option.splits)
  have "patch_json p = JObj (layer_obj ?t ?c ?d ?b ?s)"
    by (simp only: patch_json_def layer_obj_def field_json_def)
  moreover have "fields_valid (layer_obj ?t ?c ?d ?b ?s) ?t ?c p"
    unfolding fields_valid_def layer_obj_lookup t c
    using \<open>patch_ok p\<close> unfolding patch_ok_def
    by (intro conjI verdict.validate_json mode.validate_json rules.validate_json
        dir.validate_json binding.validate_json scratch.validate_json field_ok_True) simp_all
  ultimately show ?thesis by (simp only: validate_layer_obj)
qed

section \<open>Setters\<close>

text \<open>What a setter does to a validated layer.\<close>

definition merge_patch :: "policy_patch \<Rightarrow> policy_patch \<Rightarrow> policy_patch" where
  "merge_patch base patch =
     \<lparr>pp_fsTools = patch_field (pp_fsTools base) (pp_fsTools patch),
      pp_shell = patch_field (pp_shell base) (pp_shell patch),
      pp_mode = patch_field (pp_mode base) (pp_mode patch),
      pp_allow = patch_field (pp_allow base) (pp_allow patch),
      pp_deny = patch_field (pp_deny base) (pp_deny patch),
      pp_executionDir = patch_field (pp_executionDir base) (pp_executionDir patch),
      pp_binding = (if pp_executionDir patch = None
        then patch_field (pp_binding base) (pp_binding patch) else None),
      pp_perChatScratch = (if pp_executionDir patch = None
        then patch_field (pp_perChatScratch base) (pp_perChatScratch patch) else None)\<rparr>"

lemma set_field_lookup:
  "jm_get (set_field v fld obj) k = (if k = fld then override (jm_get obj k) v else jm_get obj k)"
  by (cases v; cases "the v") (simp_all add: set_field_def override_def js_present_def)

lemma sub_object_entries:
  assumes "sub_object fld (jm_get m k) = Inr t"
  shows "(case js_prop (JObj m) k of None \<Rightarrow> [] | Some v \<Rightarrow> js_entries v) = t"
    and "opt_prop (js_prop (JObj m) k) f = jm_get t f"
  using assms by (auto simp: sub_object_def js_prop_def opt_prop_def split: option.splits js.splits)

lemma merge_tools_lookup:
  assumes "sub_object ''tools'' (jm_get m ''tools'') = Inr t"
    "sub_object ''tools'' (jm_get n ''tools'') = Inr u"
  shows "jm_get (merge_tools (JObj m) (JObj n)) ''fsTools'' = override (jm_get t ''fsTools'') (jm_get u ''fsTools'')"
    "jm_get (merge_tools (JObj m) (JObj n)) ''shell'' = override (jm_get t ''shell'') (jm_get u ''shell'')"
  unfolding merge_tools_def sub_object_entries[OF assms(1)] sub_object_entries[OF assms(2)]
  by (simp_all add: set_field_lookup)

lemma merge_commands_lookup:
  assumes "sub_object ''commands'' (jm_get m ''commands'') = Inr t"
    "sub_object ''commands'' (jm_get n ''commands'') = Inr u"
  shows "jm_get (merge_commands (JObj m) (JObj n)) ''mode'' = override (jm_get t ''mode'') (jm_get u ''mode'')"
    "jm_get (merge_commands (JObj m) (JObj n)) ''allow'' = override (jm_get t ''allow'') (jm_get u ''allow'')"
    "jm_get (merge_commands (JObj m) (JObj n)) ''deny'' = override (jm_get t ''deny'') (jm_get u ''deny'')"
  unfolding merge_commands_def sub_object_entries[OF assms(1)] sub_object_entries[OF assms(2)]
  by (simp_all add: set_field_lookup)

lemma merge_dir_override:
  "merge_dir (JObj m) (JObj n) = override (jm_get m ''executionDir'') (jm_get n ''executionDir'')"
  by (simp add: merge_dir_def override_def js_prop_def split: option.splits)

lemma merge_legacy_override:
  "merge_legacy (JObj m) (JObj n) fld =
     (if jm_get n ''executionDir'' = None then override (jm_get m fld) (jm_get n fld) else None)"
  by (simp add: merge_legacy_def override_def js_prop_def split: option.splits)

lemma validate_exec_dir_absent: "validate_exec_dir v = Inr f \<Longrightarrow> f = None \<longleftrightarrow> v = None"
  using dir.absent dir.null dir.valued by (cases v; cases "v = Some JNull") auto

lemma merge_patch_refines_lemma:
  assumes "validatePartial (Some base) = Inr b" "validatePartial (Some patch) = Inr p"
  shows "validatePartial (Some (mergeImWorkspacePolicyPatch base patch)) = Inr (merge_patch b p)"
proof -
  obtain m n where mn: "base = JObj m" "patch = JObj n" using assms validatePartial_object by blast
  obtain t c where b: "sub_object ''tools'' (jm_get m ''tools'') = Inr t"
    "sub_object ''commands'' (jm_get m ''commands'') = Inr c" and bf: "fields_valid m t c b"
    using assms(1) unfolding mn validatePartial_Inr by blast
  obtain u d where q: "sub_object ''tools'' (jm_get n ''tools'') = Inr u"
    "sub_object ''commands'' (jm_get n ''commands'') = Inr d" and pf: "fields_valid n u d p"
    using assms(2) unfolding mn validatePartial_Inr by blast
  have none: "pp_executionDir p = None \<longleftrightarrow> jm_get n ''executionDir'' = None"
    using pf validate_exec_dir_absent unfolding fields_valid_def by blast
  show ?thesis
    unfolding mn mergeImWorkspacePolicyPatch_def layer_obj_def[symmetric] validate_layer_obj
      fields_valid_def layer_obj_lookup merge_tools_lookup[OF b(1) q(1)]
      merge_commands_lookup[OF b(2) q(2)] merge_dir_override merge_legacy_override
      merge_patch_def policy_patch.select_convs none
    using bf pf unfolding fields_valid_def
    by (intro conjI) (simp_all add: verdict.validate_override mode.validate_override
        rules.validate_override dir.validate_override binding.validate_override
        scratch.validate_override binding.absent scratch.absent)
qed

section \<open>The normal form of a document\<close>

definition normal_patch :: "exec_dir option \<Rightarrow> policy_patch \<Rightarrow> policy_patch" where
  "normal_patch ancestorDir patch =
     patch\<lparr>pp_executionDir := normal_dir ancestorDir patch, pp_binding := None, pp_perChatScratch := None\<rparr>"

lemma layer_patch_object: "layer_patch raw = Some p \<Longrightarrow> \<exists>m. raw = Some (JObj m)"
  using validatePartial_object by (auto simp: layer_patch_def split: option.splits sum.splits)

lemma layer_patch_ok: "layer_patch raw = Some p \<Longrightarrow> patch_ok p"
  using validatePartial_ok by (auto simp: layer_patch_def split: option.splits sum.splits)

lemma normalizeLayerPatch_eq:
  "normalizeLayerPatch raw ancestorDir = map_option (normal_patch ancestorDir) (layer_patch raw)"
proof (cases "\<exists>m. raw = Some (JObj m)")
  case True
  then show ?thesis
    by (auto simp: normalizeLayerPatch_def layer_patch_def safeValidatePartial_def normal_patch_def
        split: sum.splits)
next
  case False
  then have "layer_patch raw = None" using layer_patch_object by (cases "layer_patch raw") auto
  with False show ?thesis by (auto simp: normalizeLayerPatch_def split: option.splits js.splits)
qed

lemma present_ok: "field_ok ok f \<Longrightarrow> present f = Some x \<Longrightarrow> ok x"
  by (simp add: field_ok_def present_def split: option.splits)

lemma derive_ok:
  assumes "patch_ok p" "deriveLayerExecutionDir p = Some (d, e)"
  shows "dir_ok d"
proof -
  have "field_ok dir_ok (pp_executionDir p)" using assms(1) by (simp only: patch_ok_def)
  then show ?thesis
    using assms(2) present_ok[of dir_ok "pp_executionDir p"]
    by (cases "present (pp_executionDir p)"; cases "present (pp_binding p)")
      (auto simp: deriveLayerExecutionDir_def split: if_splits)
qed

lemma normal_dir_ok: "patch_ok p \<Longrightarrow> field_ok dir_ok (normal_dir anc p)"
proof (cases "pp_executionDir p")
  case None
  then show "patch_ok p \<Longrightarrow> field_ok dir_ok (normal_dir anc p)"
    using derive_ok[of p]
    by (cases "deriveLayerExecutionDir p") (auto simp: normal_dir_def field_ok_def)
next
  case (Some x)
  then show "patch_ok p \<Longrightarrow> field_ok dir_ok (normal_dir anc p)"
    by (cases x) (simp_all add: normal_dir_def field_ok_def patch_ok_def)
qed

lemma normal_patch_ok: "patch_ok p \<Longrightarrow> patch_ok (normal_patch anc p)"
  using normal_dir_ok[of p anc] unfolding patch_ok_def
  by (simp add: normal_patch_def field_ok_def[of _ None])

lemma layer_patch_json: "patch_ok p \<Longrightarrow> layer_patch (Some (patch_json p)) = Some p"
  by (simp add: layer_patch_def patch_roundtrip)

text \<open>A layer that both clears the working directory and still carries the old pair of fields is
  the one case in which the normal form differs.\<close>

definition legacy_consistent :: "policy_patch option \<Rightarrow> bool" where
  "legacy_consistent layer \<longleftrightarrow>
     (case layer of
        None \<Rightarrow> True
      | Some p \<Rightarrow> pp_executionDir p \<noteq> Some None \<or> deriveLayerExecutionDir p = None)"

lemma derive_normal:
  assumes "pp_executionDir p \<noteq> Some None \<or> deriveLayerExecutionDir p = None"
  shows "deriveLayerExecutionDir (normal_patch anc p) =
    (case deriveLayerExecutionDir p of
       None \<Rightarrow> None
     | Some (d, e) \<Rightarrow>
         if \<not> e \<and> (\<exists>a \<in> set_option anc. is_custom a) \<and> \<not> is_custom d then None else Some (d, True))"
proof (cases "pp_executionDir p")
  case None
  then show ?thesis
    by (cases "deriveLayerExecutionDir p")
      (auto simp: normal_patch_def normal_dir_def deriveLayerExecutionDir_def present_def)
next
  case (Some x)
  then show ?thesis using assms
    by (cases x) (auto simp: normal_patch_def normal_dir_def deriveLayerExecutionDir_def present_def)
qed

lemma resolve_normal:
  assumes "pp_executionDir p \<noteq> Some None \<or> deriveLayerExecutionDir p = None"
    and "anc = Some (fst parent) \<or> (anc = None \<and> \<not> is_custom (fst parent))"
  shows "resolveLayerExecutionDir (normal_patch anc p) parent src = resolveLayerExecutionDir p parent src"
  using assms(2) unfolding resolveLayerExecutionDir_def derive_normal[OF assms(1)]
  by (cases "deriveLayerExecutionDir p") auto

lemma merge_layer_normal:
  assumes "layer_patch raw' = map_option (normal_patch anc) (layer_patch raw)"
    and "legacy_consistent (layer_patch raw)"
    and "anc = Some (fst (snd acc)) \<or> (anc = None \<and> \<not> is_custom (fst (snd acc)))"
  shows "merge_layer acc src raw' = merge_layer acc src raw"
proof (cases "layer_patch raw")
  case (Some p)
  then have "resolveLayerExecutionDir (normal_patch anc p) (snd acc) src
      = resolveLayerExecutionDir p (snd acc) src"
    using assms(2,3) by (intro resolve_normal) (simp_all add: legacy_consistent_def)
  then show ?thesis
    using assms(1) Some
    by (simp add: merge_layer_def Let_def mergeImWorkspacePolicy_def normal_patch_def)
qed (use assms(1) in \<open>simp add: merge_layer_def\<close>)

lemma channel_dir_layer:
  "snd (merge_layer (DEFAULT_IM_WORKSPACE_POLICY, default_dir) FromChannel (default_layer doc)) = channel_dir doc"
  by (simp add: merge_layer_def channel_dir_def Let_def split: option.splits)

lemma default_not_custom: "\<not> is_custom (fst default_dir)"
  by (simp add: default_dir_def DEFAULT_IM_WORKSPACE_POLICY_def)

text \<open>Two documents whose layers differ by normalisation only resolve alike.\<close>

lemma document_policy_normal:
  assumes d: "layer_patch (default_layer doc') = map_option (normal_patch None) (layer_patch (default_layer doc))"
    and c: "\<And>k. key = Some k \<Longrightarrow> layer_patch (chat_layer doc' k)
        = map_option (normal_patch (Some (fst (channel_dir doc)))) (layer_patch (chat_layer doc k))"
    and l: "legacy_consistent (layer_patch (default_layer doc))"
      "\<And>k. key = Some k \<Longrightarrow> legacy_consistent (layer_patch (chat_layer doc k))"
  shows "document_policy doc' key = document_policy doc key"
proof -
  let ?acc = "merge_layer (DEFAULT_IM_WORKSPACE_POLICY, default_dir) FromChannel (default_layer doc)"
  have acc: "merge_layer (DEFAULT_IM_WORKSPACE_POLICY, default_dir) FromChannel (default_layer doc') = ?acc"
    using d l(1) default_not_custom by (intro merge_layer_normal) auto
  have "merge_layer ?acc FromChat (chat_layer doc' k) = merge_layer ?acc FromChat (chat_layer doc k)"
    if "key = Some k" for k
    using c[OF that] l(2)[OF that] channel_dir_layer[of doc] by (intro merge_layer_normal) auto
  with acc show ?thesis by (simp add: document_policy_def Let_def split: option.splits)
qed

lemma normal_chats_lookup:
  "jm_wf es \<Longrightarrow> jm_get (normal_chats d es acc) k =
    (case jm_get es k of
       None \<Rightarrow> jm_get acc k
     | Some raw \<Rightarrow>
         (case layer_patch (Some raw) of
            None \<Rightarrow> jm_get acc k
          | Some p \<Rightarrow> Some (patch_json (normal_patch (Some d) p))))"
proof (induction d es acc rule: normal_chats.induct)
  case (2 d key raw es acc)
  have "jm_wf es" and "jm_get es key = None" using 2(2)
    by (auto simp: jm_wf_def jm_get_def map_of_eq_None_iff)
  then show ?case using 2(1)
    by (auto simp: normalizeLayerPatch_eq jm_get_def[of "_ # _"] jm_get_def[of es, symmetric]
        split: option.splits)
qed simp

end
