(* ===== verification/ImPolicyProps.thy ===== *)
theory ImPolicyProps
  imports ImPolicyLaws
begin

text \<open>
  The properties of the chat policy, over the laws of \<open>ImPolicyLaws\<close>.
\<close>

section \<open>Normal form\<close>

lemma layer_after_json:
  "layer_patch (map_option (\<lambda>p. patch_json (normal_patch anc p)) (layer_patch raw))
     = map_option (normal_patch anc) (layer_patch raw)"
  using layer_patch_json normal_patch_ok layer_patch_ok
  by (cases "layer_patch raw") (auto simp: layer_patch_def[of None])

lemma normal_default_layer:
  "default_layer (normalizePolicyDocument (JObj m)) =
     map_option (\<lambda>p. patch_json (normal_patch None p)) (layer_patch (default_layer (JObj m)))"
  by (simp add: normalizePolicyDocument_def default_layer_def js_prop_def layer_lookup
      normalizeLayerPatch_eq option.map_comp comp_def split: option.splits)

lemma chat_layer_entries: "chat_layer doc k = jm_get (chat_entries doc) k"
  by (simp add: chat_layer_def chat_entries_def opt_prop_def js_prop_def split: option.splits)

lemma normal_chat_entries:
  "chat_entries (normalizePolicyDocument (JObj m)) =
     normal_chats (fst (channel_dir (JObj m))) (chat_entries (JObj m)) []"
  by (simp add: normalizePolicyDocument_def chat_entries_def[of "JObj (_ @ _)"] js_prop_def
      layer_lookup split: option.splits)

lemma normal_chat_layer:
  "jm_wf (chat_entries (JObj m)) \<Longrightarrow> chat_layer (normalizePolicyDocument (JObj m)) k =
     map_option (\<lambda>p. patch_json (normal_patch (Some (fst (channel_dir (JObj m)))) p))
       (layer_patch (chat_layer (JObj m) k))"
  unfolding chat_layer_entries normal_chat_entries
  by (simp add: normal_chats_lookup layer_patch_def[of None] split: option.splits)

text \<open>C26: rewriting a document into its normal form keeps the policy of every chat and of the
  channel, provided the chats of the document are an object without a repeated key, and neither
  the channel's layer nor the chat's clears the working directory while it still carries one of the
  two fields the directory replaced. (Without the second condition a chat can lose its directory:
  \<open>normal_form_drops_binding\<close>.)\<close>

theorem normal_form_keeps_policy:
  assumes "jm_wf (chat_entries (JObj m))"
    and "legacy_consistent (layer_patch (default_layer (JObj m)))"
    and "legacy_consistent (Option.bind key (\<lambda>k. layer_patch (chat_layer (JObj m) k)))"
  shows "document_policy (normalizePolicyDocument (JObj m)) key = document_policy (JObj m) key"
proof (rule document_policy_normal)
  show "layer_patch (default_layer (normalizePolicyDocument (JObj m)))
      = map_option (normal_patch None) (layer_patch (default_layer (JObj m)))"
    unfolding normal_default_layer by (rule layer_after_json)
  show "layer_patch (chat_layer (normalizePolicyDocument (JObj m)) k)
      = map_option (normal_patch (Some (fst (channel_dir (JObj m))))) (layer_patch (chat_layer (JObj m) k))"
    for k unfolding normal_chat_layer[OF assms(1)] by (rule layer_after_json)
qed (use assms(2,3) in simp_all)

text \<open>A channel that pins a directory with the old field, and a chat with its own scratch flag.\<close>

definition legacy_doc :: "(string, js) js_map" where
  "legacy_doc =
     [(''default'', JObj [(''binding'', JObj [(''executionCwd'', JStr ''/w'')]),
          (''commands'', JObj [(''mode'', JStr ''auto''), (''allow'', JArr [JStr '' ls ''])])]),
      (''chats'', JObj [(''k1'', JObj [(''perChatScratch'', JBool True),
          (''tools'', JObj [(''fsTools'', JStr ''allow'')])]), (''k2'', JStr ''broken'')])]"

theorem normal_form_keeps_policy_witness:
  "document_policy (normalizePolicyDocument (JObj legacy_doc)) (Some ''k1'')
     = document_policy (JObj legacy_doc) (Some ''k1'') \<and>
   normalizePolicyDocument (JObj legacy_doc) \<noteq> JObj legacy_doc \<and>
   ip_executionDir (document_policy (JObj legacy_doc) (Some ''k1'')) = DirCustom ''/w''"
proof -
  have a: "jm_wf (chat_entries (JObj legacy_doc))"
    and b: "legacy_consistent (layer_patch (default_layer (JObj legacy_doc)))"
    and c: "legacy_consistent (Option.bind (Some ''k1'') (\<lambda>k. layer_patch (chat_layer (JObj legacy_doc) k)))"
    by code_simp+
  have "normalizePolicyDocument (JObj legacy_doc) \<noteq> JObj legacy_doc"
    "ip_executionDir (document_policy (JObj legacy_doc) (Some ''k1'')) = DirCustom ''/w''"
    by code_simp+
  then show ?thesis using normal_form_keeps_policy[OF a b c] by blast
qed

text \<open>Without the proviso the working directory moves: the binding is read, but not rewritten.\<close>

definition cleared_doc :: "(string, js) js_map" where
  "cleared_doc = [(''default'', JObj [(''executionDir'', JNull),
     (''binding'', JObj [(''executionCwd'', JStr ''/w'')])])]"

lemma normal_form_drops_binding:
  "ip_executionDir (document_policy (JObj cleared_doc) None) = DirCustom ''/w'' \<and>
   ip_executionDir (document_policy (normalizePolicyDocument (JObj cleared_doc)) None) = DirShared"
  by code_simp

section \<open>Setters\<close>

text \<open>A setter applied to the stored JSON of a layer computes, on the validated patches, the
  field-wise merge: a field the new patch does not mention keeps its value, \<open>null\<close> removes it and
  a value replaces it, and writing the working directory drops the two fields it replaced.\<close>

theorem setter_refines_merge:
  "validatePartial (Some base) = Inr b \<Longrightarrow> validatePartial (Some patch) = Inr p \<Longrightarrow>
     validatePartial (Some (mergeImWorkspacePolicyPatch base patch)) = Inr (merge_patch b p)"
  by (rule merge_patch_refines_lemma)

theorem setter_refines_merge_witness:
  "validatePartial (Some (mergeImWorkspacePolicyPatch
       (JObj [(''tools'', JObj [(''shell'', JStr ''allow'')]), (''perChatScratch'', JBool True)])
       (JObj [(''tools'', JObj [(''fsTools'', JStr ''allow'')]), (''executionDir'', JObj [(''mode'', JStr ''shared'')])])))
     = Inr (empty_patch\<lparr>pp_fsTools := Some (Some (JStr ''allow'')), pp_shell := Some (Some (JStr ''allow'')),
         pp_executionDir := Some (Some DirShared)\<rparr>)"
proof -
  let ?b = "empty_patch\<lparr>pp_shell := Some (Some (JStr ''allow'')), pp_perChatScratch := Some (Some True)\<rparr>"
  let ?p = "empty_patch\<lparr>pp_fsTools := Some (Some (JStr ''allow'')), pp_executionDir := Some (Some DirShared)\<rparr>"
  have v: "validatePartial (Some (JObj [(''tools'', JObj [(''shell'', JStr ''allow'')]), (''perChatScratch'', JBool True)])) = Inr ?b"
    "validatePartial (Some (JObj [(''tools'', JObj [(''fsTools'', JStr ''allow'')]),
       (''executionDir'', JObj [(''mode'', JStr ''shared'')])])) = Inr ?p"
    by code_simp+
  have "merge_patch ?b ?p = empty_patch\<lparr>pp_fsTools := Some (Some (JStr ''allow'')), pp_shell := Some (Some (JStr ''allow'')),
         pp_executionDir := Some (Some DirShared)\<rparr>" by code_simp
  then show ?thesis using setter_refines_merge[OF v] by (simp only:)
qed

section \<open>Migration of old documents\<close>

text \<open>What the migration does to a validated layer and to a policy.\<close>

definition ask_patch :: "policy_patch \<Rightarrow> policy_patch" where
  "ask_patch p = (if pp_mode p = Some (Some ModeAuto) then p\<lparr>pp_mode := Some (Some ModeAsk)\<rparr> else p)"

definition ask_policy :: "im_policy \<Rightarrow> im_policy" where
  "ask_policy P = P\<lparr>ip_commands := (ip_commands P)\<lparr>icp_mode := ModeAsk\<rparr>\<rparr>"

lemma validate_mode_words:
  "validate_mode (Some (JStr ''auto'')) = Inr (Some (Some ModeAuto))"
  "validate_mode (Some (JStr ''ask'')) = Inr (Some (Some ModeAsk))"
  by code_simp+

lemma validate_mode_auto:
  "validate_mode v = Inr (Some (Some ModeAuto)) \<Longrightarrow> v = Some (JStr ''auto'')"
  using mode_values[of "the v" "Some (Some ModeAuto)"] mode.absent mode_json.simps(2)
  by (cases v) auto

lemma fields_valid_mode:
  assumes "jm_get c ''mode'' = Some (JStr ''auto'')"
    and "m' = jm_set m ''commands'' x" "c' = jm_set c ''mode'' (JStr ''ask'')"
  shows "fields_valid m t c p \<longleftrightarrow> pp_mode p = Some (Some ModeAuto) \<and>
      fields_valid m' t c' (p\<lparr>pp_mode := Some (Some ModeAsk)\<rparr>)"
  unfolding fields_valid_def assms(2,3)
  by (auto simp: assms(1) validate_mode_words)

lemma layer_patch_iff: "layer_patch (Some v) = Some p \<longleftrightarrow> validatePartial (Some v) = Inr p"
  by (auto simp: layer_patch_def split: sum.splits)

lemma option_eqI: "(\<And>x. a = Some x \<longleftrightarrow> b = Some x) \<Longrightarrow> a = b"
  by (cases a; cases b) auto

lemma migrated_layer: "layer_patch (Some (migrate_layer v)) = map_option ask_patch (layer_patch (Some v))"
proof (cases "\<exists>m c. v = JObj m \<and> jm_get m ''commands'' = Some (JObj c) \<and> jm_get c ''mode'' = Some (JStr ''auto'')")
  case True
  then obtain m c where v: "v = JObj m" and c: "jm_get m ''commands'' = Some (JObj c)"
    and a: "jm_get c ''mode'' = Some (JStr ''auto'')" by blast
  let ?c = "jm_set c ''mode'' (JStr ''ask'')"
  let ?m = "jm_set m ''commands'' (JObj ?c)"
  have mv: "migrate_layer v = JObj ?m" by (simp only: migrate_layer_def v js.case c option.case a if_True simp_thms)
  have t: "jm_get ?m ''tools'' = jm_get m ''tools''" "jm_get ?m ''commands'' = Some (JObj ?c)" by simp_all
  have eq: "validatePartial (Some (JObj m)) = Inr p \<longleftrightarrow> pp_mode p = Some (Some ModeAuto) \<and>
      validatePartial (Some (JObj ?m)) = Inr (p\<lparr>pp_mode := Some (Some ModeAsk)\<rparr>)" for p
    unfolding validatePartial_Inr t c sub_object_def[of "''commands''"] option.case js.case sum.inject
    using fields_valid_mode[OF a refl refl, of m _ p "JObj ?c"] by blast
  have ask: "pp_mode q = Some (Some ModeAsk)" if "validatePartial (Some (JObj ?m)) = Inr q" for q
    using that unfolding validatePartial_Inr t
    by (auto simp: sub_object_def fields_valid_def validate_mode_words)
  show ?thesis
  proof (rule option_eqI)
    fix q
    have "validatePartial (Some (JObj ?m)) = Inr q \<longleftrightarrow>
        (\<exists>p. validatePartial (Some (JObj m)) = Inr p \<and> q = ask_patch p)"
    proof
      assume r: "validatePartial (Some (JObj ?m)) = Inr q"
      then have "validatePartial (Some (JObj m)) = Inr (q\<lparr>pp_mode := Some (Some ModeAuto)\<rparr>)"
        unfolding eq using ask[OF r] by simp
      moreover have "q = ask_patch (q\<lparr>pp_mode := Some (Some ModeAuto)\<rparr>)"
        using ask[OF r] by (simp add: ask_patch_def)
      ultimately show "\<exists>p. validatePartial (Some (JObj m)) = Inr p \<and> q = ask_patch p" by blast
    qed (auto simp: eq ask_patch_def)
    then show "layer_patch (Some (migrate_layer v)) = Some q \<longleftrightarrow>
        map_option ask_patch (layer_patch (Some v)) = Some q"
      unfolding mv unfolding v by (auto simp: layer_patch_iff)
  qed
next
  case False
  have id: "migrate_layer v = v"
  proof (cases "\<exists>m c. v = JObj m \<and> jm_get m ''commands'' = Some (JObj c)")
    case True
    then obtain m c where "v = JObj m" "jm_get m ''commands'' = Some (JObj c)" by blast
    then show ?thesis using False by (simp only: migrate_layer_def js.case option.case) auto
  next
    case no: False
    then show ?thesis unfolding migrate_layer_def by (simp only: split: js.split option.split) blast
  qed
  have "pp_mode p \<noteq> Some (Some ModeAuto)" if l: "layer_patch (Some v) = Some p" for p
  proof
    assume auto: "pp_mode p = Some (Some ModeAuto)"
    obtain m where m: "v = JObj m" using layer_patch_object[OF l] by blast
    then obtain c where c: "sub_object ''commands'' (jm_get m ''commands'') = Inr c"
      "validate_mode (jm_get c ''mode'') = Inr (pp_mode p)"
      using l unfolding m layer_patch_iff validatePartial_Inr fields_valid_def by blast
    then have a: "jm_get c ''mode'' = Some (JStr ''auto'')" using auto validate_mode_auto by simp
    then have "c \<noteq> []" by auto
    then have "jm_get m ''commands'' = Some (JObj c)"
      using c(1) unfolding sub_object_def by (auto split: option.splits js.splits)
    then show False using False m a by blast
  qed
  then have "map_option ask_patch (layer_patch (Some v)) = layer_patch (Some v)"
    by (cases "layer_patch (Some v)") (simp_all add: ask_patch_def)
  with id show ?thesis by simp
qed

lemma merge_layer_ask:
  assumes "layer_patch raw' = map_option ask_patch (layer_patch raw)"
    and "acc' = (ask_policy (fst acc), snd acc)"
  shows "merge_layer acc' src raw' = (ask_policy (fst (merge_layer acc src raw)), snd (merge_layer acc src raw))"
proof (cases "layer_patch raw")
  case None
  then show ?thesis using assms by (simp add: merge_layer_def)
next
  case (Some p)
  have m: "or_else (present (pp_mode (ask_patch p))) ModeAsk = ModeAsk"
    by (cases "pp_mode p"; cases "present (pp_mode p)"; cases "the (present (pp_mode p))")
      (auto simp: ask_patch_def present_def)
  have f: "pp_fsTools (ask_patch p) = pp_fsTools p" "pp_shell (ask_patch p) = pp_shell p"
    "pp_allow (ask_patch p) = pp_allow p" "pp_deny (ask_patch p) = pp_deny p"
    "pp_executionDir (ask_patch p) = pp_executionDir p" "pp_binding (ask_patch p) = pp_binding p"
    "pp_perChatScratch (ask_patch p) = pp_perChatScratch p"
    by (simp_all add: ask_patch_def)
  have d: "deriveLayerExecutionDir (ask_patch p) = deriveLayerExecutionDir p"
    by (simp only: deriveLayerExecutionDir_def f)
  show ?thesis using assms Some m
    by (simp add: merge_layer_def Let_def resolveLayerExecutionDir_def d mergeImWorkspacePolicy_def
        ask_policy_def f)
qed

lemma document_policy_ask:
  assumes d: "layer_patch (default_layer doc') = map_option ask_patch (layer_patch (default_layer doc))"
    and c: "\<And>k. layer_patch (chat_layer doc' k) = map_option ask_patch (layer_patch (chat_layer doc k))"
  shows "document_policy doc' key = ask_policy (document_policy doc key)"
proof -
  have b: "(DEFAULT_IM_WORKSPACE_POLICY, default_dir)
      = (ask_policy (fst (DEFAULT_IM_WORKSPACE_POLICY, default_dir)), snd (DEFAULT_IM_WORKSPACE_POLICY, default_dir))"
    by (simp add: ask_policy_def DEFAULT_IM_WORKSPACE_POLICY_def)
  note acc = merge_layer_ask[OF d b, of FromChannel]
  show ?thesis
    unfolding document_policy_def Let_def
    using merge_layer_ask[OF c acc] acc by (cases key) simp_all
qed

lemma rewrite_field_lookup:
  "jm_get (rewrite_field k f m) k' =
     (if k' = k then map_option (\<lambda>v. if js_truthy v then f v else v) (jm_get m k) else jm_get m k')"
  by (auto simp: rewrite_field_def split: option.splits)

lemma migrate_falsy: "\<not> js_truthy v \<Longrightarrow> migrate_layer v = v"
  by (cases v) (simp_all add: migrate_layer_def)

lemma entries_falsy: "\<not> js_truthy v \<Longrightarrow> js_entries v = []"
  by (cases v) simp_all

lemma migrated_default:
  assumes "jm_get m ''version'' = None"
  shows "default_layer (JObj (migrateLegacyImPolicyDocument m)) = map_option migrate_layer (default_layer (JObj m))"
  using assms migrate_falsy
  by (cases "jm_get m ''default''")
    (auto simp: migrateLegacyImPolicyDocument_def default_layer_def js_prop_def rewrite_field_lookup)

lemma jm_get_map: "jm_get (map (\<lambda>e. (fst e, f (snd e))) m) k = map_option f (jm_get m k)"
  by (induction m) (auto simp: jm_get_def)

lemma migrated_chat:
  assumes "jm_get m ''version'' = None"
  shows "chat_layer (JObj (migrateLegacyImPolicyDocument m)) k = map_option migrate_layer (chat_layer (JObj m) k)"
  using assms entries_falsy
  by (cases "jm_get m ''chats''")
    (auto simp: migrateLegacyImPolicyDocument_def chat_layer_def opt_prop_def js_prop_def
      rewrite_field_lookup jm_get_map)

lemma layer_patch_None: "layer_patch None = None"
  by (simp add: layer_patch_def)

text \<open>Reading a document without a version puts every scope in the asking mode and changes
  nothing else of its policy.\<close>

theorem migration_only_narrows:
  assumes "jm_get m ''version'' = None"
  shows "document_policy (JObj (migrateLegacyImPolicyDocument m)) key =
     ask_policy (document_policy (JObj m) key)"
proof (rule document_policy_ask)
  show "layer_patch (default_layer (JObj (migrateLegacyImPolicyDocument m)))
      = map_option ask_patch (layer_patch (default_layer (JObj m)))"
    unfolding migrated_default[OF assms]
    by (cases "default_layer (JObj m)") (simp_all add: layer_patch_None migrated_layer)
  show "layer_patch (chat_layer (JObj (migrateLegacyImPolicyDocument m)) k)
      = map_option ask_patch (layer_patch (chat_layer (JObj m) k))" for k
    unfolding migrated_chat[OF assms]
    by (cases "chat_layer (JObj m) k") (simp_all add: layer_patch_None migrated_layer)
qed

theorem migration_only_narrows_witness:
  "document_policy (JObj (migrateLegacyImPolicyDocument legacy_doc)) (Some ''k1'')
     = ask_policy (document_policy (JObj legacy_doc) (Some ''k1'')) \<and>
   icp_mode (ip_commands (document_policy (JObj legacy_doc) (Some ''k1''))) = ModeAuto"
proof -
  have v: "jm_get legacy_doc ''version'' = None"
    and a: "icp_mode (ip_commands (document_policy (JObj legacy_doc) (Some ''k1''))) = ModeAuto"
    by code_simp+
  show ?thesis using migration_only_narrows[OF v] a by blast
qed

section \<open>What the editor shows\<close>

lemma rules_or_absent_list [simp]: "or_else (rules_or_absent r) [] = r"
  by (simp add: rules_or_absent_def)

text \<open>The single-valued fields of a layer and of what is below it.\<close>

lemma merge_layer_values:
  "ip_fsTools (fst (merge_layer acc src raw)) =
     or_else (layer_value pp_fsTools (layer_patch raw)) (ip_fsTools (fst acc))"
  "ip_shell (fst (merge_layer acc src raw)) =
     or_else (layer_value pp_shell (layer_patch raw)) (ip_shell (fst acc))"
  "icp_mode (ip_commands (fst (merge_layer acc src raw))) =
     or_else (layer_value pp_mode (layer_patch raw)) (icp_mode (ip_commands (fst acc)))"
  "set (or_else (icp_allow (ip_commands (fst (merge_layer acc src raw)))) []) =
     set (or_else (icp_allow (ip_commands (fst acc))) []) \<union> set (or_else (layer_value pp_allow (layer_patch raw)) [])"
  "set (or_else (icp_deny (ip_commands (fst (merge_layer acc src raw)))) []) =
     set (or_else (icp_deny (ip_commands (fst acc))) []) \<union> set (or_else (layer_value pp_deny (layer_patch raw)) [])"
  "snd (merge_layer acc src raw) =
     (case layer_patch raw of None \<Rightarrow> snd acc | Some p \<Rightarrow> resolveLayerExecutionDir p (snd acc) src)"
  "ip_executionDir (fst acc) = fst (snd acc) \<Longrightarrow>
     ip_executionDir (fst (merge_layer acc src raw)) = fst (snd (merge_layer acc src raw))"
  by (auto simp: merge_layer_def layer_value_def mergeImWorkspacePolicy_def Let_def dedupeRules_def
      present_def split: option.splits)

lemma resolve_dir_empty: "resolveLayerExecutionDir empty_patch parent src = parent"
  by (simp add: resolveLayerExecutionDir_def deriveLayerExecutionDir_def empty_patch_def present_def)

lemma layer_value_empty:
  "layer_value pp_fsTools (Some empty_patch) = None" "layer_value pp_shell (Some empty_patch) = None"
  "layer_value pp_mode (Some empty_patch) = None" "layer_value pp_allow (Some empty_patch) = None"
  "layer_value pp_deny (Some empty_patch) = None"
  by (simp_all add: layer_value_def empty_patch_def present_def)

text \<open>A layer of the views against a layer of the resolver: a corrupt layer counts as empty.\<close>

lemma shown_layer:
  "layer_value pp_fsTools (Some (or_else l empty_patch)) = layer_value pp_fsTools l"
  "layer_value pp_shell (Some (or_else l empty_patch)) = layer_value pp_shell l"
  "layer_value pp_mode (Some (or_else l empty_patch)) = layer_value pp_mode l"
  "layer_value pp_allow (Some (or_else l empty_patch)) = layer_value pp_allow l"
  "layer_value pp_deny (Some (or_else l empty_patch)) = layer_value pp_deny l"
  by (cases l; simp add: layer_value_empty layer_value_def[of _ None])+

lemma shown_dir:
  "resolveLayerExecutionDir (or_else l empty_patch) parent src =
     (case l of None \<Rightarrow> parent | Some p \<Rightarrow> resolveLayerExecutionDir p parent src)"
  by (simp add: resolve_dir_empty split: option.splits)

lemma default_values:
  "ip_fsTools DEFAULT_IM_WORKSPACE_POLICY = JStr ''deny''" "ip_shell DEFAULT_IM_WORKSPACE_POLICY = JStr ''deny''"
  "icp_mode (ip_commands DEFAULT_IM_WORKSPACE_POLICY) = ModeAsk"
  "icp_allow (ip_commands DEFAULT_IM_WORKSPACE_POLICY) = None"
  "icp_deny (ip_commands DEFAULT_IM_WORKSPACE_POLICY) = None"
  "fst default_dir = ip_executionDir DEFAULT_IM_WORKSPACE_POLICY"
  by (simp_all add: DEFAULT_IM_WORKSPACE_POLICY_def default_dir_def)

lemma pick_value:
  "pf_value (pick s c n d) = or_else c (or_else n d)"
  "fst (pf_inherited (pick s c n d)) = (if s then d else or_else n d)"
  by (auto simp: pick_def Let_def split: option.splits)

text \<open>The policy of a document, field by field.\<close>

definition chat_patch :: "js \<Rightarrow> string option \<Rightarrow> policy_patch option" where
  "chat_patch doc key = Option.bind key (\<lambda>k. layer_patch (chat_layer doc k))"

lemma present_layer: "present (fld p) = layer_value fld (Some p)"
  by (simp add: layer_value_def)

lemma no_chat: "layer_value fld (chat_patch doc None) = None" "layer_value fld None = None"
  by (simp_all add: chat_patch_def layer_value_def)

lemma document_values:
  "ip_fsTools (document_policy doc key) = or_else (layer_value pp_fsTools (chat_patch doc key))
     (or_else (layer_value pp_fsTools (layer_patch (default_layer doc))) (JStr ''deny''))"
  "ip_shell (document_policy doc key) = or_else (layer_value pp_shell (chat_patch doc key))
     (or_else (layer_value pp_shell (layer_patch (default_layer doc))) (JStr ''deny''))"
  "icp_mode (ip_commands (document_policy doc key)) = or_else (layer_value pp_mode (chat_patch doc key))
     (or_else (layer_value pp_mode (layer_patch (default_layer doc))) ModeAsk)"
  "set (or_else (icp_allow (ip_commands (document_policy doc key))) []) =
     set (or_else (layer_value pp_allow (layer_patch (default_layer doc))) [])
     \<union> set (or_else (layer_value pp_allow (chat_patch doc key)) [])"
  "set (or_else (icp_deny (ip_commands (document_policy doc key))) []) =
     set (or_else (layer_value pp_deny (layer_patch (default_layer doc))) [])
     \<union> set (or_else (layer_value pp_deny (chat_patch doc key)) [])"
  by (cases key; simp add: document_policy_def Let_def merge_layer_values default_values
      chat_patch_def layer_value_def[of _ None])+

lemma document_dir:
  "ip_executionDir (document_policy doc key) = fst (resolveExecutionDirChain
     (or_else (layer_patch (default_layer doc)) empty_patch)
     (map_option (\<lambda>k. or_else (layer_patch (chat_layer doc k)) empty_patch) key))"
proof -
  let ?a = "merge_layer (DEFAULT_IM_WORKSPACE_POLICY, default_dir) FromChannel (default_layer doc)"
  have a: "ip_executionDir (fst ?a) = fst (snd ?a)"
    by (rule merge_layer_values(7)) (simp add: default_values)
  have "ip_executionDir (fst (merge_layer ?a FromChat raw)) = fst (snd (merge_layer ?a FromChat raw))"
    for raw using a by (rule merge_layer_values(7))
  with a show ?thesis
    by (cases key; cases "layer_patch (default_layer doc)")
      (auto simp: document_policy_def Let_def resolveExecutionDirChain_def shown_dir
        merge_layer_values(6) resolve_dir_empty split: option.splits)
qed

lemma shown_chat:
  "readPolicyLayers (Some (JObj m)) key =
     (or_else (layer_patch (default_layer (JObj m))) empty_patch,
      map_option (\<lambda>k. or_else (layer_patch (chat_layer (JObj m) k)) empty_patch) key)"
  by (simp add: readPolicyLayers_def)

lemma shown_chat_value:
  "layer_value pp_fsTools (map_option (\<lambda>k. or_else (layer_patch (chat_layer doc k)) empty_patch) key)
     = layer_value pp_fsTools (chat_patch doc key)"
  "layer_value pp_shell (map_option (\<lambda>k. or_else (layer_patch (chat_layer doc k)) empty_patch) key)
     = layer_value pp_shell (chat_patch doc key)"
  "layer_value pp_mode (map_option (\<lambda>k. or_else (layer_patch (chat_layer doc k)) empty_patch) key)
     = layer_value pp_mode (chat_patch doc key)"
  "layer_value pp_allow (map_option (\<lambda>k. or_else (layer_patch (chat_layer doc k)) empty_patch) key)
     = layer_value pp_allow (chat_patch doc key)"
  "layer_value pp_deny (map_option (\<lambda>k. or_else (layer_patch (chat_layer doc k)) empty_patch) key)
     = layer_value pp_deny (chat_patch doc key)"
  by (cases key; simp add: chat_patch_def shown_layer layer_value_def[of _ None])+

text \<open>The value shown for a field is the value that is enforced, and the value shown as
  inherited is the one the enclosing scope resolves to.\<close>

theorem view_shows_enforced_values:
  "let S = describeImPolicySources (Some (JObj m)) key;
       P = document_policy (JObj m) key;
       U = (if key = None then DEFAULT_IM_WORKSPACE_POLICY else document_policy (JObj m) None)
   in (pf_value (so_fsTools S), fst (pf_inherited (so_fsTools S))) = (ip_fsTools P, ip_fsTools U) \<and>
      (pf_value (so_shell S), fst (pf_inherited (so_shell S))) = (ip_shell P, ip_shell U) \<and>
      (pf_value (so_commandMode S), fst (pf_inherited (so_commandMode S))) =
        (icp_mode (ip_commands P), icp_mode (ip_commands U)) \<and>
      (pf_value (so_executionDir S), fst (pf_inherited (so_executionDir S))) =
        (ip_executionDir P, ip_executionDir U)"
  unfolding describeImPolicySources_def shown_chat Let_def case_prod_conv policy_sources.select_convs
    policy_field.select_convs pick_value shown_chat_value document_dir
  by (auto simp: document_values present_layer shown_layer no_chat default_values document_dir
      resolveExecutionDirChain_def)

text \<open>The rules shown for a scope, with the rules of the configuration as the global group, are
  exactly the rules the evaluator is given for a command of that scope.\<close>

theorem view_shows_enforced_rules:
  "let R = describeImPolicyRules (Some (JObj m)) key (coalesce (cf_allow config) (cf_rules config)) (cf_deny config);
       E = im_config config (ip_commands (document_policy (JObj m) key))
   in set (concat (map rg_rules (fst R))) = set (or_else (cf_allow E) []) \<and>
      set (concat (map rg_rules (snd R))) = set (or_else (cf_deny E) [])"
proof -
  have g: "set (concat (map rg_rules (rule_groups g (key = None) a b))) = set (or_else g []) \<union> set a
      \<union> (if key = None then {} else set b)" for g a b
    by (auto simp: rule_groups_def Let_def)
  show ?thesis
    unfolding describeImPolicyRules_def shown_chat Let_def case_prod_conv fst_conv snd_conv g
      shown_chat_value present_layer shown_layer
    by (auto simp: im_config_def document_values no_chat)
qed

section \<open>Nothing is allowed by default\<close>

lemma layer_value_Some:
  "layer_value fld l = Some v \<Longrightarrow> \<exists>p. l = Some p \<and> fld p = Some (Some v)"
  by (auto simp: layer_value_def present_def split: option.splits)

lemma chat_patch_Some: "chat_patch doc key = Some p \<Longrightarrow> \<exists>k. key = Some k \<and> layer_patch (chat_layer doc k) = Some p"
  by (auto simp: chat_patch_def bind_eq_Some_conv)

text \<open>A layer of the document that is valid and sets a verdict.\<close>

definition grants :: "js \<Rightarrow> string option \<Rightarrow> (policy_patch \<Rightarrow> js option option) \<Rightarrow> js \<Rightarrow> bool" where
  "grants doc key fld v \<longleftrightarrow>
     list_ex (\<lambda>l. layer_value fld l = Some v) [layer_patch (default_layer doc), chat_patch doc key] \<and>
     verdict_ok v"

lemma layer_verdict_ok:
  "layer_value pp_fsTools (layer_patch raw) = Some v \<Longrightarrow> verdict_ok v"
  "layer_value pp_shell (layer_patch raw) = Some v \<Longrightarrow> verdict_ok v"
  using layer_patch_ok[of raw]
  by (cases "layer_patch raw"; fastforce simp: layer_value_def present_def patch_ok_def field_ok_def
      simp del: verdict_ok.simps split: option.splits)+

lemma chat_verdict_ok:
  "layer_value pp_fsTools (chat_patch doc key) = Some v \<Longrightarrow> verdict_ok v"
  "layer_value pp_shell (chat_patch doc key) = Some v \<Longrightarrow> verdict_ok v"
  using layer_verdict_ok by (cases key; simp add: chat_patch_def no_chat(2) del: verdict_ok.simps)+

lemma or_else_cases:
  "x = or_else a (or_else b d) \<Longrightarrow> x = d \<or> a = Some x \<or> b = Some x"
  by (cases a; cases b) simp_all

lemma verdict_granted:
  "ip_fsTools (document_policy doc key) = JStr ''deny'' \<or>
     grants doc key pp_fsTools (ip_fsTools (document_policy doc key))"
  "ip_shell (document_policy doc key) = JStr ''deny'' \<or>
     grants doc key pp_shell (ip_shell (document_policy doc key))"
  unfolding grants_def list_ex_iff list.set
  using or_else_cases[OF document_values(1), of doc key] or_else_cases[OF document_values(2), of doc key]
    layer_verdict_ok chat_verdict_ok by blast+

lemma filter_tools_member:
  "t \<in> set (filterToolsForImPolicy tools policy) \<longleftrightarrow>
     t \<in> set tools \<and> (ip_fsTools policy = JStr ''deny'' \<longrightarrow> to_name t \<notin> set FILE_ACCESS_TOOL_NAMES) \<and>
     (ip_shell policy = JStr ''deny'' \<longrightarrow> to_name t \<noteq> SHELL_TOOL)"
  by (auto simp: filterToolsForImPolicy_def Let_def split: if_splits)

text \<open>C9: a file tool or the shell is left in the tool set of a chat only if a valid layer of the
  policy document, the channel's or that chat's own, sets the verdict; an absent or a corrupt
  document leaves none, whatever the extensions register under those names.\<close>

theorem tools_fail_closed:
  assumes "mergeDocumentLayers sha256 raw route = Some policy"
    and "t \<in> set (filterToolsForImPolicy (dedupOverride base overrides) policy)"
    and "to_name t \<in> set FILE_ACCESS_TOOL_NAMES \<and> fld = pp_fsTools \<or> to_name t = SHELL_TOOL \<and> fld = pp_shell"
  shows "\<exists>m key v. raw = Some (JObj m) \<and> scope_key sha256 route = Some key \<and>
     grants (JObj m) key fld v \<and> v \<noteq> JStr ''deny''"
proof -
  have v: "fld = pp_fsTools \<and> ip_fsTools policy \<noteq> JStr ''deny'' \<or> fld = pp_shell \<and> ip_shell policy \<noteq> JStr ''deny''"
    using assms(2,3) unfolding filter_tools_member by blast
  then have "policy \<noteq> DEFAULT_IM_WORKSPACE_POLICY" using default_values by metis
  then obtain m key where "raw = Some (JObj m)" "scope_key sha256 route = Some key"
    and "policy = document_policy (JObj m) key"
    using assms(1) by (auto simp: mergeDocumentLayers_def split: option.splits js.splits)
  then show ?thesis using v verdict_granted[of "JObj m" key] by blast
qed

text \<open>A channel that allows the shell, with one chat that may also use the file tools.\<close>

definition shell_doc :: "(string, js) js_map" where
  "shell_doc =
     [(''version'', JNum ''2''), (''default'', JObj [(''tools'', JObj [(''shell'', JStr ''allow'')])]),
      (''chats'', JObj [(''im://wx/p/c'', JObj [(''tools'', JObj [(''fsTools'', JStr ''allow'')])])])]"

definition wx_route :: im_route where
  "wx_route = \<lparr>rt_channelId = ''wx'', rt_peerId = ''p'', rt_chatId = ''c''\<rparr>"

theorem tools_fail_closed_witness:
  "\<exists>m key v. Some (JObj shell_doc) = Some (JObj m) \<and>
     scope_key (\<lambda>s. s) (Some wx_route) = Some key \<and> grants (JObj m) key pp_shell v \<and> v \<noteq> JStr ''deny''"
proof (rule tools_fail_closed)
  let ?t = "\<lparr>to_name = ''shell'', to_body = ()\<rparr>"
  show "mergeDocumentLayers (\<lambda>s. s) (Some (JObj shell_doc)) (Some wx_route) =
      Some (document_policy (JObj shell_doc) (Some ''im://wx/p/c''))" by code_simp
  show "?t \<in> set (filterToolsForImPolicy (dedupOverride [] [?t])
      (document_policy (JObj shell_doc) (Some ''im://wx/p/c'')))" by code_simp
  show "to_name ?t \<in> set FILE_ACCESS_TOOL_NAMES \<and> pp_shell = pp_fsTools \<or>
      to_name ?t = SHELL_TOOL \<and> pp_shell = pp_shell" by (simp add: SHELL_TOOL_def)
qed

text \<open>The verdict is compared by its text when it is validated and by identity when it is used:
  a list that holds the one word \<open>deny\<close> is accepted and removes nothing.\<close>

lemma listed_deny_fails_open:
  "filterToolsForImPolicy [\<lparr>to_name = SHELL_TOOL, to_body = ()\<rparr>]
     (document_policy (JObj [(''default'', JObj [(''tools'', JObj [(''shell'', JArr [JStr ''deny''])])])]) None)
   = [\<lparr>to_name = SHELL_TOOL, to_body = ()\<rparr>]"
  by code_simp

end
