(* ===== verification/ImTools.thy ===== *)
theory ImTools
  imports ImPolicyProps
begin

text \<open>
  What the policy of a chat leaves of the tool set, and where the tools run:
  \<open>runtime/toolAssembly.ts\<close> and \<open>server/imExecutionCwd.ts\<close>.
\<close>

section \<open>The tool set\<close>

lemma find_append: "find P (xs @ ys) = (case find P xs of None \<Rightarrow> find P ys | Some x \<Rightarrow> Some x)"
  by (induction xs) auto

lemma find_holds: "find P xs = Some x \<Longrightarrow> P x"
  by (induction xs) (auto split: if_splits)

lemma last_by_name_wf: "jm_wf m \<Longrightarrow> jm_wf (last_by_name ts m)"
  by (induction ts m rule: last_by_name.induct) auto

lemma last_by_name_lookup:
  "jm_get (last_by_name ts m) n =
     (case find (\<lambda>t. to_name t = n) (rev ts) of Some t \<Rightarrow> Some t | None \<Rightarrow> jm_get m n)"
  by (induction ts m rule: last_by_name.induct) (auto simp: find_append split: option.splits)

lemma last_by_name_entry:
  "e \<in> set (last_by_name ts []) \<longleftrightarrow>
     fst e = to_name (snd e) \<and> find (\<lambda>t. to_name t = to_name (snd e)) (rev ts) = Some (snd e)"
proof -
  have "e \<in> set (last_by_name ts []) \<longleftrightarrow> find (\<lambda>t. to_name t = fst e) (rev ts) = Some (snd e)"
    using jm_get_iff[OF last_by_name_wf[OF jm_wf_Nil], of ts "fst e" "snd e"]
    by (auto simp: last_by_name_lookup split: option.splits)
  then show ?thesis using find_holds[of "\<lambda>t. to_name t = fst e" "rev ts" "snd e"] by auto
qed

text \<open>Merging the extensions' tools over the built-in ones leaves no name twice; the tool
  under a name is the one the extensions registered last, or the built-in one if they
  registered none.\<close>

theorem tool_merge_correct:
  assumes "distinct (map to_name base)"
  shows "distinct (map to_name (dedupOverride base overrides)) \<and>
    (t \<in> set (dedupOverride base overrides) \<longleftrightarrow>
       (case find (\<lambda>x. to_name x = to_name t) (rev overrides) of
          Some w \<Rightarrow> t = w
        | None \<Rightarrow> t \<in> set base))"
proof
  let ?l = "last_by_name overrides []"
  have names: "map to_name (map snd ?l) = map fst ?l"
    using last_by_name_entry[of _ overrides] by simp
  have wf: "distinct (map fst ?l)" using last_by_name_wf[OF jm_wf_Nil] by (simp add: jm_wf_def)
  have "distinct (map to_name (filter (\<lambda>t. to_name t \<notin> set (map fst ?l)) base))"
    using assms by (rule distinct_map_filter)
  then show "distinct (map to_name (dedupOverride base overrides))"
    unfolding dedupOverride_def Let_def map_append names using wf by auto
  have mem: "to_name t \<in> set (map fst ?l) \<longleftrightarrow> find (\<lambda>x. to_name x = to_name t) (rev overrides) \<noteq> None"
    using last_by_name_lookup[of overrides "[]" "to_name t"]
    by (auto simp: jm_get_def dom_map_of_conv_image_fst[symmetric] dom_def split: option.splits)
  have "t \<in> snd ` set ?l \<longleftrightarrow> find (\<lambda>x. to_name x = to_name t) (rev overrides) = Some t"
  proof
    assume "t \<in> snd ` set ?l"
    then obtain e where "e \<in> set ?l" "t = snd e" by blast
    then show "find (\<lambda>x. to_name x = to_name t) (rev overrides) = Some t"
      using last_by_name_entry[of e overrides] by simp
  next
    assume "find (\<lambda>x. to_name x = to_name t) (rev overrides) = Some t"
    then have "(to_name t, t) \<in> set ?l" using last_by_name_entry[of "(to_name t, t)" overrides] by simp
    then show "t \<in> snd ` set ?l" by force
  qed
  then show "t \<in> set (dedupOverride base overrides) \<longleftrightarrow>
       (case find (\<lambda>x. to_name x = to_name t) (rev overrides) of
          Some w \<Rightarrow> t = w | None \<Rightarrow> t \<in> set base)"
    using mem by (auto simp: dedupOverride_def Let_def split: option.splits)
qed

theorem tool_merge_correct_witness:
  "distinct (map to_name (dedupOverride [\<lparr>to_name = ''read'', to_body = 1::nat\<rparr>]
      [\<lparr>to_name = ''read'', to_body = 2\<rparr>, \<lparr>to_name = ''read'', to_body = 3\<rparr>])) \<and>
   \<lparr>to_name = ''read'', to_body = 3\<rparr> \<in> set (dedupOverride [\<lparr>to_name = ''read'', to_body = 1::nat\<rparr>]
      [\<lparr>to_name = ''read'', to_body = 2\<rparr>, \<lparr>to_name = ''read'', to_body = 3\<rparr>])"
  using tool_merge_correct[of "[\<lparr>to_name = ''read'', to_body = 1::nat\<rparr>]"
      "[\<lparr>to_name = ''read'', to_body = 2\<rparr>, \<lparr>to_name = ''read'', to_body = 3\<rparr>]"
      "\<lparr>to_name = ''read'', to_body = 3\<rparr>"]
  by simp

section \<open>Where the tools of a chat run\<close>

lemma path_segs_child:
  assumes "list_all good_seg ss" "ss \<noteq> []"
  shows "path_segs (root @ slash # join ''/'' ss) = path_segs root @ ss"
proof -
  have "split_char slash (join [slash] ss) = ss"
    using assms by (intro split_join) (auto simp: good_seg_def list_all_iff)
  then show ?thesis
    using assms(1) by (simp add: path_segs_def split_by_append_sep norm_segs_append norm_segs_id)
qed

lemma join_last: "ss \<noteq> [] \<Longrightarrow> \<exists>u. join sep ss = u @ last ss"
proof (induction sep ss rule: join.induct)
  case (3 sep x y ys)
  then obtain u where "join sep (y # ys) = u @ last (y # ys)" by auto
  then have "join sep (x # y # ys) = (x @ sep @ u) @ last (x # y # ys)" by simp
  then show ?case by blast
qed simp_all

lemma path_join_child:
  assumes "isAbsolute root" "list_all good_seg ss" "ss \<noteq> []"
  shows "path_join (root # ss) = abs_path (path_segs root @ ss)"
proof -
  obtain s ss' where ss: "ss = s # ss'" using assms(3) by (cases ss) auto
  have ne: "filter (\<lambda>x. x \<noteq> []) (root # ss) = root # ss"
  proof (rule filter_True)
    have "root \<noteq> []" using assms(1) by (auto simp: isAbsolute_def startsWith_def)
    moreover have "\<forall>x \<in> set ss. x \<noteq> []" using assms(2) unfolding list_all_iff good_seg_def by blast
    ultimately show "\<forall>x \<in> set (root # ss). x \<noteq> []" by simp
  qed
  have j: "join ''/'' (root # ss) = root @ slash # join ''/'' ss" using ss by simp
  have abs: "isAbsolute (root @ slash # join ''/'' ss)"
    using assms(1) by (cases root) (auto simp: isAbsolute_def startsWith_def)
  have g: "last ss \<noteq> []" "slash \<notin> set (last ss)"
    using assms(2,3) unfolding list_all_iff good_seg_def by simp_all
  obtain u where "join ''/'' ss = u @ last ss"
    using join_last[OF assms(3)] by blast
  then have "root @ slash # join ''/'' ss = (root @ slash # u @ butlast (last ss)) @ [last (last ss)]"
    using g(1) by simp
  moreover have "last (last ss) \<noteq> slash" using g by (metis last_in_set)
  ultimately have e: "\<not> endsWith (root @ slash # join ''/'' ss) ''/''"
    by (simp only: endsWith_def startsWith_def) simp
  have "join ''/'' (path_segs root @ ss) \<noteq> []"
    using join_good_not_Nil[of "hd (path_segs root @ ss)" "tl (path_segs root @ ss)"] assms(2,3)
      path_segs_good[of root] by (cases "path_segs root") (simp_all add: ss)
  then show ?thesis
    using assms(3) abs e ne j path_segs_child[OF assms(2,3), of root]
    by (simp add: path_join_def normalize_path_def Let_def abs_path_def)
qed

text \<open>The directory a chat's tools run in is the channel's scratch directory, the chat's own
  one if the policy says so, or the configured one, and that only if it is a directory that may
  be granted and written; a configured directory that is refused comes with a warning.\<close>

theorem execution_cwd_safe:
  assumes "resolveImExecutionCwd H writable sha256 sessionsRoot route policy = Some e"
  shows "(\<exists>p. ip_executionDir policy = DirCustom p \<and> e = \<lparr>ec_executionCwd = p, ec_shared = False, ec_warning = None\<rparr> \<and>
            isAbsolute p \<and> checkGrantRootSafety H p = GrantOk \<and> isValidWritableDir H writable p) \<or>
    (\<exists>k. ip_executionDir policy = DirPerChat \<and> chatPolicyKey sha256 route = Some k \<and>
        e = \<lparr>ec_executionCwd = path_join [sessionsRoot, ''chats'', k, ''scratch''], ec_shared = False, ec_warning = None\<rparr>) \<or>
    (ec_executionCwd e = path_join [sessionsRoot, ''scratch''] \<and> ec_shared e \<and>
        (\<exists>p. ip_executionDir policy = DirCustom p \<and> p \<noteq> []) = (ec_warning e \<noteq> None))"
proof (cases "ip_executionDir policy")
  case (DirCustom p)
  have "checkGrantRootSafety H p = GrantOk \<Longrightarrow> isAbsolute p"
    by (auto simp: checkGrantRootSafety_def split: if_splits)
  then show ?thesis
    using assms DirCustom unfolding resolveImExecutionCwd_def Let_def
    by (cases "checkGrantRootSafety H p"; cases "isValidWritableDir H writable p"; cases "p = []") auto
qed (use assms in \<open>auto simp: resolveImExecutionCwd_def Let_def\<close>)

text \<open>Two chats that each have a directory of their own share no file there, as long as the
  digest tells their keys apart and yields a plain file name.\<close>

theorem chat_directories_disjoint:
  assumes "resolveImExecutionCwd H writable sha256 sessionsRoot r policy = Some e"
    and "resolveImExecutionCwd H writable sha256 sessionsRoot r' policy' = Some e'"
    and "ip_executionDir policy = DirPerChat" "ip_executionDir policy' = DirPerChat"
    and "rt_channelId r \<noteq> []" "slash \<notin> set (rt_channelId r)"
    and "rt_channelId r' \<noteq> []" "slash \<notin> set (rt_channelId r')"
    and "isAbsolute sessionsRoot" and "r \<noteq> r'"
    and digest: "\<And>s. good_seg (sha256 s)"
      "\<And>s s'. makeImCwd (rt_channelId r) (rt_peerId r) (rt_chatId r) = Some s \<Longrightarrow>
        makeImCwd (rt_channelId r') (rt_peerId r') (rt_chatId r') = Some s' \<Longrightarrow> sha256 s = sha256 s' \<Longrightarrow> s = s'"
  shows "\<not> (prefix (path_segs (ec_executionCwd e)) file \<and> prefix (path_segs (ec_executionCwd e')) file)"
proof
  obtain k k' where k: "chatPolicyKey sha256 r = Some k" "chatPolicyKey sha256 r' = Some k'"
    and e: "ec_executionCwd e = path_join [sessionsRoot, ''chats'', k, ''scratch'']"
      "ec_executionCwd e' = path_join [sessionsRoot, ''chats'', k', ''scratch'']"
    using assms(1-4) by (auto simp: resolveImExecutionCwd_def Let_def)
  have "good_seg k" "good_seg k'" using k digest(1) by (auto simp: chatPolicyKey_def)
  then have good: "list_all good_seg [''chats'', k, ''scratch'']" "list_all good_seg [''chats'', k', ''scratch'']"
    by (simp_all add: good_seg_def)
  have segs: "path_segs (ec_executionCwd e) = path_segs sessionsRoot @ [''chats'', k, ''scratch'']"
    "path_segs (ec_executionCwd e') = path_segs sessionsRoot @ [''chats'', k', ''scratch'']"
    unfolding e using path_join_child[OF assms(9) good(1)] path_join_child[OF assms(9) good(2)]
      good path_segs_good[of sessionsRoot] by (simp_all add: path_segs_abs_path)
  assume "prefix (path_segs (ec_executionCwd e)) file \<and> prefix (path_segs (ec_executionCwd e')) file"
  then have "prefix (path_segs (ec_executionCwd e)) (path_segs (ec_executionCwd e')) \<or>
      prefix (path_segs (ec_executionCwd e')) (path_segs (ec_executionCwd e))"
    using prefix_same_cases by blast
  then have "k = k'" unfolding segs by (auto simp: same_prefix_prefix)
  then have "r = r'" using chatPolicyKey_inj[OF digest(2) assms(5-8)] k by simp
  then show False using assms(10) by blast
qed

theorem execution_cwd_safe_witness:
  "isAbsolute ''/w'' \<and> checkGrantRootSafety linked_machine ''/w'' = GrantOk"
proof -
  let ?P = "DEFAULT_IM_WORKSPACE_POLICY\<lparr>ip_executionDir := DirCustom ''/w''\<rparr>"
  have r: "resolveImExecutionCwd linked_machine (\<lambda>_. True) (\<lambda>s. s) ''/s'' wx_route ?P =
      Some \<lparr>ec_executionCwd = ''/w'', ec_shared = False, ec_warning = None\<rparr>" by code_simp
  have d: "ip_executionDir ?P = DirCustom ''/w''" by simp
  show ?thesis using execution_cwd_safe[OF r] unfolding d by simp
qed

text \<open>A digest that tells the two chats of the witness apart.\<close>

definition two_digest :: "string \<Rightarrow> string" where
  "two_digest s = (if s = ''im://wx/p/c'' then ''a1'' else ''b2'')"

theorem chat_directories_disjoint_witness:
  "\<not> (prefix (path_segs ''/s/chats/a1/scratch'') [''s'', ''chats'', ''a1'', ''scratch'', ''f''] \<and>
      prefix (path_segs ''/s/chats/b2/scratch'') [''s'', ''chats'', ''a1'', ''scratch'', ''f''])"
proof -
  let ?P = "DEFAULT_IM_WORKSPACE_POLICY\<lparr>ip_executionDir := DirPerChat\<rparr>"
  let ?r = "wx_route\<lparr>rt_chatId := ''d''\<rparr>"
  have e: "resolveImExecutionCwd linked_machine (\<lambda>_. True) two_digest ''/s'' wx_route ?P =
      Some \<lparr>ec_executionCwd = ''/s/chats/a1/scratch'', ec_shared = False, ec_warning = None\<rparr>"
    "resolveImExecutionCwd linked_machine (\<lambda>_. True) two_digest ''/s'' ?r ?P =
      Some \<lparr>ec_executionCwd = ''/s/chats/b2/scratch'', ec_shared = False, ec_warning = None\<rparr>" by code_simp+
  have c: "rt_channelId wx_route \<noteq> []" "slash \<notin> set (rt_channelId wx_route)"
    "rt_channelId ?r \<noteq> []" "slash \<notin> set (rt_channelId ?r)" "isAbsolute ''/s''" "wx_route \<noteq> ?r" by code_simp+
  have g: "good_seg (two_digest s)" for s by (simp add: two_digest_def good_seg_def)
  have m: "makeImCwd (rt_channelId wx_route) (rt_peerId wx_route) (rt_chatId wx_route) = Some ''im://wx/p/c''"
    "makeImCwd (rt_channelId ?r) (rt_peerId ?r) (rt_chatId ?r) = Some ''im://wx/p/d''"
    "two_digest ''im://wx/p/c'' \<noteq> two_digest ''im://wx/p/d''" by code_simp+
  have i: "s = s'" if "makeImCwd (rt_channelId wx_route) (rt_peerId wx_route) (rt_chatId wx_route) = Some s"
    "makeImCwd (rt_channelId ?r) (rt_peerId ?r) (rt_chatId ?r) = Some s'" "two_digest s = two_digest s'" for s s'
    using that m by (simp only: option.inject)
  have d: "ip_executionDir ?P = DirPerChat" by simp
  show ?thesis
    using chat_directories_disjoint[OF e d d c g i,
        of "[''s'', ''chats'', ''a1'', ''scratch'', ''f'']"]
    unfolding exec_cwd.select_convs .
qed

end
