(* ===== verification/ImPolicyStore.thy ===== *)
theory ImPolicyStore
  imports ImTools
begin

text \<open>
  The store of the chat policies: \<open>packages/sidecar/src/channels/imWorkspacePolicyStore.ts\<close>. Every
  channel has one file; a file is the value its text parses to, \<^const>\<open>None\<close> when it does not
  parse. Reads are synchronous and go to the files; writes go through one chain of promises, here
  the queue of the store, and land later, one by one, or fail. Nothing is cached.
\<close>

section \<open>Definitions\<close>

definition IM_POLICY_DOCUMENT_VERSION :: js where
  "IM_POLICY_DOCUMENT_VERSION = JNum ''2''"

datatype policy_write = WriteDocument string "(string, js) js_map" | WriteNotified

record policy_store =
  ps_disk :: "(string, js option) js_map"
  ps_notifiedFile :: "js option option"
  ps_notified :: "string list"
  ps_chain :: "policy_write list"

definition imWorkspacePoliciesDir :: "string \<Rightarrow> string" where
  "imWorkspacePoliciesDir home = path_join [home, ''im-workspace-policies'']"

definition imWorkspacePoliciesPath :: "string \<Rightarrow> string \<Rightarrow> string" where
  "imWorkspacePoliciesPath channelId home = path_join [imWorkspacePoliciesDir home, channelId @ ''.json'']"

definition notifiedPath :: "string \<Rightarrow> string" where
  "notifiedPath home = path_join [imWorkspacePoliciesDir home, ''notified.json'']"

definition assertSafeExecutionDir :: "host \<Rightarrow> js \<Rightarrow> string \<Rightarrow> unit checked" where
  "assertSafeExecutionDir H patch source =
     (let dir = js_prop patch ''executionDir'' in
      if opt_prop dir ''mode'' \<noteq> Some (JStr ''custom'') then Inr ()
      else (case opt_prop dir ''path'' of
              Some (JStr p) \<Rightarrow>
                if p = [] then Inr ()
                else (case checkGrantRootSafety H p of
                        GrantOk \<Rightarrow> Inr ()
                      | GrantDenied reason \<Rightarrow> Inl (''invalid im policy executionDir.path from '' @ source @
                          '': execution directory '' @ reason))
            | _ \<Rightarrow> Inr ()))"

definition keep_default :: "(string, js) js_map \<Rightarrow> (string, js) js_map \<Rightarrow> (string, js) js_map" where
  "keep_default doc out =
     (case jm_get doc ''default'' of
        Some v \<Rightarrow> if jm_get out ''default'' = None then jm_set out ''default'' v else out
      | None \<Rightarrow> out)"

definition keep_chat :: "(string, js) js_map \<Rightarrow> string \<times> js \<Rightarrow> (string, js) js_map" where
  "keep_chat out e =
     (if chat_layer (JObj out) (fst e) = None
      then jm_set out ''chats'' (JObj (jm_set (chat_entries (JObj out)) (fst e) (snd e)))
      else out)"

definition migrateDocument :: "(string, js) js_map \<Rightarrow> (string, js) js_map" where
  "migrateDocument doc =
     foldl keep_chat (keep_default doc (js_entries (normalizePolicyDocument (JObj doc)))) (chat_entries (JObj doc))"

definition persist :: "string \<Rightarrow> (string, js) js_map \<Rightarrow> policy_store \<Rightarrow> policy_store" where
  "persist channelId doc st = st\<lparr>ps_chain := ps_chain st @ [WriteDocument channelId doc]\<rparr>"

definition stamped :: "(string, js) js_map \<Rightarrow> (string, js) js_map" where
  "stamped doc = jm_set doc ''version'' IM_POLICY_DOCUMENT_VERSION"

text \<open>One write of the chain runs: it lands, or the directory, the temporary file or the renaming
  fails and the file stays what it was, since only the renaming touches it.\<close>

fun run_write :: "bool \<Rightarrow> policy_write \<Rightarrow> policy_store \<Rightarrow> policy_store" where
  "run_write ok (WriteDocument channelId doc) st =
     (if ok then st\<lparr>ps_disk := jm_set (ps_disk st) channelId (Some (JObj (stamped doc)))\<rparr> else st)"
| "run_write ok WriteNotified st =
     (if ok then st\<lparr>ps_notifiedFile := Some (Some (JObj (map (\<lambda>k. (k, JBool True)) (ps_notified st))))\<rparr>
      else st)"

text \<open>Whether each queued write succeeds, in their order; what is not listed succeeds.\<close>

type_synonym write_outcomes = "bool list"

definition write_ok :: "write_outcomes \<Rightarrow> nat \<Rightarrow> bool" where
  "write_ok oks n = (n < length oks \<longrightarrow> oks ! n)"

text \<open>A write that failed does not break the chain: the next one runs.\<close>

fun run_chain :: "write_outcomes \<Rightarrow> policy_write list \<Rightarrow> policy_store \<Rightarrow> policy_store" where
  "run_chain oks [] st = st"
| "run_chain oks (w # ws) st = run_chain (tl oks) ws (run_write (write_ok oks 0) w st)"

definition store_drain :: "write_outcomes \<Rightarrow> policy_store \<Rightarrow> policy_store" where
  "store_drain oks st = run_chain oks (ps_chain st) (st\<lparr>ps_chain := []\<rparr>)"

definition store_flush :: "policy_store \<Rightarrow> policy_store" where
  "store_flush st = store_drain [] st"

text \<open>The promise of a setter: it rejects with the error of its checks, or with the failure of its
  own write, the last one of the queue.\<close>

definition await_setter :: "write_outcomes \<Rightarrow> unit checked \<times> policy_store \<Rightarrow> unit checked \<times> policy_store" where
  "await_setter oks call =
     (case call of
        (Inl e, st) \<Rightarrow> (Inl e, store_drain oks st)
      | (Inr _, st) \<Rightarrow>
          (if write_ok oks (length (ps_chain st) - 1) then Inr () else Inl ''write failed'', store_drain oks st))"

definition loadDocument :: "string \<Rightarrow> policy_store \<Rightarrow> (string, js) js_map option \<times> policy_store" where
  "loadDocument channelId st =
     (case jm_get (ps_disk st) channelId of
        Some (Some (JObj doc)) \<Rightarrow>
          if jm_get doc ''version'' \<noteq> None then (Some doc, st)
          else let migrated = migrateLegacyImPolicyDocument doc in (Some migrated, persist channelId migrated st)
      | _ \<Rightarrow> (None, st))"

definition store_resolve ::
  "(string \<Rightarrow> string) \<Rightarrow> im_route \<Rightarrow> policy_store \<Rightarrow> im_policy option \<times> policy_store" where
  "store_resolve sha256 route st =
     (let (doc, st1) = loadDocument (rt_channelId route) st
      in (resolveImWorkspacePolicyFromDocument sha256 (map_option JObj doc) route, st1))"

definition readDocument :: "string \<Rightarrow> policy_store \<Rightarrow> (string, js) js_map \<times> policy_store" where
  "readDocument channelId st =
     (let (doc, st1) = loadDocument channelId st in (or_else doc [], st1))"

definition patchDocument ::
  "string \<Rightarrow> ((string, js) js_map \<Rightarrow> (string, js) js_map checked) \<Rightarrow> policy_store \<Rightarrow>
     (string, js) js_map checked \<times> policy_store" where
  "patchDocument channelId mutate st =
     (let (doc, st1) = loadDocument channelId st in (mutate (or_else doc []), st1))"

text \<open>The common part of the two setters: \<open>get\<close> and \<open>put\<close> are the layer they change.\<close>

definition set_layer ::
  "host \<Rightarrow> string \<Rightarrow> string \<Rightarrow> js \<Rightarrow> (js \<Rightarrow> js option) \<Rightarrow>
     (js \<Rightarrow> (string, js) js_map \<Rightarrow> (string, js) js_map) \<Rightarrow> policy_store \<Rightarrow> unit checked \<times> policy_store" where
  "set_layer H channelId source patch get put st =
     (case chk (validatePartial (Some patch)) (\<lambda>_. assertSafeExecutionDir H patch source) of
        Inl e \<Rightarrow> (Inl e, st)
      | Inr _ \<Rightarrow>
          (case patchDocument channelId
             (\<lambda>d. let merged = mergeImWorkspacePolicyPatch (or_else (js_present (get (JObj d))) (JObj [])) patch in
                  chk (validatePartial (Some merged)) (\<lambda>_. Inr (migrateDocument (put merged d)))) st of
             (Inl e, st1) \<Rightarrow> (Inl e, st1)
           | (Inr doc, st1) \<Rightarrow> (Inr (), persist channelId doc st1)))"

definition put_default :: "js \<Rightarrow> (string, js) js_map \<Rightarrow> (string, js) js_map" where
  "put_default merged d = jm_set d ''default'' merged"

definition put_chat :: "string \<Rightarrow> js \<Rightarrow> (string, js) js_map \<Rightarrow> (string, js) js_map" where
  "put_chat key merged d = jm_set d ''chats'' (JObj (jm_set (chat_entries (JObj d)) key merged))"

definition setChannelDefault :: "host \<Rightarrow> string \<Rightarrow> js \<Rightarrow> policy_store \<Rightarrow> unit checked \<times> policy_store" where
  "setChannelDefault H channelId patch =
     set_layer H channelId (''channel-default:'' @ channelId) patch default_layer put_default"

text \<open>\<open>chatPolicyKey\<close> throws on a route it cannot encode, after the patch has been checked.\<close>

definition setChatOverride ::
  "host \<Rightarrow> (string \<Rightarrow> string) \<Rightarrow> im_route \<Rightarrow> js \<Rightarrow> policy_store \<Rightarrow> unit checked \<times> policy_store" where
  "setChatOverride H sha256 route patch st =
     (let source = ''chat-override:'' @ rt_channelId route in
      case chatPolicyKey sha256 route of
        Some key \<Rightarrow> set_layer H (rt_channelId route) source patch (\<lambda>d. chat_layer d key) (put_chat key) st
      | None \<Rightarrow>
          (case chk (validatePartial (Some patch)) (\<lambda>_. assertSafeExecutionDir H patch source) of
             Inl e \<Rightarrow> (Inl e, st)
           | Inr _ \<Rightarrow> (Inl ''invalid route'', st)))"

definition clearChatOverrideByKey :: "string \<Rightarrow> string \<Rightarrow> policy_store \<Rightarrow> policy_store" where
  "clearChatOverrideByKey channelId key st =
     (let (doc, st1) = loadDocument channelId st; d = or_else doc []
      in persist channelId (jm_set d ''chats'' (JObj (jm_delete (chat_entries (JObj d)) key))) st1)"

definition clearChatOverride ::
  "(string \<Rightarrow> string) \<Rightarrow> im_route \<Rightarrow> policy_store \<Rightarrow> unit checked \<times> policy_store" where
  "clearChatOverride sha256 route st =
     (case chatPolicyKey sha256 route of
        None \<Rightarrow> (Inl ''invalid route'', st)
      | Some key \<Rightarrow> (Inr (), clearChatOverrideByKey (rt_channelId route) key st))"

definition hasNotified :: "string \<Rightarrow> policy_store \<Rightarrow> bool" where
  "hasNotified workspaceKey st = (workspaceKey \<in> set (ps_notified st))"

definition markNotified :: "string \<Rightarrow> policy_store \<Rightarrow> policy_store" where
  "markNotified workspaceKey st =
     (if hasNotified workspaceKey st then st
      else st\<lparr>ps_notified := ps_notified st @ [workspaceKey], ps_chain := ps_chain st @ [WriteNotified]\<rparr>)"

definition loadNotified :: "js option option \<Rightarrow> string list" where
  "loadNotified file = (case file of Some (Some (JObj m)) \<Rightarrow> remdups (map fst m) | _ \<Rightarrow> [])"

definition open_store :: "(string, js option) js_map \<Rightarrow> js option option \<Rightarrow> policy_store" where
  "open_store disk file = \<lparr>ps_disk = disk, ps_notifiedFile = file, ps_notified = loadNotified file, ps_chain = []\<rparr>"

section \<open>Documents\<close>

lemma put_chat_layer: "chat_layer (JObj (put_chat key v d)) k = (if k = key then Some v else chat_layer (JObj d) k)"
  by (auto simp: put_chat_def chat_layer_entries chat_entries_def js_prop_def)

lemma put_chat_default: "default_layer (JObj (put_chat key v d)) = default_layer (JObj d)"
  by (simp add: put_chat_def default_layer_def js_prop_def)

lemma keep_chat_put: "keep_chat out e = (if chat_layer (JObj out) (fst e) = None then put_chat (fst e) (snd e) out else out)"
  by (simp add: keep_chat_def put_chat_def)

lemma keep_chats_layer:
  "chat_layer (JObj (foldl keep_chat out es)) k =
     (case chat_layer (JObj out) k of Some v \<Rightarrow> Some v | None \<Rightarrow> jm_get es k)"
proof (induction es arbitrary: out)
  case (Cons e es)
  then show ?case
    by (cases "fst e = k") (auto simp: keep_chat_put put_chat_layer jm_get_def split: option.splits)
qed (simp add: jm_get_def split: option.splits)

lemma keep_chats_default: "default_layer (JObj (foldl keep_chat out es)) = default_layer (JObj out)"
  by (induction es arbitrary: out) (simp_all add: keep_chat_put put_chat_default)

lemma normal_object: "JObj (js_entries (normalizePolicyDocument (JObj m))) = normalizePolicyDocument (JObj m)"
  by (simp add: normalizePolicyDocument_def)

text \<open>The migration of a document puts every valid layer in its normal form and keeps the others.\<close>

lemma migrate_default:
  "layer_patch (default_layer (JObj (migrateDocument doc))) =
     map_option (normal_patch None) (layer_patch (default_layer (JObj doc)))"
proof -
  let ?n = "normalizePolicyDocument (JObj doc)"
  have "default_layer (JObj (migrateDocument doc)) =
      (case default_layer ?n of Some v \<Rightarrow> Some v | None \<Rightarrow> default_layer (JObj doc))"
  proof -
    have "default_layer (JObj (keep_default doc (js_entries ?n))) =
        (case default_layer (JObj (js_entries ?n)) of Some v \<Rightarrow> Some v | None \<Rightarrow> default_layer (JObj doc))"
      by (auto simp: keep_default_def default_layer_def js_prop_def split: option.splits)
    then show ?thesis by (simp add: migrateDocument_def keep_chats_default normal_object)
  qed
  then show ?thesis
    using layer_after_json[of None "default_layer (JObj doc)"]
    by (cases "layer_patch (default_layer (JObj doc))") (simp_all add: normal_default_layer)
qed

lemma migrate_chat:
  assumes "jm_wf (chat_entries (JObj doc))"
  shows "layer_patch (chat_layer (JObj (migrateDocument doc)) k) =
     map_option (normal_patch (Some (fst (channel_dir (JObj doc))))) (layer_patch (chat_layer (JObj doc) k))"
proof -
  let ?n = "normalizePolicyDocument (JObj doc)"
  have "chat_layer (JObj (keep_default doc (js_entries ?n))) k = chat_layer ?n k"
  proof -
    have "chat_layer (JObj (keep_default doc (js_entries ?n))) k = chat_layer (JObj (js_entries ?n)) k"
      by (simp add: keep_default_def chat_layer_def js_prop_def split: option.splits)
    then show ?thesis by (simp only: normal_object)
  qed
  then have "chat_layer (JObj (migrateDocument doc)) k =
      (case chat_layer ?n k of Some v \<Rightarrow> Some v | None \<Rightarrow> chat_layer (JObj doc) k)"
    by (simp add: migrateDocument_def keep_chats_layer chat_layer_entries[of "JObj doc"] split: option.splits)
  then show ?thesis
    using layer_after_json[of "Some (fst (channel_dir (JObj doc)))" "chat_layer (JObj doc) k"]
    by (cases "layer_patch (chat_layer (JObj doc) k)") (simp_all add: normal_chat_layer[OF assms])
qed

lemma stamped_layers:
  "default_layer (JObj (stamped d)) = default_layer (JObj d)" "chat_layer (JObj (stamped d)) k = chat_layer (JObj d) k"
  by (simp_all add: stamped_def default_layer_def chat_layer_def js_prop_def)

lemma document_policy_cong:
  assumes "layer_patch (default_layer doc') = layer_patch (default_layer doc)"
    and "\<And>k. key = Some k \<Longrightarrow> layer_patch (chat_layer doc' k) = layer_patch (chat_layer doc k)"
  shows "document_policy doc' key = document_policy doc key"
  using assms by (auto simp: document_policy_def merge_layer_def Let_def split: option.splits)

lemma migrated_policy:
  assumes "jm_wf (chat_entries (JObj doc))" "legacy_consistent (layer_patch (default_layer (JObj doc)))"
    and "\<And>k. key = Some k \<Longrightarrow> legacy_consistent (layer_patch (chat_layer (JObj doc) k))"
  shows "document_policy (JObj (migrateDocument doc)) key = document_policy (JObj doc) key"
  by (rule document_policy_normal) (use assms migrate_default migrate_chat in simp_all)

section \<open>The store\<close>

text \<open>The policy of a scope as the store reads it now.\<close>

definition store_policy :: "string \<Rightarrow> string option \<Rightarrow> policy_store \<Rightarrow> im_policy" where
  "store_policy channelId key st = document_policy (JObj (fst (readDocument channelId st))) key"

lemma document_policy_empty: "document_policy (JObj []) key = DEFAULT_IM_WORKSPACE_POLICY"
  by (simp add: document_policy_def merge_layer_def default_layer_def chat_layer_def js_prop_def opt_prop_def
      layer_patch_def Let_def split: option.splits)

lemma store_resolve_policy:
  "chatPolicyKey sha256 route = Some key \<Longrightarrow>
     fst (store_resolve sha256 route st) = Some (store_policy (rt_channelId route) (Some key) st)"
  by (simp add: store_resolve_def store_policy_def readDocument_def resolveImWorkspacePolicyFromDocument_def
      mergeDocumentLayers_def scope_key_def case_prod_beta Let_def document_policy_empty
      split: option.splits)

lemma run_write_chain [simp]: "ps_chain (run_write ok w st) = ps_chain st"
  by (cases w) simp_all

lemma write_ok_Nil [simp]: "write_ok [] n" and write_ok_tl: "write_ok (tl oks) n = write_ok oks (Suc n)"
  by (simp_all add: write_ok_def nth_tl) linarith

lemma run_chain_ok: "run_chain [] ws st = foldl (\<lambda>s w. run_write True w s) st ws"
  by (induction ws arbitrary: st) simp_all

lemma store_flush_eq: "store_flush st = foldl (\<lambda>s w. run_write True w s) (st\<lparr>ps_chain := []\<rparr>) (ps_chain st)"
  by (simp add: store_flush_def store_drain_def run_chain_ok)

text \<open>A last write that fails might as well not have been queued.\<close>

lemma run_chain_failed:
  "\<not> write_ok oks (length ws) \<Longrightarrow> run_chain oks (ws @ [w]) st = run_chain oks ws st"
proof (induction ws arbitrary: oks st)
  case Nil
  then show ?case by (cases w) simp_all
next
  case (Cons v ws)
  then show ?case by (simp add: write_ok_tl)
qed

text \<open>Reading a document depends on its file only, and a file the store has written is read as it is.\<close>

lemma load_same: "jm_get (ps_disk st') c = jm_get (ps_disk st) c \<Longrightarrow> fst (loadDocument c st') = fst (loadDocument c st)"
  by (simp add: loadDocument_def Let_def split: option.splits js.splits)

lemma load_stamped: "jm_get (ps_disk st) c = Some (Some (JObj (stamped d))) \<Longrightarrow> fst (loadDocument c st) = Some (stamped d)"
  by (simp add: loadDocument_def stamped_def)

lemma load_cases:
  obtains "snd (loadDocument c st) = st"
  | m where "jm_get (ps_disk st) c = Some (Some (JObj m))" "fst (loadDocument c st) = Some (migrateLegacyImPolicyDocument m)"
      "snd (loadDocument c st) = persist c (migrateLegacyImPolicyDocument m) st"
proof (cases "snd (loadDocument c st) = st")
  case False
  then show ?thesis
    using that(2) by (auto simp: loadDocument_def Let_def split: option.splits js.splits if_splits)
qed (use that(1) in blast)

lemma load_disk [simp]: "ps_disk (snd (loadDocument c st)) = ps_disk st"
  by (cases rule: load_cases[of c st]) (simp_all add: persist_def)

lemma flush_nothing: "ps_chain st = [] \<Longrightarrow> store_flush st = st"
  by (cases st) (simp add: store_flush_eq)

lemma flush_load:
  assumes "ps_chain st = []"
  shows "store_policy c key (store_flush (snd (loadDocument ch st))) = store_policy c key st"
proof (cases rule: load_cases[of ch st])
  case 1
  then show ?thesis using assms flush_nothing by simp
next
  case (2 m)
  let ?d = "migrateLegacyImPolicyDocument m"
  let ?st = "store_flush (snd (loadDocument ch st))"
  have disk: "ps_disk ?st = jm_set (ps_disk st) ch (Some (JObj (stamped ?d)))"
    using 2(3) assms by (simp add: store_flush_eq persist_def)
  show ?thesis
  proof (cases "c = ch")
    case True
    have "fst (loadDocument ch ?st) = Some (stamped ?d)" by (rule load_stamped) (simp add: disk)
    then show ?thesis
      unfolding True store_policy_def readDocument_def case_prod_beta Let_def using 2(2)
      by (intro document_policy_cong) (simp_all add: stamped_layers)
  next
    case False
    then have "fst (loadDocument c ?st) = fst (loadDocument c st)" by (intro load_same) (simp add: disk)
    then show ?thesis by (simp add: store_policy_def readDocument_def case_prod_beta Let_def)
  qed
qed

lemma policy_of_disk: "ps_disk st' = ps_disk st \<Longrightarrow> store_policy c key st' = store_policy c key st"
  using load_same[of st' c st] by (simp add: store_policy_def readDocument_def case_prod_beta Let_def)

lemma drain_nothing: "ps_chain st = [] \<Longrightarrow> store_drain oks st = st"
  by (cases st) (simp add: store_drain_def)

text \<open>Whether the migration of a file that was read is written back or not, nobody can tell.\<close>

lemma drain_load:
  assumes "ps_chain st = []"
  shows "store_policy c key (store_drain oks (snd (loadDocument ch st))) = store_policy c key st"
proof (cases rule: load_cases[of ch st])
  case 1
  then show ?thesis using assms drain_nothing by simp
next
  case (2 m)
  show ?thesis
  proof (cases "write_ok oks 0")
    case True
    then have "store_drain oks (snd (loadDocument ch st)) = store_flush (snd (loadDocument ch st))"
      using assms 2(3) by (simp add: store_flush_eq store_drain_def persist_def)
    then show ?thesis using flush_load[OF assms] by simp
  next
    case False
    then show ?thesis
      using assms 2(3) by (intro policy_of_disk) (simp add: store_drain_def persist_def)
  qed
qed

text \<open>A setter that fails has queued nothing but the migration of what it read.\<close>

lemma set_layer_error:
  "set_layer H ch source patch get put st = (Inl e, st') \<Longrightarrow> st' = st \<or> st' = snd (loadDocument ch st)"
  by (auto simp: set_layer_def patchDocument_def case_prod_beta Let_def split: sum.splits)

lemma set_layer_ok:
  assumes "set_layer H ch source patch get put st = (Inr (), st')" "ps_chain st = []"
    and "d = fst (readDocument ch st)"
    and "merged = mergeImWorkspacePolicyPatch (or_else (js_present (get (JObj d))) (JObj [])) patch"
  shows "\<exists>p. validatePartial (Some patch) = Inr p" "assertSafeExecutionDir H patch source = Inr ()"
    and "\<exists>q. validatePartial (Some merged) = Inr q"
    and "fst (readDocument ch (store_flush st')) = stamped (migrateDocument (put merged d))"
    and "\<forall>c key. c \<noteq> ch \<longrightarrow> store_policy c key (store_flush st') = store_policy c key st"
proof -
  have d: "d = or_else (fst (loadDocument ch st)) []" using assms(3) by (simp add: readDocument_def case_prod_beta)
  let ?new = "migrateDocument (put merged d)"
  have ok: "(\<exists>p. validatePartial (Some patch) = Inr p) \<and> assertSafeExecutionDir H patch source = Inr () \<and>
      (\<exists>q. validatePartial (Some merged) = Inr q) \<and> st' = persist ch ?new (snd (loadDocument ch st))"
    using assms(1) unfolding assms(4)
    by (auto simp: set_layer_def patchDocument_def case_prod_beta Let_def d chk_def split: sum.splits)
  then show "\<exists>p. validatePartial (Some patch) = Inr p" "assertSafeExecutionDir H patch source = Inr ()"
    "\<exists>q. validatePartial (Some merged) = Inr q" by blast+
  have disk: "jm_get (ps_disk (store_flush st')) c =
      (if c = ch then Some (Some (JObj (stamped ?new))) else jm_get (ps_disk st) c)" for c
    using assms(2) ok
    by (cases rule: load_cases[of ch st]) (auto simp: store_flush_eq persist_def)
  have "fst (loadDocument ch (store_flush st')) = Some (stamped ?new)" by (rule load_stamped) (simp add: disk)
  then show "fst (readDocument ch (store_flush st')) = stamped ?new" by (simp add: readDocument_def case_prod_beta)
  have "fst (loadDocument c (store_flush st')) = fst (loadDocument c st)" if "c \<noteq> ch" for c
    using that by (intro load_same) (simp add: disk)
  then show "\<forall>c key. c \<noteq> ch \<longrightarrow> store_policy c key (store_flush st') = store_policy c key st"
    by (simp add: store_policy_def readDocument_def case_prod_beta Let_def)
qed

section \<open>Working directories\<close>

lemma exec_dir_custom:
  assumes "validate_exec_dir v = Inr (Some (Some (DirCustom d)))"
  shows "\<exists>m. v = Some (JObj m) \<and> jm_get m ''mode'' = Some (JStr ''custom'') \<and> jm_get m ''path'' = Some (JStr d) \<and> isAbsolute d"
  using assms by (auto simp: validate_exec_dir_def split: option.splits js.splits if_splits)

lemma checked_dir:
  assumes "validatePartial (Some patch) = Inr p" "assertSafeExecutionDir H patch source = Inr ()"
    and "pp_executionDir p = Some (Some (DirCustom d))"
  shows "checkGrantRootSafety H d = GrantOk"
proof -
  obtain m where m: "patch = JObj m" using validatePartial_object assms(1) by blast
  have "validate_exec_dir (jm_get m ''executionDir'') = Inr (Some (Some (DirCustom d)))"
    using assms(1,3) unfolding m validatePartial_Inr fields_valid_def by auto
  then obtain e where e: "jm_get m ''executionDir'' = Some (JObj e)" "jm_get e ''mode'' = Some (JStr ''custom'')"
    "jm_get e ''path'' = Some (JStr d)" "isAbsolute d" using exec_dir_custom by blast
  have "d \<noteq> []" using e(4) by (auto simp: isAbsolute_def startsWith_def)
  then show ?thesis
    using assms(2) e by (auto simp: assertSafeExecutionDir_def m js_prop_def opt_prop_def split: grant_verdict.splits)
qed

lemma derived_custom:
  "deriveLayerExecutionDir q = Some (DirCustom d, e) \<Longrightarrow>
     pp_executionDir q = Some (Some (DirCustom d)) \<or> pp_binding q = Some (Some d)"
  by (auto simp: deriveLayerExecutionDir_def present_def split: option.splits if_splits)

lemma normal_custom:
  "normal_dir anc q = Some (Some (DirCustom d)) \<Longrightarrow>
     pp_executionDir q = Some (Some (DirCustom d)) \<or> pp_binding q = Some (Some d)"
  using derived_custom by (fastforce simp: normal_dir_def split: option.splits if_splits)

lemma patched_value: "patch_field old new = Some (Some x) \<Longrightarrow> new = Some (Some x) \<or> old = Some (Some x)"
  by (auto simp: patch_field_def split: option.splits)

lemma merged_dir:
  assumes "normal_dir anc (merge_patch b p) = Some (Some (DirCustom d))"
  shows "pp_executionDir p = Some (Some (DirCustom d)) \<or> pp_binding p = Some (Some d) \<or>
    pp_executionDir b = Some (Some (DirCustom d)) \<or> pp_binding b = Some (Some d)"
  using normal_custom[OF assms] patched_value[of "pp_executionDir b" "pp_executionDir p" "DirCustom d"]
    patched_value[of "pp_binding b" "pp_binding p" d]
  by (auto simp: merge_patch_def split: if_splits)

text \<open>The layer a setter writes, and the directory it may name.\<close>

lemma written_layer:
  assumes "validatePartial (Some base) = Inr b" "validatePartial (Some patch) = Inr p"
    and "layer = Some (mergeImWorkspacePolicyPatch base patch)"
    and "layer_patch layer' = map_option (normal_patch anc) (layer_patch layer)"
  shows "layer_patch layer' = Some (normal_patch anc (merge_patch b p))"
  using merge_patch_refines_lemma[OF assms(1,2)] assms(3,4) by (simp add: layer_patch_iff)

section \<open>Properties\<close>

lemma set_layer_queued:
  "set_layer H ch source patch get put st = (Inr (), st') \<Longrightarrow>
     \<exists>doc. st' = persist ch doc (snd (loadDocument ch st))"
  by (auto simp: set_layer_def patchDocument_def case_prod_beta Let_def split: sum.splits)

lemma await_setter_failed:
  assumes "await_setter oks (r, s) = (Inl e, st')" and "\<And>x. r = Inl x \<Longrightarrow> s = st \<or> s = snd (loadDocument ch st)"
    and "r = Inr () \<Longrightarrow> \<exists>doc. s = persist ch doc (snd (loadDocument ch st))"
  shows "st' = store_drain oks st \<or> st' = store_drain oks (snd (loadDocument ch st))"
proof (cases r)
  case (Inl x)
  then show ?thesis using assms(1,2) by (auto simp: await_setter_def)
next
  case (Inr u)
  then obtain doc where s: "s = persist ch doc (snd (loadDocument ch st))" using assms(3) by auto
  then have "\<not> write_ok oks (length (ps_chain (snd (loadDocument ch st))))" and st': "st' = store_drain oks s"
    using assms(1) Inr by (auto simp: await_setter_def persist_def split: if_splits)
  then have "store_drain oks s = store_drain oks (snd (loadDocument ch st))"
    unfolding s by (simp add: store_drain_def persist_def run_chain_failed)
  then show ?thesis using st' by simp
qed

text \<open>C25: A setter that rejects changes no policy. On a store with no write queued, whatever the
  reason (an invalid patch, an unsafe directory, a route without a key, a stored layer that does
  not merge into a valid one, or a write that fails), and whether or not the migration of the
  file it read could be written back, every scope of every channel resolves as before once the
  queue has drained.\<close>

theorem rejected_write_changes_nothing:
  assumes "await_setter oks (setChatOverride H sha256 route patch st) = (Inl e, st') \<or>
      await_setter oks (setChannelDefault H channelId patch st) = (Inl e, st')"
    and "ps_chain st = []"
  shows "store_policy c key st' = store_policy c key st"
proof -
  have "\<exists>ch. st' = store_drain oks st \<or> st' = store_drain oks (snd (loadDocument ch st))"
    using assms(1)
  proof
    assume w: "await_setter oks (setChatOverride H sha256 route patch st) = (Inl e, st')"
    obtain r s where rs: "setChatOverride H sha256 route patch st = (r, s)" by (cases "setChatOverride H sha256 route patch st")
    show ?thesis
      by (rule exI, rule await_setter_failed[OF w[unfolded rs], of st "rt_channelId route"])
        (use rs set_layer_error set_layer_queued in
          \<open>fastforce simp: setChatOverride_def Let_def split: option.splits sum.splits\<close>)+
  next
    assume w: "await_setter oks (setChannelDefault H channelId patch st) = (Inl e, st')"
    obtain r s where rs: "setChannelDefault H channelId patch st = (r, s)" by (cases "setChannelDefault H channelId patch st")
    show ?thesis
      by (rule exI, rule await_setter_failed[OF w[unfolded rs], of st channelId])
        (use rs set_layer_error set_layer_queued in \<open>fastforce simp: setChannelDefault_def\<close>)+
  qed
  then show ?thesis using drain_load[OF assms(2)] drain_nothing[OF assms(2)] by auto
qed

definition demo_store :: policy_store where
  "demo_store = open_store [(''wx'', Some (JObj legacy_doc))] None"

definition demo_route :: im_route where
  "demo_route = \<lparr>rt_channelId = ''wx'', rt_peerId = ''p'', rt_chatId = ''c''\<rparr>"

definition custom_dir_patch :: "string \<Rightarrow> js" where
  "custom_dir_patch d = JObj [(''executionDir'', JObj [(''mode'', JStr ''custom''), (''path'', JStr d)])]"

lemma demo_idle: "ps_chain demo_store = []"
  by (simp add: demo_store_def open_store_def)

text \<open>A patch that is refused, and one whose write fails after the migration was written back.\<close>

theorem rejected_write_changes_nothing_witness:
  "(\<exists>e st'. await_setter [False] (setChannelDefault linked_machine ''wx'' (custom_dir_patch ''/t'') demo_store) = (Inl e, st') \<and>
     store_policy ''wx'' (Some ''k1'') st' = store_policy ''wx'' (Some ''k1'') demo_store) \<and>
   (\<exists>e st'. await_setter [True, False] (setChannelDefault linked_machine ''wx'' (custom_dir_patch ''/w'') demo_store) = (Inl e, st') \<and>
     store_policy ''wx'' (Some ''k1'') st' = store_policy ''wx'' (Some ''k1'') demo_store)"
proof -
  have r: "isl (fst (await_setter [False] (setChannelDefault linked_machine ''wx'' (custom_dir_patch ''/t'') demo_store)))"
    "isl (fst (await_setter [True, False] (setChannelDefault linked_machine ''wx'' (custom_dir_patch ''/w'') demo_store)))"
    by code_simp+
  have rejected: "\<exists>e st'. call = (Inl e, st')" if "isl (fst call)" for call :: "unit checked \<times> policy_store"
    using that by (cases call) (auto simp: isl_def)
  show ?thesis
    using rejected[OF r(1)] rejected[OF r(2)] rejected_write_changes_nothing[OF _ demo_idle] by blast
qed

text \<open>A chat's setter does what it says and no more: after it has succeeded and the queue has
  drained, the chat's layer is the old one with the fields of the patch laid over it, every other
  chat and the channel's default resolve as before, and so do all other channels.\<close>

theorem chat_override_effect:
  assumes "setChatOverride H sha256 route patch st = (Inr (), st')" "ps_chain st = []"
    and "chatPolicyKey sha256 route = Some key" "channel = rt_channelId route"
    and "doc = fst (readDocument channel st)" "jm_wf (chat_entries (JObj doc))"
    and "validatePartial (Some (or_else (js_present (chat_layer (JObj doc) key)) (JObj []))) = Inr b"
    and "validatePartial (Some patch) = Inr p"
    and "legacy_consistent (layer_patch (default_layer (JObj doc)))"
    and "\<forall>k. other = Some k \<longrightarrow> k \<noteq> key \<and> legacy_consistent (layer_patch (chat_layer (JObj doc) k))"
  shows "layer_patch (chat_layer (JObj (fst (readDocument channel (store_flush st')))) key) =
      Some (normal_patch (Some (fst (channel_dir (JObj doc)))) (merge_patch b p)) \<and>
    store_policy channel other (store_flush st') = store_policy channel other st \<and>
    (c \<noteq> channel \<longrightarrow> store_policy c anykey (store_flush st') = store_policy c anykey st)"
proof -
  let ?base = "or_else (js_present (chat_layer (JObj doc) key)) (JObj [])"
  let ?merged = "mergeImWorkspacePolicyPatch ?base patch"
  let ?put = "put_chat key ?merged doc"
  have s: "set_layer H channel (''chat-override:'' @ channel) patch (\<lambda>d. chat_layer d key) (put_chat key) st = (Inr (), st')"
    using assms(1,3,4) by (simp add: setChatOverride_def)
  note ok = set_layer_ok[OF s assms(2,5) refl]
  let ?new = "fst (readDocument channel (store_flush st'))"
  have new: "?new = stamped (migrateDocument ?put)" using ok(4) by simp
  have wf: "jm_wf (chat_entries (JObj ?put))"
    using assms(6) by (auto simp: put_chat_def chat_entries_def[of "JObj (jm_set _ _ _)"] js_prop_def)
  have dir: "channel_dir (JObj ?put) = channel_dir (JObj doc)"
    by (simp add: channel_dir_def put_chat_default)
  have "layer_patch (chat_layer (JObj ?new) key) = Some (normal_patch (Some (fst (channel_dir (JObj doc)))) (merge_patch b p))"
    unfolding new stamped_layers
    by (rule written_layer[OF assms(7,8) _ migrate_chat[OF wf, of key, unfolded dir]]) (simp add: put_chat_layer)
  moreover have "document_policy (JObj ?new) other = document_policy (JObj doc) other"
  proof -
    have "document_policy (JObj ?new) other = document_policy (JObj (migrateDocument ?put)) other"
      unfolding new by (rule document_policy_cong) (simp_all add: stamped_layers)
    also have "\<dots> = document_policy (JObj ?put) other"
      using assms(9,10) by (intro migrated_policy[OF wf]) (auto simp: put_chat_default put_chat_layer)
    also have "\<dots> = document_policy (JObj doc) other"
      using assms(10) by (intro document_policy_cong) (auto simp: put_chat_default put_chat_layer)
    finally show ?thesis .
  qed
  ultimately show ?thesis using ok(5) assms(5) by (simp add: store_policy_def)
qed

definition shell_patch :: js where
  "shell_patch = JObj [(''tools'', JObj [(''shell'', JStr ''allow'')])]"

theorem chat_override_effect_witness:
  "\<exists>st'. setChatOverride linked_machine (\<lambda>_. ''k1'') demo_route shell_patch demo_store = (Inr (), st') \<and>
     layer_patch (chat_layer (JObj (fst (readDocument ''wx'' (store_flush st')))) ''k1'') =
       Some (empty_patch\<lparr>pp_fsTools := Some (Some (JStr ''allow'')), pp_shell := Some (Some (JStr ''allow''))\<rparr>) \<and>
     store_policy ''wx'' (Some ''k2'') (store_flush st') = store_policy ''wx'' (Some ''k2'') demo_store"
proof -
  let ?doc = "fst (readDocument ''wx'' demo_store)"
  let ?b = "empty_patch\<lparr>pp_fsTools := Some (Some (JStr ''allow'')), pp_perChatScratch := Some (Some True)\<rparr>"
  let ?p = "empty_patch\<lparr>pp_shell := Some (Some (JStr ''allow''))\<rparr>"
  have "fst (setChatOverride linked_machine (\<lambda>_. ''k1'') demo_route shell_patch demo_store) = Inr ()" by code_simp
  then obtain st' where st: "setChatOverride linked_machine (\<lambda>_. ''k1'') demo_route shell_patch demo_store = (Inr (), st')"
    by (metis prod.collapse)
  have key: "chatPolicyKey (\<lambda>_. ''k1'') demo_route = Some ''k1''" and ch: "''wx'' = rt_channelId demo_route" by code_simp+
  have wf: "jm_wf (chat_entries (JObj ?doc))" by code_simp
  have b: "validatePartial (Some (or_else (js_present (chat_layer (JObj ?doc) ''k1'')) (JObj []))) = Inr ?b" by code_simp
  have p: "validatePartial (Some shell_patch) = Inr ?p" by code_simp
  have l: "legacy_consistent (layer_patch (default_layer (JObj ?doc)))"
    "legacy_consistent (layer_patch (chat_layer (JObj ?doc) ''k2''))" by code_simp+
  have o: "\<forall>k. Some ''k2'' = Some k \<longrightarrow> k \<noteq> ''k1'' \<and> legacy_consistent (layer_patch (chat_layer (JObj ?doc) k))"
    using l(2) by auto
  have n: "normal_patch (Some (fst (channel_dir (JObj ?doc)))) (merge_patch ?b ?p) =
      empty_patch\<lparr>pp_fsTools := Some (Some (JStr ''allow'')), pp_shell := Some (Some (JStr ''allow''))\<rparr>" by code_simp
  show ?thesis
    using st chat_override_effect[OF st demo_idle key ch refl wf b p l(1) o] unfolding n by blast
qed

text \<open>A channel's setter writes no working directory that the grant check refuses: a custom
  directory of the layer it leaves has passed the check, was in the layer before, or came in the
  old \<open>binding\<close> field.\<close>

theorem written_directory_checked:
  assumes "setChannelDefault H channel patch st = (Inr (), st')" "ps_chain st = []"
    and "doc = fst (readDocument channel st)"
    and "validatePartial (Some (or_else (js_present (default_layer (JObj doc))) (JObj []))) = Inr b"
    and "validatePartial (Some patch) = Inr p"
    and "layer_patch (default_layer (JObj (fst (readDocument channel (store_flush st'))))) = Some q"
    and "pp_executionDir q = Some (Some (DirCustom d))"
  shows "checkGrantRootSafety H d = GrantOk \<or> pp_binding p = Some (Some d) \<or>
    pp_executionDir b = Some (Some (DirCustom d)) \<or> pp_binding b = Some (Some d)"
proof -
  let ?base = "or_else (js_present (default_layer (JObj doc))) (JObj [])"
  let ?merged = "mergeImWorkspacePolicyPatch ?base patch"
  have s: "set_layer H channel (''channel-default:'' @ channel) patch default_layer put_default st = (Inr (), st')"
    using assms(1) by (simp add: setChannelDefault_def)
  note ok = set_layer_ok[OF s assms(2,3) refl]
  have "layer_patch (default_layer (JObj (stamped (migrateDocument (put_default ?merged doc))))) =
      Some (normal_patch None (merge_patch b p))"
    unfolding stamped_layers
    by (rule written_layer[OF assms(4,5) _ migrate_default]) (simp add: put_default_def default_layer_def js_prop_def)
  then have "q = normal_patch None (merge_patch b p)" using ok(4) assms(6) by simp
  then have "normal_dir None (merge_patch b p) = Some (Some (DirCustom d))" using assms(7) by (simp add: normal_patch_def)
  then show ?thesis using merged_dir checked_dir[OF assms(5) ok(2)] by blast
qed

theorem written_directory_checked_witness:
  "\<exists>st'. setChannelDefault linked_machine ''wx'' (custom_dir_patch ''/w'') (open_store [] None) = (Inr (), st') \<and>
     checkGrantRootSafety linked_machine ''/w'' = GrantOk"
proof -
  let ?st = "open_store [] None"
  let ?set = "setChannelDefault linked_machine ''wx'' (custom_dir_patch ''/w'') ?st"
  let ?p = "empty_patch\<lparr>pp_executionDir := Some (Some (DirCustom ''/w''))\<rparr>"
  have "fst ?set = Inr ()" by code_simp
  then obtain st' where st: "?set = (Inr (), st')" by (metis prod.collapse)
  have idle: "ps_chain ?st = []" by code_simp
  have b: "validatePartial (Some (or_else (js_present (default_layer (JObj (fst (readDocument ''wx'' ?st))))) (JObj [])))
      = Inr empty_patch" by code_simp
  have p: "validatePartial (Some (custom_dir_patch ''/w'')) = Inr ?p" by code_simp
  have "Option.bind (layer_patch (default_layer (JObj (fst (readDocument ''wx'' (store_flush (snd ?set)))))))
      pp_executionDir = Some (Some (DirCustom ''/w''))" by code_simp
  then obtain q where q: "layer_patch (default_layer (JObj (fst (readDocument ''wx'' (store_flush st'))))) = Some q"
    "pp_executionDir q = Some (Some (DirCustom ''/w''))"
    unfolding st by (auto simp: bind_eq_Some_conv)
  show ?thesis
    using st written_directory_checked[OF st idle refl b p q] by (simp add: empty_patch_def)
qed

text \<open>The old \<open>binding\<close> field goes round the check: the patch is accepted, and the migration turns
  it into the very directory that would have been refused.\<close>

definition binding_patch :: "string \<Rightarrow> js" where
  "binding_patch d = JObj [(''binding'', JObj [(''executionCwd'', JStr d)])]"

lemma binding_escapes_check:
  "isl (fst (setChannelDefault linked_machine ''wx'' (custom_dir_patch ''/t'') (open_store [] None))) \<and>
   fst (setChannelDefault linked_machine ''wx'' (binding_patch ''/t'') (open_store [] None)) = Inr () \<and>
   ip_executionDir (store_policy ''wx'' None (store_flush
     (snd (setChannelDefault linked_machine ''wx'' (binding_patch ''/t'') (open_store [] None))))) = DirCustom ''/t''"
  by code_simp

text \<open>Two setters that are called before the first write has landed both start from the file: the
  first patch is lost. One after the other keeps both.\<close>

lemma concurrent_setters_lose_a_patch:
  "let fs = JObj [(''tools'', JObj [(''fsTools'', JStr ''allow'')])];
       set = \<lambda>p st. snd (setChannelDefault linked_machine ''wx'' p st);
       together = store_policy ''wx'' None (store_flush (set fs (set shell_patch (open_store [] None))));
       apart = store_policy ''wx'' None (store_flush (set fs (store_flush (set shell_patch (open_store [] None)))))
   in ip_shell together = JStr ''deny'' \<and> ip_fsTools together = JStr ''allow'' \<and>
      ip_shell apart = JStr ''allow'' \<and> ip_fsTools apart = JStr ''allow''"
  by code_simp

text \<open>A read can take back a write. Reading a file of the old format queues its migration; when a
  setter's write is queued but has not landed, the migration of the old contents lands after
  it, and the setter, which succeeded, has changed nothing.\<close>

lemma read_reverts_pending_write:
  "let old = open_store [(''wx'', Some (JObj []))] None;
       set = setChannelDefault linked_machine ''wx'' shell_patch old;
       alone = store_policy ''wx'' None (store_flush (snd set));
       read = store_policy ''wx'' None (store_flush (snd (readDocument ''wx'' (snd set))))
   in fst set = Inr () \<and> ip_shell alone = JStr ''allow'' \<and> ip_shell read = JStr ''deny''"
  by code_simp

text \<open>Clearing an override that is not there still writes the file.\<close>

lemma clearing_nothing_writes: "ps_chain (clearChatOverrideByKey ''wx'' ''k'' (open_store [] None)) \<noteq> []"
  by code_simp

text \<open>What has been announced once is remembered by the next process, if its write landed.\<close>

lemma notified_survives:
  assumes "ps_chain st = []" "st' = store_flush (markNotified k st)"
    and "\<not> hasNotified k st"
  shows "hasNotified w (open_store (ps_disk st') (ps_notifiedFile st')) \<longleftrightarrow> w = k \<or> hasNotified w st"
  using assms
  by (auto simp: markNotified_def store_flush_eq open_store_def loadNotified_def hasNotified_def comp_def)

end
