(* ===== verification/IdemGate.thy ===== *)
theory IdemGate
  imports TacoPrelude
begin

text \<open>
  The gate in front of commands that must not run twice:
  \<open>packages/sidecar/src/server/commandIdempotency.ts\<close>. A promise is known by the number of the
  execution that made it; what its callbacks remember (the turn it occupies) is kept with the
  promises that are still open. The clock is an argument of the operations that read it.

  Three fields are not in the code: the number of the next execution, the first execution since
  the last \<open>stop\<close>, and the history of executions, which the properties speak about.
\<close>

section \<open>Definitions\<close>

record cmd_record =
  cr_fingerprint :: string
  cr_outcome :: nat
  cr_settled :: bool
  cr_expiresAt :: int

record gate_config =
  gc_ttlMs :: int
  gc_limit :: nat

definition DEFAULT_TTL_MS :: int where
  "DEFAULT_TTL_MS = 10 * 60000"

definition DEFAULT_LIMIT :: nat where
  "DEFAULT_LIMIT = 1024"

definition gate_config_of :: "int option \<Rightarrow> int option \<Rightarrow> gate_config" where
  "gate_config_of ttlMs limit =
     \<lparr>gc_ttlMs = max 1 (or_else ttlMs DEFAULT_TTL_MS),
      gc_limit = nat (max 1 (or_else limit (int DEFAULT_LIMIT)))\<rparr>"

record execution =
  ex_key :: string
  ex_fingerprint :: string
  ex_turn :: "string option"
  ex_at :: int

record gate =
  g_records :: "(string, cmd_record) js_map"
  g_activeTurns :: "(string, nat) js_map"
  g_open :: "(nat \<times> string option) list"     \<comment> \<open>promises not yet settled, with the turn they occupy\<close>
  g_sweeping :: bool
  g_next :: nat
  g_life :: nat
  g_history :: "(nat \<times> execution) list"

definition new_gate :: gate where
  "new_gate = \<lparr>g_records = [], g_activeTurns = [], g_open = [], g_sweeping = False,
     g_next = 0, g_life = 0, g_history = []\<rparr>"

definition gate_size :: "gate \<Rightarrow> nat" where
  "gate_size g = length (g_records g)"

definition startSweeper :: "gate \<Rightarrow> gate" where
  "startSweeper g = g\<lparr>g_sweeping := True\<rparr>"

definition stopSweeper :: "gate \<Rightarrow> gate" where
  "stopSweeper g = g\<lparr>g_sweeping := False\<rparr>"

definition gate_stop :: "gate \<Rightarrow> gate" where
  "gate_stop g = stopSweeper (g\<lparr>g_records := [], g_activeTurns := [], g_life := g_next g\<rparr>)"

definition oldest_settled :: "(string, cmd_record) js_map \<Rightarrow> string option" where
  "oldest_settled records = map_option fst (find (\<lambda>e. cr_settled (snd e)) records)"

lemma find_SomeD: "find P xs = Some x \<Longrightarrow> x \<in> set xs \<and> P x"
  by (induction xs) (auto split: if_splits)

lemma oldest_settled_in: "oldest_settled records = Some k \<Longrightarrow> k \<in> fst ` set records"
  by (force simp: oldest_settled_def dest: find_SomeD)

lemma delete_shrinks: "k \<in> fst ` set m \<Longrightarrow> length (jm_delete m k) < length m"
  by (auto simp: jm_delete_def intro: length_filter_less)

function shrink :: "nat \<Rightarrow> (string, cmd_record) js_map \<Rightarrow> (string, cmd_record) js_map" where
  "shrink limit records =
     (if limit < length records then
        (case oldest_settled records of
           None \<Rightarrow> records
         | Some k \<Rightarrow> shrink limit (jm_delete records k))
      else records)"
  by pat_completeness auto
termination
  by (relation "measure (\<lambda>(_, records). length records)")
    (auto intro: delete_shrinks oldest_settled_in)

declare shrink.simps [simp del]

definition expire :: "int \<Rightarrow> (string, cmd_record) js_map \<Rightarrow> (string, cmd_record) js_map" where
  "expire now records = filter (\<lambda>e. now < cr_expiresAt (snd e)) records"

definition prune :: "gate_config \<Rightarrow> int \<Rightarrow> gate \<Rightarrow> gate" where
  "prune cfg now g = g\<lparr>g_records := shrink (gc_limit cfg) (expire now (g_records g))\<rparr>"

datatype run_result = Outcome nat | Conflict | Busy

definition turn_of :: "string option \<Rightarrow> string option" where
  "turn_of turnKey = (case turnKey of Some k \<Rightarrow> if k = [] then None else Some k | None \<Rightarrow> None)"

text \<open>A miss: the turn gate, then the execution.\<close>

definition run_miss ::
  "gate_config \<Rightarrow> int \<Rightarrow> string \<Rightarrow> string \<Rightarrow> string option \<Rightarrow> gate \<Rightarrow> run_result \<times> gate" where
  "run_miss cfg now key fingerprint turnKey g =
     (let turn = turn_of turnKey in
      if (\<exists>t \<in> set_option turn. jm_get (g_activeTurns g) t \<noteq> None) then (Busy, g)
      else
        let n = g_next g;
            r = \<lparr>cr_fingerprint = fingerprint, cr_outcome = n, cr_settled = False,
                 cr_expiresAt = now + gc_ttlMs cfg\<rparr>
        in (Outcome n,
            g\<lparr>g_records := jm_set (g_records g) key r,
              g_activeTurns := (case turn of None \<Rightarrow> g_activeTurns g | Some t \<Rightarrow> jm_set (g_activeTurns g) t n),
              g_open := (n, turn) # g_open g, g_next := Suc n,
              g_history := (n, \<lparr>ex_key = key, ex_fingerprint = fingerprint, ex_turn = turn, ex_at = now\<rparr>)
                # g_history g\<rparr>))"

definition run ::
  "gate_config \<Rightarrow> int \<Rightarrow> string \<Rightarrow> string \<Rightarrow> string option \<Rightarrow> gate \<Rightarrow> run_result \<times> gate" where
  "run cfg now key fingerprint turnKey g =
     (case jm_get (g_records g) key of
        None \<Rightarrow> run_miss cfg now key fingerprint turnKey g
      | Some existing \<Rightarrow>
          if cr_expiresAt existing \<le> now
          then run_miss cfg now key fingerprint turnKey (g\<lparr>g_records := jm_delete (g_records g) key\<rparr>)
          else if cr_fingerprint existing \<noteq> fingerprint then (Conflict, g)
          else (Outcome (cr_outcome existing), g))"

text \<open>A promise settles once: \<open>then\<close> marks its record, wherever it is, and prunes; \<open>finally\<close>
  frees the turn if the turn is still held by this very promise.\<close>

definition mark_settled :: "nat \<Rightarrow> (string, cmd_record) js_map \<Rightarrow> (string, cmd_record) js_map" where
  "mark_settled n records =
     map (\<lambda>e. (fst e, if cr_outcome (snd e) = n then (snd e)\<lparr>cr_settled := True\<rparr> else snd e)) records"

definition release_turn :: "nat \<Rightarrow> string option \<Rightarrow> gate \<Rightarrow> gate" where
  "release_turn n turn g =
     (case turn of
        None \<Rightarrow> g
      | Some t \<Rightarrow>
          if jm_get (g_activeTurns g) t = Some n
          then g\<lparr>g_activeTurns := jm_delete (g_activeTurns g) t\<rparr> else g)"

definition settle :: "gate_config \<Rightarrow> int \<Rightarrow> bool \<Rightarrow> nat \<Rightarrow> string option \<Rightarrow> gate \<Rightarrow> gate" where
  "settle cfg now fulfilled n turn g =
     (let g1 = g\<lparr>g_open := filter (\<lambda>e. fst e \<noteq> n) (g_open g)\<rparr>;
          g2 = (if fulfilled then prune cfg now (g1\<lparr>g_records := mark_settled n (g_records g1)\<rparr>) else g1)
      in release_turn n turn g2)"

text \<open>The gate in time: the clock never runs backwards.\<close>

type_synonym clocked = "int \<times> gate"

inductive gate_step :: "gate_config \<Rightarrow> clocked \<Rightarrow> clocked \<Rightarrow> bool" for cfg where
  step_run: "clock \<le> now \<Longrightarrow>
     gate_step cfg (clock, g) (now, snd (run cfg now key fingerprint turnKey g))"
| step_settle: "clock \<le> now \<Longrightarrow> (n, turn) \<in> set (g_open g) \<Longrightarrow>
     gate_step cfg (clock, g) (now, settle cfg now fulfilled n turn g)"
| step_sweep: "clock \<le> now \<Longrightarrow> g_sweeping g \<Longrightarrow> gate_step cfg (clock, g) (now, prune cfg now g)"
| step_start: "gate_step cfg (clock, g) (clock, startSweeper g)"
| step_stop: "gate_step cfg (clock, g) (clock, gate_stop g)"

inductive_cases gate_stepE: "gate_step cfg s t"

section \<open>Pruning\<close>

lemma shrink_subset: "set (shrink limit m) \<subseteq> set m"
proof (induction limit m rule: shrink.induct)
  case (1 limit m)
  have "set (jm_delete m k) \<subseteq> set m" for k by (auto simp: jm_delete_def)
  with 1 show ?case by (subst shrink.simps) (auto split: option.splits dest: subsetD)
qed

lemma shrink_wf: "jm_wf m \<Longrightarrow> jm_wf (shrink limit m)"
proof (induction limit m rule: shrink.induct)
  case (1 limit m)
  then show ?case by (subst shrink.simps) (auto split: option.splits)
qed

lemma oldest_settled_None: "oldest_settled m = None \<longleftrightarrow> (\<forall>e \<in> set m. \<not> cr_settled (snd e))"
  by (auto simp: oldest_settled_def find_None_iff)

text \<open>The loop ends within the limit or with nothing left to evict.\<close>

lemma shrink_result: "length (shrink limit m) \<le> limit \<or> (\<forall>e \<in> set (shrink limit m). \<not> cr_settled (snd e))"
proof (induction limit m rule: shrink.induct)
  case (1 limit m)
  then show ?case
    by (subst (1 2) shrink.simps) (auto simp: oldest_settled_None split: option.splits)
qed

text \<open>A record that is not settled is never evicted.\<close>

lemma shrink_keeps_open: "e \<in> set m \<Longrightarrow> \<not> cr_settled (snd e) \<Longrightarrow> jm_wf m \<Longrightarrow> e \<in> set (shrink limit m)"
proof (induction limit m rule: shrink.induct)
  case (1 limit m)
  have "e \<in> set (jm_delete m k)" if k: "oldest_settled m = Some k" for k
  proof -
    obtain x where x: "x \<in> set m" "cr_settled (snd x)" "fst x = k"
      using k by (auto simp: oldest_settled_def dest: find_SomeD)
    then have "fst e \<noteq> k"
      using 1(2-4) jm_get_iff[of m] by (metis option.inject prod.collapse)
    then show ?thesis using 1(2) by (simp add: jm_delete_def)
  qed
  then show ?case using 1 by (subst shrink.simps) (auto split: option.splits)
qed

definition settled_count :: "(string, cmd_record) js_map \<Rightarrow> nat" where
  "settled_count m = length (filter (\<lambda>e. cr_settled (snd e)) m)"

lemma shrink_settled: "settled_count (shrink limit m) \<le> limit"
proof -
  have "settled_count (shrink limit m) \<le> length (shrink limit m)" by (simp add: settled_count_def)
  moreover have "settled_count (shrink limit m) = 0" if "\<forall>e \<in> set (shrink limit m). \<not> cr_settled (snd e)"
    using that by (simp add: settled_count_def)
  ultimately show ?thesis using shrink_result[of limit m] by linarith
qed

section \<open>The invariant\<close>

definition is_open :: "gate \<Rightarrow> nat \<Rightarrow> bool" where
  "is_open g n \<longleftrightarrow> n \<in> fst ` set (g_open g)"

definition record_ok :: "gate_config \<Rightarrow> gate \<Rightarrow> string \<Rightarrow> cmd_record \<Rightarrow> bool" where
  "record_ok cfg g k r \<longleftrightarrow>
     (\<exists>ex. (cr_outcome r, ex) \<in> set (g_history g) \<and> ex_key ex = k \<and>
        ex_fingerprint ex = cr_fingerprint r \<and> cr_expiresAt r = ex_at ex + gc_ttlMs cfg) \<and>
     (cr_settled r \<longrightarrow> \<not> is_open g (cr_outcome r))"

definition records_inv :: "gate_config \<Rightarrow> gate \<Rightarrow> bool" where
  "records_inv cfg g \<longleftrightarrow> jm_wf (g_records g) \<and>
     (\<forall>k r. (k, r) \<in> set (g_records g) \<longrightarrow> record_ok cfg g k r)"

definition history_inv :: "gate \<Rightarrow> bool" where
  "history_inv g \<longleftrightarrow> distinct (map fst (g_history g)) \<and> distinct (map fst (g_open g)) \<and>
     (\<forall>n ex. (n, ex) \<in> set (g_history g) \<longrightarrow> n < g_next g) \<and> g_life g \<le> g_next g \<and>
     (\<forall>n turn. (n, turn) \<in> set (g_open g) \<longrightarrow> (\<exists>ex. (n, ex) \<in> set (g_history g) \<and> ex_turn ex = turn))"

definition turns_inv :: "gate \<Rightarrow> bool" where
  "turns_inv g \<longleftrightarrow>
     (\<forall>t n. jm_get (g_activeTurns g) t = Some n \<longrightarrow> (n, Some t) \<in> set (g_open g) \<and> g_life g \<le> n) \<and>
     (\<forall>n t. (n, Some t) \<in> set (g_open g) \<longrightarrow> g_life g \<le> n \<longrightarrow> jm_get (g_activeTurns g) t = Some n)"

lemma turnsD:
  "turns_inv g \<Longrightarrow> jm_get (g_activeTurns g) t = Some n \<Longrightarrow> (n, Some t) \<in> set (g_open g)"
  "turns_inv g \<Longrightarrow> jm_get (g_activeTurns g) t = Some n \<Longrightarrow> g_life g \<le> n"
  "turns_inv g \<Longrightarrow> (n, Some t) \<in> set (g_open g) \<Longrightarrow> g_life g \<le> n \<Longrightarrow> jm_get (g_activeTurns g) t = Some n"
  unfolding turns_inv_def by blast+

lemma turnsI:
  "(\<And>t n. jm_get (g_activeTurns g) t = Some n \<Longrightarrow> (n, Some t) \<in> set (g_open g) \<and> g_life g \<le> n) \<Longrightarrow>
   (\<And>n t. (n, Some t) \<in> set (g_open g) \<Longrightarrow> g_life g \<le> n \<Longrightarrow> jm_get (g_activeTurns g) t = Some n) \<Longrightarrow>
   turns_inv g"
  unfolding turns_inv_def by blast

text \<open>While an execution of this life is open and its window has not passed, its record is there.\<close>

definition window_inv :: "gate_config \<Rightarrow> int \<Rightarrow> gate \<Rightarrow> bool" where
  "window_inv cfg clock g \<longleftrightarrow>
     (\<forall>n ex. (n, ex) \<in> set (g_history g) \<longrightarrow> is_open g n \<longrightarrow> g_life g \<le> n \<longrightarrow>
        clock < ex_at ex + gc_ttlMs cfg \<longrightarrow>
        (\<exists>r. jm_get (g_records g) (ex_key ex) = Some r \<and> cr_outcome r = n))"

definition gate_inv :: "gate_config \<Rightarrow> clocked \<Rightarrow> bool" where
  "gate_inv cfg s \<longleftrightarrow> records_inv cfg (snd s) \<and> history_inv (snd s) \<and> turns_inv (snd s) \<and>
     window_inv cfg (fst s) (snd s) \<and> settled_count (g_records (snd s)) \<le> gc_limit cfg"

text \<open>Each part depends on some of the fields only.\<close>

lemma history_cong:
  "g_open g' = g_open g \<Longrightarrow> g_history g' = g_history g \<Longrightarrow> g_next g' = g_next g \<Longrightarrow> g_life g' = g_life g \<Longrightarrow>
     history_inv g' = history_inv g"
  by (simp only: history_inv_def)

lemma turns_cong:
  "g_open g' = g_open g \<Longrightarrow> g_activeTurns g' = g_activeTurns g \<Longrightarrow> g_life g' = g_life g \<Longrightarrow>
     turns_inv g' = turns_inv g"
  by (simp only: turns_inv_def)

lemma gate_cong:
  "g_records g' = g_records g \<Longrightarrow> g_open g' = g_open g \<Longrightarrow> g_activeTurns g' = g_activeTurns g \<Longrightarrow>
     g_history g' = g_history g \<Longrightarrow> g_next g' = g_next g \<Longrightarrow> g_life g' = g_life g \<Longrightarrow>
     gate_inv cfg (clock, g') = gate_inv cfg (clock, g)"
  by (simp only: gate_inv_def fst_conv snd_conv records_inv_def record_ok_def is_open_def window_inv_def
      history_inv_def turns_inv_def)

lemmas gate_inv_defs = records_inv_def history_inv_def turns_inv_def window_inv_def

lemma window_later: "window_inv cfg clock g \<Longrightarrow> clock \<le> now \<Longrightarrow> window_inv cfg now g"
  unfolding window_inv_def by (meson order_le_less_trans)

lemma history_fun:
  "history_inv g \<Longrightarrow> (n, ex) \<in> set (g_history g) \<Longrightarrow> (n, ex') \<in> set (g_history g) \<Longrightarrow> ex = ex'"
  unfolding history_inv_def by (metis eq_key_imp_eq_value)

subsection \<open>Removing records\<close>

lemma records_subset:
  assumes "records_inv cfg g" "set m \<subseteq> set (g_records g)" "jm_wf m"
  shows "records_inv cfg (g\<lparr>g_records := m\<rparr>)"
  using assms unfolding records_inv_def by (auto simp: record_ok_def is_open_def)

lemma settled_count_delete: "settled_count (jm_delete m k) \<le> settled_count m"
  unfolding settled_count_def jm_delete_def filter_filter
  by (induction m) auto

lemma expire_subset: "set (expire now m) \<subseteq> set m"
  by (auto simp: expire_def)

lemma expire_wf: "jm_wf m \<Longrightarrow> jm_wf (expire now m)"
  by (simp add: jm_wf_def expire_def distinct_map_filter)

lemma prune_records:
  "g_activeTurns (prune cfg now g) = g_activeTurns g" "g_open (prune cfg now g) = g_open g"
  "g_next (prune cfg now g) = g_next g" "g_life (prune cfg now g) = g_life g"
  "g_history (prune cfg now g) = g_history g"
  by (simp_all add: prune_def)

lemma prune_subset: "set (g_records (prune cfg now g)) \<subseteq> set (g_records g)"
  using shrink_subset expire_subset unfolding prune_def by fastforce

lemma prune_keeps:
  assumes "jm_wf (g_records g)" "jm_get (g_records g) k = Some r" "\<not> cr_settled r" "now < cr_expiresAt r"
  shows "jm_get (g_records (prune cfg now g)) k = Some r"
proof -
  have "(k, r) \<in> set (expire now (g_records g))"
    using assms(1,2,4) by (simp add: expire_def jm_get_iff)
  then have "(k, r) \<in> set (g_records (prune cfg now g))"
    using assms(1,3) by (simp add: prune_def shrink_keeps_open expire_wf)
  then show ?thesis using assms(1) by (simp add: jm_get_iff prune_def shrink_wf expire_wf)
qed

lemma record_expiry:
  assumes "records_inv cfg g" "history_inv g" "jm_get (g_records g) k = Some r"
    and "(cr_outcome r, ex) \<in> set (g_history g)"
  shows "cr_expiresAt r = ex_at ex + gc_ttlMs cfg" "cr_fingerprint r = ex_fingerprint ex" "ex_key ex = k"
    and "cr_settled r \<Longrightarrow> \<not> is_open g (cr_outcome r)"
proof -
  have "record_ok cfg g k r" using assms(1,3) by (auto simp: records_inv_def jm_get_iff)
  then show "cr_expiresAt r = ex_at ex + gc_ttlMs cfg" "cr_fingerprint r = ex_fingerprint ex" "ex_key ex = k"
    and "cr_settled r \<Longrightarrow> \<not> is_open g (cr_outcome r)"
    using history_fun[OF assms(2) assms(4)] unfolding record_ok_def by auto
qed

lemma prune_inv:
  assumes r: "records_inv cfg g" and h: "history_inv g" and t: "turns_inv g" and w: "window_inv cfg now g"
  shows "gate_inv cfg (now, prune cfg now g)"
proof -
  have wf: "jm_wf (g_records g)" using r by (simp add: records_inv_def)
  have "\<exists>r. jm_get (g_records (prune cfg now g)) (ex_key ex) = Some r \<and> cr_outcome r = n"
    if a: "(n, ex) \<in> set (g_history g)" "is_open g n" "g_life g \<le> n" "now < ex_at ex + gc_ttlMs cfg" for n ex
  proof -
    obtain rec where rec: "jm_get (g_records g) (ex_key ex) = Some rec" "cr_outcome rec = n"
      using w a unfolding window_inv_def by blast
    then have "now < cr_expiresAt rec" "\<not> cr_settled rec"
      using record_expiry(1,4)[OF r h rec(1) a(1)[folded rec(2)]] a(2,4) rec(2) by auto
    then show ?thesis using prune_keeps[OF wf rec(1)] rec(2) by blast
  qed
  then have "window_inv cfg now (prune cfg now g)"
    unfolding window_inv_def is_open_def prune_records by blast
  moreover have "records_inv cfg (prune cfg now g)"
    using records_subset[OF r prune_subset[of cfg now g]] wf
    by (simp add: prune_def shrink_wf expire_wf)
  moreover have "history_inv (prune cfg now g)" "turns_inv (prune cfg now g)"
    using h t history_cong turns_cong prune_records by metis+
  moreover have "settled_count (g_records (prune cfg now g)) \<le> gc_limit cfg"
    by (simp add: prune_def shrink_settled)
  ultimately show ?thesis unfolding gate_inv_def fst_conv snd_conv by blast
qed

subsection \<open>Executions\<close>

lemma run_miss_new:
  assumes "run_miss cfg now key fp turnKey g = (res, g')" "res \<noteq> Busy"
  shows "res = Outcome (g_next g) \<and>
    g' = g\<lparr>g_records := jm_set (g_records g) key \<lparr>cr_fingerprint = fp, cr_outcome = g_next g,
              cr_settled = False, cr_expiresAt = now + gc_ttlMs cfg\<rparr>,
           g_activeTurns := (case turn_of turnKey of None \<Rightarrow> g_activeTurns g
              | Some t \<Rightarrow> jm_set (g_activeTurns g) t (g_next g)),
           g_open := (g_next g, turn_of turnKey) # g_open g, g_next := Suc (g_next g),
           g_history := (g_next g, \<lparr>ex_key = key, ex_fingerprint = fp, ex_turn = turn_of turnKey, ex_at = now\<rparr>)
                # g_history g\<rparr> \<and>
    (\<forall>t. turn_of turnKey = Some t \<longrightarrow> jm_get (g_activeTurns g) t = None)"
  using assms by (auto simp: run_miss_def Let_def split: if_splits)

lemma run_miss_busy: "run_miss cfg now key fp turnKey g = (Busy, g') \<Longrightarrow>
    g' = g \<and> (\<exists>t n. turn_of turnKey = Some t \<and> jm_get (g_activeTurns g) t = Some n)"
  by (auto simp: run_miss_def Let_def split: if_splits)

lemma record_ok_mono:
  "record_ok cfg g k r \<Longrightarrow> set (g_history g) \<subseteq> set (g_history g') \<Longrightarrow>
     (is_open g' (cr_outcome r) \<Longrightarrow> is_open g (cr_outcome r)) \<Longrightarrow> record_ok cfg g' k r"
  unfolding record_ok_def by blast

lemma set_jm_set: "jm_wf m \<Longrightarrow> (k', v') \<in> set (jm_set m k v) \<longleftrightarrow> (if k' = k then v' = v else (k', v') \<in> set m)"
  using jm_get_iff[OF jmap.wf_put, of m k v k' v'] jm_get_iff[of m k' v'] by auto

lemma settled_count_set:
  "\<not> cr_settled r \<Longrightarrow> settled_count (jm_set m k r) \<le> settled_count m"
  by (induction m k r rule: jm_set.induct) (auto simp: settled_count_def)

text \<open>The record under the key is gone or out of its window.\<close>

lemma run_miss_inv:
  assumes inv: "gate_inv cfg (now, g)" and gone: "jm_get (g_records g) key = None"
  shows "gate_inv cfg (now, snd (run_miss cfg now key fp turnKey g))"
proof (cases "fst (run_miss cfg now key fp turnKey g) = Busy")
  case True
  then show ?thesis
    using run_miss_busy[of cfg now key fp turnKey g "snd (run_miss cfg now key fp turnKey g)"] inv
    by (simp add: prod_eq_iff)
next
  case False
  define g' where "g' = snd (run_miss cfg now key fp turnKey g)"
  let ?n = "g_next g" let ?turn = "turn_of turnKey"
  let ?r = "\<lparr>cr_fingerprint = fp, cr_outcome = ?n, cr_settled = False, cr_expiresAt = now + gc_ttlMs cfg\<rparr>"
  let ?ex = "\<lparr>ex_key = key, ex_fingerprint = fp, ex_turn = ?turn, ex_at = now\<rparr>"
  have new: "g' = g\<lparr>g_records := jm_set (g_records g) key ?r,
      g_activeTurns := (case ?turn of None \<Rightarrow> g_activeTurns g | Some t \<Rightarrow> jm_set (g_activeTurns g) t ?n),
      g_open := (?n, ?turn) # g_open g, g_next := Suc ?n, g_history := (?n, ?ex) # g_history g\<rparr>"
    and free: "\<And>t. ?turn = Some t \<Longrightarrow> jm_get (g_activeTurns g) t = None"
    using run_miss_new[of cfg now key fp turnKey g "fst (run_miss cfg now key fp turnKey g)" g'] False
    by (auto simp: g'_def)
  have r: "records_inv cfg g" and h: "history_inv g" and t: "turns_inv g" and w: "window_inv cfg now g"
    using inv by (simp_all add: gate_inv_def)
  have fresh: "(?n, ex) \<notin> set (g_history g)" "(?n, u) \<notin> set (g_open g)" for ex u
    using h unfolding history_inv_def by blast+
  have h': "history_inv g'"
    using h fresh unfolding history_inv_def new by (force simp: less_Suc_eq)
  have "record_ok cfg g' k x" if "(k, x) \<in> set (g_records g)" for k x
  proof (rule record_ok_mono)
    show "record_ok cfg g k x" using r that by (simp add: records_inv_def)
    then show "is_open g (cr_outcome x)" if "is_open g' (cr_outcome x)"
      using that fresh(1) unfolding record_ok_def by (auto simp: new is_open_def)
  qed (auto simp: new)
  moreover have "record_ok cfg g' key ?r" unfolding record_ok_def by (auto simp: new)
  ultimately have "records_inv cfg g'"
    using r unfolding records_inv_def by (auto simp: new set_jm_set simp del: prod.inject)
  moreover have "turns_inv g'"
  proof (cases ?turn)
    case None
    then have "g_activeTurns g' = g_activeTurns g" "g_open g' = (?n, None) # g_open g" "g_life g' = g_life g"
      by (simp_all add: new)
    then show ?thesis using t unfolding turns_inv_def by (metis list.set_intros(2) option.distinct(1) prod.inject set_ConsD)
  next
    case (Some u)
    then have sel: "g_activeTurns g' = jm_set (g_activeTurns g) u ?n" "g_open g' = (?n, Some u) # g_open g"
      "g_life g' = g_life g" by (simp_all add: new)
    have life: "g_life g \<le> ?n" using h by (simp add: history_inv_def)
    have ne: "t \<noteq> u" if "(n, Some t) \<in> set (g_open g)" "g_life g \<le> n" for n t
      using turnsD(3)[OF t that] free[OF Some] by auto
    show ?thesis
    proof (rule turnsI)
      fix x n assume "jm_get (g_activeTurns g') x = Some n"
      then show "(n, Some x) \<in> set (g_open g') \<and> g_life g' \<le> n"
        using turnsD(1,2)[OF t] life by (auto simp: sel split: if_splits)
    next
      fix n x assume "(n, Some x) \<in> set (g_open g')" "g_life g' \<le> n"
      then show "jm_get (g_activeTurns g') x = Some n"
        using turnsD(3)[OF t] ne by (auto simp: sel)
    qed
  qed
  moreover have "window_inv cfg now g'"
  proof -
    have "ex_key ex \<noteq> key" if "(n, ex) \<in> set (g_history g)" "is_open g n" "g_life g \<le> n"
      "now < ex_at ex + gc_ttlMs cfg" for n ex
      using w gone that unfolding window_inv_def by fastforce
    then show ?thesis
      using w fresh(1) unfolding window_inv_def by (auto simp: new is_open_def)
  qed
  moreover have "settled_count (g_records g') \<le> gc_limit cfg"
    using inv settled_count_set[of ?r "g_records g" key] by (simp add: new gate_inv_def)
  ultimately show ?thesis using h' by (simp add: gate_inv_def g'_def)
qed

lemma delete_expired_inv:
  assumes inv: "gate_inv cfg (now, g)" and k: "jm_get (g_records g) key = Some r" "cr_expiresAt r \<le> now"
  shows "gate_inv cfg (now, g\<lparr>g_records := jm_delete (g_records g) key\<rparr>)" (is "gate_inv cfg (now, ?g)")
proof -
  have r: "records_inv cfg g" and h: "history_inv g" and t: "turns_inv g" and w: "window_inv cfg now g"
    and c: "settled_count (g_records g) \<le> gc_limit cfg"
    using inv by (simp_all add: gate_inv_def)
  have "set (jm_delete (g_records g) key) \<subseteq> set (g_records g)" by (auto simp: jm_delete_def)
  moreover have "jm_wf (jm_delete (g_records g) key)" using r by (auto simp: records_inv_def)
  ultimately have "records_inv cfg ?g" using records_subset[OF r] by blast
  moreover have "\<exists>x. jm_get (g_records ?g) (ex_key ex) = Some x \<and> cr_outcome x = n"
    if a: "(n, ex) \<in> set (g_history g)" "is_open g n" "g_life g \<le> n" "now < ex_at ex + gc_ttlMs cfg" for n ex
  proof -
    obtain x where x: "jm_get (g_records g) (ex_key ex) = Some x" "cr_outcome x = n"
      using w a unfolding window_inv_def by blast
    then have "cr_expiresAt x = ex_at ex + gc_ttlMs cfg"
      using record_expiry(1)[OF r h x(1) a(1)[folded x(2)]] by simp
    then have "ex_key ex \<noteq> key" using a(4) k x(1) by auto
    then show ?thesis using x by simp
  qed
  then have "window_inv cfg now ?g" by (simp add: window_inv_def is_open_def)
  moreover have "history_inv ?g" "turns_inv ?g"
    using h t history_cong[of ?g g] turns_cong[of ?g g] by simp_all
  moreover have "settled_count (g_records ?g) \<le> gc_limit cfg"
    using c settled_count_delete[of "g_records g" key] by simp
  ultimately show ?thesis unfolding gate_inv_def fst_conv snd_conv by blast
qed

lemma run_inv: "gate_inv cfg (now, g) \<Longrightarrow> gate_inv cfg (now, snd (run cfg now key fp turnKey g))"
  using run_miss_inv[of cfg now g key] delete_expired_inv[of cfg now g key]
    run_miss_inv[of cfg now "g\<lparr>g_records := jm_delete (g_records g) key\<rparr>" key]
  by (auto simp: run_def split: option.splits)

subsection \<open>Settling\<close>

lemma mark_settled_entry:
  "(k, r) \<in> set (mark_settled n m) \<longleftrightarrow>
     (\<exists>x. (k, x) \<in> set m \<and> r = (if cr_outcome x = n then x\<lparr>cr_settled := True\<rparr> else x))"
  by (force simp: mark_settled_def)

lemma mark_settled_wf: "jm_wf (mark_settled n m) \<longleftrightarrow> jm_wf m"
  by (simp add: jm_wf_def mark_settled_def comp_def)

lemma mark_settled_get:
  "jm_get (mark_settled n m) k =
     map_option (\<lambda>x. if cr_outcome x = n then x\<lparr>cr_settled := True\<rparr> else x) (jm_get m k)"
  by (induction m) (auto simp: mark_settled_def jm_get_def)

text \<open>The promise is closed and its turn is free; the record may have been marked.\<close>

definition close :: "bool \<Rightarrow> nat \<Rightarrow> string option \<Rightarrow> gate \<Rightarrow> gate" where
  "close fulfilled n turn g =
     release_turn n turn (g\<lparr>g_open := filter (\<lambda>e. fst e \<noteq> n) (g_open g),
       g_records := (if fulfilled then mark_settled n (g_records g) else g_records g)\<rparr>)"

lemma close_fields:
  "g_records (close f n turn g) = (if f then mark_settled n (g_records g) else g_records g)"
  "g_open (close f n turn g) = filter (\<lambda>e. fst e \<noteq> n) (g_open g)"
  "g_history (close f n turn g) = g_history g" "g_next (close f n turn g) = g_next g"
  "g_life (close f n turn g) = g_life g"
  by (simp_all add: close_def release_turn_def split: option.splits)

lemma close_turns:
  "jm_get (g_activeTurns (close f n turn g)) t =
     (if turn = Some t \<and> jm_get (g_activeTurns g) t = Some n then None else jm_get (g_activeTurns g) t)"
  by (auto simp: close_def release_turn_def split: option.splits)

lemma settle_close:
  "settle cfg now f n turn g = (if f then prune cfg now (close True n turn g) else close False n turn g)"
  by (simp add: settle_def close_def release_turn_def prune_def Let_def split: option.splits)

lemma close_inv:
  assumes inv: "gate_inv cfg (now, g)" and o: "(n, turn) \<in> set (g_open g)"
  shows "records_inv cfg (close f n turn g)" "history_inv (close f n turn g)"
    "turns_inv (close f n turn g)" "window_inv cfg now (close f n turn g)"
proof -
  let ?g = "close f n turn g"
  have r: "records_inv cfg g" and h: "history_inv g" and t: "turns_inv g" and w: "window_inv cfg now g"
    using inv by (simp_all add: gate_inv_def)
  have op: "is_open ?g m \<longleftrightarrow> is_open g m \<and> m \<noteq> n" for m by (auto simp: is_open_def close_fields)
  have "record_ok cfg ?g k x" if "(k, x) \<in> set (g_records ?g)" for k x
    using that r unfolding records_inv_def record_ok_def op
    by (auto simp: close_fields mark_settled_entry split: if_splits)
  then show "records_inv cfg ?g"
    using r by (auto simp: records_inv_def close_fields mark_settled_wf)
  show "history_inv ?g"
    using h unfolding history_inv_def close_fields by (auto simp: distinct_map_filter)
  have uniq: "turn' = turn" if "(n, turn') \<in> set (g_open g)" for turn'
    using h o that unfolding history_inv_def by (metis eq_key_imp_eq_value)
  show "turns_inv ?g"
  proof (rule turnsI)
    fix u m assume "jm_get (g_activeTurns ?g) u = Some m"
    then have a: "jm_get (g_activeTurns g) u = Some m" "turn = Some u \<Longrightarrow> m \<noteq> n"
      by (auto simp: close_turns split: if_splits)
    then have "m \<noteq> n" using uniq turnsD(1)[OF t] by blast
    then show "(m, Some u) \<in> set (g_open ?g) \<and> g_life ?g \<le> m"
      using turnsD(1,2)[OF t a(1)] by (simp add: close_fields)
  next
    fix m u assume "(m, Some u) \<in> set (g_open ?g)" "g_life ?g \<le> m"
    then have "jm_get (g_activeTurns g) u = Some m" "m \<noteq> n"
      using turnsD(3)[OF t] by (auto simp: close_fields)
    then show "jm_get (g_activeTurns ?g) u = Some m" by (simp add: close_turns)
  qed
  have "\<exists>x. jm_get (g_records ?g) (ex_key ex) = Some x \<and> cr_outcome x = m"
    if "(m, ex) \<in> set (g_history g)" "is_open g m" "g_life g \<le> m" "now < ex_at ex + gc_ttlMs cfg" "m \<noteq> n" for m ex
    using w that unfolding window_inv_def by (fastforce simp: close_fields mark_settled_get)
  then show "window_inv cfg now ?g"
    unfolding window_inv_def op by (simp add: close_fields)
qed

lemma settle_inv:
  assumes inv: "gate_inv cfg (now, g)" and o: "(n, turn) \<in> set (g_open g)"
  shows "gate_inv cfg (now, settle cfg now f n turn g)"
  using close_inv[OF assms] prune_inv[of cfg "close True n turn g" now] inv
  by (simp add: settle_close gate_inv_def close_fields)

lemma later_inv: "gate_inv cfg (clock, g) \<Longrightarrow> clock \<le> now \<Longrightarrow> gate_inv cfg (now, g)"
  using window_later by (auto simp: gate_inv_def)

lemma sweep_inv: "gate_inv cfg (now, g) \<Longrightarrow> gate_inv cfg (now, prune cfg now g)"
  using prune_inv[of cfg g now] by (simp add: gate_inv_def[of _ "(now, g)"])

lemma stop_inv: "gate_inv cfg (clock, g) \<Longrightarrow> gate_inv cfg (clock, gate_stop g)"
proof -
  assume "gate_inv cfg (clock, g)"
  then have h: "history_inv g" by (simp add: gate_inv_def)
  then have "n < g_next g" if "(n, turn) \<in> set (g_open g)" for n turn
    using that unfolding history_inv_def by blast
  then show ?thesis
    using h unfolding gate_inv_def
    by (force simp: gate_stop_def stopSweeper_def records_inv_def turns_inv_def window_inv_def
        history_inv_def settled_count_def is_open_def)
qed

lemma start_inv: "gate_inv cfg (clock, g) \<Longrightarrow> gate_inv cfg (clock, startSweeper g)"
  using gate_cong[of "startSweeper g" g] by (simp add: startSweeper_def)

interpretation gate: transition_invariant "gate_step cfg" "(clock, new_gate)" "gate_inv cfg"
proof
  show "gate_inv cfg (clock, new_gate)"
    by (simp add: gate_inv_def new_gate_def gate_inv_defs settled_count_def)
  show "gate_inv cfg t" if "gate_step cfg s t" "gate_inv cfg s" for s t
    using that
    by (cases rule: gate_step.cases)
      (auto intro: run_inv settle_inv start_inv stop_inv later_inv sweep_inv)
qed

section \<open>Properties\<close>

lemma run_record:
  assumes "run cfg now key fp turnKey g = (Outcome n, g')"
  shows "(\<exists>r. jm_get (g_records g) key = Some r \<and> now < cr_expiresAt r \<and> cr_fingerprint r = fp \<and>
            cr_outcome r = n \<and> g' = g) \<or>
    (n = g_next g \<and> g_history g' = (n, \<lparr>ex_key = key, ex_fingerprint = fp, ex_turn = turn_of turnKey, ex_at = now\<rparr>) # g_history g)"
proof -
  have miss: "n = g_next h \<and> g_history g' = (n, \<lparr>ex_key = key, ex_fingerprint = fp, ex_turn = turn_of turnKey, ex_at = now\<rparr>) # g_history h"
    if "run_miss cfg now key fp turnKey h = (Outcome n, g')" for h
    using run_miss_new[OF that] by auto
  show ?thesis
    using assms miss[of g] miss[of "g\<lparr>g_records := jm_delete (g_records g) key\<rparr>"]
    by (auto simp: run_def split: option.splits if_splits)
qed

text \<open>The outcome a command gets is that of an execution of the same command with the same
  parameters whose window has not passed: either the one it has just started, or an earlier one,
  and then nothing is executed.\<close>

theorem replayed_outcome_matches:
  assumes "(gate_step cfg)\<^sup>*\<^sup>* (start, new_gate) (clock, g)" and "0 < gc_ttlMs cfg"
    and "run cfg now key fp turnKey g = (Outcome n, g')"
  shows "\<exists>ex. (n, ex) \<in> set (g_history g') \<and> ex_key ex = key \<and> ex_fingerprint ex = fp \<and>
    now < ex_at ex + gc_ttlMs cfg \<and>
    (if n < g_next g then g' = g else g_history g' = (n, ex) # g_history g)"
proof -
  have inv: "records_inv cfg g" "history_inv g"
    using gate.I_reachable[OF assms(1)] by (simp_all add: gate_inv_def)
  from run_record[OF assms(3)] show ?thesis
  proof
    assume "\<exists>r. jm_get (g_records g) key = Some r \<and> now < cr_expiresAt r \<and> cr_fingerprint r = fp \<and>
      cr_outcome r = n \<and> g' = g"
    then obtain r where r: "jm_get (g_records g) key = Some r" "now < cr_expiresAt r"
      "cr_fingerprint r = fp" "cr_outcome r = n" "g' = g" by blast
    then obtain ex where ex: "(n, ex) \<in> set (g_history g)"
      using inv(1) unfolding records_inv_def record_ok_def by (auto simp: jm_get_iff)
    then have "n < g_next g" using inv(2) unfolding history_inv_def by blast
    then show ?thesis
      using record_expiry(1-3)[OF inv r(1), of ex] ex r by (intro exI[of _ ex]) auto
  qed (use assms(2) in auto)
qed

text \<open>A command that is still running is not executed again within its window: a retry gets the
  running execution, the same identifier with other parameters is a conflict, and the gate does
  not change.\<close>

theorem running_command_not_repeated:
  assumes "(gate_step cfg)\<^sup>*\<^sup>* (start, new_gate) (clock, g)" and "clock \<le> now"
    and "(n, ex) \<in> set (g_history g)" "is_open g n" "g_life g \<le> n" "now < ex_at ex + gc_ttlMs cfg"
  shows "run cfg now (ex_key ex) fp turnKey g = (if fp = ex_fingerprint ex then Outcome n else Conflict, g)"
proof -
  have inv: "records_inv cfg g" "history_inv g" "window_inv cfg now g"
    using gate.I_reachable[OF assms(1)] window_later[OF _ assms(2)] by (simp_all add: gate_inv_def)
  then obtain r where r: "jm_get (g_records g) (ex_key ex) = Some r" "cr_outcome r = n"
    using assms(3-6) unfolding window_inv_def by blast
  then show ?thesis
    using record_expiry(1,2)[OF inv(1,2) r(1), of ex] assms(3,6) by (auto simp: run_def)
qed

text \<open>C24: since the last stop a session has at most one turn running, and it is held exactly while
  that turn is running: the gate answers busy for nothing else.\<close>

theorem one_turn_per_session:
  assumes "(gate_step cfg)\<^sup>*\<^sup>* (start, new_gate) (clock, g)"
  shows "jm_get (g_activeTurns g) u = Some n \<longleftrightarrow> (n, Some u) \<in> set (g_open g) \<and> g_life g \<le> n"
proof -
  have "turns_inv g" using gate.I_reachable[OF assms] by (simp add: gate_inv_def)
  then show ?thesis using turnsD by blast
qed

text \<open>At most the configured number of settled outcomes is retained, in every reachable state.\<close>

theorem retained_outcomes_bounded:
  assumes "(gate_step cfg)\<^sup>*\<^sup>* (start, new_gate) (clock, g)"
  shows "settled_count (g_records g) \<le> gc_limit cfg"
  using gate.I_reachable[OF assms] by (simp add: gate_inv_def)

text \<open>A gate with one command running, and the same gate after the command settled.\<close>

definition small_config :: gate_config where
  "small_config = \<lparr>gc_ttlMs = 10, gc_limit = 1\<rparr>"

definition busy_gate :: gate where
  "busy_gate = snd (run small_config 0 ''k'' ''f'' (Some ''s'') new_gate)"

lemma busy_reachable: "(gate_step small_config)\<^sup>*\<^sup>* (0, new_gate) (0, busy_gate)"
  unfolding busy_gate_def by (rule r_into_rtranclp, rule step_run) simp

theorem replayed_outcome_matches_witness:
  "\<exists>ex. (0, ex) \<in> set (g_history busy_gate) \<and> ex_key ex = ''k'' \<and> ex_fingerprint ex = ''f'' \<and> 5 < ex_at ex + 10"
proof -
  have r: "run small_config 5 ''k'' ''f'' None busy_gate = (Outcome 0, busy_gate)"
    and t: "0 < gc_ttlMs small_config" "gc_ttlMs small_config = 10" by code_simp+
  show ?thesis using replayed_outcome_matches[OF busy_reachable t(1) r] t(2) by auto
qed

theorem running_command_not_repeated_witness:
  "run small_config 5 ''k'' ''g'' None busy_gate = (Conflict, busy_gate)"
proof -
  let ?ex = "\<lparr>ex_key = ''k'', ex_fingerprint = ''f'', ex_turn = Some ''s'', ex_at = 0\<rparr>"
  have h: "(0, ?ex) \<in> set (g_history busy_gate)" "is_open busy_gate 0" "g_life busy_gate \<le> 0"
    "5 < ex_at ?ex + gc_ttlMs small_config" "(0::int) \<le> 5" "''g'' \<noteq> ex_fingerprint ?ex" by code_simp+
  show ?thesis
    using running_command_not_repeated[OF busy_reachable h(5) h(1-4), of "''g''" None] h(6)
    by (simp only: execution.select_convs if_False)
qed

theorem one_turn_per_session_witness: "jm_get (g_activeTurns busy_gate) ''s'' = Some 0"
proof -
  have "(0, Some ''s'') \<in> set (g_open busy_gate)" "g_life busy_gate \<le> 0" by code_simp+
  then show ?thesis using one_turn_per_session[OF busy_reachable] by blast
qed

theorem retained_outcomes_bounded_witness:
  "settled_count (g_records (settle small_config 1 True 0 (Some ''s'') busy_gate)) \<le> 1"
proof -
  have o: "(0, Some ''s'') \<in> set (g_open busy_gate)" and l: "gc_limit small_config = 1" by code_simp+
  have "gate_step small_config (0, busy_gate) (1, settle small_config 1 True 0 (Some ''s'') busy_gate)"
    by (rule step_settle[OF _ o]) simp
  then show ?thesis
    using retained_outcomes_bounded rtranclp.rtrancl_into_rtrancl[OF busy_reachable] l by metis
qed

end
