(* ===== verification/EventLog.thy ===== *)
theory EventLog
  imports TacoPrelude
begin

text \<open>
  The replay ring of session pushes: \<open>packages/sidecar/src/server/sessionEventLog.ts\<close>, with the
  frames of \<open>packages/protocol/src/frames.ts\<close> and their construction in \<open>server/push.ts\<close>. The
  parameters of a push are opaque text. The disk tail behind the ring is in \<open>PushTail\<close>.
\<close>

section \<open>Definitions\<close>

record push =
  pu_id :: string
  pu_method :: string
  pu_workspace :: string
  pu_session :: "string option"
  pu_seq :: "int option"
  pu_sessionKind :: "string option"
  pu_params :: string

text \<open>The frame of one push but for its number.\<close>

definition makePushFrame ::
  "string \<Rightarrow> string \<Rightarrow> string \<Rightarrow> string option \<Rightarrow> int option \<Rightarrow> string option \<Rightarrow> string \<Rightarrow> push" where
  "makePushFrame fid method workspace session seq sessionKind params =
     \<lparr>pu_id = fid, pu_method = method, pu_workspace = workspace, pu_session = session,
      pu_seq = seq, pu_sessionKind = sessionKind, pu_params = params\<rparr>"

record stream =
  st_nextSeq :: int
  st_events :: "push list"

type_synonym streams = "(string, stream) js_map"

definition keyFor :: "string \<Rightarrow> string \<Rightarrow> string" where
  "keyFor workspace session = workspace @ CHR 0x00 # session"

definition new_stream :: stream where
  "new_stream = \<lparr>st_nextSeq = 1, st_events = []\<rparr>"

definition getStream :: "string \<Rightarrow> string \<Rightarrow> streams \<Rightarrow> stream" where
  "getStream workspace session ss = or_else (jm_get ss (keyFor workspace session)) new_stream"

definition stream_append :: "nat \<Rightarrow> (int \<Rightarrow> push) \<Rightarrow> stream \<Rightarrow> push \<times> stream" where
  "stream_append capacity create st =
     (let event = create (st_nextSeq st);
          events = st_events st @ [event]
      in (event, \<lparr>st_nextSeq = st_nextSeq st + 1,
            st_events = (if capacity < length events then tl events else events)\<rparr>))"

definition ring_append ::
  "nat \<Rightarrow> string \<Rightarrow> string \<Rightarrow> (int \<Rightarrow> push) \<Rightarrow> streams \<Rightarrow> push \<times> streams" where
  "ring_append capacity workspace session create ss =
     (let (event, st) = stream_append capacity create (getStream workspace session ss)
      in (event, jm_set ss (keyFor workspace session) st))"

record replay_result =
  rp_events :: "push list"
  rp_firstSeq :: int
  rp_lastSeq :: int
  rp_resetRequired :: bool

definition stream_replay :: "stream option \<Rightarrow> int \<Rightarrow> replay_result" where
  "stream_replay stream afterSeq =
     (case stream of
        Some st \<Rightarrow>
          if st_events st = [] then
            \<lparr>rp_events = [], rp_firstSeq = 1, rp_lastSeq = 0, rp_resetRequired = 0 < afterSeq\<rparr>
          else
            let firstSeq = or_else (pu_seq (hd (st_events st))) (st_nextSeq st);
                lastSeq = or_else (pu_seq (last (st_events st))) (firstSeq - 1)
            in if afterSeq < firstSeq - 1
               then \<lparr>rp_events = [], rp_firstSeq = firstSeq, rp_lastSeq = lastSeq, rp_resetRequired = True\<rparr>
               else \<lparr>rp_events = filter (\<lambda>e. afterSeq < or_else (pu_seq e) 0) (st_events st),
                     rp_firstSeq = firstSeq, rp_lastSeq = lastSeq, rp_resetRequired = False\<rparr>
      | None \<Rightarrow> \<lparr>rp_events = [], rp_firstSeq = 1, rp_lastSeq = 0, rp_resetRequired = 0 < afterSeq\<rparr>)"

definition replay :: "string \<Rightarrow> string \<Rightarrow> int \<Rightarrow> streams \<Rightarrow> replay_result" where
  "replay workspace session afterSeq ss = stream_replay (jm_get ss (keyFor workspace session)) afterSeq"

definition lastSeq :: "string \<Rightarrow> string \<Rightarrow> streams \<Rightarrow> int" where
  "lastSeq workspace session ss =
     (case jm_get ss (keyFor workspace session) of Some st \<Rightarrow> st_nextSeq st - 1 | None \<Rightarrow> 0)"

definition ring_clearSession :: "string \<Rightarrow> string \<Rightarrow> streams \<Rightarrow> streams" where
  "ring_clearSession workspace session ss = jm_delete ss (keyFor workspace session)"

definition clearWorkspace :: "string \<Rightarrow> streams \<Rightarrow> streams" where
  "clearWorkspace workspace ss =
     foldl (\<lambda>m k. if startsWith k (workspace @ [CHR 0x00]) then jm_delete m k else m) ss (map fst ss)"

definition clear_streams :: "streams \<Rightarrow> streams" where
  "clear_streams ss = []"

section \<open>Numbered frames\<close>

definition numbered :: "int \<Rightarrow> push list \<Rightarrow> bool" where
  "numbered n events \<longleftrightarrow> map pu_seq events = map (\<lambda>i. Some (n + int i)) [0..<length events]"

lemma numbered_Nil [simp]: "numbered n []"
  by (simp add: numbered_def)

lemma numbered_Cons [simp]: "numbered n (e # es) \<longleftrightarrow> pu_seq e = Some n \<and> numbered (n + 1) es"
proof -
  have "map (\<lambda>i. Some (n + int i)) [0..<Suc (length es)] =
      Some n # map (\<lambda>i. Some (n + 1 + int i)) [0..<length es]"
    by (simp add: upt_conv_Cons map_Suc_upt[symmetric] del: upt_Suc)
  then show ?thesis by (simp add: numbered_def del: upt_Suc)
qed

lemma numbered_append [simp]:
  "numbered n (xs @ ys) \<longleftrightarrow> numbered n xs \<and> numbered (n + int (length xs)) ys"
  by (induction xs arbitrary: n) (auto simp: algebra_simps)

lemma numbered_last: "numbered n es \<Longrightarrow> es \<noteq> [] \<Longrightarrow> pu_seq (last es) = Some (n + int (length es) - 1)"
  by (induction es arbitrary: n) auto

lemma numbered_ge: "numbered n es \<Longrightarrow> x \<in> set es \<Longrightarrow> \<exists>k. pu_seq x = Some k \<and> n \<le> k"
  by (induction es arbitrary: n) fastforce+

lemma numbered_after:
  "numbered n es \<Longrightarrow> n - 1 \<le> a \<Longrightarrow>
     filter (\<lambda>e. a < or_else (pu_seq e) 0) es = drop (nat (a - (n - 1))) es"
proof (induction es arbitrary: n)
  case (Cons e es)
  show ?case
  proof (cases "n \<le> a")
    case True
    then have d: "nat (a - (n - 1)) = Suc (nat (a - n))" by (simp add: nat_diff_distrib Suc_nat_eq_nat_zadd1)
    have "filter (\<lambda>e. a < or_else (pu_seq e) 0) es = drop (nat (a - (n + 1 - 1))) es"
      using Cons True by (intro Cons.IH) auto
    then show ?thesis using Cons.prems True d by simp
  next
    case False
    then have a: "a = n - 1" using Cons.prems by simp
    have "filter (\<lambda>e. a < or_else (pu_seq e) 0) es = es"
    proof (rule filter_True)
      show "\<forall>x \<in> set es. a < or_else (pu_seq x) 0"
        using numbered_ge[of "n + 1" es] Cons.prems a by fastforce
    qed
    then show ?thesis using Cons.prems a by simp
  qed
qed simp

lemma numbered_drop: "numbered n es \<Longrightarrow> numbered (n + int (min k (length es))) (drop k es)"
  using numbered_append[of n "take k es" "drop k es"] by (simp add: min.commute)

section \<open>The ring\<close>

text \<open>A stream is well formed when its events are numbered without gaps up to the next number.\<close>

definition stream_ok :: "nat \<Rightarrow> stream \<Rightarrow> bool" where
  "stream_ok capacity st \<longleftrightarrow> length (st_events st) \<le> capacity \<and>
     1 \<le> st_nextSeq st - int (length (st_events st)) \<and>
     numbered (st_nextSeq st - int (length (st_events st))) (st_events st)"

definition frame_maker :: "(int \<Rightarrow> push) \<Rightarrow> bool" where
  "frame_maker create \<longleftrightarrow> (\<forall>n. pu_seq (create n) = Some n)"

lemma new_stream_ok: "stream_ok capacity new_stream"
  by (simp add: stream_ok_def new_stream_def)

lemma stream_append_ok:
  assumes "stream_ok capacity st" "frame_maker create"
  shows "stream_ok capacity (snd (stream_append capacity create st))"
    and "pu_seq (fst (stream_append capacity create st)) = Some (st_nextSeq st)"
proof -
  show "pu_seq (fst (stream_append capacity create st)) = Some (st_nextSeq st)"
    using assms(2) by (simp add: stream_append_def frame_maker_def Let_def)
  have n: "numbered (st_nextSeq st - int (length (st_events st))) (st_events st @ [create (st_nextSeq st)])"
    using assms by (simp add: stream_ok_def frame_maker_def)
  show "stream_ok capacity (snd (stream_append capacity create st))"
  proof (cases "capacity < Suc (length (st_events st))")
    case True
    have "numbered (st_nextSeq st - int (length (st_events st)) + 1) (tl (st_events st @ [create (st_nextSeq st)]))"
      using n by (cases "st_events st @ [create (st_nextSeq st)]") auto
    then show ?thesis using True assms(1)
      by (simp add: stream_append_def stream_ok_def Let_def algebra_simps)
  next
    case False
    then show ?thesis using n assms(1)
      by (simp add: stream_append_def stream_ok_def Let_def algebra_simps)
  qed
qed

lemma stream_first: "stream_ok capacity st \<Longrightarrow> st_events st \<noteq> [] \<Longrightarrow>
    pu_seq (hd (st_events st)) = Some (st_nextSeq st - int (length (st_events st)))"
  by (cases "st_events st") (auto simp: stream_ok_def)

lemma stream_last: "stream_ok capacity st \<Longrightarrow> st_events st \<noteq> [] \<Longrightarrow>
    pu_seq (last (st_events st)) = Some (st_nextSeq st - 1)"
  using numbered_last by (fastforce simp: stream_ok_def)

text \<open>What a replay returns: everything after the cursor, numbered from the next number on, or the
  demand for a reset when part of it has been evicted.\<close>

lemma stream_replay_ok:
  assumes "stream_ok capacity st" "st_events st \<noteq> []"
    and "first = st_nextSeq st - int (length (st_events st))"
  shows "stream_replay (Some st) a =
    (if a < first - 1
     then \<lparr>rp_events = [], rp_firstSeq = first, rp_lastSeq = st_nextSeq st - 1, rp_resetRequired = True\<rparr>
     else \<lparr>rp_events = drop (nat (a - (first - 1))) (st_events st), rp_firstSeq = first,
           rp_lastSeq = st_nextSeq st - 1, rp_resetRequired = False\<rparr>)"
proof -
  have "numbered first (st_events st)" using assms by (simp add: stream_ok_def)
  then show ?thesis
    using assms(2) stream_first[OF assms(1,2)] stream_last[OF assms(1,2)] assms(3)
    by (simp add: stream_replay_def Let_def numbered_after)
qed

end
