(* ===== verification/PushTail.thy ===== *)
theory PushTail
  imports EventLog ImRoute
begin

text \<open>
  The disk tail of session pushes: \<open>packages/sidecar/src/server/durablePushLog.ts\<close>, and the parts
  of \<open>sessionEventLog.ts\<close> that use it. The operations on one file are queued behind one another in
  the code, so each is one step here. A file is its text; \<open>JSON.stringify\<close> and \<open>JSON.parse\<close> of a
  frame are a parameter, as is the digest in the file name. A ring is known by a number. Writes
  can fail: \<open>flush_failed\<close> leaves any part of the batch behind, which is also what a crash does.
\<close>

section \<open>Definitions\<close>

abbreviation nl :: char where "nl \<equiv> CHR 0x0A"

text \<open>\<open>cd_parse\<close> is \<^const>\<open>None\<close> for a line that does not parse or has no numeric \<open>seq\<close>.\<close>

record push_codec =
  cd_print :: "push \<Rightarrow> string"
  cd_parse :: "string \<Rightarrow> push option"

record disk_state =
  ds_lines :: nat
  ds_size :: nat
  ds_budget :: nat

record file_state =
  fs_pending :: "string list"
  fs_timer :: bool
  fs_missing :: bool
  fs_owner :: "nat option"
  fs_disk :: "disk_state option"

record tail_config =
  tc_maxFileBytes :: nat
  tc_keep :: nat

record tail_log =
  tg_files :: "(string, file_state) js_map"
  tg_warned :: "string list"
  tg_disk :: "(string, string) js_map"

definition safe_char :: "char \<Rightarrow> char" where
  "safe_char c = (if is_alnum_ascii c \<or> c \<in> set ''._-'' then c else CHR ''_'')"

definition streamKey :: "(string \<Rightarrow> string) \<Rightarrow> string \<Rightarrow> string \<Rightarrow> string" where
  "streamKey sha256 workspace session = map safe_char session @ ''-'' @ take 12 (sha256 workspace)"

text \<open>\<open>raw.slice(0, raw.lastIndexOf("\n") + 1)\<close>.\<close>

definition complete_part :: "string \<Rightarrow> string" where
  "complete_part raw = (case lastIndexOf nl raw of None \<Rightarrow> [] | Some i \<Rightarrow> take (Suc i) raw)"

definition completeLines :: "string \<Rightarrow> string list" where
  "completeLines raw = filter (\<lambda>l. l \<noteq> []) (split_char nl (complete_part raw))"

definition measure_text :: "tail_config \<Rightarrow> string \<Rightarrow> disk_state" where
  "measure_text cfg raw =
     (let complete = complete_part raw in
      \<lparr>ds_lines = length (completeLines complete), ds_size = length complete,
       ds_budget = max (tc_maxFileBytes cfg) (2 * length complete)\<rparr>)"

definition new_file :: file_state where
  "new_file = \<lparr>fs_pending = [], fs_timer = False, fs_missing = False, fs_owner = None, fs_disk = None\<rparr>"

definition stateFor :: "string \<Rightarrow> tail_log \<Rightarrow> file_state" where
  "stateFor key d = or_else (jm_get (tg_files d) key) new_file"

definition set_file :: "string \<Rightarrow> file_state \<Rightarrow> tail_log \<Rightarrow> tail_log" where
  "set_file key f d = d\<lparr>tg_files := jm_set (tg_files d) key f\<rparr>"

definition readTail :: "string \<Rightarrow> tail_log \<Rightarrow> string" where
  "readTail key d = or_else (jm_get (tg_disk d) key) []"

definition claim :: "string \<Rightarrow> nat \<Rightarrow> tail_log \<Rightarrow> bool \<times> tail_log" where
  "claim key owner d =
     (let f = stateFor key d; holder = or_else (fs_owner f) owner;
          d1 = set_file key (f\<lparr>fs_owner := Some holder\<rparr>) d
      in if holder = owner then (True, d1)
         else (False, d1\<lparr>tg_warned := (if key \<in> set (tg_warned d) then tg_warned d else tg_warned d @ [key])\<rparr>))"

definition scheduleAppend ::
  "push_codec \<Rightarrow> (string \<Rightarrow> string) \<Rightarrow> push \<Rightarrow> nat \<Rightarrow> tail_log \<Rightarrow> tail_log" where
  "scheduleAppend C sha256 event owner d =
     (case pu_session event of
        None \<Rightarrow> d
      | Some session \<Rightarrow>
          if session = [] then d
          else
            let key = streamKey sha256 (pu_workspace event) session;
                (granted, d1) = claim key owner d
            in if \<not> granted then d1
               else let f = stateFor key d1 in
                    set_file key (f\<lparr>fs_pending := fs_pending f @ [cd_print C event], fs_timer := True\<rparr>) d1)"

text \<open>One write of the buffered lines.\<close>

definition batch_text :: "string list \<Rightarrow> string" where
  "batch_text lines = join [nl] lines @ [nl]"

definition torn_text :: "string \<Rightarrow> bool" where
  "torn_text raw \<longleftrightarrow> raw \<noteq> [] \<and> \<not> endsWith raw [nl]"

definition must_compact :: "tail_config \<Rightarrow> file_state \<Rightarrow> string \<Rightarrow> bool" where
  "must_compact cfg f raw =
     (let disk = or_else (fs_disk f) (measure_text cfg raw);
          lines = fs_pending f
      in (fs_disk f = None \<and> torn_text raw) \<or> 2 * tc_keep cfg < ds_lines disk + length lines \<or>
         ds_budget disk < ds_size disk + length (batch_text lines))"

definition flushSync :: "tail_config \<Rightarrow> string \<Rightarrow> tail_log \<Rightarrow> tail_log" where
  "flushSync cfg key d =
     (case jm_get (tg_files d) key of
        None \<Rightarrow> d
      | Some f \<Rightarrow>
          if fs_pending f = [] then d
          else
            let raw = readTail key d; lines = fs_pending f;
                disk = or_else (fs_disk f) (measure_text cfg raw)
            in if must_compact cfg f raw then
                 let kept = batch_text (slice_last (tc_keep cfg) (completeLines raw @ lines)) in
                 set_file key (f\<lparr>fs_pending := [], fs_missing := False, fs_disk := Some (measure_text cfg kept)\<rparr>)
                   (d\<lparr>tg_disk := jm_set (tg_disk d) key kept\<rparr>)
               else
                 set_file key (f\<lparr>fs_pending := [], fs_missing := False,
                     fs_disk := Some \<lparr>ds_lines = ds_lines disk + length lines,
                       ds_size = ds_size disk + length (batch_text lines), ds_budget = ds_budget disk\<rparr>\<rparr>)
                   (d\<lparr>tg_disk := jm_set (tg_disk d) key (raw @ batch_text lines)\<rparr>))"

text \<open>A write that fails, after \<open>k\<close> characters of an appended batch or before a replacement.\<close>

definition flush_failed :: "tail_config \<Rightarrow> nat \<Rightarrow> string \<Rightarrow> tail_log \<Rightarrow> tail_log" where
  "flush_failed cfg k key d =
     (case jm_get (tg_files d) key of
        None \<Rightarrow> d
      | Some f \<Rightarrow>
          if fs_pending f = [] then d
          else
            let raw = readTail key d;
                d1 = set_file key (f\<lparr>fs_pending := [], fs_missing := False, fs_disk := None\<rparr>) d
            in if must_compact cfg f raw then d1
               else d1\<lparr>tg_disk := jm_set (tg_disk d) key (raw @ take k (batch_text (fs_pending f)))\<rparr>)"

definition flush_timer :: "tail_config \<Rightarrow> string \<Rightarrow> tail_log \<Rightarrow> tail_log" where
  "flush_timer cfg key d = flushSync cfg key (set_file key ((stateFor key d)\<lparr>fs_timer := False\<rparr>) d)"

definition tail_flush :: "tail_config \<Rightarrow> tail_log \<Rightarrow> tail_log" where
  "tail_flush cfg d = foldl (\<lambda>s k. flushSync cfg k s) d (map fst (tg_files d))"

definition releaseOwner :: "nat \<Rightarrow> tail_log \<Rightarrow> tail_log" where
  "releaseOwner owner d =
     d\<lparr>tg_files := map (\<lambda>e. (fst e, if fs_owner (snd e) = Some owner then (snd e)\<lparr>fs_owner := None\<rparr> else snd e)) (tg_files d),
       tg_warned := filter (\<lambda>k. \<forall>f \<in> set_option (jm_get (tg_files d) k). fs_owner f \<noteq> Some owner) (tg_warned d)\<rparr>"

definition parse_lines :: "push_codec \<Rightarrow> string list \<Rightarrow> push list" where
  "parse_lines C lines = List.map_filter (cd_parse C) lines"

definition loadTail ::
  "push_codec \<Rightarrow> tail_config \<Rightarrow> (string \<Rightarrow> string) \<Rightarrow> string \<Rightarrow> string \<Rightarrow> nat \<Rightarrow> nat \<Rightarrow> tail_log \<Rightarrow> push list \<times> tail_log" where
  "loadTail C cfg sha256 workspace session limit owner d =
     (let key = streamKey sha256 workspace session;
          (granted, d1) = claim key owner d
      in if \<not> granted then ([], d1)
         else if fs_missing (stateFor key d1) then ([], d1)
         else
           let d2 = flushSync cfg key d1 in
           case jm_get (tg_disk d2) key of
             None \<Rightarrow> ([], set_file key ((stateFor key d2)\<lparr>fs_missing := True\<rparr>) d2)
           | Some raw \<Rightarrow>
               if raw = [] then ([], d2)
               else
                 let complete = (if endsWith raw [nl] then raw else complete_part raw);
                     d3 = (if complete = raw then d2
                           else set_file key ((stateFor key d2)\<lparr>fs_disk := None\<rparr>)
                             (d2\<lparr>tg_disk := jm_set (tg_disk d2) key complete\<rparr>))
                 in (slice_last limit (parse_lines C (filter (\<lambda>l. l \<noteq> []) (split_char nl complete))), d3))"

definition remove_tail :: "(string \<Rightarrow> string) \<Rightarrow> string \<Rightarrow> string \<Rightarrow> tail_log \<Rightarrow> tail_log" where
  "remove_tail sha256 workspace session d =
     (let key = streamKey sha256 workspace session in
      set_file key new_file d\<lparr>tg_warned := filter (\<lambda>k. k \<noteq> key) (tg_warned d),
        tg_disk := jm_delete (tg_disk d) key\<rparr>)"

text \<open>\<open>prune\<close>: files that nobody has touched in this process and that are old enough; \<open>mtime\<close> is
  \<^const>\<open>None\<close> where \<open>stat\<close> fails.\<close>

definition prune_tails :: "(string \<Rightarrow> int option) \<Rightarrow> int \<Rightarrow> int \<Rightarrow> tail_log \<Rightarrow> nat \<times> tail_log" where
  "prune_tails mtime maxAgeMs now d =
     (let old = filter (\<lambda>k. jm_get (tg_files d) k = None \<and>
            (case mtime k of None \<Rightarrow> False | Some m \<Rightarrow> maxAgeMs \<le> now - m)) (map fst (tg_disk d))
      in (length old, d\<lparr>tg_disk := foldl jm_delete (tg_disk d) old\<rparr>))"

subsection \<open>The ring with its tail\<close>

definition log_append ::
  "push_codec \<Rightarrow> (string \<Rightarrow> string) \<Rightarrow> nat \<Rightarrow> nat \<Rightarrow> string \<Rightarrow> string \<Rightarrow> (int \<Rightarrow> push) \<Rightarrow>
     streams \<times> tail_log option \<Rightarrow> push \<times> streams \<times> tail_log option" where
  "log_append C sha256 capacity owner workspace session create s =
     (let (event, ss) = ring_append capacity workspace session create (fst s)
      in (event, ss, map_option (scheduleAppend C sha256 event owner) (snd s)))"

definition hydrate ::
  "push_codec \<Rightarrow> tail_config \<Rightarrow> (string \<Rightarrow> string) \<Rightarrow> nat \<Rightarrow> nat \<Rightarrow> string \<Rightarrow> string \<Rightarrow>
     streams \<times> tail_log option \<Rightarrow> streams \<times> tail_log option" where
  "hydrate C cfg sha256 capacity owner workspace session s =
     (case snd s of
        None \<Rightarrow> s
      | Some d \<Rightarrow>
          if (\<exists>st \<in> set_option (jm_get (fst s) (keyFor workspace session)). st_events st \<noteq> []) then s
          else
            let (tail, d1) = loadTail C cfg sha256 workspace session capacity owner d in
            if tail = [] then (fst s, Some d1)
            else (case pu_seq (last tail) of
                    None \<Rightarrow> (fst s, Some d1)
                  | Some n \<Rightarrow> (jm_set (fst s) (keyFor workspace session)
                       \<lparr>st_nextSeq = n + 1, st_events = tail\<rparr>, Some d1)))"

definition clearSession ::
  "(string \<Rightarrow> string) \<Rightarrow> string \<Rightarrow> string \<Rightarrow> streams \<times> tail_log option \<Rightarrow> streams \<times> tail_log option" where
  "clearSession sha256 workspace session s =
     (ring_clearSession workspace session (fst s), map_option (remove_tail sha256 workspace session) (snd s))"

definition flushDurable :: "tail_config \<Rightarrow> nat \<Rightarrow> streams \<times> tail_log option \<Rightarrow> streams \<times> tail_log option" where
  "flushDurable cfg owner s = (fst s, map_option (\<lambda>d. releaseOwner owner (tail_flush cfg d)) (snd s))"

text \<open>The process is replaced: memory is gone, the files stay.\<close>

definition new_process :: "streams \<times> tail_log option \<Rightarrow> streams \<times> tail_log option" where
  "new_process s = ([], map_option (\<lambda>d. \<lparr>tg_files = [], tg_warned = [], tg_disk = tg_disk d\<rparr>) (snd s))"

section \<open>Lines of a text\<close>

definition line_ok :: "string \<Rightarrow> bool" where
  "line_ok l \<longleftrightarrow> l \<noteq> [] \<and> nl \<notin> set l"

text \<open>A text that ends between lines.\<close>

definition whole :: "string \<Rightarrow> bool" where
  "whole t \<longleftrightarrow> t = [] \<or> (\<exists>u. t = u @ [nl])"

lemma whole_torn: "whole t \<longleftrightarrow> \<not> torn_text t"
  by (auto simp: whole_def torn_text_def endsWith_suffix suffix_def)

lemma complete_part_append: "whole t \<Longrightarrow> nl \<notin> set u \<Longrightarrow> complete_part (t @ u) = t"
  by (auto simp: whole_def complete_part_def lastIndexOf_None lastIndexOf_append)

lemma complete_part_whole [simp]: "whole t \<Longrightarrow> complete_part t = t"
  using complete_part_append[of t "[]"] by simp

lemma complete_part_is_whole: "whole (complete_part t)"
proof (cases "nl \<in> set t")
  case True
  then obtain u v where "t = u @ nl # v" "nl \<notin> set v" by (metis split_list_last)
  then show ?thesis by (simp add: complete_part_def lastIndexOf_append whole_def)
qed (simp add: complete_part_def lastIndexOf_None whole_def)

lemma completeLines_torn: "whole t \<Longrightarrow> nl \<notin> set u \<Longrightarrow> completeLines (t @ u) = completeLines t"
  by (simp add: completeLines_def complete_part_append)

lemma completeLines_complete: "completeLines (complete_part t) = completeLines t"
  using complete_part_is_whole by (simp add: completeLines_def)

lemma completeLines_Nil [simp]: "completeLines [] = []"
  by (simp add: completeLines_def complete_part_def)

lemma whole_line: "whole t \<Longrightarrow> whole (t @ l @ [nl])"
  by (auto simp: whole_def)

lemma completeLines_line:
  assumes "whole t" "line_ok l"
  shows "completeLines (t @ l @ [nl]) = completeLines t @ [l]"
proof -
  have l: "split_char nl l = [l]" using assms(2) by (intro split_by_simple) (auto simp: line_ok_def)
  have "split_char nl (t @ l @ [nl]) = split_char nl (t @ l) @ [[]]"
    using split_by_append_sep[of "\<lambda>c. c = nl" nl "t @ l" "[]"] by simp
  moreover have "filter (\<lambda>l. l \<noteq> []) (split_char nl (t @ l)) = filter (\<lambda>l. l \<noteq> []) (split_char nl t) @ [l]"
  proof (cases "t = []")
    case True
    then show ?thesis using l assms(2) by (simp add: line_ok_def)
  next
    case False
    then obtain u where u: "t = u @ [nl]" using assms(1) by (auto simp: whole_def)
    have "split_char nl (u @ nl # l) = split_char nl u @ [l]" "split_char nl (u @ nl # []) = split_char nl u @ [[]]"
      using split_by_append_sep[of "\<lambda>c. c = nl" nl u] l by auto
    then show ?thesis using u assms(2) by (simp add: line_ok_def)
  qed
  ultimately show ?thesis
    using assms(1) by (simp add: completeLines_def whole_line)
qed

text \<open>A batch is its lines, each with its end.\<close>

definition text_of :: "string list \<Rightarrow> string" where
  "text_of ls = concat (map (\<lambda>l. l @ [nl]) ls)"

lemma batch_text_of: "ls \<noteq> [] \<Longrightarrow> batch_text ls = text_of ls"
proof (induction ls)
  case (Cons l ls)
  then show ?case by (cases ls) (auto simp: batch_text_def text_of_def)
qed simp

lemma whole_text_of: "whole t \<Longrightarrow> whole (t @ text_of ls)"
proof (induction ls arbitrary: t)
  case (Cons l ls)
  then show ?case using Cons.IH[OF whole_line[OF Cons.prems, of l]] by (simp add: text_of_def)
qed (simp add: text_of_def)

lemma completeLines_text_of:
  "whole t \<Longrightarrow> list_all line_ok ls \<Longrightarrow> completeLines (t @ text_of ls) = completeLines t @ ls"
proof (induction ls arbitrary: t)
  case (Cons l ls)
  then show ?case
    using Cons.IH[OF whole_line[OF Cons.prems(1), of l]] completeLines_line[OF Cons.prems(1), of l]
    by (simp add: text_of_def)
qed (simp add: text_of_def)

text \<open>A batch that was cut off leaves some of its lines.\<close>

lemma completeLines_cut:
  "whole t \<Longrightarrow> list_all line_ok ls \<Longrightarrow> \<exists>j. completeLines (t @ take k (text_of ls)) = completeLines t @ take j ls"
proof (induction ls arbitrary: t k)
  case (Cons l ls)
  show ?case
  proof (cases "k \<le> length l")
    case True
    then have "take k (text_of (l # ls)) = take k l" by (simp add: text_of_def)
    moreover have "nl \<notin> set (take k l)" using Cons.prems(2) by (auto simp: line_ok_def dest: in_set_takeD)
    ultimately show ?thesis using completeLines_torn[OF Cons.prems(1)] by (intro exI[of _ 0]) simp
  next
    case False
    then have "take k (text_of (l # ls)) = l @ [nl] @ take (k - length l - 1) (text_of ls)"
      by (cases "k - length l") (simp_all add: text_of_def)
    moreover obtain j where "completeLines ((t @ l @ [nl]) @ take (k - length l - 1) (text_of ls))
        = completeLines (t @ l @ [nl]) @ take j ls"
      using Cons.IH[OF whole_line[OF Cons.prems(1), of l], of "k - length l - 1"] Cons.prems(2) by auto
    ultimately show ?thesis
      using completeLines_line[OF Cons.prems(1), of l] Cons.prems(2) by (intro exI[of _ "Suc j"]) simp
  qed
qed (auto simp: text_of_def)

section \<open>The tail as a list of lines\<close>

text \<open>What the tail of one stream holds: the complete lines of its file and the buffered ones.\<close>

definition tail_lines :: "string \<Rightarrow> tail_log \<Rightarrow> string list" where
  "tail_lines key d = completeLines (readTail key d) @ fs_pending (stateFor key d)"

text \<open>The counters are kept only for a file that ends between lines, and buffered lines are lines.\<close>

definition file_ok :: "string \<Rightarrow> tail_log \<Rightarrow> bool" where
  "file_ok key d \<longleftrightarrow> (fs_disk (stateFor key d) \<noteq> None \<longrightarrow> whole (readTail key d)) \<and>
     list_all line_ok (fs_pending (stateFor key d))"

definition codec_ok :: "push_codec \<Rightarrow> bool" where
  "codec_ok C \<longleftrightarrow> (\<forall>e. pu_seq e \<noteq> None \<longrightarrow> cd_parse C (cd_print C e) = Some e \<and> line_ok (cd_print C e))"

lemma stateFor_set [simp]: "stateFor k (set_file key f d) = (if k = key then f else stateFor k d)"
  by (simp add: stateFor_def set_file_def)

lemma readTail_set [simp]: "readTail k (set_file key f d) = readTail k d"
  by (simp add: readTail_def set_file_def)

lemma stateFor_disk [simp]: "stateFor k (d\<lparr>tg_disk := x\<rparr>) = stateFor k d"
  by (simp add: stateFor_def)

lemma stateFor_warned [simp]: "stateFor k (d\<lparr>tg_warned := x\<rparr>) = stateFor k d"
  by (simp add: stateFor_def)

lemma readTail_warned [simp]: "readTail k (d\<lparr>tg_warned := x\<rparr>) = readTail k d"
  by (simp add: readTail_def)

lemma readTail_disk [simp]:
  "readTail k (d\<lparr>tg_disk := jm_set (tg_disk d) key t\<rparr>) = (if k = key then t else readTail k d)"
  by (simp add: readTail_def)

lemma claim_granted:
  "fst (claim key owner d) \<longleftrightarrow> fs_owner (stateFor key d) = None \<or> fs_owner (stateFor key d) = Some owner"
  by (cases "fs_owner (stateFor key d)") (auto simp: claim_def Let_def)

lemma claim_state:
  "fst (claim key owner d) \<Longrightarrow>
     snd (claim key owner d) = set_file key ((stateFor key d)\<lparr>fs_owner := Some owner\<rparr>) d"
  by (simp add: claim_def Let_def split: if_splits)

lemma file_present: "fs_pending (stateFor key d) \<noteq> [] \<Longrightarrow> jm_get (tg_files d) key = Some (stateFor key d)"
  by (cases "jm_get (tg_files d) key") (auto simp: stateFor_def new_file_def)

lemma slice_last_Nil_iff: "slice_last n xs = [] \<longleftrightarrow> xs = []"
  by (cases xs) (auto simp: slice_last_def)

lemma list_all_slice_last: "list_all P xs \<Longrightarrow> list_all P (slice_last n xs)"
  using slice_last_suffix[of xs n] by (metis list_all_append)

lemma completeLines_ok: "list_all line_ok (completeLines t)"
  using split_by_no_sep[of "\<lambda>c. c = nl" "complete_part t"]
  by (auto simp: list_all_iff completeLines_def line_ok_def)

text \<open>A write keeps all lines, or the last ones when the file is compacted; nothing stays buffered.\<close>

lemma flushSync_lines:
  assumes "file_ok key d"
  shows "tail_lines key (flushSync cfg key d) = tail_lines key d \<or>
      tail_lines key (flushSync cfg key d) = slice_last (tc_keep cfg) (tail_lines key d)"
    and "file_ok key (flushSync cfg key d)"
    and "fs_pending (stateFor key (flushSync cfg key d)) = []"
    and "fs_owner (stateFor key (flushSync cfg key d)) = fs_owner (stateFor key d)"
proof -
  let ?f = "stateFor key d" let ?raw = "readTail key d" let ?lines = "fs_pending ?f"
  let ?d = "flushSync cfg key d"
  have all: "(tail_lines key ?d = tail_lines key d \<or> tail_lines key ?d = slice_last (tc_keep cfg) (tail_lines key d))
      \<and> file_ok key ?d \<and> fs_pending (stateFor key ?d) = [] \<and> fs_owner (stateFor key ?d) = fs_owner ?f"
  proof (cases "?lines = []")
    case True
    then have "?d = d"
      by (cases "jm_get (tg_files d) key") (auto simp: flushSync_def stateFor_def)
    then show ?thesis using True assms by simp
  next
    case False
    note f = file_present[OF False]
    have ok: "list_all line_ok ?lines" using assms by (simp add: file_ok_def)
    show ?thesis
    proof (cases "must_compact cfg ?f ?raw")
      case True
      let ?ls = "slice_last (tc_keep cfg) (completeLines ?raw @ ?lines)"
      have ls: "?ls \<noteq> []" "list_all line_ok ?ls"
        using False ok completeLines_ok by (simp_all add: slice_last_Nil_iff list_all_slice_last)
      have b: "batch_text ?ls = text_of ?ls" by (rule batch_text_of[OF ls(1)])
      have "completeLines (text_of ?ls) = ?ls" "whole (text_of ?ls)"
        using completeLines_text_of[OF _ ls(2), of "[]"] whole_text_of[of "[]"] by (simp_all add: whole_def)
      then show ?thesis
        using False f True by (simp add: flushSync_def Let_def tail_lines_def file_ok_def b)
    next
      case no: False
      have w: "whole ?raw"
        using no assms whole_torn by (auto simp: must_compact_def Let_def file_ok_def)
      have "completeLines (?raw @ batch_text ?lines) = completeLines ?raw @ ?lines"
        "whole (?raw @ batch_text ?lines)"
        using completeLines_text_of[OF w ok] whole_text_of[OF w] batch_text_of[OF False] by simp_all
      then show ?thesis
        using False f no by (simp add: flushSync_def Let_def tail_lines_def file_ok_def)
    qed
  qed
  then show "tail_lines key ?d = tail_lines key d \<or> tail_lines key ?d = slice_last (tc_keep cfg) (tail_lines key d)"
    "file_ok key ?d" "fs_pending (stateFor key ?d) = []" "fs_owner (stateFor key ?d) = fs_owner ?f"
    by blast+
qed

text \<open>A write that fails keeps the lines of the file and any number of the buffered ones, in order.\<close>

lemma flush_failed_lines:
  assumes "file_ok key d"
  shows "prefix (tail_lines key (flush_failed cfg k key d)) (tail_lines key d) \<and>
    prefix (completeLines (readTail key d)) (tail_lines key (flush_failed cfg k key d)) \<and>
    file_ok key (flush_failed cfg k key d)"
proof -
  let ?f = "stateFor key d" let ?raw = "readTail key d" let ?lines = "fs_pending ?f"
  show ?thesis
  proof (cases "?lines = []")
    case True
    then have "flush_failed cfg k key d = d"
      by (cases "jm_get (tg_files d) key") (auto simp: flush_failed_def stateFor_def)
    then show ?thesis using assms by (simp add: tail_lines_def)
  next
    case False
    note f = file_present[OF False]
    have ok: "list_all line_ok ?lines" using assms by (simp add: file_ok_def)
    show ?thesis
    proof (cases "must_compact cfg ?f ?raw")
      case True
      then show ?thesis using False f by (simp add: flush_failed_def Let_def tail_lines_def file_ok_def)
    next
      case no: False
      have w: "whole ?raw"
        using no assms whole_torn by (auto simp: must_compact_def Let_def file_ok_def)
      obtain j where "completeLines (?raw @ take k (batch_text ?lines)) = completeLines ?raw @ take j ?lines"
        using completeLines_cut[OF w ok] batch_text_of[OF False] by metis
      moreover have "prefix (take j ?lines) ?lines" by (rule take_is_prefix)
      ultimately show ?thesis
        using False f no by (simp add: flush_failed_def Let_def tail_lines_def file_ok_def readTail_def)
    qed
  qed
qed

lemma scheduleAppend_lines:
  assumes "pu_session e = Some session" "session \<noteq> []" "key = streamKey sha256 (pu_workspace e) session"
    and "fs_owner (stateFor key d) = None \<or> fs_owner (stateFor key d) = Some owner"
    and "file_ok key d" "line_ok (cd_print C e)"
  shows "tail_lines key (scheduleAppend C sha256 e owner d) = tail_lines key d @ [cd_print C e]"
    and "file_ok key (scheduleAppend C sha256 e owner d)"
    and "fs_owner (stateFor key (scheduleAppend C sha256 e owner d)) = Some owner"
    and "fs_missing (stateFor key (scheduleAppend C sha256 e owner d)) = fs_missing (stateFor key d)"
proof -
  have g: "fst (claim key owner d)" using assms(4) by (simp add: claim_granted)
  have "scheduleAppend C sha256 e owner d =
      set_file key ((stateFor key d)\<lparr>fs_owner := Some owner, fs_pending := fs_pending (stateFor key d) @ [cd_print C e],
        fs_timer := True\<rparr>) (set_file key ((stateFor key d)\<lparr>fs_owner := Some owner\<rparr>) d)"
    using g claim_state[OF g] assms(1,2,3)
    by (simp add: scheduleAppend_def Let_def case_prod_beta)
  then show "tail_lines key (scheduleAppend C sha256 e owner d) = tail_lines key d @ [cd_print C e]"
    "file_ok key (scheduleAppend C sha256 e owner d)"
    "fs_owner (stateFor key (scheduleAppend C sha256 e owner d)) = Some owner"
    "fs_missing (stateFor key (scheduleAppend C sha256 e owner d)) = fs_missing (stateFor key d)"
    using assms(5,6) by (simp_all add: tail_lines_def file_ok_def)
qed

section \<open>One stream over its whole life\<close>

record log_system =
  sy_streams :: streams
  sy_tail :: tail_log
  sy_owner :: nat
  sy_sent :: "push list"      \<comment> \<open>everything that was ever pushed on the stream\<close>

definition new_system :: "log_system" where
  "new_system = \<lparr>sy_streams = [], sy_tail = \<lparr>tg_files = [], tg_warned = [], tg_disk = []\<rparr>,
     sy_owner = 0, sy_sent = []\<rparr>"

text \<open>The frames of one stream.\<close>

definition stream_frame :: "string \<Rightarrow> string \<Rightarrow> (int \<Rightarrow> push) \<Rightarrow> bool" where
  "stream_frame workspace session create \<longleftrightarrow>
     (\<forall>n. pu_seq (create n) = Some n \<and> pu_workspace (create n) = workspace \<and> pu_session (create n) = Some session)"

definition system_append ::
  "push_codec \<Rightarrow> (string \<Rightarrow> string) \<Rightarrow> nat \<Rightarrow> string \<Rightarrow> string \<Rightarrow> (int \<Rightarrow> push) \<Rightarrow> log_system \<Rightarrow> log_system" where
  "system_append C sha256 capacity workspace session create sy =
     (let (event, ss, d) = log_append C sha256 capacity (sy_owner sy) workspace session create
            (sy_streams sy, Some (sy_tail sy))
      in sy\<lparr>sy_streams := ss, sy_tail := or_else d (sy_tail sy), sy_sent := sy_sent sy @ [event]\<rparr>)"

text \<open>A graceful restart: drain, stop, start again under another ring and read the tail back.\<close>

definition system_restart ::
  "push_codec \<Rightarrow> tail_config \<Rightarrow> (string \<Rightarrow> string) \<Rightarrow> nat \<Rightarrow> string \<Rightarrow> string \<Rightarrow> nat \<Rightarrow> log_system \<Rightarrow> log_system" where
  "system_restart C cfg sha256 capacity workspace session owner sy =
     (let (ss, d) = hydrate C cfg sha256 capacity owner workspace session
            (new_process (flushDurable cfg (sy_owner sy) (sy_streams sy, Some (sy_tail sy))))
      in sy\<lparr>sy_streams := ss, sy_tail := or_else d (sy_tail sy), sy_owner := owner\<rparr>)"

text \<open>A crash: what was buffered is lost, but for the part of a write that got through.\<close>

definition system_crash ::
  "push_codec \<Rightarrow> tail_config \<Rightarrow> (string \<Rightarrow> string) \<Rightarrow> nat \<Rightarrow> string \<Rightarrow> string \<Rightarrow> nat \<Rightarrow> nat \<Rightarrow> log_system \<Rightarrow> log_system" where
  "system_crash C cfg sha256 capacity workspace session k owner sy =
     (let d0 = flush_failed cfg k (streamKey sha256 workspace session) (sy_tail sy);
          (ss, d) = hydrate C cfg sha256 capacity owner workspace session
            (new_process (sy_streams sy, Some d0))
      in sy\<lparr>sy_streams := ss, sy_tail := or_else d (sy_tail sy), sy_owner := owner\<rparr>)"

inductive log_step ::
  "push_codec \<Rightarrow> tail_config \<Rightarrow> (string \<Rightarrow> string) \<Rightarrow> nat \<Rightarrow> string \<Rightarrow> string \<Rightarrow> log_system \<Rightarrow> log_system \<Rightarrow> bool"
  for C cfg sha256 capacity workspace session where
  log_push: "stream_frame workspace session create \<Longrightarrow>
     log_step C cfg sha256 capacity workspace session sy (system_append C sha256 capacity workspace session create sy)"
| log_timer: "log_step C cfg sha256 capacity workspace session sy (sy\<lparr>sy_tail := flush_timer cfg key (sy_tail sy)\<rparr>)"
| log_restart: "log_step C cfg sha256 capacity workspace session sy
     (system_restart C cfg sha256 capacity workspace session owner sy)"

subsection \<open>The abstract log\<close>

text \<open>Without rings, files and restarts: all pushes so far, of which the last \<open>capacity\<close> can be
  replayed.\<close>

definition spec_replay :: "nat \<Rightarrow> push list \<Rightarrow> int \<Rightarrow> replay_result" where
  "spec_replay capacity sent a =
     (if sent = [] then \<lparr>rp_events = [], rp_firstSeq = 1, rp_lastSeq = 0, rp_resetRequired = 0 < a\<rparr>
      else
        let first = int (length sent - capacity) + 1 in
        \<lparr>rp_events = (if a < first - 1 then [] else drop (nat a) sent), rp_firstSeq = first,
         rp_lastSeq = int (length sent), rp_resetRequired = a < first - 1\<rparr>)"

definition ring_of :: "nat \<Rightarrow> push list \<Rightarrow> stream option" where
  "ring_of capacity sent =
     (if sent = [] then None
      else Some \<lparr>st_nextSeq = 1 + int (length sent), st_events = slice_last capacity sent\<rparr>)"

lemma ring_of_ok:
  assumes "numbered 1 sent" "0 < capacity" "ring_of capacity sent = Some st"
  shows "stream_ok capacity st \<and> st_events st \<noteq> []"
proof -
  have "length (slice_last capacity sent) = min capacity (length sent)"
    using assms(2) by (rule length_slice_last)
  moreover have "numbered (1 + int (min (length sent - capacity) (length sent))) (drop (length sent - capacity) sent)"
    using assms(1) by (rule numbered_drop)
  ultimately show ?thesis
    using assms(2,3) by (auto simp: ring_of_def stream_ok_def slice_last_Nil_iff slice_last_def
        min_def of_nat_diff algebra_simps split: if_splits)
qed

lemma ring_replay:
  assumes "numbered 1 sent" "0 < capacity"
  shows "stream_replay (ring_of capacity sent) a = spec_replay capacity sent a"
proof (cases "sent = []")
  case True
  then show ?thesis by (simp add: ring_of_def spec_replay_def stream_replay_def)
next
  case False
  then obtain st where st: "ring_of capacity sent = Some st" by (simp add: ring_of_def)
  then have f: "st_nextSeq st = 1 + int (length sent)" "st_events st = slice_last capacity sent"
    using False by (auto simp: ring_of_def)
  have len: "length (slice_last capacity sent) = min capacity (length sent)"
    using assms(2) by (rule length_slice_last)
  have first: "int (length sent - capacity) + 1 = st_nextSeq st - int (length (st_events st))"
    unfolding f len by (simp add: min_def of_nat_diff)
  have drop: "drop (nat (a - int (length sent - capacity))) (slice_last capacity sent) = drop (nat a) sent"
    if "int (length sent - capacity) \<le> a"
    using that assms(2) by (simp add: slice_last_def nat_diff_distrib nat_le_iff add.commute)
  show ?thesis
    unfolding st stream_replay_ok[OF ring_of_ok[OF assms st, THEN conjunct1] ring_of_ok[OF assms st, THEN conjunct2] first]
    using False drop by (simp add: spec_replay_def Let_def f)
qed

subsection \<open>The invariant\<close>

text \<open>The lines of the tail are the last pushes, at least as many as the ring holds.\<close>

definition tail_covers :: "push_codec \<Rightarrow> nat \<Rightarrow> string \<Rightarrow> tail_log \<Rightarrow> push list \<Rightarrow> bool" where
  "tail_covers C capacity key d sent \<longleftrightarrow> file_ok key d \<and>
     suffix (tail_lines key d) (map (cd_print C) sent) \<and> min capacity (length sent) \<le> length (tail_lines key d)"

definition of_stream :: "string \<Rightarrow> string \<Rightarrow> push \<Rightarrow> bool" where
  "of_stream workspace session e \<longleftrightarrow> pu_workspace e = workspace \<and> pu_session e = Some session"

definition log_inv ::
  "push_codec \<Rightarrow> (string \<Rightarrow> string) \<Rightarrow> nat \<Rightarrow> string \<Rightarrow> string \<Rightarrow> log_system \<Rightarrow> bool" where
  "log_inv C sha256 capacity workspace session sy \<longleftrightarrow>
     numbered 1 (sy_sent sy) \<and> list_all (of_stream workspace session) (sy_sent sy) \<and>
     jm_get (sy_streams sy) (keyFor workspace session) = ring_of capacity (sy_sent sy) \<and>
     tail_covers C capacity (streamKey sha256 workspace session) (sy_tail sy) (sy_sent sy) \<and>
     (fs_owner (stateFor (streamKey sha256 workspace session) (sy_tail sy)) = None \<or>
      fs_owner (stateFor (streamKey sha256 workspace session) (sy_tail sy)) = Some (sy_owner sy))"

lemma flushSync_other:
  "k \<noteq> key \<Longrightarrow> stateFor key (flushSync cfg k d) = stateFor key d"
  "k \<noteq> key \<Longrightarrow> readTail key (flushSync cfg k d) = readTail key d"
  by (auto simp: flushSync_def Let_def split: option.splits)

lemma suffix_slice_last: "suffix (slice_last n xs) xs"
  using slice_last_suffix[of xs n] by (auto simp: suffix_def)

lemma slice_last_suffix_eq: "suffix ys xs \<Longrightarrow> 0 < n \<Longrightarrow> min n (length xs) \<le> length ys \<Longrightarrow> slice_last n ys = slice_last n xs"
  by (auto simp: suffix_def slice_last_def min_def split: if_splits)

lemma flush_covers:
  assumes "tail_covers C capacity key d sent" "0 < capacity" "capacity \<le> tc_keep cfg"
  shows "tail_covers C capacity key (flushSync cfg k d) sent"
    and "fs_owner (stateFor key (flushSync cfg k d)) = fs_owner (stateFor key d)"
    and "fs_pending (stateFor key d) = [] \<Longrightarrow> fs_pending (stateFor key (flushSync cfg k d)) = []"
    and "k = key \<Longrightarrow> fs_pending (stateFor key (flushSync cfg k d)) = []"
proof -
  have ok: "file_ok key d" and sf: "suffix (tail_lines key d) (map (cd_print C) sent)"
    and len: "min capacity (length sent) \<le> length (tail_lines key d)"
    using assms(1) by (simp_all add: tail_covers_def)
  have all: "tail_covers C capacity key (flushSync cfg k d) sent \<and>
      fs_owner (stateFor key (flushSync cfg k d)) = fs_owner (stateFor key d) \<and>
      (k = key \<longrightarrow> fs_pending (stateFor key (flushSync cfg k d)) = []) \<and>
      (k \<noteq> key \<longrightarrow> fs_pending (stateFor key (flushSync cfg k d)) = fs_pending (stateFor key d))"
  proof (cases "k = key")
    case True
    note f = flushSync_lines[OF ok, of cfg]
    have "suffix (tail_lines key (flushSync cfg key d)) (map (cd_print C) sent)"
      using f(1) sf suffix_slice_last suffix_order.trans by metis
    moreover have "min capacity (length sent) \<le> length (tail_lines key (flushSync cfg key d))"
      using f(1) len assms(2,3) length_slice_last[of "tc_keep cfg" "tail_lines key d"] by auto
    ultimately show ?thesis using f(2-4) True by (simp add: tail_covers_def)
  next
    case False
    then show ?thesis
      using assms(1) by (simp add: tail_covers_def file_ok_def tail_lines_def flushSync_other)
  qed
  then show "tail_covers C capacity key (flushSync cfg k d) sent"
    "fs_owner (stateFor key (flushSync cfg k d)) = fs_owner (stateFor key d)"
    "fs_pending (stateFor key d) = [] \<Longrightarrow> fs_pending (stateFor key (flushSync cfg k d)) = []"
    "k = key \<Longrightarrow> fs_pending (stateFor key (flushSync cfg k d)) = []"
    by (cases "k = key"; simp)+
qed

lemma flush_all_covers:
  assumes "tail_covers C capacity key d sent" "0 < capacity" "capacity \<le> tc_keep cfg"
  shows "tail_covers C capacity key (foldl (\<lambda>s k. flushSync cfg k s) d ks) sent \<and>
    (key \<in> set ks \<or> fs_pending (stateFor key d) = [] \<longrightarrow>
       fs_pending (stateFor key (foldl (\<lambda>s k. flushSync cfg k s) d ks)) = [])"
  using assms(1)
proof (induction ks arbitrary: d)
  case (Cons k ks)
  show ?case
    using Cons.IH[OF flush_covers(1)[OF Cons.prems assms(2,3), of k]]
      flush_covers(3,4)[OF Cons.prems assms(2,3), of k] by auto
qed simp

lemma drained_tail:
  assumes "tail_covers C capacity key d sent" "0 < capacity" "capacity \<le> tc_keep cfg"
  shows "suffix (completeLines (readTail key (tail_flush cfg d))) (map (cd_print C) sent)"
    and "min capacity (length sent) \<le> length (completeLines (readTail key (tail_flush cfg d)))"
proof -
  have "key \<in> set (map fst (tg_files d)) \<or> fs_pending (stateFor key d) = []"
    by (cases "jm_get (tg_files d) key")
      (force simp: stateFor_def new_file_def jm_get_def dest: map_of_SomeD)+
  then have "tail_covers C capacity key (tail_flush cfg d) sent \<and> fs_pending (stateFor key (tail_flush cfg d)) = []"
    unfolding tail_flush_def using flush_all_covers[OF assms] by blast
  then show "suffix (completeLines (readTail key (tail_flush cfg d))) (map (cd_print C) sent)"
    and "min capacity (length sent) \<le> length (completeLines (readTail key (tail_flush cfg d)))"
    by (auto simp: tail_covers_def tail_lines_def)
qed

lemma parse_printed:
  "codec_ok C \<Longrightarrow> \<forall>e \<in> set es. pu_seq e \<noteq> None \<Longrightarrow> parse_lines C (map (cd_print C) es) = es"
  by (induction es) (auto simp: parse_lines_def codec_ok_def)

lemma suffix_map: "suffix ls (map f xs) \<Longrightarrow> \<exists>ys. suffix ys xs \<and> ls = map f ys"
  by (metis append_eq_map_conv suffix_def)

text \<open>Reading the tail back in a new process.\<close>

lemma loadTail_fresh:
  fixes disk :: "(string, string) js_map"
  assumes "d = \<lparr>tg_files = [], tg_warned = [], tg_disk = disk\<rparr>" "key = streamKey sha256 workspace session"
    and "loadTail C cfg sha256 workspace session limit owner d = (frames, d')"
  shows "frames = slice_last limit (parse_lines C (completeLines (readTail key d)))"
    and "tail_lines key d' = completeLines (readTail key d)" "file_ok key d'"
    and "fs_owner (stateFor key d') = Some owner"
proof -
  let ?d1 = "set_file key (new_file\<lparr>fs_owner := Some owner\<rparr>) d"
  have st: "stateFor key d = new_file" using assms(1) by (simp add: stateFor_def)
  have c: "claim key owner d = (True, ?d1)"
    by (simp add: claim_def Let_def st) (simp add: new_file_def)
  have s1: "stateFor key ?d1 = new_file\<lparr>fs_owner := Some owner\<rparr>" by simp
  have f: "flushSync cfg key ?d1 = ?d1"
    by (simp add: flushSync_def set_file_def new_file_def)
  have disk: "tg_disk ?d1 = tg_disk d" by (simp add: set_file_def)
  have all: "frames = slice_last limit (parse_lines C (completeLines (readTail key d))) \<and>
      tail_lines key d' = completeLines (readTail key d) \<and> file_ok key d' \<and> fs_owner (stateFor key d') = Some owner"
  proof (cases "jm_get (tg_disk d) key")
    case None
    then have "frames = [] \<and> d' = set_file key ((new_file\<lparr>fs_owner := Some owner\<rparr>)\<lparr>fs_missing := True\<rparr>) ?d1"
      using assms(3) unfolding loadTail_def Let_def assms(2)[symmetric] c case_prod_conv f disk s1
      by (simp add: new_file_def)
    moreover have "readTail key d = []" using None by (simp add: readTail_def)
    ultimately show "frames = slice_last limit (parse_lines C (completeLines (readTail key d))) \<and>
      tail_lines key d' = completeLines (readTail key d) \<and> file_ok key d' \<and> fs_owner (stateFor key d') = Some owner"
      by (simp add: tail_lines_def file_ok_def new_file_def parse_lines_def slice_last_def)
  next
    case (Some raw)
    have r: "readTail key d = raw" using Some by (simp add: readTail_def)
    let ?c = "if endsWith raw [nl] then raw else complete_part raw"
    have cl: "filter (\<lambda>l. l \<noteq> []) (split_char nl ?c) = completeLines raw" if "raw \<noteq> []"
      using that complete_part_whole[of raw] whole_torn[of raw] by (auto simp: completeLines_def torn_text_def)
    have w: "raw \<noteq> [] \<Longrightarrow> completeLines ?c = completeLines raw"
      using completeLines_complete by simp
    show "frames = slice_last limit (parse_lines C (completeLines (readTail key d))) \<and>
      tail_lines key d' = completeLines (readTail key d) \<and> file_ok key d' \<and> fs_owner (stateFor key d') = Some owner"
    proof (cases "raw = []")
      case True
      then have "frames = [] \<and> d' = ?d1"
        using assms(3) Some unfolding loadTail_def Let_def assms(2)[symmetric] c case_prod_conv f disk s1
        by (simp add: new_file_def)
      then show ?thesis
        by (simp add: r True tail_lines_def file_ok_def new_file_def parse_lines_def slice_last_def)
    next
      case False
      then have "frames = slice_last limit (parse_lines C (completeLines raw)) \<and>
          d' = (if ?c = raw then ?d1 else set_file key ((stateFor key ?d1)\<lparr>fs_disk := None\<rparr>)
             (?d1\<lparr>tg_disk := jm_set (tg_disk ?d1) key ?c\<rparr>))"
        using assms(3) Some cl[OF False]
        unfolding loadTail_def Let_def assms(2)[symmetric] c case_prod_conv f disk s1
        by (simp add: new_file_def)
      then show ?thesis
        using w[OF False] by (auto simp: r tail_lines_def file_ok_def new_file_def)
    qed
  qed
  then show "frames = slice_last limit (parse_lines C (completeLines (readTail key d)))"
    "tail_lines key d' = completeLines (readTail key d)" "file_ok key d'"
    "fs_owner (stateFor key d') = Some owner"
    by blast+
qed

lemma keyed_ring: "jm_get (jm_set ss k v) k = Some v"
  by simp

lemma numbered_seq: "numbered n es \<Longrightarrow> e \<in> set es \<Longrightarrow> pu_seq e \<noteq> None"
  using numbered_ge by fastforce

lemma restart_inv:
  assumes inv: "log_inv C sha256 capacity workspace session sy" and cap: "0 < capacity" "capacity \<le> tc_keep cfg"
    and C: "codec_ok C"
  shows "log_inv C sha256 capacity workspace session (system_restart C cfg sha256 capacity workspace session owner sy)"
proof -
  let ?key = "streamKey sha256 workspace session"
  define d where "d = \<lparr>tg_files = [], tg_warned = [], tg_disk = tg_disk (tail_flush cfg (sy_tail sy))\<rparr>"
  obtain frames d' where l: "loadTail C cfg sha256 workspace session capacity owner d = (frames, d')"
    by (cases "loadTail C cfg sha256 workspace session capacity owner d") auto
  have rt: "readTail ?key d = readTail ?key (tail_flush cfg (sy_tail sy))" by (simp add: readTail_def d_def)
  have num: "numbered 1 (sy_sent sy)" and tc: "tail_covers C capacity ?key (sy_tail sy) (sy_sent sy)"
    and own: "list_all (of_stream workspace session) (sy_sent sy)"
    using inv by (simp_all add: log_inv_def)
  have sf: "suffix (completeLines (readTail ?key d)) (map (cd_print C) (sy_sent sy))"
    and len: "min capacity (length (sy_sent sy)) \<le> length (completeLines (readTail ?key d))"
    using drained_tail[OF tc cap] unfolding rt by blast+
  obtain ys where ys: "suffix ys (sy_sent sy)" "completeLines (readTail ?key d) = map (cd_print C) ys"
    using suffix_map[OF sf] by blast
  have "\<forall>e \<in> set ys. pu_seq e \<noteq> None"
    using numbered_seq[OF num] ys(1) by (auto simp: suffix_def)
  then have "parse_lines C (completeLines (readTail ?key d)) = ys" using parse_printed[OF C] ys(2) by simp
  then have fr: "frames = slice_last capacity (sy_sent sy)"
    using loadTail_fresh(1)[OF d_def refl l] slice_last_suffix_eq[OF ys(1) cap(1)] len ys(2) by simp
  have tl: "tail_covers C capacity ?key d' (sy_sent sy)"
    using loadTail_fresh(2,3)[OF d_def refl l] sf len by (simp add: tail_covers_def)
  have h: "hydrate C cfg sha256 capacity owner workspace session ([], Some d) =
      (case ring_of capacity (sy_sent sy) of None \<Rightarrow> [] | Some st \<Rightarrow> jm_set [] (keyFor workspace session) st, Some d')"
  proof (cases "sy_sent sy = []")
    case True
    then have "frames = []" using fr by (simp add: slice_last_def)
    then show ?thesis using True by (simp add: hydrate_def l Let_def ring_of_def)
  next
    case False
    then have "frames \<noteq> []" using fr by (simp add: slice_last_Nil_iff)
    moreover have "last frames = last (sy_sent sy)"
      using False calculation fr slice_last_suffix[of "sy_sent sy" capacity] by (metis last_appendR)
    moreover have "pu_seq (last (sy_sent sy)) = Some (int (length (sy_sent sy)))"
      using numbered_last[OF num False] by simp
    ultimately show ?thesis using False fr by (simp add: hydrate_def l Let_def ring_of_def add.commute)
  qed
  have n: "new_process (flushDurable cfg (sy_owner sy) (sy_streams sy, Some (sy_tail sy))) = ([], Some d)"
    by (simp add: new_process_def flushDurable_def releaseOwner_def d_def)
  have "system_restart C cfg sha256 capacity workspace session owner sy = sy\<lparr>sy_streams :=
      (case ring_of capacity (sy_sent sy) of None \<Rightarrow> [] | Some st \<Rightarrow> jm_set [] (keyFor workspace session) st),
      sy_tail := d', sy_owner := owner\<rparr>"
    by (simp add: system_restart_def n h)
  then show ?thesis
    using num own tl loadTail_fresh(4)[OF d_def refl l] by (simp add: log_inv_def jm_get_def split: option.splits)
qed


lemma slice_last_snoc:
  assumes "0 < n"
  shows "slice_last n (xs @ [x]) =
    (if n < Suc (length (slice_last n xs)) then tl (slice_last n xs @ [x]) else slice_last n xs @ [x])"
proof (cases "n \<le> length xs")
  case True
  then have "slice_last n xs \<noteq> []" using assms by (auto simp: slice_last_Nil_iff)
  moreover have "slice_last n (xs @ [x]) = tl (slice_last n xs) @ [x]"
    using True assms by (simp add: slice_last_def Suc_diff_le tl_drop drop_Suc)
  moreover have "length (slice_last n xs) = n" using True length_slice_last[OF assms, of xs] by simp
  ultimately show ?thesis by (simp add: tl_append2)
next
  case False
  then show ?thesis using assms by (simp add: slice_last_def)
qed

lemma ring_of_push:
  assumes "0 < capacity" "sent' = sent @ [create (1 + int (length sent))]"
  shows "Some (snd (stream_append capacity create (or_else (ring_of capacity sent) new_stream))) = ring_of capacity sent'"
    and "fst (stream_append capacity create (or_else (ring_of capacity sent) new_stream)) = create (1 + int (length sent))"
proof -
  have r: "or_else (ring_of capacity sent) new_stream = \<lparr>st_nextSeq = 1 + int (length sent), st_events = slice_last capacity sent\<rparr>"
    by (simp add: ring_of_def new_stream_def slice_last_def)
  show "Some (snd (stream_append capacity create (or_else (ring_of capacity sent) new_stream))) = ring_of capacity sent'"
    "fst (stream_append capacity create (or_else (ring_of capacity sent) new_stream)) = create (1 + int (length sent))"
    unfolding r
    by (simp_all add: slice_last_snoc[OF assms(1), of sent] assms(2) ring_of_def stream_append_def Let_def)
qed

lemma append_inv:
  assumes inv: "log_inv C sha256 capacity workspace session sy" and cap: "0 < capacity"
    and C: "codec_ok C" and fr: "stream_frame workspace session create" and ne: "session \<noteq> []"
  shows "log_inv C sha256 capacity workspace session (system_append C sha256 capacity workspace session create sy)"
proof -
  let ?key = "streamKey sha256 workspace session" let ?sent = "sy_sent sy"
  let ?e = "create (1 + int (length ?sent))"
  let ?d = "scheduleAppend C sha256 ?e (sy_owner sy) (sy_tail sy)"
  have e: "pu_seq ?e = Some (1 + int (length ?sent))" "pu_workspace ?e = workspace" "pu_session ?e = Some session"
    using fr by (simp_all add: stream_frame_def)
  have tc: "tail_covers C capacity ?key (sy_tail sy) ?sent"
    and ow: "fs_owner (stateFor ?key (sy_tail sy)) = None \<or> fs_owner (stateFor ?key (sy_tail sy)) = Some (sy_owner sy)"
    using inv by (simp_all add: log_inv_def)
  have g: "getStream workspace session (sy_streams sy) = or_else (ring_of capacity ?sent) new_stream"
    using inv by (simp add: getStream_def log_inv_def)
  have line: "line_ok (cd_print C ?e)" using C e(1) by (simp add: codec_ok_def)
  have f: "file_ok ?key (sy_tail sy)" using tc by (simp add: tail_covers_def)
  have key: "?key = streamKey sha256 (pu_workspace ?e) session" using e by simp
  note sl = scheduleAppend_lines[OF e(3) ne key ow f line]
  have a: "system_append C sha256 capacity workspace session create sy =
      sy\<lparr>sy_streams := jm_set (sy_streams sy) (keyFor workspace session)
          (snd (stream_append capacity create (or_else (ring_of capacity ?sent) new_stream))),
        sy_tail := ?d, sy_sent := ?sent @ [?e]\<rparr>"
    using ring_of_push(2)[OF cap refl, of create ?sent]
    by (simp add: system_append_def log_append_def ring_append_def g case_prod_beta Let_def)
  have cov: "tail_covers C capacity ?key ?d (?sent @ [?e])"
    using tc sl(1,2) by (simp add: tail_covers_def suffix_def) linarith
  show ?thesis
    using inv cov sl(3) e ring_of_push(1)[OF cap refl, of create ?sent]
    by (simp add: a log_inv_def of_stream_def)
qed

lemma timer_inv:
  assumes inv: "log_inv C sha256 capacity workspace session sy" and cap: "0 < capacity" "capacity \<le> tc_keep cfg"
  shows "log_inv C sha256 capacity workspace session (sy\<lparr>sy_tail := flush_timer cfg k (sy_tail sy)\<rparr>)"
proof -
  let ?key = "streamKey sha256 workspace session"
  let ?d = "set_file k ((stateFor k (sy_tail sy))\<lparr>fs_timer := False\<rparr>) (sy_tail sy)"
  have "tail_covers C capacity ?key ?d (sy_sent sy)"
    using inv by (cases "k = ?key") (simp_all add: log_inv_def tail_covers_def tail_lines_def file_ok_def)
  then show ?thesis
    using inv flush_covers(1,2)[OF _ cap, of C ?key ?d "sy_sent sy" k]
    by (cases "k = ?key") (simp_all add: log_inv_def flush_timer_def)
qed

interpretation pushlog: transition_invariant "log_step C cfg sha256 capacity workspace session" new_system
  "\<lambda>sy. 0 < capacity \<and> capacity \<le> tc_keep cfg \<and> codec_ok C \<and> session \<noteq> [] \<longrightarrow>
     log_inv C sha256 capacity workspace session sy"
proof
  show "0 < capacity \<and> capacity \<le> tc_keep cfg \<and> codec_ok C \<and> session \<noteq> [] \<longrightarrow>
     log_inv C sha256 capacity workspace session new_system"
    by (simp add: log_inv_def new_system_def ring_of_def tail_covers_def tail_lines_def file_ok_def
        stateFor_def new_file_def readTail_def)
  show "0 < capacity \<and> capacity \<le> tc_keep cfg \<and> codec_ok C \<and> session \<noteq> [] \<longrightarrow>
      log_inv C sha256 capacity workspace session t"
    if "log_step C cfg sha256 capacity workspace session s t"
      "0 < capacity \<and> capacity \<le> tc_keep cfg \<and> codec_ok C \<and> session \<noteq> [] \<longrightarrow>
         log_inv C sha256 capacity workspace session s" for s t
    using that by (cases rule: log_step.cases) (blast intro: append_inv timer_inv restart_inv)+
qed

subsection \<open>Crashes\<close>

lemma flush_failed_pending: "fs_pending (stateFor key (flush_failed cfg k key d)) = []"
  by (auto simp: flush_failed_def Let_def stateFor_def new_file_def set_file_def split: option.splits)

text \<open>What a failed write leaves of the tail, by the positions of the pushes it holds.\<close>

lemma crash_lines:
  assumes "tail_covers C capacity key d sent"
  shows "\<exists>i j. completeLines (readTail key (flush_failed cfg k key d)) = map (cd_print C) (drop i (take j sent)) \<and>
    i \<le> length sent - capacity \<and> i \<le> j \<and> j \<le> length sent \<and> length sent \<le> j + length (fs_pending (stateFor key d))"
proof -
  let ?ls = "completeLines (readTail key (flush_failed cfg k key d))"
  have f: "file_ok key d" using assms by (simp add: tail_covers_def)
  have p: "prefix ?ls (tail_lines key d)" "prefix (completeLines (readTail key d)) ?ls"
    using flush_failed_lines[OF f, of cfg k] by (simp_all add: tail_lines_def flush_failed_pending)
  obtain ws where ws: "suffix ws sent" "tail_lines key d = map (cd_print C) ws"
    using assms suffix_map unfolding tail_covers_def by blast
  define i j where "i = length sent - length ws" and "j = i + length ?ls"
  have lw: "length ws = length (completeLines (readTail key d)) + length (fs_pending (stateFor key d))"
    using arg_cong[OF ws(2), of length] by (simp add: tail_lines_def)
  have len: "length ?ls \<le> length ws" "length (completeLines (readTail key d)) \<le> length ?ls"
    "min capacity (length sent) \<le> length ws" "length ws \<le> length sent"
    using prefix_length_le[OF p(1)] prefix_length_le[OF p(2)] ws(2) assms suffix_length_le[OF ws(1)]
    by (simp_all add: tail_covers_def)
  have "ws = drop i sent" using ws(1) by (auto simp: i_def suffix_def)
  moreover have "?ls = take (length ?ls) (map (cd_print C) ws)"
    using p(1) ws(2) by (metis append_eq_conv_conj prefix_def)
  ultimately have "?ls = map (cd_print C) (drop i (take j sent))"
    by (simp add: j_def take_map take_drop add.commute)
  then show ?thesis using len lw by (intro exI[of _ i] exI[of _ j]) (auto simp: i_def j_def)
qed

lemma numbered_part: "numbered 1 sent \<Longrightarrow> j \<le> length sent \<Longrightarrow> i < j \<Longrightarrow> pu_seq (last (drop i (take j sent))) = Some (int j)"
  using numbered_last[of 1 "take j sent"] numbered_append[of 1 "take j sent" "drop j sent"]
  by (cases "take j sent = []") auto

lemma crash_ring:
  assumes inv: "log_inv C sha256 capacity workspace session sy" and C: "codec_ok C"
  shows "\<exists>i j. i \<le> length (sy_sent sy) - capacity \<and> i \<le> j \<and> j \<le> length (sy_sent sy) \<and>
    length (sy_sent sy) \<le> j + length (fs_pending (stateFor (streamKey sha256 workspace session) (sy_tail sy))) \<and>
    jm_get (sy_streams (system_crash C cfg sha256 capacity workspace session k owner sy)) (keyFor workspace session) =
      (if i = j then None
       else Some \<lparr>st_nextSeq = int j + 1, st_events = slice_last capacity (drop i (take j (sy_sent sy)))\<rparr>)"
proof -
  let ?key = "streamKey sha256 workspace session" let ?sent = "sy_sent sy"
  define d0 where "d0 = flush_failed cfg k ?key (sy_tail sy)"
  define d where "d = \<lparr>tg_files = [], tg_warned = [], tg_disk = tg_disk d0\<rparr>"
  obtain frames d' where l: "loadTail C cfg sha256 workspace session capacity owner d = (frames, d')"
    by (cases "loadTail C cfg sha256 workspace session capacity owner d") auto
  have num: "numbered 1 ?sent" and tc: "tail_covers C capacity ?key (sy_tail sy) ?sent"
    using inv by (simp_all add: log_inv_def)
  obtain i j where ij: "completeLines (readTail ?key d0) = map (cd_print C) (drop i (take j ?sent))"
    "i \<le> length ?sent - capacity" "i \<le> j" "j \<le> length ?sent" "length ?sent \<le> j + length (fs_pending (stateFor ?key (sy_tail sy)))"
    using crash_lines[OF tc, of cfg k] unfolding d0_def by blast
  have "\<forall>e \<in> set (drop i (take j ?sent)). pu_seq e \<noteq> None"
    using numbered_seq[OF num] by (auto dest: in_set_dropD in_set_takeD)
  moreover have "readTail ?key d = readTail ?key d0" by (simp add: d_def readTail_def)
  ultimately have fr: "frames = slice_last capacity (drop i (take j ?sent))"
    using loadTail_fresh(1)[OF d_def refl l] parse_printed[OF C] ij(1) by simp
  have n: "new_process (sy_streams sy, Some d0) = ([], Some d)" by (simp add: new_process_def d_def)
  have sc: "sy_streams (system_crash C cfg sha256 capacity workspace session k owner sy) =
      fst (hydrate C cfg sha256 capacity owner workspace session ([], Some d))"
    by (simp add: system_crash_def d0_def[symmetric] n case_prod_beta)
  have "jm_get (fst (hydrate C cfg sha256 capacity owner workspace session ([], Some d))) (keyFor workspace session) =
      (if i = j then None else Some \<lparr>st_nextSeq = int j + 1, st_events = frames\<rparr>)"
  proof (cases "i = j")
    case True
    then have "frames = []" using fr ij(4) by (simp add: slice_last_def)
    then show ?thesis using True by (simp add: hydrate_def l)
  next
    case False
    then have ne: "drop i (take j ?sent) \<noteq> []" using ij(3,4) by simp
    then have "frames \<noteq> []" using fr by (simp add: slice_last_Nil_iff)
    moreover have "last frames = last (drop i (take j ?sent))"
      using calculation fr slice_last_suffix[of "drop i (take j ?sent)" capacity] by (metis last_appendR)
    ultimately show ?thesis
      using False ij(3,4) numbered_part[OF num ij(4), of i] by (simp add: hydrate_def l jm_get_def)
  qed
  then show ?thesis
    unfolding sc using ij(2-5) by (intro exI[of _ i] exI[of _ j]) (simp only: fr)
qed

subsection \<open>A codec\<close>

text \<open>One concrete way to write a frame on a line, to run the log on.\<close>

definition text_field :: "string option \<Rightarrow> string" where
  "text_field v = (case v of None \<Rightarrow> ''-'' | Some s \<Rightarrow> CHR ''*'' # encodeURIComponent s)"

definition int_field :: "int \<Rightarrow> string" where
  "int_field n = (if n < 0 then CHR ''-'' else CHR ''*'') # replicate (nat \<bar>n\<bar>) CHR ''1''"

definition field_text :: "string \<Rightarrow> string option option" where
  "field_text t = (if t = ''-'' then Some None else map_option Some (decodeURIComponent (tl t)))"

definition field_int :: "string \<Rightarrow> int" where
  "field_int t = (if hd t = CHR ''-'' then - int (length (tl t)) else int (length (tl t)))"

definition line_codec :: push_codec where
  "line_codec = \<lparr>
     cd_print = (\<lambda>e. join ''|'' [text_field (Some (pu_id e)), text_field (Some (pu_method e)),
       text_field (Some (pu_workspace e)), text_field (pu_session e), int_field (or_else (pu_seq e) 0),
       text_field (pu_sessionKind e), text_field (Some (pu_params e))]),
     cd_parse = (\<lambda>l. case split_char CHR ''|'' l of
       [a, b, c, d, n, g, h] \<Rightarrow>
         (case (field_text a, field_text b, field_text c, field_text d, field_text g, field_text h) of
            (Some (Some i), Some (Some m), Some (Some w), Some s, Some kd, Some (Some ps)) \<Rightarrow>
              Some \<lparr>pu_id = i, pu_method = m, pu_workspace = w, pu_session = s, pu_seq = Some (field_int n),
                pu_sessionKind = kd, pu_params = ps\<rparr>
          | _ \<Rightarrow> None)
     | _ \<Rightarrow> None)\<rparr>"

lemma hex_char_unreserved: "n < 16 \<Longrightarrow> uri_unreserved (hex_char n)"
proof -
  assume "n < 16"
  then have "n \<in> set [0..<16]" by simp
  moreover have "list_all (\<lambda>n. uri_unreserved (hex_char n)) [0..<16]" by code_simp
  ultimately show ?thesis unfolding list_all_iff by blast
qed

lemma encode_alphabet: "x \<in> set (encodeURIComponent s) \<Longrightarrow> uri_unreserved x \<or> x = CHR ''%''"
proof -
  have b: "uri_unreserved x \<or> x = CHR ''%''" if "x \<in> set (percent_byte n)" "n < 256" for n
    using that hex_char_unreserved[of "n div 16"] hex_char_unreserved[of "n mod 16"]
    by (auto simp: percent_byte_def less_mult_imp_div_less)
  assume "x \<in> set (encodeURIComponent s)"
  then obtain c where "x \<in> set (encode_char c)" by (auto simp: encodeURIComponent_def)
  then show ?thesis
    using b utf8_bytes_bounds[OF code_unit_less] by (auto simp: encode_char_def split: if_splits)
qed

lemma field_alphabet:
  assumes "x \<in> set (text_field v) \<or> x \<in> set (int_field n)"
  shows "x \<noteq> CHR ''|'' \<and> x \<noteq> nl"
proof -
  have "\<not> uri_unreserved CHR ''|''" "\<not> uri_unreserved nl" by code_simp+
  then show ?thesis
    using assms encode_alphabet by (auto simp: text_field_def int_field_def split: option.splits if_splits)
qed

lemma field_round_trip: "field_text (text_field v) = Some v" "field_int (int_field n) = n"
  by (auto simp: field_text_def text_field_def field_int_def int_field_def split: option.splits)

lemma join_chars: "x \<in> set (join sep ws) \<Longrightarrow> x \<in> set sep \<or> (\<exists>w \<in> set ws. x \<in> set w)"
  by (induction sep ws rule: join.induct) auto

lemma line_codec_ok: "codec_ok line_codec"
proof -
  have "cd_parse line_codec (cd_print line_codec e) = Some e \<and> line_ok (cd_print line_codec e)"
    if n: "pu_seq e = Some n" for e n
  proof -
    let ?ws = "[text_field (Some (pu_id e)), text_field (Some (pu_method e)), text_field (Some (pu_workspace e)),
      text_field (pu_session e), int_field n, text_field (pu_sessionKind e), text_field (Some (pu_params e))]"
    have ch: "\<forall>w \<in> set ?ws. CHR ''|'' \<notin> set w \<and> nl \<notin> set w" using field_alphabet by auto
    have sp: "split_char CHR ''|'' (join ''|'' ?ws) = ?ws" using ch by (intro split_join) auto
    have pr: "cd_print line_codec e = join ''|'' ?ws" by (simp only: line_codec_def push_codec.simps n or_else_simps)
    have pa: "cd_parse line_codec (join ''|'' ?ws) = Some e"
      unfolding line_codec_def push_codec.simps sp by (simp add: field_round_trip n[symmetric])
    have "nl \<notin> set (join ''|'' ?ws)" using join_chars[of nl "''|''" ?ws] ch by auto
    moreover have "join ''|'' ?ws \<noteq> []" using sp by (metis list.distinct(1) list.inject split_by.simps(1))
    ultimately show ?thesis using pa unfolding pr line_ok_def by blast
  qed
  then show ?thesis by (auto simp: codec_ok_def)
qed

section \<open>Properties\<close>

text \<open>C11: The rings, the buffered batches and the files together are the list of everything pushed:
  after any sequence of pushes, timer flushes and graceful restarts the pushes of a stream are
  numbered from 1 without a gap or a repetition, and a replay from any cursor answers as if all of
  them had been kept and the last \<open>capacity\<close> could be replayed. Restarts cannot be observed.\<close>

theorem replay_refines_log:
  assumes "(log_step C cfg sha256 capacity workspace session)\<^sup>*\<^sup>* new_system sy"
    and "0 < capacity" "capacity \<le> tc_keep cfg" "codec_ok C" "session \<noteq> []"
  shows "numbered 1 (sy_sent sy) \<and>
    replay workspace session a (sy_streams sy) = spec_replay capacity (sy_sent sy) a"
proof -
  have "log_inv C sha256 capacity workspace session sy"
    using pushlog.I_reachable[OF assms(1)] assms(2-5) by blast
  then show ?thesis using ring_replay[OF _ assms(2)] by (simp add: log_inv_def replay_def)
qed


definition demo_frame :: "int \<Rightarrow> push" where
  "demo_frame n = makePushFrame ''p'' ''chat'' ''w'' (Some ''s'') (Some n) None ''{}''"

definition demo_run :: "log_system" where
  "demo_run = system_append line_codec (\<lambda>w. w) 2 ''w'' ''s'' demo_frame
     (system_restart line_codec \<lparr>tc_maxFileBytes = 100, tc_keep = 2\<rparr> (\<lambda>w. w) 2 ''w'' ''s'' 7
       (system_append line_codec (\<lambda>w. w) 2 ''w'' ''s'' demo_frame
         (system_append line_codec (\<lambda>w. w) 2 ''w'' ''s'' demo_frame new_system)))"

lemma demo_frame_ok: "stream_frame ''w'' ''s'' demo_frame"
  by (simp add: stream_frame_def demo_frame_def makePushFrame_def)

lemma demo_reachable: "(log_step line_codec \<lparr>tc_maxFileBytes = 100, tc_keep = 2\<rparr> (\<lambda>w. w) 2 ''w'' ''s'')\<^sup>*\<^sup>* new_system demo_run"
proof -
  let ?S = "log_step line_codec \<lparr>tc_maxFileBytes = 100, tc_keep = 2\<rparr> (\<lambda>w. w) 2 ''w'' ''s''"
  have push: "?S\<^sup>*\<^sup>* new_system (system_append line_codec (\<lambda>w. w) 2 ''w'' ''s'' demo_frame sy)"
    and restart: "?S\<^sup>*\<^sup>* new_system
      (system_restart line_codec \<lparr>tc_maxFileBytes = 100, tc_keep = 2\<rparr> (\<lambda>w. w) 2 ''w'' ''s'' 7 sy)"
    if "?S\<^sup>*\<^sup>* new_system sy" for sy
    using rtranclp.rtrancl_into_rtrancl[of ?S, OF that log_push[OF demo_frame_ok]]
      rtranclp.rtrancl_into_rtrancl[of ?S, OF that log_restart] by blast+
  show ?thesis
    unfolding demo_run_def by (rule push, rule restart, rule push, rule push, rule rtranclp.rtrancl_refl)
qed

theorem replay_refines_log_witness:
  "replay ''w'' ''s'' 1 (sy_streams demo_run) = spec_replay 2 (sy_sent demo_run) 1 \<and>
   map pu_seq (rp_events (spec_replay 2 (sy_sent demo_run) 1)) = [Some 2, Some 3]"
proof -
  have "map pu_seq (rp_events (spec_replay 2 (sy_sent demo_run) 1)) = [Some 2, Some 3]" by code_simp
  then show ?thesis using replay_refines_log[OF demo_reachable _ _ line_codec_ok] by simp
qed

text \<open>A crash loses at most the frames that were still buffered. Whatever part of the last
  write reached the file, the next process starts from a run of consecutive pushes that ends at some
  number \<open>j\<close>, with every push older than the buffered ones counted in and nothing in it that was
  not sent; the numbering goes on at \<open>j + 1\<close>.\<close>

theorem crash_loses_only_buffered:
  assumes "(log_step C cfg sha256 capacity workspace session)\<^sup>*\<^sup>* new_system sy"
    and "0 < capacity" "capacity \<le> tc_keep cfg" "codec_ok C" "session \<noteq> []"
  shows "\<exists>i j. i \<le> length (sy_sent sy) - capacity \<and> i \<le> j \<and> j \<le> length (sy_sent sy) \<and>
    length (sy_sent sy) \<le> j + length (fs_pending (stateFor (streamKey sha256 workspace session) (sy_tail sy))) \<and>
    jm_get (sy_streams (system_crash C cfg sha256 capacity workspace session k owner sy)) (keyFor workspace session) =
      (if i = j then None
       else Some \<lparr>st_nextSeq = int j + 1, st_events = slice_last capacity (drop i (take j (sy_sent sy)))\<rparr>)"
  using crash_ring pushlog.I_reachable[OF assms(1)] assms(2-5) by blast

theorem crash_loses_only_buffered_witness:
  "\<exists>i j. i \<le> 1 \<and> i \<le> j \<and> j \<le> 3 \<and> 3 \<le> j + (1::nat) \<and>
    jm_get (sy_streams (system_crash line_codec \<lparr>tc_maxFileBytes = 100, tc_keep = 2\<rparr> (\<lambda>w. w) 2 ''w'' ''s'' 4 8 demo_run))
      (keyFor ''w'' ''s'') =
      (if i = j then None else Some \<lparr>st_nextSeq = int j + 1, st_events = slice_last 2 (drop i (take j (sy_sent demo_run)))\<rparr>)"
proof -
  have "length (sy_sent demo_run) = 3" by code_simp
  moreover have "length (fs_pending (stateFor (streamKey (\<lambda>w. w) ''w'' ''s'') (sy_tail demo_run))) = 1" by code_simp
  ultimately show ?thesis
    using crash_loses_only_buffered[OF demo_reachable _ _ line_codec_ok, of 4 8] by simp
qed

text \<open>The number of a lost push is used again, and a client that has seen the lost push is told that
  it is up to date while the new one waits.\<close>

lemma crash_reuses_number:
  "let sy = system_append line_codec (\<lambda>w. w) 2 ''w'' ''s'' demo_frame
         (system_crash line_codec \<lparr>tc_maxFileBytes = 100, tc_keep = 2\<rparr> (\<lambda>w. w) 2 ''w'' ''s'' 0 8 demo_run);
       answer = replay ''w'' ''s'' 3 (sy_streams sy)
   in map pu_seq (sy_sent sy) = [Some 1, Some 2, Some 3, Some 3] \<and> rp_events answer = [] \<and>
      \<not> rp_resetRequired answer"
  by code_simp

text \<open>A session that is deleted and created again starts from 1 again.\<close>

lemma cleared_session_restarts:
  "fst (log_append line_codec (\<lambda>w. w) 2 0 ''w'' ''s'' demo_frame
     (clearSession (\<lambda>w. w) ''w'' ''s'' (sy_streams demo_run, Some (sy_tail demo_run)))) = demo_frame 1"
  by code_simp

end
