(* ===== verification/PushClient.thy ===== *)
theory PushClient
  imports PushTail
begin

text \<open>
  The receiving end of session pushes in the desktop client:
  \<open>clients/taco-desktop/src/lib/sessionCursor.ts\<close> and \<open>sessionPushProcessor.ts\<close>. The caller runs
  one \<open>process\<close> at a time. The server, the snapshot loader and the clock are a parameter, asked by
  the number of the call, so that two calls may be answered differently. \<open>recoverGap\<close> and \<open>resync\<close>
  call themselves for as long as the server makes them; their fuel is the depth of these calls and
  \<^const>\<open>None\<close> is a depth that was not enough.
\<close>

section \<open>Definitions\<close>

subsection \<open>The cursor\<close>

datatype cursor_decision = Accepted | Duplicate | Gap int

definition cursor_key :: "string \<Rightarrow> string \<Rightarrow> string" where
  "cursor_key workspace session = workspace @ CHR 0x00 # session"

definition cursor_last :: "string \<Rightarrow> string \<Rightarrow> (string, int) js_map \<Rightarrow> int" where
  "cursor_last workspace session m = or_else (jm_get m (cursor_key workspace session)) 0"

definition observe ::
  "string \<Rightarrow> string \<Rightarrow> int \<Rightarrow> (string, int) js_map \<Rightarrow> cursor_decision \<times> (string, int) js_map" where
  "observe workspace session seq m =
     (let current = cursor_last workspace session m in
      if seq \<le> current then (Duplicate, m)
      else if seq \<noteq> current + 1 then (Gap current, m)
      else (Accepted, jm_set m (cursor_key workspace session) seq))"

definition resetTo :: "string \<Rightarrow> string \<Rightarrow> int \<Rightarrow> (string, int) js_map \<Rightarrow> (string, int) js_map" where
  "resetTo workspace session seq m =
     (if seq \<le> 0 then jm_delete m (cursor_key workspace session)
      else jm_set m (cursor_key workspace session) seq)"

definition cursor_resetWorkspace :: "string \<Rightarrow> (string, int) js_map \<Rightarrow> (string, int) js_map" where
  "cursor_resetWorkspace workspace m =
     foldl (\<lambda>m k. if startsWith k (workspace @ [CHR 0x00]) then jm_delete m k else m) m (map fst m)"

definition cursor_clear :: "(string, int) js_map \<Rightarrow> (string, int) js_map" where
  "cursor_clear m = []"

subsection \<open>The processor\<close>

datatype snapshot_recovery = Recovered int | NotRecovered | SnapshotThrew

record client_env =
  ce_getEvents :: "nat \<Rightarrow> string \<Rightarrow> string \<Rightarrow> int \<Rightarrow> replay_result option"
  ce_recoverSnapshot :: "nat \<Rightarrow> string \<Rightarrow> string \<Rightarrow> string \<Rightarrow> int \<Rightarrow> int \<Rightarrow> snapshot_recovery"
  ce_now :: "nat \<Rightarrow> int"
  ce_retries :: nat      \<comment> \<open>\<open>retryDelays.length\<close>\<close>

datatype client_error =
    Unsequenced push
  | ReplayFailed string string int
  | ResyncFailed string string int
  | InvalidReplayFrame
  | NonContiguousReplay push
  | SnapshotFailed string string

text \<open>What the client did, in order: delivered a push, moved a cursor to a snapshot, forgot a
  workspace or everything.\<close>

datatype client_event = Delivered push | MovedTo string string int | ForgotWorkspace string | ForgotAll

record client =
  cl_cursor :: "(string, int) js_map"
  cl_lastReport :: "(string, int) js_map"
  cl_log :: "client_event list"
  cl_errors :: "client_error list"
  cl_calls :: nat

definition new_client :: client where
  "new_client = \<lparr>cl_cursor = [], cl_lastReport = [], cl_log = [], cl_errors = [], cl_calls = 0\<rparr>"

definition REPORT_THROTTLE_MS :: int where "REPORT_THROTTLE_MS = 5000"

definition deliver :: "push \<Rightarrow> client \<Rightarrow> client" where
  "deliver p c = c\<lparr>cl_log := cl_log c @ [Delivered p]\<rparr>"

definition reportError :: "client_error \<Rightarrow> client \<Rightarrow> client" where
  "reportError e c = c\<lparr>cl_errors := cl_errors c @ [e]\<rparr>"

definition called :: "client \<Rightarrow> client" where
  "called c = c\<lparr>cl_calls := Suc (cl_calls c)\<rparr>"

definition shouldReport :: "client_env \<Rightarrow> string \<Rightarrow> int \<Rightarrow> client \<Rightarrow> bool \<times> client" where
  "shouldReport env key afterSeq c =
     (if afterSeq = 0 then (False, c)
      else
        let now = ce_now env (cl_calls c); last = or_else (jm_get (cl_lastReport c) key) 0
        in (REPORT_THROTTLE_MS \<le> now - last,
            (called c)\<lparr>cl_lastReport := jm_set (cl_lastReport c) key now\<rparr>))"

definition report_throttled :: "client_env \<Rightarrow> string \<Rightarrow> int \<Rightarrow> client_error \<Rightarrow> client \<Rightarrow> client" where
  "report_throttled env key afterSeq e c =
     (let (show, c1) = shouldReport env key afterSeq c in if show then reportError e c1 else c1)"

text \<open>\<open>Number.isSafeInteger(seq) && seq > 0\<close>.\<close>

definition valid_seq :: "int option \<Rightarrow> int option" where
  "valid_seq s = (case s of None \<Rightarrow> None | Some n \<Rightarrow> if 0 < n \<and> n \<le> 9007199254740991 then Some n else None)"

definition move_cursor :: "string \<Rightarrow> string \<Rightarrow> int \<Rightarrow> client \<Rightarrow> client" where
  "move_cursor workspace session n c =
     c\<lparr>cl_cursor := resetTo workspace session n (cl_cursor c), cl_log := cl_log c @ [MovedTo workspace session n]\<rparr>"

text \<open>The body of the loop over \<open>attempt\<close>; the first argument is the number of delays left.\<close>

primrec snapshot_attempts ::
  "nat \<Rightarrow> client_env \<Rightarrow> string \<Rightarrow> string \<Rightarrow> string \<Rightarrow> int \<Rightarrow> int \<Rightarrow> client \<Rightarrow> int option \<times> client" where
  "snapshot_attempts 0 env workspace session kind afterSeq last_seq c =
     (case ce_recoverSnapshot env (cl_calls c) workspace session kind afterSeq last_seq of
        Recovered n \<Rightarrow> (Some n, called c)
      | _ \<Rightarrow> (None, called c))"
| "snapshot_attempts (Suc delays) env workspace session kind afterSeq last_seq c =
     (case ce_recoverSnapshot env (cl_calls c) workspace session kind afterSeq last_seq of
        Recovered n \<Rightarrow> (Some n, called c)
      | _ \<Rightarrow> snapshot_attempts delays env workspace session kind afterSeq last_seq (called c))"

definition recoverSnapshot ::
  "client_env \<Rightarrow> string \<Rightarrow> string \<Rightarrow> string \<Rightarrow> int \<Rightarrow> int \<Rightarrow> client \<Rightarrow> int option \<times> client" where
  "recoverSnapshot env workspace session kind afterSeq last_seq c =
     (case snapshot_attempts (ce_retries env) env workspace session kind afterSeq last_seq c of
        (Some n, c1) \<Rightarrow> (Some n, c1)
      | (None, c1) \<Rightarrow> (None, report_throttled env (workspace @ ''/'' @ session @ ''/snapshot'') afterSeq
            (SnapshotFailed workspace session) c1))"

definition applyReplay :: "push \<Rightarrow> client \<Rightarrow> client" where
  "applyReplay p c =
     (case (pu_session p, valid_seq (pu_seq p)) of
        (Some session, Some seq) \<Rightarrow>
          if session = [] then reportError InvalidReplayFrame c
          else (case observe (pu_workspace p) session seq (cl_cursor c) of
                  (Accepted, m) \<Rightarrow> deliver p (c\<lparr>cl_cursor := m\<rparr>)
                | (Duplicate, m) \<Rightarrow> c
                | (Gap a, m) \<Rightarrow> reportError (NonContiguousReplay p) c)
      | _ \<Rightarrow> reportError InvalidReplayFrame c)"

definition apply_events :: "push list \<Rightarrow> client \<Rightarrow> client" where
  "apply_events events c = foldl (\<lambda>c e. applyReplay e c) c (sort_key (\<lambda>e. or_else (pu_seq e) 0) events)"

primrec resync :: "nat \<Rightarrow> client_env \<Rightarrow> string \<Rightarrow> string \<Rightarrow> string \<Rightarrow> client \<Rightarrow> client option" where
  "resync 0 env workspace session kind c = None"
| "resync (Suc fuel) env workspace session kind c =
     (let afterSeq = cursor_last workspace session (cl_cursor c); c0 = called c in
      case ce_getEvents env (cl_calls c) workspace session afterSeq of
        None \<Rightarrow> Some (report_throttled env (workspace @ ''/'' @ session @ ''/resync'') afterSeq
                   (ResyncFailed workspace session afterSeq) c0)
      | Some answer \<Rightarrow>
          if rp_resetRequired answer then
            (case recoverSnapshot env workspace session kind afterSeq (rp_lastSeq answer) c0 of
               (None, c1) \<Rightarrow> Some c1
             | (Some n, c1) \<Rightarrow> resync fuel env workspace session kind (move_cursor workspace session n c1))
          else Some (apply_events (rp_events answer) c0))"

text \<open>\<open>process\<close>, over the two recoveries it calls.\<close>

definition process_with ::
  "(push \<Rightarrow> int \<Rightarrow> client \<Rightarrow> client option) \<Rightarrow> (string \<Rightarrow> string \<Rightarrow> string \<Rightarrow> client \<Rightarrow> client option) \<Rightarrow>
     push \<Rightarrow> client \<Rightarrow> client option" where
  "process_with recover_gap re_sync p c =
     (if pu_session p = None \<or> pu_session p = Some [] then Some (deliver p c)
      else
        let session = or_else (pu_session p) [] in
        case valid_seq (pu_seq p) of
          None \<Rightarrow> re_sync (pu_workspace p) session (or_else (pu_sessionKind p) ''main'') (reportError (Unsequenced p) c)
        | Some seq \<Rightarrow>
            (case observe (pu_workspace p) session seq (cl_cursor c) of
               (Accepted, m) \<Rightarrow> Some (deliver p (c\<lparr>cl_cursor := m\<rparr>))
             | (Duplicate, m) \<Rightarrow> Some c
             | (Gap afterSeq, m) \<Rightarrow> recover_gap p afterSeq c))"

primrec recoverGap :: "nat \<Rightarrow> client_env \<Rightarrow> push \<Rightarrow> int \<Rightarrow> client \<Rightarrow> client option" where
  "recoverGap 0 env target afterSeq c = None"
| "recoverGap (Suc fuel) env target afterSeq c =
     (let workspace = pu_workspace target; session = or_else (pu_session target) []; c0 = called c in
      case ce_getEvents env (cl_calls c) workspace session afterSeq of
        None \<Rightarrow> Some (report_throttled env (workspace @ ''/'' @ session @ ''/recover'') afterSeq
                   (ReplayFailed workspace session afterSeq) c0)
      | Some answer \<Rightarrow>
          if rp_resetRequired answer then
            (case recoverSnapshot env workspace session (or_else (pu_sessionKind target) ''main'') afterSeq
                    (rp_lastSeq answer) c0 of
               (None, c1) \<Rightarrow> Some c1
             | (Some n, c1) \<Rightarrow> recoverGap fuel env target n (move_cursor workspace session n c1))
          else
            process_with (recoverGap fuel env) (resync fuel env) target (apply_events (rp_events answer) c0))"

definition process :: "nat \<Rightarrow> client_env \<Rightarrow> push \<Rightarrow> client \<Rightarrow> client option" where
  "process fuel env = process_with (recoverGap fuel env) (resync fuel env)"

definition client_resetWorkspace :: "string \<Rightarrow> client \<Rightarrow> client" where
  "client_resetWorkspace workspace c =
     c\<lparr>cl_cursor := cursor_resetWorkspace workspace (cl_cursor c), cl_log := cl_log c @ [ForgotWorkspace workspace]\<rparr>"

definition client_clear :: "client \<Rightarrow> client" where
  "client_clear c = c\<lparr>cl_cursor := cursor_clear (cl_cursor c), cl_log := cl_log c @ [ForgotAll]\<rparr>"

text \<open>What happens to a client: pushes one after another, and the resets its owner makes.\<close>

inductive client_step :: "client_env \<Rightarrow> client \<Rightarrow> client \<Rightarrow> bool" for env where
  client_push: "process fuel env p c = Some c' \<Longrightarrow> client_step env c c'"
| client_reset: "client_step env c (client_resetWorkspace workspace c)"
| client_cleared: "client_step env c (client_clear c)"

section \<open>Deliveries of one stream\<close>

text \<open>Where a stream stands after an event, if the event may come now.\<close>

definition advance :: "string \<Rightarrow> int \<Rightarrow> client_event \<Rightarrow> int option" where
  "advance key pos ev =
     (case ev of
        Delivered p \<Rightarrow>
          (case pu_session p of
             None \<Rightarrow> Some pos
           | Some s \<Rightarrow>
               if s = [] \<or> cursor_key (pu_workspace p) s \<noteq> key then Some pos
               else if pu_seq p = Some (pos + 1) then Some (pos + 1) else None)
      | MovedTo w s n \<Rightarrow> Some (if cursor_key w s = key then max 0 n else pos)
      | ForgotWorkspace w \<Rightarrow> Some (if startsWith key (w @ [CHR 0x00]) then 0 else pos)
      | ForgotAll \<Rightarrow> Some 0)"

definition follow :: "string \<Rightarrow> client_event list \<Rightarrow> int option" where
  "follow key evs = foldl (\<lambda>pos ev. Option.bind pos (\<lambda>n. advance key n ev)) (Some 0) evs"

definition cursor_at :: "string \<Rightarrow> client \<Rightarrow> int" where
  "cursor_at key c = or_else (jm_get (cl_cursor c) key) 0"

definition client_inv :: "client \<Rightarrow> bool" where
  "client_inv c \<longleftrightarrow> (\<forall>key. 0 \<le> cursor_at key c \<and> follow key (cl_log c) = Some (cursor_at key c))"

lemma follow_snoc: "follow key (evs @ [ev]) = Option.bind (follow key evs) (\<lambda>n. advance key n ev)"
  by (simp add: follow_def)

lemma client_inv_same: "cl_cursor c' = cl_cursor c \<Longrightarrow> cl_log c' = cl_log c \<Longrightarrow> client_inv c' = client_inv c"
  by (simp add: client_inv_def cursor_at_def)

lemma same_state [simp]:
  "cl_cursor (reportError e c) = cl_cursor c" "cl_log (reportError e c) = cl_log c"
  "cl_cursor (called c) = cl_cursor c" "cl_log (called c) = cl_log c"
  "cl_cursor (report_throttled env k a e c) = cl_cursor c" "cl_log (report_throttled env k a e c) = cl_log c"
  by (auto simp: reportError_def called_def report_throttled_def shouldReport_def Let_def)

lemma client_inv_quiet [simp]:
  "client_inv (reportError e c) = client_inv c" "client_inv (called c) = client_inv c"
  "client_inv (report_throttled env k a e c) = client_inv c"
  by (rule client_inv_same; simp)+

lemma snapshot_state:
  "snapshot_attempts n env w s kd a l c = (r, c') \<Longrightarrow> cl_cursor c' = cl_cursor c \<and> cl_log c' = cl_log c"
  by (induction n arbitrary: c) (auto split: snapshot_recovery.splits)

lemma recoverSnapshot_state:
  "recoverSnapshot env w s kd a l c = (r, c') \<Longrightarrow> cl_cursor c' = cl_cursor c \<and> cl_log c' = cl_log c"
  by (auto simp: recoverSnapshot_def split: prod.splits option.splits dest!: snapshot_state)

lemma recoverSnapshot_inv: "recoverSnapshot env w s kd a l c = (r, c') \<Longrightarrow> client_inv c' = client_inv c"
  using recoverSnapshot_state client_inv_same by blast

lemma move_cursor_inv: "client_inv c \<Longrightarrow> client_inv (move_cursor w s n c)"
  by (auto simp: client_inv_def move_cursor_def cursor_at_def resetTo_def follow_snoc advance_def)

lemma accepted_inv:
  assumes "client_inv c" "pu_session p = Some s" "s \<noteq> []" "pu_seq p = Some n" "0 < n"
    and "observe (pu_workspace p) s n (cl_cursor c) = (Accepted, m)"
  shows "client_inv (deliver p (c\<lparr>cl_cursor := m\<rparr>))"
proof -
  have n: "n = cursor_at (cursor_key (pu_workspace p) s) c + 1" "m = jm_set (cl_cursor c) (cursor_key (pu_workspace p) s) n"
    using assms(6) by (auto simp: observe_def Let_def cursor_last_def cursor_at_def split: if_splits)
  show ?thesis
    using assms n by (auto simp: client_inv_def deliver_def cursor_at_def follow_snoc advance_def)
qed

lemma valid_seqD: "valid_seq s = Some n \<Longrightarrow> s = Some n \<and> 0 < n"
  by (auto simp: valid_seq_def split: option.splits if_splits)

lemma applyReplay_inv: "client_inv c \<Longrightarrow> client_inv (applyReplay p c)"
  by (auto simp: applyReplay_def split: option.splits prod.splits cursor_decision.splits
      dest!: valid_seqD intro: accepted_inv)

lemma apply_events_inv: "client_inv c \<Longrightarrow> client_inv (apply_events es c)"
proof -
  have "client_inv c \<Longrightarrow> client_inv (foldl (\<lambda>c e. applyReplay e c) c xs)" for xs
    by (induction xs arbitrary: c) (auto intro: applyReplay_inv)
  then show "client_inv c \<Longrightarrow> client_inv (apply_events es c)" by (simp add: apply_events_def)
qed

lemma resync_inv: "resync fuel env w s kd c = Some c' \<Longrightarrow> client_inv c \<Longrightarrow> client_inv c'"
proof (induction fuel arbitrary: c)
  case (Suc fuel)
  then show ?case
    by (auto simp: Let_def split: option.splits if_splits prod.splits
        dest!: recoverSnapshot_inv intro: apply_events_inv move_cursor_inv)
qed simp

lemma process_with_inv:
  assumes "\<And>p a c c'. gap p a c = Some c' \<Longrightarrow> client_inv c \<Longrightarrow> client_inv c'"
    and "\<And>w s kd c c'. rs w s kd c = Some c' \<Longrightarrow> client_inv c \<Longrightarrow> client_inv c'"
    and "process_with gap rs p c = Some c'" "client_inv c"
  shows "client_inv c'"
proof (cases "pu_session p = None \<or> pu_session p = Some []")
  case True
  then show ?thesis
    using assms(3,4) by (auto simp: process_with_def client_inv_def deliver_def cursor_at_def follow_snoc advance_def)
next
  case False
  then obtain s where s: "pu_session p = Some s" "s \<noteq> []" by (cases "pu_session p") auto
  then show ?thesis
    using assms by (auto simp: process_with_def split: option.splits prod.splits cursor_decision.splits
        dest!: valid_seqD intro: accepted_inv)
qed

lemma recoverGap_inv: "recoverGap fuel env p a c = Some c' \<Longrightarrow> client_inv c \<Longrightarrow> client_inv c'"
proof (induction fuel arbitrary: p a c c')
  case (Suc fuel)
  have pw: "process_with (recoverGap fuel env) (resync fuel env) q d = Some c' \<Longrightarrow> client_inv d \<Longrightarrow> client_inv c'" for q d
    by (rule process_with_inv[OF Suc.IH resync_inv]) assumption+
  have ev: "client_inv c \<Longrightarrow> client_inv (apply_events es (called c))" for es
    by (simp add: apply_events_inv)
  show ?case
    using Suc.prems
    by (auto simp: Let_def split: option.splits if_splits prod.splits
        dest!: recoverSnapshot_inv intro: pw ev Suc.IH apply_events_inv move_cursor_inv)
qed simp

lemma process_inv: "process fuel env p c = Some c' \<Longrightarrow> client_inv c \<Longrightarrow> client_inv c'"
  unfolding process_def by (rule process_with_inv[OF recoverGap_inv resync_inv])


lemma reset_fold:
  "jm_get (foldl (\<lambda>m k. if P k then jm_delete m k else m) m ks) key =
     (if key \<in> set ks \<and> P key then None else jm_get m key)"
  by (induction ks arbitrary: m) auto

lemma reset_workspace_get:
  "or_else (jm_get (cursor_resetWorkspace w m) key) 0 =
     (if startsWith key (w @ [CHR 0x00]) then 0 else or_else (jm_get m key) 0)"
proof -
  have "key \<notin> set (map fst m) \<Longrightarrow> jm_get m key = None"
    by (auto simp: jm_get_def map_of_eq_None_iff)
  then show ?thesis unfolding cursor_resetWorkspace_def reset_fold by auto
qed

interpretation client: transition_invariant "client_step env" new_client client_inv
proof
  show "client_inv new_client"
    by (simp add: client_inv_def new_client_def cursor_at_def follow_def)
  show "client_inv t" if "client_step env s t" "client_inv s" for s t
    using that
  proof (cases rule: client_step.cases)
    case (client_push fuel p)
    then show ?thesis using process_inv that(2) by blast
  next
    case (client_reset workspace)
    then show ?thesis
      using that(2)
      by (simp add: client_inv_def client_resetWorkspace_def cursor_at_def follow_snoc advance_def reset_workspace_get)
  next
    case client_cleared
    then show ?thesis
      using that(2)
      by (simp add: client_inv_def client_clear_def cursor_at_def cursor_clear_def follow_snoc advance_def)
  qed
qed

section \<open>A gap is closed\<close>

text \<open>Frames of one stream in their order, applied from where the cursor stands.\<close>

lemma cursor_last_set [simp]: "cursor_last w s (jm_set m (cursor_key w s) n) = n"
  by (simp add: cursor_last_def)

lemma apply_range:
  assumes "session \<noteq> []" "list_all (of_stream workspace session) es" "numbered (n + 1) es" "0 \<le> n"
    and "n + int (length es) \<le> 9007199254740991" "cursor_last workspace session (cl_cursor c) = n"
  shows "cursor_last workspace session (cl_cursor (foldl (\<lambda>c e. applyReplay e c) c es)) = n + int (length es)"
    and "cl_log (foldl (\<lambda>c e. applyReplay e c) c es) = cl_log c @ map Delivered es"
    and "cl_errors (foldl (\<lambda>c e. applyReplay e c) c es) = cl_errors c"
proof -
  have "cursor_last workspace session (cl_cursor (foldl (\<lambda>c e. applyReplay e c) c es)) = n + int (length es) \<and>
      cl_log (foldl (\<lambda>c e. applyReplay e c) c es) = cl_log c @ map Delivered es \<and>
      cl_errors (foldl (\<lambda>c e. applyReplay e c) c es) = cl_errors c"
    using assms(2-6)
  proof (induction es arbitrary: n c)
    case (Cons e es)
    have e: "pu_workspace e = workspace" "pu_session e = Some session" "pu_seq e = Some (n + 1)" "numbered (n + 1 + 1) es"
      using Cons.prems by (simp_all add: of_stream_def)
    have v: "valid_seq (Some (n + 1)) = Some (n + 1)" using Cons.prems by (simp add: valid_seq_def)
    have a: "applyReplay e c = deliver e (c\<lparr>cl_cursor := jm_set (cl_cursor c) (cursor_key workspace session) (n + 1)\<rparr>)"
      using e v assms(1) Cons.prems(5) by (simp add: applyReplay_def observe_def)
    show ?case
      using Cons.IH[of "n + 1" "applyReplay e c"] Cons.prems e(4) by (simp add: a deliver_def)
  qed simp
  then show "cursor_last workspace session (cl_cursor (foldl (\<lambda>c e. applyReplay e c) c es)) = n + int (length es)"
    "cl_log (foldl (\<lambda>c e. applyReplay e c) c es) = cl_log c @ map Delivered es"
    "cl_errors (foldl (\<lambda>c e. applyReplay e c) c es) = cl_errors c" by blast+
qed

lemma numbered_member:
  assumes "numbered 1 sent" "e \<in> set sent"
  shows "\<exists>k. pu_seq e = Some k \<and> 0 < k \<and> k \<le> int (length sent)"
proof -
  obtain i where i: "i < length sent" "e = sent ! i" using assms(2) by (auto simp: in_set_conv_nth)
  have "map pu_seq sent ! i = map (\<lambda>i. Some (1 + int i)) [0..<length sent] ! i"
    using assms(1) by (simp only: numbered_def)
  then show ?thesis using i by simp
qed

lemma numbered_sorted: "numbered n es \<Longrightarrow> sorted (map (\<lambda>e. or_else (pu_seq e) 0) es)"
proof (induction es arbitrary: n)
  case (Cons e es)
  have "or_else (pu_seq x) 0 \<ge> n + 1" if "x \<in> set es" for x
    using numbered_ge[of "n + 1" es x] that Cons.prems by auto
  then show ?case using Cons by fastforce
qed simp

lemma numbered_sort: "numbered n es \<Longrightarrow> sort_key (\<lambda>e. or_else (pu_seq e) 0) es = es"
  by (rule sort_key_id_if_sorted) (rule numbered_sorted)


text \<open>What the server answers and what the client does with it.\<close>

lemma spec_replay_reset: "rp_resetRequired (spec_replay capacity sent a) \<longleftrightarrow>
    (if sent = [] then 0 < a else a < int (length sent - capacity))"
  by (simp add: spec_replay_def Let_def)

lemma spec_replay_events:
  "int (length sent - capacity) \<le> a \<Longrightarrow> rp_events (spec_replay capacity sent a) = drop (nat a) sent"
  by (simp add: spec_replay_def Let_def)

lemma replay_applied:
  assumes "session \<noteq> []" "list_all (of_stream workspace session) sent" "numbered 1 sent"
    and "int (length sent) \<le> 9007199254740991" "cursor_last workspace session (cl_cursor c) = a"
    and "int (length sent - capacity) \<le> a" "a \<le> int (length sent)"
  shows "cursor_last workspace session (cl_cursor (apply_events (rp_events (spec_replay capacity sent a)) c)) = int (length sent)"
    and "cl_log (apply_events (rp_events (spec_replay capacity sent a)) c) = cl_log c @ map Delivered (drop (nat a) sent)"
    and "cl_errors (apply_events (rp_events (spec_replay capacity sent a)) c) = cl_errors c"
proof -
  let ?es = "drop (nat a) sent"
  have a: "0 \<le> a" using assms(6) by linarith
  have n: "numbered (a + 1) ?es"
    using numbered_drop[OF assms(3), of "nat a"] a assms(7) by (simp add: min_def nat_le_iff add.commute)
  have own: "list_all (of_stream workspace session) ?es"
    using assms(2) by (auto simp: list_all_iff dest: in_set_dropD)
  have len: "a + int (length ?es) = int (length sent)" using a assms(7) by (simp add: of_nat_diff nat_le_iff)
  have e: "apply_events (rp_events (spec_replay capacity sent a)) c = foldl (\<lambda>c e. applyReplay e c) c ?es"
    using numbered_sort[OF n] by (simp add: apply_events_def spec_replay_events[OF assms(6)])
  show "cursor_last workspace session (cl_cursor (apply_events (rp_events (spec_replay capacity sent a)) c)) = int (length sent)"
    "cl_log (apply_events (rp_events (spec_replay capacity sent a)) c) = cl_log c @ map Delivered (drop (nat a) sent)"
    "cl_errors (apply_events (rp_events (spec_replay capacity sent a)) c) = cl_errors c"
    unfolding e using apply_range[OF assms(1) own n a _ assms(5)] assms(4) len by simp_all
qed

text \<open>A server that answers from one log, and a snapshot that is recent enough.\<close>

definition honest_env :: "client_env \<Rightarrow> string \<Rightarrow> string \<Rightarrow> nat \<Rightarrow> push list \<Rightarrow> int \<Rightarrow> bool" where
  "honest_env env workspace session capacity sent n \<longleftrightarrow>
     (\<forall>k a. ce_getEvents env k workspace session a = Some (spec_replay capacity sent a)) \<and>
     (\<forall>k kd a l. ce_recoverSnapshot env k workspace session kd a l = Recovered n) \<and>
     int (length sent - capacity) \<le> n \<and> n \<le> int (length sent)"

lemma recoverSnapshot_honest:
  assumes "honest_env env workspace session capacity sent n"
  shows "recoverSnapshot env workspace session kd a l c = (Some n, called c)"
proof -
  have "snapshot_attempts d env workspace session kd a l c = (Some n, called c)" for d
    using assms by (cases d) (simp_all add: honest_env_def)
  then show ?thesis by (simp add: recoverSnapshot_def)
qed

lemma duplicate_done:
  assumes "of_stream workspace session target" "session \<noteq> []" "pu_seq target = Some k"
    and "0 < k" "k \<le> 9007199254740991" "k \<le> cursor_last workspace session (cl_cursor c)"
  shows "process_with gap rs target c = Some c"
  using assms by (simp add: process_with_def of_stream_def valid_seq_def observe_def)

lemma recoverGap_replay:
  assumes "honest_env env workspace session capacity sent n"
    and "session \<noteq> []" "list_all (of_stream workspace session) sent" "numbered 1 sent"
    and "int (length sent) \<le> 9007199254740991" "target \<in> set sent"
    and "cursor_last workspace session (cl_cursor c) = a" "int (length sent - capacity) \<le> a" "a \<le> int (length sent)"
  shows "\<exists>c'. recoverGap (Suc fuel) env target a c = Some c' \<and>
    cursor_last workspace session (cl_cursor c') = int (length sent) \<and>
    cl_log c' = cl_log c @ map Delivered (drop (nat a) sent) \<and> cl_errors c' = cl_errors c"
proof -
  let ?c = "apply_events (rp_events (spec_replay capacity sent a)) (called c)"
  have t: "of_stream workspace session target" using assms(3,6) by (auto simp: list_all_iff)
  obtain k where k: "pu_seq target = Some k" "0 < k" "k \<le> int (length sent)"
    using numbered_member[OF assms(4,6)] by blast
  have "cursor_last workspace session (cl_cursor (called c)) = a" using assms(7) by simp
  note r = replay_applied[OF assms(2-5) this assms(8,9)]
  have ne: "sent \<noteq> []" using assms(6) by auto
  have "recoverGap (Suc fuel) env target a c = process_with (recoverGap fuel env) (resync fuel env) target ?c"
    using assms(1,8) t ne by (simp add: honest_env_def of_stream_def spec_replay_reset)
  also have "\<dots> = Some ?c"
    using t assms(2,5) k r(1) by (intro duplicate_done) auto
  finally show ?thesis using r by (simp add: called_def)
qed

section \<open>Properties\<close>

text \<open>C13: Whatever the server answers, and however often recovery has to start over, the client
  delivers every stream in order: from its start, from the snapshot it was moved to or from the
  last reset on, each push delivered carries the number after the one before. None is skipped and
  none is delivered twice, and the cursor is the number of the last one.\<close>

theorem deliveries_in_order:
  assumes "(client_step env)\<^sup>*\<^sup>* new_client c"
  shows "follow (cursor_key workspace session) (cl_log c) = Some (cursor_last workspace session (cl_cursor c))"
  using client.I_reachable[OF assms] by (simp add: client_inv_def cursor_last_def cursor_at_def)

definition demo_env :: client_env where
  "demo_env = \<lparr>ce_getEvents = (\<lambda>k w s a. Some (replay w s a (sy_streams demo_run))),
     ce_recoverSnapshot = (\<lambda>k w s kd a l. Recovered 1), ce_now = int, ce_retries = 3\<rparr>"

theorem deliveries_in_order_witness:
  "\<exists>c. process 2 demo_env (demo_frame 3) new_client = Some c \<and> length (cl_log c) = 3 \<and>
     follow (cursor_key ''w'' ''s'') (cl_log c) = Some (cursor_last ''w'' ''s'' (cl_cursor c))"
proof -
  have "map_option (\<lambda>c. length (cl_log c)) (process 2 demo_env (demo_frame 3) new_client) = Some 3" by code_simp
  then obtain c where c: "process 2 demo_env (demo_frame 3) new_client = Some c" "length (cl_log c) = 3" by auto
  have "(client_step demo_env)\<^sup>*\<^sup>* new_client c" using client_push[OF c(1)] by blast
  then show ?thesis using c deliveries_in_order[of demo_env c "''w''" "''s''"] by blast
qed

text \<open>C12: The two ends together, on a connection that works: while a push is handled the server answers
  every replay from its log, in whatever state earlier pushes, flushes and restarts have left it,
  and no push is added; and a snapshot, when one is asked for, succeeds with a number that the ring
  still reaches back to. When a push of a stream then arrives after a gap, the client catches up in
  one call: it returns, so it does not loop on its recovery. It delivers every push of the server's log
  after its cursor, or after the snapshot when the ring no longer reaches back that far, exactly
  once and in order, ends at the server's last number and reports no error. (A server whose replays
  stay behind the push it sent keeps the client in the call: \<open>stale_replay_never_returns\<close>.)\<close>

theorem gap_closed:
  assumes "(log_step C cfg sha256 capacity workspace session)\<^sup>*\<^sup>* new_system sy"
    and "0 < capacity" "capacity \<le> tc_keep cfg" "codec_ok C" "session \<noteq> []"
    and "\<forall>k a. ce_getEvents env k workspace session a = Some (replay workspace session a (sy_streams sy))"
    and "\<forall>k kd a l. ce_recoverSnapshot env k workspace session kd a l = Recovered n"
    and "int (length (sy_sent sy) - capacity) \<le> n" "n \<le> int (length (sy_sent sy))"
    and "int (length (sy_sent sy)) \<le> 9007199254740991"
    and "target \<in> set (sy_sent sy)" "pu_seq target = Some k" "cursor_last workspace session (cl_cursor c) = p"
    and "0 \<le> p" "p + 1 < k"
  shows "\<exists>c'. process (Suc (Suc fuel)) env target c = Some c' \<and>
    cursor_last workspace session (cl_cursor c') = int (length (sy_sent sy)) \<and> cl_errors c' = cl_errors c \<and>
    cl_log c' = cl_log c @
      (if p < int (length (sy_sent sy) - capacity)
       then MovedTo workspace session n # map Delivered (drop (nat n) (sy_sent sy))
       else map Delivered (drop (nat p) (sy_sent sy)))"
proof -
  let ?sent = "sy_sent sy"
  have inv: "log_inv C sha256 capacity workspace session sy"
    using pushlog.I_reachable[OF assms(1)] assms(2-5) by blast
  have num: "numbered 1 ?sent" and own: "list_all (of_stream workspace session) ?sent"
    using inv by (simp_all add: log_inv_def)
  have hon: "honest_env env workspace session capacity ?sent n"
    using assms(6-9) inv ring_replay[OF num assms(2)] by (simp add: honest_env_def replay_def log_inv_def)
  have t: "of_stream workspace session target" using own assms(11) by (auto simp: list_all_iff)
  have k: "k \<le> int (length ?sent)"
    using numbered_member[OF num assms(11)] assms(12) by auto
  have v: "valid_seq (Some k) = Some k" using k assms(10,14,15) by (simp add: valid_seq_def)
  have start: "process (Suc (Suc fuel)) env target c = recoverGap (Suc (Suc fuel)) env target p c"
    using t v assms(5,12,13,14,15) by (simp add: process_def process_with_def of_stream_def observe_def Let_def)
  show ?thesis
  proof (cases "p < int (length ?sent - capacity)")
    case False
    then show ?thesis
      unfolding start
      using recoverGap_replay[OF hon assms(5) own num assms(10,11,13), of "Suc fuel"] k assms(15) by auto
  next
    case True
    let ?m = "move_cursor workspace session n (called (called c))"
    have g: "ce_getEvents env (cl_calls c) workspace session p = Some (spec_replay capacity ?sent p)"
      using hon by (simp add: honest_env_def)
    have "?sent \<noteq> []" using assms(11) by auto
    then have r: "rp_resetRequired (spec_replay capacity ?sent p)" using True by (simp add: spec_replay_reset)
    have step: "recoverGap (Suc (Suc fuel)) env target p c = recoverGap (Suc fuel) env target n ?m"
      using t unfolding recoverGap.simps(2)[of "Suc fuel"] Let_def of_stream_def
      by (simp only: g option.case or_else_simps r if_True recoverSnapshot_honest[OF hon] prod.case)
    have "0 \<le> n" using assms(8) by linarith
    then have "cursor_last workspace session (cl_cursor ?m) = n"
      by (auto simp: move_cursor_def cursor_last_def resetTo_def)
    then show ?thesis
      unfolding start step
      using recoverGap_replay[OF hon assms(5) own num assms(10,11) _ assms(8,9), of ?m fuel] True
      by (auto simp: move_cursor_def called_def)
  qed
qed

theorem gap_closed_witness:
  "\<exists>c'. process 2 demo_env (demo_frame 3) new_client = Some c' \<and>
    cl_log c' = [MovedTo ''w'' ''s'' 1, Delivered (demo_frame 2), Delivered (demo_frame 3)]"
proof -
  have sent: "sy_sent demo_run = [demo_frame 1, demo_frame 2, demo_frame 3]" by code_simp
  have seq: "pu_seq (demo_frame 3) = Some 3" by code_simp
  have env: "\<forall>k a. ce_getEvents demo_env k ''w'' ''s'' a = Some (replay ''w'' ''s'' a (sy_streams demo_run))"
    "\<forall>k kd a l. ce_recoverSnapshot demo_env k ''w'' ''s'' kd a l = Recovered 1"
    by (simp_all add: demo_env_def)
  show ?thesis
    using gap_closed[OF demo_reachable _ _ line_codec_ok _ env _ _ _ _ seq, of new_client 0 0]
    by (auto simp: sent new_client_def cursor_last_def numeral_2_eq_2)
qed

text \<open>A replay that neither reaches the push nor asks for a reset is asked for again without end: no
  amount of fuel lets the call return.\<close>

lemma stale_replay_never_returns:
  assumes "\<forall>k a. ce_getEvents env k workspace session a =
      Some \<lparr>rp_events = [], rp_firstSeq = 1, rp_lastSeq = a, rp_resetRequired = False\<rparr>"
    and "of_stream workspace session target" "session \<noteq> []" "valid_seq (pu_seq target) = Some k"
    and "cursor_last workspace session (cl_cursor c) + 1 < k"
  shows "process fuel env target c = None"
proof -
  have gap: "process_with gap rs target d = gap target (cursor_last workspace session (cl_cursor d)) d"
    if "cl_cursor d = cl_cursor c" for gap rs d
    using assms(2-5) that by (simp add: process_with_def of_stream_def observe_def Let_def)
  have "recoverGap fuel env target a d = None" if "cl_cursor d = cl_cursor c" for d a
    using that
  proof (induction fuel arbitrary: d a)
    case (Suc fuel)
    have "recoverGap (Suc fuel) env target a d = process_with (recoverGap fuel env) (resync fuel env) target (called d)"
      using assms(1,2) by (simp add: of_stream_def apply_events_def)
    then show ?case using gap[of "called d"] Suc by simp
  qed simp
  then show ?thesis using gap[of c] by (simp add: process_def)
qed

end
