(* ===== verification/JobStore.thy ===== *)
theory JobStore
  imports JsValue ImRoute
begin

text \<open>
  Scheduled jobs and their files: \<open>packages/sidecar/src/scheduler/types.ts\<close>, \<open>jobId.ts\<close>,
  \<open>builtinJobs.ts\<close>, \<open>store.ts\<close> and the job type of \<open>packages/protocol/src/schemas/jobs.ts\<close>. A file
  is the job its text parses to, \<^const>\<open>None\<close> for a text that does not parse; the fields that old
  files lack are optional. A time stamp is the time its text stands for, \<^const>\<open>None\<close> when
  \<open>Date.parse\<close> does not read it. The operations of one job are queued behind one another in the
  code, so each is one step here. The order of \<open>localeCompare\<close> is a parameter.
\<close>

section \<open>Definitions\<close>

type_synonym stamp = "int option"

datatype schedule = Cron string "string option" | Interval int

datatype run_status = StRunning | StOk | StErr

text \<open>An entry of the history; \<open>he_ref\<close> is the identity of the object in memory.\<close>

record history_entry =
  he_ref :: nat
  he_started :: stamp
  he_ended :: "stamp option"
  he_status :: run_status
  he_error :: "string option"
  he_summary :: "string option"

record job =
  jb_id :: string
  jb_name :: string
  jb_schedule :: schedule
  jb_command :: string
  jb_args :: "(string, js) js_map"
  jb_builtin :: bool
  jb_enabled :: bool
  jb_run_on_startup :: bool
  jb_max_runs :: "int option"
  jb_run_count :: "int option"
  jb_max_consecutive_failures :: "int option"
  jb_consecutive_failures :: "int option"
  jb_disabled_reason :: "string option"
  jb_last_run_at :: "stamp option"
  jb_next_run_at :: "stamp option"
  jb_history :: "history_entry list option"
  jb_generation :: "string option"
  jb_channelId :: "string option"
  jb_peerId :: "string option"
  jb_sessionStrategy :: "string option"
  jb_pinnedSessionId :: "string option"

definition HISTORY_LIMIT :: nat where "HISTORY_LIMIT = 20"

definition DEFAULT_MAX_CONSECUTIVE_FAILURES :: int where "DEFAULT_MAX_CONSECUTIVE_FAILURES = 5"

subsection \<open>Identifiers\<close>

definition id_char :: "char \<Rightarrow> bool" where
  "id_char c \<longleftrightarrow> is_alnum_ascii c \<or> c = CHR ''_'' \<or> c = CHR ''-''"

definition isSafeJobId :: "string \<Rightarrow> bool" where
  "isSafeJobId s \<longleftrightarrow> (case s of [] \<Rightarrow> False | c # cs \<Rightarrow> is_alnum_ascii c \<and> list_all id_char cs \<and> length cs \<le> 63)"

datatype job_error =
    InvalidJobId string
  | JobAlreadyExists string
  | ScopeForbidden string
  | ScopeNotFound string
  | IdChanged string string
  | NotBuiltin string

type_synonym 'a job_result = "job_error + 'a"

definition assertSafeJobId :: "string \<Rightarrow> unit job_result" where
  "assertSafeJobId s = (if isSafeJobId s then Inr () else Inl (InvalidJobId s))"

subsection \<open>Built-in jobs\<close>

definition MEMORY_DREAM_COMMAND :: string where "MEMORY_DREAM_COMMAND = ''memory.dream''"

definition BUILTIN_JOB_COMMANDS :: "string list" where "BUILTIN_JOB_COMMANDS = [MEMORY_DREAM_COMMAND]"

definition isBuiltinJob :: "job \<Rightarrow> bool" where
  "isBuiltinJob j \<longleftrightarrow> jb_builtin j \<and> jb_command j \<in> set BUILTIN_JOB_COMMANDS"

subsection \<open>Reading a job file\<close>

definition workspace_of :: "job \<Rightarrow> string" where
  "workspace_of j = (case jm_get (jb_args j) ''workspace'' of Some (JStr w) \<Rightarrow> w | _ \<Rightarrow> [])"

definition isImWorkspace :: "string \<Rightarrow> bool" where
  "isImWorkspace w = startsWith w ''im://''"

definition positional :: "string \<times> js \<Rightarrow> string option" where
  "positional e =
     (if fst e = ''prompt'' \<or> fst e = ''workspace'' then None
      else (case snd e of JStr s \<Rightarrow> if s = [] then None else Some s | _ \<Rightarrow> None))"

definition positionalArgs :: "(string, js) js_map \<Rightarrow> string list" where
  "positionalArgs args = List.map_filter positional args"

definition withCounters :: "job \<Rightarrow> job" where
  "withCounters j =
     j\<lparr>jb_history := Some (or_else (jb_history j) []), jb_run_count := Some (or_else (jb_run_count j) 0),
       jb_consecutive_failures := Some (or_else (jb_consecutive_failures j) 0)\<rparr>"

definition strategy_migrates :: "job \<Rightarrow> bool" where
  "strategy_migrates j \<longleftrightarrow> isImWorkspace (workspace_of j) \<and> jb_sessionStrategy j \<noteq> None \<and>
     jb_sessionStrategy j \<noteq> Some ''reuse''"

definition withStrategy :: "job \<Rightarrow> job" where
  "withStrategy j = (if strategy_migrates j then j\<lparr>jb_sessionStrategy := Some ''reuse''\<rparr> else j)"

definition taskText :: "job \<Rightarrow> string" where
  "taskText j = trim (join '' '' (jb_command j # positionalArgs (jb_args j)))"

definition command_migrates :: "job \<Rightarrow> bool" where
  "command_migrates j \<longleftrightarrow> jb_command j \<noteq> ''agent.invoke'' \<and> \<not> isBuiltinJob j \<and> taskText j \<noteq> []"

definition withCommand :: "job \<Rightarrow> job" where
  "withCommand j =
     (if command_migrates j
      then j\<lparr>jb_command := ''agent.invoke'', jb_args := jm_set (jb_args j) ''prompt'' (JStr (taskText j))\<rparr>
      else j)"

subsection \<open>The store\<close>

type_synonym job_files = "(string, job option) js_map"

definition write_job :: "job \<Rightarrow> job_files \<Rightarrow> job_files" where
  "write_job j files = jm_set files (jb_id j) (Some j)"

definition store_save :: "job \<Rightarrow> job_files \<Rightarrow> unit job_result \<times> job_files" where
  "store_save j files =
     (case assertSafeJobId (jb_id j) of Inl e \<Rightarrow> (Inl e, files) | Inr _ \<Rightarrow> (Inr (), write_job j files))"

definition readOne :: "bool \<Rightarrow> string \<Rightarrow> job_files \<Rightarrow> job option \<times> job_files" where
  "readOne persistMigration fid files =
     (case jm_get files fid of
        Some (Some raw) \<Rightarrow>
          if \<not> isSafeJobId fid then (None, files)
          else
            let counted = withCounters raw; strategic = withStrategy counted;
                files1 = (if strategy_migrates counted \<and> persistMigration then snd (store_save strategic files) else files);
                migrated = withCommand strategic
            in (Some migrated,
                if command_migrates strategic \<and> persistMigration then snd (store_save migrated files1) else files1)
      | _ \<Rightarrow> (None, files))"

text \<open>What a read returns, whatever it writes back.\<close>

definition job_at :: "string \<Rightarrow> job_files \<Rightarrow> job option" where
  "job_at fid files = fst (readOne False fid files)"

definition store_get :: "string \<Rightarrow> job_files \<Rightarrow> job option job_result \<times> job_files" where
  "store_get fid files =
     (case assertSafeJobId fid of
        Inl e \<Rightarrow> (Inl e, files)
      | Inr _ \<Rightarrow> (case readOne True fid files of (j, files1) \<Rightarrow> (Inr j, files1)))"

fun insert_job :: "(string \<Rightarrow> string \<Rightarrow> bool) \<Rightarrow> job \<Rightarrow> job list \<Rightarrow> job list" where
  "insert_job le j [] = [j]"
| "insert_job le j (k # ks) = (if le (jb_id j) (jb_id k) then j # k # ks else k # insert_job le j ks)"

fun read_all :: "string list \<Rightarrow> job_files \<Rightarrow> job list \<times> job_files" where
  "read_all [] files = ([], files)"
| "read_all (fid # fids) files =
     (if \<not> isSafeJobId fid then read_all fids files
      else
        let (j, files1) = readOne True fid files; (js, files2) = read_all fids files1
        in (case j of None \<Rightarrow> js | Some x \<Rightarrow> x # js, files2))"

definition store_list :: "(string \<Rightarrow> string \<Rightarrow> bool) \<Rightarrow> job_files \<Rightarrow> job list \<times> job_files" where
  "store_list le files =
     (let (js, files1) = read_all (map fst files) files in (foldr (insert_job le) js [], files1))"

definition store_create :: "job \<Rightarrow> job_files \<Rightarrow> unit job_result \<times> job_files" where
  "store_create j files =
     (case assertSafeJobId (jb_id j) of
        Inl e \<Rightarrow> (Inl e, files)
      | Inr _ \<Rightarrow>
          if job_at (jb_id j) files \<noteq> None then (Inl (JobAlreadyExists (jb_id j)), files)
          else (Inr (), write_job j files))"

text \<open>What the callback of \<open>mutate\<close> returns: the very value it was given, nothing, or another job.\<close>

datatype mutation = Unchanged | Removed | Replaced job

definition store_unlink :: "string \<Rightarrow> job_files \<Rightarrow> job_files" where
  "store_unlink fid files = jm_delete files fid"

definition store_mutate ::
  "string \<Rightarrow> (job option \<Rightarrow> mutation job_result) \<Rightarrow> job_files \<Rightarrow> job option job_result \<times> job_files" where
  "store_mutate fid update files =
     (case assertSafeJobId fid of
        Inl e \<Rightarrow> (Inl e, files)
      | Inr _ \<Rightarrow>
          let current = job_at fid files in
          (case update current of
             Inl e \<Rightarrow> (Inl e, files)
           | Inr Unchanged \<Rightarrow> (Inr current, files)
           | Inr Removed \<Rightarrow> (Inr None, if current = None then files else store_unlink fid files)
           | Inr (Replaced next) \<Rightarrow>
               if jb_id next \<noteq> fid then (Inl (IdChanged fid (jb_id next)), files)
               else (Inr (Some next), write_job next files)))"

definition store_delete :: "string \<Rightarrow> job_files \<Rightarrow> unit job_result \<times> job_files" where
  "store_delete fid files =
     (case assertSafeJobId fid of Inl e \<Rightarrow> (Inl e, files) | Inr _ \<Rightarrow> (Inr (), store_unlink fid files))"

section \<open>What a read returns\<close>

text \<open>A job file is in its canonical form when reading it changes nothing.\<close>

definition canonical_job :: "job \<Rightarrow> job" where
  "canonical_job j = withCommand (withStrategy (withCounters j))"

lemma job_at_eq:
  "job_at fid files = (case jm_get files fid of
     Some (Some raw) \<Rightarrow> if isSafeJobId fid then Some (canonical_job raw) else None | _ \<Rightarrow> None)"
  by (simp add: job_at_def readOne_def canonical_job_def Let_def split: option.splits)

lemma readOne_job: "fst (readOne persist fid files) = job_at fid files"
  by (simp add: job_at_eq readOne_def canonical_job_def Let_def split: option.splits)

lemma counters_fields [simp]:
  "jb_id (withCounters j) = jb_id j" "jb_args (withCounters j) = jb_args j" "jb_command (withCounters j) = jb_command j"
  "jb_builtin (withCounters j) = jb_builtin j" "jb_sessionStrategy (withCounters j) = jb_sessionStrategy j"
  by (simp_all add: withCounters_def)

lemma canonical_fields [simp]:
  "jb_id (canonical_job j) = jb_id j" "jb_enabled (canonical_job j) = jb_enabled j"
  "jb_generation (canonical_job j) = jb_generation j" "jb_pinnedSessionId (canonical_job j) = jb_pinnedSessionId j"
  "jb_channelId (canonical_job j) = jb_channelId j" "jb_peerId (canonical_job j) = jb_peerId j"
  "jb_builtin (canonical_job j) = jb_builtin j" "jb_max_runs (canonical_job j) = jb_max_runs j"
  "jb_history (canonical_job j) = Some (or_else (jb_history j) [])"
  "jb_run_count (canonical_job j) = Some (or_else (jb_run_count j) 0)"
  "jb_consecutive_failures (canonical_job j) = Some (or_else (jb_consecutive_failures j) 0)"
  "jb_max_consecutive_failures (canonical_job j) = jb_max_consecutive_failures j"
  by (simp_all add: canonical_job_def withCommand_def withStrategy_def withCounters_def)

lemma workspace_prompt: "workspace_of (j\<lparr>jb_args := jm_set (jb_args j) ''prompt'' x\<rparr>) = workspace_of j"
  by (simp add: workspace_of_def)

lemma canonical_workspace [simp]: "workspace_of (canonical_job j) = workspace_of j"
  by (simp add: canonical_job_def withCommand_def withStrategy_def withCounters_def workspace_of_def)

text \<open>Reading twice is reading once: every migration is finished by the first read.\<close>

lemma canonical_strategy: "\<not> strategy_migrates (canonical_job j)"
  by (auto simp: canonical_job_def strategy_migrates_def withStrategy_def withCommand_def withCounters_def
      workspace_of_def)

lemma canonical_command:
  "jb_command (canonical_job j) \<noteq> ''agent.invoke'' \<Longrightarrow> isBuiltinJob (canonical_job j) \<or> taskText (canonical_job j) = []"
  by (auto simp: canonical_job_def withCommand_def[of "withStrategy _"] command_migrates_def split: if_splits)

lemma canonical_idem [simp]: "canonical_job (canonical_job j) = canonical_job j"
proof -
  let ?c = "canonical_job j"
  have a: "withCounters ?c = ?c"
    by (simp add: withCounters_def)
  have b: "withStrategy ?c = ?c" using canonical_strategy by (simp add: withStrategy_def)
  have "\<not> command_migrates ?c" using canonical_command by (auto simp: command_migrates_def)
  then show ?thesis using a b by (simp add: canonical_job_def[of ?c] withCommand_def)
qed

text \<open>Writing a job and reading it.\<close>

lemma job_at_write:
  "job_at fid (write_job j files) =
     (if fid = jb_id j then if isSafeJobId fid then Some (canonical_job j) else None else job_at fid files)"
  by (simp add: job_at_eq write_job_def)

lemma job_at_unlink: "job_at fid (store_unlink k files) = (if fid = k then None else job_at fid files)"
  by (simp add: job_at_eq store_unlink_def)

lemma job_at_id: "job_at fid files = Some j \<Longrightarrow> isSafeJobId fid \<and> canonical_job j = j"
  by (auto simp: job_at_eq split: option.splits if_splits)

lemma store_mutate_safe:
  "store_mutate fid update files = (r, files') \<Longrightarrow> isSafeJobId fid \<Longrightarrow>
     (case update (job_at fid files) of
        Inr (Replaced next) \<Rightarrow>
          if jb_id next = fid then r = Inr (Some next) \<and> files' = write_job next files
          else r = Inl (IdChanged fid (jb_id next)) \<and> files' = files
      | Inr Unchanged \<Rightarrow> r = Inr (job_at fid files) \<and> files' = files
      | Inr Removed \<Rightarrow> r = Inr None \<and> files' = (if job_at fid files = None then files else store_unlink fid files)
      | Inl e \<Rightarrow> r = Inl e \<and> files' = files)"
  by (auto simp: store_mutate_def assertSafeJobId_def Let_def split: sum.splits mutation.splits if_splits)

end
