(* ===== verification/Scheduler.thy ===== *)
theory Scheduler
  imports JobStore
begin

text \<open>
  The scheduler: \<open>packages/sidecar/src/scheduler/runner.ts\<close> and \<open>cronerAdapter.ts\<close>. A fire is two
  steps: it begins with the lock file and ends with the outcome of the invocation, between which
  anything may happen. The job object a timer holds is shared by all its fires, which change its
  history in place, so objects have addresses (\<open>sc_objs\<close>). Croner's next run, the processes that
  are alive and the clock are parameters.
\<close>

section \<open>Definitions\<close>

record run_update =
  ru_run_count :: int
  ru_consecutive_failures :: int
  ru_disabled_reason :: "string option"

definition completed_reason :: "int \<Rightarrow> int \<Rightarrow> string" where
  "completed_reason count m = ''completed '' @ int_text count @ '' of '' @ int_text m @ '' scheduled run(s)''"

definition failures_reason :: "int \<Rightarrow> string" where
  "failures_reason n = ''disabled after '' @ int_text n @ '' consecutive failure(s)''"

definition applyRunOutcome :: "job \<Rightarrow> bool \<Rightarrow> run_update" where
  "applyRunOutcome latest ok =
     (let run_count = or_else (jb_run_count latest) 0 + (if ok then 1 else 0);
          failures = (if ok then 0 else or_else (jb_consecutive_failures latest) 0 + 1);
          budget = or_else (jb_max_consecutive_failures latest) DEFAULT_MAX_CONSECUTIVE_FAILURES;
          update = \<lparr>ru_run_count = run_count, ru_consecutive_failures = failures, ru_disabled_reason = None\<rparr>;
          breaker = (if 0 < budget \<and> budget \<le> failures
                     then update\<lparr>ru_disabled_reason := Some (failures_reason failures)\<rparr> else update)
      in case jb_max_runs latest of
           None \<Rightarrow> breaker
         | Some m \<Rightarrow>
             if m \<le> run_count then update\<lparr>ru_disabled_reason := Some (completed_reason run_count m)\<rparr> else breaker)"

datatype lock_file = GarbageLock | Lock "int option" "stamp option"

record fire =
  fi_ref :: nat
  fi_obj :: nat
  fi_lock :: string
  fi_timedOut :: bool

record scheduler =
  sc_files :: job_files
  sc_locks :: "(string, lock_file) js_map"
  sc_objs :: "job list"
  sc_handles :: "(string, nat) js_map"
  sc_timers :: "nat list"
  sc_fires :: "fire list"
  sc_next :: nat
  sc_running :: bool
  sc_bootReplayed :: bool

record sched_env =
  se_pid :: int
  se_alive :: "int \<Rightarrow> bool"
  se_cronNext :: "string \<Rightarrow> string option \<Rightarrow> int \<Rightarrow> int option"
  se_staleLockMs :: int
  se_fireTimeoutMs :: int
  se_le :: "string \<Rightarrow> string \<Rightarrow> bool"

definition new_scheduler :: "job_files \<Rightarrow> (string, lock_file) js_map \<Rightarrow> scheduler" where
  "new_scheduler files locks = \<lparr>sc_files = files, sc_locks = locks, sc_objs = [], sc_handles = [], sc_timers = [],
     sc_fires = [], sc_next = 0, sc_running = False, sc_bootReplayed = False\<rparr>"

definition nextFireAfter :: "sched_env \<Rightarrow> schedule \<Rightarrow> int \<Rightarrow> int option" where
  "nextFireAfter E spec from =
     (case spec of Interval ms \<Rightarrow> Some (from + ms) | Cron expr tz \<Rightarrow> se_cronNext E expr tz from)"

definition shouldReplayMissedRun :: "sched_env \<Rightarrow> int \<Rightarrow> job \<Rightarrow> bool" where
  "shouldReplayMissedRun E now j =
     (case jb_last_run_at j of
        None \<Rightarrow> True
      | Some None \<Rightarrow> False
      | Some (Some lastRun) \<Rightarrow>
          (case nextFireAfter E (jb_schedule j) lastRun of
             None \<Rightarrow> False
           | Some expected \<Rightarrow> 5000 < now - expected))"

definition lock_stale :: "sched_env \<Rightarrow> int \<Rightarrow> lock_file \<Rightarrow> bool" where
  "lock_stale E now l =
     (case l of
        GarbageLock \<Rightarrow> True
      | Lock pid started \<Rightarrow>
          (\<exists>s \<in> set_option started. \<exists>t \<in> set_option s. t < now - se_staleLockMs E) \<or>
          (\<exists>p \<in> set_option pid. \<not> se_alive E p))"

definition cleanStaleLocks :: "sched_env \<Rightarrow> int \<Rightarrow> (string, lock_file) js_map \<Rightarrow> (string, lock_file) js_map" where
  "cleanStaleLocks E now locks = filter (\<lambda>e. \<not> lock_stale E now (snd e)) locks"

subsection \<open>One fire\<close>

definition obj_at :: "nat \<Rightarrow> scheduler \<Rightarrow> job" where
  "obj_at r s = sc_objs s ! r"

definition set_obj :: "nat \<Rightarrow> job \<Rightarrow> scheduler \<Rightarrow> scheduler" where
  "set_obj r j s = s\<lparr>sc_objs := (sc_objs s)[r := j]\<rparr>"

definition new_obj :: "job \<Rightarrow> scheduler \<Rightarrow> nat \<times> scheduler" where
  "new_obj j s = (length (sc_objs s), s\<lparr>sc_objs := sc_objs s @ [j]\<rparr>)"

datatype fire_start = Skipped | Started nat

text \<open>\<open>runJob\<close> up to the invocation.\<close>

definition runJob_begin :: "sched_env \<Rightarrow> int \<Rightarrow> nat \<Rightarrow> scheduler \<Rightarrow> fire_start \<times> scheduler" where
  "runJob_begin E now r s =
     (let j = obj_at r s; key = jb_id j in
      if jm_get (sc_locks s) key \<noteq> None then (Skipped, s)
      else
        let entry = \<lparr>he_ref = sc_next s, he_started = Some now, he_ended = None, he_status = StRunning,
                     he_error = None, he_summary = None\<rparr>
        in (Started (sc_next s),
            set_obj r (j\<lparr>jb_history := Some (take HISTORY_LIMIT (entry # or_else (jb_history j) []))\<rparr>)
              (s\<lparr>sc_locks := jm_set (sc_locks s) key (Lock (Some (se_pid E)) (Some (Some now))),
                 sc_fires := \<lparr>fi_ref = sc_next s, fi_obj = r, fi_lock = key, fi_timedOut = False\<rparr> # sc_fires s,
                 sc_next := Suc (sc_next s)\<rparr>)))"

text \<open>\<open>Math.round\<close> is the floor of the number plus a half.\<close>

definition timeout_text :: "int \<Rightarrow> string" where
  "timeout_text ms = ''fire timeout after '' @ int_text ((ms + 30000) div 60000) @ ''m''"

datatype fire_result = Finished "string option" | Failed string | TimedOut

definition outcome_ok :: "fire_result \<Rightarrow> bool" where
  "outcome_ok v = (case v of Finished _ \<Rightarrow> True | _ \<Rightarrow> False)"

definition close_entry :: "sched_env \<Rightarrow> nat \<Rightarrow> int \<Rightarrow> fire_result \<Rightarrow> history_entry \<Rightarrow> history_entry" where
  "close_entry E r now v e =
     (if he_ref e \<noteq> r then e
      else (case v of
              Finished summary \<Rightarrow> e\<lparr>he_status := StOk, he_ended := Some (Some now),
                he_summary := coalesce summary (he_summary e)\<rparr>
            | Failed msg \<Rightarrow> e\<lparr>he_status := StErr, he_ended := Some (Some now), he_error := Some msg\<rparr>
            | TimedOut \<Rightarrow> e\<lparr>he_status := StErr, he_ended := Some (Some now), he_error := Some (timeout_text (se_fireTimeoutMs E))\<rparr>))"

definition closed_obj :: "sched_env \<Rightarrow> int \<Rightarrow> fire_result \<Rightarrow> fire \<Rightarrow> job \<Rightarrow> job" where
  "closed_obj E now v f j =
     j\<lparr>jb_history := map_option (map (close_entry E (fi_ref f) now v)) (jb_history j), jb_last_run_at := Some (Some now)\<rparr>"

text \<open>The write at the end of a fire, on the stored copy.\<close>

definition record_run :: "job \<Rightarrow> int \<Rightarrow> bool \<Rightarrow> job \<Rightarrow> job" where
  "record_run obj now ok latest =
     (let u = applyRunOutcome latest ok;
          next = latest\<lparr>jb_history := jb_history obj, jb_last_run_at := Some (Some now),
            jb_run_count := Some (ru_run_count u), jb_consecutive_failures := Some (ru_consecutive_failures u)\<rparr>
      in case ru_disabled_reason u of
           None \<Rightarrow> next
         | Some why \<Rightarrow> next\<lparr>jb_enabled := False, jb_disabled_reason := Some why\<rparr>)"

definition end_update :: "job \<Rightarrow> int \<Rightarrow> bool \<Rightarrow> job option \<Rightarrow> mutation job_result" where
  "end_update obj now ok latest =
     (case latest of
        None \<Rightarrow> Inr Unchanged
      | Some l \<Rightarrow> if jb_generation l \<noteq> jb_generation obj then Inr Unchanged else Inr (Replaced (record_run obj now ok l)))"

definition retired_by :: "job \<Rightarrow> bool \<Rightarrow> job option \<Rightarrow> bool" where
  "retired_by obj ok latest =
     (case latest of
        None \<Rightarrow> False
      | Some l \<Rightarrow> jb_generation l = jb_generation obj \<and> ru_disabled_reason (applyRunOutcome l ok) \<noteq> None)"

text \<open>A timer is live until its handle is stopped; \<open>handles\<close> keeps the last one of each job.\<close>

definition detach :: "string \<Rightarrow> scheduler \<Rightarrow> scheduler" where
  "detach key s =
     (case jm_get (sc_handles s) key of
        None \<Rightarrow> s
      | Some r \<Rightarrow> s\<lparr>sc_timers := filter (\<lambda>x. x \<noteq> r) (sc_timers s), sc_handles := jm_delete (sc_handles s) key\<rparr>)"

text \<open>\<open>runJob\<close> from the outcome on; \<open>written\<close> is false when the store's write failed. After a
  time-out the lock stays until the invocation itself settles.\<close>

definition runJob_end :: "sched_env \<Rightarrow> int \<Rightarrow> fire_result \<Rightarrow> bool \<Rightarrow> fire \<Rightarrow> scheduler \<Rightarrow> scheduler" where
  "runJob_end E now v written f s =
     (let j = closed_obj E now v f (obj_at (fi_obj f) s);
          ok = outcome_ok v;
          (r, files) = store_mutate (jb_id j) (end_update j now ok) (sc_files s);
          landed = (written \<and> (case r of Inr _ \<Rightarrow> True | Inl _ \<Rightarrow> False));
          s1 = (set_obj (fi_obj f) j s)\<lparr>sc_files := (if landed then files else sc_files s)\<rparr>;
          s2 = (if landed \<and> retired_by j ok (job_at (jb_id j) (sc_files s)) then detach (jb_id j) s1 else s1)
      in if v = TimedOut
         then s2\<lparr>sc_fires := map (\<lambda>x. if fi_ref x = fi_ref f then x\<lparr>fi_timedOut := True\<rparr> else x) (sc_fires s2)\<rparr>
         else s2\<lparr>sc_fires := filter (\<lambda>x. fi_ref x \<noteq> fi_ref f) (sc_fires s2),
                 sc_locks := jm_delete (sc_locks s2) (fi_lock f)\<rparr>)"

definition late_completion :: "fire \<Rightarrow> scheduler \<Rightarrow> scheduler" where
  "late_completion f s =
     s\<lparr>sc_fires := filter (\<lambda>x. fi_ref x \<noteq> fi_ref f) (sc_fires s), sc_locks := jm_delete (sc_locks s) (fi_lock f)\<rparr>"

subsection \<open>Timers\<close>

definition attach_obj :: "nat \<Rightarrow> scheduler \<Rightarrow> scheduler" where
  "attach_obj r s = s\<lparr>sc_timers := r # sc_timers s, sc_handles := jm_set (sc_handles s) (jb_id (obj_at r s)) r\<rparr>"

definition attach :: "job \<Rightarrow> scheduler \<Rightarrow> scheduler" where
  "attach j s = (let (r, s1) = new_obj j s in attach_obj r s1)"

definition sched_stop :: "scheduler \<Rightarrow> scheduler" where
  "sched_stop s =
     s\<lparr>sc_timers := filter (\<lambda>r. r \<notin> snd ` set (sc_handles s)) (sc_timers s), sc_handles := [], sc_running := False\<rparr>"

text \<open>\<open>reload\<close> waits for the store between its two halves.\<close>

definition reload_attach :: "string \<Rightarrow> scheduler \<Rightarrow> scheduler" where
  "reload_attach key s =
     (case store_get key (sc_files s) of
        (Inl e, files) \<Rightarrow> s
      | (Inr None, files) \<Rightarrow> s\<lparr>sc_files := files\<rparr>
      | (Inr (Some j), files) \<Rightarrow>
          let s1 = s\<lparr>sc_files := files\<rparr> in if jb_enabled j then attach j s1 else s1)"

definition reload :: "string \<Rightarrow> scheduler \<Rightarrow> scheduler" where
  "reload key s = reload_attach key (detach key s)"

datatype run_now = JobMissing | RunInvalid job_error | RunStart fire_start

definition sched_runNow :: "sched_env \<Rightarrow> int \<Rightarrow> string \<Rightarrow> scheduler \<Rightarrow> run_now \<times> scheduler" where
  "sched_runNow E now key s =
     (case store_get key (sc_files s) of
        (Inr (Some j), files) \<Rightarrow>
          let (r, s1) = new_obj j (s\<lparr>sc_files := files\<rparr>); (st, s2) = runJob_begin E now r s1
          in (RunStart st, s2)
      | (Inr None, files) \<Rightarrow> (JobMissing, s\<lparr>sc_files := files\<rparr>)
      | (Inl e, files) \<Rightarrow> (RunInvalid e, s))"

definition timer_fire :: "sched_env \<Rightarrow> int \<Rightarrow> nat \<Rightarrow> scheduler \<Rightarrow> scheduler" where
  "timer_fire E now r s = (if r \<in> set (sc_timers s) then snd (runJob_begin E now r s) else s)"

text \<open>\<open>start\<close>: the jobs of the list become objects, which the replay at boot and the timers share.\<close>

definition boot_fire :: "sched_env \<Rightarrow> int \<Rightarrow> nat \<Rightarrow> scheduler \<Rightarrow> scheduler" where
  "boot_fire E now r s =
     (let j = obj_at r s in
      if jb_enabled j \<and> jb_run_on_startup j \<and> shouldReplayMissedRun E now j then snd (runJob_begin E now r s) else s)"

definition boot_attach :: "nat \<Rightarrow> scheduler \<Rightarrow> scheduler" where
  "boot_attach r s = (if jb_enabled (obj_at r s) then attach_obj r s else s)"

definition sched_start :: "sched_env \<Rightarrow> int \<Rightarrow> scheduler \<Rightarrow> scheduler" where
  "sched_start E now s =
     (if sc_running s then s
      else
        let s1 = s\<lparr>sc_running := True, sc_locks := cleanStaleLocks E now (sc_locks s)\<rparr>;
            (jobs, files) = store_list (se_le E) (sc_files s1);
            refs = [length (sc_objs s1)..<length (sc_objs s1) + length jobs];
            s2 = s1\<lparr>sc_files := files, sc_objs := sc_objs s1 @ jobs\<rparr>;
            s3 = (if sc_bootReplayed s2 then s2
                  else foldl (\<lambda>x r. boot_fire E now r x) (s2\<lparr>sc_bootReplayed := True\<rparr>) refs)
        in foldl (\<lambda>x r. boot_attach r x) s3 refs)"

subsection \<open>The scheduler in time\<close>

text \<open>The process starts its scheduler once, before anything has fired.\<close>

inductive fire_step :: "sched_env \<Rightarrow> scheduler \<Rightarrow> scheduler \<Rightarrow> bool" for E where
  step_timer: "fire_step E s (timer_fire E now r s)"
| step_runNow: "fire_step E s (snd (sched_runNow E now key s))"
| step_end: "f \<in> set (sc_fires s) \<Longrightarrow> \<not> fi_timedOut f \<Longrightarrow> fire_step E s (runJob_end E now v written f s)"
| step_late: "f \<in> set (sc_fires s) \<Longrightarrow> fi_timedOut f \<Longrightarrow> fire_step E s (late_completion f s)"
| step_detach: "fire_step E s (detach key s)"
| step_attach: "fire_step E s (reload_attach key s)"
| step_stop: "fire_step E s (sched_stop s)"
| step_start: "sc_fires s = [] \<Longrightarrow> fire_step E s (sched_start E now s)"

text \<open>Other writers of the files (the controller, the pin callback, the user) may change them at any
  time, and the controller's \<open>delete\<close> unlinks the lock of the job, also while it runs. The
  identifiers of the jobs that were deleted so far are kept beside the scheduler.\<close>

definition sched_unlock :: "string \<Rightarrow> scheduler \<Rightarrow> scheduler" where
  "sched_unlock key s = s\<lparr>sc_locks := jm_delete (sc_locks s) key\<rparr>"

type_synonym sched_history = "string set \<times> scheduler"

inductive sched_step :: "sched_env \<Rightarrow> sched_history \<Rightarrow> sched_history \<Rightarrow> bool" for E where
  step_own: "fire_step E s t \<Longrightarrow> sched_step E (D, s) (D, t)"
| step_edited: "sched_step E (D, s) (D, s\<lparr>sc_files := files\<rparr>)"
| step_delete: "sched_step E (D, s) (insert key D, sched_unlock key s)"

section \<open>Invariant\<close>

text \<open>A fire knows its object; a fire whose job was not deleted holds the job's lock.\<close>

definition fire_ok :: "string set \<Rightarrow> scheduler \<Rightarrow> fire \<Rightarrow> bool" where
  "fire_ok D s f \<longleftrightarrow> fi_ref f < sc_next s \<and> fi_obj f < length (sc_objs s) \<and>
     jb_id (obj_at (fi_obj f) s) = fi_lock f \<and> (fi_lock f \<notin> D \<longrightarrow> jm_get (sc_locks s) (fi_lock f) \<noteq> None)"

text \<open>The object of a running fire carries the fire's entry in front.\<close>

definition entry_open :: "scheduler \<Rightarrow> fire \<Rightarrow> bool" where
  "entry_open s f \<longleftrightarrow> (\<exists>e h. jb_history (obj_at (fi_obj f) s) = Some (e # h) \<and> he_ref e = fi_ref f \<and>
     he_status e = StRunning \<and> length (e # h) \<le> HISTORY_LIMIT)"

definition fire_good :: "string set \<Rightarrow> scheduler \<Rightarrow> fire \<Rightarrow> bool" where
  "fire_good D s f \<longleftrightarrow> fire_ok D s f \<and> (fi_lock f \<notin> D \<and> \<not> fi_timedOut f \<longrightarrow> entry_open s f)"

definition handles_ok :: "scheduler \<Rightarrow> bool" where
  "handles_ok s \<longleftrightarrow> (\<forall>r \<in> set (sc_timers s). r < length (sc_objs s)) \<and> (\<forall>k r. jm_get (sc_handles s) k = Some r \<longrightarrow> r < length (sc_objs s) \<and> jb_id (obj_at r s) = k)"

definition one_per_lock :: "string set \<Rightarrow> scheduler \<Rightarrow> bool" where
  "one_per_lock D s \<longleftrightarrow> inj_on fi_lock {f \<in> set (sc_fires s). fi_lock f \<notin> D}"

definition fires_ok :: "string set \<Rightarrow> scheduler \<Rightarrow> bool" where
  "fires_ok D s \<longleftrightarrow> distinct (map fi_ref (sc_fires s)) \<and> one_per_lock D s \<and> (\<forall>f \<in> set (sc_fires s). fire_good D s f)"

definition sched_inv :: "string set \<Rightarrow> scheduler \<Rightarrow> bool" where
  "sched_inv D s \<longleftrightarrow> handles_ok s \<and> fires_ok D s"

lemmas inv_defs = sched_inv_def handles_ok_def fires_ok_def fire_good_def fire_ok_def entry_open_def one_per_lock_def

lemma detach_frame [simp]:
  "sc_files (detach k s) = sc_files s" "sc_locks (detach k s) = sc_locks s" "sc_objs (detach k s) = sc_objs s"
  "sc_fires (detach k s) = sc_fires s" "sc_next (detach k s) = sc_next s"
  "jm_get (sc_handles (detach k s)) k = None"
  by (simp_all add: detach_def split: option.splits)

text \<open>Steps that change neither fires nor locks and only add objects.\<close>

lemma fires_ok_frame:
  assumes "fires_ok D s" "sc_fires t = sc_fires s" "sc_locks t = sc_locks s" "sc_next t = sc_next s"
    and "length (sc_objs s) \<le> length (sc_objs t)"
    and "\<forall>r < length (sc_objs s). obj_at r t = obj_at r s"
  shows "fires_ok D t"
  using assms by (auto simp: fires_ok_def one_per_lock_def fire_good_def fire_ok_def entry_open_def)

lemma one_per_lock_Cons:
  assumes "one_per_lock D s" "sc_fires t = g # sc_fires s"
    and "\<And>f. f \<in> set (sc_fires s) \<Longrightarrow> fi_lock f \<notin> D \<Longrightarrow> fi_lock f \<noteq> fi_lock g"
  shows "one_per_lock D t"
  unfolding one_per_lock_def
proof (rule inj_onI)
  fix a b
  assume "a \<in> {f \<in> set (sc_fires t). fi_lock f \<notin> D}" "b \<in> {f \<in> set (sc_fires t). fi_lock f \<notin> D}" "fi_lock a = fi_lock b"
  then have ab: "a = g \<or> a \<in> set (sc_fires s)" "b = g \<or> b \<in> set (sc_fires s)" "fi_lock a \<notin> D" "fi_lock a = fi_lock b"
    by (simp_all add: assms(2))
  then show "a = b"
    using assms(1,3) unfolding one_per_lock_def inj_on_def by (metis (mono_tags, lifting) mem_Collect_eq)
qed

lemma begin_inv:
  assumes "sched_inv D s" "r < length (sc_objs s)"
  shows "sched_inv D (snd (runJob_begin E now r s))"
proof (cases "jm_get (sc_locks s) (jb_id (obj_at r s)) = None")
  case False
  then show ?thesis using assms by (simp add: runJob_begin_def Let_def)
next
  case True
  let ?t = "snd (runJob_begin E now r s)" let ?key = "jb_id (obj_at r s)"
  let ?new = "\<lparr>fi_ref = sc_next s, fi_obj = r, fi_lock = ?key, fi_timedOut = False\<rparr>"
  have ids: "jb_id (obj_at x ?t) = jb_id (obj_at x s)" for x
    using True assms(2) by (cases "x = r") (auto simp: runJob_begin_def Let_def set_obj_def obj_at_def)
  have len: "length (sc_objs ?t) = length (sc_objs s)" and hs: "sc_handles ?t = sc_handles s" "sc_timers ?t = sc_timers s"
    and nx: "sc_next ?t = Suc (sc_next s)"
    and lk: "sc_locks ?t = jm_set (sc_locks s) ?key (Lock (Some (se_pid E)) (Some (Some now)))"
    and fs: "sc_fires ?t = ?new # sc_fires s"
    using True by (simp_all add: runJob_begin_def Let_def set_obj_def)
  have old: "fire_good D ?t f \<and> fi_ref f \<noteq> sc_next s \<and> (fi_lock f \<notin> D \<longrightarrow> fi_lock f \<noteq> ?key)"
    if f: "f \<in> set (sc_fires s)" for f
  proof -
    have ok: "fire_good D s f" using assms(1) f by (auto simp: sched_inv_def fires_ok_def)
    then have ne: "fi_lock f \<notin> D \<longrightarrow> fi_lock f \<noteq> ?key \<and> fi_obj f \<noteq> r" using True by (auto simp: fire_good_def fire_ok_def)
    moreover have "obj_at x ?t = obj_at x s" if "x \<noteq> r" for x
      using True that by (simp add: runJob_begin_def Let_def set_obj_def obj_at_def)
    ultimately show ?thesis using ok by (auto simp: fire_good_def fire_ok_def entry_open_def len nx lk ids)
  qed
  have "fire_good D ?t ?new"
    using True assms(2) ids[of r]
    by (simp add: fire_good_def fire_ok_def entry_open_def len nx lk,
        simp add: runJob_begin_def Let_def set_obj_def obj_at_def HISTORY_LIMIT_def)
  moreover have "sc_next s \<notin> fi_ref ` set (sc_fires s)" using old by fastforce
  moreover have "one_per_lock D ?t"
  proof (rule one_per_lock_Cons[OF _ fs])
    show "one_per_lock D s" using assms(1) by (simp add: sched_inv_def fires_ok_def)
    show "fi_lock f \<noteq> fi_lock ?new" if "f \<in> set (sc_fires s)" "fi_lock f \<notin> D" for f
      using old[OF that(1)] that(2) by simp
  qed
  ultimately have "fires_ok D ?t"
    using assms(1) old unfolding sched_inv_def fires_ok_def fs by simp
  moreover have "handles_ok ?t"
    using assms(1) ids by (auto simp: sched_inv_def handles_ok_def hs len)
  ultimately show ?thesis by (simp add: sched_inv_def)
qed

lemma closed_fields [simp]:
  "jb_id (closed_obj E now v f j) = jb_id j" "jb_generation (closed_obj E now v f j) = jb_generation j"
  by (simp_all add: closed_obj_def)

text \<open>What the end of a fire changes.\<close>

lemma end_parts:
  shows "length (sc_objs (runJob_end E now v w f s)) = length (sc_objs s)"
    and "x \<noteq> fi_obj f \<Longrightarrow> obj_at x (runJob_end E now v w f s) = obj_at x s"
    and "jb_id (obj_at x (runJob_end E now v w f s)) = jb_id (obj_at x s)"
    and "sc_next (runJob_end E now v w f s) = sc_next s"
    and "jm_get (sc_handles (runJob_end E now v w f s)) k = Some r \<Longrightarrow> jm_get (sc_handles s) k = Some r"
    and "r \<in> set (sc_timers (runJob_end E now v w f s)) \<Longrightarrow> r \<in> set (sc_timers s)"
    and "sc_fires (runJob_end E now v w f s) = (if v = TimedOut
      then map (\<lambda>x. if fi_ref x = fi_ref f then x\<lparr>fi_timedOut := True\<rparr> else x) (sc_fires s)
      else filter (\<lambda>x. fi_ref x \<noteq> fi_ref f) (sc_fires s))"
    and "sc_locks (runJob_end E now v w f s) = (if v = TimedOut then sc_locks s else jm_delete (sc_locks s) (fi_lock f))"
proof -
  let ?j = "closed_obj E now v f (obj_at (fi_obj f) s)"
  have o: "sc_objs (runJob_end E now v w f s) = (sc_objs s)[fi_obj f := ?j]"
    by (simp add: runJob_end_def Let_def case_prod_beta set_obj_def detach_def split: option.splits)
  then show "length (sc_objs (runJob_end E now v w f s)) = length (sc_objs s)"
    and "x \<noteq> fi_obj f \<Longrightarrow> obj_at x (runJob_end E now v w f s) = obj_at x s"
    by (simp_all add: obj_at_def)
  show "jb_id (obj_at x (runJob_end E now v w f s)) = jb_id (obj_at x s)"
    by (cases "x < length (sc_objs s)"; cases "x = fi_obj f") (simp_all add: obj_at_def o nth_list_update list_update_beyond)
  show "sc_next (runJob_end E now v w f s) = sc_next s"
    "jm_get (sc_handles (runJob_end E now v w f s)) k = Some r \<Longrightarrow> jm_get (sc_handles s) k = Some r"
    "r \<in> set (sc_timers (runJob_end E now v w f s)) \<Longrightarrow> r \<in> set (sc_timers s)"
    "sc_fires (runJob_end E now v w f s) = (if v = TimedOut
      then map (\<lambda>x. if fi_ref x = fi_ref f then x\<lparr>fi_timedOut := True\<rparr> else x) (sc_fires s)
      else filter (\<lambda>x. fi_ref x \<noteq> fi_ref f) (sc_fires s))"
    "sc_locks (runJob_end E now v w f s) = (if v = TimedOut then sc_locks s else jm_delete (sc_locks s) (fi_lock f))"
    by (auto simp: runJob_end_def Let_def case_prod_beta set_obj_def detach_def split: if_splits option.splits)
qed

text \<open>Fires by their numbers and by their locks.\<close>

lemma fire_by_ref: "fires_ok D s \<Longrightarrow> f \<in> set (sc_fires s) \<Longrightarrow> g \<in> set (sc_fires s) \<Longrightarrow> fi_ref f = fi_ref g \<Longrightarrow> f = g"
  unfolding fires_ok_def by (metis (no_types, lifting) distinct_map inj_onD)

lemma fire_by_lock:
  "one_per_lock D s \<Longrightarrow> f \<in> set (sc_fires s) \<Longrightarrow> g \<in> set (sc_fires s) \<Longrightarrow> fi_lock f = fi_lock g \<Longrightarrow>
     fi_lock f \<notin> D \<Longrightarrow> f = g"
  by (auto simp: one_per_lock_def inj_on_def)

lemma other_fire:
  assumes "fires_ok D s" "f \<in> set (sc_fires s)" "g \<in> set (sc_fires s)" "fi_ref g \<noteq> fi_ref f" "fi_lock g \<notin> D"
  shows "fi_lock g \<noteq> fi_lock f" "fi_obj g \<noteq> fi_obj f"
proof -
  show l: "fi_lock g \<noteq> fi_lock f"
    using fire_by_lock[of D s g f] assms by (auto simp: fires_ok_def)
  show "fi_obj g \<noteq> fi_obj f"
    using l assms(1-3) unfolding fires_ok_def fire_good_def fire_ok_def by metis
qed

lemma end_inv:
  assumes "sched_inv D s" "f \<in> set (sc_fires s)"
  shows "sched_inv D (runJob_end E now v w f s)"
proof -
  let ?t = "runJob_end E now v w f s"
  have fo: "fires_ok D s" using assms(1) by (simp add: sched_inv_def)
  then have op: "one_per_lock D s" by (simp add: fires_ok_def)
  have h: "handles_ok ?t"
    using assms(1) end_parts(5,6) unfolding sched_inv_def handles_ok_def end_parts(1,3) by blast
  have keep: "fire_good D ?t g" if g: "g \<in> set (sc_fires s)" "fi_ref g \<noteq> fi_ref f" for g
  proof -
    have "fire_good D s g" using fo g(1) by (auto simp: fires_ok_def)
    then show ?thesis
      using other_fire[OF fo assms(2) g] end_parts(2)[of "fi_obj g" f]
      by (auto simp: fire_good_def fire_ok_def entry_open_def end_parts(1,3,4,8))
  qed
  show ?thesis
  proof (cases "v = TimedOut")
    case True
    let ?u = "\<lambda>x. if fi_ref x = fi_ref f then x\<lparr>fi_timedOut := True\<rparr> else x"
    have fs: "sc_fires ?t = map ?u (sc_fires s)" using True by (simp add: end_parts(7))
    have "fire_good D s f" using fo assms(2) by (simp add: fires_ok_def)
    then have own: "fire_good D ?t (f\<lparr>fi_timedOut := True\<rparr>)"
      using True by (auto simp: fire_good_def fire_ok_def end_parts(1,3,4,8))
    have "map fi_ref (sc_fires ?t) = map fi_ref (sc_fires s)" by (simp add: fs comp_def)
    moreover have "fire_good D ?t x" if "x \<in> set (sc_fires ?t)" for x
      using that keep own fire_by_ref[OF fo _ assms(2)] unfolding fs by auto
    moreover have "one_per_lock D ?t"
      unfolding one_per_lock_def
    proof (rule inj_onI)
      fix a b
      assume ab: "a \<in> {g \<in> set (sc_fires ?t). fi_lock g \<notin> D}" "b \<in> {g \<in> set (sc_fires ?t). fi_lock g \<notin> D}" "fi_lock a = fi_lock b"
      then have "a \<in> ?u ` set (sc_fires s)" "b \<in> ?u ` set (sc_fires s)" unfolding fs set_map by blast+
      then obtain x y where "a = ?u x" "b = ?u y" "x \<in> set (sc_fires s)" "y \<in> set (sc_fires s)" by blast
      then show "a = b" using ab fire_by_lock[OF op, of x y] by (auto split: if_splits)
    qed
    ultimately show ?thesis using h fo by (simp only: sched_inv_def fires_ok_def) blast
  next
    case False
    then have fs: "sc_fires ?t = filter (\<lambda>x. fi_ref x \<noteq> fi_ref f) (sc_fires s)" by (simp add: end_parts(7))
    have "one_per_lock D ?t" using op by (auto simp: one_per_lock_def fs inj_on_def)
    then have "fires_ok D ?t"
      using fo keep unfolding fires_ok_def fs by (simp add: distinct_map_filter)
    then show ?thesis using h by (simp add: sched_inv_def)
  qed
qed

lemma late_inv:
  assumes "sched_inv D s" "f \<in> set (sc_fires s)"
  shows "sched_inv D (late_completion f s)"
proof -
  have fo: "fires_ok D s" using assms(1) by (simp add: sched_inv_def)
  have "fire_good D (late_completion f s) g"
    if g: "g \<in> set (sc_fires s)" "fi_ref g \<noteq> fi_ref f" for g
    using fo g other_fire[OF fo assms(2) g]
    by (auto simp: fires_ok_def fire_good_def fire_ok_def entry_open_def late_completion_def obj_at_def)
  moreover have "one_per_lock D (late_completion f s)"
    using fo by (auto simp: fires_ok_def one_per_lock_def late_completion_def inj_on_def)
  ultimately have "fires_ok D (late_completion f s)"
    using fo by (auto simp: fires_ok_def late_completion_def distinct_map_filter)
  then show ?thesis using assms(1) by (simp add: sched_inv_def handles_ok_def late_completion_def obj_at_def)
qed

text \<open>The deletion of a job takes its fires out of what is promised.\<close>

lemma unlock_inv:
  assumes "sched_inv D s" shows "sched_inv (insert key D) (sched_unlock key s)"
proof -
  have "fire_good (insert key D) (sched_unlock key s) f" if "f \<in> set (sc_fires s)" for f
    using assms that
    by (auto simp: sched_inv_def fires_ok_def fire_good_def fire_ok_def entry_open_def sched_unlock_def obj_at_def)
  moreover have "one_per_lock (insert key D) (sched_unlock key s)"
    using assms by (auto simp: sched_inv_def fires_ok_def one_per_lock_def sched_unlock_def inj_on_def)
  ultimately show ?thesis
    using assms by (simp add: sched_inv_def handles_ok_def fires_ok_def sched_unlock_def obj_at_def)
qed

lemma files_inv: "sched_inv D (s\<lparr>sc_files := x\<rparr>) = sched_inv D s"
  by (simp add: sched_inv_def handles_ok_def fires_ok_def one_per_lock_def fire_good_def fire_ok_def entry_open_def obj_at_def)

lemma detach_inv: "sched_inv D s \<Longrightarrow> sched_inv D (detach k s)"
  by (auto simp: sched_inv_def handles_ok_def fires_ok_def one_per_lock_def fire_good_def fire_ok_def entry_open_def obj_at_def detach_def split: if_splits option.splits)

lemma handles_okD: "handles_ok s \<Longrightarrow> jm_get (sc_handles s) k = Some r \<Longrightarrow> r < length (sc_objs s) \<and> jb_id (obj_at r s) = k"
  unfolding handles_ok_def by blast

lemma more_objs_inv:
  assumes "sched_inv D s" "sc_fires t = sc_fires s" "sc_locks t = sc_locks s \<or> sc_fires s = []" "sc_next t = sc_next s"
    and "sc_handles t = sc_handles s" "sc_timers t = sc_timers s" "sc_objs t = sc_objs s @ js"
  shows "sched_inv D t"
proof -
  have o: "obj_at r t = obj_at r s" if "r < length (sc_objs s)" for r
    using that assms(7) by (simp add: obj_at_def nth_append)
  have "fires_ok D t"
  proof (cases "sc_fires s = []")
    case False
    have "fires_ok D s" using assms(1) by (simp add: sched_inv_def)
    moreover have "length (sc_objs s) \<le> length (sc_objs t)" using assms(7) by simp
    ultimately show ?thesis
      using fires_ok_frame assms(2,3,4) False o by blast
  qed (use assms(2) in \<open>simp add: fires_ok_def one_per_lock_def\<close>)
  moreover have "handles_ok t"
    unfolding handles_ok_def
  proof (intro conjI allI impI ballI)
    fix r assume "r \<in> set (sc_timers t)"
    then show "r < length (sc_objs t)" using assms(1,6,7) by (auto simp: sched_inv_def handles_ok_def)
  next
    fix k r assume "jm_get (sc_handles t) k = Some r"
    then have "r < length (sc_objs s) \<and> jb_id (obj_at r s) = k"
      using assms(1,5) by (intro handles_okD) (simp_all add: sched_inv_def)
    then show "r < length (sc_objs t)" "jb_id (obj_at r t) = k" using o assms(7) by simp_all
  qed
  ultimately show ?thesis by (simp add: sched_inv_def)
qed

lemma new_obj_inv:
  assumes "sched_inv D s" "new_obj j s = (r, t)"
  shows "sched_inv D t" "r < length (sc_objs t)"
proof -
  have t: "t = s\<lparr>sc_objs := sc_objs s @ [j]\<rparr>" "r = length (sc_objs s)" using assms(2) by (auto simp: new_obj_def)
  show "sched_inv D t" by (rule more_objs_inv[OF assms(1), of _ "[j]"]) (simp_all add: t)
  show "r < length (sc_objs t)" by (simp add: t)
qed

lemma attach_obj_inv: "sched_inv D s \<Longrightarrow> r < length (sc_objs s) \<Longrightarrow> sched_inv D (attach_obj r s)"
  by (auto simp: sched_inv_def handles_ok_def fires_ok_def one_per_lock_def fire_good_def fire_ok_def entry_open_def obj_at_def attach_obj_def split: if_splits)

lemma attach_inv: "sched_inv D s \<Longrightarrow> sched_inv D (attach j s)"
  using new_obj_inv attach_obj_inv by (auto simp: attach_def split: prod.splits)

lemma reload_attach_inv: "sched_inv D s \<Longrightarrow> sched_inv D (reload_attach k s)"
  by (auto simp: reload_attach_def Let_def files_inv split: prod.splits sum.splits option.splits intro!: attach_inv)

lemma timer_inv_sched: "sched_inv D s \<Longrightarrow> sched_inv D (timer_fire E now r s)"
  using begin_inv by (auto simp: timer_fire_def sched_inv_def handles_ok_def)

lemma runNow_inv:
  assumes "sched_inv D s"
  shows "sched_inv D (snd (sched_runNow E now k s))"
proof -
  have "sched_inv D (snd (runJob_begin E now (length (sc_objs s)) (s\<lparr>sc_files := files, sc_objs := sc_objs s @ [j]\<rparr>)))" for j files
    using new_obj_inv[of D "s\<lparr>sc_files := files\<rparr>" j] assms by (intro begin_inv) (simp_all add: files_inv new_obj_def)
  then show ?thesis
    using assms by (simp add: sched_runNow_def files_inv new_obj_def case_prod_beta Let_def split: prod.splits sum.splits option.splits)
qed


lemma boot_fire_inv: "sched_inv D s \<Longrightarrow> r < length (sc_objs s) \<Longrightarrow> sched_inv D (boot_fire E now r s)"
  using begin_inv by (simp add: boot_fire_def Let_def)

lemma begin_objs [simp]: "length (sc_objs (snd (runJob_begin E now r s))) = length (sc_objs s)"
  by (simp add: runJob_begin_def Let_def set_obj_def)

lemma boot_objs [simp]:
  "length (sc_objs (boot_fire E now r s)) = length (sc_objs s)" "length (sc_objs (boot_attach r s)) = length (sc_objs s)"
  by (simp_all add: boot_fire_def Let_def boot_attach_def attach_obj_def)

lemma boot_fires_inv:
  "sched_inv D s \<Longrightarrow> \<forall>r \<in> set rs. r < length (sc_objs s) \<Longrightarrow>
     sched_inv D (foldl (\<lambda>x r. boot_fire E now r x) s rs) \<and>
     length (sc_objs (foldl (\<lambda>x r. boot_fire E now r x) s rs)) = length (sc_objs s)"
  by (induction rs arbitrary: s) (simp_all add: boot_fire_inv)

lemma boot_attach_step: "sched_inv D s \<Longrightarrow> r < length (sc_objs s) \<Longrightarrow> sched_inv D (boot_attach r s)"
  by (simp add: boot_attach_def attach_obj_inv)

lemma boot_attach_inv:
  "sched_inv D s \<Longrightarrow> \<forall>r \<in> set rs. r < length (sc_objs s) \<Longrightarrow> sched_inv D (foldl (\<lambda>x r. boot_attach r x) s rs)"
  by (induction rs arbitrary: s) (simp_all add: boot_attach_step)

lemma start_inv_sched:
  assumes "sched_inv D s" "sc_fires s = []"
  shows "sched_inv D (sched_start E now s)"
proof (cases "sc_running s")
  case True
  then show ?thesis using assms(1) by (simp add: sched_start_def)
next
  case False
  define jobs files where "jobs = fst (store_list (se_le E) (sc_files s))" and "files = snd (store_list (se_le E) (sc_files s))"
  define s2 where "s2 = s\<lparr>sc_running := True, sc_locks := cleanStaleLocks E now (sc_locks s), sc_files := files,
      sc_objs := sc_objs s @ jobs\<rparr>"
  let ?refs = "[length (sc_objs s)..<length (sc_objs s) + length jobs]"
  let ?s3 = "if sc_bootReplayed s2 then s2 else foldl (\<lambda>x r. boot_fire E now r x) (s2\<lparr>sc_bootReplayed := True\<rparr>) ?refs"
  have i2: "sched_inv D s2" "sched_inv D (s2\<lparr>sc_bootReplayed := True\<rparr>)"
    by (rule more_objs_inv[OF assms(1), of _ jobs]; simp add: s2_def assms(2))+
  have len: "length (sc_objs s2) = length (sc_objs s) + length jobs" by (simp add: s2_def)
  have i3: "sched_inv D ?s3 \<and> length (sc_objs ?s3) = length (sc_objs s2)"
    using i2 boot_fires_inv[of D "s2\<lparr>sc_bootReplayed := True\<rparr>" ?refs E now] len by simp
  have "sched_start E now s = foldl (\<lambda>x r. boot_attach r x) ?s3 ?refs"
    using False by (simp add: sched_start_def Let_def case_prod_beta jobs_def files_def s2_def)
  then show ?thesis using boot_attach_inv[of D ?s3 ?refs] i3 len by simp
qed

lemma stop_inv_sched: "sched_inv D s \<Longrightarrow> sched_inv D (sched_stop s)"
  by (simp add: sched_stop_def sched_inv_def handles_ok_def fires_ok_def one_per_lock_def fire_good_def fire_ok_def entry_open_def obj_at_def jm_get_def)

lemma fire_step_inv: "fire_step E s t \<Longrightarrow> sched_inv D s \<Longrightarrow> sched_inv D t"
  by (erule fire_step.cases)
    (auto intro: timer_inv_sched runNow_inv end_inv late_inv detach_inv reload_attach_inv start_inv_sched stop_inv_sched)

interpretation sched: transition_invariant "sched_step E" "({}, new_scheduler files locks)" "\<lambda>(D, s). sched_inv D s"
proof
  show "case ({}, new_scheduler files locks) of (D, s) \<Rightarrow> sched_inv D s"
    by (simp add: inv_defs new_scheduler_def jm_get_def)
  show "case t of (D, s) \<Rightarrow> sched_inv D s" if "sched_step E s t" "case s of (D, s) \<Rightarrow> sched_inv D s" for s t
    using that by (auto elim!: sched_step.cases simp: files_inv fire_step_inv unlock_inv)
qed

lemma reachable_inv: "(sched_step E)\<^sup>*\<^sup>* ({}, new_scheduler files locks) (D, s) \<Longrightarrow> sched_inv D s"
  using sched.I_reachable by fastforce

section \<open>The end of a fire\<close>

lemma canonical_no_migration: "canonical_job l = l \<Longrightarrow> \<not> strategy_migrates l \<and> \<not> command_migrates l"
  using canonical_strategy[of l] canonical_command[of l] by (auto simp: command_migrates_def)

lemma canonical_record:
  assumes "canonical_job l = l" "jb_history obj \<noteq> None"
  shows "canonical_job (record_run obj now ok l) = record_run obj now ok l"
proof -
  let ?n = "record_run obj now ok l"
  have f: "jb_args ?n = jb_args l" "jb_command ?n = jb_command l" "jb_builtin ?n = jb_builtin l"
    "jb_sessionStrategy ?n = jb_sessionStrategy l" "jb_history ?n = jb_history obj"
    "jb_run_count ?n \<noteq> None" "jb_consecutive_failures ?n \<noteq> None"
    by (auto simp: record_run_def Let_def split: option.splits)
  have "withCounters ?n = ?n"
    using f(5-7) assms(2) by (auto simp: withCounters_def)
  moreover have "\<not> strategy_migrates ?n" "\<not> command_migrates ?n"
    using canonical_no_migration[OF assms(1)] f(1-4)
    by (simp_all add: strategy_migrates_def command_migrates_def workspace_of_def isBuiltinJob_def taskText_def)
  ultimately show ?thesis by (simp add: canonical_job_def withStrategy_def withCommand_def)
qed

lemma record_fields:
  "jb_id (record_run obj now ok l) = jb_id l" "jb_history (record_run obj now ok l) = jb_history obj"
  "jb_run_count (record_run obj now ok l) = Some (or_else (jb_run_count l) 0 + (if ok then 1 else 0))"
  "jb_consecutive_failures (record_run obj now ok l) =
     Some (if ok then 0 else or_else (jb_consecutive_failures l) 0 + 1)"
  "(record_run obj now ok l)\<lparr>jb_history := jb_history l, jb_last_run_at := jb_last_run_at l,
      jb_run_count := jb_run_count l, jb_consecutive_failures := jb_consecutive_failures l,
      jb_enabled := jb_enabled l, jb_disabled_reason := jb_disabled_reason l\<rparr> = l"
  by (auto simp: record_run_def applyRunOutcome_def Let_def split: option.splits)

lemma record_enabled:
  "jb_enabled (record_run obj now ok l) \<longleftrightarrow> jb_enabled l \<and> ru_disabled_reason (applyRunOutcome l ok) = None"
  by (simp add: record_run_def Let_def split: option.splits)

text \<open>A job stays enabled only while both of its caps have room.\<close>

definition has_room :: "job \<Rightarrow> bool" where
  "has_room j \<longleftrightarrow> (\<forall>m \<in> set_option (jb_max_runs j). or_else (jb_run_count j) 0 < m) \<and>
     (let budget = or_else (jb_max_consecutive_failures j) DEFAULT_MAX_CONSECUTIVE_FAILURES
      in budget \<le> 0 \<or> or_else (jb_consecutive_failures j) 0 < budget)"

lemma has_room_record: "ru_disabled_reason (applyRunOutcome l ok) = None \<longleftrightarrow> has_room (record_run obj now ok l)"
proof -
  have "jb_max_runs (record_run obj now ok l) = jb_max_runs l"
    "jb_max_consecutive_failures (record_run obj now ok l) = jb_max_consecutive_failures l"
    by (simp_all add: record_run_def Let_def split: option.splits)
  then show ?thesis
    unfolding has_room_def record_fields by (auto simp: applyRunOutcome_def Let_def split: option.splits)
qed

lemma close_entry_head:
  "he_ref e = r \<Longrightarrow> he_ref (close_entry E r now v e) = r \<and>
     he_status (close_entry E r now v e) = (if outcome_ok v then StOk else StErr) \<and>
     he_ended (close_entry E r now v e) = Some (Some now)"
  by (simp add: close_entry_def outcome_ok_def split: fire_result.splits)

text \<open>The end of a running fire, on the file of its job.\<close>

lemma end_written:
  assumes "sched_inv D s" "f \<in> set (sc_fires s)" "\<not> fi_timedOut f" "fi_lock f \<notin> D"
    and "job_at (fi_lock f) (sc_files s) = Some l" "jb_id l = fi_lock f"
    and "jb_generation l = jb_generation (obj_at (fi_obj f) s)"
    and "obj = closed_obj E now v f (obj_at (fi_obj f) s)"
  shows "job_at (fi_lock f) (sc_files (runJob_end E now v True f s)) = Some (record_run obj now (outcome_ok v) l)"
    and "\<exists>e h. jb_history (obj_at (fi_obj f) s) = Some (e # h) \<and> he_ref e = fi_ref f \<and> length (e # h) \<le> HISTORY_LIMIT"
    and "ru_disabled_reason (applyRunOutcome l (outcome_ok v)) \<noteq> None \<longrightarrow>
       jm_get (sc_handles (runJob_end E now v True f s)) (fi_lock f) = None"
proof -
  let ?o = "obj_at (fi_obj f) s"
  obtain ok where ok: "outcome_ok v = ok" by simp
  have fo: "fire_ok D s f" "entry_open s f" using assms(1-4) by (auto simp: sched_inv_def fires_ok_def fire_good_def)
  then show e: "\<exists>e h. jb_history ?o = Some (e # h) \<and> he_ref e = fi_ref f \<and> length (e # h) \<le> HISTORY_LIMIT"
    by (auto simp: entry_open_def)
  have key: "jb_id obj = fi_lock f" and gen: "jb_generation l = jb_generation obj"
    using fo(1) assms(7) by (simp_all add: assms(8) fire_ok_def)
  have safe: "isSafeJobId (fi_lock f)" "canonical_job l = l" using job_at_id[OF assms(5)] by auto
  have hist: "jb_history obj \<noteq> None" using e by (auto simp: assms(8) closed_obj_def)
  have m: "store_mutate (fi_lock f) (end_update obj now ok) (sc_files s) =
      (Inr (Some (record_run obj now ok l)), write_job (record_run obj now ok l) (sc_files s))"
    using safe(1) assms(5,6) gen
    by (simp add: store_mutate_def assertSafeJobId_def end_update_def record_fields)
  have files: "sc_files (runJob_end E now v True f s) = write_job (record_run obj now ok l) (sc_files s)"
    by (simp add: runJob_end_def Let_def assms(8)[symmetric] key m set_obj_def ok)
  show "job_at (fi_lock f) (sc_files (runJob_end E now v True f s)) = Some (record_run obj now (outcome_ok v) l)"
    unfolding files ok using safe assms(6) canonical_record[of l obj now ok] hist by (simp add: job_at_write record_fields)
  show "ru_disabled_reason (applyRunOutcome l (outcome_ok v)) \<noteq> None \<longrightarrow>
       jm_get (sc_handles (runJob_end E now v True f s)) (fi_lock f) = None"
    using gen assms(5) m unfolding ok
    by (simp add: runJob_end_def Let_def assms(8)[symmetric] key ok set_obj_def retired_by_def)
qed

text \<open>The reason a run leaves on the stored copy.\<close>

definition retire_reason :: "job \<Rightarrow> string" where
  "retire_reason n =
     (case jb_max_runs n of
        Some m \<Rightarrow> if m \<le> or_else (jb_run_count n) 0 then completed_reason (or_else (jb_run_count n) 0) m
                  else failures_reason (or_else (jb_consecutive_failures n) 0)
      | None \<Rightarrow> failures_reason (or_else (jb_consecutive_failures n) 0))"

lemma record_reason:
  "jb_disabled_reason (record_run obj now ok l) =
     (if has_room (record_run obj now ok l) then jb_disabled_reason l
      else Some (retire_reason (record_run obj now ok l)))"
proof -
  let ?n = "record_run obj now ok l"
  have "jb_max_runs ?n = jb_max_runs l" "jb_last_run_at ?n = Some (Some now)"
    by (simp_all add: record_run_def Let_def split: option.splits)
  then show ?thesis
    unfolding has_room_record[of l ok obj now, symmetric] retire_reason_def record_fields
    by (auto simp: record_run_def applyRunOutcome_def Let_def split: option.splits)
qed

section \<open>Properties\<close>

text \<open>C16: No job runs twice at a time until it is deleted: in every reachable state, whatever is
  written to the files, started by hand, reloaded, timed out or deleted meanwhile, the invocations
  in flight of jobs that were not deleted belong to different jobs, and each holds the lock of its
  job, also after a time-out, until it settles. (The deletion of a running job unlinks its lock;
  \<open>deleted_job_overlaps\<close> shows what can happen then.)\<close>

theorem one_fire_per_job:
  assumes "(sched_step E)\<^sup>*\<^sup>* ({}, new_scheduler files locks) (D, s)"
  shows "distinct (map fi_lock (filter (\<lambda>f. fi_lock f \<notin> D) (sc_fires s))) \<and>
    (\<forall>f \<in> set (sc_fires s). fi_lock f \<notin> D \<longrightarrow> jm_get (sc_locks s) (fi_lock f) \<noteq> None)"
proof -
  have i: "fires_ok D s" using reachable_inv[OF assms] by (simp add: sched_inv_def)
  then have "distinct (filter (\<lambda>f. fi_lock f \<notin> D) (sc_fires s))"
    by (intro distinct_filter) (auto simp: fires_ok_def distinct_map)
  then show ?thesis
    using i by (auto simp: fires_ok_def one_per_lock_def fire_good_def fire_ok_def distinct_map)
qed

text \<open>C17: The end of a run of a job that was not deleted meanwhile is written on the stored copy,
  when the write succeeds and the copy is of the same generation. The counters of the stored copy
  move by this run, the time of the run is set, and every field that a run does not own keeps what
  was written while the job ran. The job stays enabled exactly when it was and both of its caps
  have room; otherwise the reason is stored and the timer is gone. The history is not merged: it
  is that of the job object the fire works on, at most twenty entries with the entry of this run,
  now closed, in front; an entry that another run wrote to the file meanwhile is replaced
  (\<open>manual_entry_lost\<close>).\<close>

theorem run_recorded:
  assumes "(sched_step E)\<^sup>*\<^sup>* ({}, new_scheduler files locks) (D, s)"
    and "f \<in> set (sc_fires s)" "\<not> fi_timedOut f" "fi_lock f \<notin> D"
    and "job_at (fi_lock f) (sc_files s) = Some l" "jb_id l = fi_lock f"
    and "jb_generation l = jb_generation (obj_at (fi_obj f) s)" "ok = outcome_ok v"
  shows "\<exists>n e h. job_at (fi_lock f) (sc_files (runJob_end E now v True f s)) = Some n \<and>
    jb_history (obj_at (fi_obj f) s) = Some (e # h) \<and> he_ref e = fi_ref f \<and> length (e # h) \<le> HISTORY_LIMIT \<and>
    jb_history n = Some (close_entry E (fi_ref f) now v e # map (close_entry E (fi_ref f) now v) h) \<and>
    he_status (close_entry E (fi_ref f) now v e) = (if ok then StOk else StErr) \<and>
    he_ended (close_entry E (fi_ref f) now v e) = Some (Some now) \<and>
    jb_last_run_at n = Some (Some now) \<and>
    jb_run_count n = Some (or_else (jb_run_count l) 0 + (if ok then 1 else 0)) \<and>
    jb_consecutive_failures n = Some (if ok then 0 else or_else (jb_consecutive_failures l) 0 + 1) \<and>
    n\<lparr>jb_history := jb_history l, jb_last_run_at := jb_last_run_at l, jb_run_count := jb_run_count l,
      jb_consecutive_failures := jb_consecutive_failures l, jb_enabled := jb_enabled l,
      jb_disabled_reason := jb_disabled_reason l\<rparr> = l \<and>
    (jb_enabled n \<longleftrightarrow> jb_enabled l \<and> has_room n) \<and>
    jb_disabled_reason n = (if has_room n then jb_disabled_reason l else Some (retire_reason n)) \<and>
    (has_room n \<or> jm_get (sc_handles (runJob_end E now v True f s)) (fi_lock f) = None)"
proof -
  note end_of = end_written[OF reachable_inv[OF assms(1)] assms(2-7) refl]
  note w = end_of(1)[where E = E and now = now and v = v, folded assms(8)] end_of(2)
    end_of(3)[where E = E and now = now and v = v, folded assms(8)]
  let ?obj = "closed_obj E now v f (obj_at (fi_obj f) s)"
  let ?n = "record_run ?obj now ok l"
  obtain e h where e: "jb_history (obj_at (fi_obj f) s) = Some (e # h)" "he_ref e = fi_ref f" "length (e # h) \<le> HISTORY_LIMIT"
    using w(2) by blast
  have "jb_history ?n = Some (close_entry E (fi_ref f) now v e # map (close_entry E (fi_ref f) now v) h)"
    by (simp add: record_fields closed_obj_def e(1))
  moreover have "jb_last_run_at ?n = Some (Some now)"
    by (simp add: record_run_def Let_def split: option.splits)
  moreover note close_entry_head[OF e(2), of E now v, folded assms(8)] record_fields(3,4)[of ?obj now ok l]
    record_fields(5)[where obj = ?obj and now = now and ok = ok and l = l]
    record_enabled[of ?obj now ok l] has_room_record[of l ok ?obj now] record_reason[of ?obj now ok l]
  ultimately show ?thesis
    using w(1,3) e by (intro exI[of _ ?n] exI[of _ e] exI[of _ h]) auto
qed

definition demo_sched_env :: sched_env where
  "demo_sched_env = \<lparr>se_pid = 7, se_alive = (\<lambda>p. p = 7), se_cronNext = (\<lambda>_ _ _. None), se_staleLockMs = 3600000,
     se_fireTimeoutMs = 300000, se_le = (\<lambda>a b. True)\<rparr>"

definition demo_job :: job where
  "demo_job = \<lparr>jb_id = ''j'', jb_name = ''n'', jb_schedule = Interval 60000, jb_command = ''agent.invoke'',
     jb_args = [(''workspace'', JStr ''/w''), (''prompt'', JStr ''p'')], jb_builtin = False, jb_enabled = True,
     jb_run_on_startup = False, jb_max_runs = Some 1, jb_run_count = Some 0, jb_max_consecutive_failures = None,
     jb_consecutive_failures = Some 0, jb_disabled_reason = None, jb_last_run_at = None, jb_next_run_at = None,
     jb_history = Some [], jb_generation = Some ''g'', jb_channelId = None, jb_peerId = None,
     jb_sessionStrategy = Some ''pin'', jb_pinnedSessionId = None\<rparr>"

definition demo_sched :: scheduler where
  "demo_sched = timer_fire demo_sched_env 1000 0 (sched_start demo_sched_env 0 (new_scheduler [(''j'', Some demo_job)] []))"

lemma demo_sched_reachable:
  "(sched_step demo_sched_env)\<^sup>*\<^sup>* ({}, new_scheduler [(''j'', Some demo_job)] []) ({}, demo_sched)"
proof -
  let ?s0 = "new_scheduler [(''j'', Some demo_job)] []"
  have "sc_fires ?s0 = []" by (simp add: new_scheduler_def)
  then have "sched_step demo_sched_env ({}, ?s0) ({}, sched_start demo_sched_env 0 ?s0)" by (intro step_own step_start)
  moreover have "sched_step demo_sched_env ({}, sched_start demo_sched_env 0 ?s0) ({}, demo_sched)"
    unfolding demo_sched_def by (intro step_own step_timer)
  ultimately show ?thesis by (meson converse_rtranclp_into_rtranclp rtranclp.rtrancl_refl)
qed

theorem one_fire_per_job_witness:
  "length (sc_fires demo_sched) = 1 \<and> jm_get (sc_locks demo_sched) ''j'' \<noteq> None"
proof -
  have f: "map fi_lock (sc_fires demo_sched) = [''j'']" by code_simp
  then have "\<exists>f \<in> set (sc_fires demo_sched). fi_lock f = ''j''" by auto
  then show ?thesis
    using one_fire_per_job[OF demo_sched_reachable] f
    by (metis empty_iff length_map list.size(3,4) One_nat_def Suc_eq_plus1)
qed

theorem run_recorded_witness:
  "\<exists>n. job_at ''j'' (sc_files (runJob_end demo_sched_env 2000 (Finished None) True (hd (sc_fires demo_sched)) demo_sched)) = Some n \<and>
     \<not> jb_enabled n \<and> jb_run_count n = Some 1 \<and> jb_disabled_reason n = Some (retire_reason n)"
proof -
  let ?f = "hd (sc_fires demo_sched)"
  have f: "?f \<in> set (sc_fires demo_sched)" "\<not> fi_timedOut ?f" "fi_lock ?f \<notin> {}" "fi_lock ?f = ''j''" by code_simp+
  have l: "job_at (fi_lock ?f) (sc_files demo_sched) = Some demo_job" "jb_id demo_job = fi_lock ?f"
    "jb_generation demo_job = jb_generation (obj_at (fi_obj ?f) demo_sched)" by code_simp+
  have ok: "True = outcome_ok (Finished None)" and c: "jb_run_count demo_job = Some 0" "jb_max_runs demo_job = Some 1"
    by code_simp+
  obtain n where n: "job_at ''j'' (sc_files (runJob_end demo_sched_env 2000 (Finished None) True ?f demo_sched)) = Some n"
    "jb_run_count n = Some 1" "jb_enabled n \<longleftrightarrow> jb_enabled demo_job \<and> has_room n"
    "jb_disabled_reason n = (if has_room n then jb_disabled_reason demo_job else Some (retire_reason n))"
    "n\<lparr>jb_history := jb_history demo_job, jb_last_run_at := jb_last_run_at demo_job, jb_run_count := jb_run_count demo_job,
      jb_consecutive_failures := jb_consecutive_failures demo_job, jb_enabled := jb_enabled demo_job,
      jb_disabled_reason := jb_disabled_reason demo_job\<rparr> = demo_job"
    using run_recorded[OF demo_sched_reachable f(1-3) l ok, of 2000] unfolding f(4) c(1) by auto
  have "jb_max_runs n = Some 1" using arg_cong[OF n(5), of jb_max_runs] c(2) by simp
  then have "\<not> has_room n" using n(2) by (simp add: has_room_def)
  then show ?thesis using n by simp
qed

text \<open>The controller's \<open>delete\<close> unlinks the lock before the reload stops the timer: a timer that goes
  off in between starts the deleted job while its last run is still in flight, and the end of the
  first run takes the lock of the second one away.\<close>

lemma deleted_job_overlaps:
  "let E = demo_sched_env;
       s1 = timer_fire E 1500 0 (sched_unlock ''j'' (demo_sched\<lparr>sc_files := []\<rparr>));
       s2 = reload ''j'' s1;
       s3 = runJob_end E 2000 (Finished None) True (last (sc_fires s2)) s2
   in map fi_lock (sc_fires s2) = [''j'', ''j''] \<and> map fi_lock (sc_fires s3) = [''j''] \<and> sc_locks s3 = []"
  by code_simp

text \<open>A run that was started by hand works on an object of its own. The next run of the timer writes
  the history of the timer's object, and the entry of the manual run is gone.\<close>

lemma manual_entry_lost:
  "let E = demo_sched_env; j = demo_job\<lparr>jb_max_runs := None\<rparr>;
       s0 = sched_start E 0 (new_scheduler [(''j'', Some j)] []);
       finish = (\<lambda>now s. runJob_end E now (Finished None) True (hd (sc_fires s)) s);
       s1 = finish 2000 (snd (sched_runNow E 1000 ''j'' s0));
       s2 = finish 4000 (timer_fire E 3000 0 s1);
       starts = (\<lambda>s. map_option (\<lambda>x. map he_started (or_else (jb_history x) [])) (job_at ''j'' (sc_files s)))
   in starts s1 = Some [Some 1000] \<and> starts s2 = Some [Some 3000] \<and>
      map_option jb_run_count (job_at ''j'' (sc_files s2)) = Some (Some 2)"
  by code_simp

text \<open>Two reloads of a job at a time leave two timers, one of which nothing stops any more: it goes on
  firing a job that was disabled or deleted.\<close>

lemma timer_leaked:
  "let s0 = sched_start demo_sched_env 0 (new_scheduler [(''j'', Some demo_job)] []);
       s1 = reload_attach ''j'' (reload_attach ''j'' (detach ''j'' (detach ''j'' s0)));
       s2 = reload ''j'' (s1\<lparr>sc_files := [(''j'', Some (demo_job\<lparr>jb_enabled := False\<rparr>))]\<rparr>);
       s3 = timer_fire demo_sched_env 1000 1 (sched_stop s2)
   in length (sc_timers s1) = 2 \<and> sc_handles s2 = [] \<and> sc_timers (sched_stop s2) = [1] \<and> length (sc_fires s3) = 1"
  by code_simp

text \<open>A lock that is old enough goes even when its owner is alive.\<close>

lemma live_lock_removed: "lock_stale demo_sched_env 3600001 (Lock (Some 7) (Some (Some 0))) \<and> se_alive demo_sched_env 7"
  by code_simp

end
