(* ===== verification/JobsControl.thy ===== *)
theory JobsControl
  imports Scheduler
begin

text \<open>
  The controller behind the \<open>jobs.*\<close> calls:
  \<open>packages/sidecar/src/scheduler/jobsController.ts\<close>. The state is that of the scheduler. New identifiers
  and generations (\<open>randomUUID\<close>) are arguments. An actor that is absent is the administrator.
\<close>

section \<open>Definitions\<close>

datatype actor = ImActor string string string | IdeActor string

definition isJobVisibleToActor :: "job \<Rightarrow> actor \<Rightarrow> bool" where
  "isJobVisibleToActor j a =
     (case a of
        ImActor channelId peerId chatId \<Rightarrow> jb_channelId j = Some channelId \<and> jb_peerId j = Some peerId
      | IdeActor workspace \<Rightarrow> workspace_of j = workspace)"

definition visible_to :: "actor option \<Rightarrow> job \<Rightarrow> bool" where
  "visible_to actor j = (case actor of None \<Rightarrow> True | Some a \<Rightarrow> isJobVisibleToActor j a)"

definition assertActorMatchesJob :: "job \<Rightarrow> actor option \<Rightarrow> unit job_result" where
  "assertActorMatchesJob j actor = (if visible_to actor j then Inr () else Inl (ScopeForbidden (jb_id j)))"

definition normalizeScopeFields :: "job \<Rightarrow> job" where
  "normalizeScopeFields j =
     (let workspace = workspace_of j in
      case (if isImWorkspace workspace then parseImCwd workspace else None) of
        Some route \<Rightarrow> j\<lparr>jb_channelId := Some (rt_channelId route), jb_peerId := Some (rt_peerId route)\<rparr>
      | None \<Rightarrow> j\<lparr>jb_channelId := None, jb_peerId := None\<rparr>)"

definition normalizeSessionStrategy :: "job \<Rightarrow> job job_result" where
  "normalizeSessionStrategy j =
     (let im = isImWorkspace (workspace_of j);
          strategy = or_else (jb_sessionStrategy j) (if im then ''reuse'' else ''pin'')
      in if im \<and> strategy \<noteq> ''reuse'' then Inl (ScopeForbidden (jb_id j))
         else if \<not> im \<and> strategy = ''reuse'' then Inl (ScopeForbidden (jb_id j))
         else Inr (j\<lparr>jb_sessionStrategy := Some strategy\<rparr>))"

text \<open>A step that reads a job first and goes on with what is there.\<close>

definition with_job ::
  "string \<Rightarrow> scheduler \<Rightarrow> (job option \<Rightarrow> scheduler \<Rightarrow> 'a job_result \<times> scheduler) \<Rightarrow> 'a job_result \<times> scheduler" where
  "with_job key s k =
     (case store_get key (sc_files s) of
        (Inl e, files) \<Rightarrow> (Inl e, s\<lparr>sc_files := files\<rparr>)
      | (Inr j, files) \<Rightarrow> k j (s\<lparr>sc_files := files\<rparr>))"

definition jobs_list :: "sched_env \<Rightarrow> actor option \<Rightarrow> scheduler \<Rightarrow> job list \<times> scheduler" where
  "jobs_list E actor s =
     (let (jobs, files) = store_list (se_le E) (sc_files s)
      in (filter (visible_to actor) jobs, s\<lparr>sc_files := files\<rparr>))"

definition jobs_get :: "string \<Rightarrow> actor option \<Rightarrow> scheduler \<Rightarrow> job option job_result \<times> scheduler" where
  "jobs_get key actor s =
     with_job key s (\<lambda>j s. (Inr (case j of None \<Rightarrow> None | Some x \<Rightarrow> if visible_to actor x then Some x else None), s))"

definition jobs_history ::
  "string \<Rightarrow> actor option \<Rightarrow> scheduler \<Rightarrow> history_entry list option job_result \<times> scheduler" where
  "jobs_history key actor s =
     with_job key s (\<lambda>j s. (Inr (case j of None \<Rightarrow> None | Some x \<Rightarrow> if visible_to actor x then jb_history x else None), s))"

definition fresh_job :: "string \<Rightarrow> string \<Rightarrow> job \<Rightarrow> job" where
  "fresh_job uid gen j =
     j\<lparr>jb_id := (if jb_id j = [] then uid else jb_id j), jb_generation := Some gen, jb_history := Some [],
       jb_run_count := Some 0, jb_consecutive_failures := Some 0, jb_disabled_reason := None,
       jb_last_run_at := None, jb_next_run_at := None\<rparr>"

definition jobs_create ::
  "string \<Rightarrow> string \<Rightarrow> job \<Rightarrow> actor option \<Rightarrow> scheduler \<Rightarrow> job job_result \<times> scheduler" where
  "jobs_create uid gen j actor s =
     (if jb_builtin j \<or> jb_command j \<in> set BUILTIN_JOB_COMMANDS then (Inl (ScopeForbidden (jb_id j)), s)
      else
        case normalizeSessionStrategy (normalizeScopeFields (fresh_job uid gen j)) of
          Inl e \<Rightarrow> (Inl e, s)
        | Inr normalized \<Rightarrow>
            (case assertActorMatchesJob normalized actor of
               Inl e \<Rightarrow> (Inl e, s)
             | Inr _ \<Rightarrow>
                 (case store_create normalized (sc_files s) of
                    (Inl e, files) \<Rightarrow> (Inl e, s\<lparr>sc_files := files\<rparr>)
                  | (Inr _, files) \<Rightarrow> (Inr normalized, reload (jb_id normalized) (s\<lparr>sc_files := files\<rparr>)))))"

text \<open>The callback of \<open>mutate\<close> in the two forms of an update: what of the caller's job is taken over.\<close>

definition user_update :: "job \<Rightarrow> job \<Rightarrow> job job_result" where
  "user_update j current =
     (let reEnabled = (jb_enabled j \<and> \<not> jb_enabled current) in
      normalizeSessionStrategy (normalizeScopeFields
        (j\<lparr>jb_args := (case jm_get (jb_args current) ''workspace'' of
             Some w \<Rightarrow> jm_set (jb_args j) ''workspace'' w | None \<Rightarrow> jm_delete (jb_args j) ''workspace''),
           jb_channelId := jb_channelId current, jb_peerId := jb_peerId current,
           jb_generation := jb_generation current, jb_history := jb_history current,
           jb_last_run_at := jb_last_run_at current, jb_next_run_at := jb_next_run_at current,
           jb_run_count := Some (or_else (jb_run_count current) 0),
           jb_consecutive_failures := Some (if reEnabled then 0 else or_else (jb_consecutive_failures current) 0),
           jb_disabled_reason := (if reEnabled then None else jb_disabled_reason current),
           jb_sessionStrategy := coalesce (jb_sessionStrategy j) (jb_sessionStrategy current),
           jb_pinnedSessionId :=
             (if jb_sessionStrategy j \<noteq> None \<and> jb_sessionStrategy j \<noteq> jb_sessionStrategy current then None
              else jb_pinnedSessionId current)\<rparr>)))"

definition builtin_update :: "job \<Rightarrow> job \<Rightarrow> job" where
  "builtin_update j current =
     (let reEnabled = (jb_enabled j \<and> \<not> jb_enabled current) in
      current\<lparr>jb_schedule := jb_schedule j, jb_enabled := jb_enabled j, jb_args := jb_args j,
        jb_consecutive_failures := Some (if reEnabled then 0 else or_else (jb_consecutive_failures current) 0),
        jb_disabled_reason := (if reEnabled then None else jb_disabled_reason current)\<rparr>)"

definition guarded_update :: "job \<Rightarrow> (job \<Rightarrow> job job_result) \<Rightarrow> job option \<Rightarrow> mutation job_result" where
  "guarded_update existing change current =
     (case current of
        None \<Rightarrow> Inl (ScopeNotFound (jb_id existing))
      | Some c \<Rightarrow>
          if jb_generation c \<noteq> jb_generation existing then Inl (ScopeNotFound (jb_id existing))
          else (case change c of Inl e \<Rightarrow> Inl e | Inr n \<Rightarrow> Inr (Replaced n)))"

definition write_update ::
  "string \<Rightarrow> job \<Rightarrow> (job \<Rightarrow> job job_result) \<Rightarrow> scheduler \<Rightarrow> job job_result \<times> scheduler" where
  "write_update key existing change s =
     (case store_mutate key (guarded_update existing change) (sc_files s) of
        (Inl e, files) \<Rightarrow> (Inl e, s\<lparr>sc_files := files\<rparr>)
      | (Inr None, files) \<Rightarrow> (Inl (ScopeNotFound key), s\<lparr>sc_files := files\<rparr>)
      | (Inr (Some saved), files) \<Rightarrow> (Inr saved, reload (jb_id saved) (s\<lparr>sc_files := files\<rparr>)))"

definition updateBuiltin :: "job \<Rightarrow> job \<Rightarrow> scheduler \<Rightarrow> job job_result \<times> scheduler" where
  "updateBuiltin existing j s =
     (if jb_command j \<noteq> jb_command existing \<or> \<not> jb_builtin j then (Inl (ScopeForbidden (jb_id j)), s)
      else write_update (jb_id j) existing (\<lambda>c. Inr (builtin_update j c)) s)"

definition jobs_update :: "job \<Rightarrow> actor option \<Rightarrow> scheduler \<Rightarrow> job job_result \<times> scheduler" where
  "jobs_update j actor s =
     with_job (jb_id j) s (\<lambda>found s.
       case found of
         None \<Rightarrow> (Inl (ScopeNotFound (jb_id j)), s)
       | Some existing \<Rightarrow>
           (case assertActorMatchesJob existing actor of
              Inl e \<Rightarrow> (Inl e, s)
            | Inr _ \<Rightarrow>
                if isBuiltinJob existing then updateBuiltin existing j s
                else if jb_builtin j \<or> jb_command j \<in> set BUILTIN_JOB_COMMANDS then (Inl (ScopeForbidden (jb_id j)), s)
                else write_update (jb_id j) existing (user_update j) s))"

definition jobs_delete :: "string \<Rightarrow> actor option \<Rightarrow> scheduler \<Rightarrow> unit job_result \<times> scheduler" where
  "jobs_delete key actor s =
     with_job key s (\<lambda>found s.
       case found of
         None \<Rightarrow> (Inr (), s)
       | Some existing \<Rightarrow>
           if \<not> visible_to actor existing then (Inr (), s)
           else if isBuiltinJob existing then (Inl (ScopeForbidden key), s)
           else (Inr (), reload key (s\<lparr>sc_files := snd (store_delete key (sc_files s)),
                   sc_locks := jm_delete (sc_locks s) key\<rparr>)))"

definition jobs_runNow ::
  "sched_env \<Rightarrow> int \<Rightarrow> string \<Rightarrow> actor option \<Rightarrow> scheduler \<Rightarrow> run_now job_result \<times> scheduler" where
  "jobs_runNow E now key actor s =
     with_job key s (\<lambda>found s.
       case found of
         None \<Rightarrow> (Inr JobMissing, s)
       | Some existing \<Rightarrow>
           (case assertActorMatchesJob existing actor of
              Inl e \<Rightarrow> (Inl e, s)
            | Inr _ \<Rightarrow> (case sched_runNow E now key s of (r, s1) \<Rightarrow> (Inr r, s1))))"

definition seedBuiltin :: "string \<Rightarrow> int \<Rightarrow> job \<Rightarrow> scheduler \<Rightarrow> job job_result \<times> scheduler" where
  "seedBuiltin gen now j s =
     (if \<not> isBuiltinJob j then (Inl (NotBuiltin (jb_id j)), s)
      else with_job (jb_id j) s (\<lambda>found s.
        case found of
          Some existing \<Rightarrow> (Inr existing, s)
        | None \<Rightarrow>
            let seeded = j\<lparr>jb_generation := Some gen, jb_history := Some [],
                  jb_last_run_at := Some (or_else (jb_last_run_at j) (Some now))\<rparr> in
            (case store_create seeded (sc_files s) of
               (Inl (InvalidJobId e), files) \<Rightarrow> (Inl (InvalidJobId e), s)
             | (_, files) \<Rightarrow>
                 with_job (jb_id j) (reload (jb_id j) (s\<lparr>sc_files := files\<rparr>))
                   (\<lambda>again s. (Inr (or_else again seeded), s)))))"

text \<open>What a crash leaves of the entries that were running.\<close>

definition mark_entry :: "string \<Rightarrow> int \<Rightarrow> history_entry \<Rightarrow> history_entry" where
  "mark_entry reason now e =
     (if he_status e \<noteq> StRunning then e
      else e\<lparr>he_status := StErr, he_error := Some (''process exited: '' @ reason), he_ended := Some (Some now)\<rparr>)"

definition mark_update :: "string \<Rightarrow> int \<Rightarrow> job \<Rightarrow> job option \<Rightarrow> mutation job_result" where
  "mark_update reason now j current =
     (case current of
        None \<Rightarrow> Inr Unchanged
      | Some c \<Rightarrow>
          if jb_generation c \<noteq> jb_generation j then Inr Unchanged
          else Inr (Replaced (c\<lparr>jb_history := map_option (map (mark_entry reason now)) (jb_history j)\<rparr>)))"

definition mark_job :: "string \<Rightarrow> int \<Rightarrow> job_files \<Rightarrow> job \<Rightarrow> job_files" where
  "mark_job reason now files j =
     (if \<not> (\<exists>e \<in> set (or_else (jb_history j) []). he_status e = StRunning) then files
      else snd (store_mutate (jb_id j) (mark_update reason now j) files))"

definition markRunningAsErr :: "sched_env \<Rightarrow> string \<Rightarrow> int \<Rightarrow> scheduler \<Rightarrow> scheduler" where
  "markRunningAsErr E reason now s =
     (let (jobs, files) = store_list (se_le E) (sc_files s)
      in s\<lparr>sc_files := foldl (mark_job reason now) files jobs\<rparr>)"

section \<open>Reads keep jobs\<close>

text \<open>A file is named after the job in it.\<close>

definition files_named :: "job_files \<Rightarrow> bool" where
  "files_named files \<longleftrightarrow> (\<forall>k raw. jm_get files k = Some (Some raw) \<longrightarrow> jb_id raw = k)"

text \<open>Two sets of files that hold the same jobs.\<close>

definition same_jobs :: "job_files \<Rightarrow> job_files \<Rightarrow> bool" where
  "same_jobs a b \<longleftrightarrow> (\<forall>k. job_at k a = job_at k b) \<and> (files_named a \<longrightarrow> files_named b)"

lemma same_jobs_refl [simp]: "same_jobs a a"
  by (simp add: same_jobs_def)

lemma same_jobs_trans: "same_jobs a b \<Longrightarrow> same_jobs b c \<Longrightarrow> same_jobs a c"
  by (simp add: same_jobs_def)

lemma same_if: "same_jobs a b \<Longrightarrow> same_jobs a c \<Longrightarrow> same_jobs a (if p then b else c)"
  by (cases p) (simp_all only: if_True if_False)

lemma named_write: "files_named files \<Longrightarrow> files_named (write_job j files)"
  by (auto simp: files_named_def write_job_def)

lemma canonical_strategy_step: "canonical_job (withStrategy (withCounters j)) = canonical_job j"
proof -
  have "withCounters (withStrategy (withCounters j)) = withStrategy (withCounters j)"
    by (simp add: withStrategy_def withCounters_def)
  moreover have "withStrategy (withStrategy x) = withStrategy x" for x
    by (auto simp: withStrategy_def strategy_migrates_def workspace_of_def)
  ultimately show ?thesis by (simp add: canonical_job_def)
qed

lemma save_same:
  assumes "files_named files" "jm_get files (jb_id j) = Some (Some raw)" "canonical_job j = canonical_job raw"
  shows "same_jobs files (snd (store_save j files))"
proof -
  have "job_at k (write_job j files) = job_at k files" for k
    using assms by (simp add: job_at_write) (simp add: job_at_eq)
  then show ?thesis using assms(1) named_write
    by (simp add: same_jobs_def store_save_def split: sum.splits)
qed

lemma readOne_same:
  assumes "files_named files"
  shows "same_jobs files (snd (readOne persist fid files))"
proof (cases "\<exists>raw. jm_get files fid = Some (Some raw) \<and> isSafeJobId fid")
  case False
  then show ?thesis by (auto simp: readOne_def split: option.splits)
next
  case True
  then obtain raw where raw: "jm_get files fid = Some (Some raw)" "isSafeJobId fid" by blast
  let ?st = "withStrategy (withCounters raw)"
  let ?f1 = "if strategy_migrates (withCounters raw) \<and> persist then snd (store_save ?st files) else files"
  let ?m = "withCommand ?st"
  have key: "jb_id raw = fid" using assms raw(1) by (simp add: files_named_def)
  have ids: "jb_id ?st = fid" "jb_id ?m = fid"
    using key by (simp_all add: withStrategy_def withCommand_def)
  have f1: "same_jobs files ?f1"
    using save_same[OF assms, of ?st raw] raw(1) ids(1) canonical_strategy_step by simp
  have n1: "files_named ?f1" using f1 assms by (simp add: same_jobs_def)
  have g1: "\<exists>x. jm_get ?f1 fid = Some (Some x) \<and> canonical_job x = canonical_job raw"
    using raw ids(1) canonical_strategy_step by (auto simp: store_save_def assertSafeJobId_def write_job_def)
  have cm: "canonical_job ?m = canonical_job raw"
    using canonical_idem[of raw] unfolding canonical_job_def[of raw] .
  obtain x where x: "jm_get ?f1 fid = Some (Some x)" "canonical_job x = canonical_job raw" using g1 by blast
  have "same_jobs ?f1 (snd (store_save ?m ?f1))"
    by (rule save_same[OF n1 x(1)[folded ids(2)]]) (simp only: cm x(2))
  then have "same_jobs files (if command_migrates ?st \<and> persist then snd (store_save ?m ?f1) else ?f1)"
    by (rule same_if[OF same_jobs_trans[OF f1] f1])
  moreover have "snd (readOne persist fid files) =
      (if command_migrates ?st \<and> persist then snd (store_save ?m ?f1) else ?f1)"
    using raw by (simp only: readOne_def Let_def option.case if_True if_False snd_conv simp_thms)
  ultimately show ?thesis by (simp only:)
qed

lemma store_get_same: "files_named files \<Longrightarrow> same_jobs files (snd (store_get k files))"
  using readOne_same[of files True k]
  by (auto simp: store_get_def case_prod_beta split: sum.splits)

lemma read_all_same: "files_named files \<Longrightarrow> same_jobs files (snd (read_all ks files))"
proof (induction ks files rule: read_all.induct)
  case (2 k ks files)
  show ?case
  proof (cases "isSafeJobId k")
    case True
    let ?f = "snd (readOne True k files)"
    have f: "same_jobs files ?f" by (rule readOne_same[OF 2(3)])
    then have n: "files_named ?f" using 2(3) by (simp add: same_jobs_def)
    have "same_jobs ?f (snd (read_all ks ?f))" using 2(2)[OF _ _ _ n] True by (metis not_not prod.collapse)
    then show ?thesis using f True same_jobs_trans by (simp add: case_prod_beta Let_def)
  qed (use 2 in simp)
qed simp

lemma store_list_same: "files_named files \<Longrightarrow> same_jobs files (snd (store_list le files))"
  using read_all_same by (simp add: store_list_def case_prod_beta Let_def)

lemma attach_files [simp]: "sc_files (attach j s) = sc_files s"
  by (simp add: attach_def new_obj_def attach_obj_def)

lemma attach_half_same: "files_named (sc_files s) \<Longrightarrow> same_jobs (sc_files s) (sc_files (reload_attach k s))"
  using store_get_same[of "sc_files s" k]
  by (auto simp: reload_attach_def Let_def split: prod.splits sum.splits option.splits)

lemma reload_same: "files_named (sc_files s) \<Longrightarrow> same_jobs (sc_files s) (sc_files (reload k s))"
  using attach_half_same[of "detach k s"] by (simp add: reload_def)

lemma begin_files [simp]: "sc_files (snd (runJob_begin E now r s)) = sc_files s"
  by (simp add: runJob_begin_def Let_def set_obj_def)

lemma runNow_same: "files_named (sc_files s) \<Longrightarrow> same_jobs (sc_files s) (sc_files (snd (sched_runNow E now k s)))"
  using store_get_same[of "sc_files s" k]
  by (auto simp: sched_runNow_def new_obj_def case_prod_beta Let_def split: prod.splits sum.splits option.splits)

section \<open>Scopes\<close>

text \<open>The scope of a stored job is that of its workspace, and a built-in job has none.\<close>

definition scoped :: "job \<Rightarrow> bool" where
  "scoped j \<longleftrightarrow> jb_channelId (normalizeScopeFields j) = jb_channelId j \<and>
     jb_peerId (normalizeScopeFields j) = jb_peerId j \<and> (isBuiltinJob j \<longrightarrow> workspace_of j = [])"

definition files_scoped :: "job_files \<Rightarrow> bool" where
  "files_scoped files \<longleftrightarrow> (\<forall>k j. job_at k files = Some j \<longrightarrow> scoped j)"

definition actor_ok :: "actor \<Rightarrow> bool" where
  "actor_ok a \<longleftrightarrow> (case a of ImActor c p h \<Rightarrow> True | IdeActor w \<Rightarrow> w \<noteq> [])"

text \<open>Every job that differs was the actor's and is the actor's.\<close>

definition confined :: "actor \<Rightarrow> job_files \<Rightarrow> job_files \<Rightarrow> bool" where
  "confined a files files' \<longleftrightarrow>
     (\<forall>k. job_at k files' \<noteq> job_at k files \<longrightarrow>
        (\<forall>j. job_at k files = Some j \<longrightarrow> isJobVisibleToActor j a) \<and>
        (\<forall>j. job_at k files' = Some j \<longrightarrow> isJobVisibleToActor j a))"

lemma confined_same: "same_jobs files files' \<Longrightarrow> confined a files files'"
  by (simp add: confined_def same_jobs_def)

lemma confined_between: "same_jobs f0 f1 \<Longrightarrow> confined a f1 f2 \<Longrightarrow> same_jobs f2 f3 \<Longrightarrow> confined a f0 f3"
  by (simp add: confined_def same_jobs_def)

lemma visible_canonical [simp]: "isJobVisibleToActor (canonical_job j) a = isJobVisibleToActor j a"
  by (simp add: isJobVisibleToActor_def split: actor.splits)

lemma confined_write:
  assumes "isJobVisibleToActor j a" "\<forall>x. job_at (jb_id j) files = Some x \<longrightarrow> isJobVisibleToActor x a"
  shows "confined a files (write_job j files)"
  using assms by (auto simp: confined_def job_at_write)

lemma builtin_invisible: "scoped j \<Longrightarrow> isBuiltinJob j \<Longrightarrow> actor_ok a \<Longrightarrow> \<not> isJobVisibleToActor j a"
  by (auto simp: scoped_def actor_ok_def isJobVisibleToActor_def normalizeScopeFields_def isImWorkspace_def
      startsWith_def split: actor.splits)

lemma strategy_keeps:
  "normalizeSessionStrategy j = Inr n \<Longrightarrow> jb_id n = jb_id j \<and> jb_args n = jb_args j \<and>
     jb_channelId n = jb_channelId j \<and> jb_peerId n = jb_peerId j"
  by (auto simp: normalizeSessionStrategy_def Let_def split: if_splits)

lemma scope_fields:
  "jb_id (normalizeScopeFields j) = jb_id j" "jb_args (normalizeScopeFields j) = jb_args j"
  "workspace_of (normalizeScopeFields j) = workspace_of j"
  by (simp_all add: normalizeScopeFields_def Let_def workspace_of_def split: option.splits)

lemma scope_of_workspace:
  "workspace_of i = workspace_of j \<Longrightarrow> jb_channelId (normalizeScopeFields i) = jb_channelId (normalizeScopeFields j) \<and>
     jb_peerId (normalizeScopeFields i) = jb_peerId (normalizeScopeFields j)"
  by (simp add: normalizeScopeFields_def Let_def split: option.splits)

text \<open>An update leaves a job where it was.\<close>

lemma user_update_scope:
  assumes "user_update j c = Inr n" "scoped c"
  shows "jb_id n = jb_id j" "isJobVisibleToActor n a = isJobVisibleToActor c a"
proof -
  obtain x where x: "normalizeSessionStrategy (normalizeScopeFields x) = Inr n" "jb_id x = jb_id j"
    "jb_args x = (case jm_get (jb_args c) ''workspace'' of
       Some w \<Rightarrow> jm_set (jb_args j) ''workspace'' w | None \<Rightarrow> jm_delete (jb_args j) ''workspace'')"
    using assms(1) by (auto simp: user_update_def Let_def)
  note n = strategy_keeps[OF x(1)]
  have w: "workspace_of x = workspace_of c" by (simp add: workspace_of_def x(3) split: option.splits)
  have wn: "workspace_of n = workspace_of c" using n w scope_fields(2) by (simp add: workspace_of_def)
  show "jb_id n = jb_id j" using n x(2) by (simp add: scope_fields)
  show "isJobVisibleToActor n a = isJobVisibleToActor c a"
    using n scope_of_workspace[OF w] assms(2) wn by (simp add: isJobVisibleToActor_def scoped_def split: actor.splits)
qed


lemma write_update_confined:
  assumes "files_named (sc_files s)" "job_at key (sc_files s) = Some existing" "isSafeJobId key"
    and "isJobVisibleToActor existing a"
    and "\<And>n. change existing = Inr n \<Longrightarrow> jb_id n = key \<and> isJobVisibleToActor n a"
  shows "confined a (sc_files s) (sc_files (snd (write_update key existing change s)))"
proof (cases "change existing")
  case (Inl e)
  then have "store_mutate key (guarded_update existing change) (sc_files s) = (Inl e, sc_files s)"
    using assms(2,3) by (simp add: store_mutate_def assertSafeJobId_def guarded_update_def)
  then show ?thesis by (simp add: write_update_def confined_same)
next
  case (Inr n)
  have m: "store_mutate key (guarded_update existing change) (sc_files s) = (Inr (Some n), write_job n (sc_files s))"
    using Inr assms(2,3,5) by (simp add: store_mutate_def assertSafeJobId_def guarded_update_def)
  have c: "confined a (sc_files s) (write_job n (sc_files s))"
    using assms(2,4) assms(5)[OF Inr] by (intro confined_write) auto
  have "same_jobs (write_job n (sc_files s)) (sc_files (reload (jb_id n) (s\<lparr>sc_files := write_job n (sc_files s)\<rparr>)))"
    using reload_same[of "s\<lparr>sc_files := write_job n (sc_files s)\<rparr>"] named_write[OF assms(1)] by simp
  then show ?thesis using confined_between[OF same_jobs_refl c] by (simp add: write_update_def m)
qed

text \<open>Every call starts with a read that changes no job.\<close>

lemma with_job_confined:
  fixes s :: scheduler
  assumes "files_named (sc_files s)"
    and "\<And>j t. same_jobs (sc_files s) (sc_files t) \<Longrightarrow> j = job_at key (sc_files t) \<Longrightarrow> isSafeJobId key \<Longrightarrow>
      confined a (sc_files t) (sc_files (snd (k j t)))"
  shows "confined a (sc_files s) (sc_files (snd (with_job key s k)))"
proof (cases "isSafeJobId key")
  case False
  then show ?thesis by (simp add: with_job_def store_get_def assertSafeJobId_def confined_same)
next
  case True
  let ?files = "snd (readOne True key (sc_files s))" let ?j = "fst (readOne True key (sc_files s))"
  have same: "same_jobs (sc_files s) ?files" by (rule readOne_same[OF assms(1)])
  have j: "?j = job_at key ?files" using same by (simp add: readOne_job same_jobs_def)
  have "confined a ?files (sc_files (snd (k ?j (s\<lparr>sc_files := ?files\<rparr>))))"
    using assms(2)[of "s\<lparr>sc_files := ?files\<rparr>" ?j] same j True by simp
  then show ?thesis
    using confined_between[OF same _ same_jobs_refl] True
    by (simp add: with_job_def store_get_def assertSafeJobId_def case_prod_beta)
qed

lemma get_confined: "files_named (sc_files s) \<Longrightarrow> confined a (sc_files s) (sc_files (snd (jobs_get key actor s)))"
  unfolding jobs_get_def by (rule with_job_confined) (simp_all add: confined_same)

lemma history_confined: "files_named (sc_files s) \<Longrightarrow> confined a (sc_files s) (sc_files (snd (jobs_history key actor s)))"
  unfolding jobs_history_def by (rule with_job_confined) (simp_all add: confined_same)

lemma list_confined: "files_named (sc_files s) \<Longrightarrow> confined a (sc_files s) (sc_files (snd (jobs_list E actor s)))"
  using store_list_same by (simp add: jobs_list_def case_prod_beta Let_def confined_same)

lemma runNow_confined: "files_named (sc_files (s :: scheduler)) \<Longrightarrow> confined a (sc_files s) (sc_files (snd (jobs_runNow E now key actor s)))"
  unfolding jobs_runNow_def
proof (rule with_job_confined)
  fix j and t :: scheduler
  assume "files_named (sc_files s)" "same_jobs (sc_files s) (sc_files t)"
  then have "files_named (sc_files t)" by (simp add: same_jobs_def)
  then show "confined a (sc_files t) (sc_files (snd (case j of None \<Rightarrow> (Inr JobMissing, t)
      | Some existing \<Rightarrow> (case assertActorMatchesJob existing actor of
          Inl e \<Rightarrow> (Inl e, t) | Inr _ \<Rightarrow> (case sched_runNow E now key t of (r, s1) \<Rightarrow> (Inr r, s1))))))"
    using runNow_same[of t E now key]
    by (simp add: confined_same case_prod_beta split: option.splits sum.splits)
qed

lemma delete_confined:
  "files_named (sc_files (s :: scheduler)) \<Longrightarrow> confined a (sc_files s) (sc_files (snd (jobs_delete key (Some a) s)))"
  unfolding jobs_delete_def
proof (rule with_job_confined)
  fix j and t :: scheduler
  assume n: "files_named (sc_files s)" and t: "same_jobs (sc_files s) (sc_files t)" and j: "j = job_at key (sc_files t)"
    and safe: "isSafeJobId key"
  let ?u = "t\<lparr>sc_files := snd (store_delete key (sc_files t)), sc_locks := jm_delete (sc_locks t) key\<rparr>"
  have u: "sc_files ?u = store_unlink key (sc_files t)" using safe by (simp add: store_delete_def assertSafeJobId_def)
  have "files_named (sc_files t)" using n t by (simp add: same_jobs_def)
  then have "files_named (sc_files ?u)" unfolding u by (auto simp: files_named_def store_unlink_def split: if_splits)
  then have r: "same_jobs (store_unlink key (sc_files t)) (sc_files (reload key ?u))" using reload_same[of ?u key] u by simp
  have c: "confined a (sc_files t) (store_unlink key (sc_files t))"
    if "job_at key (sc_files t) = Some x" "isJobVisibleToActor x a" for x
    using that by (simp add: confined_def job_at_unlink)
  show "confined a (sc_files t) (sc_files (snd (case j of None \<Rightarrow> (Inr (), t)
      | Some existing \<Rightarrow> if \<not> visible_to (Some a) existing then (Inr (), t)
          else if isBuiltinJob existing then (Inl (ScopeForbidden key), t)
          else (Inr (), reload key ?u))))"
  proof (cases j)
    case None
    then show ?thesis by (simp add: confined_same)
  next
    case (Some x)
    then have at: "job_at key (sc_files t) = Some x" using j by simp
    show ?thesis
    proof (cases "isJobVisibleToActor x a")
      case True
      have "confined a (sc_files t) (sc_files (reload key ?u))"
        by (rule confined_between[OF same_jobs_refl c[OF at True] r])
      then show ?thesis unfolding Some by (simp add: confined_same visible_to_def)
    next
      case False
      then show ?thesis unfolding Some by (simp add: confined_same visible_to_def)
    qed
  qed
qed simp

lemma update_confined:
  fixes s :: scheduler
  assumes "files_named (sc_files s)" "files_scoped (sc_files s)" "actor_ok a"
  shows "confined a (sc_files s) (sc_files (snd (jobs_update j (Some a) s)))"
  unfolding jobs_update_def
proof (rule with_job_confined[OF assms(1)])
  fix found and t :: scheduler
  assume t: "same_jobs (sc_files s) (sc_files t)" and f: "found = job_at (jb_id j) (sc_files t)" and safe: "isSafeJobId (jb_id j)"
  show "confined a (sc_files t) (sc_files (snd (case found of None \<Rightarrow> (Inl (ScopeNotFound (jb_id j)), t)
      | Some existing \<Rightarrow> (case assertActorMatchesJob existing (Some a) of
          Inl e \<Rightarrow> (Inl e, t)
        | Inr _ \<Rightarrow> if isBuiltinJob existing then updateBuiltin existing j t
            else if jb_builtin j \<or> jb_command j \<in> set BUILTIN_JOB_COMMANDS then (Inl (ScopeForbidden (jb_id j)), t)
            else write_update (jb_id j) existing (user_update j) t))))"
  proof (cases "\<exists>x. found = Some x \<and> isJobVisibleToActor x a")
    case False
    then show ?thesis
      by (cases found) (simp_all add: confined_same assertActorMatchesJob_def visible_to_def)
  next
    case True
    then obtain x where x: "found = Some x" "isJobVisibleToActor x a" by blast
    have sx: "scoped x" using assms(2) t f x(1) by (simp add: files_scoped_def same_jobs_def)
    then have nb: "\<not> isBuiltinJob x" using builtin_invisible assms(3) x(2) by blast
    have named: "files_named (sc_files t)" using assms(1) t by (simp add: same_jobs_def)
    have at: "job_at (jb_id j) (sc_files t) = Some x" using f x(1) by simp
    have kept: "jb_id n = jb_id j \<and> isJobVisibleToActor n a" if "user_update j x = Inr n" for n
      using user_update_scope(1)[OF that sx] user_update_scope(2)[OF that sx, of a] x(2) by simp
    have "confined a (sc_files t) (sc_files (snd (write_update (jb_id j) x (user_update j) t)))"
      by (rule write_update_confined[OF named at safe x(2) kept])
    then show ?thesis
      unfolding x(1) using x(2) nb by (simp add: assertActorMatchesJob_def visible_to_def confined_same)
  qed
qed

lemma create_confined:
  assumes "files_named (sc_files s)"
  shows "confined a (sc_files s) (sc_files (snd (jobs_create uid gen j (Some a) s)))"
proof -
  have "confined a (sc_files s) (sc_files (reload (jb_id n) (s\<lparr>sc_files := files\<rparr>)))"
    if "store_create n (sc_files s) = (Inr u, files)" "isJobVisibleToActor n a" for n u files
  proof -
    have c: "files = write_job n (sc_files s)" "job_at (jb_id n) (sc_files s) = None"
      using that(1) by (auto simp: store_create_def split: sum.splits if_splits)
    have "same_jobs files (sc_files (reload (jb_id n) (s\<lparr>sc_files := files\<rparr>)))"
      using reload_same[of "s\<lparr>sc_files := files\<rparr>"] named_write[OF assms] c(1) by simp
    then show ?thesis
      using confined_between[OF same_jobs_refl confined_write[of n a "sc_files s"]] that(2) c by simp
  qed
  moreover have "confined a (sc_files s) files" if "store_create n (sc_files s) = (Inl e, files)" for n e files
    using that by (auto simp: store_create_def confined_same split: sum.splits if_splits)
  ultimately show ?thesis
    by (auto simp: jobs_create_def assertActorMatchesJob_def visible_to_def confined_same split: sum.splits prod.splits)
qed

section \<open>A deletion, step by step\<close>

text \<open>What the controller's \<open>delete\<close> does to the scheduler is a sequence of steps of \<open>sched_step\<close>: the
  files change, the lock is unlinked, the timer is stopped and the file is read again.\<close>

lemma reload_steps: "(sched_step E)\<^sup>*\<^sup>* (D, s) (D, reload key s)"
proof -
  have "sched_step E (D, s) (D, detach key s)" by (intro step_own step_detach)
  moreover have "sched_step E (D, detach key s) (D, reload key s)" unfolding reload_def by (intro step_own step_attach)
  ultimately show ?thesis by (meson converse_rtranclp_into_rtranclp rtranclp.rtrancl_refl)
qed

lemma delete_steps:
  "(sched_step E)\<^sup>*\<^sup>* (D, s) (D, snd (jobs_delete key actor s)) \<or>
   (sched_step E)\<^sup>*\<^sup>* (D, s) (insert key D, snd (jobs_delete key actor s))"
proof -
  let ?r = "jobs_delete key actor s"
  have "(\<exists>files. snd ?r = s\<lparr>sc_files := files\<rparr>) \<or>
      (\<exists>files. snd ?r = reload key (sched_unlock key (s\<lparr>sc_files := files\<rparr>)))"
  proof (cases "store_get key (sc_files s)")
    case (Pair found files)
    then show ?thesis
      by (cases found) (auto simp: jobs_delete_def with_job_def sched_unlock_def split: option.splits)
  qed
  then show ?thesis
  proof
    assume "\<exists>files. snd ?r = s\<lparr>sc_files := files\<rparr>"
    then obtain files where "snd ?r = s\<lparr>sc_files := files\<rparr>" by blast
    then show ?thesis using step_edited[of E D s files] by auto
  next
    assume "\<exists>files. snd ?r = reload key (sched_unlock key (s\<lparr>sc_files := files\<rparr>))"
    then obtain files' where r: "snd ?r = reload key (sched_unlock key (s\<lparr>sc_files := files'\<rparr>))" by blast
    have "sched_step E (D, s) (D, s\<lparr>sc_files := files'\<rparr>)" by (rule step_edited)
    moreover have "sched_step E (D, s\<lparr>sc_files := files'\<rparr>) (insert key D, sched_unlock key (s\<lparr>sc_files := files'\<rparr>))"
      by (rule step_delete)
    ultimately show ?thesis
      unfolding r using reload_steps by (meson converse_rtranclp_into_rtranclp)
  qed
qed

end
