(* ===== verification/JobsRpc.thy ===== *)
theory JobsRpc
  imports JobsControl
begin

text \<open>
  The \<open>jobs.*\<close> methods: \<open>packages/sidecar/src/server/handlers/jobs.ts\<close>, with the arguments of the
  built-in job (\<open>scheduler/builtinJobs.ts\<close>) and the wiring of \<open>index.ts\<close>: the seed at boot and the
  callback that pins a session. A call ends in a fault of the wire or in a reply.
\<close>

section \<open>Definitions\<close>

subsection \<open>The built-in job\<close>

definition MEMORY_DREAM_JOB_ID :: string where "MEMORY_DREAM_JOB_ID = ''memory-dream''"

definition DREAM_ARG_LIMITS :: "(string \<times> nat \<times> nat) list" where
  "DREAM_ARG_LIMITS = [(''minHours'', 1, 24 * 30), (''minChanges'', 0, 1000), (''staleDays'', 7, 3650),
     (''staleDaysDurable'', 7, 3650)]"

text \<open>A number that is an integer within the limits is written with digits only.\<close>

definition digits_value :: "string \<Rightarrow> nat" where
  "digits_value t = foldl (\<lambda>n c. 10 * n + (code_unit c - 48)) 0 t"

definition dream_int :: "js \<Rightarrow> nat option" where
  "dream_int v =
     (case v of JNum t \<Rightarrow> if t \<noteq> [] \<and> list_all is_digit_ascii t then Some (digits_value t) else None | _ \<Rightarrow> None)"

fun dream_numbers ::
  "(string \<times> nat \<times> nat) list \<Rightarrow> (string, js) js_map \<Rightarrow> (string, js) js_map \<Rightarrow> string + (string, js) js_map" where
  "dream_numbers [] args out = Inr out"
| "dream_numbers ((key, lo, hi) # ls) args out =
     (case jm_get args key of
        None \<Rightarrow> dream_numbers ls args out
      | Some value \<Rightarrow>
          (case dream_int value of
             Some n \<Rightarrow>
               if n < lo \<or> hi < n
               then Inl (''args.'' @ key @ '' must be an integer in ['' @ nat_text lo @ '', '' @ nat_text hi @ '']'')
               else dream_numbers ls args (jm_set out key value)
           | None \<Rightarrow> Inl (''args.'' @ key @ '' must be an integer in ['' @ nat_text lo @ '', '' @ nat_text hi @ '']'')))"

definition parseMemoryDreamArgs :: "(string, js) js_map \<Rightarrow> string + (string, js) js_map" where
  "parseMemoryDreamArgs args =
     (case dream_numbers DREAM_ARG_LIMITS args [] of
        Inl e \<Rightarrow> Inl e
      | Inr out \<Rightarrow>
          (case jm_get args ''model'' of
             None \<Rightarrow> Inr out
           | Some (JStr m) \<Rightarrow>
               if m = [] then Inr out
               else if 200 < length m then Inl ''args.model must be a model id string''
               else Inr (jm_set out ''model'' (JStr m))
           | Some _ \<Rightarrow> Inl ''args.model must be a model id string''))"

definition defaultMemoryDreamJob :: job where
  "defaultMemoryDreamJob =
     \<lparr>jb_id = MEMORY_DREAM_JOB_ID, jb_name = ''Memory consolidation'', jb_schedule = Cron ''17 4 * * *'' None,
      jb_command = MEMORY_DREAM_COMMAND,
      jb_args = [(''minHours'', JNum ''24''), (''minChanges'', JNum ''5''), (''staleDays'', JNum ''90''),
        (''staleDaysDurable'', JNum ''180'')],
      jb_builtin = True, jb_enabled = True, jb_run_on_startup = True, jb_max_runs = None, jb_run_count = Some 0,
      jb_max_consecutive_failures = None, jb_consecutive_failures = Some 0, jb_disabled_reason = None,
      jb_last_run_at = None, jb_next_run_at = None, jb_history = Some [], jb_generation = Some [],
      jb_channelId = None, jb_peerId = None, jb_sessionStrategy = None, jb_pinnedSessionId = None\<rparr>"

definition onPinnedSessionCreated :: "string \<Rightarrow> string \<Rightarrow> job_files \<Rightarrow> job_files" where
  "onPinnedSessionCreated jobId sessionId files =
     snd (store_mutate jobId (\<lambda>j. Inr (case j of None \<Rightarrow> Removed
       | Some x \<Rightarrow> Replaced (x\<lparr>jb_pinnedSessionId := Some sessionId\<rparr>))) files)"

subsection \<open>The methods\<close>

datatype jobs_fault = FaultInvalid | FaultNotReady | FaultNotFound | FaultForbidden | FaultConflict | FaultInternal

definition scopeErrorToRpc :: "job_error \<Rightarrow> jobs_fault" where
  "scopeErrorToRpc e =
     (case e of
        ScopeForbidden _ \<Rightarrow> FaultForbidden
      | ScopeNotFound _ \<Rightarrow> FaultNotFound
      | JobAlreadyExists _ \<Rightarrow> FaultConflict
      | _ \<Rightarrow> FaultInternal)"

text \<open>The checks that a schema cannot state.\<close>

definition nonempty_text :: "js option \<Rightarrow> bool" where
  "nonempty_text v = (case v of Some (JStr t) \<Rightarrow> t \<noteq> [] | _ \<Rightarrow> False)"

definition assertJobSemantics :: "job \<Rightarrow> job option" where
  "assertJobSemantics j =
     (if jb_builtin j then
        if jb_command j \<notin> set BUILTIN_JOB_COMMANDS then None
        else (case parseMemoryDreamArgs (jb_args j) of Inl _ \<Rightarrow> None | Inr args \<Rightarrow> Some (j\<lparr>jb_args := args\<rparr>))
      else if jb_command j \<in> set BUILTIN_JOB_COMMANDS then None
      else if jb_command j \<noteq> ''agent.invoke'' then None
      else if \<not> nonempty_text (jm_get (jb_args j) ''workspace'') then None
      else if \<not> nonempty_text (jm_get (jb_args j) ''prompt'') then None
      else Some j)"

definition toSchedulerJob :: "job \<Rightarrow> job" where
  "toSchedulerJob j = j\<lparr>jb_history := Some (or_else (jb_history j) [])\<rparr>"

datatype jobs_call =
    CallList
  | CallGet string
  | CallCreate job
  | CallUpdate job
  | CallDelete string
  | CallRunNow string
  | CallHistory string

datatype jobs_reply =
    ReplyJobs "job list"
  | ReplyJob "job option"
  | ReplySaved job
  | ReplyDeleted bool
  | ReplyRun run_now
  | ReplyHistory "history_entry list option"

definition jobs_answer ::
  "('a \<Rightarrow> jobs_reply) \<Rightarrow> 'a job_result \<times> scheduler \<Rightarrow> (jobs_fault + jobs_reply) \<times> scheduler" where
  "jobs_answer f x = (case x of (Inl e, s) \<Rightarrow> (Inl (scopeErrorToRpc e), s) | (Inr r, s) \<Rightarrow> (Inr (f r), s))"

definition jobs_rpc ::
  "sched_env \<Rightarrow> int \<Rightarrow> bool \<Rightarrow> string \<Rightarrow> string \<Rightarrow> actor option \<Rightarrow> jobs_call \<Rightarrow> scheduler \<Rightarrow>
     (jobs_fault + jobs_reply) \<times> scheduler" where
  "jobs_rpc E now mounted uid gen actor call s =
     (case call of
        CallList \<Rightarrow>
          if mounted then (case jobs_list E actor s of (js, s1) \<Rightarrow> (Inr (ReplyJobs js), s1))
          else (Inr (ReplyJobs []), s)
      | CallGet key \<Rightarrow>
          if \<not> isSafeJobId key then (Inl FaultInvalid, s)
          else if mounted then jobs_answer ReplyJob (jobs_get key actor s) else (Inr (ReplyJob None), s)
      | CallCreate j \<Rightarrow>
          if \<not> mounted then (Inl FaultNotReady, s)
          else (case assertJobSemantics (j\<lparr>jb_id := []\<rparr>) of
                  None \<Rightarrow> (Inl FaultInvalid, s)
                | Some job \<Rightarrow> jobs_answer ReplySaved (jobs_create uid gen (toSchedulerJob job) actor s))
      | CallUpdate j \<Rightarrow>
          if \<not> mounted then (Inl FaultNotReady, s)
          else (case assertJobSemantics j of
                  None \<Rightarrow> (Inl FaultInvalid, s)
                | Some job \<Rightarrow>
                    if \<not> isSafeJobId (jb_id job) then (Inl FaultInvalid, s)
                    else jobs_answer ReplySaved (jobs_update (toSchedulerJob job) actor s))
      | CallDelete key \<Rightarrow>
          if \<not> mounted then (Inl FaultNotReady, s)
          else if \<not> isSafeJobId key then (Inl FaultInvalid, s)
          else (case jobs_get key actor s of
                  (Inl e, s1) \<Rightarrow> (Inl (scopeErrorToRpc e), s1)
                | (Inr existed, s1) \<Rightarrow> jobs_answer (\<lambda>_. ReplyDeleted (existed \<noteq> None)) (jobs_delete key actor s1))
      | CallRunNow key \<Rightarrow>
          if \<not> mounted then (Inl FaultNotReady, s)
          else if \<not> isSafeJobId key then (Inl FaultInvalid, s)
          else jobs_answer ReplyRun (jobs_runNow E now key actor s)
      | CallHistory key \<Rightarrow>
          if \<not> isSafeJobId key then (Inl FaultInvalid, s)
          else if mounted then jobs_answer ReplyHistory (jobs_history key actor s) else (Inr (ReplyHistory None), s))"

text \<open>What happens to the jobs of a process: calls, whose actor the schema has checked, and the
  scheduler's own steps.\<close>

inductive jobs_step :: "sched_env \<Rightarrow> scheduler \<Rightarrow> scheduler \<Rightarrow> bool" for E where
  js_call: "pred_option actor_ok actor \<Longrightarrow> jobs_step E s (snd (jobs_rpc E now mounted uid gen actor call s))"
| js_seed: "jobs_step E s (snd (seedBuiltin gen now defaultMemoryDreamJob s))"
| js_crash: "jobs_step E s (markRunningAsErr E reason now s)"
| js_pin: "jobs_step E s (s\<lparr>sc_files := onPinnedSessionCreated key sid (sc_files s)\<rparr>)"
| js_fire: "fire_step E s t \<Longrightarrow> jobs_step E s t"

section \<open>Stored jobs\<close>

text \<open>Every file is named after its job, and every job has the scope of its workspace.\<close>

definition files_good :: "job_files \<Rightarrow> bool" where
  "files_good files \<longleftrightarrow> files_named files \<and> files_scoped files"

lemma good_same: "same_jobs a b \<Longrightarrow> files_good a \<Longrightarrow> files_good b"
  by (simp add: files_good_def files_scoped_def same_jobs_def)

lemma good_sameI: "files_good a \<Longrightarrow> (files_named a \<Longrightarrow> same_jobs a b) \<Longrightarrow> files_good b"
  using good_same by (simp add: files_good_def)

lemma builtin_canonical [simp]: "isBuiltinJob (canonical_job j) = isBuiltinJob j"
proof -
  have "isBuiltinJob (withCommand x) = isBuiltinJob x" for x
    by (auto simp: withCommand_def command_migrates_def isBuiltinJob_def BUILTIN_JOB_COMMANDS_def MEMORY_DREAM_COMMAND_def)
  moreover have "isBuiltinJob (withStrategy (withCounters j)) = isBuiltinJob j"
    by (simp add: isBuiltinJob_def withStrategy_def)
  ultimately show ?thesis by (simp add: canonical_job_def)
qed

lemma scoped_cong:
  "workspace_of n = workspace_of l \<Longrightarrow> isBuiltinJob n = isBuiltinJob l \<Longrightarrow> jb_channelId n = jb_channelId l \<Longrightarrow>
     jb_peerId n = jb_peerId l \<Longrightarrow> scoped n = scoped l"
  using scope_of_workspace[of n l] by (simp add: scoped_def)

lemma scoped_canonical [simp]: "scoped (canonical_job j) = scoped j"
  by (rule scoped_cong) simp_all

lemma good_write: "files_good files \<Longrightarrow> scoped j \<Longrightarrow> files_good (write_job j files)"
  by (auto simp: files_good_def named_write files_scoped_def job_at_write)

lemma good_unlink: "files_good files \<Longrightarrow> files_good (store_unlink k files)"
  by (auto simp: files_good_def files_named_def store_unlink_def files_scoped_def job_at_eq
      split: if_splits option.splits)

lemma good_at: "files_good files \<Longrightarrow> job_at k files = Some j \<Longrightarrow> scoped j"
  by (simp add: files_good_def files_scoped_def)

lemma good_mutate:
  assumes "files_good files" "\<And>n. update (job_at key files) = Inr (Replaced n) \<Longrightarrow> scoped n"
  shows "files_good (snd (store_mutate key update files))"
  using assms by (simp add: store_mutate_def Let_def good_write good_unlink split: sum.splits mutation.splits)

lemma good_with_job:
  fixes s :: scheduler
  assumes "files_good (sc_files s)"
    and "\<And>j t. files_good (sc_files t) \<Longrightarrow> j = job_at key (sc_files t) \<Longrightarrow> files_good (sc_files (snd (k j t)))"
  shows "files_good (sc_files (snd (with_job key s k)))"
proof (cases "isSafeJobId key")
  case False
  then show ?thesis using assms(1) by (simp add: with_job_def store_get_def assertSafeJobId_def)
next
  case True
  let ?files = "snd (readOne True key (sc_files s))" let ?j = "fst (readOne True key (sc_files s))"
  have same: "same_jobs (sc_files s) ?files" using assms(1) by (simp add: files_good_def readOne_same)
  have "?j = job_at key ?files" using same by (simp add: readOne_job same_jobs_def)
  then have "files_good (sc_files (snd (k ?j (s\<lparr>sc_files := ?files\<rparr>))))"
    using assms(2)[of "s\<lparr>sc_files := ?files\<rparr>" ?j] good_same[OF same assms(1)] by simp
  then show ?thesis using True by (simp add: with_job_def store_get_def assertSafeJobId_def case_prod_beta)
qed

lemma good_reload: "files_good (sc_files s) \<Longrightarrow> files_good (sc_files (reload k s))"
  by (erule good_sameI, rule reload_same, assumption)

lemma good_attach_half: "files_good (sc_files s) \<Longrightarrow> files_good (sc_files (reload_attach k s))"
  by (erule good_sameI, rule attach_half_same, assumption)

lemma good_runNow: "files_good (sc_files s) \<Longrightarrow> files_good (sc_files (snd (sched_runNow E now k s)))"
  by (erule good_sameI, rule runNow_same, assumption)

lemma good_list: "files_good files \<Longrightarrow> files_good (snd (store_list le files))"
  by (erule good_sameI, rule store_list_same, assumption)

text \<open>The jobs the controller writes.\<close>

lemma strategy_keeps_more:
  "normalizeSessionStrategy j = Inr n \<Longrightarrow> jb_builtin n = jb_builtin j \<and> jb_command n = jb_command j"
  by (auto simp: normalizeSessionStrategy_def Let_def split: if_splits)

lemma scope_twice:
  "jb_channelId (normalizeScopeFields (normalizeScopeFields j)) = jb_channelId (normalizeScopeFields j)"
  "jb_peerId (normalizeScopeFields (normalizeScopeFields j)) = jb_peerId (normalizeScopeFields j)"
  using scope_of_workspace[of "normalizeScopeFields j" j] by (simp_all add: scope_fields)

lemma scope_keeps_more: "jb_builtin (normalizeScopeFields j) = jb_builtin j" "jb_command (normalizeScopeFields j) = jb_command j"
  by (simp_all add: normalizeScopeFields_def Let_def split: option.splits)

lemma normalized_scoped:
  assumes "normalizeSessionStrategy (normalizeScopeFields j) = Inr n" "\<not> isBuiltinJob j"
  shows "scoped n"
proof -
  note k = strategy_keeps[OF assms(1)] and m = strategy_keeps_more[OF assms(1)]
  have w: "workspace_of n = workspace_of (normalizeScopeFields j)" using k by (simp add: workspace_of_def)
  have "\<not> isBuiltinJob n" using m assms(2) by (simp add: isBuiltinJob_def scope_keeps_more)
  then show ?thesis using k scope_of_workspace[OF w] by (simp add: scoped_def scope_twice)
qed

lemma good_write_update:
  assumes "files_good (sc_files s)" "\<And>c n. job_at key (sc_files s) = Some c \<Longrightarrow> change c = Inr n \<Longrightarrow> scoped n"
  shows "files_good (sc_files (snd (write_update key existing change s)))"
proof -
  have "files_good (snd (store_mutate key (guarded_update existing change) (sc_files s)))"
    using assms by (intro good_mutate) (auto simp: guarded_update_def split: option.splits if_splits sum.splits)
  then show ?thesis by (auto simp: write_update_def good_reload split: prod.splits sum.splits option.splits)
qed

lemma user_update_scoped:
  assumes "user_update j c = Inr n" "\<not> (jb_builtin j \<or> jb_command j \<in> set BUILTIN_JOB_COMMANDS)"
  shows "scoped n"
  using assms(1) unfolding user_update_def Let_def
  by (rule normalized_scoped) (use assms(2) in \<open>simp add: isBuiltinJob_def\<close>)

lemma builtin_update_scoped:
  assumes "scoped c" "isBuiltinJob c" "workspace_of j = []"
  shows "scoped (builtin_update j c)"
proof -
  have "workspace_of (builtin_update j c) = workspace_of c"
    using assms by (simp add: builtin_update_def Let_def workspace_of_def scoped_def)
  then show ?thesis
    using assms(1) scoped_cong[of "builtin_update j c" c] by (simp add: builtin_update_def Let_def isBuiltinJob_def)
qed

lemma good_create:
  fixes s :: scheduler
  assumes "files_good (sc_files s)"
  shows "files_good (sc_files (snd (jobs_create uid gen j actor s)))"
proof -
  have "files_good (snd (store_create n (sc_files s)))" if "scoped n" for n
    using that assms by (auto simp: store_create_def good_write split: sum.splits)
  moreover have "scoped n"
    if "normalizeSessionStrategy (normalizeScopeFields (fresh_job uid gen j)) = Inr n"
      "\<not> (jb_builtin j \<or> jb_command j \<in> set BUILTIN_JOB_COMMANDS)" for n
    using that by (intro normalized_scoped[OF that(1)]) (simp add: isBuiltinJob_def fresh_job_def)
  ultimately have "files_good files"
    if "normalizeSessionStrategy (normalizeScopeFields (fresh_job uid gen j)) = Inr n"
      "\<not> (jb_builtin j \<or> jb_command j \<in> set BUILTIN_JOB_COMMANDS)" "store_create n (sc_files s) = (r, files)" for n r files
    using that by (metis snd_conv)
  then show ?thesis
    using assms unfolding jobs_create_def by (auto simp: good_reload split: sum.splits prod.splits)
qed

lemma good_update:
  fixes s :: scheduler
  assumes "files_good (sc_files s)" "jb_builtin j \<Longrightarrow> workspace_of j = []"
  shows "files_good (sc_files (snd (jobs_update j actor s)))"
  unfolding jobs_update_def
proof (rule good_with_job[OF assms(1)])
  fix found and t :: scheduler
  assume t: "files_good (sc_files t)" and f: "found = job_at (jb_id j) (sc_files t)"
  have a: "files_good (sc_files (snd (write_update (jb_id j) x (user_update j) t)))"
    if "\<not> (jb_builtin j \<or> jb_command j \<in> set BUILTIN_JOB_COMMANDS)" for x
    using user_update_scoped[OF _ that] by (intro good_write_update[OF t])
  have b: "files_good (sc_files (snd (updateBuiltin x j t)))" if "found = Some x" "isBuiltinJob x" for x
  proof -
    have "scoped (builtin_update j x)" if "jb_builtin j"
      using good_at[OF t, of "jb_id j" x] f \<open>found = Some x\<close> \<open>isBuiltinJob x\<close> assms(2)[OF that]
      by (intro builtin_update_scoped) simp_all
    then have "files_good (sc_files (snd (write_update (jb_id j) x (\<lambda>c. Inr (builtin_update j c)) t)))" if "jb_builtin j"
      using f \<open>found = Some x\<close> that by (intro good_write_update[OF t]) auto
    then show ?thesis using t by (simp add: updateBuiltin_def)
  qed
  show "files_good (sc_files (snd (case found of None \<Rightarrow> (Inl (ScopeNotFound (jb_id j)), t)
      | Some existing \<Rightarrow> (case assertActorMatchesJob existing actor of
          Inl e \<Rightarrow> (Inl e, t)
        | Inr _ \<Rightarrow> if isBuiltinJob existing then updateBuiltin existing j t
            else if jb_builtin j \<or> jb_command j \<in> set BUILTIN_JOB_COMMANDS then (Inl (ScopeForbidden (jb_id j)), t)
            else write_update (jb_id j) existing (user_update j) t))))"
    using t a b by (cases found) (simp_all split: sum.splits)
qed

lemma good_reads:
  fixes s :: scheduler
  assumes "files_good (sc_files s)"
  shows "files_good (sc_files (snd (jobs_get key actor s)))"
    and "files_good (sc_files (snd (jobs_history key actor s)))"
    and "files_good (sc_files (snd (jobs_list E actor s)))"
    and "files_good (sc_files (snd (jobs_runNow E now key actor s)))"
    and "files_good (sc_files (snd (jobs_delete key actor s)))"
proof -
  show "files_good (sc_files (snd (jobs_get key actor s)))" "files_good (sc_files (snd (jobs_history key actor s)))"
    unfolding jobs_get_def jobs_history_def using assms by (rule good_with_job; simp)+
  show "files_good (sc_files (snd (jobs_list E actor s)))"
    using good_list[OF assms] by (simp add: jobs_list_def case_prod_beta Let_def)
  show "files_good (sc_files (snd (jobs_runNow E now key actor s)))"
    unfolding jobs_runNow_def using assms
    by (rule good_with_job) (simp add: good_runNow case_prod_beta split: option.splits sum.splits)
  show "files_good (sc_files (snd (jobs_delete key actor s)))"
    unfolding jobs_delete_def using assms
    by (rule good_with_job) (auto simp: good_reload good_unlink store_delete_def split: option.splits sum.splits intro!: good_reload)
qed

text \<open>A built-in job that passes the handler has no workspace.\<close>

lemma dream_numbers_other:
  "dream_numbers ls args out = Inr out' \<Longrightarrow> key \<notin> fst ` set ls \<Longrightarrow> jm_get out' key = jm_get out key"
  by (induction ls args out rule: dream_numbers.induct) (auto split: option.splits if_splits)

lemma dream_no_workspace:
  assumes "parseMemoryDreamArgs args = Inr out"
  shows "jm_get out ''workspace'' = None"
proof -
  obtain o1 where o1: "dream_numbers DREAM_ARG_LIMITS args [] = Inr o1" "out = o1 \<or> (\<exists>m. out = jm_set o1 ''model'' m)"
    using assms by (auto simp: parseMemoryDreamArgs_def split: sum.splits option.splits js.splits if_splits)
  have "''workspace'' \<notin> fst ` set DREAM_ARG_LIMITS" by (simp add: DREAM_ARG_LIMITS_def)
  then have "jm_get o1 ''workspace'' = None" using dream_numbers_other[OF o1(1)] by (simp add: jm_get_def)
  then show ?thesis using o1(2) by auto
qed

lemma semantics_builtin: "assertJobSemantics j = Some x \<Longrightarrow> jb_builtin x \<Longrightarrow> workspace_of (toSchedulerJob x) = []"
  by (auto simp: assertJobSemantics_def toSchedulerJob_def workspace_of_def dest!: dream_no_workspace
      split: if_splits sum.splits)

lemma to_job_fields [simp]:
  "jb_builtin (toSchedulerJob j) = jb_builtin j" "jb_id (toSchedulerJob j) = jb_id j"
  by (simp_all add: toSchedulerJob_def)

lemma answer_state [simp]: "snd (jobs_answer f x) = snd x"
  by (simp add: jobs_answer_def split: prod.splits sum.splits)

lemma good_rpc:
  assumes "files_good (sc_files s)"
  shows "files_good (sc_files (snd (jobs_rpc E now mounted uid gen actor call s)))"
proof (cases call)
  case (CallUpdate j)
  then show ?thesis
    using assms by (auto simp: jobs_rpc_def split: option.splits intro!: good_update[OF assms] semantics_builtin)
next
  case (CallDelete key)
  have "files_good (sc_files (snd (jobs_delete key actor (snd (jobs_get key actor s)))))"
    using good_reads(1,5) assms by blast
  then show ?thesis
    using assms good_reads(1)[OF assms, of key actor] CallDelete
    by (simp add: jobs_rpc_def case_prod_beta split: sum.splits)
qed (use assms good_reads good_create in \<open>simp_all add: jobs_rpc_def case_prod_beta split: option.splits\<close>)

lemma good_seed:
  fixes s :: scheduler
  assumes "files_good (sc_files s)" "scoped j"
  shows "files_good (sc_files (snd (seedBuiltin gen now j s)))"
proof (cases "isBuiltinJob j")
  case False
  then show ?thesis using assms(1) by (simp add: seedBuiltin_def)
next
  case True
  let ?n = "j\<lparr>jb_generation := Some gen, jb_history := Some [],
    jb_last_run_at := Some (or_else (jb_last_run_at j) (Some now))\<rparr>"
  have n: "scoped ?n" using assms(2) by (subst scoped_cong[of _ j]) (simp_all add: workspace_of_def isBuiltinJob_def)
  have "files_good (snd (store_create ?n files))" if "files_good files" for files
    using that n by (auto simp: store_create_def good_write split: sum.splits)
  then have c: "files_good files'" if "store_create ?n files = (r, files')" "files_good files" for files r files'
    using that by (metis snd_conv)
  have again: "files_good (sc_files (snd (with_job (jb_id j) (reload (jb_id j) (t\<lparr>sc_files := files\<rparr>)) (\<lambda>x s. (Inr (g x), s)))))"
    if "files_good files" for files and g :: "job option \<Rightarrow> job" and t :: scheduler
    by (rule good_with_job) (simp_all add: good_reload that)
  show ?thesis
    using True unfolding seedBuiltin_def Let_def
    by simp (rule good_with_job[OF assms(1)],
      auto split: option.splits prod.splits sum.splits job_error.splits intro!: again dest: c)
qed

lemma good_mark:
  assumes "files_good (sc_files s)"
  shows "files_good (sc_files (markRunningAsErr E reason now s))"
proof -
  have u: "scoped n" if g: "files_good files" and m: "mark_update reason now j (job_at k files) = Inr (Replaced n)" for files j k n
  proof -
    obtain c where c: "job_at k files = Some c" "n = c\<lparr>jb_history := map_option (map (mark_entry reason now)) (jb_history j)\<rparr>"
      using m by (auto simp: mark_update_def split: option.splits if_splits)
    show ?thesis using good_at[OF g c(1)] unfolding c(2)
      by (subst scoped_cong[of _ c]) (simp_all add: workspace_of_def isBuiltinJob_def)
  qed
  have "files_good (foldl (mark_job reason now) files jobs)" if "files_good files" for files jobs
    using that by (induction jobs arbitrary: files) (simp_all add: mark_job_def good_mutate[OF _ u])
  then show ?thesis
    using good_list[OF assms] by (simp add: markRunningAsErr_def case_prod_beta Let_def)
qed

lemma good_pin: "files_good files \<Longrightarrow> files_good (onPinnedSessionCreated key sid files)"
  unfolding onPinnedSessionCreated_def
proof (rule good_mutate)
  fix n assume g: "files_good files"
    and n: "Inr (case job_at key files of None \<Rightarrow> Removed | Some x \<Rightarrow> Replaced (x\<lparr>jb_pinnedSessionId := Some sid\<rparr>)) =
      (Inr (Replaced n) :: mutation job_result)"
  then obtain c where c: "job_at key files = Some c" "n = c\<lparr>jb_pinnedSessionId := Some sid\<rparr>"
    by (auto split: option.splits)
  show "scoped n" using good_at[OF g c(1)] unfolding c(2)
    by (subst scoped_cong[of _ c]) (simp_all add: workspace_of_def isBuiltinJob_def)
qed

lemma good_end: "files_good (sc_files s) \<Longrightarrow> files_good (sc_files (runJob_end E now v written f s))"
proof -
  assume g: "files_good (sc_files s)"
  let ?j = "closed_obj E now v f (obj_at (fi_obj f) s)" let ?ok = "outcome_ok v"
  have "files_good (snd (store_mutate (jb_id ?j) (end_update ?j now ?ok) (sc_files s)))"
  proof (rule good_mutate[OF g])
    fix n assume "end_update ?j now ?ok (job_at (jb_id ?j) (sc_files s)) = Inr (Replaced n)"
    then obtain l where l: "job_at (jb_id ?j) (sc_files s) = Some l" "n = record_run ?j now ?ok l"
      by (auto simp: end_update_def split: option.splits if_splits)
    have "scoped n = scoped l" unfolding l(2)
      by (rule scoped_cong) (simp_all add: workspace_of_def isBuiltinJob_def record_run_def Let_def split: option.splits)
    then show "scoped n" using good_at[OF g l(1)] by simp
  qed
  then show ?thesis
    using g by (cases "v = TimedOut") (simp_all add: runJob_end_def Let_def case_prod_beta set_obj_def)
qed

lemma boot_files [simp]:
  "sc_files (foldl (\<lambda>x r. boot_fire E now r x) s rs) = sc_files s"
  "sc_files (foldl (\<lambda>x r. boot_attach r x) s rs) = sc_files s"
  by (induction rs arbitrary: s) (simp_all add: boot_fire_def boot_attach_def attach_obj_def Let_def)

lemma good_start: "files_good (sc_files s) \<Longrightarrow> files_good (sc_files (sched_start E now s))"
  by (simp add: sched_start_def Let_def case_prod_beta good_list)

lemma good_fire: "fire_step E s t \<Longrightarrow> files_good (sc_files s) \<Longrightarrow> files_good (sc_files t)"
  by (erule fire_step.cases)
    (simp_all add: timer_fire_def good_runNow good_end late_completion_def good_attach_half sched_stop_def good_start)

lemma default_scoped: "scoped defaultMemoryDreamJob"
  by code_simp

interpretation jobs: transition_invariant "jobs_step E" "new_scheduler [] locks" "\<lambda>s. files_good (sc_files s)"
proof
  show "files_good (sc_files (new_scheduler [] locks))"
    by (simp add: new_scheduler_def files_good_def files_named_def files_scoped_def job_at_eq jm_get_def)
  show "files_good (sc_files t)" if "jobs_step E s t" "files_good (sc_files s)" for s t
    using that by cases (simp_all add: good_rpc good_seed default_scoped good_mark good_pin good_fire)
qed

section \<open>What an actor reaches\<close>

fun reply_jobs :: "jobs_reply \<Rightarrow> job list" where
  "reply_jobs (ReplyJobs js) = js"
| "reply_jobs (ReplyJob (Some j)) = [j]"
| "reply_jobs (ReplySaved j) = [j]"
| "reply_jobs _ = []"

text \<open>A result that, when it is there, is the actor's.\<close>

definition own_result :: "('a \<Rightarrow> jobs_reply) \<Rightarrow> actor \<Rightarrow> 'a job_result \<Rightarrow> bool" where
  "own_result f a r = (case r of Inl _ \<Rightarrow> True | Inr x \<Rightarrow> (\<forall>j \<in> set (reply_jobs (f x)). isJobVisibleToActor j a))"

lemma own_with_job:
  assumes "\<And>j t. j = job_at key (sc_files t) \<Longrightarrow> same_jobs (sc_files s) (sc_files t) \<Longrightarrow> own_result f a (fst (k j t))"
    and "files_named (sc_files s)"
  shows "own_result f a (fst (with_job key s k))"
proof (cases "isSafeJobId key")
  case False
  then show ?thesis by (simp add: with_job_def store_get_def assertSafeJobId_def own_result_def)
next
  case True
  let ?files = "snd (readOne True key (sc_files s))" let ?j = "fst (readOne True key (sc_files s))"
  have same: "same_jobs (sc_files s) ?files" by (rule readOne_same[OF assms(2)])
  then have "?j = job_at key ?files" by (simp add: readOne_job same_jobs_def)
  then show ?thesis
    using assms(1)[of ?j "s\<lparr>sc_files := ?files\<rparr>"] same True
    by (simp add: with_job_def store_get_def assertSafeJobId_def case_prod_beta)
qed

lemma own_get: "files_named (sc_files s) \<Longrightarrow> own_result ReplyJob a (fst (jobs_get key (Some a) s))"
  unfolding jobs_get_def by (rule own_with_job) (simp_all add: own_result_def visible_to_def split: option.splits)

lemma own_create: "own_result ReplySaved a (fst (jobs_create uid gen j (Some a) s))"
  by (simp add: jobs_create_def own_result_def assertActorMatchesJob_def visible_to_def split: sum.splits prod.splits)

lemma own_write:
  assumes "\<And>c n. job_at key (sc_files s) = Some c \<Longrightarrow> change c = Inr n \<Longrightarrow> isJobVisibleToActor n a"
  shows "own_result ReplySaved a (fst (write_update key existing change s))"
  using assms
  by (simp add: write_update_def own_result_def store_mutate_def guarded_update_def Let_def
      split: sum.splits option.splits if_splits prod.splits mutation.splits)

lemma own_update:
  fixes s :: scheduler
  assumes "files_good (sc_files s)" "actor_ok a"
  shows "own_result ReplySaved a (fst (jobs_update j (Some a) s))"
  unfolding jobs_update_def
proof (rule own_with_job)
  show "files_named (sc_files s)" using assms(1) by (simp add: files_good_def)
  fix found and t :: scheduler
  assume f: "found = job_at (jb_id j) (sc_files t)" and t: "same_jobs (sc_files s) (sc_files t)"
  have g: "files_good (sc_files t)" by (rule good_same[OF t assms(1)])
  show "own_result ReplySaved a (fst (case found of None \<Rightarrow> (Inl (ScopeNotFound (jb_id j)), t)
      | Some existing \<Rightarrow> (case assertActorMatchesJob existing (Some a) of
          Inl e \<Rightarrow> (Inl e, t)
        | Inr _ \<Rightarrow> if isBuiltinJob existing then updateBuiltin existing j t
            else if jb_builtin j \<or> jb_command j \<in> set BUILTIN_JOB_COMMANDS then (Inl (ScopeForbidden (jb_id j)), t)
            else write_update (jb_id j) existing (user_update j) t)))"
  proof (cases "\<exists>x. found = Some x \<and> isJobVisibleToActor x a")
    case False
    then show ?thesis
      by (cases found) (simp_all add: own_result_def assertActorMatchesJob_def visible_to_def)
  next
    case True
    then obtain x where x: "found = Some x" "isJobVisibleToActor x a" by blast
    have sx: "scoped x" using good_at[OF g] f x(1) by simp
    then have nb: "\<not> isBuiltinJob x" using builtin_invisible assms(2) x(2) by blast
    have "isJobVisibleToActor n a" if "user_update j x = Inr n" for n
      using user_update_scope(2)[OF that sx, of a] x(2) by simp
    then have "own_result ReplySaved a (fst (write_update (jb_id j) x (user_update j) t))"
      using f x(1) by (intro own_write) simp
    then show ?thesis
      unfolding x(1) using x(2) nb by (simp add: own_result_def assertActorMatchesJob_def visible_to_def)
  qed
qed

lemma own_answer:
  "own_result f a (fst x) \<Longrightarrow> fst (jobs_answer f x) = Inr r \<Longrightarrow> j \<in> set (reply_jobs r) \<Longrightarrow> isJobVisibleToActor j a"
  by (auto simp: jobs_answer_def own_result_def split: prod.splits sum.splits)

lemma rpc_own:
  assumes "files_good (sc_files s)" "actor_ok a"
    and "fst (jobs_rpc E now mounted uid gen (Some a) call s) = Inr r" "j \<in> set (reply_jobs r)"
  shows "isJobVisibleToActor j a"
proof -
  have n: "files_named (sc_files s)" using assms(1) by (simp add: files_good_def)
  show ?thesis
  proof (cases call)
    case CallList
    then show ?thesis using assms(3,4) by (auto simp: jobs_rpc_def jobs_list_def visible_to_def Let_def split: if_splits prod.splits)
  next
    case (CallGet key)
    then show ?thesis using assms(3,4) own_answer[OF own_get[OF n]] by (auto simp: jobs_rpc_def split: if_splits)
  next
    case (CallCreate x)
    then show ?thesis using assms(3,4) own_answer[OF own_create] by (auto simp: jobs_rpc_def split: if_splits option.splits)
  next
    case (CallUpdate x)
    then show ?thesis using assms(3,4) own_answer[OF own_update[OF assms(1,2)]]
      by (auto simp: jobs_rpc_def split: if_splits option.splits)
  qed (use assms(3,4) in \<open>auto simp: jobs_rpc_def jobs_answer_def split: if_splits prod.splits sum.splits\<close>)
qed

lemma with_job_same:
  assumes "files_named (sc_files s)" "\<And>j t. sc_files (snd (k j t)) = sc_files t"
  shows "same_jobs (sc_files s) (sc_files (snd (with_job key s k)))"
  using assms readOne_same[OF assms(1), of True key]
  by (simp add: with_job_def store_get_def assertSafeJobId_def case_prod_beta)

lemma rpc_confined:
  assumes "files_good (sc_files s)" "actor_ok a"
  shows "confined a (sc_files s) (sc_files (snd (jobs_rpc E now mounted uid gen (Some a) call s)))"
proof -
  have n: "files_named (sc_files s)" "files_scoped (sc_files s)" using assms(1) by (simp_all add: files_good_def)
  show ?thesis
  proof (cases call)
    case (CallDelete key)
    have same: "same_jobs (sc_files s) (sc_files (snd (jobs_get key (Some a) s)))"
      unfolding jobs_get_def by (rule with_job_same[OF n(1)]) simp
    then have "confined a (sc_files (snd (jobs_get key (Some a) s)))
        (sc_files (snd (jobs_delete key (Some a) (snd (jobs_get key (Some a) s)))))"
      using n(1) by (intro delete_confined) (simp add: same_jobs_def)
    then show ?thesis
      using confined_between[OF same _ same_jobs_refl] confined_same[OF same] CallDelete
      by (simp add: jobs_rpc_def case_prod_beta confined_same split: sum.splits)
  qed (simp_all add: jobs_rpc_def case_prod_beta confined_same list_confined n get_confined create_confined
      update_confined assms(2) runNow_confined history_confined split: option.splits)
qed

section \<open>Properties\<close>

text \<open>C15: Scopes are never forged. However calls of any actors and of the administrator, crashes,
  seeds and the steps of the scheduler follow one another, every job on disk is stored under its own
  identifier, carries the channel and the peer of its workspace and no others, and a built-in job has
  no workspace.\<close>

theorem scopes_never_forged:
  assumes "(jobs_step E)\<^sup>*\<^sup>* (new_scheduler [] locks) s" "job_at key (sc_files s) = Some j"
  shows "jb_id j = key \<and> jb_channelId (normalizeScopeFields j) = jb_channelId j \<and>
    jb_peerId (normalizeScopeFields j) = jb_peerId j \<and> (isBuiltinJob j \<longrightarrow> workspace_of j = [])"
proof -
  have g: "files_good (sc_files s)" using jobs.I_reachable[OF assms(1)] .
  have "jb_id j = key"
    using g assms(2) by (auto simp: files_good_def files_named_def job_at_eq split: option.splits if_splits)
  then show ?thesis using good_at[OF g assms(2)] by (simp add: scoped_def)
qed

text \<open>C14: An actor reaches its own jobs only. Whatever call of the jobs interface a chat or a
  workspace makes, with whatever fields in the job it sends, every stored job that is different
  afterwards was in its scope before and is in its scope now, and every job the reply shows is in
  its scope: no call changes, removes, takes over, moves away or shows a job of anybody else.\<close>

theorem actor_confined:
  assumes "(jobs_step E)\<^sup>*\<^sup>* (new_scheduler [] locks) s" "actor_ok a"
    and "jobs_rpc E now mounted uid gen (Some a) call s = (r, t)"
  shows "confined a (sc_files s) (sc_files t) \<and>
    (\<forall>reply. r = Inr reply \<longrightarrow> (\<forall>j \<in> set (reply_jobs reply). isJobVisibleToActor j a))"
proof -
  have g: "files_good (sc_files s)" using jobs.I_reachable[OF assms(1)] .
  show ?thesis
    using rpc_confined[OF g assms(2), of E now mounted uid gen call]
      rpc_own[OF g assms(2), of E now mounted uid gen call] assms(3) by auto
qed

text \<open>A state with the built-in job and the job of a chat.\<close>

definition demo_chat_job :: job where
  "demo_chat_job = demo_job\<lparr>jb_args := [(''workspace'', JStr ''im://c/p/t''), (''prompt'', JStr ''p'')],
     jb_channelId := Some ''x'', jb_sessionStrategy := None\<rparr>"

definition demo_jobs :: scheduler where
  "demo_jobs = snd (jobs_rpc demo_sched_env 1 True ''u1'' ''g1'' (Some (ImActor ''c'' ''p'' ''t'')) (CallCreate demo_chat_job)
     (snd (seedBuiltin ''g0'' 0 defaultMemoryDreamJob (new_scheduler [] []))))"

lemma demo_jobs_reachable: "(jobs_step demo_sched_env)\<^sup>*\<^sup>* (new_scheduler [] []) demo_jobs"
proof -
  have "pred_option actor_ok (Some (ImActor ''c'' ''p'' ''t''))" by (simp add: actor_ok_def)
  then show ?thesis
    unfolding demo_jobs_def by (meson js_call js_seed r_into_rtranclp rtranclp.rtrancl_into_rtrancl)
qed

theorem scopes_never_forged_witness:
  "\<exists>j. job_at ''u1'' (sc_files demo_jobs) = Some j \<and> jb_channelId (normalizeScopeFields j) = jb_channelId j \<and>
     jb_channelId j = Some ''c''"
proof -
  have at: "map_option jb_channelId (job_at ''u1'' (sc_files demo_jobs)) = Some (Some ''c'')" by code_simp
  then obtain j where j: "job_at ''u1'' (sc_files demo_jobs) = Some j" "jb_channelId j = Some ''c''" by auto
  show ?thesis using j scopes_never_forged[OF demo_jobs_reachable j(1)] by blast
qed

theorem actor_confined_witness:
  "confined (IdeActor ''/w'') (sc_files demo_jobs)
     (sc_files (snd (jobs_rpc demo_sched_env 2 True [] [] (Some (IdeActor ''/w'')) (CallDelete ''u1'') demo_jobs))) \<and>
   fst (jobs_rpc demo_sched_env 2 True [] [] (Some (IdeActor ''/w'')) (CallDelete ''u1'') demo_jobs) = Inr (ReplyDeleted False)"
proof -
  have ok: "actor_ok (IdeActor ''/w'')" by (simp add: actor_ok_def)
  have "fst (jobs_rpc demo_sched_env 2 True [] [] (Some (IdeActor ''/w'')) (CallDelete ''u1'') demo_jobs) = Inr (ReplyDeleted False)"
    by code_simp
  then show ?thesis using actor_confined[OF demo_jobs_reachable ok prod.collapse[symmetric]] by blast
qed

end
