(* ===== verification/JobDispatch.thy ===== *)
theory JobDispatch
  imports JobsRpc
begin

text \<open>
  What a fire does: \<open>packages/sidecar/src/scheduler/dispatcher.ts\<close>. The server that answers the
  requests, its routing table, the handlers of built-in jobs and the disk that takes the pin are
  parameters; a request changes the server's state and is answered, refused with a code, or
  throws. The requests that were sent, with their answers, are kept in the order they were sent.
\<close>

section \<open>Definitions\<close>

datatype session_request =
    SessionCreate string string string
  | SessionHistory string string
  | SessionAttach string string
  | SessionPrompt string string string
  | SessionFollowUp string string string

datatype session_response = Accepted "string option" | Refused string string | Thrown string

definition answer_ok :: "session_response \<Rightarrow> bool" where
  "answer_ok r = (case r of Accepted _ \<Rightarrow> True | _ \<Rightarrow> False)"

datatype dispatch_error =
    UnsupportedScheduledCommand string
  | PromptMissing
  | InvalidSessionStrategy string
  | ScheduledCommandFailed string string
  | StoreError string
  | OtherError string

record 's dispatch_env =
  de_rpc :: "'s \<Rightarrow> session_request \<Rightarrow> session_response \<times> 's"
  de_route :: "'s \<Rightarrow> string \<Rightarrow> string option"
  de_builtin :: "string \<Rightarrow> (job \<Rightarrow> 's \<Rightarrow> (string + string option) \<times> 's) option"
  de_disk :: "'s \<Rightarrow> string option"

record 's world =
  wo_server :: 's
  wo_files :: job_files
  wo_sent :: "(session_request \<times> session_response) list"

type_synonym ('s, 'a) act = "'s world \<Rightarrow> (dispatch_error + 'a) \<times> 's world"

definition act_return :: "'a \<Rightarrow> ('s, 'a) act" where
  "act_return x w = (Inr x, w)"

definition act_fail :: "dispatch_error \<Rightarrow> ('s, 'a) act" where
  "act_fail e w = (Inl e, w)"

definition act_bind :: "('s, 'a) act \<Rightarrow> ('a \<Rightarrow> ('s, 'b) act) \<Rightarrow> ('s, 'b) act" where
  "act_bind m k w = (case m w of (Inl e, w1) \<Rightarrow> (Inl e, w1) | (Inr x, w1) \<Rightarrow> k x w1)"

definition dispatchRpc :: "'s dispatch_env \<Rightarrow> session_request \<Rightarrow> ('s, session_response) act" where
  "dispatchRpc D req w =
     (case de_rpc D (wo_server w) req of
        (res, s) \<Rightarrow>
          (let w1 = w\<lparr>wo_server := s, wo_sent := wo_sent w @ [(req, res)]\<rparr>
           in case res of Thrown e \<Rightarrow> (Inl (OtherError e), w1) | _ \<Rightarrow> (Inr res, w1)))"

text \<open>A request that has to succeed.\<close>

definition must :: "session_response \<Rightarrow> ('s, string option) act" where
  "must res = (case res of
      Accepted mode \<Rightarrow> act_return mode
    | Refused code msg \<Rightarrow> act_fail (ScheduledCommandFailed code msg)
    | Thrown e \<Rightarrow> act_fail (OtherError e))"

definition send :: "'s dispatch_env \<Rightarrow> session_request \<Rightarrow> ('s, string option) act" where
  "send D req = act_bind (dispatchRpc D req) must"

definition sessionExists :: "'s dispatch_env \<Rightarrow> string \<Rightarrow> string \<Rightarrow> 's world \<Rightarrow> bool \<times> 's world" where
  "sessionExists D ws sid w =
     (case dispatchRpc D (SessionHistory ws sid) w of
        (Inl _, w1) \<Rightarrow> (False, w1)
      | (Inr res, w1) \<Rightarrow> (answer_ok res, w1))"

definition SESSION_BUSY :: string where "SESSION_BUSY = ''session_busy''"

definition is_busy :: "session_response \<Rightarrow> bool" where
  "is_busy res = (case res of Refused code _ \<Rightarrow> code = SESSION_BUSY | _ \<Rightarrow> False)"

definition promptWithBusyFallback :: "'s dispatch_env \<Rightarrow> string \<Rightarrow> string \<Rightarrow> string \<Rightarrow> ('s, unit) act" where
  "promptWithBusyFallback D ws sid prompt =
     act_bind (dispatchRpc D (SessionPrompt ws sid prompt)) (\<lambda>res.
       if answer_ok res then act_return ()
       else if \<not> is_busy res then act_bind (must res) (\<lambda>_. act_return ())
       else act_bind (send D (SessionFollowUp ws sid prompt)) (\<lambda>mode.
         if mode \<noteq> Some ''idle'' then act_return ()
         else act_bind (send D (SessionPrompt ws sid prompt)) (\<lambda>_. act_return ())))"

definition attachAndPrompt :: "'s dispatch_env \<Rightarrow> string \<Rightarrow> string \<Rightarrow> string \<Rightarrow> ('s, unit) act" where
  "attachAndPrompt D ws sid prompt =
     act_bind (send D (SessionAttach ws sid)) (\<lambda>_. promptWithBusyFallback D ws sid prompt)"

datatype strategy = NewSession | ReuseSession | PinSession

definition resolveStrategy :: "string option \<Rightarrow> string \<Rightarrow> dispatch_error + strategy" where
  "resolveStrategy raw ws =
     (if raw = None \<or> raw = Some [] then Inr (if isImWorkspace ws then ReuseSession else PinSession)
      else if raw = Some ''new'' then
        if isImWorkspace ws then Inl (InvalidSessionStrategy ''new strategy is only available for non-channel workspaces'')
        else Inr NewSession
      else if raw = Some ''reuse'' then
        if \<not> isImWorkspace ws
        then Inl (InvalidSessionStrategy (''reuse strategy requires im:// workspace (got '' @ ws @ '')''))
        else Inr ReuseSession
      else if raw = Some ''pin'' then
        if isImWorkspace ws then Inl (InvalidSessionStrategy ''pin strategy is only available for non-channel workspaces'')
        else Inr PinSession
      else Inr PinSession)"

text \<open>The callback of the daemon writes the pin to the job's file. The store throws when the
  identifier is not safe or the file holds another one; and the write itself fails when the disk
  does not take it (\<open>de_disk\<close>). The fire then ends with that error, after the prompt.\<close>

definition pin_write :: "string \<Rightarrow> string \<Rightarrow> job_files \<Rightarrow> job option job_result \<times> job_files" where
  "pin_write jobId sid files =
     store_mutate jobId (\<lambda>j. Inr (case j of None \<Rightarrow> Removed
       | Some x \<Rightarrow> Replaced (x\<lparr>jb_pinnedSessionId := Some sid\<rparr>))) files"

definition store_message :: "job_error \<Rightarrow> string" where
  "store_message e =
     (case e of
        IdChanged fid other \<Rightarrow> ''job mutation cannot change id '' @ fid @ '' -> '' @ other
      | InvalidJobId fid \<Rightarrow> ''invalid job id '' @ json_string fid @
          (if fid = [] then '' (must be a non-empty string)'' else '' (job id must match [A-Za-z0-9][A-Za-z0-9_-]{0,63})'')
      | _ \<Rightarrow> [])"

definition pinSession :: "'s dispatch_env \<Rightarrow> string \<Rightarrow> string \<Rightarrow> ('s, unit) act" where
  "pinSession D jobId sid w =
     (case pin_write jobId sid (wo_files w) of
        (Inl e, _) \<Rightarrow> (Inl (StoreError (store_message e)), w)
      | (Inr stored, files) \<Rightarrow>
          (case de_disk D (wo_server w) of
             Some msg \<Rightarrow> if stored = None then (Inr (), w) else (Inl (StoreError msg), w)
           | None \<Rightarrow> (Inr (), w\<lparr>wo_files := files\<rparr>)))"

fun try_pins :: "'s dispatch_env \<Rightarrow> job \<Rightarrow> string \<Rightarrow> string \<Rightarrow> string list \<Rightarrow> ('s, bool) act" where
  "try_pins D j ws prompt [] w = (Inr False, w)"
| "try_pins D j ws prompt (candidate # cs) w =
     (case sessionExists D ws candidate w of
        (False, w1) \<Rightarrow> try_pins D j ws prompt cs w1
      | (True, w1) \<Rightarrow>
          act_bind (attachAndPrompt D ws candidate prompt) (\<lambda>_.
            if Some candidate = jb_pinnedSessionId j then act_return True
            else act_bind (pinSession D (jb_id j) candidate) (\<lambda>_. act_return True)) w1)"

definition pin_id :: "job \<Rightarrow> string" where
  "pin_id j = ''sched-pin-'' @ jb_id j"

definition pin_candidates :: "job \<Rightarrow> string list" where
  "pin_candidates j =
     (case jb_pinnedSessionId j of
        None \<Rightarrow> [pin_id j]
      | Some p \<Rightarrow> if p = [] then [pin_id j] else if p = pin_id j then [p] else [p, pin_id j])"

definition promptOf :: "job \<Rightarrow> string" where
  "promptOf j = (case jm_get (jb_args j) ''prompt'' of None \<Rightarrow> [] | Some JNull \<Rightarrow> [] | Some v \<Rightarrow> js_text v)"

definition invokeAgent :: "'s dispatch_env \<Rightarrow> string \<Rightarrow> job \<Rightarrow> string \<Rightarrow> ('s, unit) act" where
  "invokeAgent D uid j ws w =
     (let prompt = promptOf j in
      if prompt = [] then (Inl PromptMissing, w)
      else
        case resolveStrategy (jb_sessionStrategy j) ws of
          Inl e \<Rightarrow> (Inl e, w)
        | Inr NewSession \<Rightarrow>
            act_bind (send D (SessionCreate ws (''sched-'' @ uid) prompt)) (\<lambda>_. act_return ()) w
        | Inr ReuseSession \<Rightarrow>
            (case de_route D (wo_server w) ws of
               None \<Rightarrow> (Inl (InvalidSessionStrategy (''reuse strategy: no session bound to '' @ ws)), w)
             | Some sid \<Rightarrow>
                 if sid = [] then (Inl (InvalidSessionStrategy (''reuse strategy: no session bound to '' @ ws)), w)
                 else attachAndPrompt D ws sid prompt w)
        | Inr PinSession \<Rightarrow>
            act_bind (try_pins D j ws prompt (pin_candidates j)) (\<lambda>found.
              if found then act_return ()
              else act_bind (send D (SessionCreate ws (pin_id j) prompt)) (\<lambda>_. pinSession D (jb_id j) (pin_id j))) w)"

text \<open>The workspace of a job that has none is a star.\<close>

definition fire_workspace :: "job \<Rightarrow> string" where
  "fire_workspace j = (case jm_get (jb_args j) ''workspace'' of Some (JStr w) \<Rightarrow> w | _ \<Rightarrow> ''*'')"

definition dispatch_job :: "'s dispatch_env \<Rightarrow> string \<Rightarrow> job \<Rightarrow> ('s, string option) act" where
  "dispatch_job D uid j w =
     (if isBuiltinJob j then
        (case de_builtin D (jb_command j) of
           None \<Rightarrow> (Inl (UnsupportedScheduledCommand (jb_command j)), w)
         | Some h \<Rightarrow>
             (case h j (wo_server w) of
                (Inl e, s) \<Rightarrow> (Inl (OtherError e), w\<lparr>wo_server := s\<rparr>)
              | (Inr summary, s) \<Rightarrow> (Inr summary, w\<lparr>wo_server := s\<rparr>)))
      else if jb_command j = ''agent.invoke''
      then act_bind (invokeAgent D uid j (fire_workspace j)) (\<lambda>_. act_return None) w
      else (Inl (UnsupportedScheduledCommand (jb_command j)), w))"

text \<open>The message of an error, which is what the history keeps, and the outcome of the fire.\<close>

definition dispatch_message :: "dispatch_error \<Rightarrow> string" where
  "dispatch_message e =
     (case e of
        UnsupportedScheduledCommand c \<Rightarrow> ''unsupported scheduled command: '' @ c
      | PromptMissing \<Rightarrow> ''agent.invoke requires args.prompt''
      | InvalidSessionStrategy m \<Rightarrow> m
      | ScheduledCommandFailed code m \<Rightarrow> m
      | StoreError m \<Rightarrow> m
      | OtherError m \<Rightarrow> m)"

definition fire_outcome :: "dispatch_error + string option \<Rightarrow> fire_result" where
  "fire_outcome r = (case r of Inl e \<Rightarrow> Failed (dispatch_message e) | Inr summary \<Rightarrow> Finished summary)"

section \<open>One delivery\<close>

text \<open>The requests that hand the prompt to a session; a follow-up that finds the session idle is not
  queued.\<close>

definition delivers :: "session_request \<times> session_response \<Rightarrow> bool" where
  "delivers e =
     (case e of
        (SessionCreate _ _ _, res) \<Rightarrow> answer_ok res
      | (SessionPrompt _ _ _, res) \<Rightarrow> answer_ok res
      | (SessionFollowUp _ _ _, res) \<Rightarrow> answer_ok res \<and> res \<noteq> Accepted (Some ''idle'')
      | _ \<Rightarrow> False)"

text \<open>The requests after which a session may have the prompt: also a creation or a prompt that was
  refused or threw, since the turn can fail after its message was written. Only the answers
  \<open>session_busy\<close> and \<open>idle\<close> say that it does not have it.\<close>

definition may_deliver :: "session_request \<times> session_response \<Rightarrow> bool" where
  "may_deliver e =
     (case e of
        (SessionCreate _ _ _, res) \<Rightarrow> True
      | (SessionPrompt _ _ _, res) \<Rightarrow> \<not> is_busy res
      | (SessionFollowUp _ _ _, res) \<Rightarrow> res \<noteq> Accepted (Some ''idle'')
      | _ \<Rightarrow> False)"

definition deliveries :: "(session_request \<times> session_response) list \<Rightarrow> nat" where
  "deliveries es = length (filter delivers es)"

definition attempts :: "(session_request \<times> session_response) list \<Rightarrow> nat" where
  "attempts es = length (filter may_deliver es)"

text \<open>A fire that succeeded has delivered, and so has one that failed to store its pin.\<close>

definition after_delivery :: "dispatch_error \<Rightarrow> bool" where
  "after_delivery e = (case e of StoreError _ \<Rightarrow> True | _ \<Rightarrow> False)"

definition delivered :: "dispatch_error + 'a \<Rightarrow> bool" where
  "delivered r = (case r of Inr _ \<Rightarrow> True | Inl e \<Rightarrow> after_delivery e)"

fun req_workspace :: "session_request \<Rightarrow> string" where
  "req_workspace (SessionCreate ws sid p) = ws"
| "req_workspace (SessionHistory ws sid) = ws"
| "req_workspace (SessionAttach ws sid) = ws"
| "req_workspace (SessionPrompt ws sid p) = ws"
| "req_workspace (SessionFollowUp ws sid p) = ws"

fun req_session :: "session_request \<Rightarrow> string" where
  "req_session (SessionCreate ws sid p) = sid"
| "req_session (SessionHistory ws sid) = sid"
| "req_session (SessionAttach ws sid) = sid"
| "req_session (SessionPrompt ws sid p) = sid"
| "req_session (SessionFollowUp ws sid p) = sid"

text \<open>A small logic of what an action sends.\<close>

definition sends :: "('s, 'a) act \<Rightarrow> (dispatch_error + 'a \<Rightarrow> (session_request \<times> session_response) list \<Rightarrow> bool) \<Rightarrow> bool" where
  "sends m Q \<longleftrightarrow> (\<forall>w. \<exists>new. wo_sent (snd (m w)) = wo_sent w @ new \<and> Q (fst (m w)) new)"

lemma sendsD: "sends m Q \<Longrightarrow> m w = (r, w1) \<Longrightarrow> \<exists>new. wo_sent w1 = wo_sent w @ new \<and> Q r new"
  unfolding sends_def by (metis fst_conv snd_conv)

lemma sendsI: "(\<And>w r w1. m w = (r, w1) \<Longrightarrow> \<exists>new. wo_sent w1 = wo_sent w @ new \<and> Q r new) \<Longrightarrow> sends m Q"
  unfolding sends_def by (metis prod.collapse)

lemma sends_weaken: "sends m Q \<Longrightarrow> (\<And>r new. Q r new \<Longrightarrow> P r new) \<Longrightarrow> sends m P"
  unfolding sends_def by blast

lemma sends_return: "Q (Inr x) [] \<Longrightarrow> sends (act_return x) Q"
  by (simp add: sends_def act_return_def)

lemma sends_fail: "Q (Inl e) [] \<Longrightarrow> sends (act_fail e) Q"
  by (simp add: sends_def act_fail_def)

lemma fail_bind [simp]: "act_bind (act_fail e) k = act_fail e"
  by (rule ext) (simp add: act_bind_def act_fail_def)

lemma sends_bind:
  assumes "sends m P" "\<And>e new. P (Inl e) new \<Longrightarrow> Q (Inl e) new"
    and "\<And>x new. P (Inr x) new \<Longrightarrow> sends (k x) (\<lambda>r more. Q r (new @ more))"
  shows "sends (act_bind m k) Q"
proof (rule sendsI)
  fix w r w2 assume b: "act_bind m k w = (r, w2)"
  obtain r1 w1 where m: "m w = (r1, w1)" by fastforce
  obtain new where new: "wo_sent w1 = wo_sent w @ new" "P r1 new" using sendsD[OF assms(1) m] by blast
  show "\<exists>new. wo_sent w2 = wo_sent w @ new \<and> Q r new"
  proof (cases r1)
    case (Inl e)
    then show ?thesis using b m new assms(2) by (auto simp: act_bind_def)
  next
    case (Inr x)
    then have k: "k x w1 = (r, w2)" using b m by (simp add: act_bind_def)
    obtain more where "wo_sent w2 = wo_sent w1 @ more" "Q r (new @ more)"
      using sendsD[OF assms(3)[of x new] k] new(2) Inr by blast
    then show ?thesis using new(1) by auto
  qed
qed

definition rpc_result :: "session_response \<Rightarrow> dispatch_error + session_response" where
  "rpc_result res = (case res of Thrown e \<Rightarrow> Inl (OtherError e) | _ \<Rightarrow> Inr res)"

lemma rpc_result_Inr: "Inr x = rpc_result res \<longleftrightarrow> res = x \<and> (\<forall>e. x \<noteq> Thrown e)"
  by (cases res) (auto simp: rpc_result_def)

lemma rpc_result_Inl: "Inl e = rpc_result res \<longleftrightarrow> (\<exists>m. res = Thrown m \<and> e = OtherError m)"
  by (cases res) (auto simp: rpc_result_def)

lemma sends_rpc:
  "sends (dispatchRpc D req) (\<lambda>r new. \<exists>res. new = [(req, res)] \<and>
     r = rpc_result res)"
  unfolding sends_def
proof
  fix w :: "'a world"
  obtain res s where "de_rpc D (wo_server w) req = (res, s)" by fastforce
  then show "\<exists>new. wo_sent (snd (dispatchRpc D req w)) = wo_sent w @ new \<and>
      (\<exists>res. new = [(req, res)] \<and> fst (dispatchRpc D req w) = rpc_result res)"
    by (cases res) (simp_all add: dispatchRpc_def rpc_result_def)
qed

lemma delivered_simps [simp]:
  "delivered (Inr x)" "delivered (Inl e) = after_delivery e" "after_delivery (StoreError m)"
  "\<not> after_delivery (OtherError m)" "\<not> after_delivery PromptMissing" "\<not> after_delivery (InvalidSessionStrategy m)"
  "\<not> after_delivery (ScheduledCommandFailed c m)" "\<not> after_delivery (UnsupportedScheduledCommand c)"
  by (simp_all add: delivered_def after_delivery_def)

lemma sends_send:
  "sends (send D req) (\<lambda>r new. \<exists>res. new = [(req, res)] \<and>
     (case r of Inr mode \<Rightarrow> res = Accepted mode | Inl e \<Rightarrow> \<not> answer_ok res \<and> \<not> delivered r))"
  unfolding send_def
proof (rule sends_bind[OF sends_rpc])
  fix x new
  assume "\<exists>res. new = [(req, res)] \<and> Inr x = rpc_result res"
  then have "new = [(req, x)]" by (auto simp: rpc_result_Inr)
  then show "sends (must x) (\<lambda>r more. \<exists>res. new @ more = [(req, res)] \<and>
      (case r of Inr mode \<Rightarrow> res = Accepted mode | Inl e \<Rightarrow> \<not> answer_ok res \<and> \<not> delivered r))"
    by (cases x) (simp_all add: must_def sends_return sends_fail answer_ok_def)
qed (auto simp: answer_ok_def rpc_result_def split: session_response.splits)

text \<open>What a whole delivery has to send: requests of one workspace, to sessions of a set, one of which
  delivers when the action succeeds.\<close>

definition in_scope :: "string \<Rightarrow> string set \<Rightarrow> (session_request \<times> session_response) list \<Rightarrow> bool" where
  "in_scope ws sids es \<longleftrightarrow> (\<forall>e \<in> set es. req_workspace (fst e) = ws \<and> req_session (fst e) \<in> sids)"

definition one_delivery ::
  "string \<Rightarrow> string set \<Rightarrow> dispatch_error + 'a \<Rightarrow> (session_request \<times> session_response) list \<Rightarrow> bool" where
  "one_delivery ws sids r es \<longleftrightarrow>
     in_scope ws sids es \<and> deliveries es = (if delivered r then 1 else 0) \<and> attempts es \<le> 1"

definition quiet :: "string \<Rightarrow> string set \<Rightarrow> (session_request \<times> session_response) list \<Rightarrow> bool" where
  "quiet ws sids es \<longleftrightarrow> in_scope ws sids es \<and> deliveries es = 0 \<and> attempts es = 0"

lemma scope_simps [simp]:
  "in_scope ws sids []" "in_scope ws sids (e # es) \<longleftrightarrow> req_workspace (fst e) = ws \<and> req_session (fst e) \<in> sids \<and> in_scope ws sids es"
  "in_scope ws sids (es @ fs) \<longleftrightarrow> in_scope ws sids es \<and> in_scope ws sids fs"
  "deliveries [] = 0" "deliveries (e # es) = (if delivers e then 1 else 0) + deliveries es"
  "deliveries (es @ fs) = deliveries es + deliveries fs"
  "attempts [] = 0" "attempts (e # es) = (if may_deliver e then 1 else 0) + attempts es"
  "attempts (es @ fs) = attempts es + attempts fs"
  by (auto simp: in_scope_def deliveries_def attempts_def)

lemma one_after_quiet: "quiet ws sids old \<Longrightarrow> one_delivery ws sids r (old @ es) = one_delivery ws sids r es"
  by (auto simp: quiet_def one_delivery_def)

lemma sends_then_unit:
  assumes "sends m (\<lambda>r new. case r of Inl e \<Rightarrow> Q (Inl e) new | Inr x \<Rightarrow> Q (Inr ()) new)"
  shows "sends (act_bind m (\<lambda>_. act_return ())) Q"
  by (rule sends_bind[OF assms]) (simp_all add: sends_return)

lemma sends_direct:
  assumes "req = SessionCreate ws sid p \<or> req = SessionPrompt ws sid p" "sid \<in> sids"
  shows "sends (send D req) (one_delivery ws sids)"
proof -
  have req: "delivers (req, res) = answer_ok res" "req_workspace req = ws" "req_session req \<in> sids" for res
    using assms by (auto simp: delivers_def)
  show ?thesis
  proof (rule sends_weaken[OF sends_send])
    fix r :: "dispatch_error + string option" and new
    assume "\<exists>res. new = [(req, res)] \<and> (case r of Inr mode \<Rightarrow> res = Accepted mode | Inl e \<Rightarrow> \<not> answer_ok res \<and> \<not> delivered r)"
    then obtain res where "new = [(req, res)]" "answer_ok res \<longleftrightarrow> delivered r"
      by (cases r) (auto simp: answer_ok_def)
    then show "one_delivery ws sids r new"
      using req by (simp add: one_delivery_def)
  qed
qed

lemma sends_direct_unit:
  assumes "req = SessionCreate ws sid p \<or> req = SessionPrompt ws sid p" "sid \<in> sids"
  shows "sends (act_bind (send D req) (\<lambda>_. act_return ())) (one_delivery ws sids)"
  by (rule sends_then_unit, rule sends_weaken[OF sends_direct[OF assms]]) (simp add: one_delivery_def delivered_def split: sum.splits)

lemma sends_prompt:
  fixes D :: "'s dispatch_env"
  assumes "sid \<in> sids"
  shows "sends (promptWithBusyFallback D ws sid prompt) (one_delivery ws sids)"
  unfolding promptWithBusyFallback_def
proof (rule sends_bind[OF sends_rpc])
  fix res new
  assume "\<exists>x. new = [(SessionPrompt ws sid prompt, x)] \<and> Inr res = rpc_result x"
  then have new: "new = [(SessionPrompt ws sid prompt, res)]" by (auto simp: rpc_result_Inr)
  let ?rest = "act_bind (send D (SessionFollowUp ws sid prompt)) (\<lambda>mode.
         if mode \<noteq> Some ''idle'' then act_return ()
         else act_bind (send D (SessionPrompt ws sid prompt)) (\<lambda>_. act_return ()))"
  have rest: "sends ?rest (one_delivery ws sids)"
  proof (rule sends_bind[OF sends_send])
    fix mode more
    assume "\<exists>r. more = [(SessionFollowUp ws sid prompt, r)] \<and>
      (case Inr mode of Inr m \<Rightarrow> r = Accepted m
         | Inl (e :: dispatch_error) \<Rightarrow> \<not> answer_ok r \<and> \<not> delivered (Inr mode :: dispatch_error + string option))"
    then have more: "more = [(SessionFollowUp ws sid prompt, Accepted mode)]" by simp
    show "sends (if mode \<noteq> Some ''idle'' then act_return ()
         else act_bind (send D (SessionPrompt ws sid prompt)) (\<lambda>_. act_return ()))
         (\<lambda>r es. one_delivery ws sids r (more @ es))"
    proof (cases "mode = Some ''idle''")
      case True
      then have "quiet ws sids more" using assms by (simp add: more quiet_def delivers_def may_deliver_def)
      then show ?thesis using sends_direct_unit[of _ ws sid prompt sids D] assms True by (simp add: one_after_quiet)
    next
      case False
      then show ?thesis using assms by (simp add: more sends_return one_delivery_def delivers_def may_deliver_def answer_ok_def)
    qed
  qed (use assms in \<open>auto simp: one_delivery_def delivers_def may_deliver_def\<close>)
  show "sends (if answer_ok res then act_return ()
       else if \<not> is_busy res then act_bind (must res) (\<lambda>_. act_return ()) else ?rest)
       (\<lambda>r es. one_delivery ws sids r (new @ es))"
  proof (cases "answer_ok res")
    case True
    then show ?thesis using assms by (simp add: new sends_return one_delivery_def delivers_def may_deliver_def)
  next
    case refused: False
    show ?thesis
    proof (cases "is_busy res")
      case True
      then have "quiet ws sids new" using assms refused by (simp add: new quiet_def delivers_def may_deliver_def)
      then have "sends m (\<lambda>r es. one_delivery ws sids r (new @ es)) = sends m (one_delivery ws sids)" for m :: "('s, unit) act"
        by (simp add: one_after_quiet)
      then show ?thesis using rest refused True by simp
    next
      case False
      then show ?thesis
        using refused assms
        by (cases res) (simp_all add: new must_def answer_ok_def sends_fail one_delivery_def delivers_def may_deliver_def)
    qed
  qed
qed (use assms in \<open>auto simp: one_delivery_def delivers_def may_deliver_def answer_ok_def rpc_result_Inl\<close>)

lemma sends_attach:
  assumes "sid \<in> sids"
  shows "sends (attachAndPrompt D ws sid prompt) (one_delivery ws sids)"
  unfolding attachAndPrompt_def
proof (rule sends_bind[OF sends_send])
  fix x new
  assume "\<exists>r. new = [(SessionAttach ws sid, r)] \<and>
      (case Inr x of Inr m \<Rightarrow> r = Accepted m
         | Inl (e :: dispatch_error) \<Rightarrow> \<not> answer_ok r \<and> \<not> delivered (Inr x :: dispatch_error + string option))"
  then have "quiet ws sids new" using assms by (auto simp: quiet_def delivers_def may_deliver_def)
  then show "sends (promptWithBusyFallback D ws sid prompt) (\<lambda>r es. one_delivery ws sids r (new @ es))"
    using sends_prompt[OF assms] by (simp add: one_after_quiet)
qed (use assms in \<open>auto simp: one_delivery_def delivers_def may_deliver_def\<close>)

lemma sends_pin: "sends (pinSession D k sid) (\<lambda>r new. new = [] \<and> delivered r)"
  by (simp add: sends_def pinSession_def split: sum.splits option.splits prod.splits)

lemma sends_pinned: "sends (act_bind (pinSession D k sid) (\<lambda>_. act_return True)) (\<lambda>r new. new = [] \<and> delivered r \<and> r \<noteq> Inr False)"
  by (rule sends_bind[OF sends_pin]) (auto simp: sends_return delivered_def)

lemma exists_sends:
  "sessionExists D ws sid w = (b, w1) \<Longrightarrow> sid \<in> sids \<Longrightarrow> \<exists>new. wo_sent w1 = wo_sent w @ new \<and> quiet ws sids new"
proof -
  assume e: "sessionExists D ws sid w = (b, w1)" and sid: "sid \<in> sids"
  obtain r w2 where d: "dispatchRpc D (SessionHistory ws sid) w = (r, w2)" by fastforce
  have "w2 = w1" using e d by (auto simp: sessionExists_def split: sum.splits)
  moreover obtain res where "wo_sent w2 = wo_sent w @ [(SessionHistory ws sid, res)]"
    using sendsD[OF sends_rpc d] by auto
  moreover have "quiet ws sids [(SessionHistory ws sid, res)]" using sid by (simp add: quiet_def delivers_def may_deliver_def)
  ultimately show ?thesis by blast
qed

lemma sends_try_pins:
  assumes "set cs \<subseteq> sids"
  shows "sends (try_pins D j ws prompt cs)
     (\<lambda>r new. if r = Inr False then quiet ws sids new else one_delivery ws sids r new)"
  using assms
proof (induction cs)
  case Nil
  then show ?case by (simp add: sends_def quiet_def)
next
  case (Cons c cs)
  show ?case
  proof (rule sendsI)
    fix w r w2 assume t: "try_pins D j ws prompt (c # cs) w = (r, w2)"
    obtain b w1 where e: "sessionExists D ws c w = (b, w1)" by fastforce
    obtain new where new: "wo_sent w1 = wo_sent w @ new" "quiet ws sids new"
      using exists_sends[OF e] Cons.prems by auto
    have rest: "\<exists>more. wo_sent w2 = wo_sent w1 @ more \<and> (if r = Inr False then quiet ws sids more else one_delivery ws sids r more)"
    proof (cases b)
      case False
      then have "try_pins D j ws prompt cs w1 = (r, w2)" using t e by simp
      then show ?thesis using sendsD[OF Cons.IH] Cons.prems by simp
    next
      case True
      let ?k = "if Some c = jb_pinnedSessionId j then act_return True
            else act_bind (pinSession D (jb_id j) c) (\<lambda>_. act_return True)"
      have k: "sends ?k (\<lambda>r new. new = [] \<and> delivered r \<and> r \<noteq> Inr False)"
        by (simp add: sends_return sends_pinned)
      have "sends (act_bind (attachAndPrompt D ws c prompt) (\<lambda>_. ?k)) (\<lambda>r new. r \<noteq> Inr False \<and> one_delivery ws sids r new)"
      proof (rule sends_bind[OF sends_attach[of c sids]])
        show "c \<in> sids" using Cons.prems by simp
        fix x new assume "one_delivery ws sids (Inr x :: dispatch_error + unit) new"
        then show "sends ?k (\<lambda>r es. r \<noteq> Inr False \<and> one_delivery ws sids r (new @ es))"
          by (intro sends_weaken[OF k]) (simp add: one_delivery_def)
      qed (simp add: one_delivery_def)
      moreover have "act_bind (attachAndPrompt D ws c prompt) (\<lambda>_. ?k) w1 = (r, w2)" using t e True by simp
      ultimately show ?thesis using sendsD by fastforce
    qed
    then show "\<exists>new. wo_sent w2 = wo_sent w @ new \<and> (if r = Inr False then quiet ws sids new else one_delivery ws sids r new)"
      using new one_after_quiet[OF new(2)] by (auto simp: quiet_def split: if_splits)
  qed
qed

lemma sends_create_pin:
  assumes "pin_id j \<in> sids"
  shows "sends (act_bind (send D (SessionCreate ws (pin_id j) prompt)) (\<lambda>_. pinSession D (jb_id j) (pin_id j)))
     (one_delivery ws sids)"
proof (rule sends_bind[OF sends_direct[of _ ws "pin_id j" prompt sids]])
  fix x new assume "one_delivery ws sids (Inr x :: dispatch_error + string option) new"
  then show "sends (pinSession D (jb_id j) (pin_id j)) (\<lambda>r es. one_delivery ws sids r (new @ es))"
    by (intro sends_weaken[OF sends_pin]) (simp add: one_delivery_def)
qed (use assms in \<open>simp_all add: one_delivery_def delivered_def\<close>)

text \<open>The sessions a fire may talk to.\<close>

definition fire_sessions :: "'s dispatch_env \<Rightarrow> string \<Rightarrow> job \<Rightarrow> 's world \<Rightarrow> string set" where
  "fire_sessions D uid j w =
     (case resolveStrategy (jb_sessionStrategy j) (fire_workspace j) of
        Inl _ \<Rightarrow> {}
      | Inr NewSession \<Rightarrow> {''sched-'' @ uid}
      | Inr ReuseSession \<Rightarrow> set_option (de_route D (wo_server w) (fire_workspace j))
      | Inr PinSession \<Rightarrow> set (pin_candidates j))"

lemma pin_id_candidate: "pin_id j \<in> set (pin_candidates j)"
  by (simp add: pin_candidates_def split: option.splits)

lemma one_delivery_nothing: "\<not> after_delivery e \<Longrightarrow> one_delivery ws sids (Inl e) []"
  by (simp add: one_delivery_def)

lemma strategy_errors: "resolveStrategy raw ws = Inl e \<Longrightarrow> \<exists>m. e = InvalidSessionStrategy m"
  by (auto simp: resolveStrategy_def split: if_splits)

lemma invoke_once:
  assumes "ws = fire_workspace j" "invokeAgent D uid j ws w = (r, w1)"
  shows "\<exists>new. wo_sent w1 = wo_sent w @ new \<and> one_delivery ws (fire_sessions D uid j w) r new"
proof (cases "promptOf j = [] \<or> (\<exists>e. resolveStrategy (jb_sessionStrategy j) ws = Inl e)")
  case True
  then obtain e where "r = Inl e" "w1 = w" "\<not> after_delivery e"
    using assms(2) strategy_errors[of "jb_sessionStrategy j" ws] by (fastforce simp: invokeAgent_def Let_def split: if_splits)
  then show ?thesis by (simp add: one_delivery_nothing)
next
  case False
  then obtain st where st: "resolveStrategy (jb_sessionStrategy j) ws = Inr st" "promptOf j \<noteq> []"
    by (cases "resolveStrategy (jb_sessionStrategy j) ws") auto
  show ?thesis
  proof (cases st)
    case NewSession
    have "act_bind (send D (SessionCreate ws (''sched-'' @ uid) (promptOf j))) (\<lambda>_. act_return ()) w = (r, w1)"
      using assms(2) st NewSession by (simp add: invokeAgent_def Let_def)
    then show ?thesis
      using sendsD[OF sends_direct_unit[OF disjI1[OF refl] singletonI]] assms(1) st(1) NewSession
      unfolding fire_sessions_def by (simp del: append.simps)
  next
    case ReuseSession
    show ?thesis
    proof (cases "\<exists>sid. de_route D (wo_server w) ws = Some sid \<and> sid \<noteq> []")
      case False
      then show ?thesis
        using assms(2) st ReuseSession
        by (auto simp: invokeAgent_def Let_def one_delivery_nothing split: option.splits if_splits)
    next
      case True
      then obtain sid where sid: "de_route D (wo_server w) ws = Some sid" "sid \<noteq> []" by blast
      then have "attachAndPrompt D ws sid (promptOf j) w = (r, w1)"
        using assms(2) st ReuseSession by (simp add: invokeAgent_def Let_def)
      then show ?thesis
        using sendsD[OF sends_attach[of sid "{sid}"]] assms(1) st(1) ReuseSession sid(1) by (simp add: fire_sessions_def)
    qed
  next
    case PinSession
    let ?sids = "set (pin_candidates j)"
    let ?m = "act_bind (try_pins D j ws (promptOf j) (pin_candidates j)) (\<lambda>found.
        if found then act_return ()
        else act_bind (send D (SessionCreate ws (pin_id j) (promptOf j))) (\<lambda>_. pinSession D (jb_id j) (pin_id j)))"
    have m: "?m w = (r, w1)" using assms(2) st PinSession by (simp add: invokeAgent_def Let_def)
    have "sends ?m (one_delivery ws ?sids)"
    proof (rule sends_bind[OF sends_try_pins[OF order_refl]])
      fix found new
      assume f: "if (Inr found :: dispatch_error + bool) = Inr False then quiet ws ?sids new
        else one_delivery ws ?sids (Inr found :: dispatch_error + bool) new"
      show "sends (if found then act_return ()
        else act_bind (send D (SessionCreate ws (pin_id j) (promptOf j))) (\<lambda>_. pinSession D (jb_id j) (pin_id j)))
        (\<lambda>r es. one_delivery ws ?sids r (new @ es))"
      proof (cases found)
        case True
        then show ?thesis using f by (simp add: sends_return one_delivery_def)
      next
        case False
        then have "quiet ws ?sids new" using f by simp
        then show ?thesis
          using False by (simp add: one_after_quiet sends_create_pin[OF pin_id_candidate])
      qed
    qed (auto simp: one_delivery_def delivered_def)
    from sendsD[OF this m] show ?thesis using assms(1) st(1) PinSession by (simp add: fire_sessions_def)
  qed
qed

section \<open>Pinned sessions\<close>

text \<open>A server that keeps its promises, and a disk that takes the pin: \<open>S s\<close> are the sessions it has. A history is there exactly when
  its session is; a session that is there can be attached, one that is not can be created; a prompt
  is taken or refused because the session is busy, then a follow-up is taken, and when that finds
  the session idle the next prompt is taken.\<close>

definition honest_server :: "'s dispatch_env \<Rightarrow> ('s \<Rightarrow> (string \<times> string) set) \<Rightarrow> bool" where
  "honest_server D S \<longleftrightarrow>
     (\<forall>s. de_disk D s = None) \<and>
     (\<forall>s ws sid. S (snd (de_rpc D s (SessionHistory ws sid))) = S s \<and>
        answer_ok (fst (de_rpc D s (SessionHistory ws sid))) = ((ws, sid) \<in> S s)) \<and>
     (\<forall>s ws sid. (ws, sid) \<in> S s \<longrightarrow> S (snd (de_rpc D s (SessionAttach ws sid))) = S s \<and>
        answer_ok (fst (de_rpc D s (SessionAttach ws sid)))) \<and>
     (\<forall>s ws sid p. (ws, sid) \<notin> S s \<longrightarrow> S (snd (de_rpc D s (SessionCreate ws sid p))) = insert (ws, sid) (S s) \<and>
        answer_ok (fst (de_rpc D s (SessionCreate ws sid p)))) \<and>
     (\<forall>s ws sid p. (ws, sid) \<in> S s \<longrightarrow> S (snd (de_rpc D s (SessionPrompt ws sid p))) = S s \<and>
        (answer_ok (fst (de_rpc D s (SessionPrompt ws sid p))) \<or>
         (is_busy (fst (de_rpc D s (SessionPrompt ws sid p))) \<and>
          (let (res, s2) = de_rpc D (snd (de_rpc D s (SessionPrompt ws sid p))) (SessionFollowUp ws sid p)
           in S s2 = S s \<and> answer_ok res \<and>
              (res = Accepted (Some ''idle'') \<longrightarrow> answer_ok (fst (de_rpc D s2 (SessionPrompt ws sid p))))))))"

text \<open>An action that succeeds, with the sessions and the files it leaves.\<close>

definition goes ::
  "('s, 'a) act \<Rightarrow> ('s \<Rightarrow> (string \<times> string) set) \<Rightarrow> 's world \<Rightarrow> 'a \<Rightarrow> (string \<times> string) set \<Rightarrow> job_files \<Rightarrow> bool" where
  "goes m S w x sessions files \<longleftrightarrow>
     fst (m w) = Inr x \<and> S (wo_server (snd (m w))) = sessions \<and> wo_files (snd (m w)) = files"

lemma goes_bind:
  assumes "goes m S w x ss fs"
    and "\<And>w1. S (wo_server w1) = ss \<Longrightarrow> wo_files w1 = fs \<Longrightarrow> goes (k x) S w1 y ss2 fs2"
  shows "goes (act_bind m k) S w y ss2 fs2"
proof -
  obtain r1 w1 where m: "m w = (r1, w1)" by fastforce
  then have "r1 = Inr x" "S (wo_server w1) = ss" "wo_files w1 = fs" using assms(1) by (simp_all add: goes_def)
  then show ?thesis using assms(2)[of w1] m by (simp add: goes_def act_bind_def)
qed

lemma goes_cong: "goes m S w x ss fs \<Longrightarrow> ss = ss' \<Longrightarrow> fs = fs' \<Longrightarrow> goes m S w x ss' fs'"
  by simp

lemma goes_return: "goes (act_return x) S w x (S (wo_server w)) (wo_files w)"
  by (simp add: goes_def act_return_def)

lemma honest_exists:
  assumes "honest_server D S"
  shows "\<exists>w1. sessionExists D ws sid w = ((ws, sid) \<in> S (wo_server w), w1) \<and> S (wo_server w1) = S (wo_server w) \<and>
    wo_files w1 = wo_files w"
proof -
  obtain res s where r: "de_rpc D (wo_server w) (SessionHistory ws sid) = (res, s)" by fastforce
  have "S s = S (wo_server w)" "answer_ok res = ((ws, sid) \<in> S (wo_server w))"
    using assms r unfolding honest_server_def by (metis fst_conv snd_conv)+
  then show ?thesis
    using r by (cases res) (auto simp: sessionExists_def dispatchRpc_def answer_ok_def)
qed

lemma send_goes:
  assumes "de_rpc D (wo_server w) req = (Accepted mode, s)"
  shows "goes (send D req) S w mode (S s) (wo_files w)"
  using assms by (simp add: goes_def send_def act_bind_def dispatchRpc_def must_def act_return_def)

lemma honest_attach:
  assumes "honest_server D S" "(ws, sid) \<in> S (wo_server w)"
  shows "\<exists>mode. goes (send D (SessionAttach ws sid)) S w mode (S (wo_server w)) (wo_files w)"
proof -
  obtain res s where r: "de_rpc D (wo_server w) (SessionAttach ws sid) = (res, s)" by fastforce
  have "S s = S (wo_server w)" "answer_ok res"
    using assms r unfolding honest_server_def by (metis fst_conv snd_conv)+
  then show ?thesis using send_goes[of D w "SessionAttach ws sid" _ s S] r by (cases res) (auto simp: answer_ok_def)
qed

lemma honest_create:
  assumes "honest_server D S" "(ws, sid) \<notin> S (wo_server w)"
  shows "\<exists>mode. goes (send D (SessionCreate ws sid p)) S w mode (insert (ws, sid) (S (wo_server w))) (wo_files w)"
proof -
  obtain res s where r: "de_rpc D (wo_server w) (SessionCreate ws sid p) = (res, s)" by fastforce
  have "S s = insert (ws, sid) (S (wo_server w))" "answer_ok res"
    using assms r unfolding honest_server_def by (metis fst_conv snd_conv)+
  then show ?thesis using send_goes[of D w "SessionCreate ws sid p" _ s S] r by (cases res) (auto simp: answer_ok_def)
qed

lemma honest_promptD:
  assumes "honest_server D S" "(ws, sid) \<in> S s"
  shows "answer_ok (fst (de_rpc D s (SessionPrompt ws sid p))) \<or>
     (is_busy (fst (de_rpc D s (SessionPrompt ws sid p))) \<and>
      (let (res, s2) = de_rpc D (snd (de_rpc D s (SessionPrompt ws sid p))) (SessionFollowUp ws sid p)
       in S s2 = S s \<and> answer_ok res \<and>
          (res = Accepted (Some ''idle'') \<longrightarrow> answer_ok (fst (de_rpc D s2 (SessionPrompt ws sid p))))))"
  using assms unfolding honest_server_def by blast

lemma honest_prompt:
  assumes "honest_server D S" "(ws, sid) \<in> S (wo_server w)"
  shows "goes (promptWithBusyFallback D ws sid p) S w () (S (wo_server w)) (wo_files w)"
proof -
  obtain res s where r: "de_rpc D (wo_server w) (SessionPrompt ws sid p) = (res, s)" by fastforce
  have s: "S s = S (wo_server w)" using assms r unfolding honest_server_def by (metis snd_conv)
  show ?thesis
  proof (cases "answer_ok res")
    case True
    then show ?thesis
      using r s by (cases res) (simp_all add: promptWithBusyFallback_def act_bind_def dispatchRpc_def goes_def
          act_return_def answer_ok_def)
  next
    case False
    obtain res2 s2 where r2: "de_rpc D s (SessionFollowUp ws sid p) = (res2, s2)" by fastforce
    have h: "is_busy res" "S s2 = S (wo_server w)" "answer_ok res2"
      "res2 = Accepted (Some ''idle'') \<Longrightarrow> answer_ok (fst (de_rpc D s2 (SessionPrompt ws sid p)))"
      using honest_promptD[OF assms, of p] r r2 False s by auto
    obtain m mode where m: "res = Refused SESSION_BUSY m" "res2 = Accepted mode"
      using h(1,3) by (cases res; cases res2) (auto simp: answer_ok_def is_busy_def)
    obtain res3 s3 where r3: "de_rpc D s2 (SessionPrompt ws sid p) = (res3, s3)" by fastforce
    have "S s3 = S (wo_server w)" using assms(1) h(2) assms(2) r3 unfolding honest_server_def by (metis snd_conv)
    moreover have "mode = Some ''idle'' \<Longrightarrow> \<exists>m3. res3 = Accepted m3"
      using h(4) m(2) r3 by (cases res3) (simp_all add: answer_ok_def)
    ultimately show ?thesis
      using r r2 r3 h(2) m s
      by (auto simp: promptWithBusyFallback_def act_bind_def dispatchRpc_def goes_def act_return_def answer_ok_def
          send_def must_def is_busy_def)
  qed
qed

lemma honest_attach_prompt:
  assumes "honest_server D S" "(ws, sid) \<in> S (wo_server w)"
  shows "goes (attachAndPrompt D ws sid p) S w () (S (wo_server w)) (wo_files w)"
proof -
  obtain mode where a: "goes (send D (SessionAttach ws sid)) S w mode (S (wo_server w)) (wo_files w)"
    using honest_attach[OF assms] by blast
  show ?thesis unfolding attachAndPrompt_def
    by (rule goes_bind[OF a]) (use honest_prompt[OF assms(1)] assms(2) in metis)
qed

definition pinned_files :: "job \<Rightarrow> string \<Rightarrow> job_files \<Rightarrow> job_files" where
  "pinned_files j c files = (if Some c = jb_pinnedSessionId j then files else onPinnedSessionCreated (jb_id j) c files)"

text \<open>A job whose file can take a pin.\<close>

definition pinnable :: "string \<Rightarrow> job_files \<Rightarrow> bool" where
  "pinnable k files \<longleftrightarrow> isSafeJobId k \<and> (\<forall>x. job_at k files = Some x \<longrightarrow> jb_id x = k)"

lemma pin_write_files: "snd (pin_write k c files) = onPinnedSessionCreated k c files"
  by (simp add: pin_write_def onPinnedSessionCreated_def)

lemma pin_write_ok: "pinnable k files \<Longrightarrow> \<exists>stored. pin_write k c files = (Inr stored, onPinnedSessionCreated k c files)"
  by (cases "job_at k files")
    (simp_all add: pinnable_def pin_write_def onPinnedSessionCreated_def store_mutate_def assertSafeJobId_def)

lemma pin_goes:
  assumes "honest_server D S" "pinnable k (wo_files w)"
  shows "goes (pinSession D k c) S w () (S (wo_server w)) (onPinnedSessionCreated k c (wo_files w))"
proof -
  have "de_disk D (wo_server w) = None" using assms(1) by (simp add: honest_server_def)
  then show ?thesis using pin_write_ok[OF assms(2), of c] by (auto simp: goes_def pinSession_def)
qed

lemma try_pins_goes:
  assumes "honest_server D S" "pinnable (jb_id j) (wo_files w)"
  shows "goes (try_pins D j ws p cs) S w (find (\<lambda>c. (ws, c) \<in> S (wo_server w)) cs \<noteq> None) (S (wo_server w))
    (case find (\<lambda>c. (ws, c) \<in> S (wo_server w)) cs of None \<Rightarrow> wo_files w | Some c \<Rightarrow> pinned_files j c (wo_files w))"
  using assms(2)
proof (induction cs arbitrary: w)
  case Nil
  then show ?case by (simp add: goes_def)
next
  case (Cons c cs)
  obtain w1 where w1: "sessionExists D ws c w = ((ws, c) \<in> S (wo_server w), w1)" "S (wo_server w1) = S (wo_server w)"
    "wo_files w1 = wo_files w" using honest_exists[OF assms(1)] by blast
  show ?case
  proof (cases "(ws, c) \<in> S (wo_server w)")
    case False
    then show ?thesis using Cons.IH[of w1] Cons.prems w1(1) unfolding w1(2,3) by (simp add: goes_def)
  next
    case True
    let ?k = "if Some c = jb_pinnedSessionId j then act_return True
      else act_bind (pinSession D (jb_id j) c) (\<lambda>_. act_return True)"
    have k: "goes ?k S w2 True (S (wo_server w2)) (pinned_files j c (wo_files w2))" if "wo_files w2 = wo_files w" for w2
    proof (cases "Some c = jb_pinnedSessionId j")
      case False
      have "goes (act_bind (pinSession D (jb_id j) c) (\<lambda>_. act_return True)) S w2 True (S (wo_server w2))
          (onPinnedSessionCreated (jb_id j) c (wo_files w2))"
        by (rule goes_bind[OF pin_goes[OF assms(1)]]) (use Cons.prems that in \<open>simp_all add: goes_def act_return_def\<close>)
      then show ?thesis using False by (simp add: pinned_files_def)
    qed (simp add: pinned_files_def goes_def act_return_def)
    have "goes (attachAndPrompt D ws c p) S w1 () (S (wo_server w)) (wo_files w)"
      using honest_attach_prompt[OF assms(1), of ws c w1 p] True w1 by simp
    then have "goes (act_bind (attachAndPrompt D ws c p) (\<lambda>_. ?k)) S w1 True (S (wo_server w)) (pinned_files j c (wo_files w))"
      by (rule goes_bind) (use k in metis)
    then show ?thesis using True w1(1) by (simp add: goes_def)
  qed
qed

lemma pin_fire_goes:
  assumes "honest_server D S" "pinnable (jb_id j) (wo_files w)" "\<not> isBuiltinJob j" "jb_command j = ''agent.invoke''" "promptOf j \<noteq> []"
    and "ws = fire_workspace j" "resolveStrategy (jb_sessionStrategy j) ws = Inr PinSession"
  shows "goes (dispatch_job D uid j) S w None
    (case find (\<lambda>c. (ws, c) \<in> S (wo_server w)) (pin_candidates j) of
       None \<Rightarrow> insert (ws, pin_id j) (S (wo_server w)) | Some c \<Rightarrow> S (wo_server w))
    (case find (\<lambda>c. (ws, c) \<in> S (wo_server w)) (pin_candidates j) of
       None \<Rightarrow> onPinnedSessionCreated (jb_id j) (pin_id j) (wo_files w) | Some c \<Rightarrow> pinned_files j c (wo_files w))"
    (is "goes _ S w None ?ss ?fs")
proof -
  let ?find = "find (\<lambda>c. (ws, c) \<in> S (wo_server w)) (pin_candidates j)"
  let ?k = "\<lambda>found. if found then act_return ()
      else act_bind (send D (SessionCreate ws (pin_id j) (promptOf j))) (\<lambda>_. pinSession D (jb_id j) (pin_id j))"
  have inv: "invokeAgent D uid j ws = act_bind (try_pins D j ws (promptOf j) (pin_candidates j)) ?k"
    by (rule ext) (simp add: invokeAgent_def Let_def assms(5,7))
  have "goes (invokeAgent D uid j ws) S w () ?ss ?fs"
    unfolding inv
  proof (rule goes_bind[OF try_pins_goes[OF assms(1,2)]])
    fix w1 :: "'a world"
    assume w1: "S (wo_server w1) = S (wo_server w)"
      "wo_files w1 = (case ?find of None \<Rightarrow> wo_files w | Some c \<Rightarrow> pinned_files j c (wo_files w))"
    show "goes (?k (?find \<noteq> None)) S w1 () ?ss ?fs"
    proof (cases ?find)
      case None
      then have "(ws, pin_id j) \<notin> S (wo_server w1)" using pin_id_candidate[of j] w1(1) by (simp add: find_None_iff)
      then obtain mode where c: "goes (send D (SessionCreate ws (pin_id j) (promptOf j))) S w1 mode
          (insert (ws, pin_id j) (S (wo_server w1))) (wo_files w1)"
        using honest_create[OF assms(1)] by blast
      have "goes (act_bind (send D (SessionCreate ws (pin_id j) (promptOf j))) (\<lambda>_. pinSession D (jb_id j) (pin_id j))) S w1 ()
          (insert (ws, pin_id j) (S (wo_server w1))) (onPinnedSessionCreated (jb_id j) (pin_id j) (wo_files w1))"
        by (rule goes_bind[OF c], rule goes_cong[OF pin_goes[OF assms(1)]]) (use None w1(2) assms(2) in simp_all)
      then show ?thesis using None w1 by simp
    next
      case (Some c)
      then show ?thesis using goes_return[of "()" S w1] w1 by simp
    qed
  qed
  then have "goes (act_bind (invokeAgent D uid j ws) (\<lambda>_. act_return None)) S w None ?ss ?fs"
    by (rule goes_bind) (metis goes_return)
  then show ?thesis using assms(3,4,6) by (simp add: goes_def dispatch_job_def)
qed

lemma counters_pinned: "withCounters (j\<lparr>jb_pinnedSessionId := p\<rparr>) = (withCounters j)\<lparr>jb_pinnedSessionId := p\<rparr>"
  by (simp add: withCounters_def)

lemma strategy_pinned: "withStrategy (j\<lparr>jb_pinnedSessionId := p\<rparr>) = (withStrategy j)\<lparr>jb_pinnedSessionId := p\<rparr>"
  by (simp add: withStrategy_def strategy_migrates_def workspace_of_def)

lemma command_pinned: "withCommand (j\<lparr>jb_pinnedSessionId := p\<rparr>) = (withCommand j)\<lparr>jb_pinnedSessionId := p\<rparr>"
  by (simp add: withCommand_def command_migrates_def isBuiltinJob_def taskText_def)

lemma canonical_pinned: "canonical_job (j\<lparr>jb_pinnedSessionId := p\<rparr>) = (canonical_job j)\<lparr>jb_pinnedSessionId := p\<rparr>"
  by (simp only: canonical_job_def counters_pinned strategy_pinned command_pinned)

lemma job_at_pinned:
  assumes "job_at key files = Some j" "jb_id j = key"
  shows "job_at key (onPinnedSessionCreated key sid files) = Some (j\<lparr>jb_pinnedSessionId := Some sid\<rparr>)"
  using assms job_at_id[OF assms(1)]
  by (simp add: onPinnedSessionCreated_def store_mutate_def assertSafeJobId_def job_at_write canonical_pinned)

section \<open>Properties\<close>

text \<open>C18: One fire hands its prompt over at most once. Whatever the server answers, all requests of a
  fire go to the workspace of the job and to the sessions its strategy names (a fresh one, the one
  the chat is routed to, or the pinned one and the job's own), and at most one of them can have put
  the prompt into a session, counting the creations and prompts that were refused or threw. A fire
  that succeeds had exactly one accepted. A fire that fails had none accepted, with one exception:
  the prompt was accepted and the pin could not be stored in the job's file.\<close>

theorem prompt_delivered_once:
  assumes "\<not> isBuiltinJob j" "dispatch_job D uid j w = (r, w1)"
  shows "\<exists>new. wo_sent w1 = wo_sent w @ new \<and> attempts new \<le> 1 \<and>
    deliveries new = (case r of Inr _ \<Rightarrow> 1 | Inl (StoreError _) \<Rightarrow> 1 | Inl _ \<Rightarrow> 0) \<and>
    (\<forall>e \<in> set new. req_workspace (fst e) = fire_workspace j \<and> req_session (fst e) \<in> fire_sessions D uid j w)"
proof (cases "jb_command j = ''agent.invoke''")
  case False
  then show ?thesis using assms by (auto simp: dispatch_job_def)
next
  case True
  obtain r1 w2 where i: "invokeAgent D uid j (fire_workspace j) w = (r1, w2)" by fastforce
  then have r: "w1 = w2" "delivered r = delivered r1"
    using assms True by (auto simp: dispatch_job_def act_bind_def act_return_def delivered_def split: sum.splits)
  moreover have "(if delivered r then 1 else 0) = ((case r of Inr _ \<Rightarrow> 1 | Inl (StoreError _) \<Rightarrow> 1 | Inl _ \<Rightarrow> 0) :: nat)"
    by (auto simp: after_delivery_def split: sum.splits dispatch_error.splits)
  ultimately show ?thesis
    using invoke_once[OF refl i] by (auto simp: one_delivery_def in_scope_def)
qed

text \<open>C19: A pinned job settles on one session. Against a server that keeps its promises, and a disk that
  takes the writes of the job's file, a fire of a pinned job succeeds whatever became of the session it was pinned to, leaves the job pinned to a
  session the server has, and adds at most that one; every further fire then goes to this session
  and changes neither the sessions nor the job.\<close>

theorem pin_settles:
  assumes "honest_server D S" "job_at (jb_id j) (wo_files w) = Some j" "\<not> isBuiltinJob j"
    and "jb_command j = ''agent.invoke''" "promptOf j \<noteq> []" "ws = fire_workspace j"
    and "resolveStrategy (jb_sessionStrategy j) ws = Inr PinSession" "dispatch_job D uid j w = (r, w1)"
  shows "r = Inr None \<and> (\<exists>sid. (ws, sid) \<in> S (wo_server w1) \<and>
    S (wo_server w1) = insert (ws, sid) (S (wo_server w)) \<and>
    job_at (jb_id j) (wo_files w1) = Some (j\<lparr>jb_pinnedSessionId := Some sid\<rparr>) \<and>
    (\<forall>uid2. let (r2, w2) = dispatch_job D uid2 (j\<lparr>jb_pinnedSessionId := Some sid\<rparr>) w1
       in r2 = Inr None \<and> S (wo_server w2) = S (wo_server w1) \<and> wo_files w2 = wo_files w1))"
proof -
  have safe: "pinnable (jb_id j) (wo_files w)" using job_at_id[OF assms(2)] assms(2) by (simp add: pinnable_def)
  let ?find = "find (\<lambda>c. (ws, c) \<in> S (wo_server w)) (pin_candidates j)"
  define sid where "sid = (case ?find of None \<Rightarrow> pin_id j | Some c \<Rightarrow> c)"
  have g: "goes (dispatch_job D uid j) S w None
    (case ?find of None \<Rightarrow> insert (ws, pin_id j) (S (wo_server w)) | Some c \<Rightarrow> S (wo_server w))
    (case ?find of None \<Rightarrow> onPinnedSessionCreated (jb_id j) (pin_id j) (wo_files w) | Some c \<Rightarrow> pinned_files j c (wo_files w))"
    by (rule pin_fire_goes[OF assms(1) safe assms(3-7)])
  have found: "(ws, c) \<in> S (wo_server w) \<and> c \<in> set (pin_candidates j)" if "?find = Some c" for c
    using that by (auto simp: find_Some_iff in_set_conv_nth)
  have one: "r = Inr None" "S (wo_server w1) = insert (ws, sid) (S (wo_server w))" "sid \<in> set (pin_candidates j)"
    using g assms(8) found pin_id_candidate[of j] by (auto simp: goes_def sid_def insert_absorb split: option.splits)
  have at: "job_at (jb_id j) (wo_files w1) = Some (j\<lparr>jb_pinnedSessionId := Some sid\<rparr>)"
    using g assms(2,8) job_at_pinned[OF assms(2) refl]
    by (auto simp: goes_def sid_def pinned_files_def split: option.splits if_splits)
  let ?j = "j\<lparr>jb_pinnedSessionId := Some sid\<rparr>"
  have "sid \<noteq> []" using one(3) by (auto simp: pin_candidates_def pin_id_def split: option.splits if_splits)
  then have "find (\<lambda>c. (ws, c) \<in> S (wo_server w1)) (pin_candidates ?j) = Some sid"
    using one(2) by (simp add: pin_candidates_def)
  moreover have pin2: "pinnable (jb_id j) (wo_files w1)" using safe at by (simp add: pinnable_def)
  ultimately have two: "goes (dispatch_job D uid2 ?j) S w1 None (S (wo_server w1)) (wo_files w1)" for uid2
    using pin_fire_goes[OF assms(1), of ?j w1 ws uid2] safe assms(3-7)
    by (simp add: pinned_files_def isBuiltinJob_def promptOf_def fire_workspace_def pin2)
  show ?thesis
    using one at two by (auto simp: goes_def case_prod_beta)
qed

text \<open>A server that has sessions and is never busy.\<close>

fun demo_rpc :: "(string \<times> string) list \<Rightarrow> session_request \<Rightarrow> session_response \<times> (string \<times> string) list" where
  "demo_rpc s (SessionCreate ws sid p) =
     (if (ws, sid) \<in> set s then (Refused ''conflict'' [], s) else (Accepted None, (ws, sid) # s))"
| "demo_rpc s req =
     (if (req_workspace req, req_session req) \<in> set s then (Accepted None, s) else (Refused ''not_found'' [], s))"

definition demo_dispatch :: "(string \<times> string) list dispatch_env" where
  "demo_dispatch = \<lparr>de_rpc = demo_rpc, de_route = (\<lambda>_ _. None), de_builtin = (\<lambda>_. None),
     de_disk = (\<lambda>_. None)\<rparr>"

definition demo_world :: "(string \<times> string) list world" where
  "demo_world = \<lparr>wo_server = [], wo_files = [(''j'', Some demo_job)], wo_sent = []\<rparr>"

lemma demo_honest: "honest_server demo_dispatch set"
  by (simp add: honest_server_def demo_dispatch_def answer_ok_def)

theorem prompt_delivered_once_witness:
  "deliveries (wo_sent (snd (dispatch_job demo_dispatch ''u'' demo_job demo_world))) = 1"
proof -
  have h: "\<not> isBuiltinJob demo_job" by code_simp
  have "fst (dispatch_job demo_dispatch ''u'' demo_job demo_world) = Inr None" by code_simp
  then show ?thesis
    using prompt_delivered_once[OF h prod.collapse[symmetric], of demo_dispatch "''u''" demo_world]
    by (auto simp: demo_world_def)
qed

text \<open>The exception: the session of the job's own name was created and has the prompt, and the job's
  file could not be written.\<close>

lemma delivered_and_failed:
  "let (r, w) = dispatch_job (demo_dispatch\<lparr>de_disk := (\<lambda>_. Some ''ENOSPC'')\<rparr>) ''u'' demo_job demo_world
   in r = Inl (StoreError ''ENOSPC'') \<and> deliveries (wo_sent w) = 1"
  by code_simp

theorem pin_settles_witness:
  "\<exists>sid. (''/w'', sid) \<in> set (wo_server (snd (dispatch_job demo_dispatch ''u'' demo_job demo_world))) \<and>
     job_at ''j'' (wo_files (snd (dispatch_job demo_dispatch ''u'' demo_job demo_world))) =
       Some (demo_job\<lparr>jb_pinnedSessionId := Some sid\<rparr>)"
proof -
  have h: "job_at (jb_id demo_job) (wo_files demo_world) = Some demo_job" "\<not> isBuiltinJob demo_job"
    "jb_command demo_job = ''agent.invoke''" "promptOf demo_job \<noteq> []" "''/w'' = fire_workspace demo_job"
    "resolveStrategy (jb_sessionStrategy demo_job) ''/w'' = Inr PinSession" by code_simp+
  have "jb_id demo_job = ''j''" by code_simp
  then show ?thesis using pin_settles[OF demo_honest h prod.collapse[symmetric], of "''u''"] by auto
qed

text \<open>A strategy that is not known is taken for \<open>pin\<close>, and then not even checked against the workspace.\<close>

lemma unknown_strategy_pins: "resolveStrategy (Some ''other'') ''im://c/p/t'' = Inr PinSession"
  by code_simp

end
