(* ===== verification/ConvRouter.thy ===== *)
theory ConvRouter
  imports ImRoute
begin

text \<open>
  Which session a chat talks to: \<open>packages/sidecar/src/channels/conversationRouter.ts\<close>. A call of
  \<open>route\<close> waits for the server and for the disk; between its steps other calls go on, so an
  operation in flight is a record with the phase it waits in. Calls for the same chat share one
  operation. What the server answers, whether a write lands, the time and fresh identifiers
  (\<open>uuidv7\<close>) are arguments of the steps. Writes of \<open>routing.json\<close> run one after the other and each
  writes the routes of the moment it runs.
\<close>

section \<open>Definitions\<close>

record route_entry =
  re_sessionId :: string
  re_lastUsedAt :: int

record conversation =
  cv_channelId :: string
  cv_peerId :: string
  cv_chatId :: string
  cv_sessionId :: string
  cv_lastUsedAt :: int

text \<open>A value of the file: the session when it is a text, and the time.\<close>

type_synonym routing_file = "(string, (string option \<times> int) option) js_map"

datatype route_phase = Probing string | Creating | Saving int

record route_op =
  op_ref :: nat
  op_key :: string
  op_channelId :: string
  op_peerId :: string
  op_chatId :: string
  op_sid :: string
  op_phase :: route_phase

datatype chat_event = Created string | Missing string

record router =
  ro_routes :: "(string, route_entry) js_map"
  ro_inflight :: "(string, nat) js_map"
  ro_ops :: "route_op list"
  ro_timer :: bool
  ro_queue :: nat
  ro_disk :: "routing_file option"
  ro_next :: nat
  ro_results :: "(nat \<times> string option) list"
  ro_emitted :: "conversation list"
  ro_log :: "(string \<times> chat_event) list"
  ro_loaded :: "(string, route_entry) js_map"

definition load_entry ::
  "(string, route_entry) js_map \<Rightarrow> string \<times> (string option \<times> int) option \<Rightarrow> (string, route_entry) js_map" where
  "load_entry routes e =
     (case e of
        (k, Some (Some sid, used)) \<Rightarrow>
          if parseImCwd k = None then routes
          else jm_set routes k \<lparr>re_sessionId = sid, re_lastUsedAt = used\<rparr>
      | _ \<Rightarrow> routes)"

definition load_routes :: "routing_file option \<Rightarrow> (string, route_entry) js_map" where
  "load_routes file = foldl load_entry [] (or_else file [])"

definition router_load :: "routing_file option \<Rightarrow> router" where
  "router_load file = \<lparr>ro_routes = load_routes file, ro_inflight = [], ro_ops = [], ro_timer = False, ro_queue = 0,
     ro_disk = file, ro_next = 0, ro_results = [], ro_emitted = [], ro_log = [], ro_loaded = load_routes file\<rparr>"

fun find_session :: "string \<Rightarrow> (string, route_entry) js_map \<Rightarrow> string option" where
  "find_session sid [] = None"
| "find_session sid ((ws, e) # rs) = (if re_sessionId e = sid then Some ws else find_session sid rs)"

definition findRouteBySessionId :: "string \<Rightarrow> router \<Rightarrow> im_route option" where
  "findRouteBySessionId sid r = (case find_session sid (ro_routes r) of None \<Rightarrow> None | Some ws \<Rightarrow> parseImCwd ws)"

definition lookupByWorkspace :: "string \<Rightarrow> router \<Rightarrow> string option" where
  "lookupByWorkspace ws r = map_option re_sessionId (jm_get (ro_routes r) ws)"

text \<open>\<^const>\<open>None\<close> outside: \<open>makeImCwd\<close> throws.\<close>

definition router_lookup :: "string \<Rightarrow> string \<Rightarrow> string \<Rightarrow> router \<Rightarrow> (string \<times> string) option option" where
  "router_lookup channelId peerId chatId r =
     map_option (\<lambda>ws. map_option (\<lambda>e. (ws, re_sessionId e)) (jm_get (ro_routes r) ws)) (makeImCwd channelId peerId chatId)"

definition list_entry :: "string option \<Rightarrow> string \<times> route_entry \<Rightarrow> conversation option" where
  "list_entry channelId e =
     (case parseImCwd (fst e) of
        None \<Rightarrow> None
      | Some p \<Rightarrow>
          if channelId \<noteq> None \<and> channelId \<noteq> Some [] \<and> channelId \<noteq> Some (rt_channelId p) then None
          else Some \<lparr>cv_channelId = rt_channelId p, cv_peerId = rt_peerId p, cv_chatId = rt_chatId p,
                 cv_sessionId = re_sessionId (snd e), cv_lastUsedAt = re_lastUsedAt (snd e)\<rparr>)"

definition listAll :: "string option \<Rightarrow> router \<Rightarrow> conversation list" where
  "listAll channelId r = sort_key (\<lambda>c. - cv_lastUsedAt c) (List.map_filter (list_entry channelId) (ro_routes r))"

subsection \<open>Routing\<close>

definition route_start ::
  "string \<Rightarrow> string \<Rightarrow> string \<Rightarrow> string option \<Rightarrow> string \<Rightarrow> router \<Rightarrow> nat option \<times> router" where
  "route_start channelId peerId chatId sessionId uuid r =
     (case makeImCwd channelId peerId chatId of
        None \<Rightarrow> (None, r)
      | Some key \<Rightarrow>
          (case jm_get (ro_inflight r) key of
             Some n \<Rightarrow> (Some n, r)
           | None \<Rightarrow>
               let n = ro_next r;
                   op = \<lparr>op_ref = n, op_key = key, op_channelId = channelId, op_peerId = peerId, op_chatId = chatId,
                     op_sid = or_else sessionId uuid,
                     op_phase = (case jm_get (ro_routes r) key of
                        Some existing \<Rightarrow> Probing (re_sessionId existing) | None \<Rightarrow> Creating)\<rparr>
               in (Some n, r\<lparr>ro_inflight := jm_set (ro_inflight r) key n, ro_ops := op # ro_ops r, ro_next := Suc n\<rparr>)))"

definition set_phase :: "nat \<Rightarrow> route_phase \<Rightarrow> router \<Rightarrow> router" where
  "set_phase n p r = r\<lparr>ro_ops := map (\<lambda>x. if op_ref x = n then x\<lparr>op_phase := p\<rparr> else x) (ro_ops r)\<rparr>"

text \<open>The end of an operation; \<^const>\<open>None\<close> when it is rejected.\<close>

definition route_finish :: "route_op \<Rightarrow> string option \<Rightarrow> router \<Rightarrow> router" where
  "route_finish x res r =
     r\<lparr>ro_ops := filter (\<lambda>y. op_ref y \<noteq> op_ref x) (ro_ops r), ro_inflight := jm_delete (ro_inflight r) (op_key x),
       ro_results := (op_ref x, res) # ro_results r\<rparr>"

definition touch :: "string \<Rightarrow> int \<Rightarrow> router \<Rightarrow> router" where
  "touch key now r =
     (case jm_get (ro_routes r) key of
        None \<Rightarrow> r
      | Some e \<Rightarrow> r\<lparr>ro_routes := jm_set (ro_routes r) key (e\<lparr>re_lastUsedAt := now\<rparr>)\<rparr>)"

definition route_probed :: "route_op \<Rightarrow> string \<Rightarrow> bool \<Rightarrow> int \<Rightarrow> router \<Rightarrow> router" where
  "route_probed x sid exists now r =
     (if exists then route_finish x (Some sid) ((touch (op_key x) now r)\<lparr>ro_timer := True\<rparr>)
      else set_phase (op_ref x) Creating (r\<lparr>ro_log := ro_log r @ [(op_key x, Missing sid)]\<rparr>))"

text \<open>The answer to \<open>session.create\<close> is not looked at; only a throw ends the operation.\<close>

definition route_created :: "route_op \<Rightarrow> bool \<Rightarrow> int \<Rightarrow> router \<Rightarrow> router" where
  "route_created x thrown now r =
     (if thrown then route_finish x None r
      else set_phase (op_ref x) (Saving now)
        (r\<lparr>ro_routes := jm_set (ro_routes r) (op_key x) \<lparr>re_sessionId = op_sid x, re_lastUsedAt = now\<rparr>,
           ro_log := ro_log r @ [(op_key x, Created (op_sid x))]\<rparr>))"

definition file_of :: "(string, route_entry) js_map \<Rightarrow> routing_file" where
  "file_of routes = map (\<lambda>(k, e). (k, Some (Some (re_sessionId e), re_lastUsedAt e))) routes"

definition persist_routes :: "bool \<Rightarrow> router \<Rightarrow> router" where
  "persist_routes landed r = (if landed then r\<lparr>ro_disk := Some (file_of (ro_routes r))\<rparr> else r)"

definition route_saved :: "route_op \<Rightarrow> int \<Rightarrow> bool \<Rightarrow> router \<Rightarrow> router" where
  "route_saved x used landed r =
     (let r1 = persist_routes landed r in
      if landed
      then route_finish x (Some (op_sid x))
        (r1\<lparr>ro_emitted := ro_emitted r1 @ [\<lparr>cv_channelId = op_channelId x, cv_peerId = op_peerId x, cv_chatId = op_chatId x,
            cv_sessionId = op_sid x, cv_lastUsedAt = used\<rparr>]\<rparr>)
      else route_finish x None r1)"

text \<open>The timer of the reuse path queues a write.\<close>

definition timer_fires :: "router \<Rightarrow> router" where
  "timer_fires r = (if ro_timer r then r\<lparr>ro_timer := False, ro_queue := Suc (ro_queue r)\<rparr> else r)"

definition queued_write :: "bool \<Rightarrow> router \<Rightarrow> router" where
  "queued_write landed r = (if ro_queue r = 0 then r else (persist_routes landed r)\<lparr>ro_queue := ro_queue r - 1\<rparr>)"

text \<open>Identifiers are fresh, as those of \<open>uuidv7\<close> are; a channel's name is not empty and has no slash.\<close>

definition fresh_session :: "string \<Rightarrow> router \<Rightarrow> bool" where
  "fresh_session sid r \<longleftrightarrow> sid \<notin> re_sessionId ` snd ` set (ro_routes r) \<and> sid \<notin> op_sid ` set (ro_ops r)"

inductive router_step :: "router \<Rightarrow> router \<Rightarrow> bool" where
  step_route: "channelId \<noteq> [] \<Longrightarrow> slash \<notin> set channelId \<Longrightarrow> fresh_session uuid r \<Longrightarrow>
    router_step r (snd (route_start channelId peerId chatId None uuid r))"
| step_probed: "x \<in> set (ro_ops r) \<Longrightarrow> op_phase x = Probing sid \<Longrightarrow> router_step r (route_probed x sid exists now r)"
| step_created: "x \<in> set (ro_ops r) \<Longrightarrow> op_phase x = Creating \<Longrightarrow> router_step r (route_created x thrown now r)"
| step_saved: "x \<in> set (ro_ops r) \<Longrightarrow> op_phase x = Saving used \<Longrightarrow> router_step r (route_saved x used landed r)"
| step_debounce: "router_step r (timer_fires r)"
| step_write: "router_step r (queued_write landed r)"
| step_restart: "router_step r (router_load (ro_disk r))"

section \<open>What is created and why\<close>

definition events_of :: "string \<Rightarrow> router \<Rightarrow> chat_event list" where
  "events_of key r = map snd (filter (\<lambda>e. fst e = key) (ro_log r))"

text \<open>A session is created only while there is none, because none was known or the last one was
  found missing.\<close>

fun known_session :: "string option \<Rightarrow> chat_event list \<Rightarrow> string option" where
  "known_session cur [] = cur"
| "known_session cur (Created s # es) = known_session (Some s) es"
| "known_session cur (Missing s # es) = known_session None es"

fun creates_justified :: "string option \<Rightarrow> chat_event list \<Rightarrow> bool" where
  "creates_justified cur [] = True"
| "creates_justified cur (Created s # es) \<longleftrightarrow> cur = None \<and> creates_justified (Some s) es"
| "creates_justified cur (Missing s # es) = creates_justified None es"

lemma known_append: "known_session cur (es @ fs) = known_session (known_session cur es) fs"
  by (induction cur es rule: known_session.induct) simp_all

lemma justified_append: "creates_justified cur (es @ fs) \<longleftrightarrow> creates_justified cur es \<and> creates_justified (known_session cur es) fs"
  by (induction cur es rule: known_session.induct) simp_all

abbreviation session_at :: "string \<Rightarrow> (string, route_entry) js_map \<Rightarrow> string option" where
  "session_at key routes \<equiv> map_option re_sessionId (jm_get routes key)"

section \<open>Invariant\<close>

definition unused :: "string \<Rightarrow> (string, route_entry) js_map \<Rightarrow> bool" where
  "unused sid routes \<longleftrightarrow> (\<forall>k. session_at k routes \<noteq> Some sid)"

text \<open>Routes that can be kept on disk and searched by session.\<close>

definition routes_ok :: "(string, route_entry) js_map \<Rightarrow> bool" where
  "routes_ok routes \<longleftrightarrow> jm_wf routes \<and>
     (\<forall>k k' s. session_at k routes = Some s \<longrightarrow> session_at k' routes = Some s \<longrightarrow> k' = k) \<and>
     (\<forall>k. jm_get routes k \<noteq> None \<longrightarrow> parseImCwd k \<noteq> None)"

definition op_ok :: "router \<Rightarrow> route_op \<Rightarrow> bool" where
  "op_ok r x \<longleftrightarrow> jm_get (ro_inflight r) (op_key x) = Some (op_ref x) \<and> op_ref x < ro_next r \<and>
     parseImCwd (op_key x) \<noteq> None \<and>
     (case op_phase x of
        Probing sid \<Rightarrow> session_at (op_key x) (ro_routes r) = Some sid \<and> unused (op_sid x) (ro_routes r)
      | Creating \<Rightarrow> known_session (session_at (op_key x) (ro_loaded r)) (events_of (op_key x) r) = None \<and>
          unused (op_sid x) (ro_routes r)
      | Saving _ \<Rightarrow> session_at (op_key x) (ro_routes r) = Some (op_sid x))"

definition log_ok :: "router \<Rightarrow> bool" where
  "log_ok r \<longleftrightarrow> (\<forall>key. creates_justified (session_at key (ro_loaded r)) (events_of key r) \<and>
     (known_session (session_at key (ro_loaded r)) (events_of key r) = None \<or>
      known_session (session_at key (ro_loaded r)) (events_of key r) = session_at key (ro_routes r)))"

definition router_inv :: "router \<Rightarrow> bool" where
  "router_inv r \<longleftrightarrow> routes_ok (ro_routes r) \<and> routes_ok (load_routes (ro_disk r)) \<and> log_ok r \<and>
     distinct (map op_ref (ro_ops r)) \<and> distinct (map op_sid (ro_ops r)) \<and> (\<forall>x \<in> set (ro_ops r). op_ok r x)"

lemma wf_empty_load: "routes_ok (load_routes None)"
  by (simp add: load_routes_def routes_ok_def)

text \<open>What is written is read back.\<close>

lemma jm_set_append: "k \<notin> fst ` set m \<Longrightarrow> jm_set m k v = m @ [(k, v)]"
  by (induction m k v rule: jm_set.induct) auto

lemma load_file_of_append:
  "jm_wf (old @ routes) \<Longrightarrow> \<forall>k \<in> fst ` set routes. parseImCwd k \<noteq> None \<Longrightarrow>
     foldl load_entry old (file_of routes) = old @ routes"
proof (induction routes arbitrary: old)
  case (Cons e routes)
  obtain k v where e: "e = (k, v)" by fastforce
  have "k \<notin> fst ` set old" "parseImCwd k \<noteq> None" using Cons.prems by (auto simp: e jm_wf_def)
  then have "load_entry old (k, Some (Some (re_sessionId v), re_lastUsedAt v)) = old @ [(k, v)]"
    by (simp add: load_entry_def jm_set_append)
  then show ?case using Cons.IH[of "old @ [(k, v)]"] Cons.prems by (simp add: file_of_def e)
qed (simp add: file_of_def)

lemma load_file_of: "routes_ok routes \<Longrightarrow> load_routes (Some (file_of routes)) = routes"
  using load_file_of_append[of "[]" routes]
  by (simp add: load_routes_def routes_ok_def jm_get_def map_of_eq_None_iff)

lemma routes_ok_set:
  assumes "routes_ok routes" "unused sid routes" "parseImCwd key \<noteq> None"
  shows "routes_ok (jm_set routes key \<lparr>re_sessionId = sid, re_lastUsedAt = now\<rparr>)"
proof -
  let ?t = "jm_set routes key \<lparr>re_sessionId = sid, re_lastUsedAt = now\<rparr>"
  have s: "session_at k ?t = (if k = key then Some sid else session_at k routes)" for k by simp
  have inj: "k' = k" if "session_at k ?t = Some x" "session_at k' ?t = Some x" for k k' x
  proof -
    have u: "session_at q routes \<noteq> Some sid" for q using assms(2) unfolding unused_def by blast
    have i: "session_at q routes = Some y \<Longrightarrow> session_at q' routes = Some y \<Longrightarrow> q' = q" for q q' y
      using assms(1) unfolding routes_ok_def by blast
    show ?thesis
      using that u i unfolding s by (metis option.inject)
  qed
  have "jm_wf ?t" using assms(1) by (auto simp: routes_ok_def)
  moreover have "parseImCwd k \<noteq> None" if "jm_get ?t k \<noteq> None" for k
    using that assms(1,3) by (cases "k = key") (simp_all add: routes_ok_def)
  ultimately show ?thesis unfolding routes_ok_def using inj by blast
qed

lemma op_invD:
  assumes "router_inv r" "x \<in> set (ro_ops r)"
  shows "op_ok r x" "y \<in> set (ro_ops r) \<Longrightarrow> op_ref y = op_ref x \<Longrightarrow> y = x"
    "y \<in> set (ro_ops r) \<Longrightarrow> op_ref y \<noteq> op_ref x \<Longrightarrow> op_key y \<noteq> op_key x"
    "y \<in> set (ro_ops r) \<Longrightarrow> op_ref y \<noteq> op_ref x \<Longrightarrow> op_sid y \<noteq> op_sid x"
proof -
  have d: "distinct (map op_ref (ro_ops r))" "distinct (map op_sid (ro_ops r))" "\<forall>x \<in> set (ro_ops r). op_ok r x"
    using assms(1) by (simp_all add: router_inv_def)
  show "op_ok r x" using d(3) assms(2) by blast
  show "y \<in> set (ro_ops r) \<Longrightarrow> op_ref y = op_ref x \<Longrightarrow> y = x"
    using d(1) assms(2) by (simp add: distinct_map inj_on_def)
  show "y \<in> set (ro_ops r) \<Longrightarrow> op_ref y \<noteq> op_ref x \<Longrightarrow> op_key y \<noteq> op_key x"
    using d(3) assms(2) unfolding op_ok_def by (metis option.inject)
  show "y \<in> set (ro_ops r) \<Longrightarrow> op_ref y \<noteq> op_ref x \<Longrightarrow> op_sid y \<noteq> op_sid x"
    using d(2) assms(2) by (auto simp: distinct_map inj_on_def)
qed

lemma finish_inv:
  assumes "router_inv r" "x \<in> set (ro_ops r)"
  shows "router_inv (route_finish x res r)"
proof -
  let ?t = "route_finish x res r"
  have o: "op_ok ?t y" if "y \<in> set (ro_ops r)" "op_ref y \<noteq> op_ref x" for y
    using op_invD(1)[OF assms(1) that(1)] op_invD(3)[OF assms that]
    by (simp add: op_ok_def route_finish_def events_of_def split: route_phase.splits)
  have "log_ok ?t" using assms(1) by (simp add: router_inv_def log_ok_def route_finish_def events_of_def)
  then show ?thesis
    using assms(1) o by (simp add: router_inv_def route_finish_def distinct_map_filter)
qed

lemma touch_sessions [simp]: "session_at k (ro_routes (touch key now r)) = session_at k (ro_routes r)"
  by (auto simp: touch_def split: option.splits)

lemma touch_inv:
  assumes "router_inv r"
  shows "router_inv (touch key now r)"
proof (cases "jm_get (ro_routes r) key")
  case None
  then show ?thesis using assms by (simp add: touch_def)
next
  case (Some e)
  let ?t = "touch key now r"
  have f: "ro_inflight ?t = ro_inflight r" "ro_next ?t = ro_next r" "ro_loaded ?t = ro_loaded r" "ro_log ?t = ro_log r"
    "ro_ops ?t = ro_ops r" "ro_disk ?t = ro_disk r" using Some by (simp_all add: touch_def)
  have s: "session_at k (ro_routes ?t) = session_at k (ro_routes r)" for k by (rule touch_sessions)
  have "routes_ok (ro_routes ?t)"
    unfolding routes_ok_def s
  proof (intro conjI allI impI)
    have ok: "routes_ok (ro_routes r)" using assms by (simp add: router_inv_def)
    show "jm_wf (ro_routes ?t)" using ok Some by (auto simp: routes_ok_def touch_def)
    show "k' = k" if "session_at k (ro_routes r) = Some x" "session_at k' (ro_routes r) = Some x" for k k' x
      using ok that unfolding routes_ok_def by blast
    show "parseImCwd k \<noteq> None" if "jm_get (ro_routes ?t) k \<noteq> None" for k
      using that ok s[of k] unfolding routes_ok_def by (metis option.map_disc_iff)
  qed
  then show ?thesis
    using assms unfolding router_inv_def log_ok_def op_ok_def events_of_def unused_def f s by blast
qed

lemma frame_inv:
  "router_inv (r\<lparr>ro_timer := b\<rparr>) = router_inv r" "router_inv (r\<lparr>ro_queue := n\<rparr>) = router_inv r"
  "router_inv (r\<lparr>ro_emitted := es\<rparr>) = router_inv r"
  by (simp_all add: router_inv_def log_ok_def op_ok_def events_of_def cong: route_phase.case_cong)

lemma persist_inv: "router_inv r \<Longrightarrow> router_inv (persist_routes landed r)"
  by (simp add: persist_routes_def router_inv_def log_ok_def op_ok_def events_of_def load_file_of
      cong: route_phase.case_cong)

text \<open>An operation moves to another phase while the state changes only at its chat.\<close>

lemma phase_inv:
  assumes "router_inv r" "x \<in> set (ro_ops r)"
    and "routes_ok (ro_routes t)" "log_ok t" "op_ok t (x\<lparr>op_phase := p\<rparr>)"
    and "ro_ops t = ro_ops r" "ro_inflight t = ro_inflight r" "ro_next t = ro_next r" "ro_loaded t = ro_loaded r"
    and "ro_disk t = ro_disk r"
    and "\<And>key. key \<noteq> op_key x \<Longrightarrow> session_at key (ro_routes t) = session_at key (ro_routes r) \<and> events_of key t = events_of key r"
    and "\<And>sid. sid \<noteq> op_sid x \<Longrightarrow> unused sid (ro_routes r) \<Longrightarrow> unused sid (ro_routes t)"
  shows "router_inv (set_phase (op_ref x) p t)"
proof -
  have frame: "op_ok (set_phase n p t) y = op_ok t y" for n y by (simp add: op_ok_def set_phase_def events_of_def cong: route_phase.case_cong)
  have other: "op_ok t y" if "y \<in> set (ro_ops r)" "op_ref y \<noteq> op_ref x" for y
    using op_invD(1)[OF assms(1) that(1)] op_invD(3,4)[OF assms(1,2) that] assms(7-9,11,12)
    by (auto simp: op_ok_def split: route_phase.splits)
  have "\<forall>y \<in> set (ro_ops (set_phase (op_ref x) p t)). op_ok t y"
  proof
    fix y assume "y \<in> set (ro_ops (set_phase (op_ref x) p t))"
    then obtain z where z: "z \<in> set (ro_ops r)" "y = (if op_ref z = op_ref x then z\<lparr>op_phase := p\<rparr> else z)"
      by (auto simp: set_phase_def assms(6))
    then show "op_ok t y" using assms(5) other op_invD(2)[OF assms(1,2) z(1)] by (cases "op_ref z = op_ref x") auto
  qed
  moreover have "map op_ref (ro_ops (set_phase (op_ref x) p t)) = map op_ref (ro_ops r)"
    "map op_sid (ro_ops (set_phase (op_ref x) p t)) = map op_sid (ro_ops r)"
    by (simp_all add: set_phase_def assms(6))
  moreover have "log_ok (set_phase (op_ref x) p t)" using assms(4) by (simp add: log_ok_def set_phase_def events_of_def)
  ultimately show ?thesis
    using assms(1,3,10) frame by (simp add: router_inv_def) (simp add: set_phase_def)
qed

lemma events_append [simp]:
  "events_of key (r\<lparr>ro_log := ro_log r @ [(k, e)]\<rparr>) = (if key = k then events_of key r @ [e] else events_of key r)"
  by (simp add: events_of_def)

lemma chat_log_step:
  assumes "log_ok r" "ro_loaded t = ro_loaded r"
    and "\<And>k. k \<noteq> key \<Longrightarrow> events_of k t = events_of k r \<and> session_at k (ro_routes t) = session_at k (ro_routes r)"
    and "events_of key t = events_of key r @ [e]"
    and "case e of Missing _ \<Rightarrow> True
      | Created s \<Rightarrow> known_session (session_at key (ro_loaded r)) (events_of key r) = None \<and> session_at key (ro_routes t) = Some s"
  shows "log_ok t"
proof -
  have "creates_justified (session_at k (ro_loaded t)) (events_of k t) \<and>
     (known_session (session_at k (ro_loaded t)) (events_of k t) = None \<or>
      known_session (session_at k (ro_loaded t)) (events_of k t) = session_at k (ro_routes t))" for k
  proof (cases "k = key")
    case False
    then show ?thesis using assms(1,2) assms(3)[OF False] unfolding log_ok_def by metis
  next
    case True
    have "creates_justified (session_at key (ro_loaded r)) (events_of key r)" using assms(1) by (simp add: log_ok_def)
    then show ?thesis
      unfolding True assms(2,4) justified_append known_append using assms(5) by (cases e) auto
  qed
  then show ?thesis by (simp add: log_ok_def)
qed

lemma probed_inv:
  assumes "router_inv r" "x \<in> set (ro_ops r)" "op_phase x = Probing sid"
  shows "router_inv (route_probed x sid found now r)"
proof (cases found)
  case True
  have "x \<in> set (ro_ops (touch (op_key x) now r))" using assms(2) by (simp add: touch_def split: option.splits)
  then show ?thesis
    using True touch_inv[OF assms(1)] by (simp add: route_probed_def frame_inv finish_inv)
next
  case False
  have x: "op_ok r x" by (rule op_invD(1)[OF assms(1,2)])
  have "router_inv (set_phase (op_ref x) Creating (r\<lparr>ro_log := ro_log r @ [(op_key x, Missing sid)]\<rparr>))"
  proof (rule phase_inv[OF assms(1,2)])
    show "log_ok (r\<lparr>ro_log := ro_log r @ [(op_key x, Missing sid)]\<rparr>)"
      by (rule chat_log_step[of r _ "op_key x" "Missing sid"]) (use assms(1) in \<open>simp_all add: router_inv_def\<close>)
    show "op_ok (r\<lparr>ro_log := ro_log r @ [(op_key x, Missing sid)]\<rparr>) (x\<lparr>op_phase := Creating\<rparr>)"
      using x assms(3) by (simp add: op_ok_def known_append)
  qed (use assms(1) in \<open>simp_all add: router_inv_def\<close>)
  then show ?thesis using False by (simp add: route_probed_def)
qed

lemma created_inv:
  assumes "router_inv r" "x \<in> set (ro_ops r)" "op_phase x = Creating"
  shows "router_inv (route_created x thrown now r)"
proof (cases thrown)
  case True
  then show ?thesis using finish_inv[OF assms(1,2)] by (simp add: route_created_def)
next
  case False
  let ?e = "\<lparr>re_sessionId = op_sid x, re_lastUsedAt = now\<rparr>"
  let ?t = "r\<lparr>ro_routes := jm_set (ro_routes r) (op_key x) ?e, ro_log := ro_log r @ [(op_key x, Created (op_sid x))]\<rparr>"
  have x: "op_ok r x" by (rule op_invD(1)[OF assms(1,2)])
  have ev: "events_of k ?t = (if k = op_key x then events_of k r @ [Created (op_sid x)] else events_of k r)" for k
    by (simp add: events_of_def)
  have "router_inv (set_phase (op_ref x) (Saving now) ?t)"
  proof (rule phase_inv[OF assms(1,2)])
    show "routes_ok (ro_routes ?t)"
      using assms(1,3) x routes_ok_set[of "ro_routes r" "op_sid x" "op_key x" now] by (simp add: router_inv_def op_ok_def)
    show "log_ok ?t"
      by (rule chat_log_step[of r ?t "op_key x" "Created (op_sid x)"])
        (use assms(1,3) x in \<open>simp_all add: router_inv_def ev op_ok_def\<close>)
    show "op_ok ?t (x\<lparr>op_phase := Saving now\<rparr>)"
      using x assms(3) by (simp add: op_ok_def)
    show "unused s (ro_routes ?t)" if "s \<noteq> op_sid x" "unused s (ro_routes r)" for s
      using that by (auto simp: unused_def)
  qed (simp_all add: ev)
  then show ?thesis using False by (simp add: route_created_def)
qed

lemma saved_inv:
  assumes "router_inv r" "x \<in> set (ro_ops r)"
  shows "router_inv (route_saved x used landed r)"
proof -
  have "x \<in> set (ro_ops (persist_routes landed r))" using assms(2) by (simp add: persist_routes_def)
  then show ?thesis
    using persist_inv[OF assms(1), of landed]
    by (cases landed) (auto simp: route_saved_def Let_def frame_inv intro!: finish_inv)
qed

lemma events_frame [simp]: "events_of k (r\<lparr>ro_inflight := a, ro_ops := b, ro_next := c\<rparr>) = events_of k r"
  by (simp add: events_of_def)

lemma route_start_inv:
  assumes "router_inv r" "channelId \<noteq> []" "slash \<notin> set channelId" "fresh_session uuid r"
  shows "router_inv (snd (route_start channelId peerId chatId None uuid r))"
proof (cases "\<exists>key. makeImCwd channelId peerId chatId = Some key \<and> jm_get (ro_inflight r) key = None")
  case False
  then show ?thesis using assms(1) by (auto simp: route_start_def split: option.splits)
next
  case True
  then obtain key where key: "makeImCwd channelId peerId chatId = Some key" "jm_get (ro_inflight r) key = None" by blast
  have parse: "parseImCwd key \<noteq> None" using parse_make[OF assms(2,3) key(1)] by simp
  define ph where "ph = (case jm_get (ro_routes r) key of Some e \<Rightarrow> Probing (re_sessionId e) | None \<Rightarrow> Creating)"
  define x where "x = \<lparr>op_ref = ro_next r, op_key = key, op_channelId = channelId, op_peerId = peerId, op_chatId = chatId,
    op_sid = uuid, op_phase = ph\<rparr>"
  let ?t = "r\<lparr>ro_inflight := jm_set (ro_inflight r) key (ro_next r), ro_ops := x # ro_ops r, ro_next := Suc (ro_next r)\<rparr>"
  have t: "snd (route_start channelId peerId chatId None uuid r) = ?t"
    by (simp add: route_start_def key Let_def x_def ph_def)
  have old: "op_ok ?t y" "op_ref y \<noteq> ro_next r" "op_sid y \<noteq> uuid" if "y \<in> set (ro_ops r)" for y
  proof -
    have y: "op_ok r y" by (rule op_invD(1)[OF assms(1) that])
    then have "op_key y \<noteq> key" using key(2) by (auto simp: op_ok_def)
    then show "op_ok ?t y" using y by (simp add: op_ok_def events_of_def cong: route_phase.case_cong)
    show "op_ref y \<noteq> ro_next r" using y by (auto simp: op_ok_def)
    show "op_sid y \<noteq> uuid" using assms(4) that by (auto simp: fresh_session_def)
  qed
  have un: "unused uuid (ro_routes r)"
    using assms(4) by (force simp: unused_def fresh_session_def jm_get_def dest: map_of_SomeD)
  have known: "known_session (session_at key (ro_loaded r)) (events_of key r) = None" if "jm_get (ro_routes r) key = None"
    using assms(1) that by (auto simp: router_inv_def log_ok_def)
  have ev: "events_of key ?t = events_of key r" by (simp add: events_of_def)
  have "op_ok ?t x"
  proof (cases "jm_get (ro_routes r) key")
    case None
    show ?thesis unfolding op_ok_def x_def ph_def None route_op.simps route_phase.case ev option.case
      using parse un known[OF None] None by simp
  next
    case (Some e)
    show ?thesis unfolding op_ok_def x_def ph_def Some route_op.simps route_phase.case option.case
      using parse un Some by simp
  qed
  moreover have "log_ok ?t = log_ok r" by (simp add: log_ok_def)
  then have "log_ok ?t" using assms(1) by (simp only: router_inv_def)
  moreover have "ro_next r \<notin> op_ref ` set (ro_ops r)" "uuid \<notin> op_sid ` set (ro_ops r)"
    by (auto dest: old(2), auto dest: old(3))
  moreover have "ro_ops ?t = x # ro_ops r" "ro_routes ?t = ro_routes r" "ro_disk ?t = ro_disk r"
    "op_ref x = ro_next r" "op_sid x = uuid" by (simp_all add: x_def)
  moreover have "\<forall>y \<in> set (ro_ops r). op_ok ?t y" using old(1) by blast
  ultimately show ?thesis
    using assms(1) unfolding t router_inv_def by (simp only: list.map list.set distinct.simps set_map) blast
qed

lemma load_inv: "routes_ok (load_routes file) \<Longrightarrow> router_inv (router_load file)"
  by (simp add: router_inv_def router_load_def log_ok_def events_of_def)

interpretation chats: transition_invariant router_step "router_load None" router_inv
proof
  show "router_inv (router_load None)" by (rule load_inv[OF wf_empty_load])
  show "router_inv t" if "router_step r t" "router_inv r" for r t
    using that
  proof cases
    case step_restart
    have "routes_ok (load_routes (ro_disk r))" using that(2) by (simp add: router_inv_def)
    then show ?thesis using step_restart load_inv by simp
  qed (auto simp: route_start_inv probed_inv created_inv saved_inv timer_fires_def queued_write_def frame_inv persist_inv)
qed

section \<open>Searching by session\<close>

lemma find_session_in:
  "(ws, e) \<in> set routes \<Longrightarrow> \<exists>ws' e'. find_session (re_sessionId e) routes = Some ws' \<and> (ws', e') \<in> set routes \<and>
     re_sessionId e' = re_sessionId e"
proof (induction routes)
  case (Cons x routes)
  obtain k v where x: "x = (k, v)" by fastforce
  show ?case
  proof (cases "re_sessionId v = re_sessionId e")
    case False
    then have "(ws, e) \<in> set routes" using Cons.prems x by auto
    then show ?thesis using Cons.IH False x by auto
  qed (use x in auto)
qed simp

lemma find_session_ok:
  assumes "routes_ok routes" "jm_get routes ws = Some e"
  shows "find_session (re_sessionId e) routes = Some ws"
proof -
  have wf: "jm_wf routes" using assms(1) by (simp add: routes_ok_def)
  obtain ws' e' where f: "find_session (re_sessionId e) routes = Some ws'" "(ws', e') \<in> set routes"
    "re_sessionId e' = re_sessionId e"
    using find_session_in assms(2) jm_get_iff[OF wf] by metis
  have "session_at ws' routes = Some (re_sessionId e)" "session_at ws routes = Some (re_sessionId e)"
    using f(2,3) assms(2) jm_get_iff[OF wf, of ws' e'] by simp_all
  then have "ws' = ws" using assms(1) unfolding routes_ok_def by blast
  then show ?thesis using f(1) by simp
qed

text \<open>A restart after a write finds every route again.\<close>

lemma restart_keeps_routes:
  "router_step\<^sup>*\<^sup>* (router_load None) r \<Longrightarrow> ro_routes (router_load (ro_disk (persist_routes True r))) = ro_routes r"
  using chats.I_reachable[of r] by (simp add: router_load_def persist_routes_def router_inv_def load_file_of)

section \<open>Properties\<close>

text \<open>C39: A chat has one session at a time. However messages arrive while others wait for the server
  or the disk, and through restarts, a chat has at most one operation in flight, and a session is
  created for it only while none is known: none was on disk, or the last one was found missing.\<close>

theorem one_session_per_chat:
  assumes "router_step\<^sup>*\<^sup>* (router_load None) r"
  shows "distinct (map op_key (ro_ops r)) \<and>
    (\<forall>key. creates_justified (session_at key (ro_loaded r)) (events_of key r))"
proof -
  have inv: "router_inv r" by (rule chats.I_reachable[OF assms])
  then have "distinct (ro_ops r)" by (simp add: router_inv_def distinct_map)
  moreover have "inj_on op_key (set (ro_ops r))"
  proof (rule inj_onI)
    fix x y assume "x \<in> set (ro_ops r)" "y \<in> set (ro_ops r)" "op_key x = op_key y"
    then show "x = y" using op_invD(2,3)[OF inv, of x y] by fastforce
  qed
  ultimately show ?thesis using inv by (simp add: distinct_map router_inv_def log_ok_def)
qed

text \<open>Replies go to the chat that asked. In every reachable state the session a chat is routed to
  is found again under its identifier, as that chat with its channel, peer and conversation, and as
  no other.\<close>

theorem reply_reaches_sender:
  assumes "router_step\<^sup>*\<^sup>* (router_load None) r" "channelId \<noteq> []" "slash \<notin> set channelId"
    and "router_lookup channelId peerId chatId r = Some (Some (ws, sid))"
  shows "findRouteBySessionId sid r = Some \<lparr>rt_channelId = channelId, rt_peerId = peerId, rt_chatId = chatId\<rparr> \<and>
    lookupByWorkspace ws r = Some sid"
proof -
  obtain e where e: "makeImCwd channelId peerId chatId = Some ws" "jm_get (ro_routes r) ws = Some e" "re_sessionId e = sid"
    using assms(4) by (auto simp: router_lookup_def)
  have "find_session sid (ro_routes r) = Some ws"
    using find_session_ok[OF _ e(2)] chats.I_reachable[OF assms(1)] e(3) by (simp add: router_inv_def)
  then show ?thesis
    using parse_make[OF assms(2,3) e(1)] e(2,3) by (simp add: findRouteBySessionId_def lookupByWorkspace_def)
qed

text \<open>Two chats write at the same time, one of them twice.\<close>

definition demo_router :: router where
  "demo_router =
     (let r1 = snd (route_start ''c'' ''p'' ''t'' None ''s1'' (router_load None));
          r2 = snd (route_start ''c'' ''p'' ''t'' None ''s2'' r1);
          r3 = snd (route_start ''c'' ''q'' ''t'' None ''s3'' r2)
      in route_created (hd (tl (ro_ops r3))) False 5 r3)"

lemma demo_router_reachable: "router_step\<^sup>*\<^sup>* (router_load None) demo_router"
proof -
  let ?r1 = "snd (route_start ''c'' ''p'' ''t'' None ''s1'' (router_load None))"
  let ?r2 = "snd (route_start ''c'' ''p'' ''t'' None ''s2'' ?r1)"
  let ?r3 = "snd (route_start ''c'' ''q'' ''t'' None ''s3'' ?r2)"
  have ch: "''c'' \<noteq> []" "slash \<notin> set ''c''" by (simp, code_simp)
  have "fresh_session ''s1'' (router_load None)" "fresh_session ''s2'' ?r1" "fresh_session ''s3'' ?r2" by code_simp+
  then have "router_step (router_load None) ?r1" "router_step ?r1 ?r2" "router_step ?r2 ?r3"
    using step_route[OF ch] by blast+
  moreover have "hd (tl (ro_ops ?r3)) \<in> set (ro_ops ?r3)" "op_phase (hd (tl (ro_ops ?r3))) = Creating" by code_simp+
  then have "router_step ?r3 demo_router" unfolding demo_router_def Let_def by (rule step_created)
  ultimately show ?thesis by (meson converse_rtranclp_into_rtranclp rtranclp.rtrancl_refl)
qed

theorem one_session_per_chat_witness: "length (ro_ops demo_router) = 2 \<and> distinct (map op_key (ro_ops demo_router))"
proof -
  have "length (ro_ops demo_router) = 2" by code_simp
  then show ?thesis using one_session_per_chat[OF demo_router_reachable] by blast
qed

theorem reply_reaches_sender_witness:
  "findRouteBySessionId ''s1'' demo_router = Some \<lparr>rt_channelId = ''c'', rt_peerId = ''p'', rt_chatId = ''t''\<rparr>"
proof -
  have "router_lookup ''c'' ''p'' ''t'' demo_router = Some (Some (''im://c/p/t'', ''s1''))" by code_simp
  moreover have "''c'' \<noteq> []" "slash \<notin> set ''c''" by (simp, code_simp)
  ultimately show ?thesis using reply_reaches_sender[OF demo_router_reachable] by blast
qed

end
