(* ===== verification/ChatUi.thy ===== *)
theory ChatUi
  imports JsValue
begin

text \<open>
  What the desktop client shows of a conversation:
  \<open>clients/taco-desktop/src/lib/chat/chatUtils.ts\<close> and \<open>subagentList.ts\<close>. The rows of a chat, the
  texts folded out of messages and tool results, the rows made of a stored history, and the list
  of child agents. Messages come over the wire and are values of \<^typ>\<open>js\<close>; the fields the sources
  declare with a type have that type here. The parser of dates is a parameter.
\<close>

section \<open>Rows\<close>

text \<open>The labels of tool and system rows hold symbols outside the alphabet of \<^typ>\<open>string\<close>.\<close>

datatype row_char = Ch char | Warning_sign | Started_sign | Tick_sign | Cross_sign | Ellipsis_sign

type_synonym row_text = "row_char list"

abbreviation plain :: "string \<Rightarrow> row_text" where
  "plain s \<equiv> map Ch s"

datatype tool_status = Running | Finished | Failed

record ui_tool =
  ut_id :: "string option"
  ut_name :: "string option"
  ut_args :: "js option"
  ut_status :: tool_status
  ut_resultText :: "string option"
  ut_details :: "js option"

record ui_thinking =
  uk_thinking :: string
  uk_startedAt :: "int option"
  uk_endedAt :: "int option"
  uk_isHistorical :: bool
  uk_redacted :: bool
  uk_completedCount :: "nat option"

record image_part =
  im_data :: string
  im_mimeType :: string

record attachment =
  at_name :: string
  at_mimeType :: string
  at_size :: string
  at_path :: string
  at_isImage :: bool

record user_row =
  us_id :: string
  us_text :: string
  us_ts :: int
  us_images :: "image_part list option"
  us_attachments :: "attachment list option"

text \<open>Thinking blocks are written by index: \<^const>\<open>None\<close> is a hole of the array.\<close>

record assistant_row =
  as_id :: string
  as_text :: string
  as_ts :: int
  as_tools :: "ui_tool list"
  as_thinking :: "ui_thinking option list"

record label_row =
  lr_id :: string
  lr_text :: row_text
  lr_ts :: int

datatype ui_message =
    UserMsg user_row
  | AssistantMsg assistant_row
  | ToolMsg label_row
  | SystemMsg label_row

fun ui_id :: "ui_message \<Rightarrow> string" where
  "ui_id (UserMsg u) = us_id u"
| "ui_id (AssistantMsg a) = as_id a"
| "ui_id (ToolMsg t) = lr_id t"
| "ui_id (SystemMsg t) = lr_id t"

fun is_assistant :: "ui_message \<Rightarrow> bool" where
  "is_assistant (AssistantMsg a) = True"
| "is_assistant _ = False"

fun is_user :: "ui_message \<Rightarrow> bool" where
  "is_user (UserMsg u) = True"
| "is_user _ = False"

fun tools_of :: "ui_message \<Rightarrow> ui_tool list" where
  "tools_of (AssistantMsg a) = as_tools a"
| "tools_of _ = []"

datatype queue_kind = Steer | FollowUp | NextRun

record queued_item =
  qi_id :: string
  qi_kind :: queue_kind
  qi_text :: string
  qi_optimistic :: bool

section \<open>Texts\<close>

definition is_part :: "string \<Rightarrow> js \<Rightarrow> bool" where
  "is_part ty c \<longleftrightarrow> js_prop c ''type'' = Some (JStr ty)"

definition textFromMessage :: "js option \<Rightarrow> string" where
  "textFromMessage m =
     (if \<not> opt_truthy m then []
      else (case opt_prop m ''content'' of
         Some (JStr s) \<Rightarrow> s
       | Some (JArr xs) \<Rightarrow>
           join [CHR 0x0A] (map (\<lambda>c. case opt_nullish (js_prop c ''text'') (JStr []) of t \<Rightarrow> js_text t) (filter (is_part ''text'') xs))
       | _ \<Rightarrow> json_text (the m)))"

definition TOOL_RESULT_LINE_MAX :: nat where "TOOL_RESULT_LINE_MAX = 240"

definition text_lines :: "js \<Rightarrow> string list" where
  "text_lines c =
     (case js_prop c ''text'' of
        Some (JStr t) \<Rightarrow> if is_object c \<and> is_part ''text'' c \<and> t \<noteq> [] then [t] else []
      | _ \<Rightarrow> [])"

fun foldTextParts :: "js \<Rightarrow> string option" where
  "foldTextParts (JStr s) = Some s"
| "foldTextParts (JArr xs) = Some (join [CHR 0x0A] (concat (map text_lines xs)))"
| "foldTextParts _ = None"

definition foldContent :: "js option \<Rightarrow> string" where
  "foldContent v =
     (case v of
        None \<Rightarrow> []
      | Some x \<Rightarrow> if \<not> js_truthy x then [] else (case foldTextParts x of Some s \<Rightarrow> s | None \<Rightarrow> json_text x))"

definition stringifyResult :: "js option \<Rightarrow> string" where
  "stringifyResult r =
     (if \<not> opt_truthy r then []
      else foldContent (case opt_prop r ''content'' of Some (JArr xs) \<Rightarrow> Some (JArr xs) | _ \<Rightarrow> r))"

definition toolResultLine :: "string \<Rightarrow> bool \<Rightarrow> string \<Rightarrow> row_text" where
  "toolResultLine name isError text =
     (let trimmed = (if TOOL_RESULT_LINE_MAX < length text
            then plain (take TOOL_RESULT_LINE_MAX text) @ [Ellipsis_sign] else plain text);
          suffix = (if trimmed \<noteq> [] then plain '': '' @ trimmed else [])
      in if isError then [Cross_sign] @ plain ('' '' @ name @ '' (error)'') @ suffix
         else [Tick_sign] @ plain ('' '' @ name) @ suffix)"

definition AGENT_TOOL_NAMES :: "string list" where "AGENT_TOOL_NAMES = [''agent'', ''agentContinue'']"

definition is_agent_tool :: "ui_tool \<Rightarrow> bool" where
  "is_agent_tool t \<longleftrightarrow> (\<exists>n \<in> set_option (ut_name t). n \<in> set AGENT_TOOL_NAMES)"

definition isBackgroundLaunchDetails :: "js option \<Rightarrow> bool" where
  "isBackgroundLaunchDetails details \<longleftrightarrow> opt_prop details ''status'' = Some (JStr ''launched'')"

fun queue_kind_of :: "js option \<Rightarrow> queue_kind option" where
  "queue_kind_of (Some (JStr k)) =
     (if k = ''steer'' then Some Steer else if k = ''followUp'' then Some FollowUp
      else if k = ''nextRun'' then Some NextRun else None)"
| "queue_kind_of _ = None"

definition queued_row :: "js \<Rightarrow> queued_item option" where
  "queued_row item =
     (case (queue_kind_of (js_prop item ''kind''), opt_text (js_prop item ''entryId'')) of
        (Some k, Some eid) \<Rightarrow>
          if is_object item \<and> opt_truthy (js_prop item ''message'') \<and> eid \<noteq> []
          then Some \<lparr>qi_id = eid, qi_kind = k, qi_text = textFromMessage (js_prop item ''message''), qi_optimistic = False\<rparr>
          else None
      | _ \<Rightarrow> None)"

definition queuedItemsFromEvent :: "js option \<Rightarrow> queued_item list" where
  "queuedItemsFromEvent queues = List.map_filter queued_row (opt_list queues)"

section \<open>Parts of a message\<close>

definition attachment_of :: "js \<Rightarrow> attachment option" where
  "attachment_of x =
     (case (js_prop x ''name'', js_prop x ''mimeType'') of
        (Some (JStr n), Some (JStr mt)) \<Rightarrow>
          if is_object x then
            Some \<lparr>at_name = n, at_mimeType = mt,
              at_size = (case js_prop x ''size'' of Some (JNum k) \<Rightarrow> k | _ \<Rightarrow> ''0''),
              at_path = or_else (opt_text (js_prop x ''path'')) [],
              at_isImage = (js_prop x ''kind'' = Some (JStr ''image''))\<rparr>
          else None
      | _ \<Rightarrow> None)"

definition extractAttachments :: "js option \<Rightarrow> attachment list" where
  "extractAttachments message = List.map_filter attachment_of (opt_list (opt_prop message ''attachments''))"

definition image_of :: "js \<Rightarrow> image_part option" where
  "image_of c =
     (case (js_prop c ''data'', js_prop c ''mimeType'') of
        (Some (JStr d), Some (JStr mt)) \<Rightarrow>
          if is_object c \<and> is_part ''image'' c then Some \<lparr>im_data = d, im_mimeType = mt\<rparr> else None
      | _ \<Rightarrow> None)"

definition extractImageParts :: "js option \<Rightarrow> image_part list" where
  "extractImageParts content = List.map_filter image_of (opt_list content)"

definition call_of :: "js \<Rightarrow> ui_tool" where
  "call_of tc = \<lparr>ut_id = opt_text (js_prop tc ''id''), ut_name = opt_text (js_prop tc ''name''),
     ut_args = js_prop tc ''arguments'', ut_status = Running, ut_resultText = None, ut_details = None\<rparr>"

definition historical_thinking :: "js \<Rightarrow> ui_thinking" where
  "historical_thinking t = \<lparr>uk_thinking = or_else (opt_text (js_prop t ''thinking'')) [], uk_startedAt = Some 0,
     uk_endedAt = Some 0, uk_isHistorical = True, uk_redacted = opt_truthy (js_prop t ''redacted''), uk_completedCount = None\<rparr>"

definition splitAssistantContent :: "js option \<Rightarrow> string \<times> ui_tool list \<times> ui_thinking option list" where
  "splitAssistantContent content =
     (let parts = filter is_object (opt_list content) in
      (join [CHR 0x0A] (concat (map text_lines (filter (is_part ''text'') parts))),
       map call_of (filter (is_part ''toolCall'') parts),
       map (Some \<circ> historical_thinking) (filter (is_part ''thinking'') parts)))"

definition extractAssistantTextAndThinking :: "js option \<Rightarrow> string \<times> ui_thinking option list" where
  "extractAssistantTextAndThinking m =
     (if opt_truthy m \<and> opt_prop m ''role'' = Some (JStr ''assistant'')
      then (case splitAssistantContent (opt_prop m ''content'') of (text, _, thinking) \<Rightarrow> (text, thinking))
      else ([], []))"

definition assistantFailureText :: "js option \<Rightarrow> string option" where
  "assistantFailureText m =
     (if opt_prop m ''stopReason'' \<noteq> Some (JStr ''error'') then None
      else (case opt_prop m ''errorMessage'' of
         Some e \<Rightarrow> Some (if js_truthy e then js_text e else ''Assistant request failed'')
       | None \<Rightarrow> Some ''Assistant request failed''))"

definition empty_row :: "assistant_row \<Rightarrow> bool" where
  "empty_row a \<longleftrightarrow> as_text a = [] \<and> as_thinking a = [] \<and> as_tools a = []"

fun isEmptyAssistant :: "ui_message \<Rightarrow> bool" where
  "isEmptyAssistant (AssistantMsg a) = empty_row a"
| "isEmptyAssistant _ = False"

definition ASSISTANT_ERROR_ROW_PREFIX :: string where "ASSISTANT_ERROR_ROW_PREFIX = ''asst-err-''"

fun is_error_row :: "ui_message \<Rightarrow> bool" where
  "is_error_row (SystemMsg t) = startsWith (lr_id t) ASSISTANT_ERROR_ROW_PREFIX"
| "is_error_row _ = False"

definition appendAssistantError :: "ui_message list \<Rightarrow> string \<Rightarrow> string \<Rightarrow> int \<Rightarrow> ui_message list" where
  "appendAssistantError messages key text ts =
     (let row = SystemMsg \<lparr>lr_id = ASSISTANT_ERROR_ROW_PREFIX @ key, lr_text = [Warning_sign, Ch CHR '' ''] @ plain text, lr_ts = ts\<rparr> in
      if messages \<noteq> [] \<and> is_error_row (last messages) then butlast messages @ [row] else messages @ [row])"

text \<open>The assistant row a tool event goes to: the last one.\<close>

fun findLastAssistant :: "ui_message list \<Rightarrow> assistant_row option" where
  "findLastAssistant [] = None"
| "findLastAssistant (m # ms) =
     (case findLastAssistant ms of
        Some a \<Rightarrow> Some a
      | None \<Rightarrow> (case m of AssistantMsg a \<Rightarrow> Some a | _ \<Rightarrow> None))"

fun set_last_assistant :: "assistant_row \<Rightarrow> ui_message list \<Rightarrow> ui_message list" where
  "set_last_assistant b [] = []"
| "set_last_assistant b (m # ms) =
     (if findLastAssistant ms \<noteq> None then m # set_last_assistant b ms
      else (case m of AssistantMsg a \<Rightarrow> AssistantMsg b # ms | _ \<Rightarrow> m # ms))"

fun update_first :: "('a \<Rightarrow> bool) \<Rightarrow> ('a \<Rightarrow> 'a) \<Rightarrow> 'a list \<Rightarrow> 'a list" where
  "update_first p f [] = []"
| "update_first p f (x # xs) = (if p x then f x # xs else x # update_first p f xs)"

section \<open>History\<close>

datatype timestamp = Millis int | DateText string

record chat_entry =
  he_id :: "js option"
  he_type :: "string option"
  he_payload :: "js option"
  he_timestamp :: "timestamp option"

fun parseEntryTimestamp :: "(string \<Rightarrow> int option) \<Rightarrow> timestamp option \<Rightarrow> int \<Rightarrow> int" where
  "parseEntryTimestamp date (Some (Millis n)) missing = n"
| "parseEntryTimestamp date (Some (DateText s)) missing = or_else (date s) missing"
| "parseEntryTimestamp date None missing = missing"

text \<open>\<open>{...(tool.details ?? {}), ...extra}\<close>.\<close>

definition spread_details :: "js option \<Rightarrow> (string, js) js_map \<Rightarrow> js" where
  "spread_details d extra =
     JObj (foldl (\<lambda>m (k, v). jm_set m k v) (case d of None \<Rightarrow> [] | Some x \<Rightarrow> js_entries x) extra)"

definition optional_list :: "'a list \<Rightarrow> 'a list option" where
  "optional_list xs = (if xs = [] then None else Some xs)"

definition user_history_row :: "string \<Rightarrow> int \<Rightarrow> js \<Rightarrow> ui_message" where
  "user_history_row entryId ts m =
     UserMsg \<lparr>us_id = (if entryId = [] then ''user-'' @ int_text ts else entryId),
       us_text = (case js_prop m ''content'' of None \<Rightarrow> [] | Some c \<Rightarrow> or_else (foldTextParts c) []), us_ts = ts,
       us_images = optional_list (extractImageParts (js_prop m ''content'')),
       us_attachments = optional_list (extractAttachments (Some m))\<rparr>"

definition assistant_history :: "string \<Rightarrow> int \<Rightarrow> js \<Rightarrow> ui_message list \<Rightarrow> ui_message list" where
  "assistant_history entryId ts m out =
     (case splitAssistantContent (js_prop m ''content'') of (text, tools, thinking) \<Rightarrow>
        let rid = (if entryId = [] then ''assistant-'' @ int_text ts else entryId);
            bubble = \<lparr>as_id = rid, as_text = text, as_ts = ts, as_tools = tools, as_thinking = thinking\<rparr>;
            failure = assistantFailureText (Some m);
            failed = (failure \<noteq> None \<or> js_prop m ''stopReason'' = Some (JStr ''aborted''));
            placed = (if failed \<and> empty_row bubble then out else out @ [AssistantMsg bubble])
        in (case failure of None \<Rightarrow> placed | Some f \<Rightarrow> appendAssistantError placed rid f ts))"

definition settle_tool :: "js \<Rightarrow> ui_tool \<Rightarrow> ui_tool" where
  "settle_tool m t = t\<lparr>ut_status := (if opt_truthy (js_prop m ''isError'') then Failed else Finished),
     ut_resultText := Some (foldContent (js_prop m ''content'')),
     ut_details := coalesce (js_prop m ''details'') (ut_details t)\<rparr>"

definition tool_name_or :: "js option \<Rightarrow> string" where
  "tool_name_or v = js_text (opt_nullish v (JStr ''tool''))"

definition result_history :: "string \<Rightarrow> int \<Rightarrow> js \<Rightarrow> ui_message list \<Rightarrow> ui_message list" where
  "result_history entryId ts m out =
     (let is_call = (\<lambda>t. ut_id t = opt_text (js_prop m ''toolCallId''));
          orphan = out @ [ToolMsg \<lparr>lr_id = (if entryId = [] then ''tool-result-'' @ int_text ts else entryId),
            lr_text = toolResultLine (tool_name_or (js_prop m ''toolName'')) (opt_truthy (js_prop m ''isError''))
              (foldContent (js_prop m ''content'')), lr_ts = ts\<rparr>]
      in (case findLastAssistant out of
            None \<Rightarrow> orphan
          | Some a \<Rightarrow>
              if \<exists>t \<in> set (as_tools a). is_call t
              then set_last_assistant (a\<lparr>as_tools := update_first is_call (settle_tool m) (as_tools a)\<rparr>) out
              else orphan))"

definition history_row :: "string \<Rightarrow> int \<Rightarrow> js \<Rightarrow> ui_message list \<Rightarrow> ui_message list" where
  "history_row entryId ts m out =
     (let role = js_prop m ''role'' in
      if role = Some (JStr ''user'') then out @ [user_history_row entryId ts m]
      else if role = Some (JStr ''assistant'') then assistant_history entryId ts m out
      else if role = Some (JStr ''toolResult'') then result_history entryId ts m out
      else out)"

definition history_step ::
  "(string \<Rightarrow> int option) \<Rightarrow> int \<Rightarrow> ui_message list \<times> string list \<Rightarrow> chat_entry \<Rightarrow> ui_message list \<times> string list" where
  "history_step date now acc e =
     (case acc of (out, seen) \<Rightarrow>
        (case he_payload e of
           None \<Rightarrow> acc
         | Some m \<Rightarrow>
             let entryId = js_text (opt_nullish (he_id e) (JStr [])) in
             if he_type e \<noteq> Some ''message'' \<or> \<not> is_object m \<or> (entryId \<noteq> [] \<and> entryId \<in> set seen) then acc
             else (history_row entryId (parseEntryTimestamp date (he_timestamp e) now) m out,
                   if entryId = [] then seen else entryId # seen)))"

definition LONG_RUNNING_TOOLS :: "string list" where "LONG_RUNNING_TOOLS = [''agent'', ''agentContinue'', ''skill'']"

definition waits_for_user :: "ui_tool \<Rightarrow> bool" where
  "waits_for_user t \<longleftrightarrow>
     (ut_name t = Some ''askUser'' \<or> ut_name t = Some ''planExit'') \<and> opt_prop (ut_details t) ''waiting'' = Some (JBool True)"

definition is_long_running :: "ui_tool \<Rightarrow> bool" where
  "is_long_running t \<longleftrightarrow> (\<exists>n \<in> set_option (ut_name t). n \<in> set LONG_RUNNING_TOOLS)"

definition expire_tool :: "string list option \<Rightarrow> ui_tool \<Rightarrow> ui_tool" where
  "expire_tool inFlight t =
     (if ut_status t \<noteq> Running then t
      else if waits_for_user t then t
      else if is_long_running t then
        (if inFlight = None \<or> (\<exists>ids \<in> set_option inFlight. \<exists>i \<in> set_option (ut_id t). i \<in> set ids) then t
         else t\<lparr>ut_status := Failed,
           ut_details := Some (spread_details (ut_details t) [(''reason'', JStr ''subagent_orphaned''), (''interrupted'', JBool True)])\<rparr>)
      else t\<lparr>ut_status := Failed,
        ut_details := Some (spread_details (ut_details t)
          [(''reason'', JStr ''sidecar_restarted''), (''exitCode'', JNum ''-1''), (''interrupted'', JBool False)])\<rparr>)"

fun map_tools :: "(ui_tool \<Rightarrow> ui_tool) \<Rightarrow> ui_message \<Rightarrow> ui_message" where
  "map_tools f (AssistantMsg a) = AssistantMsg (a\<lparr>as_tools := map f (as_tools a)\<rparr>)"
| "map_tools f m = m"

definition expireUnresolvedToolCalls :: "ui_message list \<Rightarrow> string list option \<Rightarrow> ui_message list" where
  "expireUnresolvedToolCalls messages inFlight = map (map_tools (expire_tool inFlight)) messages"

definition historyToUiMessages ::
  "(string \<Rightarrow> int option) \<Rightarrow> int \<Rightarrow> chat_entry list option \<Rightarrow> string list option \<Rightarrow> ui_message list" where
  "historyToUiMessages date now entries inFlight =
     expireUnresolvedToolCalls (fst (foldl (history_step date now) ([], []) (or_else entries []))) inFlight"

text \<open>Calls that wait carry an identifier.\<close>

definition findPendingAskUserIds :: "ui_message list \<Rightarrow> string list" where
  "findPendingAskUserIds messages =
     (if messages = [] then [] else List.map_filter ut_id (filter waits_for_user (tools_of (last messages))))"

section \<open>Turns\<close>

definition isLastInTurn :: "ui_message list \<Rightarrow> nat \<Rightarrow> bool" where
  "isLastInTurn messages index =
     (case at messages index of
        None \<Rightarrow> False
      | Some (SystemMsg _) \<Rightarrow> False
      | Some (ToolMsg _) \<Rightarrow> False
      | Some (UserMsg _) \<Rightarrow> True
      | Some (AssistantMsg _) \<Rightarrow> (case at messages (Suc index) of None \<Rightarrow> True | Some n \<Rightarrow> is_user n))"

definition isTurnInProgress :: "ui_message list \<Rightarrow> nat \<Rightarrow> bool \<Rightarrow> bool" where
  "isTurnInProgress messages index sessionBusy =
     (case at messages index of
        Some (AssistantMsg a) \<Rightarrow>
          if (\<exists>t \<in> set (as_tools a). ut_status t = Running \<or> waits_for_user t) then True
          else sessionBusy \<and> \<not> (\<exists>n \<in> set (drop (Suc index) messages). is_user n)
      | _ \<Rightarrow> False)"

fun turn_start_from :: "ui_message list \<Rightarrow> nat \<Rightarrow> nat" where
  "turn_start_from messages 0 = 0"
| "turn_start_from messages (Suc i) =
     (case at messages (Suc i) of
        Some m \<Rightarrow> if is_user m then Suc i else turn_start_from messages i
      | None \<Rightarrow> turn_start_from messages i)"

definition turnStartAtOrBefore :: "ui_message list \<Rightarrow> nat \<Rightarrow> nat" where
  "turnStartAtOrBefore messages target = turn_start_from messages (min target (length messages - 1))"

section \<open>Child agents\<close>

datatype subagent_state = BgRunning | BgCompleted | BgError | BgAborted

datatype subagent_status = SubRunning | SubBackground | SubOk | SubError | SubDetached | SubAborted

record subagent_entry =
  sb_subSessionId :: "string option"
  sb_agentType :: string
  sb_description :: string
  sb_prompt :: string
  sb_status :: subagent_status
  sb_firstToolCallId :: string

definition readString :: "js option \<Rightarrow> string \<Rightarrow> string" where
  "readString source key =
     (case source of Some v \<Rightarrow> if is_object v then or_else (opt_text (js_prop v key)) [] else [] | None \<Rightarrow> [])"

fun status_of_tool :: "tool_status \<Rightarrow> subagent_status" where
  "status_of_tool Running = SubRunning"
| "status_of_tool Finished = SubOk"
| "status_of_tool Failed = SubError"

definition backgroundStatus :: "string \<Rightarrow> (string, subagent_state) js_map \<Rightarrow> tool_status \<Rightarrow> subagent_status" where
  "backgroundStatus toolCallId background fallback =
     (case jm_get background toolCallId of
        Some BgRunning \<Rightarrow> SubBackground
      | Some BgCompleted \<Rightarrow> SubOk
      | Some BgError \<Rightarrow> SubError
      | Some BgAborted \<Rightarrow> SubAborted
      | None \<Rightarrow> status_of_tool fallback)"

definition text_or :: "string \<Rightarrow> string \<Rightarrow> string" where
  "text_or a b = (if a = [] then b else a)"

text \<open>\<^const>\<open>None\<close> also stands for a call without an identifier, which throws and is skipped.\<close>

definition entryFromTool :: "ui_tool \<Rightarrow> (string, subagent_state) js_map \<Rightarrow> subagent_entry option" where
  "entryFromTool tool background =
     (case ut_id tool of
        None \<Rightarrow> None
      | Some tid \<Rightarrow>
          if \<not> is_agent_tool tool then None
          else
            let sub = readString (ut_details tool) ''subSessionId'' in
            Some \<lparr>sb_subSessionId = (if sub = [] then None else Some sub),
              sb_agentType = text_or (readString (ut_details tool) ''agentType'')
                (text_or (readString (ut_args tool) ''subagent_type'') ''agent''),
              sb_description = readString (ut_args tool) ''description'',
              sb_prompt = readString (ut_args tool) ''prompt'',
              sb_status = (if sub = [] then SubDetached
                else if readString (ut_details tool) ''status'' = ''aborted'' then SubAborted
                else backgroundStatus tid background (ut_status tool)),
              sb_firstToolCallId = tid\<rparr>)"

text \<open>\<open>indexBySubSessionId\<close> maps a child to the place of its entry.\<close>

definition add_subagent ::
  "subagent_entry list \<times> (string, nat) js_map \<Rightarrow> subagent_entry \<Rightarrow> subagent_entry list \<times> (string, nat) js_map" where
  "add_subagent acc e =
     (case acc of (out, idx) \<Rightarrow>
        (case sb_subSessionId e of
           None \<Rightarrow> (out @ [e], idx)
         | Some sub \<Rightarrow>
             (case jm_get idx sub of
                None \<Rightarrow> (out @ [e], jm_set idx sub (length out))
              | Some i \<Rightarrow> (case at out i of
                    None \<Rightarrow> acc
                  | Some x \<Rightarrow> (out[i := x\<lparr>sb_status := sb_status e\<rparr>], idx)))))"

definition subagent_calls :: "ui_message list \<Rightarrow> (string, subagent_state) js_map \<Rightarrow> subagent_entry list" where
  "subagent_calls messages background =
     List.map_filter (\<lambda>t. entryFromTool t background) (concat (map tools_of messages))"

definition deriveSubagents :: "ui_message list \<Rightarrow> (string, subagent_state) js_map \<Rightarrow> subagent_entry list" where
  "deriveSubagents messages background = fst (foldl add_subagent ([], []) (subagent_calls messages background))"

definition filterSubagents :: "subagent_entry list \<Rightarrow> string \<Rightarrow> subagent_entry list" where
  "filterSubagents entries query =
     (let needle = toLowerCase (trim query) in
      if needle = [] then entries
      else filter (\<lambda>e. includes_str (toLowerCase (sb_agentType e)) needle \<or> includes_str (toLowerCase (sb_description e)) needle) entries)"

datatype dot_state = DotNone | DotIdle | DotActive

definition is_live :: "subagent_entry \<Rightarrow> bool" where
  "is_live e \<longleftrightarrow> sb_status e = SubRunning \<or> sb_status e = SubBackground"

definition subagentDotState :: "subagent_entry list \<Rightarrow> dot_state" where
  "subagentDotState entries =
     (if entries = [] then DotNone else if list_ex is_live entries then DotActive else DotIdle)"

fun first_new_live :: "string list \<Rightarrow> subagent_entry list \<Rightarrow> string option" where
  "first_new_live prevIds [] = None"
| "first_new_live prevIds (e # es) =
     (case sb_subSessionId e of
        None \<Rightarrow> first_new_live prevIds es
      | Some sub \<Rightarrow> if is_live e \<and> sub \<notin> set prevIds then Some sub else first_new_live prevIds es)"

definition shouldAutoOpen :: "string list \<Rightarrow> subagent_entry list \<Rightarrow> bool \<Rightarrow> string option" where
  "shouldAutoOpen prevIds nxt alreadyOpened = (if alreadyOpened then None else first_new_live prevIds nxt)"

definition shouldAutoOpenTasks :: "string option \<Rightarrow> string option \<Rightarrow> bool" where
  "shouldAutoOpenTasks prevActive nextActive \<longleftrightarrow> nextActive \<noteq> None \<and> nextActive \<noteq> prevActive"

section \<open>Updates of rows\<close>

named_theorems chat_rows \<open>what an update of rows or tools keeps\<close>

lemma update_first_none: "\<forall>x \<in> set xs. \<not> p x \<Longrightarrow> update_first p f xs = xs"
  by (induction xs) auto

lemma length_update_first [simp, chat_rows]: "length (update_first p f xs) = length xs"
  by (induction xs) auto

lemma update_first_append:
  "update_first p f (xs @ ys) = (if \<exists>x \<in> set xs. p x then update_first p f xs @ ys else xs @ update_first p f ys)"
  by (induction xs) auto

lemma set_update_first: "set (update_first p f xs) \<subseteq> set xs \<union> f ` {x \<in> set xs. p x}"
  by (induction xs) auto

lemma update_first_Ex: "\<exists>x \<in> set xs. p x \<Longrightarrow> \<exists>x \<in> set xs. p x \<and> f x \<in> set (update_first p f xs)"
  by (induction xs) auto

lemma last_assistant_append [simp]:
  "findLastAssistant (xs @ ys) = (case findLastAssistant ys of Some a \<Rightarrow> Some a | None \<Rightarrow> findLastAssistant xs)"
  by (induction xs) (auto split: option.splits)

lemma last_assistant_in: "findLastAssistant ms = Some a \<Longrightarrow> AssistantMsg a \<in> set ms"
  by (induction ms) (auto split: option.splits ui_message.splits)

lemma length_set_last_assistant [simp, chat_rows]: "length (set_last_assistant b ms) = length ms"
  by (induction ms) (auto split: ui_message.splits)

lemma find_set_last_assistant:
  "findLastAssistant ms \<noteq> None \<Longrightarrow> findLastAssistant (set_last_assistant b ms) = Some b"
  by (induction ms) (auto split: ui_message.splits option.splits)

lemma set_last_assistant_same: "findLastAssistant ms = Some a \<Longrightarrow> set_last_assistant a ms = ms"
  by (induction ms) (auto split: ui_message.splits option.splits)

lemma set_set_last_assistant: "set (set_last_assistant b ms) \<subseteq> insert (AssistantMsg b) (set ms)"
  by (induction ms) (auto split: ui_message.splits)

lemma tools_of_map_tools [simp, chat_rows]: "tools_of (map_tools f m) = map f (tools_of m)"
  by (cases m) simp_all

lemma ui_id_map_tools [simp, chat_rows]: "ui_id (map_tools f m) = ui_id m"
  by (cases m) simp_all

section \<open>A reopened history\<close>

text \<open>A spinner is shown for a call that waits for the user, and for a child agent that is alive
  as far as anybody knows.\<close>

definition may_spin :: "string list option \<Rightarrow> ui_tool \<Rightarrow> bool" where
  "may_spin inFlight t \<longleftrightarrow> waits_for_user t \<or>
     (is_long_running t \<and> (case inFlight of None \<Rightarrow> True | Some ids \<Rightarrow> (\<exists>i \<in> set ids. ut_id t = Some i)))"

lemma expired_may_spin: "ut_status (expire_tool inFlight t) = Running \<Longrightarrow> may_spin inFlight (expire_tool inFlight t)"
  by (cases inFlight; cases "ut_id t") (auto simp: expire_tool_def may_spin_def split: if_splits)

lemma expire_keeps [simp]:
  "ut_id (expire_tool inFlight t) = ut_id t" "ut_name (expire_tool inFlight t) = ut_name t"
  by (simp_all add: expire_tool_def)

text \<open>A reopened conversation shows no spinner that nothing will ever stop.\<close>

lemma reopened_spinners_alive:
  "\<forall>m \<in> set (historyToUiMessages date now entries inFlight). \<forall>t \<in> set (tools_of m).
     ut_status t = Running \<longrightarrow> may_spin inFlight t"
  by (auto simp: historyToUiMessages_def expireUnresolvedToolCalls_def dest: expired_may_spin)

section \<open>The list of child agents\<close>

text \<open>The list without the index: the first call of every child, with the status of its last one.\<close>

definition calls_of_child :: "string \<Rightarrow> subagent_entry list \<Rightarrow> subagent_entry list" where
  "calls_of_child sub calls = filter (\<lambda>e. sb_subSessionId e = Some sub) calls"

definition with_last_status :: "subagent_entry list \<Rightarrow> subagent_entry \<Rightarrow> subagent_entry" where
  "with_last_status calls e =
     (case sb_subSessionId e of
        None \<Rightarrow> e
      | Some sub \<Rightarrow> e\<lparr>sb_status := sb_status (last (calls_of_child sub calls))\<rparr>)"

definition child_seen :: "subagent_entry list \<Rightarrow> subagent_entry \<Rightarrow> bool" where
  "child_seen es e \<longleftrightarrow> sb_subSessionId e \<noteq> None \<and> sb_subSessionId e \<in> sb_subSessionId ` set es"

definition first_calls :: "subagent_entry list \<Rightarrow> subagent_entry list" where
  "first_calls calls = foldl (\<lambda>acc e. if child_seen acc e then acc else acc @ [e]) [] calls"

definition subagent_panel :: "subagent_entry list \<Rightarrow> subagent_entry list" where
  "subagent_panel calls = map (with_last_status calls) (first_calls calls)"

lemma first_calls_snoc:
  "first_calls (calls @ [e]) = (if child_seen (first_calls calls) e then first_calls calls else first_calls calls @ [e])"
  by (simp add: first_calls_def)

lemma first_calls_subs: "sb_subSessionId ` set (first_calls calls) = sb_subSessionId ` set calls"
  by (induction calls rule: rev_induct) (auto simp: first_calls_snoc child_seen_def first_calls_def)

lemma first_calls_subset: "set (first_calls calls) \<subseteq> set calls"
  by (induction calls rule: rev_induct) (auto simp: first_calls_snoc first_calls_def)

definition child_ids :: "subagent_entry list \<Rightarrow> string list" where
  "child_ids es = List.map_filter sb_subSessionId es"

lemma child_ids_append [simp]: "child_ids (xs @ ys) = child_ids xs @ child_ids ys"
  by (simp add: child_ids_def map_filter_def)

lemma child_ids_single: "child_ids [e] = (case sb_subSessionId e of None \<Rightarrow> [] | Some s \<Rightarrow> [s])"
  by (simp add: child_ids_def map_filter_simps split: option.splits)

lemma set_child_ids: "s \<in> set (child_ids es) \<longleftrightarrow> Some s \<in> sb_subSessionId ` set es"
  by (auto simp: child_ids_def map_filter_def image_iff) (metis (mono_tags) image_eqI option.distinct(1) option.sel)+

lemma first_calls_distinct: "distinct (child_ids (first_calls calls))"
proof (induction calls rule: rev_induct)
  case Nil
  then show ?case by (simp add: first_calls_def child_ids_def map_filter_simps)
next
  case (snoc e calls)
  then show ?case
    by (cases "sb_subSessionId e") (auto simp: first_calls_snoc child_seen_def child_ids_single set_child_ids)
qed

lemma child_index_unique:
  "distinct (child_ids xs) \<Longrightarrow> i < length xs \<Longrightarrow> j < length xs \<Longrightarrow>
   sb_subSessionId (xs ! i) = Some s \<Longrightarrow> sb_subSessionId (xs ! j) = Some s \<Longrightarrow> i = j"
proof (induction xs arbitrary: i j)
  case (Cons x xs)
  have split: "child_ids (x # xs) = child_ids [x] @ child_ids xs"
    using child_ids_append[of "[x]" xs] by simp
  have in_tail: "s \<in> set (child_ids xs)" if "k < length xs" "sb_subSessionId (xs ! k) = Some s" for k
    using that by (metis image_eqI nth_mem set_child_ids)
  show ?case
    using Cons.prems Cons.IH in_tail unfolding split
    by (cases i; cases j) (auto simp: child_ids_single)
qed simp

lemma with_last_status_snoc:
  "with_last_status (calls @ [e]) x =
     (if sb_subSessionId x = sb_subSessionId e \<and> sb_subSessionId e \<noteq> None then x\<lparr>sb_status := sb_status e\<rparr>
      else with_last_status calls x)"
  by (cases "sb_subSessionId x") (auto simp: with_last_status_def calls_of_child_def)

lemma sub_with_last_status [simp]: "sb_subSessionId (with_last_status calls x) = sb_subSessionId x"
  by (simp add: with_last_status_def split: option.split)

lemma update_with_last_status [simp]: "(with_last_status calls x)\<lparr>sb_status := v\<rparr> = x\<lparr>sb_status := v\<rparr>"
  by (simp add: with_last_status_def split: option.split)

lemma child_ids_cong: "map sb_subSessionId xs = map sb_subSessionId ys \<Longrightarrow> child_ids xs = child_ids ys"
proof -
  have "child_ids es = map the (filter (\<lambda>x. x \<noteq> None) (map sb_subSessionId es))" for es
    by (simp add: child_ids_def map_filter_def filter_map comp_def)
  then show "map sb_subSessionId xs = map sb_subSessionId ys \<Longrightarrow> child_ids xs = child_ids ys" by simp
qed

lemma sub_panel: "map sb_subSessionId (subagent_panel calls) = map sb_subSessionId (first_calls calls)"
  by (simp add: subagent_panel_def)

text \<open>The index knows the place of every child.\<close>

definition index_ok :: "(string, nat) js_map \<Rightarrow> subagent_entry list \<Rightarrow> bool" where
  "index_ok idx out \<longleftrightarrow>
     (\<forall>s. (jm_get idx s = None \<longleftrightarrow> Some s \<notin> sb_subSessionId ` set out) \<and>
       (\<forall>i. jm_get idx s = Some i \<longrightarrow> i < length out \<and> sb_subSessionId (out ! i) = Some s))"

lemma index_ok_subs:
  "map sb_subSessionId out = map sb_subSessionId out' \<Longrightarrow> index_ok idx out = index_ok idx out'"
  unfolding index_ok_def by (metis length_map list.set_map nth_map)

lemma index_ok_get: "index_ok idx out \<Longrightarrow> jm_get idx s = Some i \<Longrightarrow> i < length out \<and> sb_subSessionId (out ! i) = Some s"
  unfolding index_ok_def by blast

lemma index_ok_none: "index_ok idx out \<Longrightarrow> jm_get idx s = None \<longleftrightarrow> Some s \<notin> sb_subSessionId ` set out"
  unfolding index_ok_def by blast

lemma index_okI:
  "(\<And>s. jm_get idx s = None \<longleftrightarrow> Some s \<notin> sb_subSessionId ` set out) \<Longrightarrow>
   (\<And>s i. jm_get idx s = Some i \<Longrightarrow> i < length out \<and> sb_subSessionId (out ! i) = Some s) \<Longrightarrow> index_ok idx out"
  unfolding index_ok_def by blast

lemma index_ok_append_none: "sb_subSessionId e = None \<Longrightarrow> index_ok idx out \<Longrightarrow> index_ok idx (out @ [e])"
  by (rule index_okI) (auto simp: index_ok_none nth_append dest: index_ok_get)

lemma index_ok_append_new:
  "sb_subSessionId e = Some s \<Longrightarrow> index_ok idx out \<Longrightarrow> index_ok (jm_set idx s (length out)) (out @ [e])"
  by (rule index_okI) (auto simp: index_ok_none nth_append dest: index_ok_get split: if_splits)

lemma panel_update:
  assumes i: "i < length (first_calls calls)" "sb_subSessionId (first_calls calls ! i) = Some s"
    and e: "sb_subSessionId e = Some s"
  shows "map (with_last_status (calls @ [e])) (first_calls calls) =
    (subagent_panel calls)[i := (subagent_panel calls ! i)\<lparr>sb_status := sb_status e\<rparr>]"
proof (rule nth_equalityI)
  fix j assume "j < length (map (with_last_status (calls @ [e])) (first_calls calls))"
  then have j: "j < length (first_calls calls)" by simp
  have "sb_subSessionId (first_calls calls ! j) = Some s \<longleftrightarrow> j = i"
    using child_index_unique[OF first_calls_distinct j i(1) _ i(2)] i(2) by blast
  then show "map (with_last_status (calls @ [e])) (first_calls calls) ! j =
    (subagent_panel calls)[i := (subagent_panel calls ! i)\<lparr>sb_status := sb_status e\<rparr>] ! j"
    using i j e
    by (cases "j = i") (auto simp: subagent_panel_def with_last_status_snoc)
qed (simp add: subagent_panel_def)

lemma panel_snoc_other:
  assumes "sb_subSessionId e = None \<or> sb_subSessionId e \<notin> sb_subSessionId ` set (first_calls calls)"
  shows "subagent_panel (calls @ [e]) = subagent_panel calls @ [e]"
proof -
  have "with_last_status (calls @ [e]) e = e"
    by (cases "sb_subSessionId e") (simp_all add: with_last_status_def calls_of_child_def)
  moreover have "map (with_last_status (calls @ [e])) (first_calls calls) = map (with_last_status calls) (first_calls calls)"
    using assms by (intro map_cong refl) (metis with_last_status_snoc image_eqI)
  ultimately show ?thesis
    using assms by (auto simp: subagent_panel_def first_calls_snoc child_seen_def)
qed

lemma derive_panel:
  "\<exists>idx. foldl add_subagent ([], []) calls = (subagent_panel calls, idx) \<and> index_ok idx (first_calls calls)"
proof (induction calls rule: rev_induct)
  case Nil
  then show ?case by (simp add: subagent_panel_def first_calls_def index_ok_def)
next
  case (snoc e calls)
  then obtain idx where fold: "foldl add_subagent ([], []) calls = (subagent_panel calls, idx)"
    and ok: "index_ok idx (first_calls calls)" by blast
  have step: "foldl add_subagent ([], []) (calls @ [e]) = add_subagent (subagent_panel calls, idx) e"
    using fold by simp
  have len: "length (subagent_panel calls) = length (first_calls calls)" by (simp add: subagent_panel_def)
  show ?case
  proof (cases "sb_subSessionId e")
    case None
    then show ?thesis
      unfolding step using ok
      by (simp add: add_subagent_def panel_snoc_other first_calls_snoc child_seen_def index_ok_append_none)
  next
    case (Some s)
    note sub = Some
    show ?thesis
    proof (cases "jm_get idx s")
      case None
      then have new: "Some s \<notin> sb_subSessionId ` set (first_calls calls)"
        using index_ok_none[OF ok] by blast
      show ?thesis
        unfolding step using None sub new index_ok_append_new[OF sub ok]
        by (simp add: add_subagent_def panel_snoc_other first_calls_snoc child_seen_def len)
    next
      case (Some i)
      then have i: "i < length (first_calls calls)" "sb_subSessionId (first_calls calls ! i) = Some s"
        using index_ok_get[OF ok] by blast+
      then have "Some s \<in> sb_subSessionId ` set (first_calls calls)"
        by (metis image_eqI nth_mem)
      then have seen: "child_seen (first_calls calls) e"
        using sub by (simp add: child_seen_def)
      then have "subagent_panel (calls @ [e]) =
          (subagent_panel calls)[i := (subagent_panel calls ! i)\<lparr>sb_status := sb_status e\<rparr>]"
        using panel_update[OF i sub] by (simp add: subagent_panel_def first_calls_snoc)
      then show ?thesis
        unfolding step using ok Some i(1) sub seen
        by (simp add: add_subagent_def at_def len first_calls_snoc)
    qed
  qed
qed

text \<open>The list of child agents, kept with an index in one pass, is the first call of every
  child with the status of its last call, calls without a child included; no child is listed twice.\<close>

theorem derive_is_panel:
  "deriveSubagents messages background = subagent_panel (subagent_calls messages background) \<and>
   distinct (child_ids (deriveSubagents messages background))"
proof -
  let ?calls = "subagent_calls messages background"
  have eq: "deriveSubagents messages background = subagent_panel ?calls"
    using derive_panel[of ?calls] by (auto simp: deriveSubagents_def)
  then show ?thesis
    using first_calls_distinct[of ?calls] child_ids_cong[OF sub_panel[of ?calls]] by simp
qed

end
