(* ===== verification/ChatEvents.thy ===== *)
theory ChatEvents
  imports ChatUi
begin

text \<open>
  How an event of a session changes the rows on screen:
  \<open>clients/taco-desktop/src/lib/chat/applyEventToMessages.ts\<close>, and the patches of rows in
  \<open>workspaceMessagePatches.ts\<close>. An event is a constructor of \<open>session_event\<close>, with the fields the
  handlers read; the wall clock is an argument.
\<close>

section \<open>Events\<close>

record sub_event =
  se_type :: string
  se_contentIndex :: "nat option"
  se_delta :: "string option"
  se_content :: "string option"
  se_partial :: "js option"

datatype session_event =
    MessageStart "js option"
  | MessageUpdate "js option" "sub_event option"
  | MessageEnd "js option"
  | ToolStart "string option" "string option" "js option"
  | ToolUpdate "string option" "js option"
  | ToolEnd "string option" "string option" "js option" bool
  | TurnEnd
  | RunStart
  | RunEnd
  | QueueUpdate "js option"
  | OperationAbort

definition is_role :: "string \<Rightarrow> js option \<Rightarrow> bool" where
  "is_role r m \<longleftrightarrow> opt_prop m ''role'' = Some (JStr r)"

text \<open>\<open>String(m.timestamp ?? d)\<close>.\<close>

definition stamp_text :: "js option \<Rightarrow> string \<Rightarrow> string" where
  "stamp_text m d = js_text (opt_nullish (opt_prop m ''timestamp'') (JStr d))"

definition live_asst :: "string \<Rightarrow> string" where
  "live_asst ts = ''live-asst-'' @ ts"

fun assistant_with :: "string \<Rightarrow> ui_message \<Rightarrow> bool" where
  "assistant_with i (AssistantMsg a) \<longleftrightarrow> as_id a = i"
| "assistant_with i _ \<longleftrightarrow> False"

fun on_assistant :: "(assistant_row \<Rightarrow> assistant_row) \<Rightarrow> ui_message \<Rightarrow> ui_message" where
  "on_assistant f (AssistantMsg a) = AssistantMsg (f a)"
| "on_assistant f m = m"

section \<open>Streaming\<close>

definition empty_bubble :: "string \<Rightarrow> int \<Rightarrow> assistant_row" where
  "empty_bubble i now = \<lparr>as_id = i, as_text = [], as_ts = now, as_tools = [], as_thinking = []\<rparr>"

definition handleMessageStart :: "ui_message list \<Rightarrow> js option \<Rightarrow> int \<Rightarrow> ui_message list" where
  "handleMessageStart messages m now =
     (let i = live_asst (stamp_text m (int_text now)) in
      if \<not> is_role ''assistant'' m then messages
      else if i \<in> ui_id ` set messages then messages
      else messages @ [AssistantMsg (empty_bubble i now)])"

text \<open>\<open>xs[i] = x\<close> on an array; \<^const>\<open>None\<close> fills up to a new index.\<close>

definition set_sparse :: "nat \<Rightarrow> 'a \<Rightarrow> 'a option list \<Rightarrow> 'a option list" where
  "set_sparse i x xs =
     (if i < length xs then xs[i := Some x] else xs @ replicate (i - length xs) None @ [Some x])"

definition sparse_at :: "'a option list \<Rightarrow> nat \<Rightarrow> 'a option" where
  "sparse_at xs i = (if i < length xs then xs ! i else None)"

definition redact :: "ui_thinking \<Rightarrow> ui_thinking" where
  "redact b = b\<lparr>uk_redacted := True, uk_thinking := []\<rparr>"

definition is_redacted_part :: "js option \<Rightarrow> bool" where
  "is_redacted_part c \<longleftrightarrow> opt_prop c ''type'' = Some (JStr ''thinking'') \<and> opt_truthy (opt_prop c ''redacted'')"

definition end_thinking :: "sub_event \<Rightarrow> nat \<Rightarrow> int \<Rightarrow> ui_thinking \<Rightarrow> ui_thinking" where
  "end_thinking sub idx now b =
     (let ended = b\<lparr>uk_endedAt := Some now, uk_completedCount := Some (or_else (uk_completedCount b) 0 + 1),
            uk_thinking := text_or (or_else (se_content sub) []) (uk_thinking b)\<rparr>
      in if is_redacted_part (at (opt_list (opt_prop (se_partial sub) ''content'')) idx) then redact ended else ended)"

definition applyAssistantSubEvent :: "sub_event \<Rightarrow> bool \<Rightarrow> int \<Rightarrow> assistant_row \<Rightarrow> assistant_row" where
  "applyAssistantSubEvent sub suppressedThinking now a =
     (let idx = or_else (se_contentIndex sub) 0; blocks = as_thinking a in
      if se_type sub = ''thinking_start'' then
        (if suppressedThinking then a
         else a\<lparr>as_thinking := set_sparse idx \<lparr>uk_thinking = [], uk_startedAt = Some now, uk_endedAt = None,
           uk_isHistorical = False, uk_redacted = False, uk_completedCount = None\<rparr> blocks\<rparr>)
      else if se_type sub = ''thinking_delta'' then
        (case sparse_at blocks idx of
           None \<Rightarrow> a
         | Some b \<Rightarrow>
             if suppressedThinking \<or> uk_redacted b then a
             else a\<lparr>as_thinking := blocks[idx := Some (b\<lparr>uk_thinking := uk_thinking b @ or_else (se_delta sub) []\<rparr>)]\<rparr>)
      else if se_type sub = ''thinking_end'' then
        (case sparse_at blocks idx of
           None \<Rightarrow> a
         | Some b \<Rightarrow> if suppressedThinking then a else a\<lparr>as_thinking := blocks[idx := Some (end_thinking sub idx now b)]\<rparr>)
      else if se_type sub = ''text_delta'' then a\<lparr>as_text := as_text a @ or_else (se_delta sub) []\<rparr>
      else a)"

definition handleMessageUpdate ::
  "ui_message list \<Rightarrow> js option \<Rightarrow> sub_event option \<Rightarrow> bool \<Rightarrow> int \<Rightarrow> ui_message list" where
  "handleMessageUpdate messages m sub suppressedThinking now =
     (case sub of
        None \<Rightarrow> messages
      | Some s \<Rightarrow>
          if \<not> is_role ''assistant'' m then messages
          else update_first (assistant_with (live_asst (stamp_text m [])))
            (on_assistant (applyAssistantSubEvent s suppressedThinking now)) messages)"

section \<open>The end of a message\<close>

text \<open>The text of the number of images and of the first one's data.\<close>

definition image_sig :: "image_part list \<Rightarrow> string" where
  "image_sig images =
     (case images of
        [] \<Rightarrow> []
      | i # _ \<Rightarrow> nat_text (length images) @ '':'' @ take 16 (im_data i))"

definition files_sig :: "attachment list \<Rightarrow> string" where
  "files_sig files = join [CHR 0x00] (map at_name files)"

fun optimistic_match :: "string \<Rightarrow> image_part list \<Rightarrow> attachment list \<Rightarrow> ui_message \<Rightarrow> bool" where
  "optimistic_match text images files (UserMsg u) \<longleftrightarrow>
     startsWith (us_id u) ''optimistic-user-'' \<and> us_text u = text \<and>
     files_sig (or_else (us_attachments u) []) = files_sig files \<and>
     image_sig (or_else (us_images u) []) = image_sig images"
| "optimistic_match text images files _ \<longleftrightarrow> False"

definition user_end :: "ui_message list \<Rightarrow> js option \<Rightarrow> int \<Rightarrow> ui_message list" where
  "user_end messages m now =
     (let i = ''live-user-'' @ stamp_text m (int_text now);
          images = extractImageParts (opt_prop m ''content'');
          files = extractAttachments m;
          text = textFromMessage m;
          row = UserMsg \<lparr>us_id = i, us_text = text, us_ts = now, us_images = optional_list images,
            us_attachments = optional_list files\<rparr>
      in if i \<in> ui_id ` set messages then messages
         else if \<exists>x \<in> set messages. optimistic_match text images files x
         then update_first (optimistic_match text images files) (\<lambda>_. row) messages
         else messages @ [row])"

definition settleAssistant :: "ui_message list \<Rightarrow> assistant_row \<Rightarrow> js option \<Rightarrow> int \<Rightarrow> ui_message list" where
  "settleAssistant before bubble m now =
     (let failure = assistantFailureText m;
          failed = (failure \<noteq> None \<or> opt_prop m ''stopReason'' = Some (JStr ''aborted''));
          placed = (if failed \<and> empty_row bubble then before else before @ [AssistantMsg bubble])
      in (case failure of None \<Rightarrow> placed | Some f \<Rightarrow> appendAssistantError placed (as_id bubble) f now))"

text \<open>The blocks whose part of the final content is redacted.\<close>

fun redact_blocks :: "js list \<Rightarrow> ui_thinking option list \<Rightarrow> ui_thinking option list" where
  "redact_blocks (c # cs) (b # bs) =
     (if is_redacted_part (Some c) then map_option redact b else b) # redact_blocks cs bs"
| "redact_blocks _ bs = bs"

definition final_row :: "js option \<Rightarrow> assistant_row \<Rightarrow> assistant_row" where
  "final_row m a = a\<lparr>as_text := textFromMessage m,
     as_thinking := redact_blocks (opt_list (opt_prop m ''content'')) (as_thinking a)\<rparr>"

definition assistant_end :: "ui_message list \<Rightarrow> js option \<Rightarrow> int \<Rightarrow> ui_message list" where
  "assistant_end messages m now =
     (let i = live_asst (stamp_text m ''no-ts'') in
      case find_index (assistant_with i) messages of
        None \<Rightarrow>
          (case extractAssistantTextAndThinking m of
             (text, thinking) \<Rightarrow> settleAssistant messages
               ((empty_bubble i now)\<lparr>as_text := text, as_thinking := thinking\<rparr>) m now)
      | Some idx \<Rightarrow>
          (case messages ! idx of
             AssistantMsg a \<Rightarrow> settleAssistant (take idx messages) (final_row m a) m now @ drop (Suc idx) messages
           | _ \<Rightarrow> messages))"

definition handleMessageEnd :: "ui_message list \<Rightarrow> js option \<Rightarrow> int \<Rightarrow> ui_message list" where
  "handleMessageEnd messages m now =
     (if is_role ''user'' m then user_end messages m now
      else if is_role ''assistant'' m then assistant_end messages m now
      else messages)"

section \<open>Tools\<close>

definition upsertTool :: "ui_tool list \<Rightarrow> ui_tool \<Rightarrow> ui_tool list" where
  "upsertTool tools incoming =
     (let same = (\<lambda>t. ut_id t = ut_id incoming) in
      if \<exists>t \<in> set tools. same t
      then update_first same (\<lambda>t. t\<lparr>ut_id := ut_id incoming, ut_name := ut_name incoming, ut_args := ut_args incoming,
        ut_status := ut_status incoming\<rparr>) tools
      else tools @ [incoming])"

definition handleToolStart :: "ui_message list \<Rightarrow> string option \<Rightarrow> string option \<Rightarrow> js option \<Rightarrow> int \<Rightarrow> ui_message list" where
  "handleToolStart messages callId name args now =
     (let tid = or_else callId (int_text now); nm = or_else name ''tool'';
          tool = \<lparr>ut_id = Some tid, ut_name = Some nm, ut_args = args, ut_status = Running, ut_resultText = None, ut_details = None\<rparr>
      in (case findLastAssistant messages of
            Some a \<Rightarrow> set_last_assistant (a\<lparr>as_tools := upsertTool (as_tools a) tool\<rparr>) messages
          | None \<Rightarrow> messages @ [ToolMsg \<lparr>lr_id = ''tool-call-'' @ tid, lr_text = [Started_sign, Ch CHR '' ''] @ plain nm, lr_ts = now\<rparr>]))"

definition has_call :: "string \<Rightarrow> ui_tool \<Rightarrow> bool" where
  "has_call i t \<longleftrightarrow> ut_id t = Some i"

definition update_tool :: "js \<Rightarrow> ui_tool \<Rightarrow> ui_tool" where
  "update_tool partial t = t\<lparr>ut_resultText := Some (stringifyResult (Some partial)),
     ut_details := (if is_object partial then coalesce (js_prop partial ''details'') (ut_details t) else ut_details t)\<rparr>"

definition handleToolUpdate :: "ui_message list \<Rightarrow> string option \<Rightarrow> js option \<Rightarrow> ui_message list" where
  "handleToolUpdate messages callId partialResult =
     (case (findLastAssistant messages, partialResult) of
        (Some a, Some partial) \<Rightarrow>
          set_last_assistant (a\<lparr>as_tools := update_first (has_call (or_else callId [])) (update_tool partial) (as_tools a)\<rparr>) messages
      | _ \<Rightarrow> messages)"

text \<open>The second frame of a question has no questions any more; they are kept from the first.\<close>

definition set_some :: "string \<Rightarrow> js option \<Rightarrow> (string, js) js_map \<Rightarrow> (string, js) js_map" where
  "set_some k v m = (case v of None \<Rightarrow> m | Some x \<Rightarrow> jm_set m k x)"

definition merge_details :: "string \<Rightarrow> js option \<Rightarrow> js option \<Rightarrow> js" where
  "merge_details name old new =
     (let m0 = (case new of Some v \<Rightarrow> if is_object v then js_entries v else [] | None \<Rightarrow> []);
          m1 = set_some ''questions'' (opt_prop old ''questions'') m0
      in JObj (if name = ''planExit'' \<and> (jm_get m1 ''planContent'' = None \<or> jm_get m1 ''planContent'' = Some (JStr []))
               then set_some ''planContent'' (opt_prop old ''planContent'') m1 else m1))"

definition end_details :: "string \<Rightarrow> js option \<Rightarrow> js option \<Rightarrow> js option" where
  "end_details name old new =
     (if name = ''askUser'' \<or> name = ''planExit'' then Some (merge_details name old new) else new)"

definition end_tool :: "string \<Rightarrow> js option \<Rightarrow> bool \<Rightarrow> ui_tool \<Rightarrow> ui_tool" where
  "end_tool name res isError t = t\<lparr>ut_status := (if isError then Failed else Finished),
     ut_resultText := Some (stringifyResult res),
     ut_details := end_details name (ut_details t) (opt_prop res ''details'')\<rparr>"

definition handleToolEnd :: "ui_message list \<Rightarrow> string option \<Rightarrow> string option \<Rightarrow> js option \<Rightarrow> bool \<Rightarrow> int \<Rightarrow> ui_message list" where
  "handleToolEnd messages callId toolName res isError now =
     (let tid = or_else callId []; name = or_else toolName ''tool'';
          orphan = messages @ [ToolMsg \<lparr>lr_id = ''tool-result-'' @ tid,
            lr_text = toolResultLine name isError (stringifyResult res), lr_ts = now\<rparr>]
      in (case findLastAssistant messages of
            None \<Rightarrow> orphan
          | Some a \<Rightarrow>
              if \<exists>t \<in> set (as_tools a). has_call tid t
              then set_last_assistant (a\<lparr>as_tools := update_first (has_call tid) (end_tool name res isError) (as_tools a)\<rparr>) messages
              else orphan))"

definition applyEventToMessages :: "ui_message list \<Rightarrow> session_event \<Rightarrow> bool \<Rightarrow> int \<Rightarrow> ui_message list" where
  "applyEventToMessages messages ev suppressedThinking now =
     (case ev of
        MessageStart m \<Rightarrow> handleMessageStart messages m now
      | MessageUpdate m sub \<Rightarrow> handleMessageUpdate messages m sub suppressedThinking now
      | MessageEnd m \<Rightarrow> handleMessageEnd messages m now
      | ToolStart callId name args \<Rightarrow> handleToolStart messages callId name args now
      | ToolUpdate callId partial \<Rightarrow> handleToolUpdate messages callId partial
      | ToolEnd callId name res isError \<Rightarrow> handleToolEnd messages callId name res isError now
      | _ \<Rightarrow> messages)"

section \<open>Patches\<close>

text \<open>The tool of the last assistant row that has it, and the first tool of that row.\<close>

definition owns_tool :: "string \<Rightarrow> ui_message \<Rightarrow> bool" where
  "owns_tool i m \<longleftrightarrow> (\<exists>t \<in> set (tools_of m). has_call i t)"

definition patchToolById :: "ui_message list \<Rightarrow> string \<Rightarrow> (ui_tool \<Rightarrow> ui_tool) \<Rightarrow> ui_message list" where
  "patchToolById messages i patch =
     rev (update_first (owns_tool i)
       (on_assistant (\<lambda>a. a\<lparr>as_tools := update_first (has_call i) patch (as_tools a)\<rparr>)) (rev messages))"

definition mergeToolDetails :: "ui_tool \<Rightarrow> (string, js) js_map \<Rightarrow> ui_tool" where
  "mergeToolDetails t extra = t\<lparr>ut_details := Some (spread_details (ut_details t) extra)\<rparr>"

definition shell_failed :: "ui_tool \<Rightarrow> ui_tool" where
  "shell_failed t =
     (if ut_name t = Some ''shell'' \<and> ut_status t = Running then
        t\<lparr>ut_status := Failed,
          ut_details := Some (spread_details (ut_details t)
            [(''reason'', JStr ''sidecar_restarted''), (''exitCode'', JNum ''-1''), (''interrupted'', JBool False)])\<rparr>
      else t)"

definition markRunningShellToolsFailed :: "ui_message list \<Rightarrow> ui_message list" where
  "markRunningShellToolsFailed messages = map (map_tools shell_failed) messages"

definition backfillSubagentDetails :: "ui_message list \<Rightarrow> string \<Rightarrow> string \<Rightarrow> string \<Rightarrow> ui_message list" where
  "backfillSubagentDetails messages parentToolCallId subSessionId agentType =
     patchToolById messages parentToolCallId (\<lambda>t. mergeToolDetails t
       ((''subSessionId'', JStr subSessionId) # (if agentType = [] then [] else [(''agentType'', JStr agentType)])))"

definition attachAskUserAnswers :: "ui_message list \<Rightarrow> string \<Rightarrow> js \<Rightarrow> ui_message list" where
  "attachAskUserAnswers messages callId answers =
     patchToolById messages callId (\<lambda>t. mergeToolDetails t [(''answers'', answers)])"

definition final_bubble :: "js option \<Rightarrow> string \<Rightarrow> int \<Rightarrow> assistant_row" where
  "final_bubble reply i now =
     (case extractAssistantTextAndThinking reply of
        (text, thinking) \<Rightarrow> (empty_bubble i now)\<lparr>as_text := text, as_thinking := thinking\<rparr>)"

definition mergeAssistantFinal :: "ui_message list \<Rightarrow> js option \<Rightarrow> int \<Rightarrow> ui_message list" where
  "mergeAssistantFinal messages reply now =
     (let errorText = assistantFailureText reply;
          ts = stamp_text reply (int_text now);
          i = ''final-asst-'' @ ts;
          bubble = final_bubble reply i now;
          next = (case find_index (assistant_with (live_asst ts)) messages of
            Some idx \<Rightarrow>
              (case messages ! idx of
                 AssistantMsg live \<Rightarrow>
                   let merged = live\<lparr>as_text := as_text bubble, as_thinking := as_thinking bubble\<rparr> in
                   if errorText \<noteq> None \<and> empty_row merged then take idx messages @ drop (Suc idx) messages
                   else messages[idx := AssistantMsg merged]
               | _ \<Rightarrow> messages)
          | None \<Rightarrow> if errorText = None \<or> \<not> empty_row bubble then messages @ [AssistantMsg bubble] else messages)
      in (case errorText of None \<Rightarrow> next | Some e \<Rightarrow> appendAssistantError next i e now))"

section \<open>Streaming builds one row\<close>

definition has_time :: "js option \<Rightarrow> bool" where
  "has_time m \<longleftrightarrow> (\<exists>t. opt_prop m ''timestamp'' = Some t \<and> t \<noteq> JNull)"

lemma stamp_default: "has_time m \<Longrightarrow> stamp_text m d = stamp_text m d'"
  by (auto simp: has_time_def stamp_text_def opt_nullish_def split: js.split)

lemma stamp_cong: "opt_prop m ''timestamp'' = opt_prop m' ''timestamp'' \<Longrightarrow> stamp_text m d = stamp_text m' d"
  by (simp add: stamp_text_def)

lemma assistant_with_id: "assistant_with i x \<Longrightarrow> ui_id x = i"
  by (cases x) simp_all

lemma find_index_append:
  "\<forall>x \<in> set xs. \<not> p x \<Longrightarrow> p y \<Longrightarrow> find_index p (xs @ y # ys) = Some (length xs)"
  by (induction xs) auto

lemma no_row_with_id: "i \<notin> ui_id ` set messages \<Longrightarrow> \<forall>x \<in> set messages. \<not> assistant_with i x"
  using assistant_with_id by fastforce

lemma update_last_row:
  "i \<notin> ui_id ` set messages \<Longrightarrow> as_id a = i \<Longrightarrow>
   update_first (assistant_with i) (on_assistant f) (messages @ [AssistantMsg a]) = messages @ [AssistantMsg (f a)]"
  using no_row_with_id[of i messages] by (simp add: update_first_append)

lemma sub_event_keeps [simp, chat_rows]:
  "as_id (applyAssistantSubEvent s quiet now a) = as_id a"
  "as_tools (applyAssistantSubEvent s quiet now a) = as_tools a"
  "as_ts (applyAssistantSubEvent s quiet now a) = as_ts a"
  by (simp_all add: applyAssistantSubEvent_def Let_def split: option.split)

definition text_delta :: "sub_event \<Rightarrow> string" where
  "text_delta s = (if se_type s = ''text_delta'' then or_else (se_delta s) [] else [])"

lemma sub_event_text [simp]: "as_text (applyAssistantSubEvent s quiet now a) = as_text a @ text_delta s"
  by (simp add: applyAssistantSubEvent_def text_delta_def Let_def split: option.split)

text \<open>The updates of one message, each with the time it arrives at.\<close>

definition stream_updates :: "js option \<Rightarrow> bool \<Rightarrow> ui_message list \<Rightarrow> (sub_event \<times> int) list \<Rightarrow> ui_message list" where
  "stream_updates m quiet messages subs =
     foldl (\<lambda>ms (s, now). applyEventToMessages ms (MessageUpdate m (Some s)) quiet now) messages subs"

definition streamed_row :: "bool \<Rightarrow> assistant_row \<Rightarrow> (sub_event \<times> int) list \<Rightarrow> assistant_row" where
  "streamed_row quiet a subs = foldl (\<lambda>a (s, now). applyAssistantSubEvent s quiet now a) a subs"

lemma streamed_row_Nil [simp]: "streamed_row quiet a [] = a"
  by (simp add: streamed_row_def)

lemma streamed_row_Cons [simp]:
  "streamed_row quiet a ((s, now) # subs) = streamed_row quiet (applyAssistantSubEvent s quiet now a) subs"
  by (simp add: streamed_row_def)

lemma streamed_row_keeps:
  "as_id (streamed_row quiet a subs) = as_id a \<and> as_tools (streamed_row quiet a subs) = as_tools a \<and>
   as_text (streamed_row quiet a subs) = as_text a @ concat (map (text_delta \<circ> fst) subs)"
  by (induction subs arbitrary: a) auto

lemma stream_one_row:
  assumes "is_role ''assistant'' m" "live_asst (stamp_text m []) \<notin> ui_id ` set messages" "as_id a = live_asst (stamp_text m [])"
  shows "stream_updates m quiet (messages @ [AssistantMsg a]) subs = messages @ [AssistantMsg (streamed_row quiet a subs)]"
  using assms(3)
proof (induction subs arbitrary: a)
  case Nil
  then show ?case by (simp add: stream_updates_def)
next
  case (Cons e subs)
  then show ?case
    using assms(1,2)
    by (cases e) (simp add: stream_updates_def applyEventToMessages_def handleMessageUpdate_def update_last_row)
qed

text \<open>A message that ends without a failure takes the place of the row it was streamed to.\<close>

definition clean_end :: "js option \<Rightarrow> bool" where
  "clean_end m \<longleftrightarrow> assistantFailureText m = None \<and> opt_prop m ''stopReason'' \<noteq> Some (JStr ''aborted'')"

lemma end_of_streamed:
  assumes "is_role ''assistant'' m" "clean_end m" "as_id a = live_asst (stamp_text m ''no-ts'')"
    and "as_id a \<notin> ui_id ` set messages"
  shows "applyEventToMessages (messages @ [AssistantMsg a]) (MessageEnd m) quiet now = messages @ [AssistantMsg (final_row m a)]"
proof -
  have "find_index (assistant_with (as_id a)) (messages @ [AssistantMsg a]) = Some (length messages)"
    using no_row_with_id[OF assms(4)] by (intro find_index_append) auto
  moreover have "\<not> is_role ''user'' m" using assms(1) by (simp add: is_role_def)
  ultimately show ?thesis
    using assms(1,2) unfolding assms(3)
    by (simp add: applyEventToMessages_def handleMessageEnd_def assistant_end_def settleAssistant_def clean_end_def)
qed

lemma start_row:
  "is_role ''assistant'' m \<Longrightarrow> live_asst (stamp_text m (int_text now)) \<notin> ui_id ` set messages \<Longrightarrow>
   applyEventToMessages messages (MessageStart m) quiet now =
     messages @ [AssistantMsg (empty_bubble (live_asst (stamp_text m (int_text now))) now)]"
  by (simp add: applyEventToMessages_def handleMessageStart_def)

text \<open>A message that is streamed is one new row below the others. While it comes in the row
  shows every piece of text that has arrived, in order; when
  the message ends without a failure the row shows the text of the final message.\<close>

lemma streamed_row_ends:
  fixes m fin :: "js option"
  assumes "is_role ''assistant'' m" "is_role ''assistant'' fin" "has_time m" "clean_end fin"
    and same: "opt_prop fin ''timestamp'' = opt_prop m ''timestamp''"
    and fresh: "live_asst (stamp_text m []) \<notin> ui_id ` set messages"
  shows "\<exists>a. stream_updates m quiet (applyEventToMessages messages (MessageStart m) quiet now) subs = messages @ [AssistantMsg a] \<and>
    as_text a = concat (map (text_delta \<circ> fst) subs) \<and>
    (\<exists>b. applyEventToMessages (messages @ [AssistantMsg a]) (MessageEnd fin) quiet later = messages @ [AssistantMsg b] \<and>
      as_text b = textFromMessage fin \<and> as_tools b = [])"
proof -
  let ?i = "live_asst (stamp_text m [])"
  let ?a = "streamed_row quiet (empty_bubble ?i now) subs"
  have stamps: "stamp_text m d = stamp_text m []" "stamp_text fin d = stamp_text m []" for d
    using stamp_default[OF assms(3)] stamp_cong[OF same] by metis+
  have keeps: "as_id ?a = ?i" "as_tools ?a = []" "as_text ?a = concat (map (text_delta \<circ> fst) subs)"
    using streamed_row_keeps[of quiet "empty_bubble ?i now" subs] by (simp_all add: empty_bubble_def)
  have "stream_updates m quiet (applyEventToMessages messages (MessageStart m) quiet now) subs = messages @ [AssistantMsg ?a]"
    using start_row[OF assms(1), of now messages quiet] stream_one_row[OF assms(1) fresh, of "empty_bubble ?i now"] fresh
    unfolding stamps(1)[of "int_text now"] by (simp add: empty_bubble_def)
  moreover have "applyEventToMessages (messages @ [AssistantMsg ?a]) (MessageEnd fin) quiet later =
      messages @ [AssistantMsg (final_row fin ?a)]"
    using assms(2,4) keeps(1) stamps(2) fresh by (intro end_of_streamed) simp_all
  ultimately show ?thesis
    using keeps by (auto simp: final_row_def)
qed

section \<open>A turn seen live and read back\<close>

text \<open>A tool call of a turn with the partial results it reports and its result, the events of the
  session about it, and the entry that is stored for it.\<close>

record tool_call =
  tc_id :: string
  tc_name :: string
  tc_args :: "js option"
  tc_updates :: "js list"
  tc_content :: "js list"
  tc_details :: "js option"
  tc_error :: bool

definition tc_result :: "tool_call \<Rightarrow> (string, js) js_map" where
  "tc_result c = (''content'', JArr (tc_content c)) # (case tc_details c of None \<Rightarrow> [] | Some d \<Rightarrow> [(''details'', d)])"

definition call_events :: "tool_call \<Rightarrow> session_event list" where
  "call_events c = ToolStart (Some (tc_id c)) (Some (tc_name c)) (tc_args c) #
     map (\<lambda>p. ToolUpdate (Some (tc_id c)) (Some p)) (tc_updates c) @
     [ToolEnd (Some (tc_id c)) (Some (tc_name c)) (Some (JObj (tc_result c))) (tc_error c)]"

definition result_payload :: "tool_call \<Rightarrow> js" where
  "result_payload c = JObj ([(''role'', JStr ''toolResult''), (''toolCallId'', JStr (tc_id c)), (''toolName'', JStr (tc_name c)),
     (''isError'', JBool (tc_error c))] @ tc_result c)"

definition pending_card :: "tool_call \<Rightarrow> ui_tool" where
  "pending_card c = \<lparr>ut_id = Some (tc_id c), ut_name = Some (tc_name c), ut_args = tc_args c, ut_status = Running,
     ut_resultText = None, ut_details = None\<rparr>"

definition done_card :: "tool_call \<Rightarrow> ui_tool" where
  "done_card c = \<lparr>ut_id = Some (tc_id c), ut_name = Some (tc_name c), ut_args = tc_args c,
     ut_status = (if tc_error c then Failed else Finished),
     ut_resultText = Some (foldContent (Some (JArr (tc_content c)))), ut_details = tc_details c\<rparr>"

text \<open>A question reports its details as an object, and all at once.\<close>

definition question_ok :: "tool_call \<Rightarrow> bool" where
  "question_ok c \<longleftrightarrow> (tc_name c = ''askUser'' \<or> tc_name c = ''planExit'' \<longrightarrow>
     tc_updates c = [] \<and> (\<exists>m. tc_details c = Some (JObj m)))"

definition updated_card :: "tool_call \<Rightarrow> ui_tool" where
  "updated_card c = foldl (\<lambda>t p. update_tool p t) (pending_card c) (tc_updates c)"

lemma card_ids [simp]: "ut_id (pending_card c) = Some (tc_id c)" "ut_id (done_card c) = Some (tc_id c)"
  by (simp_all add: pending_card_def done_card_def)

lemma tc_result_props:
  "js_prop (JObj (tc_result c)) ''content'' = Some (JArr (tc_content c))"
  "js_prop (JObj (tc_result c)) ''details'' = tc_details c"
  by (simp_all add: js_prop_def jm_get_def tc_result_def split: option.split)

lemma result_payload_props:
  "js_prop (result_payload c) ''role'' = Some (JStr ''toolResult'')"
  "js_prop (result_payload c) ''toolCallId'' = Some (JStr (tc_id c))"
  "js_prop (result_payload c) ''isError'' = Some (JBool (tc_error c))"
  "js_prop (result_payload c) ''content'' = Some (JArr (tc_content c))"
  "js_prop (result_payload c) ''details'' = tc_details c"
  by (simp_all add: js_prop_def jm_get_def result_payload_def tc_result_def split: option.split)

lemma set_last_of_snoc [simp]: "set_last_assistant b (messages @ [AssistantMsg a]) = messages @ [AssistantMsg b]"
  by (induction messages) auto

lemma update_tool_id [simp]: "ut_id (update_tool p t) = ut_id t"
  by (simp add: update_tool_def)

lemma updates_keep:
  "ut_id (foldl (\<lambda>t p. update_tool p t) t ps) = ut_id t \<and> ut_name (foldl (\<lambda>t p. update_tool p t) t ps) = ut_name t \<and>
   ut_args (foldl (\<lambda>t p. update_tool p t) t ps) = ut_args t"
  by (induction ps arbitrary: t) (simp_all add: update_tool_def)

lemma updated_card_id [simp]: "ut_id (updated_card c) = Some (tc_id c)"
  by (simp add: updated_card_def updates_keep)

text \<open>The end of a call leaves nothing of its partial results.\<close>

lemma end_updated: "question_ok c \<Longrightarrow> end_tool (tc_name c) (Some (JObj (tc_result c))) (tc_error c) (updated_card c) = done_card c"
proof (cases "tc_name c = ''askUser'' \<or> tc_name c = ''planExit''")
  case True
  then show "question_ok c \<Longrightarrow> ?thesis"
    by (auto simp: end_tool_def updated_card_def pending_card_def done_card_def stringifyResult_def opt_truthy_def opt_prop_def
      tc_result_props foldContent_def end_details_def merge_details_def set_some_def question_ok_def)
next
  case False
  then show ?thesis using updates_keep [of "pending_card c" "tc_updates c"]
    by (auto simp: end_tool_def updated_card_def pending_card_def done_card_def stringifyResult_def opt_truthy_def opt_prop_def
      tc_result_props foldContent_def end_details_def intro!: ui_tool.equality)
qed

lemma updates_shown_live:
  assumes "\<forall>t \<in> set ready. \<not> has_call i t" "ut_id t = Some i"
  shows "foldl (\<lambda>ms ev. applyEventToMessages ms ev quiet now) (messages @ [AssistantMsg (a\<lparr>as_tools := ready @ [t]\<rparr>)])
      (map (\<lambda>p. ToolUpdate (Some i) (Some p)) ps) =
    messages @ [AssistantMsg (a\<lparr>as_tools := ready @ [foldl (\<lambda>t p. update_tool p t) t ps]\<rparr>)]"
  using assms(2)
proof (induction ps arbitrary: t)
  case (Cons p ps)
  have "update_first (has_call i) (update_tool p) (ready @ [t]) = ready @ [update_tool p t]"
    using assms(1) Cons.prems by (simp add: update_first_append has_call_def)
  then show ?case using Cons by (simp add: applyEventToMessages_def handleToolUpdate_def)
qed simp

lemma settle_pending: "settle_tool (result_payload c) (pending_card c) = done_card c"
  by (simp add: settle_tool_def pending_card_def done_card_def result_payload_props opt_truthy_def coalesce_def split: option.split)

lemma call_shown_live:
  assumes "question_ok c" "Some (tc_id c) \<notin> ut_id ` set (as_tools a)"
  shows "foldl (\<lambda>ms ev. applyEventToMessages ms ev quiet now) (messages @ [AssistantMsg a]) (call_events c) =
    messages @ [AssistantMsg (a\<lparr>as_tools := as_tools a @ [done_card c]\<rparr>)]"
proof -
  have other: "\<forall>t \<in> set (as_tools a). \<not> has_call (tc_id c) t"
    using assms(2) by (force simp: has_call_def)
  have "update_first (has_call (tc_id c)) (end_tool (tc_name c) (Some (JObj (tc_result c))) (tc_error c))
      (as_tools a @ [updated_card c]) = as_tools a @ [done_card c]"
    using other assms(1) by (simp add: update_first_append has_call_def end_updated)
  moreover have "upsertTool (as_tools a) (pending_card c) = as_tools a @ [pending_card c]"
    using other by (simp add: upsertTool_def has_call_def)
  then have "applyEventToMessages (messages @ [AssistantMsg a]) (ToolStart (Some (tc_id c)) (Some (tc_name c)) (tc_args c)) quiet now =
      messages @ [AssistantMsg (a\<lparr>as_tools := as_tools a @ [pending_card c]\<rparr>)]"
    by (simp add: applyEventToMessages_def handleToolStart_def flip: pending_card_def)
  moreover note updates_shown_live [OF other card_ids(1), of quiet now messages a "tc_updates c", folded updated_card_def]
  ultimately show ?thesis
    by (simp add: call_events_def applyEventToMessages_def handleToolEnd_def has_call_def)
qed

lemma calls_shown_live:
  assumes "\<forall>c \<in> set calls. question_ok c" "distinct (map ut_id (as_tools a) @ map (Some \<circ> tc_id) calls)"
  shows "foldl (\<lambda>ms ev. applyEventToMessages ms ev quiet now) (messages @ [AssistantMsg a]) (concat (map call_events calls)) =
    messages @ [AssistantMsg (a\<lparr>as_tools := as_tools a @ map done_card calls\<rparr>)]"
  using assms
proof (induction calls arbitrary: a)
  case (Cons c calls)
  have new: "question_ok c" "Some (tc_id c) \<notin> ut_id ` set (as_tools a)" using Cons.prems by auto
  show ?case
    using Cons.prems by (simp add: call_shown_live[OF new] Cons.IH)
qed simp

lemma result_read_back:
  assumes "as_tools b = ready @ pending_card c # rest" "Some (tc_id c) \<notin> ut_id ` set ready"
  shows "history_row eid ts (result_payload c) [AssistantMsg b] = [AssistantMsg (b\<lparr>as_tools := ready @ done_card c # rest\<rparr>)]"
proof -
  have "\<forall>t \<in> set ready. ut_id t \<noteq> Some (tc_id c)" using assms(2) by force
  then show ?thesis
    using set_last_of_snoc[of _ "[]"] assms(1)
    by (simp add: history_row_def result_history_def result_payload_props opt_text_def update_first_append settle_pending)
qed

text \<open>The stored entries have distinct identifiers.\<close>

definition stored :: "string \<times> timestamp option \<Rightarrow> js \<Rightarrow> chat_entry" where
  "stored k payload = \<lparr>he_id = Some (JStr (fst k)), he_type = Some ''message'', he_payload = Some payload, he_timestamp = snd k\<rparr>"

definition keys_ok :: "string list \<Rightarrow> (string \<times> timestamp option) list \<Rightarrow> bool" where
  "keys_ok seen ks \<longleftrightarrow> distinct (map fst ks) \<and> [] \<notin> fst ` set ks \<and> set seen \<inter> fst ` set ks = {}"

lemma history_step_stored:
  "is_object payload \<Longrightarrow> fst k \<noteq> [] \<Longrightarrow> fst k \<notin> set seen \<Longrightarrow>
   history_step date now (out, seen) (stored k payload) =
     (history_row (fst k) (parseEntryTimestamp date (snd k) now) payload out, fst k # seen)"
  by (simp add: history_step_def stored_def opt_nullish_def Let_def)

lemma results_read_back:
  assumes "length ks = length calls" "keys_ok seen ks" "as_tools b = ready @ map pending_card calls"
    and "distinct (map ut_id ready @ map (Some \<circ> tc_id) calls)"
  shows "fst (foldl (history_step date now) ([AssistantMsg b], seen) (map2 stored ks (map result_payload calls))) =
    [AssistantMsg (b\<lparr>as_tools := ready @ map done_card calls\<rparr>)]"
  using assms
proof (induction ks calls arbitrary: b ready seen rule: list_induct2)
  case (Cons k ks c calls)
  have obj: "is_object (result_payload c)" by (simp add: result_payload_def)
  have key: "fst k \<noteq> []" "fst k \<notin> set seen" "keys_ok (fst k # seen) ks"
    using Cons.prems(1) by (auto simp: keys_ok_def)
  have row: "history_row i ts (result_payload c) [AssistantMsg b] =
      [AssistantMsg (b\<lparr>as_tools := ready @ done_card c # map pending_card calls\<rparr>)]" for i ts
    using Cons.prems(2,3) by (intro result_read_back) auto
  show ?case
    using Cons.IH[OF key(3), of "b\<lparr>as_tools := (ready @ [done_card c]) @ map pending_card calls\<rparr>" "ready @ [done_card c]"] Cons.prems(3)
    by (simp add: history_step_stored[OF obj key(1,2)] row)
qed simp

text \<open>What the final message of the turn holds: the calls, and texts that are not empty.\<close>

definition carries_calls :: "js \<Rightarrow> tool_call list \<Rightarrow> bool" where
  "carries_calls m calls \<longleftrightarrow>
     map call_of (filter (is_part ''toolCall'') (filter is_object (opt_list (js_prop m ''content'')))) = map pending_card calls"

definition solid_text :: "js \<Rightarrow> bool" where
  "solid_text m \<longleftrightarrow> (\<exists>xs. js_prop m ''content'' = Some (JArr xs) \<and>
     (\<forall>c \<in> set xs. is_part ''text'' c \<longrightarrow> is_object c \<and> (\<exists>t. js_prop c ''text'' = Some (JStr t) \<and> t \<noteq> [])))"

lemma part_texts:
  "\<forall>c \<in> set xs. is_part ''text'' c \<longrightarrow> is_object c \<and> (\<exists>t. js_prop c ''text'' = Some (JStr t) \<and> t \<noteq> []) \<Longrightarrow>
   map (\<lambda>c. js_text (opt_nullish (js_prop c ''text'') (JStr []))) (filter (is_part ''text'') xs) =
   concat (map text_lines (filter (is_part ''text'') (filter is_object xs)))"
  by (induction xs) (auto simp: text_lines_def opt_nullish_def)

lemma final_text_read_back:
  "is_object m \<Longrightarrow> solid_text m \<Longrightarrow> textFromMessage (Some m) = fst (splitAssistantContent (js_prop m ''content''))"
  by (cases m) (auto simp: solid_text_def textFromMessage_def splitAssistantContent_def opt_truthy_def opt_prop_def opt_list_def
      Let_def part_texts)

lemma message_read_back:
  assumes "is_role ''assistant'' (Some m)" "clean_end (Some m)"
  shows "history_row eid ts m [] = [AssistantMsg \<lparr>as_id = (if eid = [] then ''assistant-'' @ int_text ts else eid),
    as_text = fst (splitAssistantContent (js_prop m ''content'')), as_ts = ts,
    as_tools = map call_of (filter (is_part ''toolCall'') (filter is_object (opt_list (js_prop m ''content'')))),
    as_thinking = snd (snd (splitAssistantContent (js_prop m ''content'')))\<rparr>]"
  using assms
  by (simp add: history_row_def assistant_history_def is_role_def opt_prop_def clean_end_def splitAssistantContent_def Let_def)

lemma done_not_running: "expire_tool inFlight (done_card c) = done_card c"
  by (simp add: expire_tool_def done_card_def)

text \<open>The events of a turn: the message, streamed, and its calls, one after the other.\<close>

definition turn_live ::
  "ui_message list \<Rightarrow> js option \<Rightarrow> (sub_event \<times> int) list \<Rightarrow> js \<Rightarrow> tool_call list \<Rightarrow> bool \<Rightarrow> int \<Rightarrow> ui_message list" where
  "turn_live messages m subs fin calls quiet now =
     foldl (\<lambda>ms ev. applyEventToMessages ms ev quiet now)
       (stream_updates m quiet (applyEventToMessages messages (MessageStart m) quiet now) subs)
       (MessageEnd (Some fin) # concat (map call_events calls))"

lemma turn_read_back:
  assumes "is_role ''assistant'' (Some fin)" "clean_end (Some fin)" "carries_calls fin calls" "is_object fin"
    and "distinct (map tc_id calls)" "length ks = length calls" "keys_ok [] (k # ks)"
  shows "\<exists>b. historyToUiMessages date now (Some (map2 stored (k # ks) (fin # map result_payload calls))) inFlight = [AssistantMsg b] \<and>
    as_text b = fst (splitAssistantContent (js_prop fin ''content'')) \<and> as_tools b = map done_card calls"
proof -
  have key: "fst k \<noteq> []" "keys_ok [fst k] ks" using assms(7) by (auto simp: keys_ok_def)
  obtain b where b: "history_row (fst k) (parseEntryTimestamp date (snd k) now) fin [] = [AssistantMsg b]"
    "as_text b = fst (splitAssistantContent (js_prop fin ''content''))" "as_tools b = map pending_card calls"
    using message_read_back[OF assms(1,2)] assms(3) by (simp add: carries_calls_def)
  have "distinct (map ut_id [] @ map (Some \<circ> tc_id) calls)"
    using assms(5) by (simp add: distinct_map inj_on_def)
  from results_read_back[OF assms(6) key(2) _ this, of b date now] b(3)
  have "fst (foldl (history_step date now) ([AssistantMsg b], [fst k]) (map2 stored ks (map result_payload calls))) =
      [AssistantMsg (b\<lparr>as_tools := map done_card calls\<rparr>)]" by simp
  then show ?thesis
    using b(2) key(1)
    by (simp add: historyToUiMessages_def expireUnresolvedToolCalls_def history_step_stored[OF assms(4)] b(1) done_not_running)
qed


section \<open>The user's own messages\<close>

text \<open>The row of the server takes the place of the optimistic row it belongs to; it is there once,
  however often the message is delivered.\<close>

lemma user_end_adds_row: "''live-user-'' @ stamp_text m (int_text now) \<in> ui_id ` set (user_end messages m now)"
proof -
  let ?match = "optimistic_match (textFromMessage m) (extractImageParts (opt_prop m ''content'')) (extractAttachments m)"
  show ?thesis
  proof (cases "\<exists>x \<in> set messages. ?match x")
    case True
    from update_first_Ex[OF this] show ?thesis
      using True by (auto simp: user_end_def Let_def image_iff) (metis ui_id.simps(1) user_row.select_convs(1))+
  qed (auto simp: user_end_def Let_def)
qed

lemma user_message_once:
  assumes "is_role ''user'' m" "has_time m"
  shows "applyEventToMessages (applyEventToMessages messages (MessageEnd m) quiet now) (MessageEnd m) quiet later =
    applyEventToMessages messages (MessageEnd m) quiet now"
proof -
  have "''live-user-'' @ stamp_text m (int_text later) \<in> ui_id ` set (user_end messages m now)"
    using user_end_adds_row[of m now messages] stamp_default[OF assms(2)] by metis
  then show ?thesis
    using assms(1) by (simp add: applyEventToMessages_def handleMessageEnd_def user_end_def Let_def)
qed

text \<open>An empty part of a message leaves an empty line in the live row and none in the row that is
  read back.\<close>

lemma empty_part_differs:
  "let part = (\<lambda>t. JObj [(''type'', JStr ''text''), (''text'', JStr t)]);
       m = JObj [(''role'', JStr ''assistant''), (''content'', JArr [part ''a'', part [], part ''b''])]
   in textFromMessage (Some m) = [CHR ''a'', CHR 0x0A, CHR 0x0A, CHR ''b''] \<and>
      fst (splitAssistantContent (js_prop m ''content'')) = [CHR ''a'', CHR 0x0A, CHR ''b'']"
  by code_simp

end
