(* ===== verification/ChatState.thy ===== *)
theory ChatState
  imports ChatEvents
begin

text \<open>
  The state of the desktop client's workspaces and its transitions:
  \<open>clients/taco-desktop/src/lib/chat/workspaceReducer.ts\<close>. The record \<open>workspace_state\<close> is the
  source's \<open>WorkspaceState\<close>, a constructor of \<open>workspace_action\<close> is a variant of its
  \<open>WorkspaceAction\<close>, and \<open>workspacesReducer\<close> is the function of that name. The clock and the
  milliseconds of an ISO date are arguments.
\<close>

section \<open>State\<close>

record session_meta =
  sm_id :: string
  sm_createdAt :: string
  sm_updatedAt :: "string option"
  sm_filePath :: "string option"
  sm_name :: "string option"
  sm_messageCount :: "nat option"

record spawned_entry =
  sp_subSessionId :: string
  sp_agentType :: string
  sp_parentToolCallId :: string

text \<open>A request is kept with the value a card shows.\<close>

record permission_request =
  pq_requestId :: string
  pq_sessionId :: string
  pq_displaySessionId :: "string option"
  pq_toolCallId :: string
  pq_displayToolCallId :: "string option"
  pq_value :: js

record task_snapshot =
  tk_active :: js
  tk_history :: "js list"
  tk_updatedAt :: int

record plan_flag =
  pl_active :: bool
  pl_currentSlug :: "string option"

record history_detail =
  hd_tasks :: "js list"
  hd_loadedAt :: int

record list_cursor =
  lc_updatedAt :: string
  lc_id :: string

record workspace_state =
  ws_cwd :: string
  ws_active :: bool
  ws_sessions :: "session_meta list"
  ws_activeSession :: "string option"
  ws_messages :: "ui_message list"
  ws_pendingBySessionId :: "(string, bool) js_map"
  ws_queuedBySessionId :: "(string, queued_item list) js_map"
  ws_subagentSpawned :: "(string, spawned_entry) js_map"
  ws_childMessagesBySubSessionId :: "(string, ui_message list) js_map"
  ws_childHistoryLoaded :: "(string, ui_message list) js_map"
  ws_askUserPending :: "(string, unit) js_map"
  ws_pendingCommandPermissions :: "(string, permission_request) js_map"
  ws_taskSnapshotsBySessionId :: "(string, task_snapshot) js_map"
  ws_planStatesBySessionId :: "(string, plan_flag) js_map"
  ws_historyDetailsBySessionId :: "(string, (string, history_detail) js_map) js_map"
  ws_agentToolPending :: "(string, unit) js_map"
  ws_backgroundSubagents :: "(string, subagent_state) js_map"
  ws_listCursor :: "list_cursor option"
  ws_listTotal :: "nat option"
  ws_loadingSessionId :: "string option"

type_synonym workspaces = "(string, workspace_state) js_map"

definition subagentKey :: "string \<Rightarrow> string \<Rightarrow> string" where
  "subagentKey parentSessionId parentToolCallId = parentSessionId @ '':'' @ parentToolCallId"

definition isAskUserStyleTool :: "string option \<Rightarrow> bool" where
  "isAskUserStyleTool toolName \<longleftrightarrow> toolName = Some ''askUser'' \<or> toolName = Some ''planExit''"

definition createEmptyWorkspace :: "string \<Rightarrow> bool \<Rightarrow> workspace_state" where
  "createEmptyWorkspace cwd isActive = \<lparr>ws_cwd = cwd, ws_active = isActive, ws_sessions = [], ws_activeSession = None,
     ws_messages = [], ws_pendingBySessionId = [], ws_queuedBySessionId = [], ws_subagentSpawned = [],
     ws_childMessagesBySubSessionId = [], ws_childHistoryLoaded = [], ws_askUserPending = [],
     ws_pendingCommandPermissions = [], ws_taskSnapshotsBySessionId = [], ws_planStatesBySessionId = [],
     ws_historyDetailsBySessionId = [], ws_agentToolPending = [], ws_backgroundSubagents = [],
     ws_listCursor = None, ws_listTotal = None, ws_loadingSessionId = None\<rparr>"

section \<open>Actions\<close>

text \<open>An attach carries the messages, the questions that still wait, and the two lists that tell
  which child agents are alive.\<close>

datatype workspace_action =
    Init workspaces
  | RemoveWorkspace string
  | SidecarRestarted string
  | SetActive string
  | LoadSessions string "session_meta list" "list_cursor option" "nat option" bool
  | AddSession string session_meta bool
  | AttachStart string string
  | AttachFailed string string
  | Attach string string "ui_message list" "string list" "string list option" "string list option"
  | AttachedPush string string
  | CommandPermissionRequested string string permission_request
  | CommandPermissionResolved string string
  | RemoveSession string string
  | SetPending string string bool
  | BumpSessionTime string string string
  | SessionRenamed string string string
  | AppendSystem string string ui_message
  | AppendAssistantFinal string string "js option"
  | AppendUser string ui_message
  | AppendQueued string string queued_item
  | RemoveQueued string string string
  | ApplyEvent string string bool int session_event
  | SubagentSpawned string string string string string
  | SubagentSettled string string subagent_state
  | ChildMessageEvent string string session_event int bool
  | LoadSubagentHistory string string "ui_message list"
  | RestoreSessionSnapshot string string bool "ui_message list" "string list"
  | AskUserAnswered string string js
  | TasksUpdated string string js "js list"
  | PlanStateUpdated string string bool "string option"
  | HistoryDetailLoaded string string string "js list"
  | BeginPendingNewSession string

section \<open>Helpers\<close>

definition session_time :: "(string \<Rightarrow> int) \<Rightarrow> session_meta \<Rightarrow> int" where
  "session_time ms s = ms (or_else (sm_updatedAt s) (sm_createdAt s))"

definition sortSessionsByUpdatedDesc :: "(string \<Rightarrow> int) \<Rightarrow> session_meta list \<Rightarrow> session_meta list" where
  "sortSessionsByUpdatedDesc ms sessions = sort_key (\<lambda>s. - session_time ms s) sessions"

definition request_of_session :: "string \<Rightarrow> permission_request \<Rightarrow> bool" where
  "request_of_session sid q \<longleftrightarrow> pq_sessionId q = sid \<or> or_else (pq_displaySessionId q) (pq_sessionId q) = sid"

definition omitRequestsForSession :: "(string, permission_request) js_map \<Rightarrow> string \<Rightarrow> (string, permission_request) js_map" where
  "omitRequestsForSession m sid = filter (\<lambda>e. \<not> request_of_session sid (snd e)) m"

definition rebuilt_state :: "string list \<Rightarrow> string list \<Rightarrow> string \<Rightarrow> ui_tool \<Rightarrow> subagent_state" where
  "rebuilt_state inFlight settled tid tool =
     (if tid \<in> set inFlight then BgRunning
      else (case opt_prop (ut_details tool) ''subSessionId'' of
              Some (JStr sub) \<Rightarrow> if sub \<in> set settled then BgCompleted else BgError
            | _ \<Rightarrow> BgError))"

definition rebuild_tool ::
  "string list \<Rightarrow> string list \<Rightarrow> (string, subagent_state) js_map \<Rightarrow> ui_tool \<Rightarrow> (string, subagent_state) js_map" where
  "rebuild_tool inFlight settled out tool =
     (case ut_id tool of
        None \<Rightarrow> out
      | Some tid \<Rightarrow>
          if is_agent_tool tool \<and> isBackgroundLaunchDetails (ut_details tool)
          then jm_set out tid (rebuilt_state inFlight settled tid tool) else out)"

definition rebuildBackgroundSubagents ::
  "ui_message list \<Rightarrow> string list option \<Rightarrow> string list option \<Rightarrow> (string, subagent_state) js_map" where
  "rebuildBackgroundSubagents messages inFlight settled =
     foldl (rebuild_tool (or_else inFlight []) (or_else settled [])) [] (concat (map tools_of messages))"

definition spread_map :: "('k, 'v) js_map \<Rightarrow> ('k, 'v) js_map \<Rightarrow> ('k, 'v) js_map" where
  "spread_map m extra = foldl (\<lambda>acc (k, v). jm_set acc k v) m extra"

text \<open>The merge of a re-attach: what the rebuild says, except where an outcome is known already.\<close>

definition merge_background ::
  "(string, subagent_state) js_map \<Rightarrow> (string, subagent_state) js_map \<Rightarrow> (string, subagent_state) js_map" where
  "merge_background old rebuilt =
     spread_map (spread_map old rebuilt) (filter (\<lambda>e. snd e \<noteq> BgRunning) old)"

definition marks :: "string list \<Rightarrow> (string, unit) js_map" where
  "marks ids = foldl (\<lambda>m i. jm_set m i ()) [] ids"

definition updateWs :: "workspaces \<Rightarrow> string \<Rightarrow> (workspace_state \<Rightarrow> workspace_state) \<Rightarrow> workspaces" where
  "updateWs state cwd patch =
     (case jm_get state cwd of None \<Rightarrow> state | Some existing \<Rightarrow> jm_set state cwd (patch existing))"

definition attachCommandPermission :: "ui_message list \<Rightarrow> permission_request \<Rightarrow> ui_message list" where
  "attachCommandPermission messages request =
     patchToolById messages (or_else (pq_displayToolCallId request) (pq_toolCallId request))
       (\<lambda>t. mergeToolDetails t [(''commandPermission'', pq_value request)])"

section \<open>Transitions of one workspace\<close>

definition sidecar_restarted :: "workspace_state \<Rightarrow> workspace_state" where
  "sidecar_restarted w = w\<lparr>
     ws_childMessagesBySubSessionId := map (\<lambda>(k, ms). (k, markRunningShellToolsFailed ms)) (ws_childMessagesBySubSessionId w),
     ws_messages := markRunningShellToolsFailed (ws_messages w), ws_pendingCommandPermissions := []\<rparr>"

definition attach_start :: "string \<Rightarrow> workspace_state \<Rightarrow> workspace_state" where
  "attach_start sid w =
     (if ws_activeSession w = Some sid then w\<lparr>ws_loadingSessionId := None\<rparr> else w\<lparr>ws_loadingSessionId := Some sid\<rparr>)"

definition attach_failed :: "string \<Rightarrow> workspace_state \<Rightarrow> workspace_state" where
  "attach_failed sid w = (if ws_loadingSessionId w = Some sid then w\<lparr>ws_loadingSessionId := None\<rparr> else w)"

definition reset_session :: "workspace_state \<Rightarrow> workspace_state" where
  "reset_session w = w\<lparr>ws_loadingSessionId := None, ws_subagentSpawned := [], ws_childMessagesBySubSessionId := [],
     ws_childHistoryLoaded := [], ws_agentToolPending := []\<rparr>"

definition attach_land ::
  "string \<Rightarrow> ui_message list \<Rightarrow> string list \<Rightarrow> string list option \<Rightarrow> string list option \<Rightarrow> workspace_state \<Rightarrow> workspace_state" where
  "attach_land sid messages pendingAskUserIds inFlight settled w =
     (let rebuilt = rebuildBackgroundSubagents messages inFlight settled in
      if ws_activeSession w = Some sid then
        (if inFlight = None \<and> settled = None then w
         else w\<lparr>ws_backgroundSubagents := merge_background (ws_backgroundSubagents w) rebuilt\<rparr>)
      else if ws_loadingSessionId w \<noteq> Some sid then w
      else (reset_session w)\<lparr>ws_activeSession := Some sid, ws_messages := messages,
        ws_askUserPending := marks pendingAskUserIds, ws_backgroundSubagents := rebuilt\<rparr>)"

definition permission_requested :: "string \<Rightarrow> permission_request \<Rightarrow> workspace_state \<Rightarrow> workspace_state" where
  "permission_requested sid request w = w\<lparr>
     ws_pendingCommandPermissions := jm_set (ws_pendingCommandPermissions w) (pq_requestId request) request,
     ws_messages := (if ws_activeSession w = Some sid then attachCommandPermission (ws_messages w) request else ws_messages w)\<rparr>"

definition remove_session :: "string \<Rightarrow> workspace_state \<Rightarrow> workspace_state" where
  "remove_session sid w =
     (let wasActive = (ws_activeSession w = Some sid) in
      w\<lparr>ws_sessions := filter (\<lambda>s. sm_id s \<noteq> sid) (ws_sessions w),
        ws_listCursor := (case ws_listCursor w of Some c \<Rightarrow> if lc_id c = sid then None else Some c | None \<Rightarrow> None),
        ws_listTotal := map_option (\<lambda>n. n - 1) (ws_listTotal w),
        ws_activeSession := (if wasActive then None else ws_activeSession w),
        ws_messages := (if wasActive then [] else ws_messages w),
        ws_loadingSessionId := (if ws_loadingSessionId w = Some sid then None else ws_loadingSessionId w),
        ws_pendingBySessionId := jm_delete (ws_pendingBySessionId w) sid,
        ws_queuedBySessionId := jm_delete (ws_queuedBySessionId w) sid,
        ws_pendingCommandPermissions := omitRequestsForSession (ws_pendingCommandPermissions w) sid\<rparr>)"

definition set_pending :: "string \<Rightarrow> bool \<Rightarrow> workspace_state \<Rightarrow> workspace_state" where
  "set_pending sid b w = w\<lparr>ws_pendingBySessionId := jm_set (ws_pendingBySessionId w) sid b\<rparr>"

text \<open>\<open>find\<close> and the replacement of every session with that identifier.\<close>

definition bump_session :: "(string \<Rightarrow> int) \<Rightarrow> string \<Rightarrow> string \<Rightarrow> workspace_state \<Rightarrow> workspace_state" where
  "bump_session ms sid updatedAt w =
     (case find (\<lambda>s. sm_id s = sid) (ws_sessions w) of
        None \<Rightarrow> w
      | Some target \<Rightarrow> w\<lparr>ws_sessions := sortSessionsByUpdatedDesc ms
          (map (\<lambda>s. if sm_id s = sid then target\<lparr>sm_updatedAt := Some updatedAt\<rparr> else s) (ws_sessions w))\<rparr>)"

definition rename_session :: "string \<Rightarrow> string \<Rightarrow> workspace_state \<Rightarrow> workspace_state" where
  "rename_session sid name w =
     w\<lparr>ws_sessions := map (\<lambda>s. if sm_id s = sid then s\<lparr>sm_name := Some name\<rparr> else s) (ws_sessions w)\<rparr>"

definition append_system :: "string \<Rightarrow> ui_message \<Rightarrow> workspace_state \<Rightarrow> workspace_state" where
  "append_system sid msg w =
     (if ws_activeSession w \<noteq> Some sid then w else set_pending sid False (w\<lparr>ws_messages := ws_messages w @ [msg]\<rparr>))"

definition append_final :: "string \<Rightarrow> js option \<Rightarrow> int \<Rightarrow> workspace_state \<Rightarrow> workspace_state" where
  "append_final sid reply now w =
     (if ws_activeSession w \<noteq> Some sid then w
      else set_pending sid False (w\<lparr>ws_messages := mergeAssistantFinal (ws_messages w) reply now\<rparr>))"

definition set_queue :: "string \<Rightarrow> queued_item list \<Rightarrow> workspace_state \<Rightarrow> workspace_state" where
  "set_queue sid items w = w\<lparr>ws_queuedBySessionId :=
     (if items \<noteq> [] then jm_set (ws_queuedBySessionId w) sid items else jm_delete (ws_queuedBySessionId w) sid)\<rparr>"

definition queue_of :: "workspace_state \<Rightarrow> string \<Rightarrow> queued_item list" where
  "queue_of w sid = or_else (jm_get (ws_queuedBySessionId w) sid) []"

definition append_queued :: "string \<Rightarrow> queued_item \<Rightarrow> workspace_state \<Rightarrow> workspace_state" where
  "append_queued sid item w = w\<lparr>ws_queuedBySessionId := jm_set (ws_queuedBySessionId w) sid (queue_of w sid @ [item])\<rparr>"

definition remove_queued :: "string \<Rightarrow> string \<Rightarrow> workspace_state \<Rightarrow> workspace_state" where
  "remove_queued sid qid w =
     (if \<exists>q \<in> set (queue_of w sid). qi_id q = qid
      then set_queue sid (filter (\<lambda>q. qi_id q \<noteq> qid) (queue_of w sid)) w else w)"

subsection \<open>Session events\<close>

text \<open>The slots that follow a session whether it is on screen or not.\<close>

definition event_pending :: "string \<Rightarrow> session_event \<Rightarrow> workspace_state \<Rightarrow> workspace_state" where
  "event_pending sid ev w =
     (case ev of RunStart \<Rightarrow> set_pending sid True w | RunEnd \<Rightarrow> set_pending sid False w | _ \<Rightarrow> w)"

definition event_queue :: "string \<Rightarrow> session_event \<Rightarrow> workspace_state \<Rightarrow> workspace_state" where
  "event_queue sid ev w =
     (case ev of
        QueueUpdate queues \<Rightarrow> set_queue sid (filter qi_optimistic (queue_of w sid) @ queuedItemsFromEvent queues) w
      | OperationAbort \<Rightarrow> set_queue sid [] w
      | _ \<Rightarrow> w)"

text \<open>The slots of the session on screen.\<close>

definition event_ask :: "session_event \<Rightarrow> workspace_state \<Rightarrow> workspace_state" where
  "event_ask ev w =
     (case ev of
        ToolEnd callId name res isError \<Rightarrow>
          if \<not> isError \<and> isAskUserStyleTool name
          then w\<lparr>ws_askUserPending :=
            (if opt_prop (opt_prop res ''details'') ''waiting'' = Some (JBool True)
             then jm_set (ws_askUserPending w) (or_else callId []) ()
             else jm_delete (ws_askUserPending w) (or_else callId []))\<rparr>
          else w
      | _ \<Rightarrow> w)"

definition event_agent :: "session_event \<Rightarrow> workspace_state \<Rightarrow> workspace_state" where
  "event_agent ev w =
     (case ev of
        ToolEnd callId name res isError \<Rightarrow>
          w\<lparr>ws_agentToolPending :=
              (if name = Some ''agent'' \<or> name = Some ''skill'' then jm_delete (ws_agentToolPending w) (or_else callId [])
               else ws_agentToolPending w),
            ws_backgroundSubagents :=
              (if name = Some ''agent'' \<and> isBackgroundLaunchDetails (opt_prop res ''details'') \<and> or_else callId [] \<noteq> []
               then jm_set (ws_backgroundSubagents w) (or_else callId []) BgRunning else ws_backgroundSubagents w)\<rparr>
      | _ \<Rightarrow> w)"

definition event_shown :: "bool \<Rightarrow> int \<Rightarrow> session_event \<Rightarrow> workspace_state \<Rightarrow> workspace_state" where
  "event_shown suppressedThinking now ev w =
     (event_agent ev (event_ask ev w))\<lparr>ws_messages := applyEventToMessages (ws_messages w) ev suppressedThinking now\<rparr>"

definition apply_event :: "string \<Rightarrow> bool \<Rightarrow> int \<Rightarrow> session_event \<Rightarrow> workspace_state \<Rightarrow> workspace_state" where
  "apply_event sid suppressedThinking now ev w =
     (let w1 = event_queue sid ev (event_pending sid ev w) in
      if ws_activeSession w \<noteq> Some sid then w1 else event_shown suppressedThinking now ev w1)"

subsection \<open>Child agents, questions and the rest\<close>

definition subagent_spawned :: "string \<Rightarrow> string \<Rightarrow> string \<Rightarrow> string \<Rightarrow> workspace_state \<Rightarrow> workspace_state" where
  "subagent_spawned parentSessionId parentToolCallId subSessionId agentType w = w\<lparr>
     ws_messages := backfillSubagentDetails (ws_messages w) parentToolCallId subSessionId agentType,
     ws_subagentSpawned := jm_set (ws_subagentSpawned w) (subagentKey parentSessionId parentToolCallId)
       \<lparr>sp_subSessionId = subSessionId, sp_agentType = agentType, sp_parentToolCallId = parentToolCallId\<rparr>,
     ws_agentToolPending := (if jm_get (ws_backgroundSubagents w) parentToolCallId \<noteq> None then ws_agentToolPending w
       else jm_set (ws_agentToolPending w) parentToolCallId ())\<rparr>"

definition subagent_settled :: "string \<Rightarrow> subagent_state \<Rightarrow> workspace_state \<Rightarrow> workspace_state" where
  "subagent_settled parentToolCallId outcome w = w\<lparr>
     ws_agentToolPending := jm_delete (ws_agentToolPending w) parentToolCallId,
     ws_backgroundSubagents := jm_set (ws_backgroundSubagents w) parentToolCallId outcome\<rparr>"

definition child_event :: "string \<Rightarrow> session_event \<Rightarrow> int \<Rightarrow> bool \<Rightarrow> workspace_state \<Rightarrow> workspace_state" where
  "child_event sub ev now suppressedThinking w = w\<lparr>ws_childMessagesBySubSessionId :=
     jm_set (ws_childMessagesBySubSessionId w) sub
       (applyEventToMessages (or_else (jm_get (ws_childMessagesBySubSessionId w) sub) []) ev suppressedThinking now)\<rparr>"

definition restore_snapshot :: "string \<Rightarrow> bool \<Rightarrow> ui_message list \<Rightarrow> string list \<Rightarrow> workspace_state \<Rightarrow> workspace_state" where
  "restore_snapshot sid isSubagent messages pendingAskUserIds w =
     (if isSubagent then
        w\<lparr>ws_childMessagesBySubSessionId := jm_set (ws_childMessagesBySubSessionId w) sid messages,
          ws_childHistoryLoaded := jm_set (ws_childHistoryLoaded w) sid messages\<rparr>
      else if ws_activeSession w \<noteq> Some sid then w
      else w\<lparr>ws_messages := messages, ws_askUserPending := marks pendingAskUserIds,
        ws_pendingBySessionId := jm_set (ws_pendingBySessionId w) sid (or_else (jm_get (ws_pendingBySessionId w) sid) False)\<rparr>)"

definition ask_answered :: "string \<Rightarrow> js \<Rightarrow> workspace_state \<Rightarrow> workspace_state" where
  "ask_answered callId answers w = w\<lparr>ws_askUserPending := jm_delete (ws_askUserPending w) callId,
     ws_messages := attachAskUserAnswers (ws_messages w) callId answers\<rparr>"

definition history_detail_loaded :: "string \<Rightarrow> string \<Rightarrow> js list \<Rightarrow> int \<Rightarrow> workspace_state \<Rightarrow> workspace_state" where
  "history_detail_loaded sid listId tasks now w = w\<lparr>ws_historyDetailsBySessionId :=
     jm_set (ws_historyDetailsBySessionId w) sid
       (jm_set (or_else (jm_get (ws_historyDetailsBySessionId w) sid) []) listId \<lparr>hd_tasks = tasks, hd_loadedAt = now\<rparr>)\<rparr>"

definition begin_new_session :: "workspace_state \<Rightarrow> workspace_state" where
  "begin_new_session w = (reset_session w)\<lparr>ws_activeSession := None, ws_messages := [], ws_askUserPending := [],
     ws_backgroundSubagents := []\<rparr>"

section \<open>The reducer\<close>

definition load_sessions ::
  "(string \<Rightarrow> int) \<Rightarrow> string \<Rightarrow> session_meta list \<Rightarrow> list_cursor option \<Rightarrow> nat option \<Rightarrow> bool \<Rightarrow> workspaces \<Rightarrow> workspaces" where
  "load_sessions ms cwd sessions cursor count addTo state =
     (let base = or_else (jm_get state cwd) (createEmptyWorkspace cwd False);
          merged = sortSessionsByUpdatedDesc ms ((if addTo then ws_sessions base else []) @ sessions)
      in jm_set state cwd (base\<lparr>ws_sessions := merged, ws_listCursor := cursor, ws_listTotal := count\<rparr>))"

fun workspacesReducer :: "(string \<Rightarrow> int) \<Rightarrow> int \<Rightarrow> workspaces \<Rightarrow> workspace_action \<Rightarrow> workspaces" where
  "workspacesReducer ms clock state (Init workspaces) = workspaces"
| "workspacesReducer ms clock state (RemoveWorkspace cwd) = jm_delete state cwd"
| "workspacesReducer ms clock state (SidecarRestarted cwd) = updateWs state cwd sidecar_restarted"
| "workspacesReducer ms clock state (SetActive cwd) = map (\<lambda>(k, w). (k, w\<lparr>ws_active := (k = cwd)\<rparr>)) state"
| "workspacesReducer ms clock state (LoadSessions cwd sessions cursor count addTo) =
     load_sessions ms cwd sessions cursor count addTo state"
| "workspacesReducer ms clock state (AddSession cwd session makeActive) = updateWs state cwd (\<lambda>w.
     w\<lparr>ws_sessions := sortSessionsByUpdatedDesc ms (ws_sessions w @ [session]),
       ws_activeSession := (if makeActive then Some (sm_id session) else ws_activeSession w)\<rparr>)"
| "workspacesReducer ms clock state (AttachStart cwd sid) = updateWs state cwd (attach_start sid)"
| "workspacesReducer ms clock state (AttachFailed cwd sid) = updateWs state cwd (attach_failed sid)"
| "workspacesReducer ms clock state (Attach cwd sid messages pendingIds inFlight settled) =
     updateWs state cwd (attach_land sid messages pendingIds inFlight settled)"
| "workspacesReducer ms clock state (AttachedPush cwd sid) = state"
| "workspacesReducer ms clock state (CommandPermissionRequested cwd sid request) =
     updateWs (if jm_get state cwd \<noteq> None then state else jm_set state cwd (createEmptyWorkspace cwd False)) cwd
       (permission_requested sid request)"
| "workspacesReducer ms clock state (CommandPermissionResolved cwd requestId) = updateWs state cwd (\<lambda>w.
     w\<lparr>ws_pendingCommandPermissions := jm_delete (ws_pendingCommandPermissions w) requestId\<rparr>)"
| "workspacesReducer ms clock state (RemoveSession cwd sid) = updateWs state cwd (remove_session sid)"
| "workspacesReducer ms clock state (SetPending cwd sid b) = updateWs state cwd (set_pending sid b)"
| "workspacesReducer ms clock state (BumpSessionTime cwd sid updatedAt) = updateWs state cwd (bump_session ms sid updatedAt)"
| "workspacesReducer ms clock state (SessionRenamed cwd sid name) = updateWs state cwd (rename_session sid name)"
| "workspacesReducer ms clock state (AppendSystem cwd sid msg) = updateWs state cwd (append_system sid msg)"
| "workspacesReducer ms clock state (AppendAssistantFinal cwd sid reply) = updateWs state cwd (append_final sid reply clock)"
| "workspacesReducer ms clock state (AppendUser cwd msg) = updateWs state cwd (\<lambda>w. w\<lparr>ws_messages := ws_messages w @ [msg]\<rparr>)"
| "workspacesReducer ms clock state (AppendQueued cwd sid item) = updateWs state cwd (append_queued sid item)"
| "workspacesReducer ms clock state (RemoveQueued cwd sid qid) = updateWs state cwd (remove_queued sid qid)"
| "workspacesReducer ms clock state (ApplyEvent cwd sid suppressed now ev) = updateWs state cwd (apply_event sid suppressed now ev)"
| "workspacesReducer ms clock state (SubagentSpawned cwd parent callId sub agentType) =
     updateWs state cwd (subagent_spawned parent callId sub agentType)"
| "workspacesReducer ms clock state (SubagentSettled cwd callId outcome) = updateWs state cwd (subagent_settled callId outcome)"
| "workspacesReducer ms clock state (ChildMessageEvent cwd sub ev now suppressed) =
     updateWs state cwd (child_event sub ev now suppressed)"
| "workspacesReducer ms clock state (LoadSubagentHistory cwd sub messages) = updateWs state cwd (\<lambda>w.
     w\<lparr>ws_childHistoryLoaded := jm_set (ws_childHistoryLoaded w) sub messages\<rparr>)"
| "workspacesReducer ms clock state (RestoreSessionSnapshot cwd sid isSubagent messages pendingIds) =
     updateWs state cwd (restore_snapshot sid isSubagent messages pendingIds)"
| "workspacesReducer ms clock state (AskUserAnswered cwd callId answers) = updateWs state cwd (ask_answered callId answers)"
| "workspacesReducer ms clock state (TasksUpdated cwd sid tactive history) = updateWs state cwd (\<lambda>w.
     w\<lparr>ws_taskSnapshotsBySessionId := jm_set (ws_taskSnapshotsBySessionId w) sid
       \<lparr>tk_active = tactive, tk_history = history, tk_updatedAt = clock\<rparr>\<rparr>)"
| "workspacesReducer ms clock state (PlanStateUpdated cwd sid pactive slug) = updateWs state cwd (\<lambda>w.
     w\<lparr>ws_planStatesBySessionId := jm_set (ws_planStatesBySessionId w) sid \<lparr>pl_active = pactive, pl_currentSlug = slug\<rparr>\<rparr>)"
| "workspacesReducer ms clock state (HistoryDetailLoaded cwd sid listId tasks) =
     updateWs state cwd (history_detail_loaded sid listId tasks clock)"
| "workspacesReducer ms clock state (BeginPendingNewSession cwd) = updateWs state cwd begin_new_session"

end
