(* ===== verification/ChatProps.thy ===== *)
theory ChatProps
  imports ChatState
begin

text \<open>
  What the transitions of \<open>ChatState\<close> keep: workspaces and sessions do not leak into one another, the
  session opened last is the one shown, the state of a run and the queue follow the events whatever
  is on screen, a child agent in the background does not block its session.
\<close>

section \<open>One workspace\<close>

fun action_cwd :: "workspace_action \<Rightarrow> string option" where
  "action_cwd (Init workspaces) = None"
| "action_cwd (SetActive cwd) = None"
| "action_cwd (RemoveWorkspace cwd) = Some cwd"
| "action_cwd (SidecarRestarted cwd) = Some cwd"
| "action_cwd (LoadSessions cwd sessions cursor count addTo) = Some cwd"
| "action_cwd (AddSession cwd session makeActive) = Some cwd"
| "action_cwd (AttachStart cwd sid) = Some cwd"
| "action_cwd (AttachFailed cwd sid) = Some cwd"
| "action_cwd (Attach cwd sid messages pendingIds inFlight settled) = Some cwd"
| "action_cwd (AttachedPush cwd sid) = Some cwd"
| "action_cwd (CommandPermissionRequested cwd sid request) = Some cwd"
| "action_cwd (CommandPermissionResolved cwd requestId) = Some cwd"
| "action_cwd (RemoveSession cwd sid) = Some cwd"
| "action_cwd (SetPending cwd sid b) = Some cwd"
| "action_cwd (BumpSessionTime cwd sid updatedAt) = Some cwd"
| "action_cwd (SessionRenamed cwd sid name) = Some cwd"
| "action_cwd (AppendSystem cwd sid msg) = Some cwd"
| "action_cwd (AppendAssistantFinal cwd sid reply) = Some cwd"
| "action_cwd (AppendUser cwd msg) = Some cwd"
| "action_cwd (AppendQueued cwd sid item) = Some cwd"
| "action_cwd (RemoveQueued cwd sid qid) = Some cwd"
| "action_cwd (ApplyEvent cwd sid quiet now ev) = Some cwd"
| "action_cwd (SubagentSpawned cwd parent callId sub agentType) = Some cwd"
| "action_cwd (SubagentSettled cwd callId outcome) = Some cwd"
| "action_cwd (ChildMessageEvent cwd sub ev now quiet) = Some cwd"
| "action_cwd (LoadSubagentHistory cwd sub messages) = Some cwd"
| "action_cwd (RestoreSessionSnapshot cwd sid isSubagent messages pendingIds) = Some cwd"
| "action_cwd (AskUserAnswered cwd callId answers) = Some cwd"
| "action_cwd (TasksUpdated cwd sid tactive history) = Some cwd"
| "action_cwd (PlanStateUpdated cwd sid pactive slug) = Some cwd"
| "action_cwd (HistoryDetailLoaded cwd sid listId tasks) = Some cwd"
| "action_cwd (BeginPendingNewSession cwd) = Some cwd"

lemma updateWs_other [simp]: "cwd \<noteq> k \<Longrightarrow> jm_get (updateWs state cwd f) k = jm_get state k"
  by (simp add: updateWs_def split: option.split)

lemma updateWs_same [simp]: "jm_get (updateWs state cwd f) cwd = map_option f (jm_get state cwd)"
  by (simp add: updateWs_def split: option.split)

lemma updateWs_at: "jm_get (updateWs state c f) k = (if c = k then map_option f (jm_get state k) else jm_get state k)"
  by simp

lemma other_workspace_kept:
  "action_cwd a = Some cwd \<Longrightarrow> cwd \<noteq> k \<Longrightarrow> jm_get (workspacesReducer ms clock state a) k = jm_get state k"
  by (cases a) (auto simp: load_sessions_def Let_def)

lemma set_active_at:
  "jm_get (workspacesReducer ms clock state (SetActive c)) cwd = map_option (\<lambda>w. w\<lparr>ws_active := (cwd = c)\<rparr>) (jm_get state cwd)"
  by (induction state) (auto simp: jm_get_def)

text \<open>A run of the client: actions with the time they are reduced at.\<close>

definition run_actions :: "(string \<Rightarrow> int) \<Rightarrow> workspaces \<Rightarrow> (int \<times> workspace_action) list \<Rightarrow> workspaces" where
  "run_actions ms state acts = foldl (\<lambda>s (clock, a). workspacesReducer ms clock s a) state acts"

lemma run_actions_simps [simp]:
  "run_actions ms state [] = state"
  "run_actions ms state ((clock, a) # acts) = run_actions ms (workspacesReducer ms clock state a) acts"
  by (simp_all add: run_actions_def)

lemma run_actions_append: "run_actions ms state (xs @ ys) = run_actions ms (run_actions ms state xs) ys"
  by (simp add: run_actions_def)

text \<open>Actions that put another state in the place of a workspace.\<close>

fun replaces :: "string \<Rightarrow> workspace_action \<Rightarrow> bool" where
  "replaces cwd (Init workspaces) = True"
| "replaces cwd (RemoveWorkspace c) = (c = cwd)"
| "replaces cwd _ = False"

section \<open>Views\<close>

text \<open>A part of a workspace that every action changes as a function of that part alone.\<close>

locale workspace_view =
  fixes ms :: "string \<Rightarrow> int" and cwd :: string and view :: "workspace_state \<Rightarrow> 'v"
    and spec :: "workspace_action \<Rightarrow> 'v \<Rightarrow> 'v" and ok :: "workspace_action \<Rightarrow> bool"
  assumes view_step: "jm_get state cwd = Some w \<Longrightarrow> ok a \<Longrightarrow>
    \<exists>w'. jm_get (workspacesReducer ms clock state a) cwd = Some w' \<and> view w' = spec a (view w)"
begin

lemma view_run:
  "jm_get state cwd = Some w \<Longrightarrow> \<forall>a \<in> snd ` set acts. ok a \<Longrightarrow>
   \<exists>w'. jm_get (run_actions ms state acts) cwd = Some w' \<and> view w' = foldl (\<lambda>v a. spec a v) (view w) (map snd acts)"
proof (induction acts arbitrary: state w)
  case (Cons e acts)
  obtain clock a where e: "e = (clock, a)" by (cases e)
  obtain w' where w': "jm_get (workspacesReducer ms clock state a) cwd = Some w'" "view w' = spec a (view w)"
    using view_step[OF Cons.prems(1), of a clock] Cons.prems(2) e by auto
  then show ?case using Cons.IH[OF w'(1)] Cons.prems(2) e by simp
qed simp

lemma view_kept:
  assumes "jm_get state cwd = Some w" "\<forall>a \<in> snd ` set acts. ok a" "\<forall>a \<in> snd ` set acts. \<forall>v. P v \<longrightarrow> P (spec a v)" "P (view w)"
  shows "\<exists>w'. jm_get (run_actions ms state acts) cwd = Some w' \<and> P (view w')"
proof -
  have "P v \<Longrightarrow> P (foldl (\<lambda>v a. spec a v) v (map snd acts))" for v
    using assms(3) by (induction acts arbitrary: v) auto
  then show ?thesis using view_run[OF assms(1,2)] assms(4) by metis
qed

end

subsection \<open>Whether a session runs\<close>

fun run_flag_step :: "string \<Rightarrow> string \<Rightarrow> workspace_action \<Rightarrow> bool option \<Rightarrow> bool option" where
  "run_flag_step cwd sid (ApplyEvent c s quiet now ev) flag =
     (if c = cwd \<and> s = sid then (case ev of RunStart \<Rightarrow> Some True | RunEnd \<Rightarrow> Some False | _ \<Rightarrow> flag) else flag)"
| "run_flag_step cwd sid (SetPending c s b) flag = (if c = cwd \<and> s = sid then Some b else flag)"
| "run_flag_step cwd sid (RemoveSession c s) flag = (if c = cwd \<and> s = sid then None else flag)"
| "run_flag_step cwd sid a flag = flag"

text \<open>The actions that settle the flag of a session only when it is the one on screen.\<close>

fun settles_shown :: "string \<Rightarrow> string \<Rightarrow> workspace_action \<Rightarrow> bool" where
  "settles_shown cwd sid (AppendSystem c s msg) = (c = cwd \<and> s = sid)"
| "settles_shown cwd sid (AppendAssistantFinal c s reply) = (c = cwd \<and> s = sid)"
| "settles_shown cwd sid (RestoreSessionSnapshot c s isSubagent messages ids) = (c = cwd \<and> s = sid)"
| "settles_shown cwd sid a = False"

definition run_flag :: "string \<Rightarrow> workspace_state \<Rightarrow> bool option" where
  "run_flag sid w = jm_get (ws_pendingBySessionId w) sid"

lemmas ws_transitions =
  sidecar_restarted_def attach_start_def attach_failed_def reset_session_def attach_land_def permission_requested_def
  remove_session_def set_pending_def bump_session_def rename_session_def append_system_def append_final_def
  set_queue_def append_queued_def remove_queued_def event_pending_def event_queue_def event_ask_def event_agent_def
  event_shown_def apply_event_def subagent_spawned_def subagent_settled_def child_event_def restore_snapshot_def
  ask_answered_def history_detail_loaded_def begin_new_session_def load_sessions_def Let_def

lemma run_flag_event [simp]:
  "run_flag sid (apply_event s quiet now ev w) =
     (if s = sid then (case ev of RunStart \<Rightarrow> Some True | RunEnd \<Rightarrow> Some False | _ \<Rightarrow> run_flag sid w) else run_flag sid w)"
  by (cases ev) (simp_all add: run_flag_def ws_transitions)

interpretation run_flag: workspace_view ms cwd "run_flag sid" "run_flag_step cwd sid"
  "\<lambda>a. \<not> replaces cwd a \<and> \<not> settles_shown cwd sid a" for ms cwd sid
proof
  fix state :: workspaces and w a clock
  assume "jm_get state cwd = Some w" "\<not> replaces cwd a \<and> \<not> settles_shown cwd sid a"
  then show "\<exists>w'. jm_get (workspacesReducer ms clock state a) cwd = Some w' \<and> run_flag sid w' = run_flag_step cwd sid a (run_flag sid w)"
    by (cases a) (auto simp: updateWs_at set_active_at run_flag_def ws_transitions simp del: workspacesReducer.simps(4)
        split: option.split session_event.split)
qed

subsection \<open>What waits in the queue\<close>

text \<open>The rows of the client and those of the server.\<close>

type_synonym queue_view = "queued_item list \<times> queued_item list"

definition queue_view :: "string \<Rightarrow> workspace_state \<Rightarrow> queue_view" where
  "queue_view sid w = (filter qi_optimistic (queue_of w sid), filter (\<lambda>q. \<not> qi_optimistic q) (queue_of w sid))"

fun queue_event_step :: "session_event \<Rightarrow> queue_view \<Rightarrow> queue_view" where
  "queue_event_step (QueueUpdate queues) (mine, theirs) = (mine, queuedItemsFromEvent queues)"
| "queue_event_step OperationAbort v = ([], [])"
| "queue_event_step ev v = v"

fun queue_step :: "string \<Rightarrow> string \<Rightarrow> workspace_action \<Rightarrow> queue_view \<Rightarrow> queue_view" where
  "queue_step cwd sid (AppendQueued c s item) (mine, theirs) =
     (if c \<noteq> cwd \<or> s \<noteq> sid then (mine, theirs)
      else if qi_optimistic item then (mine @ [item], theirs) else (mine, theirs @ [item]))"
| "queue_step cwd sid (RemoveQueued c s qid) (mine, theirs) =
     (if c \<noteq> cwd \<or> s \<noteq> sid then (mine, theirs)
      else (filter (\<lambda>q. qi_id q \<noteq> qid) mine, filter (\<lambda>q. qi_id q \<noteq> qid) theirs))"
| "queue_step cwd sid (ApplyEvent c s quiet now ev) v = (if c = cwd \<and> s = sid then queue_event_step ev v else v)"
| "queue_step cwd sid (RemoveSession c s) v = (if c = cwd \<and> s = sid then ([], []) else v)"
| "queue_step cwd sid a v = v"

lemma server_rows: "q \<in> set (queuedItemsFromEvent queues) \<Longrightarrow> \<not> qi_optimistic q"
  by (auto simp: queuedItemsFromEvent_def map_filter_def queued_row_def split: option.splits if_splits prod.splits)

lemma server_rows_filter [simp]:
  "filter qi_optimistic (queuedItemsFromEvent queues) = []"
  "filter (\<lambda>q. \<not> qi_optimistic q) (queuedItemsFromEvent queues) = queuedItemsFromEvent queues"
  by (auto simp: filter_empty_conv filter_id_conv server_rows)

lemma queue_of_set_queue [simp]: "queue_of (set_queue s items w) sid = (if s = sid then items else queue_of w sid)"
  by (auto simp: queue_of_def set_queue_def)

lemma queue_of_append [simp]: "queue_of (append_queued s item w) sid = (if s = sid then queue_of w s @ [item] else queue_of w sid)"
  by (auto simp: queue_of_def append_queued_def)

lemma queue_of_remove [simp]:
  "queue_of (remove_queued s qid w) sid = (if s = sid then filter (\<lambda>q. qi_id q \<noteq> qid) (queue_of w s) else queue_of w sid)"
  by (auto simp: remove_queued_def filter_id_conv)

lemma queue_of_cong: "ws_queuedBySessionId w = ws_queuedBySessionId w' \<Longrightarrow> queue_of w sid = queue_of w' sid"
  by (simp add: queue_of_def)

lemma event_queue_slots [simp]:
  "ws_queuedBySessionId (event_pending s ev w) = ws_queuedBySessionId w"
  "ws_queuedBySessionId (event_shown quiet now ev w) = ws_queuedBySessionId w"
  by (auto simp: ws_transitions split: session_event.split)

lemma queue_view_event [simp]:
  "queue_view sid (apply_event s quiet now ev w) = (if s = sid then queue_event_step ev (queue_view sid w) else queue_view sid w)"
proof -
  have "queue_of (apply_event s quiet now ev w) sid = queue_of (event_queue s ev w) sid"
    by (cases ev) (simp_all add: apply_event_def event_queue_def Let_def queue_of_def set_queue_def)
  moreover have "queue_view sid (event_queue s ev w) = (if s = sid then queue_event_step ev (queue_view sid w) else queue_view sid w)"
    by (cases ev) (auto simp: queue_view_def event_queue_def)
  ultimately show ?thesis by (simp add: queue_view_def)
qed

lemma queue_view_removed [simp]:
  "queue_view sid (remove_session s w) = (if s = sid then ([], []) else queue_view sid w)"
  by (simp add: queue_view_def queue_of_def remove_session_def Let_def)

lemma queue_view_rows [simp]:
  "queue_view sid (append_queued s item w) = (if s = sid then queue_step cwd sid (AppendQueued cwd sid item) (queue_view sid w) else queue_view sid w)"
  "queue_view sid (remove_queued s qid w) = (if s = sid then queue_step cwd sid (RemoveQueued cwd sid qid) (queue_view sid w) else queue_view sid w)"
  by (simp_all add: queue_view_def filter_filter conj_commute)

lemma queue_view_other:
  "queue_view sid w' = queue_view sid w" if "ws_queuedBySessionId w' = ws_queuedBySessionId w"
  using queue_of_cong[OF that] by (simp add: queue_view_def)

fun touches_queue :: "workspace_action \<Rightarrow> bool" where
  "touches_queue (AppendQueued c s item) = True"
| "touches_queue (RemoveQueued c s qid) = True"
| "touches_queue (ApplyEvent c s quiet now ev) = True"
| "touches_queue (RemoveSession c s) = True"
| "touches_queue a = False"

lemma queue_slots_kept:
  "jm_get state cwd = Some w \<Longrightarrow> \<not> replaces cwd a \<Longrightarrow> \<not> touches_queue a \<Longrightarrow>
   \<exists>w'. jm_get (workspacesReducer ms clock state a) cwd = Some w' \<and> ws_queuedBySessionId w' = ws_queuedBySessionId w"
  by (cases a) (auto simp: updateWs_at set_active_at ws_transitions simp del: workspacesReducer.simps(4) split: option.split)

lemma queue_step_untouched: "\<not> touches_queue a \<Longrightarrow> queue_step cwd sid a v = v"
  by (cases a) simp_all

interpretation queue: workspace_view ms cwd "queue_view sid" "queue_step cwd sid" "\<lambda>a. \<not> replaces cwd a" for ms cwd sid
proof
  fix state :: workspaces and w a clock
  assume w: "jm_get state cwd = Some w" and a: "\<not> replaces cwd a"
  show "\<exists>w'. jm_get (workspacesReducer ms clock state a) cwd = Some w' \<and> queue_view sid w' = queue_step cwd sid a (queue_view sid w)"
  proof (cases "touches_queue a")
    case True
    then show ?thesis
      using w by (cases a; cases "queue_view sid w") (auto simp: updateWs_at simp del: queue_view_rows
          simp: queue_view_rows[of sid _ _ _ cwd])
  next
    case False
    then show ?thesis
      using queue_slots_kept[OF w a False] queue_view_other by (metis queue_step_untouched)
  qed
qed

subsection \<open>Requests that wait for a decision\<close>

fun request_step :: "string \<Rightarrow> workspace_action \<Rightarrow> (string, permission_request) js_map \<Rightarrow> (string, permission_request) js_map" where
  "request_step cwd (CommandPermissionRequested c s q) m = (if c = cwd then jm_set m (pq_requestId q) q else m)"
| "request_step cwd (CommandPermissionResolved c r) m = (if c = cwd then jm_delete m r else m)"
| "request_step cwd (RemoveSession c s) m = (if c = cwd then omitRequestsForSession m s else m)"
| "request_step cwd (SidecarRestarted c) m = (if c = cwd then [] else m)"
| "request_step cwd a m = m"

interpretation requests: workspace_view ms cwd ws_pendingCommandPermissions "request_step cwd" "\<lambda>a. \<not> replaces cwd a" for ms cwd
proof
  fix state :: workspaces and w a clock
  assume "jm_get state cwd = Some w" "\<not> replaces cwd a"
  then show "\<exists>w'. jm_get (workspacesReducer ms clock state a) cwd = Some w' \<and>
      ws_pendingCommandPermissions w' = request_step cwd a (ws_pendingCommandPermissions w)"
    by (cases a) (auto simp: updateWs_at set_active_at ws_transitions simp del: workspacesReducer.simps(4)
        split: option.split session_event.split)
qed

subsection \<open>Which session is on screen\<close>

type_synonym shown_view = "string option \<times> string option"

definition shown_view :: "workspace_state \<Rightarrow> shown_view" where
  "shown_view w = (ws_activeSession w, ws_loadingSessionId w)"

fun shown_step :: "string \<Rightarrow> workspace_action \<Rightarrow> shown_view \<Rightarrow> shown_view" where
  "shown_step cwd (AddSession c s makeActive) (shown, loading) = (if c = cwd \<and> makeActive then Some (sm_id s) else shown, loading)"
| "shown_step cwd (AttachStart c s) (shown, loading) =
     (if c \<noteq> cwd then (shown, loading) else if shown = Some s then (shown, None) else (shown, Some s))"
| "shown_step cwd (AttachFailed c s) (shown, loading) = (shown, if c = cwd \<and> loading = Some s then None else loading)"
| "shown_step cwd (Attach c s messages ids inFlight settled) (shown, loading) =
     (if c = cwd \<and> shown \<noteq> Some s \<and> loading = Some s then (Some s, None) else (shown, loading))"
| "shown_step cwd (RemoveSession c s) (shown, loading) =
     (if c = cwd then (if shown = Some s then None else shown, if loading = Some s then None else loading) else (shown, loading))"
| "shown_step cwd (BeginPendingNewSession c) v = (if c = cwd then (None, None) else v)"
| "shown_step cwd a v = v"

interpretation shown: workspace_view ms cwd shown_view "shown_step cwd" "\<lambda>a. \<not> replaces cwd a" for ms cwd
proof
  fix state :: workspaces and w a clock
  assume "jm_get state cwd = Some w" "\<not> replaces cwd a"
  then show "\<exists>w'. jm_get (workspacesReducer ms clock state a) cwd = Some w' \<and> shown_view w' = shown_step cwd a (shown_view w)"
    by (cases a) (auto simp: updateWs_at set_active_at shown_view_def ws_transitions simp del: workspacesReducer.simps(4)
        split: option.split session_event.split)
qed

text \<open>The actions by which somebody chooses another session, or by which opening one ends.\<close>

fun navigates :: "string \<Rightarrow> string \<Rightarrow> workspace_action \<Rightarrow> bool" where
  "navigates cwd sid (AttachStart c s) = (c = cwd)"
| "navigates cwd sid (AttachFailed c s) = (c = cwd \<and> s = sid)"
| "navigates cwd sid (Attach c s messages ids inFlight settled) = (c = cwd \<and> s = sid)"
| "navigates cwd sid (AddSession c s makeActive) = (c = cwd \<and> makeActive)"
| "navigates cwd sid (RemoveSession c s) = (c = cwd \<and> s = sid)"
| "navigates cwd sid (BeginPendingNewSession c) = (c = cwd)"
| "navigates cwd sid a = False"

definition still_opening :: "string \<Rightarrow> string option \<Rightarrow> shown_view \<Rightarrow> bool" where
  "still_opening sid before v \<longleftrightarrow> snd v = Some sid \<and> fst v \<noteq> Some sid \<and> (fst v = before \<or> fst v = None)"

lemma opening_kept: "\<not> navigates cwd sid a \<Longrightarrow> still_opening sid before v \<Longrightarrow> still_opening sid before (shown_step cwd a v)"
  by (cases a; cases v) (auto simp: still_opening_def)

lemma shown_kept: "\<not> navigates cwd sid a \<Longrightarrow> v = (Some sid, None) \<Longrightarrow> shown_step cwd a v = (Some sid, None)"
  by (cases a) auto

section \<open>Properties\<close>

text \<open>A row of the client and the server's row of the same kind and text are shown side by side.\<close>

lemma echoed_row_stays:
  assumes "qi_optimistic q" "q \<in> set (queue_of w sid)"
  shows "q \<in> set (queue_of (event_queue sid (QueueUpdate queues) w) sid)"
  using assms by (simp add: event_queue_def)

text \<open>The state of a run follows its session, whatever is on screen. Over any run of the client in
  which the session's answers do not arrive as the reply to a call, a session is marked as running
  exactly when the last of its run boundaries and explicit settings says so: opening other sessions,
  starting new ones, their events and those of other workspaces make no difference.\<close>

theorem run_flag_follows_session:
  assumes "jm_get state cwd = Some w" "\<forall>a \<in> snd ` set acts. \<not> replaces cwd a \<and> \<not> settles_shown cwd sid a"
  shows "\<exists>w'. jm_get (run_actions ms state acts) cwd = Some w' \<and>
    run_flag sid w' = foldl (\<lambda>v a. run_flag_step cwd sid a v) (run_flag sid w) (map snd acts)"
  by (rule run_flag.view_run[OF assms])

text \<open>C22: The queue of a session is what the client put there and has not taken back, and what the
  server listed last. Over any run of the client the rows of the client are those it appended, less
  those it removed by their identifier, and the rows of the server are those of the last list, less
  those cancelled since; an abort and the removal of the session empty both. Neither kind is lost to
  the other, or to anything that happens to other sessions. In particular a row of the client stays
  when the server lists the same text, also beside it, until the client removes it: this is what the
  reducer says of itself where it handles \<open>queue_update\<close>, and not what the comment on
  \<open>queuedBySessionId\<close> says (\<open>echoed_row_stays\<close>).\<close>

theorem queue_refines_two_lists:
  assumes "jm_get state cwd = Some w" "\<forall>a \<in> snd ` set acts. \<not> replaces cwd a"
  shows "\<exists>w'. jm_get (run_actions ms state acts) cwd = Some w' \<and>
    queue_view sid w' = foldl (\<lambda>v a. queue_step cwd sid a v) (queue_view sid w) (map snd acts)"
  by (rule queue.view_run[OF assms])

lemma attach_shown_view: "shown_view (attach_land sid messages ids inFlight settled w) = shown_step (ws_cwd w) (Attach (ws_cwd w) sid messages ids inFlight settled) (shown_view w)"
  by (simp add: shown_view_def ws_transitions)

text \<open>C21: The session opened last is the one that is shown. Between opening a session and the arrival
  of its history, the histories of sessions opened before may arrive and anything else may happen that
  is not a choice of the user: the screen keeps what it shows (or goes blank when that is deleted), and
  when the history arrives the session is shown, with that history unless it was on screen already.\<close>

theorem last_opened_is_shown:
  assumes w: "jm_get state cwd = Some w"
    and acts: "\<forall>a \<in> snd ` set acts. \<not> replaces cwd a \<and> \<not> navigates cwd sid a"
  shows "\<exists>w1 w2. jm_get (run_actions ms state ((c0, AttachStart cwd sid) # acts)) cwd = Some w1 \<and>
    (ws_activeSession w1 = ws_activeSession w \<or> ws_activeSession w1 = None) \<and>
    jm_get (run_actions ms state ((c0, AttachStart cwd sid) # acts @ [(c1, Attach cwd sid messages ids inFlight settled)])) cwd = Some w2 \<and>
    ws_activeSession w2 = Some sid \<and> ws_loadingSessionId w2 = None \<and>
    (ws_activeSession w \<noteq> Some sid \<longrightarrow> ws_messages w2 = messages)"
proof -
  let ?s0 = "workspacesReducer ms c0 state (AttachStart cwd sid)"
  have start: "jm_get ?s0 cwd = Some (attach_start sid w)" using w by simp
  have ok: "\<forall>a \<in> snd ` set acts. \<not> replaces cwd a" using acts by blast
  have land: "\<exists>w2. jm_get (run_actions ms state ((c0, AttachStart cwd sid) # acts @ [(c1, Attach cwd sid messages ids inFlight settled)])) cwd
      = Some w2 \<and> w2 = attach_land sid messages ids inFlight settled w1"
    if "jm_get (run_actions ms ?s0 acts) cwd = Some w1" for w1
    using that by (simp add: run_actions_append)
  show ?thesis
  proof (cases "ws_activeSession w = Some sid")
    case True
    then have "shown_view (attach_start sid w) = (Some sid, None)" by (simp add: shown_view_def attach_start_def)
    moreover have "\<forall>a \<in> snd ` set acts. \<forall>v. v = (Some sid, None) \<longrightarrow> shown_step cwd a v = (Some sid, None)"
      using acts shown_kept by blast
    ultimately obtain w1 where w1: "jm_get (run_actions ms ?s0 acts) cwd = Some w1" "shown_view w1 = (Some sid, None)"
      using shown.view_kept[OF start ok, of "\<lambda>v. v = (Some sid, None)"] by blast
    then show ?thesis using land[OF w1(1)] True by (auto simp: shown_view_def attach_land_def)
  next
    case False
    then have "still_opening sid (ws_activeSession w) (shown_view (attach_start sid w))"
      by (simp add: shown_view_def attach_start_def still_opening_def)
    moreover have "\<forall>a \<in> snd ` set acts. \<forall>v. still_opening sid (ws_activeSession w) v \<longrightarrow>
        still_opening sid (ws_activeSession w) (shown_step cwd a v)"
      using acts opening_kept by blast
    ultimately obtain w1 where w1: "jm_get (run_actions ms ?s0 acts) cwd = Some w1"
      "still_opening sid (ws_activeSession w) (shown_view w1)"
      using shown.view_kept[OF start ok, of "still_opening sid (ws_activeSession w)"] by blast
    then show ?thesis
      using land[OF w1(1)] False by (auto simp: shown_view_def attach_land_def still_opening_def reset_session_def)
  qed
qed

lemma request_kept_by_filter: "jm_get m r = Some q \<Longrightarrow> p q \<Longrightarrow> jm_get (filter (\<lambda>e. p (snd e)) m) r = Some q"
  by (induction m) (auto simp: jm_get_def split: if_splits)

text \<open>The actions after which a request waits no more.\<close>

fun ends_request :: "string \<Rightarrow> permission_request \<Rightarrow> workspace_action \<Rightarrow> bool" where
  "ends_request cwd q (CommandPermissionResolved c r) = (c = cwd \<and> r = pq_requestId q)"
| "ends_request cwd q (CommandPermissionRequested c s q') = (c = cwd \<and> pq_requestId q' = pq_requestId q)"
| "ends_request cwd q (RemoveSession c s) = (c = cwd \<and> request_of_session s q)"
| "ends_request cwd q (SidecarRestarted c) = (c = cwd)"
| "ends_request cwd q a = False"

lemma request_step_keeps:
  "\<not> ends_request cwd q a \<Longrightarrow> jm_get m (pq_requestId q) = Some q \<Longrightarrow> jm_get (request_step cwd a m) (pq_requestId q) = Some q"
  by (cases a) (auto simp: omitRequestsForSession_def intro: request_kept_by_filter[where p = "\<lambda>q. \<not> request_of_session _ q"])

text \<open>A request that waits for a decision is not lost by anything but its end: not by opening another
  session, not by the events of any session.\<close>

lemma request_survives:
  assumes "jm_get state cwd = Some w" "jm_get (ws_pendingCommandPermissions w) (pq_requestId q) = Some q"
    and "\<forall>a \<in> snd ` set acts. \<not> replaces cwd a \<and> \<not> ends_request cwd q a"
  shows "\<exists>w'. jm_get (run_actions ms state acts) cwd = Some w' \<and>
    jm_get (ws_pendingCommandPermissions w') (pq_requestId q) = Some q"
  using requests.view_kept[OF assms(1), of acts "\<lambda>m. jm_get m (pq_requestId q) = Some q"] assms(2,3) request_step_keeps
  by blast

section \<open>Child agents in the background\<close>

definition launch_receipt :: "string \<Rightarrow> string \<Rightarrow> string \<Rightarrow> js option \<Rightarrow> bool \<Rightarrow> int \<Rightarrow> workspace_action" where
  "launch_receipt cwd sid callId res quiet now = ApplyEvent cwd sid quiet now (ToolEnd (Some callId) (Some ''agent'') res False)"

definition launched_free :: "string \<Rightarrow> workspace_state \<Rightarrow> bool" where
  "launched_free callId w \<longleftrightarrow>
     jm_get (ws_agentToolPending w) callId = None \<and> jm_get (ws_backgroundSubagents w) callId = Some BgRunning"

lemma receipt_frees:
  "ws_activeSession w = Some sid \<Longrightarrow> callId \<noteq> [] \<Longrightarrow> isBackgroundLaunchDetails (opt_prop res ''details'') \<Longrightarrow>
   launched_free callId (apply_event sid quiet now (ToolEnd (Some callId) (Some ''agent'') res False) w)"
  by (simp add: launched_free_def ws_transitions)

lemma spawned_keeps [simp]: "ws_activeSession (subagent_spawned sid callId sub agentType w) = ws_activeSession w"
  by (simp add: subagent_spawned_def)

lemma spawned_stays_free:
  "launched_free callId w \<Longrightarrow> launched_free callId (subagent_spawned sid callId sub agentType w)"
  by (simp add: launched_free_def subagent_spawned_def)

text \<open>A child agent that runs in the background does not block its session. In whichever order the
  receipt of its launch and the news of its session arrive, the call is not among those the composer
  waits for and is known to run; when the child settles its outcome is recorded, and still nothing
  waits for it.\<close>

theorem background_child_does_not_block:
  assumes "jm_get state cwd = Some w" "ws_activeSession w = Some sid" "callId \<noteq> []"
    and "isBackgroundLaunchDetails (opt_prop res ''details'')"
    and "acts \<in> {[launch_receipt cwd sid callId res quiet now, SubagentSpawned cwd sid callId sub agentType],
      [SubagentSpawned cwd sid callId sub agentType, launch_receipt cwd sid callId res quiet now]}"
  shows "\<exists>w1 w2. jm_get (run_actions ms state (map (Pair clock) acts)) cwd = Some w1 \<and> launched_free callId w1 \<and>
    jm_get (run_actions ms state (map (Pair clock) (acts @ [SubagentSettled cwd callId outcome]))) cwd = Some w2 \<and>
    jm_get (ws_agentToolPending w2) callId = None \<and> jm_get (ws_backgroundSubagents w2) callId = Some outcome"
proof -
  have "\<exists>w1. jm_get (run_actions ms state (map (Pair clock) acts)) cwd = Some w1 \<and> launched_free callId w1"
    using assms by (auto simp: launch_receipt_def receipt_frees spawned_stays_free)
  then show ?thesis by (auto simp: run_actions_append subagent_settled_def)
qed

text \<open>A child agent of a session that is not on screen leaves its mark: the news of its session sets
  it, the end of its call is dropped with the other events of the session, and the end of the run
  does not remove it either. The whole workspace shows as busy.\<close>

lemma hidden_child_blocks:
  assumes "jm_get state cwd = Some w" "ws_activeSession w \<noteq> Some sid" "jm_get (ws_backgroundSubagents w) callId = None"
  shows "\<exists>w'. jm_get (run_actions ms state (map (Pair clock) [SubagentSpawned cwd sid callId sub agentType,
      ApplyEvent cwd sid quiet now (ToolEnd (Some callId) (Some ''agent'') res isError),
      ApplyEvent cwd sid quiet now RunEnd])) cwd = Some w' \<and>
    jm_get (ws_agentToolPending w') callId = Some ()"
  using assms by (simp add: ws_transitions)

section \<open>A session that is opened again\<close>

lemma rebuilt_running:
  "jm_get (foldl (rebuild_tool inFlight settled) m tools) tid = Some BgRunning \<Longrightarrow>
   tid \<in> set inFlight \<or> jm_get m tid = Some BgRunning"
proof (induction tools arbitrary: m)
  case (Cons t tools)
  have "tid \<in> set inFlight \<or> jm_get (rebuild_tool inFlight settled m t) tid = Some BgRunning"
    using Cons.prems Cons.IH by simp
  then show ?case
    by (auto simp: rebuild_tool_def rebuilt_state_def split: option.splits if_splits js.splits)
qed simp

lemma live_call_in_flight:
  assumes "entryFromTool t (rebuildBackgroundSubagents messages (Some ids) settled) = Some e" "is_live e"
    and "ut_status t = Running \<longrightarrow> may_spin (Some ids) t"
  shows "\<exists>i \<in> set ids. ut_id t = Some i"
proof -
  obtain tid where tid: "ut_id t = Some tid" "is_agent_tool t"
    using assms(1) by (auto simp: entryFromTool_def split: option.splits if_splits)
  have agent: "\<not> waits_for_user t" using tid(2) by (auto simp: is_agent_tool_def AGENT_TOOL_NAMES_def waits_for_user_def)
  have "backgroundStatus tid (rebuildBackgroundSubagents messages (Some ids) settled) (ut_status t) \<in> {SubRunning, SubBackground}"
    using assms(1,2) tid by (auto simp: entryFromTool_def is_live_def Let_def split: if_splits)
  then have "ut_status t = Running \<or> tid \<in> set ids"
    using rebuilt_running[of ids "or_else settled []" "[]" _ tid]
    by (auto simp: backgroundStatus_def rebuildBackgroundSubagents_def split: option.splits subagent_state.splits)
      (cases "ut_status t"; auto)+
  then show ?thesis using assms(3) agent tid(1) by (auto simp: may_spin_def)
qed

lemma entry_facts:
  "entryFromTool t background = Some e \<Longrightarrow> is_agent_tool t \<and>
   (sb_subSessionId e = Some sub \<longrightarrow> readString (ut_details t) ''subSessionId'' = sub) \<and> (is_live e \<longrightarrow> sb_subSessionId e \<noteq> None)"
  by (auto simp: entryFromTool_def Let_def is_live_def split: option.splits if_splits)

lemma panel_entry_call:
  assumes "e \<in> set (subagent_panel calls)" "sb_subSessionId e = Some sub"
  shows "\<exists>c \<in> set calls. sb_subSessionId c = Some sub \<and> sb_status c = sb_status e"
proof -
  obtain x where x: "x \<in> set (first_calls calls)" "e = with_last_status calls x"
    using assms(1) by (auto simp: subagent_panel_def)
  then have sub: "sb_subSessionId x = Some sub" using assms(2) by simp
  then have "x \<in> set (calls_of_child sub calls)"
    using x(1) first_calls_subset by (auto simp: calls_of_child_def)
  then have "last (calls_of_child sub calls) \<in> set (calls_of_child sub calls)"
    by (intro last_in_set) auto
  then show ?thesis using x(2) sub by (auto simp: with_last_status_def calls_of_child_def)
qed

lemma panel_live_child: "e \<in> set (subagent_panel (subagent_calls messages background)) \<Longrightarrow> is_live e \<Longrightarrow> \<exists>sub. sb_subSessionId e = Some sub"
  using first_calls_subset[of "subagent_calls messages background"] entry_facts
  by (fastforce simp: subagent_panel_def subagent_calls_def with_last_status_def map_filter_def split: option.splits)

text \<open>A session that is opened again shows a child agent as working only when it is. After the
  history and the list of running calls that come with the attach, every child the panel shows as
  running belongs to an agent call of the history that is on this list: children the sidecar lost
  are never shown as working.\<close>

theorem reopened_children_alive:
  assumes "jm_get state cwd = Some w" "ws_activeSession w \<noteq> Some sid" "ws_loadingSessionId w = Some sid"
    and "messages = historyToUiMessages date now entries (Some ids)"
    and "jm_get (workspacesReducer ms clock state (Attach cwd sid messages pendingIds (Some ids) settled)) cwd = Some w'"
    and "e \<in> set (deriveSubagents (ws_messages w') (ws_backgroundSubagents w'))" "is_live e"
  shows "\<exists>t \<in> set (concat (map tools_of messages)). is_agent_tool t \<and> (\<exists>i \<in> set ids. ut_id t = Some i) \<and>
    sb_subSessionId e = Some (readString (ut_details t) ''subSessionId'')"
proof -
  let ?bg = "rebuildBackgroundSubagents messages (Some ids) settled"
  have "ws_messages w' = messages" "ws_backgroundSubagents w' = ?bg"
    using assms(1,2,3,5) by (auto simp: attach_land_def)
  then have e: "e \<in> set (subagent_panel (subagent_calls messages ?bg))"
    using assms(6) derive_panel[of "subagent_calls messages ?bg"] by (auto simp: deriveSubagents_def)
  then obtain sub where sub: "sb_subSessionId e = Some sub" using panel_live_child assms(7) by blast
  obtain c where c: "c \<in> set (subagent_calls messages ?bg)" "sb_subSessionId c = Some sub" "is_live c"
    using panel_entry_call[OF e sub] assms(7) by (auto simp: is_live_def)
  then obtain t where t: "t \<in> set (concat (map tools_of messages))" "entryFromTool t ?bg = Some c"
    unfolding subagent_calls_def mem_map_filter by blast
  moreover have "ut_status t = Running \<longrightarrow> may_spin (Some ids) t"
    using t(1) unfolding assms(4)
    by (auto simp: historyToUiMessages_def expireUnresolvedToolCalls_def dest: expired_may_spin)
  ultimately show ?thesis
    using live_call_in_flight[OF t(2) c(3)] entry_facts[OF t(2), of sub] c(2) sub by blast
qed

section \<open>Witnesses\<close>

definition demo_text :: "string \<Rightarrow> js" where
  "demo_text t = JObj [(''type'', JStr ''text''), (''text'', JStr t)]"

definition demo_agent_call :: js where
  "demo_agent_call = JObj [(''type'', JStr ''toolCall''), (''id'', JStr ''k1''), (''name'', JStr ''agent''), (''arguments'', JObj [])]"

definition demo_message :: js where
  "demo_message = JObj [(''role'', JStr ''assistant''), (''timestamp'', JNum ''7''), (''content'', JArr [demo_text ''on it'', demo_agent_call])]"

definition demo_call :: tool_call where
  "demo_call = \<lparr>tc_id = ''k1'', tc_name = ''agent'', tc_args = Some (JObj []), tc_updates = [demo_text ''starting''], tc_content = [demo_text ''launched''],
     tc_details = Some (JObj [(''status'', JStr ''launched''), (''subSessionId'', JStr ''c1'')]), tc_error = False\<rparr>"

definition demo_entries :: "chat_entry list" where
  "demo_entries = map2 stored [(''e1'', Some (Millis 5)), (''e2'', None)] (demo_message # map result_payload [demo_call])"

definition demo_history :: "ui_message list" where
  "demo_history = historyToUiMessages (\<lambda>_. None) 9 (Some demo_entries) (Some [''k1''])"

definition demo_ws :: workspace_state where
  "demo_ws = (createEmptyWorkspace ''/w'' True)\<lparr>ws_activeSession := Some ''s1''\<rparr>"

abbreviation demo_state :: workspaces where "demo_state \<equiv> [(''/w'', demo_ws)]"

lemma demo_at: "jm_get demo_state ''/w'' = Some demo_ws" by (simp add: jm_get_def)

lemma demo_shows [simp]: "ws_activeSession demo_ws = Some ''s1''" "ws_loadingSessionId demo_ws = None"
  by (simp_all add: demo_ws_def createEmptyWorkspace_def)

lemma demo_message_ok:
  "is_role ''assistant'' (Some demo_message)" "has_time (Some demo_message)" "clean_end (Some demo_message)"
  "is_object demo_message" "solid_text demo_message" "carries_calls demo_message [demo_call]" "question_ok demo_call"
  by (simp_all add: is_role_def opt_prop_def js_prop_def jm_get_def demo_message_def has_time_def clean_end_def assistantFailureText_def
      solid_text_def is_part_def demo_text_def demo_agent_call_def carries_calls_def call_of_def pending_card_def opt_text_def
      opt_list_def demo_call_def question_ok_def)


definition demo_acts :: "(int \<times> workspace_action) list" where
  "demo_acts = [(1, ApplyEvent ''/w'' ''s2'' False 1 RunStart), (2, AttachStart ''/w'' ''s2''), (3, BeginPendingNewSession ''/w'')]"

theorem run_flag_follows_session_witness:
  "\<exists>w'. jm_get (run_actions (\<lambda>_. 0) demo_state demo_acts) ''/w'' = Some w' \<and> run_flag ''s2'' w' = Some True"
  using run_flag_follows_session[OF demo_at, of demo_acts "''s2''" "\<lambda>_. 0"] by (simp add: demo_acts_def)

definition demo_row :: queued_item where
  "demo_row = \<lparr>qi_id = ''optimistic-queued-1'', qi_kind = Steer, qi_text = ''stop'', qi_optimistic = True\<rparr>"

theorem queue_refines_two_lists_witness:
  "\<exists>w'. jm_get (run_actions (\<lambda>_. 0) demo_state [(1, AppendQueued ''/w'' ''s1'' demo_row), (2, ApplyEvent ''/w'' ''s1'' False 2 (QueueUpdate None))]) ''/w''
      = Some w' \<and> queue_view ''s1'' w' = ([demo_row], [])"
proof -
  have "queue_view ''s1'' demo_ws = ([], [])"
    by (simp add: queue_view_def queue_of_def demo_ws_def createEmptyWorkspace_def)
  then show ?thesis
    using queue_refines_two_lists[OF demo_at, of "[(1, AppendQueued ''/w'' ''s1'' demo_row), (2, ApplyEvent ''/w'' ''s1'' False 2 (QueueUpdate None))]"
        "\<lambda>_. 0" "''s1''"]
    by (simp add: demo_row_def queuedItemsFromEvent_def opt_list_def map_filter_def)
qed

theorem last_opened_is_shown_witness:
  "\<exists>w2. jm_get (run_actions (\<lambda>_. 0) demo_state ((1, AttachStart ''/w'' ''s3'') #
      [(2, Attach ''/w'' ''s2'' [] [] None None)] @ [(3, Attach ''/w'' ''s3'' demo_history [] None None)])) ''/w'' = Some w2 \<and>
    ws_activeSession w2 = Some ''s3'' \<and> ws_messages w2 = demo_history"
  using last_opened_is_shown[OF demo_at, of "[(2, Attach ''/w'' ''s2'' [] [] None None)]" "''s3''" "\<lambda>_. 0" 1 3 demo_history "[]" None None]
  by auto

theorem background_child_does_not_block_witness:
  "\<exists>w1. jm_get (run_actions (\<lambda>_. 0) demo_state (map (Pair 1)
      [SubagentSpawned ''/w'' ''s1'' ''k1'' ''c1'' [],
       launch_receipt ''/w'' ''s1'' ''k1'' (Some (JObj [(''details'', JObj [(''status'', JStr ''launched'')])])) False 1])) ''/w'' = Some w1 \<and>
    launched_free ''k1'' w1"
proof -
  have "isBackgroundLaunchDetails (opt_prop (Some (JObj [(''details'', JObj [(''status'', JStr ''launched'')])])) ''details'')"
    by code_simp
  then show ?thesis
    using background_child_does_not_block[OF demo_at demo_shows(1), of "''k1''" _ _ False 1 "''c1''" "[]" "\<lambda>_. 0" 1 BgCompleted]
    by (metis (no_types, lifting) insertI1 insertI2 list.distinct(1))
qed

definition demo_child :: subagent_entry where
  "demo_child = hd (deriveSubagents demo_history (rebuildBackgroundSubagents demo_history (Some [''k1'']) None))"

lemma demo_child_listed:
  "demo_child \<in> set (deriveSubagents demo_history (rebuildBackgroundSubagents demo_history (Some [''k1'']) None))" "is_live demo_child"
proof -
  have ne: "deriveSubagents demo_history (rebuildBackgroundSubagents demo_history (Some [''k1'']) None) \<noteq> []" by code_simp
  then show "demo_child \<in> set (deriveSubagents demo_history (rebuildBackgroundSubagents demo_history (Some [''k1'']) None))"
    unfolding demo_child_def by (rule hd_in_set)
  show "is_live demo_child" by code_simp
qed

theorem reopened_children_alive_witness:
  "is_live demo_child \<and>
     (\<exists>t \<in> set (concat (map tools_of demo_history)). is_agent_tool t \<and> (\<exists>i \<in> set [''k1'']. ut_id t = Some i) \<and>
       sb_subSessionId demo_child = Some (readString (ut_details t) ''subSessionId''))"
proof -
  let ?w = "demo_ws\<lparr>ws_loadingSessionId := Some ''s2''\<rparr>"
  have w: "jm_get [(''/w'', ?w)] ''/w'' = Some ?w" by (simp add: jm_get_def)
  have "jm_get (workspacesReducer (\<lambda>_. 0) 1 [(''/w'', ?w)] (Attach ''/w'' ''s2'' demo_history [] (Some [''k1'']) None)) ''/w'' =
      Some (attach_land ''s2'' demo_history [] (Some [''k1'']) None ?w)"
    using w by simp
  moreover have "ws_messages (attach_land ''s2'' demo_history [] (Some [''k1'']) None ?w) = demo_history"
    "ws_backgroundSubagents (attach_land ''s2'' demo_history [] (Some [''k1'']) None ?w) =
      rebuildBackgroundSubagents demo_history (Some [''k1'']) None" by (simp_all add: attach_land_def)
  ultimately show ?thesis
    using reopened_children_alive[OF w _ _ demo_history_def, of "''s2''" "\<lambda>_. 0" 1 "[]" None, OF _ _ _ _ demo_child_listed(2)]
      demo_child_listed by simp
qed

end
