(* ===== verification/DreamPlan.thy ===== *)
theory DreamPlan
  imports JsValue
begin

text \<open>
  The consolidation plan of a workspace's memory:
  \<open>packages/sidecar/src/memory/dream/dreamPlan.ts\<close>, with \<open>memory/types.ts\<close> and
  \<open>lib/jsonExtract.ts\<close>. A language model proposes actions as text; the text is parsed
  defensively, the plan is trimmed to the cap on retirements and checked as a whole. The parser of
  JSON (\<^const>\<open>None\<close> when it throws) and the parser of dates are arguments.
\<close>

section \<open>Topics and actions\<close>

datatype entry_type = UserEntry | FeedbackEntry | ProjectEntry | ReferenceEntry

fun entry_type_of :: "string \<Rightarrow> entry_type option" where
  "entry_type_of t =
     (if t = ''user'' then Some UserEntry else if t = ''feedback'' then Some FeedbackEntry
      else if t = ''project'' then Some ProjectEntry else if t = ''reference'' then Some ReferenceEntry else None)"

record memory_entry =
  me_id :: string
  me_name :: string
  me_description :: string
  me_type :: entry_type
  me_content :: string
  me_createdAt :: string
  me_updatedAt :: "string option"

record merge_action =
  mg_sourceIds :: "string list"
  mg_id :: string
  mg_name :: string
  mg_description :: string
  mg_type :: entry_type
  mg_content :: string

datatype dream_action =
    Merge merge_action
  | Rewrite string string
  | Archive string string "string option"

record dream_options =
  do_minHours :: int
  do_minChanges :: nat
  do_staleDays :: int
  do_staleDaysDurable :: int

definition DEFAULT_DREAM_OPTIONS :: dream_options where
  "DEFAULT_DREAM_OPTIONS = \<lparr>do_minHours = 24, do_minChanges = 5, do_staleDays = 90, do_staleDaysDurable = 180\<rparr>"

text \<open>\<open>Math.floor(n * 0.3)\<close>.\<close>

definition retirementCap :: "nat \<Rightarrow> nat" where
  "retirementCap topicCount = max 2 (3 * topicCount div 10)"

record topic_view =
  tv_id :: string
  tv_name :: string
  tv_description :: string
  tv_type :: entry_type
  tv_content :: string
  tv_createdAt :: string
  tv_updatedAt :: "string option"
  tv_lastReadAt :: "string option"
  tv_idleDays :: int
  tv_stale :: bool

definition normalizeMemoryTopicId :: "string \<Rightarrow> string" where
  "normalizeMemoryTopicId i =
     take 64 (filter (\<lambda>c. is_lower_ascii c \<or> is_digit_ascii c \<or> c = CHR ''-'')
       (join ''-'' (split_space (trim (toLowerCase i)))))"

subsection \<open>Views\<close>

definition DAY_MS :: int where "DAY_MS = 86400000"

definition lastActivityAt :: "(string \<Rightarrow> int option) \<Rightarrow> memory_entry \<Rightarrow> string option \<Rightarrow> int" where
  "lastActivityAt date topic lastReadAt =
     (let stamps = List.map_filter date
            (me_createdAt topic # (case me_updatedAt topic of None \<Rightarrow> [] | Some u \<Rightarrow> [u]) @ (case lastReadAt of None \<Rightarrow> [] | Some r \<Rightarrow> [r]))
      in if stamps = [] then 0 else Max (set stamps))"

definition view_of ::
  "(string \<Rightarrow> int option) \<Rightarrow> (string, string) js_map \<Rightarrow> dream_options \<Rightarrow> int \<Rightarrow> memory_entry \<Rightarrow> topic_view" where
  "view_of date usage options now topic =
     (let lastReadAt = jm_get usage (me_id topic);
          idle = max 0 ((now - lastActivityAt date topic lastReadAt) div DAY_MS);
          horizon = (if me_type topic = UserEntry \<or> me_type topic = FeedbackEntry then do_staleDaysDurable options else do_staleDays options)
      in \<lparr>tv_id = me_id topic, tv_name = me_name topic, tv_description = me_description topic, tv_type = me_type topic,
           tv_content = me_content topic, tv_createdAt = me_createdAt topic, tv_updatedAt = me_updatedAt topic,
           tv_lastReadAt = lastReadAt, tv_idleDays = idle, tv_stale = (horizon \<le> idle)\<rparr>)"

definition buildTopicViews ::
  "(string \<Rightarrow> int option) \<Rightarrow> memory_entry list \<Rightarrow> (string, string) js_map \<Rightarrow> dream_options \<Rightarrow> int \<Rightarrow> topic_view list" where
  "buildTopicViews date topics usage options now = map (view_of date usage options now) topics"

section \<open>Finding JSON in an answer\<close>

text \<open>\<open>indexOf\<close> of a text, and the index of the last \<open>close\<close>.\<close>

fun index_sub :: "string \<Rightarrow> string \<Rightarrow> nat option" where
  "index_sub p [] = (if p = [] then Some 0 else None)"
| "index_sub p (c # cs) = (if startsWith (c # cs) p then Some 0 else map_option Suc (index_sub p cs))"

definition fence :: string where "fence = [CHR 0x60, CHR 0x60, CHR 0x60]"

text \<open>\<open>([\s\S]+?)\s*```\<close>: the shortest text that is not empty and has white space and a fence behind it.\<close>

fun lazy_body :: "string \<Rightarrow> string \<Rightarrow> string option" where
  "lazy_body acc [] = None"
| "lazy_body acc (c # cs) =
     (if startsWith (dropWhile is_space cs) fence then Some (rev (c # acc)) else lazy_body (c # acc) cs)"

text \<open>\<open>\s*\<close> before it takes as much as it can.\<close>

fun after_space :: "string \<Rightarrow> string option" where
  "after_space [] = None"
| "after_space (c # cs) =
     (if is_space c then (case after_space cs of Some b \<Rightarrow> Some b | None \<Rightarrow> lazy_body [] (c # cs)) else lazy_body [] (c # cs))"

text \<open>The body of the first fence, with \<open>json\<close> after it in any case taken away when that matches.\<close>

fun fenced_body :: "string \<Rightarrow> string option" where
  "fenced_body [] = None"
| "fenced_body (c # cs) =
     (let here = (if \<not> startsWith (c # cs) fence then None
                  else let r = drop 3 (c # cs);
                           tagged = (if startsWith (toLowerCase r) ''json'' then after_space (drop 4 r) else None)
                       in case tagged of Some b \<Rightarrow> Some b | None \<Rightarrow> after_space r)
      in case here of Some b \<Rightarrow> Some b | None \<Rightarrow> fenced_body cs)"

definition extractJsonSpan :: "(string \<Rightarrow> js option) \<Rightarrow> string \<Rightarrow> char \<Rightarrow> char \<Rightarrow> js option" where
  "extractJsonSpan parse raw opening_char closing_char =
     (let trimmed = trim raw;
          by_fence = (case fenced_body trimmed of None \<Rightarrow> None | Some b \<Rightarrow> parse b);
          by_span = (case (indexOf opening_char trimmed, lastIndexOf closing_char trimmed) of
             (Some a, Some b) \<Rightarrow> if a < b then parse (slice a (Suc b) trimmed) else None
           | _ \<Rightarrow> None)
      in coalesce (parse trimmed) (coalesce by_fence by_span))"

section \<open>Parsing a plan\<close>

definition asText :: "js option \<Rightarrow> string option" where
  "asText v = (case v of Some (JStr s) \<Rightarrow> if trim s \<noteq> [] then Some (trim s) else None | _ \<Rightarrow> None)"

datatype action_kind = KMerge | KRewrite | KArchive

fun kind_named :: "string option \<Rightarrow> action_kind option" where
  "kind_named (Some k) =
     (if k = ''merge'' then Some KMerge else if k = ''rewrite'' then Some KRewrite
      else if k = ''archive'' then Some KArchive else None)"
| "kind_named None = None"

definition KIND_BY_KEY :: "(string \<times> action_kind) list" where
  "KIND_BY_KEY = [(''merge'', KMerge), (''merges'', KMerge), (''rewrite'', KRewrite), (''rewrites'', KRewrite),
     (''archive'', KArchive), (''archives'', KArchive)]"

definition ACTION_LIST_KEYS :: "string list" where
  "ACTION_LIST_KEYS = [''actions'', ''plan'', ''items'', ''results'', ''changes'']"

definition MAX_DREAM_ACTIONS :: nat where "MAX_DREAM_ACTIONS = 40"

definition MEMORY_CONTENT_MAX_CHARS :: nat where "MEMORY_CONTENT_MAX_CHARS = 1000"

text \<open>A candidate: the kind the enclosing key says, and the item.\<close>

type_synonym action_candidate = "action_kind option \<times> js"

text \<open>The objects of an unfinished array. The buffer holds the open object, last character first.\<close>

fun salvage_scan :: "(string \<Rightarrow> js option) \<Rightarrow> nat \<Rightarrow> string option \<Rightarrow> bool \<Rightarrow> bool \<Rightarrow> string \<Rightarrow> js list" where
  "salvage_scan parse depth buf inString escaped [] = []"
| "salvage_scan parse depth buf inString escaped (c # cs) =
     (let buf' = map_option (\<lambda>b. c # b) buf in
      if inString then
        (if escaped then salvage_scan parse depth buf' True False cs
         else if c = CHR 0x5C then salvage_scan parse depth buf' True True cs
         else salvage_scan parse depth buf' (c \<noteq> CHR 0x22) False cs)
      else if c = CHR 0x22 then salvage_scan parse depth buf' True escaped cs
      else if c = CHR ''{'' then salvage_scan parse (Suc depth) (if depth = 0 then Some [c] else buf') False escaped cs
      else if c = CHR ''}'' \<and> 0 < depth then
        (case buf' of
           Some b \<Rightarrow>
             if depth = 1
             then (case parse (rev b) of Some v \<Rightarrow> [v] | None \<Rightarrow> []) @ salvage_scan parse 0 None False escaped cs
             else salvage_scan parse (depth - 1) buf' False escaped cs
         | None \<Rightarrow> salvage_scan parse (depth - 1) None False escaped cs)
      else salvage_scan parse depth buf' False escaped cs)"

definition salvageActionObjects :: "(string \<Rightarrow> js option) \<Rightarrow> string \<Rightarrow> js list" where
  "salvageActionObjects parse raw =
     (case index_sub ([CHR 0x22] @ ''actions'' @ [CHR 0x22]) raw of
        None \<Rightarrow> []
      | Some keyAt \<Rightarrow>
          (case indexOf (CHR ''['') (drop keyAt raw) of
             None \<Rightarrow> []
           | Some k \<Rightarrow> salvage_scan parse 0 None False False (drop (keyAt + k + 1) raw)))"

fun collectActionItems :: "js \<Rightarrow> action_candidate list" where
  "collectActionItems (JArr xs) = map (Pair None) xs"
| "collectActionItems (JObj m) =
     (let out = concat (map (\<lambda>key. map (Pair None) (opt_list (jm_get m key))) ACTION_LIST_KEYS) @
            concat (map (\<lambda>(key, kind). map (Pair (Some kind)) (opt_list (jm_get m key))) KIND_BY_KEY)
      in if out = [] \<and> (jm_get m ''action'' \<noteq> None \<or> jm_get m ''kind'' \<noteq> None) then [(None, JObj m)] else out)"
| "collectActionItems _ = []"

definition resolveKind :: "js \<Rightarrow> action_kind option \<Rightarrow> action_kind option" where
  "resolveKind raw hint =
     coalesce (kind_named (map_option toLowerCase (asText (js_prop raw ''action''))))
       (coalesce (kind_named (map_option toLowerCase (asText (js_prop raw ''kind''))))
         (coalesce (kind_named (map_option toLowerCase (asText (js_prop raw ''op''))))
           (coalesce (kind_named (map_option toLowerCase (asText (js_prop raw ''type'')))) hint)))"

text \<open>\<open>a ?? b\<close> on values.\<close>

definition js_or :: "js option \<Rightarrow> js option \<Rightarrow> js option" where
  "js_or a b = (case a of None \<Rightarrow> b | Some JNull \<Rightarrow> b | _ \<Rightarrow> a)"

definition merge_target :: "js \<Rightarrow> js option" where
  "merge_target raw = js_or (js_prop raw ''target'') (js_or (js_prop raw ''merged'') (js_or (js_prop raw ''result'') (Some raw)))"

fun firstArray :: "js \<Rightarrow> string list \<Rightarrow> string list" where
  "firstArray raw [] = []"
| "firstArray raw (key # keys) =
     (let ids = List.map_filter (\<lambda>v. asText (Some v)) (opt_list (js_prop raw key)) in
      if ids \<noteq> [] then ids else firstArray raw keys)"

definition parseMerge :: "js \<Rightarrow> dream_action option" where
  "parseMerge raw =
     (let sourceIds = firstArray raw [''sourceIds'', ''source_ids'', ''sources'', ''from''];
          target = merge_target raw
      in if length sourceIds < 2 then None
         else (case (asText (opt_prop target ''id''), asText (opt_prop target ''name''), asText (opt_prop target ''content''),
                 asText (opt_prop target ''type'')) of
             (Some i, Some name, Some content, Some ty) \<Rightarrow>
               (case entry_type_of ty of
                  None \<Rightarrow> None
                | Some t \<Rightarrow>
                    if MEMORY_CONTENT_MAX_CHARS < length content then None
                    else Some (Merge \<lparr>mg_sourceIds = map normalizeMemoryTopicId sourceIds, mg_id = normalizeMemoryTopicId i,
                      mg_name = take 60 name,
                      mg_description = take 120 (or_else (asText (opt_prop target ''description'')) name),
                      mg_type = t, mg_content = content\<rparr>))
           | _ \<Rightarrow> None))"

definition parseRewrite :: "js \<Rightarrow> dream_action option" where
  "parseRewrite raw =
     (case (asText (js_prop raw ''id''), asText (js_prop raw ''content'')) of
        (Some i, Some content) \<Rightarrow>
          if MEMORY_CONTENT_MAX_CHARS < length content then None else Some (Rewrite (normalizeMemoryTopicId i) content)
      | _ \<Rightarrow> None)"

definition parseArchive :: "js \<Rightarrow> dream_action option" where
  "parseArchive raw =
     (case asText (js_prop raw ''id'') of
        None \<Rightarrow> None
      | Some i \<Rightarrow> Some (Archive (normalizeMemoryTopicId i)
          (take 200 (or_else (asText (js_prop raw ''reason'')) ''retired by consolidation''))
          (map_option normalizeMemoryTopicId
            (asText (js_or (js_prop raw ''supersededBy'') (js_or (js_prop raw ''superseded_by'') (js_prop raw ''replacedBy'')))))))"

definition parseActionItem :: "action_candidate \<Rightarrow> dream_action option" where
  "parseActionItem cand =
     (case cand of (hint, item) \<Rightarrow>
        if \<not> is_object item then None
        else (case resolveKind item hint of
                None \<Rightarrow> None
              | Some KMerge \<Rightarrow> parseMerge item
              | Some KRewrite \<Rightarrow> parseRewrite item
              | Some KArchive \<Rightarrow> parseArchive item))"

definition isOversized :: "js \<Rightarrow> bool" where
  "isOversized item \<longleftrightarrow> is_object item \<and>
     (case coalesce (asText (opt_prop (merge_target item) ''content'')) (asText (js_prop item ''content'')) of
        None \<Rightarrow> False | Some content \<Rightarrow> MEMORY_CONTENT_MAX_CHARS < length content)"

record parsed_plan =
  pp_actions :: "dream_action list"
  pp_empty :: bool
  pp_recovered :: bool
  pp_oversized :: nat
  pp_overCap :: nat

definition parseDreamActions :: "(string \<Rightarrow> js option) \<Rightarrow> string \<Rightarrow> parsed_plan option" where
  "parseDreamActions parse raw =
     (let value = js_or (extractJsonSpan parse raw (CHR ''{'') (CHR ''}'')) (extractJsonSpan parse raw (CHR ''['') (CHR '']''));
          truncated = (value = None \<or> value = Some JNull);
          candidates = (case value of
             Some v \<Rightarrow> if v = JNull then map (Pair None) (salvageActionObjects parse raw) else collectActionItems v
           | None \<Rightarrow> map (Pair None) (salvageActionObjects parse raw));
          actions = List.map_filter parseActionItem candidates
      in if truncated \<and> candidates = [] then None
         else Some \<lparr>pp_actions = take MAX_DREAM_ACTIONS actions, pp_empty = (candidates = []), pp_recovered = truncated,
           pp_oversized = length (filter (\<lambda>c. parseActionItem c = None \<and> isOversized (snd c)) candidates),
           pp_overCap = length actions - MAX_DREAM_ACTIONS\<rparr>)"

section \<open>Checking a plan\<close>

definition find_view :: "string \<Rightarrow> topic_view list \<Rightarrow> topic_view option" where
  "find_view i views = find (\<lambda>v. tv_id v = i) (rev views)"

definition has_view :: "string \<Rightarrow> topic_view list \<Rightarrow> bool" where
  "has_view i views \<longleftrightarrow> find_view i views \<noteq> None"

fun merge_targets :: "dream_action list \<Rightarrow> string list" where
  "merge_targets [] = []"
| "merge_targets (Merge m # as) = mg_id m # merge_targets as"
| "merge_targets (a # as) = merge_targets as"

fun retires :: "string \<Rightarrow> dream_action \<Rightarrow> bool" where
  "retires i (Archive j reason heir) \<longleftrightarrow> j = i"
| "retires i (Merge m) \<longleftrightarrow> i \<in> set (mg_sourceIds m)"
| "retires i (Rewrite j content) \<longleftrightarrow> False"

definition isRetired :: "string \<Rightarrow> dream_action list \<Rightarrow> bool" where
  "isRetired i actions \<longleftrightarrow> list_ex (retires i) actions"

record check_state =
  ck_touched :: "string list"
  ck_targets :: "string list"
  ck_archived :: nat

definition claim_topic :: "string \<Rightarrow> check_state \<Rightarrow> string + check_state" where
  "claim_topic i st =
     (if i \<in> set (ck_touched st) then Inl (''topic '' @ i @ '' appears in two actions'')
      else Inr (st\<lparr>ck_touched := i # ck_touched st\<rparr>))"

definition retire :: "check_state \<Rightarrow> check_state" where
  "retire st = st\<lparr>ck_archived := Suc (ck_archived st)\<rparr>"

fun claim_sources :: "topic_view list \<Rightarrow> string list \<Rightarrow> check_state \<Rightarrow> string + check_state" where
  "claim_sources views [] st = Inr st"
| "claim_sources views (i # is) st =
     (if \<not> has_view i views then Inl (''merge source '' @ i @ '' does not exist'')
      else (case claim_topic i st of Inl e \<Rightarrow> Inl e | Inr st' \<Rightarrow> claim_sources views is (retire st')))"

fun check_action :: "dream_action list \<Rightarrow> topic_view list \<Rightarrow> dream_action \<Rightarrow> check_state \<Rightarrow> string + check_state" where
  "check_action actions views (Merge m) st =
     (if length (mg_sourceIds m) < 2 then Inl (''merge into '' @ mg_id m @ '' needs at least two sources'')
      else (case claim_sources views (mg_sourceIds m) st of
          Inl e \<Rightarrow> Inl e
        | Inr st' \<Rightarrow>
            if mg_id m = [] then Inl ''merge target id is empty''
            else if has_view (mg_id m) views then Inl (''merge target '' @ mg_id m @ '' reuses an existing id'')
            else if mg_id m \<in> set (ck_targets st') then Inl (''two merges target '' @ mg_id m)
            else Inr (st'\<lparr>ck_targets := mg_id m # ck_targets st'\<rparr>)))"
| "check_action actions views (Rewrite i content) st =
     (if \<not> has_view i views then Inl (''rewrite target '' @ i @ '' does not exist'') else claim_topic i st)"
| "check_action actions views (Archive i reason heir) st =
     (case find_view i views of
        None \<Rightarrow> Inl (''archive target '' @ i @ '' does not exist'')
      | Some view \<Rightarrow>
          (case claim_topic i st of
             Inl e \<Rightarrow> Inl e
           | Inr st' \<Rightarrow>
               if tv_stale view then Inr (retire st')
               else (case heir of
                   None \<Rightarrow> Inl (''archive of active topic '' @ i @ '' needs supersededBy'')
                 | Some survivor \<Rightarrow>
                     if survivor = [] then Inl (''archive of active topic '' @ i @ '' needs supersededBy'')
                     else if survivor \<in> set (merge_targets actions) \<or> (has_view survivor views \<and> \<not> isRetired survivor actions)
                     then Inr (retire st')
                     else Inl (''archive of '' @ i @ '' points at '' @ survivor @ '', which does not survive''))))"

fun check_actions :: "dream_action list \<Rightarrow> topic_view list \<Rightarrow> dream_action list \<Rightarrow> check_state \<Rightarrow> string + check_state" where
  "check_actions actions views [] st = Inr st"
| "check_actions actions views (a # as) st =
     (case check_action actions views a st of Inl e \<Rightarrow> Inl e | Inr st' \<Rightarrow> check_actions actions views as st')"

definition check_start :: check_state where
  "check_start = \<lparr>ck_touched = [], ck_targets = [], ck_archived = 0\<rparr>"

text \<open>\<^const>\<open>None\<close> is \<open>{ ok: true }\<close>, otherwise the reason.\<close>

definition validateDreamPlan :: "dream_action list \<Rightarrow> topic_view list \<Rightarrow> string option" where
  "validateDreamPlan actions views =
     (case check_actions actions views actions check_start of
        Inl e \<Rightarrow> Some e
      | Inr st \<Rightarrow>
          if retirementCap (length views) < ck_archived st
          then Some (''plan retires '' @ nat_text (ck_archived st) @ '' of '' @ nat_text (length views) @ '' topics (cap '' @
            nat_text (retirementCap (length views)) @ '')'')
          else None)"

subsection \<open>Trimming to the cap\<close>

fun retirements :: "dream_action \<Rightarrow> nat" where
  "retirements (Merge m) = length (mg_sourceIds m)"
| "retirements (Archive i reason heir) = 1"
| "retirements (Rewrite i content) = 0"

fun is_archive :: "dream_action \<Rightarrow> bool" where
  "is_archive (Archive i reason heir) = True"
| "is_archive _ = False"

fun is_merge :: "dream_action \<Rightarrow> bool" where
  "is_merge (Merge m) = True"
| "is_merge _ = False"

text \<open>One of the two loops, on the actions from the last to the first.\<close>

fun drop_back :: "(dream_action \<Rightarrow> bool) \<Rightarrow> nat \<Rightarrow> nat \<Rightarrow> dream_action list \<Rightarrow> dream_action list \<times> nat \<times> nat" where
  "drop_back p cap remaining [] = ([], remaining, 0)"
| "drop_back p cap remaining (a # as) =
     (if remaining \<le> cap then (a # as, remaining, 0)
      else if p a then (case drop_back p cap (remaining - retirements a) as of (ks, r, d) \<Rightarrow> (ks, r, Suc d))
      else (case drop_back p cap remaining as of (ks, r, d) \<Rightarrow> (a # ks, r, d)))"

definition capRetirement :: "dream_action list \<Rightarrow> topic_view list \<Rightarrow> dream_action list \<times> nat" where
  "capRetirement actions views =
     (let cap = retirementCap (length views); retired = sum_list (map retirements actions) in
      if retired \<le> cap then (actions, 0)
      else (case drop_back is_archive cap retired (rev actions) of
          (ks, r, d) \<Rightarrow> (case drop_back is_merge cap r ks of (ks', r', d') \<Rightarrow> (rev ks', d + d'))))"

record plan_counts =
  pc_merged :: nat
  pc_mergedInto :: nat
  pc_rewritten :: nat
  pc_archived :: nat

fun count_action :: "plan_counts \<Rightarrow> dream_action \<Rightarrow> plan_counts" where
  "count_action c (Merge m) = c\<lparr>pc_merged := pc_merged c + length (mg_sourceIds m), pc_mergedInto := Suc (pc_mergedInto c)\<rparr>"
| "count_action c (Rewrite i content) = c\<lparr>pc_rewritten := Suc (pc_rewritten c)\<rparr>"
| "count_action c (Archive i reason heir) = c\<lparr>pc_archived := Suc (pc_archived c)\<rparr>"

definition countDreamActions :: "dream_action list \<Rightarrow> plan_counts" where
  "countDreamActions actions = foldl count_action \<lparr>pc_merged = 0, pc_mergedInto = 0, pc_rewritten = 0, pc_archived = 0\<rparr> actions"

section \<open>What a checked plan is\<close>

named_theorems dream_plan \<open>facts about plans\<close>

fun touched_ids :: "dream_action \<Rightarrow> string list" where
  "touched_ids (Merge m) = mg_sourceIds m"
| "touched_ids (Rewrite i content) = [i]"
| "touched_ids (Archive i reason heir) = [i]"

definition survives :: "dream_action list \<Rightarrow> topic_view list \<Rightarrow> string \<Rightarrow> bool" where
  "survives actions views i \<longleftrightarrow> i \<noteq> [] \<and> (i \<in> set (merge_targets actions) \<or> (has_view i views \<and> \<not> isRetired i actions))"

fun action_ok :: "dream_action list \<Rightarrow> topic_view list \<Rightarrow> dream_action \<Rightarrow> bool" where
  "action_ok actions views (Merge m) \<longleftrightarrow> 2 \<le> length (mg_sourceIds m) \<and> (\<forall>i \<in> set (mg_sourceIds m). has_view i views) \<and>
     mg_id m \<noteq> [] \<and> \<not> has_view (mg_id m) views"
| "action_ok actions views (Rewrite i content) \<longleftrightarrow> has_view i views"
| "action_ok actions views (Archive i reason heir) \<longleftrightarrow>
     (\<exists>v. find_view i views = Some v \<and> (tv_stale v \<or> (\<exists>s. heir = Some s \<and> survives actions views s)))"

text \<open>Every topic in one action only, every action possible, no target twice.\<close>

definition plan_consistent :: "dream_action list \<Rightarrow> topic_view list \<Rightarrow> bool" where
  "plan_consistent actions views \<longleftrightarrow> (\<forall>a \<in> set actions. action_ok actions views a) \<and>
     distinct (concat (map touched_ids actions)) \<and> distinct (merge_targets actions)"

lemma claim_sources_iff:
  "claim_sources views is st = Inr st' \<longleftrightarrow> (\<forall>i \<in> set is. has_view i views) \<and> distinct is \<and> set is \<inter> set (ck_touched st) = {} \<and>
   st' = st\<lparr>ck_touched := rev is @ ck_touched st, ck_archived := ck_archived st + length is\<rparr>"
proof (induction "is" arbitrary: st)
  case (Cons i "is")
  show ?case
    by (auto simp: claim_topic_def retire_def Cons.IH split: sum.splits)
qed auto

text \<open>What one check does to the state when it passes.\<close>

definition check_passed :: "dream_action \<Rightarrow> check_state \<Rightarrow> check_state" where
  "check_passed a st = \<lparr>ck_touched = rev (touched_ids a) @ ck_touched st, ck_targets = merge_targets [a] @ ck_targets st,
     ck_archived = ck_archived st + retirements a\<rparr>"

lemma check_action_iff:
  "check_action actions views a st = Inr st' \<longleftrightarrow> action_ok actions views a \<and> distinct (touched_ids a) \<and>
   set (touched_ids a) \<inter> set (ck_touched st) = {} \<and> set (merge_targets [a]) \<inter> set (ck_targets st) = {} \<and> st' = check_passed a st"
proof (cases a)
  case (Merge m)
  have "check_action actions views a st = Inr st' \<longleftrightarrow>
      2 \<le> length (mg_sourceIds m) \<and> (\<exists>s. claim_sources views (mg_sourceIds m) st = Inr s \<and> mg_id m \<noteq> [] \<and> \<not> has_view (mg_id m) views \<and>
        mg_id m \<notin> set (ck_targets s) \<and> st' = s\<lparr>ck_targets := mg_id m # ck_targets s\<rparr>)"
    using Merge by (auto split: sum.splits if_splits)
  then show ?thesis
    using Merge by (auto simp: claim_sources_iff check_passed_def)
next
  case (Rewrite i content)
  then show ?thesis by (auto simp: claim_topic_def check_passed_def)
next
  case (Archive i reason heir)
  then show ?thesis
    by (cases heir) (auto simp: claim_topic_def check_passed_def retire_def survives_def split: option.splits)
qed

lemma merge_targets_Cons: "merge_targets (a # as) = merge_targets [a] @ merge_targets as"
  by (cases a) simp_all

lemma check_actions_iff:
  "(\<exists>st'. check_actions actions views as st = Inr st' \<and> ck_archived st' = n) \<longleftrightarrow>
   (\<forall>a \<in> set as. action_ok actions views a) \<and> distinct (concat (map touched_ids as)) \<and>
   set (concat (map touched_ids as)) \<inter> set (ck_touched st) = {} \<and> distinct (merge_targets as) \<and>
   set (merge_targets as) \<inter> set (ck_targets st) = {} \<and> n = ck_archived st + sum_list (map retirements as)"
proof (induction as arbitrary: st)
  case (Cons a as)
  have one: "distinct (merge_targets [a])" by (cases a) simp_all
  have "(\<exists>st'. check_actions actions views (a # as) st = Inr st' \<and> ck_archived st' = n) \<longleftrightarrow>
      (\<exists>s. check_action actions views a st = Inr s \<and> (\<exists>st'. check_actions actions views as s = Inr st' \<and> ck_archived st' = n))"
    by (auto split: sum.splits)
  also have "\<dots> \<longleftrightarrow> action_ok actions views a \<and> distinct (touched_ids a) \<and> set (touched_ids a) \<inter> set (ck_touched st) = {} \<and>
      set (merge_targets [a]) \<inter> set (ck_targets st) = {} \<and>
      (\<exists>st'. check_actions actions views as (check_passed a st) = Inr st' \<and> ck_archived st' = n)"
    by (auto simp: check_action_iff)
  finally show ?case
    unfolding Cons.IH merge_targets_Cons [of a as]
    by (simp add: check_passed_def one Int_Un_distrib Int_Un_distrib2 add.assoc Int_commute del: set_concat) blast
qed auto

lemma consistent_iff: "(\<exists>st. check_actions actions views actions check_start = Inr st) \<longleftrightarrow> plan_consistent actions views"
  using check_actions_iff[of actions views actions check_start "sum_list (map retirements actions)"]
    check_actions_iff[of actions views actions check_start]
  by (fastforce simp: plan_consistent_def check_start_def)

lemma validate_iff:
  "validateDreamPlan actions views = None \<longleftrightarrow>
   plan_consistent actions views \<and> sum_list (map retirements actions) \<le> retirementCap (length views)"
proof -
  have "validateDreamPlan actions views = None \<longleftrightarrow>
      (\<exists>n. (\<exists>st. check_actions actions views actions check_start = Inr st \<and> ck_archived st = n) \<and> n \<le> retirementCap (length views))"
    by (auto simp: validateDreamPlan_def split: sum.splits)
  then show ?thesis
    by (auto simp: check_actions_iff plan_consistent_def check_start_def)
qed

subsection \<open>Trimming\<close>

lemma drop_back_facts:
  "drop_back p cap (k + sum_list (map retirements as)) as = (ks, r, d) \<Longrightarrow>
   subseq ks as \<and> r = k + sum_list (map retirements ks) \<and> length as = length ks + d \<and>
   (\<forall>a \<in> set as. \<not> p a \<longrightarrow> a \<in> set ks) \<and> (cap < r \<longrightarrow> (\<forall>a \<in> set ks. \<not> p a))"
proof (induction as arbitrary: k ks r d)
  case (Cons a as)
  note drop = Cons.prems
  show ?case
  proof (cases "k + sum_list (map retirements (a # as)) \<le> cap")
    case True
    then have "ks = a # as" "r = k + sum_list (map retirements (a # as))" "d = 0" using drop by auto
    then show ?thesis using True by simp
  next
    case False
    show ?thesis
    proof (cases "p a")
      case True
      then obtain d' where rest: "drop_back p cap (k + sum_list (map retirements as)) as = (ks, r, d')" and "d = Suc d'"
        using drop False by (auto split: prod.splits)
      from Cons.IH[OF rest] show ?thesis using True \<open>d = Suc d'\<close> by (simp add: list_emb_Cons)
    next
      case no: False
      have assoc: "k + sum_list (map retirements (a # as)) = (k + retirements a) + sum_list (map retirements as)" by simp
      obtain ks' where rest: "drop_back p cap ((k + retirements a) + sum_list (map retirements as)) as = (ks', r, d)" and ks: "ks = a # ks'"
        using drop False no unfolding assoc by (auto split: prod.splits)
      from Cons.IH[OF rest] show ?thesis using no ks by simp
    qed
  qed
qed simp

lemma in_merge_targets: "i \<in> set (merge_targets as) \<longleftrightarrow> (\<exists>m. Merge m \<in> set as \<and> mg_id m = i)"
  by (induction as rule: merge_targets.induct) auto

lemma subseq_concat: "subseq xs ys \<Longrightarrow> subseq (concat (map f xs)) (concat (map f ys))"
  by (induction rule: list_emb.induct) (auto intro: list_emb_append_mono list_emb_append2)

lemma merge_targets_concat: "merge_targets as = concat (map (\<lambda>a. merge_targets [a]) as)"
  by (induction as rule: merge_targets.induct) auto

lemma subseq_distinct: "subseq xs ys \<Longrightarrow> distinct ys \<Longrightarrow> distinct xs"
  by (induction rule: list_emb.induct) (auto dest: list_emb_set)

lemma subseq_rev_back: "subseq xs (rev ys) \<Longrightarrow> subseq (rev xs) ys"
proof -
  have "subseq (rev xs) (rev ys)" if "subseq xs ys" for xs ys :: "'a list"
    using that by (induction rule: list_emb.induct) (auto intro: list_emb_append_mono)
  from this[of xs "rev ys"] show "subseq xs (rev ys) \<Longrightarrow> subseq (rev xs) ys" by simp
qed

lemma retired_sub: "set xs \<subseteq> set ys \<Longrightarrow> isRetired i xs \<Longrightarrow> isRetired i ys"
  by (auto simp: isRetired_def list_ex_iff)

lemma consistent_sub:
  assumes ok: "plan_consistent actions views" and sub: "subseq kept actions"
    and targets: "\<forall>a \<in> set kept. is_archive a \<longrightarrow> set (merge_targets actions) \<subseteq> set (merge_targets kept)"
  shows "plan_consistent kept views"
proof -
  have subset: "set kept \<subseteq> set actions" using sub by (auto dest: list_emb_set)
  have "action_ok kept views a" if "a \<in> set kept" for a
    using ok subset targets that retired_sub[OF subset]
    by (cases a) (fastforce simp: plan_consistent_def survives_def dest!: bspec[of _ _ a])+
  moreover have "distinct (concat (map touched_ids kept))" "distinct (merge_targets kept)"
    using ok subseq_distinct[OF subseq_concat[OF sub]] unfolding plan_consistent_def
    by (blast, metis merge_targets_concat)
  ultimately show ?thesis by (simp add: plan_consistent_def)
qed

lemma no_kinds_no_retirements:
  "\<forall>a \<in> set as. \<not> is_archive a \<Longrightarrow> \<forall>a \<in> set as. \<not> is_merge a \<Longrightarrow> sum_list (map retirements as) = 0"
  by (induction as) (auto elim: is_merge.elims is_archive.elims)

text \<open>Trimming keeps the order and every rewrite, reaches the cap, and drops merges only when no
  archive is left.\<close>

lemma capRetirement_facts:
  assumes "capRetirement actions views = (kept, dropped)"
  shows "subseq kept actions \<and> length actions = length kept + dropped \<and>
    (\<forall>a \<in> set actions. \<not> is_archive a \<and> \<not> is_merge a \<longrightarrow> a \<in> set kept) \<and>
    sum_list (map retirements kept) \<le> retirementCap (length views) \<and>
    ((\<forall>a \<in> set actions. is_merge a \<longrightarrow> a \<in> set kept) \<or> (\<forall>a \<in> set kept. \<not> is_archive a))"
proof (cases "sum_list (map retirements actions) \<le> retirementCap (length views)")
  case True
  then show ?thesis using assms by (auto simp: capRetirement_def)
next
  case False
  let ?cap = "retirementCap (length views)"
  have total: "sum_list (map retirements (rev actions)) = sum_list (map retirements actions)"
    by (simp add: rev_map[symmetric])
  obtain ks r d where one: "drop_back is_archive ?cap (0 + sum_list (map retirements (rev actions))) (rev actions) = (ks, r, d)"
    by (cases "drop_back is_archive ?cap (0 + sum_list (map retirements (rev actions))) (rev actions)")
  note f1 = drop_back_facts[OF one]
  obtain ks' r' d' where two: "drop_back is_merge ?cap (0 + sum_list (map retirements ks)) ks = (ks', r', d')"
    by (cases "drop_back is_merge ?cap (0 + sum_list (map retirements ks)) ks")
  note f2 = drop_back_facts[OF two]
  have res: "kept = rev ks'" "dropped = d + d'"
    using assms False one two f1 total by (auto simp: capRetirement_def Let_def)
  have sub: "subseq ks' (rev actions)" using f1 f2 subseq_order.trans by blast
  have stop: "r \<le> ?cap \<Longrightarrow> ks' = ks"
    using two f1 by (cases ks) auto
  have "r' \<le> ?cap"
  proof (rule ccontr)
    assume over: "\<not> r' \<le> ?cap"
    then have "\<forall>a \<in> set ks'. \<not> is_merge a" using f2 by auto
    moreover have "\<forall>a \<in> set ks'. \<not> is_archive a"
    proof -
      have "?cap < r" using over stop f1 f2 by force
      then show ?thesis using f1 f2 by (auto dest: list_emb_set)
    qed
    ultimately have "sum_list (map retirements ks') = 0" by (rule no_kinds_no_retirements[rotated])
    then have "r' = 0" using f2 by linarith
    then show False using over by simp
  qed
  moreover have "(\<forall>a \<in> set actions. is_merge a \<longrightarrow> a \<in> set ks') \<or> (\<forall>a \<in> set ks'. \<not> is_archive a)"
  proof (cases "r \<le> ?cap")
    case True
    have "\<not> is_archive a" if "is_merge a" for a using that by (cases a) auto
    then show ?thesis using stop[OF True] f1 by auto
  next
    case False
    then show ?thesis using f1 f2 by (auto dest: list_emb_set)
  qed
  moreover have "sum_list (map retirements (rev ks')) = sum_list (map retirements ks')" by (simp add: rev_map[symmetric])
  ultimately show ?thesis
    using res sub f1 f2 by (auto intro: subseq_rev_back)
qed

text \<open>Trimming a plan to the cap makes it acceptable. When nothing is wrong with a plan but the
  number of topics it retires, the trimmed plan passes the whole check: no archive loses the
  topic that was to hold its fact, the order and every rewrite are kept, and the number of dropped
  actions is what is reported.\<close>

theorem capped_plan_accepted:
  assumes "check_actions actions views actions check_start = Inr st"
    and "capRetirement actions views = (kept, dropped)"
  shows "validateDreamPlan kept views = None \<and> subseq kept actions \<and> length actions = length kept + dropped \<and>
    (\<forall>i content. Rewrite i content \<in> set actions \<longrightarrow> Rewrite i content \<in> set kept)"
proof -
  note facts = capRetirement_facts[OF assms(2)]
  have ok: "plan_consistent actions views" using assms(1) consistent_iff by blast
  have "\<forall>a \<in> set kept. is_archive a \<longrightarrow> set (merge_targets actions) \<subseteq> set (merge_targets kept)"
    using facts by (fastforce simp: in_merge_targets)
  then have "plan_consistent kept views" using consistent_sub[OF ok] facts by blast
  then show ?thesis using facts by (auto simp: validate_iff)
qed

subsection \<open>What parsing lets through\<close>

definition canonical_id :: "string \<Rightarrow> bool" where
  "canonical_id i \<longleftrightarrow> length i \<le> 64 \<and> (\<forall>c \<in> set i. is_lower_ascii c \<or> is_digit_ascii c \<or> c = CHR ''-'')"

lemma normalized_canonical: "canonical_id (normalizeMemoryTopicId i)"
  by (auto simp: canonical_id_def normalizeMemoryTopicId_def dest: in_set_takeD)

fun action_bounded :: "dream_action \<Rightarrow> bool" where
  "action_bounded (Merge m) \<longleftrightarrow> 2 \<le> length (mg_sourceIds m) \<and> (\<forall>i \<in> set (mg_id m # mg_sourceIds m). canonical_id i) \<and>
     length (mg_name m) \<le> 60 \<and> length (mg_description m) \<le> 120 \<and> mg_content m \<noteq> [] \<and> length (mg_content m) \<le> MEMORY_CONTENT_MAX_CHARS"
| "action_bounded (Rewrite i content) \<longleftrightarrow> canonical_id i \<and> content \<noteq> [] \<and> length content \<le> MEMORY_CONTENT_MAX_CHARS"
| "action_bounded (Archive i reason heir) \<longleftrightarrow> canonical_id i \<and> length reason \<le> 200 \<and> (\<forall>h \<in> set_option heir. canonical_id h)"

lemma asText_nonempty: "asText v = Some t \<Longrightarrow> t \<noteq> []"
  by (auto simp: asText_def split: option.splits js.splits if_splits)

lemma parsed_bounded: "parseActionItem cand = Some a \<Longrightarrow> action_bounded a"
  by (auto simp: parseActionItem_def parseMerge_def parseRewrite_def parseArchive_def Let_def normalized_canonical
      dest: asText_nonempty split: prod.splits if_splits option.splits action_kind.splits)

text \<open>Whatever a model answers, a plan that comes out of it is within bounds: at most the allowed
  number of actions, contents that fit a topic and are not empty, merges of two sources or more,
  identifiers that are safe file names.\<close>

theorem parsed_plan_bounded:
  assumes "parseDreamActions parse raw = Some p"
  shows "length (pp_actions p) \<le> MAX_DREAM_ACTIONS \<and> (\<forall>a \<in> set (pp_actions p). action_bounded a)"
  using assms
  by (auto simp: parseDreamActions_def Let_def map_filter_def parsed_bounded dest!: in_set_takeD split: if_splits)

text \<open>The identifier of a topic from before kebab case does not come through unchanged: no plan can
  name the topic, and a plan that tries is rejected as a whole.\<close>

lemma legacy_id_lost:
  "normalizeMemoryTopicId ''user_role'' = ''userrole''" "normalizeMemoryTopicId ''user-role'' = ''user-role''"
  by code_simp+

definition demo_view :: "string \<Rightarrow> topic_view" where
  "demo_view i = \<lparr>tv_id = i, tv_name = i, tv_description = i, tv_type = ProjectEntry, tv_content = i, tv_createdAt = i,
     tv_updatedAt = None, tv_lastReadAt = None, tv_idleDays = 100, tv_stale = True\<rparr>"

definition demo_views :: "topic_view list" where
  "demo_views = [demo_view ''a'', demo_view ''b'', demo_view ''c'']"

definition demo_actions :: "dream_action list" where
  "demo_actions = [Archive ''a'' ''old'' None, Archive ''b'' ''old'' None, Archive ''c'' ''old'' None]"

theorem capped_plan_accepted_witness:
  "validateDreamPlan demo_actions demo_views \<noteq> None \<and>
    validateDreamPlan [Archive ''a'' ''old'' None, Archive ''b'' ''old'' None] demo_views = None"
proof -
  have "\<exists>st. check_actions demo_actions demo_views demo_actions check_start = Inr st"
    by (simp add: demo_actions_def demo_views_def demo_view_def find_view_def claim_topic_def check_start_def retire_def)
  moreover have "capRetirement demo_actions demo_views = ([Archive ''a'' ''old'' None, Archive ''b'' ''old'' None], 1)" by code_simp
  moreover have "validateDreamPlan demo_actions demo_views \<noteq> None" by code_simp
  ultimately show ?thesis using capped_plan_accepted by blast
qed

theorem parsed_plan_bounded_witness:
  "\<exists>p. parseDreamActions (\<lambda>s. Some (JArr [JObj [(''action'', JStr ''rewrite''), (''id'', JStr ''a''), (''content'', JStr ''x'')]])) ''answer'' = Some p \<and>
    (\<forall>a \<in> set (pp_actions p). action_bounded a)"
proof -
  have "parseDreamActions (\<lambda>s. Some (JArr [JObj [(''action'', JStr ''rewrite''), (''id'', JStr ''a''), (''content'', JStr ''x'')]])) ''answer'' \<noteq> None"
    by code_simp
  then show ?thesis using parsed_plan_bounded by blast
qed

end
