(* ===== verification/MemStore.thy ===== *)
theory MemStore
  imports DreamPlan
begin

text \<open>
  The files of a workspace's memory: \<open>packages/sidecar/src/memory/local/store.ts\<close>. A topic is a
  markdown file with a front matter; a directory maps the names of its files to their text and
  their time. Every operation of the store runs as one link of its chain of writes, so it is one
  step here; it reads the directory afresh, so the cache of readers is not in the model.
\<close>

section \<open>Topic files\<close>

definition LF :: char where "LF = CHR 0x0A"

definition is_newline :: "char \<Rightarrow> bool" where
  "is_newline c \<longleftrightarrow> c = LF \<or> c = CHR 0x0D"

text \<open>\<open>replace(/[\r\n]+/g, " ")\<close>.\<close>

fun one_line :: "string \<Rightarrow> string" where
  "one_line [] = []"
| "one_line [c] = (if is_newline c then [CHR '' ''] else [c])"
| "one_line (c # d # cs) =
     (if is_newline c then (if is_newline d then one_line (d # cs) else CHR '' '' # one_line (d # cs))
      else c # one_line (d # cs))"

definition frontmatterValue :: "string \<Rightarrow> string" where
  "frontmatterValue v = trim (one_line v)"

fun type_text :: "entry_type \<Rightarrow> string" where
  "type_text UserEntry = ''user''"
| "type_text FeedbackEntry = ''feedback''"
| "type_text ProjectEntry = ''project''"
| "type_text ReferenceEntry = ''reference''"

definition field_line :: "string \<Rightarrow> string \<Rightarrow> string" where
  "field_line key v = key @ '': '' @ v"

definition front_matter :: "memory_entry \<Rightarrow> string" where
  "front_matter e = join [LF]
     ([field_line ''name'' (frontmatterValue (me_name e)), field_line ''description'' (frontmatterValue (me_description e)),
       field_line ''type'' (type_text (me_type e)), field_line ''createdAt'' (me_createdAt e)] @
      (case me_updatedAt e of Some u \<Rightarrow> if u \<noteq> [] then [field_line ''updatedAt'' u] else [] | None \<Rightarrow> []))"

definition buildTopicFile :: "memory_entry \<Rightarrow> string" where
  "buildTopicFile e = ''---'' @ [LF] @ front_matter e @ [LF] @ ''---'' @ [LF, LF] @ trim (me_content e)"

text \<open>\<open>\r?\n\<close>.\<close>

fun strip_newline :: "string \<Rightarrow> string option" where
  "strip_newline [] = None"
| "strip_newline (c # cs) =
     (if c = LF then Some cs
      else if c = CHR 0x0D then (case cs of d # ds \<Rightarrow> if d = LF then Some ds else None | [] \<Rightarrow> None) else None)"

definition close_fence :: "string \<Rightarrow> string option" where
  "close_fence s =
     (case strip_newline s of
        None \<Rightarrow> None
      | Some r \<Rightarrow> if startsWith r ''---'' then strip_newline (drop 3 r) else None)"

text \<open>The shortest front matter that is not empty, and what is behind its closing fence.\<close>

fun split_front :: "string \<Rightarrow> string \<Rightarrow> (string \<times> string) option" where
  "split_front acc [] = None"
| "split_front acc (c # cs) =
     (case close_fence cs of Some body \<Rightarrow> Some (rev (c # acc), body) | None \<Rightarrow> split_front (c # acc) cs)"

definition split_topic :: "string \<Rightarrow> (string \<times> string) option" where
  "split_topic raw =
     (if startsWith raw ''---'' then (case strip_newline (drop 3 raw) of None \<Rightarrow> None | Some r \<Rightarrow> split_front [] r) else None)"

text \<open>\<open>^key:\s*(.+)$\<close> in some line; the white space before the value may go over line ends.\<close>

definition value_at :: "string \<Rightarrow> string" where
  "value_at s = trim (takeWhile (\<lambda>c. \<not> is_newline c) (dropWhile is_space s))"

fun front_field :: "string \<Rightarrow> bool \<Rightarrow> string \<Rightarrow> string" where
  "front_field key start [] = []"
| "front_field key start (c # cs) =
     (if start \<and> startsWith (c # cs) (key @ '':'') then value_at (drop (Suc (length key)) (c # cs))
      else front_field key (is_newline c) cs)"

record front =
  fm_name :: string
  fm_description :: string
  fm_type :: entry_type
  fm_createdAt :: "string option"
  fm_updatedAt :: "string option"

definition field_value :: "string \<Rightarrow> string option" where
  "field_value s = (if s = [] then None else Some s)"

definition read_front :: "string \<Rightarrow> front option" where
  "read_front yaml =
     map_option (\<lambda>t. \<lparr>fm_name = front_field ''name'' True yaml, fm_description = front_field ''description'' True yaml, fm_type = t,
       fm_createdAt = field_value (front_field ''createdAt'' True yaml), fm_updatedAt = field_value (front_field ''updatedAt'' True yaml)\<rparr>)
       (entry_type_of (front_field ''type'' True yaml))"

definition parseTopicFrontmatter :: "string \<Rightarrow> front option" where
  "parseTopicFrontmatter raw = (case split_topic raw of None \<Rightarrow> None | Some (yaml, body) \<Rightarrow> read_front yaml)"

section \<open>The store\<close>

record topic_file =
  tf_text :: string
  tf_mtime :: string

record memory_dirs =
  md_live :: "(string, topic_file) js_map"
  md_archive :: "(string, topic_file) js_map"
  md_history :: "(string \<times> topic_file) list"

definition read_topic :: "string \<Rightarrow> topic_file \<Rightarrow> memory_entry option" where
  "read_topic i f =
     (case split_topic (tf_text f) of
        None \<Rightarrow> None
      | Some (yaml, body) \<Rightarrow>
          map_option (\<lambda>fm. \<lparr>me_id = i, me_name = fm_name fm, me_description = fm_description fm, me_type = fm_type fm,
            me_content = trim body, me_createdAt = or_else (fm_createdAt fm) (tf_mtime f), me_updatedAt = fm_updatedAt fm\<rparr>)
            (read_front yaml))"

definition readTopicDir :: "(string, topic_file) js_map \<Rightarrow> memory_entry list" where
  "readTopicDir dir = List.map_filter (\<lambda>(i, f). read_topic i f) dir"

definition listTopics :: "memory_dirs \<Rightarrow> memory_entry list" where
  "listTopics d = readTopicDir (md_live d)"

definition getTopic :: "string \<Rightarrow> memory_dirs \<Rightarrow> memory_entry option" where
  "getTopic i d = find (\<lambda>e. me_id e = i) (listTopics d)"

datatype memory_error =
    TopicExists string
  | UnknownTopic string
  | TopicChanged string
  | InvalidTopicId string
  | UnknownArchived string

definition write_topic :: "memory_entry \<Rightarrow> string \<Rightarrow> memory_dirs \<Rightarrow> memory_dirs" where
  "write_topic e mtime d = d\<lparr>md_live := jm_set (md_live d) (me_id e) \<lparr>tf_text = buildTopicFile e, tf_mtime = mtime\<rparr>\<rparr>"

definition appendEntry :: "memory_entry \<Rightarrow> string \<Rightarrow> memory_dirs \<Rightarrow> memory_error + memory_dirs" where
  "appendEntry e mtime d = (if getTopic (me_id e) d \<noteq> None then Inl (TopicExists (me_id e)) else Inr (write_topic e mtime d))"

definition assertExpectedContent :: "memory_entry \<Rightarrow> string option \<Rightarrow> bool" where
  "assertExpectedContent existing expected \<longleftrightarrow> expected = None \<or> expected = Some (me_content existing)"

definition deleteTopic :: "string \<Rightarrow> string option \<Rightarrow> memory_dirs \<Rightarrow> memory_error + memory_dirs" where
  "deleteTopic i expected d =
     (case getTopic i d of
        None \<Rightarrow> Inl (UnknownTopic i)
      | Some existing \<Rightarrow>
          if \<not> assertExpectedContent existing expected then Inl (TopicChanged i)
          else Inr (d\<lparr>md_live := jm_delete (md_live d) i\<rparr>))"

definition move_to_archive :: "string \<Rightarrow> string \<Rightarrow> memory_dirs \<Rightarrow> memory_dirs" where
  "move_to_archive i stamp d =
     (case jm_get (md_live d) i of
        None \<Rightarrow> d
      | Some f \<Rightarrow> d\<lparr>md_live := jm_delete (md_live d) i, md_archive := jm_set (md_archive d) i f,
          md_history := (case jm_get (md_archive d) i of
             None \<Rightarrow> md_history d | Some old \<Rightarrow> md_history d @ [(i @ ''.'' @ stamp, old)])\<rparr>)"

definition archiveTopic :: "string \<Rightarrow> string option \<Rightarrow> string \<Rightarrow> memory_dirs \<Rightarrow> memory_error + memory_dirs" where
  "archiveTopic i expected stamp d =
     (case getTopic i d of
        None \<Rightarrow> Inl (UnknownTopic i)
      | Some existing \<Rightarrow>
          if \<not> assertExpectedContent existing expected then Inl (TopicChanged i) else Inr (move_to_archive i stamp d))"

definition bad_topic_id :: "string \<Rightarrow> bool" where
  "bad_topic_id i \<longleftrightarrow> i = [] \<or> i = ''.'' \<or> i = ''..'' \<or> CHR ''/'' \<in> set i \<or> CHR 0x5C \<in> set i \<or> CHR 0x00 \<in> set i"

definition restoreTopic :: "string \<Rightarrow> memory_dirs \<Rightarrow> memory_error + memory_dirs" where
  "restoreTopic i d =
     (if bad_topic_id i then Inl (InvalidTopicId i)
      else (case jm_get (md_archive d) i of
          None \<Rightarrow> Inl (UnknownArchived i)
        | Some f \<Rightarrow>
            if getTopic i d \<noteq> None then Inl (TopicExists i)
            else Inr (d\<lparr>md_archive := jm_delete (md_archive d) i, md_live := jm_set (md_live d) i f\<rparr>)))"

definition listArchivedTopics :: "memory_dirs \<Rightarrow> memory_entry list" where
  "listArchivedTopics d = readTopicDir (md_archive d)"

definition updateTopic :: "string \<Rightarrow> string \<Rightarrow> string option \<Rightarrow> string \<Rightarrow> memory_dirs \<Rightarrow> memory_error + memory_entry \<times> memory_dirs" where
  "updateTopic i content expected now d =
     (case getTopic i d of
        None \<Rightarrow> Inl (UnknownTopic i)
      | Some existing \<Rightarrow>
          if \<not> assertExpectedContent existing expected then Inl (TopicChanged i)
          else let e = existing\<lparr>me_content := trim content, me_updatedAt := Some now\<rparr> in Inr (e, write_topic e now d))"

subsection \<open>The note of the user and the block of a prompt\<close>

definition MEMORY_INDEX_HEADER :: string where "MEMORY_INDEX_HEADER = ''# Memory'' @ [LF]"

text \<open>The file \<open>MEMORY.md\<close>, when there is one. Its hash is a parameter.\<close>

definition initialize_index :: "string option \<Rightarrow> string option" where
  "initialize_index index = (case index of None \<Rightarrow> Some (MEMORY_INDEX_HEADER @ [LF]) | Some t \<Rightarrow> Some t)"

definition readMemory :: "string option \<Rightarrow> string" where
  "readMemory index = or_else index MEMORY_INDEX_HEADER"

text \<open>\<^const>\<open>Inl\<close> is \<open>MemoryConflictError\<close> with the text on disk and its hash.\<close>

definition writeMemory :: "(string \<Rightarrow> string) \<Rightarrow> string \<Rightarrow> string \<Rightarrow> string option \<Rightarrow> (string \<times> string) + string option" where
  "writeMemory hashOf content baseHash index =
     (let current = readMemory index in
      if hashOf current \<noteq> baseHash then Inl (current, hashOf current) else Inr (Some content))"

definition MAX_TOPIC_NOTES :: nat where "MAX_TOPIC_NOTES = 100"

definition topic_time :: "memory_entry \<Rightarrow> string" where
  "topic_time e = or_else (me_updatedAt e) (me_createdAt e)"

text \<open>\<open>Array.prototype.sort\<close> with a comparison: stable. \<open>cmp\<close> stands for \<open>localeCompare\<close> and
  \<open>dash\<close> for the dash of the rows, which is no character of the model.\<close>

fun insert_by :: "('a \<Rightarrow> 'a \<Rightarrow> int) \<Rightarrow> 'a \<Rightarrow> 'a list \<Rightarrow> 'a list" where
  "insert_by cmp x [] = [x]"
| "insert_by cmp x (y # ys) = (if cmp x y \<le> 0 then x # y # ys else y # insert_by cmp x ys)"

definition sort_by :: "('a \<Rightarrow> 'a \<Rightarrow> int) \<Rightarrow> 'a list \<Rightarrow> 'a list" where
  "sort_by cmp xs = foldr (insert_by cmp) xs []"

definition memory_row :: "string \<Rightarrow> memory_entry \<Rightarrow> string" where
  "memory_row dash t = ''- ['' @ type_text (me_type t) @ ''] '' @ frontmatterValue (me_name t) @ '' '' @ dash @ '' '' @
     take 80 (frontmatterValue (me_description t)) @ '' '' @ dash @ '' '' @ me_id t"

definition buildMemoryBlock :: "(string \<Rightarrow> string \<Rightarrow> int) \<Rightarrow> string \<Rightarrow> string \<Rightarrow> string option \<Rightarrow> memory_dirs \<Rightarrow> string" where
  "buildMemoryBlock cmp dash dir index d =
     (let note = readMemory index;
          noteBody = (if trim note = trim MEMORY_INDEX_HEADER then [] else note);
          sortedTopics = sort_by (\<lambda>a b. cmp (topic_time b) (topic_time a)) (listTopics d);
          topics = take MAX_TOPIC_NOTES sortedTopics;
          omitted = length sortedTopics - length topics
      in if noteBody = [] \<and> topics = [] then []
         else join [LF]
           ((if noteBody \<noteq> [] then [noteBody] else []) @
            (if topics = [] then []
             else (if noteBody \<noteq> [] then [[LF] @ ''---'' @ [LF]] else []) @
               [''Workspace memory notes (newest first; use the read tool to fetch <id>.md from '' @ dir @ ''):''] @
               map (memory_row dash) topics @
               (if omitted > 0
                then [nat_text omitted @ '' additional topics not listed; their files remain in the topic directory.''] else []))))"

section \<open>What is written is read back\<close>

text \<open>Values that stay on their line.\<close>

definition line_value :: "string \<Rightarrow> bool" where
  "line_value v \<longleftrightarrow> v \<noteq> [] \<and> trim v = v \<and> (\<forall>c \<in> set v. \<not> is_newline c)"

lemma newline_space: "is_newline c \<Longrightarrow> is_space c"
  by (auto simp: is_newline_def LF_def is_space_def code_unit_def)

lemma trim_outer: "trim v = v \<Longrightarrow> v \<noteq> [] \<Longrightarrow> \<not> is_space (hd v)"
proof
  assume v: "trim v = v" "v \<noteq> []" and sp: "is_space (hd v)"
  then have "length (dropWhile is_space v) < length v"
    by (cases v) (auto simp: le_imp_less_Suc length_dropWhile_le)
  moreover have "length (trim v) \<le> length (dropWhile is_space v)"
    using length_dropWhile_le[of is_space "rev (dropWhile is_space v)"] by (simp add: trim_def)
  ultimately show False using v(1) by simp
qed

lemma value_at_line:
  assumes "line_value v"
  shows "value_at (CHR '' '' # v @ LF # rest) = v" "value_at (CHR '' '' # v) = v"
proof -
  have hd: "\<not> is_space (hd v)" "v \<noteq> []" using trim_outer assms by (auto simp: line_value_def)
  have sp: "is_space CHR '' ''" by (simp add: is_space_def code_unit_def)
  have nl: "is_newline LF" by (simp add: is_newline_def)
  have "dropWhile is_space (v @ r) = v @ r" for r using hd by (cases v) auto
  moreover have "takeWhile (\<lambda>c. \<not> is_newline c) (v @ LF # rest) = v" "takeWhile (\<lambda>c. \<not> is_newline c) v = v"
    using assms nl by (auto simp: line_value_def takeWhile_append)
  ultimately show "value_at (CHR '' '' # v @ LF # rest) = v" "value_at (CHR '' '' # v) = v"
    using assms sp by (simp_all add: value_at_def line_value_def, metis append_Nil2)
qed


text \<open>One line of a front matter is read over when what comes next is not the fence.\<close>

definition plain_line :: "string \<Rightarrow> bool" where
  "plain_line l \<longleftrightarrow> l \<noteq> [] \<and> (\<forall>c \<in> set l. \<not> is_newline c)"

lemma strip_none: "r \<noteq> [] \<Longrightarrow> \<not> is_newline (hd r) \<Longrightarrow> strip_newline r = None"
  by (cases r) (auto simp: is_newline_def)

lemma strip_line: "plain_line l \<Longrightarrow> strip_newline (l @ r) = None"
  by (rule strip_none) (auto simp: plain_line_def)

lemma split_front_line:
  assumes "\<forall>c \<in> set l. \<not> is_newline c" "\<not> startsWith rest ''---''" "strip_newline rest = None"
  shows "split_front acc (l @ LF # rest) = split_front (LF # rev l @ acc) rest"
  using assms(1)
proof (induction l arbitrary: acc)
  case Nil
  then show ?case using assms by (simp add: close_fence_def)
next
  case (Cons c l)
  have "close_fence (l @ LF # rest) = None"
  proof (cases l)
    case Nil
    then show ?thesis using assms by (simp add: close_fence_def)
  next
    case l: (Cons d l')
    then show ?thesis using Cons.prems strip_line[of l] by (simp add: close_fence_def plain_line_def)
  qed
  then show ?case using Cons by simp
qed

lemma split_front_last:
  assumes "plain_line l"
  shows "split_front acc (l @ LF # ''---'' @ LF # body) = Some (rev acc @ l, body)"
proof -
  have close: "close_fence (LF # ''---'' @ LF # body) = Some body"
    by (simp add: close_fence_def startsWith_def)
  have "split_front acc (l @ c # LF # ''---'' @ LF # body) = Some (rev acc @ l @ [c], body)"
    if "\<forall>x \<in> set (l @ [c]). \<not> is_newline x" for l c
    using that
  proof (induction l arbitrary: acc)
    case Nil
    then show ?case using close by simp
  next
    case (Cons x l)
    have "close_fence (l @ c # LF # ''---'' @ LF # body) = None"
      using Cons.prems strip_line[of "l @ [c]"] by (simp add: close_fence_def plain_line_def)
    then show ?case using Cons by simp
  qed
  moreover obtain l' c where "l = l' @ [c]" using assms by (cases l rule: rev_cases) (auto simp: plain_line_def)
  ultimately show ?thesis using assms by (simp add: plain_line_def)
qed

lemma front_field_skip:
  "\<forall>c \<in> set l. \<not> is_newline c \<Longrightarrow> front_field key False (l @ LF # rest) = front_field key True rest"
  by (induction l) (auto simp: is_newline_def)

lemma front_field_other:
  assumes "plain_line l" "\<not> startsWith (l @ LF # rest) (key @ '':'')"
  shows "front_field key True (l @ LF # rest) = front_field key True rest"
  using assms front_field_skip[of "tl l" key rest] by (cases l) (auto simp: plain_line_def is_newline_def)

lemma front_field_last_other:
  assumes "plain_line l" "\<not> startsWith l (key @ '':'')"
  shows "front_field key True l = []"
proof -
  have skip: "front_field key False l = []" if "\<forall>c \<in> set l. \<not> is_newline c" for l
    using that by (induction l) auto
  show ?thesis using assms skip[of "tl l"] by (cases l) (auto simp: plain_line_def)
qed

lemma front_field_here:
  assumes "line_value v" "key \<noteq> []"
  shows "front_field key True (field_line key v @ LF # rest) = v" "front_field key True (field_line key v) = v"
  using assms value_at_line[OF assms(1)]
  by (cases key; simp add: field_line_def startsWith_def)+

lemma field_plain: "plain_line key \<Longrightarrow> \<forall>c \<in> set v. \<not> is_newline c \<Longrightarrow> plain_line (field_line key v)"
  by (auto simp: plain_line_def field_line_def is_newline_def LF_def)


lemma one_line_clean: "c \<in> set (one_line v) \<Longrightarrow> \<not> is_newline c"
  by (induction v rule: one_line.induct) (auto simp: is_newline_def LF_def split: if_splits)

lemma set_trim: "set (trim v) \<subseteq> set v"
  by (metis dual_order.trans set_dropWhileD set_rev subsetI trim_def)

lemma trim_space: "is_space c \<Longrightarrow> trim (c # v) = trim v"
  by (simp add: trim_def)

lemma frontmatter_line: "frontmatterValue v \<noteq> [] \<Longrightarrow> line_value (frontmatterValue v)"
  using set_trim[of "one_line v"] by (auto simp: line_value_def frontmatterValue_def dest: one_line_clean)

text \<open>An entry whose front matter has no empty value, and one whose times at least are values.\<close>

definition dated_entry :: "memory_entry \<Rightarrow> bool" where
  "dated_entry e \<longleftrightarrow> line_value (me_createdAt e) \<and> (\<forall>u \<in> set_option (me_updatedAt e). line_value u)"

definition clean_entry :: "memory_entry \<Rightarrow> bool" where
  "clean_entry e \<longleftrightarrow> dated_entry e \<and> frontmatterValue (me_name e) \<noteq> [] \<and> frontmatterValue (me_description e) \<noteq> []"

definition plain_value :: "string \<Rightarrow> bool" where
  "plain_value v \<longleftrightarrow> (\<forall>c \<in> set v. \<not> is_newline c)"

lemma line_value_plain [simp]: "line_value v \<Longrightarrow> plain_value v"
  by (simp add: line_value_def plain_value_def)

lemma frontmatter_plain [simp]: "plain_value (frontmatterValue v)"
  using set_trim[of "one_line v"] by (auto simp: plain_value_def frontmatterValue_def dest: one_line_clean)

lemma type_text_line: "line_value (type_text t)" "entry_type_of (type_text t) = Some t"
  by (cases t; simp add: line_value_def is_newline_def LF_def; code_simp)+

lemma key_plain: "plain_line ''name''" "plain_line ''description''" "plain_line ''type''" "plain_line ''createdAt''" "plain_line ''updatedAt''"
  by (simp_all add: plain_line_def is_newline_def LF_def)

lemma field_start:
  assumes "CHR '':'' \<notin> set k" "CHR '':'' \<notin> set k'"
  shows "startsWith (field_line k v @ r) (k' @ '':'') \<longleftrightarrow> k = k'"
  using assms
proof (induction k arbitrary: k')
  case Nil
  then show ?case by (cases k') (auto simp: startsWith_def field_line_def)
next
  case (Cons x k)
  then show ?case by (cases k') (auto simp: startsWith_def field_line_def)
qed

lemma field_other:
  assumes "k \<noteq> k'" "CHR '':'' \<notin> set k" "CHR '':'' \<notin> set k'" "plain_line k" "plain_value v"
  shows "front_field k' True (field_line k v @ LF # rest) = front_field k' True rest" "front_field k' True (field_line k v) = []"
  using front_field_other[OF field_plain[OF assms(4) assms(5)[unfolded plain_value_def]], of rest k']
    front_field_last_other[OF field_plain[OF assms(4) assms(5)[unfolded plain_value_def]], of k']
    field_start[OF assms(2,3), of v] field_start[OF assms(2,3), of v "[]"] assms(1) by auto

lemmas field_reads = front_field_here field_other key_plain

lemma front_read:
  assumes "plain_value n" "plain_value d" "line_value t" "line_value c"
  defines "F \<equiv> field_line ''name'' n @ LF # field_line ''description'' d @ LF # field_line ''type'' t @ LF # field_line ''createdAt'' c"
  shows "line_value n \<Longrightarrow> front_field ''name'' True F = n" "line_value d \<Longrightarrow> front_field ''description'' True F = d"
    "front_field ''type'' True F = t" "front_field ''createdAt'' True F = c" "front_field ''updatedAt'' True F = []"
    "line_value u \<Longrightarrow> line_value n \<Longrightarrow> front_field ''name'' True (F @ LF # field_line ''updatedAt'' u) = n"
    "line_value u \<Longrightarrow> line_value d \<Longrightarrow> front_field ''description'' True (F @ LF # field_line ''updatedAt'' u) = d"
    "line_value u \<Longrightarrow> front_field ''type'' True (F @ LF # field_line ''updatedAt'' u) = t"
    "line_value u \<Longrightarrow> front_field ''createdAt'' True (F @ LF # field_line ''updatedAt'' u) = c"
    "line_value u \<Longrightarrow> front_field ''updatedAt'' True (F @ LF # field_line ''updatedAt'' u) = u"
  using assms(1-4) unfolding F_def
  by (simp_all add: field_reads)

definition body_line :: "string \<Rightarrow> bool" where
  "body_line l \<longleftrightarrow> plain_line l \<and> 3 \<le> length l \<and> \<not> startsWith l ''---''"

lemma split_lines:
  "ls \<noteq> [] \<Longrightarrow> \<forall>l \<in> set ls. body_line l \<Longrightarrow>
   split_front acc (join [LF] ls @ LF # ''---'' @ LF # body) = Some (rev acc @ join [LF] ls, body)"
proof (induction "[LF]" ls arbitrary: acc rule: join.induct)
  case (2 x)
  then show ?case using split_front_last[of x acc body] by (simp add: body_line_def)
next
  case (3 x y ys)
  let ?rest = "join [LF] (y # ys) @ LF # ''---'' @ LF # body"
  have "\<exists>r. ?rest = y @ r" by (cases ys) auto
  then obtain r where r: "?rest = y @ r" by blast
  have y: "body_line y" and x: "body_line x" using 3 by auto
  then have "\<not> startsWith ?rest ''---''" "strip_newline ?rest = None"
    unfolding r by (simp_all add: body_line_def startsWith_def strip_line)
  then have "split_front acc (x @ LF # ?rest) = split_front (LF # rev x @ acc) ?rest"
    by (rule split_front_line[rotated]) (use x in \<open>simp add: body_line_def plain_line_def\<close>)
  then show ?case using 3 by simp
qed simp

lemma field_body: "plain_line key \<Longrightarrow> 3 \<le> length key \<Longrightarrow> \<not> startsWith key ''---'' \<Longrightarrow> plain_value v \<Longrightarrow> body_line (field_line key v)"
  using field_plain[of key v] by (simp add: body_line_def field_line_def startsWith_def plain_value_def)

definition front_lines :: "memory_entry \<Rightarrow> string list" where
  "front_lines e = [field_line ''name'' (frontmatterValue (me_name e)), field_line ''description'' (frontmatterValue (me_description e)),
       field_line ''type'' (type_text (me_type e)), field_line ''createdAt'' (me_createdAt e)] @
      (case me_updatedAt e of Some u \<Rightarrow> [field_line ''updatedAt'' u] | None \<Rightarrow> [])"

lemma dated_front: "dated_entry e \<Longrightarrow> front_matter e = join [LF] (front_lines e)"
  by (auto simp: front_matter_def front_lines_def dated_entry_def line_value_def split: option.splits)

lemma dated_lines: "dated_entry e \<Longrightarrow> l \<in> set (front_lines e) \<Longrightarrow> body_line l"
  by (auto simp: front_lines_def dated_entry_def type_text_line startsWith_def split: option.splits
      intro!: field_body key_plain)

text \<open>What reading gets for the name and the description: the value, when there is one.\<close>

definition reads_as :: "string \<Rightarrow> string \<Rightarrow> bool" where
  "reads_as v r \<longleftrightarrow> (v \<noteq> [] \<longrightarrow> r = v)"

lemma read_front_written:
  assumes "dated_entry e"
  shows "\<exists>n d. read_front (join [LF] (front_lines e)) =
    Some \<lparr>fm_name = n, fm_description = d, fm_type = me_type e, fm_createdAt = Some (me_createdAt e), fm_updatedAt = me_updatedAt e\<rparr> \<and>
    reads_as (frontmatterValue (me_name e)) n \<and> reads_as (frontmatterValue (me_description e)) d"
proof -
  have v: "line_value (me_createdAt e)" "\<forall>u \<in> set_option (me_updatedAt e). line_value u"
    using assms by (auto simp: dated_entry_def)
  note reads = front_read[OF frontmatter_plain[of "me_name e"] frontmatter_plain[of "me_description e"] type_text_line(1)[of "me_type e"] v(1)]
  have ne: "me_createdAt e \<noteq> []" using v(1) by (simp add: line_value_def)
  note step = read_front_def type_text_line field_value_def reads_as_def frontmatter_line
  show ?thesis
  proof (cases "me_updatedAt e")
    case None
    then have "join [LF] (front_lines e) = field_line ''name'' (frontmatterValue (me_name e)) @
        LF # field_line ''description'' (frontmatterValue (me_description e)) @
        LF # field_line ''type'' (type_text (me_type e)) @ LF # field_line ''createdAt'' (me_createdAt e)"
      by (simp add: front_lines_def)
    then show ?thesis using None ne by (simp add: step reads(1-5) del: entry_type_of.simps)
  next
    case (Some u)
    then have u: "line_value u" "u \<noteq> []" using v(2) by (auto simp: line_value_def)
    have "join [LF] (front_lines e) = (field_line ''name'' (frontmatterValue (me_name e)) @
        LF # field_line ''description'' (frontmatterValue (me_description e)) @
        LF # field_line ''type'' (type_text (me_type e)) @ LF # field_line ''createdAt'' (me_createdAt e)) @
        LF # field_line ''updatedAt'' u"
      using Some by (simp add: front_lines_def)
    then show ?thesis
      using Some ne u reads(6-7) by (simp only: read_front_def reads(8-10)) (auto simp: step simp del: entry_type_of.simps)
  qed
qed

text \<open>A file that was written parses, and its body, kind and times are what was written.\<close>

lemma written_read:
  assumes "dated_entry e"
  shows "\<exists>n d. read_topic i \<lparr>tf_text = buildTopicFile e, tf_mtime = m\<rparr> =
      Some (e\<lparr>me_id := i, me_name := n, me_description := d, me_content := trim (me_content e)\<rparr>) \<and>
    reads_as (frontmatterValue (me_name e)) n \<and> reads_as (frontmatterValue (me_description e)) d"
proof -
  have "split_topic (buildTopicFile e) = Some (front_matter e, LF # trim (me_content e))"
    using split_lines[of "front_lines e" "[]" "LF # trim (me_content e)"] dated_lines[OF assms]
    unfolding dated_front[OF assms]
    by (simp add: split_topic_def buildTopicFile_def dated_front[OF assms] startsWith_def front_lines_def)
  moreover have "is_space LF" by (simp add: newline_space is_newline_def)
  moreover obtain n d where "read_front (front_matter e) =
    Some \<lparr>fm_name = n, fm_description = d, fm_type = me_type e, fm_createdAt = Some (me_createdAt e), fm_updatedAt = me_updatedAt e\<rparr>"
    and nd: "reads_as (frontmatterValue (me_name e)) n" "reads_as (frontmatterValue (me_description e)) d"
    using read_front_written[OF assms] dated_front[OF assms] by auto
  ultimately have "read_topic i \<lparr>tf_text = buildTopicFile e, tf_mtime = m\<rparr> =
      Some (e\<lparr>me_id := i, me_name := n, me_description := d, me_content := trim (me_content e)\<rparr>)"
    by (cases e) (simp add: read_topic_def trim_space or_else_def)
  then show ?thesis using nd by blast
qed

text \<open>What is read is a value of one line, and a written value is read as it is.\<close>

lemma value_at_value: "plain_value (value_at r) \<and> trim (value_at r) = value_at r"
  using set_trim[of "takeWhile (\<lambda>c. \<not> is_newline c) (dropWhile is_space r)"]
  by (auto simp: value_at_def plain_value_def dest: set_takeWhileD)

lemma front_field_value: "plain_value (front_field key b s) \<and> trim (front_field key b s) = front_field key b s"
  by (induction key b s rule: front_field.induct) (simp_all add: value_at_value, simp add: plain_value_def trim_ends)

lemma one_line_plain: "plain_value v \<Longrightarrow> one_line v = v"
  by (induction v rule: one_line.induct) (auto simp: plain_value_def)

lemma frontmatter_read: "read_topic i f = Some e \<Longrightarrow> frontmatterValue (me_name e) = me_name e \<and> frontmatterValue (me_description e) = me_description e"
  using front_field_value by (auto simp: read_topic_def read_front_def frontmatterValue_def one_line_plain split: option.splits)

lemma read_dated:
  assumes "read_topic i f = Some e" "line_value (tf_mtime f)"
  shows "dated_entry e" "me_id e = i" "trim (me_content e) = me_content e"
proof -
  have "field_value (front_field k True y) = Some v \<Longrightarrow> line_value v" for k y v
    using front_field_value[of k True y] by (auto simp: field_value_def line_value_def plain_value_def split: if_splits)
  then show "dated_entry e" "me_id e = i" "trim (me_content e) = me_content e"
    using assms by (auto simp: read_topic_def read_front_def dated_entry_def or_else_def split: option.splits)
qed

text \<open>The same topic: a name or description that is there is the same, and so is the rest but for the time of the update.\<close>

definition same_topic :: "memory_entry \<Rightarrow> memory_entry \<Rightarrow> bool" where
  "same_topic a b \<longleftrightarrow> me_id b = me_id a \<and> reads_as (me_name a) (me_name b) \<and> reads_as (me_description a) (me_description b) \<and>
     me_type b = me_type a \<and> me_content b = me_content a \<and> me_createdAt b = me_createdAt a"

lemma same_topic_refl [simp]: "same_topic a a"
  by (simp add: same_topic_def reads_as_def)

lemma same_topic_trans: "same_topic a b \<Longrightarrow> same_topic b c \<Longrightarrow> same_topic a c"
  by (auto simp: same_topic_def reads_as_def)

lemma rewritten_read:
  assumes "read_topic i f = Some e" "line_value (tf_mtime f)" "line_value u"
  shows "\<exists>e'. read_topic i \<lparr>tf_text = buildTopicFile (e\<lparr>me_content := c, me_updatedAt := Some u\<rparr>), tf_mtime = m\<rparr> = Some e' \<and>
    same_topic (e\<lparr>me_content := trim c\<rparr>) e'"
proof -
  have "dated_entry (e\<lparr>me_content := c, me_updatedAt := Some u\<rparr>)"
    using read_dated(1)[OF assms(1,2)] assms(3) by (simp add: dated_entry_def)
  from written_read[OF this, of i m] show ?thesis
    using frontmatter_read[OF assms(1)] read_dated(2)[OF assms(1,2)] by (auto simp: same_topic_def)
qed

section \<open>What the operations do to the topics\<close>

definition live_file :: "memory_dirs \<Rightarrow> string \<Rightarrow> topic_file option" where
  "live_file d i = jm_get (md_live d) i"

definition archived_file :: "memory_dirs \<Rightarrow> string \<Rightarrow> topic_file option" where
  "archived_file d i = jm_get (md_archive d) i"

text \<open>One file per name, and times that are ISO dates, so not empty and on one line.\<close>

definition dirs_wf :: "memory_dirs \<Rightarrow> bool" where
  "dirs_wf d \<longleftrightarrow> jm_wf (md_live d) \<and> jm_wf (md_archive d) \<and>
     (\<forall>i f. live_file d i = Some f \<longrightarrow> line_value (tf_mtime f)) \<and> (\<forall>i f. archived_file d i = Some f \<longrightarrow> line_value (tf_mtime f))"

definition topic_at :: "memory_dirs \<Rightarrow> string \<Rightarrow> memory_entry option" where
  "topic_at d i = Option.bind (live_file d i) (read_topic i)"

lemma read_topic_id: "read_topic i f = Some e \<Longrightarrow> me_id e = i"
  by (auto simp: read_topic_def split: option.splits)

lemma find_read:
  "jm_wf dir \<Longrightarrow> find (\<lambda>e. me_id e = i) (readTopicDir dir) = Option.bind (jm_get dir i) (read_topic i)"
proof (induction dir)
  case (Cons x dir)
  obtain k f where x: "x = (k, f)" by (cases x)
  have wf: "jm_wf dir" "k \<notin> fst ` set dir" using Cons.prems x by (auto simp: jm_wf_def)
  show ?case
  proof (cases "k = i")
    case True
    then have "jm_get dir i = None" using wf(2) by (auto simp: jm_get_def map_of_eq_None_iff)
    then show ?thesis using Cons.IH[OF wf(1)] x True read_topic_id
      by (auto simp: readTopicDir_def jm_get_def map_filter_simps split: option.splits)
  next
    case False
    then show ?thesis using Cons.IH[OF wf(1)] x read_topic_id
      by (auto simp: readTopicDir_def jm_get_def map_filter_simps split: option.splits)
  qed
qed (simp add: readTopicDir_def map_filter_simps)

lemma getTopic_at: "dirs_wf d \<Longrightarrow> getTopic i d = topic_at d i"
  by (simp add: getTopic_def listTopics_def find_read dirs_wf_def topic_at_def live_file_def)

lemma write_facts:
  assumes "dirs_wf d" "line_value m"
  shows "dirs_wf (write_topic e m d)" "archived_file (write_topic e m d) = archived_file d"
    "live_file (write_topic e m d) = (live_file d)(me_id e \<mapsto> \<lparr>tf_text = buildTopicFile e, tf_mtime = m\<rparr>)"
  using assms by (auto simp: write_topic_def dirs_wf_def live_file_def archived_file_def)

lemma archive_facts:
  assumes "dirs_wf d" "archiveTopic i expected stamp d = Inr d'"
  shows "dirs_wf d' \<and> (\<exists>f e. live_file d i = Some f \<and> topic_at d i = Some e \<and> assertExpectedContent e expected \<and>
    live_file d' = (live_file d)(i := None) \<and> archived_file d' = (archived_file d)(i \<mapsto> f))"
proof -
  obtain e where e: "topic_at d i = Some e" "assertExpectedContent e expected" "d' = move_to_archive i stamp d"
    using assms by (auto simp: archiveTopic_def getTopic_at split: option.splits if_splits)
  then obtain f where f: "live_file d i = Some f" by (auto simp: topic_at_def bind_eq_Some_conv)
  then have "live_file d' = (live_file d)(i := None)" "archived_file d' = (archived_file d)(i \<mapsto> f)"
    using e(3) by (auto simp: move_to_archive_def live_file_def archived_file_def)
  moreover have "dirs_wf d'"
    using assms(1) f e(3) by (auto simp: move_to_archive_def dirs_wf_def live_file_def archived_file_def)
  ultimately show ?thesis using e f by blast
qed

lemma archive_ok:
  "dirs_wf d \<Longrightarrow> topic_at d i = Some e \<Longrightarrow> assertExpectedContent e expected \<Longrightarrow> \<exists>d'. archiveTopic i expected stamp d = Inr d'"
  by (simp add: archiveTopic_def getTopic_at)

lemma restore_facts:
  assumes "dirs_wf d" "restoreTopic i d = Inr d'"
  shows "dirs_wf d' \<and> topic_at d i = None \<and> (\<exists>f. archived_file d i = Some f \<and>
    live_file d' = (live_file d)(i \<mapsto> f) \<and> archived_file d' = (archived_file d)(i := None))"
proof -
  obtain f where f: "archived_file d i = Some f" "topic_at d i = None"
      "d' = d\<lparr>md_archive := jm_delete (md_archive d) i, md_live := jm_set (md_live d) i f\<rparr>"
    using assms by (auto simp: restoreTopic_def getTopic_at archived_file_def split: option.splits if_splits)
  then have "dirs_wf d'" using assms(1) by (auto simp: dirs_wf_def live_file_def archived_file_def)
  then show ?thesis using f by (auto simp: live_file_def archived_file_def)
qed

lemma restore_ok:
  "dirs_wf d \<Longrightarrow> \<not> bad_topic_id i \<Longrightarrow> archived_file d i = Some f \<Longrightarrow> topic_at d i = None \<Longrightarrow> \<exists>d'. restoreTopic i d = Inr d'"
  by (simp add: restoreTopic_def getTopic_at archived_file_def)

lemma update_facts:
  assumes "dirs_wf d" "line_value u" "updateTopic i c expected u d = Inr (saved, d')"
  shows "dirs_wf d' \<and> me_content saved = trim c \<and> archived_file d' = archived_file d \<and> (\<forall>j. j \<noteq> i \<longrightarrow> live_file d' j = live_file d j) \<and>
    (\<exists>e e'. topic_at d i = Some e \<and> assertExpectedContent e expected \<and> topic_at d' i = Some e' \<and> same_topic (e\<lparr>me_content := trim c\<rparr>) e')"
proof -
  obtain e where e: "topic_at d i = Some e" "assertExpectedContent e expected"
      "saved = e\<lparr>me_content := trim c, me_updatedAt := Some u\<rparr>" "d' = write_topic saved u d"
    using assms by (auto simp: updateTopic_def getTopic_at Let_def split: option.splits if_splits)
  obtain f where f: "live_file d i = Some f" "read_topic i f = Some e" using e(1) by (auto simp: topic_at_def bind_eq_Some_conv)
  then have dated: "line_value (tf_mtime f)" using assms(1) by (auto simp: dirs_wf_def)
  have "me_id saved = i" using read_dated(2)[OF f(2) dated] e(3) by simp
  then show ?thesis
    using write_facts[OF assms(1,2), of saved] rewritten_read[OF f(2) dated assms(2), of "trim c" u] e
    by (auto simp: topic_at_def)
qed

lemma update_ok:
  "dirs_wf d \<Longrightarrow> topic_at d i = Some e \<Longrightarrow> assertExpectedContent e expected \<Longrightarrow> \<exists>s d'. updateTopic i c expected u d = Inr (s, d')"
  by (simp add: updateTopic_def getTopic_at Let_def)

lemma append_facts:
  assumes "dirs_wf d" "line_value m" "appendEntry e m d = Inr d'"
  shows "dirs_wf d' \<and> topic_at d (me_id e) = None \<and> archived_file d' = archived_file d \<and>
    live_file d' = (live_file d)(me_id e \<mapsto> \<lparr>tf_text = buildTopicFile e, tf_mtime = m\<rparr>)"
  using assms write_facts[OF assms(1,2)] by (auto simp: appendEntry_def getTopic_at split: if_splits)

lemma delete_facts:
  assumes "dirs_wf d" "deleteTopic i expected d = Inr d'"
  shows "dirs_wf d' \<and> archived_file d' = archived_file d \<and> live_file d' = (live_file d)(i := None) \<and>
    (\<exists>e. topic_at d i = Some e \<and> assertExpectedContent e expected)"
  using assms by (auto simp: deleteTopic_def getTopic_at dirs_wf_def live_file_def archived_file_def split: option.splits if_splits)

lemmas store_facts = archive_facts restore_facts update_facts append_facts delete_facts

text \<open>A topic that is written is the topic that is read back: its name and description with line
  ends turned into spaces, its content without the white space around it, its kind and its
  times. So what a write returns equals what the next read sees, which the compare-and-swap of
  later writes needs.\<close>

theorem written_topic_read_back:
  assumes "clean_entry e"
  shows "read_topic i \<lparr>tf_text = buildTopicFile e, tf_mtime = m\<rparr> =
    Some (e\<lparr>me_id := i, me_name := frontmatterValue (me_name e), me_description := frontmatterValue (me_description e),
      me_content := trim (me_content e)\<rparr>)"
  using written_read[of e i m] assms by (auto simp: clean_entry_def reads_as_def)


definition sample_entry :: memory_entry where
  "sample_entry = \<lparr>me_id = ''likes-tea'', me_name = ''Tea'', me_description = ''what the user drinks'', me_type = UserEntry,
     me_content = '' green, no sugar '', me_createdAt = ''2026-01-02T03:04:05.000Z'', me_updatedAt = None\<rparr>"

lemma sample_clean: "clean_entry sample_entry"
  by code_simp

theorem written_topic_read_back_witness:
  "read_topic ''likes-tea'' \<lparr>tf_text = buildTopicFile sample_entry, tf_mtime = []\<rparr> =
    Some (sample_entry\<lparr>me_content := ''green, no sugar''\<rparr>)"
proof -
  have "trim (me_content sample_entry) = ''green, no sugar''" "frontmatterValue (me_name sample_entry) = me_name sample_entry"
    "frontmatterValue (me_description sample_entry) = me_description sample_entry" "me_id sample_entry = ''likes-tea''" by code_simp+
  then show ?thesis using written_topic_read_back[OF sample_clean, of "''likes-tea''" "[]"] by simp
qed

text \<open>Without a description the line that follows is read as one: the topic comes back with the
  description \<open>type: user\<close>.\<close>

lemma empty_description_filled:
  "map_option me_description (read_topic ''t'' \<lparr>tf_text = buildTopicFile (sample_entry\<lparr>me_description := []\<rparr>), tf_mtime = []\<rparr>) =
     Some ''type: user''"
  by code_simp

text \<open>A file without a name is a topic; rewritten and read again, it has the line after its empty name for
  a name.\<close>

definition nameless_text :: string where
  "nameless_text = join [LF] [''---'', ''description: d'', ''type: user'', ''createdAt: 2026-01-01'', ''---'', ''likes tea'', []]"

lemma missing_name_filled:
  "map_option me_name (read_topic ''t'' \<lparr>tf_text = nameless_text, tf_mtime = []\<rparr>) = Some [] \<and>
   map_option (\<lambda>e. map_option me_name (read_topic ''t'' \<lparr>tf_text = buildTopicFile e, tf_mtime = []\<rparr>))
     (read_topic ''t'' \<lparr>tf_text = nameless_text, tf_mtime = []\<rparr>) = Some (Some ''description: d'')"
  by code_simp

text \<open>A file that is no topic is written over by a new topic of its name: only topics that parse are existing ones.\<close>

lemma foreign_file_overwritten:
  "appendEntry sample_entry m \<lparr>md_live = [(''likes-tea'', \<lparr>tf_text = ''notes of my own'', tf_mtime = m\<rparr>)], md_archive = a, md_history = h\<rparr> =
     Inr \<lparr>md_live = [(''likes-tea'', \<lparr>tf_text = buildTopicFile sample_entry, tf_mtime = m\<rparr>)], md_archive = a, md_history = h\<rparr>"
proof -
  have "read_topic ''likes-tea'' \<lparr>tf_text = ''notes of my own'', tf_mtime = m\<rparr> = None"
    by (simp add: read_topic_def split_topic_def startsWith_def)
  then show ?thesis
    by (simp add: appendEntry_def getTopic_def listTopics_def readTopicDir_def map_filter_simps write_topic_def sample_entry_def)
qed

end
