(* ===== verification/DreamState.thy ===== *)
theory DreamState
  imports MemStore "HOL-Library.List_Lexorder" "HOL-Library.Char_ord"
begin

text \<open>
  What a workspace keeps about its consolidations, beside its topics:
  \<open>packages/sidecar/src/memory/dream/dreamState.ts\<close>. One record holds the files of \<open>.dream\<close> and
  whether this process holds the lock; a file that cannot be read is an absent one, and the files
  hold what the program writes there. The clock, \<open>Date.parse\<close> and whether a process is alive are
  arguments.
\<close>

section \<open>The lock\<close>

record dream_lock =
  lf_text :: string
  lf_mtime :: int

record dream_state =
  ds_confirmedAt :: "string option"
  ds_failures :: "nat option"
  ds_lastFailureAt :: "string option"

record ('p, 'r) dream_files =
  df_held :: bool
  df_lock :: "dream_lock option"
  df_lastRun :: "int option"
  df_state :: dream_state
  df_pending :: "'p option"
  df_reports :: "(string, 'r) js_map"
  df_usage :: "(string, string) js_map"

definition HOLDER_STALE_MS :: int where "HOLDER_STALE_MS = 3600000"
definition EMPTY_HOLDER_GRACE_MS :: int where "EMPTY_HOLDER_GRACE_MS = 10000"

text \<open>\<open>Number.parseInt(text, 10)\<close> when it is positive.\<close>

definition holder_digits :: "string \<Rightarrow> nat" where
  "holder_digits s = foldl (\<lambda>n c. 10 * n + (code_unit c - 48)) 0 s"

definition positive_int :: "string \<Rightarrow> nat option" where
  "positive_int s =
     (let digits = takeWhile is_digit_ascii (case s of c # cs \<Rightarrow> if c = CHR ''+'' then cs else s | [] \<Rightarrow> [])
      in if 0 < holder_digits digits then Some (holder_digits digits) else None)"

definition readHolder :: "dream_lock option \<Rightarrow> nat option" where
  "readHolder lock = Option.bind lock (\<lambda>l. positive_int (trim (lf_text l)))"

definition isAbandoned :: "nat \<Rightarrow> (nat \<Rightarrow> bool) \<Rightarrow> int \<Rightarrow> dream_lock option \<Rightarrow> bool" where
  "isAbandoned pid isPidAlive now lock =
     (case lock of
        None \<Rightarrow> False
      | Some l \<Rightarrow>
          (case readHolder lock of
             None \<Rightarrow> now - lf_mtime l \<ge> EMPTY_HOLDER_GRACE_MS
           | Some holder \<Rightarrow> if holder \<noteq> pid \<and> \<not> isPidAlive holder then True else now - lf_mtime l \<ge> HOLDER_STALE_MS))"

definition readLastDreamAt :: "('p, 'r) dream_files \<Rightarrow> int" where
  "readLastDreamAt df =
     (case df_lastRun df of
        Some t \<Rightarrow> t
      | None \<Rightarrow> (case df_lock df of None \<Rightarrow> 0 | Some l \<Rightarrow> if readHolder (Some l) \<noteq> None then 0 else lf_mtime l))"

definition isDreamLocked :: "nat \<Rightarrow> (nat \<Rightarrow> bool) \<Rightarrow> int \<Rightarrow> ('p, 'r) dream_files \<Rightarrow> bool" where
  "isDreamLocked pid isPidAlive now df \<longleftrightarrow>
     df_held df \<or> (df_lock df \<noteq> None \<and> \<not> isAbandoned pid isPidAlive now (df_lock df))"

definition lock_of :: "nat \<Rightarrow> int \<Rightarrow> dream_lock" where
  "lock_of pid now = \<lparr>lf_text = nat_text pid, lf_mtime = now\<rparr>"

text \<open>When nobody else is at the lock. The create succeeds when there is no file; otherwise an
  abandoned one is removed and the second create succeeds.\<close>

definition tryAcquireDreamLock ::
  "nat \<Rightarrow> (nat \<Rightarrow> bool) \<Rightarrow> int \<Rightarrow> ('p, 'r) dream_files \<Rightarrow> bool \<times> ('p, 'r) dream_files" where
  "tryAcquireDreamLock pid isPidAlive now df =
     (if df_held df then (False, df)
      else if df_lock df = None \<or> isAbandoned pid isPidAlive now (df_lock df)
      then (True, df\<lparr>df_lock := Some (lock_of pid now), df_held := True\<rparr>)
      else (False, df))"

definition dropLock :: "nat \<Rightarrow> ('p, 'r) dream_files \<Rightarrow> ('p, 'r) dream_files" where
  "dropLock pid df =
     (let df' = df\<lparr>df_held := False\<rparr> in
      if \<not> df_held df \<or> readHolder (df_lock df) \<noteq> Some pid then df' else df'\<lparr>df_lock := None\<rparr>)"

definition releaseDreamLock :: "nat \<Rightarrow> int \<Rightarrow> ('p, 'r) dream_files \<Rightarrow> ('p, 'r) dream_files" where
  "releaseDreamLock pid now df = dropLock pid (df\<lparr>df_lastRun := Some now\<rparr>)"

definition rollbackDreamLock :: "nat \<Rightarrow> ('p, 'r) dream_files \<Rightarrow> ('p, 'r) dream_files" where
  "rollbackDreamLock pid df = dropLock pid df"

section \<open>Confirmation and backoff\<close>

definition FAILURE_BACKOFF_BASE_MS :: int where "FAILURE_BACKOFF_BASE_MS = 21600000"
definition FAILURE_BACKOFF_MAX_MS :: int where "FAILURE_BACKOFF_MAX_MS = 604800000"

definition readDreamConfirmed :: "('p, 'r) dream_files \<Rightarrow> bool" where
  "readDreamConfirmed df \<longleftrightarrow> ds_confirmedAt (df_state df) \<noteq> None"

definition markDreamConfirmed :: "string \<Rightarrow> ('p, 'r) dream_files \<Rightarrow> ('p, 'r) dream_files" where
  "markDreamConfirmed now df = df\<lparr>df_state := (df_state df)\<lparr>ds_confirmedAt := Some now\<rparr>\<rparr>"

definition recordDreamFailure :: "string \<Rightarrow> ('p, 'r) dream_files \<Rightarrow> ('p, 'r) dream_files" where
  "recordDreamFailure now df = df\<lparr>df_state := (df_state df)
     \<lparr>ds_failures := Some (or_else (ds_failures (df_state df)) 0 + 1), ds_lastFailureAt := Some now\<rparr>\<rparr>"

definition clearDreamFailures :: "('p, 'r) dream_files \<Rightarrow> ('p, 'r) dream_files" where
  "clearDreamFailures df =
     (if ds_failures (df_state df) = None \<and> ds_lastFailureAt (df_state df) = None then df
      else df\<lparr>df_state := (df_state df)\<lparr>ds_failures := None, ds_lastFailureAt := None\<rparr>\<rparr>)"

definition dreamRetryAt :: "(string \<Rightarrow> int option) \<Rightarrow> ('p, 'r) dream_files \<Rightarrow> int" where
  "dreamRetryAt date df =
     (let failures = or_else (ds_failures (df_state df)) 0;
          at_ms = (case ds_lastFailureAt (df_state df) of Some s \<Rightarrow> if s \<noteq> [] then date s else None | None \<Rightarrow> None)
      in case at_ms of
           None \<Rightarrow> 0
         | Some t \<Rightarrow> if failures = 0 then 0
             else t + min (FAILURE_BACKOFF_BASE_MS * 2 ^ (failures - 1)) FAILURE_BACKOFF_MAX_MS)"

section \<open>Preview, reports, usage\<close>

definition writePendingPlan :: "'p \<Rightarrow> ('p, 'r) dream_files \<Rightarrow> ('p, 'r) dream_files" where
  "writePendingPlan plan df = df\<lparr>df_pending := Some plan\<rparr>"

definition clearPendingPlan :: "('p, 'r) dream_files \<Rightarrow> ('p, 'r) dream_files" where
  "clearPendingPlan df = df\<lparr>df_pending := None\<rparr>"

definition KEPT_DREAM_REPORTS :: nat where "KEPT_DREAM_REPORTS = 20"

definition listDreamReportIds :: "(string, 'r) js_map \<Rightarrow> string list" where
  "listDreamReportIds reports = rev (sort (map fst reports))"

definition prune_reports :: "(string, 'r) js_map \<Rightarrow> (string, 'r) js_map" where
  "prune_reports reports = foldl jm_delete reports (drop KEPT_DREAM_REPORTS (listDreamReportIds reports))"

definition writeDreamReport :: "string \<Rightarrow> 'r \<Rightarrow> ('p, 'r) dream_files \<Rightarrow> ('p, 'r) dream_files" where
  "writeDreamReport i report df = df\<lparr>df_reports := prune_reports (jm_set (df_reports df) i report)\<rparr>"

definition report_id_char :: "char \<Rightarrow> bool" where
  "report_id_char c \<longleftrightarrow> is_lower_ascii c \<or> (65 \<le> code_unit c \<and> code_unit c \<le> 90) \<or> is_digit_ascii c \<or> c = CHR ''_'' \<or> c = CHR ''-''"

definition readDreamReport :: "string \<Rightarrow> ('p, 'r) dream_files \<Rightarrow> 'r option" where
  "readDreamReport i df = (if i \<noteq> [] \<and> list_all report_id_char i then jm_get (df_reports df) i else None)"

definition record_read :: "(string, string) js_map \<Rightarrow> string \<times> string \<Rightarrow> (string, string) js_map" where
  "record_read merged r =
     (case jm_get merged (fst r) of
        None \<Rightarrow> jm_set merged (fst r) (snd r)
      | Some current \<Rightarrow> if current < snd r then jm_set merged (fst r) (snd r) else merged)"

definition recordTopicUsage :: "(string, string) js_map \<Rightarrow> ('p, 'r) dream_files \<Rightarrow> ('p, 'r) dream_files" where
  "recordTopicUsage reads df = df\<lparr>df_usage := foldl record_read (df_usage df) reads\<rparr>"

definition pruneTopicUsage :: "string list \<Rightarrow> ('p, 'r) dream_files \<Rightarrow> ('p, 'r) dream_files" where
  "pruneTopicUsage liveIds df = df\<lparr>df_usage := filter (\<lambda>u. fst u \<in> set liveIds) (df_usage df)\<rparr>"

section \<open>Facts\<close>

text \<open>The name of a holder reads back.\<close>

lemma positive_int_nat_text_sample: "positive_int (nat_text 4711) = Some 4711" "positive_int ''+12 x'' = Some 12" "positive_int ''-3'' = None"
  by code_simp+

text \<open>However many failures there were, the next try is six hours to seven days after the last one.\<close>

lemma retry_window:
  assumes "date now = Some t" "now \<noteq> []"
  shows "t + FAILURE_BACKOFF_BASE_MS \<le> dreamRetryAt date (recordDreamFailure now df) \<and>
    dreamRetryAt date (recordDreamFailure now df) \<le> t + FAILURE_BACKOFF_MAX_MS"
proof -
  let ?k = "or_else (ds_failures (df_state df)) 0"
  have "dreamRetryAt date (recordDreamFailure now df) = t + min (FAILURE_BACKOFF_BASE_MS * 2 ^ ?k) FAILURE_BACKOFF_MAX_MS"
    using assms by (simp add: dreamRetryAt_def recordDreamFailure_def Let_def or_else_def)
  moreover have "FAILURE_BACKOFF_BASE_MS \<le> FAILURE_BACKOFF_BASE_MS * 2 ^ ?k"
    using mult_left_mono[of 1 "2 ^ ?k" FAILURE_BACKOFF_BASE_MS] by (simp add: FAILURE_BACKOFF_BASE_MS_def)
  moreover have "FAILURE_BACKOFF_BASE_MS \<le> FAILURE_BACKOFF_MAX_MS"
    by (simp add: FAILURE_BACKOFF_BASE_MS_def FAILURE_BACKOFF_MAX_MS_def)
  ultimately show ?thesis by linarith
qed

lemma cleared_no_retry: "dreamRetryAt date (clearDreamFailures df) = 0"
  by (auto simp: dreamRetryAt_def clearDreamFailures_def or_else_def split: option.splits)

text \<open>Reports: no more than the limit, and the one written is kept when its name is the last.\<close>

lemma jm_get_delete_all: "jm_get (foldl jm_delete m ks) k = (if k \<in> set ks then None else jm_get m k)"
  by (induction ks arbitrary: m) auto

lemma delete_all_filter: "foldl jm_delete m ks = filter (\<lambda>e. fst e \<notin> set ks) m"
  by (induction ks arbitrary: m) (auto simp: jm_delete_def intro: filter_cong)

lemma prune_length:
  assumes "jm_wf m"
  shows "length (prune_reports m) \<le> KEPT_DREAM_REPORTS"
proof -
  let ?ids = "listDreamReportIds m"
  have d: "distinct ?ids" "set ?ids = fst ` set m" using assms by (auto simp: listDreamReportIds_def jm_wf_def)
  have "set ?ids = set (take KEPT_DREAM_REPORTS ?ids) \<union> set (drop KEPT_DREAM_REPORTS ?ids)"
    by (metis append_take_drop_id set_append)
  then have sub: "fst ` set (prune_reports m) \<subseteq> set (take KEPT_DREAM_REPORTS ?ids)"
    using d(2) by (auto simp: prune_reports_def delete_all_filter)
  have "distinct (map fst (prune_reports m))"
    using assms by (auto simp: prune_reports_def delete_all_filter jm_wf_def distinct_map_filter)
  then have "length (prune_reports m) = card (fst ` set (prune_reports m))"
    by (metis distinct_card length_map list.set_map)
  also have "\<dots> \<le> card (set (take KEPT_DREAM_REPORTS ?ids))" by (rule card_mono[OF _ sub]) simp
  also have "\<dots> \<le> KEPT_DREAM_REPORTS" by (metis card_length le_trans length_take min.cobounded2)
  finally show ?thesis .
qed

lemma sorted_last_ge: "sorted xs \<Longrightarrow> x \<in> set xs \<Longrightarrow> x \<le> last (xs :: 'a::linorder list)"
  by (induction xs) (auto split: if_splits)

lemma newest_kept:
  assumes "jm_wf m" "\<forall>k \<in> fst ` set m. k \<le> i"
  shows "jm_get (prune_reports (jm_set m i r)) i = Some r"
proof -
  let ?m = "jm_set m i r"
  have wf: "distinct (map fst ?m)" using jmap.wf_put[OF assms(1), of i r] by (simp add: jm_wf_def)
  have sorted: "sorted (sort (map fst ?m))" and set: "set (sort (map fst ?m)) = insert i (fst ` set m)"
    by (simp_all add: fst_set_jm_set)
  have "last (sort (map fst ?m)) = i"
  proof -
    have "i \<le> last (sort (map fst ?m))"
      using sorted_last_ge[OF sorted] set by simp
    moreover have "last (sort (map fst ?m)) \<in> insert i (fst ` set m)"
      using set by (metis insert_not_empty last_in_set set_empty)
    ultimately show ?thesis using assms(2) by auto
  qed
  then have hd: "hd (listDreamReportIds ?m) = i" by (simp add: listDreamReportIds_def hd_rev)
  have "i \<notin> set (drop KEPT_DREAM_REPORTS (listDreamReportIds ?m))"
  proof -
    have "distinct (listDreamReportIds ?m)" using wf by (simp add: listDreamReportIds_def)
    moreover have "listDreamReportIds ?m \<noteq> []" using set by (metis insert_not_empty listDreamReportIds_def rev_is_Nil_conv set_empty)
    then obtain x xs where "listDreamReportIds ?m = x # xs" by (cases "listDreamReportIds ?m") auto
    ultimately show ?thesis using hd by (auto simp: KEPT_DREAM_REPORTS_def dest: in_set_dropD)
  qed
  then show ?thesis by (simp add: prune_reports_def jm_get_delete_all)
qed

text \<open>Read times only move forward.\<close>

lemma record_read_at: "jm_get (record_read m r) i = (if i = fst r then
    (case jm_get m i of None \<Rightarrow> Some (snd r) | Some c \<Rightarrow> Some (max c (snd r))) else jm_get m i)"
  by (auto simp: record_read_def max_def split: option.splits)

lemma usage_monotone:
  "jm_get (df_usage df) i = Some t \<Longrightarrow> \<exists>t'. jm_get (df_usage (recordTopicUsage reads df)) i = Some t' \<and> t \<le> t'"
proof -
  have "jm_get m i = Some t \<Longrightarrow> \<exists>t'. jm_get (foldl record_read m reads) i = Some t' \<and> t \<le> t'" for m
  proof (induction reads arbitrary: m t)
    case (Cons r reads)
    obtain u where "jm_get (record_read m r) i = Some u" "t \<le> u"
      using Cons.prems by (cases "i = fst r") (auto simp: record_read_at)
    from Cons.IH[OF this(1)] this(2) show ?case by (auto intro: order_trans)
  qed simp
  then show "jm_get (df_usage df) i = Some t \<Longrightarrow> ?thesis" by (simp add: recordTopicUsage_def)
qed


section \<open>Several processes at one lock\<close>

text \<open>
  The calls that \<open>tryAcquireDreamLock\<close> and \<open>dropLock\<close> make on the file, one move each, so that the
  moves of processes can interleave. Between finding the lock abandoned and removing it a process is
  \<open>Judged\<close>, after removing it \<open>Cleared\<close>.
\<close>

datatype lock_phase = Free | Judged | Cleared | Holding

record lock_world =
  lw_lock :: "dream_lock option"
  lw_phase :: "nat \<Rightarrow> lock_phase"

datatype lock_move =
    Create nat int
  | Judge nat int "nat \<Rightarrow> bool"
  | Unlink nat
  | GiveUp nat
  | DropIt nat

fun move_lock :: "lock_world \<Rightarrow> lock_move \<Rightarrow> lock_world option" where
  "move_lock w (Create p now) =
     (if lw_phase w p \<in> {Free, Cleared} \<and> lw_lock w = None
      then Some (w\<lparr>lw_lock := Some (lock_of p now), lw_phase := (lw_phase w)(p := Holding)\<rparr>) else None)"
| "move_lock w (Judge p now isPidAlive) =
     (if lw_phase w p = Free \<and> lw_lock w \<noteq> None \<and> isAbandoned p isPidAlive now (lw_lock w)
      then Some (w\<lparr>lw_phase := (lw_phase w)(p := Judged)\<rparr>) else None)"
| "move_lock w (Unlink p) =
     (if lw_phase w p = Judged then Some (w\<lparr>lw_lock := None, lw_phase := (lw_phase w)(p := Cleared)\<rparr>) else None)"
| "move_lock w (GiveUp p) =
     (if lw_phase w p = Cleared \<and> lw_lock w \<noteq> None then Some (w\<lparr>lw_phase := (lw_phase w)(p := Free)\<rparr>) else None)"
| "move_lock w (DropIt p) =
     (if lw_phase w p = Holding
      then Some (w\<lparr>lw_lock := (if readHolder (lw_lock w) = Some p then None else lw_lock w), lw_phase := (lw_phase w)(p := Free)\<rparr>)
      else None)"

fun run_locks :: "lock_world \<Rightarrow> lock_move list \<Rightarrow> lock_world option" where
  "run_locks w [] = Some w"
| "run_locks w (m # ms) = (case move_lock w m of None \<Rightarrow> None | Some w' \<Rightarrow> run_locks w' ms)"

text \<open>As long as no process finds a lock abandoned, one process at most holds it.\<close>

definition one_holder :: "lock_world \<Rightarrow> bool" where
  "one_holder w \<longleftrightarrow> (\<forall>p. lw_phase w p \<in> {Free, Holding}) \<and>
     (\<forall>p q. lw_phase w p = Holding \<longrightarrow> lw_phase w q = Holding \<longrightarrow> p = q) \<and> ((\<exists>p. lw_phase w p = Holding) \<longrightarrow> lw_lock w \<noteq> None)"

lemma one_holder_move:
  assumes "one_holder w" "move_lock w m = Some w'" "\<forall>p now a. m \<noteq> Judge p now a"
  shows "one_holder w'"
proof (cases m)
  case (Create p now)
  then show ?thesis using assms by (auto simp: one_holder_def split: if_splits)
next
  case (Unlink p)
  then show ?thesis using assms by (auto simp: one_holder_def split: if_splits dest!: spec[of _ p])
next
  case (GiveUp p)
  then show ?thesis using assms by (auto simp: one_holder_def split: if_splits dest!: spec[of _ p])
next
  case (DropIt p)
  then show ?thesis using assms by (auto simp: one_holder_def split: if_splits)
qed (use assms(3) in auto)

lemma no_reclaim_one_holder:
  "one_holder w \<Longrightarrow> \<forall>m \<in> set ms. \<forall>p now a. m \<noteq> Judge p now a \<Longrightarrow> run_locks w ms = Some w' \<Longrightarrow> one_holder w'"
proof (induction ms arbitrary: w)
  case (Cons m ms)
  then show ?case using one_holder_move[of w m] by (auto split: option.splits)
qed simp

text \<open>Two processes that reclaim the same abandoned lock can both end up holding it: the second
  removal takes the lock the first has just created, although the first is alive and the lock new.\<close>

definition dead_lock_world :: lock_world where
  "dead_lock_world = \<lparr>lw_lock = Some \<lparr>lf_text = ''7'', lf_mtime = 0\<rparr>, lw_phase = (\<lambda>p. Free)\<rparr>"

lemma two_reclaimers_hold:
  "\<exists>w. run_locks dead_lock_world
     [Judge 1 50 (\<lambda>p. p \<noteq> 7), Judge 2 50 (\<lambda>p. p \<noteq> 7), Unlink 1, Create 1 51, Unlink 2, Create 2 52] = Some w \<and>
    lw_phase w 1 = Holding \<and> lw_phase w 2 = Holding \<and> lw_lock w = Some (lock_of 2 52)"
proof -
  have dead: "positive_int (trim ''7'') = Some 7" by code_simp
  show ?thesis
    by (simp add: dead_lock_world_def isAbandoned_def readHolder_def dead)
qed

end
