(* ===== verification/Dream.thy ===== *)
theory Dream
  imports DreamState
begin

text \<open>
  A consolidation run: \<open>packages/sidecar/src/memory/dream/consolidator.ts\<close>. Planning asks a model
  once and checks the answer; applying carries the plan out on the store, each write compared with
  the content the plan was made from; a report of every run allows to undo it. The answer of the
  model, the clock with its ISO texts and the writes of others while the model answers are arguments.
  Reasons are constructors instead of texts, and nothing is logged.
\<close>

section \<open>Plans, reports, outcomes\<close>

record pending_plan =
  pd_id :: string
  pd_createdAt :: string
  pd_actions :: "dream_action list"
  pd_snapshot :: "(string, string) js_map"
  pd_topicCount :: nat
  pd_counts :: plan_counts

record dream_report =
  dr_id :: string
  dr_appliedAt :: string
  dr_counts :: plan_counts
  dr_created :: "string list"
  dr_written :: "(string, string) js_map option"
  dr_archived :: "string list"
  dr_rewritten :: "(string \<times> string) list"
  dr_skipped :: "string list"
  dr_stranded :: "string list"
  dr_inProgress :: bool
  dr_undoneAt :: "string option"

type_synonym dream_dir = "(pending_plan, dream_report) dream_files"

datatype skip_reason =
    TooFewTopics nat
  | BackingOff int
  | RanLately int
  | TooFewChanges nat
  | PreviewWaiting
  | LockTaken
  | NothingToChange

datatype fail_reason =
    TimedOut
  | Cancelled
  | OutputLimit
  | NoText
  | NotParseable
  | NoUsableActions
  | RejectedPlan string
  | Thrown string

datatype dream_outcome =
    Skipped skip_reason
  | Previewed pending_plan
  | Applied dream_report
  | Failed fail_reason

section \<open>Applying a plan\<close>

text \<open>\<open>toISOString().replace(/[:.]/g, "-")\<close>.\<close>

definition reportId :: "string \<Rightarrow> string" where
  "reportId stamp = map (\<lambda>c. if c = CHR '':'' \<or> c = CHR ''.'' then CHR ''-'' else c) stamp"

definition expected_of :: "pending_plan \<Rightarrow> string \<Rightarrow> string option" where
  "expected_of plan i = jm_get (pd_snapshot plan) i"

record apply_state =
  ap_dirs :: memory_dirs
  ap_created :: "string list"
  ap_archived :: "string list"
  ap_rewritten :: "(string \<times> string) list"
  ap_written :: "(string, string) js_map"
  ap_skipped :: "string list"
  ap_stranded :: "string list"

definition apply_start :: "memory_dirs \<Rightarrow> apply_state" where
  "apply_start d = \<lparr>ap_dirs = d, ap_created = [], ap_archived = [], ap_rewritten = [], ap_written = [], ap_skipped = [], ap_stranded = []\<rparr>"

definition snapshotReport :: "pending_plan \<Rightarrow> string \<Rightarrow> bool \<Rightarrow> apply_state \<Rightarrow> dream_report" where
  "snapshotReport plan appliedAt inProgress st =
     \<lparr>dr_id = pd_id plan, dr_appliedAt = appliedAt, dr_counts = pd_counts plan, dr_created = ap_created st,
      dr_written = Some (ap_written st), dr_archived = ap_archived st, dr_rewritten = ap_rewritten st, dr_skipped = ap_skipped st,
      dr_stranded = ap_stranded st, dr_inProgress = inProgress, dr_undoneAt = None\<rparr>"

fun action_id :: "dream_action \<Rightarrow> string" where
  "action_id (Merge m) = mg_id m"
| "action_id (Rewrite i content) = i"
| "action_id (Archive i reason heir) = i"

fun action_order :: "dream_action \<Rightarrow> nat" where
  "action_order (Merge m) = 0"
| "action_order (Rewrite i content) = 1"
| "action_order (Archive i reason heir) = 2"

text \<open>The sources that moved, and whether all of them did.\<close>

fun move_sources :: "(string \<Rightarrow> string option) \<Rightarrow> string \<Rightarrow> string list \<Rightarrow> memory_dirs \<Rightarrow> string list \<times> memory_dirs \<times> bool" where
  "move_sources expected clock [] d = ([], d, True)"
| "move_sources expected clock (i # is) d =
     (case archiveTopic i (expected i) (reportId clock) d of
        Inl e \<Rightarrow> ([], d, False)
      | Inr d' \<Rightarrow> (case move_sources expected clock is d' of (moved, d'', ok) \<Rightarrow> (i # moved, d'', ok)))"

text \<open>Restoring topics one after the other, with the ones that could not be.\<close>

fun restore_all :: "string list \<Rightarrow> memory_dirs \<Rightarrow> memory_dirs \<times> string list" where
  "restore_all [] d = (d, [])"
| "restore_all (i # is) d =
     (case restoreTopic i d of
        Inl e \<Rightarrow> (case restore_all is d of (d', bad) \<Rightarrow> (d', i # bad))
      | Inr d1 \<Rightarrow> restore_all is d1)"

definition merged_entry :: "merge_action \<Rightarrow> string \<Rightarrow> memory_entry" where
  "merged_entry m createdAt = \<lparr>me_id = mg_id m, me_name = mg_name m, me_description = mg_description m, me_type = mg_type m,
     me_content = mg_content m, me_createdAt = createdAt, me_updatedAt = None\<rparr>"

definition skip_action :: "string \<Rightarrow> apply_state \<Rightarrow> apply_state" where
  "skip_action i st = st\<lparr>ap_skipped := ap_skipped st @ [i]\<rparr>"

definition apply_merge :: "pending_plan \<Rightarrow> string \<Rightarrow> string \<Rightarrow> merge_action \<Rightarrow> apply_state \<Rightarrow> apply_state" where
  "apply_merge plan appliedAt clock m st =
     (case move_sources (expected_of plan) clock (mg_sourceIds m) (ap_dirs st) of
        (moved, d1, ok) \<Rightarrow>
          (case (if ok then appendEntry (merged_entry m appliedAt) clock d1 else Inl (UnknownTopic [])) of
             Inr d2 \<Rightarrow> st\<lparr>ap_dirs := d2, ap_archived := ap_archived st @ moved, ap_created := ap_created st @ [mg_id m],
                 ap_written := jm_set (ap_written st) (mg_id m) (trim (mg_content m))\<rparr>
           | Inl e \<Rightarrow>
               (case restore_all moved d1 of
                  (d2, stranded) \<Rightarrow> skip_action (mg_id m) (st\<lparr>ap_dirs := d2, ap_stranded := ap_stranded st @ stranded\<rparr>))))"

fun apply_action :: "pending_plan \<Rightarrow> string \<Rightarrow> string \<Rightarrow> apply_state \<Rightarrow> dream_action \<Rightarrow> apply_state" where
  "apply_action plan appliedAt clock st (Rewrite i content) =
     (case updateTopic i content (expected_of plan i) clock (ap_dirs st) of
        Inl e \<Rightarrow> skip_action i st
      | Inr (saved, d) \<Rightarrow> st\<lparr>ap_dirs := d, ap_rewritten := ap_rewritten st @ [(i, or_else (expected_of plan i) [])],
          ap_written := jm_set (ap_written st) i (me_content saved)\<rparr>)"
| "apply_action plan appliedAt clock st (Archive i reason heir) =
     (if (case heir of Some s \<Rightarrow> s \<noteq> [] \<and> s \<in> set (merge_targets (pd_actions plan)) \<and> s \<notin> set (ap_created st) | None \<Rightarrow> False)
      then skip_action i st
      else (case archiveTopic i (expected_of plan i) (reportId clock) (ap_dirs st) of
          Inl e \<Rightarrow> skip_action i st
        | Inr d \<Rightarrow> st\<lparr>ap_dirs := d, ap_archived := ap_archived st @ [i]\<rparr>))"
| "apply_action plan appliedAt clock st (Merge m) = apply_merge plan appliedAt clock m st"

definition checkpoint :: "pending_plan \<Rightarrow> string \<Rightarrow> apply_state \<Rightarrow> dream_dir \<Rightarrow> dream_dir" where
  "checkpoint plan appliedAt st df = writeDreamReport (pd_id plan) (snapshotReport plan appliedAt True st) df"

definition ordered_actions :: "pending_plan \<Rightarrow> dream_action list" where
  "ordered_actions plan = sort_key action_order (pd_actions plan)"

definition apply_step :: "pending_plan \<Rightarrow> string \<Rightarrow> string \<Rightarrow> apply_state \<times> dream_dir \<Rightarrow> dream_action \<Rightarrow> apply_state \<times> dream_dir" where
  "apply_step plan appliedAt clock s a =
     (let st = apply_action plan appliedAt clock (fst s) a in (st, checkpoint plan appliedAt st (snd s)))"

text \<open>The state and the files after the first actions.\<close>

definition apply_first :: "nat \<Rightarrow> pending_plan \<Rightarrow> string \<Rightarrow> string \<Rightarrow> memory_dirs \<times> dream_dir \<Rightarrow> apply_state \<times> dream_dir" where
  "apply_first n plan appliedAt clock s =
     foldl (apply_step plan appliedAt clock) (apply_start (fst s), checkpoint plan appliedAt (apply_start (fst s)) (snd s))
       (take n (ordered_actions plan))"

definition applyPlan :: "pending_plan \<Rightarrow> string \<Rightarrow> string \<Rightarrow> memory_dirs \<times> dream_dir \<Rightarrow> dream_report \<times> memory_dirs \<times> dream_dir" where
  "applyPlan plan appliedAt clock s =
     (case apply_first (length (pd_actions plan)) plan appliedAt clock s of
        (st, df) \<Rightarrow>
          let report = snapshotReport plan appliedAt False st
          in (report, ap_dirs st, writeDreamReport (pd_id plan) report df))"

section \<open>Planning\<close>

text \<open>What the call of the model gives: a text with whether its output limit was reached, an abort
  (by its own time limit or not), or an exception.\<close>

datatype model_reply = Reply string bool | Aborted bool | Threw string

definition MIN_TOPICS :: nat where "MIN_TOPICS = 3"
definition HOUR_MS :: int where "HOUR_MS = 3600000"
definition DREAM_PROMPT_BUDGET_CHARS :: nat where "DREAM_PROMPT_BUDGET_CHARS = 160000"

definition countChangedSince :: "(string \<Rightarrow> int option) \<Rightarrow> memory_entry list \<Rightarrow> int \<Rightarrow> nat" where
  "countChangedSince date topics since =
     length (filter (\<lambda>t. case date (topic_time t) of Some at_ms \<Rightarrow> at_ms > since | None \<Rightarrow> False) topics)"

definition dreamGateReason ::
  "(string \<Rightarrow> int option) \<Rightarrow> dream_dir \<Rightarrow> memory_entry list \<Rightarrow> dream_options \<Rightarrow> int \<Rightarrow> skip_reason option" where
  "dreamGateReason date df topics options nowMs =
     (let retryAt = dreamRetryAt date df; lastAt = readLastDreamAt df; changed = countChangedSince date topics lastAt in
      if length topics < MIN_TOPICS then Some (TooFewTopics (length topics))
      else if retryAt > nowMs then Some (BackingOff retryAt)
      else if lastAt = 0 then None
      else if nowMs - lastAt < do_minHours options * HOUR_MS then Some (RanLately (nowMs - lastAt))
      else if changed < do_minChanges options then Some (TooFewChanges changed)
      else None)"

text \<open>\<open>json_len\<close> stands for the length of the JSON text of a view.\<close>

fun fit_views :: "(topic_view \<Rightarrow> nat) \<Rightarrow> nat \<Rightarrow> nat \<Rightarrow> topic_view list \<Rightarrow> topic_view list" where
  "fit_views json_len budget used [] = []"
| "fit_views json_len budget used (v # vs) =
     (if used + Suc (json_len v) > budget then fit_views json_len budget used vs
      else v # fit_views json_len budget (used + Suc (json_len v)) vs)"

definition selectTopicsForPrompt :: "(topic_view \<Rightarrow> nat) \<Rightarrow> topic_view list \<Rightarrow> nat \<Rightarrow> topic_view list \<times> nat" where
  "selectTopicsForPrompt json_len views budget =
     (if sum_list (map (\<lambda>v. Suc (json_len v)) views) \<le> budget then (views, 0)
      else let kept = fit_views json_len budget 0 (sort_key tv_idleDays views);
               selected = filter (\<lambda>v. v \<in> set kept) views
           in (selected, length views - length selected))"

record dream_world =
  dw_parse :: "string \<Rightarrow> js option"
  dw_date :: "string \<Rightarrow> int option"
  dw_iso :: "int \<Rightarrow> string"
  dw_json_len :: "topic_view \<Rightarrow> nat"
  dw_model :: "topic_view list \<Rightarrow> model_reply"
  dw_pid :: nat
  dw_alive :: "nat \<Rightarrow> bool"

definition snapshot_of :: "memory_entry list \<Rightarrow> (string, string) js_map" where
  "snapshot_of topics = foldl (\<lambda>m t. jm_set m (me_id t) (me_content t)) [] topics"

definition planDream ::
  "dream_world \<Rightarrow> (string, string) js_map \<Rightarrow> memory_entry list \<Rightarrow> dream_options \<Rightarrow> int \<Rightarrow> fail_reason + pending_plan" where
  "planDream w usage topics options now =
     (let views = fst (selectTopicsForPrompt (dw_json_len w) (buildTopicViews (dw_date w) topics usage options now) DREAM_PROMPT_BUDGET_CHARS) in
      case dw_model w views of
        Aborted own_limit \<Rightarrow> Inl (if own_limit then TimedOut else Cancelled)
      | Threw message \<Rightarrow> Inl (Thrown message)
      | Reply rawText limited \<Rightarrow>
          if rawText = [] then Inl (if limited then OutputLimit else NoText)
          else (case parseDreamActions (dw_parse w) rawText of
              None \<Rightarrow> Inl NotParseable
            | Some parsed \<Rightarrow>
                if pp_actions parsed = [] \<and> \<not> pp_empty parsed then Inl NoUsableActions
                else let actions = fst (capRetirement (pp_actions parsed) views) in
                  (case validateDreamPlan actions views of
                     Some reason \<Rightarrow> Inl (RejectedPlan reason)
                   | None \<Rightarrow> Inr \<lparr>pd_id = reportId (dw_iso w now), pd_createdAt = dw_iso w now, pd_actions = actions,
                       pd_snapshot = snapshot_of topics, pd_topicCount = length topics, pd_counts = countDreamActions actions\<rparr>)))"

section \<open>Running\<close>

record dream_run =
  dn_force :: bool
  dn_previewOnly :: bool
  dn_options :: dream_options
  dn_now :: int

definition fail_run :: "dream_world \<Rightarrow> dream_run \<Rightarrow> int \<Rightarrow> dream_dir \<Rightarrow> dream_dir" where
  "fail_run w run wall df =
     (let df' = rollbackDreamLock (dw_pid w) df in if dn_force run then df' else recordDreamFailure (dw_iso w wall) df')"

text \<open>\<open>wall\<close> is the real clock; \<open>others\<close> is what others write to the store while the model answers.\<close>

definition runDream ::
  "dream_world \<Rightarrow> dream_run \<Rightarrow> int \<Rightarrow> (memory_dirs \<Rightarrow> memory_dirs) \<Rightarrow> memory_dirs \<times> dream_dir \<Rightarrow>
   dream_outcome \<times> memory_dirs \<times> dream_dir" where
  "runDream w run wall others s =
     (let (d, df) = s;
          topics = listTopics d;
          skip = (if \<not> dn_force run
             then (case dreamGateReason (dw_date w) df topics (dn_options run) wall of
                 Some r \<Rightarrow> Some r
               | None \<Rightarrow> if df_pending df \<noteq> None then Some PreviewWaiting else None)
             else if length topics < MIN_TOPICS then Some (TooFewTopics (length topics)) else None)
      in case skip of
           Some r \<Rightarrow> (Skipped r, d, df)
         | None \<Rightarrow>
             (case tryAcquireDreamLock (dw_pid w) (dw_alive w) wall df of
                (False, df0) \<Rightarrow> (Skipped LockTaken, d, df0)
              | (True, df0) \<Rightarrow>
                  let df1 = pruneTopicUsage (map me_id topics) df0 in
                  (case planDream w (df_usage df1) topics (dn_options run) (dn_now run) of
                     Inl reason \<Rightarrow> (Failed reason, others d, fail_run w run wall df1)
                   | Inr plan \<Rightarrow>
                       let df2 = clearDreamFailures df1 in
                       if pd_actions plan = [] then (Skipped NothingToChange, others d, releaseDreamLock (dw_pid w) wall df2)
                       else if dn_previewOnly run \<or> \<not> readDreamConfirmed df2
                       then (Previewed plan, others d, releaseDreamLock (dw_pid w) wall (writePendingPlan plan df2))
                       else (case applyPlan plan (dw_iso w (dn_now run)) (dw_iso w wall) (others d, df2) of
                           (report, d', df3) \<Rightarrow> (Applied report, d', releaseDreamLock (dw_pid w) wall df3)))))"

datatype dream_error = NoPreview | OtherRunning | UnknownReport | AlreadyUndone | PredatesUndo

definition applyPendingDream ::
  "dream_world \<Rightarrow> int \<Rightarrow> int \<Rightarrow> memory_dirs \<times> dream_dir \<Rightarrow> dream_error + dream_report \<times> memory_dirs \<times> dream_dir" where
  "applyPendingDream w now wall s =
     (let (d, df) = s in
      case df_pending df of
        None \<Rightarrow> Inl NoPreview
      | Some plan \<Rightarrow>
          (case tryAcquireDreamLock (dw_pid w) (dw_alive w) wall df of
             (False, df0) \<Rightarrow> Inl OtherRunning
           | (True, df0) \<Rightarrow>
               (case applyPlan plan (dw_iso w now) (dw_iso w wall) (d, df0) of
                  (report, d', df1) \<Rightarrow>
                    Inr (report, d', releaseDreamLock (dw_pid w) wall (markDreamConfirmed (dw_iso w now) (clearPendingPlan df1))))))"

section \<open>Undoing\<close>

definition wrote :: "dream_report \<Rightarrow> string \<Rightarrow> string option" where
  "wrote report i = Option.bind (dr_written report) (\<lambda>m. jm_get m i)"

fun archive_all :: "(string \<Rightarrow> string option) \<Rightarrow> string \<Rightarrow> string list \<Rightarrow> memory_dirs \<Rightarrow> memory_dirs \<times> string list" where
  "archive_all expected clock [] d = (d, [])"
| "archive_all expected clock (i # is) d =
     (case archiveTopic i (expected i) (reportId clock) d of
        Inl e \<Rightarrow> (case archive_all expected clock is d of (d', bad) \<Rightarrow> (d', i # bad))
      | Inr d1 \<Rightarrow> archive_all expected clock is d1)"

fun write_back :: "(string \<Rightarrow> string option) \<Rightarrow> string \<Rightarrow> (string \<times> string) list \<Rightarrow> memory_dirs \<Rightarrow> memory_dirs \<times> string list" where
  "write_back expected clock [] d = (d, [])"
| "write_back expected clock ((i, before) # rs) d =
     (case updateTopic i before (expected i) clock d of
        Inl e \<Rightarrow> (case write_back expected clock rs d of (d', bad) \<Rightarrow> (d', i # bad))
      | Inr (saved, d1) \<Rightarrow> write_back expected clock rs d1)"

text \<open>The steps on the store, and the topics that could not be reverted.\<close>

definition undo_steps :: "string \<Rightarrow> dream_report \<Rightarrow> memory_dirs \<Rightarrow> memory_dirs \<times> string list" where
  "undo_steps clock report d =
     (case archive_all (wrote report) clock (dr_created report) d of
        (d1, bad1) \<Rightarrow>
          (case restore_all (dr_archived report @ dr_stranded report) d1 of
             (d2, bad2) \<Rightarrow>
               (case write_back (wrote report) clock (dr_rewritten report) d2 of
                  (d3, bad3) \<Rightarrow> (d3, bad1 @ bad2 @ bad3))))"

definition undoDreamReport ::
  "dream_world \<Rightarrow> int \<Rightarrow> string \<Rightarrow> memory_dirs \<times> dream_dir \<Rightarrow> dream_error + string list \<times> memory_dirs \<times> dream_dir" where
  "undoDreamReport w wall i s =
     (let (d, df) = s in
      case readDreamReport i df of
        None \<Rightarrow> Inl UnknownReport
      | Some report \<Rightarrow>
          if (case dr_undoneAt report of Some t \<Rightarrow> t \<noteq> [] | None \<Rightarrow> False) then Inl AlreadyUndone
          else if dr_written report = None then Inl PredatesUndo
          else (case tryAcquireDreamLock (dw_pid w) (dw_alive w) wall df of
              (False, df0) \<Rightarrow> Inl OtherRunning
            | (True, df0) \<Rightarrow>
                let df1 = writeDreamReport (dr_id report) (report\<lparr>dr_undoneAt := Some (dw_iso w wall)\<rparr>) df0 in
                (case undo_steps (dw_iso w wall) report d of
                   (d', conflicts) \<Rightarrow> Inr (conflicts, d', rollbackDreamLock (dw_pid w) df1))))"

definition discardPendingDream :: "dream_world \<Rightarrow> int \<Rightarrow> dream_dir \<Rightarrow> dream_error + dream_dir" where
  "discardPendingDream w wall df =
     (case tryAcquireDreamLock (dw_pid w) (dw_alive w) wall df of
        (False, df0) \<Rightarrow> Inl OtherRunning
      | (True, df0) \<Rightarrow> Inr (rollbackDreamLock (dw_pid w) (clearPendingPlan df0)))"

end
