(* ===== verification/DreamProps.thy ===== *)
theory DreamProps
  imports Dream "HOL-Library.Multiset"
begin

text \<open>
  What a consolidation does to the topics: nothing that changed since planning is touched, nothing
  is lost, and the report undoes the run.
\<close>

section \<open>Sequences of store operations\<close>

lemma move_sources_facts:
  assumes "distinct is" "dirs_wf d" "move_sources expected clock is d = (moved, d1, ok)"
  shows "dirs_wf d1 \<and> set moved \<subseteq> set is \<and> distinct moved \<and> (ok \<longrightarrow> moved = is) \<and>
    (\<forall>i \<in> set moved. live_file d i \<noteq> None \<and> live_file d1 i = None \<and> archived_file d1 i = live_file d i \<and>
       (\<exists>e. topic_at d i = Some e \<and> assertExpectedContent e (expected i))) \<and>
    (\<forall>i. i \<notin> set moved \<longrightarrow> live_file d1 i = live_file d i \<and> archived_file d1 i = archived_file d i)"
  using assms
proof (induction "is" arbitrary: d moved d1 ok)
  case (Cons i "is")
  show ?case
  proof (cases "archiveTopic i (expected i) (reportId clock) d")
    case (Inl e)
    then show ?thesis using Cons.prems by auto
  next
    case (Inr d')
    obtain m where m: "move_sources expected clock is d' = (m, d1, ok)" "moved = i # m"
      using Cons.prems(3) Inr by (auto split: prod.splits)
    from archive_facts[OF Cons.prems(2) Inr] obtain f e where
      a: "dirs_wf d'" "live_file d i = Some f" "topic_at d i = Some e" "assertExpectedContent e (expected i)"
        "live_file d' = (live_file d)(i := None)" "archived_file d' = (archived_file d)(i \<mapsto> f)" by blast
    have IH: "dirs_wf d1 \<and> set m \<subseteq> set is \<and> distinct m \<and> (ok \<longrightarrow> m = is) \<and>
      (\<forall>j \<in> set m. live_file d' j \<noteq> None \<and> live_file d1 j = None \<and> archived_file d1 j = live_file d' j \<and>
         (\<exists>e. topic_at d' j = Some e \<and> assertExpectedContent e (expected j))) \<and>
      (\<forall>j. j \<notin> set m \<longrightarrow> live_file d1 j = live_file d' j \<and> archived_file d1 j = archived_file d' j)"
      using Cons.IH[OF _ a(1) m(1)] Cons.prems(1) by simp
    then have "i \<notin> set m" using Cons.prems(1) by auto
    moreover have "topic_at d' j = topic_at d j" if "j \<noteq> i" for j using that a(5) by (simp add: topic_at_def)
    ultimately show ?thesis using IH a m(2) Cons.prems(1) by (fastforce split: if_splits)
  qed
qed auto

lemma restore_all_facts:
  assumes "distinct is" "dirs_wf d"
    "\<forall>i \<in> set is. \<not> bad_topic_id i \<and> archived_file d i \<noteq> None \<and> live_file d i = None"
  shows "\<exists>d'. restore_all is d = (d', []) \<and> dirs_wf d' \<and> (\<forall>i \<in> set is. live_file d' i = archived_file d i) \<and>
    (\<forall>i. i \<notin> set is \<longrightarrow> live_file d' i = live_file d i \<and> archived_file d' i = archived_file d i)"
  using assms
proof (induction "is" arbitrary: d)
  case (Cons i "is")
  then obtain f where f: "archived_file d i = Some f" by auto
  have "topic_at d i = None" using Cons.prems(3) by (simp add: topic_at_def)
  then obtain d1 where d1: "restoreTopic i d = Inr d1" using restore_ok[OF Cons.prems(2) _ f] Cons.prems(3) by auto
  from restore_facts[OF Cons.prems(2) d1] have
    r: "dirs_wf d1" "live_file d1 = (live_file d)(i \<mapsto> f)" "archived_file d1 = (archived_file d)(i := None)" using f by auto
  have "\<forall>j \<in> set is. \<not> bad_topic_id j \<and> archived_file d1 j \<noteq> None \<and> live_file d1 j = None"
    using Cons.prems r by auto
  then obtain d' where "restore_all is d1 = (d', [])" "dirs_wf d'" "\<forall>j \<in> set is. live_file d' j = archived_file d1 j"
    "\<forall>j. j \<notin> set is \<longrightarrow> live_file d' j = live_file d1 j \<and> archived_file d' j = archived_file d1 j"
    using Cons.IH[OF _ r(1)] Cons.prems(1) by auto
  then show ?case using d1 r f Cons.prems(1) by auto
qed auto

text \<open>What is expected of a topic holds of it.\<close>

definition expectation_met :: "memory_dirs \<Rightarrow> (string \<Rightarrow> string option) \<Rightarrow> string \<Rightarrow> bool" where
  "expectation_met d expected i \<longleftrightarrow> (\<exists>e. topic_at d i = Some e \<and> assertExpectedContent e (expected i))"

lemma archive_all_facts:
  assumes "distinct is" "dirs_wf d" "\<forall>i \<in> set is. expectation_met d expected i"
  shows "\<exists>d'. archive_all expected clock is d = (d', []) \<and> dirs_wf d' \<and> (\<forall>i \<in> set is. live_file d' i = None) \<and>
    (\<forall>i. i \<notin> set is \<longrightarrow> live_file d' i = live_file d i \<and> archived_file d' i = archived_file d i)"
  using assms
proof (induction "is" arbitrary: d)
  case (Cons i "is")
  then obtain e where "topic_at d i = Some e" "assertExpectedContent e (expected i)" by (auto simp: expectation_met_def)
  then obtain d1 where d1: "archiveTopic i (expected i) (reportId clock) d = Inr d1"
    using archive_ok[OF Cons.prems(2)] by blast
  from archive_facts[OF Cons.prems(2) d1] obtain f where
    r: "dirs_wf d1" "live_file d1 = (live_file d)(i := None)" "archived_file d1 = (archived_file d)(i \<mapsto> f)" by auto
  have "\<forall>j \<in> set is. expectation_met d1 expected j"
    using Cons.prems r by (auto simp: expectation_met_def topic_at_def)
  then obtain d' where "archive_all expected clock is d1 = (d', [])" "dirs_wf d'" "\<forall>j \<in> set is. live_file d' j = None"
    "\<forall>j. j \<notin> set is \<longrightarrow> live_file d' j = live_file d1 j \<and> archived_file d' j = archived_file d1 j"
    using Cons.IH[OF _ r(1)] Cons.prems(1) by auto
  then show ?case using d1 r Cons.prems(1) by auto
qed auto

lemma write_back_facts:
  assumes "distinct (map fst rs)" "dirs_wf d" "line_value clock" "\<forall>i \<in> fst ` set rs. expectation_met d expected i"
  shows "\<exists>d'. write_back expected clock rs d = (d', []) \<and> dirs_wf d' \<and>
    (\<forall>(i, before) \<in> set rs. \<exists>e e'. topic_at d i = Some e \<and> topic_at d' i = Some e' \<and> same_topic (e\<lparr>me_content := trim before\<rparr>) e') \<and>
    (\<forall>i. i \<notin> fst ` set rs \<longrightarrow> live_file d' i = live_file d i)"
  using assms
proof (induction rs arbitrary: d)
  case (Cons r rs)
  obtain i before where i: "r = (i, before)" by (cases r)
  then obtain s d1 where d1: "updateTopic i before (expected i) clock d = Inr (s, d1)"
    using update_ok[OF Cons.prems(2), of i] Cons.prems(4) by (force simp: expectation_met_def)
  from update_facts[OF Cons.prems(2,3) d1] obtain e e' where
    u: "dirs_wf d1" "\<forall>j. j \<noteq> i \<longrightarrow> live_file d1 j = live_file d j" "topic_at d i = Some e" "topic_at d1 i = Some e'"
      "same_topic (e\<lparr>me_content := trim before\<rparr>) e'" by blast
  have other: "topic_at d1 j = topic_at d j" if "j \<noteq> i" for j using that u(2) by (simp add: topic_at_def)
  have ni: "i \<notin> fst ` set rs" using Cons.prems(1) i by auto
  then have "\<forall>j \<in> fst ` set rs. expectation_met d1 expected j"
    using Cons.prems(4) other by (metis expectation_met_def image_insert insertCI list.simps(15))
  then obtain d' where d': "write_back expected clock rs d1 = (d', [])" "dirs_wf d'"
    "\<forall>(j, b) \<in> set rs. \<exists>e e'. topic_at d1 j = Some e \<and> topic_at d' j = Some e' \<and> same_topic (e\<lparr>me_content := trim b\<rparr>) e'"
    "\<forall>j. j \<notin> fst ` set rs \<longrightarrow> live_file d' j = live_file d1 j"
    using Cons.IH[OF _ u(1) Cons.prems(3)] Cons.prems(1) by auto
  have "topic_at d' i = Some e'" using d'(4) ni u(4) by (simp add: topic_at_def)
  moreover have "\<exists>e e'. topic_at d j = Some e \<and> topic_at d' j = Some e' \<and> same_topic (e\<lparr>me_content := trim b\<rparr>) e'"
    if "(j, b) \<in> set rs" for j b
  proof -
    have "j \<noteq> i" using that ni by force
    then have "topic_at d1 j = topic_at d j" by (rule other)
    then show ?thesis using bspec[OF d'(3) that] by simp
  qed
  ultimately show ?case using d1 d' u i by auto
qed auto


section \<open>What an applied plan has done\<close>

text \<open>A plan as \<open>validateDreamPlan\<close> leaves it, on the topics its snapshot holds.\<close>

definition plan_fits :: "pending_plan \<Rightarrow> bool" where
  "plan_fits plan \<longleftrightarrow> distinct (concat (map touched_ids (pd_actions plan))) \<and> distinct (merge_targets (pd_actions plan)) \<and>
     (\<forall>i \<in> set (concat (map touched_ids (pd_actions plan))).
        \<not> bad_topic_id i \<and> expected_of plan i \<noteq> None \<and> i \<notin> set (merge_targets (pd_actions plan)))"

text \<open>The store as it is now, told from what it was and from the lists of the report.\<close>

definition rewritten_ids :: "apply_state \<Rightarrow> string set" where
  "rewritten_ids st = fst ` set (ap_rewritten st)"

definition created_ok :: "memory_dirs \<Rightarrow> apply_state \<Rightarrow> string \<Rightarrow> bool" where
  "created_ok d0 st i \<longleftrightarrow> topic_at d0 i = None \<and> (\<exists>e. topic_at (ap_dirs st) i = Some e \<and> jm_get (ap_written st) i = Some (me_content e))"

definition archived_ok :: "memory_dirs \<Rightarrow> apply_state \<Rightarrow> string \<Rightarrow> bool" where
  "archived_ok d0 st i \<longleftrightarrow> live_file (ap_dirs st) i = None \<and> live_file d0 i \<noteq> None \<and> archived_file (ap_dirs st) i = live_file d0 i \<and> \<not> bad_topic_id i"

definition rewritten_ok :: "memory_dirs \<Rightarrow> apply_state \<Rightarrow> string \<times> string \<Rightarrow> bool" where
  "rewritten_ok d0 st r \<longleftrightarrow> (\<exists>e0 e. topic_at d0 (fst r) = Some e0 \<and> me_content e0 = snd r \<and> topic_at (ap_dirs st) (fst r) = Some e \<and>
     jm_get (ap_written st) (fst r) = Some (me_content e) \<and> same_topic (e0\<lparr>me_content := me_content e\<rparr>) e)"

definition report_true :: "memory_dirs \<Rightarrow> apply_state \<Rightarrow> bool" where
  "report_true d0 st \<longleftrightarrow> dirs_wf (ap_dirs st) \<and> ap_stranded st = [] \<and>
     distinct (ap_created st @ ap_archived st @ map fst (ap_rewritten st)) \<and>
     (\<forall>i \<in> set (ap_created st). created_ok d0 st i) \<and> (\<forall>i \<in> set (ap_archived st). archived_ok d0 st i) \<and>
     (\<forall>r \<in> set (ap_rewritten st). rewritten_ok d0 st r) \<and>
     (\<forall>i. i \<notin> set (ap_created st) \<union> set (ap_archived st) \<union> rewritten_ids st \<longrightarrow> live_file (ap_dirs st) i = live_file d0 i)"

text \<open>Topics that no list names yet.\<close>

definition untold :: "apply_state \<Rightarrow> string \<Rightarrow> bool" where
  "untold st i \<longleftrightarrow> i \<notin> set (ap_created st) \<union> set (ap_archived st) \<union> rewritten_ids st"

lemma report_true_start: "dirs_wf d \<Longrightarrow> report_true d (apply_start d)"
  by (simp add: report_true_def apply_start_def)

lemma skip_true [simp]: "report_true d0 (skip_action i st) = report_true d0 st" "untold (skip_action i st) = untold st"
  by (auto simp: report_true_def skip_action_def created_ok_def archived_ok_def rewritten_ok_def rewritten_ids_def untold_def)

lemma untold_live: "report_true d0 st \<Longrightarrow> untold st i \<Longrightarrow> live_file (ap_dirs st) i = live_file d0 i \<and> topic_at (ap_dirs st) i = topic_at d0 i"
  by (auto simp: report_true_def untold_def topic_at_def)

lemma ok_cong:
  assumes "live_file (ap_dirs st') i = live_file (ap_dirs st) i" "archived_file (ap_dirs st') i = archived_file (ap_dirs st) i"
    "jm_get (ap_written st') i = jm_get (ap_written st) i"
  shows "created_ok d0 st' i = created_ok d0 st i" "archived_ok d0 st' i = archived_ok d0 st i"
    "rewritten_ok d0 st' (i, b) = rewritten_ok d0 st (i, b)"
  using assms by (simp_all add: created_ok_def archived_ok_def rewritten_ok_def topic_at_def)

text \<open>One step: what was told stays, the new entries are true, the rest is as it was.\<close>

lemma true_step:
  assumes old: "report_true d0 st" and wf: "dirs_wf (ap_dirs st')" "ap_stranded st' = []"
    and lists: "ap_created st' = ap_created st @ C" "ap_archived st' = ap_archived st @ A" "ap_rewritten st' = ap_rewritten st @ R"
    and new: "distinct (C @ A @ map fst R)" "\<forall>i \<in> set (C @ A @ map fst R). untold st i"
    and same: "\<forall>i. \<not> untold st i \<longrightarrow> live_file (ap_dirs st') i = live_file (ap_dirs st) i \<and>
      archived_file (ap_dirs st') i = archived_file (ap_dirs st) i \<and> jm_get (ap_written st') i = jm_get (ap_written st) i"
    and ok: "\<forall>i \<in> set C. created_ok d0 st' i" "\<forall>i \<in> set A. archived_ok d0 st' i" "\<forall>r \<in> set R. rewritten_ok d0 st' r"
    and rest: "\<forall>i. untold st i \<longrightarrow> i \<notin> set (C @ A @ map fst R) \<longrightarrow> live_file (ap_dirs st') i = live_file (ap_dirs st) i"
  shows "report_true d0 st'"
proof -
  note cong = ok_cong[of st' _ st]
  have told: "\<not> untold st i" if "i \<in> set (ap_created st) \<or> i \<in> set (ap_archived st) \<or> i \<in> fst ` set (ap_rewritten st)" for i
    using that by (auto simp: untold_def rewritten_ids_def)
  have "distinct (ap_created st' @ ap_archived st' @ map fst (ap_rewritten st'))"
    using old new told unfolding lists report_true_def by auto
  moreover have "\<forall>i \<in> set (ap_created st'). created_ok d0 st' i"
    using old ok(1) cong(1) same told unfolding lists report_true_def by (metis UnE set_append)
  moreover have "\<forall>i \<in> set (ap_archived st'). archived_ok d0 st' i"
    using old ok(2) cong(2) same told unfolding lists report_true_def by (metis UnE set_append)
  moreover have "\<forall>r \<in> set (ap_rewritten st'). rewritten_ok d0 st' r"
  proof
    fix r assume "r \<in> set (ap_rewritten st')"
    then consider "r \<in> set R" | "r \<in> set (ap_rewritten st)" by (auto simp: lists)
    then show "rewritten_ok d0 st' r"
    proof cases
      case 2
      then have "\<not> untold st (fst r)" using told by blast
      then show ?thesis using same 2 cong(3)[of "fst r" d0 "snd r"] old by (simp add: report_true_def)
    qed (use ok(3) in blast)
  qed
  moreover have "live_file (ap_dirs st') i = live_file d0 i"
    if "i \<notin> set (ap_created st') \<union> set (ap_archived st') \<union> rewritten_ids st'" for i
  proof -
    have "untold st i" "i \<notin> set (C @ A @ map fst R)" using that by (auto simp: lists untold_def rewritten_ids_def)
    then show ?thesis using rest untold_live[OF old] by metis
  qed
  ultimately show ?thesis using wf by (simp add: report_true_def)
qed

section \<open>Every action keeps the report true\<close>

lemma expectation_content: "assertExpectedContent e (expected_of plan i) \<Longrightarrow> expected_of plan i \<noteq> None \<Longrightarrow> expected_of plan i = Some (me_content e)"
  by (auto simp: assertExpectedContent_def)

lemma archive_true:
  assumes "report_true d0 st" "untold st i" "\<not> bad_topic_id i" "archiveTopic i x stamp (ap_dirs st) = Inr d"
  shows "report_true d0 (st\<lparr>ap_dirs := d, ap_archived := ap_archived st @ [i]\<rparr>)"
proof -
  have wf: "dirs_wf (ap_dirs st)" using assms(1) by (simp add: report_true_def)
  from archive_facts[OF wf assms(4)] obtain f where
    f: "dirs_wf d" "live_file (ap_dirs st) i = Some f" "live_file d = (live_file (ap_dirs st))(i := None)"
      "archived_file d = (archived_file (ap_dirs st))(i \<mapsto> f)" by blast
  show ?thesis
    by (rule true_step[OF assms(1), where C = "[]" and A = "[i]" and R = "[]"])
       (use assms f untold_live[OF assms(1,2)] in \<open>auto simp: archived_ok_def report_true_def\<close>)
qed

lemma rewrite_true:
  assumes "report_true d0 st" "untold st i" "line_value clock" "expected_of plan i \<noteq> None"
    "updateTopic i content (expected_of plan i) clock (ap_dirs st) = Inr (saved, d)"
  shows "report_true d0 (st\<lparr>ap_dirs := d, ap_rewritten := ap_rewritten st @ [(i, or_else (expected_of plan i) [])],
    ap_written := jm_set (ap_written st) i (me_content saved)\<rparr>)"
proof -
  have wf: "dirs_wf (ap_dirs st)" using assms(1) by (simp add: report_true_def)
  from update_facts[OF wf assms(3,5)] obtain e e' where
    u: "dirs_wf d" "me_content saved = trim content" "archived_file d = archived_file (ap_dirs st)"
      "\<forall>j. j \<noteq> i \<longrightarrow> live_file d j = live_file (ap_dirs st) j" "topic_at (ap_dirs st) i = Some e"
      "assertExpectedContent e (expected_of plan i)" "topic_at d i = Some e'" "same_topic (e\<lparr>me_content := trim content\<rparr>) e'"
    by blast
  have "or_else (expected_of plan i) [] = me_content e" using expectation_content[OF u(6) assms(4)] by (simp add: or_else_def)
  moreover have "topic_at d0 i = Some e" using u(5) untold_live[OF assms(1,2)] by simp
  moreover have "me_content e' = trim content" using u(8) by (simp add: same_topic_def)
  ultimately have "rewritten_ok d0 (st\<lparr>ap_dirs := d, ap_rewritten := ap_rewritten st @ [(i, or_else (expected_of plan i) [])],
      ap_written := jm_set (ap_written st) i (me_content saved)\<rparr>) (i, or_else (expected_of plan i) [])"
    using u by (simp add: rewritten_ok_def)
  then show ?thesis
    by (intro true_step[OF assms(1), where C = "[]" and A = "[]" and R = "[(i, or_else (expected_of plan i) [])]"])
       (use assms u in \<open>auto simp: report_true_def\<close>)
qed

lemma restored_after_move:
  assumes "distinct is" "dirs_wf d" "\<forall>i \<in> set is. \<not> bad_topic_id i" "move_sources expected clock is d = (moved, d1, ok)"
  shows "\<exists>d2. restore_all moved d1 = (d2, []) \<and> dirs_wf d2 \<and> (\<forall>i. live_file d2 i = live_file d i) \<and>
    (\<forall>i. i \<notin> set is \<longrightarrow> archived_file d2 i = archived_file d i)"
proof -
  note f = move_sources_facts[OF assms(1,2,4)]
  then have "\<forall>i \<in> set moved. \<not> bad_topic_id i \<and> archived_file d1 i \<noteq> None \<and> live_file d1 i = None"
    using assms(3) by (metis subset_iff)
  then obtain d2 where "restore_all moved d1 = (d2, [])" "dirs_wf d2" "\<forall>i \<in> set moved. live_file d2 i = archived_file d1 i"
      "\<forall>i. i \<notin> set moved \<longrightarrow> live_file d2 i = live_file d1 i \<and> archived_file d2 i = archived_file d1 i"
    using restore_all_facts[of moved d1] f by blast
  moreover from this have "live_file d2 i = live_file d i" for i using f by (cases "i \<in> set moved") simp_all
  moreover from calculation have "i \<notin> set is \<longrightarrow> archived_file d2 i = archived_file d i" for i
    using f by (cases "i \<in> set moved") auto
  ultimately show ?thesis by blast
qed

lemma merge_true:
  assumes "report_true d0 st" "\<forall>i \<in> set (mg_id m # mg_sourceIds m). untold st i" "distinct (mg_id m # mg_sourceIds m)"
    and "\<forall>i \<in> set (mg_sourceIds m). \<not> bad_topic_id i" "line_value clock" "line_value appliedAt"
  shows "report_true d0 (apply_merge plan appliedAt clock m st)"
proof -
  have wf: "dirs_wf (ap_dirs st)" using assms(1) by (simp add: report_true_def)
  have srcs: "distinct (mg_sourceIds m)" using assms(3) by simp
  obtain moved d1 ok where mv: "move_sources (expected_of plan) clock (mg_sourceIds m) (ap_dirs st) = (moved, d1, ok)"
    by (metis prod_cases3)
  note f = move_sources_facts[OF srcs wf mv]
  show ?thesis
  proof (cases "if ok then appendEntry (merged_entry m appliedAt) clock d1 else Inl (UnknownTopic [])")
    case (Inl e)
    obtain d2 where r: "restore_all moved d1 = (d2, [])" "dirs_wf d2" "\<forall>i. live_file d2 i = live_file (ap_dirs st) i"
        "\<forall>i. i \<notin> set (mg_sourceIds m) \<longrightarrow> archived_file d2 i = archived_file (ap_dirs st) i"
      using restored_after_move[OF srcs wf assms(4) mv] by blast
    have "apply_merge plan appliedAt clock m st = skip_action (mg_id m) (st\<lparr>ap_dirs := d2\<rparr>)"
      using Inl r(1) by (simp add: apply_merge_def mv skip_action_def)
    moreover have "report_true d0 (st\<lparr>ap_dirs := d2\<rparr>)"
      by (rule true_step[OF assms(1), where C = "[]" and A = "[]" and R = "[]"])
         (use assms(1,2) r in \<open>auto simp: report_true_def\<close>)
    ultimately show ?thesis by simp
  next
    case (Inr d2)
    then have ok: "ok" and ap: "appendEntry (merged_entry m appliedAt) clock d1 = Inr d2" by (auto split: if_splits)
    have moved: "moved = mg_sourceIds m" using f ok by simp
    have id: "me_id (merged_entry m appliedAt) = mg_id m" by (simp add: merged_entry_def)
    from append_facts[OF _ assms(5) ap] f have
      a: "dirs_wf d2" "topic_at d1 (mg_id m) = None" "archived_file d2 = archived_file d1"
        "live_file d2 = (live_file d1)(mg_id m \<mapsto> \<lparr>tf_text = buildTopicFile (merged_entry m appliedAt), tf_mtime = clock\<rparr>)"
      by (simp_all add: id)
    let ?st = "st\<lparr>ap_dirs := d2, ap_archived := ap_archived st @ moved, ap_created := ap_created st @ [mg_id m],
        ap_written := jm_set (ap_written st) (mg_id m) (trim (mg_content m))\<rparr>"
    have st: "apply_merge plan appliedAt clock m st = ?st" using Inr by (simp add: apply_merge_def mv)
    have "dated_entry (merged_entry m appliedAt)" using assms(6) by (simp add: dated_entry_def merged_entry_def)
    then obtain e where "topic_at d2 (mg_id m) = Some e" "me_content e = trim (mg_content m)"
      using written_read[of "merged_entry m appliedAt" "mg_id m" clock] a(4)
      by (auto simp: topic_at_def merged_entry_def)
    moreover have "topic_at d0 (mg_id m) = None"
    proof -
      have "mg_id m \<notin> set moved" using assms(3) moved by simp
      then have "topic_at d1 (mg_id m) = topic_at (ap_dirs st) (mg_id m)" using f by (simp add: topic_at_def)
      then show ?thesis using a(2) untold_live[OF assms(1), of "mg_id m"] assms(2) by simp
    qed
    ultimately have created: "created_ok d0 ?st (mg_id m)" by (simp add: created_ok_def)
    have archived: "archived_ok d0 ?st i" if "i \<in> set moved" for i
    proof -
      have i: "i \<in> set (mg_sourceIds m)" using that moved by simp
      then have "live_file d0 i = live_file (ap_dirs st) i" using untold_live[OF assms(1), of i] assms(2) by simp
      then show ?thesis using i f a(3,4) assms(3,4) moved by (auto simp: archived_ok_def)
    qed
    have same: "live_file d2 i = live_file (ap_dirs st) i \<and> archived_file d2 i = archived_file (ap_dirs st) i"
      if "i \<notin> set (mg_id m # mg_sourceIds m)" for i
      using that f a(3,4) moved by simp
    have told: "i \<notin> set (mg_id m # mg_sourceIds m)" if "\<not> untold st i" for i using that assms(2) by blast
    have "report_true d0 ?st"
    proof (rule true_step[OF assms(1), where C = "[mg_id m]" and A = moved and R = "[]"])
      show "\<forall>i. \<not> untold st i \<longrightarrow> live_file (ap_dirs ?st) i = live_file (ap_dirs st) i \<and>
          archived_file (ap_dirs ?st) i = archived_file (ap_dirs st) i \<and> jm_get (ap_written ?st) i = jm_get (ap_written st) i"
        using told same by auto
      show "\<forall>i. untold st i \<longrightarrow> i \<notin> set ([mg_id m] @ moved @ map fst []) \<longrightarrow> live_file (ap_dirs ?st) i = live_file (ap_dirs st) i"
        using same moved by simp
    qed (use a assms moved created archived in \<open>auto simp: report_true_def\<close>)
    then show ?thesis by (simp add: st)
  qed
qed

text \<open>What one action names, and what it can add to the lists.\<close>

definition named_ids :: "dream_action \<Rightarrow> string list" where
  "named_ids a = merge_targets [a] @ touched_ids a"

lemma apply_names: "\<not> untold (apply_action plan appliedAt clock st a) i \<Longrightarrow> \<not> untold st i \<or> i \<in> set (named_ids a)"
proof (cases a)
  case (Merge m)
  obtain moved d1 ok where mv: "move_sources (expected_of plan) clock (mg_sourceIds m) (ap_dirs st) = (moved, d1, ok)"
    by (metis prod_cases3)
  have "set moved \<subseteq> set is" if "move_sources expected clock is d = (moved, d1, ok)" for expected "is" d moved d1 ok
    using that by (induction "is" arbitrary: d moved d1 ok) (fastforce split: sum.splits prod.splits)+
  then have "set moved \<subseteq> set (mg_sourceIds m)" using mv by blast
  then show "\<not> untold (apply_action plan appliedAt clock st a) i \<Longrightarrow> ?thesis"
    using Merge by (auto simp: apply_merge_def mv named_ids_def untold_def rewritten_ids_def skip_action_def split: sum.splits prod.splits)
qed (auto simp: named_ids_def untold_def rewritten_ids_def skip_action_def split: sum.splits prod.splits if_splits)

lemma action_true:
  assumes "report_true d0 st" "\<forall>i \<in> set (named_ids a). untold st i" "distinct (named_ids a)"
    and "\<forall>i \<in> set (touched_ids a). \<not> bad_topic_id i \<and> expected_of plan i \<noteq> None" "line_value clock" "line_value appliedAt"
  shows "report_true d0 (apply_action plan appliedAt clock st a)"
proof (cases a)
  case (Merge m)
  then show ?thesis using merge_true[OF assms(1)] assms by (simp add: named_ids_def)
next
  case (Rewrite i content)
  then show ?thesis
    using rewrite_true[OF assms(1) _ assms(5)] assms(1,2,4) by (auto simp: named_ids_def split: sum.splits)
next
  case (Archive i reason heir)
  then show ?thesis
    using archive_true[OF assms(1)] assms(1,2,4) by (auto simp: named_ids_def split: sum.splits)
qed

lemma actions_true:
  assumes "report_true d0 st" "\<forall>i \<in> set (concat (map named_ids as)). untold st i" "distinct (concat (map named_ids as))"
    and "\<forall>a \<in> set as. \<forall>i \<in> set (touched_ids a). \<not> bad_topic_id i \<and> expected_of plan i \<noteq> None" "line_value clock" "line_value appliedAt"
  shows "report_true d0 (fst (foldl (apply_step plan appliedAt clock) (st, df) as))"
  using assms
proof (induction as arbitrary: st df)
  case (Cons a as)
  let ?st = "apply_action plan appliedAt clock st a"
  have t: "report_true d0 ?st" using action_true[OF Cons.prems(1)] Cons.prems by simp
  have "\<forall>i \<in> set (concat (map named_ids as)). untold ?st i"
  proof
    fix i assume i: "i \<in> set (concat (map named_ids as))"
    then have "untold st i" "i \<notin> set (named_ids a)" using Cons.prems(2,3) by auto
    then show "untold ?st i" using apply_names by blast
  qed
  then show ?case using Cons.IH[OF t] Cons.prems by (simp add: apply_step_def Let_def)
qed simp

lemma mset_named: "mset (concat (map named_ids as)) = mset (merge_targets as) + mset (concat (map touched_ids as))"
proof (induction as)
  case (Cons a as)
  have "mset (merge_targets (a # as)) = mset (merge_targets [a]) + mset (merge_targets as)" by (cases a) simp_all
  then show ?case using Cons by (simp add: named_ids_def)
qed simp

lemma set_targets: "set (merge_targets as) \<subseteq> set (concat (map named_ids as))"
  using arg_cong[OF mset_named, of set_mset as] by auto

lemma mset_concat_map: "mset as = mset bs \<Longrightarrow> mset (concat (map f as)) = mset (concat (map f bs))"
  by (simp add: mset_concat comp_def flip: sum_mset_sum_list)

lemma fits_named:
  assumes "plan_fits plan"
  shows "distinct (concat (map named_ids (ordered_actions plan)))"
proof -
  let ?as = "pd_actions plan"
  have "distinct (merge_targets ?as @ concat (map touched_ids ?as))" using assms by (auto simp: plan_fits_def)
  moreover have "mset (concat (map named_ids (ordered_actions plan))) = mset (merge_targets ?as @ concat (map touched_ids ?as))"
    using mset_concat_map[of "ordered_actions plan" ?as named_ids] mset_named[of ?as] by (simp add: ordered_actions_def)
  ultimately show ?thesis by (metis mset_eq_imp_distinct_iff)
qed

text \<open>After any number of actions, so also when a crash cuts the run short behind a checkpoint, the report
  tells what is in the store.\<close>

lemma first_true:
  assumes "plan_fits plan" "dirs_wf d" "line_value clock" "line_value appliedAt"
  shows "report_true d (fst (apply_first n plan appliedAt clock (d, df)))"
proof -
  let ?as = "take n (ordered_actions plan)"
  have "ordered_actions plan = ?as @ drop n (ordered_actions plan)" by simp
  then have "distinct (concat (map named_ids ?as))" using fits_named[OF assms(1)] by (metis concat_append distinct_append map_append)
  moreover have "set ?as \<subseteq> set (pd_actions plan)" by (auto simp: ordered_actions_def dest: in_set_takeD)
  then have "\<forall>a \<in> set ?as. \<forall>i \<in> set (touched_ids a). \<not> bad_topic_id i \<and> expected_of plan i \<noteq> None"
    using assms(1) by (fastforce simp: plan_fits_def)
  moreover have "\<forall>i. untold (apply_start d) i" by (simp add: untold_def apply_start_def rewritten_ids_def)
  ultimately show ?thesis
    unfolding apply_first_def by (intro actions_true) (use assms report_true_start in auto)
qed

section \<open>Undoing\<close>

lemma undo_true:
  assumes t: "report_true d0 st" and d0: "dirs_wf d0" and clock: "line_value clock"
  shows "\<exists>d'. undo_steps clock (snapshotReport plan appliedAt b st) (ap_dirs st) = (d', []) \<and>
    (\<forall>i. rel_option same_topic (topic_at d0 i) (topic_at d' i))"
proof -
  let ?r = "snapshotReport plan appliedAt b st"
  let ?C = "ap_created st" and ?A = "ap_archived st" and ?R = "ap_rewritten st"
  have wrote: "wrote ?r i = jm_get (ap_written st) i" for i by (simp add: wrote_def snapshotReport_def)
  have lists: "dr_created ?r = ?C" "dr_archived ?r @ dr_stranded ?r = ?A" "dr_rewritten ?r = ?R"
    using t by (simp_all add: snapshotReport_def report_true_def)
  have wf: "dirs_wf (ap_dirs st)" and dist: "distinct ?C" "distinct ?A" "distinct (map fst ?R)"
    and disj: "set ?C \<inter> set ?A = {}" "set ?C \<inter> fst ` set ?R = {}" "set ?A \<inter> fst ` set ?R = {}"
    using t by (auto simp: report_true_def)
  have "\<forall>i \<in> set ?C. expectation_met (ap_dirs st) (wrote ?r) i"
    using t by (fastforce simp: report_true_def created_ok_def expectation_met_def wrote assertExpectedContent_def)
  then obtain d1 where d1: "archive_all (wrote ?r) clock ?C (ap_dirs st) = (d1, [])" "dirs_wf d1" "\<forall>i \<in> set ?C. live_file d1 i = None"
      "\<forall>i. i \<notin> set ?C \<longrightarrow> live_file d1 i = live_file (ap_dirs st) i \<and> archived_file d1 i = archived_file (ap_dirs st) i"
    using archive_all_facts[OF dist(1) wf] by blast
  have "\<forall>i \<in> set ?A. archived_ok d0 st i" using t by (simp add: report_true_def)
  then have arch: "\<forall>i \<in> set ?A. \<not> bad_topic_id i \<and> archived_file d1 i = live_file d0 i \<and> live_file d0 i \<noteq> None \<and> live_file d1 i = None"
    using d1(4) disj(1) by (fastforce simp: archived_ok_def)
  then obtain d2 where d2: "restore_all ?A d1 = (d2, [])" "dirs_wf d2" "\<forall>i \<in> set ?A. live_file d2 i = live_file d0 i"
      "\<forall>i. i \<notin> set ?A \<longrightarrow> live_file d2 i = live_file d1 i"
    using restore_all_facts[OF dist(2) d1(2)] by fastforce
  have same: "topic_at d2 i = topic_at (ap_dirs st) i" if "i \<in> fst ` set ?R" for i
  proof -
    have "i \<notin> set ?A" "i \<notin> set ?C" using that disj by blast+
    then show ?thesis using d2(4) d1(4) by (simp add: topic_at_def)
  qed
  have rw: "\<forall>r \<in> set ?R. rewritten_ok d0 st r" using t by (simp add: report_true_def)
  then have "\<forall>i \<in> fst ` set ?R. expectation_met d2 (wrote ?r) i"
    using same by (fastforce simp: rewritten_ok_def expectation_met_def wrote assertExpectedContent_def)
  then obtain d3 where d3: "write_back (wrote ?r) clock ?R d2 = (d3, [])"
      "\<forall>(i, before) \<in> set ?R. \<exists>e e'. topic_at d2 i = Some e \<and> topic_at d3 i = Some e' \<and> same_topic (e\<lparr>me_content := trim before\<rparr>) e'"
      "\<forall>i. i \<notin> fst ` set ?R \<longrightarrow> live_file d3 i = live_file d2 i"
    using write_back_facts[OF dist(3) d2(2) clock] by blast
  have "undo_steps clock ?r (ap_dirs st) = (d3, [])"
    unfolding undo_steps_def lists using d1(1) d2(1) d3(1) by simp
  moreover have "rel_option same_topic (topic_at d0 i) (topic_at d3 i)" for i
  proof (cases "i \<in> fst ` set ?R")
    case True
    then obtain bf where ib: "(i, bf) \<in> set ?R" by auto
    from bspec[OF rw ib] obtain e0 e where
      e: "topic_at d0 i = Some e0" "me_content e0 = bf" "topic_at (ap_dirs st) i = Some e" "same_topic (e0\<lparr>me_content := me_content e\<rparr>) e"
      by (auto simp: rewritten_ok_def)
    from bspec[OF d3(2) ib] obtain e' where e': "topic_at d3 i = Some e'" "same_topic (e\<lparr>me_content := trim bf\<rparr>) e'"
      using same[OF True] e(3) by auto
    obtain f where "live_file d0 i = Some f" "read_topic i f = Some e0" using e(1) by (auto simp: topic_at_def bind_eq_Some_conv)
    then have "trim bf = bf" using read_dated(3)[of i f e0] d0 e(2) by (auto simp: dirs_wf_def)
    then have "same_topic e0 e'" using e(2,4) e'(2) by (auto simp: same_topic_def reads_as_def)
    then show ?thesis using e(1) e'(1) by simp
  next
    case False
    then have l3: "live_file d3 i = live_file d2 i" using d3(3) by simp
    have "topic_at d3 i = topic_at d0 i"
    proof (cases "i \<in> set ?A")
      case True
      then show ?thesis using l3 d2(3) by (simp add: topic_at_def)
    next
      case nA: False
      show ?thesis
      proof (cases "i \<in> set ?C")
        case True
        then have "topic_at d0 i = None" using t by (auto simp: report_true_def created_ok_def)
        then show ?thesis using True l3 d2(4) nA d1(3) by (simp add: topic_at_def)
      next
        case nC: False
        then have "untold st i" using False nA by (simp add: untold_def rewritten_ids_def)
        then show ?thesis using l3 d2(4) nA d1(4) nC untold_live[OF t] by (simp add: topic_at_def)
      qed
    qed
    then show ?thesis by (cases "topic_at d0 i") simp_all
  qed
  ultimately show ?thesis by blast
qed

end
