(* ===== verification/DreamRun.thy ===== *)
theory DreamRun
  imports DreamProps
begin

text \<open>
  Runs from end to end: a run that applied its plan is undone by its report, also after a crash; a
  topic that was edited meanwhile wins; nothing is lost; and a workspace whose user has not applied
  a preview yet is not touched.
\<close>

section \<open>The lock reads back\<close>

lemma digits_value_append: "holder_digits (s @ [c]) = 10 * holder_digits s + (code_unit c - 48)"
  by (simp add: holder_digits_def)

lemma digit_char: "k < 10 \<Longrightarrow> is_digit_ascii (char_of (48 + k)) \<and> code_unit (char_of (48 + k)) = 48 + k"
  by (simp add: is_digit_ascii_def code_unit_def)

lemma nat_text_value: "list_all is_digit_ascii (nat_text n) \<and> holder_digits (nat_text n) = n \<and> nat_text n \<noteq> []"
proof (induction n rule: nat_text.induct)
  case (1 n)
  show ?case
  proof (cases "n < 10")
    case True
    then have "nat_text n = [char_of (48 + n)]" by (simp add: nat_text.simps[of n])
    then show ?thesis using digit_char[OF True] by (simp add: holder_digits_def)
  next
    case False
    then have t: "nat_text n = nat_text (n div 10) @ [char_of (48 + n mod 10)]" by (simp add: nat_text.simps[of n])
    have "n mod 10 < 10" by simp
    then show ?thesis using 1[OF False] digit_char[of "n mod 10"] unfolding t by (simp add: digits_value_append)
  qed
qed

lemma digit_plain: "is_digit_ascii c \<Longrightarrow> \<not> is_space c \<and> c \<noteq> CHR ''+''"
  by (auto simp: is_digit_ascii_def is_space_def code_unit_def)

lemma holder_of_lock: "0 < pid \<Longrightarrow> readHolder (Some (lock_of pid now)) = Some pid"
proof -
  assume pos: "0 < pid"
  note v = nat_text_value[of pid]
  obtain c cs where t: "nat_text pid = c # cs" using v by (cases "nat_text pid") auto
  have "trim (nat_text pid) = nat_text pid"
    using v by (intro trim_ends) (metis digit_plain list_all_iff last_in_set list.set_sel(1))
  moreover have tw: "takeWhile is_digit_ascii (nat_text pid) = nat_text pid"
    using v unfolding takeWhile_eq_all_conv by (simp add: list_all_iff)
  have "c \<noteq> CHR ''+''" using v t digit_plain by auto
  then have cs: "(case nat_text pid of c # cs \<Rightarrow> if c = CHR ''+'' then cs else nat_text pid | [] \<Rightarrow> []) = nat_text pid" by (simp add: t)
  ultimately have "positive_int (trim (nat_text pid)) = Some pid" unfolding positive_int_def by (simp only: cs tw Let_def) (use v pos in simp)
  then show ?thesis by (simp add: readHolder_def lock_of_def)
qed

section \<open>Reports read back\<close>

text \<open>No report is later than the one of this name.\<close>

definition reports_before :: "dream_dir \<Rightarrow> string \<Rightarrow> bool" where
  "reports_before df i \<longleftrightarrow> jm_wf (df_reports df) \<and> (\<forall>k \<in> fst ` set (df_reports df). k \<le> i)"

lemma write_report_kept:
  assumes "reports_before df i"
  shows "jm_get (df_reports (writeDreamReport i r df)) i = Some r" "reports_before (writeDreamReport i r df) i"
proof -
  have wf: "jm_wf (jm_set (df_reports df) i r)" using assms by (auto simp: reports_before_def)
  show "jm_get (df_reports (writeDreamReport i r df)) i = Some r"
    using newest_kept[of "df_reports df" i r] assms by (simp add: reports_before_def writeDreamReport_def)
  have "jm_wf (filter p m)" if "jm_wf m" for p and m :: "(string, dream_report) js_map"
    using that by (simp add: jm_wf_def distinct_map_filter)
  from this[OF wf] have "jm_wf (df_reports (writeDreamReport i r df))"
    by (simp add: writeDreamReport_def prune_reports_def delete_all_filter)
  moreover have "fst ` set (df_reports (writeDreamReport i r df)) \<subseteq> insert i (fst ` set (df_reports df))"
    unfolding fst_set_jm_set[symmetric, of _ _ r] by (auto simp: writeDreamReport_def prune_reports_def delete_all_filter)
  moreover have "\<forall>k \<in> insert i (fst ` set (df_reports df)). k \<le> i" using assms by (simp add: reports_before_def)
  ultimately show "reports_before (writeDreamReport i r df) i"
    unfolding reports_before_def by blast
qed

text \<open>What a write of a report leaves alone.\<close>

definition same_but_reports :: "dream_dir \<Rightarrow> dream_dir \<Rightarrow> bool" where
  "same_but_reports a b \<longleftrightarrow> df_held b = df_held a \<and> df_lock b = df_lock a \<and> df_state b = df_state a \<and> df_pending b = df_pending a"

lemma apply_first_reports:
  assumes "reports_before df (pd_id plan)" "apply_first n plan appliedAt clock (d, df) = (st, df')"
  shows "same_but_reports df df' \<and> reports_before df' (pd_id plan) \<and>
    jm_get (df_reports df') (pd_id plan) = Some (snapshotReport plan appliedAt True st)"
proof -
  let ?i = "pd_id plan"
  define good where "good s \<longleftrightarrow> same_but_reports df (snd s) \<and> reports_before (snd s) ?i \<and>
      jm_get (df_reports (snd s)) ?i = Some (snapshotReport plan appliedAt True (fst s))" for s :: "apply_state \<times> dream_dir"
  have check: "same_but_reports df (checkpoint plan appliedAt st x) \<and> reports_before (checkpoint plan appliedAt st x) ?i \<and>
      jm_get (df_reports (checkpoint plan appliedAt st x)) ?i = Some (snapshotReport plan appliedAt True st)"
    if "same_but_reports df x" "reports_before x ?i" for st x
    using that write_report_kept[OF that(2)] by (simp add: checkpoint_def same_but_reports_def writeDreamReport_def)
  have "good (foldl (apply_step plan appliedAt clock) s as)" if "good s" for s as
    using that by (induction as arbitrary: s) (auto simp: good_def apply_step_def Let_def check)
  moreover have "good (apply_start d, checkpoint plan appliedAt (apply_start d) df)"
    using check[OF _ assms(1)] by (simp add: good_def same_but_reports_def)
  ultimately have "good (apply_first n plan appliedAt clock (d, df))" by (simp add: apply_first_def)
  then show ?thesis using assms(2) by (simp add: good_def)
qed

section \<open>A plan that was made fits\<close>

lemma has_view_iff: "has_view i views \<longleftrightarrow> (\<exists>v \<in> set views. tv_id v = i)"
  by (auto simp: has_view_def find_view_def find_None_iff)

lemma snapshot_has: "t \<in> set topics \<Longrightarrow> jm_get (snapshot_of topics) (me_id t) \<noteq> None"
proof -
  have "jm_get (foldl (\<lambda>m t. jm_set m (me_id t) (me_content t)) m topics) i \<noteq> None \<longleftrightarrow>
      jm_get m i \<noteq> None \<or> i \<in> me_id ` set topics" for m i
    by (induction topics arbitrary: m) auto
  then show "t \<in> set topics \<Longrightarrow> ?thesis" by (simp add: snapshot_of_def)
qed

lemma selected_sub: "set (fst (selectTopicsForPrompt js views budget)) \<subseteq> set views"
  by (auto simp: selectTopicsForPrompt_def Let_def)

lemma selected_length: "length (fst (selectTopicsForPrompt js views budget)) \<le> length views"
  by (auto simp: selectTopicsForPrompt_def Let_def)

lemma view_ids: "tv_id (view_of date usage options now t) = me_id t"
  by (simp add: view_of_def Let_def)

lemma canonical_good: "canonical_id i \<Longrightarrow> i \<noteq> [] \<Longrightarrow> \<not> bad_topic_id i"
  by (auto simp: canonical_id_def bad_topic_id_def is_lower_ascii_def is_digit_ascii_def code_unit_def)

lemma bounded_touched: "action_bounded a \<Longrightarrow> i \<in> set (touched_ids a) \<Longrightarrow> canonical_id i"
  by (cases a) auto

text \<open>What planning hands on: checked against the views, its topics in the snapshot, its identifiers safe.\<close>

lemma planned:
  assumes "planDream w usage topics options now = Inr plan"
  shows "\<exists>views. set (map tv_id views) \<subseteq> me_id ` set topics \<and> length views \<le> length topics \<and>
    validateDreamPlan (pd_actions plan) views = None \<and> (\<forall>a \<in> set (pd_actions plan). action_bounded a) \<and>
    pd_snapshot plan = snapshot_of topics \<and> pd_id plan = reportId (dw_iso w now)"
proof -
  let ?views = "fst (selectTopicsForPrompt (dw_json_len w) (buildTopicViews (dw_date w) topics usage options now) DREAM_PROMPT_BUDGET_CHARS)"
  obtain raw limited parsed where p: "parseDreamActions (dw_parse w) raw = Some parsed"
      "validateDreamPlan (fst (capRetirement (pp_actions parsed) ?views)) ?views = None"
      "plan = \<lparr>pd_id = reportId (dw_iso w now), pd_createdAt = dw_iso w now, pd_actions = fst (capRetirement (pp_actions parsed) ?views),
        pd_snapshot = snapshot_of topics, pd_topicCount = length topics,
        pd_counts = countDreamActions (fst (capRetirement (pp_actions parsed) ?views))\<rparr>"
    using assms by (auto simp: planDream_def Let_def split: model_reply.splits option.splits if_splits)
  have "\<forall>a \<in> set (pp_actions parsed). action_bounded a"
    using p(1) by (auto simp: parseDreamActions_def Let_def map_filter_def parsed_bounded dest!: in_set_takeD split: if_splits)
  moreover have "set (fst (capRetirement (pp_actions parsed) ?views)) \<subseteq> set (pp_actions parsed)"
    using capRetirement_facts[OF prod.collapse[symmetric], of "pp_actions parsed" ?views] by (auto dest: list_emb_set)
  moreover have "set (map tv_id ?views) \<subseteq> me_id ` set topics"
    using selected_sub by (fastforce simp: buildTopicViews_def view_ids)
  moreover have "length ?views \<le> length topics"
    using selected_length by (metis buildTopicViews_def length_map)
  ultimately show ?thesis using p by (intro exI[of _ ?views]) auto
qed

lemma planned_fits:
  assumes "planDream w usage topics options now = Inr plan" "\<forall>t \<in> set topics. me_id t \<noteq> []"
  shows "plan_fits plan"
proof -
  obtain views where v: "set (map tv_id views) \<subseteq> me_id ` set topics" "plan_consistent (pd_actions plan) views"
      "\<forall>a \<in> set (pd_actions plan). action_bounded a" "pd_snapshot plan = snapshot_of topics"
    using planned[OF assms(1)] by (auto simp: validate_iff)
  have viewed: "has_view i views" if "a \<in> set (pd_actions plan)" "i \<in> set (touched_ids a)" for a i
  proof -
    have "action_ok (pd_actions plan) views a" using that(1) v(2) by (simp add: plan_consistent_def)
    then show ?thesis using that(2) by (cases a) (auto simp: has_view_def)
  qed
  have fresh: "\<not> has_view i views" if "i \<in> set (merge_targets (pd_actions plan))" for i
    using that v(2) by (force simp: plan_consistent_def in_merge_targets)
  have "\<not> bad_topic_id i \<and> expected_of plan i \<noteq> None \<and> i \<notin> set (merge_targets (pd_actions plan))"
    if "a \<in> set (pd_actions plan)" "i \<in> set (touched_ids a)" for a i
  proof -
    have "i \<in> me_id ` set topics" using viewed[OF that] v(1) by (auto simp: has_view_iff)
    then obtain t where t: "t \<in> set topics" "me_id t = i" by blast
    then have "i \<noteq> []" using assms(2) by blast
    moreover have "canonical_id i" using v(3) that bounded_touched by blast
    moreover have "expected_of plan i \<noteq> None" using snapshot_has[OF t(1)] t(2) v(4) by (simp add: expected_of_def)
    ultimately show ?thesis using canonical_good fresh viewed[OF that] by blast
  qed
  then show ?thesis using v(2) by (auto simp: plan_fits_def plan_consistent_def)
qed


section \<open>From a run to its undoing\<close>

text \<open>The texts of the clock: one line each, and a name that \<open>readDreamReport\<close> accepts.\<close>

definition iso_clock :: "(int \<Rightarrow> string) \<Rightarrow> bool" where
  "iso_clock toISOString \<longleftrightarrow> (\<forall>n. line_value (toISOString n) \<and> list_all report_id_char (reportId (toISOString n)))"

lemma applyPlan_facts:
  assumes "applyPlan plan appliedAt clock (d, df) = (report, d', df')" "reports_before df (pd_id plan)"
  shows "\<exists>st. st = fst (apply_first (length (pd_actions plan)) plan appliedAt clock (d, df)) \<and>
    report = snapshotReport plan appliedAt False st \<and> d' = ap_dirs st \<and> same_but_reports df df' \<and>
    jm_get (df_reports df') (pd_id plan) = Some report"
proof -
  obtain st df1 where f: "apply_first (length (pd_actions plan)) plan appliedAt clock (d, df) = (st, df1)" by (cases "apply_first (length (pd_actions plan)) plan appliedAt clock (d, df)")
  then have r: "report = snapshotReport plan appliedAt False st" "d' = ap_dirs st" "df' = writeDreamReport (pd_id plan) report df1"
    using assms(1) by (auto simp: applyPlan_def Let_def)
  note k = apply_first_reports[OF assms(2) f]
  then have "jm_get (df_reports df') (pd_id plan) = Some report" unfolding r(3) by (intro write_report_kept) simp
  moreover have "same_but_reports df df'" using k r(3) by (simp add: same_but_reports_def writeDreamReport_def)
  ultimately show ?thesis using f r by simp
qed

text \<open>A lock this process holds, and one that is free.\<close>

definition holds_lock :: "nat \<Rightarrow> dream_dir \<Rightarrow> bool" where
  "holds_lock pid df \<longleftrightarrow> df_held df \<and> readHolder (df_lock df) = Some pid"

definition lock_free :: "dream_dir \<Rightarrow> bool" where
  "lock_free df \<longleftrightarrow> \<not> df_held df \<and> df_lock df = None"

lemma acquired: "0 < pid \<Longrightarrow> tryAcquireDreamLock pid isPidAlive now df = (True, df') \<Longrightarrow> holds_lock pid df' \<and> df_state df' = df_state df \<and>
    df_reports df' = df_reports df \<and> df_pending df' = df_pending df \<and> df_usage df' = df_usage df"
  by (auto simp: tryAcquireDreamLock_def holds_lock_def holder_of_lock split: if_splits)

lemma dropped: "holds_lock pid df \<Longrightarrow> lock_free (dropLock pid df)"
  by (simp add: holds_lock_def lock_free_def dropLock_def)

lemma free_acquired: "lock_free df \<Longrightarrow> \<exists>df'. tryAcquireDreamLock pid isPidAlive now df = (True, df') \<and> df_reports df' = df_reports df"
  by (simp add: tryAcquireDreamLock_def lock_free_def)

lemma undo_from_report:
  assumes t: "report_true d0 st" and d0: "dirs_wf d0" and free: "fst (tryAcquireDreamLock (dw_pid w) (dw_alive w) wall df)" and isos: "iso_clock (dw_iso w)"
    and stored: "readDreamReport i df = Some (snapshotReport plan appliedAt b st)"
  shows "\<exists>d' df'. undoDreamReport w wall i (ap_dirs st, df) = Inr ([], d', df') \<and>
    (\<forall>i. rel_option same_topic (topic_at d0 i) (topic_at d' i))"
proof -
  obtain df0 where l: "tryAcquireDreamLock (dw_pid w) (dw_alive w) wall df = (True, df0)" using free by (metis prod.collapse)
  have "line_value (dw_iso w wall)" using isos by (simp add: iso_clock_def)
  then obtain d' where "undo_steps (dw_iso w wall) (snapshotReport plan appliedAt b st) (ap_dirs st) = (d', [])"
      "\<forall>i. rel_option same_topic (topic_at d0 i) (topic_at d' i)"
    using undo_true[OF t d0] by blast
  moreover have "dr_undoneAt (snapshotReport plan appliedAt b st) = None" "dr_written (snapshotReport plan appliedAt b st) \<noteq> None"
    by (simp_all add: snapshotReport_def)
  ultimately show ?thesis using stored l by (simp add: undoDreamReport_def Let_def)
qed

lemma run_applied:
  assumes "runDream w run wall others (d, df) = (Applied report, d1, df1)"
  shows "\<exists>df0 plan df3. tryAcquireDreamLock (dw_pid w) (dw_alive w) wall df = (True, df0) \<and>
    planDream w (df_usage (pruneTopicUsage (map me_id (listTopics d)) df0)) (listTopics d) (dn_options run) (dn_now run) = Inr plan \<and>
    readDreamConfirmed df0 \<and> \<not> dn_previewOnly run \<and>
    applyPlan plan (dw_iso w (dn_now run)) (dw_iso w wall) (others d, clearDreamFailures (pruneTopicUsage (map me_id (listTopics d)) df0)) =
      (report, d1, df3) \<and>
    df1 = releaseDreamLock (dw_pid w) wall df3"
  using assms
  by (auto simp: runDream_def Let_def clearDreamFailures_def pruneTopicUsage_def readDreamConfirmed_def
      split: option.splits if_splits prod.splits bool.splits sum.splits)

text \<open>C28: A consolidation can be undone. When a run has applied its plan, to a store that others may
  have written to while the model answered, undoing its report succeeds without a conflict
  and gives every topic back: merged and archived ones, the content before a rewrite, and no topic
  of the run's own; only the time of the last update may differ. A topic whose file gives no
  name or no description can come back with one (\<open>missing_name_filled\<close>).\<close>

theorem applied_run_undone:
  assumes "runDream w run wall others (d, df) = (Applied report, d1, df1)"
    and "dirs_wf (others d)" "\<forall>t \<in> set (listTopics d). me_id t \<noteq> []" "iso_clock (dw_iso w)" "0 < dw_pid w"
    and "reports_before df (reportId (dw_iso w (dn_now run)))"
  shows "\<exists>d2 df2. undoDreamReport w wall' (dr_id report) (d1, df1) = Inr ([], d2, df2) \<and>
    (\<forall>i. rel_option same_topic (topic_at (others d) i) (topic_at d2 i))"
proof -
  obtain df0 plan df3 where r: "tryAcquireDreamLock (dw_pid w) (dw_alive w) wall df = (True, df0)"
      "planDream w (df_usage (pruneTopicUsage (map me_id (listTopics d)) df0)) (listTopics d) (dn_options run) (dn_now run) = Inr plan"
      "applyPlan plan (dw_iso w (dn_now run)) (dw_iso w wall)
        (others d, clearDreamFailures (pruneTopicUsage (map me_id (listTopics d)) df0)) = (report, d1, df3)"
      "df1 = releaseDreamLock (dw_pid w) wall df3"
    using run_applied[OF assms(1)] by blast
  let ?df = "clearDreamFailures (pruneTopicUsage (map me_id (listTopics d)) df0)"
  have id: "pd_id plan = reportId (dw_iso w (dn_now run))" using planned[OF r(2)] by blast
  have kept: "df_reports ?df = df_reports df" "holds_lock (dw_pid w) ?df"
    using acquired[OF assms(5) r(1)] by (auto simp: clearDreamFailures_def pruneTopicUsage_def holds_lock_def)
  have before: "reports_before ?df (pd_id plan)" using assms(6) kept(1) id by (simp add: reports_before_def)
  obtain st where st: "st = fst (apply_first (length (pd_actions plan)) plan (dw_iso w (dn_now run)) (dw_iso w wall) (others d, ?df))"
      "report = snapshotReport plan (dw_iso w (dn_now run)) False st" "d1 = ap_dirs st" "same_but_reports ?df df3"
      "jm_get (df_reports df3) (pd_id plan) = Some report"
    using applyPlan_facts[OF r(3) before] by blast
  have line: "line_value (dw_iso w n)" for n using assms(4) by (simp add: iso_clock_def)
  have true: "report_true (others d) st"
    unfolding st(1) by (rule first_true[OF planned_fits[OF r(2) assms(3)] assms(2) line line])
  have "holds_lock (dw_pid w) (df3\<lparr>df_lastRun := Some wall\<rparr>)" using kept(2) st(4) by (simp add: holds_lock_def same_but_reports_def)
  then have free: "lock_free df1" unfolding r(4) releaseDreamLock_def by (rule dropped)
  have "df_reports df1 = df_reports df3" by (simp add: r(4) releaseDreamLock_def dropLock_def Let_def)
  moreover have "dr_id report = pd_id plan" by (simp add: st(2) snapshotReport_def)
  moreover have "list_all report_id_char (pd_id plan)" "pd_id plan \<noteq> []"
    using assms(4) id line[of "dn_now run"] by (auto simp: iso_clock_def reportId_def line_value_def)
  ultimately have "readDreamReport (dr_id report) df1 = Some report" using st(5) by (simp add: readDreamReport_def)
  moreover have "fst (tryAcquireDreamLock (dw_pid w) (dw_alive w) wall' df1)" using free_acquired[OF free] by (metis fst_conv)
  ultimately show ?thesis using undo_from_report[OF true assms(2) _ assms(4)] st(2,3) by metis
qed

text \<open>C29: A crash behind any checkpoint loses nothing: whichever number of actions had been carried out,
  the report on disk, read by a process that finds the lock of the dead one abandoned, undoes
  exactly those, without a conflict.\<close>

theorem crashed_run_undone:
  assumes "apply_first n plan (dw_iso w a) (dw_iso w b) (d, df) = (st, df')"
    and "plan_fits plan" "dirs_wf d" "iso_clock (dw_iso w)" "reports_before df (pd_id plan)" "pd_id plan = reportId (dw_iso w c)"
    and "isAbandoned (dw_pid w) (dw_alive w) wall (df_lock df)"
  shows "\<exists>d2 df2. undoDreamReport w wall (pd_id plan) (ap_dirs st, df'\<lparr>df_held := False\<rparr>) = Inr ([], d2, df2) \<and>
    (\<forall>i. rel_option same_topic (topic_at d i) (topic_at d2 i))"
proof -
  have line: "line_value (dw_iso w k)" for k using assms(4) by (simp add: iso_clock_def)
  have true: "report_true d st" using first_true[OF assms(2,3) line line, of n a b df] assms(1) by simp
  note k = apply_first_reports[OF assms(5,1)]
  have "list_all report_id_char (pd_id plan)" "pd_id plan \<noteq> []"
    using assms(4,6) line[of c] by (auto simp: iso_clock_def reportId_def line_value_def)
  then have "readDreamReport (pd_id plan) (df'\<lparr>df_held := False\<rparr>) = Some (snapshotReport plan (dw_iso w a) True st)"
    using k by (simp add: readDreamReport_def)
  moreover have "fst (tryAcquireDreamLock (dw_pid w) (dw_alive w) wall (df'\<lparr>df_held := False\<rparr>))"
    using k assms(7) by (simp add: tryAcquireDreamLock_def same_but_reports_def)
  ultimately show ?thesis using undo_from_report[OF true assms(3) _ assms(4)] by blast
qed

text \<open>Between checkpoints a crash can lose something: a merge archives several topics before the
  next one, and the report on disk does not name them.\<close>

lemma crash_inside_merge_not_undone:
  assumes "dirs_wf d" "archiveTopic i x stamp d = Inr d1"
  shows "undo_steps clock (snapshotReport plan appliedAt True (apply_start d)) d1 = (d1, [])" "topic_at d i \<noteq> None" "topic_at d1 i = None"
  using archive_facts[OF assms] by (auto simp: undo_steps_def snapshotReport_def apply_start_def topic_at_def)

end
