(* ===== verification/DreamSafe.thy ===== *)
theory DreamSafe
  imports DreamRun
begin

text \<open>
  What a consolidation never does: write over an edit made while the model answered, retire more
  topics than the cap, or touch a workspace whose user has not applied a preview. With the
  examples at which the theorems about consolidation apply.
\<close>

section \<open>An edit wins\<close>

lemma stale_blocked: "topic_at d j = Some e \<Longrightarrow> dirs_wf d \<Longrightarrow> expected j = Some c \<Longrightarrow> c \<noteq> me_content e \<Longrightarrow>
   (\<exists>x. archiveTopic j (expected j) stamp d = Inl x) \<and> (\<exists>x. updateTopic j content (expected j) clock d = Inl x)"
  by (simp add: archiveTopic_def updateTopic_def getTopic_at assertExpectedContent_def)

text \<open>The file of a topic that is there and not as expected.\<close>

definition edited :: "memory_dirs \<Rightarrow> (string \<Rightarrow> string option) \<Rightarrow> string \<Rightarrow> bool" where
  "edited d expected j \<longleftrightarrow> dirs_wf d \<and> (\<exists>e c. topic_at d j = Some e \<and> expected j = Some c \<and> c \<noteq> me_content e)"

lemma edited_keep: "edited d expected j \<Longrightarrow> dirs_wf d' \<Longrightarrow> live_file d' j = live_file d j \<Longrightarrow> edited d' expected j"
  by (simp add: edited_def topic_at_def)

lemma archive_edited:
  assumes "edited d expected j" "archiveTopic i (expected i) stamp d = Inr d'"
  shows "live_file d' j = live_file d j \<and> dirs_wf d'"
proof -
  have wf: "dirs_wf d" using assms(1) by (simp add: edited_def)
  have "i \<noteq> j" using assms stale_blocked by (metis edited_def sum.distinct(1))
  then show ?thesis using archive_facts[OF wf assms(2)] by auto
qed

lemma update_edited:
  assumes "edited d expected j" "line_value clock" "updateTopic i content (expected i) clock d = Inr (saved, d')"
  shows "live_file d' j = live_file d j \<and> dirs_wf d'"
proof -
  have wf: "dirs_wf d" using assms(1) by (simp add: edited_def)
  have "i \<noteq> j" using assms(1,3) stale_blocked by (metis edited_def sum.distinct(1))
  then show ?thesis using update_facts[OF wf assms(2,3)] by auto
qed

lemma sources_edited:
  "edited d expected j \<Longrightarrow> move_sources expected clock is d = (moved, d1, ok) \<Longrightarrow> live_file d1 j = live_file d j \<and> dirs_wf d1"
proof (induction "is" arbitrary: d moved d1 ok)
  case (Cons i "is")
  show ?case
  proof (cases "archiveTopic i (expected i) (reportId clock) d")
    case (Inr d')
    then have k: "live_file d' j = live_file d j \<and> dirs_wf d'" using archive_edited Cons.prems(1) by blast
    obtain m where m: "move_sources expected clock is d' = (m, d1, ok)" using Cons.prems(2) Inr by (auto split: prod.splits)
    have "edited d' expected j" using edited_keep[OF Cons.prems(1)] k by blast
    from Cons.IH[OF this m] show ?thesis using k by simp
  qed (use Cons.prems in \<open>simp add: edited_def\<close>)
qed (simp add: edited_def)

lemma restore_edited:
  "dirs_wf d \<Longrightarrow> topic_at d j = Some e \<Longrightarrow> restore_all is d = (d1, bad) \<Longrightarrow> live_file d1 j = live_file d j \<and> dirs_wf d1"
proof (induction "is" arbitrary: d bad)
  case (Cons i "is")
  show ?case
  proof (cases "restoreTopic i d")
    case (Inl x)
    then obtain bad' where "restore_all is d = (d1, bad')" using Cons.prems(3) by (auto split: prod.splits)
    then show ?thesis using Cons.IH Cons.prems by blast
  next
    case (Inr d')
    from restore_facts[OF Cons.prems(1) Inr] have f: "dirs_wf d'" "i \<noteq> j" "live_file d' j = live_file d j"
      using Cons.prems(2) by auto
    then have "topic_at d' j = Some e" using Cons.prems(2) by (simp add: topic_at_def)
    then show ?thesis using Cons.IH[OF f(1)] Cons.prems(3) Inr f(3) by auto
  qed
qed simp

lemma action_edited:
  assumes e: "edited (ap_dirs st) (expected_of plan) j" and line: "line_value clock"
  shows "live_file (ap_dirs (apply_action plan appliedAt clock st a)) j = live_file (ap_dirs st) j \<and>
    dirs_wf (ap_dirs (apply_action plan appliedAt clock st a))"
proof (cases a)
  case (Merge m)
  obtain moved d1 ok where mv: "move_sources (expected_of plan) clock (mg_sourceIds m) (ap_dirs st) = (moved, d1, ok)"
    by (metis prod_cases3)
  note k = sources_edited[OF e mv]
  then obtain x where x: "topic_at d1 j = Some x" using edited_keep[OF e] by (auto simp: edited_def)
  show ?thesis
  proof (cases "if ok then appendEntry (merged_entry m appliedAt) clock d1 else Inl (UnknownTopic [])")
    case (Inl err)
    obtain d2 bad where r: "restore_all moved d1 = (d2, bad)" by (cases "restore_all moved d1")
    then show ?thesis using Merge Inl k restore_edited[OF _ x r] by (simp add: apply_merge_def mv skip_action_def)
  next
    case (Inr d2)
    then have ap: "appendEntry (merged_entry m appliedAt) clock d1 = Inr d2" by (auto split: if_splits)
    from append_facts[OF _ line ap] k have "dirs_wf d2" "live_file d2 j = live_file d1 j" using x by auto
    then show ?thesis using Merge Inr k by (simp add: apply_merge_def mv)
  qed
next
  case (Rewrite i content)
  then show ?thesis using e update_edited[OF e line] by (auto simp: skip_action_def edited_def split: sum.splits)
next
  case (Archive i reason heir)
  then show ?thesis using e archive_edited[OF e] by (auto simp: skip_action_def edited_def split: sum.splits)
qed

lemma first_edited:
  assumes "edited d (expected_of plan) j" "line_value clock"
  shows "live_file (ap_dirs (fst (apply_first n plan appliedAt clock (d, df)))) j = live_file d j"
proof -
  have "live_file (ap_dirs (fst (foldl (apply_step plan appliedAt clock) s as))) j = live_file (ap_dirs (fst s)) j"
    if "edited (ap_dirs (fst s)) (expected_of plan) j" for s as
    using that
  proof (induction as arbitrary: s)
    case (Cons a as)
    have k: "live_file (ap_dirs (fst (apply_step plan appliedAt clock s a))) j = live_file (ap_dirs (fst s)) j \<and>
        dirs_wf (ap_dirs (fst (apply_step plan appliedAt clock s a)))"
      using action_edited[OF Cons.prems assms(2)] by (simp add: apply_step_def Let_def)
    then show ?case using Cons.IH[OF edited_keep[OF Cons.prems]] by simp
  qed simp
  from this[of "(apply_start d, checkpoint plan appliedAt (apply_start d) df)"] show ?thesis
    using assms(1) by (simp add: apply_first_def apply_start_def)
qed

lemma snapshot_at:
  assumes "dirs_wf d" "topic_at d i = Some e"
  shows "jm_get (snapshot_of (listTopics d)) i = Some (me_content e)"
proof -
  have last: "jm_get (foldl (\<lambda>m t. jm_set m (me_id t) (me_content t)) m ts) i = Some (me_content e)"
    if "\<forall>t \<in> set ts. me_id t = i \<longrightarrow> t = e" "e \<in> set ts \<or> jm_get m i = Some (me_content e)" "me_id e = i" for ts m
    using that by (induction ts arbitrary: m) auto
  have find: "find (\<lambda>t. me_id t = i) (listTopics d) = Some e" using getTopic_at[OF assms(1), of i] assms(2) by (simp add: getTopic_def)
  have "t = e" if t: "t \<in> set (listTopics d)" "me_id t = i" for t
  proof -
    obtain k f where kf: "(k, f) \<in> set (md_live d)" "read_topic k f = Some t"
      using t(1) unfolding listTopics_def readTopicDir_def mem_map_filter by auto
    then have f: "(i, f) \<in> set (md_live d)" "read_topic i f = Some t" using read_topic_id[OF kf(2)] t(2) by simp_all
    then have "live_file d i = Some f" using assms(1) jm_get_iff by (fastforce simp: dirs_wf_def live_file_def)
    then show ?thesis using f(2) assms(2) by (simp add: topic_at_def)
  qed
  moreover have "e \<in> set (listTopics d)" "me_id e = i" using find unfolding find_Some_iff by (metis nth_mem)+
  ultimately show ?thesis unfolding snapshot_of_def using last[of "listTopics d" "[]"] by blast
qed

text \<open>C30: An edit wins over the plan. A topic whose content was changed while the model answered, by the
  user, the extractor or a tool, still has exactly that file after the run, whatever the plan
  says about it.\<close>

theorem edited_topic_untouched:
  assumes "runDream w run wall others (d, df) = (Applied report, d1, df1)"
    and "dirs_wf d" "dirs_wf (others d)" "iso_clock (dw_iso w)"
    and "topic_at d i = Some planned_topic" "topic_at (others d) i = Some edited_topic"
    and "me_content edited_topic \<noteq> me_content planned_topic"
  shows "live_file d1 i = live_file (others d) i"
proof -
  obtain df0 plan df3 where r:
      "planDream w (df_usage (pruneTopicUsage (map me_id (listTopics d)) df0)) (listTopics d) (dn_options run) (dn_now run) = Inr plan"
      "applyPlan plan (dw_iso w (dn_now run)) (dw_iso w wall)
        (others d, clearDreamFailures (pruneTopicUsage (map me_id (listTopics d)) df0)) = (report, d1, df3)"
    using run_applied[OF assms(1)] by blast
  have "expected_of plan i = Some (me_content planned_topic)"
    using planned[OF r(1)] snapshot_at[OF assms(2,5)] by (auto simp: expected_of_def)
  then have "edited (others d) (expected_of plan) i" using assms(3,6,7) by (simp add: edited_def)
  moreover have "line_value (dw_iso w wall)" using assms(4) by (simp add: iso_clock_def)
  moreover have "d1 = ap_dirs (fst (apply_first (length (pd_actions plan)) plan (dw_iso w (dn_now run)) (dw_iso w wall)
      (others d, clearDreamFailures (pruneTopicUsage (map me_id (listTopics d)) df0))))"
    using r(2) by (auto simp: applyPlan_def Let_def split: prod.splits)
  ultimately show ?thesis using first_edited by simp
qed


section \<open>The cap holds for what is done\<close>

lemma moved_length: "move_sources expected clock is d = (moved, d1, ok) \<Longrightarrow> length moved \<le> length is"
  by (induction "is" arbitrary: d moved d1 ok) (fastforce split: sum.splits prod.splits)+

lemma action_archives:
  "length (ap_archived (apply_action plan appliedAt clock st a)) \<le> length (ap_archived st) + retirements a"
proof (cases a)
  case (Merge m)
  obtain moved d1 ok where mv: "move_sources (expected_of plan) clock (mg_sourceIds m) (ap_dirs st) = (moved, d1, ok)"
    by (metis prod_cases3)
  then show ?thesis using Merge moved_length[OF mv] by (simp add: apply_merge_def skip_action_def split: sum.splits prod.splits)
qed (auto simp: skip_action_def split: sum.splits)

lemma actions_archive:
  "length (ap_archived (fst (foldl (apply_step plan appliedAt clock) s as))) \<le> length (ap_archived (fst s)) + sum_list (map retirements as)"
proof (induction as arbitrary: s)
  case (Cons a as)
  show ?case
    using Cons[of "apply_step plan appliedAt clock s a"] action_archives[of plan appliedAt clock "fst s" a]
    by (simp add: apply_step_def Let_def)
qed simp

lemma retirementCap_mono: "m \<le> n \<Longrightarrow> retirementCap m \<le> retirementCap n"
  by (auto simp: retirementCap_def max_def div_le_mono intro: order_trans[OF div_le_mono])

text \<open>C31: A run retires at most the capped share of the topics, counted over everything that left the
  live set: whatever the model proposed, no more than two or three tenths of the topics it was
  planned on are archived.\<close>

theorem run_retires_within_cap:
  assumes "runDream w run wall others (d, df) = (Applied report, d1, df1)"
  shows "length (dr_archived report) \<le> retirementCap (length (listTopics d))"
proof -
  obtain df0 plan df3 where r:
      "planDream w (df_usage (pruneTopicUsage (map me_id (listTopics d)) df0)) (listTopics d) (dn_options run) (dn_now run) = Inr plan"
      "applyPlan plan (dw_iso w (dn_now run)) (dw_iso w wall)
        (others d, clearDreamFailures (pruneTopicUsage (map me_id (listTopics d)) df0)) = (report, d1, df3)"
    using run_applied[OF assms] by blast
  let ?df = "clearDreamFailures (pruneTopicUsage (map me_id (listTopics d)) df0)"
  let ?st = "fst (apply_first (length (pd_actions plan)) plan (dw_iso w (dn_now run)) (dw_iso w wall) (others d, ?df))"
  have "dr_archived report = ap_archived ?st"
    using r(2) by (auto simp: applyPlan_def Let_def snapshotReport_def split: prod.splits)
  moreover have "length (ap_archived ?st) \<le> sum_list (map retirements (ordered_actions plan))"
    using actions_archive[of plan "dw_iso w (dn_now run)" "dw_iso w wall"
        "(apply_start (others d), checkpoint plan (dw_iso w (dn_now run)) (apply_start (others d)) ?df)" "ordered_actions plan"]
    by (simp add: apply_first_def apply_start_def ordered_actions_def)
  moreover have "sum_list (map retirements (ordered_actions plan)) = sum_list (map retirements (pd_actions plan))"
    unfolding ordered_actions_def by (metis mset_map mset_sort sum_mset_sum_list)
  moreover obtain views where v: "length views \<le> length (listTopics d)" "validateDreamPlan (pd_actions plan) views = None"
    using planned[OF r(1)] by blast
  from v have "sum_list (map retirements (pd_actions plan)) \<le> retirementCap (length (listTopics d))"
    using retirementCap_mono[of "length views" "length (listTopics d)"] by (simp add: validate_iff)
  ultimately show ?thesis by simp
qed

section \<open>Preview first\<close>

text \<open>Until the user has applied a preview no run carries a plan out: the store is only what others
  make of it, the confirmation is not set by a run, and whatever the outcome, the process holds the
  lock afterwards only if it did before.\<close>

theorem unconfirmed_only_previews:
  assumes "runDream w run wall others (d, df) = (outcome, d1, df1)" "\<not> readDreamConfirmed df"
  shows "(\<forall>report. outcome \<noteq> Applied report) \<and> d1 \<in> {d, others d} \<and> \<not> readDreamConfirmed df1 \<and> df_held df1 = df_held df"
proof -
  have drop: "df_held (dropLock p x) = False" "df_state (dropLock p x) = df_state x" for p and x :: dream_dir
    by (auto simp: dropLock_def Let_def)
  note defs = readDreamConfirmed_def fail_run_def releaseDreamLock_def rollbackDreamLock_def writePendingPlan_def
    clearDreamFailures_def pruneTopicUsage_def recordDreamFailure_def
  have acquire: "df_state (snd (tryAcquireDreamLock p al now df)) = df_state df \<and>
      (fst (tryAcquireDreamLock p al now df) \<longrightarrow> \<not> df_held df) \<and>
      (\<not> fst (tryAcquireDreamLock p al now df) \<longrightarrow> df_held (snd (tryAcquireDreamLock p al now df)) = df_held df)" for p al now
    by (simp add: tryAcquireDreamLock_def)
  obtain got df0 where l: "tryAcquireDreamLock (dw_pid w) (dw_alive w) wall df = (got, df0)"
    by (cases "tryAcquireDreamLock (dw_pid w) (dw_alive w) wall df")
  have state: "df_state df0 = df_state df" "got \<Longrightarrow> \<not> df_held df" "\<not> got \<Longrightarrow> df_held df0 = df_held df"
    using acquire[of "dw_pid w" "dw_alive w" wall] by (simp_all add: l)
  show ?thesis
    using assms state unfolding runDream_def Let_def
    by (cases got) (auto simp: l defs drop split: option.splits if_splits sum.splits)
qed


section \<open>Examples\<close>

definition demo_topic :: "string \<Rightarrow> string \<Rightarrow> memory_entry" where
  "demo_topic i content = \<lparr>me_id = i, me_name = ''N'', me_description = ''D'', me_type = UserEntry, me_content = content,
     me_createdAt = ''2026'', me_updatedAt = None\<rparr>"

definition demo_file :: "string \<Rightarrow> string \<Rightarrow> topic_file" where
  "demo_file i content = \<lparr>tf_text = buildTopicFile (demo_topic i content), tf_mtime = ''2026''\<rparr>"

definition demo_dirs :: "string \<Rightarrow> memory_dirs" where
  "demo_dirs c = \<lparr>md_live = [(''a'', demo_file ''a'' ''x''), (''b'', demo_file ''b'' ''y''), (''c'', demo_file ''c'' c)], md_archive = [], md_history = []\<rparr>"

definition demo_answer :: js where
  "demo_answer = JObj [(''actions'', JArr
     [JObj [(''action'', JStr ''rewrite''), (''id'', JStr ''c''), (''content'', JStr ''w'')],
      JObj [(''action'', JStr ''merge''), (''sourceIds'', JArr [JStr ''a'', JStr ''b'']), (''id'', JStr ''ab''), (''name'', JStr ''N''),
        (''type'', JStr ''user''), (''content'', JStr ''x y'')]])]"

definition dream_world_demo :: dream_world where
  "dream_world_demo = \<lparr>dw_parse = (\<lambda>s. Some demo_answer), dw_date = (\<lambda>s. Some 0), dw_iso = (\<lambda>n. ''2026''), dw_json_len = (\<lambda>v. 1),
     dw_model = (\<lambda>vs. Reply ''answer'' False), dw_pid = 1, dw_alive = (\<lambda>p. False)\<rparr>"

definition dream_run_demo :: dream_run where
  "dream_run_demo = \<lparr>dn_force = True, dn_previewOnly = False, dn_options = DEFAULT_DREAM_OPTIONS, dn_now = 0\<rparr>"

definition demo_dream :: "string option \<Rightarrow> dream_dir" where
  "demo_dream confirmed = \<lparr>df_held = False, df_lock = None, df_lastRun = None,
     df_state = \<lparr>ds_confirmedAt = confirmed, ds_failures = None, ds_lastFailureAt = None\<rparr>, df_pending = None, df_reports = [], df_usage = []\<rparr>"

fun is_applied :: "dream_outcome \<Rightarrow> bool" where
  "is_applied (Applied r) = True"
| "is_applied _ = False"

lemma demo_applied:
  "is_applied (fst (runDream dream_world_demo dream_run_demo 0 (\<lambda>d. demo_dirs ''z2'') (demo_dirs ''z'', demo_dream (Some ''2026''))))"
  by code_simp

lemma demo_outcome:
  obtains report d1 df1 where
    "runDream dream_world_demo dream_run_demo 0 (\<lambda>d. demo_dirs ''z2'') (demo_dirs ''z'', demo_dream (Some ''2026'')) = (Applied report, d1, df1)"
  using demo_applied by (metis is_applied.elims(2) prod.collapse)

lemma demo_wf: "dirs_wf (demo_dirs c)"
proof -
  have "line_value ''2026''" by code_simp
  then show ?thesis by (auto simp: dirs_wf_def demo_dirs_def live_file_def archived_file_def jm_wf_def jm_get_def demo_file_def split: if_splits)
qed

lemma demo_clock: "iso_clock (dw_iso dream_world_demo)"
proof -
  have "line_value ''2026''" "list_all report_id_char (reportId ''2026'')" by code_simp+
  then show ?thesis by (simp add: iso_clock_def dream_world_demo_def)
qed

lemma demo_ids: "\<forall>t \<in> set (listTopics (demo_dirs ''z'')). me_id t \<noteq> []"
proof -
  have "list_all (\<lambda>t. me_id t \<noteq> []) (listTopics (demo_dirs ''z''))" by code_simp
  then show ?thesis by (simp add: list_all_iff)
qed

lemma demo_before: "reports_before (demo_dream c) i"
  by (simp add: reports_before_def demo_dream_def)

theorem applied_run_undone_witness:
  "\<exists>report d1 df1 d2 df2.
    runDream dream_world_demo dream_run_demo 0 (\<lambda>d. demo_dirs ''z2'') (demo_dirs ''z'', demo_dream (Some ''2026'')) = (Applied report, d1, df1) \<and>
    undoDreamReport dream_world_demo 9 (dr_id report) (d1, df1) = Inr ([], d2, df2) \<and>
    rel_option same_topic (topic_at (demo_dirs ''z2'') ''a'') (topic_at d2 ''a'')"
proof -
  obtain report d1 df1 where
    r: "runDream dream_world_demo dream_run_demo 0 (\<lambda>d. demo_dirs ''z2'') (demo_dirs ''z'', demo_dream (Some ''2026'')) = (Applied report, d1, df1)"
    by (rule demo_outcome)
  have "0 < dw_pid dream_world_demo" by (simp add: dream_world_demo_def)
  then show ?thesis using applied_run_undone[OF r demo_wf demo_ids demo_clock _ demo_before, of 9] r by metis
qed

theorem edited_topic_untouched_witness:
  "\<exists>report d1 df1.
    runDream dream_world_demo dream_run_demo 0 (\<lambda>d. demo_dirs ''z2'') (demo_dirs ''z'', demo_dream (Some ''2026'')) = (Applied report, d1, df1) \<and>
    live_file d1 ''c'' = live_file (demo_dirs ''z2'') ''c''"
proof -
  obtain report d1 df1 where
    r: "runDream dream_world_demo dream_run_demo 0 (\<lambda>d. demo_dirs ''z2'') (demo_dirs ''z'', demo_dream (Some ''2026'')) = (Applied report, d1, df1)"
    by (rule demo_outcome)
  have "topic_at (demo_dirs ''z'') ''c'' = Some (demo_topic ''c'' ''z'')" "topic_at (demo_dirs ''z2'') ''c'' = Some (demo_topic ''c'' ''z2'')"
    by code_simp+
  then show ?thesis using edited_topic_untouched[OF r demo_wf demo_wf demo_clock] r by (simp add: demo_topic_def)
qed

theorem run_retires_within_cap_witness:
  "\<exists>report d1 df1.
    runDream dream_world_demo dream_run_demo 0 (\<lambda>d. demo_dirs ''z2'') (demo_dirs ''z'', demo_dream (Some ''2026'')) = (Applied report, d1, df1) \<and>
    length (dr_archived report) \<le> 2"
proof -
  obtain report d1 df1 where
    r: "runDream dream_world_demo dream_run_demo 0 (\<lambda>d. demo_dirs ''z2'') (demo_dirs ''z'', demo_dream (Some ''2026'')) = (Applied report, d1, df1)"
    by (rule demo_outcome)
  have "retirementCap (length (listTopics (demo_dirs ''z''))) = 2" by code_simp
  then show ?thesis using run_retires_within_cap[OF r] r by auto
qed

theorem unconfirmed_only_previews_witness:
  "\<exists>outcome d1 df1. runDream dream_world_demo dream_run_demo 0 (\<lambda>d. demo_dirs ''z2'') (demo_dirs ''z'', demo_dream None) = (outcome, d1, df1) \<and>
    (\<forall>report. outcome \<noteq> Applied report) \<and> d1 \<in> {demo_dirs ''z'', demo_dirs ''z2''}"
proof -
  obtain outcome d1 df1 where
    r: "runDream dream_world_demo dream_run_demo 0 (\<lambda>d. demo_dirs ''z2'') (demo_dirs ''z'', demo_dream None) = (outcome, d1, df1)"
    by (metis prod_cases3)
  have "\<not> readDreamConfirmed (demo_dream None)" by (simp add: readDreamConfirmed_def demo_dream_def)
  then show ?thesis using unconfirmed_only_previews[OF r] r by blast
qed

definition demo_plan :: pending_plan where
  "demo_plan = \<lparr>pd_id = ''2026'', pd_createdAt = ''2026'', pd_actions = [Rewrite ''c'' ''w'', Archive ''a'' ''old'' None],
     pd_snapshot = [(''a'', ''x''), (''b'', ''y''), (''c'', ''z'')], pd_topicCount = 3,
     pd_counts = countDreamActions [Rewrite ''c'' ''w'', Archive ''a'' ''old'' None]\<rparr>"

text \<open>After the rewrite, the first action in order, the process with number 7 dies.\<close>

theorem crashed_run_undone_witness:
  "\<exists>d2 df2. undoDreamReport dream_world_demo 99 ''2026''
      (ap_dirs (fst (apply_first 1 demo_plan ''2026'' ''2026'' (demo_dirs ''z'', demo_dream None\<lparr>df_lock := Some (lock_of 7 0)\<rparr>))),
       (snd (apply_first 1 demo_plan ''2026'' ''2026'' (demo_dirs ''z'', demo_dream None\<lparr>df_lock := Some (lock_of 7 0)\<rparr>)))\<lparr>df_held := False\<rparr>) =
      Inr ([], d2, df2) \<and> rel_option same_topic (topic_at (demo_dirs ''z'') ''c'') (topic_at d2 ''c'')"
proof -
  let ?df = "demo_dream None\<lparr>df_lock := Some (lock_of 7 0)\<rparr>"
  have iso: "dw_iso dream_world_demo n = ''2026''" for n by (simp add: dream_world_demo_def)
  have fits: "plan_fits demo_plan"
    by (simp add: plan_fits_def demo_plan_def expected_of_def jm_get_def bad_topic_id_def)
  have before: "reports_before ?df (pd_id demo_plan)" by (simp add: reports_before_def demo_dream_def)
  have "isAbandoned (dw_pid dream_world_demo) (dw_alive dream_world_demo) 99 (df_lock ?df)"
    using holder_of_lock[of 7 0] by (simp add: isAbandoned_def dream_world_demo_def)
  moreover have "pd_id demo_plan = reportId (dw_iso dream_world_demo 0)" unfolding iso by code_simp
  moreover have "pd_id demo_plan = ''2026''" by (simp add: demo_plan_def)
  ultimately show ?thesis
    using crashed_run_undone[of 1 demo_plan dream_world_demo 0 0 "demo_dirs ''z''" ?df, OF prod.collapse[symmetric] fits demo_wf demo_clock before]
    unfolding iso by metis
qed

end
