(* ===== verification/SessionSlots.thy ===== *)
theory SessionSlots
  imports TacoPrelude
begin

text \<open>
  Who has a session's file open: \<open>packages/sidecar/src/runtime/session/sessionRegistry.ts\<close> and
  \<open>sessionLookup.ts\<close>. The repository of sessions, a library, allows one open handle per file;
  reads, attaches, detaches, deletions and creations of a session queue behind one another in a slot.
  Every call is a link of a chain of promises, and the steps are what happens between two awaits, so
  calls interleave in every order the code allows. The repository grants an open, a creation or a
  deletion only when the file is not open; otherwise it may fail at any time. Closing a handle
  releases the file, and so does disposing of the attached session that holds it, unless the close
  fails: then the file stays open and nobody is left to close it. A read that finds its session
  attached uses the attached handle outside of the slots.
\<close>

section \<open>Looking up a session\<close>

datatype prefix_resolution = Found string | NoSuch | Ambiguous "string list"

definition resolveSessionByPrefix :: "string list \<Rightarrow> string \<Rightarrow> prefix_resolution" where
  "resolveSessionByPrefix files sid =
     (if sid \<in> set files then Found sid
      else let matches = filter (\<lambda>f. startsWith f sid) files in
        if matches = [] then NoSuch
        else if 1 < length matches then Ambiguous matches
        else Found (hd matches))"

text \<open>The cached list, refilled from what the repository lists; an empty listing is not kept.\<close>

definition listSessions :: "string list option \<Rightarrow> string list \<Rightarrow> string list \<times> string list option" where
  "listSessions cache listed =
     (case cache of Some l \<Rightarrow> (l, cache) | None \<Rightarrow> (listed, if listed = [] then None else Some listed))"

datatype open_result = Opens string | SessionNotFound | ListEmpty | AmbiguousPrefix

text \<open>The second listing is the fresh one a miss is checked against.\<close>

definition openSession :: "string list option \<Rightarrow> string list \<Rightarrow> string list \<Rightarrow> string \<Rightarrow> open_result \<times> string list option" where
  "openSession cache listed fresh sid =
     (let (l, cache') = listSessions cache listed in
      case resolveSessionByPrefix l sid of
        Found f \<Rightarrow> (Opens f, cache')
      | Ambiguous fs \<Rightarrow> (AmbiguousPrefix, cache')
      | NoSuch \<Rightarrow>
          let (l2, cache2) = listSessions None fresh in
          (case resolveSessionByPrefix l2 sid of
             Found f \<Rightarrow> (Opens f, cache2)
           | Ambiguous fs \<Rightarrow> (AmbiguousPrefix, cache2)
           | NoSuch \<Rightarrow> (if l2 = [] then ListEmpty else SessionNotFound, cache2)))"

section \<open>Tasks and their links\<close>

datatype session_task =
    ReadTask string
  | AttachTask string
  | DetachTask string
  | DeleteTask string
  | CreateTask string

fun task_sid :: "session_task \<Rightarrow> string" where
  "task_sid (ReadTask s) = s"
| "task_sid (AttachTask s) = s"
| "task_sid (DetachTask s) = s"
| "task_sid (DeleteTask s) = s"
| "task_sid (CreateTask s) = s"

fun is_delete :: "session_task \<Rightarrow> bool" where
  "is_delete (DeleteTask s) = True"
| "is_delete _ = False"

fun is_create :: "session_task \<Rightarrow> bool" where
  "is_create (CreateTask s) = True"
| "is_create _ = False"

fun keeps_handle :: "session_task \<Rightarrow> bool" where
  "keeps_handle (AttachTask s) = True"
| "keeps_handle _ = False"

text \<open>Where a link is: queued; looking up the file; waiting for the repository to open, create or delete
  it; working on a handle of its own; reading on the attached one; waiting for the attached session to
  be disposed; done.\<close>

datatype link_phase =
    Waiting
  | Resolving
  | Calling string
  | Opened nat
  | Borrowing nat
  | Disposing nat
  | Settled

record slot_link =
  lk_task :: session_task
  lk_pred :: "nat option"
  lk_phase :: link_phase

datatype repo_call = OpenCall string | CreateCall string | DeleteCall string

text \<open>Links have the place in the list as their name. A call is recorded with whether the file was open.
  \<open>rg_reads\<close> are the reads under way that need no slot, with the handle they use.\<close>

record registry =
  rg_links :: "slot_link list"
  rg_slots :: "(string, nat) js_map"
  rg_attached :: "(string, nat) js_map"
  rg_cache :: "string list option"
  rg_open :: "(nat \<times> string) list"
  rg_files :: "string list"
  rg_next :: nat
  rg_calls :: "(repo_call \<times> bool) list"
  rg_reads :: "(string \<times> nat) list"

definition new_registry :: "string list \<Rightarrow> registry" where
  "new_registry files = \<lparr>rg_links = [], rg_slots = [], rg_attached = [], rg_cache = None, rg_open = [], rg_files = files,
     rg_next = 0, rg_calls = [], rg_reads = []\<rparr>"

section \<open>Steps\<close>

text \<open>\<open>withSlot\<close>: the new link follows the tail, and is the tail.\<close>

definition withSlot :: "session_task \<Rightarrow> registry \<Rightarrow> registry" where
  "withSlot t r = r\<lparr>rg_links := rg_links r @ [\<lparr>lk_task = t, lk_pred = jm_get (rg_slots r) (task_sid t), lk_phase = Waiting\<rparr>],
     rg_slots := jm_set (rg_slots r) (task_sid t) (length (rg_links r))\<rparr>"

text \<open>A read and an attach look for an attached session first and then need no slot: the attach returns
  it at once, the read is under way on its handle.\<close>

definition attached_now :: "registry \<Rightarrow> session_task \<Rightarrow> nat option" where
  "attached_now r t = (case t of ReadTask s \<Rightarrow> jm_get (rg_attached r) s | AttachTask s \<Rightarrow> jm_get (rg_attached r) s | _ \<Rightarrow> None)"

definition request :: "session_task \<Rightarrow> registry \<Rightarrow> registry" where
  "request t r =
     (case attached_now r t of
        None \<Rightarrow> withSlot t r
      | Some h \<Rightarrow> (case t of ReadTask s \<Rightarrow> r\<lparr>rg_reads := rg_reads r @ [(s, h)]\<rparr> | _ \<Rightarrow> r))"

definition set_link_phase :: "nat \<Rightarrow> link_phase \<Rightarrow> slot_link list \<Rightarrow> slot_link list" where
  "set_link_phase i p ls = ls[i := (ls ! i)\<lparr>lk_phase := p\<rparr>]"

definition sid_at :: "slot_link list \<Rightarrow> nat \<Rightarrow> string" where
  "sid_at ls i = task_sid (lk_task (ls ! i))"

definition phase_at :: "slot_link list \<Rightarrow> nat \<Rightarrow> link_phase" where
  "phase_at ls i = lk_phase (ls ! i)"

definition pred_settled :: "slot_link list \<Rightarrow> nat \<Rightarrow> bool" where
  "pred_settled ls i \<longleftrightarrow> (case lk_pred (ls ! i) of None \<Rightarrow> True | Some p \<Rightarrow> phase_at ls p = Settled)"

definition move :: "nat \<Rightarrow> link_phase \<Rightarrow> registry \<Rightarrow> registry" where
  "move i p r = r\<lparr>rg_links := set_link_phase i p (rg_links r)\<rparr>"

text \<open>The body of a task up to its first await.\<close>

definition first_phase :: "registry \<Rightarrow> session_task \<Rightarrow> link_phase" where
  "first_phase r t =
     (let now = jm_get (rg_attached r) (task_sid t) in
      case t of
        ReadTask s \<Rightarrow> (case now of Some h \<Rightarrow> Borrowing h | None \<Rightarrow> Resolving)
      | AttachTask s \<Rightarrow> (case now of Some h \<Rightarrow> Settled | None \<Rightarrow> Resolving)
      | DetachTask s \<Rightarrow> (case now of Some h \<Rightarrow> Disposing h | None \<Rightarrow> Settled)
      | DeleteTask s \<Rightarrow> (case now of Some h \<Rightarrow> Disposing h | None \<Rightarrow> Resolving)
      | CreateTask s \<Rightarrow> Calling s)"

definition file_open :: "registry \<Rightarrow> string \<Rightarrow> bool" where
  "file_open r f \<longleftrightarrow> f \<in> snd ` set (rg_open r)"

definition task_call :: "session_task \<Rightarrow> string \<Rightarrow> repo_call" where
  "task_call t f = (if is_create t then CreateCall f else if is_delete t then DeleteCall f else OpenCall f)"

definition log_call :: "session_task \<Rightarrow> string \<Rightarrow> registry \<Rightarrow> registry" where
  "log_call t f r = r\<lparr>rg_calls := rg_calls r @ [(task_call t f, file_open r f)]\<rparr>"

definition close_handle :: "nat \<Rightarrow> registry \<Rightarrow> registry" where
  "close_handle h r = r\<lparr>rg_open := filter (\<lambda>e. fst e \<noteq> h) (rg_open r)\<rparr>"

text \<open>What the repository does when it grants a call.\<close>

definition grant :: "nat \<Rightarrow> session_task \<Rightarrow> string \<Rightarrow> registry \<Rightarrow> registry" where
  "grant i t f r =
     (if is_delete t then move i Settled (r\<lparr>rg_files := removeAll f (rg_files r)\<rparr>)
      else move i (Opened (rg_next r)) (r\<lparr>rg_open := (rg_next r, f) # rg_open r, rg_next := Suc (rg_next r),
        rg_files := (if is_create t then f # rg_files r else rg_files r)\<rparr>))"

text \<open>An attach that succeeds leaves its handle to the attached session; a disposed session is
  forgotten, and a deletion goes on.\<close>

definition attach_done :: "nat \<Rightarrow> nat \<Rightarrow> registry \<Rightarrow> registry" where
  [simp]: "attach_done i h r = move i Settled (r\<lparr>rg_attached := jm_set (rg_attached r) (sid_at (rg_links r) i) h\<rparr>)"

definition dispose_done :: "nat \<Rightarrow> nat \<Rightarrow> registry \<Rightarrow> registry" where
  [simp]: "dispose_done i h r = move i (if is_delete (lk_task (rg_links r ! i)) then Resolving else Settled)
     ((close_handle h r)\<lparr>rg_attached := jm_delete (rg_attached r) (sid_at (rg_links r) i)\<rparr>)"

text \<open>A close that fails: the error of a handle's own close ends the task, that of an attached session's
  harness is only logged, and the session is forgotten all the same.\<close>

definition close_failed :: "nat \<Rightarrow> registry \<Rightarrow> registry" where
  [simp]: "close_failed i r =
     (case phase_at (rg_links r) i of
        Disposing h \<Rightarrow> move i (if is_delete (lk_task (rg_links r ! i)) then Resolving else Settled)
          (r\<lparr>rg_attached := jm_delete (rg_attached r) (sid_at (rg_links r) i)\<rparr>)
      | _ \<Rightarrow> move i Settled r)"

datatype registry_event =
    Request session_task
  | Start nat
  | Resolve nat "string list" "string list"
  | Granted nat
  | Failed nat
  | Worked nat bool
  | Disposed nat
  | CloseFailed nat
  | ReadDone nat
  | Drain nat
  | Invalidate

fun registry_step :: "registry \<Rightarrow> registry_event \<Rightarrow> registry option" where
  "registry_step r (Request t) = Some (request t r)"
| "registry_step r (Start i) =
     (if i < length (rg_links r) \<and> phase_at (rg_links r) i = Waiting \<and> pred_settled (rg_links r) i
      then Some (move i (first_phase r (lk_task (rg_links r ! i))) r) else None)"
| "registry_step r (Resolve i listed fresh) =
     (if i < length (rg_links r) \<and> phase_at (rg_links r) i = Resolving
      then (case openSession (rg_cache r) listed fresh (sid_at (rg_links r) i) of
              (Opens f, cache) \<Rightarrow> Some (move i (Calling f) (r\<lparr>rg_cache := cache\<rparr>))
            | (_, cache) \<Rightarrow> Some (move i Settled (r\<lparr>rg_cache := cache\<rparr>)))
      else None)"
| "registry_step r (Granted i) =
     (if i < length (rg_links r)
      then (let t = lk_task (rg_links r ! i) in case phase_at (rg_links r) i of
              Calling f \<Rightarrow>
                if file_open r f \<or> (is_create t \<longleftrightarrow> f \<in> set (rg_files r)) then None
                else Some (grant i t f (log_call t f r))
            | _ \<Rightarrow> None)
      else None)"
| "registry_step r (Failed i) =
     (if i < length (rg_links r)
      then (case phase_at (rg_links r) i of
              Calling f \<Rightarrow> Some (move i Settled (log_call (lk_task (rg_links r ! i)) f r))
            | _ \<Rightarrow> None)
      else None)"
| "registry_step r (Worked i ok) =
     (if i < length (rg_links r)
      then (case phase_at (rg_links r) i of
              Opened h \<Rightarrow>
                if keeps_handle (lk_task (rg_links r ! i)) \<and> ok
                then Some (attach_done i h r)
                else Some (move i Settled (close_handle h r))
            | Borrowing h \<Rightarrow> Some (move i Settled r)
            | _ \<Rightarrow> None)
      else None)"
| "registry_step r (Disposed i) =
     (if i < length (rg_links r)
      then (case phase_at (rg_links r) i of
              Disposing h \<Rightarrow> Some (dispose_done i h r)
            | _ \<Rightarrow> None)
      else None)"
| "registry_step r (CloseFailed i) =
     (if i < length (rg_links r)
      then (case phase_at (rg_links r) i of
              Opened h \<Rightarrow> Some (close_failed i r)
            | Disposing h \<Rightarrow> Some (close_failed i r)
            | _ \<Rightarrow> None)
      else None)"
| "registry_step r (ReadDone k) =
     (if k < length (rg_reads r)
      then Some (r\<lparr>rg_reads := take k (rg_reads r) @ drop (Suc k) (rg_reads r)\<rparr>) else None)"
| "registry_step r (Drain i) =
     (if i < length (rg_links r) \<and> phase_at (rg_links r) i = Settled \<and> jm_get (rg_slots r) (sid_at (rg_links r) i) = Some i
      then Some (r\<lparr>rg_slots := jm_delete (rg_slots r) (sid_at (rg_links r) i)\<rparr>) else None)"
| "registry_step r Invalidate = Some (r\<lparr>rg_cache := None\<rparr>)"

fun registry_run :: "registry \<Rightarrow> registry_event list \<Rightarrow> registry option" where
  "registry_run r [] = Some r"
| "registry_run r (e # es) = (case registry_step r e of None \<Rightarrow> None | Some r' \<Rightarrow> registry_run r' es)"

text \<open>Requests name sessions by their full identifier, all of one length, and a creation a fresh one; and
  what is closed is closed.\<close>

definition full_names :: "nat \<Rightarrow> registry \<Rightarrow> registry_event \<Rightarrow> bool" where
  "full_names n r e \<longleftrightarrow> (case e of
       Request t \<Rightarrow> length (task_sid t) = n \<and> (is_create t \<longrightarrow> task_sid t \<notin> (task_sid \<circ> lk_task) ` set (rg_links r))
     | Resolve i listed fresh \<Rightarrow> \<forall>f \<in> set listed \<union> set fresh. length f = n
     | CloseFailed i \<Rightarrow> False
     | _ \<Rightarrow> True)"

inductive slots_step :: "nat \<Rightarrow> registry \<Rightarrow> registry \<Rightarrow> bool" for n where
  "registry_step r e = Some r' \<Longrightarrow> full_names n r e \<Longrightarrow> slots_step n r r'"

inductive_cases slots_stepE: "slots_step n r r'"

section \<open>The queue\<close>

text \<open>A link that has started finds all earlier links of its session settled; the tail is the last link.\<close>

definition pred_ok :: "slot_link list \<Rightarrow> nat \<Rightarrow> bool" where
  "pred_ok ls j \<longleftrightarrow> (case lk_pred (ls ! j) of
       None \<Rightarrow> \<forall>i < j. sid_at ls i = sid_at ls j \<longrightarrow> phase_at ls i = Settled
     | Some p \<Rightarrow> p < j \<and> sid_at ls p = sid_at ls j \<and> (\<forall>i < j. sid_at ls i = sid_at ls j \<longrightarrow> i \<le> p))"

definition tail_ok :: "slot_link list \<Rightarrow> (string, nat) js_map \<Rightarrow> string \<Rightarrow> bool" where
  "tail_ok ls sl s \<longleftrightarrow> (case jm_get sl s of
       None \<Rightarrow> \<forall>i < length ls. sid_at ls i = s \<longrightarrow> phase_at ls i = Settled
     | Some t \<Rightarrow> t < length ls \<and> sid_at ls t = s \<and> (\<forall>i < length ls. sid_at ls i = s \<longrightarrow> i \<le> t))"

definition in_order :: "slot_link list \<Rightarrow> bool" where
  "in_order ls \<longleftrightarrow> (\<forall>j < length ls. phase_at ls j \<noteq> Waiting \<longrightarrow>
     (\<forall>i < j. sid_at ls i = sid_at ls j \<longrightarrow> phase_at ls i = Settled))"

definition queue_ok :: "slot_link list \<Rightarrow> (string, nat) js_map \<Rightarrow> bool" where
  "queue_ok ls sl \<longleftrightarrow> (\<forall>j < length ls. pred_ok ls j) \<and> (\<forall>s. tail_ok ls sl s) \<and> in_order ls"

lemma length_set_link_phase [simp]: "length (set_link_phase i p ls) = length ls"
  by (simp add: set_link_phase_def)

lemma sid_set_link_phase [simp]: "i < length ls \<Longrightarrow> sid_at (set_link_phase i p ls) j = sid_at ls j"
  by (simp add: sid_at_def set_link_phase_def nth_list_update)

lemma phase_set_link_phase: "i < length ls \<Longrightarrow> phase_at (set_link_phase i p ls) j = (if j = i then p else phase_at ls j)"
  by (simp add: phase_at_def set_link_phase_def nth_list_update)

lemma pred_set_link_phase [simp]: "i < length ls \<Longrightarrow> lk_pred (set_link_phase i p ls ! j) = lk_pred (ls ! j)"
  by (simp add: set_link_phase_def nth_list_update)

lemma task_set_link_phase [simp]: "i < length ls \<Longrightarrow> lk_task (set_link_phase i p ls ! j) = lk_task (ls ! j)"
  by (simp add: set_link_phase_def nth_list_update)

lemma earlier_settled:
  assumes q: "queue_ok ls sl" and i: "i < length ls" and go: "phase_at ls i \<noteq> Waiting \<or> pred_settled ls i"
    and k: "k < i" "sid_at ls k = sid_at ls i"
  shows "phase_at ls k = Settled"
proof (cases "phase_at ls i = Waiting")
  case False
  then show ?thesis using q k i unfolding queue_ok_def in_order_def by blast
next
  case True
  have po: "pred_ok ls i" using q i by (simp add: queue_ok_def)
  show ?thesis
  proof (cases "lk_pred (ls ! i)")
    case None
    then show ?thesis using po k by (simp add: pred_ok_def)
  next
    case (Some m)
    then have m: "m < i" "sid_at ls m = sid_at ls i" "k \<le> m" "phase_at ls m = Settled"
      using po go True k by (auto simp: pred_ok_def pred_settled_def)
    then show ?thesis
      using q k i unfolding queue_ok_def in_order_def
      by (metis le_neq_implies_less less_trans link_phase.distinct(11))
  qed
qed

lemma queue_move:
  assumes q: "queue_ok ls sl" and i: "i < length ls" "phase_at ls i \<noteq> Settled"
    and go: "phase_at ls i \<noteq> Waiting \<or> pred_settled ls i"
  shows "queue_ok (set_link_phase i p ls) sl"
proof -
  let ?l = "set_link_phase i p ls"
  have mono: "phase_at ls j = Settled \<Longrightarrow> phase_at ?l j = Settled" for j
    using i by (auto simp: phase_set_link_phase)
  have "pred_ok ?l j" if "j < length ls" for j
  proof -
    have "pred_ok ls j" using q that by (simp add: queue_ok_def)
    then show ?thesis using mono i(1) by (auto simp: pred_ok_def split: option.splits)
  qed
  moreover have "tail_ok ?l sl s" for s
  proof -
    have "tail_ok ls sl s" using q by (simp add: queue_ok_def)
    then show ?thesis using mono i(1) by (auto simp: tail_ok_def split: option.splits)
  qed
  moreover have "in_order ?l"
    unfolding in_order_def
  proof (intro allI impI)
    fix j k
    assume j: "j < length ?l" "phase_at ?l j \<noteq> Waiting" and k: "k < j" "sid_at ?l k = sid_at ?l j"
    have "phase_at ls j \<noteq> Waiting \<or> pred_settled ls j"
      using j(2) i(1) go by (cases "j = i") (auto simp: phase_set_link_phase)
    then have "phase_at ls k = Settled"
      using earlier_settled [OF q, of j k] j(1) k i(1) by simp
    then show "phase_at ?l k = Settled" by (rule mono)
  qed
  ultimately show ?thesis by (simp add: queue_ok_def)
qed

lemma later_waiting:
  "queue_ok ls sl \<Longrightarrow> i < j \<Longrightarrow> j < length ls \<Longrightarrow> sid_at ls i = sid_at ls j \<Longrightarrow> phase_at ls i \<noteq> Settled \<Longrightarrow>
   phase_at ls j = Waiting"
  unfolding queue_ok_def in_order_def by metis

text \<open>While a link works, no other link of its session does.\<close>

lemma alone:
  assumes "queue_ok ls sl" "i < length ls" "j < length ls" "sid_at ls j = sid_at ls i" "j \<noteq> i"
    and "phase_at ls i \<noteq> Settled" "phase_at ls i \<noteq> Waiting \<or> pred_settled ls i"
  shows "phase_at ls j = Settled \<or> phase_at ls j = Waiting"
proof (cases "j < i")
  case True
  then show ?thesis using earlier_settled [OF assms(1,2,7)] assms(4) by simp
next
  case False
  then show ?thesis using later_waiting [OF assms(1), of i j] assms by simp
qed

lemma at_withSlot:
  "j < length (rg_links r) \<Longrightarrow> sid_at (rg_links (withSlot t r)) j = sid_at (rg_links r) j"
  "j < length (rg_links r) \<Longrightarrow> phase_at (rg_links (withSlot t r)) j = phase_at (rg_links r) j"
  "j < length (rg_links r) \<Longrightarrow> rg_links (withSlot t r) ! j = rg_links r ! j"
  "sid_at (rg_links (withSlot t r)) (length (rg_links r)) = task_sid t"
  "phase_at (rg_links (withSlot t r)) (length (rg_links r)) = Waiting"
  "lk_task (rg_links (withSlot t r) ! length (rg_links r)) = t"
  "lk_pred (rg_links (withSlot t r) ! length (rg_links r)) = jm_get (rg_slots r) (task_sid t)"
  "length (rg_links (withSlot t r)) = Suc (length (rg_links r))"
  "jm_get (rg_slots (withSlot t r)) s = (if s = task_sid t then Some (length (rg_links r)) else jm_get (rg_slots r) s)"
  by (simp_all add: sid_at_def phase_at_def withSlot_def nth_append)

lemma queue_withSlot:
  assumes "queue_ok (rg_links r) (rg_slots r)"
  shows "queue_ok (rg_links (withSlot t r)) (rg_slots (withSlot t r))"
proof -
  let ?n = "length (rg_links r)" and ?l = "rg_links (withSlot t r)"
  have "pred_ok ?l j" if "j < Suc ?n" for j
  proof (cases "j = ?n")
    case True
    have "tail_ok (rg_links r) (rg_slots r) (task_sid t)" using assms by (simp add: queue_ok_def)
    then show ?thesis using True
      by (auto simp: pred_ok_def tail_ok_def at_withSlot split: option.splits)
  next
    case False
    then have j: "j < ?n" using that by simp
    then have "pred_ok (rg_links r) j" using assms by (simp add: queue_ok_def)
    then show ?thesis using j by (auto simp: pred_ok_def at_withSlot split: option.splits)
  qed
  moreover have "tail_ok ?l (rg_slots (withSlot t r)) s" for s
  proof -
    have "tail_ok (rg_links r) (rg_slots r) s" using assms by (simp add: queue_ok_def)
    then show ?thesis
      by (auto simp: tail_ok_def at_withSlot less_Suc_eq split: option.splits)
  qed
  moreover have "in_order ?l"
    using assms by (auto simp: queue_ok_def in_order_def at_withSlot less_Suc_eq)
  ultimately show ?thesis by (simp add: queue_ok_def at_withSlot)
qed

lemma queue_drain:
  assumes "queue_ok ls sl" "i < length ls" "phase_at ls i = Settled" "jm_get sl (sid_at ls i) = Some i"
  shows "queue_ok ls (jm_delete sl (sid_at ls i))"
proof -
  have "tail_ok ls sl (sid_at ls i)" using assms(1) by (simp add: queue_ok_def)
  then have last: "\<forall>j < length ls. sid_at ls j = sid_at ls i \<longrightarrow> j \<le> i" by (simp add: tail_ok_def assms(4))
  have "phase_at ls j = Settled" if j: "j < length ls" "sid_at ls j = sid_at ls i" for j
  proof (cases "j = i")
    case False
    then have "j < i" using last j by (simp add: le_neq_implies_less)
    then show ?thesis using earlier_settled [OF assms(1,2)] assms(3) j by simp
  qed (use assms in simp)
  then have "tail_ok ls (jm_delete sl (sid_at ls i)) s" for s
    using assms(1) by (cases "s = sid_at ls i") (auto simp: tail_ok_def queue_ok_def)
  then show ?thesis using assms(1) by (simp add: queue_ok_def)
qed

section \<open>Handles\<close>

definition attached_of :: "registry \<Rightarrow> string \<Rightarrow> nat option" where
  "attached_of r s = jm_get (rg_attached r) s"

text \<open>What a link may rely on in each phase.\<close>

definition phase_fits :: "registry \<Rightarrow> string \<Rightarrow> link_phase \<Rightarrow> bool" where
  "phase_fits r s p \<longleftrightarrow> (case p of
       Resolving \<Rightarrow> attached_of r s = None
     | Calling f \<Rightarrow> f = s \<and> attached_of r s = None
     | Opened h \<Rightarrow> (h, s) \<in> set (rg_open r) \<and> attached_of r s = None
     | Borrowing h \<Rightarrow> attached_of r s = Some h
     | Disposing h \<Rightarrow> attached_of r s = Some h
     | _ \<Rightarrow> True)"

text \<open>Every open handle has one owner: the attached map, or the link that opened it.\<close>

definition handles_owned :: "registry \<Rightarrow> bool" where
  "handles_owned r \<longleftrightarrow> distinct (map fst (rg_open r)) \<and> (\<forall>(h, s) \<in> set (rg_open r). h < rg_next r) \<and>
     (\<forall>s h. attached_of r s = Some h \<longrightarrow> (h, s) \<in> set (rg_open r)) \<and>
     (\<forall>s h. (h, s) \<in> set (rg_open r) \<longrightarrow> attached_of r s = Some h \<or>
        (\<exists>i < length (rg_links r). sid_at (rg_links r) i = s \<and> phase_at (rg_links r) i = Opened h))"

definition links_fit :: "nat \<Rightarrow> registry \<Rightarrow> bool" where
  "links_fit n r \<longleftrightarrow>
     (\<forall>i < length (rg_links r). length (sid_at (rg_links r) i) = n \<and>
        phase_fits r (sid_at (rg_links r) i) (phase_at (rg_links r) i) \<and>
        (is_create (lk_task (rg_links r ! i)) \<longrightarrow> (\<forall>k < i. sid_at (rg_links r) k \<noteq> sid_at (rg_links r) i))) \<and>
     (\<forall>s. attached_of r s \<noteq> None \<longrightarrow>
        (\<exists>i < length (rg_links r). sid_at (rg_links r) i = s \<and> phase_at (rg_links r) i \<noteq> Waiting)) \<and>
     (\<forall>f \<in> set (case rg_cache r of None \<Rightarrow> [] | Some l \<Rightarrow> l). length f = n)"

definition registry_inv :: "nat \<Rightarrow> registry \<Rightarrow> bool" where
  "registry_inv n r \<longleftrightarrow> queue_ok (rg_links r) (rg_slots r) \<and> handles_owned r \<and> links_fit n r \<and> (\<forall>c \<in> set (rg_calls r). \<not> snd c)"

lemma registry_inv_new: "registry_inv n (new_registry files)"
  by (simp add: registry_inv_def new_registry_def queue_ok_def tail_ok_def in_order_def handles_owned_def links_fit_def attached_of_def)

lemma resolve_full_name:
  "length s = n \<Longrightarrow> \<forall>f \<in> set l. length f = n \<Longrightarrow>
   resolveSessionByPrefix l s = (if s \<in> set l then Found s else NoSuch)"
  by (auto simp: resolveSessionByPrefix_def Let_def startsWith_def filter_empty_conv)

lemma open_full_name:
  assumes "openSession cache listed fresh s = (res, cache')" "length s = n"
    and "\<forall>f \<in> set (case cache of None \<Rightarrow> [] | Some l \<Rightarrow> l). length f = n" "\<forall>f \<in> set listed \<union> set fresh. length f = n"
  shows "res = Opens f \<Longrightarrow> f = s" "\<forall>f \<in> set (case cache' of None \<Rightarrow> [] | Some l \<Rightarrow> l). length f = n"
  using assms by (auto simp: openSession_def listSessions_def resolve_full_name [OF assms(2)] split: option.splits if_splits prod.splits)

lemma open_handle_attached:
  assumes inv: "registry_inv n r" and i: "i < length (rg_links r)" "phase_at (rg_links r) i \<noteq> Settled"
    "phase_at (rg_links r) i \<noteq> Waiting \<or> pred_settled (rg_links r) i"
    and h: "(h, sid_at (rg_links r) i) \<in> set (rg_open r)"
  shows "attached_of r (sid_at (rg_links r) i) = Some h \<or> phase_at (rg_links r) i = Opened h"
proof (rule ccontr)
  assume no: "\<not> ?thesis"
  have q: "queue_ok (rg_links r) (rg_slots r)" using inv by (simp add: registry_inv_def)
  obtain k where k: "k < length (rg_links r)" "sid_at (rg_links r) k = sid_at (rg_links r) i" "phase_at (rg_links r) k = Opened h"
    using inv h no unfolding registry_inv_def handles_owned_def by blast
  then have "k \<noteq> i" using no by auto
  then show False using alone [OF q i(1) k(1,2) _ i(2,3)] k(3) by auto
qed

text \<open>One link moves, and only its own session's handles change.\<close>

lemma registry_inv_move:
  assumes inv: "registry_inv n r"
    and i: "i < length (rg_links r)" "phase_at (rg_links r) i \<noteq> Settled"
    and go: "phase_at (rg_links r) i \<noteq> Waiting \<or> pred_settled (rg_links r) i"
    and links: "rg_links r' = set_link_phase i p (rg_links r)" "rg_slots r' = rg_slots r" and p: "p \<noteq> Waiting"
    and cache: "\<forall>f \<in> set (case rg_cache r' of None \<Rightarrow> [] | Some l \<Rightarrow> l). length f = n"
    and calls: "\<forall>c \<in> set (rg_calls r'). \<not> snd c"
    and fresh: "distinct (map fst (rg_open r'))" "\<forall>(h, s) \<in> set (rg_open r'). h < rg_next r'"
    and other: "\<And>s. s \<noteq> sid_at (rg_links r) i \<Longrightarrow> attached_of r' s = attached_of r s"
      "\<And>s h. s \<noteq> sid_at (rg_links r) i \<Longrightarrow> (h, s) \<in> set (rg_open r') \<longleftrightarrow> (h, s) \<in> set (rg_open r)"
    and own: "phase_fits r' (sid_at (rg_links r) i) p"
      "\<And>h. attached_of r' (sid_at (rg_links r) i) = Some h \<Longrightarrow> (h, sid_at (rg_links r) i) \<in> set (rg_open r')"
      "\<And>h. (h, sid_at (rg_links r) i) \<in> set (rg_open r') \<Longrightarrow> attached_of r' (sid_at (rg_links r) i) = Some h \<or> p = Opened h"
  shows "registry_inv n r'"
proof -
  let ?s = "sid_at (rg_links r) i"
  have q: "queue_ok (rg_links r) (rg_slots r)" and ho: "handles_owned r" and lf: "links_fit n r"
    using inv by (simp_all add: registry_inv_def)
  have sid: "sid_at (rg_links r') j = sid_at (rg_links r) j" for j using i(1) links(1) by simp
  have ph: "phase_at (rg_links r') j = (if j = i then p else phase_at (rg_links r) j)" for j
    using i(1) links(1) by (simp add: phase_set_link_phase)
  have len: "length (rg_links r') = length (rg_links r)" using links(1) by simp
  have "queue_ok (rg_links r') (rg_slots r')" using queue_move [OF q i go] links by simp
  moreover have "handles_owned r'"
  proof -
    have "(h, s) \<in> set (rg_open r')" if "attached_of r' s = Some h" for s h
      using ho other own(2) that by (cases "s = ?s") (auto simp: handles_owned_def)
    moreover have "attached_of r' s = Some h \<or> (\<exists>k < length (rg_links r'). sid_at (rg_links r') k = s \<and> phase_at (rg_links r') k = Opened h)"
      if "(h, s) \<in> set (rg_open r')" for s h
    proof (cases "s = ?s")
      case True
      then show ?thesis using own(3) that i(1) sid ph len by (metis (full_types))
    next
      case False
      then have "attached_of r s = Some h \<or> (\<exists>k < length (rg_links r). sid_at (rg_links r) k = s \<and> phase_at (rg_links r) k = Opened h)"
        using ho other(2) that unfolding handles_owned_def by blast
      then show ?thesis using False other(1) sid ph len by metis
    qed
    ultimately show ?thesis using fresh by (simp add: handles_owned_def)
  qed
  moreover have "links_fit n r'"
  proof -
    have "phase_fits r' (sid_at (rg_links r) j) (phase_at (rg_links r') j)" if j: "j < length (rg_links r)" for j
    proof (cases "j = i")
      case False
      show ?thesis
      proof (cases "sid_at (rg_links r) j = ?s")
        case True
        then show ?thesis using alone [OF q i(1) j True False i(2) go] ph False by (auto simp: phase_fits_def)
      next
        case other_sid: False
        have "phase_fits r (sid_at (rg_links r) j) (phase_at (rg_links r) j)" using lf j by (simp add: links_fit_def)
        then show ?thesis using other [OF other_sid] ph False by (simp add: phase_fits_def split: link_phase.splits)
      qed
    qed (use own(1) ph in simp)
    moreover have "\<exists>k < length (rg_links r'). sid_at (rg_links r') k = s \<and> phase_at (rg_links r') k \<noteq> Waiting"
      if "attached_of r' s \<noteq> None" for s
    proof (cases "s = ?s")
      case True
      then show ?thesis using i(1) p sid ph len by (metis (full_types))
    next
      case False
      then have "attached_of r s \<noteq> None" using other(1) that by simp
      then obtain k where "k < length (rg_links r)" "sid_at (rg_links r) k = s" "phase_at (rg_links r) k \<noteq> Waiting"
        using lf unfolding links_fit_def by blast
      then show ?thesis using False by (intro exI [of _ k]) (auto simp: sid ph len)
    qed
    ultimately show ?thesis using lf cache i(1) links(1) by (simp add: links_fit_def)
  qed
  ultimately show ?thesis using calls by (simp add: registry_inv_def)
qed

lemma registry_inv_parts:
  assumes "registry_inv n r"
  shows "queue_ok (rg_links r) (rg_slots r)" "distinct (map fst (rg_open r))"
    "(h, s) \<in> set (rg_open r) \<Longrightarrow> h < rg_next r"
    "attached_of r s = Some h \<Longrightarrow> (h, s) \<in> set (rg_open r)"
    "i < length (rg_links r) \<Longrightarrow> length (sid_at (rg_links r) i) = n"
    "i < length (rg_links r) \<Longrightarrow> phase_at (rg_links r) i = p \<Longrightarrow> phase_fits r (sid_at (rg_links r) i) p"
    "\<forall>f \<in> set (case rg_cache r of None \<Rightarrow> [] | Some l \<Rightarrow> l). length f = n"
    "\<forall>c \<in> set (rg_calls r). \<not> snd c"
  using assms by (auto simp: registry_inv_def handles_owned_def links_fit_def)

lemma move_fields [simp]:
  "rg_links (move i p r) = set_link_phase i p (rg_links r)" "rg_slots (move i p r) = rg_slots r"
  "rg_attached (move i p r) = rg_attached r" "rg_cache (move i p r) = rg_cache r" "rg_open (move i p r) = rg_open r"
  "rg_files (move i p r) = rg_files r" "rg_next (move i p r) = rg_next r" "rg_calls (move i p r) = rg_calls r"
  "rg_reads (move i p r) = rg_reads r"
  by (simp_all add: move_def)

lemma attached_of_move [simp]: "attached_of (move i p r) s = attached_of r s"
  by (simp add: attached_of_def)

lemma registry_inv_reads [simp]: "registry_inv n (r\<lparr>rg_reads := x\<rparr>) = registry_inv n r"
  by (simp add: registry_inv_def handles_owned_def links_fit_def attached_of_def phase_fits_def cong: link_phase.case_cong)

lemma registry_inv_request:
  assumes inv: "registry_inv n r" and full: "full_names n r (Request t)"
  shows "registry_inv n (request t r)"
proof (cases "attached_now r t = None")
  case True
  let ?r = "withSlot t r"
  have same: "rg_attached ?r = rg_attached r" "rg_open ?r = rg_open r" "rg_next ?r = rg_next r" "rg_cache ?r = rg_cache r" "rg_calls ?r = rg_calls r"
    by (simp_all add: withSlot_def)
  have att: "attached_of ?r s = attached_of r s" for s by (simp add: attached_of_def same)
  have fits: "phase_fits ?r s p = phase_fits r s p" for s p
    by (simp add: phase_fits_def att same split: link_phase.splits)
  have "queue_ok (rg_links ?r) (rg_slots ?r)" using queue_withSlot registry_inv_parts(1) [OF inv] by blast
  moreover have "handles_owned ?r"
    unfolding handles_owned_def same att
  proof (intro conjI)
    show "\<forall>s h. (h, s) \<in> set (rg_open r) \<longrightarrow> attached_of r s = Some h \<or>
       (\<exists>i < length (rg_links ?r). sid_at (rg_links ?r) i = s \<and> phase_at (rg_links ?r) i = Opened h)"
      using inv unfolding registry_inv_def handles_owned_def by (metis at_withSlot(1,2,8) less_SucI)
  qed (use inv in \<open>auto simp: registry_inv_def handles_owned_def\<close>)
  moreover have "links_fit n ?r"
    unfolding links_fit_def same att fits
  proof (intro conjI)
    show "\<forall>i < length (rg_links ?r). length (sid_at (rg_links ?r) i) = n \<and>
       phase_fits r (sid_at (rg_links ?r) i) (phase_at (rg_links ?r) i) \<and>
       (is_create (lk_task (rg_links ?r ! i)) \<longrightarrow> (\<forall>k < i. sid_at (rg_links ?r) k \<noteq> sid_at (rg_links ?r) i))"
    proof (intro allI impI)
      fix i
      assume "i < length (rg_links ?r)"
      then consider "i < length (rg_links r)" | "i = length (rg_links r)" by (auto simp: at_withSlot less_Suc_eq)
      then show "length (sid_at (rg_links ?r) i) = n \<and> phase_fits r (sid_at (rg_links ?r) i) (phase_at (rg_links ?r) i) \<and>
        (is_create (lk_task (rg_links ?r ! i)) \<longrightarrow> (\<forall>k < i. sid_at (rg_links ?r) k \<noteq> sid_at (rg_links ?r) i))"
      proof cases
        case 1
        then show ?thesis using inv by (auto simp: registry_inv_def links_fit_def at_withSlot)
      next
        case 2
        have "sid_at (rg_links r) k \<noteq> task_sid t" if "is_create t" "k < length (rg_links r)" for k
        proof -
          have "sid_at (rg_links r) k \<in> (task_sid \<circ> lk_task) ` set (rg_links r)"
            using nth_mem [OF that(2)] by (metis comp_apply imageI sid_at_def)
          then show ?thesis using full that(1) by (auto simp: full_names_def)
        qed
        then show ?thesis using full 2 by (simp add: full_names_def at_withSlot phase_fits_def)
      qed
    qed
    show "\<forall>s. attached_of r s \<noteq> None \<longrightarrow> (\<exists>i < length (rg_links ?r). sid_at (rg_links ?r) i = s \<and> phase_at (rg_links ?r) i \<noteq> Waiting)"
      using inv unfolding registry_inv_def links_fit_def by (metis at_withSlot(1,2,8) less_SucI)
  qed (use inv in \<open>auto simp: registry_inv_def links_fit_def\<close>)
  ultimately show ?thesis using True registry_inv_parts(8) [OF inv] by (simp add: request_def registry_inv_def same)
next
  case False
  then show ?thesis using inv by (auto simp: request_def split: session_task.splits)
qed

text \<open>A creation is the first link of its session, so nothing is attached when it starts.\<close>

lemma create_starts_detached:
  assumes inv: "registry_inv n r" and i: "i < length (rg_links r)" "phase_at (rg_links r) i = Waiting"
    and c: "is_create (lk_task (rg_links r ! i))"
  shows "attached_of r (sid_at (rg_links r) i) = None"
proof (rule ccontr)
  assume "\<not> ?thesis"
  then obtain k where k: "k < length (rg_links r)" "sid_at (rg_links r) k = sid_at (rg_links r) i" "phase_at (rg_links r) k \<noteq> Waiting"
    using inv unfolding registry_inv_def links_fit_def by blast
  have "\<not> k < i" using inv i(1) c k(2) unfolding registry_inv_def links_fit_def by blast
  moreover have "k \<noteq> i" using k(3) i(2) by auto
  ultimately have "i < k" by simp
  then show False using later_waiting [OF registry_inv_parts(1) [OF inv], of i k] k i(2) by simp
qed

lemma registry_inv_start:
  assumes inv: "registry_inv n r" and i: "i < length (rg_links r)" "phase_at (rg_links r) i = Waiting" "pred_settled (rg_links r) i"
  shows "registry_inv n (move i (first_phase r (lk_task (rg_links r ! i))) r)"
proof (rule registry_inv_move [OF inv i(1), where p = "first_phase r (lk_task (rg_links r ! i))"])
  let ?t = "lk_task (rg_links r ! i)"
  have t: "task_sid ?t = sid_at (rg_links r) i" by (simp add: sid_at_def)
  show "first_phase r ?t \<noteq> Waiting"
    by (cases ?t) (auto simp: first_phase_def Let_def split: option.splits)
  show "phase_fits (move i (first_phase r ?t) r) (sid_at (rg_links r) i) (first_phase r ?t)"
    using create_starts_detached [OF inv i(1,2)] t
    by (cases ?t) (auto simp: first_phase_def phase_fits_def Let_def attached_of_def split: option.splits)
  show "attached_of (move i (first_phase r ?t) r) (sid_at (rg_links r) i) = Some h \<or> first_phase r ?t = Opened h"
    if "(h, sid_at (rg_links r) i) \<in> set (rg_open (move i (first_phase r ?t) r))" for h
    using open_handle_attached [OF inv i(1), of h] i that by simp
qed (use i registry_inv_parts [OF inv] in \<open>auto\<close>)

lemma registry_inv_resolve:
  assumes inv: "registry_inv n r" and i: "i < length (rg_links r)" "phase_at (rg_links r) i = Resolving"
    and full: "full_names n r (Resolve i listed fresh)"
    and res: "openSession (rg_cache r) listed fresh (sid_at (rg_links r) i) = (res, cache)"
    and p: "p = (case res of Opens f \<Rightarrow> Calling f | _ \<Rightarrow> Settled)"
  shows "registry_inv n (move i p (r\<lparr>rg_cache := cache\<rparr>))"
proof (rule registry_inv_move [OF inv i(1), where p = p])
  note full_len = registry_inv_parts(5) [OF inv i(1)] registry_inv_parts(7) [OF inv]
  have fit: "attached_of r (sid_at (rg_links r) i) = None"
    using registry_inv_parts(6) [OF inv i] by (simp add: phase_fits_def)
  have lens: "\<forall>f \<in> set listed \<union> set fresh. length f = n" using full by (simp add: full_names_def)
  have f: "f = sid_at (rg_links r) i" if "res = Opens f" for f
    using open_full_name(1) [OF res full_len lens that] .
  show "\<forall>f \<in> set (case rg_cache (move i p (r\<lparr>rg_cache := cache\<rparr>)) of None \<Rightarrow> [] | Some l \<Rightarrow> l). length f = n"
    using open_full_name(2) [OF res full_len lens] by simp
  show "phase_fits (move i p (r\<lparr>rg_cache := cache\<rparr>)) (sid_at (rg_links r) i) p"
    using p f fit by (cases res) (auto simp: phase_fits_def attached_of_def)
  show "p \<noteq> Waiting" using p by (cases res) auto
  show "attached_of (move i p (r\<lparr>rg_cache := cache\<rparr>)) (sid_at (rg_links r) i) = Some h \<or> p = Opened h"
    if "(h, sid_at (rg_links r) i) \<in> set (rg_open (move i p (r\<lparr>rg_cache := cache\<rparr>)))" for h
    using open_handle_attached [OF inv i(1), of h] i that by (simp add: attached_of_def)
qed (use i registry_inv_parts [OF inv] in \<open>auto simp: attached_of_def\<close>)

lemma calling_closed:
  assumes inv: "registry_inv n r" and i: "i < length (rg_links r)" "phase_at (rg_links r) i = Calling f"
  shows "f = sid_at (rg_links r) i" "attached_of r f = None" "\<not> file_open r f"
proof -
  show f: "f = sid_at (rg_links r) i" and a: "attached_of r f = None"
    using registry_inv_parts(6) [OF inv i] by (auto simp: phase_fits_def)
  show "\<not> file_open r f"
    using open_handle_attached [OF inv i(1)] i(2) f a by (auto simp: file_open_def)
qed

lemma log_call_fields [simp]:
  "rg_links (log_call t f r) = rg_links r" "rg_slots (log_call t f r) = rg_slots r" "rg_attached (log_call t f r) = rg_attached r"
  "rg_cache (log_call t f r) = rg_cache r" "rg_open (log_call t f r) = rg_open r" "rg_next (log_call t f r) = rg_next r"
  "rg_calls (log_call t f r) = rg_calls r @ [(task_call t f, file_open r f)]" "rg_files (log_call t f r) = rg_files r"
  "rg_reads (log_call t f r) = rg_reads r"
  by (simp_all add: log_call_def)

lemma grant_fields [simp]:
  "rg_links (grant i t f r) = set_link_phase i (if is_delete t then Settled else Opened (rg_next r)) (rg_links r)"
  "rg_slots (grant i t f r) = rg_slots r" "rg_attached (grant i t f r) = rg_attached r" "rg_cache (grant i t f r) = rg_cache r"
  "rg_open (grant i t f r) = (if is_delete t then rg_open r else (rg_next r, f) # rg_open r)"
  "rg_next (grant i t f r) = (if is_delete t then rg_next r else Suc (rg_next r))"
  "rg_calls (grant i t f r) = rg_calls r" "rg_reads (grant i t f r) = rg_reads r"
  by (simp_all add: grant_def)

lemma registry_inv_granted:
  assumes inv: "registry_inv n r" and i: "i < length (rg_links r)" "phase_at (rg_links r) i = Calling f"
  shows "registry_inv n (grant i (lk_task (rg_links r ! i)) f (log_call (lk_task (rg_links r ! i)) f r))"
proof (rule registry_inv_move [OF inv i(1), where p = "if is_delete (lk_task (rg_links r ! i)) then Settled else Opened (rg_next r)"])
  let ?t = "lk_task (rg_links r ! i)"
  let ?r = "grant i ?t f (log_call ?t f r)"
  note parts = registry_inv_parts [OF inv] and f = calling_closed [OF inv i]
  show "distinct (map fst (rg_open ?r))" using parts(2,3) by force
  show "\<forall>(h, s) \<in> set (rg_open ?r). h < rg_next ?r" using parts(3) by (force simp: less_Suc_eq)
  show "phase_fits ?r (sid_at (rg_links r) i) (if is_delete ?t then Settled else Opened (rg_next r))"
    using f by (simp add: phase_fits_def attached_of_def)
  show "attached_of ?r (sid_at (rg_links r) i) = Some h \<or> (if is_delete ?t then Settled else Opened (rg_next r)) = Opened h"
    if "(h, sid_at (rg_links r) i) \<in> set (rg_open ?r)" for h
    using that f by (force simp: file_open_def image_iff split: if_splits)
  show "\<forall>c \<in> set (rg_calls ?r). \<not> snd c" using parts(8) f(3) by auto
qed (use i calling_closed [OF inv i] registry_inv_parts [OF inv] in \<open>auto simp: attached_of_def split: if_splits\<close>)

lemma registry_inv_failed:
  assumes inv: "registry_inv n r" and i: "i < length (rg_links r)" "phase_at (rg_links r) i = Calling f"
  shows "registry_inv n (move i Settled (log_call t f r))"
proof (rule registry_inv_move [OF inv i(1), where p = Settled])
  note f = calling_closed [OF inv i]
  show "attached_of (move i Settled (log_call t f r)) (sid_at (rg_links r) i) = Some h \<or> Settled = Opened h"
    if "(h, sid_at (rg_links r) i) \<in> set (rg_open (move i Settled (log_call t f r)))" for h
    using that f by (force simp: file_open_def image_iff)
  show "\<forall>c \<in> set (rg_calls (move i Settled (log_call t f r))). \<not> snd c" using registry_inv_parts(8) [OF inv] f(3) by auto
qed (use i registry_inv_parts [OF inv] in \<open>auto simp: attached_of_def phase_fits_def\<close>)

lemma close_handle_fields [simp]:
  "rg_links (close_handle h r) = rg_links r" "rg_slots (close_handle h r) = rg_slots r" "rg_attached (close_handle h r) = rg_attached r"
  "rg_cache (close_handle h r) = rg_cache r" "rg_next (close_handle h r) = rg_next r" "rg_calls (close_handle h r) = rg_calls r"
  "rg_files (close_handle h r) = rg_files r" "rg_reads (close_handle h r) = rg_reads r" "rg_open (close_handle h r) = filter (\<lambda>e. fst e \<noteq> h) (rg_open r)"
  by (simp_all add: close_handle_def)

lemma handle_of_one_file:
  "distinct (map fst xs) \<Longrightarrow> (h, s) \<in> set xs \<Longrightarrow> (h, s') \<in> set xs \<Longrightarrow> s' = s"
  by (metis eq_key_imp_eq_value)

text \<open>Closing the handle of a link's own session.\<close>

lemma closed_elsewhere:
  assumes "registry_inv n r" "(h, s) \<in> set (rg_open r)"
  shows "s' \<noteq> s \<Longrightarrow> (k, s') \<in> set (filter (\<lambda>e. fst e \<noteq> h) (rg_open r)) \<longleftrightarrow> (k, s') \<in> set (rg_open r)"
  using handle_of_one_file [OF registry_inv_parts(2) [OF assms(1)] assms(2)] by auto

lemma registry_inv_closed:
  assumes inv: "registry_inv n r" and i: "i < length (rg_links r)" "phase_at (rg_links r) i = Opened h"
  shows "registry_inv n (move i Settled (close_handle h r))"
proof (rule registry_inv_move [OF inv i(1), where p = Settled])
  note parts = registry_inv_parts [OF inv]
  have own: "(h, sid_at (rg_links r) i) \<in> set (rg_open r)" "attached_of r (sid_at (rg_links r) i) = None"
    using parts(6) [OF i] by (simp_all add: phase_fits_def)
  show "attached_of (move i Settled (close_handle h r)) (sid_at (rg_links r) i) = Some k \<or> Settled = Opened k"
    if "(k, sid_at (rg_links r) i) \<in> set (rg_open (move i Settled (close_handle h r)))" for k
    using open_handle_attached [OF inv i(1), of k] i(2) own that by auto
  show "(k, sid_at (rg_links r) i) \<in> set (rg_open (move i Settled (close_handle h r)))"
    if "attached_of (move i Settled (close_handle h r)) (sid_at (rg_links r) i) = Some k" for k
    using that own by (simp add: attached_of_def)
  show "(k, s) \<in> set (rg_open (move i Settled (close_handle h r))) \<longleftrightarrow> (k, s) \<in> set (rg_open r)"
    if "s \<noteq> sid_at (rg_links r) i" for s k
    using closed_elsewhere [OF inv own(1) that] by simp
qed (use i registry_inv_parts [OF inv] in \<open>auto simp: attached_of_def phase_fits_def distinct_map_filter\<close>)

lemma registry_inv_attach:
  assumes inv: "registry_inv n r" and i: "i < length (rg_links r)" "phase_at (rg_links r) i = Opened h"
  shows "registry_inv n (move i Settled (r\<lparr>rg_attached := jm_set (rg_attached r) (sid_at (rg_links r) i) h\<rparr>))"
proof (rule registry_inv_move [OF inv i(1), where p = Settled])
  let ?r = "move i Settled (r\<lparr>rg_attached := jm_set (rg_attached r) (sid_at (rg_links r) i) h\<rparr>)"
  note parts = registry_inv_parts [OF inv]
  have own: "(h, sid_at (rg_links r) i) \<in> set (rg_open r)" "attached_of r (sid_at (rg_links r) i) = None"
    using parts(6) [OF i] by (simp_all add: phase_fits_def)
  show "attached_of ?r (sid_at (rg_links r) i) = Some k \<or> Settled = Opened k"
    if "(k, sid_at (rg_links r) i) \<in> set (rg_open ?r)" for k
    using open_handle_attached [OF inv i(1), of k] i(2) own that by (simp add: attached_of_def)
  show "(k, sid_at (rg_links r) i) \<in> set (rg_open ?r)" if "attached_of ?r (sid_at (rg_links r) i) = Some k" for k
    using that own by (simp add: attached_of_def)
qed (use i registry_inv_parts [OF inv] in \<open>auto simp: attached_of_def phase_fits_def\<close>)

lemma registry_inv_borrowed:
  assumes inv: "registry_inv n r" and i: "i < length (rg_links r)" "phase_at (rg_links r) i = Borrowing h"
  shows "registry_inv n (move i Settled r)"
proof (rule registry_inv_move [OF inv i(1), where p = Settled])
  show "attached_of (move i Settled r) (sid_at (rg_links r) i) = Some k \<or> Settled = Opened k"
    if "(k, sid_at (rg_links r) i) \<in> set (rg_open (move i Settled r))" for k
    using open_handle_attached [OF inv i(1), of k] i(2) that by simp
qed (use i registry_inv_parts [OF inv] in \<open>auto simp: phase_fits_def\<close>)

lemma registry_inv_disposed:
  assumes inv: "registry_inv n r" and i: "i < length (rg_links r)" "phase_at (rg_links r) i = Disposing h"
    and p: "p = Resolving \<or> p = Settled"
  shows "registry_inv n (move i p ((close_handle h r)\<lparr>rg_attached := jm_delete (rg_attached r) (sid_at (rg_links r) i)\<rparr>))"
proof (rule registry_inv_move [OF inv i(1), where p = p])
  let ?s = "sid_at (rg_links r) i"
  let ?r = "move i p ((close_handle h r)\<lparr>rg_attached := jm_delete (rg_attached r) ?s\<rparr>)"
  have own: "attached_of r ?s = Some h" using registry_inv_parts(6) [OF inv i] by (simp add: phase_fits_def)
  then have open_h: "(h, ?s) \<in> set (rg_open r)" by (rule registry_inv_parts(4) [OF inv])
  show "attached_of ?r ?s = Some k \<or> p = Opened k" if "(k, ?s) \<in> set (rg_open ?r)" for k
    using open_handle_attached [OF inv i(1), of k] i(2) own that by auto
  show "(k, s) \<in> set (rg_open ?r) \<longleftrightarrow> (k, s) \<in> set (rg_open r)" if "s \<noteq> ?s" for s k
    using closed_elsewhere [OF inv open_h that] by simp
  show "p \<noteq> Waiting" using p by auto
  show "phase_fits ?r ?s p" using p by (auto simp: phase_fits_def attached_of_def)
qed (use i registry_inv_parts [OF inv] in \<open>auto simp: attached_of_def distinct_map_filter\<close>)

lemma registry_inv_drain:
  assumes inv: "registry_inv n r" and q: "queue_ok (rg_links r) sl"
  shows "registry_inv n (r\<lparr>rg_slots := sl\<rparr>)"
  using assms by (simp add: registry_inv_def handles_owned_def links_fit_def attached_of_def phase_fits_def cong: link_phase.case_cong)

lemma registry_inv_invalidate: "registry_inv n r \<Longrightarrow> registry_inv n (r\<lparr>rg_cache := None\<rparr>)"
  by (simp add: registry_inv_def handles_owned_def links_fit_def attached_of_def phase_fits_def cong: link_phase.case_cong)

lemma registry_inv_step:
  assumes step: "registry_step r e = Some r'" and full: "full_names n r e" and inv: "registry_inv n r"
  shows "registry_inv n r'"
proof (cases e)
  case (Resolve i listed fresh)
  obtain res cache where o: "openSession (rg_cache r) listed fresh (sid_at (rg_links r) i) = (res, cache)" by force
  then show ?thesis
    using step full registry_inv_resolve [OF inv, of i listed fresh res cache "case res of Opens f \<Rightarrow> Calling f | _ \<Rightarrow> Settled"] Resolve
    by (auto split: if_splits open_result.splits)
next
  case (Request t)
  then show ?thesis using step full registry_inv_request [OF inv] by auto
next
  case (Start i)
  then show ?thesis using step registry_inv_start [OF inv] by (auto split: if_splits)
next
  case (Granted i)
  then show ?thesis using step registry_inv_granted [OF inv] by (auto simp: Let_def split: if_splits link_phase.splits)
next
  case (Failed i)
  then show ?thesis using step registry_inv_failed [OF inv] by (auto split: if_splits link_phase.splits)
next
  case (Worked i ok)
  then show ?thesis using step registry_inv_closed [OF inv] registry_inv_attach [OF inv] registry_inv_borrowed [OF inv]
    by (auto split: if_splits link_phase.splits)
next
  case (Disposed i)
  then show ?thesis using step registry_inv_disposed [OF inv] by (auto split: if_splits link_phase.splits)
next
  case (CloseFailed i)
  then show ?thesis using full by (simp add: full_names_def)
next
  case (ReadDone k)
  then show ?thesis using step inv by (auto split: if_splits)
next
  case (Drain i)
  then show ?thesis using step registry_inv_drain [OF inv] queue_drain [OF registry_inv_parts(1) [OF inv]] by (auto split: if_splits)
next
  case Invalidate
  then show ?thesis using step registry_inv_invalidate [OF inv] by simp
qed

text \<open>A read outside of the slots uses the handle of its own session, open or closed by now, and never
  one of another file.\<close>

definition reads_fit :: "registry \<Rightarrow> bool" where
  "reads_fit r \<longleftrightarrow> (\<forall>(s, h) \<in> set (rg_reads r). h < rg_next r \<and> (\<forall>f. (h, f) \<in> set (rg_open r) \<longrightarrow> f = s))"

lemma request_reads:
  "rg_open (request t r) = rg_open r" "rg_next (request t r) = rg_next r"
  "x \<in> set (rg_reads (request t r)) \<Longrightarrow> x \<in> set (rg_reads r) \<or> attached_of r (fst x) = Some (snd x)"
  by (auto simp: request_def withSlot_def attached_now_def attached_of_def split: option.splits session_task.splits)

lemma step_open:
  assumes "registry_step r e = Some r'"
  shows "rg_next r \<le> rg_next r' \<and> (\<forall>h f. (h, f) \<in> set (rg_open r') \<longrightarrow> (h, f) \<in> set (rg_open r) \<or> rg_next r \<le> h)"
  using assms by (cases e) (auto simp: Let_def request_reads(1,2) split: if_splits link_phase.splits prod.splits open_result.splits)

lemma step_reads:
  assumes "registry_step r e = Some r'" "x \<in> set (rg_reads r')"
  shows "x \<in> set (rg_reads r) \<or> attached_of r (fst x) = Some (snd x)"
proof (cases e)
  case (Request t)
  then have "r' = request t r" using assms(1) by simp
  then show ?thesis using request_reads(3) assms(2) by blast
next
  case (ReadDone k)
  then show ?thesis using assms by (auto split: if_splits dest: in_set_takeD in_set_dropD)
qed (use assms in \<open>auto simp: Let_def split: if_splits link_phase.splits prod.splits open_result.splits\<close>)

lemmas step_handles = step_open [THEN conjunct1] step_open [THEN conjunct2, rule_format] step_reads

lemma reads_fit_step:
  assumes "registry_step r e = Some r'" "registry_inv n r" "reads_fit r"
  shows "reads_fit r'"
  unfolding reads_fit_def
proof (intro ballI, clarify)
  fix s h assume x: "(s, h) \<in> set (rg_reads r')"
  note steps = step_handles [OF assms(1)]
  have own: "h < rg_next r \<and> (\<forall>f. (h, f) \<in> set (rg_open r) \<longrightarrow> f = s)"
  proof (cases "(s, h) \<in> set (rg_reads r)")
    case True
    then show ?thesis using assms(3) by (auto simp: reads_fit_def)
  next
    case False
    then have "(h, s) \<in> set (rg_open r)"
      using steps(3) [OF x] registry_inv_parts(4) [OF assms(2)] by simp
    then show ?thesis
      using registry_inv_parts(2,3) [OF assms(2)] by (auto dest: eq_key_imp_eq_value)
  qed
  then show "h < rg_next r' \<and> (\<forall>f. (h, f) \<in> set (rg_open r') \<longrightarrow> f = s)"
    using steps(1,2) by (metis leD le_trans less_le_trans)
qed

interpretation slots: transition_invariant "slots_step n" "new_registry files" "\<lambda>r. registry_inv n r \<and> reads_fit r"
proof
  show "registry_inv n (new_registry files) \<and> reads_fit (new_registry files)"
    by (simp add: registry_inv_new) (simp add: reads_fit_def new_registry_def)
  show "registry_inv n t \<and> reads_fit t" if "slots_step n s t" "registry_inv n s \<and> reads_fit s" for s t
    using that by (auto elim!: slots_stepE intro: registry_inv_step reads_fit_step)
qed

section \<open>What holds in every reachable state\<close>

lemma one_task_per_session:
  assumes "registry_inv n r" "i < length (rg_links r)" "j < length (rg_links r)" "i \<noteq> j"
    and "phase_at (rg_links r) i \<notin> {Waiting, Settled}" "phase_at (rg_links r) j \<notin> {Waiting, Settled}"
  shows "sid_at (rg_links r) i \<noteq> sid_at (rg_links r) j"
  using alone [OF registry_inv_parts(1) [OF assms(1)] assms(2,3)] assms(4-6) by auto

lemma open_files_distinct:
  assumes inv: "registry_inv n r"
  shows "distinct (map snd (rg_open r))"
proof -
  have "h = k" if h: "(h, s) \<in> set (rg_open r)" "(k, s) \<in> set (rg_open r)" for h k s
  proof -
    have owner: "attached_of r s = Some x \<or> (\<exists>i < length (rg_links r). sid_at (rg_links r) i = s \<and> phase_at (rg_links r) i = Opened x)"
      if "(x, s) \<in> set (rg_open r)" for x
      using inv that unfolding registry_inv_def handles_owned_def by blast
    show ?thesis
    proof (cases "attached_of r s")
      case (Some a)
      then have "phase_at (rg_links r) i \<noteq> Opened x" if "i < length (rg_links r)" "sid_at (rg_links r) i = s" for i x
        using registry_inv_parts(6) [OF inv that(1)] that(2) by (auto simp: phase_fits_def)
      then show ?thesis using owner [OF h(1)] owner [OF h(2)] by (metis option.inject)
    next
      case None
      then obtain i j where "i < length (rg_links r)" "sid_at (rg_links r) i = s" "phase_at (rg_links r) i = Opened h"
        "j < length (rg_links r)" "sid_at (rg_links r) j = s" "phase_at (rg_links r) j = Opened k"
        using owner [OF h(1)] owner [OF h(2)] by auto
      then show ?thesis using one_task_per_session [OF inv, of i j] by (cases "i = j") auto
    qed
  qed
  then show ?thesis
    using registry_inv_parts(2) [OF inv] by (auto simp: distinct_map inj_on_def)
qed

section \<open>Every queue drains\<close>

fun phase_work :: "link_phase \<Rightarrow> nat" where
  "phase_work Settled = 0"
| "phase_work (Borrowing h) = 1"
| "phase_work (Opened h) = 1"
| "phase_work (Calling f) = 2"
| "phase_work Resolving = 3"
| "phase_work (Disposing h) = 4"
| "phase_work Waiting = 5"

definition registry_work :: "registry \<Rightarrow> nat" where
  "registry_work r = (\<Sum>i < length (rg_links r). phase_work (phase_at (rg_links r) i)) + length (rg_slots r) +
     length (rg_reads r)"

lemma work_move:
  assumes "i < length (rg_links r)" "phase_work p < phase_work (phase_at (rg_links r) i)"
    "rg_links r' = set_link_phase i p (rg_links r)" "rg_slots r' = rg_slots r" "rg_reads r' = rg_reads r"
  shows "registry_work r' < registry_work r"
proof -
  have "(\<Sum>j < length (rg_links r). phase_work (phase_at (set_link_phase i p (rg_links r)) j)) <
      (\<Sum>j < length (rg_links r). phase_work (phase_at (rg_links r) j))"
    using assms(1,2) by (intro sum_strict_mono_ex1) (auto simp: phase_set_link_phase)
  then show ?thesis using assms by (simp add: registry_work_def)
qed

lemma first_unsettled_starts:
  assumes q: "queue_ok ls sl" and i: "i < length ls" "phase_at ls i = Waiting" "\<forall>k < i. phase_at ls k = Settled"
  shows "pred_settled ls i"
proof -
  have "pred_ok ls i" using q i(1) by (simp add: queue_ok_def)
  then show ?thesis using i(3) by (auto simp: pred_settled_def pred_ok_def split: option.splits)
qed

text \<open>The steps that need nothing from the repository: it lists no session, grants no call, and the work
  on a handle fails; closing goes well.\<close>

definition quiet_event :: "registry_event \<Rightarrow> bool" where
  "quiet_event e \<longleftrightarrow> (case e of
       Request t \<Rightarrow> False
     | Invalidate \<Rightarrow> False
     | Granted i \<Rightarrow> False
     | Worked i ok \<Rightarrow> \<not> ok
     | CloseFailed i \<Rightarrow> False
     | Resolve i listed fresh \<Rightarrow> listed = [] \<and> fresh = []
     | _ \<Rightarrow> True)"

lemma first_phase_work: "phase_work (first_phase r t) < phase_work Waiting"
  by (cases t) (auto simp: first_phase_def Let_def split: option.splits)

lemma drain_work:
  assumes "jm_get (rg_slots r) s = Some i"
  shows "registry_work (r\<lparr>rg_slots := jm_delete (rg_slots r) s\<rparr>) < registry_work r"
proof -
  have "(s, i) \<in> set (rg_slots r)" using assms by (simp add: jm_get_def map_of_SomeD)
  then have "length (jm_delete (rg_slots r) s) < length (rg_slots r)"
    by (auto simp: jm_delete_def intro: length_filter_less)
  then show ?thesis by (simp add: registry_work_def)
qed

text \<open>Every step that is not a request or an invalidation is work done.\<close>

lemma step_lowers_work:
  assumes "registry_step r e = Some r'" "\<forall>t. e \<noteq> Request t" "e \<noteq> Invalidate"
  shows "registry_work r' < registry_work r"
proof (cases e)
  case (Drain i)
  then show ?thesis using assms(1) drain_work [of r] by (auto split: if_splits)
next
  case (ReadDone k)
  then show ?thesis using assms(1) by (auto simp: registry_work_def split: if_splits)
qed (use assms first_phase_work [of r] in
  \<open>auto simp: Let_def split: if_splits link_phase.splits prod.splits open_result.splits intro!: work_move\<close>)

lemma quiet_step_enabled:
  assumes inv: "registry_inv n r" and busy: "registry_work r \<noteq> 0"
  shows "\<exists>e. quiet_event e \<and> registry_step r e \<noteq> None"
proof (cases "\<exists>i < length (rg_links r). phase_at (rg_links r) i \<noteq> Settled")
  case True
  let ?P = "\<lambda>i. i < length (rg_links r) \<and> phase_at (rg_links r) i \<noteq> Settled"
  define i where "i = (LEAST i. ?P i)"
  have i: "i < length (rg_links r)" "phase_at (rg_links r) i \<noteq> Settled"
    using LeastI_ex [of ?P] True unfolding i_def by blast+
  have before: "\<forall>k < i. phase_at (rg_links r) k = Settled"
    using not_less_Least [of _ ?P] i(1) unfolding i_def by (meson less_trans)
  let ?e = "case phase_at (rg_links r) i of Waiting \<Rightarrow> Start i | Resolving \<Rightarrow> Resolve i [] [] | Calling f \<Rightarrow> Failed i
    | Disposing h \<Rightarrow> Disposed i | _ \<Rightarrow> Worked i False"
  have "quiet_event ?e" by (simp add: quiet_event_def split: link_phase.splits)
  moreover have "registry_step r ?e \<noteq> None"
    using i first_unsettled_starts [OF registry_inv_parts(1) [OF inv] i(1) _ before]
    by (auto split: link_phase.splits prod.splits open_result.splits)
  ultimately show ?thesis by blast
next
  case False
  then have settled: "phase_at (rg_links r) i = Settled" if "i < length (rg_links r)" for i using that by blast
  show ?thesis
  proof (cases "rg_reads r = []")
    case False
    then show ?thesis by (intro exI [of _ "ReadDone 0"]) (simp add: quiet_event_def)
  next
    case True
  then have "rg_slots r \<noteq> []" using busy settled by (auto simp: registry_work_def)
  then obtain s i where si: "jm_get (rg_slots r) s = Some i"
    by (metis jm_get_def map_of_Cons_code(2) neq_Nil_conv surj_pair)
  have "tail_ok (rg_links r) (rg_slots r) s" using registry_inv_parts(1) [OF inv] by (simp add: queue_ok_def)
  then have "i < length (rg_links r)" "sid_at (rg_links r) i = s" by (simp_all add: tail_ok_def si)
  then show ?thesis using si settled by (intro exI [of _ "Drain i"]) (simp add: quiet_event_def)
  qed
qed

lemma registry_progress:
  assumes inv: "registry_inv n r" and busy: "registry_work r \<noteq> 0"
  shows "\<exists>e r'. quiet_event e \<and> registry_step r e = Some r' \<and> registry_work r' < registry_work r"
proof -
  obtain e r' where e: "quiet_event e" "registry_step r e = Some r'"
    using quiet_step_enabled [OF assms] by auto
  then have "registry_work r' < registry_work r"
    by (intro step_lowers_work) (auto simp: quiet_event_def)
  then show ?thesis using e by blast
qed

lemma quiet_is_full: "quiet_event e \<Longrightarrow> full_names n r e"
  by (cases e) (auto simp: quiet_event_def full_names_def)

lemma registry_settles:
  "registry_inv n r \<Longrightarrow>
   \<exists>es r'. (\<forall>e \<in> set es. quiet_event e) \<and> registry_run r es = Some r' \<and> registry_inv n r' \<and> registry_work r' = 0"
proof (induction "registry_work r" arbitrary: r rule: less_induct)
  case less
  show ?case
  proof (cases "registry_work r = 0")
    case True
    then show ?thesis using less.prems by (intro exI [of _ "[]"] exI [of _ r]) simp
  next
    case False
    then obtain e r1 where e: "quiet_event e" "registry_step r e = Some r1" "registry_work r1 < registry_work r"
      using registry_progress [OF less.prems] by blast
    then obtain es r' where "\<forall>e \<in> set es. quiet_event e" "registry_run r1 es = Some r'" "registry_inv n r'" "registry_work r' = 0"
      using less.hyps registry_inv_step [OF e(2) quiet_is_full [OF e(1)] less.prems] by blast
    then show ?thesis using e by (intro exI [of _ "e # es"] exI [of _ r']) simp
  qed
qed

lemma no_work_left:
  assumes "registry_inv n r" "registry_work r = 0"
  shows "rg_slots r = []" "rg_reads r = []" "i < length (rg_links r) \<Longrightarrow> phase_at (rg_links r) i = Settled"
    "file_open r s \<longleftrightarrow> attached_of r s \<noteq> None"
proof -
  have zero: "phase_work p = 0 \<longleftrightarrow> p = Settled" for p by (cases p) simp_all
  show settled: "phase_at (rg_links r) i = Settled" if "i < length (rg_links r)" for i
    using assms(2) that by (auto simp: registry_work_def zero)
  show "rg_slots r = []" "rg_reads r = []" using assms(2) by (simp_all add: registry_work_def)
  show "file_open r s \<longleftrightarrow> attached_of r s \<noteq> None"
  proof
    assume "file_open r s"
    then obtain h where "(h, s) \<in> set (rg_open r)" by (auto simp: file_open_def)
    then have "attached_of r s = Some h \<or>
        (\<exists>i < length (rg_links r). sid_at (rg_links r) i = s \<and> phase_at (rg_links r) i = Opened h)"
      using assms(1) unfolding registry_inv_def handles_owned_def by blast
    then show "attached_of r s \<noteq> None" using settled by force
  next
    assume "attached_of r s \<noteq> None"
    then show "file_open r s" using registry_inv_parts(4) [OF assms(1)] by (force simp: file_open_def)
  qed
qed

end
