(* ===== verification/SessionProps.thy ===== *)
theory SessionProps
  imports SessionSlots
begin

text \<open>
  What the slots of \<open>sessionRegistry.ts\<close> promise, on the model of theory \<open>SessionSlots\<close>, and two
  pieces of the registry that need no slot: whose title a session shows, and the walk from a subagent's
  session to the session that is on screen.
\<close>

section \<open>Properties\<close>


text \<open>C33: Nothing gets stuck. From every reachable state (under the same conditions: full identifiers of
  one length, fresh creations, closes that succeed) the calls under way can all finish although the
  repository lists nothing, grants no open, creation or deletion, and everything done on an open
  handle fails; every step taken is work done. Then no slot and no read is left, and the open files
  are exactly those of the attached sessions: no handle is leaked.\<close>

theorem slots_drain:
  assumes "(slots_step n)\<^sup>*\<^sup>* (new_registry files) r"
  shows "\<exists>es r'. (\<forall>e \<in> set es. quiet_event e) \<and> registry_run r es = Some r' \<and> rg_slots r' = [] \<and> rg_reads r' = [] \<and>
    (\<forall>i < length (rg_links r'). phase_at (rg_links r') i = Settled) \<and> (\<forall>s. file_open r' s \<longleftrightarrow> attached_of r' s \<noteq> None)"
proof -
  have "registry_inv n r" using slots.I_reachable [OF assms] by simp
  then obtain es r' where r': "\<forall>e \<in> set es. quiet_event e" "registry_run r es = Some r'" "registry_inv n r'" "registry_work r' = 0"
    using registry_settles by blast
  then show ?thesis using no_work_left [OF r'(3,4)] by blast
qed

section \<open>Concrete runs\<close>

fun names_full :: "nat \<Rightarrow> registry \<Rightarrow> registry_event list \<Rightarrow> bool" where
  "names_full n r [] = True"
| "names_full n r (e # es) \<longleftrightarrow> full_names n r e \<and> (case registry_step r e of None \<Rightarrow> True | Some r' \<Rightarrow> names_full n r' es)"

lemma run_reachable:
  "registry_run r es = Some r' \<Longrightarrow> names_full n r es \<Longrightarrow> (slots_step n)\<^sup>*\<^sup>* r r'"
proof (induction es arbitrary: r)
  case (Cons e es)
  then obtain r1 where "registry_step r e = Some r1" "registry_run r1 es = Some r'" by (auto split: option.splits)
  then show ?case using Cons by (auto intro: slots_step.intros converse_rtranclp_into_rtranclp)
qed simp

text \<open>A session is created while a read of it and an attach wait; the attach opens it, a second read
  borrows the attached handle, and a deletion is under way.\<close>

definition sample_events :: "registry_event list" where
  "sample_events =
     [Request (CreateTask ''cc''), Request (ReadTask ''cc''), Request (AttachTask ''aa''), Start 0, Start 2,
      Resolve 2 [''aa'', ''bb''] [], Granted 0, Granted 2, Request (ReadTask ''aa''), Worked 0 True, Start 1, Invalidate,
      Resolve 1 [''cc'', ''aa''] [], Worked 2 True, Start 3, Granted 1, Worked 3 True, Request (DeleteTask ''aa''), Start 4]"

definition sample_registry :: registry where
  "sample_registry = (case registry_run (new_registry [''aa'', ''bb'']) sample_events of Some r \<Rightarrow> r | None \<Rightarrow> new_registry [])"

lemma sample_run: "registry_run (new_registry [''aa'', ''bb'']) sample_events = Some sample_registry"
  by code_simp

lemma sample_reachable: "(slots_step 2)\<^sup>*\<^sup>* (new_registry [''aa'', ''bb'']) sample_registry"
proof (rule run_reachable [OF sample_run])
  show "names_full 2 (new_registry [''aa'', ''bb'']) sample_events" by code_simp
qed

lemma sample_calls: "map fst (rg_calls sample_registry) = [CreateCall ''cc'', OpenCall ''aa'', OpenCall ''cc'']"
  by code_simp


theorem slots_drain_witness:
  "\<exists>es r'. registry_run sample_registry es = Some r' \<and> rg_slots r' = []"
  using slots_drain [OF sample_reachable] by blast

section \<open>Looking up\<close>

text \<open>A miss is reported only against a fresh listing that has sessions and none by that name.\<close>

lemma not_found_is_absent:
  "openSession cache listed fresh s = (SessionNotFound, c) \<Longrightarrow> fresh \<noteq> [] \<and> (\<forall>f \<in> set fresh. \<not> startsWith f s)"
  by (auto simp: openSession_def listSessions_def resolveSessionByPrefix_def Let_def filter_empty_conv
      split: prod.splits prefix_resolution.splits if_splits)

text \<open>Slots are kept by the name a call gives: under a prefix of its identifier a session has a second
  slot, and a read opens a file that is open.\<close>

lemma prefix_escapes_slot:
  "map_option rg_calls (registry_run (new_registry [''ab1''])
     [Request (ReadTask ''ab1''), Start 0, Resolve 0 [''ab1''] [], Granted 0,
      Request (ReadTask ''ab''), Start 1, Resolve 1 [] [], Failed 1]) =
   Some [(OpenCall ''ab1'', False), (OpenCall ''ab1'', True)]"
  by code_simp

text \<open>An attach asked for while a detach waits for the session to be disposed is answered with that
  session, whose file is then closed.\<close>

lemma attach_answered_with_disposed:
  "map_option (\<lambda>r. (attached_now r (AttachTask ''aa''), request (AttachTask ''aa'') r = r,
       map_option (\<lambda>r. (attached_of r ''aa'', file_open r ''aa'')) (registry_run r [Request (AttachTask ''aa''), Disposed 1])))
     (registry_run (new_registry [''aa''])
       [Request (AttachTask ''aa''), Start 0, Resolve 0 [''aa''] [], Granted 0, Worked 0 True, Drain 0,
        Request (DetachTask ''aa''), Start 1]) =
   Some (Some 0, True, Some (None, False))"
  by code_simp

text \<open>A read that runs on the attached handle is not waited for by a detach: the handle is closed under
  it.\<close>

lemma read_on_closed_handle:
  "map_option (\<lambda>r. (rg_reads r, rg_open r))
     (registry_run (new_registry [''aa''])
       [Request (AttachTask ''aa''), Start 0, Resolve 0 [''aa''] [], Granted 0, Worked 0 True, Drain 0,
        Request (ReadTask ''aa''), Request (DetachTask ''aa''), Start 1, Disposed 1]) =
   Some ([(''aa'', 0)], [])"
  by code_simp

text \<open>When the harness of an attached session fails to close, the session is forgotten and its file stays
  open: every later call on it is refused, and nothing in the registry can close it.\<close>

lemma failed_close_locks_file:
  "map_option (\<lambda>r. (attached_of r ''aa'', file_open r ''aa'', map snd (rg_calls r)))
     (registry_run (new_registry [''aa''])
       [Request (AttachTask ''aa''), Start 0, Resolve 0 [''aa''] [], Granted 0, Worked 0 True, Drain 0,
        Request (DetachTask ''aa''), Start 1, CloseFailed 1, Drain 1,
        Request (AttachTask ''aa''), Start 2, Resolve 2 [] [], Failed 2]) =
   Some (None, True, [False, True])"
  by code_simp

section \<open>Titles\<close>

datatype title_source = PlaceholderTitle | SummaryTitle | UserTitle

type_synonym session_title = "string option \<times> title_source option"

text \<open>Each title call reads the title before it decides (\<open>seen\<close>), and once more when it writes (\<open>now\<close>).\<close>

definition writeTitle :: "session_title \<Rightarrow> string \<Rightarrow> title_source \<Rightarrow> bool \<times> session_title" where
  "writeTitle now name source = (if now = (Some name, Some source) then (False, now) else (True, (Some name, Some source)))"

definition renameSession :: "session_title \<Rightarrow> string \<Rightarrow> session_title" where
  "renameSession now name = snd (writeTitle now name UserTitle)"

definition setPlaceholderTitle :: "session_title \<Rightarrow> session_title \<Rightarrow> string \<Rightarrow> bool \<times> session_title" where
  "setPlaceholderTitle seen now name =
     (if fst seen \<noteq> None \<and> snd seen \<noteq> Some PlaceholderTitle then (False, now) else writeTitle now name PlaceholderTitle)"

definition setSummaryTitle :: "session_title \<Rightarrow> session_title \<Rightarrow> string \<Rightarrow> bool \<times> session_title" where
  "setSummaryTitle seen now name =
     (if snd seen = Some UserTitle then (False, now) else writeTitle now name SummaryTitle)"

datatype title_call = Rename string | Placeholder string | Summarize string

fun title_step :: "session_title \<Rightarrow> title_call \<Rightarrow> session_title" where
  "title_step t (Rename name) = renameSession t name"
| "title_step t (Placeholder name) = snd (setPlaceholderTitle t t name)"
| "title_step t (Summarize name) = snd (setSummaryTitle t t name)"

fun last_rename :: "title_call list \<Rightarrow> string option" where
  "last_rename [] = None"
| "last_rename (c # cs) = (case last_rename cs of Some n \<Rightarrow> Some n | None \<Rightarrow> (case c of Rename n \<Rightarrow> Some n | _ \<Rightarrow> None))"

lemma user_title_kept:
  assumes "last_rename cs = None"
  shows "foldl title_step (Some name, Some UserTitle) cs = (Some name, Some UserTitle)"
  using assms
proof (induction cs)
  case (Cons c cs)
  then show ?case
    by (cases c) (auto simp: setPlaceholderTitle_def setSummaryTitle_def split: option.splits)
qed simp

lemma rename_result: "renameSession t name = (Some name, Some UserTitle)"
  by (simp add: renameSession_def writeTitle_def)

text \<open>Title calls that do not overlap leave a session with the name it was last given by hand,
  whatever placeholders and summaries were offered before and after; the name changes only by another
  rename.\<close>

theorem rename_is_permanent:
  assumes "last_rename cs = Some name"
  shows "foldl title_step t cs = (Some name, Some UserTitle)"
  using assms
proof (induction cs arbitrary: t)
  case (Cons c cs)
  then show ?case
    by (cases "last_rename cs"; cases c) (auto simp: rename_result user_title_kept)
qed simp

theorem rename_is_permanent_witness:
  "foldl title_step (None, None) [Placeholder ''hi'', Rename ''mine'', Summarize ''sum'', Placeholder ''ph''] =
     (Some ''mine'', Some UserTitle)"
  by (rule rename_is_permanent) simp

text \<open>A rename that lands between the two reads of a summary is overwritten.\<close>

lemma late_summary_overwrites:
  "setSummaryTitle (Some ''old'', Some SummaryTitle) (renameSession (Some ''old'', Some SummaryTitle) ''mine'') ''sum'' =
     (True, (Some ''sum'', Some SummaryTitle))"
  by code_simp

text \<open>A title without a recorded source, of an older version, is overwritten by a summary.\<close>

lemma untracked_title_overwritten:
  "setSummaryTitle (Some ''old'', None) (Some ''old'', None) ''sum'' = (True, (Some ''sum'', Some SummaryTitle))"
  by code_simp

text \<open>A placeholder is written only over nothing or another placeholder.\<close>

lemma placeholder_yields:
  "setPlaceholderTitle t t name = (True, t') \<Longrightarrow> fst t = None \<or> snd t = Some PlaceholderTitle"
  by (auto simp: setPlaceholderTitle_def split: if_splits)

section \<open>The session on screen\<close>

text \<open>The parents named in the listing, the facts in the files: a read of the facts may fail (None).\<close>

function display_walk :: "string list \<Rightarrow> (string \<Rightarrow> string option) \<Rightarrow> (string \<Rightarrow> (string option \<times> string option) option) \<Rightarrow>
    string list \<Rightarrow> string \<Rightarrow> string option \<Rightarrow> (string \<times> string option) option" where
  "display_walk files listed facts seen current call =
     (if current \<in> set seen then Some (current, call)
      else (case resolveSessionByPrefix files current of
        Found f \<Rightarrow>
          (case facts current of
             None \<Rightarrow> None
           | Some (parent_fact, call_fact) \<Rightarrow>
               (case (case listed f of None \<Rightarrow> parent_fact | Some p \<Rightarrow> Some p) of
                  None \<Rightarrow> Some (current, call)
                | Some p \<Rightarrow>
                    if p = [] then Some (current, call)
                    else display_walk files listed facts (current # seen) p
                      (case call_fact of Some c \<Rightarrow> if c = [] then call else Some c | None \<Rightarrow> call)))
      | _ \<Rightarrow> Some (current, call)))"
  by pat_completeness auto

lemma resolve_found: "resolveSessionByPrefix files s = Found f \<Longrightarrow> f \<in> set files \<and> startsWith f s"
proof -
  assume a: "resolveSessionByPrefix files s = Found f"
  show ?thesis
  proof (cases "s \<in> set files")
    case True
    then show ?thesis using a by (auto simp: resolveSessionByPrefix_def startsWith_def)
  next
    case False
    let ?m = "filter (\<lambda>f. startsWith f s) files"
    have "?m \<noteq> []" "f = hd ?m" using a False by (auto simp: resolveSessionByPrefix_def Let_def split: if_splits)
    then have "f \<in> set ?m" by (metis hd_in_set)
    then show ?thesis by simp
  qed
qed

definition named_in :: "string list \<Rightarrow> string set" where
  "named_in files = {s. \<exists>f \<in> set files. startsWith f s}"

lemma finite_named_in: "finite (named_in files)"
proof -
  have "named_in files \<subseteq> (\<Union>f \<in> set files. set (prefixes f))"
    by (auto simp: named_in_def startsWith_prefix)
  then show ?thesis by (rule finite_subset) simp
qed

termination display_walk
proof (relation "measure (\<lambda>(files, listed, facts, seen, current, call). card (named_in files - set seen))")
  fix files listed facts seen current call f x parent_fact call_fact p
  assume "current \<notin> set seen" "resolveSessionByPrefix files current = Found f"
  then have "current \<in> named_in files - set seen" using resolve_found by (auto simp: named_in_def)
  moreover have "named_in files - set (current # seen) = (named_in files - set seen) - {current}" by auto
  ultimately have "card (named_in files - set (current # seen)) < card (named_in files - set seen)"
    using finite_named_in card_Diff1_less [of "named_in files - set seen" current] by simp
  then show "((files, listed, facts, current # seen, p, case call_fact of Some c \<Rightarrow> if c = [] then call else Some c | None \<Rightarrow> call),
      files, listed, facts, seen, current, call) \<in> measure (\<lambda>(files, listed, facts, seen, current, call). card (named_in files - set seen))"
    by simp
qed auto

declare display_walk.simps [simp del]

definition resolveDisplayContext :: "string list \<Rightarrow> (string \<Rightarrow> string option) \<Rightarrow> (string \<Rightarrow> (string option \<times> string option) option) \<Rightarrow>
    string \<Rightarrow> (string \<times> string option) option" where
  "resolveDisplayContext files listed facts s = display_walk files listed facts [] s None"

text \<open>The session a session hangs under, in the listing or in its own facts.\<close>

definition hangs_under :: "string list \<Rightarrow> (string \<Rightarrow> string option) \<Rightarrow> (string \<Rightarrow> (string option \<times> string option) option) \<Rightarrow>
    string \<Rightarrow> string \<Rightarrow> bool" where
  "hangs_under files listed facts c p \<longleftrightarrow> p \<noteq> [] \<and>
     (case resolveSessionByPrefix files c of
        Found f \<Rightarrow> (case facts c of None \<Rightarrow> False
          | Some (parent_fact, call_fact) \<Rightarrow> (case listed f of None \<Rightarrow> parent_fact | Some q \<Rightarrow> Some q) = Some p)
      | _ \<Rightarrow> False)"

lemma hangs_underE:
  assumes "hangs_under files listed facts c p"
  obtains f parent_fact call_fact where "p \<noteq> []" "resolveSessionByPrefix files c = Found f" "facts c = Some (parent_fact, call_fact)"
    "(case listed f of None \<Rightarrow> parent_fact | Some q \<Rightarrow> Some q) = Some p"
  using assms by (cases "resolveSessionByPrefix files c"; cases "facts c") (auto simp: hangs_under_def simp del: not_None_eq)

lemma display_walk_root:
  "display_walk files listed facts seen current call = Some (root, call') \<Longrightarrow>
   \<forall>x \<in> set seen. (hangs_under files listed facts)\<^sup>+\<^sup>+ x current \<Longrightarrow>
   (hangs_under files listed facts)\<^sup>*\<^sup>* current root \<and>
   ((\<exists>p. hangs_under files listed facts root p) \<longrightarrow> (hangs_under files listed facts)\<^sup>+\<^sup>+ root root)"
proof (induction files listed facts seen current call rule: display_walk.induct)
  case (1 files listed facts seen current call)
  let ?up = "hangs_under files listed facts"
  show ?case
  proof (cases "\<exists>p. current \<notin> set seen \<and> ?up current p")
    case False
    then have "root = current"
      using 1(2) display_walk.simps [of files listed facts seen current call]
      by (auto simp: hangs_under_def split: if_splits prefix_resolution.splits option.splits prod.splits)
    then show ?thesis using False 1(3) by auto
  next
    case True
    then obtain p where up: "current \<notin> set seen" "?up current p" by blast
    obtain f parent_fact call_fact where found: "p \<noteq> []" "resolveSessionByPrefix files current = Found f"
      "facts current = Some (parent_fact, call_fact)" "(case listed f of None \<Rightarrow> parent_fact | Some q \<Rightarrow> Some q) = Some p"
      using up(2) by (rule hangs_underE)
    note p = up found
    let ?call = "case call_fact of Some c \<Rightarrow> if c = [] then call else Some c | None \<Rightarrow> call"
    have "display_walk files listed facts (current # seen) p ?call = Some (root, call')"
      using 1(2) p display_walk.simps [of files listed facts seen current call] by simp
    moreover have "\<forall>x \<in> set (current # seen). ?up\<^sup>+\<^sup>+ x p"
      using 1(3) p(2) by (auto intro: tranclp.intros)
    ultimately have "?up\<^sup>*\<^sup>* p root \<and> ((\<exists>q. ?up root q) \<longrightarrow> ?up\<^sup>+\<^sup>+ root root)"
      using 1(1) [OF p(1,4,5) refl p(6,3)] by blast
    then show ?thesis using p(2) by (meson converse_rtranclp_into_rtranclp)
  qed
qed

lemma resolved_root:
  assumes "resolveDisplayContext files listed facts s = Some (root, call)"
  shows "(hangs_under files listed facts)\<^sup>*\<^sup>* s root"
    and "\<not> (hangs_under files listed facts)\<^sup>+\<^sup>+ root root \<Longrightarrow> \<not> hangs_under files listed facts root p"
  using display_walk_root [of files listed facts "[]" s None root call] assms by (auto simp: resolveDisplayContext_def)

text \<open>A read of the facts that fails ends the walk in an error.\<close>

lemma display_walk_may_fail: "resolveDisplayContext [''aa''] (\<lambda>f. None) (\<lambda>s. None) ''aa'' = None"
  by code_simp

end
