(* ===== verification/SubChild.thy ===== *)
theory SubChild
  imports TacoPrelude
begin

text \<open>
  What a child agent gets and gives back: its tools (\<open>packages/sidecar/src/agents/filterTools.ts\<close>,
  \<open>runtime/subagent/childAttach.ts\<close>), its run with the cap on turns (\<open>subagentRunner.ts\<close>) and the text
  that reaches the parent (\<open>subagentProgress.ts\<close>). The harness is a parameter: the turns that end, how
  the prompt ends, and the text read back from the child's session.
\<close>

section \<open>Tools\<close>

text \<open>Of a tool only the name matters, and for the shell whether its permission broker is the read-only
  one.\<close>

record agent_tool =
  tl_name :: string
  tl_readOnly :: bool

definition AGENT_TOOL_NAME :: string where
  "AGENT_TOOL_NAME = ''agent''"

definition MAIN_SESSION_ONLY_TOOL_NAMES :: "string list" where
  "MAIN_SESSION_ONLY_TOOL_NAMES = [AGENT_TOOL_NAME, ''askUser'', ''planEnter'', ''planExit'']"

definition filterToolsForAgent :: "agent_tool list \<Rightarrow> string list option \<Rightarrow> nat \<Rightarrow> agent_tool list" where
  "filterToolsForAgent available whitelist depth =
     (let result = (case whitelist of None \<Rightarrow> available | Some wl \<Rightarrow> filter (\<lambda>t. tl_name t \<in> set wl) available) in
      if 1 \<le> depth then filter (\<lambda>t. tl_name t \<notin> set MAIN_SESSION_ONLY_TOOL_NAMES) result else result)"

fun any_shows :: "string \<Rightarrow> string list option list \<Rightarrow> bool \<Rightarrow> bool" where
  "any_shows name [] saw = (\<not> saw)"
| "any_shows name (None # wls) saw = True"
| "any_shows name (Some wl # wls) saw = (if name \<in> set wl then True else any_shows name wls True)"

definition isToolVisibleForAnySubagent :: "string \<Rightarrow> string list option list \<Rightarrow> bool" where
  "isToolVisibleForAnySubagent name whitelists =
     (if name \<in> set MAIN_SESSION_ONLY_TOOL_NAMES then False else any_shows name whitelists False)"

datatype facts_kind = MainKind | SubagentKind

record session_facts =
  sf_kind :: "facts_kind option"
  sf_agentType :: "string option"
  sf_depth :: "nat option"
  sf_parent :: "string option"
  sf_call :: "string option"

definition no_facts :: session_facts where
  "no_facts = \<lparr>sf_kind = None, sf_agentType = None, sf_depth = None, sf_parent = None, sf_call = None\<rparr>"

definition resolveParentDepth :: "session_facts \<Rightarrow> nat" where
  "resolveParentDepth facts = (case sf_depth facts of Some d \<Rightarrow> d | None \<Rightarrow> 0)"

definition isHiddenSubagentSession :: "session_facts \<Rightarrow> string option \<Rightarrow> bool" where
  "isHiddenSubagentSession facts header =
     (case sf_kind facts of
        Some SubagentKind \<Rightarrow> True
      | Some MainKind \<Rightarrow> False
      | None \<Rightarrow> header \<noteq> None \<or> sf_parent facts \<noteq> None)"

definition writeSessionFactsIfAbsent :: "session_facts \<Rightarrow> session_facts \<Rightarrow> bool \<times> session_facts" where
  "writeSessionFactsIfAbsent existing facts =
     (if sf_kind existing \<noteq> None \<or> sf_parent existing \<noteq> None then (False, existing) else (True, facts))"

datatype context_mode = Independent | Fork

definition resolveContextMode :: "context_mode option \<Rightarrow> context_mode option \<Rightarrow> context_mode" where
  "resolveContextMode argMode defMode = or_else argMode (or_else defMode Independent)"

definition READ_ONLY_SHELL_AGENT_TYPES :: "string list" where
  "READ_ONLY_SHELL_AGENT_TYPES = [''explorer'', ''reviewer'']"

fun isolate_shell :: "agent_tool list \<Rightarrow> agent_tool list" where
  "isolate_shell [] = []"
| "isolate_shell (t # ts) = (if tl_name t = ''shell'' then t\<lparr>tl_readOnly := True\<rparr> # ts else t # isolate_shell ts)"

text \<open>The tools of the child's session, narrowed to the names the caller allowed.\<close>

definition prepareChildTools :: "string option \<Rightarrow> agent_tool list \<Rightarrow> agent_tool list \<Rightarrow> agent_tool list" where
  "prepareChildTools agentType allowedTools rawTools =
     (let tools = filter (\<lambda>t. tl_name t \<in> tl_name ` set allowedTools) rawTools in
      if (\<exists>a \<in> set_option agentType. a \<in> set READ_ONLY_SHELL_AGENT_TYPES) then isolate_shell tools else tools)"

text \<open>The tools a child of an agent definition attaches with.\<close>

definition child_tools :: "string \<Rightarrow> agent_tool list \<Rightarrow> string list option \<Rightarrow> session_facts \<Rightarrow> agent_tool list \<Rightarrow> agent_tool list" where
  "child_tools agentType parentTools whitelist parentFacts rawTools =
     prepareChildTools (Some agentType) (filterToolsForAgent parentTools whitelist (resolveParentDepth parentFacts + 1)) rawTools"

text \<open>What the spawner writes into the session of a new child, and the tools the child attaches with when it
  is continued: the depth is then the one its own session holds.\<close>

definition child_facts :: "string \<Rightarrow> string \<Rightarrow> string \<Rightarrow> session_facts \<Rightarrow> session_facts" where
  "child_facts agentType parent call parentFacts =
     \<lparr>sf_kind = Some SubagentKind, sf_agentType = Some agentType, sf_depth = Some (resolveParentDepth parentFacts + 1),
      sf_parent = Some parent, sf_call = Some call\<rparr>"

definition resumed_tools :: "string \<Rightarrow> agent_tool list \<Rightarrow> string list option \<Rightarrow> session_facts \<Rightarrow> agent_tool list \<Rightarrow> agent_tool list" where
  "resumed_tools agentType parentTools whitelist childFacts rawTools =
     prepareChildTools (Some agentType) (filterToolsForAgent parentTools whitelist (or_else (sf_depth childFacts) 0)) rawTools"

text \<open>A skill's child has the skill tool removed as well.\<close>

definition skill_tools :: "string \<Rightarrow> agent_tool list \<Rightarrow> string list option \<Rightarrow> session_facts \<Rightarrow> agent_tool list \<Rightarrow> agent_tool list" where
  "skill_tools skillName parentTools allowedTools parentFacts rawTools =
     prepareChildTools (Some (''skill:'' @ skillName))
       (filter (\<lambda>t. tl_name t \<noteq> ''skill'') (filterToolsForAgent parentTools allowedTools (resolveParentDepth parentFacts + 1))) rawTools"

section \<open>Control tags\<close>

definition CONTROL_TAG_MARKERS :: "string list" where
  "CONTROL_TAG_MARKERS = [''system-reminder'', ''subagent_result'', ''subagent_notification'']"

text \<open>The pattern \<open><(/?marker)\<close> without case, at the start of a text.\<close>

definition starts_ci :: "string \<Rightarrow> string \<Rightarrow> bool" where
  "starts_ci s w \<longleftrightarrow> startsWith (toLowerCase s) w"

definition tag_at :: "string \<Rightarrow> string \<Rightarrow> bool" where
  "tag_at marker s \<longleftrightarrow> (case s of [] \<Rightarrow> False | c # r \<Rightarrow> c = CHR ''<'' \<and> (starts_ci r marker \<or> starts_ci r (CHR ''/'' # marker)))"

text \<open>The tag behind the \<open><\<close> has no other \<open><\<close>, so the scan may go on inside it.\<close>

fun scrub :: "string \<Rightarrow> string \<Rightarrow> string" where
  "scrub marker [] = []"
| "scrub marker (c # s) = (if tag_at marker (c # s) then CHR ''<'' # CHR 0x5C # scrub marker s else c # scrub marker s)"

definition neutralizeControlTags :: "string \<Rightarrow> string" where
  "neutralizeControlTags text = foldl (\<lambda>s marker. scrub marker s) text CONTROL_TAG_MARKERS"

definition has_tag :: "string \<Rightarrow> string \<Rightarrow> bool" where
  "has_tag marker s \<longleftrightarrow> (\<exists>n \<le> length s. tag_at marker (drop n s))"

section \<open>A run\<close>

definition LAST_TEXT_MAX :: nat where
  "LAST_TEXT_MAX = 400"

text \<open>The ellipsis is outside the model's alphabet and an argument.\<close>

definition tailOf :: "string \<Rightarrow> string \<Rightarrow> string" where
  "tailOf dots text = (let t = trim text in if length t \<le> LAST_TEXT_MAX then t else dots @ slice_last LAST_TEXT_MAX t)"

definition cut_note :: "nat \<Rightarrow> string" where
  "cut_note cap = ''[partial: stopped after reaching the '' @ nat_text cap @ ''-turn limit]''"

definition partialResult :: "string \<Rightarrow> nat \<Rightarrow> string" where
  "partialResult text cap =
     (if text = [] then cut_note cap @ '' subagent produced no answer before the limit.''
      else cut_note cap @ ''\<newline>'' @ text)"

record child_run =
  cr_turns :: nat
  cr_lastText :: "string option"
  cr_hitCap :: bool
  cr_aborts :: nat

definition child_start :: child_run where
  "child_start = \<lparr>cr_turns = 0, cr_lastText = None, cr_hitCap = False, cr_aborts = 0\<rparr>"

definition turn_cap :: "nat option \<Rightarrow> nat option" where
  "turn_cap maxTurns = (case maxTurns of Some m \<Rightarrow> if 0 < m then Some m else None | None \<Rightarrow> None)"

definition onTurnEnd :: "nat option \<Rightarrow> child_run \<Rightarrow> string \<Rightarrow> child_run" where
  "onTurnEnd cap r turnText =
     (let turns = Suc (cr_turns r); hit = (\<exists>c \<in> set_option cap. c \<le> turns) \<and> \<not> cr_hitCap r in
      r\<lparr>cr_turns := turns,
        cr_lastText := (if trim turnText \<noteq> [] then Some turnText else cr_lastText r),
        cr_hitCap := cr_hitCap r \<or> hit,
        cr_aborts := cr_aborts r + (if hit then 1 else 0)\<rparr>)"

datatype child_result =
    Answered string
  | EmptyAnswer
  | Stopped
  | FailedRun string nat "string option"

fun is_error_result :: "child_result \<Rightarrow> bool" where
  "is_error_result (Answered s) = False"
| "is_error_result _ = True"

text \<open>\<open>failed\<close> is the error of the prompt, if it failed; \<open>read\<close> what reading the last text gives, None when
  the read fails, and then the call fails.\<close>

definition failedResult :: "string \<Rightarrow> string \<Rightarrow> child_run \<Rightarrow> child_result" where
  "failedResult dots err r =
     FailedRun err (cr_turns r)
       (if cr_turns r = 0 then None else map_option (\<lambda>t. neutralizeControlTags (tailOf dots t)) (cr_lastText r))"

definition runAttachedSubagent :: "string \<Rightarrow> nat option \<Rightarrow> string list \<Rightarrow> string option \<Rightarrow> bool \<Rightarrow> string option \<Rightarrow> child_result option" where
  "runAttachedSubagent dots maxTurns turnTexts failed aborted read =
     (let cap = turn_cap maxTurns; r = foldl (onTurnEnd cap) child_start turnTexts in
      case failed of
        Some err \<Rightarrow>
          if cr_hitCap r then map_option (\<lambda>raw. Answered (partialResult (neutralizeControlTags raw) (case cap of Some c \<Rightarrow> c | None \<Rightarrow> cr_turns r))) read
          else if aborted then Some Stopped
          else Some (failedResult dots err r)
      | None \<Rightarrow>
          map_option (\<lambda>raw. if raw = [] then EmptyAnswer else Answered (neutralizeControlTags raw)) read)"

section \<open>Tools are narrowed\<close>

lemma filtered_tool:
  "t \<in> set (filterToolsForAgent available whitelist depth) \<Longrightarrow>
   t \<in> set available \<and> (\<forall>wl \<in> set_option whitelist. tl_name t \<in> set wl) \<and>
   (1 \<le> depth \<longrightarrow> tl_name t \<notin> set MAIN_SESSION_ONLY_TOOL_NAMES)"
  by (auto simp: filterToolsForAgent_def Let_def split: option.splits if_splits)

lemma isolate_shell_names [simp]: "map tl_name (isolate_shell ts) = map tl_name ts"
  by (induction ts) auto

lemma isolate_shell_name_set [simp]: "tl_name ` set (isolate_shell ts) = tl_name ` set ts"
  by (metis isolate_shell_names set_map)

lemma isolate_shell_isolates:
  "distinct (map tl_name ts) \<Longrightarrow> t \<in> set (isolate_shell ts) \<Longrightarrow> tl_name t = ''shell'' \<Longrightarrow> tl_readOnly t"
  by (induction ts) (force split: if_splits)+

lemma prepared_tool:
  assumes "t \<in> set (prepareChildTools agentType allowedTools rawTools)"
  shows "tl_name t \<in> tl_name ` set allowedTools \<inter> tl_name ` set rawTools"
proof -
  let ?tools = "filter (\<lambda>t. tl_name t \<in> tl_name ` set allowedTools) rawTools"
  have "t \<in> set ?tools \<or> t \<in> set (isolate_shell ?tools)"
    using assms by (auto simp: prepareChildTools_def Let_def split: if_splits)
  then have "tl_name t \<in> tl_name ` set ?tools \<union> tl_name ` set (isolate_shell ?tools)" by blast
  then show ?thesis by auto
qed


definition sample_tools :: "agent_tool list" where
  "sample_tools = [\<lparr>tl_name = ''read'', tl_readOnly = False\<rparr>, \<lparr>tl_name = ''shell'', tl_readOnly = False\<rparr>, \<lparr>tl_name = ''agent'', tl_readOnly = False\<rparr>]"

lemma sample_child_tools:
  "child_tools ''explorer'' sample_tools None no_facts sample_tools =
     [\<lparr>tl_name = ''read'', tl_readOnly = False\<rparr>, \<lparr>tl_name = ''shell'', tl_readOnly = True\<rparr>]"
  by code_simp


text \<open>A child is continued with the tools it was started with; but one whose session holds no depth gets
  the tools back that are for main sessions only.\<close>

lemma resumed_as_spawned:
  "resumed_tools agentType parentTools whitelist (child_facts agentType' parent call parentFacts) rawTools =
     child_tools agentType parentTools whitelist parentFacts rawTools"
  by (simp add: resumed_tools_def child_tools_def child_facts_def)

lemma resumed_without_depth:
  assumes "sf_depth md = None" "t \<in> set tools" "tl_name t = AGENT_TOOL_NAME"
  shows "AGENT_TOOL_NAME \<in> tl_name ` set (resumed_tools agentType tools None md tools)"
  using assms by (force simp: resumed_tools_def prepareChildTools_def filterToolsForAgent_def Let_def)

text \<open>The check whether any agent shows a tool agrees with what the agents get.\<close>

lemma any_shows_spec:
  "any_shows name wls saw \<longleftrightarrow> (\<not> saw \<and> wls = []) \<or> (\<exists>wl \<in> set wls. wl = None \<or> name \<in> set (or_else wl []))"
  by (induction name wls saw rule: any_shows.induct) auto

lemma tool_visible_iff:
  assumes "wls \<noteq> []" "name = tl_name t"
  shows "isToolVisibleForAnySubagent name wls \<longleftrightarrow> (\<exists>wl \<in> set wls. t \<in> set (filterToolsForAgent [t] wl 1))"
proof -
  have one: "t \<in> set (filterToolsForAgent [t] wl 1) \<longleftrightarrow>
      (wl = None \<or> name \<in> set (or_else wl [])) \<and> name \<notin> set MAIN_SESSION_ONLY_TOOL_NAMES" for wl
    using assms(2) by (cases wl) (auto simp: filterToolsForAgent_def)
  show ?thesis using assms(1) unfolding isToolVisibleForAnySubagent_def any_shows_spec one by auto
qed

section \<open>Control tags are gone\<close>

definition plain_marker :: "string \<Rightarrow> bool" where
  "plain_marker m \<longleftrightarrow> m \<noteq> [] \<and> CHR ''<'' \<notin> set m \<and> hd m \<notin> {CHR 0x5C, CHR ''/''}"

lemma char_lower_less_all: "\<forall>c. char_lower c = CHR ''<'' \<longleftrightarrow> c = CHR ''<''"
  by code_simp

lemma char_lower_less [simp]: "char_lower c = CHR ''<'' \<longleftrightarrow> c = CHR ''<''"
  using char_lower_less_all by blast

lemma char_lower_less_same [simp]: "char_lower (CHR ''<'') = CHR ''<''"
  by simp

lemma char_lower_backslash [simp]: "char_lower (CHR 0x5C) = CHR 0x5C"
  by code_simp

lemma starts_ci_Nil [simp]: "starts_ci s []"
  by (simp add: starts_ci_def)

lemma starts_ci_Cons [simp]:
  "starts_ci [] (w # ws) = False" "starts_ci (c # s) (w # ws) \<longleftrightarrow> char_lower c = w \<and> starts_ci s ws"
  by (auto simp: starts_ci_def startsWith_def toLowerCase_def)

text \<open>Whether a text starts with a word free of \<open><\<close> depends on what comes before its first \<open><\<close> only.\<close>

abbreviation before_less :: "string \<Rightarrow> string" where
  "before_less s \<equiv> takeWhile (\<lambda>c. c \<noteq> CHR ''<'') s"

lemma starts_ci_before: "CHR ''<'' \<notin> set w \<Longrightarrow> starts_ci s w \<longleftrightarrow> starts_ci (before_less s) w"
proof (induction w arbitrary: s)
  case (Cons x w)
  then show ?case by (cases s) auto
qed simp

lemma before_scrub [simp]: "before_less (scrub m s) = before_less s"
  by (induction s) (auto simp: tag_at_def)

lemma starts_ci_scrub: "CHR ''<'' \<notin> set w \<Longrightarrow> starts_ci (scrub m s) w = starts_ci s w"
  by (metis before_scrub starts_ci_before)

lemma tag_at_scrub_Cons:
  assumes "plain_marker m"
  shows "tag_at m (c # scrub m' s) = tag_at m (c # s)"
  using assms by (simp add: tag_at_def plain_marker_def starts_ci_scrub del: starts_ci_Cons)

lemma has_tag_simps [simp]:
  "\<not> has_tag m []" "has_tag m (c # s) \<longleftrightarrow> tag_at m (c # s) \<or> has_tag m s"
proof -
  show "\<not> has_tag m []" by (simp add: has_tag_def tag_at_def)
  show "has_tag m (c # s) \<longleftrightarrow> tag_at m (c # s) \<or> has_tag m s"
    unfolding has_tag_def by (metis Suc_le_mono drop0 drop_Suc_Cons length_Cons not0_implies_Suc zero_le)
qed

lemma no_tag_backslash: "plain_marker m \<Longrightarrow> \<not> tag_at m (CHR ''<'' # CHR 0x5C # s)"
  by (cases m) (auto simp: tag_at_def plain_marker_def)

lemma scrub_removes: "plain_marker m \<Longrightarrow> \<not> has_tag m (scrub m s)"
proof (induction s)
  case (Cons c s)
  then show ?case
    by (auto simp: tag_at_scrub_Cons no_tag_backslash) (simp add: tag_at_def)
qed simp

lemma scrub_adds_none: "plain_marker m \<Longrightarrow> \<not> has_tag m s \<Longrightarrow> \<not> has_tag m (scrub m' s)"
proof (induction s)
  case (Cons c s)
  then show ?case
    by (auto simp: tag_at_scrub_Cons no_tag_backslash) (simp add: tag_at_def)
qed simp

lemma markers_plain: "m \<in> set CONTROL_TAG_MARKERS \<Longrightarrow> plain_marker m"
  by (auto simp: CONTROL_TAG_MARKERS_def plain_marker_def)

lemma neutralized_clean: "list_all (\<lambda>m. \<not> has_tag m (neutralizeControlTags text)) CONTROL_TAG_MARKERS"
  using markers_plain scrub_removes scrub_adds_none
  by (simp add: neutralizeControlTags_def CONTROL_TAG_MARKERS_def)

lemma scrub_clean: "\<not> has_tag m s \<Longrightarrow> scrub m s = s"
  by (induction s) auto

lemma neutralize_idem: "neutralizeControlTags (neutralizeControlTags s) = neutralizeControlTags s"
proof -
  let ?t = "neutralizeControlTags s"
  have "scrub m ?t = ?t" if "m \<in> set CONTROL_TAG_MARKERS" for m
    using neutralized_clean [of s] that by (simp add: scrub_clean list_all_iff)
  then have "foldl (\<lambda>s m. scrub m s) ?t CONTROL_TAG_MARKERS = ?t"
    by (simp add: CONTROL_TAG_MARKERS_def)
  then show ?thesis by (simp only: neutralizeControlTags_def)
qed

section \<open>The cap on turns\<close>

lemma turns_counted: "cr_turns (foldl (onTurnEnd cap) r ts) = cr_turns r + length ts"
  by (induction ts arbitrary: r) (simp_all add: onTurnEnd_def Let_def)

lemma cap_hit_once:
  assumes "cr_hitCap r \<longleftrightarrow> (\<exists>c \<in> set_option cap. c \<le> cr_turns r)" "cr_aborts r = (if cr_hitCap r then 1 else 0)"
  shows "(cr_hitCap (foldl (onTurnEnd cap) r ts) \<longleftrightarrow> (\<exists>c \<in> set_option cap. c \<le> cr_turns r + length ts)) \<and>
    cr_aborts (foldl (onTurnEnd cap) r ts) = (if cr_hitCap (foldl (onTurnEnd cap) r ts) then 1 else 0)"
  using assms
proof (induction ts arbitrary: r)
  case (Cons t ts)
  have "cr_hitCap (onTurnEnd cap r t) \<longleftrightarrow> (\<exists>c \<in> set_option cap. c \<le> cr_turns (onTurnEnd cap r t))"
    "cr_aborts (onTurnEnd cap r t) = (if cr_hitCap (onTurnEnd cap r t) then 1 else 0)"
    "cr_turns (onTurnEnd cap r t) = Suc (cr_turns r)"
    using Cons.prems by (auto simp: onTurnEnd_def Let_def)
  then show ?case using Cons.IH [of "onTurnEnd cap r t"] by (cases cap) simp_all
qed simp

lemma run_capped:
  "let r = foldl (onTurnEnd (turn_cap maxTurns)) child_start ts in
     (cr_hitCap r \<longleftrightarrow> (\<exists>m \<in> set_option maxTurns. 0 < m \<and> m \<le> length ts)) \<and> cr_aborts r = (if cr_hitCap r then 1 else 0)"
  using cap_hit_once [of child_start "turn_cap maxTurns" ts]
  by (cases maxTurns) (auto simp: Let_def child_start_def turn_cap_def)

text \<open>An error of the prompt after the cap is no error of the child; one before it, or a stop, is.\<close>

lemma run_result_cases:
  "runAttachedSubagent dots maxTurns ts (Some err) aborted (Some raw) =
     (if \<exists>m \<in> set_option maxTurns. 0 < m \<and> m \<le> length ts
      then Some (Answered (partialResult (neutralizeControlTags raw) (the maxTurns)))
      else if aborted then Some Stopped
      else Some (failedResult dots err (foldl (onTurnEnd (turn_cap maxTurns)) child_start ts)))"
  using run_capped [of maxTurns ts]
  by (cases maxTurns) (auto simp: runAttachedSubagent_def Let_def turn_cap_def)

text \<open>A text that cannot be read back fails the call.\<close>

lemma run_may_fail: "runAttachedSubagent dots maxTurns ts None aborted None = None"
  by (simp add: runAttachedSubagent_def)

section \<open>What the parent reads\<close>

lemma has_tag_append: "CHR ''<'' \<notin> set pre \<Longrightarrow> has_tag m (pre @ s) = has_tag m s"
  by (induction pre) (auto simp: tag_at_def)

lemma nat_text_no_less: "CHR ''<'' \<notin> set (nat_text n)"
proof (induction n rule: nat_text.induct)
  case (1 n)
  have digit: "char_of (48 + d) \<noteq> CHR ''<''" if "d < 10" for d :: nat
  proof
    assume "char_of (48 + d) = CHR ''<''"
    then have "of_char (char_of (48 + d) :: char) = (60 :: nat)" by simp
    then show False using that by (simp add: of_char_of)
  qed
  show ?case
  proof (cases "n < 10")
    case True
    then show ?thesis using digit [of n] by (simp add: nat_text.simps)
  next
    case False
    then show ?thesis using 1 digit [of "n mod 10"] by (subst nat_text.simps) simp
  qed
qed

lemma cut_note_no_less: "CHR ''<'' \<notin> set (cut_note cap)"
  by (simp add: cut_note_def nat_text_no_less)

lemma partial_tag: "has_tag m (partialResult s cap) \<Longrightarrow> has_tag m s"
  using has_tag_append [of "cut_note cap @ ''\<newline>''" m s] cut_note_no_less [of cap]
    has_tag_append [of "cut_note cap @ '' subagent produced no answer before the limit.''" m "[]"]
  by (auto simp: partialResult_def split: if_splits)

text \<open>C38: Whatever a child writes, an answer that is handed to its parent, in full or cut off at the cap on
  turns, has no control tag of the harness in it, opening or closing, in any case of letters; and the
  run is stopped at its cap and counts as answered, not as failed.\<close>

theorem child_answer_scrubbed:
  assumes "runAttachedSubagent dots maxTurns ts failed aborted read = Some res"
  shows "(case res of Answered t \<Rightarrow> list_all (\<lambda>m. \<not> has_tag m t) CONTROL_TAG_MARKERS | _ \<Rightarrow> True) \<and>
    (maxTurns = Some c \<longrightarrow> 0 < c \<longrightarrow> c \<le> length ts \<longrightarrow> failed \<noteq> None \<longrightarrow> \<not> is_error_result res)"
proof
  have clean: "\<not> has_tag m (neutralizeControlTags s)" "\<not> has_tag m (partialResult (neutralizeControlTags s) n)"
    if "m \<in> set CONTROL_TAG_MARKERS" for m s n
    using neutralized_clean [of s] partial_tag that by (auto simp: list_all_iff)
  show "case res of Answered t \<Rightarrow> list_all (\<lambda>m. \<not> has_tag m t) CONTROL_TAG_MARKERS | _ \<Rightarrow> True"
    using assms clean
    by (auto simp: runAttachedSubagent_def Let_def list_all_iff failedResult_def split: option.splits if_splits child_result.splits)
  show "maxTurns = Some c \<longrightarrow> 0 < c \<longrightarrow> c \<le> length ts \<longrightarrow> failed \<noteq> None \<longrightarrow> \<not> is_error_result res"
    using assms run_result_cases [of dots maxTurns ts _ aborted] run_capped [of maxTurns ts]
    by (cases read) (auto simp: runAttachedSubagent_def Let_def)
qed

definition sample_text :: string where
  "sample_text = ''[partial: stopped after reaching the 2-turn limit]\<newline>see <'' @ CHR 0x5C # ''System-Reminder>''"

lemma sample_answer:
  "runAttachedSubagent ''...'' (Some 2) [''a'', ''b''] (Some ''aborted'') False (Some ''see <System-Reminder>'') =
     Some (Answered sample_text)"
  by code_simp

theorem child_answer_scrubbed_witness:
  "\<not> is_error_result (Answered sample_text) \<and>
   list_all (\<lambda>m. \<not> has_tag m sample_text) CONTROL_TAG_MARKERS"
  using child_answer_scrubbed [OF sample_answer, of 2] by simp

end
