(* ===== verification/SubSpawn.thy ===== *)
theory SubSpawn
  imports SubChild
begin

text \<open>
  Child agents that run in the background: \<open>packages/sidecar/src/runtime/subagent/agentSpawner.ts\<close> with
  \<open>subagentDelivery.ts\<close> and \<open>subagentPending.ts\<close>. A background run goes on when the call that started it
  has returned. When the child stops, its end is announced, its text saved, a notice recorded in the
  parent's session, delivered, and the record cleared; what could not be delivered is delivered when the
  parent is attached the next time. The steps are what happens between two awaits, so runs, flushes,
  stops and a restart of the process interleave in every order. The operations on one parent's record
  are queued behind one another in the code and are single steps.
\<close>

section \<open>Delivery\<close>

datatype lane_answer = LaneTakes | LaneBusy | LaneFails

datatype queue_answer = QueueTakes | QueueIdle | QueueFails

text \<open>What the parent's session answers: whether it is attached, to the prompt, to the follow-up behind a
  busy lane, and to the second prompt.\<close>

record lane_reply =
  ln_attached :: bool
  ln_first :: lane_answer
  ln_queue :: queue_answer
  ln_second :: lane_answer

datatype delivery = Landed | Unreachable | Threw

definition deliverSubagentResult :: "lane_reply \<Rightarrow> delivery" where
  "deliverSubagentResult l =
     (if \<not> ln_attached l then Unreachable
      else case ln_first l of
        LaneTakes \<Rightarrow> Landed
      | LaneFails \<Rightarrow> Threw
      | LaneBusy \<Rightarrow>
          (case ln_queue l of
             QueueTakes \<Rightarrow> Landed
           | QueueFails \<Rightarrow> Threw
           | QueueIdle \<Rightarrow> (if ln_second l = LaneTakes then Landed else Threw)))"

section \<open>The record of undelivered notices\<close>

datatype run_outcome = RunCompleted | RunErrored | RunAborted

record pending_result =
  pd_sub :: string
  pd_outcome :: run_outcome
  pd_path :: "string option"

type_synonym pending_map = "(string, pending_result) js_map"

definition addPendingSubagentResult :: "pending_map \<Rightarrow> string \<Rightarrow> pending_result \<Rightarrow> pending_map" where
  "addPendingSubagentResult m call entry = jm_set m call entry"

definition clearPendingSubagentResult :: "pending_map \<Rightarrow> string \<Rightarrow> pending_map" where
  "clearPendingSubagentResult m call = (if jm_get m call = None then m else jm_delete m call)"

section \<open>State\<close>

definition MAX_CONCURRENT_BACKGROUND_SUBAGENTS :: nat where
  "MAX_CONCURRENT_BACKGROUND_SUBAGENTS = 8"

text \<open>Where a background run is: being prepared; the child working; saving its text; recording the
  notice; recording the notice of a failed settlement; delivering; clearing the record; the last block;
  over; or given up while it was prepared.\<close>

datatype run_phase =
    Preparing
  | Executing
  | Persisting run_outcome
  | Recording run_outcome "string option"
  | FallbackRecording
  | Delivering
  | Clearing
  | Finishing
  | Over
  | GivenUp

record background_run =
  br_parent :: string
  br_call :: string
  br_sub :: string
  br_phase :: run_phase

text \<open>Calls that a parent waits for: a child that is started, or continued.\<close>

record waited_call =
  wc_parent :: string
  wc_call :: string
  wc_sub :: string
  wc_resume :: bool
  wc_open :: bool

datatype stop_handle = RunHandle nat | CallHandle nat

datatype flush_phase = FlushReading | FlushAt "(string \<times> pending_result) list" | FlushClearing string "(string \<times> pending_result) list"

text \<open>Runs and calls have the place in their list as their name. \<open>sp_shared\<close> are the calls that wait for
  the resume another call has under way: their parent, their identifier, and the place of that
  resume among the calls. Of the fields, \<open>sp_pending\<close> is on disk;
  \<open>sp_events\<close>, \<open>sp_notices\<close> and \<open>sp_recorded\<close> are what was announced, what reached parents (with
  whether it was late) and what was recorded.\<close>

record spawner =
  sp_runs :: "background_run list"
  sp_calls :: "waited_call list"
  sp_shared :: "(string \<times> string \<times> nat) list"
  sp_slots :: "string list"
  sp_settled :: "string list"
  sp_inflight :: "(string, string list) js_map"
  sp_handles :: "(string, stop_handle \<times> string) js_map"
  sp_aborted :: "stop_handle list"
  sp_flushing :: "(string, flush_phase) js_map"
  sp_pending :: "string \<Rightarrow> pending_map"
  sp_events :: "(nat \<times> run_outcome) list"
  sp_notices :: "(string \<times> string \<times> bool) list"
  sp_recorded :: "(string \<times> string) list"

definition new_spawner :: spawner where
  "new_spawner = \<lparr>sp_runs = [], sp_calls = [], sp_shared = [], sp_slots = [], sp_settled = [], sp_inflight = [], sp_handles = [], sp_aborted = [],
     sp_flushing = [], sp_pending = (\<lambda>p. []), sp_events = [], sp_notices = [], sp_recorded = []\<rparr>"

section \<open>Operations\<close>

definition in_flight :: "spawner \<Rightarrow> string \<Rightarrow> string list" where
  "in_flight s parent = or_else (jm_get (sp_inflight s) parent) []"

definition track_in :: "string \<Rightarrow> string \<Rightarrow> spawner \<Rightarrow> spawner" where
  "track_in parent call s = s\<lparr>sp_inflight := jm_set (sp_inflight s) parent
     (if call \<in> set (in_flight s parent) then in_flight s parent else in_flight s parent @ [call])\<rparr>"

definition track_out :: "string \<Rightarrow> string \<Rightarrow> spawner \<Rightarrow> spawner" where
  "track_out parent call s =
     (case jm_get (sp_inflight s) parent of
        None \<Rightarrow> s
      | Some ids \<Rightarrow>
          let rest = removeAll call ids in
          s\<lparr>sp_inflight := (if rest = [] then jm_delete (sp_inflight s) parent else jm_set (sp_inflight s) parent rest)\<rparr>)"

definition releaseController :: "string \<Rightarrow> spawner \<Rightarrow> spawner" where
  "releaseController sub s = s\<lparr>sp_handles := jm_delete (sp_handles s) sub\<rparr>"

definition abortSubagentRun :: "string \<Rightarrow> string option \<Rightarrow> spawner \<Rightarrow> bool \<times> spawner" where
  "abortSubagentRun sub forParent s =
     (case jm_get (sp_handles s) sub of
        None \<Rightarrow> (False, s)
      | Some (handle, parent) \<Rightarrow>
          if handle \<in> set (sp_aborted s) then (False, s)
          else if \<exists>p \<in> set_option forParent. p \<noteq> parent then (False, s)
          else (True, s\<lparr>sp_aborted := handle # sp_aborted s\<rparr>))"

definition children_of :: "string \<Rightarrow> spawner \<Rightarrow> string list" where
  "children_of parent s = map fst (filter (\<lambda>e. snd (snd e) = parent) (sp_handles s))"

text \<open>The request of \<open>stopChildrenOf\<close>; what it returns later are the children that still have a handle.\<close>

definition stopChildrenOf :: "string \<Rightarrow> spawner \<Rightarrow> spawner" where
  "stopChildrenOf parent s = foldl (\<lambda>t sub. snd (abortSubagentRun sub (Some parent) t)) s (children_of parent s)"

definition still_running :: "string list \<Rightarrow> spawner \<Rightarrow> string list" where
  "still_running subs s = filter (\<lambda>sub. jm_get (sp_handles s) sub \<noteq> None) subs"

datatype spawn_refusal = UnknownAgent | NoDirectory | DuplicateCall | TooMany

text \<open>A background spawn up to its first await: the slot is reserved.\<close>

definition spawnSubagent :: "string \<Rightarrow> string \<Rightarrow> bool \<Rightarrow> bool \<Rightarrow> spawner \<Rightarrow> spawn_refusal option \<times> spawner" where
  "spawnSubagent parent call known dirOk s =
     (if \<not> known then (Some UnknownAgent, s)
      else if \<not> dirOk then (Some NoDirectory, s)
      else if call \<in> set (sp_slots s) then (Some DuplicateCall, s)
      else if MAX_CONCURRENT_BACKGROUND_SUBAGENTS \<le> length (sp_slots s) then (Some TooMany, s)
      else (None, s\<lparr>sp_slots := sp_slots s @ [call],
        sp_runs := sp_runs s @ [\<lparr>br_parent = parent, br_call = call, br_sub = [], br_phase = Preparing\<rparr>]\<rparr>))"

definition set_run :: "nat \<Rightarrow> run_phase \<Rightarrow> spawner \<Rightarrow> spawner" where
  "set_run i p s = s\<lparr>sp_runs := (sp_runs s)[i := (sp_runs s ! i)\<lparr>br_phase := p\<rparr>]\<rparr>"

definition spawnBackgroundSubagent :: "nat \<Rightarrow> string \<Rightarrow> spawner \<Rightarrow> spawner" where
  "spawnBackgroundSubagent i sub s =
     (let r = sp_runs s ! i in
      track_in (br_parent r) (br_call r)
        (s\<lparr>sp_runs := (sp_runs s)[i := r\<lparr>br_sub := sub, br_phase := Executing\<rparr>],
          sp_handles := jm_set (sp_handles s) sub (RunHandle i, br_parent r)\<rparr>))"

definition emitSettled :: "nat \<Rightarrow> run_outcome \<Rightarrow> spawner \<Rightarrow> spawner" where
  "emitSettled i outcome s =
     (let call = br_call (sp_runs s ! i) in
      if call \<in> set (sp_settled s) then s
      else s\<lparr>sp_settled := call # sp_settled s, sp_events := sp_events s @ [(i, outcome)]\<rparr>)"

definition outcome_of :: "nat \<Rightarrow> bool \<Rightarrow> spawner \<Rightarrow> run_outcome" where
  "outcome_of i isError s = (if RunHandle i \<in> set (sp_aborted s) then RunAborted else if isError then RunErrored else RunCompleted)"

text \<open>The child has stopped: the block that tracked it ends, its handle is released if it had come to run,
  and its end is announced. A listener may throw.\<close>

definition run_settled :: "nat \<Rightarrow> bool \<Rightarrow> bool \<Rightarrow> bool \<Rightarrow> spawner \<Rightarrow> spawner" where
  "run_settled i isError started threw s =
     (let r = sp_runs s ! i; outcome = outcome_of i isError s;
          s1 = track_out (br_parent r) (br_call r) (if started then releaseController (br_sub r) s else s)
      in set_run i (if threw then FallbackRecording else Persisting outcome) (emitSettled i outcome s1))"

definition record_notice :: "nat \<Rightarrow> pending_result \<Rightarrow> spawner \<Rightarrow> spawner" where
  "record_notice i entry s =
     (let r = sp_runs s ! i; p = br_parent r in
      s\<lparr>sp_pending := (sp_pending s)(p := addPendingSubagentResult (sp_pending s p) (br_call r) entry),
        sp_recorded := (p, br_call r) # sp_recorded s\<rparr>)"

text \<open>\<open>recordPendingIfAbsent\<close>.\<close>

definition record_if_absent :: "nat \<Rightarrow> pending_result \<Rightarrow> spawner \<Rightarrow> spawner" where
  "record_if_absent i entry s =
     (if jm_get (sp_pending s (br_parent (sp_runs s ! i))) (br_call (sp_runs s ! i)) \<noteq> None then s else record_notice i entry s)"

definition dropPending :: "string \<Rightarrow> string \<Rightarrow> spawner \<Rightarrow> spawner" where
  "dropPending parent call s = s\<lparr>sp_pending := (sp_pending s)(parent := clearPendingSubagentResult (sp_pending s parent) call)\<rparr>"

text \<open>The last block of the chain.\<close>

definition run_closed :: "nat \<Rightarrow> spawner \<Rightarrow> spawner" where
  "run_closed i s =
     (let r = sp_runs s ! i in
      set_run i Over (releaseController (br_sub r)
        (s\<lparr>sp_slots := removeAll (br_call r) (sp_slots s), sp_settled := removeAll (br_call r) (sp_settled s)\<rparr>)))"

text \<open>The calls a parent waits for.\<close>

definition call_begin :: "string \<Rightarrow> string \<Rightarrow> string \<Rightarrow> bool \<Rightarrow> spawner \<Rightarrow> spawner" where
  "call_begin parent call sub resume s =
     track_in parent call (s\<lparr>sp_calls := sp_calls s @ [\<lparr>wc_parent = parent, wc_call = call, wc_sub = sub, wc_resume = resume, wc_open = True\<rparr>]\<rparr>)"

definition running_resume :: "string \<Rightarrow> spawner \<Rightarrow> nat option" where
  "running_resume sub s =
     find (\<lambda>k. wc_open (sp_calls s ! k) \<and> wc_resume (sp_calls s ! k) \<and> wc_sub (sp_calls s ! k) = sub) [0..<length (sp_calls s)]"

text \<open>A second resume of a session shares the one that is running: it waits for its result, and it is
  not tracked.\<close>

definition resumeSubagent :: "string \<Rightarrow> string \<Rightarrow> string \<Rightarrow> spawner \<Rightarrow> spawner" where
  "resumeSubagent parent call sub s =
     (case running_resume sub s of
        Some k \<Rightarrow> s\<lparr>sp_shared := sp_shared s @ [(parent, call, k)]\<rparr>
      | None \<Rightarrow> call_begin parent call sub True s)"

definition call_runs :: "nat \<Rightarrow> spawner \<Rightarrow> spawner" where
  "call_runs k s = s\<lparr>sp_handles := jm_set (sp_handles s) (wc_sub (sp_calls s ! k)) (CallHandle k, wc_parent (sp_calls s ! k))\<rparr>"

definition call_end :: "nat \<Rightarrow> bool \<Rightarrow> spawner \<Rightarrow> spawner" where
  "call_end k started s =
     (let c = sp_calls s ! k in
      track_out (wc_parent c) (wc_call c)
        ((if started then releaseController (wc_sub c) s else s)\<lparr>sp_calls := (sp_calls s)[k := c\<lparr>wc_open := False\<rparr>]\<rparr>))"

text \<open>A flush; without entries left it is over.\<close>

definition flush_to :: "string \<Rightarrow> (string \<times> pending_result) list \<Rightarrow> spawner \<Rightarrow> spawner" where
  "flush_to parent entries s =
     s\<lparr>sp_flushing := (if entries = [] then jm_delete (sp_flushing s) parent else jm_set (sp_flushing s) parent (FlushAt entries))\<rparr>"

definition flush_begin :: "string \<Rightarrow> spawner \<Rightarrow> spawner" where
  "flush_begin parent s =
     (if jm_get (sp_flushing s) parent \<noteq> None then s else s\<lparr>sp_flushing := jm_set (sp_flushing s) parent FlushReading\<rparr>)"

definition notice :: "string \<Rightarrow> string \<Rightarrow> bool \<Rightarrow> spawner \<Rightarrow> spawner" where
  "notice parent call late s = s\<lparr>sp_notices := sp_notices s @ [(parent, call, late)]\<rparr>"

text \<open>What a new process starts with: the files.\<close>

definition restarted :: "spawner \<Rightarrow> spawner" where
  "restarted s = new_spawner\<lparr>sp_pending := sp_pending s, sp_notices := sp_notices s, sp_recorded := sp_recorded s\<rparr>"

section \<open>Steps\<close>

datatype spawner_event =
    Spawn string string bool bool
  | PrepareFailed nat
  | Launched nat string
  | RunAttached nat
  | TimedOut nat
  | AbortRun string "string option"
  | StopChildren string
  | RunSettled nat bool bool bool
  | Persisted nat bool
  | FormatThrew nat
  | Recorded nat bool
  | FallbackRecorded nat bool
  | Delivered nat lane_reply
  | Cleared nat bool
  | Finished nat
  | CallBegin string string string
  | ResumeBegin string string string
  | CallRuns nat
  | CallEnd nat bool
  | ParentAttached string
  | FlushRead string bool
  | FlushDelivered string lane_reply
  | FlushCleared string bool
  | Restart

definition run_in :: "spawner \<Rightarrow> nat \<Rightarrow> run_phase option" where
  "run_in s i = (if i < length (sp_runs s) then Some (br_phase (sp_runs s ! i)) else None)"

definition run_entry :: "spawner \<Rightarrow> nat \<Rightarrow> run_outcome \<Rightarrow> string option \<Rightarrow> pending_result" where
  "run_entry s i outcome path = \<lparr>pd_sub = br_sub (sp_runs s ! i), pd_outcome = outcome, pd_path = path\<rparr>"

text \<open>A flag says whether an operation on the disk succeeds. The name of a saved result is the child's.\<close>

fun spawner_step :: "spawner \<Rightarrow> spawner_event \<Rightarrow> spawner option" where
  "spawner_step s (Spawn parent call known dirOk) = Some (snd (spawnSubagent parent call known dirOk s))"
| "spawner_step s (PrepareFailed i) =
     (if run_in s i = Some Preparing
      then Some (set_run i GivenUp (s\<lparr>sp_slots := removeAll (br_call (sp_runs s ! i)) (sp_slots s)\<rparr>)) else None)"
| "spawner_step s (Launched i sub) =
     (if run_in s i = Some Preparing then Some (spawnBackgroundSubagent i sub s) else None)"
| "spawner_step s (RunAttached i) =
     (if run_in s i = Some Executing
      then Some (s\<lparr>sp_handles := jm_set (sp_handles s) (br_sub (sp_runs s ! i)) (RunHandle i, br_parent (sp_runs s ! i))\<rparr>) else None)"
| "spawner_step s (TimedOut i) =
     (case run_in s i of
        None \<Rightarrow> None
      | Some p \<Rightarrow> if p \<in> {Preparing, Over, GivenUp} then None else Some (s\<lparr>sp_aborted := RunHandle i # sp_aborted s\<rparr>))"
| "spawner_step s (AbortRun sub forParent) = Some (snd (abortSubagentRun sub forParent s))"
| "spawner_step s (StopChildren parent) = Some (stopChildrenOf parent s)"
| "spawner_step s (RunSettled i isError started threw) =
     (if run_in s i = Some Executing then Some (run_settled i isError started threw s) else None)"
| "spawner_step s (Persisted i ok) =
     (case run_in s i of
        Some (Persisting outcome) \<Rightarrow>
          Some (set_run i (Recording outcome (if ok then Some (br_sub (sp_runs s ! i)) else None)) s)
      | _ \<Rightarrow> None)"
| "spawner_step s (FormatThrew i) =
     (case run_in s i of
        Some (Persisting outcome) \<Rightarrow> Some (set_run i FallbackRecording (emitSettled i RunErrored s))
      | _ \<Rightarrow> None)"
| "spawner_step s (Recorded i ok) =
     (case run_in s i of
        Some (Recording outcome path) \<Rightarrow>
          Some (set_run i Delivering (if ok then record_notice i (run_entry s i outcome path) s else s))
      | _ \<Rightarrow> None)"
| "spawner_step s (FallbackRecorded i ok) =
     (if run_in s i = Some FallbackRecording
      then Some (set_run i Delivering (if ok then record_if_absent i (run_entry s i RunErrored None) s else s)) else None)"
| "spawner_step s (Delivered i reply) =
     (if run_in s i = Some Delivering
      then Some (if deliverSubagentResult reply = Landed
                 then set_run i Clearing (notice (br_parent (sp_runs s ! i)) (br_call (sp_runs s ! i)) False s)
                 else set_run i Finishing s)
      else None)"
| "spawner_step s (Cleared i ok) =
     (if run_in s i = Some Clearing
      then Some (set_run i Finishing (if ok then dropPending (br_parent (sp_runs s ! i)) (br_call (sp_runs s ! i)) s else s)) else None)"
| "spawner_step s (Finished i) = (if run_in s i = Some Finishing then Some (run_closed i s) else None)"
| "spawner_step s (CallBegin parent call sub) = Some (call_begin parent call sub False s)"
| "spawner_step s (ResumeBegin parent call sub) = Some (resumeSubagent parent call sub s)"
| "spawner_step s (CallRuns k) =
     (if k < length (sp_calls s) \<and> wc_open (sp_calls s ! k) then Some (call_runs k s) else None)"
| "spawner_step s (CallEnd k started) =
     (if k < length (sp_calls s) \<and> wc_open (sp_calls s ! k) then Some (call_end k started s) else None)"
| "spawner_step s (ParentAttached parent) = Some (flush_begin parent s)"
| "spawner_step s (FlushRead parent ok) =
     (if jm_get (sp_flushing s) parent = Some FlushReading
      then Some (flush_to parent (if ok then sp_pending s parent else []) s) else None)"
| "spawner_step s (FlushDelivered parent reply) =
     (case jm_get (sp_flushing s) parent of
        Some (FlushAt ((call, entry) # rest)) \<Rightarrow>
          Some (if deliverSubagentResult reply = Landed
                then (notice parent call True s)\<lparr>sp_flushing := jm_set (sp_flushing s) parent (FlushClearing call rest)\<rparr>
                else flush_to parent [] s)
      | _ \<Rightarrow> None)"
| "spawner_step s (FlushCleared parent ok) =
     (case jm_get (sp_flushing s) parent of
        Some (FlushClearing call rest) \<Rightarrow> Some (flush_to parent rest (if ok then dropPending parent call s else s))
      | _ \<Rightarrow> None)"
| "spawner_step s Restart = Some (restarted s)"

fun spawner_run :: "spawner \<Rightarrow> spawner_event list \<Rightarrow> spawner option" where
  "spawner_run s [] = Some s"
| "spawner_run s (e # es) = (case spawner_step s e of None \<Rightarrow> None | Some t \<Rightarrow> spawner_run t es)"

inductive spawner_moves :: "spawner \<Rightarrow> spawner \<Rightarrow> bool" where
  "spawner_step s e = Some t \<Longrightarrow> spawner_moves s t"

inductive_cases spawner_movesE: "spawner_moves s t"

lemma spawner_run_moves: "spawner_run s es = Some t \<Longrightarrow> spawner_moves\<^sup>*\<^sup>* s t"
proof (induction es arbitrary: s)
  case (Cons e es)
  then obtain u where "spawner_step s e = Some u" "spawner_run u es = Some t" by (auto split: option.splits)
  then show ?case using Cons.IH by (meson converse_rtranclp_into_rtranclp spawner_moves.intros)
qed simp

section \<open>Continuing a child\<close>

record agent_def =
  ad_type :: string
  ad_tools :: "string list option"
  ad_claude :: bool
  ad_maxTurns :: "nat option"

datatype resume_refusal = SessionUnreadable | NotASubagent | OtherParent | DefinitionGone | OnClaudeCode | TurnsSpent nat nat

definition findAgent :: "agent_def list \<Rightarrow> string \<Rightarrow> agent_def option" where
  "findAgent agents t = find (\<lambda>a. ad_type a = t) agents"

text \<open>The checks before a child is continued, on what its session holds; the number of turns it has used
  counts as none when it cannot be read.\<close>

definition runResume_check :: "agent_def list \<Rightarrow> string \<Rightarrow> session_facts option \<Rightarrow> nat option \<Rightarrow> resume_refusal + agent_def \<times> nat option" where
  "runResume_check agents parent facts used =
     (case facts of
        None \<Rightarrow> Inl SessionUnreadable
      | Some md \<Rightarrow>
          if sf_kind md \<noteq> Some SubagentKind then Inl NotASubagent
          else if sf_parent md \<noteq> Some parent then Inl OtherParent
          else (case (case sf_agentType md of None \<Rightarrow> None | Some t \<Rightarrow> findAgent agents t) of
             None \<Rightarrow> Inl DefinitionGone
           | Some def \<Rightarrow>
               if ad_claude def then Inl OnClaudeCode
               else (case ad_maxTurns def of
                  None \<Rightarrow> Inr (def, None)
                | Some m \<Rightarrow> if m \<le> or_else used 0 then Inl (TurnsSpent m (or_else used 0))
                    else Inr (def, Some (m - or_else used 0)))))"

lemma resume_checked:
  "runResume_check agents parent (Some md) used = Inr (def, budget) \<Longrightarrow>
   sf_kind md = Some SubagentKind \<and> sf_parent md = Some parent \<and> sf_agentType md = Some (ad_type def) \<and> def \<in> set agents \<and>
   \<not> ad_claude def \<and> (\<forall>b \<in> set_option budget. 0 < b \<and> (\<exists>m. ad_maxTurns def = Some m \<and> b + or_else used 0 = m))"
  by (auto simp: runResume_check_def findAgent_def find_Some_iff split: option.splits if_splits)

end
