(* ===== verification/SubSpawnProps.thy ===== *)
theory SubSpawnProps
  imports SubSpawn
begin

text \<open>
  What holds of child agents in the background, whatever order their steps, flushes, stops and restarts
  come in: how many there are, that each end is announced once, and that a recorded notice is kept
  until it has been delivered.
\<close>

section \<open>The ledger of runs\<close>

text \<open>For the slots and the announcements a run is its call and its stage: not yet announced, announced,
  over, or given up.\<close>

datatype stage = Quiet | Announced | Ended | Dropped

fun stage_of :: "run_phase \<Rightarrow> stage" where
  "stage_of Preparing = Quiet"
| "stage_of Executing = Quiet"
| "stage_of Over = Ended"
| "stage_of GivenUp = Dropped"
| "stage_of _ = Announced"

definition ledger :: "background_run list \<Rightarrow> (string \<times> stage) list" where
  "ledger rs = map (\<lambda>r. (br_call r, stage_of (br_phase r))) rs"

definition live :: "string \<times> stage \<Rightarrow> bool" where
  "live e \<longleftrightarrow> snd e = Quiet \<or> snd e = Announced"

definition announced :: "nat \<Rightarrow> (nat \<times> run_outcome) list \<Rightarrow> nat" where
  "announced i evs = length (filter (\<lambda>e. fst e = i) evs)"

definition ledger_ok :: "(string \<times> stage) list \<Rightarrow> string list \<Rightarrow> string list \<Rightarrow> (nat \<times> run_outcome) list \<Rightarrow> bool" where
  "ledger_ok l slots settled evs \<longleftrightarrow>
     distinct slots \<and> length slots \<le> MAX_CONCURRENT_BACKGROUND_SUBAGENTS \<and>
     set slots = fst ` set (filter live l) \<and> distinct (map fst (filter live l)) \<and>
     set settled = fst ` set (filter (\<lambda>e. snd e = Announced) l) \<and>
     (\<forall>i. announced i evs = (if i < length l \<and> snd (l ! i) \<in> {Announced, Ended} then 1 else 0))"

lemma ledger_length [simp]: "length (ledger rs) = length rs"
  by (simp add: ledger_def)

lemma ledger_nth: "i < length rs \<Longrightarrow> ledger rs ! i = (br_call (rs ! i), stage_of (br_phase (rs ! i)))"
  by (simp add: ledger_def)

lemma ledger_update:
  "i < length rs \<Longrightarrow> br_call r = br_call (rs ! i) \<Longrightarrow>
   ledger (rs[i := r]) = (ledger rs)[i := (br_call (rs ! i), stage_of (br_phase r))]"
  by (simp add: ledger_def map_update)

lemma ledger_same:
  "i < length rs \<Longrightarrow> br_call r = br_call (rs ! i) \<Longrightarrow> stage_of (br_phase r) = stage_of (br_phase (rs ! i)) \<Longrightarrow>
   ledger (rs[i := r]) = ledger rs"
  by (metis ledger_length ledger_nth ledger_update list_update_id)

text \<open>An entry taken apart from the rest.\<close>

lemma split_at:
  assumes "i < length l" "l ! i = x"
  obtains a b where "l = a @ x # b" "length a = i" "\<forall>y. l[i := y] = a @ y # b"
proof
  show "l = take i l @ x # drop (Suc i) l" using assms id_take_nth_drop by metis
  show "length (take i l) = i" using assms(1) by simp
  show "\<forall>y. l[i := y] = take i l @ y # drop (Suc i) l" using assms(1) by (simp add: upd_conv_take_nth_drop)
qed

lemma announced_append: "announced i (evs @ [(j, out)]) = announced i evs + (if j = i then 1 else 0)"
  by (simp add: announced_def)

lemma ledger_spawn:
  assumes "ledger_ok l slots settled evs" "call \<notin> set slots" "length slots < MAX_CONCURRENT_BACKGROUND_SUBAGENTS"
  shows "ledger_ok (l @ [(call, Quiet)]) (slots @ [call]) settled evs"
  using assms by (auto simp: ledger_ok_def live_def nth_append less_Suc_eq)

lemma ledger_announce:
  assumes ok: "ledger_ok l slots settled evs" and i: "i < length l" "l ! i = (call, Quiet)"
  shows "call \<notin> set settled" "ledger_ok (l[i := (call, Announced)]) slots (call # settled) (evs @ [(i, out)])"
proof -
  obtain a b where l: "l = a @ (call, Quiet) # b" "length a = i" "\<forall>y. l[i := y] = a @ y # b" by (rule split_at [OF i])
  have d: "call \<notin> fst ` set (filter live a)" "call \<notin> fst ` set (filter live b)"
    using ok by (auto simp: ledger_ok_def l(1) live_def)
  have "set settled \<subseteq> fst ` set (filter live a) \<union> fst ` set (filter live b)"
    using ok by (auto simp: ledger_ok_def l(1) live_def)
  then show "call \<notin> set settled" using d by blast
  have cnt: "announced k (evs @ [(i, out)]) = (if k < length (a @ (call, Announced) # b) \<and> snd ((a @ (call, Announced) # b) ! k) \<in> {Announced, Ended} then 1 else 0)" for k
  proof (cases "k = i")
    case True
    have "announced i evs = 0" using ok i by (simp add: ledger_ok_def)
    then show ?thesis using True l(2) by (auto simp: announced_append nth_append)
  next
    case False
    then have "(a @ (call, Announced) # b) ! k = l ! k" by (simp add: l(1) l(2) [symmetric] nth_append nth_Cons')
    moreover have "length l = length (a @ (call, Announced) # b)" by (simp add: l(1))
    ultimately show ?thesis using ok False by (simp add: ledger_ok_def announced_append)
  qed
  have "ledger_ok (a @ (call, Announced) # b) slots (call # settled) (evs @ [(i, out)])"
    unfolding ledger_ok_def
  proof (intro conjI allI)
    show "announced k (evs @ [(i, out)]) = (if k < length (a @ (call, Announced) # b) \<and> snd ((a @ (call, Announced) # b) ! k) \<in> {Announced, Ended} then 1 else 0)" for k
      by (rule cnt)
  qed (use ok in \<open>auto simp: ledger_ok_def l(1) live_def\<close>)
  then show "ledger_ok (l[i := (call, Announced)]) slots (call # settled) (evs @ [(i, out)])" by (simp add: l(3))
qed

lemma ledger_leave:
  assumes ok: "ledger_ok l slots settled evs" and i: "i < length l" "l ! i = (call, from_st)"
    and move: "from_st = Quiet \<and> to_st = Dropped \<or> from_st = Announced \<and> to_st = Ended"
  shows "ledger_ok (l[i := (call, to_st)]) (removeAll call slots) (removeAll call settled) evs"
proof -
  obtain a b where l: "l = a @ (call, from_st) # b" "length a = i" "\<forall>y. l[i := y] = a @ y # b" by (rule split_at [OF i])
  have d: "call \<notin> fst ` set (filter live a)" "call \<notin> fst ` set (filter live b)"
  proof -
    have "live (call, from_st)" using move by (auto simp: live_def)
    then have "distinct (map fst (filter live a) @ call # map fst (filter live b))" using ok by (simp add: ledger_ok_def l(1))
    then show "call \<notin> fst ` set (filter live a)" "call \<notin> fst ` set (filter live b)" by (simp_all del: set_filter)
  qed
  have an: "call \<notin> fst ` set (filter (\<lambda>e. snd e = Announced) a)" "call \<notin> fst ` set (filter (\<lambda>e. snd e = Announced) b)"
    using d by (auto simp: live_def)
  have cnt: "announced k evs = (if k < length (a @ (call, to_st) # b) \<and> snd ((a @ (call, to_st) # b) ! k) \<in> {Announced, Ended} then 1 else 0)" for k
  proof (cases "k = i")
    case True
    then show ?thesis using ok i l(2) move by (auto simp: ledger_ok_def l(1))
  next
    case False
    then have "(a @ (call, to_st) # b) ! k = l ! k" by (simp add: l(1) l(2) [symmetric] nth_append nth_Cons')
    moreover have "length l = length (a @ (call, to_st) # b)" by (simp add: l(1))
    ultimately show ?thesis using ok by (simp add: ledger_ok_def)
  qed
  have st: "live (call, from_st)" "\<not> live (call, to_st)" "(from_st = Announced) = (to_st = Ended)" "to_st \<noteq> Announced"
    using move by (auto simp: live_def)
  have "ledger_ok (a @ (call, to_st) # b) (removeAll call slots) (removeAll call settled) evs"
    unfolding ledger_ok_def
  proof (intro conjI allI)
    show "length (removeAll call slots) \<le> MAX_CONCURRENT_BACKGROUND_SUBAGENTS"
    proof -
      have "length slots \<le> MAX_CONCURRENT_BACKGROUND_SUBAGENTS" using ok by (simp add: ledger_ok_def)
      then show ?thesis unfolding removeAll_filter_not_eq by (rule le_trans [OF length_filter_le])
    qed
    show "set (removeAll call slots) = fst ` set (filter live (a @ (call, to_st) # b))"
      using ok st d by (auto simp: ledger_ok_def l(1))
    show "set (removeAll call settled) = fst ` set (filter (\<lambda>e. snd e = Announced) (a @ (call, to_st) # b))"
      using ok st an by (auto simp: ledger_ok_def l(1))
    show "distinct (removeAll call slots)" using ok by (simp add: ledger_ok_def distinct_removeAll)
    show "distinct (map fst (filter live (a @ (call, to_st) # b)))" using ok st by (auto simp: ledger_ok_def l(1))
    show "announced k evs = (if k < length (a @ (call, to_st) # b) \<and> snd ((a @ (call, to_st) # b) ! k) \<in> {Announced, Ended} then 1 else 0)" for k
      by (rule cnt)
  qed
  then show ?thesis by (simp add: l(3))
qed

section \<open>Frames\<close>

text \<open>Tracking, handles and stops touch nothing else.\<close>

definition same_books :: "spawner \<Rightarrow> spawner \<Rightarrow> bool" where
  "same_books s t \<longleftrightarrow> sp_runs t = sp_runs s \<and> sp_slots t = sp_slots s \<and> sp_settled t = sp_settled s \<and> sp_events t = sp_events s \<and>
     sp_pending t = sp_pending s \<and> sp_notices t = sp_notices s \<and> sp_recorded t = sp_recorded s \<and> sp_flushing t = sp_flushing s"

lemma same_books_refl [simp]: "same_books s s"
  by (simp add: same_books_def)

lemma same_books_trans: "same_books s t \<Longrightarrow> same_books t u \<Longrightarrow> same_books s u"
  by (simp add: same_books_def)

lemma track_in_books [simp]: "same_books s (track_in p c s)"
  by (simp add: same_books_def track_in_def)

lemma track_out_books [simp]: "same_books s (track_out p c s)"
  by (simp add: same_books_def track_out_def Let_def split: option.splits)

lemma release_books [simp]: "same_books s (releaseController sub s)"
  by (simp add: same_books_def releaseController_def)

lemma abort_books [simp]: "same_books s (snd (abortSubagentRun sub p s))"
  by (simp add: same_books_def abortSubagentRun_def split: option.splits)

lemma stop_books [simp]: "same_books s (stopChildrenOf p s)"
proof -
  have "same_books s (foldl (\<lambda>t sub. snd (abortSubagentRun sub (Some p) t)) s subs)" for subs
    by (induction subs rule: rev_induct) (auto intro: same_books_trans)
  then show ?thesis by (simp add: stopChildrenOf_def)
qed

lemma call_books [simp]: "same_books s (call_begin p c sub b s)" "same_books s (resumeSubagent p c sub s)" "same_books s (call_runs k s)"
  "same_books s (call_end k started s)"
proof -
  show b: "same_books s (call_begin p c sub b s)" for b
    unfolding call_begin_def by (rule same_books_trans [OF _ track_in_books]) (simp add: same_books_def)
  show "same_books s (resumeSubagent p c sub s)"
    using b by (simp add: resumeSubagent_def same_books_def [of s "s\<lparr>sp_shared := _\<rparr>"] split: option.splits)
  show "same_books s (call_runs k s)" by (simp add: same_books_def call_runs_def)
  show "same_books s (call_end k started s)"
    unfolding call_end_def Let_def by (rule same_books_trans [OF _ track_out_books]) (simp add: same_books_def releaseController_def)
qed

section \<open>The invariant\<close>

definition told :: "spawner \<Rightarrow> string \<Rightarrow> string \<Rightarrow> bool" where
  "told s p c \<longleftrightarrow> (\<exists>late. (p, c, late) \<in> set (sp_notices s))"

definition kept_or_told :: "spawner \<Rightarrow> bool" where
  "kept_or_told s \<longleftrightarrow> (\<forall>p c. (p, c) \<in> set (sp_recorded s) \<longrightarrow> jm_get (sp_pending s p) c \<noteq> None \<or> told s p c)"

definition clears_told :: "spawner \<Rightarrow> bool" where
  "clears_told s \<longleftrightarrow> (\<forall>r \<in> set (sp_runs s). br_phase r = Clearing \<longrightarrow> told s (br_parent r) (br_call r)) \<and>
     (\<forall>p c rest. jm_get (sp_flushing s) p = Some (FlushClearing c rest) \<longrightarrow> told s p c)"

definition runs_ok :: "spawner \<Rightarrow> bool" where
  "runs_ok s \<longleftrightarrow> ledger_ok (ledger (sp_runs s)) (sp_slots s) (sp_settled s) (sp_events s)"

definition spawner_inv :: "spawner \<Rightarrow> bool" where
  "spawner_inv s \<longleftrightarrow> runs_ok s \<and> kept_or_told s \<and> clears_told s"

lemma spawner_inv_new: "spawner_inv new_spawner"
  by (simp add: spawner_inv_def runs_ok_def kept_or_told_def clears_told_def new_spawner_def ledger_def ledger_ok_def announced_def)

lemma spawner_inv_books: "same_books s t \<Longrightarrow> spawner_inv s \<Longrightarrow> spawner_inv t"
  by (simp add: same_books_def spawner_inv_def runs_ok_def kept_or_told_def clears_told_def told_def)

lemma runs_ok_set_run:
  "i < length (sp_runs s) \<Longrightarrow> stage_of p = stage_of (br_phase (sp_runs s ! i)) \<Longrightarrow> runs_ok s \<Longrightarrow> runs_ok (set_run i p s)"
  by (simp add: runs_ok_def set_run_def ledger_same)

lemma kept_set_run [simp]: "kept_or_told (set_run i p s) = kept_or_told s"
  by (simp add: kept_or_told_def told_def set_run_def)

lemma clears_set_run:
  assumes "clears_told s" "i < length (sp_runs s)" "p = Clearing \<Longrightarrow> told s (br_parent (sp_runs s ! i)) (br_call (sp_runs s ! i))"
  shows "clears_told (set_run i p s)"
proof -
  have "told s (br_parent r) (br_call r)" if r: "r \<in> set ((sp_runs s)[i := (sp_runs s ! i)\<lparr>br_phase := p\<rparr>])" "br_phase r = Clearing" for r
    using set_update_subset_insert [of "sp_runs s" i "(sp_runs s ! i)\<lparr>br_phase := p\<rparr>"] r assms by (auto simp: clears_told_def)
  then show ?thesis using assms(1) by (simp add: clears_told_def set_run_def told_def)
qed

lemma run_in_Some: "run_in s i = Some p \<longleftrightarrow> i < length (sp_runs s) \<and> br_phase (sp_runs s ! i) = p"
  by (auto simp: run_in_def)

lemma inv_spawn: "spawner_inv s \<Longrightarrow> spawner_inv (snd (spawnSubagent p c known dirOk s))"
  using ledger_spawn [of "ledger (sp_runs s)" "sp_slots s" "sp_settled s" "sp_events s" c]
  by (auto simp: spawnSubagent_def spawner_inv_def runs_ok_def kept_or_told_def clears_told_def told_def ledger_def)

lemma inv_given_up:
  assumes inv: "spawner_inv s" and i: "run_in s i = Some Preparing"
  shows "spawner_inv (set_run i GivenUp (s\<lparr>sp_slots := removeAll (br_call (sp_runs s ! i)) (sp_slots s)\<rparr>))"
proof -
  let ?c = "br_call (sp_runs s ! i)"
  have i': "i < length (sp_runs s)" "ledger (sp_runs s) ! i = (?c, Quiet)" using i by (auto simp: run_in_Some ledger_nth)
  have ok: "ledger_ok (ledger (sp_runs s)) (sp_slots s) (sp_settled s) (sp_events s)"
    using inv by (simp add: spawner_inv_def runs_ok_def)
  have "removeAll ?c (sp_settled s) = sp_settled s"
    using ledger_announce(1) [OF ok _ i'(2)] i'(1) by simp
  then have "runs_ok (set_run i GivenUp (s\<lparr>sp_slots := removeAll ?c (sp_slots s)\<rparr>))"
    using ledger_leave [OF ok _ i'(2), of Dropped] i'(1) by (simp add: runs_ok_def set_run_def ledger_update)
  moreover have "clears_told (set_run i GivenUp (s\<lparr>sp_slots := removeAll ?c (sp_slots s)\<rparr>))"
    using inv i'(1) by (intro clears_set_run) (auto simp: spawner_inv_def clears_told_def told_def)
  ultimately show ?thesis using inv by (simp add: spawner_inv_def) (simp add: kept_or_told_def told_def)
qed

lemma inv_launched:
  assumes inv: "spawner_inv s" and i: "run_in s i = Some Preparing"
  shows "spawner_inv (spawnBackgroundSubagent i sub s)"
proof -
  let ?r = "(sp_runs s ! i)\<lparr>br_sub := sub, br_phase := Executing\<rparr>"
  let ?t = "s\<lparr>sp_runs := (sp_runs s)[i := ?r], sp_handles := jm_set (sp_handles s) sub (RunHandle i, br_parent (sp_runs s ! i))\<rparr>"
  have i': "i < length (sp_runs s)" "br_phase (sp_runs s ! i) = Preparing" using i by (auto simp: run_in_Some)
  have "runs_ok ?t" using inv i' by (simp add: spawner_inv_def runs_ok_def ledger_same)
  moreover have "told s (br_parent r) (br_call r)" if "r \<in> set ((sp_runs s)[i := ?r])" "br_phase r = Clearing" for r
    using set_update_subset_insert [of "sp_runs s" i ?r] that inv by (auto simp: spawner_inv_def clears_told_def)
  ultimately have "spawner_inv ?t"
    using inv by (simp add: spawner_inv_def kept_or_told_def clears_told_def told_def)
  then show ?thesis
    unfolding spawnBackgroundSubagent_def Let_def by (rule spawner_inv_books [OF track_in_books])
qed

text \<open>An end is announced: no other live run has the call, so the announcement is not suppressed.\<close>

lemma inv_settled:
  assumes inv: "spawner_inv s" and i: "run_in s i = Some Executing"
  shows "spawner_inv (run_settled i isError started threw s)"
proof -
  let ?c = "br_call (sp_runs s ! i)" and ?o = "outcome_of i isError s"
  define u where "u = track_out (br_parent (sp_runs s ! i)) ?c (if started then releaseController (br_sub (sp_runs s ! i)) s else s)"
  have b: "same_books s u" unfolding u_def by (rule same_books_trans [OF _ track_out_books]) simp
  have inv_u: "spawner_inv u" using spawner_inv_books [OF b inv] .
  have r: "sp_runs u = sp_runs s" using b by (simp add: same_books_def)
  have i': "i < length (sp_runs u)" "ledger (sp_runs u) ! i = (?c, Quiet)" using i r by (auto simp: run_in_Some ledger_nth)
  have ok: "ledger_ok (ledger (sp_runs u)) (sp_slots u) (sp_settled u) (sp_events u)"
    using inv_u by (simp add: spawner_inv_def runs_ok_def)
  have new: "?c \<notin> set (sp_settled u)" using ledger_announce(1) [OF ok _ i'(2)] i'(1) by simp
  let ?p = "if threw then FallbackRecording else Persisting ?o"
  let ?v = "u\<lparr>sp_settled := ?c # sp_settled u, sp_events := sp_events u @ [(i, ?o)]\<rparr>"
  have emit: "emitSettled i ?o u = ?v" using new r by (simp add: emitSettled_def Let_def)
  have "stage_of ?p = Announced" by simp
  then have "runs_ok (set_run i ?p ?v)"
    using ledger_announce(2) [OF ok _ i'(2), of ?o] i'(1) r by (simp add: runs_ok_def set_run_def ledger_update)
  moreover have "clears_told (set_run i ?p ?v)"
    using inv_u i'(1) by (intro clears_set_run) (auto simp: spawner_inv_def clears_told_def told_def split: if_splits)
  moreover have "kept_or_told (set_run i ?p ?v)"
    using inv_u by (simp add: spawner_inv_def) (simp add: kept_or_told_def told_def)
  ultimately show ?thesis
    by (simp add: run_settled_def Let_def u_def [symmetric] emit spawner_inv_def)
qed

text \<open>Steps within the settlement.\<close>

lemma announced_stays:
  assumes inv: "spawner_inv s" and i: "i < length (sp_runs s)" "stage_of (br_phase (sp_runs s ! i)) = Announced" "stage_of p = Announced"
    and t: "sp_runs t = sp_runs s" "sp_slots t = sp_slots s" "sp_settled t = sp_settled s" "sp_events t = sp_events s" "sp_flushing t = sp_flushing s"
    and notices: "\<And>q c. told s q c \<Longrightarrow> told t q c" and kept: "kept_or_told t"
    and clear: "p = Clearing \<Longrightarrow> told t (br_parent (sp_runs s ! i)) (br_call (sp_runs s ! i))"
  shows "spawner_inv (set_run i p t)"
proof -
  have "runs_ok t" using inv t by (simp add: spawner_inv_def runs_ok_def)
  then have "runs_ok (set_run i p t)" using runs_ok_set_run [of i t p] i t(1) by simp
  moreover have "clears_told t" using inv notices t(1,5) unfolding spawner_inv_def clears_told_def by metis
  then have "clears_told (set_run i p t)" using clear i(1) t(1) by (intro clears_set_run) auto
  ultimately show ?thesis using kept by (simp add: spawner_inv_def)
qed

lemma emit_suppressed:
  assumes "spawner_inv s" "i < length (sp_runs s)" "stage_of (br_phase (sp_runs s ! i)) = Announced"
  shows "emitSettled i out s = s"
proof -
  have "ledger (sp_runs s) ! i \<in> set (ledger (sp_runs s))" using assms(2) by simp
  then have "(br_call (sp_runs s ! i), Announced) \<in> set (filter (\<lambda>e. snd e = Announced) (ledger (sp_runs s)))"
    using assms(2,3) by (simp add: ledger_nth)
  then have "br_call (sp_runs s ! i) \<in> fst ` set (filter (\<lambda>e. snd e = Announced) (ledger (sp_runs s)))" by force
  then have "br_call (sp_runs s ! i) \<in> set (sp_settled s)"
    using assms(1) by (simp only: spawner_inv_def runs_ok_def ledger_ok_def)
  then show ?thesis by (simp add: emitSettled_def)
qed

lemma kept_record: "kept_or_told s \<Longrightarrow> kept_or_told (record_notice i entry s)"
  by (auto simp: kept_or_told_def told_def record_notice_def addPendingSubagentResult_def Let_def)

lemma kept_record_absent: "kept_or_told s \<Longrightarrow> kept_or_told (record_if_absent i entry s)"
  by (simp add: record_if_absent_def kept_record)

lemma clear_get: "jm_get (clearPendingSubagentResult m c) c' = (if c' = c then None else jm_get m c')"
  by (simp add: clearPendingSubagentResult_def)

lemma kept_drop: "kept_or_told s \<Longrightarrow> told s p c \<Longrightarrow> kept_or_told (dropPending p c s)"
  by (auto simp: kept_or_told_def told_def dropPending_def clear_get)

lemma kept_notice: "kept_or_told s \<Longrightarrow> kept_or_told (notice p c late s)"
  by (auto simp: kept_or_told_def told_def notice_def)

lemma told_notice [simp]: "told (notice p c late s) p c" "told s q d \<Longrightarrow> told (notice p c late s) q d"
  by (auto simp: told_def notice_def)

lemma record_notice_fields [simp]:
  "sp_runs (record_notice i e s) = sp_runs s" "sp_slots (record_notice i e s) = sp_slots s" "sp_settled (record_notice i e s) = sp_settled s"
  "sp_events (record_notice i e s) = sp_events s" "sp_flushing (record_notice i e s) = sp_flushing s" "told (record_notice i e s) q c = told s q c"
  by (simp_all add: record_notice_def Let_def told_def)

lemma record_absent_fields [simp]:
  "sp_runs (record_if_absent i e s) = sp_runs s" "sp_slots (record_if_absent i e s) = sp_slots s" "sp_settled (record_if_absent i e s) = sp_settled s"
  "sp_events (record_if_absent i e s) = sp_events s" "sp_flushing (record_if_absent i e s) = sp_flushing s" "told (record_if_absent i e s) q c = told s q c"
  by (simp_all add: record_if_absent_def)

lemma drop_fields [simp]:
  "sp_runs (dropPending p c s) = sp_runs s" "sp_slots (dropPending p c s) = sp_slots s" "sp_settled (dropPending p c s) = sp_settled s"
  "sp_events (dropPending p c s) = sp_events s" "sp_flushing (dropPending p c s) = sp_flushing s" "told (dropPending p c s) q d = told s q d"
  by (simp_all add: dropPending_def told_def)

lemma notice_fields [simp]:
  "sp_runs (notice p c b s) = sp_runs s" "sp_slots (notice p c b s) = sp_slots s" "sp_settled (notice p c b s) = sp_settled s"
  "sp_events (notice p c b s) = sp_events s" "sp_flushing (notice p c b s) = sp_flushing s"
  by (simp_all add: notice_def)

lemma inv_closed:
  assumes inv: "spawner_inv s" and i: "run_in s i = Some Finishing"
  shows "spawner_inv (run_closed i s)"
proof -
  let ?c = "br_call (sp_runs s ! i)"
  have i': "i < length (sp_runs s)" "ledger (sp_runs s) ! i = (?c, Announced)" using i by (auto simp: run_in_Some ledger_nth)
  have ok: "ledger_ok (ledger (sp_runs s)) (sp_slots s) (sp_settled s) (sp_events s)"
    using inv by (simp add: spawner_inv_def runs_ok_def)
  let ?t = "releaseController (br_sub (sp_runs s ! i)) (s\<lparr>sp_slots := removeAll ?c (sp_slots s), sp_settled := removeAll ?c (sp_settled s)\<rparr>)"
  have "runs_ok (set_run i Over ?t)"
    using ledger_leave [OF ok _ i'(2), of Ended] i'(1) by (simp add: runs_ok_def set_run_def releaseController_def ledger_update)
  moreover have "clears_told (set_run i Over ?t)"
    using inv i'(1) by (intro clears_set_run) (auto simp: spawner_inv_def clears_told_def told_def releaseController_def)
  ultimately show ?thesis
    using inv by (simp add: run_closed_def Let_def spawner_inv_def) (simp add: kept_or_told_def told_def releaseController_def)
qed

text \<open>A flush changes its own entry.\<close>

lemma inv_flushing:
  assumes inv: "spawner_inv s" and kept: "kept_or_told t" and notices: "\<And>q c. told s q c \<Longrightarrow> told t q c"
    and t: "sp_runs t = sp_runs s" "sp_slots t = sp_slots s" "sp_settled t = sp_settled s" "sp_events t = sp_events s"
    and flush: "\<And>q. q \<noteq> p \<Longrightarrow> jm_get (sp_flushing t) q = jm_get (sp_flushing s) q"
      "\<And>c rest. jm_get (sp_flushing t) p = Some (FlushClearing c rest) \<Longrightarrow> told t p c"
  shows "spawner_inv t"
proof -
  have "clears_told t"
    unfolding clears_told_def
  proof (intro conjI allI impI ballI)
    show "told t (br_parent r) (br_call r)" if "r \<in> set (sp_runs t)" "br_phase r = Clearing" for r
      using inv notices t(1) that by (simp add: spawner_inv_def clears_told_def)
    show "told t q c" if "jm_get (sp_flushing t) q = Some (FlushClearing c rest)" for q c rest
      using inv notices flush that by (cases "q = p") (auto simp: spawner_inv_def clears_told_def)
  qed
  then show ?thesis using inv kept t by (simp add: spawner_inv_def runs_ok_def)
qed

lemma inv_restarted: "spawner_inv s \<Longrightarrow> spawner_inv (restarted s)"
  using spawner_inv_new by (simp add: spawner_inv_def runs_ok_def kept_or_told_def clears_told_def told_def restarted_def new_spawner_def)

lemma flush_to_fields [simp]:
  "sp_runs (flush_to p es s) = sp_runs s" "sp_slots (flush_to p es s) = sp_slots s" "sp_settled (flush_to p es s) = sp_settled s"
  "sp_events (flush_to p es s) = sp_events s" "told (flush_to p es s) q c = told s q c" "kept_or_told (flush_to p es s) = kept_or_told s"
  "jm_get (sp_flushing (flush_to p es s)) q =
     (if q = p then (if es = [] then None else Some (FlushAt es)) else jm_get (sp_flushing s) q)"
  by (simp_all add: flush_to_def told_def kept_or_told_def)

lemma inv_step_settle:
  assumes inv: "spawner_inv s" and kept: "kept_or_told s" and step: "spawner_step s e = Some t"
    and e: "e \<in> {Persisted i ok, FormatThrew i, Recorded i ok, FallbackRecorded i ok, Delivered i reply, Cleared i ok}"
  shows "spawner_inv t"
proof -
  note stays = announced_stays [OF inv]
  consider "e = Persisted i ok" | "e = FormatThrew i" | "e = Recorded i ok" | "e = FallbackRecorded i ok" | "e = Delivered i reply" | "e = Cleared i ok"
    using e by blast
  then show ?thesis
  proof cases
    case 1
    then show ?thesis using step kept
      by (auto simp: run_in_Some split: option.splits run_phase.splits intro!: stays)
  next
    case 2
    then obtain out where i: "i < length (sp_runs s)" "br_phase (sp_runs s ! i) = Persisting out" and t: "t = set_run i FallbackRecording (emitSettled i RunErrored s)"
      using step by (auto simp: run_in_Some split: option.splits run_phase.splits)
    then have "t = set_run i FallbackRecording s" using emit_suppressed [OF inv i(1)] by simp
    then show ?thesis using i kept by (auto intro!: stays)
  next
    case 3
    then show ?thesis using step kept kept_record
      by (auto simp: run_in_Some split: option.splits run_phase.splits if_splits intro!: stays)
  next
    case 4
    then show ?thesis using step kept kept_record_absent
      by (auto simp: run_in_Some split: if_splits intro!: stays)
  next
    case 5
    then show ?thesis using step kept kept_notice
      by (auto simp: run_in_Some split: if_splits intro!: stays)
  next
    case 6
    then have i: "i < length (sp_runs s)" "br_phase (sp_runs s ! i) = Clearing"
      and t: "t = set_run i Finishing (if ok then dropPending (br_parent (sp_runs s ! i)) (br_call (sp_runs s ! i)) s else s)"
      using step by (auto simp: run_in_Some split: if_splits)
    have "told s (br_parent (sp_runs s ! i)) (br_call (sp_runs s ! i))"
      using inv i by (simp add: spawner_inv_def clears_told_def)
    then show ?thesis unfolding t using i kept kept_drop by (intro stays) auto
  qed
qed

lemma inv_step_flush:
  assumes inv: "spawner_inv s" and kept: "kept_or_told s" and step: "spawner_step s e = Some t"
    and e: "e \<in> {ParentAttached p, FlushRead p ok, FlushDelivered p reply, FlushCleared p ok}"
  shows "spawner_inv t"
proof -
  note flushing = inv_flushing [OF inv, where p = p]
  consider "e = ParentAttached p" | "e = FlushRead p ok" | "e = FlushDelivered p reply" | "e = FlushCleared p ok"
    using e by blast
  then show ?thesis
  proof cases
    case 1
    then show ?thesis using step kept inv
      by (cases "jm_get (sp_flushing s) p = None") (auto simp: flush_begin_def kept_or_told_def told_def intro!: flushing)
  next
    case 2
    then show ?thesis using step kept by (auto split: if_splits intro!: flushing)
  next
    case 3
    then obtain c entry rest where f: "jm_get (sp_flushing s) p = Some (FlushAt ((c, entry) # rest))"
      and t: "t = (if deliverSubagentResult reply = Landed
        then (notice p c True s)\<lparr>sp_flushing := jm_set (sp_flushing s) p (FlushClearing c rest)\<rparr> else flush_to p [] s)"
      using step by (auto split: option.splits flush_phase.splits list.splits)
    show ?thesis
    proof (cases "deliverSubagentResult reply = Landed")
      case True
      let ?u = "(notice p c True s)\<lparr>sp_flushing := jm_set (sp_flushing s) p (FlushClearing c rest)\<rparr>"
      have "told ?u q d = told (notice p c True s) q d" "kept_or_told ?u = kept_or_told (notice p c True s)" for q d
        by (simp_all add: told_def kept_or_told_def)
      then show ?thesis using True t kept kept_notice by (auto intro!: flushing)
    qed (use t kept in \<open>auto intro!: flushing\<close>)
  next
    case 4
    then obtain c rest where f: "jm_get (sp_flushing s) p = Some (FlushClearing c rest)"
      and t: "t = flush_to p rest (if ok then dropPending p c s else s)"
      using step by (auto split: option.splits flush_phase.splits)
    have "told s p c" using inv f by (simp add: spawner_inv_def clears_told_def)
    then show ?thesis unfolding t using kept kept_drop by (intro flushing) (auto split: if_splits)
  qed
qed

lemma spawner_inv_step:
  assumes step: "spawner_step s e = Some t" and inv: "spawner_inv s"
  shows "spawner_inv t"
proof -
  have kept: "kept_or_told s" using inv by (simp add: spawner_inv_def)
  note books = spawner_inv_books [OF _ inv]
  show ?thesis
  proof (cases e)
    case (Spawn p c known dirOk)
    then show ?thesis using step inv_spawn [OF inv] by auto
  next
    case (PrepareFailed i)
    then show ?thesis using step inv_given_up [OF inv] by (auto split: if_splits)
  next
    case (Launched i sub)
    then show ?thesis using step inv_launched [OF inv] by (auto split: if_splits)
  next
    case (RunSettled i isError started threw)
    then show ?thesis using step inv_settled [OF inv] by (auto split: if_splits)
  next
    case (Finished i)
    then show ?thesis using step inv_closed [OF inv] by (auto split: if_splits)
  next
    case Restart
    then show ?thesis using step inv_restarted [OF inv] by auto
  qed (use step inv_step_settle [OF inv kept step] inv_step_flush [OF inv kept step] in
    \<open>auto split: if_splits option.splits intro!: books simp: same_books_def [of s "s\<lparr>sp_aborted := _\<rparr>"] same_books_def [of s "s\<lparr>sp_handles := _\<rparr>"]\<close>)
qed

interpretation spawns: transition_invariant spawner_moves new_spawner spawner_inv
  by unfold_locales (auto simp: spawner_inv_new elim!: spawner_movesE intro: spawner_inv_step)

section \<open>Properties\<close>

lemma live_runs:
  assumes "runs_ok s"
  shows "length (filter (\<lambda>r. br_phase r \<notin> {Over, GivenUp}) (sp_runs s)) \<le> MAX_CONCURRENT_BACKGROUND_SUBAGENTS"
proof -
  have stage: "live (br_call r, stage_of (br_phase r)) \<longleftrightarrow> br_phase r \<notin> {Over, GivenUp}" for r
    by (cases "br_phase r") (simp_all add: live_def)
  have "map fst (filter live (ledger (sp_runs s))) = map br_call (filter (\<lambda>r. br_phase r \<notin> {Over, GivenUp}) (sp_runs s))"
    by (simp add: ledger_def filter_map comp_def stage)
  then have n: "length (filter (\<lambda>r. br_phase r \<notin> {Over, GivenUp}) (sp_runs s)) = length (map fst (filter live (ledger (sp_runs s))))"
    by simp
  have "distinct (map fst (filter live (ledger (sp_runs s))))" "set (map fst (filter live (ledger (sp_runs s)))) = set (sp_slots s)"
    "distinct (sp_slots s)" "length (sp_slots s) \<le> MAX_CONCURRENT_BACKGROUND_SUBAGENTS"
    using assms by (simp_all add: runs_ok_def ledger_ok_def)
  then show ?thesis unfolding n by (metis distinct_card)
qed

text \<open>C35: At no time are more than eight children in the background, over all parents together, from the
  reservation to the last block of the settlement; and the end of each child that was launched is
  announced exactly once, whichever way its settlement goes.\<close>

theorem background_bounded:
  assumes "spawner_moves\<^sup>*\<^sup>* new_spawner s"
  shows "length (filter (\<lambda>r. br_phase r \<notin> {Over, GivenUp}) (sp_runs s)) \<le> 8 \<and>
    (i < length (sp_runs s) \<longrightarrow>
       announced i (sp_events s) = (if br_phase (sp_runs s ! i) \<in> {Preparing, Executing, GivenUp} then 0 else 1))"
proof -
  have ok: "runs_ok s" using spawns.I_reachable [OF assms] by (simp add: spawner_inv_def)
  have stage: "stage_of p \<in> {Announced, Ended} \<longleftrightarrow> p \<notin> {Preparing, Executing, GivenUp}" for p by (cases p) simp_all
  have "announced i (sp_events s) = (if br_phase (sp_runs s ! i) \<in> {Preparing, Executing, GivenUp} then 0 else 1)"
    if "i < length (sp_runs s)"
    using ok that stage [of "br_phase (sp_runs s ! i)"] by (simp add: runs_ok_def ledger_ok_def ledger_nth)
  then show ?thesis using live_runs [OF ok] by (simp add: MAX_CONCURRENT_BACKGROUND_SUBAGENTS_def)
qed

text \<open>C34: A notice that was recorded for a parent is not lost: it stays in the parent's record until it
  has reached the parent, whatever runs, flushes, failures of the disk and restarts of the process
  come in between.\<close>

theorem recorded_notice_kept:
  assumes "spawner_moves\<^sup>*\<^sup>* new_spawner s" "(p, c) \<in> set (sp_recorded s)"
  shows "jm_get (sp_pending s p) c \<noteq> None \<or> (\<exists>late. (p, c, late) \<in> set (sp_notices s))"
  using spawns.I_reachable [OF assms(1)] assms(2) by (auto simp: spawner_inv_def kept_or_told_def told_def)

section \<open>A flush\<close>

definition flush_events :: "string \<Rightarrow> lane_reply \<Rightarrow> pending_map \<Rightarrow> spawner_event list" where
  "flush_events p reply m = [ParentAttached p, FlushRead p True] @ concat (map (\<lambda>e. [FlushDelivered p reply, FlushCleared p True]) m)"

lemma clear_filter: "clearPendingSubagentResult m c = filter (\<lambda>e. fst e \<noteq> c) m"
proof (cases "jm_get m c")
  case None
  then have "filter (\<lambda>e. fst e \<noteq> c) m = m"
    by (auto simp: jm_get_def map_of_eq_None_iff filter_id_conv)
  then show ?thesis using None by (simp add: clearPendingSubagentResult_def)
qed (simp add: clearPendingSubagentResult_def jm_delete_def)

lemma flush_entries:
  assumes "deliverSubagentResult reply = Landed" "jm_get (sp_flushing s) p = (if es = [] then None else Some (FlushAt es))"
  shows "\<exists>t. spawner_run s (concat (map (\<lambda>e. [FlushDelivered p reply, FlushCleared p True]) es)) = Some t \<and>
    sp_pending t p = filter (\<lambda>e. fst e \<notin> fst ` set es) (sp_pending s p) \<and>
    sp_notices t = sp_notices s @ map (\<lambda>e. (p, fst e, True)) es \<and> jm_get (sp_flushing t) p = None"
  using assms(2)
proof (induction es arbitrary: s)
  case (Cons e es)
  obtain c entry where e: "e = (c, entry)" by force
  define u where "u = flush_to p es (dropPending p c ((notice p c True s)\<lparr>sp_flushing := jm_set (sp_flushing s) p (FlushClearing c es)\<rparr>))"
  have run: "spawner_run s (FlushDelivered p reply # FlushCleared p True # rest) = spawner_run u rest" for rest
    using Cons.prems assms(1) by (simp add: e u_def)
  have u: "jm_get (sp_flushing u) p = (if es = [] then None else Some (FlushAt es))"
    "sp_pending u p = filter (\<lambda>x. fst x \<noteq> c) (sp_pending s p)" "sp_notices u = sp_notices s @ [(p, c, True)]"
    by (simp_all add: u_def flush_to_def dropPending_def notice_def clear_filter)
  obtain t where t: "spawner_run u (concat (map (\<lambda>e. [FlushDelivered p reply, FlushCleared p True]) es)) = Some t"
    "sp_pending t p = filter (\<lambda>e. fst e \<notin> fst ` set es) (sp_pending u p)"
    "sp_notices t = sp_notices u @ map (\<lambda>e. (p, fst e, True)) es" "jm_get (sp_flushing t) p = None"
    using Cons.IH [OF u(1)] by blast
  have "sp_pending t p = filter (\<lambda>x. fst x \<notin> fst ` set (e # es)) (sp_pending s p)"
    unfolding t(2) u(2) by (simp add: e)
  moreover have "spawner_run s (concat (map (\<lambda>e. [FlushDelivered p reply, FlushCleared p True]) (e # es))) = Some t"
    using run t(1) by simp
  ultimately show ?case using t(3,4) u(3) by (intro exI [of _ t]) (simp add: e)
qed simp

text \<open>When a parent is attached and takes prompts, the flush this starts delivers every notice that is
  pending for it, once each and in the order they were recorded, and leaves nothing pending.\<close>

theorem flush_delivers_all:
  assumes "jm_get (sp_flushing s) p = None" "deliverSubagentResult reply = Landed"
  shows "\<exists>t. spawner_run s (flush_events p reply (sp_pending s p)) = Some t \<and> sp_pending t p = [] \<and>
    sp_notices t = sp_notices s @ map (\<lambda>e. (p, fst e, True)) (sp_pending s p)"
proof -
  define u where "u = flush_to p (sp_pending s p) (s\<lparr>sp_flushing := jm_set (sp_flushing s) p FlushReading\<rparr>)"
  have run: "spawner_run s (flush_events p reply (sp_pending s p)) =
      spawner_run u (concat (map (\<lambda>e. [FlushDelivered p reply, FlushCleared p True]) (sp_pending s p)))"
    using assms(1) by (simp add: flush_events_def flush_begin_def u_def)
  have u: "jm_get (sp_flushing u) p = (if sp_pending s p = [] then None else Some (FlushAt (sp_pending s p)))"
    "sp_pending u p = sp_pending s p" "sp_notices u = sp_notices s"
    by (simp_all add: u_def flush_to_def)
  show ?thesis using flush_entries [OF assms(2) u(1)] unfolding run u(2,3) by auto
qed

section \<open>Concrete runs\<close>

definition takes :: lane_reply where
  "takes = \<lparr>ln_attached = True, ln_first = LaneTakes, ln_queue = QueueIdle, ln_second = LaneFails\<rparr>"

definition gone :: lane_reply where
  "gone = \<lparr>ln_attached = False, ln_first = LaneFails, ln_queue = QueueIdle, ln_second = LaneFails\<rparr>"

text \<open>A child finishes while its parent is detached.\<close>

definition bg_events :: "spawner_event list" where
  "bg_events = [Spawn ''P'' ''t1'' True True, Launched 0 ''S'', RunAttached 0, RunSettled 0 False True False, Persisted 0 True,
     Recorded 0 True, Delivered 0 gone, Finished 0]"

definition sample_spawner :: spawner where
  "sample_spawner = (case spawner_run new_spawner bg_events of Some s \<Rightarrow> s | None \<Rightarrow> new_spawner)"

lemma sample_runs: "\<not> Option.is_none (spawner_run new_spawner bg_events)"
  by code_simp

lemma sample_spawner_reachable: "spawner_moves\<^sup>*\<^sup>* new_spawner sample_spawner"
  using sample_runs by (auto simp: sample_spawner_def Option.is_none_def intro: spawner_run_moves)

lemma sample_facts:
  "sp_recorded sample_spawner = [(''P'', ''t1'')]" "length (sp_runs sample_spawner) = 1"
  "br_phase (sp_runs sample_spawner ! 0) = Over" "sp_notices sample_spawner = []" "jm_get (sp_flushing sample_spawner) ''P'' = None"
  "map fst (sp_pending sample_spawner ''P'') = [''t1'']"
  by code_simp+

lemma takes_lands: "deliverSubagentResult takes = Landed"
  by code_simp

theorem background_bounded_witness: "announced 0 (sp_events sample_spawner) = 1"
  using background_bounded [OF sample_spawner_reachable, of 0] by (simp add: sample_facts)

theorem recorded_notice_kept_witness: "jm_get (sp_pending sample_spawner ''P'') ''t1'' \<noteq> None"
  using recorded_notice_kept [OF sample_spawner_reachable, of "''P''" "''t1''"] by (simp add: sample_facts)

theorem flush_delivers_all_witness:
  "\<exists>t. spawner_run sample_spawner (flush_events ''P'' takes (sp_pending sample_spawner ''P'')) = Some t \<and>
     sp_notices t = [(''P'', ''t1'', True)]"
proof -
  have "map (\<lambda>e. (''P'', fst e, True)) (sp_pending sample_spawner ''P'') =
      map (\<lambda>c. (''P'', c, True)) (map fst (sp_pending sample_spawner ''P''))" by simp
  then show ?thesis
    using flush_delivers_all [OF sample_facts(5) takes_lands] by (auto simp: sample_facts)
qed

section \<open>What does not hold\<close>

text \<open>A flush that has read a notice delivers it although the run has delivered it in between.\<close>

lemma notice_delivered_twice:
  "map_option sp_notices (spawner_run new_spawner
     [Spawn ''P'' ''t1'' True True, Launched 0 ''S'', RunSettled 0 False True False, Persisted 0 True, Recorded 0 True,
      ParentAttached ''P'', FlushRead ''P'' True, Delivered 0 takes, Cleared 0 True, FlushDelivered ''P'' takes]) =
   Some [(''P'', ''t1'', False), (''P'', ''t1'', True)]"
  by code_simp

text \<open>Continuing a child that still runs in the background takes its handle away when the call ends: the
  child runs on and cannot be stopped.\<close>

lemma resume_takes_stop_handle:
  "map_option (\<lambda>s. (run_in s 0, fst (abortSubagentRun ''S'' (Some ''P'') s), children_of ''P'' s))
     (spawner_run new_spawner
       [Spawn ''P'' ''t1'' True True, Launched 0 ''S'', RunAttached 0, ResumeBegin ''P'' ''t2'' ''S'', CallRuns 0, CallEnd 0 True]) =
   Some (Some Executing, False, [])"
  by code_simp

text \<open>A resume that is under way is shared before the checks of \<open>runResume\<close>: the caller may be another
  parent, and its call is not tracked.\<close>

lemma foreign_resume_shares:
  "map_option (\<lambda>s. (length (sp_calls s), sp_shared s, in_flight s ''Q'')) (spawner_run new_spawner
       [ResumeBegin ''P'' ''t1'' ''S'', ResumeBegin ''Q'' ''t2'' ''S'']) = Some (1, [(''Q'', ''t2'', 0)], [])"
  by code_simp

section \<open>Stopping\<close>

lemma stop_other_parent:
  "jm_get (sp_handles s) sub = Some (h, owner) \<Longrightarrow> owner \<noteq> p \<Longrightarrow> abortSubagentRun sub (Some p) s = (False, s)"
  by (simp add: abortSubagentRun_def)

lemma abort_handles [simp]: "sp_handles (snd (abortSubagentRun sub p s)) = sp_handles s"
  by (simp add: abortSubagentRun_def split: option.splits)

lemma abort_grows: "h \<in> set (sp_aborted s) \<Longrightarrow> h \<in> set (sp_aborted (snd (abortSubagentRun sub p s)))"
  by (auto simp: abortSubagentRun_def split: option.splits)

lemma abort_children:
  "(sp_handles (foldl (\<lambda>t sub. snd (abortSubagentRun sub (Some p) t)) s subs) = sp_handles s) \<and>
   (\<forall>h \<in> set (sp_aborted s). h \<in> set (sp_aborted (foldl (\<lambda>t sub. snd (abortSubagentRun sub (Some p) t)) s subs))) \<and>
   (\<forall>sub \<in> set subs. \<forall>h. jm_get (sp_handles s) sub = Some (h, p) \<longrightarrow>
      h \<in> set (sp_aborted (foldl (\<lambda>t sub. snd (abortSubagentRun sub (Some p) t)) s subs)))"
proof (induction subs rule: rev_induct)
  case (snoc sub subs)
  let ?t = "foldl (\<lambda>t sub. snd (abortSubagentRun sub (Some p) t)) s subs"
  have "h \<in> set (sp_aborted (snd (abortSubagentRun sub (Some p) ?t)))" if "jm_get (sp_handles s) sub = Some (h, p)" for h
    using snoc that by (auto simp: abortSubagentRun_def)
  then show ?case using snoc abort_grows by auto
qed simp

text \<open>A request to stop a parent's children reaches each child that has a handle.\<close>

lemma stop_reaches_children:
  assumes "jm_get (sp_handles s) sub = Some (h, p)"
  shows "h \<in> set (sp_aborted (stopChildrenOf p s))"
proof -
  have "(sub, h, p) \<in> set (sp_handles s)" using assms by (simp add: jm_get_def map_of_SomeD)
  then have "sub \<in> set (children_of p s)" by (force simp: children_of_def)
  then show ?thesis using abort_children [of p s "children_of p s"] assms by (simp add: stopChildrenOf_def)
qed

end
