(* ===== verification/SubTrack.thy ===== *)
theory SubTrack
  imports SubSpawnProps
begin

text \<open>
  The list of calls in flight that \<open>session.attach\<close> hands to the desktop is the list of calls that have a
  child at work: \<open>trackInFlight\<close> in \<open>packages/sidecar/src/runtime/subagent/agentSpawner.ts\<close>. Calls that
  share the resume of another call wait without being on the list. Identifiers of tool calls are
  not used twice.
\<close>

definition used_calls :: "spawner \<Rightarrow> string set" where
  "used_calls s = br_call ` set (sp_runs s) \<union> wc_call ` set (sp_calls s) \<union> (fst \<circ> snd) ` set (sp_shared s)"

definition fresh_call :: "spawner \<Rightarrow> spawner_event \<Rightarrow> bool" where
  "fresh_call s e \<longleftrightarrow> (case e of
       Spawn p c known dirOk \<Rightarrow> c \<notin> used_calls s
     | CallBegin p c sub \<Rightarrow> c \<notin> used_calls s
     | ResumeBegin p c sub \<Rightarrow> c \<notin> used_calls s
     | _ \<Rightarrow> True)"

inductive fresh_moves :: "spawner \<Rightarrow> spawner \<Rightarrow> bool" where
  "spawner_step s e = Some t \<Longrightarrow> fresh_call s e \<Longrightarrow> fresh_moves s t"

inductive_cases fresh_movesE: "fresh_moves s t"

definition working :: "background_run list \<Rightarrow> waited_call list \<Rightarrow> (string \<times> string) set" where
  "working rs ws = (\<lambda>r. (br_parent r, br_call r)) ` {r \<in> set rs. br_phase r = Executing} \<union>
     (\<lambda>w. (wc_parent w, wc_call w)) ` {w \<in> set ws. wc_open w}"

definition tracked :: "spawner \<Rightarrow> bool" where
  "tracked s \<longleftrightarrow> distinct (map br_call (sp_runs s) @ map wc_call (sp_calls s)) \<and>
     (\<forall>p c. c \<in> set (in_flight s p) \<longleftrightarrow> (p, c) \<in> working (sp_runs s) (sp_calls s))"

lemma in_flight_track_in: "set (in_flight (track_in p c s) q) = (if q = p then insert c (set (in_flight s p)) else set (in_flight s q))"
  by (auto simp: in_flight_def track_in_def)

lemma in_flight_track_out: "set (in_flight (track_out p c s) q) = (if q = p then set (in_flight s p) - {c} else set (in_flight s q))"
proof (cases "jm_get (sp_inflight s) p")
  case (Some ids)
  have "set (removeAll c ids) = set ids - {c}" by simp
  then show ?thesis using Some
    by (cases "removeAll c ids = []") (auto simp: in_flight_def track_out_def Let_def simp del: set_removeAll)
qed (simp add: in_flight_def track_out_def)

lemma in_flight_cong: "sp_inflight t = sp_inflight s \<Longrightarrow> in_flight t p = in_flight s p"
  by (simp add: in_flight_def)

lemma track_fields [simp]:
  "sp_runs (track_in p c s) = sp_runs s" "sp_calls (track_in p c s) = sp_calls s"
  "sp_runs (track_out p c s) = sp_runs s" "sp_calls (track_out p c s) = sp_calls s"
  by (simp_all add: track_in_def track_out_def Let_def split: option.splits)

text \<open>Steps that leave tracking alone.\<close>

definition same_tracks :: "spawner \<Rightarrow> spawner \<Rightarrow> bool" where
  "same_tracks s t \<longleftrightarrow> sp_inflight t = sp_inflight s \<and> sp_calls t = sp_calls s \<and> map br_call (sp_runs t) = map br_call (sp_runs s) \<and>
     working (sp_runs t) (sp_calls t) = working (sp_runs s) (sp_calls s)"

lemma tracked_same: "same_tracks s t \<Longrightarrow> tracked s \<Longrightarrow> tracked t"
  by (auto simp: same_tracks_def tracked_def in_flight_def)

lemma same_tracks_refl: "sp_inflight t = sp_inflight s \<Longrightarrow> sp_calls t = sp_calls s \<Longrightarrow> sp_runs t = sp_runs s \<Longrightarrow> same_tracks s t"
  by (simp add: same_tracks_def)

lemma working_split:
  "working (a @ r # b) ws = (if br_phase r = Executing then insert (br_parent r, br_call r) (working (a @ b) ws) else working (a @ b) ws)"
proof -
  have "{x \<in> set (a @ r # b). br_phase x = Executing} =
      (if br_phase r = Executing then insert r {x \<in> set (a @ b). br_phase x = Executing} else {x \<in> set (a @ b). br_phase x = Executing})"
    by auto
  then show ?thesis by (simp add: working_def)
qed

lemma working_call: "(p, c) \<in> working rs ws \<Longrightarrow> c \<in> br_call ` set rs \<union> wc_call ` set ws"
  by (auto simp: working_def)

lemma working_update:
  assumes "i < length rs" "br_phase (rs ! i) \<noteq> Executing" "br_phase r \<noteq> Executing"
  shows "working (rs[i := r]) ws = working rs ws"
proof -
  obtain a b where l: "rs = a @ rs ! i # b" "length a = i" "\<forall>y. rs[i := y] = a @ y # b" by (rule split_at [OF assms(1) refl])
  have "working (a @ r # b) ws = working (a @ rs ! i # b) ws" using assms by (simp add: working_split)
  then show ?thesis using l(1,3) by metis
qed

lemma same_tracks_set_run:
  assumes "i < length (sp_runs s)" "br_phase (sp_runs s ! i) \<noteq> Executing" "p \<noteq> Executing"
    "sp_inflight t = sp_inflight s" "sp_calls t = sp_calls s" "sp_runs t = sp_runs s"
  shows "same_tracks s (set_run i p t)"
proof -
  have "map br_call ((sp_runs s)[i := (sp_runs s ! i)\<lparr>br_phase := p\<rparr>]) = map br_call (sp_runs s)"
    using assms(1) by (simp add: map_update list_update_same_conv)
  then show ?thesis using working_update [OF assms(1,2)] assms by (simp add: same_tracks_def set_run_def)
qed

lemma tracked_launched:
  assumes tr: "tracked s" and i: "run_in s i = Some Preparing"
  shows "tracked (spawnBackgroundSubagent i sub s)"
proof -
  let ?r = "(sp_runs s ! i)\<lparr>br_sub := sub, br_phase := Executing\<rparr>"
  have i': "i < length (sp_runs s)" "br_phase (sp_runs s ! i) = Preparing" using i by (auto simp: run_in_Some)
  obtain a b where l: "sp_runs s = a @ sp_runs s ! i # b" "length a = i" "\<forall>y. (sp_runs s)[i := y] = a @ y # b"
    by (rule split_at [OF i'(1) refl])
  have "map br_call ((sp_runs s)[i := ?r]) = map br_call (sp_runs s)"
    using i'(1) by (simp add: map_update list_update_same_conv)
  moreover have "working ((sp_runs s)[i := ?r]) (sp_calls s) =
      insert (br_parent (sp_runs s ! i), br_call (sp_runs s ! i)) (working (sp_runs s) (sp_calls s))"
  proof -
    have "working (a @ ?r # b) (sp_calls s) = insert (br_parent (sp_runs s ! i), br_call (sp_runs s ! i)) (working (a @ sp_runs s ! i # b) (sp_calls s))"
      using i'(2) by (simp add: working_split)
    then show ?thesis using l(1,3) by metis
  qed
  moreover have "in_flight (s\<lparr>sp_runs := rs, sp_handles := hs\<rparr>) q = in_flight s q" for rs hs q by (rule in_flight_cong) simp
  ultimately show ?thesis
    using tr by (auto simp: tracked_def spawnBackgroundSubagent_def Let_def in_flight_track_in)
qed

lemma tracked_settled:
  assumes tr: "tracked s" and i: "i < length (sp_runs s)" "br_phase (sp_runs s ! i) = Executing" and p: "p \<noteq> Executing"
    and u: "sp_inflight u = sp_inflight s" "sp_calls u = sp_calls s" "sp_runs u = sp_runs s"
    and v: "sp_inflight v = sp_inflight (track_out (br_parent (sp_runs s ! i)) (br_call (sp_runs s ! i)) u)" "sp_calls v = sp_calls s" "sp_runs v = sp_runs s"
  shows "tracked (set_run i p v)"
proof -
  let ?r = "(sp_runs s ! i)\<lparr>br_phase := p\<rparr>" and ?c = "br_call (sp_runs s ! i)" and ?p = "br_parent (sp_runs s ! i)"
  obtain a b where l: "sp_runs s = a @ sp_runs s ! i # b" "length a = i" "\<forall>y. (sp_runs s)[i := y] = a @ y # b"
    by (rule split_at [OF i(1) refl])
  have "distinct (map br_call (a @ sp_runs s ! i # b) @ map wc_call (sp_calls s))" using tr l(1) by (simp add: tracked_def)
  then have other: "?c \<notin> br_call ` (set a \<union> set b)" "?c \<notin> wc_call ` set (sp_calls s)" by auto
  have "map br_call ((sp_runs s)[i := ?r]) = map br_call (sp_runs s)"
    using i(1) by (simp add: map_update list_update_same_conv)
  moreover have "working ((sp_runs s)[i := ?r]) (sp_calls s) = working (sp_runs s) (sp_calls s) - {(?p, ?c)}"
  proof -
    have "working (a @ ?r # b) (sp_calls s) = working (a @ sp_runs s ! i # b) (sp_calls s) - {(?p, ?c)}"
      using other i(2) p working_call [of ?p ?c "a @ b" "sp_calls s"] by (auto simp: working_split)
    then show ?thesis using l(1,3) by metis
  qed
  moreover have "c \<in> set (in_flight (set_run i p v) q) \<longleftrightarrow> c \<in> set (in_flight s q) \<and> (q, c) \<noteq> (?p, ?c)" for c q
  proof -
    have "in_flight (set_run i p v) q = in_flight (track_out ?p ?c u) q" using v(1) by (simp add: in_flight_def set_run_def)
    then show ?thesis using in_flight_cong [OF u(1)] by (auto simp: in_flight_track_out)
  qed
  ultimately show ?thesis using tr v by (auto simp: tracked_def set_run_def)
qed

lemma working_split_call:
  "working rs (a @ w # b) = (if wc_open w then insert (wc_parent w, wc_call w) (working rs (a @ b)) else working rs (a @ b))"
proof -
  have "{x \<in> set (a @ w # b). wc_open x} = (if wc_open w then insert w {x \<in> set (a @ b). wc_open x} else {x \<in> set (a @ b). wc_open x})"
    by auto
  then show ?thesis by (simp add: working_def)
qed

lemma tracked_call_begin:
  assumes tr: "tracked s" and new: "c \<notin> used_calls s"
  shows "tracked (call_begin p c sub resume s)"
proof -
  let ?w = "\<lparr>wc_parent = p, wc_call = c, wc_sub = sub, wc_resume = resume, wc_open = True\<rparr>"
  have "working (sp_runs s) (sp_calls s @ [?w]) = insert (p, c) (working (sp_runs s) (sp_calls s))"
    using working_split_call [of "sp_runs s" "sp_calls s" ?w "[]"] by simp
  moreover have "in_flight (s\<lparr>sp_calls := ws\<rparr>) q = in_flight s q" for ws q by (rule in_flight_cong) simp
  ultimately show ?thesis
    using tr new by (auto simp: tracked_def call_begin_def in_flight_track_in used_calls_def)
qed

lemma tracked_call_end:
  assumes tr: "tracked s" and k: "k < length (sp_calls s)" "wc_open (sp_calls s ! k)"
  shows "tracked (call_end k started s)"
proof -
  let ?w = "sp_calls s ! k"
  let ?c = "wc_call ?w" and ?p = "wc_parent ?w" and ?v = "?w\<lparr>wc_open := False\<rparr>"
  obtain a b where l: "sp_calls s = a @ ?w # b" "length a = k" "\<forall>y. (sp_calls s)[k := y] = a @ y # b"
    by (rule split_at [OF k(1) refl])
  have "distinct (map br_call (sp_runs s) @ map wc_call (a @ ?w # b))" using tr l(1) by (simp add: tracked_def)
  then have other: "?c \<notin> br_call ` set (sp_runs s)" "?c \<notin> wc_call ` set (a @ b)" by auto
  have "map wc_call ((sp_calls s)[k := ?v]) = map wc_call (sp_calls s)"
    using k(1) by (simp add: map_update list_update_same_conv)
  moreover have "working (sp_runs s) ((sp_calls s)[k := ?v]) = working (sp_runs s) (sp_calls s) - {(?p, ?c)}"
  proof -
    have "working (sp_runs s) (a @ ?v # b) = working (sp_runs s) (a @ ?w # b) - {(?p, ?c)}"
      using other k(2) working_call [of ?p ?c "sp_runs s" "a @ b"] by (auto simp: working_split_call)
    then show ?thesis using l(1,3) by metis
  qed
  moreover have "in_flight ((if started then releaseController sub s else s)\<lparr>sp_calls := ws\<rparr>) q = in_flight s q" for ws q sub
    by (rule in_flight_cong) (simp add: releaseController_def)
  moreover have "sp_runs (if started then releaseController sub s else s) = sp_runs s" for sub by (simp add: releaseController_def)
  ultimately show ?thesis using tr
    by (auto simp: tracked_def call_end_def Let_def in_flight_track_out)
qed

lemma set_run_fields:
  "sp_inflight (set_run i p s) = sp_inflight s" "sp_calls (set_run i p s) = sp_calls s"
  by (simp_all add: set_run_def)

lemma track_frames [simp]:
  "sp_inflight (notice p c b s) = sp_inflight s" "sp_calls (notice p c b s) = sp_calls s"
  "sp_inflight (dropPending p c s) = sp_inflight s" "sp_calls (dropPending p c s) = sp_calls s"
  "sp_inflight (record_notice i e s) = sp_inflight s" "sp_calls (record_notice i e s) = sp_calls s"
  "sp_inflight (record_if_absent i e s) = sp_inflight s" "sp_calls (record_if_absent i e s) = sp_calls s"
  "sp_inflight (emitSettled i out s) = sp_inflight s" "sp_calls (emitSettled i out s) = sp_calls s" "sp_runs (emitSettled i out s) = sp_runs s"
  "sp_inflight (releaseController sub s) = sp_inflight s" "sp_calls (releaseController sub s) = sp_calls s" "sp_runs (releaseController sub s) = sp_runs s"
  "sp_inflight (flush_to p es s) = sp_inflight s" "sp_calls (flush_to p es s) = sp_calls s"
  "sp_inflight (snd (abortSubagentRun sub q s)) = sp_inflight s" "sp_calls (snd (abortSubagentRun sub q s)) = sp_calls s"
  "sp_runs (snd (abortSubagentRun sub q s)) = sp_runs s"
  by (simp_all add: notice_def dropPending_def record_notice_def record_if_absent_def emitSettled_def releaseController_def flush_to_def
      abortSubagentRun_def Let_def split: option.splits)

lemma stop_frames [simp]:
  "sp_inflight (stopChildrenOf p s) = sp_inflight s" "sp_calls (stopChildrenOf p s) = sp_calls s" "sp_runs (stopChildrenOf p s) = sp_runs s"
proof -
  have "same_tracks s (foldl (\<lambda>t sub. snd (abortSubagentRun sub (Some p) t)) s subs) \<and>
      sp_runs (foldl (\<lambda>t sub. snd (abortSubagentRun sub (Some p) t)) s subs) = sp_runs s" for subs
    by (induction subs rule: rev_induct) (simp_all add: same_tracks_def)
  then show "sp_inflight (stopChildrenOf p s) = sp_inflight s" "sp_calls (stopChildrenOf p s) = sp_calls s" "sp_runs (stopChildrenOf p s) = sp_runs s"
    by (auto simp: stopChildrenOf_def same_tracks_def)
qed

lemma tracked_step_settle:
  assumes tr: "tracked s" and step: "spawner_step s e = Some t"
    and e: "e \<in> {PrepareFailed i, Persisted i ok, FormatThrew i, Recorded i ok, FallbackRecorded i ok, Delivered i reply, Cleared i ok, Finished i}"
  shows "tracked t"
proof -
  have "same_tracks s t"
    using e step
    by (auto simp: run_in_Some run_closed_def Let_def split: if_splits option.splits run_phase.splits intro!: same_tracks_set_run)
  then show ?thesis using tr by (rule tracked_same)
qed

lemma tracked_step:
  assumes step: "spawner_step s e = Some t" and fresh: "fresh_call s e" and tr: "tracked s"
  shows "tracked t"
proof -
  have calm: "tracked u" if "sp_inflight u = sp_inflight s" "sp_calls u = sp_calls s" "sp_runs u = sp_runs s" for u
    using tracked_same [OF same_tracks_refl [OF that] tr] .
  show ?thesis
  proof (cases e)
    case (Spawn p c known dirOk)
    let ?t = "s\<lparr>sp_slots := sp_slots s @ [c], sp_runs := sp_runs s @ [\<lparr>br_parent = p, br_call = c, br_sub = [], br_phase = Preparing\<rparr>]\<rparr>"
    have "working (sp_runs ?t) (sp_calls s) = working (sp_runs s) (sp_calls s)"
      using working_split [of "sp_runs s" "\<lparr>br_parent = p, br_call = c, br_sub = [], br_phase = Preparing\<rparr>" "[]" "sp_calls s"] by simp
    moreover have "in_flight ?t q = in_flight s q" for q by (rule in_flight_cong) simp
    ultimately have "tracked ?t" using tr fresh Spawn by (auto simp: tracked_def fresh_call_def used_calls_def)
    then show ?thesis using step tr Spawn by (auto simp: spawnSubagent_def split: if_splits)
  next
    case (Launched i sub)
    then show ?thesis using step tracked_launched [OF tr] by (auto split: if_splits)
  next
    case (RunSettled i isError started threw)
    let ?u = "if started then releaseController (br_sub (sp_runs s ! i)) s else s"
    have i: "i < length (sp_runs s)" "br_phase (sp_runs s ! i) = Executing" and t: "t = run_settled i isError started threw s"
      using step RunSettled by (auto simp: run_in_Some split: if_splits)
    show ?thesis unfolding t run_settled_def Let_def
      by (rule tracked_settled [OF tr i, of _ ?u]) simp_all
  next
    case (CallBegin p c sub)
    then show ?thesis using step fresh tracked_call_begin [OF tr] by (auto simp: fresh_call_def)
  next
    case (ResumeBegin p c sub)
    show ?thesis
    proof (cases "running_resume sub s")
      case None
      then show ?thesis using step fresh ResumeBegin tracked_call_begin [OF tr] by (auto simp: fresh_call_def resumeSubagent_def)
    next
      case (Some k)
      then show ?thesis using step ResumeBegin by (auto simp: resumeSubagent_def intro!: calm)
    qed
  next
    case (CallEnd k started)
    then show ?thesis using step tracked_call_end [OF tr] by (auto split: if_splits)
  next
    case Restart
    then show ?thesis using step by (auto simp: restarted_def new_spawner_def tracked_def in_flight_def working_def)
  qed (use step tracked_step_settle [OF tr step] in
    \<open>auto simp: flush_begin_def call_runs_def split: if_splits option.splits flush_phase.splits list.splits intro!: calm\<close>)
qed

text \<open>The identifiers of shared calls are their own.\<close>

definition tracked_ids :: "spawner \<Rightarrow> string set" where
  "tracked_ids s = set (map br_call (sp_runs s)) \<union> set (map wc_call (sp_calls s))"

definition shared_ids :: "spawner \<Rightarrow> string set" where
  "shared_ids s = (fst \<circ> snd) ` set (sp_shared s)"

definition shared_fresh :: "spawner \<Rightarrow> bool" where
  "shared_fresh s \<longleftrightarrow> shared_ids s \<inter> tracked_ids s = {}"

lemma used_split: "used_calls s = tracked_ids s \<union> shared_ids s"
  by (simp add: used_calls_def tracked_ids_def shared_ids_def)

lemma shared_new_id:
  assumes "shared_fresh s" "c \<notin> used_calls s"
    "shared_ids t = shared_ids s \<and> tracked_ids t \<subseteq> insert c (tracked_ids s) \<or> shared_ids t \<subseteq> insert c (shared_ids s) \<and> tracked_ids t = tracked_ids s"
  shows "shared_fresh t"
  using assms unfolding shared_fresh_def used_split by blast

definition same_ids :: "spawner \<Rightarrow> spawner \<Rightarrow> bool" where
  "same_ids s t \<longleftrightarrow> sp_shared t = sp_shared s \<and> map br_call (sp_runs t) = map br_call (sp_runs s) \<and>
     map wc_call (sp_calls t) = map wc_call (sp_calls s)"

lemma shared_same: "same_ids s t \<Longrightarrow> shared_fresh s \<Longrightarrow> shared_fresh t"
  by (simp add: same_ids_def shared_fresh_def shared_ids_def tracked_ids_def del: set_map)

lemma shared_frames [simp]:
  "sp_shared (track_in p c s) = sp_shared s" "sp_shared (track_out p c s) = sp_shared s"
  "sp_shared (notice p c b s) = sp_shared s" "sp_shared (dropPending p c s) = sp_shared s"
  "sp_shared (record_notice i e s) = sp_shared s" "sp_shared (record_if_absent i e s) = sp_shared s"
  "sp_shared (emitSettled i out s) = sp_shared s" "sp_shared (releaseController sub s) = sp_shared s"
  "sp_shared (flush_to p es s) = sp_shared s" "sp_shared (snd (abortSubagentRun sub q s)) = sp_shared s"
  "sp_shared (set_run i ph s) = sp_shared s" "sp_shared (call_begin p c sub b s) = sp_shared s"
  "sp_shared (call_end k b s) = sp_shared s" "sp_shared (call_runs k s) = sp_shared s"
  "sp_shared (spawnBackgroundSubagent i sub s) = sp_shared s" "sp_shared (flush_begin p s) = sp_shared s"
  by (simp_all add: track_in_def track_out_def notice_def dropPending_def record_notice_def record_if_absent_def emitSettled_def
      releaseController_def flush_to_def abortSubagentRun_def set_run_def call_begin_def call_end_def call_runs_def
      spawnBackgroundSubagent_def flush_begin_def Let_def split: option.splits)

lemma stop_shared [simp]: "sp_shared (stopChildrenOf p s) = sp_shared s"
proof -
  have "sp_shared (foldl (\<lambda>t sub. snd (abortSubagentRun sub (Some p) t)) s subs) = sp_shared s" for subs
    by (induction subs rule: rev_induct) simp_all
  then show ?thesis by (simp add: stopChildrenOf_def)
qed

lemma ids_set_run: "i < length (sp_runs s) \<Longrightarrow> map br_call (sp_runs (set_run i p s)) = map br_call (sp_runs s)"
  by (simp add: set_run_def map_update list_update_same_conv)

lemma ids_launched: "i < length (sp_runs s) \<Longrightarrow> same_ids s (spawnBackgroundSubagent i sub s)"
  by (simp add: same_ids_def) (simp add: spawnBackgroundSubagent_def Let_def map_update list_update_same_conv)

lemma ids_call_end: "k < length (sp_calls s) \<Longrightarrow> same_ids s (call_end k b s)"
  by (simp add: same_ids_def) (simp add: call_end_def Let_def map_update list_update_same_conv releaseController_def)

lemma step_ids:
  assumes "spawner_step s e = Some t"
  shows "same_ids s t \<or> (\<exists>p c known dirOk. e = Spawn p c known dirOk) \<or> (\<exists>p c sub. e = CallBegin p c sub) \<or>
    (\<exists>p c sub. e = ResumeBegin p c sub) \<or> e = Restart"
proof (cases e)
  case (Launched i sub)
  then show ?thesis using assms ids_launched [of i s] by (auto simp: run_in_Some split: if_splits)
next
  case (CallEnd k started)
  then show ?thesis using assms ids_call_end [of k s] by (auto split: if_splits)
next
  case (RunSettled i isError started threw)
  then show ?thesis using assms
    by (auto simp: same_ids_def run_in_Some run_settled_def Let_def ids_set_run set_run_fields split: if_splits)
next
  case (Finished i)
  then show ?thesis using assms
    by (auto simp: same_ids_def run_in_Some run_closed_def Let_def ids_set_run set_run_fields split: if_splits)
qed (use assms in \<open>auto simp: same_ids_def run_in_Some ids_set_run set_run_fields call_runs_def flush_begin_def Let_def
  split: if_splits option.splits run_phase.splits flush_phase.splits list.splits\<close>)

lemma shared_step:
  assumes step: "spawner_step s e = Some t" and fresh: "fresh_call s e" and sh: "shared_fresh s"
  shows "shared_fresh t"
proof (cases "same_ids s t")
  case True
  then show ?thesis using sh by (rule shared_same)
next
  case False
  from False consider p c known dirOk where "e = Spawn p c known dirOk" | p c sub where "e = CallBegin p c sub"
    | p c sub where "e = ResumeBegin p c sub" | "e = Restart" using step_ids [OF step] by blast
  then show ?thesis
  proof cases
    case 1
    then have "c \<notin> used_calls s" using fresh by (simp add: fresh_call_def)
    then show ?thesis by (rule shared_new_id [OF sh])
      (use step 1 in \<open>auto simp: spawnSubagent_def shared_ids_def tracked_ids_def split: if_splits\<close>)
  next
    case 2
    then have "c \<notin> used_calls s" using fresh by (simp add: fresh_call_def)
    then show ?thesis by (rule shared_new_id [OF sh])
      (use step 2 in \<open>auto simp: call_begin_def shared_ids_def tracked_ids_def\<close>)
  next
    case 3
    then have "c \<notin> used_calls s" using fresh by (simp add: fresh_call_def)
    then show ?thesis by (rule shared_new_id [OF sh])
      (use step 3 in \<open>auto simp: resumeSubagent_def call_begin_def shared_ids_def tracked_ids_def split: option.splits\<close>)
  next
    case 4
    then show ?thesis using step by (auto simp: restarted_def new_spawner_def shared_fresh_def shared_ids_def tracked_ids_def)
  qed
qed

lemma tracked_new: "tracked new_spawner"
  by (simp add: new_spawner_def tracked_def in_flight_def working_def)

interpretation tracks: transition_invariant fresh_moves new_spawner "\<lambda>s. tracked s \<and> shared_fresh s"
proof
  show "tracked new_spawner \<and> shared_fresh new_spawner"
    by (simp add: tracked_new shared_fresh_def shared_ids_def) (simp add: new_spawner_def)
  show "tracked t \<and> shared_fresh t" if "fresh_moves s t" "tracked s \<and> shared_fresh s" for s t
    using that by (auto elim!: fresh_movesE intro: tracked_step shared_step)
qed

text \<open>A call that waits for the resume of another call.\<close>

definition shares_resume :: "spawner \<Rightarrow> string \<Rightarrow> string \<Rightarrow> bool" where
  "shares_resume s p c \<longleftrightarrow> (\<exists>k. (p, c, k) \<in> set (sp_shared s) \<and> k < length (sp_calls s) \<and> wc_open (sp_calls s ! k))"

text \<open>A call of a parent whose child is at work: launched in the background, started or continued by the
  call, or continued by another call whose result this one waits for.\<close>

definition child_at_work :: "spawner \<Rightarrow> string \<Rightarrow> string \<Rightarrow> bool" where
  "child_at_work s p c \<longleftrightarrow>
     (\<exists>r \<in> set (sp_runs s). br_parent r = p \<and> br_call r = c \<and> br_phase r = Executing) \<or>
     (\<exists>w \<in> set (sp_calls s). wc_parent w = p \<and> wc_call w = c \<and> wc_open w) \<or>
     shares_resume s p c"

text \<open>C36: When no identifier of a tool call is used twice, the calls in flight that are reported for a
  parent are exactly its calls whose child is at work in the running process, in the background or
  waited for, except the calls that wait for the resume another call has under way: these are
  never reported.\<close>

theorem in_flight_truthful:
  assumes "fresh_moves\<^sup>*\<^sup>* new_spawner s"
  shows "c \<in> set (in_flight s p) \<longleftrightarrow> child_at_work s p c \<and> \<not> shares_resume s p c"
proof -
  have "tracked s" and sh: "shared_fresh s" using tracks.I_reachable [OF assms] by simp_all
  then have "c \<in> set (in_flight s p) \<longleftrightarrow> (p, c) \<in> working (sp_runs s) (sp_calls s)" by (simp add: tracked_def)
  moreover have "(p, c) \<notin> working (sp_runs s) (sp_calls s)" if "shares_resume s p c"
    using that sh by (fastforce simp: shares_resume_def shared_fresh_def shared_ids_def tracked_ids_def dest: working_call)
  ultimately show ?thesis by (auto simp: child_at_work_def working_def)
qed

fun fresh_run :: "spawner \<Rightarrow> spawner_event list \<Rightarrow> spawner option" where
  "fresh_run s [] = Some s"
| "fresh_run s (e # es) =
     (if fresh_call s e then (case spawner_step s e of None \<Rightarrow> None | Some t \<Rightarrow> fresh_run t es) else None)"

lemma fresh_run_moves: "fresh_run s es = Some t \<Longrightarrow> fresh_moves\<^sup>*\<^sup>* s t"
proof (induction es arbitrary: s)
  case (Cons e es)
  then obtain u where "fresh_call s e" "spawner_step s e = Some u" "fresh_run u es = Some t"
    by (auto split: option.splits if_splits)
  then show ?case using Cons.IH by (meson converse_rtranclp_into_rtranclp fresh_moves.intros)
qed simp

definition flying_events :: "spawner_event list" where
  "flying_events = [Spawn ''P'' ''t1'' True True, Launched 0 ''S'', CallBegin ''P'' ''t2'' ''T'', CallEnd 0 False,
     ResumeBegin ''P'' ''t3'' ''T'', ResumeBegin ''P'' ''t4'' ''T'']"

definition flying :: spawner where
  "flying = (case fresh_run new_spawner flying_events
     of Some s \<Rightarrow> s | None \<Rightarrow> new_spawner)"

lemma flying_reachable: "fresh_moves\<^sup>*\<^sup>* new_spawner flying"
proof -
  have "\<not> Option.is_none (fresh_run new_spawner flying_events)"
    by code_simp
  then show ?thesis by (auto simp: flying_def Option.is_none_def intro: fresh_run_moves)
qed

lemma flying_facts: "length (sp_runs flying) = 1" "br_parent (sp_runs flying ! 0) = ''P''" "br_call (sp_runs flying ! 0) = ''t1''"
  "br_phase (sp_runs flying ! 0) = Executing"
  by code_simp+

lemma flying_shares: "sp_shared flying = [(''P'', ''t4'', 1)]" "length (sp_calls flying) = 2" "wc_open (sp_calls flying ! 1)"
  by code_simp+

theorem in_flight_truthful_witness: "''t1'' \<in> set (in_flight flying ''P'') \<and> ''t4'' \<notin> set (in_flight flying ''P'')"
proof -
  note report = in_flight_truthful [OF flying_reachable]
  have "sp_runs flying ! 0 \<in> set (sp_runs flying)" using flying_facts(1) by (intro nth_mem) simp
  then have "child_at_work flying ''P'' ''t1''" using flying_facts by (auto simp: child_at_work_def)
  moreover have "\<not> shares_resume flying ''P'' ''t1''" "shares_resume flying ''P'' ''t4''"
    using flying_shares by (auto simp: shares_resume_def)
  ultimately show ?thesis by (simp add: report)
qed

end
