(* ===== verification/ChildView.thy ===== *)
theory ChildView
  imports ChatProps SubTrack
begin

text \<open>
  From the sidecar to the screen: the list of calls in flight that the spawner reports when a session is
  attached is what the desktop takes to decide which agent calls of the stored history are still running.
\<close>

text \<open>C23: A child that a reopened session shows as running is at work in the sidecar: the call that started
  it is a call of this session whose child is executing, in the background or waited for.\<close>

theorem shown_child_at_work:
  assumes "fresh_moves\<^sup>*\<^sup>* new_spawner s"
    and "jm_get state cwd = Some w" "ws_activeSession w \<noteq> Some sid" "ws_loadingSessionId w = Some sid"
    and "messages = historyToUiMessages date now entries (Some (in_flight s sid))"
    and "jm_get (workspacesReducer ms clock state (Attach cwd sid messages pendingIds (Some (in_flight s sid)) settled)) cwd = Some w'"
    and "e \<in> set (deriveSubagents (ws_messages w') (ws_backgroundSubagents w'))" "is_live e"
  shows "\<exists>t \<in> set (concat (map tools_of messages)). \<exists>c. is_agent_tool t \<and> ut_id t = Some c \<and>
    sb_subSessionId e = Some (readString (ut_details t) ''subSessionId'') \<and>
    ((\<exists>r \<in> set (sp_runs s). br_parent r = sid \<and> br_call r = c \<and> br_phase r = Executing) \<or>
     (\<exists>v \<in> set (sp_calls s). wc_parent v = sid \<and> wc_call v = c \<and> wc_open v))"
proof -
  obtain t c where t: "t \<in> set (concat (map tools_of messages))" "is_agent_tool t" "c \<in> set (in_flight s sid)" "ut_id t = Some c"
    "sb_subSessionId e = Some (readString (ut_details t) ''subSessionId'')"
    using reopened_children_alive [OF assms(2-8)] by blast
  have "(sid, c) \<in> working (sp_runs s) (sp_calls s)"
    using tracks.I_reachable [OF assms(1)] t(3) by (simp add: tracked_def)
  then show ?thesis using t by (intro bexI [OF _ t(1)] exI [of _ c]) (auto simp: working_def)
qed

text \<open>The call of the demonstration history, started in the background and at work.\<close>

definition demo_spawn_events :: "spawner_event list" where
  "demo_spawn_events = [Spawn ''s2'' ''k1'' True True, Launched 0 ''c1'']"

definition demo_spawner :: spawner where
  "demo_spawner = (case fresh_run new_spawner demo_spawn_events of Some s \<Rightarrow> s | None \<Rightarrow> new_spawner)"

lemma demo_spawner_reachable: "fresh_moves\<^sup>*\<^sup>* new_spawner demo_spawner"
proof -
  have "\<not> Option.is_none (fresh_run new_spawner demo_spawn_events)" by code_simp
  then show ?thesis by (auto simp: demo_spawner_def Option.is_none_def intro: fresh_run_moves)
qed

lemma demo_in_flight: "in_flight demo_spawner ''s2'' = [''k1'']"
  by code_simp

theorem shown_child_at_work_witness:
  "is_live demo_child \<and> (\<exists>t \<in> set (concat (map tools_of demo_history)). \<exists>c. is_agent_tool t \<and> ut_id t = Some c \<and>
    sb_subSessionId demo_child = Some (readString (ut_details t) ''subSessionId'') \<and>
    ((\<exists>r \<in> set (sp_runs demo_spawner). br_parent r = ''s2'' \<and> br_call r = c \<and> br_phase r = Executing) \<or>
     (\<exists>v \<in> set (sp_calls demo_spawner). wc_parent v = ''s2'' \<and> wc_call v = c \<and> wc_open v)))"
proof -
  let ?w = "demo_ws\<lparr>ws_loadingSessionId := Some ''s2''\<rparr>"
  have w: "jm_get [(''/w'', ?w)] ''/w'' = Some ?w" by (simp add: jm_get_def)
  have "jm_get (workspacesReducer (\<lambda>_. 0) 1 [(''/w'', ?w)] (Attach ''/w'' ''s2'' demo_history [] (Some [''k1'']) None)) ''/w'' =
      Some (attach_land ''s2'' demo_history [] (Some [''k1'']) None ?w)"
    using w by simp
  moreover have "ws_messages (attach_land ''s2'' demo_history [] (Some [''k1'']) None ?w) = demo_history"
    "ws_backgroundSubagents (attach_land ''s2'' demo_history [] (Some [''k1'']) None ?w) =
      rebuildBackgroundSubagents demo_history (Some [''k1'']) None" by (simp_all add: attach_land_def)
  ultimately show ?thesis
    using shown_child_at_work[OF demo_spawner_reachable w, of "''s2''", unfolded demo_in_flight, OF _ _ demo_history_def,
        of "\<lambda>_. 0" 1 "[]" None, OF _ _ _ _ demo_child_listed(2)] demo_child_listed by simp
qed

end
