(* ===== verification/Spec2Isabelle.thy ===== *)
theory Spec2Isabelle
  imports CommandProps MutGate Broker ImPolicyStore IdemGate PushClient JobDispatch ConvRouter ChatProps DreamSafe SessionProps ChildView
begin

text \<open>
  The sidecar of Taco runs an agent for desktop and chat users. This library covers six
  of its subsystems, one of them up to its end in the desktop client: the permission core, which
  decides whether a command an agent wants to run, a file it wants to write or a path it wants to
  read is allowed, asked about or denied; the push path, which numbers what happens in a session,
  keeps it for replay and brings it to the client without a gap; scheduled jobs, which prompt
  an agent when nobody is there; the memory of a workspace with its consolidation; the registry
  of sessions; and child agents. Paths below are relative
  to \<open>packages/sidecar/src\<close> unless they start with \<open>packages\<close> or \<open>clients\<close>.

  \<^bold>\<open>How the parts interact.\<close> A tool call passes the mutation gate, which asks the workspace
  boundary about paths and, in plan mode, the command policy about shell commands. A shell call
  goes to the permission broker; the broker has the command analysed and evaluated, and parks it
  until the user answers when the verdict is to ask. For a chat, the policy document of its
  channel decides which tools exist at all, where they run and which rules the evaluation gets.
  A request that reaches the server passes the idempotency gate; what the session then does is
  pushed through the event log to the client's processor.

  \<^bold>\<open>Shared theories.\<close>
  \<^item> \<open>TacoPrelude\<close>: JavaScript strings, arrays and insertion-ordered maps (\<open>js_map\<close>), with the
    locale \<open>keyed_store\<close> of map laws and the locale \<open>transition_invariant\<close> through which every
    state machine below gets its invariants.
  \<^item> \<open>JsRegex\<close>: the regular expressions of the sources, a matcher and its specification.
  \<^item> \<open>JsValue\<close>: parsed JSON.
  \<^item> \<open>HostPath\<close>: the functions of \<open>node:path\<close> on POSIX paths; the machine (file system, home
    directory, environment) is the record \<open>host\<close>, a parameter of everything that looks at it.

  \<^bold>\<open>Commands.\<close>
  \<^item> \<open>ShellRules\<close> (\<open>permissions/shellRuleMatching.ts\<close>), \<open>CommandExec\<close> (\<open>commandExecution.ts\<close>),
    \<open>ShellParse\<close> (\<open>shellParser.ts\<close>), \<open>CommandRisk\<close> and \<open>CommandPolicy\<close> (\<open>commandPolicy.ts\<close>): one
    definition per function of the source. The properties are in \<open>CommandProps\<close>: escalation is
    denied, what is allowed was understood completely, deny rules decide, nested commands count,
    read-only evaluation is sound, and every command gets a verdict.
  \<^item> \<open>SessionApproval\<close>: a stored approval is honoured by the evaluation it was stored for.

  \<^bold>\<open>Files.\<close>
  \<^item> \<open>Boundary\<close> (\<open>permissions/workspaceBoundary.ts\<close>, \<open>grantRootSafety.ts\<close>): canonical forms,
    containment, and the check of a directory that is to be granted.
  \<^item> \<open>MutGate\<close> (\<open>permissions/mutationGate.ts\<close>, \<open>tools/fileAccess.ts\<close>, \<open>plan/\<close>): the gate in front of
    tool calls. Writes and fenced reads that pass are contained; plan mode writes plans only.

  \<^bold>\<open>Approval.\<close>
  \<^item> \<open>Broker\<close> (\<open>permissions/permissionBroker.ts\<close>): the broker's state is the record of its pending
    requests, timers and abort listeners, session rules and events; its operations are the steps of
    \<open>broker_step\<close>. A timer or a listener settles the request its closure holds without asking whether it
    is pending, as in the source, so that requests are settled once rests on what \<open>finish\<close> clears.
    Session rules were approved, cleaning up settles all requests.

  \<^bold>\<open>Chat policies.\<close>
  \<^item> \<open>ImRoute\<close> and \<open>ImPolicy\<close> (\<open>channels/imWorkspacePolicy.ts\<close>, \<open>runtime/toolAssembly.ts\<close>,
    \<open>server/imExecutionCwd.ts\<close>): keys, validation, merging, resolution, views, normal form and
    migration of a policy document.
  \<^item> \<open>ImPolicyLaws\<close>: the locales \<open>field_validator\<close> and \<open>field_codec\<close> state what validating, merging
    and writing one field obeys; they are interpreted on the six validators of the source.
  \<^item> \<open>ImPolicyProps\<close> and \<open>ImTools\<close>: the normal form keeps policies, migration only narrows, the
    views show what is enforced, tools fail closed, and chats' directories are safe and disjoint.
  \<^item> \<open>ImPolicyStore\<close> (\<open>channels/imWorkspacePolicyStore.ts\<close>): the files and the queue of writes,
    each of which may fail on the disk; the setters do what they say and no more, a rejected one does
    nothing. A read can queue a migration behind a pending write and revert it
    (\<open>read_reverts_pending_write\<close>).
  \<^item> \<open>ConvRouter\<close> (\<open>channels/conversationRouter.ts\<close>): the routing table of chats. A call waits for the
    server and for the disk, so the steps of \<open>router_step\<close> interleave the calls in flight. A chat has
    one session at a time, and replies reach the chat that asked.

  \<^bold>\<open>Requests and pushes.\<close>
  \<^item> \<open>IdemGate\<close> (\<open>server/commandIdempotency.ts\<close>): the replay of outcomes by command identifier, as
    the steps of \<open>gate_step\<close> on a clock that does not run backwards.
  \<^item> \<open>EventLog\<close> (\<open>server/sessionEventLog.ts\<close>) and \<open>PushTail\<close> (\<open>server/durablePushLog.ts\<close>): the replay
    ring and its tail on disk. The abstract log is the list of all pushes (\<open>spec_replay\<close>); rings,
    batches, files, compaction and restarts refine it. A crash loses buffered pushes only.
  \<^item> \<open>PushClient\<close> (\<open>clients/taco-desktop/src/lib/sessionCursor.ts\<close>, \<open>sessionPushProcessor.ts\<close>):
    deliveries are consecutive whatever the server answers; a gap is closed when the server answers
    from the log of \<open>PushTail\<close> and snapshots succeed.

  \<^bold>\<open>The chat on the desktop\<close> (\<open>clients/taco-desktop/src/lib/chat\<close>).
  \<^item> \<open>ChatUi\<close> (\<open>chatUtils.ts\<close>, \<open>subagentList.ts\<close>): the rows of a chat, the rows made of a stored
    history, the list of child agents and its specification without an index.
  \<^item> \<open>ChatEvents\<close> (\<open>applyEventToMessages.ts\<close>, \<open>workspaceMessagePatches.ts\<close>): what an event does to the
    rows. The text and the tool cards of a turn are the same live and read back.
  \<^item> \<open>ChatState\<close> (\<open>workspaceReducer.ts\<close>): the record \<open>workspace_state\<close>, an action type with the source's
    variants and the reducer, one definition per transition of a workspace.
  \<^item> \<open>ChatProps\<close>: the locale \<open>workspace_view\<close> states that a part of a workspace follows the actions by
    itself; its interpretations are the run flag, the queue, the open requests and the session on
    screen. The properties of runs rest on them.

  \<^bold>\<open>Scheduled jobs.\<close>
  \<^item> \<open>JobStore\<close> (\<open>scheduler/store.ts\<close>, \<open>jobId.ts\<close>, \<open>types.ts\<close>): jobs, their files with the migrations
    of a read, and the operations of the store. Reading twice is reading once.
  \<^item> \<open>Scheduler\<close> (\<open>scheduler/runner.ts\<close>, \<open>cronerAdapter.ts\<close>): the record \<open>scheduler\<close> and the steps
    \<open>fire_step\<close>. A fire is a step that takes the lock and a step that writes the result; job objects
    have addresses because timers share them. \<open>sched_step\<close> adds what others do: they edit files and
    delete jobs, which unlinks the lock of a running one. No job that was not deleted runs twice at a
    time, and the end of a run is recorded on the stored copy, the history excepted.
  \<^item> \<open>JobsControl\<close> (\<open>scheduler/jobsController.ts\<close>) and \<open>JobsRpc\<close> (\<open>server/handlers/jobs.ts\<close>,
    \<open>scheduler/builtinJobs.ts\<close>): the calls; a deletion and a reload are sequences of \<open>sched_step\<close>
    (\<open>delete_steps\<close>, \<open>reload_steps\<close>). Scopes are never forged, an actor reaches its own jobs
    only.
  \<^item> \<open>JobDispatch\<close> (\<open>scheduler/dispatcher.ts\<close>): what a fire sends. The rules of \<open>sends\<close> and \<open>goes\<close>
    follow an action through its requests; a prompt is delivered at most once, also when the pin
    cannot be stored afterwards and the fire fails, and a pinned job settles.

  \<^bold>\<open>Memory\<close> (\<open>memory\<close>).
  \<^item> \<open>MemStore\<close> (\<open>local/store.ts\<close>): topics are files with a front matter, a directory is a map of
    them, each operation one link of the store's chain of writes. A written topic is read back, and
    \<open>store_facts\<close> says what each operation does to the live and the archived files.
  \<^item> \<open>DreamPlan\<close> (\<open>dream/dreamPlan.ts\<close>, \<open>lib/jsonExtract.ts\<close>, \<open>types.ts\<close>): what a model answers becomes
    a plan, is trimmed to the cap on retirements and checked.
  \<^item> \<open>DreamState\<close> (\<open>dream/dreamState.ts\<close>): the files of \<open>.dream\<close>; the lock also as the moves of
    several processes.
  \<^item> \<open>Dream\<close> (\<open>dream/consolidator.ts\<close>): planning, applying, undoing. \<open>DreamProps\<close> has the invariant
    \<open>report_true\<close>: after every action the report tells how the store differs from what it was.
    \<open>DreamRun\<close> and \<open>DreamSafe\<close> draw from it that runs, also crashed ones, are undone by their report,
    that edits win over plans and that the cap holds for what is done.

  \<^bold>\<open>Sessions\<close> (\<open>runtime/session/sessionRegistry.ts\<close>, \<open>sessionLookup.ts\<close>).
  \<^item> \<open>SessionSlots\<close>: the record \<open>registry\<close> holds the chains of promises (\<open>rg_links\<close>, a link has its
    place as its name), the tails of the slots, the attached sessions, the reads that run on attached
    sessions outside the slots, the cached listing and the repository's files and open handles; \<open>registry_step\<close> is what happens between two awaits. Its
    invariant gives every open handle one owner.
  \<^item> \<open>SessionProps\<close>: the repository is never asked for a file that is open, queues drain and no handle
    is leaked; whose title a session shows; the walk to the session on screen.

  \<^bold>\<open>Child agents\<close> (\<open>runtime/subagent\<close>, \<open>agents/filterTools.ts\<close>).
  \<^item> \<open>SubChild\<close> (\<open>filterTools.ts\<close>, \<open>childAttach.ts\<close>, \<open>subagentRunner.ts\<close>, \<open>subagentProgress.ts\<close>,
    \<open>session/sessionFacts.ts\<close>): what a child gets and gives back. Its tools are narrowed, its answers
    have no control tags. A child is continued with the tools it was started with
    (\<open>resumed_as_spawned\<close>), if its session holds its depth.
  \<^item> \<open>SubSpawn\<close> (\<open>agentSpawner.ts\<close>, \<open>subagentDelivery.ts\<close>, \<open>subagentPending.ts\<close>): the record \<open>spawner\<close> and
    the steps \<open>spawner_step\<close> of background children, of calls that wait for a child, of flushes, stops
    and restarts. \<open>SubSpawnProps\<close> reduces runs to a ledger of calls and stages: there are at most eight,
    each end is announced once, a recorded notice is kept until it is delivered.
  \<^item> \<open>SubTrack\<close>: the calls in flight that are reported are those with a child at work, except the calls
    that share the resume of another (\<open>sp_shared\<close>).
    \<open>ChildView\<close> follows them to the desktop: a child shown as running in a reopened session is at work.

  \<^bold>\<open>Parameters.\<close> The tree that tree-sitter makes of a command, the file system, SHA-256, the JSON
  text of a push frame (\<open>push_codec\<close>, with the law \<open>codec_ok\<close> that a frame is read back from its
  line; \<open>line_codec\<close> is a codec that has it), the client's server, snapshots and clock; the server a
  job's fire talks to (\<open>honest_server\<close> states what a server that keeps its promises does, and
  \<open>demo_dispatch\<close> is one), Croner's next run, the processes that are alive, the order of
  \<open>localeCompare\<close>; for memory, the answer of the model, the parsers of JSON and of dates, the texts of
  the clock (\<open>iso_clock\<close>: one line, and characters a report's name may have) and what others write
  to the store while the model answers.

  \<^bold>\<open>Bounds and fuel.\<close> The analyser's own limits on length, nodes and depth are those of the
  source, and nested commands are followed to its depth of eight; the recursions they bound end
  without fuel. \<open>recoverGap\<close> and \<open>resync\<close> of the client may call themselves for ever; their fuel
  is the depth of these calls, two are proved to be enough against an honest server, and
  \<open>stale_replay_never_returns\<close> shows a server against which none is. Characters are those of
  Latin-1, so a text length is a number of UTF-16 units; Windows paths are left out.

  \<^bold>\<open>Assumptions to know.\<close> A ring is hydrated before the first push of a new process, as the server
  does when a client attaches. The operations on one tail file are queued behind one another in
  the code and are single steps here. Two setters of a policy are described one after the other;
  \<open>concurrent_setters_lose_a_patch\<close> shows what happens otherwise. Job files hold fields of the types
  of their schema. A process starts its scheduler once, before anything fires. The
  deletion of a job removes its lock, so \<open>one_fire_per_job\<close> and \<open>run_recorded\<close> are about jobs that were
  not deleted; \<open>deleted_job_overlaps\<close> and \<open>timer_leaked\<close> describe what is left of a deleted one.

  A consolidation reads the real clock once. Others write to the store while the model answers, but not
  between two writes of the run; no topic file is called just \<open>.md\<close>.

  Sessions are named by their full identifiers, all of one length, and a creation by a fresh one;
  \<open>prefix_escapes_slot\<close> shows what a prefix does. In the two properties of the registry a close does
  not fail; \<open>failed_close_locks_file\<close> shows one that does, and \<open>read_on_closed_handle\<close> a read on an
  attached session that is detached meanwhile.

  The operations on one parent's record of notices are queued behind one another in the code and are
  single steps. Identifiers of tool calls are not used twice in \<open>in_flight_truthful\<close>.

  \<^bold>\<open>Not modelled.\<close> The agent runtime (compaction, the tools of an attached session, prompts), which
  drives a third-party harness; children on Claude Code; the wiring of the server; the connections of chat channels; the extraction of memories and
  the job around consolidation; tasks, extensions and settings; the user interface.
\<close>

end
